(* ===== verification/Prelude.thy ===== *)
theory Prelude
  imports Main "HOL-Library.Word" "HOL-Library.Monad_Syntax"
begin

text \<open>
  Shared vocabulary of the development: the C integer types, the flat byte memory that the
  file system lays its blocks and directories over, little-endian 32-bit values in that
  memory, C strings (lists of characters without the terminating NUL), and the lemmas on
  lists, memories and words that the component theories use.

  A byte is a HOL \<^typ>\<open>char\<close>: it has exactly 256 values, file contents and names are then
  ordinary strings, and \<^term>\<open>of_char\<close>, \<^term>\<open>char_of\<close> convert to numbers.

  Undefined behaviour of C (an access outside an array, a division by zero) is the value
  \<^term>\<open>None\<close> of an option; the operations are composed with the option monad, so that an
  undefined access anywhere in a call makes the whole call undefined.
\<close>

unbundle bit_operations_syntax

named_theorems frame_simps \<open>fields an operation leaves alone\<close>
named_theorems const_simps \<open>numeric values of the C constants\<close>

type_synonym uint8 = "8 word"
type_synonym uint16 = "16 word"
type_synonym uint32 = "32 word"
type_synonym byte_mem = "nat \<Rightarrow> char"

abbreviation NUL :: char where
  "NUL \<equiv> CHR 0x00"

text \<open>A C string never holds its terminator.\<close>

definition cstring :: "string \<Rightarrow> bool" where
  "cstring s \<longleftrightarrow> NUL \<notin> set s"

lemma cstring_simps [simp]:
  "cstring []"
  "cstring (c # s) \<longleftrightarrow> c \<noteq> NUL \<and> cstring s"
  "cstring (s @ t) \<longleftrightarrow> cstring s \<and> cstring t"
  by (auto simp: cstring_def)

lemma cstring_take [simp]: "cstring s \<Longrightarrow> cstring (take n s)"
  by (auto simp: cstring_def dest: in_set_takeD)

lemma cstring_drop [simp]: "cstring s \<Longrightarrow> cstring (drop n s)"
  by (auto simp: cstring_def dest: in_set_dropD)


section \<open>Guards\<close>

text \<open>An access that is defined only under a condition.\<close>

definition guard :: "bool \<Rightarrow> unit option" where
  "guard b = (if b then Some () else None)"

lemma guard_simps [simp]:
  "guard True = Some ()"
  "guard False = None"
  by (simp_all add: guard_def)

lemma guard_eq_Some [simp]: "guard b = Some u \<longleftrightarrow> b"
  by (simp add: guard_def)

lemma guard_bind_eq_Some [simp]: "(guard b \<bind> f) = Some x \<longleftrightarrow> b \<and> f () = Some x"
  by (cases b) auto

lemma bind_Some_elim:
  assumes "(m \<bind> f) = Some y"
  obtains x where "m = Some x" and "f x = Some y"
  using assms by (cases m) auto


text \<open>
  \<open>post m Q\<close>: if the computation \<open>m\<close> is defined, its result satisfies \<open>Q\<close>. The rules
  below decompose a monadic program the way its code is nested.
\<close>

definition post :: "'a option \<Rightarrow> ('a \<Rightarrow> bool) \<Rightarrow> bool" where
  "post m Q \<longleftrightarrow> (\<forall>x. m = Some x \<longrightarrow> Q x)"

named_theorems post_intros \<open>decomposition of a monadic program\<close>

lemma post_None [simp, post_intros]: "post None Q"
  by (simp add: post_def)

lemma post_Some [simp]: "post (Some x) Q \<longleftrightarrow> Q x"
  by (simp add: post_def)

lemma post_SomeI [post_intros]: "Q x \<Longrightarrow> post (Some x) Q"
  by simp

lemma postD: "post m Q \<Longrightarrow> m = Some x \<Longrightarrow> Q x"
  by (simp add: post_def)

lemma post_mono: "post m P \<Longrightarrow> (\<And>x. P x \<Longrightarrow> Q x) \<Longrightarrow> post m Q"
  by (simp add: post_def)

lemma post_bind: "post m P \<Longrightarrow> (\<And>x. P x \<Longrightarrow> post (f x) Q) \<Longrightarrow> post (m \<bind> f) Q"
  by (cases m) (auto simp: post_def)

lemma post_bind_eq: "(\<And>x. m = Some x \<Longrightarrow> post (f x) Q) \<Longrightarrow> post (m \<bind> f) Q"
  by (cases m) (auto simp: post_def)

lemma post_guard [post_intros]: "(b \<Longrightarrow> post (f ()) Q) \<Longrightarrow> post (guard b \<bind> f) Q"
  by (cases b) auto

lemma post_if [post_intros]:
  "(b \<Longrightarrow> post m Q) \<Longrightarrow> (\<not> b \<Longrightarrow> post m' Q) \<Longrightarrow> post (if b then m else m') Q"
  by simp

lemma post_option [post_intros]:
  "(x = None \<Longrightarrow> post m Q) \<Longrightarrow> (\<And>y. x = Some y \<Longrightarrow> post (f y) Q) \<Longrightarrow>
   post (case x of None \<Rightarrow> m | Some y \<Rightarrow> f y) Q"
  by (cases x) auto

lemma post_sum [post_intros]:
  "(\<And>y. x = Inl y \<Longrightarrow> post (f y) Q) \<Longrightarrow> (\<And>y. x = Inr y \<Longrightarrow> post (g y) Q) \<Longrightarrow>
   post (case x of Inl y \<Rightarrow> f y | Inr y \<Rightarrow> g y) Q"
  by (cases x) auto

lemma post_prod [post_intros]:
  "(\<And>y z. x = (y, z) \<Longrightarrow> post (f y z) Q) \<Longrightarrow> post (case x of (y, z) \<Rightarrow> f y z) Q"
  by (cases x) auto

lemma post_let [post_intros]: "(\<And>y. y = x \<Longrightarrow> post (f y) Q) \<Longrightarrow> post (Let x f) Q"
  by simp


section \<open>Byte memory\<close>

definition mem_get :: "byte_mem \<Rightarrow> nat \<Rightarrow> nat \<Rightarrow> string" where
  "mem_get m a n = map m [a..<a + n]"

definition mem_put :: "byte_mem \<Rightarrow> nat \<Rightarrow> string \<Rightarrow> byte_mem" where
  "mem_put m a bs = (\<lambda>x. if a \<le> x \<and> x < a + length bs then bs ! (x - a) else m x)"

lemma length_mem_get [simp]: "length (mem_get m a n) = n"
  by (simp add: mem_get_def)

lemma nth_mem_get [simp]: "i < n \<Longrightarrow> mem_get m a n ! i = m (a + i)"
  by (simp add: mem_get_def)

lemma mem_get_0 [simp]: "mem_get m a 0 = []"
  by (simp add: mem_get_def)

lemma mem_get_eq_iff: "mem_get m a n = mem_get m' a n \<longleftrightarrow> (\<forall>i<n. m (a + i) = m' (a + i))"
  by (simp add: list_eq_iff_nth_eq)

lemma mem_get_add: "mem_get m a (n + k) = mem_get m a n @ mem_get m (a + n) k"
  by (rule nth_equalityI) (auto simp: nth_append)

lemma mem_put_Nil [simp]: "mem_put m a [] = m"
  by (rule ext) (auto simp: mem_put_def)

lemma mem_put_in [simp]: "i < length bs \<Longrightarrow> mem_put m a bs (a + i) = bs ! i"
  by (simp add: mem_put_def)

lemma mem_put_out: "x < a \<or> a + length bs \<le> x \<Longrightarrow> mem_put m a bs x = m x"
  by (auto simp: mem_put_def)

lemma mem_get_put_same [simp]: "n = length bs \<Longrightarrow> mem_get (mem_put m a bs) a n = bs"
  by (rule nth_equalityI) auto

lemma mem_get_put_other:
  "a + length bs \<le> b \<or> b + n \<le> a \<Longrightarrow> mem_get (mem_put m a bs) b n = mem_get m b n"
  by (rule nth_equalityI) (auto simp: mem_put_out)

lemma mem_put_get_same [simp]: "mem_put m a (mem_get m a n) = m"
  by (rule ext) (auto simp: mem_put_def)

lemma mem_put_append:
  "mem_put (mem_put m a bs) (a + length bs) cs = mem_put m a (bs @ cs)"
  by (rule ext) (auto simp: mem_put_def nth_append)

lemma mem_put_swap:
  "a + length bs \<le> b \<or> b + length cs \<le> a \<Longrightarrow>
   mem_put (mem_put m a bs) b cs = mem_put (mem_put m b cs) a bs"
  by (rule ext) (auto simp: mem_put_def)


section \<open>Little-endian 32-bit values\<close>

definition u32_bytes :: "uint32 \<Rightarrow> string" where
  "u32_bytes w =
     [char_of (unat w), char_of (unat w div 256), char_of (unat w div 65536),
      char_of (unat w div 16777216)]"

definition bytes_u32 :: "string \<Rightarrow> uint32" where
  "bytes_u32 bs =
     word_of_nat (of_char (bs ! 0) + 256 * of_char (bs ! 1) + 65536 * of_char (bs ! 2) +
                  16777216 * of_char (bs ! 3))"

lemma length_u32_bytes [simp]: "length (u32_bytes w) = 4"
  by (simp add: u32_bytes_def)

lemma base256_sum:
  fixes n :: nat
  assumes "n = r0 + 256 * d1" and "d1 = r1 + 256 * d2" and "d2 = r2 + 256 * d3"
  shows "r0 + 256 * r1 + 65536 * r2 + 16777216 * d3 = n"
  using assms by simp

lemma base256_digits:
  fixes n :: nat
  assumes "n < 4294967296"
  shows "n mod 256 + 256 * (n div 256 mod 256) + 65536 * (n div 65536 mod 256) +
         16777216 * (n div 16777216 mod 256) = n"
proof -
  have step: "k = k mod 256 + 256 * (k div 256)" for k :: nat
    by simp
  have top: "n div 16777216 mod 256 = n div 16777216"
    using assms by simp
  have "n div 65536 = n div 65536 mod 256 + 256 * (n div 16777216)"
    using step [of "n div 65536"] by (simp add: div_mult2_eq [symmetric])
  moreover have "n div 256 = n div 256 mod 256 + 256 * (n div 65536)"
    using step [of "n div 256"] by (simp add: div_mult2_eq [symmetric])
  ultimately show ?thesis
    unfolding top by (intro base256_sum [OF step])
qed

lemma bytes_u32_bytes [simp]: "bytes_u32 (u32_bytes w) = w"
proof -
  have "unat w < 4294967296"
    using unsigned_less [of w] by simp
  then have "of_char (u32_bytes w ! 0) + 256 * of_char (u32_bytes w ! 1) +
      65536 * of_char (u32_bytes w ! 2) + 16777216 * of_char (u32_bytes w ! 3) = unat w"
    using base256_digits by (simp add: u32_bytes_def del: mod_less)
  then show ?thesis
    unfolding bytes_u32_def by simp
qed

definition mem_get32 :: "byte_mem \<Rightarrow> nat \<Rightarrow> uint32" where
  "mem_get32 m a = bytes_u32 (mem_get m a 4)"

definition mem_put32 :: "byte_mem \<Rightarrow> nat \<Rightarrow> uint32 \<Rightarrow> byte_mem" where
  "mem_put32 m a w = mem_put m a (u32_bytes w)"

lemma mem_get32_put32 [simp]: "mem_get32 (mem_put32 m a w) a = w"
  by (simp add: mem_get32_def mem_put32_def)

lemma mem_get32_put_other:
  "a + length bs \<le> b \<or> b + 4 \<le> a \<Longrightarrow> mem_get32 (mem_put m a bs) b = mem_get32 m b"
  by (simp add: mem_get32_def mem_get_put_other)

lemma mem_get_put32_other:
  "a + 4 \<le> b \<or> b + n \<le> a \<Longrightarrow> mem_get (mem_put32 m a w) b n = mem_get m b n"
  by (simp add: mem_put32_def mem_get_put_other)

lemma mem_get32_put32_other:
  "a + 4 \<le> b \<or> b + 4 \<le> a \<Longrightarrow> mem_get32 (mem_put32 m a w) b = mem_get32 m b"
  by (simp add: mem_get32_def mem_get_put32_other)


section \<open>Words read as \<^verbatim>\<open>int\<close>\<close>

lemma sint_small:
  assumes "unat (w :: uint32) < 2147483648"
  shows "sint w = int (unat w)"
proof -
  have "int (unat w) < int 2147483648"
    using assms by (simp only: of_nat_less_iff)
  then have hi: "uint w < 2 ^ 31" by simp
  have lo: "- (2 ^ 31) \<le> uint w"
    by (rule order_trans [of _ 0]) simp_all
  have "signed_take_bit 31 (uint w) = uint w"
    using lo hi by (rule signed_take_bit_int_eq_self)
  then show ?thesis by (simp add: sint_uint)
qed


section \<open>C strings\<close>

text \<open>The bytes \<^verbatim>\<open>strncpy(dst, s, n)\<close> stores: the string, then NUL padding up to \<open>n\<close>.\<close>

definition strncpy_bytes :: "string \<Rightarrow> nat \<Rightarrow> string" where
  "strncpy_bytes s n = take n (s @ replicate n NUL)"

lemma length_strncpy_bytes [simp]: "length (strncpy_bytes s n) = n"
  by (simp add: strncpy_bytes_def)

lemma nth_strncpy_bytes:
  "i < n \<Longrightarrow> strncpy_bytes s n ! i = (if i < length s then s ! i else NUL)"
  by (simp add: strncpy_bytes_def nth_append)

text \<open>Up to the first NUL: the C string a character array holds.\<close>

definition cstr_of :: "string \<Rightarrow> string" where
  "cstr_of bs = takeWhile (\<lambda>c. c \<noteq> NUL) bs"

lemma cstring_cstr_of [simp]: "cstring (cstr_of bs)"
  by (auto simp: cstring_def cstr_of_def dest: set_takeWhileD)

lemma length_cstr_of: "length (cstr_of bs) \<le> length bs"
  by (simp add: cstr_of_def length_takeWhile_le)

lemma cstr_of_strncpy [simp]:
  assumes "cstring s" and "length s < n"
  shows "cstr_of (strncpy_bytes s n) = s"
proof -
  obtain k where n: "n = length s + Suc k"
    using assms(2) less_imp_Suc_add by force
  have *: "strncpy_bytes s n = s @ NUL # replicate k NUL"
    using n by (simp add: strncpy_bytes_def take_Cons' take_replicate flip: replicate_Suc)
  have "\<And>c. c \<in> set s \<Longrightarrow> c \<noteq> NUL"
    using assms(1) by (auto simp: cstring_def)
  then show ?thesis
    by (simp add: * cstr_of_def takeWhile_append2)
qed


section \<open>Tokens of a path\<close>

text \<open>
  \<^verbatim>\<open>strtok(s, "/")\<close> called until it returns NULL: the maximal runs of characters other
  than the separator, in order.
\<close>

function strtok_all :: "char \<Rightarrow> string \<Rightarrow> string list" where
  "strtok_all sep [] = []"
| "strtok_all sep (c # s) =
     (if c = sep then strtok_all sep s
      else (c # takeWhile (\<lambda>x. x \<noteq> sep) s) # strtok_all sep (dropWhile (\<lambda>x. x \<noteq> sep) s))"
  by pat_completeness auto
termination
  by (relation "measure (\<lambda>(sep, s). length s)") (auto simp: less_Suc_eq_le length_dropWhile_le)

lemma strtok_all_sep: "t \<in> set (strtok_all sep s) \<Longrightarrow> sep \<notin> set t \<and> t \<noteq> []"
  by (induction sep s rule: strtok_all.induct) (auto split: if_splits dest: set_takeWhileD)

lemma strtok_all_sub: "t \<in> set (strtok_all sep s) \<Longrightarrow> set t \<subseteq> set s"
proof (induction sep s rule: strtok_all.induct)
  case (2 sep c s)
  then show ?case
    by (auto split: if_splits dest!: set_takeWhileD set_dropWhileD)
qed simp


section \<open>Lists and counting\<close>

lemma count_list_list_update:
  "i < length xs \<Longrightarrow>
   count_list (xs[i := y]) x + (if xs ! i = x then 1 else 0) =
   count_list xs x + (if y = x then 1 else 0)"
proof (induction xs arbitrary: i)
  case (Cons z zs)
  show ?case
  proof (cases i)
    case 0
    then show ?thesis by simp
  next
    case (Suc j)
    with Cons.prems Cons.IH [of j] show ?thesis by (simp split: if_splits)
  qed
qed simp

lemma count_list_upd_other:
  "i < length xs \<Longrightarrow> xs ! i \<noteq> x \<Longrightarrow> y = x \<Longrightarrow> count_list (xs[i := y]) x = Suc (count_list xs x)"
  using count_list_list_update [of i xs y x] by simp

lemma count_list_upd_same:
  "i < length xs \<Longrightarrow> xs ! i = x \<Longrightarrow> y \<noteq> x \<Longrightarrow> Suc (count_list (xs[i := y]) x) = count_list xs x"
  using count_list_list_update [of i xs y x] by simp

lemma count_list_le_length: "count_list xs x \<le> length xs"
  by (induction xs) auto

lemma count_list_replicate: "count_list (replicate n y) x = (if y = x then n else 0)"
  by (induction n) auto

end
