(* ===== verification/Fs_Types.thy ===== *)
theory Fs_Types
  imports Prelude
begin

text \<open>
  The data of the file system (\<^verbatim>\<open>src/TP File System/src/*.h\<close>): the configuration
  constants, the superblock, the intmap, the inode, and the whole \<^verbatim>\<open>filesystem_t\<close>.

  \<^verbatim>\<open>data_block_t data_block[MAX_BLOCKS]\<close> is one flat array of
  \<open>MAX_BLOCKS * BLOCK_SIZE\<close> bytes: block \<open>b\<close> starts at byte \<open>b * BLOCK_SIZE\<close>.
  The directory code overlays a \<^verbatim>\<open>directory_t\<close> of 36868 bytes on a block of 4096 bytes, so
  its accesses reach into the following blocks; the flat array shows exactly that. An access
  outside the array is undefined.

  A pointer to an inode is its index in the inode table; a pointer to a directory is the byte
  address of its first byte in the block array. Structures are passed by value and returned
  updated, so the \<^verbatim>\<open>NULL\<close> tests of the C code on pointers to structures have no counterpart
  here, except where the pointer can really be null (the private data of FUSE, the result of
  \<^verbatim>\<open>get_directory_by_inode\<close>).
\<close>

abbreviation (input) MAX_INODES :: nat where "MAX_INODES \<equiv> 128"
abbreviation (input) MAX_BLOCKS :: nat where "MAX_BLOCKS \<equiv> 1024"
abbreviation (input) BLOCK_SIZE :: nat where "BLOCK_SIZE \<equiv> 4096"
abbreviation (input) MAX_FILENAME_LEN :: nat where "MAX_FILENAME_LEN \<equiv> 32"
abbreviation (input) MAX_PATH_LEN :: nat where "MAX_PATH_LEN \<equiv> 256"
abbreviation (input) MAX_DIR_DEPTH :: nat where "MAX_DIR_DEPTH \<equiv> 16"
abbreviation (input) NUM_DIRECT_BLOCKS :: nat where "NUM_DIRECT_BLOCKS \<equiv> 12"

abbreviation (input) PERM_READ :: "'a::len word" where "PERM_READ \<equiv> 4"
abbreviation (input) PERM_WRITE :: "'a::len word" where "PERM_WRITE \<equiv> 2"
abbreviation (input) PERM_EXEC :: "'a::len word" where "PERM_EXEC \<equiv> 1"
abbreviation (input) PERM_RWX :: "'a::len word" where "PERM_RWX \<equiv> 7"

text \<open>\<^verbatim>\<open>FS_MODE_*\<close> are octal: 0040000, 0100000, 0120000.\<close>

abbreviation (input) FS_MODE_DIR :: uint32 where "FS_MODE_DIR \<equiv> 16384"
abbreviation (input) FS_MODE_FILE :: uint32 where "FS_MODE_FILE \<equiv> 32768"
abbreviation (input) FS_MODE_SYMLINK :: uint32 where "FS_MODE_SYMLINK \<equiv> 40960"

text \<open>The error numbers of Linux that the code returns negated.\<close>

abbreviation (input) EPERM :: int where "EPERM \<equiv> 1"
abbreviation (input) ENOENT :: int where "ENOENT \<equiv> 2"
abbreviation (input) EIO :: int where "EIO \<equiv> 5"
abbreviation (input) EACCES :: int where "EACCES \<equiv> 13"
abbreviation (input) EEXIST :: int where "EEXIST \<equiv> 17"
abbreviation (input) ENOTDIR :: int where "ENOTDIR \<equiv> 20"
abbreviation (input) EISDIR :: int where "EISDIR \<equiv> 21"
abbreviation (input) EINVAL :: int where "EINVAL \<equiv> 22"
abbreviation (input) ENOSPC :: int where "ENOSPC \<equiv> 28"
abbreviation (input) ENAMETOOLONG :: int where "ENAMETOOLONG \<equiv> 36"
abbreviation (input) ENOTEMPTY :: int where "ENOTEMPTY \<equiv> 39"

record superblock =
  total_inodes :: uint32
  total_blocks :: uint32
  free_inodes_count :: uint32
  free_blocks_count :: uint32
  block_size_bytes :: uint32
  max_file_size_bytes :: uint32
  max_filename_length :: uint32
  max_path_length :: uint32
  root_inode_number :: uint32

record intmap =
  bm_inodes :: "uint8 list"
  bm_blocks :: "uint8 list"

datatype inode_kind = INODE_FILE | INODE_DIR | INODE_SYMLINK

record inode =
  file_size_bytes :: uint32
  owner_user_id :: uint16
  owner_group_id :: uint16
  permission_bits :: uint16
  last_access_time :: int
  last_modification_time :: int
  last_metadata_change_time :: int
  hard_links_count :: uint16
  direct_block_ptrs :: "uint32 list"
  inode_type :: inode_kind

record filesystem =
  fs_inodes :: "inode list"
  fs_intmap :: intmap
  fs_super :: superblock
  data_block :: byte_mem

text \<open>
  What the operating system answers during one call: \<^verbatim>\<open>getuid()\<close>, \<^verbatim>\<open>getgid()\<close> and the
  clock. One call of the file system reads the clock within one second, so \<^verbatim>\<open>time()\<close> has one
  value per call.
\<close>

record os_env =
  os_uid :: uint32
  os_gid :: uint32
  os_time :: int

text \<open>The unused block pointer: \<^verbatim>\<open>-1\<close> stored in a \<^verbatim>\<open>uint32_t\<close>.\<close>

abbreviation (input) NO_BLOCK :: uint32 where "NO_BLOCK \<equiv> - 1"

abbreviation (input) DATA_SIZE :: nat where "DATA_SIZE \<equiv> 4194304"

lemma DATA_SIZE_eq: "DATA_SIZE = MAX_BLOCKS * BLOCK_SIZE"
  by simp

text \<open>\<^verbatim>\<open>&fs->data_block[b].data\<close>, undefined for a block number outside the array.\<close>

definition block_addr :: "int \<Rightarrow> nat option" where
  "block_addr b = (if 0 \<le> b \<and> b < int MAX_BLOCKS then Some (BLOCK_SIZE * nat b) else None)"

lemma block_addr_int [simp]: "b < MAX_BLOCKS \<Longrightarrow> block_addr (int b) = Some (BLOCK_SIZE * b)"
  by (simp add: block_addr_def)

lemma block_addr_SomeD: "block_addr b = Some a \<Longrightarrow> a = BLOCK_SIZE * nat b \<and> 0 \<le> b \<and> nat b < MAX_BLOCKS"
  by (auto simp: block_addr_def split: if_splits)

text \<open>\<^verbatim>\<open>&fs->inodes[i]\<close> that is read or written, undefined for an index outside the table.\<close>

definition inode_at :: "filesystem \<Rightarrow> int \<Rightarrow> inode option" where
  "inode_at fs i = (if 0 \<le> i \<and> i < int MAX_INODES then Some (fs_inodes fs ! nat i) else None)"

lemma inode_at_int [simp]: "i < MAX_INODES \<Longrightarrow> inode_at fs (int i) = Some (fs_inodes fs ! i)"
  by (simp add: inode_at_def)

lemma inode_at_SomeD:
  "inode_at fs i = Some ino \<Longrightarrow> 0 \<le> i \<and> nat i < MAX_INODES \<and> ino = fs_inodes fs ! nat i"
  by (auto simp: inode_at_def split: if_splits)

definition upd_inode :: "nat \<Rightarrow> (inode \<Rightarrow> inode) \<Rightarrow> filesystem \<Rightarrow> filesystem" where
  "upd_inode i f fs = fs\<lparr>fs_inodes := (fs_inodes fs)[i := f (fs_inodes fs ! i)]\<rparr>"

lemma upd_inode_frame [simp, frame_simps]:
  "fs_intmap (upd_inode i f fs) = fs_intmap fs"
  "fs_super (upd_inode i f fs) = fs_super fs"
  "data_block (upd_inode i f fs) = data_block fs"
  "length (fs_inodes (upd_inode i f fs)) = length (fs_inodes fs)"
  by (simp_all add: upd_inode_def)

lemma upd_inode_nth [simp]:
  "i < length (fs_inodes fs) \<Longrightarrow>
   fs_inodes (upd_inode i f fs) ! j = (if j = i then f (fs_inodes fs ! i) else fs_inodes fs ! j)"
  by (simp add: upd_inode_def)

lemma upd_inode_comp: "upd_inode i g (upd_inode i f fs) = upd_inode i (g \<circ> f) fs"
  by (cases "i < length (fs_inodes fs)") (simp_all add: upd_inode_def list_update_beyond)

definition upd_super :: "(superblock \<Rightarrow> superblock) \<Rightarrow> filesystem \<Rightarrow> filesystem" where
  "upd_super f fs = fs\<lparr>fs_super := f (fs_super fs)\<rparr>"

definition upd_intmap :: "(intmap \<Rightarrow> intmap) \<Rightarrow> filesystem \<Rightarrow> filesystem" where
  "upd_intmap f fs = fs\<lparr>fs_intmap := f (fs_intmap fs)\<rparr>"

definition upd_data :: "byte_mem \<Rightarrow> filesystem \<Rightarrow> filesystem" where
  "upd_data m fs = fs\<lparr>data_block := m\<rparr>"

lemma upd_super_frame [simp, frame_simps]:
  "fs_inodes (upd_super f fs) = fs_inodes fs"
  "fs_intmap (upd_super f fs) = fs_intmap fs"
  "fs_super (upd_super f fs) = f (fs_super fs)"
  "data_block (upd_super f fs) = data_block fs"
  by (simp_all add: upd_super_def)

lemma upd_intmap_frame [simp, frame_simps]:
  "fs_inodes (upd_intmap f fs) = fs_inodes fs"
  "fs_intmap (upd_intmap f fs) = f (fs_intmap fs)"
  "fs_super (upd_intmap f fs) = fs_super fs"
  "data_block (upd_intmap f fs) = data_block fs"
  by (simp_all add: upd_intmap_def)

lemma upd_data_frame [simp, frame_simps]:
  "fs_inodes (upd_data m fs) = fs_inodes fs"
  "fs_intmap (upd_data m fs) = fs_intmap fs"
  "fs_super (upd_data m fs) = fs_super fs"
  "data_block (upd_data m fs) = m"
  by (simp_all add: upd_data_def)

text \<open>The four counter statements of the C code: \<^verbatim>\<open>free_*_count++\<close> and \<^verbatim>\<open>--\<close>, modulo 2 to the 32.\<close>

definition inc_free_inodes :: "filesystem \<Rightarrow> filesystem" where
  "inc_free_inodes = upd_super (free_inodes_count_update (\<lambda>n. n + 1))"

definition dec_free_inodes :: "filesystem \<Rightarrow> filesystem" where
  "dec_free_inodes = upd_super (free_inodes_count_update (\<lambda>n. n - 1))"

definition inc_free_blocks :: "filesystem \<Rightarrow> filesystem" where
  "inc_free_blocks = upd_super (free_blocks_count_update (\<lambda>n. n + 1))"

definition dec_free_blocks :: "filesystem \<Rightarrow> filesystem" where
  "dec_free_blocks = upd_super (free_blocks_count_update (\<lambda>n. n - 1))"

lemmas counter_defs = inc_free_inodes_def dec_free_inodes_def inc_free_blocks_def
  dec_free_blocks_def

lemma counter_frame [simp, frame_simps]:
  "fs_inodes (inc_free_inodes fs) = fs_inodes fs"
  "fs_intmap (inc_free_inodes fs) = fs_intmap fs"
  "data_block (inc_free_inodes fs) = data_block fs"
  "fs_inodes (dec_free_inodes fs) = fs_inodes fs"
  "fs_intmap (dec_free_inodes fs) = fs_intmap fs"
  "data_block (dec_free_inodes fs) = data_block fs"
  "fs_inodes (inc_free_blocks fs) = fs_inodes fs"
  "fs_intmap (inc_free_blocks fs) = fs_intmap fs"
  "data_block (inc_free_blocks fs) = data_block fs"
  "fs_inodes (dec_free_blocks fs) = fs_inodes fs"
  "fs_intmap (dec_free_blocks fs) = fs_intmap fs"
  "data_block (dec_free_blocks fs) = data_block fs"
  by (simp_all add: counter_defs)

end
