(* ===== verification/Intmap.thy ===== *)
theory Intmap
  imports Fs_Types
begin

text \<open>
  The allocation maps of inodes and blocks (\<^verbatim>\<open>src/TP File System/src/intmap.c\<close>). Each entry
  is a byte that is nonzero when the inode or block is in use. The interface \<open>slot_map\<close> states
  what the rest of the file system relies on; both maps are shown to provide it.
\<close>

section \<open>The operations\<close>

definition intmap_init :: intmap where
  "intmap_init = \<lparr>bm_inodes = replicate MAX_INODES 0, bm_blocks = replicate MAX_BLOCKS 0\<rparr>"

definition is_inode_used :: "intmap \<Rightarrow> nat \<Rightarrow> int" where
  "is_inode_used bm i =
     (if i \<ge> MAX_INODES then - 1 else if bm_inodes bm ! i \<noteq> 0 then 1 else 0)"

definition set_inode_used :: "nat \<Rightarrow> intmap \<Rightarrow> intmap" where
  "set_inode_used i bm =
     (if i \<ge> MAX_INODES then bm else bm\<lparr>bm_inodes := (bm_inodes bm)[i := 1]\<rparr>)"

definition clear_inode_used :: "nat \<Rightarrow> intmap \<Rightarrow> intmap" where
  "clear_inode_used i bm =
     (if i \<ge> MAX_INODES then bm else bm\<lparr>bm_inodes := (bm_inodes bm)[i := 0]\<rparr>)"

text \<open>The search loop all \<^verbatim>\<open>find\<close> functions share: the first index in \<open>[i, n)\<close> that is not used.\<close>

function scan_free :: "(nat \<Rightarrow> int) \<Rightarrow> nat \<Rightarrow> nat \<Rightarrow> int" where
  "scan_free used i n =
     (if i < n then if used i = 0 then int i else scan_free used (Suc i) n else - 1)"
  by pat_completeness auto
termination
  by (relation "measure (\<lambda>(used, i, n). n - i)") auto

declare scan_free.simps [simp del]

definition find_free_inode :: "intmap \<Rightarrow> int" where
  "find_free_inode bm = scan_free (is_inode_used bm) 1 MAX_INODES"

definition is_block_used :: "intmap \<Rightarrow> nat \<Rightarrow> int" where
  "is_block_used bm b =
     (if b \<ge> MAX_BLOCKS then - 1 else if bm_blocks bm ! b \<noteq> 0 then 1 else 0)"

definition set_block_used :: "nat \<Rightarrow> intmap \<Rightarrow> intmap" where
  "set_block_used b bm =
     (if b \<ge> MAX_BLOCKS then bm else bm\<lparr>bm_blocks := (bm_blocks bm)[b := 1]\<rparr>)"

definition clear_block_used :: "nat \<Rightarrow> intmap \<Rightarrow> intmap" where
  "clear_block_used b bm =
     (if b \<ge> MAX_BLOCKS then bm else bm\<lparr>bm_blocks := (bm_blocks bm)[b := 0]\<rparr>)"

definition find_free_block :: "intmap \<Rightarrow> int" where
  "find_free_block bm = scan_free (is_block_used bm) 0 MAX_BLOCKS"

definition free_inodes :: "intmap \<Rightarrow> nat" where
  "free_inodes bm = count_list (bm_inodes bm) 0"

definition free_blocks :: "intmap \<Rightarrow> nat" where
  "free_blocks bm = count_list (bm_blocks bm) 0"

definition intmap_wf :: "intmap \<Rightarrow> bool" where
  "intmap_wf bm \<longleftrightarrow> length (bm_inodes bm) = MAX_INODES \<and> length (bm_blocks bm) = MAX_BLOCKS"

lemma intmap_frame [simp, frame_simps]:
  "bm_blocks (set_inode_used i bm) = bm_blocks bm"
  "bm_blocks (clear_inode_used i bm) = bm_blocks bm"
  "bm_inodes (set_block_used b bm) = bm_inodes bm"
  "bm_inodes (clear_block_used b bm) = bm_inodes bm"
  by (simp_all add: set_inode_used_def clear_inode_used_def set_block_used_def clear_block_used_def)

lemma intmap_frame_used [simp, frame_simps]:
  "is_block_used (set_inode_used i bm) b = is_block_used bm b"
  "is_block_used (clear_inode_used i bm) b = is_block_used bm b"
  "is_inode_used (set_block_used c bm) j = is_inode_used bm j"
  "is_inode_used (clear_block_used c bm) j = is_inode_used bm j"
  by (simp_all add: is_block_used_def is_inode_used_def)

lemma intmap_frame_free [simp, frame_simps]:
  "free_blocks (set_inode_used i bm) = free_blocks bm"
  "free_blocks (clear_inode_used i bm) = free_blocks bm"
  "free_inodes (set_block_used b bm) = free_inodes bm"
  "free_inodes (clear_block_used b bm) = free_inodes bm"
  by (simp_all add: free_blocks_def free_inodes_def)

lemma intmap_wf_ops [simp]:
  "intmap_wf bm \<Longrightarrow> intmap_wf (set_inode_used i bm)"
  "intmap_wf bm \<Longrightarrow> intmap_wf (clear_inode_used i bm)"
  "intmap_wf bm \<Longrightarrow> intmap_wf (set_block_used i bm)"
  "intmap_wf bm \<Longrightarrow> intmap_wf (clear_block_used i bm)"
  by (simp_all add: intmap_wf_def set_inode_used_def clear_inode_used_def set_block_used_def
      clear_block_used_def)

lemma intmap_wf_init [simp]: "intmap_wf intmap_init"
  by (simp add: intmap_wf_def intmap_init_def)


section \<open>The search loop\<close>

lemma scan_free_cases:
  obtains (none) "scan_free used i n = - 1" and "\<forall>j. i \<le> j \<and> j < n \<longrightarrow> used j \<noteq> 0"
  | (found) j where "scan_free used i n = int j" and "i \<le> j" and "j < n" and "used j = 0"
      and "\<forall>k. i \<le> k \<and> k < j \<longrightarrow> used k \<noteq> 0"
proof (induction used i n arbitrary: thesis rule: scan_free.induct)
  case (1 used i n)
  note unfold = scan_free.simps [of used i n]
  consider (stop) "\<not> i < n" | (hit) "i < n" "used i = 0" | (miss) "i < n" "used i \<noteq> 0"
    by blast
  then show ?case
  proof cases
    case stop
    show ?thesis by (rule "1.prems"(1)) (use stop in \<open>simp_all add: unfold\<close>)
  next
    case hit
    show ?thesis by (rule "1.prems"(2) [of i]) (use hit in \<open>simp_all add: unfold\<close>)
  next
    case miss
    have rec: "scan_free used i n = scan_free used (Suc i) n"
      using miss by (simp add: unfold)
    have le: "i \<le> k \<longleftrightarrow> k = i \<or> Suc i \<le> k" for k
      by auto
    show ?thesis
    proof (rule "1.IH" [OF miss])
      assume "scan_free used (Suc i) n = - 1" and "\<forall>j. Suc i \<le> j \<and> j < n \<longrightarrow> used j \<noteq> 0"
      then show thesis using miss by (intro "1.prems"(1)) (auto simp: rec le)
    next
      fix j
      assume "scan_free used (Suc i) n = int j" "Suc i \<le> j" "j < n" "used j = 0"
        "\<forall>k. Suc i \<le> k \<and> k < j \<longrightarrow> used k \<noteq> 0"
      then show thesis using miss by (intro "1.prems"(2) [of j]) (auto simp: rec le)
    qed
  qed
qed

lemma scan_free_eq_int:
  "scan_free used i n = int j \<Longrightarrow>
   i \<le> j \<and> j < n \<and> used j = 0 \<and> (\<forall>k. i \<le> k \<and> k < j \<longrightarrow> used k \<noteq> 0)"
  by (rule scan_free_cases [of used i n]) auto

lemma scan_free_neg: "scan_free used i n < 0 \<longleftrightarrow> (\<forall>j. i \<le> j \<and> j < n \<longrightarrow> used j \<noteq> 0)"
  by (rule scan_free_cases [of used i n]) auto


section \<open>The interface the file system relies on\<close>

locale slot_map =
  fixes used :: "'m \<Rightarrow> nat \<Rightarrow> int"
    and mark :: "nat \<Rightarrow> 'm \<Rightarrow> 'm"
    and release :: "nat \<Rightarrow> 'm \<Rightarrow> 'm"
    and free :: "'m \<Rightarrow> nat"
    and size :: nat
    and invar :: "'m \<Rightarrow> bool"
  assumes used_range: "i < size \<Longrightarrow> used m i = 0 \<or> used m i = 1"
    and used_mark: "invar m \<Longrightarrow> i < size \<Longrightarrow> used (mark i m) j = (if j = i then 1 else used m j)"
    and used_release: "invar m \<Longrightarrow> i < size \<Longrightarrow> used (release i m) j = (if j = i then 0 else used m j)"
    and free_mark: "invar m \<Longrightarrow> i < size \<Longrightarrow> used m i = 0 \<Longrightarrow> Suc (free (mark i m)) = free m"
    and free_release: "invar m \<Longrightarrow> i < size \<Longrightarrow> used m i = 1 \<Longrightarrow> free (release i m) = Suc (free m)"
    and free_le: "invar m \<Longrightarrow> free m \<le> size"
    and free_zero: "invar m \<Longrightarrow> free m = 0 \<longleftrightarrow> (\<forall>i< size. used m i \<noteq> 0)"
    and invar_mark: "invar m \<Longrightarrow> invar (mark i m)"
    and invar_release: "invar m \<Longrightarrow> invar (release i m)"
begin

lemma mark_release: "invar m \<Longrightarrow> i < size \<Longrightarrow> used m i = 0 \<Longrightarrow> used (release i (mark i m)) = used m"
  by (rule ext) (simp add: used_release used_mark invar_mark)

lemma free_mark_release:
  assumes "invar m" "i < size" "used m i = 0"
  shows "free (release i (mark i m)) = free m"
  using assms free_release [of "mark i m" i] free_mark [of m i]
  by (simp add: used_mark invar_mark)

text \<open>A search over the whole map fails exactly when nothing is free, and finds the least free slot.\<close>

lemma search_fails: "invar m \<Longrightarrow> scan_free (used m) 0 size < 0 \<longleftrightarrow> free m = 0"
  by (auto simp: scan_free_neg free_zero)

lemma search_marks:
  assumes "invar m" and "scan_free (used m) 0 size = int i"
  shows "i < size \<and> used m i = 0 \<and> (\<forall>j<i. used m j = 1) \<and> Suc (free (mark i m)) = free m"
proof -
  have i: "i < size" "used m i = 0" and prev: "\<And>k. k < i \<Longrightarrow> used m k \<noteq> 0"
    using scan_free_eq_int [OF assms(2)] by auto
  have "used m j = 1" if "j < i" for j
    using used_range [of j m] prev [OF that] that i(1) by auto
  then show ?thesis
    using i assms(1) by (simp add: free_mark)
qed

end

lemma free_zero_list:
  fixes xs :: "uint8 list"
  shows "count_list xs 0 = 0 \<longleftrightarrow> (\<forall>i<length xs. xs ! i \<noteq> 0)"
  by (metis count_list_0_iff in_set_conv_nth)

interpretation blocks: slot_map is_block_used set_block_used clear_block_used free_blocks
  MAX_BLOCKS intmap_wf
proof (unfold_locales, goal_cases)
  case (5 m i)
  then show ?case
    by (auto simp: intmap_wf_def free_blocks_def is_block_used_def clear_block_used_def
        count_list_upd_other split: if_splits)
next
  case (4 m i)
  then show ?case
    by (auto simp: intmap_wf_def free_blocks_def is_block_used_def set_block_used_def
        count_list_upd_same split: if_splits)
next
  case (6 m)
  then show ?case
    using count_list_le_length [of "bm_blocks m" 0] by (simp add: intmap_wf_def free_blocks_def)
next
  case (7 m)
  then show ?case
    by (auto simp: intmap_wf_def free_blocks_def is_block_used_def free_zero_list)
qed (simp_all add: intmap_wf_def is_block_used_def set_block_used_def clear_block_used_def)

interpretation inodes: slot_map is_inode_used set_inode_used clear_inode_used free_inodes
  MAX_INODES intmap_wf
proof (unfold_locales, goal_cases)
  case (5 m i)
  then show ?case
    by (auto simp: intmap_wf_def free_inodes_def is_inode_used_def clear_inode_used_def
        count_list_upd_other split: if_splits)
next
  case (4 m i)
  then show ?case
    by (auto simp: intmap_wf_def free_inodes_def is_inode_used_def set_inode_used_def
        count_list_upd_same split: if_splits)
next
  case (6 m)
  then show ?case
    using count_list_le_length [of "bm_inodes m" 0] by (simp add: intmap_wf_def free_inodes_def)
next
  case (7 m)
  then show ?case
    by (auto simp: intmap_wf_def free_inodes_def is_inode_used_def free_zero_list)
qed (simp_all add: intmap_wf_def is_inode_used_def set_inode_used_def clear_inode_used_def)

end
