(* ===== verification/Inode.thy ===== *)
theory Inode
  imports Intmap
begin

text \<open>
  Inodes (\<^verbatim>\<open>src/TP File System/src/inode.c\<close>): initialisation, allocation, the time stamps and
  link counts, the direct block pointers and the release of an inode; then the invariant
  \<open>meta_inv\<close> on inode table and allocation maps together, with one lemma per primitive
  change, from which the file system operations are shown to keep it.
\<close>

section \<open>The operations\<close>

definition inode_init :: "os_env \<Rightarrow> inode" where
  "inode_init os =
     \<lparr>file_size_bytes = 0,
      owner_user_id = ucast (os_uid os),
      owner_group_id = ucast (os_gid os),
      permission_bits = PERM_READ,
      last_access_time = os_time os,
      last_modification_time = os_time os,
      last_metadata_change_time = os_time os,
      hard_links_count = 1,
      direct_block_ptrs = replicate NUM_DIRECT_BLOCKS NO_BLOCK,
      inode_type = INODE_FILE\<rparr>"

definition allocate_inode :: "os_env \<Rightarrow> filesystem \<Rightarrow> int \<times> filesystem" where
  "allocate_inode os fs =
     (let i = scan_free (is_inode_used (fs_intmap fs)) 0 MAX_INODES
      in if i < 0 then (- 1, fs)
         else (i, upd_inode (nat i) (\<lambda>_. inode_init os) (upd_intmap (set_inode_used (nat i)) fs)))"

definition inode_update_atime :: "os_env \<Rightarrow> inode \<Rightarrow> inode" where
  "inode_update_atime os = last_access_time_update (\<lambda>_. os_time os)"

definition inode_update_mtime :: "os_env \<Rightarrow> inode \<Rightarrow> inode" where
  "inode_update_mtime os = last_modification_time_update (\<lambda>_. os_time os)"

definition inode_update_ctime :: "os_env \<Rightarrow> inode \<Rightarrow> inode" where
  "inode_update_ctime os = last_metadata_change_time_update (\<lambda>_. os_time os)"

definition inode_increment_links :: "inode \<Rightarrow> inode" where
  "inode_increment_links = hard_links_count_update (\<lambda>n. n + 1)"

definition inode_decrement_links :: "inode \<Rightarrow> inode" where
  "inode_decrement_links = hard_links_count_update (\<lambda>n. n - 1)"

definition set_block_ptr :: "nat \<Rightarrow> uint32 \<Rightarrow> inode \<Rightarrow> inode" where
  "set_block_ptr k p = direct_block_ptrs_update (\<lambda>ps. ps[k := p])"

definition slot_state :: "inode \<Rightarrow> nat \<Rightarrow> int" where
  "slot_state ino k = (if direct_block_ptrs ino ! k = NO_BLOCK then 0 else 1)"

definition inode_add_direct_block :: "filesystem \<Rightarrow> nat \<Rightarrow> nat \<Rightarrow> int \<times> filesystem" where
  "inode_add_direct_block fs i b =
     (if b \<ge> MAX_BLOCKS then (- 1, fs)
      else let k = scan_free (slot_state (fs_inodes fs ! i)) 0 NUM_DIRECT_BLOCKS
           in if k < 0 then (- 1, fs)
              else (0, upd_intmap (set_block_used b)
                        (upd_inode i (set_block_ptr (nat k) (word_of_nat b)) fs)))"

definition inode_get_direct_block :: "inode \<Rightarrow> int \<Rightarrow> int" where
  "inode_get_direct_block ino k =
     (if k < 0 \<or> k \<ge> int NUM_DIRECT_BLOCKS then - 1
      else if direct_block_ptrs ino ! nat k = NO_BLOCK then - 1
      else sint (direct_block_ptrs ino ! nat k))"

text \<open>One round of the loop of \<^verbatim>\<open>inode_free\<close>: release pointer \<open>k\<close> of inode \<open>i\<close>.\<close>

definition inode_free_slot :: "nat \<Rightarrow> nat \<Rightarrow> filesystem \<Rightarrow> filesystem" where
  "inode_free_slot i k fs =
     (let p = direct_block_ptrs (fs_inodes fs ! i) ! k
      in if p \<noteq> NO_BLOCK
         then upd_inode i (set_block_ptr k NO_BLOCK) (upd_intmap (clear_block_used (unat p)) fs)
         else fs)"

definition inode_free :: "os_env \<Rightarrow> int \<Rightarrow> filesystem \<Rightarrow> filesystem" where
  "inode_free os i fs =
     (if i < 0 \<or> i \<ge> int MAX_INODES then fs
      else upd_inode (nat i) (\<lambda>_. inode_init os)
            (upd_intmap (clear_inode_used (nat i))
              (fold (inode_free_slot (nat i)) [0..<NUM_DIRECT_BLOCKS] fs)))"

lemmas inode_time_defs = inode_update_atime_def inode_update_mtime_def inode_update_ctime_def
  inode_increment_links_def inode_decrement_links_def

lemma inode_time_frame [simp, frame_simps]:
  "direct_block_ptrs (inode_update_atime os ino) = direct_block_ptrs ino"
  "direct_block_ptrs (inode_update_mtime os ino) = direct_block_ptrs ino"
  "direct_block_ptrs (inode_update_ctime os ino) = direct_block_ptrs ino"
  "direct_block_ptrs (inode_increment_links ino) = direct_block_ptrs ino"
  "direct_block_ptrs (inode_decrement_links ino) = direct_block_ptrs ino"
  "inode_type (inode_update_atime os ino) = inode_type ino"
  "inode_type (inode_update_mtime os ino) = inode_type ino"
  "inode_type (inode_update_ctime os ino) = inode_type ino"
  "inode_type (inode_increment_links ino) = inode_type ino"
  "inode_type (inode_decrement_links ino) = inode_type ino"
  "inode_type (set_block_ptr k p ino) = inode_type ino"
  "direct_block_ptrs (set_block_ptr k p ino) = (direct_block_ptrs ino)[k := p]"
  by (simp_all add: inode_time_defs set_block_ptr_def)

lemma inode_init_fields [simp]:
  "direct_block_ptrs (inode_init os) = replicate NUM_DIRECT_BLOCKS NO_BLOCK"
  "inode_type (inode_init os) = INODE_FILE"
  "hard_links_count (inode_init os) = 1"
  "file_size_bytes (inode_init os) = 0"
  by (simp_all add: inode_init_def)


section \<open>Ownership of blocks\<close>

text \<open>The block pointer \<open>k\<close> of inode \<open>i\<close> refers to block \<open>b\<close>.\<close>

definition owns :: "filesystem \<Rightarrow> nat \<Rightarrow> nat \<Rightarrow> nat \<Rightarrow> bool" where
  "owns fs i k b \<longleftrightarrow>
     i < MAX_INODES \<and> k < NUM_DIRECT_BLOCKS \<and>
     direct_block_ptrs (fs_inodes fs ! i) ! k \<noteq> NO_BLOCK \<and>
     unat (direct_block_ptrs (fs_inodes fs ! i) ! k) = b"

definition table_wf :: "filesystem \<Rightarrow> bool" where
  "table_wf fs \<longleftrightarrow>
     intmap_wf (fs_intmap fs) \<and> length (fs_inodes fs) = MAX_INODES \<and>
     (\<forall>i<MAX_INODES. length (direct_block_ptrs (fs_inodes fs ! i)) = NUM_DIRECT_BLOCKS)"

text \<open>
  Every pointer is a block of the array, a block is marked used exactly when some inode points
  to it, no two pointers share a block, and a free inode is a plain file without blocks.
\<close>

definition meta_inv :: "filesystem \<Rightarrow> bool" where
  "meta_inv fs \<longleftrightarrow>
     table_wf fs \<and>
     (\<forall>i k b. owns fs i k b \<longrightarrow> b < MAX_BLOCKS \<and> is_block_used (fs_intmap fs) b = 1) \<and>
     (\<forall>b<MAX_BLOCKS. is_block_used (fs_intmap fs) b = 1 \<longrightarrow> (\<exists>i k. owns fs i k b)) \<and>
     (\<forall>i k i' k' b. owns fs i k b \<longrightarrow> owns fs i' k' b \<longrightarrow> i = i' \<and> k = k') \<and>
     (\<forall>i<MAX_INODES. is_inode_used (fs_intmap fs) i = 0 \<longrightarrow>
        inode_type (fs_inodes fs ! i) = INODE_FILE \<and> (\<forall>k b. \<not> owns fs i k b))"

text \<open>The counters of the superblock agree with the maps.\<close>

definition free_inodes_ok :: "filesystem \<Rightarrow> bool" where
  "free_inodes_ok fs \<longleftrightarrow> unat (free_inodes_count (fs_super fs)) = free_inodes (fs_intmap fs)"

definition free_blocks_ok :: "filesystem \<Rightarrow> bool" where
  "free_blocks_ok fs \<longleftrightarrow> unat (free_blocks_count (fs_super fs)) = free_blocks (fs_intmap fs)"

definition counts_ok :: "filesystem \<Rightarrow> bool" where
  "counts_ok fs \<longleftrightarrow> free_inodes_ok fs \<and> free_blocks_ok fs"

lemma table_wf_simps [simp]:
  "table_wf fs \<Longrightarrow> length (fs_inodes fs) = MAX_INODES"
  "table_wf fs \<Longrightarrow> intmap_wf (fs_intmap fs)"
  "table_wf fs \<Longrightarrow> i < MAX_INODES \<Longrightarrow> length (direct_block_ptrs (fs_inodes fs ! i)) = NUM_DIRECT_BLOCKS"
  by (simp_all add: table_wf_def)

lemma meta_inv_table [simp]: "meta_inv fs \<Longrightarrow> table_wf fs"
  by (simp add: meta_inv_def)

lemma meta_inv_owns: "meta_inv fs \<Longrightarrow> owns fs i k b \<Longrightarrow> b < MAX_BLOCKS \<and> is_block_used (fs_intmap fs) b = 1"
  by (simp add: meta_inv_def)

lemma meta_inv_unique: "meta_inv fs \<Longrightarrow> owns fs i k b \<Longrightarrow> owns fs i' k' b \<Longrightarrow> i = i' \<and> k = k'"
  unfolding meta_inv_def by blast

lemma meta_inv_free_inode:
  "meta_inv fs \<Longrightarrow> i < MAX_INODES \<Longrightarrow> is_inode_used (fs_intmap fs) i = 0 \<Longrightarrow>
   inode_type (fs_inodes fs ! i) = INODE_FILE \<and> \<not> owns fs i k b"
  by (simp add: meta_inv_def)

lemma meta_inv_dir_used:
  assumes "meta_inv fs" "i < MAX_INODES" "inode_type (fs_inodes fs ! i) \<noteq> INODE_FILE"
  shows "is_inode_used (fs_intmap fs) i = 1"
  using assms inodes.used_range [of i "fs_intmap fs"] meta_inv_free_inode [of fs i] by auto

text \<open>The invariants see only maps, pointers and types.\<close>

lemma meta_inv_cong:
  assumes "fs_intmap fs' = fs_intmap fs" and "length (fs_inodes fs') = length (fs_inodes fs)"
    and "\<And>i. i < MAX_INODES \<Longrightarrow>
      direct_block_ptrs (fs_inodes fs' ! i) = direct_block_ptrs (fs_inodes fs ! i) \<and>
      (is_inode_used (fs_intmap fs) i = 0 \<longrightarrow>
         inode_type (fs_inodes fs' ! i) = inode_type (fs_inodes fs ! i))"
  shows "meta_inv fs' \<longleftrightarrow> meta_inv fs"
proof -
  have o: "owns fs' i k b \<longleftrightarrow> owns fs i k b" for i k b
    using assms(3) [of i] by (auto simp: owns_def)
  show ?thesis
    using assms by (simp add: meta_inv_def o table_wf_def cong: conj_cong)
qed

lemma meta_inv_data [simp]: "meta_inv (upd_data m fs) = meta_inv fs"
  by (rule meta_inv_cong) auto

lemma meta_inv_super [simp]: "meta_inv (upd_super f fs) = meta_inv fs"
  by (rule meta_inv_cong) auto

lemma meta_inv_counters [simp]:
  "meta_inv (inc_free_inodes fs) = meta_inv fs"
  "meta_inv (dec_free_inodes fs) = meta_inv fs"
  "meta_inv (inc_free_blocks fs) = meta_inv fs"
  "meta_inv (dec_free_blocks fs) = meta_inv fs"
  by (simp_all add: counter_defs)

lemma meta_inv_upd_inode:
  assumes "meta_inv fs" and "direct_block_ptrs (f (fs_inodes fs ! i)) = direct_block_ptrs (fs_inodes fs ! i)"
    and "inode_type (f (fs_inodes fs ! i)) = inode_type (fs_inodes fs ! i) \<or>
         is_inode_used (fs_intmap fs) i \<noteq> 0"
  shows "meta_inv (upd_inode i f fs)"
proof (cases "i < MAX_INODES")
  case True
  have "meta_inv (upd_inode i f fs) \<longleftrightarrow> meta_inv fs"
    using True assms by (intro meta_inv_cong) (auto simp: upd_inode_nth)
  with assms(1) show ?thesis by simp
next
  case False
  then have "upd_inode i f fs = fs"
    using assms(1) by (simp add: upd_inode_def list_update_beyond)
  then show ?thesis using assms(1) by simp
qed

lemma counts_ok_frame [simp, frame_simps]:
  "free_inodes_ok (upd_data m fs) = free_inodes_ok fs"
  "free_blocks_ok (upd_data m fs) = free_blocks_ok fs"
  "free_inodes_ok (upd_inode i f fs) = free_inodes_ok fs"
  "free_blocks_ok (upd_inode i f fs) = free_blocks_ok fs"
  by (simp_all add: free_inodes_ok_def free_blocks_ok_def)


section \<open>Primitive changes\<close>

lemma unat_block_ptr [simp]:
  "b < MAX_BLOCKS \<Longrightarrow> unat (word_of_nat b :: uint32) = b"
  by (simp add: unsigned_of_nat take_bit_nat_eq_self)

lemma block_ptr_not_none [simp]: "b < MAX_BLOCKS \<Longrightarrow> (word_of_nat b :: uint32) \<noteq> NO_BLOCK"
proof
  assume b: "b < MAX_BLOCKS" and eq: "(word_of_nat b :: uint32) = NO_BLOCK"
  have "unat (word_of_nat b :: uint32) = b"
    using b by simp
  then show False
    using b by (simp add: eq unsigned_minus_1_eq_mask mask_eq_exp_minus_1)
qed

lemma sint_block_ptr: "unat p < MAX_BLOCKS \<Longrightarrow> sint (p :: uint32) = int (unat p)"
  by (rule sint_small) simp

lemma owns_add_block:
  assumes "table_wf fs" "i < MAX_INODES" "k < NUM_DIRECT_BLOCKS" "b < MAX_BLOCKS"
  shows "owns (upd_intmap g (upd_inode i (set_block_ptr k (word_of_nat b)) fs)) i' k' b' \<longleftrightarrow>
    (if i' = i \<and> k' = k then b' = b else owns fs i' k' b')"
  using assms by (auto simp: owns_def nth_list_update)

lemma owns_clear_block:
  assumes "table_wf fs" "i < MAX_INODES" "k < NUM_DIRECT_BLOCKS"
  shows "owns (upd_inode i (set_block_ptr k NO_BLOCK) (upd_intmap g fs)) i' k' b' \<longleftrightarrow>
    owns fs i' k' b' \<and> \<not> (i' = i \<and> k' = k)"
  using assms by (auto simp: owns_def nth_list_update)

lemma table_wf_upd:
  assumes "table_wf fs" "intmap_wf (g (fs_intmap fs))"
    "i < MAX_INODES" "length (direct_block_ptrs (f (fs_inodes fs ! i))) = NUM_DIRECT_BLOCKS"
  shows "table_wf (upd_intmap g (upd_inode i f fs))" and "table_wf (upd_inode i f (upd_intmap g fs))"
  unfolding table_wf_def using assms by (intro conjI allI impI; simp)+

lemma meta_inv_add_block:
  assumes inv: "meta_inv fs" and i: "i < MAX_INODES" "is_inode_used (fs_intmap fs) i = 1"
    and k: "k < NUM_DIRECT_BLOCKS" "direct_block_ptrs (fs_inodes fs ! i) ! k = NO_BLOCK"
    and b: "b < MAX_BLOCKS" "is_block_used (fs_intmap fs) b = 0"
  shows "meta_inv (upd_intmap (set_block_used b) (upd_inode i (set_block_ptr k (word_of_nat b)) fs))"
    (is "meta_inv ?fs")
proof -
  have wf: "table_wf fs" and wfm: "intmap_wf (fs_intmap fs)"
    using inv by simp_all
  note own = owns_add_block [OF wf i(1) k(1) b(1), of "set_block_used b"]
  have used: "is_block_used (fs_intmap ?fs) c = (if c = b then 1 else is_block_used (fs_intmap fs) c)" for c
    using blocks.used_mark [OF wfm b(1)] by simp
  have new: "\<not> owns fs i' k' b" for i' k'
    using meta_inv_owns [OF inv, of i' k' b] b(2) by auto
  have "table_wf ?fs"
    using i(1) wf by (intro table_wf_upd) simp_all
  moreover have "\<forall>i k b. owns ?fs i k b \<longrightarrow> b < MAX_BLOCKS \<and> is_block_used (fs_intmap ?fs) b = 1"
    using meta_inv_owns [OF inv] b(1) unfolding own used by auto
  moreover have "\<forall>c<MAX_BLOCKS. is_block_used (fs_intmap ?fs) c = 1 \<longrightarrow> (\<exists>i k. owns ?fs i k c)"
  proof (intro allI impI)
    fix c
    assume c: "c < MAX_BLOCKS" "is_block_used (fs_intmap ?fs) c = 1"
    show "\<exists>i k. owns ?fs i k c"
    proof (cases "c = b")
      case True
      then show ?thesis unfolding own by (intro exI [of _ i] exI [of _ k]) simp
    next
      case False
      then obtain i' k' where "owns fs i' k' c"
        using c inv unfolding used meta_inv_def by auto
      moreover have "\<not> (i' = i \<and> k' = k)"
        using calculation k(2) by (auto simp: owns_def)
      ultimately show ?thesis unfolding own by auto
    qed
  qed
  moreover have "\<forall>i k i' k' c. owns ?fs i k c \<longrightarrow> owns ?fs i' k' c \<longrightarrow> i = i' \<and> k = k'"
    using meta_inv_unique [OF inv] new unfolding own by (auto split: if_splits)
  moreover have "\<forall>j<MAX_INODES. is_inode_used (fs_intmap ?fs) j = 0 \<longrightarrow>
      inode_type (fs_inodes ?fs ! j) = INODE_FILE \<and> (\<forall>k b. \<not> owns ?fs j k b)"
    using meta_inv_free_inode [OF inv] i wf unfolding own by auto
  ultimately show ?thesis
    unfolding meta_inv_def by (intro conjI)
qed

lemma meta_inv_clear_block:
  assumes inv: "meta_inv fs" and own0: "owns fs i k b"
  shows "meta_inv (upd_inode i (set_block_ptr k NO_BLOCK) (upd_intmap (clear_block_used b) fs))"
    (is "meta_inv ?fs")
proof -
  have wf: "table_wf fs" and wfm: "intmap_wf (fs_intmap fs)"
    using inv by simp_all
  have ik: "i < MAX_INODES" "k < NUM_DIRECT_BLOCKS"
    using own0 by (auto simp: owns_def)
  have b: "b < MAX_BLOCKS"
    using meta_inv_owns [OF inv own0] by simp
  note own = owns_clear_block [OF wf ik, of "clear_block_used b"]
  have used: "is_block_used (fs_intmap ?fs) c = (if c = b then 0 else is_block_used (fs_intmap fs) c)" for c
    using blocks.used_release [OF wfm b] by simp
  have only: "owns fs i' k' b \<Longrightarrow> i' = i \<and> k' = k" for i' k'
    using meta_inv_unique [OF inv _ own0] by blast
  have "table_wf ?fs"
    using ik wf by (intro table_wf_upd) simp_all
  moreover have "\<forall>i k b. owns ?fs i k b \<longrightarrow> b < MAX_BLOCKS \<and> is_block_used (fs_intmap ?fs) b = 1"
    using meta_inv_owns [OF inv] only unfolding own used by auto
  moreover have "\<forall>c<MAX_BLOCKS. is_block_used (fs_intmap ?fs) c = 1 \<longrightarrow> (\<exists>i k. owns ?fs i k c)"
  proof (intro allI impI)
    fix c
    assume c: "c < MAX_BLOCKS" "is_block_used (fs_intmap ?fs) c = 1"
    then have "c \<noteq> b" and "is_block_used (fs_intmap fs) c = 1"
      unfolding used by (auto split: if_splits)
    then obtain i' k' where o: "owns fs i' k' c"
      using c inv unfolding meta_inv_def by auto
    moreover have "\<not> (i' = i \<and> k' = k)"
      using o own0 \<open>c \<noteq> b\<close> by (auto simp: owns_def)
    ultimately show "\<exists>i k. owns ?fs i k c" unfolding own by auto
  qed
  moreover have "\<forall>i k i' k' c. owns ?fs i k c \<longrightarrow> owns ?fs i' k' c \<longrightarrow> i = i' \<and> k = k'"
    using meta_inv_unique [OF inv] unfolding own by blast
  moreover have "\<forall>j<MAX_INODES. is_inode_used (fs_intmap ?fs) j = 0 \<longrightarrow>
      inode_type (fs_inodes ?fs ! j) = INODE_FILE \<and> (\<forall>k b. \<not> owns ?fs j k b)"
    using meta_inv_free_inode [OF inv] ik wf unfolding own by auto
  ultimately show ?thesis
    unfolding meta_inv_def by (intro conjI)
qed

lemma meta_inv_mark_inode:
  assumes inv: "meta_inv fs" and i: "i < MAX_INODES" "\<And>k b. \<not> owns fs i k b"
    and ps: "direct_block_ptrs ino = replicate NUM_DIRECT_BLOCKS NO_BLOCK"
    and g: "\<And>b. is_block_used (g (fs_intmap fs)) b = is_block_used (fs_intmap fs) b"
      "intmap_wf (g (fs_intmap fs))"
      "\<And>j. j \<noteq> i \<Longrightarrow> is_inode_used (g (fs_intmap fs)) j = is_inode_used (fs_intmap fs) j"
    and ty: "inode_type ino = INODE_FILE \<or> is_inode_used (g (fs_intmap fs)) i = 1"
  shows "meta_inv (upd_inode i (\<lambda>_. ino) (upd_intmap g fs))" (is "meta_inv ?fs")
proof -
  have wf: "table_wf fs" using inv by simp
  have own: "owns ?fs j k b \<longleftrightarrow> owns fs j k b" for j k b
    using wf i ps by (auto simp: owns_def split: if_splits)
  have "table_wf ?fs"
    using wf g(2) ps i by (intro table_wf_upd) simp_all
  moreover have "inode_type (fs_inodes ?fs ! j) = INODE_FILE \<and> (\<forall>k b. \<not> owns fs j k b)"
    if "j < MAX_INODES" "is_inode_used (g (fs_intmap fs)) j = 0" for j
    using meta_inv_free_inode [OF inv, of j] that g(3) [of j] ty wf i by (cases "j = i") auto
  ultimately show ?thesis
    using inv unfolding meta_inv_def own by (simp add: g)
qed


section \<open>Allocation and release, with the counters\<close>

lemma unat_dec: "unat (n :: uint32) = Suc k \<Longrightarrow> unat (n - 1) = k"
  by (metis diff_Suc_1 unat_minus_one unat_eq_zero nat.simps(3))

lemma unat_inc: "unat (n :: uint32) = k \<Longrightarrow> k < 4294967295 \<Longrightarrow> unat (n + 1) = Suc k"
  by (simp add: unat_word_ariths)

lemma allocate_inode_cases:
  assumes inv: "meta_inv fs"
  obtains (full) "allocate_inode os fs = (- 1, fs)" "free_inodes (fs_intmap fs) = 0"
  | (fresh) i where "i < MAX_INODES" "is_inode_used (fs_intmap fs) i = 0"
      "allocate_inode os fs =
         (int i, upd_inode i (\<lambda>_. inode_init os) (upd_intmap (set_inode_used i) fs))"
      "meta_inv (upd_inode i (\<lambda>_. inode_init os) (upd_intmap (set_inode_used i) fs))"
      "Suc (free_inodes (set_inode_used i (fs_intmap fs))) = free_inodes (fs_intmap fs)"
      "is_inode_used (set_inode_used i (fs_intmap fs)) i = 1"
proof (cases "scan_free (is_inode_used (fs_intmap fs)) 0 MAX_INODES < 0")
  case True
  then show ?thesis
    using full inodes.search_fails [of "fs_intmap fs"] inv by (simp add: allocate_inode_def)
next
  case False
  have wf: "intmap_wf (fs_intmap fs)" using inv by simp
  define i where "i = nat (scan_free (is_inode_used (fs_intmap fs)) 0 MAX_INODES)"
  have scan: "scan_free (is_inode_used (fs_intmap fs)) 0 MAX_INODES = int i"
    using False by (simp add: i_def)
  note i = inodes.search_marks [OF wf scan]
  have used: "is_inode_used (set_inode_used i (fs_intmap fs)) j =
      (if j = i then 1 else is_inode_used (fs_intmap fs) j)" for j
    using i wf by (simp add: inodes.used_mark)
  show ?thesis
  proof (rule fresh)
    show "meta_inv (upd_inode i (\<lambda>_. inode_init os) (upd_intmap (set_inode_used i) fs))"
      using inv i meta_inv_free_inode [OF inv] wf by (intro meta_inv_mark_inode) (simp_all add: used)
  qed (use i in \<open>simp_all add: used allocate_inode_def scan\<close>)
qed

lemma slot_state_eq_0 [simp]: "slot_state ino k = 0 \<longleftrightarrow> direct_block_ptrs ino ! k = NO_BLOCK"
  by (simp add: slot_state_def)

lemma scan_slot_fresh:
  assumes "direct_block_ptrs ino = replicate NUM_DIRECT_BLOCKS NO_BLOCK"
  shows "scan_free (slot_state ino) 0 NUM_DIRECT_BLOCKS = 0"
  using assms by (simp add: scan_free.simps slot_state_def)

lemma add_direct_block_fresh:
  assumes "direct_block_ptrs (fs_inodes fs ! i) = replicate NUM_DIRECT_BLOCKS NO_BLOCK" "b < MAX_BLOCKS"
  shows "inode_add_direct_block fs i b =
    (0, upd_intmap (set_block_used b) (upd_inode i (set_block_ptr 0 (word_of_nat b)) fs))"
  using assms by (simp add: inode_add_direct_block_def scan_slot_fresh)

lemma add_direct_block_cases:
  assumes inv: "meta_inv fs" and i: "i < MAX_INODES" "is_inode_used (fs_intmap fs) i = 1"
    and b: "b < MAX_BLOCKS" "is_block_used (fs_intmap fs) b = 0"
  obtains (full) "inode_add_direct_block fs i b = (- 1, fs)"
      "\<forall>k<NUM_DIRECT_BLOCKS. direct_block_ptrs (fs_inodes fs ! i) ! k \<noteq> NO_BLOCK"
  | (added) k where "k < NUM_DIRECT_BLOCKS"
      "direct_block_ptrs (fs_inodes fs ! i) ! k = NO_BLOCK"
      "\<forall>j<k. direct_block_ptrs (fs_inodes fs ! i) ! j \<noteq> NO_BLOCK"
      "inode_add_direct_block fs i b =
         (0, upd_intmap (set_block_used b) (upd_inode i (set_block_ptr k (word_of_nat b)) fs))"
      "meta_inv (upd_intmap (set_block_used b) (upd_inode i (set_block_ptr k (word_of_nat b)) fs))"
proof (rule scan_free_cases [of "slot_state (fs_inodes fs ! i)" 0 NUM_DIRECT_BLOCKS])
  assume "scan_free (slot_state (fs_inodes fs ! i)) 0 NUM_DIRECT_BLOCKS = - 1"
    and "\<forall>j. 0 \<le> j \<and> j < NUM_DIRECT_BLOCKS \<longrightarrow> slot_state (fs_inodes fs ! i) j \<noteq> 0"
  then show ?thesis
    using full b by (auto simp: inode_add_direct_block_def)
next
  fix k
  assume scan: "scan_free (slot_state (fs_inodes fs ! i)) 0 NUM_DIRECT_BLOCKS = int k"
    and k: "k < NUM_DIRECT_BLOCKS" "slot_state (fs_inodes fs ! i) k = 0"
    and first: "\<forall>j. 0 \<le> j \<and> j < k \<longrightarrow> slot_state (fs_inodes fs ! i) j \<noteq> 0"
  have ptr: "direct_block_ptrs (fs_inodes fs ! i) ! k = NO_BLOCK"
    using k by simp
  show ?thesis
  proof (rule added [of k])
    show "meta_inv (upd_intmap (set_block_used b) (upd_inode i (set_block_ptr k (word_of_nat b)) fs))"
      using inv i k(1) ptr b by (rule meta_inv_add_block)
  qed (use k(1) ptr first scan b in \<open>simp_all add: inode_add_direct_block_def\<close>)
qed

lemma find_free_block_cases:
  assumes "meta_inv fs"
  obtains (full) "find_free_block (fs_intmap fs) = - 1" "free_blocks (fs_intmap fs) = 0"
  | (found) b where "find_free_block (fs_intmap fs) = int b" "b < MAX_BLOCKS"
      "is_block_used (fs_intmap fs) b = 0" "\<forall>c<b. is_block_used (fs_intmap fs) c = 1"
      "Suc (free_blocks (set_block_used b (fs_intmap fs))) = free_blocks (fs_intmap fs)"
proof (rule scan_free_cases [of "is_block_used (fs_intmap fs)" 0 MAX_BLOCKS])
  assume "scan_free (is_block_used (fs_intmap fs)) 0 MAX_BLOCKS = - 1"
    and "\<forall>j. 0 \<le> j \<and> j < MAX_BLOCKS \<longrightarrow> is_block_used (fs_intmap fs) j \<noteq> 0"
  then show ?thesis
    using full blocks.free_zero assms by (auto simp: find_free_block_def)
next
  fix b
  assume "scan_free (is_block_used (fs_intmap fs)) 0 MAX_BLOCKS = int b"
  then show ?thesis
    using found [of b] blocks.search_marks [of "fs_intmap fs" b] assms
    by (simp add: find_free_block_def)
qed

text \<open>Releasing one pointer, and all pointers, of an inode.\<close>

definition owned_slots :: "inode \<Rightarrow> nat \<Rightarrow> nat" where
  "owned_slots ino n = length (filter (\<lambda>k. direct_block_ptrs ino ! k \<noteq> NO_BLOCK) [0..<n])"

lemma owned_slots_simps [simp]:
  "owned_slots ino 0 = 0"
  "owned_slots ino (Suc n) =
     owned_slots ino n + (if direct_block_ptrs ino ! n = NO_BLOCK then 0 else 1)"
  by (simp_all add: owned_slots_def)

lemma slot_owned:
  "i < MAX_INODES \<Longrightarrow> k < NUM_DIRECT_BLOCKS \<Longrightarrow>
   direct_block_ptrs (fs_inodes fs ! i) ! k = NO_BLOCK \<longleftrightarrow> (\<forall>b. \<not> owns fs i k b)"
  by (simp add: owns_def)

lemma inode_free_slot_free_blocks:
  assumes "meta_inv fs" "i < MAX_INODES" "k < NUM_DIRECT_BLOCKS"
  shows "free_blocks (fs_intmap (inode_free_slot i k fs)) =
    free_blocks (fs_intmap fs) + (if direct_block_ptrs (fs_inodes fs ! i) ! k = NO_BLOCK then 0 else 1)"
proof (cases "direct_block_ptrs (fs_inodes fs ! i) ! k = NO_BLOCK")
  case True
  then show ?thesis by (simp add: inode_free_slot_def)
next
  case False
  let ?b = "unat (direct_block_ptrs (fs_inodes fs ! i) ! k)"
  have "owns fs i k ?b"
    using False assms by (simp add: owns_def)
  then have "?b < MAX_BLOCKS" "is_block_used (fs_intmap fs) ?b = 1"
    using meta_inv_owns [OF assms(1)] by auto
  then show ?thesis
    using False assms blocks.free_release [of "fs_intmap fs" ?b] by (simp add: inode_free_slot_def)
qed

lemma inode_free_slot_inv:
  assumes inv: "meta_inv fs" and ik: "i < MAX_INODES" "k < NUM_DIRECT_BLOCKS"
  shows "meta_inv (inode_free_slot i k fs)"
    and "owns (inode_free_slot i k fs) i' k' b \<longleftrightarrow> owns fs i' k' b \<and> \<not> (i' = i \<and> k' = k)"
proof -
  let ?p = "direct_block_ptrs (fs_inodes fs ! i) ! k"
  have wf: "table_wf fs" using inv by simp
  have "meta_inv (inode_free_slot i k fs) \<and>
    (owns (inode_free_slot i k fs) i' k' b \<longleftrightarrow> owns fs i' k' b \<and> \<not> (i' = i \<and> k' = k))"
  proof (cases "?p = NO_BLOCK")
    case True
    then show ?thesis using inv by (auto simp: inode_free_slot_def owns_def)
  next
    case False
    then have "owns fs i k (unat ?p)" using ik by (simp add: owns_def)
    from meta_inv_clear_block [OF inv this] show ?thesis
      using False owns_clear_block [OF wf ik] by (simp add: inode_free_slot_def)
  qed
  then show "meta_inv (inode_free_slot i k fs)"
    and "owns (inode_free_slot i k fs) i' k' b \<longleftrightarrow> owns fs i' k' b \<and> \<not> (i' = i \<and> k' = k)"
    by auto
qed

lemma inode_free_slot_frame [simp, frame_simps]:
  "data_block (inode_free_slot i k fs) = data_block fs"
  "fs_super (inode_free_slot i k fs) = fs_super fs"
  "is_inode_used (fs_intmap (inode_free_slot i k fs)) j = is_inode_used (fs_intmap fs) j"
  "free_inodes (fs_intmap (inode_free_slot i k fs)) = free_inodes (fs_intmap fs)"
  by (simp_all add: inode_free_slot_def Let_def)

lemma free_slots_upto:
  assumes "meta_inv fs" "i < MAX_INODES" "n \<le> NUM_DIRECT_BLOCKS"
  shows "meta_inv (fold (inode_free_slot i) [0..<n] fs) \<and>
    (\<forall>i' k' b. owns (fold (inode_free_slot i) [0..<n] fs) i' k' b \<longleftrightarrow>
       owns fs i' k' b \<and> \<not> (i' = i \<and> k' < n)) \<and>
    data_block (fold (inode_free_slot i) [0..<n] fs) = data_block fs \<and>
    fs_super (fold (inode_free_slot i) [0..<n] fs) = fs_super fs \<and>
    (\<forall>j. is_inode_used (fs_intmap (fold (inode_free_slot i) [0..<n] fs)) j = is_inode_used (fs_intmap fs) j) \<and>
    free_inodes (fs_intmap (fold (inode_free_slot i) [0..<n] fs)) = free_inodes (fs_intmap fs) \<and>
    free_blocks (fs_intmap (fold (inode_free_slot i) [0..<n] fs)) =
      free_blocks (fs_intmap fs) + owned_slots (fs_inodes fs ! i) n"
  using assms(3)
proof (induction n)
  case 0
  then show ?case using assms(1) by simp
next
  case (Suc n)
  let ?fs = "fold (inode_free_slot i) [0..<n] fs"
  have IH: "meta_inv ?fs" "\<And>i' k' b. owns ?fs i' k' b \<longleftrightarrow> owns fs i' k' b \<and> \<not> (i' = i \<and> k' < n)"
    using Suc by auto
  have n: "n < NUM_DIRECT_BLOCKS" using Suc.prems by simp
  note step = inode_free_slot_inv [OF IH(1) assms(2) n]
  have "direct_block_ptrs (fs_inodes ?fs ! i) ! n = NO_BLOCK \<longleftrightarrow>
      direct_block_ptrs (fs_inodes fs ! i) ! n = NO_BLOCK"
    using IH(2) assms(2) n by (simp add: slot_owned)
  moreover have "fold (inode_free_slot i) [0..<Suc n] fs = inode_free_slot i n ?fs"
    by simp
  ultimately show ?case
    using Suc step IH(2) inode_free_slot_free_blocks [OF IH(1) assms(2) n]
    by (auto simp: less_Suc_eq)
qed

lemma inode_free_spec:
  assumes inv: "meta_inv fs" and i: "i < MAX_INODES" "is_inode_used (fs_intmap fs) i = 1"
  shows "meta_inv (inode_free os (int i) fs)"
    and "fs_super (inode_free os (int i) fs) = fs_super fs"
    and "data_block (inode_free os (int i) fs) = data_block fs"
    and "free_inodes (fs_intmap (inode_free os (int i) fs)) = Suc (free_inodes (fs_intmap fs))"
    and "free_blocks (fs_intmap (inode_free os (int i) fs)) =
           free_blocks (fs_intmap fs) + owned_slots (fs_inodes fs ! i) NUM_DIRECT_BLOCKS"
    and "is_inode_used (fs_intmap (inode_free os (int i) fs)) j =
           (if j = i then 0 else is_inode_used (fs_intmap fs) j)"
    and "fs_inodes (inode_free os (int i) fs) ! i = inode_init os"
proof -
  let ?fs = "fold (inode_free_slot i) [0..<NUM_DIRECT_BLOCKS] fs"
  note freed = free_slots_upto [OF inv i(1) order_refl]
  have none: "\<not> owns ?fs i k b" for k b
    using freed by (auto simp: owns_def)
  have inv': "meta_inv ?fs" using freed by blast
  then have wf: "intmap_wf (fs_intmap ?fs)" by simp
  have rel: "is_inode_used (clear_inode_used i (fs_intmap ?fs)) j =
      (if j = i then 0 else is_inode_used (fs_intmap ?fs) j)" for j
    using wf i(1) by (rule inodes.used_release)
  have "meta_inv (upd_inode i (\<lambda>_. inode_init os) (upd_intmap (clear_inode_used i) ?fs))"
    using inv' i(1) none wf by (intro meta_inv_mark_inode) (simp_all add: rel)
  then show "meta_inv (inode_free os (int i) fs)"
    using i(1) by (simp add: inode_free_def)
  show "free_inodes (fs_intmap (inode_free os (int i) fs)) = Suc (free_inodes (fs_intmap fs))"
    using i freed inodes.free_release [OF wf i(1)] by (simp add: inode_free_def)
  show "is_inode_used (fs_intmap (inode_free os (int i) fs)) j =
      (if j = i then 0 else is_inode_used (fs_intmap fs) j)"
    using i freed rel by (simp add: inode_free_def)
qed (use i inv free_slots_upto [OF inv i(1) order_refl] in \<open>simp_all add: inode_free_def\<close>)

end
