(* ===== verification/Directory.thy ===== *)
theory Directory
  imports Inode
begin

text \<open>
  Directories (\<^verbatim>\<open>src/TP File System/src/directory.c\<close>). A \<^verbatim>\<open>directory_t\<close> is overlaid on the
  block array at byte address \<open>d\<close>: 1024 entries of 36 bytes (a 32-byte name and a 32-bit inode
  number) and then the entry count, at offset 36864. All loops below read and write that
  memory; \<open>dir_entries\<close> abstracts it to an association list and the operations are shown to
  implement a finite map from names to inode numbers (interface \<open>name_table\<close>).
\<close>

abbreviation (input) ENTRY_SIZE :: nat where "ENTRY_SIZE \<equiv> 36"
abbreviation (input) COUNT_OFFSET :: nat where "COUNT_OFFSET \<equiv> 36864"
abbreviation (input) DIR_SIZE :: nat where "DIR_SIZE \<equiv> 36868"

lemma dir_layout: "COUNT_OFFSET = MAX_BLOCKS * ENTRY_SIZE \<and> DIR_SIZE = COUNT_OFFSET + 4 \<and>
    COUNT_OFFSET = 9 * BLOCK_SIZE"
  by simp

definition entry_count :: "byte_mem \<Rightarrow> nat \<Rightarrow> uint32" where
  "entry_count m d = mem_get32 m (d + COUNT_OFFSET)"

definition entry_inode :: "byte_mem \<Rightarrow> nat \<Rightarrow> nat \<Rightarrow> uint32" where
  "entry_inode m d i = mem_get32 m (d + ENTRY_SIZE * i + MAX_FILENAME_LEN)"

text \<open>\<^verbatim>\<open>strcmp(p, q) == 0\<close> for the characters at address \<open>a\<close> and a C string \<open>q\<close>.\<close>

fun strcmp_eq :: "byte_mem \<Rightarrow> nat \<Rightarrow> string \<Rightarrow> bool option" where
  "strcmp_eq m a [] = (if a < DATA_SIZE then Some (m a = NUL) else None)"
| "strcmp_eq m a (c # q) =
     (if a < DATA_SIZE then if m a = c then strcmp_eq m (Suc a) q else Some False else None)"

section \<open>The operations\<close>

definition put_entry :: "byte_mem \<Rightarrow> nat \<Rightarrow> nat \<Rightarrow> string \<Rightarrow> uint32 \<Rightarrow> byte_mem" where
  "put_entry m d i name ino =
     mem_put32 (mem_put m (d + ENTRY_SIZE * i) (strncpy_bytes name MAX_FILENAME_LEN))
       (d + ENTRY_SIZE * i + MAX_FILENAME_LEN) ino"

definition directory_init :: "byte_mem \<Rightarrow> nat \<Rightarrow> byte_mem option" where
  "directory_init m d = do {
     guard (d + DIR_SIZE \<le> DATA_SIZE);
     Some (put_entry (put_entry (mem_put32 m (d + COUNT_OFFSET) 2) d 0 ''.'' 0) d 1 ''..'' 0)
   }"

text \<open>The loop of all three searches: the first entry in \<open>[i, n)\<close> with the given name.\<close>

function dir_search :: "byte_mem \<Rightarrow> nat \<Rightarrow> string \<Rightarrow> nat \<Rightarrow> nat \<Rightarrow> nat option option" where
  "dir_search m d name i n =
     (if i < n
      then (case strcmp_eq m (d + ENTRY_SIZE * i) name of
              None \<Rightarrow> None
            | Some True \<Rightarrow> Some (Some i)
            | Some False \<Rightarrow> dir_search m d name (Suc i) n)
      else Some None)"
  by pat_completeness auto
termination
  by (relation "measure (\<lambda>(m, d, name, i, n). n - i)") auto

declare dir_search.simps [simp del]

definition directory_lookup :: "byte_mem \<Rightarrow> nat \<Rightarrow> string \<Rightarrow> int option" where
  "directory_lookup m d name = do {
     guard (d + DIR_SIZE \<le> DATA_SIZE);
     r \<leftarrow> dir_search m d name 0 (unat (entry_count m d));
     case r of
       None \<Rightarrow> Some (- 1)
     | Some i \<Rightarrow> do {
         guard (d + ENTRY_SIZE * i + ENTRY_SIZE \<le> DATA_SIZE);
         Some (sint (entry_inode m d i))
       }
   }"

definition directory_add_entry ::
  "byte_mem \<Rightarrow> nat \<Rightarrow> string \<Rightarrow> uint32 \<Rightarrow> (int \<times> byte_mem) option" where
  "directory_add_entry m d name ino =
     (if length name = 0 \<or> length name \<ge> MAX_FILENAME_LEN then Some (- 1, m)
      else do {
        guard (d + DIR_SIZE \<le> DATA_SIZE);
        let n = unat (entry_count m d);
        if n \<ge> MAX_BLOCKS then Some (- 1, m)
        else do {
          r \<leftarrow> dir_search m d name 0 n;
          case r of
            Some i \<Rightarrow> Some (- 1, m)
          | None \<Rightarrow>
              Some (0, mem_put32 (put_entry m d n name ino) (d + COUNT_OFFSET)
                         (entry_count m d + 1))
        }
      })"

text \<open>\<^verbatim>\<open>for (j = i; j < dir->entry_count - 1; j++) dir->entries[j] = dir->entries[j + 1];\<close>\<close>

function dir_shift :: "byte_mem \<Rightarrow> nat \<Rightarrow> nat \<Rightarrow> byte_mem option" where
  "dir_shift m d j =
     (if j < unat (entry_count m d - 1)
      then if d + ENTRY_SIZE * (j + 2) \<le> DATA_SIZE
           then dir_shift (mem_put m (d + ENTRY_SIZE * j) (mem_get m (d + ENTRY_SIZE * (j + 1)) ENTRY_SIZE))
                  d (Suc j)
           else None
      else Some m)"
  by pat_completeness auto
termination
  by (relation "measure (\<lambda>(m, d, j). DATA_SIZE - j)") auto

declare dir_shift.simps [simp del]

definition directory_remove_entry :: "byte_mem \<Rightarrow> nat \<Rightarrow> string \<Rightarrow> (int \<times> byte_mem) option" where
  "directory_remove_entry m d name =
     (if length name = 0 then Some (- 1, m)
      else do {
        guard (d + DIR_SIZE \<le> DATA_SIZE);
        r \<leftarrow> dir_search m d name 0 (unat (entry_count m d));
        case r of
          None \<Rightarrow> Some (- 1, m)
        | Some i \<Rightarrow> do {
            m' \<leftarrow> dir_shift m d i;
            Some (0, mem_put32 m' (d + COUNT_OFFSET) (entry_count m' d - 1))
          }
      })"

text \<open>
  \<^verbatim>\<open>strcpy(buffer[i], dir->entries[i].name)\<close> into a buffer of \<open>rows\<close> rows of 32 characters:
  undefined past the last row, or when the name has no terminator within its 32 bytes.
\<close>

function dir_names :: "byte_mem \<Rightarrow> nat \<Rightarrow> nat \<Rightarrow> nat \<Rightarrow> nat \<Rightarrow> string list option" where
  "dir_names m d rows i n =
     (if i < n
      then if i < rows \<and> d + ENTRY_SIZE * i + MAX_FILENAME_LEN \<le> DATA_SIZE \<and>
              NUL \<in> set (mem_get m (d + ENTRY_SIZE * i) MAX_FILENAME_LEN)
           then map_option (\<lambda>rest. cstr_of (mem_get m (d + ENTRY_SIZE * i) MAX_FILENAME_LEN) # rest)
                  (dir_names m d rows (Suc i) n)
           else None
      else Some [])"
  by pat_completeness auto
termination
  by (relation "measure (\<lambda>(m, d, rows, i, n). n - i)") auto

declare dir_names.simps [simp del]

definition directory_list_entries :: "byte_mem \<Rightarrow> nat \<Rightarrow> nat \<Rightarrow> (int \<times> string list) option" where
  "directory_list_entries m d rows = do {
     guard (d + DIR_SIZE \<le> DATA_SIZE);
     names \<leftarrow> dir_names m d rows 0 (unat (entry_count m d));
     Some (sint (entry_count m d), names)
   }"

text \<open>\<^verbatim>\<open>get_directory_by_inode\<close>: \<open>Some None\<close> is the null pointer.\<close>

definition get_directory_by_inode :: "inode \<Rightarrow> nat option option" where
  "get_directory_by_inode ino =
     (if inode_type ino \<noteq> INODE_DIR then Some None
      else (case find (\<lambda>k. inode_get_direct_block ino (int k) \<noteq> - 1) [0..<NUM_DIRECT_BLOCKS] of
              None \<Rightarrow> Some None
            | Some k \<Rightarrow> map_option Some (block_addr (inode_get_direct_block ino (int k)))))"


section \<open>The abstraction to an association list\<close>

definition entry_name :: "byte_mem \<Rightarrow> nat \<Rightarrow> nat \<Rightarrow> string" where
  "entry_name m d i = cstr_of (mem_get m (d + ENTRY_SIZE * i) MAX_FILENAME_LEN)"

definition entry_at :: "byte_mem \<Rightarrow> nat \<Rightarrow> nat \<Rightarrow> string \<times> uint32" where
  "entry_at m d i = (entry_name m d i, entry_inode m d i)"

definition dir_entries :: "byte_mem \<Rightarrow> nat \<Rightarrow> (string \<times> uint32) list" where
  "dir_entries m d = map (entry_at m d) [0..<unat (entry_count m d)]"

text \<open>The entries lie in the array, the names are terminated, not empty and distinct.\<close>

definition dir_wf :: "byte_mem \<Rightarrow> nat \<Rightarrow> bool" where
  "dir_wf m d \<longleftrightarrow>
     d + DIR_SIZE \<le> DATA_SIZE \<and> unat (entry_count m d) \<le> MAX_BLOCKS \<and>
     (\<forall>i<unat (entry_count m d).
        NUL \<in> set (mem_get m (d + ENTRY_SIZE * i) MAX_FILENAME_LEN) \<and> entry_name m d i \<noteq> []) \<and>
     distinct (map fst (dir_entries m d))"

lemma length_dir_entries [simp]: "length (dir_entries m d) = unat (entry_count m d)"
  by (simp add: dir_entries_def)

lemma nth_dir_entries [simp]:
  "i < unat (entry_count m d) \<Longrightarrow> dir_entries m d ! i = entry_at m d i"
  by (simp add: dir_entries_def)

lemma fst_entry_at [simp]: "fst (entry_at m d i) = entry_name m d i"
  and snd_entry_at [simp]: "snd (entry_at m d i) = entry_inode m d i"
  by (simp_all add: entry_at_def)

lemma dir_wf_bound: "dir_wf m d \<Longrightarrow> i < unat (entry_count m d) \<Longrightarrow> d + ENTRY_SIZE * i + ENTRY_SIZE \<le> DATA_SIZE"
  by (auto simp: dir_wf_def)

lemma mem_get_Suc: "mem_get m a (Suc n) = m a # mem_get m (Suc a) n"
  by (simp add: mem_get_def upt_conv_Cons del: upt_Suc)

lemma strcmp_eq_terminated:
  assumes "NUL \<in> set (mem_get m a n)" "a + n \<le> DATA_SIZE" "cstring name"
  shows "strcmp_eq m a name = Some (cstr_of (mem_get m a n) = name)"
  using assms
proof (induction name arbitrary: a n)
  case Nil
  then obtain k where n: "n = Suc k" by (cases n) auto
  show ?case using Nil by (auto simp: n mem_get_Suc cstr_of_def)
next
  case (Cons c name)
  then obtain k where n: "n = Suc k" by (cases n) auto
  show ?case
  proof (cases "m a = c")
    case True
    then have "NUL \<in> set (mem_get m (Suc a) k)" using Cons.prems by (auto simp: n mem_get_Suc)
    then have "strcmp_eq m (Suc a) name = Some (cstr_of (mem_get m (Suc a) k) = name)"
      using Cons.prems by (intro Cons.IH) (auto simp: n)
    then show ?thesis using True Cons.prems by (simp add: n mem_get_Suc cstr_of_def)
  next
    case False
    then show ?thesis using Cons.prems by (auto simp: n mem_get_Suc cstr_of_def)
  qed
qed

lemma strcmp_entry:
  assumes "dir_wf m d" "i < unat (entry_count m d)" "cstring name"
  shows "strcmp_eq m (d + ENTRY_SIZE * i) name = Some (entry_name m d i = name)"
  using strcmp_eq_terminated [of m "d + ENTRY_SIZE * i" MAX_FILENAME_LEN name] assms
    dir_wf_bound [OF assms(1,2)]
  by (simp add: dir_wf_def entry_name_def)

text \<open>On a well-formed directory the search never leaves the array and finds the first match.\<close>

lemma dir_search_wf:
  assumes "dir_wf m d" "cstring name" "n \<le> unat (entry_count m d)"
  shows "dir_search m d name i n = Some (find (\<lambda>j. entry_name m d j = name) [i..<n])"
proof (induction "n - i" arbitrary: i)
  case 0
  then show ?case by (simp add: dir_search.simps)
next
  case (Suc k)
  then have i: "i < n" by simp
  have "strcmp_eq m (d + ENTRY_SIZE * i) name = Some (entry_name m d i = name)"
    using assms i by (intro strcmp_entry) auto
  then show ?case
    using Suc i by (simp add: dir_search.simps [of m d name i n] upt_conv_Cons split: bool.split)
qed

lemma map_of_find: "map_of (map (\<lambda>i. (f i, g i)) xs) k = map_option g (find (\<lambda>i. f i = k) xs)"
  by (induction xs) auto

lemma map_of_dir_entries:
  "map_of (dir_entries m d) name =
     map_option (entry_inode m d) (find (\<lambda>j. entry_name m d j = name) [0..<unat (entry_count m d)])"
  by (simp add: dir_entries_def entry_at_def [abs_def] map_of_find)

lemma dir_names_find:
  "name \<in> fst ` set (dir_entries m d) \<longleftrightarrow>
     find (\<lambda>j. entry_name m d j = name) [0..<unat (entry_count m d)] \<noteq> None"
  by (force simp: find_None_iff dir_entries_def entry_at_def)

lemma directory_lookup_wf:
  assumes "dir_wf m d" "cstring name"
  shows "directory_lookup m d name =
    Some (case map_of (dir_entries m d) name of None \<Rightarrow> - 1 | Some w \<Rightarrow> sint w)"
proof -
  have d: "d + DIR_SIZE \<le> DATA_SIZE" using assms by (simp add: dir_wf_def)
  have "d + ENTRY_SIZE * j + ENTRY_SIZE \<le> DATA_SIZE"
    if "find (\<lambda>j. entry_name m d j = name) [0..<unat (entry_count m d)] = Some j" for j
  proof -
    have "j < unat (entry_count m d)" using that by (auto simp: find_Some_iff)
    then show ?thesis using dir_wf_bound [OF assms(1)] by simp
  qed
  then show ?thesis
    using d assms
    by (auto simp: directory_lookup_def dir_search_wf map_of_dir_entries split: option.split)
qed


section \<open>Entries as byte ranges\<close>

definition entry_bytes :: "byte_mem \<Rightarrow> nat \<Rightarrow> nat \<Rightarrow> string" where
  "entry_bytes m d i = mem_get m (d + ENTRY_SIZE * i) ENTRY_SIZE"

lemma take_mem_get: "k \<le> n \<Longrightarrow> take k (mem_get m a n) = mem_get m a k"
  by (rule nth_equalityI) auto

lemma drop_mem_get: "drop k (mem_get m a n) = mem_get m (a + k) (n - k)"
  by (rule nth_equalityI) (auto simp: add.assoc)

lemma entry_of_bytes:
  "entry_name m d i = cstr_of (take MAX_FILENAME_LEN (entry_bytes m d i))"
  "entry_inode m d i = bytes_u32 (drop MAX_FILENAME_LEN (entry_bytes m d i))"
  "mem_get m (d + ENTRY_SIZE * i) MAX_FILENAME_LEN = take MAX_FILENAME_LEN (entry_bytes m d i)"
  by (simp_all add: entry_bytes_def entry_name_def entry_inode_def take_mem_get drop_mem_get
      mem_get32_def)

lemma entry_bytes_put_entry:
  "entry_bytes (put_entry m d n name ino) d i =
     (if i = n then strncpy_bytes name MAX_FILENAME_LEN @ u32_bytes ino else entry_bytes m d i)"
proof (cases "i = n")
  case True
  have "mem_get (put_entry m d n name ino) (d + ENTRY_SIZE * n) (MAX_FILENAME_LEN + 4) =
      strncpy_bytes name MAX_FILENAME_LEN @ u32_bytes ino"
    unfolding mem_get_add by (simp add: put_entry_def mem_put32_def mem_get_put_other)
  with True show ?thesis by (simp add: entry_bytes_def)
next
  case False
  then consider "i < n" | "n < i" by linarith
  then show ?thesis
    by cases (simp_all add: entry_bytes_def put_entry_def mem_get_put32_other mem_get_put_other)
qed

lemma entry_count_put_entry:
  "i < MAX_BLOCKS \<Longrightarrow> entry_count (put_entry m d i name ino) d = entry_count m d"
  by (simp add: entry_count_def put_entry_def mem_get32_put32_other mem_get32_put_other)

lemma entry_bytes_put_count:
  "i < MAX_BLOCKS \<Longrightarrow> entry_bytes (mem_put32 m (d + COUNT_OFFSET) w) d i = entry_bytes m d i"
  by (simp add: entry_bytes_def mem_get_put32_other)

lemma entry_count_put_count [simp]: "entry_count (mem_put32 m (d + COUNT_OFFSET) w) d = w"
  by (simp add: entry_count_def)

lemma dir_entries_eqI:
  assumes "\<And>i. i < unat (entry_count m' d) \<Longrightarrow> entry_at m' d i = es ! i"
    and "length es = unat (entry_count m' d)"
  shows "dir_entries m' d = es"
  by (rule nth_equalityI) (simp_all add: assms)


section \<open>Adding an entry\<close>

definition dir_append :: "byte_mem \<Rightarrow> nat \<Rightarrow> string \<Rightarrow> uint32 \<Rightarrow> byte_mem" where
  "dir_append m d name ino =
     mem_put32 (put_entry m d (unat (entry_count m d)) name ino) (d + COUNT_OFFSET)
       (entry_count m d + 1)"

lemma directory_add_entry_wf:
  assumes "dir_wf m d" "cstring name"
  shows "directory_add_entry m d name ino =
    Some (if name = [] \<or> length name \<ge> MAX_FILENAME_LEN \<or> length (dir_entries m d) \<ge> MAX_BLOCKS \<or>
             name \<in> fst ` set (dir_entries m d)
          then (- 1, m) else (0, dir_append m d name ino))"
proof -
  have d: "d + DIR_SIZE \<le> DATA_SIZE" using assms by (simp add: dir_wf_def)
  show ?thesis
    using d assms dir_names_find [of name m d]
    by (auto simp: directory_add_entry_def dir_search_wf dir_append_def Let_def split: option.split)
qed

lemma set_strncpy: "length name < n \<Longrightarrow> NUL \<in> set (strncpy_bytes name n)"
  by (metis length_strncpy_bytes nth_mem nth_strncpy_bytes less_irrefl)

lemma all_less_two: "(\<forall>i<2. P i) \<longleftrightarrow> P 0 \<and> P (1::nat)"
  by (auto simp: less_2_cases_iff)

lemma unat_Suc_count: "unat (w :: uint32) < MAX_BLOCKS \<Longrightarrow> unat (w + 1) = Suc (unat w)"
  by (simp add: unat_inc)

lemma dir_append_spec:
  assumes wf: "dir_wf m d" and name: "cstring name" "name \<noteq> []" "length name < MAX_FILENAME_LEN"
    and room: "length (dir_entries m d) < MAX_BLOCKS" and new: "name \<notin> fst ` set (dir_entries m d)"
  shows "dir_entries (dir_append m d name ino) d = dir_entries m d @ [(name, ino)]"
    and "dir_wf (dir_append m d name ino) d"
proof -
  let ?n = "unat (entry_count m d)" and ?m = "dir_append m d name ino"
  have n: "?n < MAX_BLOCKS" using room by simp
  have count: "entry_count ?m d = entry_count m d + 1" "unat (entry_count ?m d) = Suc ?n"
    using n by (simp_all add: dir_append_def unat_Suc_count)
  have bytes: "entry_bytes ?m d i =
      (if i = ?n then strncpy_bytes name MAX_FILENAME_LEN @ u32_bytes ino else entry_bytes m d i)"
    if "i \<le> ?n" for i
    using that n by (simp add: dir_append_def entry_bytes_put_count entry_bytes_put_entry)
  have old: "entry_at ?m d i = entry_at m d i" if "i < ?n" for i
    using bytes [of i] that by (simp add: entry_at_def entry_of_bytes)
  have fresh: "entry_at ?m d ?n = (name, ino)"
    using bytes [of ?n] name by (simp add: entry_at_def entry_of_bytes)
  show es: "dir_entries ?m d = dir_entries m d @ [(name, ino)]"
    by (rule dir_entries_eqI) (auto simp: count(2) less_Suc_eq nth_append old fresh)
  have "NUL \<in> set (take MAX_FILENAME_LEN (entry_bytes ?m d i)) \<and> entry_name ?m d i \<noteq> []" if "i < Suc ?n" for i
  proof (cases "i = ?n")
    case True
    have "NUL \<in> set (strncpy_bytes name MAX_FILENAME_LEN)"
      using name(3) by (rule set_strncpy)
    moreover have "entry_name ?m d ?n = name"
      using arg_cong [OF fresh, of fst] by simp
    ultimately show ?thesis using True bytes [of i] name(2) by simp
  next
    case False
    then have i: "i < ?n" using that by simp
    have "NUL \<in> set (mem_get m (d + ENTRY_SIZE * i) MAX_FILENAME_LEN) \<and> entry_name m d i \<noteq> []"
      using wf i by (simp add: dir_wf_def)
    then show ?thesis
      using arg_cong [OF old [OF i], of fst] bytes [of i] False i by (simp add: entry_of_bytes)
  qed
  then show "dir_wf ?m d"
    using wf n new by (simp add: dir_wf_def count(2) es entry_of_bytes(3))
qed


section \<open>Removing an entry\<close>

definition entry_ok :: "string \<Rightarrow> bool" where
  "entry_ok bs \<longleftrightarrow> NUL \<in> set (take MAX_FILENAME_LEN bs) \<and> cstr_of (take MAX_FILENAME_LEN bs) \<noteq> []"

lemma dir_wf_bytes:
  "dir_wf m d \<longleftrightarrow>
     d + DIR_SIZE \<le> DATA_SIZE \<and> unat (entry_count m d) \<le> MAX_BLOCKS \<and>
     (\<forall>i<unat (entry_count m d). entry_ok (entry_bytes m d i)) \<and>
     distinct (map fst (dir_entries m d))"
  by (simp add: dir_wf_def entry_ok_def entry_of_bytes)

lemma dir_entries_bytes:
  "dir_entries m d =
     map (\<lambda>i. (cstr_of (take MAX_FILENAME_LEN (entry_bytes m d i)),
               bytes_u32 (drop MAX_FILENAME_LEN (entry_bytes m d i)))) [0..<unat (entry_count m d)]"
  by (simp add: dir_entries_def entry_at_def entry_of_bytes)

lemma unat_pred_count: "0 < unat (w :: uint32) \<Longrightarrow> unat (w - 1) = unat w - 1"
  by (simp add: unat_dec)

lemma entry_bytes_put:
  "length bs = ENTRY_SIZE \<Longrightarrow>
   entry_bytes (mem_put m (d + ENTRY_SIZE * j) bs) d k = (if k = j then bs else entry_bytes m d k)"
proof -
  assume len: "length bs = ENTRY_SIZE"
  have "k = j \<or> k < j \<or> j < k" by linarith
  with len show ?thesis by (auto simp: entry_bytes_def mem_get_put_other)
qed

lemma dir_shift_spec:
  assumes "d + DIR_SIZE \<le> DATA_SIZE" "0 < unat (entry_count m d)" "unat (entry_count m d) \<le> MAX_BLOCKS"
  shows "\<exists>m'. dir_shift m d i = Some m' \<and> entry_count m' d = entry_count m d \<and>
    (\<forall>k. entry_bytes m' d k =
       (if i \<le> k \<and> Suc k < unat (entry_count m d) then entry_bytes m d (Suc k) else entry_bytes m d k)) \<and>
    (\<forall>x. x < d \<or> d + DIR_SIZE \<le> x \<longrightarrow> m' x = m x)"
  using assms
proof (induction "unat (entry_count m d) - i" arbitrary: i m rule: less_induct)
  case less
  let ?n = "unat (entry_count m d)"
  have pred: "unat (entry_count m d - 1) = ?n - 1" using less.prems(2) by (rule unat_pred_count)
  show ?case
  proof (cases "Suc i < ?n")
    case False
    then show ?thesis using less.prems by (auto simp: dir_shift.simps [of m d i] pred)
  next
    case True
    let ?m = "mem_put m (d + ENTRY_SIZE * i) (entry_bytes m d (Suc i))"
    have len: "length (entry_bytes m d (Suc i)) = ENTRY_SIZE" by (simp add: entry_bytes_def)
    have i: "i < MAX_BLOCKS" using True less.prems(3) by simp
    have cnt: "entry_count ?m d = entry_count m d"
      using i len by (simp add: entry_count_def mem_get32_put_other)
    have step: "dir_shift m d i = dir_shift ?m d (Suc i)"
      using True less.prems less_diff_conv [of i ?n 1]
      by (simp add: dir_shift.simps [of m d i] pred entry_bytes_def)
    have out: "x < d \<or> d + DIR_SIZE \<le> x \<Longrightarrow> ?m x = m x" for x
      using i len by (auto simp: mem_put_out)
    have "unat (entry_count ?m d) - Suc i < ?n - i" using True cnt by simp
    from less.hyps [OF this] less.prems obtain m' where m':
      "dir_shift ?m d (Suc i) = Some m'" "entry_count m' d = entry_count m d"
      "\<And>k. entry_bytes m' d k =
         (if Suc i \<le> k \<and> Suc k < ?n then entry_bytes ?m d (Suc k) else entry_bytes ?m d k)"
      "\<And>x. x < d \<or> d + DIR_SIZE \<le> x \<Longrightarrow> m' x = ?m x"
      unfolding cnt by blast
    have "entry_bytes m' d k =
        (if i \<le> k \<and> Suc k < ?n then entry_bytes m d (Suc k) else entry_bytes m d k)" for k
      using True len by (auto simp: m'(3) entry_bytes_put)
    then show ?thesis using m' step out by auto
  qed
qed

lemma remove_nth_filter:
  assumes "distinct (map fst es)" "i < length es" "fst (es ! i) = k"
  shows "take i es @ drop (Suc i) es = filter (\<lambda>e. fst e \<noteq> k) es"
proof -
  have es: "es = take i es @ es ! i # drop (Suc i) es" by (rule id_take_nth_drop [OF assms(2)])
  have "distinct (map fst (take i es @ es ! i # drop (Suc i) es))" using assms(1) es by simp
  then have "\<forall>e\<in>set (take i es) \<union> set (drop (Suc i) es). fst e \<noteq> k"
    using assms(3) by (auto simp: image_iff)
  then have "filter (\<lambda>e. fst e \<noteq> k) (take i es) = take i es"
    and "filter (\<lambda>e. fst e \<noteq> k) (drop (Suc i) es) = drop (Suc i) es"
    by (auto simp: filter_id_conv)
  then show ?thesis using assms(3) by (subst (3) es) simp
qed

lemma dir_close_gap:
  assumes wf: "dir_wf m d" and i: "i < unat (entry_count m d)"
    and m': "entry_count m' d = entry_count m d - 1"
      "\<And>k. k < unat (entry_count m d) - 1 \<Longrightarrow>
         entry_bytes m' d k = (if i \<le> k then entry_bytes m d (Suc k) else entry_bytes m d k)"
  shows "dir_entries m' d = filter (\<lambda>e. fst e \<noteq> entry_name m d i) (dir_entries m d)"
    and "dir_wf m' d"
proof -
  let ?es = "dir_entries m d"
  have n: "unat (entry_count m' d) = unat (entry_count m d) - 1"
    using i by (simp only: m'(1)) (rule unat_pred_count, simp)
  have at: "entry_at m' d k = (if i \<le> k then entry_at m d (Suc k) else entry_at m d k)"
    if "k < unat (entry_count m d) - 1" for k
    using m'(2) [OF that] by (simp add: entry_at_def entry_of_bytes)
  have es: "dir_entries m' d = take i ?es @ drop (Suc i) ?es"
    using i by (intro dir_entries_eqI) (auto simp: n at nth_append min_def)
  also have "\<dots> = filter (\<lambda>e. fst e \<noteq> entry_name m d i) ?es"
    using wf i by (intro remove_nth_filter) (auto simp: dir_wf_def)
  finally show fil: "dir_entries m' d = filter (\<lambda>e. fst e \<noteq> entry_name m d i) ?es" .
  have "distinct (map fst (dir_entries m' d))"
    using wf by (simp add: fil dir_wf_def distinct_map_filter)
  moreover have "entry_ok (entry_bytes m' d k)" if "k < unat (entry_count m d) - 1" for k
    using wf that by (simp add: m'(2) dir_wf_bytes)
  ultimately show "dir_wf m' d"
    using wf by (auto simp: dir_wf_bytes n)
qed

lemma directory_remove_entry_absent:
  assumes "dir_wf m d" "cstring name" "name = [] \<or> name \<notin> fst ` set (dir_entries m d)"
  shows "directory_remove_entry m d name = Some (- 1, m)"
proof -
  have d: "d + DIR_SIZE \<le> DATA_SIZE" using assms by (simp add: dir_wf_def)
  show ?thesis
    using assms d dir_names_find [of name m d] by (auto simp: directory_remove_entry_def dir_search_wf)
qed

lemma directory_remove_entry_present:
  assumes wf: "dir_wf m d" and name: "cstring name" "name \<in> fst ` set (dir_entries m d)"
  shows "\<exists>m'. directory_remove_entry m d name = Some (0, m') \<and>
    dir_entries m' d = filter (\<lambda>e. fst e \<noteq> name) (dir_entries m d) \<and> dir_wf m' d \<and>
    (\<forall>x. x < d \<or> d + DIR_SIZE \<le> x \<longrightarrow> m' x = m x)"
proof -
  let ?n = "unat (entry_count m d)"
  have d: "d + DIR_SIZE \<le> DATA_SIZE" "?n \<le> MAX_BLOCKS" using wf by (simp_all add: dir_wf_def)
  have "find (\<lambda>j. entry_name m d j = name) [0..<?n] \<noteq> None"
    using name(2) dir_names_find by blast
  then obtain i where f: "find (\<lambda>j. entry_name m d j = name) [0..<?n] = Some i" by blast
  then have i: "i < ?n" "entry_name m d i = name" by (auto simp: find_Some_iff)
  have ne: "name \<noteq> []" using wf i by (auto simp: dir_wf_def)
  obtain s where s: "dir_shift m d i = Some s" "entry_count s d = entry_count m d"
    "\<And>k. entry_bytes s d k = (if i \<le> k \<and> Suc k < ?n then entry_bytes m d (Suc k) else entry_bytes m d k)"
    "\<And>x. x < d \<or> d + DIR_SIZE \<le> x \<Longrightarrow> s x = m x"
    using dir_shift_spec [of d m i] d i by auto
  let ?m = "mem_put32 s (d + COUNT_OFFSET) (entry_count s d - 1)"
  have "directory_remove_entry m d name = Some (0, ?m)"
    using d f s(1) ne wf name by (simp add: directory_remove_entry_def dir_search_wf)
  moreover have "dir_entries ?m d = filter (\<lambda>e. fst e \<noteq> entry_name m d i) (dir_entries m d)" "dir_wf ?m d"
    using d(2) by (intro dir_close_gap [OF wf i(1)];
        simp add: s entry_bytes_put_count less_diff_conv)+
  moreover have "\<forall>x. x < d \<or> d + DIR_SIZE \<le> x \<longrightarrow> ?m x = m x"
    using s(4) by (auto simp: mem_put32_def mem_put_out)
  ultimately show ?thesis unfolding i(2) by blast
qed


section \<open>Listing and initialising\<close>

lemma dir_names_wf:
  assumes "dir_wf m d" "n \<le> unat (entry_count m d)"
  shows "dir_names m d rows i n =
    (if i < n \<and> rows < n then None else Some (map (entry_name m d) [i..<n]))"
proof (induction "n - i" arbitrary: i)
  case 0
  then show ?case by (simp add: dir_names.simps)
next
  case (Suc k)
  then have i: "i < n" by simp
  have "NUL \<in> set (mem_get m (d + ENTRY_SIZE * i) MAX_FILENAME_LEN)" "d + ENTRY_SIZE * i + ENTRY_SIZE \<le> DATA_SIZE"
    using assms i dir_wf_bound [OF assms(1), of i] by (auto simp: dir_wf_def)
  moreover have "dir_names m d rows (Suc i) n =
      (if Suc i < n \<and> rows < n then None else Some (map (entry_name m d) [Suc i..<n]))"
    using Suc by simp
  ultimately show ?case
    using i by (auto simp: dir_names.simps [of m d rows i n] entry_name_def upt_conv_Cons)
qed

lemma directory_list_entries_wf:
  assumes "dir_wf m d"
  shows "directory_list_entries m d rows =
    (if rows < length (dir_entries m d) then None
     else Some (int (length (dir_entries m d)), map fst (dir_entries m d)))"
proof -
  have d: "d + DIR_SIZE \<le> DATA_SIZE" "unat (entry_count m d) \<le> MAX_BLOCKS"
    using assms by (simp_all add: dir_wf_def)
  have "sint (entry_count m d) = int (unat (entry_count m d))"
    using d(2) by (intro sint_small) simp
  then show ?thesis
    using d assms
    by (auto simp: directory_list_entries_def dir_names_wf dir_entries_def entry_at_def comp_def)
qed

lemma directory_init_spec:
  assumes "d + DIR_SIZE \<le> DATA_SIZE"
  shows "\<exists>m'. directory_init m d = Some m' \<and> dir_entries m' d = [(''.'', 0), (''..'', 0)] \<and> dir_wf m' d \<and>
    (\<forall>x. x < d \<or> d + DIR_SIZE \<le> x \<longrightarrow> m' x = m x)"
proof -
  let ?m0 = "mem_put32 m (d + COUNT_OFFSET) 2"
  let ?m = "put_entry (put_entry ?m0 d 0 ''.'' 0) d 1 ''..'' 0"
  have cnt: "entry_count ?m d = 2"
    by (simp add: entry_count_put_entry del: One_nat_def)
  have b0: "entry_bytes ?m d 0 = strncpy_bytes ''.'' MAX_FILENAME_LEN @ u32_bytes 0"
    and b1: "entry_bytes ?m d 1 = strncpy_bytes ''..'' MAX_FILENAME_LEN @ u32_bytes 0"
    by (simp_all add: entry_bytes_put_entry)
  have upt: "[0..<2] = [0, 1::nat]" by (simp add: upt_rec)
  have es: "dir_entries ?m d = [(''.'', 0), (''..'', 0)]"
    unfolding dir_entries_bytes by (simp add: cnt upt b0 b1 del: One_nat_def)
  have "dir_wf ?m d"
    using assms by (simp add: dir_wf_bytes cnt es all_less_two b0 b1 entry_ok_def set_strncpy del: One_nat_def)
  moreover have "?m x = m x" if "x < d \<or> d + DIR_SIZE \<le> x" for x
    using that by (auto simp: put_entry_def mem_put32_def mem_put_out)
  ultimately show ?thesis using assms es by (simp add: directory_init_def)
qed


section \<open>The interface: a table of names\<close>

text \<open>
  What the rest of the file system relies on. \<open>tab\<close> is the abstract content, \<open>num\<close> reads a
  stored value as the \<^verbatim>\<open>int\<close> the lookup returns; an operation that cannot be carried out returns
  -1 and leaves the state alone.
\<close>

locale name_table =
  fixes inv :: "'s \<Rightarrow> bool"
    and tab :: "'s \<Rightarrow> ('k \<times> 'v) list"
    and is_key :: "'k \<Rightarrow> bool"
    and storable :: "'k \<Rightarrow> bool"
    and cap :: nat
    and num :: "'v \<Rightarrow> int"
    and lookup :: "'s \<Rightarrow> 'k \<Rightarrow> int option"
    and add :: "'s \<Rightarrow> 'k \<Rightarrow> 'v \<Rightarrow> (int \<times> 's) option"
    and del :: "'s \<Rightarrow> 'k \<Rightarrow> (int \<times> 's) option"
  assumes distinct_tab: "inv s \<Longrightarrow> distinct (map fst (tab s))"
    and storable_key: "storable k \<Longrightarrow> is_key k"
    and lookup_tab: "inv s \<Longrightarrow> is_key k \<Longrightarrow>
      lookup s k = Some (case map_of (tab s) k of None \<Rightarrow> - 1 | Some v \<Rightarrow> num v)"
    and add_new: "inv s \<Longrightarrow> storable k \<Longrightarrow> k \<notin> fst ` set (tab s) \<Longrightarrow> length (tab s) < cap \<Longrightarrow>
      \<exists>s'. add s k v = Some (0, s') \<and> inv s' \<and> tab s' = tab s @ [(k, v)]"
    and add_fail: "inv s \<Longrightarrow> is_key k \<Longrightarrow>
      \<not> storable k \<or> k \<in> fst ` set (tab s) \<or> cap \<le> length (tab s) \<Longrightarrow> add s k v = Some (- 1, s)"
    and del_present: "inv s \<Longrightarrow> is_key k \<Longrightarrow> k \<in> fst ` set (tab s) \<Longrightarrow>
      \<exists>s'. del s k = Some (0, s') \<and> inv s' \<and> tab s' = filter (\<lambda>e. fst e \<noteq> k) (tab s)"
    and del_absent: "inv s \<Longrightarrow> is_key k \<Longrightarrow> k \<notin> fst ` set (tab s) \<Longrightarrow> del s k = Some (- 1, s)"
begin

lemma add_defined: "inv s \<Longrightarrow> is_key k \<Longrightarrow> \<exists>r s'. add s k v = Some (r, s') \<and> inv s'"
  using add_new [of s k v] add_fail [of s k v] by (metis not_le)

lemma del_defined: "inv s \<Longrightarrow> is_key k \<Longrightarrow> \<exists>r s'. del s k = Some (r, s') \<and> inv s'"
  using del_present [of s k] del_absent [of s k] by metis

lemma add_success:
  assumes "inv s" "is_key k" "add s k v = Some (0, s')"
  shows "storable k" "k \<notin> fst ` set (tab s)" "inv s'" "tab s' = tab s @ [(k, v)]"
proof -
  have "\<not> (\<not> storable k \<or> k \<in> fst ` set (tab s) \<or> cap \<le> length (tab s))"
    using add_fail [of s k v] assms by force
  then show "storable k" "k \<notin> fst ` set (tab s)" "inv s'" "tab s' = tab s @ [(k, v)]"
    using add_new [of s k v] assms by auto
qed

lemma lookup_add:
  assumes "inv s" "is_key k" "is_key j" "add s k v = Some (0, s')"
  shows "lookup s' j = (if j = k then Some (num v) else lookup s j)"
proof -
  note ok = add_success [OF assms(1,2,4)]
  then have "map_of (tab s) k = None" by (simp add: map_of_eq_None_iff)
  then show ?thesis
    using assms(1,3) ok by (auto simp: lookup_tab map_add_def split: option.split)
qed

lemma map_of_filter_key: "map_of (filter (\<lambda>e. fst e \<noteq> k) xs) j = (if j = k then None else map_of xs j)"
  by (induction xs) auto

lemma lookup_del:
  assumes "inv s" "is_key k" "is_key j" "del s k = Some (0, s')"
  shows "lookup s' j = (if j = k then Some (- 1) else lookup s j)"
proof -
  have "k \<in> fst ` set (tab s)" using del_absent [of s k] assms by force
  then have "inv s'" "tab s' = filter (\<lambda>e. fst e \<noteq> k) (tab s)"
    using del_present [of s k] assms by auto
  then show ?thesis using assms(1,3) by (simp add: lookup_tab map_of_filter_key)
qed

lemma add_then_del:
  assumes "inv s" "is_key k" "add s k v = Some (0, s')"
  shows "\<exists>s''. del s' k = Some (0, s'') \<and> inv s'' \<and> tab s'' = tab s"
proof -
  note ok = add_success [OF assms]
  have "filter (\<lambda>e. fst e \<noteq> k) (tab s) = tab s"
    using ok(2) by (auto simp: filter_id_conv)
  then show ?thesis using del_present [of s' k] ok assms(2) by auto
qed

lemma add_twice_fails:
  "inv s \<Longrightarrow> is_key k \<Longrightarrow> add s k v = Some (0, s') \<Longrightarrow> add s' k w = Some (- 1, s')"
  using add_success [of s k v s'] add_fail [of s' k w] by auto

end

definition file_name_ok :: "string \<Rightarrow> bool" where
  "file_name_ok name \<longleftrightarrow> cstring name \<and> name \<noteq> [] \<and> length name < MAX_FILENAME_LEN"

interpretation dir: name_table "\<lambda>m. dir_wf m d" "\<lambda>m. dir_entries m d" cstring file_name_ok
    MAX_BLOCKS sint "\<lambda>m. directory_lookup m d" "\<lambda>m. directory_add_entry m d"
    "\<lambda>m. directory_remove_entry m d" for d
proof (unfold_locales, goal_cases)
  case (1 m) then show ?case by (simp add: dir_wf_def)
next
  case (2 k) then show ?case by (simp add: file_name_ok_def)
next
  case (3 m k) then show ?case by (rule directory_lookup_wf)
next
  case (4 m k v)
  then show ?case
    using dir_append_spec [of m d k v]
    by (auto simp: directory_add_entry_wf file_name_ok_def image_iff not_le)
next
  case (5 m k v)
  then show ?case by (auto simp: directory_add_entry_wf file_name_ok_def)
next
  case (6 m k) then show ?case using directory_remove_entry_present [of m d k] by blast
next
  case (7 m k) then show ?case by (intro directory_remove_entry_absent) auto
qed

end
