(* ===== verification/Filesystem.thy ===== *)
theory Filesystem
  imports Directory
begin

text \<open>
  The operations of the file system (\<^verbatim>\<open>src/TP File System/src/filesystem.c\<close>), one definition
  per function and one per loop, with every early return. The type of an operation is
  \<open>os_env \<Rightarrow> filesystem \<Rightarrow> \<dots> \<Rightarrow> (int \<times> filesystem) option\<close>: the returned \<^verbatim>\<open>int\<close> and the updated
  file system, or \<^term>\<open>None\<close> where the C code would access memory outside its arrays.
  A path is a C string (a list of characters without the terminator).
\<close>

text \<open>Conversion of a \<^verbatim>\<open>size_t\<close> to \<^verbatim>\<open>int\<close> and of an \<^verbatim>\<open>off_t\<close> to \<^verbatim>\<open>size_t\<close>.\<close>

definition size_to_int :: "nat \<Rightarrow> int" where
  "size_to_int n = sint (word_of_nat n :: uint32)"

definition off_to_size :: "int \<Rightarrow> nat" where
  "off_to_size off = nat (off mod 2 ^ 64)"

section \<open>Path resolution\<close>

fun resolve_tokens ::
  "os_env \<Rightarrow> filesystem \<Rightarrow> nat \<Rightarrow> nat \<Rightarrow> string list \<Rightarrow> (int \<times> filesystem) option" where
  "resolve_tokens os fs cur depth [] = Some (int cur, fs)"
| "resolve_tokens os fs cur depth (token # tokens) =
     (if depth > MAX_DIR_DEPTH then Some (- ENAMETOOLONG, fs)
      else do {
        ino \<leftarrow> inode_at fs (int cur);
        dir \<leftarrow> get_directory_by_inode ino;
        case dir of
          None \<Rightarrow> Some (- 1, fs)
        | Some d \<Rightarrow> do {
            n \<leftarrow> directory_lookup (data_block fs) d token;
            if n = - 1 then Some (- 1, fs)
            else do {
              _ \<leftarrow> inode_at fs n;
              resolve_tokens os (upd_inode (nat n) (inode_update_atime os) fs) (nat n) (Suc depth) tokens
            }
          }
      })"

definition fs_resolve_path :: "os_env \<Rightarrow> filesystem \<Rightarrow> string \<Rightarrow> (int \<times> filesystem) option" where
  "fs_resolve_path os fs path =
     (if path = [] then Some (- 1, fs)
      else if length path \<ge> MAX_PATH_LEN then Some (- ENAMETOOLONG, fs)
      else if path = ''/'' then Some (sint (root_inode_number (fs_super fs)), fs)
      else do {
        let root = unat (root_inode_number (fs_super fs));
        _ \<leftarrow> inode_at fs (int root);
        resolve_tokens os (upd_inode root (inode_update_atime os) fs) root 0 (strtok_all (CHR ''/'') path)
      })"

text \<open>\<^verbatim>\<open>for (i = len - 1; i >= 0; i--) if (path[i] == '/') ...\<close>, with \<open>n\<close> characters still to look at.\<close>

fun last_slash :: "string \<Rightarrow> nat \<Rightarrow> int" where
  "last_slash path 0 = - 1"
| "last_slash path (Suc i) = (if path ! i = CHR ''/'' then int i else last_slash path i)"

text \<open>
  \<^verbatim>\<open>fs_resolve_parent\<close> answers an error code, or the index of the parent's inode and the last
  component. The pointer to the parent is only formed here; reading it is checked by the caller.
\<close>

definition fs_resolve_parent ::
  "os_env \<Rightarrow> filesystem \<Rightarrow> string \<Rightarrow> ((int + nat \<times> string) \<times> filesystem) option" where
  "fs_resolve_parent os fs path =
     (if path = [] then Some (Inl (- EINVAL), fs)
      else if length path \<ge> MAX_PATH_LEN then Some (Inl (- ENAMETOOLONG), fs)
      else
        let pos = last_slash path (length path) in
        if pos < 0 then Some (Inl (- EINVAL), fs)
        else
          let target = drop (nat pos + 1) path in
          if length target = 0 \<or> length target \<ge> MAX_FILENAME_LEN then Some (Inl (- EINVAL), fs)
          else do {
            (n, fs) \<leftarrow> fs_resolve_path os fs (if pos = 0 then ''/'' else take (nat pos) path);
            if n < 0 then Some (Inl n, fs) else Some (Inr (nat n, target), fs)
          })"

section \<open>Initialisation\<close>

definition init_superblock :: superblock where
  "init_superblock =
     \<lparr>total_inodes = of_nat MAX_INODES, total_blocks = of_nat MAX_BLOCKS,
      free_inodes_count = of_nat (MAX_INODES - 1), free_blocks_count = of_nat (MAX_BLOCKS - 1),
      block_size_bytes = of_nat BLOCK_SIZE,
      max_file_size_bytes = of_nat (NUM_DIRECT_BLOCKS * BLOCK_SIZE),
      max_filename_length = of_nat MAX_FILENAME_LEN, max_path_length = of_nat MAX_PATH_LEN,
      root_inode_number = 0\<rparr>"

definition root_inode :: "os_env \<Rightarrow> inode" where
  "root_inode os =
     (inode_init os)\<lparr>inode_type := INODE_DIR, permission_bits := PERM_RWX, owner_user_id := 0,
        owner_group_id := 0, direct_block_ptrs := (replicate NUM_DIRECT_BLOCKS NO_BLOCK)[0 := 0],
        file_size_bytes := of_nat DIR_SIZE, last_modification_time := os_time os,
        last_metadata_change_time := os_time os, last_access_time := os_time os\<rparr>"

definition fs_init :: "os_env \<Rightarrow> filesystem \<Rightarrow> filesystem option" where
  "fs_init os fs = do {
     m \<leftarrow> directory_init (data_block fs) 0;
     Some (fs\<lparr>fs_super := init_superblock,
              fs_intmap := set_inode_used 0 (set_block_used 0 intmap_init),
              fs_inodes := (replicate MAX_INODES (inode_init os))[0 := root_inode os],
              data_block := m\<rparr>)
   }"

section \<open>Files\<close>

text \<open>
  \<^verbatim>\<open>fs_create_file\<close> from the allocation on, with the parent directory at address \<open>d\<close>: every failure
  gives back what was taken.
\<close>

definition create_file_in :: "os_env \<Rightarrow> filesystem \<Rightarrow> nat \<Rightarrow> string \<Rightarrow> uint32 \<Rightarrow> (int \<times> filesystem) option" where
  "create_file_in os fs d filename mode = do {
     let (idx, fs) = allocate_inode os fs;
     if idx < 0 then Some (- ENOSPC, fs)
     else do {
       let fs = dec_free_inodes fs;
       let fs = upd_inode (nat idx)
         (\<lambda>_. (inode_init os)\<lparr>inode_type := INODE_FILE, owner_user_id := ucast (os_uid os),
                owner_group_id := ucast (os_gid os), permission_bits := ucast mode\<rparr>) fs;
       let block_free = find_free_block (fs_intmap fs);
       let (added, fs) = (if block_free < 0 then (- 1, fs)
                          else inode_add_direct_block fs (nat idx) (nat block_free));
       if added = - 1 then Some (- ENOSPC, inc_free_inodes (inode_free os idx fs))
       else do {
         let fs = dec_free_blocks fs;
         (r, m) \<leftarrow> directory_add_entry (data_block fs) d filename (word_of_int idx);
         let fs = upd_data m fs;
         if r \<noteq> 0
         then Some (- 1, inc_free_blocks (inc_free_inodes (inode_free os idx fs)))
         else Some (0, fs)
       }
     }
   }"

definition fs_create_file :: "os_env \<Rightarrow> filesystem \<Rightarrow> string \<Rightarrow> uint32 \<Rightarrow> (int \<times> filesystem) option" where
  "fs_create_file os fs path mode =
     (if path = [] then Some (- 1, fs)
      else if length path \<ge> MAX_PATH_LEN then Some (- ENAMETOOLONG, fs)
      else do {
        (parent, fs) \<leftarrow> fs_resolve_parent os fs path;
        case parent of
          Inl e \<Rightarrow> Some (- 1, fs)
        | Inr (p, filename) \<Rightarrow> do {
            pino \<leftarrow> inode_at fs (int p);
            dir \<leftarrow> get_directory_by_inode pino;
            case dir of
              None \<Rightarrow> Some (- 1, fs)
            | Some d \<Rightarrow> do {
                found \<leftarrow> directory_lookup (data_block fs) d filename;
                if found \<ge> 0 then Some (- EEXIST, fs)
                else create_file_in os fs d filename mode
              }
          }
      })"

text \<open>
  The copying loop of \<^verbatim>\<open>fs_read_file\<close>; \<open>acc\<close> is what has been copied so far. It stops at the
  last direct block, so \<open>NUM_DIRECT_BLOCKS - block_idx\<close> decreases.
\<close>

function read_loop :: "filesystem \<Rightarrow> inode \<Rightarrow> nat \<Rightarrow> nat \<Rightarrow> nat \<Rightarrow> nat \<Rightarrow> string \<Rightarrow> string option" where
  "read_loop fs ino block_size bytes_to_read block_idx block_offset acc =
     (if length acc < bytes_to_read \<and> block_idx < NUM_DIRECT_BLOCKS
      then (let block_num = inode_get_direct_block ino (int block_idx) in
            if block_num < 0 then Some acc
            else do {
              a \<leftarrow> block_addr block_num;
              let copy_size = min (bytes_to_read - length acc) (block_size - block_offset);
              guard (a + block_offset + copy_size \<le> DATA_SIZE);
              read_loop fs ino block_size bytes_to_read (Suc block_idx) 0
                (acc @ mem_get (data_block fs) (a + block_offset) copy_size)
            })
      else Some acc)"
  by pat_completeness auto
termination
  by (relation "measure (\<lambda>(fs, ino, bs, n, k, off, acc). NUM_DIRECT_BLOCKS - k)") auto

declare read_loop.simps [simp del]

text \<open>
  \<^verbatim>\<open>fs_read_file\<close> once the inode is known: the returned count, the bytes copied to the caller's buffer,
  and the file system.
\<close>

definition read_inode :: "os_env \<Rightarrow> filesystem \<Rightarrow> int \<Rightarrow> nat \<Rightarrow> int \<Rightarrow> ((int \<times> string) \<times> filesystem) option" where
  "read_inode os fs idx n offset = do {
     ino \<leftarrow> inode_at fs idx;
     if offset \<ge> int (unat (file_size_bytes ino)) then Some ((0, []), fs)
     else do {
       let bytes_left = off_to_size (int (unat (file_size_bytes ino)) - offset);
       let block_size = unat (block_size_bytes (fs_super fs));
       guard (block_size \<noteq> 0);
       out \<leftarrow> read_loop fs ino block_size (if n < bytes_left then n else bytes_left)
         (off_to_size offset div block_size) (off_to_size offset mod block_size) [];
       Some ((size_to_int (length out), out), upd_inode (nat idx) (inode_update_atime os) fs)
     }
   }"

definition fs_read_file ::
  "os_env \<Rightarrow> filesystem \<Rightarrow> string \<Rightarrow> nat \<Rightarrow> int \<Rightarrow> ((int \<times> string) \<times> filesystem) option" where
  "fs_read_file os fs path n offset = do {
     (parent, fs) \<leftarrow> fs_resolve_parent os fs path;
     case parent of
       Inl e \<Rightarrow> Some ((- 1, []), fs)
     | Inr (p, filename) \<Rightarrow> do {
         pino \<leftarrow> inode_at fs (int p);
         dir \<leftarrow> get_directory_by_inode pino;
         case dir of
           None \<Rightarrow> Some ((- 1, []), fs)
         | Some d \<Rightarrow> do {
             idx \<leftarrow> directory_lookup (data_block fs) d filename;
             if idx < 0 then Some ((- 1, []), fs)
             else read_inode os fs idx n offset
           }
       }
   }"

text \<open>
  The block a round of \<^verbatim>\<open>fs_write_file\<close> writes to: the one in slot \<open>block_index\<close> or, when the slot
  is empty, the first free block, which goes into the first empty slot. \<open>None\<close> is the
  \<^verbatim>\<open>break\<close> when there is no free block or no empty slot.
\<close>

definition block_for_write :: "filesystem \<Rightarrow> nat \<Rightarrow> nat \<Rightarrow> int option \<times> filesystem" where
  "block_for_write fs i block_index =
     (let block_num = inode_get_direct_block (fs_inodes fs ! i) (int block_index) in
      if block_num < 0
      then let new_block = find_free_block (fs_intmap fs) in
        if new_block = - 1 then (None, fs)
        else let (r, fs') = inode_add_direct_block fs i (nat new_block)
             in if r = - 1 then (None, fs') else (Some new_block, dec_free_blocks fs')
      else (Some block_num, fs))"

text \<open>
  The copying loop of \<^verbatim>\<open>fs_write_file\<close>. Every round copies at least one byte (the offset in the
  block is less than the block size), so the rest of the buffer shrinks.
\<close>

definition chunk :: "nat \<Rightarrow> string \<Rightarrow> nat \<Rightarrow> nat \<Rightarrow> nat" where
  "chunk block_size buf written pos = min (length buf - written) (block_size - pos mod block_size)"

lemma chunk_pos: "written < length buf \<Longrightarrow> block_size \<noteq> 0 \<Longrightarrow> 0 < chunk block_size buf written pos"
  by (simp add: chunk_def)

function write_loop :: "filesystem \<Rightarrow> nat \<Rightarrow> nat \<Rightarrow> string \<Rightarrow> nat \<Rightarrow> nat \<Rightarrow> (nat \<times> filesystem) option" where
  "write_loop fs i block_size buf written pos =
     (if written < length buf \<and> block_size \<noteq> 0 then
        if pos div block_size \<ge> NUM_DIRECT_BLOCKS then Some (written, fs)
        else (case block_for_write fs i (pos div block_size) of
            (None, fs') \<Rightarrow> Some (written, fs')
          | (Some block_num, fs') \<Rightarrow>
              (case block_addr block_num of
                 None \<Rightarrow> None
               | Some a \<Rightarrow>
                   let k = chunk block_size buf written pos in
                   if a + pos mod block_size + k \<le> DATA_SIZE
                   then write_loop
                     (upd_data (mem_put (data_block fs') (a + pos mod block_size)
                        (take k (drop written buf))) fs')
                     i block_size buf (written + k) (pos + k)
                   else None))
      else Some (written, fs))"
  by pat_completeness auto
termination
proof (relation "measure (\<lambda>(fs, i, bs, buf, w, pos). length buf - w)", goal_cases)
  case 1
  show ?case by simp
next
  case (2 fs i block_size buf written pos)
  then have "0 < chunk block_size buf written pos" by (intro chunk_pos) auto
  with 2 show ?case by (simp add: diff_less_mono2)
qed

declare write_loop.simps [simp del]

text \<open>\<^verbatim>\<open>fs_write_file\<close> once the inode is known.\<close>

definition write_inode ::
  "os_env \<Rightarrow> filesystem \<Rightarrow> int \<Rightarrow> string \<Rightarrow> int \<Rightarrow> bool \<Rightarrow> (int \<times> filesystem) option" where
  "write_inode os fs idx buf offset to_end = do {
     ino \<leftarrow> inode_at fs idx;
     let pos = (if to_end then unat (file_size_bytes ino) else off_to_size offset);
     let block_size = unat (block_size_bytes (fs_super fs));
     guard (block_size \<noteq> 0);
     (written, fs) \<leftarrow> write_loop fs (nat idx) block_size buf 0 pos;
     let fs = (if pos + written > unat (file_size_bytes (fs_inodes fs ! nat idx))
               then upd_inode (nat idx) (file_size_bytes_update (\<lambda>_. word_of_nat (pos + written))) fs
               else fs);
     Some (size_to_int written,
       upd_inode (nat idx)
         (inode_update_atime os \<circ> inode_update_ctime os \<circ> inode_update_mtime os) fs)
   }"

definition fs_write_file ::
  "os_env \<Rightarrow> filesystem \<Rightarrow> string \<Rightarrow> string \<Rightarrow> int \<Rightarrow> bool \<Rightarrow> (int \<times> filesystem) option" where
  "fs_write_file os fs path buf offset to_end =
     (if length buf = 0 then Some (- 1, fs)
      else do {
        (parent, fs) \<leftarrow> fs_resolve_parent os fs path;
        case parent of
          Inl e \<Rightarrow> Some (- 1, fs)
        | Inr (p, filename) \<Rightarrow> do {
            pino \<leftarrow> inode_at fs (int p);
            dir \<leftarrow> get_directory_by_inode pino;
            case dir of
              None \<Rightarrow> Some (- 1, fs)
            | Some d \<Rightarrow> do {
                idx \<leftarrow> directory_lookup (data_block fs) d filename;
                if idx < 0 then Some (- 1, fs)
                else write_inode os fs idx buf offset to_end
              }
          }
      })"

text \<open>
  The release loop of \<^verbatim>\<open>fs_delete_file\<close> and \<^verbatim>\<open>fisopfs_truncate\<close>, over the slots \<open>ks\<close> of inode \<open>i\<close>:
  clear the block's mark, zero its bytes, count it free, clear the slot.
\<close>

fun release_blocks :: "nat \<Rightarrow> nat list \<Rightarrow> filesystem \<Rightarrow> filesystem option" where
  "release_blocks i [] fs = Some fs"
| "release_blocks i (k # ks) fs =
     (let b = inode_get_direct_block (fs_inodes fs ! i) (int k) in
      if b \<noteq> - 1
      then do {
        a \<leftarrow> block_addr b;
        release_blocks i ks
          (upd_inode i (set_block_ptr k NO_BLOCK)
            (inc_free_blocks
              (upd_data (mem_put (data_block fs) a (replicate BLOCK_SIZE NUL))
                (upd_intmap (clear_block_used (nat b)) fs))))
      }
      else release_blocks i ks fs)"

text \<open>
  \<^verbatim>\<open>fs_delete_file\<close> from the removal of the entry on: directory at address \<open>d\<close>, inode \<open>i\<close>. The blocks
  are released only with the last link.
\<close>

definition delete_in :: "os_env \<Rightarrow> filesystem \<Rightarrow> nat \<Rightarrow> string \<Rightarrow> nat \<Rightarrow> (int \<times> filesystem) option" where
  "delete_in os fs d filename i = do {
     (r, m) \<leftarrow> directory_remove_entry (data_block fs) d filename;
     if r \<noteq> 0 then Some (- EIO, upd_data m fs)
     else do {
       let fs = upd_inode i inode_decrement_links (upd_data m fs);
       fs \<leftarrow> (if hard_links_count (fs_inodes fs ! i) = 0
         then do {
           fs \<leftarrow> release_blocks i [0..<NUM_DIRECT_BLOCKS] fs;
           Some (inc_free_inodes (upd_inode i (\<lambda>_. inode_init os)
                  (upd_intmap (clear_inode_used i) fs)))
         }
         else Some fs);
       let root = unat (root_inode_number (fs_super fs));
       _ \<leftarrow> inode_at fs (int root);
       Some (0, upd_inode root (inode_update_ctime os \<circ> inode_update_mtime os) fs)
     }
   }"

definition fs_delete_file :: "os_env \<Rightarrow> filesystem \<Rightarrow> string \<Rightarrow> (int \<times> filesystem) option" where
  "fs_delete_file os fs path = do {
     (parent, fs) \<leftarrow> fs_resolve_parent os fs path;
     case parent of
       Inl e \<Rightarrow> Some (- 1, fs)
     | Inr (p, filename) \<Rightarrow> do {
         pino \<leftarrow> inode_at fs (int p);
         dir \<leftarrow> get_directory_by_inode pino;
         case dir of
           None \<Rightarrow> Some (- 1, fs)
         | Some d \<Rightarrow> do {
             idx \<leftarrow> directory_lookup (data_block fs) d filename;
             if idx < 0 then Some (- ENOENT, fs)
             else do {
               ino \<leftarrow> inode_at fs idx;
               if inode_type ino \<noteq> INODE_FILE \<and> inode_type ino \<noteq> INODE_SYMLINK then Some (- EISDIR, fs)
               else delete_in os fs d filename (nat idx)
             }
           }
       }
   }"

section \<open>Directories\<close>

text \<open>
  \<^verbatim>\<open>fs_create_directory\<close> from the allocation on: parent inode \<open>p\<close>, its directory at address \<open>d\<close>.
\<close>

definition create_directory_in ::
  "os_env \<Rightarrow> filesystem \<Rightarrow> nat \<Rightarrow> nat \<Rightarrow> uint32 \<Rightarrow> string \<Rightarrow> (int \<times> filesystem) option" where
  "create_directory_in os fs p d mode name = do {
     let (idx, fs) = allocate_inode os fs;
     if idx < 0 \<or> idx \<ge> int MAX_INODES then Some (- ENOSPC, fs)
     else do {
       let fs = dec_free_inodes fs;
       let fs = upd_inode (nat idx)
         (\<lambda>_. (inode_increment_links (inode_init os))\<lparr>inode_type := INODE_DIR,
                permission_bits := ucast mode, file_size_bytes := of_nat DIR_SIZE\<rparr>) fs;
       let new_block = find_free_block (fs_intmap fs);
       if new_block < 0 then Some (- ENOSPC, inc_free_inodes (inode_free os idx fs))
       else do {
         let (added, fs) = inode_add_direct_block fs (nat idx) (nat new_block);
         if added = - 1
         then Some (- ENOSPC, inc_free_inodes
                (upd_intmap (clear_block_used (nat new_block)) (inode_free os idx fs)))
         else do {
           let fs = dec_free_blocks fs;
           nd \<leftarrow> block_addr new_block;
           m \<leftarrow> directory_init (data_block fs) nd;
           (_, m) \<leftarrow> directory_add_entry m nd ''.'' (word_of_int idx);
           (_, m) \<leftarrow> directory_add_entry m nd ''..'' (word_of_nat p);
           (r, m) \<leftarrow> directory_add_entry m d name (word_of_int idx);
           let fs = upd_data m fs;
           if r = - 1
           then Some (- EIO, inc_free_blocks (inc_free_inodes
                  (upd_intmap (clear_block_used (nat new_block)) (inode_free os idx fs))))
           else Some (0, upd_inode p inode_increment_links fs)
         }
       }
     }
   }"

definition fs_create_directory ::
  "os_env \<Rightarrow> filesystem \<Rightarrow> string \<Rightarrow> uint32 \<Rightarrow> string \<Rightarrow> (int \<times> filesystem) option" where
  "fs_create_directory os fs path mode name =
     (if path = [] then Some (- 1, fs)
      else if length path \<ge> MAX_PATH_LEN then Some (- ENAMETOOLONG, fs)
      else do {
        (parent, fs) \<leftarrow> fs_resolve_parent os fs path;
        case parent of
          Inl e \<Rightarrow> Some (- 1, fs)
        | Inr (p, filename) \<Rightarrow> do {
            pino \<leftarrow> inode_at fs (int p);
            dir \<leftarrow> get_directory_by_inode pino;
            case dir of
              None \<Rightarrow> Some (- 1, fs)
            | Some d \<Rightarrow> do {
                found \<leftarrow> directory_lookup (data_block fs) d filename;
                if found \<ge> 0 then Some (- EEXIST, fs)
                else create_directory_in os fs p d mode name
              }
          }
      })"

text \<open>\<open>rows\<close> is the number of rows of the caller's buffer; the second result is what it then holds.\<close>

definition fs_list_directory ::
  "os_env \<Rightarrow> filesystem \<Rightarrow> string \<Rightarrow> nat \<Rightarrow> ((int \<times> string list) \<times> filesystem) option" where
  "fs_list_directory os fs path rows =
     (if path = [] then Some ((- 1, []), fs)
      else if length path \<ge> MAX_PATH_LEN then Some ((- ENAMETOOLONG, []), fs)
      else do {
        (n, fs) \<leftarrow> fs_resolve_path os fs path;
        if n = - 1 then Some ((- ENOENT, []), fs)
        else do {
          ino \<leftarrow> inode_at fs n;
          if inode_type ino \<noteq> INODE_DIR then Some ((- ENOTDIR, []), fs)
          else do {
            dir \<leftarrow> get_directory_by_inode ino;
            case dir of
              None \<Rightarrow> Some ((- EIO, []), fs)
            | Some d \<Rightarrow> do {
                res \<leftarrow> directory_list_entries (data_block fs) d rows;
                Some (res, upd_inode (nat n) (inode_update_atime os) fs)
              }
          }
        }
      })"

definition fs_remove_directory :: "os_env \<Rightarrow> filesystem \<Rightarrow> string \<Rightarrow> (int \<times> filesystem) option" where
  "fs_remove_directory os fs path =
     (if path = [] then Some (- 1, fs)
      else if length path \<ge> MAX_PATH_LEN then Some (- ENAMETOOLONG, fs)
      else do {
        (n, fs) \<leftarrow> fs_resolve_path os fs path;
        if n = - 1 then Some (- ENOENT, fs)
        else do {
          ino \<leftarrow> inode_at fs n;
          if inode_type ino \<noteq> INODE_DIR then Some (- ENOTDIR, fs)
          else do {
            dir \<leftarrow> get_directory_by_inode ino;
            case dir of
              None \<Rightarrow> Some (- EIO, fs)
            | Some d \<Rightarrow> do {
                guard (d + DIR_SIZE \<le> DATA_SIZE);
                if entry_count (data_block fs) d > 2 then Some (- ENOTEMPTY, fs)
                else do {
                  (parent, fs) \<leftarrow> fs_resolve_parent os fs path;
                  case parent of
                    Inl e \<Rightarrow> Some (- EIO, fs)
                  | Inr (p, target) \<Rightarrow> do {
                      pino \<leftarrow> inode_at fs (int p);
                      pdir \<leftarrow> get_directory_by_inode pino;
                      case pdir of
                        None \<Rightarrow> Some (- EIO, fs)
                      | Some pd \<Rightarrow> do {
                          (r, m) \<leftarrow> directory_remove_entry (data_block fs) pd target;
                          let fs = upd_data m fs;
                          if r < 0 then Some (- EIO, fs)
                          else do {
                            let fs = inode_free os n fs;
                            let fs = upd_inode (nat n) (inode_update_ctime os) fs;
                            let fs = upd_inode p (inode_update_mtime os \<circ> inode_update_ctime os) fs;
                            Some (0, inc_free_inodes fs)
                          }
                        }
                    }
                }
              }
          }
        }
      })"

section \<open>Attributes\<close>

record stat =
  st_mode :: uint32
  st_nlink :: uint16
  st_uid :: uint16
  st_gid :: uint16
  st_size :: nat
  st_atime :: int
  st_mtime :: int
  st_ctime :: int

definition mode_of_kind :: "inode_kind \<Rightarrow> uint32" where
  "mode_of_kind k = (case k of INODE_DIR \<Rightarrow> FS_MODE_DIR | INODE_FILE \<Rightarrow> FS_MODE_FILE
                             | INODE_SYMLINK \<Rightarrow> FS_MODE_SYMLINK)"

text \<open>The \<^verbatim>\<open>struct stat\<close> is written only on success.\<close>

definition fs_statistics ::
  "os_env \<Rightarrow> filesystem \<Rightarrow> string \<Rightarrow> ((int \<times> stat option) \<times> filesystem) option" where
  "fs_statistics os fs path = do {
     (n, fs) \<leftarrow> fs_resolve_path os fs path;
     if n = - 1 then Some ((- ENOENT, None), fs)
     else do {
       ino \<leftarrow> inode_at fs n;
       Some ((0, Some \<lparr>st_mode = mode_of_kind (inode_type ino) OR ucast (permission_bits ino),
                       st_nlink = hard_links_count ino, st_uid = owner_user_id ino,
                       st_gid = owner_group_id ino, st_size = unat (file_size_bytes ino),
                       st_atime = last_access_time ino, st_mtime = last_modification_time ino,
                       st_ctime = last_metadata_change_time ino\<rparr>),
             upd_inode (nat n) (inode_update_atime os) fs)
     }
   }"

text \<open>\<^verbatim>\<open>S_IRUSR\<close> etc. are octal 0400, 0040, 0004 for reading, 0200 .. 0002 for writing, 0100 .. 0001 for executing.\<close>

definition mode_to_perm :: "uint32 \<Rightarrow> uint16" where
  "mode_to_perm mode =
     (if mode AND 256 \<noteq> 0 \<or> mode AND 32 \<noteq> 0 \<or> mode AND 4 \<noteq> 0 then PERM_READ else 0) +
     (if mode AND 128 \<noteq> 0 \<or> mode AND 16 \<noteq> 0 \<or> mode AND 2 \<noteq> 0 then PERM_WRITE else 0) +
     (if mode AND 64 \<noteq> 0 \<or> mode AND 8 \<noteq> 0 \<or> mode AND 1 \<noteq> 0 then PERM_EXEC else 0)"

definition fs_change_mode :: "os_env \<Rightarrow> filesystem \<Rightarrow> string \<Rightarrow> uint32 \<Rightarrow> (int \<times> filesystem) option" where
  "fs_change_mode os fs path mode = do {
     (n, fs) \<leftarrow> fs_resolve_path os fs path;
     if n < 0 then Some (- ENOENT, fs)
     else do {
       _ \<leftarrow> inode_at fs n;
       Some (0, upd_inode (nat n)
         (inode_update_ctime os \<circ> permission_bits_update (\<lambda>_. mode_to_perm mode)) fs)
     }
   }"

definition fs_change_owner ::
  "os_env \<Rightarrow> filesystem \<Rightarrow> string \<Rightarrow> uint32 \<Rightarrow> uint32 \<Rightarrow> (int \<times> filesystem) option" where
  "fs_change_owner os fs path uid gid = do {
     (n, fs) \<leftarrow> fs_resolve_path os fs path;
     if n < 0 then Some (- ENOENT, fs)
     else do {
       _ \<leftarrow> inode_at fs n;
       Some (0, upd_inode (nat n)
         (inode_update_ctime os \<circ> owner_group_id_update (\<lambda>_. ucast gid) \<circ>
          owner_user_id_update (\<lambda>_. ucast uid)) fs)
     }
   }"

section \<open>Links\<close>

text \<open>\<^verbatim>\<open>fs_create_symlink\<close> from the allocation on, with the parent directory at address \<open>d\<close>.\<close>

definition create_symlink_in ::
  "os_env \<Rightarrow> filesystem \<Rightarrow> nat \<Rightarrow> string \<Rightarrow> string \<Rightarrow> (int \<times> filesystem) option" where
  "create_symlink_in os fs d filename target = do {
     let (idx, fs) = allocate_inode os fs;
     if idx < 0 then Some (- ENOSPC, fs)
     else do {
       let fs = dec_free_inodes fs;
       let fs = upd_inode (nat idx)
         (\<lambda>ino. ino\<lparr>inode_type := INODE_SYMLINK, owner_user_id := ucast (os_uid os),
            owner_group_id := ucast (os_gid os), permission_bits := PERM_RWX,
            hard_links_count := 1\<rparr>) fs;
       if length target \<ge> unat (max_file_size_bytes (fs_super fs))
       then Some (- ENAMETOOLONG, inc_free_inodes (inode_free os idx fs))
       else do {
         let fs = upd_inode (nat idx) (file_size_bytes_update (\<lambda>_. word_of_nat (length target))) fs;
         let block_free = find_free_block (fs_intmap fs);
         let (added, fs) = (if block_free < 0 then (- 1, fs)
                            else inode_add_direct_block fs (nat idx) (nat block_free));
         if added \<noteq> 0 then Some (- ENOSPC, inc_free_inodes (inode_free os idx fs))
         else do {
           let fs = dec_free_blocks fs;
           a \<leftarrow> block_addr block_free;
           guard (a + length target \<le> DATA_SIZE);
           let fs = upd_data (mem_put (mem_put (data_block fs) a (replicate BLOCK_SIZE NUL)) a target) fs;
           (r, m) \<leftarrow> directory_add_entry (data_block fs) d filename (word_of_int idx);
           let fs = upd_data m fs;
           if r \<noteq> 0
           then Some (- ENOSPC, inc_free_blocks (inc_free_inodes (inode_free os idx fs)))
           else Some (0, fs)
         }
       }
     }
   }"

definition fs_create_symlink :: "os_env \<Rightarrow> filesystem \<Rightarrow> string \<Rightarrow> string \<Rightarrow> (int \<times> filesystem) option" where
  "fs_create_symlink os fs target linkpath = do {
     (parent, fs) \<leftarrow> fs_resolve_parent os fs linkpath;
     case parent of
       Inl e \<Rightarrow> Some (- ENOENT, fs)
     | Inr (p, filename) \<Rightarrow> do {
         pino \<leftarrow> inode_at fs (int p);
         if inode_type pino \<noteq> INODE_DIR then Some (- ENOTDIR, fs)
         else do {
           dir \<leftarrow> get_directory_by_inode pino;
           case dir of
             None \<Rightarrow> Some (- EIO, fs)
           | Some d \<Rightarrow> do {
               found \<leftarrow> directory_lookup (data_block fs) d filename;
               if found \<ge> 0 then Some (- EEXIST, fs)
               else create_symlink_in os fs d filename target
             }
         }
       }
   }"

text \<open>
  The second result is the buffer after the call: the copied characters (the terminator is not
  part of a C string here). With \<open>size = 0\<close> the C code writes past the buffer.
\<close>

definition fs_read_symlink ::
  "os_env \<Rightarrow> filesystem \<Rightarrow> string \<Rightarrow> nat \<Rightarrow> ((int \<times> string) \<times> filesystem) option" where
  "fs_read_symlink os fs path n = do {
     (idx, fs) \<leftarrow> fs_resolve_path os fs path;
     if idx < 0 then Some ((- ENOENT, []), fs)
     else do {
       ino \<leftarrow> inode_at fs idx;
       if inode_type ino \<noteq> INODE_SYMLINK then Some ((- EINVAL, []), fs)
       else
         let b = inode_get_direct_block ino 0 in
         if b < 0 then Some ((- EIO, []), fs)
         else do {
           a \<leftarrow> block_addr b;
           guard (n \<noteq> 0);
           let to_copy = min (unat (file_size_bytes ino)) (n - 1);
           guard (a + to_copy \<le> DATA_SIZE);
           Some ((0, mem_get (data_block fs) a to_copy), fs)
         }
     }
   }"

definition fs_create_hard_link :: "os_env \<Rightarrow> filesystem \<Rightarrow> string \<Rightarrow> string \<Rightarrow> (int \<times> filesystem) option" where
  "fs_create_hard_link os fs from to = do {
     (src, fs) \<leftarrow> fs_resolve_path os fs from;
     if src < 0 then Some (- ENOENT, fs)
     else do {
       sino \<leftarrow> inode_at fs src;
       if inode_type sino = INODE_DIR then Some (- EPERM, fs)
       else do {
         (parent, fs) \<leftarrow> fs_resolve_parent os fs to;
         case parent of
           Inl e \<Rightarrow> Some (- ENOENT, fs)
         | Inr (p, filename) \<Rightarrow> do {
             pino \<leftarrow> inode_at fs (int p);
             if inode_type pino \<noteq> INODE_DIR then Some (- ENOTDIR, fs)
             else do {
               dir \<leftarrow> get_directory_by_inode pino;
               case dir of
                 None \<Rightarrow> Some (- EIO, fs)
               | Some d \<Rightarrow> do {
                   found \<leftarrow> directory_lookup (data_block fs) d filename;
                   if found \<ge> 0 then Some (- EEXIST, fs)
                   else do {
                     (r, m) \<leftarrow> directory_add_entry (data_block fs) d filename (word_of_int src);
                     let fs = upd_data m fs;
                     if r \<noteq> 0 then Some (- ENOSPC, fs)
                     else Some (0, upd_inode (nat src) inode_increment_links fs)
                   }
                 }
             }
           }
       }
     }
   }"

end
