(* ===== verification/Filesystem_Inv.thy ===== *)
theory Filesystem_Inv
  imports Filesystem
begin

text \<open>
  The allocation invariant of the file system and its preservation by every operation of
  \<^verbatim>\<open>filesystem.c\<close>: the block map marks exactly the blocks that inodes own, no block has two
  owners, a free inode owns nothing (\<open>meta_inv\<close>), and the two counters of the superblock are the
  numbers of free inodes and blocks (\<open>counts_ok\<close>).
\<close>

definition fs_inv :: "filesystem \<Rightarrow> bool" where
  "fs_inv fs \<longleftrightarrow> meta_inv fs \<and> counts_ok fs"

text \<open>The superblock fields that \<^verbatim>\<open>fs_init\<close> sets and nothing changes.\<close>

definition super_ok :: "filesystem \<Rightarrow> bool" where
  "super_ok fs \<longleftrightarrow> root_inode_number (fs_super fs) = 0 \<and> unat (block_size_bytes (fs_super fs)) = BLOCK_SIZE \<and>
     unat (max_file_size_bytes (fs_super fs)) = NUM_DIRECT_BLOCKS * BLOCK_SIZE"

text \<open>
  Every directory lies in the block array, is well formed, and its entries name inodes in use.
\<close>

definition dir_live :: "filesystem \<Rightarrow> nat \<Rightarrow> bool" where
  "dir_live fs d \<longleftrightarrow> dir_wf (data_block fs) d \<and>
     (\<forall>w\<in>snd ` set (dir_entries (data_block fs) d).
        unat w < MAX_INODES \<and> is_inode_used (fs_intmap fs) (unat w) = 1)"

definition tree_ok :: "filesystem \<Rightarrow> bool" where
  "tree_ok fs \<longleftrightarrow> (\<forall>i<MAX_INODES. \<forall>d. get_directory_by_inode (fs_inodes fs ! i) = Some (Some d) \<longrightarrow> dir_live fs d)"

lemma fs_invD: "fs_inv fs \<Longrightarrow> meta_inv fs" "fs_inv fs \<Longrightarrow> free_inodes_ok fs" "fs_inv fs \<Longrightarrow> free_blocks_ok fs"
  by (simp_all add: fs_inv_def counts_ok_def)

lemma fs_invI: "meta_inv fs \<Longrightarrow> free_inodes_ok fs \<Longrightarrow> free_blocks_ok fs \<Longrightarrow> fs_inv fs"
  by (simp add: fs_inv_def counts_ok_def)

lemma fs_inv_data [simp]: "fs_inv (upd_data m fs) = fs_inv fs"
  by (simp add: fs_inv_def counts_ok_def)

lemma fs_inv_upd_inode:
  assumes "fs_inv fs" "direct_block_ptrs (f (fs_inodes fs ! i)) = direct_block_ptrs (fs_inodes fs ! i)"
    and "inode_type (f (fs_inodes fs ! i)) = inode_type (fs_inodes fs ! i) \<or> is_inode_used (fs_intmap fs) i \<noteq> 0"
  shows "fs_inv (upd_inode i f fs)"
  using assms by (auto simp: fs_inv_def counts_ok_def intro: meta_inv_upd_inode)

section \<open>Resolving a path changes access times only\<close>

definition no_atime :: "inode \<Rightarrow> inode" where
  "no_atime = last_access_time_update (\<lambda>_. 0)"

definition atime_only :: "filesystem \<Rightarrow> filesystem \<Rightarrow> bool" where
  "atime_only fs fs' \<longleftrightarrow>
     fs_intmap fs' = fs_intmap fs \<and> fs_super fs' = fs_super fs \<and> data_block fs' = data_block fs \<and>
     map no_atime (fs_inodes fs') = map no_atime (fs_inodes fs)"

lemma atime_only_refl [simp]: "atime_only fs fs"
  by (simp add: atime_only_def)

lemma atime_only_trans: "atime_only fs fs' \<Longrightarrow> atime_only fs' fs'' \<Longrightarrow> atime_only fs fs''"
  by (simp add: atime_only_def)

lemma atime_only_upd [simp]: "atime_only fs (upd_inode i (inode_update_atime os) fs)"
proof -
  have "no_atime (inode_update_atime os ino) = no_atime ino" for ino
    by (simp add: no_atime_def inode_update_atime_def)
  then have "map no_atime (fs_inodes (upd_inode i (inode_update_atime os) fs)) = map no_atime (fs_inodes fs)"
    by (cases "i < length (fs_inodes fs)")
      (simp_all add: upd_inode_def map_update list_update_same_conv list_update_beyond)
  then show ?thesis by (simp add: atime_only_def)
qed

lemma no_atime_fields:
  assumes "no_atime ino' = no_atime ino"
  shows "direct_block_ptrs ino' = direct_block_ptrs ino" "inode_type ino' = inode_type ino"
    "file_size_bytes ino' = file_size_bytes ino" "hard_links_count ino' = hard_links_count ino"
    "permission_bits ino' = permission_bits ino" "owner_user_id ino' = owner_user_id ino"
  using arg_cong [OF assms, of direct_block_ptrs] arg_cong [OF assms, of inode_type]
    arg_cong [OF assms, of file_size_bytes] arg_cong [OF assms, of hard_links_count]
    arg_cong [OF assms, of permission_bits] arg_cong [OF assms, of owner_user_id]
  by (simp_all add: no_atime_def)

lemma atime_only_fields:
  assumes "atime_only fs fs'"
  shows "fs_intmap fs' = fs_intmap fs" "fs_super fs' = fs_super fs" "data_block fs' = data_block fs"
    "length (fs_inodes fs') = length (fs_inodes fs)"
    "i < length (fs_inodes fs) \<Longrightarrow> no_atime (fs_inodes fs' ! i) = no_atime (fs_inodes fs ! i)"
proof -
  have eq: "map no_atime (fs_inodes fs') = map no_atime (fs_inodes fs)"
    using assms by (simp add: atime_only_def)
  show len: "length (fs_inodes fs') = length (fs_inodes fs)"
    using arg_cong [OF eq, of length] by simp
  show "no_atime (fs_inodes fs' ! i) = no_atime (fs_inodes fs ! i)" if "i < length (fs_inodes fs)"
    using arg_cong [OF eq, of "\<lambda>xs. xs ! i"] that len by simp
qed (use assms in \<open>simp_all add: atime_only_def\<close>)

lemma get_directory_cong:
  assumes "direct_block_ptrs ino' = direct_block_ptrs ino" "inode_type ino' = inode_type ino"
  shows "get_directory_by_inode ino' = get_directory_by_inode ino"
proof -
  have eq: "inode_get_direct_block ino' = inode_get_direct_block ino"
    by (rule ext) (simp add: inode_get_direct_block_def assms)
  show ?thesis by (simp only: get_directory_by_inode_def assms eq)
qed

lemma atime_only_inv:
  assumes "atime_only fs fs'" and len: "length (fs_inodes fs) = MAX_INODES"
  shows "fs_inv fs' = fs_inv fs" "meta_inv fs' = meta_inv fs" "super_ok fs' = super_ok fs" "tree_ok fs' = tree_ok fs"
proof -
  note f = atime_only_fields [OF assms(1), unfolded len]
  note g = no_atime_fields [OF f(5)]
  show meta: "meta_inv fs' = meta_inv fs" by (rule meta_inv_cong) (simp_all add: f g len)
  then show "fs_inv fs' = fs_inv fs"
    by (simp add: fs_inv_def counts_ok_def free_inodes_ok_def free_blocks_ok_def f)
  show "super_ok fs' = super_ok fs" by (simp add: super_ok_def f)
  have "get_directory_by_inode (fs_inodes fs' ! i) = get_directory_by_inode (fs_inodes fs ! i)"
    if "i < MAX_INODES" for i
    using that by (intro get_directory_cong g) 
  then show "tree_ok fs' = tree_ok fs" by (simp add: tree_ok_def dir_live_def f)
qed

lemma resolve_tokens_atime:
  "post (resolve_tokens os fs cur depth ts) (\<lambda>(n, fs'). atime_only fs fs' \<and> (cur < MAX_INODES \<longrightarrow> n < int MAX_INODES))"
proof (induction os fs cur depth ts rule: resolve_tokens.induct)
  case (2 os fs cur depth token tokens)
  show ?case
    unfolding resolve_tokens.simps
    apply (intro post_intros post_bind_eq)
       apply simp_all
    subgoal for ino dir d n ino'
      using 2 [of ino dir d n ino'] inode_at_SomeD [of fs n]
      by (auto simp: post_def intro: atime_only_trans [OF atime_only_upd])
    done
qed simp

lemma fs_resolve_path_atime:
  "post (fs_resolve_path os fs path) (\<lambda>(n, fs'). atime_only fs fs')"
  unfolding fs_resolve_path_def
  by (intro post_intros post_bind_eq post_mono [OF resolve_tokens_atime])
    (auto intro: atime_only_trans [OF atime_only_upd])

lemma fs_resolve_parent_atime:
  "post (fs_resolve_parent os fs path) (\<lambda>(r, fs'). atime_only fs fs')"
  unfolding fs_resolve_parent_def Let_def
  apply (intro post_intros post_bind [OF fs_resolve_path_atime])
       apply (auto simp: post_def split: if_splits)
  done

lemma fs_inv_len: "fs_inv fs \<Longrightarrow> length (fs_inodes fs) = MAX_INODES"
  using fs_invD(1) by simp

lemma fs_resolve_path_inv:
  "fs_inv fs \<Longrightarrow> post (fs_resolve_path os fs path) (\<lambda>(n, fs'). fs_inv fs' \<and> tree_ok fs' = tree_ok fs)"
  by (rule post_mono [OF fs_resolve_path_atime]) (auto simp: atime_only_inv fs_inv_len)

lemma fs_resolve_parent_inv:
  "fs_inv fs \<Longrightarrow> post (fs_resolve_parent os fs path) (\<lambda>(r, fs'). fs_inv fs' \<and> tree_ok fs' = tree_ok fs)"
  by (rule post_mono [OF fs_resolve_parent_atime]) (auto simp: atime_only_inv fs_inv_len)


section \<open>Allocating and giving back\<close>

lemma free_count_bounds:
  "meta_inv fs \<Longrightarrow> free_inodes (fs_intmap fs) \<le> MAX_INODES"
  "meta_inv fs \<Longrightarrow> free_blocks (fs_intmap fs) \<le> MAX_BLOCKS"
  using inodes.free_le [of "fs_intmap fs"] blocks.free_le [of "fs_intmap fs"] by simp_all

lemma fs_inv_allocate:
  assumes inv: "fs_inv fs"
  obtains (full) "allocate_inode os fs = (- 1, fs)" "free_inodes (fs_intmap fs) = 0"
  | (fresh) i fs1 where "allocate_inode os fs = (int i, fs1)" "i < MAX_INODES"
      "fs1 = upd_inode i (\<lambda>_. inode_init os) (upd_intmap (set_inode_used i) fs)"
      "is_inode_used (fs_intmap fs) i = 0"
      "fs_inv (dec_free_inodes fs1)" "is_inode_used (fs_intmap fs1) i = 1"
      "fs_inodes fs1 ! i = inode_init os"
proof (rule allocate_inode_cases [OF fs_invD(1) [OF inv], of os])
  fix i
  let ?fs = "upd_inode i (\<lambda>_. inode_init os) (upd_intmap (set_inode_used i) fs)"
  assume i: "i < MAX_INODES" "is_inode_used (fs_intmap fs) i = 0" "allocate_inode os fs = (int i, ?fs)"
    and meta: "meta_inv ?fs"
    and cnt: "Suc (free_inodes (set_inode_used i (fs_intmap fs))) = free_inodes (fs_intmap fs)"
    and used: "is_inode_used (set_inode_used i (fs_intmap fs)) i = 1"
  have "unat (free_inodes_count (fs_super fs) - 1) = free_inodes (set_inode_used i (fs_intmap fs))"
    using fs_invD(2) [OF inv] cnt by (intro unat_dec) (simp add: free_inodes_ok_def)
  then have "fs_inv (dec_free_inodes ?fs)"
    using meta fs_invD(3) [OF inv]
    by (intro fs_invI) (simp_all add: free_inodes_ok_def free_blocks_ok_def dec_free_inodes_def)
  then show ?thesis
    using i used fs_inv_len [OF inv] by (intro fresh [of i ?fs]) simp_all
qed (use full in blast)

lemma fs_inv_add_block:
  assumes inv: "fs_inv fs" and i: "i < MAX_INODES" "is_inode_used (fs_intmap fs) i = 1"
    and b: "b < MAX_BLOCKS" "is_block_used (fs_intmap fs) b = 0"
      "Suc (free_blocks (set_block_used b (fs_intmap fs))) = free_blocks (fs_intmap fs)"
    and k: "k < NUM_DIRECT_BLOCKS" "direct_block_ptrs (fs_inodes fs ! i) ! k = NO_BLOCK"
  shows "fs_inv (dec_free_blocks
     (upd_intmap (set_block_used b) (upd_inode i (set_block_ptr k (word_of_nat b)) fs)))"
proof -
  have "meta_inv (upd_intmap (set_block_used b) (upd_inode i (set_block_ptr k (word_of_nat b)) fs))"
    using fs_invD(1) [OF inv] i k b by (intro meta_inv_add_block)
  moreover have "unat (free_blocks_count (fs_super fs) - 1) = free_blocks (set_block_used b (fs_intmap fs))"
    using fs_invD(3) [OF inv] b(3) by (intro unat_dec) (simp add: free_blocks_ok_def)
  ultimately show ?thesis
    using fs_invD(2) [OF inv]
    by (intro fs_invI) (simp_all add: free_inodes_ok_def free_blocks_ok_def dec_free_blocks_def)
qed

lemma fs_inv_give_back:
  assumes inv: "fs_inv fs" and i: "i < MAX_INODES" "is_inode_used (fs_intmap fs) i = 1"
  shows "owned_slots (fs_inodes fs ! i) NUM_DIRECT_BLOCKS = 0 \<Longrightarrow> fs_inv (inc_free_inodes (inode_free os (int i) fs))"
    and "owned_slots (fs_inodes fs ! i) NUM_DIRECT_BLOCKS = 1 \<Longrightarrow>
         fs_inv (inc_free_blocks (inc_free_inodes (inode_free os (int i) fs)))"
proof -
  note spec = inode_free_spec [OF fs_invD(1) [OF inv] i, of os]
  have bounds: "free_inodes (fs_intmap fs) \<le> MAX_INODES" "free_blocks (fs_intmap fs) \<le> MAX_BLOCKS"
    using free_count_bounds fs_invD(1) [OF inv] by blast+
  have "unat (free_inodes_count (fs_super fs) + 1) = Suc (free_inodes (fs_intmap fs))"
    using fs_invD(2) [OF inv] bounds by (intro unat_inc) (simp_all add: free_inodes_ok_def)
  moreover have "unat (free_blocks_count (fs_super fs) + 1) = Suc (free_blocks (fs_intmap fs))"
    using fs_invD(3) [OF inv] bounds by (intro unat_inc) (simp_all add: free_blocks_ok_def)
  ultimately show
    "owned_slots (fs_inodes fs ! i) NUM_DIRECT_BLOCKS = 0 \<Longrightarrow> fs_inv (inc_free_inodes (inode_free os (int i) fs))"
    "owned_slots (fs_inodes fs ! i) NUM_DIRECT_BLOCKS = 1 \<Longrightarrow>
     fs_inv (inc_free_blocks (inc_free_inodes (inode_free os (int i) fs)))"
    using spec fs_invD(3) [OF inv]
    by (intro fs_invI; simp add: free_inodes_ok_def free_blocks_ok_def counter_defs del: owned_slots_simps)+
qed

lemma owned_slots_fresh:
  "direct_block_ptrs ino = replicate NUM_DIRECT_BLOCKS NO_BLOCK \<Longrightarrow> owned_slots ino NUM_DIRECT_BLOCKS = 0"
  by (simp add: owned_slots_def)

lemma owned_slots_one:
  "direct_block_ptrs ino = (replicate NUM_DIRECT_BLOCKS NO_BLOCK)[0 := w] \<Longrightarrow> w \<noteq> NO_BLOCK \<Longrightarrow>
   owned_slots ino NUM_DIRECT_BLOCKS = 1"
  by (simp add: owned_slots_def upt_rec)

text \<open>
  The allocation the three creating operations share: a fresh inode whose fields are set by \<open>f\<close>,
  then a block for it.
\<close>

lemma create_inode_cases:
  assumes inv: "fs_inv fs"
    and f: "\<And>ino. direct_block_ptrs ino = replicate NUM_DIRECT_BLOCKS NO_BLOCK \<Longrightarrow>
      direct_block_ptrs (f ino) = replicate NUM_DIRECT_BLOCKS NO_BLOCK"
  obtains (no_inode) "allocate_inode os fs = (- 1, fs)" "free_inodes (fs_intmap fs) = 0"
  | (no_block) i fs1 where "allocate_inode os fs = (int i, fs1)" "i < MAX_INODES" "data_block fs1 = data_block fs"
      "fs_super fs1 = fs_super fs" "is_inode_used (fs_intmap fs) i = 0"
      "find_free_block (fs_intmap fs1) = - 1"
      "fs_inv (inc_free_inodes (inode_free os (int i) (upd_inode i f (dec_free_inodes fs1))))"
  | (made) i b fs1 fs2 where "allocate_inode os fs = (int i, fs1)" "i < MAX_INODES" "data_block fs1 = data_block fs"
      "fs_super fs1 = fs_super fs" "is_inode_used (fs_intmap fs) i = 0"
      "find_free_block (fs_intmap fs1) = int b" "b < MAX_BLOCKS" "is_block_used (fs_intmap fs) b = 0"
      "inode_add_direct_block (upd_inode i f (dec_free_inodes fs1)) i b = (0, fs2)"
      "fs2 = upd_intmap (set_block_used b) (upd_inode i (set_block_ptr 0 (word_of_nat b)) (upd_inode i f (dec_free_inodes fs1)))"
      "fs_inv (dec_free_blocks fs2)" "is_inode_used (fs_intmap fs2) i = 1"
      "owned_slots (fs_inodes fs2 ! i) NUM_DIRECT_BLOCKS = 1"
      "fs_inv (inc_free_inodes (inode_free os (int i) (upd_inode i f (dec_free_inodes fs1))))"
proof (rule fs_inv_allocate [OF inv, of os])
  fix i fs1
  let ?fs = "upd_inode i f (dec_free_inodes fs1)"
  assume alloc: "allocate_inode os fs = (int i, fs1)" "i < MAX_INODES"
    and fs1: "fs1 = upd_inode i (\<lambda>_. inode_init os) (upd_intmap (set_inode_used i) fs)"
    and free: "is_inode_used (fs_intmap fs) i = 0"
    and inv1: "fs_inv (dec_free_inodes fs1)" "is_inode_used (fs_intmap fs1) i = 1" "fs_inodes fs1 ! i = inode_init os"
  have len: "length (fs_inodes fs1) = MAX_INODES" using fs_inv_len [OF inv1(1)] by simp
  have fr: "data_block fs1 = data_block fs" "fs_super fs1 = fs_super fs" "\<And>b. is_block_used (fs_intmap fs1) b = is_block_used (fs_intmap fs) b"
    by (simp_all add: fs1)
  have ptrs: "direct_block_ptrs (f (inode_init os)) = replicate NUM_DIRECT_BLOCKS NO_BLOCK"
    by (rule f) simp
  have inv2: "fs_inv ?fs"
    using inv1 ptrs by (intro fs_inv_upd_inode) simp_all
  have used: "is_inode_used (fs_intmap ?fs) i = 1" using inv1 by simp
  have ptrs2: "direct_block_ptrs (fs_inodes ?fs ! i) = replicate NUM_DIRECT_BLOCKS NO_BLOCK"
    using ptrs alloc len inv1(3) by simp
  have undo: "fs_inv (inc_free_inodes (inode_free os (int i) ?fs))"
    using inv2 alloc(2) used by (rule fs_inv_give_back(1)) (rule owned_slots_fresh [OF ptrs2])
  show thesis
  proof (rule find_free_block_cases [OF fs_invD(1) [OF inv2]])
    assume "find_free_block (fs_intmap ?fs) = - 1"
    then show thesis using alloc fr free undo by (intro no_block [of i fs1]) simp_all
  next
    fix b
    let ?fs2 = "upd_intmap (set_block_used b) (upd_inode i (set_block_ptr 0 (word_of_nat b)) ?fs)"
    assume b: "find_free_block (fs_intmap ?fs) = int b" "b < MAX_BLOCKS" "is_block_used (fs_intmap ?fs) b = 0"
      "Suc (free_blocks (set_block_used b (fs_intmap ?fs))) = free_blocks (fs_intmap ?fs)"
    have "fs_inv (dec_free_blocks ?fs2)"
      using inv2 alloc(2) used b(2-4) by (rule fs_inv_add_block) (simp_all add: ptrs2)
    moreover have "inode_add_direct_block ?fs i b = (0, ?fs2)"
      using ptrs2 b(2) by (rule add_direct_block_fresh)
    moreover have "owned_slots (fs_inodes ?fs2 ! i) NUM_DIRECT_BLOCKS = 1"
      using alloc(2) len ptrs2 b(2)
      by (intro owned_slots_one [of _ "word_of_nat b"]) (simp_all add: set_block_ptr_def)
    ultimately show thesis
      using alloc b used fr free undo by (intro made [of i fs1 b ?fs2]) simp_all
  qed
qed (use no_inode in blast)

section \<open>The creating operations\<close>

lemma create_file_in_inv:
  assumes "fs_inv fs"
  shows "post (create_file_in os fs d filename mode) (\<lambda>(r, fs'). fs_inv fs')"
proof -
  let ?f = "\<lambda>_ :: inode. (inode_init os)\<lparr>inode_type := INODE_FILE, owner_user_id := ucast (os_uid os),
              owner_group_id := ucast (os_gid os), permission_bits := ucast mode\<rparr>"
  show ?thesis
  proof (rule create_inode_cases [OF assms, of ?f os])
    fix i b fs1 fs2
    assume made: "allocate_inode os fs = (int i, fs1)" "i < MAX_INODES" "find_free_block (fs_intmap fs1) = int b"
      "inode_add_direct_block (upd_inode i ?f (dec_free_inodes fs1)) i b = (0, fs2)"
      "fs_inv (dec_free_blocks fs2)" "is_inode_used (fs_intmap fs2) i = 1"
      "owned_slots (fs_inodes fs2 ! i) NUM_DIRECT_BLOCKS = 1"
    have "fs_inv (inc_free_blocks (inc_free_inodes (inode_free os (int i) (upd_data m (dec_free_blocks fs2)))))" for m
      using made by (intro fs_inv_give_back(2)) simp_all
    then show ?thesis using made by (auto simp: create_file_in_def post_def Let_def split: if_splits bind_splits)
  qed (use assms in \<open>auto simp: create_file_in_def\<close>)
qed

lemma create_symlink_in_inv:
  assumes "fs_inv fs"
  shows "post (create_symlink_in os fs d filename target) (\<lambda>(r, fs'). fs_inv fs')"
proof -
  let ?g = "\<lambda>ino :: inode. ino\<lparr>inode_type := INODE_SYMLINK, owner_user_id := ucast (os_uid os),
              owner_group_id := ucast (os_gid os), permission_bits := PERM_RWX, hard_links_count := 1\<rparr>"
  let ?f = "file_size_bytes_update (\<lambda>_. word_of_nat (length target)) \<circ> ?g"
  have undo: "fs_inv (inc_free_inodes (inode_free os (int i) (upd_inode i ?g (dec_free_inodes fs1))))"
    if "allocate_inode os fs = (int i, fs1)" for i fs1
    by (rule create_inode_cases [OF assms, of ?g os]) (use that in auto)
  show ?thesis
  proof (rule create_inode_cases [OF assms, of ?f os])
    fix i b fs1 fs2
    assume made: "allocate_inode os fs = (int i, fs1)" "i < MAX_INODES" "find_free_block (fs_intmap fs1) = int b"
      "inode_add_direct_block (upd_inode i ?f (dec_free_inodes fs1)) i b = (0, fs2)"
      "fs_inv (dec_free_blocks fs2)" "is_inode_used (fs_intmap fs2) i = 1"
      "owned_slots (fs_inodes fs2 ! i) NUM_DIRECT_BLOCKS = 1"
    have "fs_inv (inc_free_blocks (inc_free_inodes (inode_free os (int i) (upd_data m (upd_data m' (dec_free_blocks fs2))))))" for m m'
      using made by (intro fs_inv_give_back(2)) simp_all
    then show ?thesis
      using made undo [OF made(1)]
      by (auto simp: create_symlink_in_def post_def Let_def upd_inode_comp split: if_splits bind_splits)
  next
    fix i fs1
    assume "allocate_inode os fs = (int i, fs1)" "find_free_block (fs_intmap fs1) = - 1"
      "fs_inv (inc_free_inodes (inode_free os (int i) (upd_inode i ?f (dec_free_inodes fs1))))"
    then show ?thesis
      using undo by (auto simp: create_symlink_in_def Let_def upd_inode_comp)
  qed (use assms in \<open>auto simp: create_symlink_in_def\<close>)
qed

text \<open>The error path of \<^verbatim>\<open>fs_create_directory\<close> clears the block's mark a second time, which changes nothing.\<close>

lemma owns_inode_free:
  assumes inv: "meta_inv fs" and i: "i < MAX_INODES"
  shows "owns (inode_free os (int i) fs) j k b \<Longrightarrow> owns fs j k b \<and> j \<noteq> i"
proof -
  let ?fs = "fold (inode_free_slot i) [0..<NUM_DIRECT_BLOCKS] fs"
  note freed = free_slots_upto [OF inv i order_refl]
  have "length (fs_inodes ?fs) = MAX_INODES" using freed by auto
  moreover assume "owns (inode_free os (int i) fs) j k b"
  ultimately have "owns ?fs j k b \<and> j \<noteq> i"
    using i by (auto simp: owns_def inode_free_def split: if_splits)
  then show ?thesis using freed by blast
qed

lemma clear_freed_block:
  assumes inv: "meta_inv fs" and i: "i < MAX_INODES" "is_inode_used (fs_intmap fs) i = 1" and own: "owns fs i k b"
  shows "upd_intmap (clear_block_used b) (inode_free os (int i) fs) = inode_free os (int i) fs"
proof -
  let ?fs = "inode_free os (int i) fs"
  have inv': "meta_inv ?fs" using inode_free_spec(1) [OF inv i] .
  have b: "b < MAX_BLOCKS" using meta_inv_owns [OF inv own] by blast
  have "\<not> owns ?fs j l b" for j l
    using owns_inode_free [OF inv i(1)] meta_inv_unique [OF inv own] by blast
  then have "is_block_used (fs_intmap ?fs) b \<noteq> 1"
    using inv' b unfolding meta_inv_def by blast
  then have "bm_blocks (fs_intmap ?fs) ! b = 0" using b by (simp add: is_block_used_def split: if_splits)
  then have "clear_block_used b (fs_intmap ?fs) = fs_intmap ?fs"
    by (simp add: clear_block_used_def list_update_same_conv) (metis intmap.surjective intmap.update_convs(2) list_update_id)
  then show ?thesis by (simp add: upd_intmap_def)
qed

lemma create_directory_in_inv:
  assumes "fs_inv fs"
  shows "post (create_directory_in os fs p d mode name) (\<lambda>(r, fs'). fs_inv fs')"
proof -
  let ?f = "\<lambda>_ :: inode. (inode_increment_links (inode_init os))\<lparr>inode_type := INODE_DIR,
              permission_bits := ucast mode, file_size_bytes := of_nat DIR_SIZE\<rparr>"
  show ?thesis
  proof (rule create_inode_cases [OF assms, of ?f os])
    fix i b fs1 fs2
    assume made: "allocate_inode os fs = (int i, fs1)" "i < MAX_INODES" "find_free_block (fs_intmap fs1) = int b"
      "inode_add_direct_block (upd_inode i ?f (dec_free_inodes fs1)) i b = (0, fs2)"
      "fs_inv (dec_free_blocks fs2)" "is_inode_used (fs_intmap fs2) i = 1"
      "owned_slots (fs_inodes fs2 ! i) NUM_DIRECT_BLOCKS = 1" "b < MAX_BLOCKS"
      "fs2 = upd_intmap (set_block_used b) (upd_inode i (set_block_ptr 0 (word_of_nat b)) (upd_inode i ?f (dec_free_inodes fs1)))"
    have len: "length (fs_inodes fs1) = MAX_INODES"
      using fs_inv_len [OF made(5)] by (simp add: made(9))
    have own: "owns (upd_data m (dec_free_blocks fs2)) i 0 b" for m
      using made(2,8) len by (simp add: made(9) owns_def)
    have "fs_inv (inc_free_blocks (inc_free_inodes (inode_free os (int i) (upd_data m (dec_free_blocks fs2)))))" for m
      using made by (intro fs_inv_give_back(2)) simp_all
    moreover have "upd_intmap (clear_block_used b) (inode_free os (int i) (upd_data m (dec_free_blocks fs2))) =
        inode_free os (int i) (upd_data m (dec_free_blocks fs2))" for m
      using fs_invD(1) [OF made(5)] made(2,6) own by (intro clear_freed_block) simp_all
    moreover have "fs_inv (upd_inode p inode_increment_links (upd_data m (dec_free_blocks fs2)))" for m
      using made(5) by (intro fs_inv_upd_inode) simp_all
    ultimately show ?thesis
      using made(1-4) by (auto simp: create_directory_in_def post_def Let_def split: if_splits bind_splits)
  qed (use assms in \<open>auto simp: create_directory_in_def\<close>)
qed

section \<open>Whole operations\<close>

lemma resolve_parent_bind:
  assumes "fs_inv fs"
    and "\<And>r fs'. fs_inv fs' \<Longrightarrow> tree_ok fs' = tree_ok fs \<Longrightarrow> post (f (r, fs')) Q"
  shows "post (fs_resolve_parent os fs path \<bind> f) Q"
  using assms by (intro post_bind [OF fs_resolve_parent_inv]) auto

lemma resolve_path_bind:
  assumes "fs_inv fs"
    and "\<And>n fs'. fs_inv fs' \<Longrightarrow> tree_ok fs' = tree_ok fs \<Longrightarrow> post (f (n, fs')) Q"
  shows "post (fs_resolve_path os fs path \<bind> f) Q"
  using assms by (intro post_bind [OF fs_resolve_path_inv]) auto

lemmas op_intros = post_if post_option post_sum post_prod post_guard post_SomeI post_let post_None
  create_file_in_inv create_symlink_in_inv create_directory_in_inv

lemma fs_create_file_inv:
  "fs_inv fs \<Longrightarrow> post (fs_create_file os fs path mode) (\<lambda>(r, fs'). fs_inv fs')"
  unfolding fs_create_file_def
  by (intro post_if post_SomeI resolve_parent_bind) (auto intro!: op_intros post_bind_eq)

lemma fs_create_symlink_inv:
  "fs_inv fs \<Longrightarrow> post (fs_create_symlink os fs target linkpath) (\<lambda>(r, fs'). fs_inv fs')"
  unfolding fs_create_symlink_def
  by (intro post_if post_SomeI resolve_parent_bind) (auto intro!: op_intros post_bind_eq)

lemma fs_create_directory_inv:
  "fs_inv fs \<Longrightarrow> post (fs_create_directory os fs path mode name) (\<lambda>(r, fs'). fs_inv fs')"
  unfolding fs_create_directory_def
  by (intro post_if post_SomeI resolve_parent_bind) (auto intro!: op_intros post_bind_eq)

lemma fs_change_mode_inv:
  "fs_inv fs \<Longrightarrow> post (fs_change_mode os fs path mode) (\<lambda>(r, fs'). fs_inv fs')"
  unfolding fs_change_mode_def
  by (intro resolve_path_bind) (auto intro!: op_intros post_bind_eq fs_inv_upd_inode)

lemma fs_change_owner_inv:
  "fs_inv fs \<Longrightarrow> post (fs_change_owner os fs path uid gid) (\<lambda>(r, fs'). fs_inv fs')"
  unfolding fs_change_owner_def
  by (intro resolve_path_bind) (auto intro!: op_intros post_bind_eq fs_inv_upd_inode)

lemma fs_statistics_inv:
  "fs_inv fs \<Longrightarrow> post (fs_statistics os fs path) (\<lambda>(r, fs'). fs_inv fs')"
  unfolding fs_statistics_def
  by (intro resolve_path_bind) (auto intro!: op_intros post_bind_eq fs_inv_upd_inode)

lemma fs_list_directory_inv:
  "fs_inv fs \<Longrightarrow> post (fs_list_directory os fs path rows) (\<lambda>(r, fs'). fs_inv fs')"
  unfolding fs_list_directory_def
  by (intro post_if post_SomeI resolve_path_bind) (auto intro!: op_intros post_bind_eq fs_inv_upd_inode)

lemma fs_read_file_inv:
  "fs_inv fs \<Longrightarrow> post (fs_read_file os fs path n off) (\<lambda>(r, fs'). fs_inv fs')"
  unfolding fs_read_file_def read_inode_def
  by (intro resolve_parent_bind) (auto intro!: op_intros post_bind_eq fs_inv_upd_inode)

lemma fs_read_symlink_inv:
  "fs_inv fs \<Longrightarrow> post (fs_read_symlink os fs path n) (\<lambda>(r, fs'). fs_inv fs')"
  unfolding fs_read_symlink_def
  by (intro resolve_path_bind) (auto intro!: op_intros post_bind_eq)

section \<open>Operations on an existing entry\<close>

text \<open>In a consistent tree a successful lookup names an inode in use.\<close>

lemma dir_live_lookup:
  assumes live: "dir_live fs d" and name: "cstring name" and n: "directory_lookup (data_block fs) d name = Some n"
  shows "n = - 1 \<and> map_of (dir_entries (data_block fs) d) name = None \<or>
    (\<exists>i<MAX_INODES. n = int i \<and> is_inode_used (fs_intmap fs) i = 1 \<and>
       map_of (dir_entries (data_block fs) d) name = Some (word_of_nat i))"
proof (cases "map_of (dir_entries (data_block fs) d) name")
  case None
  then show ?thesis using live name n by (simp add: dir_live_def directory_lookup_wf)
next
  case (Some w)
  then have "w \<in> snd ` set (dir_entries (data_block fs) d)" by (force dest: map_of_SomeD)
  then have w: "unat w < MAX_INODES" "is_inode_used (fs_intmap fs) (unat w) = 1"
    using live by (auto simp: dir_live_def)
  then have "sint w = int (unat w)" by (intro sint_small) simp
  then have "n = int (unat w)" using live name n Some by (simp add: dir_live_def directory_lookup_wf)
  then show ?thesis using w Some by auto
qed

lemma tree_ok_lookup:
  assumes "tree_ok fs" "inode_at fs p = Some pino" "get_directory_by_inode pino = Some (Some d)"
    and "cstring name" "directory_lookup (data_block fs) d name = Some n" "0 \<le> n"
  shows "nat n < MAX_INODES \<and> is_inode_used (fs_intmap fs) (nat n) = 1"
  using assms dir_live_lookup [of fs d name n] inode_at_SomeD [of fs p pino] unfolding tree_ok_def by auto

lemma fs_resolve_parent_name:
  "cstring path \<Longrightarrow> post (fs_resolve_parent os fs path)
     (\<lambda>(r, fs'). atime_only fs fs' \<and> (\<forall>p name. r = Inr (p, name) \<longrightarrow> file_name_ok name))"
  unfolding fs_resolve_parent_def Let_def
  by (intro post_intros post_bind [OF fs_resolve_path_atime]) (auto simp: file_name_ok_def split: if_splits)

lemma resolve_parent_live_bind:
  assumes "fs_inv fs" "tree_ok fs" "cstring path"
    and "\<And>e fs'. fs_inv fs' \<Longrightarrow> tree_ok fs' \<Longrightarrow> post (f (Inl e, fs')) Q"
    and "\<And>p name fs'. fs_inv fs' \<Longrightarrow> tree_ok fs' \<Longrightarrow> cstring name \<Longrightarrow> post (f (Inr (p, name), fs')) Q"
  shows "post (fs_resolve_parent os fs path \<bind> f) Q"
proof (rule post_bind [OF fs_resolve_parent_name [OF assms(3)]])
  fix x :: "(int + nat \<times> string) \<times> filesystem"
  assume x: "case x of (r, fs') \<Rightarrow> atime_only fs fs' \<and> (\<forall>p name. r = Inr (p, name) \<longrightarrow> file_name_ok name)"
  obtain r fs' where [simp]: "x = (r, fs')" by force
  have "atime_only fs fs'" using x by simp
  then have "fs_inv fs'" "tree_ok fs'"
    using atime_only_inv [OF _ fs_inv_len] assms(1,2) by blast+
  then show "post (f x) Q" using x assms(4,5) by (cases r) (auto simp: file_name_ok_def)
qed

text \<open>One round of the writing loop, and the loop.\<close>

lemma block_for_write_inv:
  assumes inv: "fs_inv fs" and i: "i < MAX_INODES" "is_inode_used (fs_intmap fs) i = 1"
    and r: "block_for_write fs i k = (b, fs')"
  shows "fs_inv fs' \<and> is_inode_used (fs_intmap fs') i = 1 \<and> data_block fs' = data_block fs"
proof (rule find_free_block_cases [OF fs_invD(1) [OF inv]])
  assume "find_free_block (fs_intmap fs) = - 1"
  then show ?thesis using r inv i by (auto simp: block_for_write_def Let_def split: if_splits)
next
  fix c
  assume c: "find_free_block (fs_intmap fs) = int c" "c < MAX_BLOCKS" "is_block_used (fs_intmap fs) c = 0"
    "Suc (free_blocks (set_block_used c (fs_intmap fs))) = free_blocks (fs_intmap fs)"
  show ?thesis
  proof (rule add_direct_block_cases [OF fs_invD(1) [OF inv] i c(2,3)])
    assume "inode_add_direct_block fs i c = (- 1, fs)"
    then show ?thesis using r inv i c(1) by (auto simp: block_for_write_def Let_def split: if_splits)
  next
    fix j
    let ?fs = "upd_intmap (set_block_used c) (upd_inode i (set_block_ptr j (word_of_nat c)) fs)"
    assume j: "j < NUM_DIRECT_BLOCKS" "direct_block_ptrs (fs_inodes fs ! i) ! j = NO_BLOCK"
      "inode_add_direct_block fs i c = (0, ?fs)"
    have "fs_inv (dec_free_blocks ?fs)" using inv i c(2-4) j(1,2) by (rule fs_inv_add_block)
    then show ?thesis using r inv i c(1) j(3) by (auto simp: block_for_write_def Let_def split: if_splits)
  qed
qed

lemma write_loop_inv:
  assumes "fs_inv fs" "i < MAX_INODES" "is_inode_used (fs_intmap fs) i = 1"
  shows "post (write_loop fs i bs buf w pos) (\<lambda>(n, fs'). fs_inv fs' \<and> is_inode_used (fs_intmap fs') i = 1)"
  using assms
proof (induction fs i bs buf w pos rule: write_loop.induct)
  case (1 fs i bs buf w pos)
  obtain b fs' where r: "block_for_write fs i (pos div bs) = (b, fs')" by force
  have inv': "fs_inv fs'" "is_inode_used (fs_intmap fs') i = 1"
    using block_for_write_inv [OF "1.prems" r] by simp_all
  show ?case
    unfolding write_loop.simps [of fs i bs buf w pos]
    using "1.prems" inv'
    by (auto simp: r Let_def intro!: post_if post_option "1.IH" [OF _ _ r [symmetric]])
qed

lemma write_loop_Some:
  assumes "write_loop fs i bs buf w pos = Some (n, fs')" "fs_inv fs" "i < MAX_INODES"
    "is_inode_used (fs_intmap fs) i = 1"
  shows "fs_inv fs'"
  using postD [OF write_loop_inv [OF assms(2-4)] assms(1)] by simp

lemma fs_write_file_inv:
  assumes "fs_inv fs" "tree_ok fs" "cstring path"
  shows "post (fs_write_file os fs path buf off app) (\<lambda>(r, fs'). fs_inv fs')"
proof -
  have step: "post (write_inode os fs n buf off app) (\<lambda>(r, fs'). fs_inv fs')"
    if "fs_inv fs" "nat n < MAX_INODES" "is_inode_used (fs_intmap fs) (nat n) = 1" for fs n
    unfolding write_inode_def using that
    by (auto intro!: op_intros post_bind_eq fs_inv_upd_inode dest: write_loop_Some)
  show ?thesis
    unfolding fs_write_file_def using assms
    by (intro post_if post_SomeI resolve_parent_live_bind)
      (auto intro!: op_intros post_bind_eq step dest: tree_ok_lookup)
qed

section \<open>Releasing blocks\<close>

lemma get_direct_block_cases:
  assumes "meta_inv fs" "i < MAX_INODES" "k < NUM_DIRECT_BLOCKS"
  obtains (none) "inode_get_direct_block (fs_inodes fs ! i) (int k) = - 1" "\<And>b. \<not> owns fs i k b"
  | (block) b where "inode_get_direct_block (fs_inodes fs ! i) (int k) = int b" "owns fs i k b" "b < MAX_BLOCKS"
proof (cases "direct_block_ptrs (fs_inodes fs ! i) ! k = NO_BLOCK")
  case True
  then show ?thesis by (intro none) (simp_all add: inode_get_direct_block_def owns_def)
next
  case False
  let ?b = "unat (direct_block_ptrs (fs_inodes fs ! i) ! k)"
  have own: "owns fs i k ?b" using False assms by (simp add: owns_def)
  have b: "?b < MAX_BLOCKS" using meta_inv_owns [OF assms(1) own] by blast
  show ?thesis using False assms own b
    by (intro block [of ?b]) (simp_all add: inode_get_direct_block_def sint_block_ptr)
qed

lemma release_step_eq:
  "upd_inode i f (inc_free_blocks (upd_data m (upd_intmap g fs))) =
   inc_free_blocks (upd_data m (upd_inode i f (upd_intmap g fs)))"
  by (rule filesystem.equality) (simp_all add: upd_inode_def upd_super_def upd_data_def inc_free_blocks_def)

lemma owns_frame [simp]:
  "owns (inc_free_blocks fs) = owns fs" "owns (upd_data m fs) = owns fs"
  by (intro ext; simp add: owns_def)+

lemma release_step_inv:
  assumes inv: "fs_inv fs" and own: "owns fs i k b"
  shows "fs_inv (upd_inode i (set_block_ptr k NO_BLOCK)
    (inc_free_blocks (upd_data m (upd_intmap (clear_block_used b) fs))))" (is "fs_inv ?fs")
proof -
  let ?base = "upd_inode i (set_block_ptr k NO_BLOCK) (upd_intmap (clear_block_used b) fs)"
  have b: "b < MAX_BLOCKS" "is_block_used (fs_intmap fs) b = 1"
    using meta_inv_owns [OF fs_invD(1) [OF inv] own] by simp_all
  have "?fs = inc_free_blocks (upd_data m ?base)" by (rule release_step_eq)
  moreover have "meta_inv ?base" using fs_invD(1) [OF inv] own by (rule meta_inv_clear_block)
  moreover have "free_blocks (clear_block_used b (fs_intmap fs)) = Suc (free_blocks (fs_intmap fs))"
    using fs_invD(1) [OF inv] b by (intro blocks.free_release) simp_all
  moreover have "unat (free_blocks_count (fs_super fs) + 1) = Suc (free_blocks (fs_intmap fs))"
    using fs_invD [OF inv] free_count_bounds(2) [of fs]
    by (intro unat_inc) (simp_all add: free_blocks_ok_def)
  ultimately show ?thesis
    using fs_invD(2) [OF inv]
    by (intro fs_invI) (simp_all add: free_inodes_ok_def free_blocks_ok_def inc_free_blocks_def)
qed

lemma release_blocks_spec:
  assumes "fs_inv fs" "i < MAX_INODES" "\<forall>k\<in>set ks. k < NUM_DIRECT_BLOCKS"
  shows "\<exists>fs'. release_blocks i ks fs = Some fs' \<and> fs_inv fs' \<and>
    (\<forall>j k b. owns fs' j k b \<longleftrightarrow> owns fs j k b \<and> \<not> (j = i \<and> k \<in> set ks)) \<and>
    (\<forall>j. is_inode_used (fs_intmap fs') j = is_inode_used (fs_intmap fs) j) \<and>
    root_inode_number (fs_super fs') = root_inode_number (fs_super fs)"
  using assms
proof (induction ks arbitrary: fs)
  case (Cons k ks)
  have k: "k < NUM_DIRECT_BLOCKS" "\<forall>k\<in>set ks. k < NUM_DIRECT_BLOCKS" using Cons.prems by simp_all
  note inv = fs_invD(1) [OF Cons.prems(1)]
  show ?case
  proof (rule get_direct_block_cases [OF inv Cons.prems(2) k(1)])
    assume "inode_get_direct_block (fs_inodes fs ! i) (int k) = - 1" and none: "\<And>b. \<not> owns fs i k b"
    then have eq: "release_blocks i (k # ks) fs = release_blocks i ks fs" by simp
    show ?thesis unfolding eq using Cons.IH [OF Cons.prems(1,2) k(2)] none by fastforce
  next
    fix b
    assume b: "inode_get_direct_block (fs_inodes fs ! i) (int k) = int b" "owns fs i k b" "b < MAX_BLOCKS"
    let ?m = "mem_put (data_block fs) (BLOCK_SIZE * b) (replicate BLOCK_SIZE NUL)"
    let ?fs = "upd_inode i (set_block_ptr k NO_BLOCK) (inc_free_blocks (upd_data ?m (upd_intmap (clear_block_used b) fs)))"
    have eq: "release_blocks i (k # ks) fs = release_blocks i ks ?fs"
      using b by (simp add: Let_def)
    have own: "owns ?fs j k' b' \<longleftrightarrow> owns fs j k' b' \<and> \<not> (j = i \<and> k' = k)" for j k' b'
      unfolding release_step_eq using inv Cons.prems(2) k(1) by (simp add: owns_clear_block)
    have "fs_inv ?fs" using Cons.prems(1) b(2) by (rule release_step_inv)
    from Cons.IH [OF this Cons.prems(2) k(2)] obtain fs' where fs': "release_blocks i ks ?fs = Some fs'" "fs_inv fs'"
      "\<And>j k' b'. owns fs' j k' b' \<longleftrightarrow> owns ?fs j k' b' \<and> \<not> (j = i \<and> k' \<in> set ks)"
      "\<And>j. is_inode_used (fs_intmap fs') j = is_inode_used (fs_intmap ?fs) j"
      "root_inode_number (fs_super fs') = root_inode_number (fs_super ?fs)"
      by blast
    have "owns fs' j k' b' \<longleftrightarrow> owns fs j k' b' \<and> \<not> (j = i \<and> k' \<in> set (k # ks))" for j k' b'
      by (auto simp: fs'(3) own)
    moreover have "is_inode_used (fs_intmap fs') j = is_inode_used (fs_intmap fs) j" for j
      by (simp add: fs'(4))
    moreover have "root_inode_number (fs_super fs') = root_inode_number (fs_super fs)"
      by (simp add: fs'(5) inc_free_blocks_def)
    ultimately show ?thesis using fs'(1,2) unfolding eq by blast
  qed
qed simp

lemma retire_inode_inv:
  assumes inv: "fs_inv fs" and i: "i < MAX_INODES" "is_inode_used (fs_intmap fs) i = 1" and none: "\<And>k b. \<not> owns fs i k b"
  shows "fs_inv (inc_free_inodes (upd_inode i (\<lambda>_. inode_init os) (upd_intmap (clear_inode_used i) fs)))"
proof -
  have wf: "intmap_wf (fs_intmap fs)" using fs_invD(1) [OF inv] by simp
  have "is_inode_used (clear_inode_used i (fs_intmap fs)) j = (if j = i then 0 else is_inode_used (fs_intmap fs) j)" for j
    using wf i(1) by (rule inodes.used_release)
  then have "meta_inv (upd_inode i (\<lambda>_. inode_init os) (upd_intmap (clear_inode_used i) fs))"
    using fs_invD(1) [OF inv] i(1) none wf by (intro meta_inv_mark_inode) simp_all
  moreover have "free_inodes (clear_inode_used i (fs_intmap fs)) = Suc (free_inodes (fs_intmap fs))"
    using wf i by (rule inodes.free_release)
  moreover have "unat (free_inodes_count (fs_super fs) + 1) = Suc (free_inodes (fs_intmap fs))"
    using fs_invD [OF inv] free_count_bounds(1) [of fs] by (intro unat_inc) (simp_all add: free_inodes_ok_def)
  ultimately show ?thesis
    using fs_invD(3) [OF inv]
    by (intro fs_invI) (simp_all add: free_inodes_ok_def free_blocks_ok_def inc_free_inodes_def)
qed

lemma delete_in_inv:
  assumes inv: "fs_inv fs" and i: "i < MAX_INODES" "is_inode_used (fs_intmap fs) i = 1"
  shows "post (delete_in os fs d filename i) (\<lambda>(r, fs'). fs_inv fs')"
proof -
  have last: "fs_inv (inc_free_inodes (upd_inode i (\<lambda>_. inode_init os) (upd_intmap (clear_inode_used i) fs2)))"
    if "release_blocks i [0..<NUM_DIRECT_BLOCKS] (upd_inode i inode_decrement_links (upd_data m fs)) = Some fs2" for m fs2
  proof -
    have "fs_inv (upd_inode i inode_decrement_links (upd_data m fs))"
      using inv by (intro fs_inv_upd_inode) simp_all
    from release_blocks_spec [OF this i(1), of "[0..<NUM_DIRECT_BLOCKS]"] that
    have "fs_inv fs2" "is_inode_used (fs_intmap fs2) i = 1" "\<And>k b. \<not> owns fs2 i k b"
      using i(2) by (auto simp: owns_def)
    then show ?thesis using i(1) by (intro retire_inode_inv)
  qed
  have kept: "fs_inv (upd_inode i inode_decrement_links (upd_data m fs))" for m
    using inv by (intro fs_inv_upd_inode) simp_all
  show ?thesis
    unfolding delete_in_def Let_def
    by (intro post_bind_eq post_prod post_if post_SomeI)
      (auto simp: inv split: if_splits bind_splits intro!: fs_inv_upd_inode last kept)
qed

lemma fs_delete_file_inv:
  assumes "fs_inv fs" "tree_ok fs" "cstring path"
  shows "post (fs_delete_file os fs path) (\<lambda>(r, fs'). fs_inv fs')"
  unfolding fs_delete_file_def using assms
  by (intro resolve_parent_live_bind) (auto intro!: op_intros post_bind_eq delete_in_inv dest: tree_ok_lookup)

lemma resolve_parent_Some:
  assumes "fs_resolve_parent os fs path = Some (r, fs')"
  shows "atime_only fs fs'" "fs_inv fs \<Longrightarrow> fs_inv fs'"
  using postD [OF fs_resolve_parent_atime assms] postD [OF fs_resolve_parent_inv assms] by auto

lemma resolve_path_Some:
  assumes "fs_resolve_path os fs path = Some (n, fs')"
  shows "atime_only fs fs'" "fs_inv fs \<Longrightarrow> fs_inv fs'"
  using postD [OF fs_resolve_path_atime assms] postD [OF fs_resolve_path_inv assms] by auto

lemma fs_create_hard_link_inv:
  assumes "fs_inv fs"
  shows "post (fs_create_hard_link os fs from to) (\<lambda>(r, fs'). fs_inv fs')"
  unfolding fs_create_hard_link_def using assms
  by (intro resolve_path_bind)
    (auto intro!: op_intros post_bind_eq fs_inv_upd_inode dest: resolve_parent_Some(2))


section \<open>Removing a directory\<close>

text \<open>
  \<^verbatim>\<open>fs_remove_directory\<close> releases the blocks of the directory but does not count them as free; the
  allocation maps stay consistent and the inode counter too.
\<close>

definition rmdir_post :: "filesystem \<Rightarrow> int \<Rightarrow> filesystem \<Rightarrow> bool" where
  "rmdir_post fs r fs' \<longleftrightarrow> meta_inv fs' \<and> free_inodes_ok fs' \<and>
     free_blocks_count (fs_super fs') = free_blocks_count (fs_super fs) \<and>
     (if r = 0 then free_blocks (fs_intmap fs) < free_blocks (fs_intmap fs')
      else free_blocks (fs_intmap fs) = free_blocks (fs_intmap fs'))"

lemma owned_slots_pos:
  assumes "k < n" "direct_block_ptrs ino ! k \<noteq> NO_BLOCK"
  shows "0 < owned_slots ino n"
proof -
  have "k \<in> set (filter (\<lambda>k. direct_block_ptrs ino ! k \<noteq> NO_BLOCK) [0..<n])" using assms by simp
  then show ?thesis unfolding owned_slots_def by (metis length_pos_if_in_set)
qed

lemma directory_owns_block:
  assumes "get_directory_by_inode ino = Some (Some d)"
  shows "0 < owned_slots ino NUM_DIRECT_BLOCKS"
proof -
  obtain k where "k < NUM_DIRECT_BLOCKS" "inode_get_direct_block ino (int k) \<noteq> - 1"
    using assms
    by (auto simp: get_directory_by_inode_def find_Some_iff split: if_splits option.splits)
  then show ?thesis by (intro owned_slots_pos [of k]) (auto simp: inode_get_direct_block_def)
qed

lemma remove_directory_tail:
  assumes inv: "fs_inv fs" and i: "i < MAX_INODES"
    and dir: "inode_type (fs_inodes fs ! i) = INODE_DIR" "get_directory_by_inode (fs_inodes fs ! i) = Some (Some d)"
  shows "rmdir_post fs 0 (inc_free_inodes (upd_inode p (inode_update_mtime os \<circ> inode_update_ctime os)
      (upd_inode i (inode_update_ctime os) (inode_free os (int i) (upd_data m fs)))))"
proof -
  have inv': "meta_inv (upd_data m fs)" using fs_invD(1) [OF inv] by simp
  have used: "is_inode_used (fs_intmap fs) i = 1"
    using fs_invD(1) [OF inv] i dir(1) by (intro meta_inv_dir_used) simp_all
  note free = inode_free_spec [OF inv' i, of os]
  have "unat (free_inodes_count (fs_super fs) + 1) = Suc (free_inodes (fs_intmap fs))"
    using fs_invD [OF inv] free_count_bounds(1) [of fs] by (intro unat_inc) (simp_all add: free_inodes_ok_def)
  then show ?thesis
    using free used directory_owns_block [OF dir(2)] meta_inv_upd_inode
    by (simp add: rmdir_post_def free_inodes_ok_def inc_free_inodes_def meta_inv_upd_inode)
qed

lemma rmdir_post_error:
  assumes "fs_inv fs" "atime_only fs fs'" "r \<noteq> 0"
  shows "rmdir_post fs r fs'" "rmdir_post fs r (upd_data m fs')"
proof -
  have "fs_inv fs'" using atime_only_inv(1) [OF assms(2) fs_inv_len [OF assms(1)]] assms(1) by simp
  then show "rmdir_post fs r fs'" "rmdir_post fs r (upd_data m fs')"
    using assms(3) atime_only_fields [OF assms(2)] fs_invD [of fs'] by (simp_all add: rmdir_post_def)
qed

lemma rmdir_post_parent:
  assumes "fs_inv fs" "atime_only fs fs1" "fs_resolve_parent os fs1 path = Some (x, fs2)" "r \<noteq> 0"
  shows "rmdir_post fs r fs2" "rmdir_post fs r (upd_data m fs2)"
  using rmdir_post_error [OF assms(1) atime_only_trans [OF assms(2) resolve_parent_Some(1) [OF assms(3)]] assms(4)]
  by blast+

lemma rmdir_post_atime: "atime_only fs fs1 \<Longrightarrow> rmdir_post fs1 r fs' \<Longrightarrow> rmdir_post fs r fs'"
  by (auto simp: rmdir_post_def atime_only_fields)

lemma remove_directory_success:
  assumes inv: "fs_inv fs" and at: "atime_only fs fs1" "atime_only fs1 fs2"
    and n: "inode_at fs1 n = Some ino" "inode_type ino = INODE_DIR" "get_directory_by_inode ino = Some (Some d)"
  shows "rmdir_post fs 0 (inc_free_inodes (upd_inode p (inode_update_mtime os \<circ> inode_update_ctime os)
      (upd_inode (nat n) (inode_update_ctime os) (inode_free os n (upd_data m fs2)))))"
proof -
  have at2: "atime_only fs fs2" using at by (rule atime_only_trans)
  have inv1: "fs_inv fs1" "fs_inv fs2"
    using atime_only_inv(1) [OF at(1) fs_inv_len [OF inv]] atime_only_inv(1) [OF at2 fs_inv_len [OF inv]] inv by simp_all
  obtain i where i: "n = int i" "i < MAX_INODES" "ino = fs_inodes fs1 ! i"
    using inode_at_SomeD [OF n(1)] nonneg_int_cases [of n] by (metis nat_int)
  have "no_atime (fs_inodes fs2 ! i) = no_atime (fs_inodes fs1 ! i)"
    using i(2) fs_inv_len [OF inv1(1)] by (intro atime_only_fields(5) [OF at(2)]) simp
  note same = no_atime_fields [OF this]
  have "rmdir_post fs2 0 (inc_free_inodes (upd_inode p (inode_update_mtime os \<circ> inode_update_ctime os)
      (upd_inode i (inode_update_ctime os) (inode_free os (int i) (upd_data m fs2)))))"
    using n i by (intro remove_directory_tail [OF inv1(2) i(2), of d])
      (simp_all add: same get_directory_cong [OF same(1,2)])
  then show ?thesis using at2 by (auto simp: i(1) intro: rmdir_post_atime)
qed

lemma fs_remove_directory_post:
  assumes inv: "fs_inv fs"
  shows "post (fs_remove_directory os fs path) (\<lambda>(r, fs'). rmdir_post fs r fs')"
  unfolding fs_remove_directory_def Let_def
  apply (intro post_if post_SomeI post_bind [OF fs_resolve_path_atime] post_prod post_bind_eq post_option post_guard post_sum)
  using inv
  by (auto intro: rmdir_post_error rmdir_post_parent remove_directory_success resolve_parent_Some(1))

end
