(* ===== verification/Filesystem_Ops.thy ===== *)
theory Filesystem_Ops
  imports Filesystem_Inv
begin

text \<open>
  What the operations of \<^verbatim>\<open>filesystem.c\<close> do: the freshly initialised file system, creating a file
  and finding it again, the dot entries of a new directory, attributes, links and deletion.
\<close>

section \<open>Initialisation\<close>

lemma intmap_init_free:
  "free_inodes intmap_init = MAX_INODES" "free_blocks intmap_init = MAX_BLOCKS"
  by (simp_all add: intmap_init_def free_inodes_def free_blocks_def count_list_replicate)

lemma intmap_init_unused: "i < MAX_INODES \<Longrightarrow> is_inode_used intmap_init i = 0"
    "b < MAX_BLOCKS \<Longrightarrow> is_block_used intmap_init b = 0"
  by (simp_all add: intmap_init_def is_inode_used_def is_block_used_def)

definition root_intmap :: intmap where
  "root_intmap = set_inode_used 0 (set_block_used 0 intmap_init)"

lemma root_intmap_facts:
  "intmap_wf root_intmap"
  "i < MAX_INODES \<Longrightarrow> is_inode_used root_intmap i = (if i = 0 then 1 else 0)"
  "b < MAX_BLOCKS \<Longrightarrow> is_block_used root_intmap b = (if b = 0 then 1 else 0)"
  "free_inodes root_intmap = 127" "free_blocks root_intmap = 1023"
proof -
  show "free_inodes root_intmap = 127"
    using inodes.free_mark [of "set_block_used 0 intmap_init" 0]
    by (simp add: root_intmap_def intmap_init_unused intmap_init_free)
  show "free_blocks root_intmap = 1023"
    using blocks.free_mark [of intmap_init 0]
    by (simp add: root_intmap_def intmap_init_unused intmap_init_free)
qed (simp_all add: root_intmap_def inodes.used_mark blocks.used_mark intmap_init_unused)

definition root_table :: "os_env \<Rightarrow> inode list" where
  "root_table os = (replicate MAX_INODES (inode_init os))[0 := root_inode os]"

lemma root_table_nth: "i < MAX_INODES \<Longrightarrow> root_table os ! i = (if i = 0 then root_inode os else inode_init os)"
  by (simp add: root_table_def)

lemma fs_init_state:
  assumes "fs_init os fs = Some fs'"
  obtains m where "directory_init (data_block fs) 0 = Some m" "data_block fs' = m"
    "fs_super fs' = init_superblock" "fs_intmap fs' = root_intmap" "fs_inodes fs' = root_table os"
proof -
  obtain m where m: "directory_init (data_block fs) 0 = Some m"
    using assms by (auto simp: fs_init_def elim: bind_Some_elim)
  then have "fs' = fs\<lparr>fs_super := init_superblock, fs_intmap := root_intmap, fs_inodes := root_table os, data_block := m\<rparr>"
    using assms by (simp add: fs_init_def root_intmap_def root_table_def)
  with m show thesis by (intro that) simp_all
qed

lemma root_owns:
  assumes "fs_inodes fs = root_table os"
  shows "owns fs i k b \<longleftrightarrow> i = 0 \<and> k = 0 \<and> b = 0"
  using assms by (auto simp: owns_def root_table_nth root_inode_def nth_list_update split: if_splits)

lemma fs_init_inv:
  assumes "fs_init os fs = Some fs'"
  shows "fs_inv fs'"
proof -
  obtain m where fs': "fs_super fs' = init_superblock" "fs_intmap fs' = root_intmap" "fs_inodes fs' = root_table os"
    using fs_init_state [OF assms] by metis
  have len: "length (direct_block_ptrs (root_table os ! i)) = NUM_DIRECT_BLOCKS" if "i < MAX_INODES" for i
    using that by (simp add: root_table_nth root_inode_def)
  have wf: "table_wf fs'"
    unfolding table_wf_def fs' using len root_intmap_facts(1) by (simp add: root_table_def)
  have "meta_inv fs'"
    unfolding meta_inv_def root_owns [OF fs'(3)] fs'(2)
    using wf root_intmap_facts(2,3) by (auto simp: fs' root_table_nth)
  moreover have "free_inodes_ok fs'" "free_blocks_ok fs'"
    by (simp_all add: free_inodes_ok_def free_blocks_ok_def fs' init_superblock_def root_intmap_facts)
  ultimately show ?thesis by (rule fs_invI)
qed

lemma fs_init_defined: "\<exists>fs'. fs_init os fs = Some fs'"
  using directory_init_spec [of 0 "data_block fs"] by (auto simp: fs_init_def)

lemma fs_init_super: "fs_init os fs = Some fs' \<Longrightarrow> super_ok fs'"
  by (erule fs_init_state) (simp add: super_ok_def init_superblock_def)

lemma directory_of_root: "get_directory_by_inode (root_inode os) = Some (Some 0)"
  by (simp add: get_directory_by_inode_def root_inode_def inode_get_direct_block_def upt_rec block_addr_def)

lemma directory_of_file: "inode_type ino \<noteq> INODE_DIR \<Longrightarrow> get_directory_by_inode ino = Some None"
  by (simp add: get_directory_by_inode_def)

lemma fs_init_tree:
  assumes "fs_init os fs = Some fs'"
  shows "tree_ok fs'" "dir_entries (data_block fs') 0 = [(''.'', 0), (''..'', 0)]" "dir_wf (data_block fs') 0"
proof -
  obtain m where m: "directory_init (data_block fs) 0 = Some m" "data_block fs' = m"
    and fs': "fs_intmap fs' = root_intmap" "fs_inodes fs' = root_table os"
    using fs_init_state [OF assms] by metis
  have es: "dir_entries (data_block fs') 0 = [(''.'', 0), (''..'', 0)]" "dir_wf (data_block fs') 0"
    using directory_init_spec [of 0 "data_block fs"] m by auto
  then have "dir_live fs' 0" by (simp add: dir_live_def fs' root_intmap_facts)
  then show "tree_ok fs'"
    unfolding tree_ok_def fs'(2) by (simp add: root_table_nth directory_of_root directory_of_file)
  show "dir_entries (data_block fs') 0 = [(''.'', 0), (''..'', 0)]" "dir_wf (data_block fs') 0"
    using es by simp_all
qed

section \<open>Creating a file\<close>

lemma super_ok_frame [simp]:
  "super_ok (upd_data m fs) = super_ok fs" "super_ok (dec_free_blocks fs) = super_ok fs"
  by (simp_all add: super_ok_def dec_free_blocks_def)

text \<open>
  With room for an inode, a block and an entry, creating \<open>filename\<close> in the directory at \<open>d\<close> succeeds: the
  directory gains exactly one entry, for the least free inode, which is a new empty file with the
  requested mode and one data block.
\<close>

lemma create_file_in_success:
  assumes inv: "fs_inv fs" and live: "dir_live fs d" and name: "file_name_ok filename"
    and new: "map_of (dir_entries (data_block fs) d) filename = None"
    and room: "length (dir_entries (data_block fs) d) < MAX_BLOCKS"
    and free: "0 < free_inodes (fs_intmap fs)" "0 < free_blocks (fs_intmap fs)"
  shows "\<exists>i b fs'. create_file_in os fs d filename mode = Some (0, fs') \<and>
    i < MAX_INODES \<and> is_inode_used (fs_intmap fs) i = 0 \<and> is_inode_used (fs_intmap fs') i = 1 \<and>
    b < MAX_BLOCKS \<and> is_block_used (fs_intmap fs) b = 0 \<and>
    data_block fs' = dir_append (data_block fs) d filename (word_of_nat i) \<and>
    fs_inodes fs' = (fs_inodes fs)[i := (inode_init os)\<lparr>permission_bits := ucast mode,
      direct_block_ptrs := (replicate NUM_DIRECT_BLOCKS NO_BLOCK)[0 := word_of_nat b]\<rparr>] \<and>
    fs_intmap fs' = set_block_used b (set_inode_used i (fs_intmap fs)) \<and> super_ok fs' = super_ok fs"
proof -
  let ?f = "\<lambda>_ :: inode. (inode_init os)\<lparr>inode_type := INODE_FILE, owner_user_id := ucast (os_uid os),
              owner_group_id := ucast (os_gid os), permission_bits := ucast mode\<rparr>"
  have wf: "dir_wf (data_block fs) d" using live by (simp add: dir_live_def)
  show ?thesis
  proof (rule create_inode_cases [OF inv, of ?f os])
    assume "free_inodes (fs_intmap fs) = 0"
    then show ?thesis using free by simp
  next
    fix i fs1
    assume a: "allocate_inode os fs = (int i, fs1)" "find_free_block (fs_intmap fs1) = - 1"
    have "free_blocks (fs_intmap fs1) = free_blocks (fs_intmap fs)" "intmap_wf (fs_intmap fs1)"
      using a(1) fs_invD(1) [OF inv] by (auto simp: allocate_inode_def Let_def split: if_splits)
    then show ?thesis
      using a(2) free(2) blocks.search_fails [of "fs_intmap fs1"] by (simp add: find_free_block_def)
  next
    fix i b fs1 fs2
    assume made: "allocate_inode os fs = (int i, fs1)" "i < MAX_INODES" "data_block fs1 = data_block fs"
      "is_inode_used (fs_intmap fs) i = 0"
      "find_free_block (fs_intmap fs1) = int b" "b < MAX_BLOCKS" "is_block_used (fs_intmap fs) b = 0"
      "inode_add_direct_block (upd_inode i ?f (dec_free_inodes fs1)) i b = (0, fs2)"
      "fs2 = upd_intmap (set_block_used b) (upd_inode i (set_block_ptr 0 (word_of_nat b)) (upd_inode i ?f (dec_free_inodes fs1)))"
      "is_inode_used (fs_intmap fs2) i = 1"
    have fs1: "fs1 = upd_inode i (\<lambda>_. inode_init os) (upd_intmap (set_inode_used i) fs)"
      using made(1) by (auto simp: allocate_inode_def Let_def split: if_splits)
    have data: "data_block fs2 = data_block fs" by (simp add: made(9,3))
    have len: "length (fs_inodes fs) = MAX_INODES" using fs_inv_len [OF inv] .
    have add: "directory_add_entry (data_block fs) d filename (word_of_nat i) =
        Some (0, dir_append (data_block fs) d filename (word_of_nat i))"
      using wf name new room
      by (auto simp: directory_add_entry_wf file_name_ok_def map_of_eq_None_iff)
    let ?fs' = "upd_data (dir_append (data_block fs) d filename (word_of_nat i)) (dec_free_blocks fs2)"
    have "create_file_in os fs d filename mode = Some (0, ?fs')"
      using made(1,5,8) add data by (simp add: create_file_in_def Let_def)
    moreover have "set_block_ptr 0 w (?f ino) = (inode_init os)\<lparr>permission_bits := ucast mode,
        direct_block_ptrs := (replicate NUM_DIRECT_BLOCKS NO_BLOCK)[0 := w]\<rparr>" for w and ino :: inode
      by (simp add: set_block_ptr_def inode_init_def)
    then have "fs_inodes fs2 = (fs_inodes fs)[i := (inode_init os)\<lparr>permission_bits := ucast mode,
        direct_block_ptrs := (replicate NUM_DIRECT_BLOCKS NO_BLOCK)[0 := word_of_nat b]\<rparr>]"
      using made(2) len by (simp add: made(9) fs1 upd_inode_def)
    moreover have "fs_intmap fs2 = set_block_used b (set_inode_used i (fs_intmap fs))"
      by (simp add: made(9) fs1)
    moreover have "super_ok fs2 = super_ok fs" by (simp add: made(9) fs1 super_ok_def dec_free_inodes_def)
    ultimately show ?thesis
      using made(2,4,6,7,10) super_ok_frame by (intro exI [of _ i] exI [of _ b] exI [of _ ?fs']) simp
  qed (use assms in auto)
qed

section \<open>Path resolution\<close>

text \<open>The specification: follow the names through the association lists of the directories.\<close>

fun walk :: "filesystem \<Rightarrow> nat \<Rightarrow> string list \<Rightarrow> nat option" where
  "walk fs cur [] = Some cur"
| "walk fs cur (t # ts) =
     (case get_directory_by_inode (fs_inodes fs ! cur) of
        Some (Some d) \<Rightarrow> (case map_of (dir_entries (data_block fs) d) t of
                            None \<Rightarrow> None | Some w \<Rightarrow> walk fs (unat w) ts)
      | _ \<Rightarrow> None)"

lemma get_directory_defined:
  assumes inv: "meta_inv fs" and i: "i < MAX_INODES"
  shows "get_directory_by_inode (fs_inodes fs ! i) \<noteq> None"
proof -
  let ?P = "\<lambda>k. inode_get_direct_block (fs_inodes fs ! i) (int k) \<noteq> - 1"
  have "block_addr (inode_get_direct_block (fs_inodes fs ! i) (int k)) \<noteq> None"
    if "find ?P [0..<NUM_DIRECT_BLOCKS] = Some k" for k
  proof -
    have k: "k < NUM_DIRECT_BLOCKS" "?P k" using that by (auto simp: find_Some_iff)
    show ?thesis by (rule get_direct_block_cases [OF inv i k(1)]) (use k(2) in auto)
  qed
  then show ?thesis
    by (auto simp: get_directory_by_inode_def split: option.splits)
qed

lemma atime_only_directory:
  assumes "atime_only fs fs'" "length (fs_inodes fs) = MAX_INODES" "i < MAX_INODES"
  shows "get_directory_by_inode (fs_inodes fs' ! i) = get_directory_by_inode (fs_inodes fs ! i)"
  using no_atime_fields(1,2) [OF atime_only_fields(5) [OF assms(1)]] assms(2,3) by (intro get_directory_cong) simp_all

lemma tree_ok_child:
  assumes "tree_ok fs" "i < MAX_INODES" "get_directory_by_inode (fs_inodes fs ! i) = Some (Some d)"
    and "map_of (dir_entries (data_block fs) d) t = Some w"
  shows "unat w < MAX_INODES" "is_inode_used (fs_intmap fs) (unat w) = 1"
proof -
  have "dir_live fs d" using assms(1-3) by (auto simp: tree_ok_def)
  moreover have "w \<in> snd ` set (dir_entries (data_block fs) d)" using assms(4) by (force dest: map_of_SomeD)
  ultimately show "unat w < MAX_INODES" "is_inode_used (fs_intmap fs) (unat w) = 1" by (auto simp: dir_live_def)
qed

lemma walk_atime:
  assumes "atime_only fs fs'" "length (fs_inodes fs) = MAX_INODES" "tree_ok fs" "cur < MAX_INODES"
  shows "walk fs' cur ts = walk fs cur ts"
  using assms(4)
proof (induction ts arbitrary: cur)
  case (Cons t ts)
  then show ?case
    using atime_only_directory [OF assms(1,2) Cons.prems] tree_ok_child(1) [OF assms(3) Cons.prems]
    by (auto simp: atime_only_fields(3) [OF assms(1)] split: option.split)
qed simp

lemma resolve_tokens_walk:
  assumes "fs_inv fs" "tree_ok fs" "cur < MAX_INODES" "\<forall>t\<in>set ts. cstring t" "depth + length ts \<le> Suc MAX_DIR_DEPTH"
  shows "\<exists>fs'. resolve_tokens os fs cur depth ts =
    Some (case walk fs cur ts of None \<Rightarrow> - 1 | Some n \<Rightarrow> int n, fs') \<and> atime_only fs fs'"
  using assms
proof (induction ts arbitrary: fs cur depth)
  case (Cons t ts)
  have "get_directory_by_inode (fs_inodes fs ! cur) \<noteq> None"
    using fs_invD(1) [OF Cons.prems(1)] Cons.prems(3) by (rule get_directory_defined)
  then consider (nodir) "get_directory_by_inode (fs_inodes fs ! cur) = Some None"
    | (dir) d where "get_directory_by_inode (fs_inodes fs ! cur) = Some (Some d)" by force
  then show ?case
  proof cases
    case nodir
    then show ?thesis using Cons.prems by auto
  next
    case (dir d)
    have wf: "dir_wf (data_block fs) d"
      using Cons.prems(2,3) dir by (auto simp: tree_ok_def dir_live_def)
    note look = directory_lookup_wf [OF wf, of t]
    show ?thesis
    proof (cases "map_of (dir_entries (data_block fs) d) t")
      case None
      then show ?thesis using dir look Cons.prems by auto
    next
      case (Some w)
      note w = tree_ok_child(1) [OF Cons.prems(2,3) dir Some]
      let ?fs = "upd_inode (unat w) (inode_update_atime os) fs"
      have sw: "sint w = int (unat w)" using w by (intro sint_small) simp
      have at: "atime_only fs ?fs" by simp
      have len: "length (fs_inodes fs) = MAX_INODES" using fs_inv_len [OF Cons.prems(1)] .
      have inv: "fs_inv ?fs" "tree_ok ?fs" using atime_only_inv [OF at len] Cons.prems(1,2) by simp_all
      have "\<exists>fs'. resolve_tokens os ?fs (unat w) (Suc depth) ts =
          Some (case walk ?fs (unat w) ts of None \<Rightarrow> - 1 | Some n \<Rightarrow> int n, fs') \<and> atime_only ?fs fs'"
        using Cons.prems(4,5) by (intro Cons.IH [OF inv w]) simp_all
      moreover have "walk ?fs (unat w) ts = walk fs (unat w) ts"
        by (rule walk_atime [OF at len Cons.prems(2) w])
      moreover have "resolve_tokens os fs cur depth (t # ts) = resolve_tokens os ?fs (unat w) (Suc depth) ts"
      proof -
        obtain i where i: "unat w = i" "sint w = int i" "i < MAX_INODES" using sw w by blast
        then show ?thesis using Cons.prems(3-5) dir look Some by simp
      qed
      moreover have "walk fs cur (t # ts) = walk fs (unat w) ts" using dir Some by simp
      ultimately show ?thesis using atime_only_trans [OF at] by metis
    qed
  qed
qed simp

lemma fs_resolve_path_walk:
  assumes "fs_inv fs" "tree_ok fs" "super_ok fs" "cstring path" "path \<noteq> []" "length path < MAX_PATH_LEN"
    and "length (strtok_all (CHR ''/'') path) \<le> Suc MAX_DIR_DEPTH"
  shows "\<exists>fs'. fs_resolve_path os fs path =
    Some (case walk fs 0 (strtok_all (CHR ''/'') path) of None \<Rightarrow> - 1 | Some n \<Rightarrow> int n, fs') \<and> atime_only fs fs'"
proof (cases "path = ''/''")
  case True
  then show ?thesis using assms by (auto simp: fs_resolve_path_def super_ok_def)
next
  case False
  let ?fs = "upd_inode 0 (inode_update_atime os) fs"
  have at: "atime_only fs ?fs" by simp
  have len: "length (fs_inodes fs) = MAX_INODES" using fs_inv_len [OF assms(1)] .
  have "\<forall>t\<in>set (strtok_all (CHR ''/'') path). cstring t"
    using strtok_all_sub assms(4) by (fastforce simp: cstring_def)
  then have "\<exists>fs'. resolve_tokens os ?fs 0 0 (strtok_all (CHR ''/'') path) =
      Some (case walk ?fs 0 (strtok_all (CHR ''/'') path) of None \<Rightarrow> - 1 | Some n \<Rightarrow> int n, fs') \<and> atime_only ?fs fs'"
    using assms atime_only_inv [OF at len] by (intro resolve_tokens_walk) simp_all
  moreover have "walk ?fs 0 ts = walk fs 0 ts" for ts
    using assms(2) by (intro walk_atime [OF at len]) simp_all
  moreover have "fs_resolve_path os fs path = resolve_tokens os ?fs 0 0 (strtok_all (CHR ''/'') path)"
    using assms False by (simp add: fs_resolve_path_def super_ok_def inode_at_def)
  ultimately show ?thesis using atime_only_trans [OF at] by metis
qed

lemma last_slash_append:
  "CHR ''/'' \<notin> set name \<Longrightarrow> n \<le> length name \<Longrightarrow>
   last_slash (ps @ CHR ''/'' # name) (Suc (length ps + n)) = int (length ps)"
  by (induction n) (auto simp: nth_append in_set_conv_nth)

text \<open>The parent of \<open>ps/name\<close> is what \<open>ps\<close> walks to (the root when \<open>ps\<close> is empty).\<close>

lemma fs_resolve_parent_walk:
  assumes inv: "fs_inv fs" "tree_ok fs" "super_ok fs" and path: "cstring ps" "length ps + length name < MAX_PATH_LEN - 1"
    and toks: "length (strtok_all (CHR ''/'') ps) \<le> Suc MAX_DIR_DEPTH"
    and name: "file_name_ok name" "CHR ''/'' \<notin> set name"
    and p: "walk fs 0 (strtok_all (CHR ''/'') ps) = Some p"
  shows "\<exists>fs'. fs_resolve_parent os fs (ps @ CHR ''/'' # name) = Some (Inr (p, name), fs') \<and> atime_only fs fs'"
proof -
  let ?parent = "if ps = [] then ''/'' else ps"
  have "strtok_all (CHR ''/'') ?parent = strtok_all (CHR ''/'') ps" by simp
  then have "\<exists>fs'. fs_resolve_path os fs ?parent = Some (int p, fs') \<and> atime_only fs fs'"
    using fs_resolve_path_walk [OF inv, of ?parent os] path toks p by simp
  moreover have "last_slash (ps @ CHR ''/'' # name) (length (ps @ CHR ''/'' # name)) = int (length ps)"
    using last_slash_append [OF name(2) order_refl] by simp
  ultimately show ?thesis
    using path name(1) by (auto simp: fs_resolve_parent_def Let_def file_name_ok_def)
qed

section \<open>Creating, then finding, a file by its path\<close>

lemma dir_live_atime: "atime_only fs fs' \<Longrightarrow> dir_live fs' d = dir_live fs d"
  by (simp add: dir_live_def atime_only_fields)

lemma walk_bound:
  assumes "tree_ok fs" "cur < MAX_INODES" "walk fs cur ts = Some p"
  shows "p < MAX_INODES"
  using assms(2,3)
  by (induction ts arbitrary: cur) (auto split: option.splits dest: tree_ok_child(1) [OF assms(1)])

lemma fs_create_file_reaches:
  assumes inv: "fs_inv fs" "tree_ok fs" "super_ok fs" and path: "cstring ps" "length ps + length name < MAX_PATH_LEN - 1"
    and toks: "length (strtok_all (CHR ''/'') ps) \<le> Suc MAX_DIR_DEPTH"
    and name: "file_name_ok name" "CHR ''/'' \<notin> set name"
    and p: "walk fs 0 (strtok_all (CHR ''/'') ps) = Some p" "get_directory_by_inode (fs_inodes fs ! p) = Some (Some d)"
  shows "\<exists>fs1. atime_only fs fs1 \<and> fs_inv fs1 \<and> dir_live fs1 d \<and>
    fs_create_file os fs (ps @ CHR ''/'' # name) mode =
      (if map_of (dir_entries (data_block fs) d) name = None then create_file_in os fs1 d name mode
       else Some (- EEXIST, fs1))"
proof -
  obtain fs1 where fs1: "fs_resolve_parent os fs (ps @ CHR ''/'' # name) = Some (Inr (p, name), fs1)" "atime_only fs fs1"
    using fs_resolve_parent_walk [OF inv path toks name p(1)] by blast
  have len: "length (fs_inodes fs) = MAX_INODES" using fs_inv_len [OF inv(1)] .
  have pb: "p < MAX_INODES" using walk_bound [OF inv(2) _ p(1)] by simp
  have live: "dir_live fs d" using inv(2) pb p(2) by (auto simp: tree_ok_def)
  have dir: "get_directory_by_inode (fs_inodes fs1 ! p) = Some (Some d)"
    using atime_only_directory [OF fs1(2) len pb] p(2) by simp
  have wf: "dir_wf (data_block fs1) d" and data: "data_block fs1 = data_block fs"
    using live atime_only_fields(3) [OF fs1(2)] by (simp_all add: dir_live_def)
  have nm: "cstring name" using name(1) by (simp add: file_name_ok_def)
  have "0 \<le> n \<longleftrightarrow> map_of (dir_entries (data_block fs) d) name \<noteq> None"
    if "directory_lookup (data_block fs) d name = Some n" for n
    using dir_live_lookup [OF live nm that] by auto
  moreover obtain n where "directory_lookup (data_block fs) d name = Some n"
    using directory_lookup_wf [OF wf nm] data by simp
  ultimately have "fs_create_file os fs (ps @ CHR ''/'' # name) mode =
      (if map_of (dir_entries (data_block fs) d) name = None then create_file_in os fs1 d name mode
       else Some (- EEXIST, fs1))"
    using path pb fs1(1) dir data by (auto simp: fs_create_file_def)
  moreover have "fs_inv fs1" using atime_only_inv(1) [OF fs1(2) len] inv(1) by simp
  ultimately show ?thesis using fs1(2) live dir_live_atime [OF fs1(2)] by blast
qed

lemma post_pairD: "post m (\<lambda>(r, fs'). P fs') \<Longrightarrow> m = Some (r, fs') \<Longrightarrow> P fs'"
  by (auto dest: postD)

lemma create_file_at_path:
  assumes inv: "fs_inv fs" "tree_ok fs" "super_ok fs" and path: "cstring ps" "length ps + length name < MAX_PATH_LEN - 1"
    and toks: "length (strtok_all (CHR ''/'') ps) \<le> Suc MAX_DIR_DEPTH"
    and name: "file_name_ok name" "CHR ''/'' \<notin> set name"
    and p: "walk fs 0 (strtok_all (CHR ''/'') ps) = Some p" "get_directory_by_inode (fs_inodes fs ! p) = Some (Some d)"
    and new: "map_of (dir_entries (data_block fs) d) name = None" "length (dir_entries (data_block fs) d) < MAX_BLOCKS"
    and free: "0 < free_inodes (fs_intmap fs)" "0 < free_blocks (fs_intmap fs)"
  shows "\<exists>fs' i b. fs_create_file os fs (ps @ CHR ''/'' # name) mode = Some (0, fs') \<and> fs_inv fs' \<and>
    i < MAX_INODES \<and> is_inode_used (fs_intmap fs) i = 0 \<and> is_inode_used (fs_intmap fs') i = 1 \<and>
    directory_lookup (data_block fs') d name = Some (int i) \<and>
    (\<forall>other. cstring other \<and> other \<noteq> name \<longrightarrow>
       directory_lookup (data_block fs') d other = directory_lookup (data_block fs) d other) \<and>
    fs_inodes fs' ! i = (inode_init os)\<lparr>permission_bits := ucast mode,
      direct_block_ptrs := (replicate NUM_DIRECT_BLOCKS NO_BLOCK)[0 := word_of_nat b]\<rparr> \<and>
    b < MAX_BLOCKS \<and> is_block_used (fs_intmap fs) b = 0 \<and>
    fs_intmap fs' = set_block_used b (set_inode_used i (fs_intmap fs)) \<and> super_ok fs' \<and>
    dir_entries (data_block fs') d = dir_entries (data_block fs) d @ [(name, word_of_nat i)] \<and> dir_live fs' d"
proof -
  obtain fs1 where fs1: "atime_only fs fs1" "fs_inv fs1" "dir_live fs1 d"
    and eq: "fs_create_file os fs (ps @ CHR ''/'' # name) mode = create_file_in os fs1 d name mode"
    using fs_create_file_reaches [OF inv path toks name p, of os mode] new(1) by auto
  note same = atime_only_fields [OF fs1(1)]
  obtain i b fs' where r: "create_file_in os fs1 d name mode = Some (0, fs')" "i < MAX_INODES"
    "is_inode_used (fs_intmap fs1) i = 0" "is_inode_used (fs_intmap fs') i = 1" "b < MAX_BLOCKS"
    "is_block_used (fs_intmap fs1) b = 0" "data_block fs' = dir_append (data_block fs1) d name (word_of_nat i)"
    "fs_inodes fs' = (fs_inodes fs1)[i := (inode_init os)\<lparr>permission_bits := ucast mode,
      direct_block_ptrs := (replicate NUM_DIRECT_BLOCKS NO_BLOCK)[0 := word_of_nat b]\<rparr>]"
    "fs_intmap fs' = set_block_used b (set_inode_used i (fs_intmap fs1))" "super_ok fs' = super_ok fs1"
    using create_file_in_success [OF fs1(2,3) name(1), of os mode] new free by (auto simp: same)
  have wf: "dir_wf (data_block fs) d" and nm: "cstring name" using fs1(3) name(1) by (simp_all add: dir_live_def same file_name_ok_def)
  have "directory_add_entry (data_block fs) d name (word_of_nat i) = Some (0, data_block fs')"
    using wf nm name(1) new by (auto simp: directory_add_entry_wf r(7) same file_name_ok_def map_of_eq_None_iff)
  note look = dir.lookup_add [OF wf nm _ this] and added = dir.add_success(3,4) [OF wf nm this]
  have "unat (word_of_nat i :: uint32) = i" using r(2) by simp
  then have "sint (word_of_nat i :: uint32) = int i" using r(2) sint_small [of "word_of_nat i"] by simp
  moreover have "fs_inv fs'" using post_pairD [OF create_file_in_inv [OF fs1(2)] r(1)] .
  moreover have "length (fs_inodes fs1) = MAX_INODES" using fs_inv_len [OF fs1(2)] .
  moreover have "dir_live fs' d"
    using fs1(3) r(2,4,9) added meta_inv_table [OF fs_invD(1) [OF inv(1)]]
    by (auto simp: dir_live_def same inodes.used_mark)
  moreover have "super_ok fs'" using r(10) atime_only_inv(3) [OF fs1(1) fs_inv_len [OF inv(1)]] inv(3) by simp
  ultimately show ?thesis
    using eq r look nm same added by (intro exI [of _ fs'] exI [of _ i] exI [of _ b]) simp
qed


end
