(* ===== verification/Filesystem_Data.thy ===== *)
theory Filesystem_Data
  imports Filesystem_Inv
begin

text \<open>
  The contents of files: what the loops of \<^verbatim>\<open>fs_write_file\<close> and \<^verbatim>\<open>fs_read_file\<close> do to the block array.
  Position \<open>x\<close> of a file lives in the block of slot \<open>x div BLOCK_SIZE\<close>. A file is dense when
  exactly its first \<open>n\<close> slots hold blocks; on such a file a write that starts at or before the end of
  the allocated blocks is read back unchanged and touches no other file.
\<close>

definition file_addr :: "filesystem \<Rightarrow> nat \<Rightarrow> nat \<Rightarrow> nat" where
  "file_addr fs i x = BLOCK_SIZE * unat (direct_block_ptrs (fs_inodes fs ! i) ! (x div BLOCK_SIZE)) + x mod BLOCK_SIZE"

definition file_byte :: "filesystem \<Rightarrow> nat \<Rightarrow> nat \<Rightarrow> char" where
  "file_byte fs i x = data_block fs (file_addr fs i x)"

definition dense :: "filesystem \<Rightarrow> nat \<Rightarrow> nat \<Rightarrow> bool" where
  "dense fs i n \<longleftrightarrow> n \<le> NUM_DIRECT_BLOCKS \<and>
     (\<forall>k<NUM_DIRECT_BLOCKS. direct_block_ptrs (fs_inodes fs ! i) ! k = NO_BLOCK \<longleftrightarrow> n \<le> k)"

lemma dense_owns:
  assumes "meta_inv fs" "i < MAX_INODES" "dense fs i n" "k < n"
  shows "owns fs i k (unat (direct_block_ptrs (fs_inodes fs ! i) ! k))"
    "unat (direct_block_ptrs (fs_inodes fs ! i) ! k) < MAX_BLOCKS"
    "inode_get_direct_block (fs_inodes fs ! i) (int k) = int (unat (direct_block_ptrs (fs_inodes fs ! i) ! k))"
proof -
  have k: "k < NUM_DIRECT_BLOCKS" "direct_block_ptrs (fs_inodes fs ! i) ! k \<noteq> NO_BLOCK"
    using assms(3,4) by (auto simp: dense_def)
  show own: "owns fs i k (unat (direct_block_ptrs (fs_inodes fs ! i) ! k))"
    using assms(2) k by (simp add: owns_def)
  show b: "unat (direct_block_ptrs (fs_inodes fs ! i) ! k) < MAX_BLOCKS"
    using meta_inv_owns [OF assms(1) own] by blast
  show "inode_get_direct_block (fs_inodes fs ! i) (int k) = int (unat (direct_block_ptrs (fs_inodes fs ! i) ! k))"
    using k sint_block_ptr [OF b] by (simp add: inode_get_direct_block_def)
qed

lemma dense_end:
  "dense fs i n \<Longrightarrow> n \<le> k \<Longrightarrow> k < NUM_DIRECT_BLOCKS \<Longrightarrow> inode_get_direct_block (fs_inodes fs ! i) (int k) = - 1"
  by (simp add: dense_def inode_get_direct_block_def)

text \<open>The block a round writes to, on a dense file.\<close>

lemma block_for_write_dense:
  assumes inv: "fs_inv fs" and i: "i < MAX_INODES" "is_inode_used (fs_intmap fs) i = 1"
    and d: "dense fs i n" and k: "k < NUM_DIRECT_BLOCKS"
    and room: "k < n \<or> 0 < free_blocks (fs_intmap fs)"
  obtains (old) "k < n" "block_for_write fs i k = (Some (int (unat (direct_block_ptrs (fs_inodes fs ! i) ! k))), fs)"
  | (new) b fs' where "n \<le> k" "block_for_write fs i k = (Some (int b), fs')" "b < MAX_BLOCKS"
      "is_block_used (fs_intmap fs) b = 0"
      "fs' = dec_free_blocks (upd_intmap (set_block_used b) (upd_inode i (set_block_ptr n (word_of_nat b)) fs))"
      "fs_inv fs'" "dense fs' i (Suc n)" "Suc (free_blocks (fs_intmap fs')) = free_blocks (fs_intmap fs)"
proof (cases "k < n")
  case True
  then show ?thesis
    using dense_owns(3) [OF fs_invD(1) [OF inv] i(1) d True] by (intro old) (simp_all add: block_for_write_def)
next
  case False
  then have kn: "n \<le> k" by simp
  have n: "n < NUM_DIRECT_BLOCKS" using k kn by simp
  show ?thesis
  proof (rule find_free_block_cases [OF fs_invD(1) [OF inv]])
    assume "free_blocks (fs_intmap fs) = 0"
    then show ?thesis using room False by simp
  next
    fix b
    assume b: "find_free_block (fs_intmap fs) = int b" "b < MAX_BLOCKS" "is_block_used (fs_intmap fs) b = 0"
      "Suc (free_blocks (set_block_used b (fs_intmap fs))) = free_blocks (fs_intmap fs)"
    let ?fs = "upd_intmap (set_block_used b) (upd_inode i (set_block_ptr n (word_of_nat b)) fs)"
    have add: "inode_add_direct_block fs i b = (0, ?fs)"
    proof (rule add_direct_block_cases [OF fs_invD(1) [OF inv] i b(2,3)])
      assume "\<forall>k<NUM_DIRECT_BLOCKS. direct_block_ptrs (fs_inodes fs ! i) ! k \<noteq> NO_BLOCK"
      then show ?thesis using d n by (auto simp: dense_def)
    next
      fix j
      assume j: "j < NUM_DIRECT_BLOCKS" "direct_block_ptrs (fs_inodes fs ! i) ! j = NO_BLOCK"
        "\<forall>l<j. direct_block_ptrs (fs_inodes fs ! i) ! l \<noteq> NO_BLOCK"
        "inode_add_direct_block fs i b = (0, upd_intmap (set_block_used b) (upd_inode i (set_block_ptr j (word_of_nat b)) fs))"
      have "n \<le> j" using d j(1,2) by (simp add: dense_def)
      moreover have "\<not> n < j" using j(3) d n by (auto simp: dense_def)
      ultimately have "j = n" by simp
      then show ?thesis using j(4) by simp
    qed
    have ptr: "direct_block_ptrs (fs_inodes fs ! i) ! n = NO_BLOCK" using d n by (simp add: dense_def)
    have inv': "fs_inv (dec_free_blocks ?fs)" using inv i b(2-4) n ptr by (rule fs_inv_add_block)
    have len: "length (direct_block_ptrs (fs_inodes fs ! i)) = NUM_DIRECT_BLOCKS" "length (fs_inodes fs) = MAX_INODES"
      using fs_invD(1) [OF inv] i by simp_all
    have "dense (dec_free_blocks ?fs) i (Suc n)"
      unfolding dense_def using d n b(2) i len
      by (auto simp: dense_def set_block_ptr_def nth_list_update)
    moreover have "block_for_write fs i k = (Some (int b), dec_free_blocks ?fs)"
      using dense_end [OF d kn k] b(1) add by (simp add: block_for_write_def)
    ultimately show ?thesis using kn b inv' room by (intro new [of b "dec_free_blocks ?fs"]) simp_all
  qed
qed

text \<open>What one round leaves alone: everything but inode \<open>i\<close>'s block pointers, and bytes of other files.\<close>

definition other_kept :: "filesystem \<Rightarrow> nat \<Rightarrow> filesystem \<Rightarrow> bool" where
  "other_kept fs i fs' \<longleftrightarrow>
     (\<forall>j. j \<noteq> i \<longrightarrow> fs_inodes fs' ! j = fs_inodes fs ! j) \<and>
     (\<forall>j k b x. j \<noteq> i \<longrightarrow> owns fs j k b \<longrightarrow> b * BLOCK_SIZE \<le> x \<longrightarrow> x < Suc b * BLOCK_SIZE \<longrightarrow>
        data_block fs' x = data_block fs x) \<and>
     (\<forall>j. is_inode_used (fs_intmap fs') j = is_inode_used (fs_intmap fs) j) \<and>
     file_size_bytes (fs_inodes fs' ! i) = file_size_bytes (fs_inodes fs ! i) \<and>
     inode_type (fs_inodes fs' ! i) = inode_type (fs_inodes fs ! i) \<and>
     hard_links_count (fs_inodes fs' ! i) = hard_links_count (fs_inodes fs ! i) \<and>
     super_ok fs' = super_ok fs"

lemma other_kept_refl [simp]: "other_kept fs i fs"
  by (simp add: other_kept_def)

lemma other_kept_trans: "other_kept fs i fs' \<Longrightarrow> other_kept fs' i fs'' \<Longrightarrow> other_kept fs i fs''"
  unfolding other_kept_def owns_def by (simp, metis)

lemma block_for_write_round:
  assumes inv: "fs_inv fs" and i: "i < MAX_INODES" "is_inode_used (fs_intmap fs) i = 1"
    and d: "dense fs i n" and k: "k \<le> n" "k < NUM_DIRECT_BLOCKS"
    and room: "NUM_DIRECT_BLOCKS \<le> n + free_blocks (fs_intmap fs)"
  obtains b fs' n' where "block_for_write fs i k = (Some (int b), fs')" "b < MAX_BLOCKS"
      "fs_inv fs'" "dense fs' i n'" "n \<le> n'" "k < n'" "NUM_DIRECT_BLOCKS \<le> n' + free_blocks (fs_intmap fs')"
      "unat (direct_block_ptrs (fs_inodes fs' ! i) ! k) = b" "data_block fs' = data_block fs"
      "other_kept fs i fs'"
      "\<And>x. x < n * BLOCK_SIZE \<Longrightarrow> file_addr fs' i x = file_addr fs i x"
proof (rule block_for_write_dense [OF inv i d k(2)])
  show "k < n \<or> 0 < free_blocks (fs_intmap fs)" using k room by linarith
next
  assume "k < n" "block_for_write fs i k = (Some (int (unat (direct_block_ptrs (fs_inodes fs ! i) ! k))), fs)"
  then show ?thesis
    using inv d room dense_owns(2) [OF fs_invD(1) [OF inv] i(1) d] by (intro that [of _ fs n]) simp_all
next
  fix b fs'
  assume nk: "n \<le> k" and new: "block_for_write fs i k = (Some (int b), fs')" "b < MAX_BLOCKS" "is_block_used (fs_intmap fs) b = 0"
    "fs_inv fs'" "dense fs' i (Suc n)" "Suc (free_blocks (fs_intmap fs')) = free_blocks (fs_intmap fs)"
    and fs': "fs' = dec_free_blocks (upd_intmap (set_block_used b) (upd_inode i (set_block_ptr n (word_of_nat b)) fs))"
  have kn: "k = n" using k(1) nk by simp
  have n: "n < NUM_DIRECT_BLOCKS" using k kn by simp
  have len: "length (direct_block_ptrs (fs_inodes fs ! i)) = NUM_DIRECT_BLOCKS" "length (fs_inodes fs) = MAX_INODES"
    using fs_invD(1) [OF inv] i by simp_all
  have "other_kept fs i fs'"
    using len i by (simp add: other_kept_def fs' super_ok_def dec_free_blocks_def set_block_ptr_def)
  moreover have "file_addr fs' i x = file_addr fs i x" if "x < n * BLOCK_SIZE" for x
  proof -
    have "x div BLOCK_SIZE < n" using that by (simp add: less_mult_imp_div_less)
    then show ?thesis using len i by (simp add: file_addr_def fs' set_block_ptr_def)
  qed
  ultimately show ?thesis
    using new n len i room kn by (intro that [of b fs' "Suc n"]) (simp_all add: fs' set_block_ptr_def)
qed

text \<open>Writing \<open>bs\<close> inside one block changes exactly the positions it covers.\<close>

lemma file_byte_put:
  assumes inv: "fs_inv fs" and i: "i < MAX_INODES" and d: "dense fs i n"
    and fit: "pos div BLOCK_SIZE < n" "pos mod BLOCK_SIZE + length bs \<le> BLOCK_SIZE" and x: "x < n * BLOCK_SIZE"
  shows "file_byte (upd_data (mem_put (data_block fs) (file_addr fs i pos) bs) fs) i x =
    (if pos \<le> x \<and> x < pos + length bs then bs ! (x - pos) else file_byte fs i x)"
proof -
  let ?B = "\<lambda>x. unat (direct_block_ptrs (fs_inodes fs ! i) ! (x div BLOCK_SIZE))"
  have xn: "x div BLOCK_SIZE < n" using x by (simp add: less_mult_imp_div_less)
  note ox = dense_owns(1) [OF fs_invD(1) [OF inv] i d xn] and op = dense_owns(1) [OF fs_invD(1) [OF inv] i d fit(1)]
  have addr: "file_addr (upd_data m fs) i x = file_addr fs i x" for m by (simp add: file_addr_def)
  have "(file_addr fs i pos \<le> file_addr fs i x \<and> file_addr fs i x < file_addr fs i pos + length bs \<longleftrightarrow>
      pos \<le> x \<and> x < pos + length bs) \<and>
      (pos \<le> x \<and> x < pos + length bs \<longrightarrow> file_addr fs i x - file_addr fs i pos = x - pos)"
  proof (cases "x div BLOCK_SIZE = pos div BLOCK_SIZE")
    case True
    define a r s where "a = pos div BLOCK_SIZE" and "r = pos mod BLOCK_SIZE" and "s = x mod BLOCK_SIZE"
    have e: "x = BLOCK_SIZE * a + s" "pos = BLOCK_SIZE * a + r"
      using True mult_div_mod_eq [of BLOCK_SIZE x] by (simp_all add: a_def r_def s_def)
    have "file_addr fs i x = BLOCK_SIZE * ?B pos + s" "file_addr fs i pos = BLOCK_SIZE * ?B pos + r"
      using True by (simp_all add: file_addr_def s_def r_def)
    then show ?thesis unfolding e by auto
  next
    case False
    then have ne: "?B x \<noteq> ?B pos" using meta_inv_unique [OF fs_invD(1) [OF inv] ox] op by metis
    have far: "\<not> (c * BLOCK_SIZE + q \<le> e * BLOCK_SIZE + r \<and> e * BLOCK_SIZE + r < c * BLOCK_SIZE + q + l)"
      if "c \<noteq> e" "q + l \<le> BLOCK_SIZE" "r < BLOCK_SIZE" for c e q r l :: nat
      using that by (cases "c < e") auto
    have *: "a = a div BLOCK_SIZE * BLOCK_SIZE + a mod BLOCK_SIZE" for a :: nat by simp
    have "\<not> (file_addr fs i pos \<le> file_addr fs i x \<and> file_addr fs i x < file_addr fs i pos + length bs)"
      using far [of "?B pos" "?B x" "pos mod BLOCK_SIZE" "length bs" "x mod BLOCK_SIZE"] ne fit(2)
      by (auto simp: file_addr_def mult.commute)
    moreover have "\<not> (pos \<le> x \<and> x < pos + length bs)"
      using far [of "pos div BLOCK_SIZE" "x div BLOCK_SIZE" "pos mod BLOCK_SIZE" "length bs" "x mod BLOCK_SIZE"] False fit(2)
      using * [of x] * [of pos] by (metis mod_less_divisor zero_less_numeral)
    ultimately show ?thesis by blast
  qed
  then show ?thesis by (auto simp: file_byte_def addr mem_put_def)
qed

lemma other_kept_put:
  assumes inv: "fs_inv fs" and own: "owns fs i k b" and fit: "b * BLOCK_SIZE \<le> a" "a + length bs \<le> Suc b * BLOCK_SIZE"
  shows "other_kept fs i (upd_data (mem_put (data_block fs) a bs) fs)"
proof -
  have "mem_put (data_block fs) a bs x = data_block fs x"
    if "j \<noteq> i" "owns fs j l c" "c * BLOCK_SIZE \<le> x" "x < Suc c * BLOCK_SIZE" for j l c x
  proof -
    have "c \<noteq> b" using meta_inv_unique [OF fs_invD(1) [OF inv] own] that by blast
    then have "Suc c * BLOCK_SIZE \<le> b * BLOCK_SIZE \<or> Suc b * BLOCK_SIZE \<le> c * BLOCK_SIZE"
      by (meson linorder_neqE_nat mult_le_mono1 Suc_leI)
    then have "x < a \<or> a + length bs \<le> x" using fit that(3,4) by linarith
    then show ?thesis by (rule mem_put_out)
  qed
  then show ?thesis unfolding other_kept_def by (auto simp: super_ok_def)
qed

lemma within_blocks:
  fixes B :: nat
  assumes "p mod B + c \<le> B" "p div B < n"
  shows "p + c \<le> n * B"
proof -
  define q r where "q = p div B" and "r = p mod B"
  have "p = q * B + r" by (simp add: q_def r_def)
  moreover have "Suc q * B \<le> n * B" using assms(2) by (intro mult_le_mono1) (simp add: q_def)
  moreover have "r + c \<le> B" using assms(1) by (simp add: r_def)
  ultimately show ?thesis by simp
qed

text \<open>One round of the writing loop on a dense file with enough free blocks.\<close>

lemma write_round:
  assumes inv: "fs_inv fs" and i: "i < MAX_INODES" "is_inode_used (fs_intmap fs) i = 1" and d: "dense fs i n"
    and w: "w < length buf" and pos: "pos \<le> n * BLOCK_SIZE" "pos < NUM_DIRECT_BLOCKS * BLOCK_SIZE"
    and room: "NUM_DIRECT_BLOCKS \<le> n + free_blocks (fs_intmap fs)" and c: "c = chunk BLOCK_SIZE buf w pos"
  obtains fs' n' where "write_loop fs i BLOCK_SIZE buf w pos = write_loop fs' i BLOCK_SIZE buf (w + c) (pos + c)"
    "fs_inv fs'" "other_kept fs i fs'" "dense fs' i n'" "n \<le> n'" "pos + c \<le> n' * BLOCK_SIZE"
    "NUM_DIRECT_BLOCKS \<le> n' + free_blocks (fs_intmap fs')"
    "\<And>x. pos \<le> x \<Longrightarrow> x < pos + c \<Longrightarrow> file_byte fs' i x = buf ! (w + (x - pos))"
    "\<And>x. x < n * BLOCK_SIZE \<Longrightarrow> x < pos \<or> pos + c \<le> x \<Longrightarrow> file_byte fs' i x = file_byte fs i x"
proof -
  let ?k = "pos div BLOCK_SIZE"
  have k: "?k \<le> n" "?k < NUM_DIRECT_BLOCKS"
    using pos by (simp_all add: div_le_mono less_mult_imp_div_less)
  have fit: "c \<le> length buf - w" "pos mod BLOCK_SIZE + c \<le> BLOCK_SIZE"
    using mod_less_divisor [of BLOCK_SIZE pos] by (auto simp: c chunk_def)
  obtain b fs1 n1 where r: "block_for_write fs i ?k = (Some (int b), fs1)" "b < MAX_BLOCKS"
    "fs_inv fs1" "dense fs1 i n1" "n \<le> n1" "?k < n1" "NUM_DIRECT_BLOCKS \<le> n1 + free_blocks (fs_intmap fs1)"
    "unat (direct_block_ptrs (fs_inodes fs1 ! i) ! ?k) = b" "data_block fs1 = data_block fs" "other_kept fs i fs1"
    "\<And>x. x < n * BLOCK_SIZE \<Longrightarrow> file_addr fs1 i x = file_addr fs i x"
    using block_for_write_round [OF inv i d k room] by metis
  let ?bs = "take c (drop w buf)"
  let ?fs2 = "upd_data (mem_put (data_block fs1) (file_addr fs1 i pos) ?bs) fs1"
  have len: "length ?bs = c" using fit by simp
  have nth: "?bs ! j = buf ! (w + j)" if "j < c" for j using that fit by simp
  have addr: "file_addr fs1 i pos = BLOCK_SIZE * b + pos mod BLOCK_SIZE" by (simp add: file_addr_def r(8))
  have pos1: "pos + c \<le> n1 * BLOCK_SIZE" using fit(2) r(6) by (rule within_blocks)
  have own: "owns fs1 i ?k b" using dense_owns(1) [OF fs_invD(1) [OF r(3)] i(1) r(4,6)] by (simp add: r(8))
  have put: "file_byte ?fs2 i x = (if pos \<le> x \<and> x < pos + c then buf ! (w + (x - pos)) else file_byte fs1 i x)"
    if "x < n1 * BLOCK_SIZE" for x
    using file_byte_put [OF r(3) i(1) r(4,6), of ?bs x] nth [of "x - pos"] that len fit by auto
  have mono: "n * BLOCK_SIZE \<le> n1 * BLOCK_SIZE" using r(5) by (rule mult_le_mono1)
  show thesis
  proof (rule that [of ?fs2 n1])
    show "write_loop fs i BLOCK_SIZE buf w pos = write_loop ?fs2 i BLOCK_SIZE buf (w + c) (pos + c)"
      using w k(2) r(1,2) fit(2) by (simp add: write_loop.simps [of fs] addr Let_def flip: c)
    show "other_kept fs i ?fs2"
    proof (rule other_kept_trans [OF r(10)], rule other_kept_put [OF r(3) own])
      show "b * BLOCK_SIZE \<le> file_addr fs1 i pos" unfolding addr by simp
      show "file_addr fs1 i pos + length ?bs \<le> Suc b * BLOCK_SIZE" unfolding addr len using fit(2) by simp
    qed
    show "file_byte ?fs2 i x = file_byte fs i x" if "x < n * BLOCK_SIZE" "x < pos \<or> pos + c \<le> x" for x
      using put [of x] r(9,11) that mono by (auto simp: file_byte_def)
  qed (use r pos1 put in \<open>simp_all add: dense_def\<close>)
qed

text \<open>The whole loop.\<close>

lemma write_loop_dense:
  assumes "fs_inv fs" "i < MAX_INODES" "is_inode_used (fs_intmap fs) i = 1" "dense fs i n"
    and "w \<le> length buf" "pos \<le> n * BLOCK_SIZE" "pos + (length buf - w) \<le> NUM_DIRECT_BLOCKS * BLOCK_SIZE"
    and "NUM_DIRECT_BLOCKS \<le> n + free_blocks (fs_intmap fs)"
  shows "\<exists>fs' n'. write_loop fs i BLOCK_SIZE buf w pos = Some (length buf, fs') \<and> fs_inv fs' \<and> other_kept fs i fs' \<and>
    dense fs' i n' \<and> n \<le> n' \<and> pos + (length buf - w) \<le> n' * BLOCK_SIZE \<and>
    (\<forall>x. pos \<le> x \<and> x < pos + (length buf - w) \<longrightarrow> file_byte fs' i x = buf ! (w + (x - pos))) \<and>
    (\<forall>x. x < pos \<or> pos + (length buf - w) \<le> x \<and> x < n * BLOCK_SIZE \<longrightarrow> file_byte fs' i x = file_byte fs i x)"
  using assms
proof (induction "length buf - w" arbitrary: fs n w pos rule: less_induct)
  case less
  note prems = less.prems
  show ?case
  proof (cases "w < length buf")
    case False
    then have "w = length buf" using prems(5) by simp
    then show ?thesis using prems by (intro exI [of _ fs] exI [of _ n]) (auto simp: write_loop.simps)
  next
    case True
    define c where "c = chunk BLOCK_SIZE buf w pos"
    have c: "0 < c" "c \<le> length buf - w" using True by (auto simp: c_def chunk_def)
    have "pos < NUM_DIRECT_BLOCKS * BLOCK_SIZE" using prems(7) True by simp
    from write_round [OF prems(1-4) True prems(6) this prems(8) c_def] obtain fs2 n1 where r:
      "write_loop fs i BLOCK_SIZE buf w pos = write_loop fs2 i BLOCK_SIZE buf (w + c) (pos + c)"
      "fs_inv fs2" "other_kept fs i fs2" "dense fs2 i n1" "n \<le> n1" "pos + c \<le> n1 * BLOCK_SIZE"
      "NUM_DIRECT_BLOCKS \<le> n1 + free_blocks (fs_intmap fs2)"
      "\<And>x. pos \<le> x \<Longrightarrow> x < pos + c \<Longrightarrow> file_byte fs2 i x = buf ! (w + (x - pos))"
      "\<And>x. x < n * BLOCK_SIZE \<Longrightarrow> x < pos \<or> pos + c \<le> x \<Longrightarrow> file_byte fs2 i x = file_byte fs i x"
      by metis
    have used: "is_inode_used (fs_intmap fs2) i = 1" using r(3) prems(3) by (simp add: other_kept_def)
    have total: "pos + c + (length buf - (w + c)) = pos + (length buf - w)" using c(2) by simp
    have rest: "length buf - (w + c) < length buf - w" "w + c \<le> length buf"
      "pos + c + (length buf - (w + c)) \<le> NUM_DIRECT_BLOCKS * BLOCK_SIZE"
      using c True prems(7) by simp_all
    obtain fs' n' where IH:
      "write_loop fs2 i BLOCK_SIZE buf (w + c) (pos + c) = Some (length buf, fs')"
      "fs_inv fs'" "other_kept fs2 i fs'" "dense fs' i n'" "n1 \<le> n'" "pos + (length buf - w) \<le> n' * BLOCK_SIZE"
      "\<And>x. pos + c \<le> x \<and> x < pos + (length buf - w) \<Longrightarrow> file_byte fs' i x = buf ! (w + c + (x - (pos + c)))"
      "\<And>x. x < pos + c \<or> pos + (length buf - w) \<le> x \<and> x < n1 * BLOCK_SIZE \<Longrightarrow> file_byte fs' i x = file_byte fs2 i x"
      using less.hyps [OF rest(1) r(2) prems(2) used r(4) rest(2) r(6) rest(3) r(7)] unfolding total by blast
    have mono: "n * BLOCK_SIZE \<le> n1 * BLOCK_SIZE" using r(5) by (rule mult_le_mono1)
    have "file_byte fs' i x = buf ! (w + (x - pos))" if "pos \<le> x" "x < pos + (length buf - w)" for x
      using IH(7) [of x] IH(8) [of x] r(8) [of x] that by (cases "x < pos + c") simp_all
    moreover have "file_byte fs' i x = file_byte fs i x"
      if "x < pos \<or> pos + (length buf - w) \<le> x \<and> x < n * BLOCK_SIZE" for x
      using IH(8) [of x] r(9) [of x] that prems(6) c(2) mono by auto
    ultimately show ?thesis
      using IH(1,2,4,5,6) r(5) other_kept_trans [OF r(3) IH(3)] unfolding r(1)
      by (intro exI [of _ fs'] exI [of _ n']) simp
  qed
qed

section \<open>Reading\<close>

lemma mem_get_file:
  assumes "off + l \<le> BLOCK_SIZE" "0 < l"
  shows "mem_get (data_block fs) (BLOCK_SIZE * unat (direct_block_ptrs (fs_inodes fs ! i) ! k) + off) l =
    map (file_byte fs i) [k * BLOCK_SIZE + off..<k * BLOCK_SIZE + off + l]"
proof (rule nth_equalityI)
  fix j
  assume "j < length (mem_get (data_block fs) (BLOCK_SIZE * unat (direct_block_ptrs (fs_inodes fs ! i) ! k) + off) l)"
  then have j: "j < l" "off + j < BLOCK_SIZE" using assms by simp_all
  have "(k * BLOCK_SIZE + (off + j)) div BLOCK_SIZE = k" "(k * BLOCK_SIZE + (off + j)) mod BLOCK_SIZE = off + j"
    using j(2) by simp_all
  then show "mem_get (data_block fs) (BLOCK_SIZE * unat (direct_block_ptrs (fs_inodes fs ! i) ! k) + off) l ! j =
      map (file_byte fs i) [k * BLOCK_SIZE + off..<k * BLOCK_SIZE + off + l] ! j"
    using j(1) by (simp add: file_byte_def file_addr_def add.assoc)
qed simp

lemma read_loop_dense:
  assumes "fs_inv fs" "i < MAX_INODES" "dense fs i n" "off < BLOCK_SIZE"
    and "k * BLOCK_SIZE + off + (N - length acc) \<le> n * BLOCK_SIZE"
  shows "read_loop fs (fs_inodes fs ! i) BLOCK_SIZE N k off acc =
    Some (acc @ map (file_byte fs i) [k * BLOCK_SIZE + off..<k * BLOCK_SIZE + off + (N - length acc)])"
  using assms(4,5)
proof (induction "N - length acc" arbitrary: k off acc rule: less_induct)
  case less
  show ?case
  proof (cases "length acc < N")
    case False
    then show ?thesis by (simp add: read_loop.simps)
  next
    case True
    define l where "l = min (N - length acc) (BLOCK_SIZE - off)"
    have l: "0 < l" "off + l \<le> BLOCK_SIZE" "l \<le> N - length acc" using True less.prems(1) by (auto simp: l_def)
    have "k * BLOCK_SIZE < n * BLOCK_SIZE" using less.prems True by simp
    then have k: "k < n" by simp
    then have k12: "k < NUM_DIRECT_BLOCKS" using assms(3) by (simp add: dense_def)
    obtain b where b: "unat (direct_block_ptrs (fs_inodes fs ! i) ! k) = b" "b < MAX_BLOCKS"
      "inode_get_direct_block (fs_inodes fs ! i) (int k) = int b"
      using dense_owns(2,3) [OF fs_invD(1) [OF assms(1)] assms(2,3) k] by blast
    define p where "p = k * BLOCK_SIZE + off"
    let ?acc = "acc @ map (file_byte fs i) [p..<p + l]"
    have "mem_get (data_block fs) (BLOCK_SIZE * b + off) l = map (file_byte fs i) [p..<p + l]"
      using mem_get_file [OF l(2,1), of fs i k] by (simp add: b p_def)
    moreover have "BLOCK_SIZE * b + off + l \<le> DATA_SIZE" using l(2) b(2) by simp
    ultimately have step: "read_loop fs (fs_inodes fs ! i) BLOCK_SIZE N k off acc =
        read_loop fs (fs_inodes fs ! i) BLOCK_SIZE N (Suc k) 0 ?acc"
      using True k12 b by (simp add: read_loop.simps [of fs _ _ _ k] Let_def flip: l_def)
    have split: "l = N - length acc \<or> Suc k * BLOCK_SIZE = p + l"
      using less.prems(1) by (auto simp: l_def p_def min_def split: if_splits)
    have fits: "Suc k * BLOCK_SIZE + 0 + (N - length ?acc) \<le> n * BLOCK_SIZE"
      using split less.prems(2) k l(3) by (auto simp: p_def)
    have less: "N - length ?acc < N - length acc" using l True by simp
    have "[p..<p + l] @ [Suc k * BLOCK_SIZE..<Suc k * BLOCK_SIZE + (N - length ?acc)] = [p..<p + (N - length acc)]"
    proof (cases "l = N - length acc")
      case False
      then have "Suc k * BLOCK_SIZE = p + l" "N - length acc = l + (N - length ?acc)" using split l by simp_all
      then show ?thesis using upt_add_eq_append [of p "p + l" "N - length ?acc"] by (simp only: le_add1 add.assoc)
    qed simp
    then show ?thesis
      using less.hyps [OF less _ fits] unfolding step by (simp flip: p_def map_append)
  qed
qed

section \<open>Write, then read\<close>

lemma off_to_size_nat: "n < 18446744073709551616 \<Longrightarrow> off_to_size (int n) = n"
  by (simp add: off_to_size_def nat_mod_as_int flip: nat_mod_distrib) 

lemma size_to_int_small:
  assumes "n < 2147483648"
  shows "size_to_int n = int n"
proof -
  have "unat (word_of_nat n :: uint32) = n"
    using assms by (simp add: unsigned_of_nat take_bit_nat_eq_self)
  then show ?thesis using assms sint_small [of "word_of_nat n"] by (simp add: size_to_int_def)
qed

lemma file_upd_inode:
  assumes "length (fs_inodes fs) = MAX_INODES" "i < MAX_INODES"
    and "direct_block_ptrs (f (fs_inodes fs ! i)) = direct_block_ptrs (fs_inodes fs ! i)"
  shows "file_byte (upd_inode i f fs) i = file_byte fs i" "dense (upd_inode i f fs) i n = dense fs i n"
  using assms by (auto simp: file_byte_def [abs_def] file_addr_def dense_def)

definition written_size :: "filesystem \<Rightarrow> nat \<Rightarrow> nat \<Rightarrow> nat" where
  "written_size fs i past_end = max (unat (file_size_bytes (fs_inodes fs ! i))) past_end"

lemma write_inode_dense:
  assumes inv: "fs_inv fs" "super_ok fs" and i: "i < MAX_INODES" "is_inode_used (fs_intmap fs) i = 1"
    and d: "dense fs i n" and fit: "off \<le> n * BLOCK_SIZE" "off + length buf \<le> NUM_DIRECT_BLOCKS * BLOCK_SIZE"
    and room: "NUM_DIRECT_BLOCKS \<le> n + free_blocks (fs_intmap fs)"
  shows "\<exists>fs' n'. write_inode os fs (int i) buf (int off) False = Some (int (length buf), fs') \<and> fs_inv fs' \<and> super_ok fs' \<and>
    dense fs' i n' \<and> off + length buf \<le> n' * BLOCK_SIZE \<and> n \<le> n' \<and>
    unat (file_size_bytes (fs_inodes fs' ! i)) = written_size fs i (off + length buf) \<and>
    (\<forall>x. off \<le> x \<and> x < off + length buf \<longrightarrow> file_byte fs' i x = buf ! (x - off)) \<and>
    (\<forall>x. x < off \<or> off + length buf \<le> x \<and> x < n * BLOCK_SIZE \<longrightarrow> file_byte fs' i x = file_byte fs i x) \<and>
    (\<forall>j. j \<noteq> i \<longrightarrow> fs_inodes fs' ! j = fs_inodes fs ! j) \<and>
    (\<forall>j k b x. j \<noteq> i \<longrightarrow> owns fs j k b \<longrightarrow> b * BLOCK_SIZE \<le> x \<longrightarrow> x < Suc b * BLOCK_SIZE \<longrightarrow>
        data_block fs' x = data_block fs x)"
proof -
  obtain fs1 n1 where w: "write_loop fs i BLOCK_SIZE buf 0 off = Some (length buf, fs1)" "fs_inv fs1" "other_kept fs i fs1"
    "dense fs1 i n1" "n \<le> n1" "off + length buf \<le> n1 * BLOCK_SIZE"
    "\<And>x. off \<le> x \<and> x < off + length buf \<Longrightarrow> file_byte fs1 i x = buf ! (x - off)"
    "\<And>x. x < off \<or> off + length buf \<le> x \<and> x < n * BLOCK_SIZE \<Longrightarrow> file_byte fs1 i x = file_byte fs i x"
    using write_loop_dense [OF inv(1) i d, of 0 buf off] fit room by auto
  let ?sz = "if off + length buf > unat (file_size_bytes (fs_inodes fs1 ! i))
             then file_size_bytes_update (\<lambda>_. word_of_nat (off + length buf)) else id"
  let ?f = "inode_update_atime os \<circ> inode_update_ctime os \<circ> inode_update_mtime os \<circ> ?sz"
  let ?fs = "upd_inode i ?f fs1"
  have len: "length (fs_inodes fs1) = MAX_INODES" using fs_inv_len [OF w(2)] .
  have off: "off_to_size (int off) = off" "size_to_int (length buf) = int (length buf)"
    using fit(2) by (simp_all add: off_to_size_nat size_to_int_small)
  have "upd_inode i id fs1 = fs1" by (simp add: upd_inode_def)
  then have "(if off + length buf > unat (file_size_bytes (fs_inodes fs1 ! i))
      then upd_inode i (file_size_bytes_update (\<lambda>_. word_of_nat (off + length buf))) fs1 else fs1) = upd_inode i ?sz fs1"
    by simp
  then have res: "write_inode os fs (int i) buf (int off) False = Some (int (length buf), ?fs)"
    using inv(2) i(1) w(1) off by (simp add: write_inode_def Let_def super_ok_def upd_inode_comp comp_assoc)
  have ptrs: "direct_block_ptrs (?f (fs_inodes fs1 ! i)) = direct_block_ptrs (fs_inodes fs1 ! i)"
    "inode_type (?f (fs_inodes fs1 ! i)) = inode_type (fs_inodes fs1 ! i)"
    by simp_all
  have "fs_inv ?fs" using w(2) ptrs by (intro fs_inv_upd_inode) simp_all
  moreover have "super_ok ?fs" using w(3) inv(2) by (simp add: other_kept_def super_ok_def)
  moreover have "unat (word_of_nat (off + length buf) :: uint32) = off + length buf"
    using fit(2) by (simp add: unsigned_of_nat take_bit_nat_eq_self del: of_nat_add)
  then have "unat (file_size_bytes (fs_inodes ?fs ! i)) = written_size fs i (off + length buf)"
    using len i(1) w(3) by (simp add: written_size_def other_kept_def inode_time_defs del: of_nat_add)
  moreover note file_upd_inode [where f = ?f, OF len i(1) ptrs(1)]
  moreover have "data_block ?fs = data_block fs1" "\<And>j. j \<noteq> i \<Longrightarrow> fs_inodes ?fs ! j = fs_inodes fs1 ! j"
    by (simp_all add: upd_inode_def)
  ultimately show ?thesis
    using res w by (intro exI [of _ ?fs] exI [of _ n1]) (simp add: other_kept_def)
qed

lemma read_inode_dense:
  assumes inv: "fs_inv fs" "super_ok fs" and i: "i < MAX_INODES" and d: "dense fs i n"
    and fit: "off + len \<le> n * BLOCK_SIZE" "off + len \<le> unat (file_size_bytes (fs_inodes fs ! i))" "0 < len"
  shows "read_inode os fs (int i) len (int off) =
    Some ((int len, map (file_byte fs i) [off..<off + len]), upd_inode i (inode_update_atime os) fs)"
proof -
  let ?sz = "unat (file_size_bytes (fs_inodes fs ! i))"
  have small: "?sz < 4294967296" using unsigned_less [of "file_size_bytes (fs_inodes fs ! i)"] by simp
  have n: "n * BLOCK_SIZE \<le> NUM_DIRECT_BLOCKS * BLOCK_SIZE" using d by (intro mult_le_mono1) (simp add: dense_def)
  have off: "off_to_size (int off) = off" using fit small by (intro off_to_size_nat) simp
  have "int ?sz - int off = int (?sz - off)" using fit(2) by (intro of_nat_diff [symmetric]) simp
  then have left: "off_to_size (int ?sz - int off) = ?sz - off"
    using small by (simp only:) (rule off_to_size_nat, simp)
  have "read_loop fs (fs_inodes fs ! i) BLOCK_SIZE len (off div BLOCK_SIZE) (off mod BLOCK_SIZE) [] =
      Some ([] @ map (file_byte fs i) [off div BLOCK_SIZE * BLOCK_SIZE + off mod BLOCK_SIZE..<
        off div BLOCK_SIZE * BLOCK_SIZE + off mod BLOCK_SIZE + (len - length ([] :: string))])"
    using fit(1) by (intro read_loop_dense [OF inv(1) i d]) simp_all
  moreover have "(if len < ?sz - off then len else ?sz - off) = len" using fit(2) by auto
  moreover have "size_to_int len = int len" using fit(1) n by (intro size_to_int_small) simp
  moreover have "\<not> int off \<ge> int ?sz" using fit(2,3) unfolding of_nat_le_iff by linarith
  ultimately show ?thesis
    using i inv(2) off left by (simp add: read_inode_def Let_def super_ok_def del: of_nat_unat)
qed

section \<open>Writing after a hole\<close>

lemma write_loop_hole:
  assumes inv: "fs_inv fs" and i: "i < MAX_INODES" "is_inode_used (fs_intmap fs) i = 1" and d: "dense fs i n"
    and k: "n \<le> k" "k < NUM_DIRECT_BLOCKS" and buf: "buf \<noteq> []" "length buf \<le> BLOCK_SIZE" and free: "0 < free_blocks (fs_intmap fs)"
  obtains fs' where "write_loop fs i BLOCK_SIZE buf 0 (k * BLOCK_SIZE) = Some (length buf, fs')" "fs_inv fs'" "dense fs' i (Suc n)"
    "fs_super fs' = fs_super fs\<lparr>free_blocks_count := free_blocks_count (fs_super fs) - 1\<rparr>"
    "file_size_bytes (fs_inodes fs' ! i) = file_size_bytes (fs_inodes fs ! i)"
proof (rule block_for_write_dense [OF inv i d k(2)])
  show "k < n \<or> 0 < free_blocks (fs_intmap fs)" using free by simp
next
  assume "k < n"
  then show thesis using k by simp
next
  fix b fs'
  assume new: "block_for_write fs i k = (Some (int b), fs')" "b < MAX_BLOCKS" "fs_inv fs'" "dense fs' i (Suc n)"
    "fs' = dec_free_blocks (upd_intmap (set_block_used b) (upd_inode i (set_block_ptr n (word_of_nat b)) fs))"
  let ?fs = "upd_data (mem_put (data_block fs') (BLOCK_SIZE * b) buf) fs'"
  have chunk: "chunk BLOCK_SIZE buf 0 (k * BLOCK_SIZE) = length buf" using buf(2) by (simp add: chunk_def)
  have "BLOCK_SIZE * b + length buf \<le> DATA_SIZE" using new(2) buf(2) by simp
  then have "write_loop fs i BLOCK_SIZE buf 0 (k * BLOCK_SIZE) = write_loop ?fs i BLOCK_SIZE buf (length buf) (k * BLOCK_SIZE + length buf)"
    using buf(1) k(2) new(1,2) chunk by (simp add: write_loop.simps [of fs] Let_def)
  also have "\<dots> = Some (length buf, ?fs)" by (simp add: write_loop.simps)
  finally show thesis
    using new i fs_inv_len [OF inv]
    by (intro that [of ?fs]) (simp_all add: dense_def dec_free_blocks_def set_block_ptr_def)
qed

end
