(* ===== verification/Fisopfs.thy ===== *)
theory Fisopfs
  imports Filesystem
begin

text \<open>
  The FUSE callbacks and the entry point (\<^verbatim>\<open>src/TP File System/fisopfs.c\<close>). The private data of FUSE
  is an optional file system (\<open>None\<close> is the null pointer, answered with \<^verbatim>\<open>-EIO\<close> by every
  callback). The debug messages on stderr are left out.
\<close>

type_synonym 'a callback = "('a \<times> filesystem option) option"

text \<open>The shape all callbacks share: \<^verbatim>\<open>if (!fs) return -EIO;\<close> and then the operation on the file system.\<close>

definition with_fs ::
  "filesystem option \<Rightarrow> (filesystem \<Rightarrow> (int \<times> filesystem) option) \<Rightarrow> int callback" where
  "with_fs pd f = (case pd of None \<Rightarrow> Some (- EIO, None) | Some fs \<Rightarrow> map_option (apsnd Some) (f fs))"

section \<open>Mounting and unmounting\<close>

text \<open>\<^verbatim>\<open>calloc\<close> gives zeroed memory, in which the first enumerator is the inode type.\<close>

definition zero_inode :: inode where
  "zero_inode = \<lparr>file_size_bytes = 0, owner_user_id = 0, owner_group_id = 0, permission_bits = 0,
     last_access_time = 0, last_modification_time = 0, last_metadata_change_time = 0,
     hard_links_count = 0, direct_block_ptrs = replicate NUM_DIRECT_BLOCKS 0, inode_type = INODE_FILE\<rparr>"

definition zero_fs :: filesystem where
  "zero_fs = \<lparr>fs_inodes = replicate MAX_INODES zero_inode, fs_intmap = intmap_init,
     fs_super = \<lparr>total_inodes = 0, total_blocks = 0, free_inodes_count = 0, free_blocks_count = 0,
       block_size_bytes = 0, max_file_size_bytes = 0, max_filename_length = 0, max_path_length = 0,
       root_inode_number = 0\<rparr>,
     data_block = (\<lambda>_. NUL)\<rparr>"

text \<open>\<open>mem\<close> says whether the allocation succeeds; the outer option is undefined behaviour.\<close>

definition new_fs :: "os_env \<Rightarrow> bool \<Rightarrow> filesystem option option" where
  "new_fs os mem = (if \<not> mem then Some None else map_option Some (fs_init os zero_fs))"

text \<open>The persistence file: absent, empty, shorter than the structure, or a whole image.\<close>

datatype disk_file = Missing | Empty | Short | Image filesystem

definition empty_file :: "disk_file \<Rightarrow> bool" where
  "empty_file f \<longleftrightarrow> f = Empty"

definition fisops_init :: "os_env \<Rightarrow> bool \<Rightarrow> disk_file \<Rightarrow> filesystem option option" where
  "fisops_init os mem file =
     (case file of
        Missing \<Rightarrow> new_fs os mem
      | _ \<Rightarrow>
          if empty_file file then new_fs os mem
          else if \<not> mem then Some None
          else (case file of Image fs \<Rightarrow> Some (Some fs) | _ \<Rightarrow> new_fs os mem))"

text \<open>\<open>opened\<close> and \<open>written\<close> are the outcomes of \<^verbatim>\<open>fopen(.., "wb")\<close> and \<^verbatim>\<open>fwrite\<close>.\<close>

definition fisops_destroy :: "filesystem option \<Rightarrow> bool \<Rightarrow> bool \<Rightarrow> disk_file \<Rightarrow> disk_file" where
  "fisops_destroy pd opened written file =
     (case pd of
        None \<Rightarrow> file
      | Some fs \<Rightarrow> if \<not> opened then file else if written then Image fs else Short)"

definition fisops_flush :: "string \<Rightarrow> int" where
  "fisops_flush path = 0"

section \<open>The callbacks\<close>

definition fisopfs_getattr ::
  "os_env \<Rightarrow> filesystem option \<Rightarrow> string \<Rightarrow> (int \<times> stat option) callback" where
  "fisopfs_getattr os pd path =
     (case pd of
        None \<Rightarrow> Some ((- EIO, None), None)
      | Some fs \<Rightarrow> do {
          ((res, st), fs) \<leftarrow> fs_statistics os fs path;
          Some (if res < 0 then (res, st) else (0, st), Some fs)
        })"

text \<open>The names handed to \<^verbatim>\<open>filler\<close>; the buffer has \<open>MAX_INODES\<close> rows.\<close>

definition fisopfs_readdir ::
  "os_env \<Rightarrow> filesystem option \<Rightarrow> string \<Rightarrow> (int \<times> string list) callback" where
  "fisopfs_readdir os pd path =
     (case pd of
        None \<Rightarrow> Some ((- EIO, []), None)
      | Some fs \<Rightarrow> do {
          ((count, entries), fs) \<leftarrow> fs_list_directory os fs path MAX_INODES;
          Some (if count < 0 then (- ENOENT, []) else (0, take (nat count) entries), Some fs)
        })"

definition fisopfs_read ::
  "os_env \<Rightarrow> filesystem option \<Rightarrow> string \<Rightarrow> nat \<Rightarrow> int \<Rightarrow> (int \<times> string) callback" where
  "fisopfs_read os pd path n offset =
     (case pd of
        None \<Rightarrow> Some ((- EIO, []), None)
      | Some fs \<Rightarrow> do {
          (i, fs) \<leftarrow> fs_resolve_path os fs path;
          if i < 0 then Some ((- ENOENT, []), Some fs)
          else do {
            ino \<leftarrow> inode_at fs i;
            if permission_bits ino AND PERM_READ = 0 then Some ((- EACCES, []), Some fs)
            else do {
              ((bytes, out), fs) \<leftarrow> fs_read_file os fs path n offset;
              Some (if bytes < 0 then (- ENOENT, out) else (bytes, out), Some fs)
            }
          }
        })"

definition fisopfs_write ::
  "os_env \<Rightarrow> filesystem option \<Rightarrow> string \<Rightarrow> string \<Rightarrow> int \<Rightarrow> int callback" where
  "fisopfs_write os pd path buf offset = with_fs pd (\<lambda>fs. fs_write_file os fs path buf offset False)"

definition fisopfs_create :: "os_env \<Rightarrow> filesystem option \<Rightarrow> string \<Rightarrow> uint32 \<Rightarrow> int callback" where
  "fisopfs_create os pd path mode = with_fs pd (\<lambda>fs. fs_create_file os fs path mode)"

definition fisopfs_unlink :: "os_env \<Rightarrow> filesystem option \<Rightarrow> string \<Rightarrow> int callback" where
  "fisopfs_unlink os pd path = with_fs pd (\<lambda>fs. fs_delete_file os fs path)"

text \<open>\<^verbatim>\<open>strrchr(path, '/')\<close> and the copy of at most 31 characters.\<close>

definition mkdir_name :: "string \<Rightarrow> string" where
  "mkdir_name path =
     (let pos = last_slash path (length path)
      in take (MAX_FILENAME_LEN - 1) (if pos < 0 then path else drop (nat pos + 1) path))"

definition fisopfs_mkdir :: "os_env \<Rightarrow> filesystem option \<Rightarrow> string \<Rightarrow> uint32 \<Rightarrow> int callback" where
  "fisopfs_mkdir os pd path mode = with_fs pd (\<lambda>fs. fs_create_directory os fs path mode (mkdir_name path))"

definition fisopfs_rmdir :: "os_env \<Rightarrow> filesystem option \<Rightarrow> string \<Rightarrow> int callback" where
  "fisopfs_rmdir os pd path = with_fs pd (\<lambda>fs. fs_remove_directory os fs path)"

definition truncate_fs :: "os_env \<Rightarrow> filesystem \<Rightarrow> string \<Rightarrow> int \<Rightarrow> (int \<times> filesystem) option" where
  "truncate_fs os fs path sz = do {
     (n, fs) \<leftarrow> fs_resolve_path os fs path;
     if n < 0 then Some (- ENOENT, fs)
     else do {
       _ \<leftarrow> inode_at fs n;
       fs \<leftarrow> (if sz = 0 then release_blocks (nat n) [0..<NUM_DIRECT_BLOCKS] fs else Some fs);
       Some (0, upd_inode (nat n)
         (inode_update_ctime os \<circ> inode_update_mtime os \<circ> file_size_bytes_update (\<lambda>_. word_of_int sz)) fs)
     }
   }"

definition fisopfs_truncate :: "os_env \<Rightarrow> filesystem option \<Rightarrow> string \<Rightarrow> int \<Rightarrow> int callback" where
  "fisopfs_truncate os pd path sz = with_fs pd (\<lambda>fs. truncate_fs os fs path sz)"

definition fisopfs_utimens :: "os_env \<Rightarrow> filesystem option \<Rightarrow> string \<Rightarrow> int \<Rightarrow> int \<Rightarrow> int callback" where
  "fisopfs_utimens os pd path atime mtime = with_fs pd (\<lambda>fs. do {
     (n, fs) \<leftarrow> fs_resolve_path os fs path;
     if n < 0 then Some (- ENOENT, fs)
     else do {
       _ \<leftarrow> inode_at fs n;
       Some (0, upd_inode (nat n)
         (last_modification_time_update (\<lambda>_. mtime) \<circ> last_access_time_update (\<lambda>_. atime)) fs)
     }
   })"

definition fisopfs_symlink :: "os_env \<Rightarrow> filesystem option \<Rightarrow> string \<Rightarrow> string \<Rightarrow> int callback" where
  "fisopfs_symlink os pd target linkpath = with_fs pd (\<lambda>fs. fs_create_symlink os fs target linkpath)"

definition fisopfs_readlink ::
  "os_env \<Rightarrow> filesystem option \<Rightarrow> string \<Rightarrow> nat \<Rightarrow> (int \<times> string) callback" where
  "fisopfs_readlink os pd path n =
     (case pd of
        None \<Rightarrow> Some ((- EIO, []), None)
      | Some fs \<Rightarrow> do {
          ((res, out), fs) \<leftarrow> fs_read_symlink os fs path n;
          Some (if res < 0 then (res, out) else (0, out), Some fs)
        })"

definition fisopfs_link :: "os_env \<Rightarrow> filesystem option \<Rightarrow> string \<Rightarrow> string \<Rightarrow> int callback" where
  "fisopfs_link os pd from to = with_fs pd (\<lambda>fs. fs_create_hard_link os fs from to)"

definition fisopfs_chmod :: "os_env \<Rightarrow> filesystem option \<Rightarrow> string \<Rightarrow> uint32 \<Rightarrow> int callback" where
  "fisopfs_chmod os pd path mode = with_fs pd (\<lambda>fs. fs_change_mode os fs path mode)"

definition fisopfs_chown :: "os_env \<Rightarrow> filesystem option \<Rightarrow> string \<Rightarrow> uint32 \<Rightarrow> uint32 \<Rightarrow> int callback" where
  "fisopfs_chown os pd path uid gid = with_fs pd (\<lambda>fs. fs_change_owner os fs path uid gid)"

section \<open>The command line\<close>

abbreviation (input) FILE_DISK_EXTENSION :: string where "FILE_DISK_EXTENSION \<equiv> ''.fisopfs''"
abbreviation (input) DEFAULT_FILE_DISK :: string where "DEFAULT_FILE_DISK \<equiv> ''persistence_file.fisopfs''"

text \<open>
  The loop over \<^verbatim>\<open>argv\<close>: the first \<^verbatim>\<open>--filedisk\<close> that has a following argument is taken out
  together with it. \<open>i\<close> is the index being looked at.
\<close>

function pop_filedisk :: "string list \<Rightarrow> nat \<Rightarrow> string \<times> string list" where
  "pop_filedisk argv i =
     (if i + 1 < length argv
      then if argv ! i = ''--filedisk'' then (argv ! (i + 1), take i argv @ drop (i + 2) argv)
           else pop_filedisk argv (i + 1)
      else (DEFAULT_FILE_DISK, argv))"
  by pat_completeness auto
termination
  by (relation "measure (\<lambda>(argv, i). length argv - i)") auto

declare pop_filedisk.simps [simp del]

definition ends_with_extension :: "string \<Rightarrow> bool" where
  "ends_with_extension name \<longleftrightarrow>
     length name > length FILE_DISK_EXTENSION \<and>
     drop (length name - length FILE_DISK_EXTENSION) name = FILE_DISK_EXTENSION"

text \<open>
  \<^verbatim>\<open>main\<close> up to \<^verbatim>\<open>fuse_main\<close>: the exit status when \<^verbatim>\<open>getcwd\<close> fails, or the path of the persistence file
  (cut to the 511 characters the buffer holds) and the arguments FUSE receives.
\<close>

definition fisopfs_main :: "string option \<Rightarrow> string list \<Rightarrow> int + string \<times> string list" where
  "fisopfs_main cwd argv =
     (case cwd of
        None \<Rightarrow> Inl 1
      | Some dir \<Rightarrow>
          let (name, argv) = pop_filedisk argv 1;
              name = (if name = [] then DEFAULT_FILE_DISK else name)
          in Inr (take (2 * MAX_PATH_LEN - 1)
                   (if ends_with_extension name then dir @ ''/'' @ name
                    else dir @ ''/'' @ name @ FILE_DISK_EXTENSION), argv))"

end
