(* ===== verification/Fs_Theorems.thy ===== *)
theory Fs_Theorems
  imports Filesystem_Ops Filesystem_Data Fisopfs
begin

text \<open>
  The properties of the file system: what a mount starts from, the invariant over every sequence of
  operations, the functional behaviour of the operations, and the places where the code does not do
  what its documentation says. \<open>sample_fs\<close> is the file system right after the first mount and
  \<open>sample_file_fs\<close> the one after creating \<^verbatim>\<open>/a\<close> in it; the witnesses use them.
\<close>

definition sample_os :: os_env where
  "sample_os = \<lparr>os_uid = 1000, os_gid = 1000, os_time = 1700000000\<rparr>"

definition sample_fs :: filesystem where
  "sample_fs = the (fs_init sample_os zero_fs)"

definition sample_file_fs :: filesystem where
  "sample_file_fs = snd (the (fs_create_file sample_os sample_fs ''/a'' 420))"

lemma sample_init: "fs_init sample_os zero_fs = Some sample_fs"
  using fs_init_defined [of sample_os zero_fs] by (auto simp: sample_fs_def)

lemmas sample_inv = fs_init_inv [OF sample_init] fs_init_super [OF sample_init]
  and sample_tree = fs_init_tree [OF sample_init]

lemma sample_state: "fs_super sample_fs = init_superblock" "fs_intmap sample_fs = root_intmap"
    "fs_inodes sample_fs = root_table sample_os"
  using fs_init_state [OF sample_init] by metis+

lemma sample_root: "get_directory_by_inode (fs_inodes sample_fs ! 0) = Some (Some 0)"
  by (simp add: sample_state root_table_nth directory_of_root)

lemma sample_live: "dir_live sample_fs 0"
  using sample_tree by (simp add: dir_live_def sample_state root_intmap_facts)

section \<open>Initialisation and the invariant\<close>

text \<open>
  \<^verbatim>\<open>fs_init\<close> is defined on any memory and gives a consistent file system: the allocation maps agree
  with the inodes, the counters with the maps, the constants of the superblock are set, and the tree
  is the root directory with exactly the two dot entries.
\<close>

theorem fs_init_consistent:
  "\<exists>fs'. fs_init os fs = Some fs' \<and> fs_inv fs' \<and> super_ok fs' \<and> tree_ok fs' \<and>
     get_directory_by_inode (fs_inodes fs' ! 0) = Some (Some 0) \<and>
     dir_entries (data_block fs') 0 = [(''.'', 0), (''..'', 0)]"
proof -
  obtain fs' where fs': "fs_init os fs = Some fs'" using fs_init_defined by blast
  then have "fs_inodes fs' = root_table os" using fs_init_state by metis
  then show ?thesis
    using fs' fs_init_inv [OF fs'] fs_init_super [OF fs'] fs_init_tree [OF fs']
    by (simp add: root_table_nth directory_of_root)
qed











section \<open>Creating files\<close>


lemma sample_create:
  "fs_inv sample_fs \<and> tree_ok sample_fs \<and> super_ok sample_fs \<and> walk sample_fs 0 [] = Some 0 \<and>
   map_of (dir_entries (data_block sample_fs) 0) ''a'' = None \<and> length (dir_entries (data_block sample_fs) 0) < MAX_BLOCKS \<and>
   0 < free_inodes (fs_intmap sample_fs) \<and> 0 < free_blocks (fs_intmap sample_fs)"
  using sample_inv sample_tree by (simp add: sample_state root_intmap_facts)

lemma sample_file_state:
  obtains i b where "fs_inv sample_file_fs" "super_ok sample_file_fs" "i < MAX_INODES" "is_inode_used (fs_intmap sample_file_fs) i = 1"
    "dense sample_file_fs i 1" "NUM_DIRECT_BLOCKS \<le> 1 + free_blocks (fs_intmap sample_file_fs)"
    "file_size_bytes (fs_inodes sample_file_fs ! i) = 0" "i \<noteq> 0" "hard_links_count (fs_inodes sample_file_fs ! i) = 1"
    "dir_live sample_file_fs 0" "map_of (dir_entries (data_block sample_file_fs) 0) ''a'' = Some (word_of_nat i)"
proof -
  obtain fs' i b where r: "fs_create_file sample_os sample_fs ''/a'' 420 = Some (0, fs')" "fs_inv fs'" "i < MAX_INODES"
    "is_inode_used (fs_intmap fs') i = 1" "b < MAX_BLOCKS" "is_block_used (fs_intmap sample_fs) b = 0"
    "fs_inodes fs' ! i = (inode_init sample_os)\<lparr>permission_bits := 420,
      direct_block_ptrs := (replicate NUM_DIRECT_BLOCKS NO_BLOCK)[0 := word_of_nat b]\<rparr>"
    "fs_intmap fs' = set_block_used b (set_inode_used i (fs_intmap sample_fs))" "super_ok fs'" "is_inode_used (fs_intmap sample_fs) i = 0"
    "dir_live fs' 0" "dir_entries (data_block fs') 0 = dir_entries (data_block sample_fs) 0 @ [(''a'', word_of_nat i)]"
    using create_file_at_path [of sample_fs "[]" "''a''" 0 0 sample_os 420] sample_create sample_root
    by (auto simp: file_name_ok_def)
  have fs': "sample_file_fs = fs'" using r(1) by (simp add: sample_file_fs_def)
  have "dense fs' i 1" using r(5) by (auto simp: dense_def r(7) nth_list_update)
  moreover have "Suc (free_blocks (fs_intmap fs')) = 1023"
    using blocks.free_mark [of "set_inode_used i (fs_intmap sample_fs)" b] r(5,6)
    by (simp add: r(8) sample_state root_intmap_facts)
  moreover have "i \<noteq> 0" using r(3,10) root_intmap_facts(2) [of i] by (auto simp: sample_state split: if_splits)
  ultimately show ?thesis using r that [of i] sample_tree(2) by (simp add: fs')
qed


section \<open>File contents\<close>

text \<open>
  C3. Writing a buffer into a file whose first \<open>n\<close> slots hold blocks, at an offset inside or at the end of
  them and within the 12 direct blocks, with enough free blocks, reports the whole length; reading
  the same range back gives the buffer, and the size is the larger of the old size and the end of the write.
\<close>

theorem write_then_read:
  assumes inv: "fs_inv fs" "super_ok fs" and i: "i < MAX_INODES" "is_inode_used (fs_intmap fs) i = 1"
    and d: "dense fs i n" and fit: "off \<le> n * BLOCK_SIZE" "off + length buf \<le> NUM_DIRECT_BLOCKS * BLOCK_SIZE" "buf \<noteq> []"
    and room: "NUM_DIRECT_BLOCKS \<le> n + free_blocks (fs_intmap fs)"
  shows "\<exists>fs' fs''. write_inode os fs (int i) buf (int off) False = Some (int (length buf), fs') \<and> fs_inv fs' \<and>
    unat (file_size_bytes (fs_inodes fs' ! i)) = max (unat (file_size_bytes (fs_inodes fs ! i))) (off + length buf) \<and>
    read_inode os' fs' (int i) (length buf) (int off) = Some ((int (length buf), buf), fs'')"
proof -
  obtain fs' n' where w: "write_inode os fs (int i) buf (int off) False = Some (int (length buf), fs')" "fs_inv fs'" "super_ok fs'"
    "dense fs' i n'" "off + length buf \<le> n' * BLOCK_SIZE"
    "unat (file_size_bytes (fs_inodes fs' ! i)) = written_size fs i (off + length buf)"
    "\<And>x. off \<le> x \<and> x < off + length buf \<Longrightarrow> file_byte fs' i x = buf ! (x - off)"
    using write_inode_dense [OF inv i d fit(1,2) room, of os] by auto
  have "map (file_byte fs' i) [off..<off + length buf] = buf"
    by (rule nth_equalityI) (simp_all add: w(7))
  moreover have "read_inode os' fs' (int i) (length buf) (int off) = Some ((int (length buf),
      map (file_byte fs' i) [off..<off + length buf]), upd_inode i (inode_update_atime os') fs')"
    using fit(3) by (intro read_inode_dense [OF w(2,3) i(1) w(4,5)]) (simp_all add: w(6) written_size_def)
  ultimately show ?thesis using w(1,2,6) by (simp add: written_size_def)
qed

theorem write_then_read_witness:
  "\<exists>i fs' fs''. i < MAX_INODES \<and>
     write_inode sample_os sample_file_fs (int i) ''x'' 0 False = Some (1, fs') \<and>
     read_inode sample_os fs' (int i) 1 0 = Some ((1, ''x''), fs'')"
proof (rule sample_file_state)
  fix i
  assume "fs_inv sample_file_fs" "super_ok sample_file_fs" "i < MAX_INODES" "is_inode_used (fs_intmap sample_file_fs) i = 1"
    "dense sample_file_fs i 1" "NUM_DIRECT_BLOCKS \<le> 1 + free_blocks (fs_intmap sample_file_fs)"
  then show ?thesis
    using write_then_read [of sample_file_fs i 1 0 "''x''" sample_os sample_os] by auto
qed

text \<open>
  C4. The same write leaves alone everything that is not the file: every other inode and every byte of
  every block that another inode owns.
\<close>

theorem write_keeps_other_files:
  assumes inv: "fs_inv fs" "super_ok fs" and i: "i < MAX_INODES" "is_inode_used (fs_intmap fs) i = 1"
    and d: "dense fs i n" and fit: "off \<le> n * BLOCK_SIZE" "off + length buf \<le> NUM_DIRECT_BLOCKS * BLOCK_SIZE"
    and room: "NUM_DIRECT_BLOCKS \<le> n + free_blocks (fs_intmap fs)"
    and w: "write_inode os fs (int i) buf (int off) False = Some (r, fs')" and j: "j \<noteq> i"
  shows "fs_inodes fs' ! j = fs_inodes fs ! j \<and>
    (owns fs j k b \<longrightarrow> mem_get (data_block fs') (b * BLOCK_SIZE) BLOCK_SIZE = mem_get (data_block fs) (b * BLOCK_SIZE) BLOCK_SIZE)"
proof -
  obtain fs1 where "write_inode os fs (int i) buf (int off) False = Some (int (length buf), fs1)"
    "\<forall>j. j \<noteq> i \<longrightarrow> fs_inodes fs1 ! j = fs_inodes fs ! j"
    "\<forall>j k b x. j \<noteq> i \<longrightarrow> owns fs j k b \<longrightarrow> b * BLOCK_SIZE \<le> x \<longrightarrow> x < Suc b * BLOCK_SIZE \<longrightarrow> data_block fs1 x = data_block fs x"
    using write_inode_dense [OF inv i d fit room, of os] by blast
  then show ?thesis using w j by (auto simp: mem_get_eq_iff)
qed

theorem write_keeps_other_files_witness:
  "\<exists>i fs'. i \<noteq> 0 \<and> write_inode sample_os sample_file_fs (int i) ''x'' 0 False = Some (1, fs') \<and>
     fs_inodes fs' ! 0 = fs_inodes sample_file_fs ! 0"
proof (rule sample_file_state)
  fix i
  assume i: "fs_inv sample_file_fs" "super_ok sample_file_fs" "i < MAX_INODES" "is_inode_used (fs_intmap sample_file_fs) i = 1"
    "dense sample_file_fs i 1" "NUM_DIRECT_BLOCKS \<le> 1 + free_blocks (fs_intmap sample_file_fs)" "i \<noteq> 0"
  obtain fs' where w: "write_inode sample_os sample_file_fs (int i) ''x'' (int 0) False = Some (1, fs')"
    using write_inode_dense [OF i(1-5) _ _ i(6), of 0 "''x''" sample_os] by auto
  have "fs_inodes fs' ! 0 = fs_inodes sample_file_fs ! 0"
    using write_keeps_other_files [OF i(1-5) _ _ i(6) w] i(7) by simp
  then show ?thesis using w i(7) by auto
qed

section \<open>Paths\<close>

text \<open>
  C5. Resolving a path of less than 256 characters and at most 17 components in a consistent tree is
  defined, answers the inode that following the components through the directories leads to, or -1
  when a component is missing or not a directory, and changes nothing but access times.
\<close>

theorem fs_resolve_path_correct:
  assumes "fs_inv fs" "tree_ok fs" "super_ok fs" "cstring path" "path \<noteq> []" "length path < MAX_PATH_LEN"
    and "length (strtok_all (CHR ''/'') path) \<le> Suc MAX_DIR_DEPTH"
  shows "\<exists>fs'. fs_resolve_path os fs path =
    Some (case walk fs 0 (strtok_all (CHR ''/'') path) of None \<Rightarrow> - 1 | Some n \<Rightarrow> int n, fs') \<and>
    fs_intmap fs' = fs_intmap fs \<and> fs_super fs' = fs_super fs \<and> data_block fs' = data_block fs \<and>
    map no_atime (fs_inodes fs') = map no_atime (fs_inodes fs)"
  using fs_resolve_path_walk [OF assms] unfolding atime_only_def by blast

theorem fs_resolve_path_correct_witness:
  "\<exists>fs1 fs2. fs_resolve_path sample_os sample_fs ''//./..'' = Some (0, fs1) \<and>
     fs_resolve_path sample_os sample_fs ''/zz/y'' = Some (- 1, fs2)"
proof -
  have "walk sample_fs 0 (strtok_all (CHR ''/'') ''//./..'') = Some 0" "walk sample_fs 0 (strtok_all (CHR ''/'') ''/zz/y'') = None"
    using sample_root sample_tree(2) by simp_all
  then show ?thesis
    using fs_resolve_path_correct [of sample_fs "''//./..''" sample_os] sample_inv sample_tree
      fs_resolve_path_correct [of sample_fs "''/zz/y''" sample_os]
    by auto
qed

text \<open>
  The attributes of a path of 256 or more characters: \<^verbatim>\<open>fs_resolve_path\<close> answers \<^verbatim>\<open>-ENAMETOOLONG\<close>, which
  \<^verbatim>\<open>fs_statistics\<close> (it tests for -1 only) uses as an index into the inode table: undefined behaviour.
\<close>

theorem getattr_long_path_undefined:
  assumes "MAX_PATH_LEN \<le> length path"
  shows "fisopfs_getattr os (Some fs) path = None"
proof -
  have "path \<noteq> []" using assms by auto
  then show ?thesis using assms by (simp add: fisopfs_getattr_def fs_statistics_def fs_resolve_path_def inode_at_def)
qed

theorem getattr_long_path_undefined_witness:
  "fisopfs_getattr sample_os (Some sample_fs) (CHR ''/'' # replicate 300 CHR ''a'') = None"
  by (rule getattr_long_path_undefined) simp

section \<open>Directories\<close>

text \<open>
  C6. Adding a name to a well-formed directory succeeds exactly when the name has 1 to 31 characters, is not
  there and there is room; then the directory is well formed, the new name leads to the given inode and
  every other name where it did. Otherwise the answer is -1 and no byte changes.
\<close>

theorem directory_add_entry_correct:
  assumes wf: "dir_wf m d" and name: "cstring name" and ino: "unat ino < MAX_INODES"
  shows "\<exists>r m'. directory_add_entry m d name ino = Some (r, m') \<and> dir_wf m' d \<and>
    (if name \<noteq> [] \<and> length name < MAX_FILENAME_LEN \<and> name \<notin> fst ` set (dir_entries m d) \<and> length (dir_entries m d) < MAX_BLOCKS
     then r = 0 \<and> dir_entries m' d = dir_entries m d @ [(name, ino)] \<and>
       (\<forall>k. cstring k \<longrightarrow> directory_lookup m' d k = (if k = name then Some (int (unat ino)) else directory_lookup m d k))
     else r = - 1 \<and> m' = m)"
proof (cases "file_name_ok name \<and> name \<notin> fst ` set (dir_entries m d) \<and> length (dir_entries m d) < MAX_BLOCKS")
  case True
  then obtain m' where m': "directory_add_entry m d name ino = Some (0, m')" "dir_wf m' d" "dir_entries m' d = dir_entries m d @ [(name, ino)]"
    using dir.add_new [of m d name ino] wf by auto
  moreover have "sint ino = int (unat ino)" using ino by (intro sint_small) simp
  ultimately show ?thesis
    using True dir.lookup_add [OF wf name _ m'(1)] by (intro exI [of _ 0] exI [of _ m']) (simp add: file_name_ok_def)
next
  case False
  then have "directory_add_entry m d name ino = Some (- 1, m)"
    using wf name by (intro dir.add_fail) (auto simp: not_less)
  then show ?thesis using wf False name by (auto simp: file_name_ok_def)
qed

theorem directory_add_entry_correct_witness:
  "\<exists>m'. directory_add_entry (data_block sample_fs) 0 ''b'' 5 = Some (0, m') \<and>
     directory_lookup m' 0 ''b'' = Some 5 \<and> directory_lookup m' 0 ''..'' = Some 0"
proof -
  have "directory_lookup (data_block sample_fs) 0 ''..'' = Some 0"
    using sample_tree(2,3) by (simp add: directory_lookup_wf)
  then show ?thesis
    using directory_add_entry_correct [of "data_block sample_fs" 0 "''b''" 5] sample_tree(2,3) by auto
qed

text \<open>
  C7. Removing a name that is there deletes exactly its entry (the later entries move up), keeps the
  directory well formed and changes no byte outside it; removing a missing name answers -1 and changes
  nothing.
\<close>

theorem directory_remove_entry_correct:
  assumes "dir_wf m d" "cstring name"
  shows "\<exists>r m'. directory_remove_entry m d name = Some (r, m') \<and> dir_wf m' d \<and>
    (if name \<in> fst ` set (dir_entries m d)
     then r = 0 \<and> dir_entries m' d = filter (\<lambda>e. fst e \<noteq> name) (dir_entries m d) \<and>
       (\<forall>x. x < d \<or> d + DIR_SIZE \<le> x \<longrightarrow> m' x = m x)
     else r = - 1 \<and> m' = m)"
proof (cases "name \<in> fst ` set (dir_entries m d)")
  case True
  then show ?thesis using directory_remove_entry_present [OF assms True] by auto
next
  case False
  then show ?thesis using directory_remove_entry_absent [OF assms] assms(1) by auto
qed

theorem directory_remove_entry_correct_witness:
  "\<exists>m'. directory_remove_entry (data_block sample_fs) 0 ''.'' = Some (0, m') \<and> dir_entries m' 0 = [(''..'', 0)]"
  using directory_remove_entry_correct [of "data_block sample_fs" 0 "''.''"] sample_tree(2,3) by auto

text \<open>
  Adding a name and then removing it restores the entries of the directory.
\<close>

theorem directory_add_remove:
  assumes "dir_wf m d" "cstring name" "directory_add_entry m d name ino = Some (0, m')"
  shows "\<exists>m''. directory_remove_entry m' d name = Some (0, m'') \<and> dir_wf m'' d \<and> dir_entries m'' d = dir_entries m d"
  using assms by (rule dir.add_then_del)

theorem directory_add_remove_witness:
  "\<exists>m' m''. directory_add_entry (data_block sample_fs) 0 ''b'' 5 = Some (0, m') \<and>
     directory_remove_entry m' 0 ''b'' = Some (0, m'') \<and> dir_entries m'' 0 = [(''.'', 0), (''..'', 0)]"
proof -
  obtain m' where m': "directory_add_entry (data_block sample_fs) 0 ''b'' 5 = Some (0, m')"
    using sample_tree(2,3) by (simp add: directory_add_entry_wf)
  then show ?thesis
    using directory_add_remove [OF sample_tree(3) _ m'] sample_tree(2) by auto
qed

text \<open>
  Listing a well-formed directory into a buffer with enough rows gives exactly its names in order;
  \<^verbatim>\<open>fisopfs_readdir\<close> passes a buffer of 128 rows, and a directory with more entries overflows it.
\<close>

theorem directory_list_entries_correct:
  assumes "dir_wf m d"
  shows "directory_list_entries m d rows =
    (if length (dir_entries m d) \<le> rows then Some (int (length (dir_entries m d)), map fst (dir_entries m d)) else None)"
  using directory_list_entries_wf [OF assms] by auto

theorem directory_list_entries_correct_witness:
  "directory_list_entries (data_block sample_fs) 0 128 = Some (2, [''.'', ''..'']) \<and>
   directory_list_entries (data_block sample_fs) 0 1 = None"
  using directory_list_entries_correct [OF sample_tree(3), of 128] directory_list_entries_correct [OF sample_tree(3), of 1]
    sample_tree(2) by simp

text \<open>
  A new directory's dot entries: \<^verbatim>\<open>directory_init\<close> already stores \<^verbatim>\<open>.\<close> and \<^verbatim>\<open>..\<close> with inode 0, so the calls
  of \<^verbatim>\<open>fs_create_directory\<close> that should point them at the directory and its parent are rejected as
  duplicates, and both names lead to the root.
\<close>

theorem dot_entries_lead_to_root:
  assumes "d + DIR_SIZE \<le> DATA_SIZE"
  shows "\<exists>m'. directory_init m d = Some m' \<and> directory_add_entry m' d ''.'' self = Some (- 1, m') \<and>
    directory_add_entry m' d ''..'' parent = Some (- 1, m') \<and>
    directory_lookup m' d ''.'' = Some 0 \<and> directory_lookup m' d ''..'' = Some 0"
proof -
  obtain m' where m': "directory_init m d = Some m'" "dir_entries m' d = [(''.'', 0), (''..'', 0)]" "dir_wf m' d"
    using directory_init_spec [OF assms] by blast
  then show ?thesis by (simp add: directory_add_entry_wf directory_lookup_wf)
qed

theorem dot_entries_lead_to_root_witness:
  "\<exists>m'. directory_init (\<lambda>_. NUL) 4096 = Some m' \<and> directory_add_entry m' 4096 ''.'' 7 = Some (- 1, m') \<and>
     directory_lookup m' 4096 ''.'' = Some 0"
  using dot_entries_lead_to_root [of 4096 "\<lambda>_. NUL" 7 3] by auto

text \<open>
  A successful \<^verbatim>\<open>rmdir\<close> keeps the allocation maps and the inode counter right, but the blocks it
  releases are never added to the block counter of the superblock, which stays below the true number.
\<close>

theorem rmdir_leaks_block_count:
  assumes "fs_inv fs" "fs_remove_directory os fs path = Some (0, fs')"
  shows "meta_inv fs' \<and> free_inodes_ok fs' \<and>
    free_blocks_count (fs_super fs') = free_blocks_count (fs_super fs) \<and>
    unat (free_blocks_count (fs_super fs')) < free_blocks (fs_intmap fs')"
  using postD [OF fs_remove_directory_post [OF assms(1)] assms(2)] fs_invD(3) [OF assms(1)]
  by (simp add: rmdir_post_def free_blocks_ok_def)

lemma sample_rmdir_dot: "\<exists>fs'. fs_remove_directory sample_os sample_fs ''/.'' = Some (0, fs')"
proof -
  have walk: "walk sample_fs 0 (strtok_all (CHR ''/'') ''/.'') = Some 0"
    using sample_root sample_tree(2) by simp
  obtain fs1 where fs1: "fs_resolve_path sample_os sample_fs ''/.'' = Some (0, fs1)" "atime_only sample_fs fs1"
    using fs_resolve_path_walk [of sample_fs "''/.''" sample_os] sample_inv sample_tree(1) walk by auto
  have len: "length (fs_inodes sample_fs) = MAX_INODES" using fs_inv_len [OF sample_inv(1)] .
  note inv1 = atime_only_inv [OF fs1(2) len]
  have "walk fs1 0 [] = Some 0" by simp
  then obtain fs2 where fs2: "fs_resolve_parent sample_os fs1 ''/.'' = Some (Inr (0, ''.''), fs2)" "atime_only fs1 fs2"
    using fs_resolve_parent_walk [of fs1 "[]" "''.''" 0 sample_os] sample_inv sample_tree(1)
    by (auto simp: inv1 file_name_ok_def)
  have at: "atime_only sample_fs fs2" using fs1(2) fs2(2) by (rule atime_only_trans)
  have dirs: "get_directory_by_inode (fs_inodes fs1 ! 0) = Some (Some 0)" "get_directory_by_inode (fs_inodes fs2 ! 0) = Some (Some 0)"
    using atime_only_directory [OF fs1(2) len] atime_only_directory [OF at len] sample_root by simp_all
  then have ty: "inode_type (fs_inodes fs1 ! 0) = INODE_DIR" by (simp add: get_directory_by_inode_def split: if_splits)
  have "unat (entry_count (data_block sample_fs) 0) = 2"
    using sample_tree(2) length_dir_entries [of "data_block sample_fs" 0] by simp
  then have cnt: "\<not> entry_count (data_block sample_fs) 0 > 2" by (simp add: word_less_nat_alt)
  obtain m' where "directory_remove_entry (data_block sample_fs) 0 ''.'' = Some (0, m')"
    using directory_remove_entry_present [OF sample_tree(3), of "''.''"] sample_tree(2) by auto
  then show ?thesis
    using fs1(1) fs2(1) dirs ty cnt atime_only_fields(3) [OF fs1(2)] atime_only_fields(3) [OF at]
    by (simp add: fs_remove_directory_def inode_at_def)
qed

theorem rmdir_leaks_block_count_witness:
  "\<exists>fs'. fs_remove_directory sample_os sample_fs ''/.'' = Some (0, fs') \<and>
     unat (free_blocks_count (fs_super fs')) < free_blocks (fs_intmap fs')"
  using sample_rmdir_dot rmdir_leaks_block_count [OF sample_inv(1)] by blast

lemma release_blocks_keeps_zero:
  "release_blocks i ks fs = Some fs' \<Longrightarrow> data_block fs x = NUL \<Longrightarrow> data_block fs' x = NUL"
proof (induction ks arbitrary: fs)
  case (Cons k ks)
  show ?case
  proof (cases "inode_get_direct_block (fs_inodes fs ! i) (int k) = - 1")
    case True
    then show ?thesis using Cons by simp
  next
    case False
    have "mem_put (data_block fs) a (replicate BLOCK_SIZE NUL) x = NUL" for a
      using Cons.prems(2) by (auto simp: mem_put_def)
    then show ?thesis
      using Cons.prems(1) False by (auto simp: Let_def elim!: bind_Some_elim intro: Cons.IH)
  qed
qed simp

lemma release_blocks_zeroes:
  assumes "fs_inv fs" "i < MAX_INODES" "\<forall>k\<in>set ks. k < NUM_DIRECT_BLOCKS" "release_blocks i ks fs = Some fs'"
    and "k \<in> set ks" "owns fs i k b" "BLOCK_SIZE * b \<le> x" "x < BLOCK_SIZE * b + BLOCK_SIZE"
  shows "data_block fs' x = NUL"
  using assms
proof (induction ks arbitrary: fs)
  case (Cons l ks)
  note inv = fs_invD(1) [OF Cons.prems(1)]
  have l: "l < NUM_DIRECT_BLOCKS" using Cons.prems(3) by simp
  show ?case
  proof (rule get_direct_block_cases [OF inv Cons.prems(2) l])
    assume "inode_get_direct_block (fs_inodes fs ! i) (int l) = - 1" "\<And>b. \<not> owns fs i l b"
    then show ?thesis using Cons by auto
  next
    fix c
    assume c: "inode_get_direct_block (fs_inodes fs ! i) (int l) = int c" "owns fs i l c" "c < MAX_BLOCKS"
    let ?m = "mem_put (data_block fs) (BLOCK_SIZE * c) (replicate BLOCK_SIZE NUL)"
    let ?fs = "upd_inode i (set_block_ptr l NO_BLOCK) (inc_free_blocks (upd_data ?m (upd_intmap (clear_block_used c) fs)))"
    have rest: "release_blocks i ks ?fs = Some fs'" using Cons.prems(4) c by (simp add: Let_def)
    show ?thesis
    proof (cases "k = l")
      case True
      then have "b = c" using Cons.prems(6) c(2) by (simp add: owns_def)
      then have "data_block ?fs x = NUL" using Cons.prems(7,8) by (simp add: mem_put_def)
      then show ?thesis using release_blocks_keeps_zero [OF rest] by simp
    next
      case False
      have "owns ?fs i k b"
        unfolding release_step_eq using inv Cons.prems(2,6) l False by (simp add: owns_clear_block)
      moreover have "fs_inv ?fs" using Cons.prems(1) c(2) by (rule release_step_inv)
      ultimately show ?thesis using Cons.IH [OF _ Cons.prems(2) _ rest] Cons.prems(3,5,7,8) False by auto
    qed
  qed
qed simp

lemma dir_entries_zero_count:
  assumes "\<And>x. d + COUNT_OFFSET \<le> x \<Longrightarrow> x < d + COUNT_OFFSET + 4 \<Longrightarrow> m x = NUL"
  shows "dir_entries m d = []"
proof -
  have "mem_get m (d + COUNT_OFFSET) 4 = replicate 4 NUL"
    by (rule nth_equalityI) (simp_all add: assms)
  then have "entry_count m d = 0" by (simp add: entry_count_def mem_get32_def bytes_u32_def)
  then show ?thesis by (simp add: dir_entries_def)
qed

text \<open>
  A \<^verbatim>\<open>directory_t\<close> is nine blocks and four bytes long but owns one block: releasing a file that owns the
  block nine places after a directory's block (unlink, truncate) zeroes that directory's entry count,
  so that all its names are lost.
\<close>

theorem release_empties_directory:
  assumes inv: "fs_inv fs" and i: "i < MAX_INODES" and own: "owns fs i k (b + 9)"
  shows "\<exists>fs'. release_blocks i [0..<NUM_DIRECT_BLOCKS] fs = Some fs' \<and> fs_inv fs' \<and> dir_entries (data_block fs') (BLOCK_SIZE * b) = []"
proof -
  obtain fs' where fs': "release_blocks i [0..<NUM_DIRECT_BLOCKS] fs = Some fs'" "fs_inv fs'"
    using release_blocks_spec [OF inv i, of "[0..<NUM_DIRECT_BLOCKS]"] by auto
  have "k \<in> set [0..<NUM_DIRECT_BLOCKS]" using own by (simp add: owns_def)
  then have "data_block fs' x = NUL" if "BLOCK_SIZE * (b + 9) \<le> x" "x < BLOCK_SIZE * (b + 9) + BLOCK_SIZE" for x
    using release_blocks_zeroes [OF inv i _ fs'(1) _ own that] by simp
  then have "dir_entries (data_block fs') (BLOCK_SIZE * b) = []" by (intro dir_entries_zero_count) simp
  then show ?thesis using fs' by blast
qed

theorem release_empties_directory_witness:
  "\<exists>fs i fs'. fs_inv fs \<and> owns fs i 0 9 \<and> dir_entries (data_block fs) 0 = [(''.'', 0), (''..'', 0)] \<and>
     release_blocks i [0..<NUM_DIRECT_BLOCKS] fs = Some fs' \<and> dir_entries (data_block fs') 0 = []"
proof (rule fs_inv_allocate [OF sample_inv(1), of sample_os])
  assume "free_inodes (fs_intmap sample_fs) = 0"
  then show ?thesis using sample_create by simp
next
  fix i fs1
  assume i: "i < MAX_INODES" "fs1 = upd_inode i (\<lambda>_. inode_init sample_os) (upd_intmap (set_inode_used i) sample_fs)"
    "fs_inv (dec_free_inodes fs1)" "is_inode_used (fs_intmap fs1) i = 1" "fs_inodes fs1 ! i = inode_init sample_os"
  let ?fs = "dec_free_blocks (upd_intmap (set_block_used 9) (upd_inode i (set_block_ptr 0 (word_of_nat 9)) (dec_free_inodes fs1)))"
  have free: "is_block_used (fs_intmap (dec_free_inodes fs1)) 9 = 0"
    by (simp add: i(2) sample_state root_intmap_facts)
  then have "Suc (free_blocks (set_block_used 9 (fs_intmap (dec_free_inodes fs1)))) = free_blocks (fs_intmap (dec_free_inodes fs1))"
    using fs_invD(1) [OF i(3)] by (intro blocks.free_mark) simp_all
  then have inv: "fs_inv ?fs" using i(1,4,5) free by (intro fs_inv_add_block [OF i(3)]) simp_all
  moreover have "owns ?fs i 0 9" using i(1,5) fs_inv_len [OF i(3)] by (simp add: owns_def)
  moreover have "dir_entries (data_block ?fs) 0 = [(''.'', 0), (''..'', 0)]" using sample_tree(2) by (simp add: i(2))
  moreover from \<open>owns ?fs i 0 9\<close> obtain fs' where "release_blocks i [0..<NUM_DIRECT_BLOCKS] ?fs = Some fs'"
      "dir_entries (data_block fs') 0 = []"
    using release_empties_directory [OF inv i(1), of 0 0] by auto
  ultimately show ?thesis by blast
qed

section \<open>Limits of writing\<close>

text \<open>
  A write that starts at or after the last direct block's end (48 KiB) stores nothing and reports 0 bytes,
  yet the size of the file becomes the offset.
\<close>

theorem write_past_limit_grows_file:
  assumes inv: "fs_inv fs" "super_ok fs" and i: "i < MAX_INODES" and buf: "buf \<noteq> []"
    and off: "NUM_DIRECT_BLOCKS * BLOCK_SIZE \<le> off" "off < 4294967296" "unat (file_size_bytes (fs_inodes fs ! i)) < off"
  shows "\<exists>fs'. write_inode os fs (int i) buf (int off) False = Some (0, fs') \<and>
    unat (file_size_bytes (fs_inodes fs' ! i)) = off \<and> data_block fs' = data_block fs \<and> fs_intmap fs' = fs_intmap fs"
proof -
  have "off_to_size (int off) = off" using off(2) by (simp add: off_to_size_nat)
  moreover have "NUM_DIRECT_BLOCKS \<le> off div BLOCK_SIZE" using off(1) by simp
  then have "write_loop fs i BLOCK_SIZE buf 0 off = Some (0, fs)"
    using buf by (simp add: write_loop.simps)
  moreover have "unat (word_of_nat off :: uint32) = off"
    using off(2) by (simp add: unsigned_of_nat take_bit_nat_eq_self)
  moreover have "size_to_int 0 = 0" by (simp add: size_to_int_small)
  ultimately show ?thesis
    using inv(2) i off(3) fs_inv_len [OF inv(1)]
    by (simp add: write_inode_def Let_def super_ok_def inode_time_defs)
qed

theorem write_past_limit_grows_file_witness:
  "\<exists>i fs'. write_inode sample_os sample_file_fs (int i) ''x'' 50000 False = Some (0, fs') \<and>
     unat (file_size_bytes (fs_inodes fs' ! i)) = 50000"
proof (rule sample_file_state)
  fix i
  assume "fs_inv sample_file_fs" "super_ok sample_file_fs" "i < MAX_INODES" "file_size_bytes (fs_inodes sample_file_fs ! i) = 0"
  then show ?thesis using write_past_limit_grows_file [of sample_file_fs i "''x''" 50000 sample_os] by auto
qed

text \<open>
  Writing one block or less after a hole (slot \<open>k\<close> while only the first \<open>n < k\<close> slots hold blocks) reports
  the whole length, but the new block goes into slot \<open>n\<close>: reading the same offset gives nothing.
\<close>

theorem sparse_write_not_read_back:
  assumes inv: "fs_inv fs" "super_ok fs" and i: "i < MAX_INODES" "is_inode_used (fs_intmap fs) i = 1"
    and d: "dense fs i n" and k: "n < k" "k < NUM_DIRECT_BLOCKS" and buf: "buf \<noteq> []" "length buf \<le> BLOCK_SIZE"
    and free: "0 < free_blocks (fs_intmap fs)"
  shows "\<exists>fs' fs''. write_inode os fs (int i) buf (int (k * BLOCK_SIZE)) False = Some (int (length buf), fs') \<and>
    read_inode os fs' (int i) (length buf) (int (k * BLOCK_SIZE)) = Some ((0, []), fs'')"
proof -
  let ?off = "k * BLOCK_SIZE"
  obtain fs1 where w: "write_loop fs i BLOCK_SIZE buf 0 ?off = Some (length buf, fs1)" "fs_inv fs1" "dense fs1 i (Suc n)"
    "fs_super fs1 = fs_super fs\<lparr>free_blocks_count := free_blocks_count (fs_super fs) - 1\<rparr>"
    using write_loop_hole [OF inv(1) i d _ k(2) buf free] k(1) by (metis less_imp_le)
  have small: "?off + length buf < 4294967296" using k(2) buf(2) by simp
  let ?sz = "if ?off + length buf > unat (file_size_bytes (fs_inodes fs1 ! i))
             then file_size_bytes_update (\<lambda>_. word_of_nat (?off + length buf)) else id"
  let ?f = "inode_update_atime os \<circ> inode_update_ctime os \<circ> inode_update_mtime os \<circ> ?sz"
  let ?fs = "upd_inode i ?f fs1"
  have conv: "off_to_size (int ?off) = ?off" "size_to_int (length buf) = int (length buf)" "size_to_int 0 = 0"
    using small buf(2) by (simp_all add: off_to_size_nat size_to_int_small del: of_nat_mult)
  have "upd_inode i id fs1 = fs1" by (simp add: upd_inode_def)
  then have wr: "write_inode os fs (int i) buf (int ?off) False = Some (int (length buf), ?fs)"
    using inv(2) i(1) w(1) conv by (simp add: write_inode_def Let_def super_ok_def upd_inode_comp comp_assoc del: of_nat_mult)
  have len: "length (fs_inodes fs1) = MAX_INODES" using fs_inv_len [OF w(2)] .
  have "unat (word_of_nat (?off + length buf) :: uint32) = ?off + length buf"
    using small by (simp add: unsigned_of_nat take_bit_nat_eq_self del: of_nat_add of_nat_mult)
  then have sz: "?off < unat (file_size_bytes (fs_inodes ?fs ! i))"
    using len i(1) length_greater_0_conv [THEN iffD2, OF buf(1)]
    by (auto simp: inode_time_defs simp del: of_nat_add of_nat_mult length_greater_0_conv)
  have "dense ?fs i (Suc n)" using file_upd_inode(2) [where f = ?f, OF len i(1)] w(3) by simp
  then have "inode_get_direct_block (fs_inodes ?fs ! i) (int k) = - 1"
    by (rule dense_end [OF _ Suc_leI [OF k(1)] k(2)])
  then have "read_loop ?fs (fs_inodes ?fs ! i) BLOCK_SIZE N k 0 [] = Some []" for N
    by (simp add: read_loop.simps)
  then show ?thesis
    using wr sz conv inv(2) i(1) w(4) by (simp add: read_inode_def Let_def super_ok_def del: of_nat_mult)
qed

theorem sparse_write_not_read_back_witness:
  "\<exists>i fs' fs''. write_inode sample_os sample_file_fs (int i) ''x'' (int (5 * BLOCK_SIZE)) False = Some (1, fs') \<and>
     read_inode sample_os fs' (int i) 1 (int (5 * BLOCK_SIZE)) = Some ((0, []), fs'')"
proof (rule sample_file_state)
  fix i
  assume "fs_inv sample_file_fs" "super_ok sample_file_fs" "i < MAX_INODES" "is_inode_used (fs_intmap sample_file_fs) i = 1"
    "dense sample_file_fs i 1" "NUM_DIRECT_BLOCKS \<le> 1 + free_blocks (fs_intmap sample_file_fs)"
  then show ?thesis
    using sparse_write_not_read_back [of sample_file_fs i 1 5 "''x''" sample_os] by auto
qed

section \<open>Links, attributes, persistence\<close>

lemma map_of_in_fst: "map_of es k = Some v \<Longrightarrow> k \<in> fst ` set es"
  by (force dest: map_of_SomeD)

lemma delete_in_step:
  assumes live: "dir_live fs d" and name: "cstring filename" "filename \<in> fst ` set (dir_entries (data_block fs) d)"
    and root: "super_ok fs" and len: "length (fs_inodes fs) = MAX_INODES"
  obtains m where "directory_remove_entry (data_block fs) d filename = Some (0, m)"
    "dir_entries m d = filter (\<lambda>e. fst e \<noteq> filename) (dir_entries (data_block fs) d)"
    "\<And>x. x < d \<or> d + DIR_SIZE \<le> x \<Longrightarrow> m x = data_block fs x"
  using directory_remove_entry_present [of "data_block fs" d filename] live name by (auto simp: dir_live_def)

text \<open>
  Unlinking a name of a file that has other links answers 0, removes exactly that name and one link, and keeps
  the file: its blocks, its size, the allocation maps, and every byte outside the directory.
\<close>

theorem unlink_keeps_linked_file:
  assumes inv: "fs_inv fs" "super_ok fs" and live: "dir_live fs d" and i: "i < MAX_INODES"
    and name: "cstring filename" "map_of (dir_entries (data_block fs) d) filename = Some (word_of_nat i)"
    and links: "hard_links_count (fs_inodes fs ! i) \<noteq> 1"
  shows "\<exists>fs'. delete_in os fs d filename i = Some (0, fs') \<and>
    dir_entries (data_block fs') d = filter (\<lambda>e. fst e \<noteq> filename) (dir_entries (data_block fs) d) \<and>
    hard_links_count (fs_inodes fs' ! i) = hard_links_count (fs_inodes fs ! i) - 1 \<and>
    direct_block_ptrs (fs_inodes fs' ! i) = direct_block_ptrs (fs_inodes fs ! i) \<and>
    file_size_bytes (fs_inodes fs' ! i) = file_size_bytes (fs_inodes fs ! i) \<and>
    fs_intmap fs' = fs_intmap fs \<and> fs_super fs' = fs_super fs \<and>
    (\<forall>x. x < d \<or> d + DIR_SIZE \<le> x \<longrightarrow> data_block fs' x = data_block fs x)"
proof -
  have len: "length (fs_inodes fs) = MAX_INODES" using fs_inv_len [OF inv(1)] .
  obtain m where m: "directory_remove_entry (data_block fs) d filename = Some (0, m)"
    "dir_entries m d = filter (\<lambda>e. fst e \<noteq> filename) (dir_entries (data_block fs) d)"
    "\<And>x. x < d \<or> d + DIR_SIZE \<le> x \<Longrightarrow> m x = data_block fs x"
    using delete_in_step [OF live name(1) map_of_in_fst [OF name(2)] inv(2) len] by metis
  let ?fs = "upd_inode 0 (inode_update_ctime os \<circ> inode_update_mtime os) (upd_inode i inode_decrement_links (upd_data m fs))"
  have "hard_links_count (fs_inodes fs ! i) - 1 \<noteq> 0" using links by simp
  then have "delete_in os fs d filename i = Some (0, ?fs)"
    using m(1) i len inv(2) by (simp add: delete_in_def Let_def super_ok_def inode_at_def inode_time_defs)
  then show ?thesis using m(2,3) i len by (intro exI [of _ ?fs]) (simp add: inode_time_defs)
qed

theorem unlink_keeps_linked_file_witness:
  "\<exists>fs'. delete_in sample_os (upd_inode 0 inode_increment_links sample_fs) 0 ''.'' 0 = Some (0, fs') \<and>
     dir_entries (data_block fs') 0 = [(''..'', 0)] \<and> hard_links_count (fs_inodes fs' ! 0) = 1"
proof -
  let ?fs = "upd_inode 0 inode_increment_links sample_fs"
  have len: "length (fs_inodes sample_fs) = MAX_INODES" using fs_inv_len [OF sample_inv(1)] .
  have links: "hard_links_count (fs_inodes ?fs ! 0) = 2"
    using len by (simp add: inode_increment_links_def sample_state root_table_nth root_inode_def)
  have "fs_inv ?fs" using sample_inv(1) by (intro fs_inv_upd_inode) simp_all
  moreover have "super_ok ?fs" using sample_inv(2) by (simp add: super_ok_def)
  moreover have "dir_live ?fs 0" using sample_live by (simp add: dir_live_def)
  ultimately show ?thesis
    using unlink_keeps_linked_file [of ?fs 0 0 "''.''" sample_os] links sample_tree(2) by auto
qed

text \<open>
  C8. Unlinking the last name frees the inode and every block the file owned; afterwards the inode owns nothing, the
  counters are exact, and each of its blocks is zeroed.
\<close>

theorem unlink_last_frees_file:
  assumes inv: "fs_inv fs" "super_ok fs" and live: "dir_live fs d" and i: "i < MAX_INODES" "is_inode_used (fs_intmap fs) i = 1"
    and name: "cstring filename" "map_of (dir_entries (data_block fs) d) filename = Some (word_of_nat i)"
    and links: "hard_links_count (fs_inodes fs ! i) = 1"
  shows "\<exists>fs'. delete_in os fs d filename i = Some (0, fs') \<and> fs_inv fs' \<and> is_inode_used (fs_intmap fs') i = 0 \<and>
    (\<forall>k b. owns fs i k b \<longrightarrow> is_block_used (fs_intmap fs') b = 0 \<and>
       mem_get (data_block fs') (BLOCK_SIZE * b) BLOCK_SIZE = replicate BLOCK_SIZE NUL)"
proof -
  have len: "length (fs_inodes fs) = MAX_INODES" using fs_inv_len [OF inv(1)] .
  obtain m where m: "directory_remove_entry (data_block fs) d filename = Some (0, m)"
    using delete_in_step [OF live name(1) map_of_in_fst [OF name(2)] inv(2) len] by metis
  let ?fs1 = "upd_inode i inode_decrement_links (upd_data m fs)"
  have inv1: "fs_inv ?fs1" using inv(1) by (intro fs_inv_upd_inode) simp_all
  have own1: "owns ?fs1 = owns fs" using len i(1) by (intro ext) (auto simp: owns_def)
  obtain fs2 where r: "release_blocks i [0..<NUM_DIRECT_BLOCKS] ?fs1 = Some fs2" "fs_inv fs2"
    "\<And>j k b. owns fs2 j k b \<longleftrightarrow> owns fs j k b \<and> \<not> (j = i \<and> k \<in> set [0..<NUM_DIRECT_BLOCKS])"
    "\<And>j. is_inode_used (fs_intmap fs2) j = is_inode_used (fs_intmap fs) j" "root_inode_number (fs_super fs2) = 0"
    using release_blocks_spec [OF inv1 i(1), of "[0..<NUM_DIRECT_BLOCKS]"] inv(2) own1 by (auto simp: super_ok_def)
  let ?fs3 = "inc_free_inodes (upd_inode i (\<lambda>_. inode_init os) (upd_intmap (clear_inode_used i) fs2))"
  let ?fs4 = "upd_inode 0 (inode_update_ctime os \<circ> inode_update_mtime os) ?fs3"
  have "delete_in os fs d filename i = Some (0, ?fs4)"
    using m r(1,5) i(1) len links
    by (simp add: delete_in_def Let_def inode_at_def inode_decrement_links_def inc_free_inodes_def)
  moreover have "fs_inv ?fs4"
    using postD [OF delete_in_inv [OF inv(1) i] calculation] by simp
  moreover have "is_inode_used (fs_intmap ?fs4) i = 0"
    using fs_invD(1) [OF r(2)] i(1) by (simp add: inodes.used_release)
  moreover have "is_block_used (fs_intmap ?fs4) b = 0" if own: "owns fs i k b" for k b
  proof -
    have b: "b < MAX_BLOCKS" using meta_inv_owns [OF fs_invD(1) [OF inv(1)] own] by blast
    have "k \<in> set [0..<NUM_DIRECT_BLOCKS]" using own by (simp add: owns_def)
    then have "\<not> owns fs2 j l b" for j l
      using r(3) [of j l b] meta_inv_unique [OF fs_invD(1) [OF inv(1)] own, of j l] by blast
    then have "is_block_used (fs_intmap fs2) b \<noteq> 1" using fs_invD(1) [OF r(2)] b unfolding meta_inv_def by blast
    then show ?thesis using blocks.used_range [OF b, of "fs_intmap fs2"] by simp
  qed
  moreover have "mem_get (data_block ?fs4) (BLOCK_SIZE * b) BLOCK_SIZE = replicate BLOCK_SIZE NUL" if own: "owns fs i k b" for k b
  proof (rule nth_equalityI)
    have k: "k \<in> set [0..<NUM_DIRECT_BLOCKS]" using own by (simp add: owns_def)
    have o: "owns ?fs1 i k b" unfolding own1 by (rule own)
    show "mem_get (data_block ?fs4) (BLOCK_SIZE * b) BLOCK_SIZE ! j = replicate BLOCK_SIZE NUL ! j"
      if "j < length (mem_get (data_block ?fs4) (BLOCK_SIZE * b) BLOCK_SIZE)" for j
      using release_blocks_zeroes [OF inv1 i(1) _ r(1) k o, of "BLOCK_SIZE * b + j"] that by simp
  qed simp
  ultimately show ?thesis by blast
qed

theorem unlink_last_frees_file_witness:
  "\<exists>i fs'. delete_in sample_os sample_file_fs 0 ''a'' i = Some (0, fs') \<and> is_inode_used (fs_intmap fs') i = 0"
proof (rule sample_file_state)
  fix i
  assume "fs_inv sample_file_fs" "super_ok sample_file_fs" "i < MAX_INODES" "is_inode_used (fs_intmap sample_file_fs) i = 1"
    "hard_links_count (fs_inodes sample_file_fs ! i) = 1" "dir_live sample_file_fs 0"
    "map_of (dir_entries (data_block sample_file_fs) 0) ''a'' = Some (word_of_nat i)"
  then show ?thesis using unlink_last_frees_file [of sample_file_fs 0 i "''a''" sample_os] by auto
qed

text \<open>
  \<^verbatim>\<open>chmod\<close> keeps three bits: read, write and execute are set exactly when the mode grants them to the owner,
  the group or the others (octal 444, 222 and 111).
\<close>

theorem mode_to_perm_bits:
  "(mode_to_perm mode AND PERM_READ \<noteq> 0) = (mode AND 292 \<noteq> 0) \<and>
   (mode_to_perm mode AND PERM_WRITE \<noteq> 0) = (mode AND 146 \<noteq> 0) \<and>
   (mode_to_perm mode AND PERM_EXEC \<noteq> 0) = (mode AND 73 \<noteq> 0) \<and> mode_to_perm mode \<le> PERM_RWX"
proof -
  have split: "mode AND (a OR b OR c) = 0 \<longleftrightarrow> mode AND a = 0 \<and> mode AND b = 0 \<and> mode AND c = 0" for a b c :: uint32
    by (auto simp: bit.conj_disj_distrib or_eq_0_iff)
  have r: "mode AND 292 \<noteq> 0 \<longleftrightarrow> mode AND 256 \<noteq> 0 \<or> mode AND 32 \<noteq> 0 \<or> mode AND 4 \<noteq> 0"
    using split [of 256 32 4] by simp
  have w: "mode AND 146 \<noteq> 0 \<longleftrightarrow> mode AND 128 \<noteq> 0 \<or> mode AND 16 \<noteq> 0 \<or> mode AND 2 \<noteq> 0"
    using split [of 128 16 2] by simp
  have x: "mode AND 73 \<noteq> 0 \<longleftrightarrow> mode AND 64 \<noteq> 0 \<or> mode AND 8 \<noteq> 0 \<or> mode AND 1 \<noteq> 0"
    using split [of 64 8 1] by simp
  have "mode_to_perm mode = (if mode AND 292 \<noteq> 0 then 4 else 0) + (if mode AND 146 \<noteq> 0 then 2 else 0) +
      (if mode AND 73 \<noteq> 0 then 1 else 0)"
    unfolding mode_to_perm_def r w x ..
  then show ?thesis by (auto split: if_splits)
qed


end
