(* ===== verification/Shell_Parse.thy ===== *)
theory Shell_Parse
  imports Prelude
begin

text \<open>
  The command-line parser of the shell (\<^verbatim>\<open>src/TP Shell/parsing.c\<close>, \<^verbatim>\<open>utils.c\<close>, \<^verbatim>\<open>createcmd.c\<close>, \<^verbatim>\<open>freecmd.c\<close>).

  The line is a buffer of bytes that the parser cuts in place by writing terminators into it; a pointer
  into it is an offset. Reading or writing outside the buffer, storing more than \<^verbatim>\<open>MAXARGS\<close> arguments, or
  following a null pointer is \<^term>\<open>None\<close>. Tokens are copied out of the buffer, so they are plain strings.
  The environment is a map and \<open>status\<close> the status of the last command; \<^verbatim>\<open>realloc\<close> is taken to succeed.
\<close>

abbreviation (input) SPACE :: char where "SPACE \<equiv> CHR '' ''"
abbreviation (input) BUFLEN :: nat where "BUFLEN \<equiv> 1024"
abbreviation (input) MAXARGS :: nat where "MAXARGS \<equiv> 20"

datatype cmd_type = EXEC | REDIR

record execcmd =
  etype :: cmd_type
  scmd :: string
  argv :: "string list"
  eargv :: "string list"
  out_file :: string
  in_file :: string
  err_file :: string

text \<open>\<open>Pipe None r\<close> is a pipe whose left command is the null pointer.\<close>

datatype cmd = Exec execcmd | Back string cmd | Pipe "cmd option" cmd

record shell_env =
  env :: "string \<Rightarrow> string option"
  status :: int

section \<open>Utilities\<close>

function scan_while :: "(char \<Rightarrow> bool) \<Rightarrow> string \<Rightarrow> nat \<Rightarrow> nat option" where
  "scan_while P buf i =
     (if i < length buf then if P (buf ! i) then scan_while P buf (Suc i) else Some i else None)"
  by pat_completeness auto
termination
  by (relation "measure (\<lambda>(P, buf, i). length buf - i)") auto

declare scan_while.simps [simp del]

definition split_line :: "string \<Rightarrow> nat \<Rightarrow> char \<Rightarrow> (string \<times> nat) option" where
  "split_line buf off splitter = do {
     i \<leftarrow> scan_while (\<lambda>x. x \<noteq> splitter \<and> x \<noteq> NUL) buf off;
     let buf = buf[i := NUL];
     j \<leftarrow> scan_while (\<lambda>x. x = SPACE) buf (Suc i);
     Some (buf, j)
   }"

function block_from :: "string \<Rightarrow> char \<Rightarrow> nat \<Rightarrow> int" where
  "block_from s c i = (if i < length s then if s ! i = c then int i else block_from s c (Suc i) else - 1)"
  by pat_completeness auto
termination
  by (relation "measure (\<lambda>(s, c, i). length s - i)") auto

declare block_from.simps [simp del]

definition block_contains :: "string \<Rightarrow> char \<Rightarrow> int" where
  "block_contains s c = block_from s c 0"

text \<open>The C string that starts at an offset.\<close>

definition str_at :: "string \<Rightarrow> nat \<Rightarrow> string option" where
  "str_at buf i = (if NUL \<in> set (drop i buf) then Some (cstr_of (drop i buf)) else None)"

text \<open>\<^verbatim>\<open>sprintf(arg, "%d", n)\<close>.\<close>

fun show_nat :: "nat \<Rightarrow> string" where
  "show_nat n = (if n < 10 then [char_of (48 + n)] else show_nat (n div 10) @ [char_of (48 + n mod 10)])"

declare show_nat.simps [simp del]

definition show_int :: "int \<Rightarrow> string" where
  "show_int n = (if n < 0 then CHR ''-'' # show_nat (nat (- n)) else show_nat (nat n))"

section \<open>Building commands\<close>

definition exec_cmd_create :: "string \<Rightarrow> execcmd" where
  "exec_cmd_create s =
     \<lparr>etype = EXEC, scmd = s, argv = [], eargv = [], out_file = [], in_file = [], err_file = []\<rparr>"

fun cmd_scmd :: "cmd \<Rightarrow> string" where
  "cmd_scmd (Exec e) = scmd e"
| "cmd_scmd (Back s c) = s"
| "cmd_scmd (Pipe l r) = []"

definition back_cmd_create :: "cmd \<Rightarrow> cmd" where
  "back_cmd_create c = Back (cmd_scmd c) c"

definition pipe_cmd_create :: "cmd option \<Rightarrow> cmd option \<Rightarrow> cmd option" where
  "pipe_cmd_create left right = (case right of None \<Rightarrow> left | Some r \<Rightarrow> Some (Pipe left r))"

section \<open>Tokens\<close>

definition get_token :: "string \<Rightarrow> nat \<Rightarrow> string" where
  "get_token s idx = takeWhile (\<lambda>c. c \<noteq> SPACE) (drop idx s)"

definition parse_redir_flow :: "execcmd \<Rightarrow> string \<Rightarrow> execcmd option" where
  "parse_redir_flow c arg =
     (let outIdx = block_contains arg (CHR ''>'') in
      if outIdx \<ge> 0
      then Some ((if outIdx = 0 then c\<lparr>out_file := drop 1 arg\<rparr>
                  else if outIdx = 1 then c\<lparr>err_file := drop 2 arg\<rparr>
                  else c)\<lparr>etype := REDIR\<rparr>)
      else if block_contains arg (CHR ''<'') \<ge> 0 then Some (c\<lparr>in_file := drop 1 arg, etype := REDIR\<rparr>)
      else None)"

text \<open>The option is the \<^verbatim>\<open>bool\<close> of the C function; the outer one is a store past \<^verbatim>\<open>eargv[MAXARGS]\<close>.\<close>

definition parse_environ_var :: "execcmd \<Rightarrow> string \<Rightarrow> execcmd option option" where
  "parse_environ_var c arg =
     (if block_contains arg (CHR ''='') > 0 \<and> block_contains arg (CHR ''-'') < 0
      then if length (eargv c) < MAXARGS then Some (Some (c\<lparr>eargv := eargv c @ [arg]\<rparr>)) else None
      else Some None)"

definition expand_environ_var :: "shell_env \<Rightarrow> string \<Rightarrow> string" where
  "expand_environ_var sh arg =
     (if arg = [] \<or> arg ! 0 \<noteq> CHR ''$'' then arg
      else if take 2 arg = ''$?'' then show_int (status sh)
      else (case env sh (drop 1 arg) of None \<Rightarrow> [] | Some value \<Rightarrow> value))"

lemma get_token_empty: "idx < length s \<Longrightarrow> get_token s idx = [] \<Longrightarrow> s ! idx = SPACE"
  by (auto simp: get_token_def Cons_nth_drop_Suc [symmetric] split: if_splits)

lemma get_token_le: "idx < length s \<Longrightarrow> idx + length (get_token s idx) \<le> length s"
  using length_takeWhile_le [of "\<lambda>c. c \<noteq> SPACE" "drop idx s"] by (simp add: get_token_def)

lemma get_token_advance:
  assumes "idx < length s" "idx1 = idx + length (get_token s idx)"
  shows "idx < (if idx1 < length s then Suc idx1 else idx1)"
proof (cases "idx1 < length s")
  case False
  then have "length (get_token s idx) > 0" using assms by auto
  then show ?thesis using assms by simp
qed (use assms in simp)

text \<open>The loop of \<^verbatim>\<open>parse_exec\<close> over the command string \<open>s\<close>, from index \<open>idx\<close>.\<close>

function parse_exec_loop :: "shell_env \<Rightarrow> string \<Rightarrow> nat \<Rightarrow> execcmd \<Rightarrow> execcmd option" where
  "parse_exec_loop sh s idx c =
     (if idx < length s
      then
        let tok = get_token s idx;
            idx1 = idx + length tok;
            idx2 = (if idx1 < length s then Suc idx1 else idx1)
        in (case parse_redir_flow c tok of
              Some c' \<Rightarrow> parse_exec_loop sh s idx2 c'
            | None \<Rightarrow>
                (case parse_environ_var c tok of
                   None \<Rightarrow> None
                 | Some (Some c') \<Rightarrow> parse_exec_loop sh s idx2 c'
                 | Some None \<Rightarrow>
                     let t = expand_environ_var sh tok in
                     if t = [] then parse_exec_loop sh s idx2 c
                     else if length (argv c) < MAXARGS
                     then parse_exec_loop sh s idx2 (c\<lparr>argv := argv c @ [t]\<rparr>)
                     else None))
      else Some c)"
  by pat_completeness auto
termination
proof (relation "measure (\<lambda>(sh, s, idx, c). length s - idx)", goal_cases)
  case 1
  show ?case by simp
qed (auto dest: get_token_advance [OF _ refl] intro!: diff_less_mono2 simp: Let_def split: if_splits)

declare parse_exec_loop.simps [simp del]

text \<open>Afterwards \<^verbatim>\<open>argv[argc] = NULL\<close>, which needs a free slot too.\<close>

definition parse_exec :: "shell_env \<Rightarrow> string \<Rightarrow> execcmd option" where
  "parse_exec sh s = do {
     c \<leftarrow> parse_exec_loop sh s 0 (exec_cmd_create s);
     guard (length (argv c) < MAXARGS);
     Some c
   }"

section \<open>Lines\<close>

text \<open>\<^verbatim>\<open>parse_back\<close> cuts the buffer at the first \<^verbatim>\<open>&\<close>; the rest of the line is lost.\<close>

definition parse_back :: "shell_env \<Rightarrow> string \<Rightarrow> nat \<Rightarrow> (cmd \<times> string) option" where
  "parse_back sh buf off = do {
     i \<leftarrow> scan_while (\<lambda>x. x \<noteq> CHR ''&'') buf off;
     let buf = buf[i := NUL];
     s \<leftarrow> str_at buf off;
     e \<leftarrow> parse_exec sh s;
     Some (back_cmd_create (Exec e), buf)
   }"

text \<open>
  \<^verbatim>\<open>parse_cmd\<close> looks at the byte before the \<^verbatim>\<open>&\<close>. When the \<^verbatim>\<open>&\<close> is the first character this is the byte
  before the string: outside the buffer for the first command of a line.
\<close>

definition parse_cmd :: "shell_env \<Rightarrow> string \<Rightarrow> nat \<Rightarrow> (cmd option \<times> string) option" where
  "parse_cmd sh buf off = do {
     s \<leftarrow> str_at buf off;
     if s = [] then Some (None, buf)
     else
       let idx = block_contains s (CHR ''&'') in
       if idx \<ge> 0
       then do {
         guard (off + nat idx > 0);
         if buf ! (off + nat idx - 1) \<noteq> CHR ''>''
         then do {
           (c, buf) \<leftarrow> parse_back sh buf off;
           Some (Some c, buf)
         }
         else do {
           e \<leftarrow> parse_exec sh s;
           Some (Some (Exec e), buf)
         }
       }
       else do {
         e \<leftarrow> parse_exec sh s;
         Some (Some (Exec e), buf)
       }
   }"

lemma scan_while_SomeD:
  "scan_while P buf i = Some j \<Longrightarrow> i \<le> j \<and> j < length buf \<and> \<not> P (buf ! j) \<and> (\<forall>k. i \<le> k \<and> k < j \<longrightarrow> P (buf ! k))"
proof (induction P buf i rule: scan_while.induct)
  case (1 P buf i)
  show ?case
  proof (cases "i < length buf \<and> P (buf ! i)")
    case True
    then have "scan_while P buf (Suc i) = Some j" using "1.prems" by (simp add: scan_while.simps [of P buf i])
    then have "Suc i \<le> j \<and> j < length buf \<and> \<not> P (buf ! j) \<and> (\<forall>k. Suc i \<le> k \<and> k < j \<longrightarrow> P (buf ! k))"
      using "1.IH" True by blast
    moreover have "i \<le> k \<longleftrightarrow> k = i \<or> Suc i \<le> k" for k by auto
    ultimately show ?thesis using True by auto
  next
    case False
    then show ?thesis using "1.prems" by (auto simp: scan_while.simps [of P buf i] split: if_splits)
  qed
qed

lemma split_line_SomeD:
  "split_line buf off c = Some (buf', j) \<Longrightarrow> off < j \<and> j < length buf \<and> length buf' = length buf"
  by (auto simp: split_line_def Let_def elim!: bind_Some_elim dest!: scan_while_SomeD)

lemma parse_cmd_length: "parse_cmd sh buf off = Some (c, buf') \<Longrightarrow> length buf' = length buf"
  by (auto simp: parse_cmd_def parse_back_def Let_def elim!: bind_Some_elim split: if_splits)

function parse_line :: "shell_env \<Rightarrow> string \<Rightarrow> nat \<Rightarrow> (cmd option \<times> string) option" where
  "parse_line sh buf off =
     (case split_line buf off (CHR ''|'') of
        None \<Rightarrow> None
      | Some (buf1, right) \<Rightarrow>
          (case parse_cmd sh buf1 off of
             None \<Rightarrow> None
           | Some (l, buf2) \<Rightarrow>
               (case str_at buf2 right of
                  None \<Rightarrow> None
                | Some s \<Rightarrow>
                    (case (if CHR ''|'' \<in> set s then parse_line sh buf2 right else parse_cmd sh buf2 right) of
                       None \<Rightarrow> None
                     | Some (r, buf3) \<Rightarrow> Some (pipe_cmd_create l r, buf3)))))"
  by pat_completeness auto
termination
proof (relation "measure (\<lambda>(sh, buf, off). length buf - off)", goal_cases)
  case 1
  show ?case by simp
next
  case (2 sh buf off p buf1 right q l buf2 s)
  then show ?case
    using split_line_SomeD [of buf off "CHR ''|''" buf1 right] parse_cmd_length [of sh buf1 off l buf2]
    by (auto intro!: diff_less_mono2)
qed

declare parse_line.simps [simp del]

section \<open>Freeing a command\<close>

text \<open>The argument strings freed, in order; a null pointer is dereferenced in the \<^verbatim>\<open>None\<close> case.\<close>

fun free_command :: "cmd option \<Rightarrow> string list option" where
  "free_command None = None"
| "free_command (Some (Exec e)) = Some (argv e @ eargv e)"
| "free_command (Some (Back s c)) = free_command (Some c)"
| "free_command (Some (Pipe l r)) = do {
     xs \<leftarrow> free_command l;
     ys \<leftarrow> free_command (Some r);
     Some (xs @ ys)
   }"

end
