(* ===== verification/Shell_Spec.thy ===== *)
theory Shell_Spec
  imports Shell_Parse
begin

text \<open>
  What the parser computes, stated on plain strings: the fields of a command, which of them are
  redirections, assignments and arguments, and how a line is cut into a pipeline. The buffer-level
  parser is shown to compute exactly this.
\<close>

section \<open>Fields\<close>

function cmd_fields :: "string \<Rightarrow> string list" where
  "cmd_fields [] = []"
| "cmd_fields (c # s) =
     takeWhile (\<lambda>x. x \<noteq> SPACE) (c # s) # cmd_fields (drop 1 (dropWhile (\<lambda>x. x \<noteq> SPACE) (c # s)))"
  by pat_completeness auto
termination
  by (relation "measure length") (auto simp: less_Suc_eq_le length_dropWhile_le le_diff_conv intro: le_trans [OF length_dropWhile_le])

definition is_redir :: "string \<Rightarrow> bool" where
  "is_redir t \<longleftrightarrow> CHR ''>'' \<in> set t \<or> CHR ''<'' \<in> set t"

definition is_assign :: "string \<Rightarrow> bool" where
  "is_assign t \<longleftrightarrow> \<not> is_redir t \<and> CHR ''='' \<in> set (tl t) \<and> hd t \<noteq> CHR ''='' \<and> CHR ''-'' \<notin> set t"

definition arg_fields :: "shell_env \<Rightarrow> string list \<Rightarrow> string list" where
  "arg_fields sh ts = filter (\<lambda>t. t \<noteq> []) (map (expand_environ_var sh) (filter (\<lambda>t. \<not> is_redir t \<and> \<not> is_assign t) ts))"

lemma block_from_char:
  "block_from s c i = (case find (\<lambda>j. s ! j = c) [i..<length s] of None \<Rightarrow> - 1 | Some j \<Rightarrow> int j)"
proof (induction s c i rule: block_from.induct)
  case (1 s c i)
  then show ?case by (auto simp: block_from.simps [of s c i] upt_conv_Cons)
qed

lemma block_contains_neg: "block_contains s c < 0 \<longleftrightarrow> c \<notin> set s"
  by (auto simp: block_contains_def block_from_char find_None_iff find_Some_iff in_set_conv_nth split: option.split)

lemma block_from_ge: "block_from s c i = - 1 \<or> int i \<le> block_from s c i"
proof (induction s c i rule: block_from.induct)
  case (1 s c i)
  then show ?case by (auto simp: block_from.simps [of s c i])
qed

lemma block_contains_zero: "block_contains s c = 0 \<longleftrightarrow> s \<noteq> [] \<and> hd s = c"
proof -
  have "block_contains s c = (if 0 < length s then if s ! 0 = c then 0 else block_from s c 1 else - 1)"
    unfolding block_contains_def by (subst block_from.simps) simp
  then show ?thesis using block_from_ge [of s c 1] by (cases s) auto
qed

lemma block_contains_pos: "block_contains s c > 0 \<longleftrightarrow> s \<noteq> [] \<and> hd s \<noteq> c \<and> c \<in> set (tl s)"
proof -
  have "block_contains s c > 0 \<longleftrightarrow> \<not> block_contains s c < 0 \<and> block_contains s c \<noteq> 0" by auto
  then show ?thesis unfolding block_contains_neg block_contains_zero by (cases s) auto
qed

section \<open>One command\<close>

fun parse_tokens :: "shell_env \<Rightarrow> string list \<Rightarrow> execcmd \<Rightarrow> execcmd option" where
  "parse_tokens sh [] c = Some c"
| "parse_tokens sh (t # ts) c =
     (case parse_redir_flow c t of
        Some c' \<Rightarrow> parse_tokens sh ts c'
      | None \<Rightarrow>
          (case parse_environ_var c t of
             None \<Rightarrow> None
           | Some (Some c') \<Rightarrow> parse_tokens sh ts c'
           | Some None \<Rightarrow>
               if expand_environ_var sh t = [] then parse_tokens sh ts c
               else if length (argv c) < MAXARGS
               then parse_tokens sh ts (c\<lparr>argv := argv c @ [expand_environ_var sh t]\<rparr>)
               else None))"

lemma fields_drop:
  assumes "idx < length s"
  shows "cmd_fields (drop idx s) = get_token s idx #
    cmd_fields (drop (if idx + length (get_token s idx) < length s then Suc (idx + length (get_token s idx))
                  else idx + length (get_token s idx)) s)"
proof -
  let ?t = "takeWhile (\<lambda>x. x \<noteq> SPACE) (drop idx s)"
  have ne: "drop idx s \<noteq> []" using assms by simp
  have "cmd_fields (drop idx s) = ?t # cmd_fields (drop 1 (dropWhile (\<lambda>x. x \<noteq> SPACE) (drop idx s)))"
    using ne by (cases "drop idx s") simp_all
  moreover have "dropWhile (\<lambda>x. x \<noteq> SPACE) (drop idx s) = drop (length ?t) (drop idx s)"
    by (rule dropWhile_eq_drop)
  ultimately show ?thesis by (simp add: get_token_def add.commute)
qed

lemma parse_exec_loop_fields: "parse_exec_loop sh s idx c = parse_tokens sh (cmd_fields (drop idx s)) c"
proof (induction "length s - idx" arbitrary: idx c rule: less_induct)
  case less
  show ?case
  proof (cases "idx < length s")
    case False
    then show ?thesis by (simp add: parse_exec_loop.simps)
  next
    case True
    define t where "t = get_token s idx"
    define j where "j = (if idx + length t < length s then Suc (idx + length t) else idx + length t)"
    have "idx < j" using get_token_advance [OF True refl] unfolding j_def t_def .
    then have IH: "parse_exec_loop sh s j c = parse_tokens sh (cmd_fields (drop j s)) c" for c
      using True by (intro less) (simp add: diff_less_mono2)
    have "cmd_fields (drop idx s) = t # cmd_fields (drop j s)" using fields_drop [OF True] by (simp add: t_def j_def)
    moreover have "parse_exec_loop sh s idx c = parse_tokens sh (t # cmd_fields (drop j s)) c"
      unfolding parse_exec_loop.simps [of sh s idx c] Let_def t_def [symmetric] j_def [symmetric] IH
      using True by (simp split: option.split)
    ultimately show ?thesis by simp
  qed
qed

lemma parse_redir_flow_None: "parse_redir_flow c t = None \<longleftrightarrow> \<not> is_redir t"
  using block_contains_neg [of t "CHR ''>''"] block_contains_neg [of t "CHR ''<''"]
  by (auto simp: parse_redir_flow_def is_redir_def Let_def not_le)

lemma parse_redir_flow_keeps:
  "parse_redir_flow c t = Some c' \<Longrightarrow> argv c' = argv c \<and> eargv c' = eargv c \<and> scmd c' = scmd c"
  by (auto simp: parse_redir_flow_def Let_def split: if_splits)

lemma parse_environ_var_eq:
  assumes "\<not> is_redir t"
  shows "parse_environ_var c t =
    (if is_assign t then if length (eargv c) < MAXARGS then Some (Some (c\<lparr>eargv := eargv c @ [t]\<rparr>)) else None
     else Some None)"
  using assms by (cases t) (auto simp: parse_environ_var_def is_assign_def block_contains_pos block_contains_neg)

text \<open>The arguments and assignments collected, when they fit.\<close>

lemma parse_tokens_spec:
  "parse_tokens sh ts c = Some c' \<Longrightarrow>
     argv c' = argv c @ arg_fields sh ts \<and> eargv c' = eargv c @ filter is_assign ts \<and> scmd c' = scmd c"
proof (induction ts arbitrary: c)
  case Nil
  then show ?case by (simp add: arg_fields_def)
next
  case (Cons t ts)
  show ?case
  proof (cases "is_redir t")
    case True
    then obtain c1 where "parse_redir_flow c t = Some c1" using parse_redir_flow_None by (metis option.exhaust)
    then show ?thesis
      using Cons parse_redir_flow_keeps [of c t c1] True
      by (auto simp: arg_fields_def is_assign_def)
  next
    case False
    then have "parse_redir_flow c t = None" by (simp add: parse_redir_flow_None)
    then show ?thesis
      using Cons False by (auto simp: parse_environ_var_eq arg_fields_def split: if_splits)
  qed
qed

lemma parse_tokens_defined:
  "length (argv c @ arg_fields sh ts) \<le> MAXARGS \<Longrightarrow> length (eargv c @ filter is_assign ts) \<le> MAXARGS \<Longrightarrow>
   \<exists>c'. parse_tokens sh ts c = Some c'"
proof (induction ts arbitrary: c)
  case (Cons t ts)
  show ?case
  proof (cases "is_redir t")
    case True
    then obtain c1 where c1: "parse_redir_flow c t = Some c1" using parse_redir_flow_None by (metis option.exhaust)
    then show ?thesis
      using Cons parse_redir_flow_keeps [OF c1] True by (auto simp: arg_fields_def is_assign_def)
  next
    case False
    then have "parse_redir_flow c t = None" by (simp add: parse_redir_flow_None)
    then show ?thesis
      using Cons False by (auto simp: parse_environ_var_eq arg_fields_def split: if_splits)
  qed
qed simp

text \<open>The redirections: for each stream the last field that names it counts.\<close>

definition last_or :: "'a \<Rightarrow> 'a list \<Rightarrow> 'a" where
  "last_or d xs = (if xs = [] then d else last xs)"

lemma last_or_Nil [simp]: "last_or d [] = d"
  and last_or_Cons [simp]: "last_or d (x # xs) = last_or x xs"
  by (simp_all add: last_or_def)

definition out_fields :: "string list \<Rightarrow> string list" where
  "out_fields ts = map (drop 1) (filter (\<lambda>t. block_contains t (CHR ''>'') = 0) ts)"

definition err_fields :: "string list \<Rightarrow> string list" where
  "err_fields ts = map (drop 2) (filter (\<lambda>t. block_contains t (CHR ''>'') = 1) ts)"

definition in_fields :: "string list \<Rightarrow> string list" where
  "in_fields ts = map (drop 1) (filter (\<lambda>t. CHR ''>'' \<notin> set t \<and> CHR ''<'' \<in> set t) ts)"

lemmas redir_fields_defs = out_fields_def err_fields_def in_fields_def

lemma parse_redir_flow_files:
  "parse_redir_flow c t = Some c' \<Longrightarrow>
     out_file c' = last_or (out_file c) (out_fields [t]) \<and> err_file c' = last_or (err_file c) (err_fields [t]) \<and>
     in_file c' = last_or (in_file c) (in_fields [t]) \<and> etype c' = REDIR"
  using block_contains_neg [of t "CHR ''>''"] block_contains_neg [of t "CHR ''<''"]
  by (auto simp: parse_redir_flow_def Let_def redir_fields_defs not_le split: if_splits)

lemma not_redir_no_fields: "\<not> is_redir t \<Longrightarrow> out_fields [t] = [] \<and> err_fields [t] = [] \<and> in_fields [t] = []"
  using block_contains_neg [of t "CHR ''>''"] by (auto simp: is_redir_def redir_fields_defs)

lemma last_or_append: "last_or d (xs @ ys) = last_or (last_or d xs) ys"
  by (simp add: last_or_def)

lemma redir_fields_Cons:
  "out_fields (t # ts) = out_fields [t] @ out_fields ts"
  "err_fields (t # ts) = err_fields [t] @ err_fields ts"
  "in_fields (t # ts) = in_fields [t] @ in_fields ts"
  by (simp_all add: redir_fields_defs)

lemma parse_tokens_files:
  "parse_tokens sh ts c = Some c' \<Longrightarrow>
     out_file c' = last_or (out_file c) (out_fields ts) \<and> err_file c' = last_or (err_file c) (err_fields ts) \<and>
     in_file c' = last_or (in_file c) (in_fields ts) \<and>
     etype c' = (if list_ex is_redir ts then REDIR else etype c)"
proof (induction ts arbitrary: c)
  case Nil
  then show ?case by (simp add: redir_fields_defs)
next
  case (Cons t ts)
  note F = redir_fields_Cons [of t ts]
  show ?case
  proof (cases "is_redir t")
    case True
    then obtain c1 where c1: "parse_redir_flow c t = Some c1" using parse_redir_flow_None by (metis option.exhaust)
    then have "parse_tokens sh ts c1 = Some c'" using Cons.prems by simp
    from Cons.IH [OF this] show ?thesis
      unfolding F last_or_append using parse_redir_flow_files [OF c1] True by simp
  next
    case False
    then have "parse_redir_flow c t = None" by (simp add: parse_redir_flow_None)
    then obtain c1 where c1: "parse_tokens sh ts c1 = Some c'" and
      keep: "out_file c1 = out_file c" "err_file c1 = err_file c" "in_file c1 = in_file c" "etype c1 = etype c"
      using Cons.prems False by (auto simp: parse_environ_var_eq split: if_splits)
    from Cons.IH [OF c1] show ?thesis
      unfolding F last_or_append using not_redir_no_fields [OF False] False keep by simp
  qed
qed

lemma parse_tokens_fit:
  "parse_tokens sh ts c = Some c' \<Longrightarrow> length (argv c) \<le> MAXARGS \<Longrightarrow> length (eargv c) \<le> MAXARGS \<Longrightarrow>
     length (argv c') \<le> MAXARGS \<and> length (eargv c') \<le> MAXARGS"
proof (induction ts arbitrary: c)
  case (Cons t ts)
  show ?case
  proof (cases "is_redir t")
    case True
    then obtain c1 where c1: "parse_redir_flow c t = Some c1" using parse_redir_flow_None by (metis option.exhaust)
    then show ?thesis using Cons parse_redir_flow_keeps [OF c1] by simp
  next
    case False
    then have "parse_redir_flow c t = None" by (simp add: parse_redir_flow_None)
    then show ?thesis using Cons False by (auto simp: parse_environ_var_eq split: if_splits)
  qed
qed simp

text \<open>The whole command, as a function of its fields.\<close>

definition command_of :: "shell_env \<Rightarrow> string \<Rightarrow> execcmd" where
  "command_of sh s =
     (let ts = cmd_fields s in
      \<lparr>etype = (if list_ex is_redir ts then REDIR else EXEC), scmd = s,
       argv = arg_fields sh ts, eargv = filter is_assign ts,
       out_file = last_or [] (out_fields ts), in_file = last_or [] (in_fields ts),
       err_file = last_or [] (err_fields ts)\<rparr>)"

lemma parse_exec_command:
  "parse_exec sh s =
     (if length (arg_fields sh (cmd_fields s)) < MAXARGS \<and> length (filter is_assign (cmd_fields s)) \<le> MAXARGS
      then Some (command_of sh s) else None)"
proof -
  let ?c = "exec_cmd_create s" and ?ts = "cmd_fields s"
  have loop: "parse_exec_loop sh s 0 ?c = parse_tokens sh ?ts ?c" using parse_exec_loop_fields [of sh s 0 ?c] by simp
  show ?thesis
  proof (cases "parse_tokens sh ?ts ?c")
    case None
    then have "\<not> (length (argv ?c @ arg_fields sh ?ts) \<le> MAXARGS \<and> length (eargv ?c @ filter is_assign ?ts) \<le> MAXARGS)"
      using parse_tokens_defined [of ?c sh ?ts] by (metis option.distinct(1))
    then have "\<not> (length (arg_fields sh ?ts) < MAXARGS \<and> length (filter is_assign ?ts) \<le> MAXARGS)"
      by (simp add: exec_cmd_create_def)
    then show ?thesis using None by (simp add: parse_exec_def loop)
  next
    case (Some c)
    have "c = command_of sh s"
      using parse_tokens_spec [OF Some] parse_tokens_files [OF Some]
      by (intro execcmd.equality) (simp_all add: exec_cmd_create_def command_of_def Let_def)
    moreover have "length (argv c) \<le> MAXARGS \<and> length (eargv c) \<le> MAXARGS"
      using parse_tokens_fit [OF Some] by (simp add: exec_cmd_create_def)
    moreover have "argv c = arg_fields sh ?ts" "eargv c = filter is_assign ?ts"
      using parse_tokens_spec [OF Some] by (simp_all add: exec_cmd_create_def)
    ultimately show ?thesis using Some by (simp add: parse_exec_def loop)
  qed
qed

section \<open>Lines\<close>

lemma scan_while_prefix:
  "drop off buf = xs @ y # ys \<Longrightarrow> \<forall>x \<in> set xs. P x \<Longrightarrow> \<not> P y \<Longrightarrow> scan_while P buf off = Some (off + length xs)"
proof (induction xs arbitrary: off)
  case Nil
  then have lt: "off < length buf" by (metis append_Nil drop_all list.distinct(1) not_le)
  then have "buf ! off = y" using Nil.prems(1) by (simp add: Cons_nth_drop_Suc [symmetric])
  then show ?case using Nil lt by (simp add: scan_while.simps [of P buf off])
next
  case (Cons x xs)
  then have lt: "off < length buf" by (metis append_Cons drop_all list.distinct(1) not_le)
  then have "buf ! off = x \<and> drop (Suc off) buf = xs @ y # ys"
    using Cons.prems(1) by (simp add: Cons_nth_drop_Suc [symmetric])
  then show ?case using Cons lt by (simp add: scan_while.simps [of P buf off])
qed

lemma takeWhile_first: "c \<notin> set a \<Longrightarrow> takeWhile (\<lambda>x. x \<noteq> c) (a @ c # b) = a"
  by (induction a) auto

lemma str_at_prefix: "drop off buf = s @ NUL # ys \<Longrightarrow> NUL \<notin> set s \<Longrightarrow> str_at buf off = Some s"
  by (simp add: str_at_def cstr_of_def takeWhile_first)

lemma drop_eq_nth:
  assumes "drop n xs = drop n ys" and lt: "n < length xs"
  shows "xs ! n = ys ! n"
proof -
  have "length xs - n = length ys - n" using arg_cong [OF assms(1), of length] by simp
  then show ?thesis using assms by (simp add: hd_drop_conv_nth [symmetric])
qed

lemma bind_map: "Option.bind x (\<lambda>y. Some (f y)) = map_option f x"
  by (cases x) simp_all

lemma bind_pair_map: "Option.bind (map_option f x) (\<lambda>(c, b). Some (g c, b)) = map_option (\<lambda>e. (g (fst (f e)), snd (f e))) x"
  by (cases x) (simp_all add: split_beta)

lemma drop_past: "drop off buf = xs @ ys \<Longrightarrow> drop (off + length xs) buf = ys"
  by (metis add.commute append_eq_conv_conj drop_drop)

lemma dropWhile_first: "c \<notin> set a \<Longrightarrow> dropWhile (\<lambda>x. x \<noteq> c) (a @ c # b) = c # b"
  by (induction a) auto

lemma nth_of_drop: "drop off buf = xs @ y # ys \<Longrightarrow> buf ! (off + length xs) = y"
  by (metis append_Nil2 drop_eq_Nil linorder_le_cases list.distinct(1) append_is_Nil_conv nth_append_length nth_drop)

definition amp_last :: "string \<Rightarrow> bool" where
  "amp_last a \<longleftrightarrow> a \<noteq> [] \<and> last a = CHR ''>''"

text \<open>
  A single command: empty text gives no command; a \<^verbatim>\<open>&\<close> that does not follow a \<^verbatim>\<open>>\<close> ends the text and makes it
  a background command. With nothing before it, and at the very start of the buffer (\<open>first\<close>), the parser
  reads the byte before the buffer.
\<close>

definition cmd_of :: "bool \<Rightarrow> shell_env \<Rightarrow> string \<Rightarrow> cmd option option" where
  "cmd_of first sh s =
     (let a = takeWhile (\<lambda>x. x \<noteq> CHR ''&'') s in
      if s = [] then Some None
      else if CHR ''&'' \<in> set s \<and> first \<and> a = [] then None
      else if CHR ''&'' \<in> set s \<and> \<not> amp_last a
      then map_option (\<lambda>e. Some (back_cmd_create (Exec e))) (parse_exec sh a)
      else map_option (\<lambda>e. Some (Exec e)) (parse_exec sh s))"

lemma block_contains_first:
  assumes "c \<notin> set a"
  shows "block_contains (a @ c # b) c = int (length a)"
proof -
  have "find (\<lambda>j. (a @ c # b) ! j = c) [0..<length (a @ c # b)] = Some (length a)"
    unfolding find_Some_iff using assms by (intro exI [of _ "length a"]) (auto simp: nth_append)
  then show ?thesis by (simp add: block_contains_def block_from_char del: upt_Suc)
qed

lemma parse_cmd_spec:
  assumes d: "drop off buf = s @ NUL # ys" and s: "NUL \<notin> set s"
    and b: "off > 0 \<Longrightarrow> buf ! (off - 1) \<noteq> CHR ''>''"
  shows "\<exists>buf'. parse_cmd sh buf off = map_option (\<lambda>c. (c, buf')) (cmd_of (off = 0) sh s) \<and>
    drop (off + length s) buf' = NUL # ys"
proof (cases "CHR ''&'' \<in> set s")
  case False
  then have "block_contains s (CHR ''&'') < 0" by (simp add: block_contains_neg)
  then have "parse_cmd sh buf off = map_option (\<lambda>c. (c, buf)) (cmd_of (off = 0) sh s)"
    using False by (cases "parse_exec sh s") (simp_all add: parse_cmd_def str_at_prefix [OF d s] cmd_of_def Let_def not_le)
  then show ?thesis using drop_past [OF d] by (intro exI [of _ buf]) simp
next
  case True
  then obtain a t where st: "s = a @ CHR ''&'' # t" and a: "CHR ''&'' \<notin> set a" by (metis split_list_first)
  let ?i = "off + length a"
  have prev: "buf ! (?i - 1) = CHR ''>'' \<longleftrightarrow> amp_last a" if "?i > 0"
  proof (cases "a = []")
    case False
    then have "drop off buf = butlast a @ last a # CHR ''&'' # t @ NUL # ys" using d st by simp
    moreover have "off + (length a - Suc 0) = ?i - 1" using False by (cases a) simp_all
    ultimately show ?thesis using False nth_of_drop [of off buf "butlast a" "last a"] by (simp add: amp_last_def)
  qed (use b that in \<open>simp add: amp_last_def\<close>)
  have sc: "scan_while (\<lambda>x. x \<noteq> CHR ''&'') buf off = Some ?i"
    by (rule scan_while_prefix [of _ _ _ "CHR ''&''" "t @ NUL # ys"]) (use d st a in auto)
  have du: "drop off (buf[?i := NUL]) = a @ NUL # t @ NUL # ys"
    using d st by (simp add: drop_update_swap list_update_append)
  have sa: "str_at (buf[?i := NUL]) off = Some a"
    by (rule str_at_prefix [OF du]) (use s st in simp)
  let ?buf = "if amp_last a then buf else buf[?i := NUL]"
  have "parse_cmd sh buf off = map_option (\<lambda>c. (c, ?buf)) (cmd_of (off = 0) sh s)"
    using prev a st sc sa
    by (auto simp: parse_cmd_def parse_back_def str_at_prefix [OF d s] cmd_of_def Let_def
        block_contains_first takeWhile_first bind_map bind_pair_map option.map_comp comp_def)
  moreover have "drop (off + length s) ?buf = NUL # ys"
    using drop_past [OF d] drop_past [of off "buf[?i := NUL]" "a @ NUL # t"] du st by simp
  ultimately show ?thesis by (intro exI [of _ ?buf]) simp
qed

function line_segments :: "string \<Rightarrow> string list" where
  "line_segments s =
     takeWhile (\<lambda>x. x \<noteq> CHR ''|'') s #
     (if CHR ''|'' \<in> set s
      then line_segments (dropWhile (\<lambda>x. x = SPACE) (drop 1 (dropWhile (\<lambda>x. x \<noteq> CHR ''|'') s)))
      else [])"
  by pat_completeness auto
termination
proof (relation "measure length", goal_cases)
  case (2 s)
  then have "s \<noteq> []" by auto
  then have "length (drop 1 (dropWhile (\<lambda>x. x \<noteq> CHR ''|'') s)) < length s"
    using length_dropWhile_le [of "\<lambda>x. x \<noteq> CHR ''|''" s] by (cases s) (auto simp: less_Suc_eq_le)
  then have "length (dropWhile (\<lambda>x. x = SPACE) (drop 1 (dropWhile (\<lambda>x. x \<noteq> CHR ''|'') s))) < length s"
    by (rule le_less_trans [OF length_dropWhile_le])
  then show ?case by simp
qed simp

declare line_segments.simps [simp del]

text \<open>The command of a line: the segments between pipes, nested to the right.\<close>

fun line_of :: "bool \<Rightarrow> shell_env \<Rightarrow> string list \<Rightarrow> cmd option option" where
  "line_of first sh [] = Some None"
| "line_of first sh (s # ss) = do {
     l \<leftarrow> cmd_of first sh s;
     r \<leftarrow> line_of False sh ss;
     Some (pipe_cmd_create l r)
   }"

lemma line_segments_single: "CHR ''|'' \<notin> set s \<Longrightarrow> line_segments s = [s]"
  by (subst line_segments.simps) (auto simp: takeWhile_eq_all_conv)

lemma line_segments_pipe:
  "CHR ''|'' \<notin> set a \<Longrightarrow> line_segments (a @ CHR ''|'' # t) = a # line_segments (dropWhile (\<lambda>x. x = SPACE) t)"
  by (subst line_segments.simps) (simp add: takeWhile_first dropWhile_first)

lemma line_of_single: "line_of first sh [s] = cmd_of first sh s"
  by (simp add: pipe_cmd_create_def)

lemma split_line_pipe:
  assumes d: "drop off buf = a @ CHR ''|'' # t @ NUL # ys" and a: "CHR ''|'' \<notin> set a" "NUL \<notin> set a"
  shows "\<exists>buf' right. split_line buf off (CHR ''|'') = Some (buf', right) \<and> drop off buf' = a @ NUL # t @ NUL # ys \<and>
    drop right buf' = dropWhile (\<lambda>x. x = SPACE) t @ NUL # ys \<and> off + length a < right \<and>
    buf' ! (right - 1) \<noteq> CHR ''>'' \<and> length buf' = length buf \<and> take off buf' = take off buf"
proof -
  let ?i = "off + length a" and ?sp = "takeWhile (\<lambda>x. x = SPACE) t"
  let ?b = "buf[?i := NUL]" and ?r = "Suc (off + length a) + length (takeWhile (\<lambda>x. x = SPACE) t)"
  have sc: "scan_while (\<lambda>x. x \<noteq> CHR ''|'' \<and> x \<noteq> NUL) buf off = Some ?i"
    by (rule scan_while_prefix [OF d]) (use a in auto)
  have du: "drop off ?b = a @ NUL # t @ NUL # ys" using d by (simp add: drop_update_swap list_update_append)
  then have di: "drop (Suc ?i) ?b = t @ NUL # ys" using drop_past [of off ?b "a @ [NUL]" "t @ NUL # ys"] by simp
  obtain y zs where y: "dropWhile (\<lambda>x. x = SPACE) t @ NUL # ys = y # zs" "y \<noteq> SPACE"
  proof (cases "dropWhile (\<lambda>x. x = SPACE) t")
    case (Cons c cs)
    then have "c \<noteq> SPACE" using hd_dropWhile [of "\<lambda>x. x = SPACE" t] by simp
    then show ?thesis using Cons that by simp
  qed simp
  have "drop (Suc ?i) ?b = ?sp @ y # zs" unfolding di using y(1) by (metis append.assoc takeWhile_dropWhile_id)
  then have sc2: "scan_while (\<lambda>x. x = SPACE) ?b (Suc ?i) = Some ?r"
    by (intro scan_while_prefix) (auto simp: y dest: set_takeWhileD)
  have dr: "drop ?r ?b = y # zs"
    using drop_past [OF \<open>drop (Suc ?i) ?b = ?sp @ y # zs\<close>] .
  have "?b ! (?r - 1) \<noteq> CHR ''>''"
  proof (cases "?sp = []")
    case True
    then show ?thesis using nth_of_drop [OF du] by simp
  next
    case False
    then have "last ?sp = SPACE" using set_takeWhileD [OF last_in_set [OF False]] by blast
    moreover have "drop (Suc ?i) ?b = butlast ?sp @ last ?sp # y # zs"
      using \<open>drop (Suc ?i) ?b = ?sp @ y # zs\<close> False by simp
    moreover have "?r - 1 = Suc ?i + length (butlast ?sp)" using False by (cases ?sp) simp_all
    ultimately have "?b ! (?r - 1) = SPACE" using nth_of_drop [of "Suc ?i" ?b "butlast ?sp" "last ?sp" "y # zs"] by (simp only:)
    then show ?thesis by (simp only: char.inject) simp
  qed
  then show ?thesis
    using sc sc2 du dr y(1) by (intro exI [of _ ?b] exI [of _ ?r]) (simp add: split_line_def Let_def)
qed

lemma split_line_none:
  assumes d: "drop off buf = s @ NUL # NUL # ys" and a: "CHR ''|'' \<notin> set s" "NUL \<notin> set s"
  shows "split_line buf off (CHR ''|'') = Some (buf, Suc (off + length s))"
proof -
  let ?i = "off + length s"
  have sc: "scan_while (\<lambda>x. x \<noteq> CHR ''|'' \<and> x \<noteq> NUL) buf off = Some ?i"
    by (rule scan_while_prefix [OF d]) (use a in auto)
  have "buf[?i := NUL] = buf" using nth_of_drop [OF d] by (metis list_update_id)
  moreover have "drop (Suc ?i) buf = [] @ NUL # ys" using drop_past [of off buf "s @ [NUL]" "NUL # ys"] d by simp
  then have "scan_while (\<lambda>x. x = SPACE) buf (Suc ?i) = Some (Suc ?i + length ([] :: string))" by (rule scan_while_prefix) simp_all
  ultimately show ?thesis using sc by (simp add: split_line_def Let_def)
qed

lemma parse_line_single:
  assumes d: "drop off buf = s @ NUL # NUL # ys" and s: "CHR ''|'' \<notin> set s" "NUL \<notin> set s"
    and b: "off > 0 \<Longrightarrow> buf ! (off - 1) \<noteq> CHR ''>''"
  shows "map_option fst (parse_line sh buf off) = cmd_of (off = 0) sh s"
proof -
  obtain buf' where p: "parse_cmd sh buf off = map_option (\<lambda>c. (c, buf')) (cmd_of (off = 0) sh s)"
    and d': "drop (off + length s) buf' = NUL # NUL # ys"
    using parse_cmd_spec [OF d s(2) b, of sh] by blast
  have "drop (Suc (off + length s)) buf' = [] @ NUL # ys" using d' by (metis append_Nil drop_Suc list.sel(3) tl_drop)
  then have "str_at buf' (Suc (off + length s)) = Some []" by (rule str_at_prefix) simp
  then have r: "parse_cmd sh buf' (Suc (off + length s)) = Some (None, buf')" by (simp add: parse_cmd_def)
  show ?thesis
    using \<open>str_at buf' _ = _\<close> r
    by (cases "cmd_of (off = 0) sh s")
      (simp_all add: parse_line.simps [of sh buf off] split_line_none [OF d s] p pipe_cmd_create_def)
qed

lemma parse_line_spec:
  "drop off buf = s @ NUL # NUL # ys \<Longrightarrow> NUL \<notin> set s \<Longrightarrow> (off > 0 \<Longrightarrow> buf ! (off - 1) \<noteq> CHR ''>'') \<Longrightarrow>
   map_option fst (parse_line sh buf off) = line_of (off = 0) sh (line_segments s)"
proof (induction "length s" arbitrary: s buf off rule: less_induct)
  case less
  show ?case
  proof (cases "CHR ''|'' \<in> set s")
    case False
    then show ?thesis
      unfolding line_segments_single [OF False] line_of_single
      by (intro parse_line_single [OF less.prems(1) False less.prems(2)] less.prems(3))
  next
    case True
    then obtain a t where st: "s = a @ CHR ''|'' # t" and a: "CHR ''|'' \<notin> set a" by (metis split_list_first)
    let ?t = "dropWhile (\<lambda>x. x = SPACE) t"
    have na: "NUL \<notin> set a" "NUL \<notin> set ?t" using less.prems(2) st set_dropWhileD by fastforce+
    obtain buf1 right where sl: "split_line buf off (CHR ''|'') = Some (buf1, right)"
      and d1: "drop off buf1 = a @ NUL # t @ NUL # NUL # ys" and dr: "drop right buf1 = ?t @ NUL # NUL # ys"
      and r: "off + length a < right" "buf1 ! (right - 1) \<noteq> CHR ''>''" "take off buf1 = take off buf"
      using split_line_pipe [of off buf a t "NUL # ys"] less.prems(1) st a na by auto
    have b1: "off > 0 \<Longrightarrow> buf1 ! (off - 1) \<noteq> CHR ''>''"
      using less.prems(3) r(3) by (metis One_nat_def diff_less nth_take zero_less_one)
    obtain buf2 where p: "parse_cmd sh buf1 off = map_option (\<lambda>c. (c, buf2)) (cmd_of (off = 0) sh a)"
      and d2: "drop (off + length a) buf2 = NUL # t @ NUL # NUL # ys"
      using parse_cmd_spec [OF d1 na(1) b1, of sh] by blast
    have same: "drop (off + length a) buf1 = drop (off + length a) buf2"
      using drop_past [OF d1] d2 by simp
    have dr2: "drop right buf2 = ?t @ NUL # NUL # ys"
      using same dr r(1) by (metis add_diff_inverse_nat drop_drop less_imp_le_nat not_less add.commute)
    have b2: "buf2 ! (right - 1) \<noteq> CHR ''>''"
    proof -
      obtain k where k: "right - 1 = off + length a + k" using r(1) less_iff_Suc_add by auto
      then have "drop (right - 1) buf1 = drop (right - 1) buf2" using same by (metis add.commute drop_drop)
      moreover have "right - 1 < length buf1" using arg_cong [OF dr, of length] by simp
      ultimately show ?thesis using r(2) drop_eq_nth [of "right - 1" buf1 buf2] by simp
    qed
    have "str_at buf2 right = Some ?t" by (rule str_at_prefix [OF dr2 na(2)])
    moreover have R: "map_option fst (if CHR ''|'' \<in> set ?t then parse_line sh buf2 right else parse_cmd sh buf2 right)
        = line_of False sh (line_segments ?t)"
    proof (cases "CHR ''|'' \<in> set ?t")
      case True
      have "length ?t < length s" using st length_dropWhile_le [of "\<lambda>x. x = SPACE" t] by simp
      then have "map_option fst (parse_line sh buf2 right) = line_of (right = 0) sh (line_segments ?t)"
        by (rule less.hyps [OF _ dr2 na(2)]) (rule b2)
      then show ?thesis using True r(1) by simp
    next
      case False
      obtain buf3 where "parse_cmd sh buf2 right = map_option (\<lambda>c. (c, buf3)) (cmd_of (right = 0) sh ?t)"
        using parse_cmd_spec [OF dr2 na(2), of sh] b2 by blast
      then show ?thesis using False r(1) by (simp add: line_segments_single pipe_cmd_create_def option.map_comp comp_def option.map_ident)
    qed
    ultimately show ?thesis
      unfolding st line_segments_pipe [OF a] parse_line.simps [of sh buf off] sl line_of.simps R [symmetric]
      by (auto simp: p split: option.split)
  qed
qed

end
