(* ===== verification/Shell_Exec.thy ===== *)
theory Shell_Exec
  imports Shell_Spec
begin

unbundle bit_operations_syntax

text \<open>
  Running commands: \<^verbatim>\<open>src/TP Shell/exec.c\<close>, \<^verbatim>\<open>builtin.c\<close>, \<^verbatim>\<open>runcmd.c\<close>, \<^verbatim>\<open>printstatus.c\<close>, \<^verbatim>\<open>readline.c\<close> and
  \<^verbatim>\<open>sh.c\<close>.

  What the kernel answers is the parameter \<open>os\<close>: which files open, whether \<^verbatim>\<open>pipe\<close>, \<^verbatim>\<open>fork\<close> and \<^verbatim>\<open>execvp\<close> succeed,
  where \<^verbatim>\<open>chdir\<close> leads. A process is described by what it becomes: the program it executes with its
  environment and open files, an exit, or a parent that waits for the two sides of a pipe. \<^term>\<open>None\<close> is a
  crash (a null pointer or an access outside a buffer). Messages to the terminal are left out.
\<close>

section \<open>Environment variables of a command\<close>

definition get_environ_key :: "string \<Rightarrow> string" where
  "get_environ_key arg = takeWhile (\<lambda>c. c \<noteq> CHR ''='') arg"

definition get_environ_value :: "string \<Rightarrow> nat \<Rightarrow> string" where
  "get_environ_value arg idx = drop (idx + 1) arg"

text \<open>\<^verbatim>\<open>setenv\<close> refuses an empty name.\<close>

fun set_environ_vars :: "string list \<Rightarrow> (string \<rightharpoonup> string) \<Rightarrow> (string \<rightharpoonup> string)" where
  "set_environ_vars [] e = e"
| "set_environ_vars (pair_str # rest) e =
     (let idx_equal = block_contains pair_str (CHR ''='') in
      if idx_equal = - 1 then set_environ_vars rest e
      else let key = get_environ_key pair_str; v = get_environ_value pair_str (nat idx_equal)
           in set_environ_vars rest (if key = [] then e else e(key \<mapsto> v)))"

section \<open>Open files\<close>

text \<open>The descriptor table of a process: \<^verbatim>\<open>open\<close> and \<^verbatim>\<open>pipe\<close> take the lowest free number.\<close>

datatype stream = Given nat | Read_file string | Write_file string | Read_end "nat list" | Write_end "nat list"

type_synonym fds = "stream option list"

definition fd_get :: "fds \<Rightarrow> nat \<Rightarrow> stream option" where
  "fd_get t i = (if i < length t then t ! i else None)"

definition fd_open :: "stream \<Rightarrow> fds \<Rightarrow> nat \<times> fds" where
  "fd_open s t = (let i = length (takeWhile (\<lambda>x. x \<noteq> None) t) in
     (i, if i < length t then t[i := Some s] else t @ [Some s]))"

definition fd_close :: "nat \<Rightarrow> fds \<Rightarrow> fds" where
  "fd_close i t = t[i := None]"

definition fd_dup2 :: "nat \<Rightarrow> nat \<Rightarrow> fds \<Rightarrow> fds" where
  "fd_dup2 a b t = (case fd_get t a of None \<Rightarrow> t
     | Some s \<Rightarrow> (if b < length t then t else t @ replicate (Suc b - length t) None)[b := Some s])"

record os =
  open_ok :: "bool \<Rightarrow> string \<Rightarrow> bool"
  pipe_ok :: "nat list \<Rightarrow> bool"
  fork_ok :: "nat list \<Rightarrow> bool"
  exec_ok :: "string \<Rightarrow> bool"
  chdir_to :: "string \<Rightarrow> string \<Rightarrow> string option"

datatype process =
    Runs "string list" "string \<rightharpoonup> string" fds
  | Exits nat
  | Waits "process option" "process option" "process option"

section \<open>\<^verbatim>\<open>exec_cmd\<close>\<close>

text \<open>\<^verbatim>\<open>open_redir_fd\<close> followed by \<^verbatim>\<open>dup2\<close> to the standard stream and \<^verbatim>\<open>close\<close>; \<open>None\<close> is the exit with failure.\<close>

definition open_redir_fd :: "os \<Rightarrow> bool \<Rightarrow> string \<Rightarrow> fds \<Rightarrow> (nat \<times> fds) option" where
  "open_redir_fd k creat file t =
     (if open_ok k creat file then Some (fd_open (if creat then Write_file file else Read_file file) t) else None)"

definition redirect :: "os \<Rightarrow> bool \<Rightarrow> string \<Rightarrow> nat \<Rightarrow> fds \<Rightarrow> fds option" where
  "redirect k creat file n t =
     (case open_redir_fd k creat file t of None \<Rightarrow> None
      | Some (fd, t) \<Rightarrow> Some (fd_close fd (fd_dup2 fd n t)))"

definition redirect_streams :: "os \<Rightarrow> execcmd \<Rightarrow> fds \<Rightarrow> fds option" where
  "redirect_streams k r t = do {
     t \<leftarrow> (if in_file r \<noteq> [] then redirect k False (in_file r) 0 t else Some t);
     t \<leftarrow> (if out_file r \<noteq> [] then redirect k True (out_file r) 1 t else Some t);
     if err_file r \<noteq> []
     then if err_file r = ''&1'' then Some (fd_dup2 1 2 t) else redirect k True (err_file r) 2 t
     else Some t
   }"

text \<open>A command of type \<^verbatim>\<open>EXEC\<close>: \<^verbatim>\<open>execvp(argv[0], argv)\<close>; without arguments the name is the null pointer.\<close>

definition exec_image :: "os \<Rightarrow> execcmd \<Rightarrow> (string \<rightharpoonup> string) \<Rightarrow> fds \<Rightarrow> process option" where
  "exec_image k e en t =
     (case argv e of [] \<Rightarrow> None
      | prog # args \<Rightarrow> Some (if exec_ok k prog then Runs (argv e) (set_environ_vars (eargv e) en) t else Exits 1))"

definition exec_exec :: "os \<Rightarrow> execcmd \<Rightarrow> (string \<rightharpoonup> string) \<Rightarrow> fds \<Rightarrow> process option" where
  "exec_exec k e en t =
     (case etype e of EXEC \<Rightarrow> exec_image k e en t
      | REDIR \<Rightarrow>
          if scmd e = [] then Some (Exits 1)
          else (case redirect_streams k e t of None \<Rightarrow> Some (Exits 1) | Some t \<Rightarrow> exec_image k e en t))"

text \<open>
  The two children of a pipe start with a copy of the table. The pipe is named by the position \<open>p\<close> of its
  process. A \<^verbatim>\<open>fork\<close> that fails leaves no child on that side. After both children the process frees \<open>w\<close>, the
  whole command (\<^verbatim>\<open>parsed_pipe\<close>), and exits.
\<close>

definition pipe_fds :: "nat list \<Rightarrow> fds \<Rightarrow> nat \<times> nat \<times> fds" where
  "pipe_fds p t = (let (r, t) = fd_open (Read_end p) t; (w, t) = fd_open (Write_end p) t in (r, w, t))"

definition left_fds :: "nat list \<Rightarrow> fds \<Rightarrow> fds" where
  "left_fds p t = (let (r, w, t) = pipe_fds p t in fd_close w (fd_dup2 w 1 (fd_close r t)))"

definition right_fds :: "nat list \<Rightarrow> fds \<Rightarrow> fds" where
  "right_fds p t = (let (r, w, t) = pipe_fds p t in fd_close r (fd_dup2 r 0 (fd_close w t)))"

fun exec_cmd :: "os \<Rightarrow> cmd \<Rightarrow> nat list \<Rightarrow> (string \<rightharpoonup> string) \<Rightarrow> fds \<Rightarrow> cmd \<Rightarrow> process option" where
  "exec_cmd k w p en t (Exec e) = exec_exec k e en t"
| "exec_cmd k w p en t (Back s c) = exec_cmd k w p en t c"
| "exec_cmd k w p en t (Pipe l r) =
     (if pipe_ok k p
      then Some (Waits
        (if fork_ok k (0 # p) then (case l of None \<Rightarrow> None | Some c \<Rightarrow> exec_cmd k w (0 # p) en (left_fds p t) c) else None)
        (if fork_ok k (1 # p) then exec_cmd k w (1 # p) en (right_fds p t) r else None)
        (map_option (\<lambda>_. Exits 0) (free_command (Some w))))
      else Some (Exits 1))"

section \<open>Built-in commands\<close>

record shell =
  senv :: shell_env
  cwd :: string
  prompt :: string

definition exit_shell :: "string \<Rightarrow> bool" where
  "exit_shell cmd \<longleftrightarrow> cmd = ''exit''"

definition get_directory :: "string \<Rightarrow> string option" where
  "get_directory cmd = (if SPACE \<in> set cmd then Some (drop 1 (dropWhile (\<lambda>c. c \<noteq> SPACE) cmd)) else None)"

text \<open>\<^verbatim>\<open>getcwd\<close> into a buffer of \<^verbatim>\<open>PRMTLEN\<close> bytes; \<^verbatim>\<open>chdir(NULL)\<close>, without \<^verbatim>\<open>HOME\<close>, fails.\<close>

abbreviation (input) PRMTLEN :: nat where "PRMTLEN \<equiv> 1024"

definition getcwd :: "string \<Rightarrow> string option" where
  "getcwd d = (if length d < PRMTLEN then Some d else None)"

definition cd :: "os \<Rightarrow> string \<Rightarrow> shell \<Rightarrow> bool \<times> shell" where
  "cd k cmd st =
     (if take 2 cmd \<noteq> ''cd'' \<or> length cmd > 2 \<and> cmd ! 2 \<noteq> SPACE then (False, st)
      else
        let target = (case get_directory cmd of Some d \<Rightarrow> Some d | None \<Rightarrow> env (senv st) ''HOME'');
            d' = (case target of None \<Rightarrow> None | Some d \<Rightarrow> chdir_to k (cwd st) d);
            st = (case d' of None \<Rightarrow> st | Some d \<Rightarrow> st\<lparr>cwd := d\<rparr>);
            st = (case getcwd (cwd st) of None \<Rightarrow> st | Some d \<Rightarrow> st\<lparr>prompt := d\<rparr>)
        in (True, st))"

text \<open>
  \<^verbatim>\<open>pwd\<close> appends the newline in the same buffer; when \<^verbatim>\<open>getcwd\<close> fails the buffer is uninitialised. The result
  is the text printed, or nothing when the command is not \<^verbatim>\<open>pwd\<close>.
\<close>

definition pwd :: "string \<Rightarrow> shell \<Rightarrow> string option option" where
  "pwd cmd st =
     (if cmd = ''pwd''
      then (case getcwd (cwd st) of
              None \<Rightarrow> None
            | Some path \<Rightarrow> if length path + 1 < PRMTLEN then Some (Some (path @ [CHR 0x0A])) else None)
      else Some None)"

definition history :: "string \<Rightarrow> bool" where
  "history cmd \<longleftrightarrow> False"

section \<open>Status of a finished process\<close>

definition WTERMSIG :: "int \<Rightarrow> int" where "WTERMSIG s = s AND 0x7F"
definition WIFEXITED :: "int \<Rightarrow> bool" where "WIFEXITED s \<longleftrightarrow> WTERMSIG s = 0"
definition WEXITSTATUS :: "int \<Rightarrow> int" where "WEXITSTATUS s = drop_bit 8 (s AND 0xFF00)"
definition signed_char :: "int \<Rightarrow> int" where "signed_char n = (if n mod 256 < 128 then n mod 256 else n mod 256 - 256)"
definition WIFSIGNALED :: "int \<Rightarrow> bool" where "WIFSIGNALED s \<longleftrightarrow> drop_bit 1 (signed_char (WTERMSIG s + 1)) > 0"

definition print_status_info :: "cmd \<Rightarrow> int \<Rightarrow> int" where
  "print_status_info c s =
     (if cmd_scmd c = [] \<or> (case c of Pipe l r \<Rightarrow> True | _ \<Rightarrow> False) then s
      else if WIFEXITED s then WEXITSTATUS s
      else if WIFSIGNALED s then - WTERMSIG s
      else if WTERMSIG s \<noteq> 0 then - WEXITSTATUS s
      else s)"

section \<open>Running a line\<close>

text \<open>
  The events of a session: a text printed by \<^verbatim>\<open>pwd\<close>, a child started for a command, with what it becomes.
  The kernel's reply to one command: whether \<^verbatim>\<open>fork\<close> gave a child, and the status \<^verbatim>\<open>waitpid\<close> stored; \<open>None\<close> when
  it stored nothing because the handler of \<^verbatim>\<open>SIGCHLD\<close> had already collected the child.
\<close>

datatype event = Printed string | Child cmd "process option"

record reply =
  forked :: bool
  waited :: "int option"

definition run_cmd :: "os \<Rightarrow> reply \<Rightarrow> string \<Rightarrow> shell \<Rightarrow> (bool \<times> shell \<times> event list) option" where
  "run_cmd k a buf st = do {
     cmd \<leftarrow> str_at buf 0;
     if cmd = [] then Some (False, st, [])
     else if history cmd then Some (False, st, [])
     else let (is_cd, st1) = cd k cmd st in
     if is_cd then Some (False, st1, [])
     else if exit_shell cmd then Some (True, st, [])
     else do {
       out \<leftarrow> pwd cmd st;
       case out of Some text \<Rightarrow> Some (False, st, [Printed text])
       | None \<Rightarrow> do {
           (parsed, buf) \<leftarrow> parse_line (senv st) buf 0;
           c \<leftarrow> parsed;
           let ev = (if forked a then [Child c (exec_cmd k c [] (env (senv st)) (map (Some \<circ> Given) [0..<3]) c)] else []);
           let st = (case c of Back s b \<Rightarrow> st
             | _ \<Rightarrow> st\<lparr>senv := (senv st)\<lparr>status := print_status_info c
                 (case waited a of None \<Rightarrow> status (senv st) | Some w \<Rightarrow> w)\<rparr>\<rparr>);
           xs \<leftarrow> free_command (Some c);
           Some (False, st, ev)
         }
     }
   }"

section \<open>The read loop\<close>

text \<open>
  \<^verbatim>\<open>read_line\<close>: the bytes up to the newline, in a zeroed buffer of \<^verbatim>\<open>BUFLEN\<close> bytes; \<open>Some None\<close> is the null pointer
  returned at the end of the input.
\<close>

definition read_line :: "string \<Rightarrow> (string \<times> string) option option" where
  "read_line input =
     (let l = takeWhile (\<lambda>c. c \<noteq> CHR 0x0A) input in
      if length l > BUFLEN then None
      else if length l = length input then Some None
      else if length l < BUFLEN
      then Some (Some (l @ replicate (BUFLEN - length l) NUL, drop (Suc (length l)) input))
      else None)"

lemma read_line_shorter: "read_line input = Some (Some (buf, rest)) \<Longrightarrow> length rest < length input"
  by (cases input) (auto simp: read_line_def Let_def split: if_splits)

function run_shell :: "os \<Rightarrow> (nat \<Rightarrow> reply) \<Rightarrow> nat \<Rightarrow> string \<Rightarrow> shell \<Rightarrow> (shell \<times> event list) option" where
  "run_shell k a n input st =
     (case read_line input of
        None \<Rightarrow> None
      | Some None \<Rightarrow> Some (st, [])
      | Some (Some (buf, rest)) \<Rightarrow>
          (case run_cmd k (a n) buf st of
             None \<Rightarrow> None
           | Some (quit, st, ev) \<Rightarrow>
               if quit then Some (st, ev)
               else map_option (\<lambda>(st, ev'). (st, ev @ ev')) (run_shell k a (Suc n) rest st)))"
  by pat_completeness auto
termination
  by (relation "measure (\<lambda>(k, a, n, input, st). length input)") (auto dest: read_line_shorter)

declare run_shell.simps [simp del]

definition init_shell :: "os \<Rightarrow> shell_env \<Rightarrow> string \<Rightarrow> shell" where
  "init_shell k sh dir =
     (case env sh ''HOME'' of
        None \<Rightarrow> \<lparr>senv = sh, cwd = dir, prompt = []\<rparr>
      | Some home \<Rightarrow>
          (case chdir_to k dir home of
             None \<Rightarrow> \<lparr>senv = sh, cwd = dir, prompt = []\<rparr>
           | Some d \<Rightarrow> \<lparr>senv = sh, cwd = d, prompt = take (PRMTLEN - 1) (''('' @ home @ '')'')\<rparr>))"

definition shell_main :: "os \<Rightarrow> (nat \<Rightarrow> reply) \<Rightarrow> (string \<rightharpoonup> string) \<Rightarrow> string \<Rightarrow> string \<Rightarrow> (shell \<times> event list) option" where
  "shell_main k a en dir input = run_shell k a 0 input (init_shell k \<lparr>env = en, status = 0\<rparr> dir)"

text \<open>The handler of \<^verbatim>\<open>SIGCHLD\<close> reports the children that \<^verbatim>\<open>waitpid(0, ...)\<close> returns, until it returns none.\<close>

fun sigchild_handler :: "int list \<Rightarrow> string list" where
  "sigchild_handler [] = []"
| "sigchild_handler (pid # pids) =
     (if pid > 0 then (CHR 0x0A # ''==> terminado: PID='' @ show_int pid @ [CHR 0x0A]) # sigchild_handler pids else [])"

end
