(* ===== verification/Shell_Theorems.thy ===== *)
theory Shell_Theorems
  imports Shell_Exec
begin

text \<open>
  The properties of the shell: the parser against its specification on strings, the open files of the
  processes of a redirection and of a pipeline, the status seen by the user, and the read loop.
\<close>

section \<open>Open files\<close>

text \<open>A table with the three standard streams and nothing else open.\<close>

definition std_fds :: "stream \<Rightarrow> stream \<Rightarrow> stream \<Rightarrow> nat \<Rightarrow> fds" where
  "std_fds i out e n = [Some i, Some out, Some e] @ replicate n None"

lemma fd_get_std:
  "fd_get (std_fds i out e n) 0 = Some i" "fd_get (std_fds i out e n) 1 = Some out" "fd_get (std_fds i out e n) 2 = Some e"
  "3 \<le> m \<Longrightarrow> fd_get (std_fds i out e n) m = None"
  by (auto simp: fd_get_def std_fds_def nth_Cons' nth_append)


lemma fd_open_std:
  "fd_open s (std_fds i out e n) = (3, [Some i, Some out, Some e, Some s] @ replicate (n - 1) None)"
  by (cases n) (simp_all add: fd_open_def std_fds_def)

lemma redirect_std:
  "redirect k cr f 0 (std_fds i out e n) =
     (if open_ok k cr f then Some (std_fds (if cr then Write_file f else Read_file f) out e (max 1 n)) else None)"
  "redirect k cr f (Suc 0) (std_fds i out e n) =
     (if open_ok k cr f then Some (std_fds i (if cr then Write_file f else Read_file f) e (max 1 n)) else None)"
  "redirect k cr f 2 (std_fds i out e n) =
     (if open_ok k cr f then Some (std_fds i out (if cr then Write_file f else Read_file f) (max 1 n)) else None)"
proof -
  have "replicate (max 1 n) (None :: stream option) = None # replicate (n - 1) None" by (cases n) (simp_all add: max_def)
  note facts = this redirect_def open_redir_fd_def fd_open_std [unfolded std_fds_def] fd_dup2_def fd_get_def fd_close_def
    eval_nat_numeral
  show "redirect k cr f 0 (std_fds i out e n) =
     (if open_ok k cr f then Some (std_fds (if cr then Write_file f else Read_file f) out e (max 1 n)) else None)"
    unfolding std_fds_def facts by simp
  show "redirect k cr f (Suc 0) (std_fds i out e n) =
     (if open_ok k cr f then Some (std_fds i (if cr then Write_file f else Read_file f) e (max 1 n)) else None)"
    unfolding std_fds_def facts by simp
  show "redirect k cr f 2 (std_fds i out e n) =
     (if open_ok k cr f then Some (std_fds i out (if cr then Write_file f else Read_file f) (max 1 n)) else None)"
    unfolding std_fds_def facts by simp
qed

lemma dup_std: "fd_dup2 (Suc 0) 2 (std_fds i out e n) = std_fds i out out n"
  by (simp add: fd_dup2_def fd_get_def std_fds_def numeral_eq_Suc)

text \<open>The stream a standard stream ends up with.\<close>

definition in_stream :: "execcmd \<Rightarrow> stream \<Rightarrow> stream" where
  "in_stream r i = (if in_file r = [] then i else Read_file (in_file r))"

definition out_stream :: "execcmd \<Rightarrow> stream \<Rightarrow> stream" where
  "out_stream r out = (if out_file r = [] then out else Write_file (out_file r))"

definition err_stream :: "execcmd \<Rightarrow> stream \<Rightarrow> stream \<Rightarrow> stream" where
  "err_stream r out e = (if err_file r = [] then e
     else if err_file r = ''&1'' then out_stream r out else Write_file (err_file r))"

definition redir_ok :: "os \<Rightarrow> execcmd \<Rightarrow> bool" where
  "redir_ok k r \<longleftrightarrow> (in_file r = [] \<or> open_ok k False (in_file r)) \<and> (out_file r = [] \<or> open_ok k True (out_file r)) \<and>
     (err_file r = [] \<or> err_file r = ''&1'' \<or> open_ok k True (err_file r))"

lemma redirect_streams_std:
  "\<exists>m. redirect_streams k r (std_fds i out e n) =
     (if redir_ok k r then Some (std_fds (in_stream r i) (out_stream r out) (err_stream r out e) m) else None)"
  by (auto simp: redirect_streams_def redirect_std dup_std redir_ok_def in_stream_def out_stream_def err_stream_def
      intro: exI [of _ "max 1 n"])




section \<open>Pipelines\<close>

fun pipeline :: "execcmd list \<Rightarrow> cmd option" where
  "pipeline [] = None"
| "pipeline (e # es) = (case pipeline es of None \<Rightarrow> Some (Exec e) | Some r \<Rightarrow> Some (Pipe (Some (Exec e)) r))"

lemma pipeline_create: "pipeline (e # es) = pipe_cmd_create (Some (Exec e)) (pipeline es)"
  by (simp add: pipe_cmd_create_def)


text \<open>A segment that is a command with at least one argument, that fits, and is not a background command.\<close>

definition plain_segment :: "shell_env \<Rightarrow> string \<Rightarrow> bool" where
  "plain_segment sh s \<longleftrightarrow> s \<noteq> [] \<and> (CHR ''&'' \<in> set s \<longrightarrow> amp_last (takeWhile (\<lambda>x. x \<noteq> CHR ''&'') s)) \<and> 0 < length (arg_fields sh (cmd_fields s)) \<and>
     length (arg_fields sh (cmd_fields s)) < MAXARGS \<and> length (filter is_assign (cmd_fields s)) \<le> MAXARGS"

lemma cmd_of_plain: "plain_segment sh s \<Longrightarrow> cmd_of first sh s = Some (Some (Exec (command_of sh s)))"
  by (auto simp: cmd_of_def plain_segment_def Let_def parse_exec_command amp_last_def)

lemma line_of_pipeline:
  "list_all (plain_segment sh) ss \<Longrightarrow> line_of first sh ss = Some (pipeline (map (command_of sh) ss))"
proof (induction ss arbitrary: first)
  case (Cons s ss)
  then show ?case by (simp add: cmd_of_plain pipeline_create del: pipeline.simps(2))
qed simp

lemma command_of_argv: "plain_segment sh s \<Longrightarrow> argv (command_of sh s) \<noteq> []"
  by (auto simp: plain_segment_def command_of_def Let_def)

text \<open>The processes a command leaves running, from left to right.\<close>

fun processes :: "process option \<Rightarrow> process list" where
  "processes None = []"
| "processes (Some (Waits l r f)) = processes l @ processes r"
| "processes (Some q) = [q]"

definition can_run :: "os \<Rightarrow> execcmd \<Rightarrow> bool" where
  "can_run k e \<longleftrightarrow> argv e \<noteq> [] \<and> exec_ok k (hd (argv e)) \<and> (etype e = REDIR \<longrightarrow> scmd e \<noteq> [] \<and> redir_ok k e)"

definition own_stream :: "execcmd \<Rightarrow> (stream \<Rightarrow> stream) \<Rightarrow> stream \<Rightarrow> stream" where
  "own_stream e f s = (if etype e = REDIR then f s else s)"

text \<open>\<open>runs_with en e i ou er q\<close>: \<open>q\<close> runs \<open>e\<close> with these three streams, redirected as \<open>e\<close> asks, and no other open file.\<close>

definition runs_with :: "(string \<rightharpoonup> string) \<Rightarrow> execcmd \<Rightarrow> stream \<Rightarrow> stream \<Rightarrow> stream \<Rightarrow> process \<Rightarrow> bool" where
  "runs_with en e i ou er q \<longleftrightarrow>
     (\<exists>t. q = Runs (argv e) (set_environ_vars (eargv e) en) t \<and>
       fd_get t 0 = Some (own_stream e (in_stream e) i) \<and> fd_get t 1 = Some (own_stream e (out_stream e) ou) \<and>
       fd_get t 2 = Some (own_stream e (err_stream e ou) er) \<and> (\<forall>m \<ge> 3. fd_get t m = None))"

lemma exec_image_runs:
  "argv e \<noteq> [] \<Longrightarrow> exec_ok k (hd (argv e)) \<Longrightarrow> exec_image k e en t = Some (Runs (argv e) (set_environ_vars (eargv e) en) t)"
  by (cases "argv e") (simp_all add: exec_image_def)

lemma exec_exec_runs:
  assumes "can_run k e"
  shows "\<exists>q. exec_exec k e en (std_fds i ou er n) = Some q \<and> runs_with en e i ou er q \<and> processes (Some q) = [q]"
proof -
  obtain m where m: "redirect_streams k e (std_fds i ou er n) =
      (if redir_ok k e then Some (std_fds (in_stream e i) (out_stream e ou) (err_stream e ou er) m) else None)"
    using redirect_streams_std by blast
  show ?thesis
  proof (cases "etype e")
    case EXEC
    then show ?thesis using assms fd_get_std
      by (auto simp: can_run_def exec_exec_def exec_image_runs runs_with_def own_stream_def)
  next
    case REDIR
    then show ?thesis using assms fd_get_std m
      by (auto simp: can_run_def exec_exec_def exec_image_runs runs_with_def own_stream_def)
  qed
qed

lemma own_stream_keep: "own_stream e f s \<noteq> s \<Longrightarrow> etype e = REDIR"
  by (simp add: own_stream_def split: if_splits)








section \<open>Buffers and scripts\<close>

abbreviation (input) newline :: char where "newline \<equiv> CHR 0x0A"

definition line_buffer :: "string \<Rightarrow> string" where
  "line_buffer l = l @ replicate (BUFLEN - length l) NUL"

lemma line_buffer_two:
  assumes "length l + 2 \<le> BUFLEN"
  shows "drop 0 (line_buffer l) = l @ NUL # NUL # replicate (BUFLEN - 2 - length l) NUL"
proof -
  have "BUFLEN - length l = Suc (Suc (BUFLEN - 2 - length l))" using assms by arith
  then have "replicate (BUFLEN - length l) NUL = NUL # NUL # replicate (BUFLEN - 2 - length l) NUL"
    by (metis replicate_Suc)
  then show ?thesis by (simp add: line_buffer_def)
qed

lemma takeWhile_line: "newline \<notin> set l \<Longrightarrow> takeWhile (\<lambda>c. c \<noteq> newline) (l @ newline # rest) = l"
  by (rule takeWhile_first)

lemma read_line_line:
  "newline \<notin> set l \<Longrightarrow> length l < BUFLEN \<Longrightarrow> read_line (l @ newline # rest) = Some (Some (line_buffer l, rest))"
  by (simp add: read_line_def takeWhile_line line_buffer_def)




section \<open>Status\<close>

lemma and_mask7: "(s :: int) AND 0x7F = s mod 128"
  using take_bit_eq_mask [of 7 s] by (simp add: take_bit_eq_mod mask_eq_exp_minus_1)

lemma exit_status_word:
  assumes "0 \<le> n" "n < 256"
  shows "WIFEXITED (256 * n)" "WEXITSTATUS (256 * n) = n"
proof -
  show "WIFEXITED (256 * n)" by (simp add: WIFEXITED_def WTERMSIG_def and_mask7)
  have "drop_bit 8 ((256 * n) AND 0xFF00) = drop_bit 8 (256 * n) AND drop_bit 8 (0xFF00 :: int)"
    by (rule drop_bit_and)
  also have "\<dots> = n AND 0xFF" by (simp add: drop_bit_eq_div)
  also have "\<dots> = n" using assms take_bit_eq_mask [of 8 n] by (simp add: take_bit_eq_mod mask_eq_exp_minus_1)
  finally show "WEXITSTATUS (256 * n) = n" by (simp add: WEXITSTATUS_def)
qed

text \<open>The words \<^verbatim>\<open>waitpid\<close> stores: an exit with code \<open>n\<close>, and a death by signal \<open>g\<close>, with or without a core dump.\<close>

definition exited_word :: "int \<Rightarrow> int" where "exited_word n = 256 * n"
definition killed_word :: "bool \<Rightarrow> int \<Rightarrow> int" where "killed_word core g = (if core then 128 + g else g)"

lemma killed_status_word:
  assumes "0 < g" "g < 127"
  shows "\<not> WIFEXITED (killed_word core g)" "WIFSIGNALED (killed_word core g)" "WTERMSIG (killed_word core g) = g"
proof -
  have "(128 + g) mod 128 = g" using assms by (simp flip: mod_add_eq)
  then show t: "WTERMSIG (killed_word core g) = g" using assms by (auto simp: WTERMSIG_def and_mask7 killed_word_def)
  then show "\<not> WIFEXITED (killed_word core g)" using assms by (simp add: WIFEXITED_def)
  show "WIFSIGNALED (killed_word core g)" using assms by (simp add: WIFSIGNALED_def t signed_char_def drop_bit_eq_div)
qed

lemma expand_status: "expand_environ_var sh ''$?'' = show_int (status sh)"
  by (simp add: expand_environ_var_def)

lemma parse_line_buffer:
  "length l + 2 \<le> BUFLEN \<Longrightarrow> NUL \<notin> set l \<Longrightarrow>
   map_option fst (parse_line sh (line_buffer l) 0) = line_of True sh (line_segments l)"
  using parse_line_spec [OF line_buffer_two, of l sh] by simp

lemma str_at_buffer: "length l < BUFLEN \<Longrightarrow> NUL \<notin> set l \<Longrightarrow> str_at (line_buffer l) 0 = Some l"
  by (rule str_at_prefix [of _ _ _ "replicate (BUFLEN - 1 - length l) NUL"])
    (simp_all add: line_buffer_def Suc_diff_Suc flip: replicate_Suc)

text \<open>A line that is not a built-in command.\<close>

definition external :: "string \<Rightarrow> bool" where
  "external l \<longleftrightarrow> l \<noteq> [] \<and> \<not> (take 2 l = ''cd'' \<and> (length l \<le> 2 \<or> l ! 2 = SPACE)) \<and> l \<noteq> ''exit'' \<and> l \<noteq> ''pwd''"

definition with_status :: "cmd \<Rightarrow> int option \<Rightarrow> shell \<Rightarrow> shell" where
  "with_status c w st = (case c of Back s b \<Rightarrow> st
     | _ \<Rightarrow> st\<lparr>senv := (senv st)\<lparr>status := print_status_info c (case w of None \<Rightarrow> status (senv st) | Some w \<Rightarrow> w)\<rparr>\<rparr>)"

lemma run_cmd_external:
  assumes "external l" "length l + 2 \<le> BUFLEN" "NUL \<notin> set l"
  shows "run_cmd k a (line_buffer l) st =
    (case line_of True (senv st) (line_segments l) of
       Some (Some c) \<Rightarrow>
         map_option (\<lambda>_. (False, with_status c (waited a) st,
             if forked a then [Child c (exec_cmd k c [] (env (senv st)) (map (Some \<circ> Given) [0..<3]) c)] else []))
           (free_command (Some c))
     | _ \<Rightarrow> None)"
proof -
  have s: "str_at (line_buffer l) 0 = Some l" using assms by (intro str_at_buffer) simp_all
  have b: "cd k l st = (False, st)" "\<not> exit_shell l" "pwd l st = Some None" "\<not> history l"
    using assms(1) by (auto simp: external_def cd_def exit_shell_def pwd_def history_def)
  have run: "run_cmd k a (line_buffer l) st = do {
       (parsed, buf) \<leftarrow> parse_line (senv st) (line_buffer l) 0;
       c \<leftarrow> parsed;
       xs \<leftarrow> free_command (Some c);
       Some (False, with_status c (waited a) st,
         if forked a then [Child c (exec_cmd k c [] (env (senv st)) (map (Some \<circ> Given) [0..<3]) c)] else [])
     }"
    using b assms(1) unfolding run_cmd_def s by (simp add: Let_def external_def with_status_def)
  show ?thesis
    unfolding run parse_line_buffer [OF assms(2,3), of "senv st", symmetric]
    by (cases "parse_line (senv st) (line_buffer l) 0") (auto simp: bind_map split: option.split)
qed

lemma line_of_plain:
  assumes "plain_segment sh l" "CHR ''|'' \<notin> set l"
  shows "line_of True sh (line_segments l) = Some (Some (Exec (command_of sh l)))"
  using assms line_of_pipeline [of sh "[l]"] by (simp add: line_segments_single)

lemma command_of_scmd [simp]: "scmd (command_of sh l) = l"
  by (simp add: command_of_def Let_def)

lemma run_cmd_plain:
  assumes "external l" "length l + 2 \<le> BUFLEN" "NUL \<notin> set l" "plain_segment (senv st) l" "CHR ''|'' \<notin> set l"
  shows "\<exists>ev. run_cmd k a (line_buffer l) st =
    Some (False, with_status (Exec (command_of (senv st) l)) (waited a) st, ev)"
  unfolding run_cmd_external [OF assms(1-3)] line_of_plain [OF assms(4,5)] by simp

section \<open>Properties\<close>


text \<open>
  C11. For a line of at most 1022 bytes in the buffer of the shell, the in-place parser computes the command of the
  segments between pipes, nested to the right: the segments are independent of each other although the parser
  overwrites the buffer.
\<close>
theorem parse_line_correct:
  assumes "length l + 2 \<le> BUFLEN" and "NUL \<notin> set l"
  shows "map_option fst (parse_line sh (line_buffer l) 0) = line_of True sh (line_segments l)"
  using assms by (rule parse_line_buffer)

theorem parse_line_correct_witness:
  "map_option fst (parse_line \<lparr>env = Map.empty, status = 0\<rparr> (line_buffer ''ls -l | wc'') 0) =
     Some (Some (Pipe
       (Some (Exec \<lparr>etype = EXEC, scmd = ''ls -l '', argv = [''ls'', ''-l''], eargv = [], out_file = [], in_file = [], err_file = []\<rparr>))
       (Exec \<lparr>etype = EXEC, scmd = ''wc'', argv = [''wc''], eargv = [], out_file = [], in_file = [], err_file = []\<rparr>)))"
proof -
  have "line_of True \<lparr>env = Map.empty, status = 0\<rparr> (line_segments ''ls -l | wc'') =
     Some (Some (Pipe
       (Some (Exec \<lparr>etype = EXEC, scmd = ''ls -l '', argv = [''ls'', ''-l''], eargv = [], out_file = [], in_file = [], err_file = []\<rparr>))
       (Exec \<lparr>etype = EXEC, scmd = ''wc'', argv = [''wc''], eargv = [], out_file = [], in_file = [], err_file = []\<rparr>)))"
    by code_simp
  then show ?thesis using parse_line_correct [of "''ls -l | wc''" "\<lparr>env = Map.empty, status = 0\<rparr>"] by simp
qed


definition any_os :: os where
  "any_os = \<lparr>open_ok = (\<lambda>_ _. True), pipe_ok = (\<lambda>_. True), fork_ok = (\<lambda>_. True), exec_ok = (\<lambda>_. True),
     chdir_to = (\<lambda>_ d. Some d)\<rparr>"

definition any_shell :: shell where
  "any_shell = \<lparr>senv = \<lparr>env = Map.empty, status = 0\<rparr>, cwd = ''/'', prompt = []\<rparr>"

definition exit_zero :: reply where
  "exit_zero = \<lparr>forked = True, waited = Some 0\<rparr>"



text \<open>
  C13. A single command on every path: a redirection whose file cannot be opened, or a program that cannot be
  executed, ends the child with status 1; a command without arguments passes the null pointer to \<^verbatim>\<open>execvp\<close>; otherwise the
  program runs with its three streams redirected as asked, also when \<^verbatim>\<open>2>&1\<close> copies the new standard output.
\<close>
theorem exec_cmd_single:
  assumes "scmd e \<noteq> []" and "q = exec_cmd k w p en (std_fds i ou er n) (Exec e)"
  shows "if etype e = REDIR \<and> \<not> redir_ok k e then q = Some (Exits 1)
         else if argv e = [] then q = None
         else if \<not> exec_ok k (hd (argv e)) then q = Some (Exits 1)
         else \<exists>r. q = Some r \<and> runs_with en e i ou er r"
proof -
  obtain m where m: "redirect_streams k e (std_fds i ou er n) =
      (if redir_ok k e then Some (std_fds (in_stream e i) (out_stream e ou) (err_stream e ou er) m) else None)"
    using redirect_streams_std by blast
  have "\<exists>r. q = Some r \<and> runs_with en e i ou er r" if "can_run k e"
    using exec_exec_runs [OF that, of en i ou er n] assms(2) by auto
  moreover have "can_run k e" if "\<not> (etype e = REDIR \<and> \<not> redir_ok k e)" "argv e \<noteq> []" "exec_ok k (hd (argv e))"
    using that assms(1) by (simp add: can_run_def)
  moreover have "q = (if etype e = REDIR \<and> \<not> redir_ok k e then Some (Exits 1) else None)" if "argv e = []"
    using m assms that by (cases "etype e") (simp_all add: exec_exec_def exec_image_def)
  moreover have "q = Some (Exits 1)" if "argv e \<noteq> []" "etype e = REDIR \<and> \<not> redir_ok k e \<or> \<not> exec_ok k (hd (argv e))"
    using m assms that by (cases "argv e"; cases "etype e") (auto simp: exec_exec_def exec_image_def)
  ultimately show ?thesis by auto
qed

theorem exec_cmd_single_witness:
  "\<exists>r. exec_cmd any_os (Exec (exec_cmd_create [])) [] Map.empty (std_fds (Given 0) (Given 1) (Given 2) 0)
      (Exec \<lparr>etype = REDIR, scmd = ''ls >f 2>&1'', argv = [''ls''], eargv = [], out_file = ''f'', in_file = [], err_file = ''&1''\<rparr>)
      = Some r \<and>
     r = Runs [''ls''] Map.empty [Some (Given 0), Some (Write_file ''f''), Some (Write_file ''f''), None]"
  using exec_cmd_single [OF _ refl, of "\<lparr>etype = REDIR, scmd = ''ls >f 2>&1'', argv = [''ls''], eargv = [], out_file = ''f'',
      in_file = [], err_file = ''&1''\<rparr>" any_os "Exec (exec_cmd_create [])" "[]" Map.empty "Given 0" "Given 1" "Given 2" 0]
  by (simp add: exec_exec_def redirect_streams_def redirect_std dup_std any_os_def exec_image_def, simp add: std_fds_def)

text \<open>
  After a foreground command, \<^verbatim>\<open>$?\<close> is the exit code of the program, or the negated number of the signal that
  killed it.
\<close>
theorem foreground_status:
  assumes "external l" "length l + 2 \<le> BUFLEN" "NUL \<notin> set l" "plain_segment (senv st) l" "CHR ''|'' \<notin> set l"
    and "waited a = Some (if killed then killed_word core g else exited_word g)"
    and "0 \<le> g" "g < 256" "killed \<Longrightarrow> 0 < g \<and> g < 127"
  shows "\<exists>st' ev. run_cmd k a (line_buffer l) st = Some (False, st', ev) \<and>
     expand_environ_var (senv st') ''$?'' = show_int (if killed then - g else g)"
proof -
  have "print_status_info (Exec (command_of (senv st) l)) (if killed then killed_word core g else exited_word g) =
      (if killed then - g else g)"
    using assms(1,7-9) exit_status_word [of g] killed_status_word [of g core]
    by (auto simp: print_status_info_def exited_word_def external_def)
  then show ?thesis
    using run_cmd_plain [OF assms(1-5), of k a] assms(6) by (auto simp: expand_status with_status_def)
qed

theorem foreground_status_witness:
  "\<exists>st' ev. run_cmd any_os \<lparr>forked = True, waited = Some (exited_word 3)\<rparr> (line_buffer ''grep x f'')
      \<lparr>senv = \<lparr>env = Map.empty, status = 0\<rparr>, cwd = ''/'', prompt = []\<rparr> = Some (False, st', ev) \<and>
     expand_environ_var (senv st') ''$?'' = ''3''"
proof -
  let ?st = "\<lparr>senv = \<lparr>env = Map.empty, status = 0\<rparr>, cwd = ''/'', prompt = []\<rparr>"
  have "plain_segment (senv ?st) ''grep x f''" by code_simp
  moreover have "external ''grep x f''" by (simp add: external_def)
  moreover have "show_int 3 = ''3''" by code_simp
  ultimately show ?thesis
    using foreground_status [of "''grep x f''" ?st "\<lparr>forked = True, waited = Some (exited_word 3)\<rparr>" False False 3 any_os]
    by simp
qed

text \<open>
  When the handler of \<^verbatim>\<open>SIGCHLD\<close> collects the foreground child first, \<^verbatim>\<open>waitpid\<close> stores nothing and the status
  of the previous command, already decoded, is decoded again: an earlier exit code n between 1 and 126 is reported
  as death by signal n.
\<close>
theorem stale_status_decoded_twice:
  assumes "external l" "length l + 2 \<le> BUFLEN" "NUL \<notin> set l" "plain_segment (senv st) l" "CHR ''|'' \<notin> set l"
    and "waited a = None" and "0 < status (senv st)" "status (senv st) < 127"
  shows "\<exists>st' ev. run_cmd k a (line_buffer l) st = Some (False, st', ev) \<and> status (senv st') = - status (senv st)"
proof -
  have "print_status_info (Exec (command_of (senv st) l)) (status (senv st)) = - status (senv st)"
    using assms(1,7,8) killed_status_word [of "status (senv st)" False]
    by (simp add: print_status_info_def killed_word_def external_def)
  then show ?thesis using run_cmd_plain [OF assms(1-5), of k a] assms(6) by (auto simp: with_status_def)
qed

theorem stale_status_decoded_twice_witness:
  "\<exists>st' ev. run_cmd any_os \<lparr>forked = True, waited = None\<rparr> (line_buffer ''ls'')
      \<lparr>senv = \<lparr>env = Map.empty, status = 1\<rparr>, cwd = ''/'', prompt = []\<rparr> = Some (False, st', ev) \<and>
     status (senv st') = - 1"
proof -
  let ?st = "\<lparr>senv = \<lparr>env = Map.empty, status = 1\<rparr>, cwd = ''/'', prompt = []\<rparr>"
  have "plain_segment (senv ?st) ''ls''" by code_simp
  moreover have "external ''ls''" by (simp add: external_def)
  ultimately show ?thesis
    using stale_status_decoded_twice [of "''ls''" ?st "\<lparr>forked = True, waited = None\<rparr>" any_os] by simp
qed



text \<open>
  A line that begins with a pipe crashes the shell itself: the left command is a null pointer, which is
  dereferenced when the command is freed (or before).
\<close>
theorem leading_pipe_crashes:
  assumes "length t + 3 \<le> BUFLEN" and "NUL \<notin> set t"
  shows "run_cmd k a (line_buffer (CHR ''|'' # t)) st = None"
proof -
  let ?l = "CHR ''|'' # t" and ?t = "dropWhile (\<lambda>x. x = SPACE) t"
  have "line_segments ?l = [] # line_segments ?t" using line_segments_pipe [of "[]" t] by simp
  then have "line_of True (senv st) (line_segments ?l) = do {
      r \<leftarrow> line_of False (senv st) (line_segments ?t); Some (pipe_cmd_create None r)}"
    by (simp add: cmd_of_def)
  moreover have "external ?l" by (simp add: external_def)
  ultimately show ?thesis
    using assms by (simp add: run_cmd_external pipe_cmd_create_def bind_map split: option.split)
qed

theorem leading_pipe_crashes_witness:
  "run_cmd any_os exit_zero (line_buffer ''| ls'') any_shell = None"
  using leading_pipe_crashes [of "'' ls''" any_os exit_zero any_shell] by simp

text \<open>
  A line of exactly 1023 bytes without a pipe fits the input buffer, yet the parser looks for the right-hand
  command one byte past its end.
\<close>
theorem full_line_overread:
  assumes "length l = BUFLEN - 1" and "NUL \<notin> set l" and "CHR ''|'' \<notin> set l" and "newline \<notin> set l"
  shows "read_line (l @ newline # rest) = Some (Some (line_buffer l, rest)) \<and> parse_line sh (line_buffer l) 0 = None"
proof -
  have b: "line_buffer l = l @ [NUL]" using assms(1) by (simp add: line_buffer_def)
  have "drop 0 (l @ [NUL]) = l @ NUL # []" by simp
  then have "scan_while (\<lambda>x. x \<noteq> CHR ''|'' \<and> x \<noteq> NUL) (l @ [NUL]) 0 = Some (0 + length l)"
    by (rule scan_while_prefix) (use assms in auto)
  moreover have "scan_while (\<lambda>x. x = SPACE) ((l @ [NUL])[length l := NUL]) (Suc (length l)) = None"
    by (simp add: scan_while.simps)
  ultimately have "split_line (line_buffer l) 0 (CHR ''|'') = None" by (simp add: b split_line_def Let_def)
  then show ?thesis using assms(1,4) read_line_line [of l rest] by (simp add: parse_line.simps)
qed

theorem full_line_overread_witness:
  "parse_line (senv any_shell) (line_buffer (replicate 1023 (CHR ''a''))) 0 = None"
  using full_line_overread [of "replicate 1023 (CHR ''a'')" "[]" "senv any_shell"] by simp

text \<open>
  The assignments before a command extend the environment of the child; for a repeated name the last one counts.
\<close>
theorem set_environ_vars_last:
  assumes "list_all is_assign xs"
  shows "set_environ_vars xs e = e ++ map_of (rev (map (\<lambda>x. (takeWhile (\<lambda>c. c \<noteq> CHR ''='') x,
     drop 1 (dropWhile (\<lambda>c. c \<noteq> CHR ''='') x))) xs))"
  using assms
proof (induction xs arbitrary: e)
  case (Cons x xs)
  then have "CHR ''='' \<in> set x" "hd x \<noteq> CHR ''=''" "x \<noteq> []"
    by (cases x; auto simp: is_assign_def)+
  then obtain u v where x: "x = u @ CHR ''='' # v" "CHR ''='' \<notin> set u" by (metis split_list_first)
  then have "u \<noteq> []" using \<open>hd x \<noteq> _\<close> by auto
  then have "set_environ_vars (x # xs) e = set_environ_vars xs (e(u \<mapsto> v))"
    using x by (simp add: Let_def block_contains_first get_environ_key_def get_environ_value_def takeWhile_first)
  moreover have "list_all is_assign xs" using Cons.prems by simp
  ultimately show ?case unfolding Cons.IH [OF \<open>list_all is_assign xs\<close>, of "e(u \<mapsto> v)"]
    using x by (simp add: takeWhile_first dropWhile_first del: set_environ_vars.simps)
qed simp

theorem set_environ_vars_last_witness:
  "set_environ_vars [''A=1'', ''B=2'', ''A=3''] Map.empty ''A'' = Some ''3''"
proof -
  have "list_all is_assign [''A=1'', ''B=2'', ''A=3'']" by code_simp
  from set_environ_vars_last [OF this, of Map.empty] show ?thesis by simp
qed

end
