(* ===== verification/Kern_List.thy ===== *)
theory Kern_List
  imports Prelude
begin

text \<open>
  Intrusive free lists: the kernel keeps free page descriptors and free environments in singly linked lists
  threaded through arrays (\<^verbatim>\<open>pp_link\<close> in \<^verbatim>\<open>src/TP Sched/kern/pmap.c\<close>, \<^verbatim>\<open>env_link\<close> in \<^verbatim>\<open>kern/env.c\<close>). A pointer into
  the array is an index. The interface \<open>free_list\<close> says what taking the head and adding an element do to the
  links; its lemmas give the list that the pointers describe.
\<close>

fun chain :: "(nat \<Rightarrow> nat option) \<Rightarrow> nat option \<Rightarrow> nat list \<Rightarrow> bool" where
  "chain l h [] \<longleftrightarrow> h = None"
| "chain l h (x # xs) \<longleftrightarrow> h = Some x \<and> chain l (l x) xs"

lemma chain_cong: "(\<And>x. x \<in> set xs \<Longrightarrow> l x = l' x) \<Longrightarrow> chain l h xs = chain l' h xs"
  by (induction xs arbitrary: h) auto

lemma chain_unique: "chain l h xs \<Longrightarrow> chain l h ys \<Longrightarrow> xs = ys"
proof (induction xs arbitrary: h ys)
  case Nil
  then show ?case by (cases ys) auto
next
  case (Cons x xs)
  then show ?case by (cases ys) auto
qed

text \<open>A run of consecutive elements.\<close>

lemma chain_upt:
  assumes "a < b" "\<And>i. a \<le> i \<Longrightarrow> i < b \<Longrightarrow> l i = (if Suc i < b then Some (Suc i) else None)"
  shows "chain l (Some a) [a..<b]"
  using assms
proof (induction "b - a" arbitrary: a)
  case (Suc n)
  show ?case
  proof (cases "Suc a < b")
    case True
    then have "chain l (Some (Suc a)) [Suc a..<b]" using Suc by (intro Suc.hyps(1)) simp_all
    then show ?thesis using Suc.prems True by (simp add: upt_conv_Cons)
  next
    case False
    then have "[a..<b] = [a]" using Suc.prems(1) by (simp add: upt_conv_Cons)
    then show ?thesis using Suc.prems False by simp
  qed
qed simp

text \<open>\<open>listed\<close> holds the elements on the list, without repetition and within bounds.\<close>

definition listed :: "(nat \<Rightarrow> nat option) \<Rightarrow> nat option \<Rightarrow> nat \<Rightarrow> nat list \<Rightarrow> bool" where
  "listed l h n xs \<longleftrightarrow> chain l h xs \<and> distinct xs \<and> (\<forall>x \<in> set xs. x < n)"

lemma listed_empty: "listed l None n []"
  by (simp add: listed_def)

lemma listed_head: "listed l (Some x) n xs \<Longrightarrow> xs \<noteq> [] \<and> hd xs = x \<and> x < n"
  by (cases xs) (auto simp: listed_def)

lemma listed_None: "listed l None n xs \<longleftrightarrow> xs = []"
  by (cases xs) (auto simp: listed_def)

locale free_list =
  fixes head :: "'s \<Rightarrow> nat option" and link :: "'s \<Rightarrow> nat \<Rightarrow> nat option"
    and pop :: "'s \<Rightarrow> 's" and push :: "nat \<Rightarrow> 's \<Rightarrow> 's" and size_of :: "'s \<Rightarrow> nat"
  assumes head_pop: "head s = Some x \<Longrightarrow> x < size_of s \<Longrightarrow> head (pop s) = link s x"
    and link_pop: "head s = Some x \<Longrightarrow> y \<noteq> x \<Longrightarrow> link (pop s) y = link s y"
    and size_pop: "size_of (pop s) = size_of s"
    and head_push: "x < size_of s \<Longrightarrow> head (push x s) = Some x"
    and link_push: "x < size_of s \<Longrightarrow> link (push x s) y = (if y = x then head s else link s y)"
    and size_push: "size_of (push x s) = size_of s"
begin

definition free_listed :: "'s \<Rightarrow> nat list \<Rightarrow> bool" where
  "free_listed s xs \<longleftrightarrow> listed (link s) (head s) (size_of s) xs"

lemma free_listed_unique: "free_listed s xs \<Longrightarrow> free_listed s ys \<Longrightarrow> xs = ys"
  by (auto simp: free_listed_def listed_def dest: chain_unique)

lemma free_listed_cons: "free_listed s xs \<Longrightarrow> head s = Some x \<Longrightarrow> \<exists>ys. xs = x # ys \<and> x < size_of s"
  by (cases xs) (auto simp: free_listed_def listed_def)

lemma free_listed_pop:
  assumes "free_listed s (x # xs)"
  shows "free_listed (pop s) xs"
proof -
  have h: "head s = Some x" "x < size_of s" "chain (link s) (link s x) xs" "distinct (x # xs)"
    using assms by (auto simp: free_listed_def listed_def)
  have "chain (link (pop s)) (link s x) xs"
    using h(3) by (rule chain_cong [THEN iffD1, rotated]) (metis h(4) distinct.simps(2) link_pop [OF h(1)])
  then show ?thesis using assms h by (auto simp: free_listed_def listed_def head_pop size_pop)
qed

lemma free_listed_push:
  assumes "free_listed s xs" "x < size_of s" "x \<notin> set xs"
  shows "free_listed (push x s) (x # xs)"
proof -
  have "chain (link (push x s)) (head s) xs"
    by (rule chain_cong [THEN iffD1, rotated, of "link s"])
      (use assms link_push [OF assms(2)] in \<open>auto simp: free_listed_def listed_def\<close>)
  then show ?thesis using assms by (auto simp: free_listed_def listed_def head_push link_push size_push)
qed

text \<open>Taking what was just added gives the list back: the free lists are stacks.\<close>

lemma free_listed_push_pop:
  "free_listed s xs \<Longrightarrow> x < size_of s \<Longrightarrow> x \<notin> set xs \<Longrightarrow> free_listed (pop (push x s)) xs"
  by (intro free_listed_pop [of _ x] free_listed_push)

end

end
