(* ===== verification/Kern_Pmap.thy ===== *)
theory Kern_Pmap
  imports Kern_List
begin

unbundle bit_operations_syntax

text \<open>
  Physical pages and two-level page tables: \<^verbatim>\<open>src/TP Sched/kern/pmap.c\<close> with the macros of \<^verbatim>\<open>inc/mmu.h\<close>, \<^verbatim>\<open>inc/memlayout.h\<close>
  and \<^verbatim>\<open>kern/pmap.h\<close>.

  A page descriptor, its physical page and the kernel address of that page are all named by the page number. The
  contents of a page are 1024 words of 32 bits, so a page-table entry is addressed by a page number and an index.
  \<^term>\<open>None\<close> is a panic of the kernel. The TLB is not modelled.
\<close>

section \<open>Addresses\<close>

abbreviation (input) PGSIZE :: "32 word" where "PGSIZE \<equiv> 4096"
abbreviation (input) UTOP :: "32 word" where "UTOP \<equiv> 0xEEC00000"
abbreviation (input) PTE_P :: "32 word" where "PTE_P \<equiv> 1"
abbreviation (input) PTE_W :: "32 word" where "PTE_W \<equiv> 2"
abbreviation (input) PTE_U :: "32 word" where "PTE_U \<equiv> 4"

definition PGNUM :: "32 word \<Rightarrow> nat" where "PGNUM la = unat (drop_bit 12 la)"
definition PDX :: "32 word \<Rightarrow> nat" where "PDX la = unat (drop_bit 22 la AND 0x3FF)"
definition PTX :: "32 word \<Rightarrow> nat" where "PTX la = unat (drop_bit 12 la AND 0x3FF)"
definition PTE_ADDR :: "32 word \<Rightarrow> 32 word" where "PTE_ADDR pte = pte AND NOT 0xFFF"
definition ROUNDDOWN :: "32 word \<Rightarrow> 32 word \<Rightarrow> 32 word" where "ROUNDDOWN a n = a - a mod n"
definition ROUNDUP :: "32 word \<Rightarrow> 32 word \<Rightarrow> 32 word" where "ROUNDUP a n = ROUNDDOWN (a + n - 1) n"
definition page2pa :: "nat \<Rightarrow> 32 word" where "page2pa p = push_bit 12 (of_nat p)"

section \<open>State\<close>

record page_info =
  pp_link :: "nat option"
  pp_ref :: "16 word"

record machine =
  pages :: "page_info list"
  page_free_list :: "nat option"
  pmem :: "nat \<Rightarrow> nat \<Rightarrow> 32 word"

definition npages :: "('a) machine_scheme \<Rightarrow> nat" where
  "npages m = length (pages m)"

definition upd_page :: "nat \<Rightarrow> (page_info \<Rightarrow> page_info) \<Rightarrow> 'a machine_scheme \<Rightarrow> 'a machine_scheme" where
  "upd_page p f m = m\<lparr>pages := (pages m)[p := f (pages m ! p)]\<rparr>"

definition put_word :: "nat \<Rightarrow> nat \<Rightarrow> 32 word \<Rightarrow> 'a machine_scheme \<Rightarrow> 'a machine_scheme" where
  "put_word p i w m = m\<lparr>pmem := (pmem m)(p := (pmem m p)(i := w))\<rparr>"

definition zero_page :: "nat \<Rightarrow> 'a machine_scheme \<Rightarrow> 'a machine_scheme" where
  "zero_page p m = m\<lparr>pmem := (pmem m)(p := (\<lambda>_. 0))\<rparr>"

text \<open>\<^verbatim>\<open>pa2page\<close> and \<^verbatim>\<open>KADDR\<close> panic beyond the end of memory.\<close>

definition pa2page :: "'a machine_scheme \<Rightarrow> 32 word \<Rightarrow> nat option" where
  "pa2page m pa = (if PGNUM pa < npages m then Some (PGNUM pa) else None)"

section \<open>The page allocator\<close>

abbreviation (input) MPENTRY_PADDR :: "32 word" where "MPENTRY_PADDR \<equiv> 0x7000"
abbreviation (input) IOPHYSMEM :: "32 word" where "IOPHYSMEM \<equiv> 0x0A0000"
abbreviation (input) EXTPHYSMEM :: "32 word" where "EXTPHYSMEM \<equiv> 0x100000"

definition page_push :: "nat \<Rightarrow> 'a machine_scheme \<Rightarrow> 'a machine_scheme" where
  "page_push p m = (upd_page p (\<lambda>i. i\<lparr>pp_link := page_free_list m\<rparr>) m)\<lparr>page_free_list := Some p\<rparr>"

definition page_pop :: "'a machine_scheme \<Rightarrow> 'a machine_scheme" where
  "page_pop m = (case page_free_list m of None \<Rightarrow> m
     | Some p \<Rightarrow> upd_page p (\<lambda>i. i\<lparr>pp_link := None\<rparr>) (m\<lparr>page_free_list := pp_link (pages m ! p)\<rparr>))"

text \<open>\<open>next_free\<close> is the address \<^verbatim>\<open>PADDR(boot_alloc(0))\<close> of the first page after the kernel's own data.\<close>

definition page_init_free :: "32 word \<Rightarrow> nat \<Rightarrow> bool" where
  "page_init_free next_free i \<longleftrightarrow> i \<noteq> 0 \<and> i \<noteq> PGNUM MPENTRY_PADDR \<and>
     \<not> (i \<ge> PGNUM IOPHYSMEM \<and> i < PGNUM EXTPHYSMEM) \<and> \<not> (i \<ge> PGNUM EXTPHYSMEM \<and> i < PGNUM next_free)"

definition page_init :: "32 word \<Rightarrow> 'a machine_scheme \<Rightarrow> 'a machine_scheme" where
  "page_init next_free m = fold (\<lambda>i m.
     let m = upd_page i (\<lambda>pi. pi\<lparr>pp_link := None\<rparr>) m in
     if page_init_free next_free i then page_push i (upd_page i (\<lambda>pi. pi\<lparr>pp_ref := 0\<rparr>) m) else m)
     [0..<npages m] m"

definition page_alloc :: "bool \<Rightarrow> 'a machine_scheme \<Rightarrow> nat option \<times> 'a machine_scheme" where
  "page_alloc zero m = (case page_free_list m of
     None \<Rightarrow> (None, m)
   | Some p \<Rightarrow> (Some p, if zero then zero_page p (page_pop m) else page_pop m))"

definition page_free :: "nat \<Rightarrow> 'a machine_scheme \<Rightarrow> 'a machine_scheme option" where
  "page_free p m =
     (if pp_ref (pages m ! p) \<noteq> 0 then None
      else if pp_link (pages m ! p) \<noteq> None then None
      else Some (page_push p m))"

definition page_decref :: "nat \<Rightarrow> 'a machine_scheme \<Rightarrow> 'a machine_scheme option" where
  "page_decref p m =
     (let m = upd_page p (\<lambda>i. i\<lparr>pp_ref := pp_ref i - 1\<rparr>) m in
      if pp_ref (pages m ! p) = 0 then page_free p m else Some m)"

section \<open>Page tables\<close>

text \<open>The result is the entry (page and index), or none.\<close>

definition pgdir_walk :: "nat \<Rightarrow> 32 word \<Rightarrow> bool \<Rightarrow> 'a machine_scheme \<Rightarrow> ((nat \<times> nat) option \<times> 'a machine_scheme) option" where
  "pgdir_walk pgdir va create m =
     (let pdx = PDX va;
          m = (if pmem m pgdir pdx = 0 \<and> create
               then (case page_alloc True m of
                       (None, m) \<Rightarrow> m
                     | (Some p, m) \<Rightarrow>
                         put_word pgdir pdx (page2pa p OR PTE_P OR PTE_W OR PTE_U)
                           (upd_page p (\<lambda>i. i\<lparr>pp_ref := pp_ref i + 1\<rparr>) m))
               else m)
      in if pmem m pgdir pdx \<noteq> 0
         then (case pa2page m (PTE_ADDR (pmem m pgdir pdx)) of
                 None \<Rightarrow> None
               | Some t \<Rightarrow> Some (Some (t, PTX va), m))
         else Some (None, m))"

text \<open>
  \<^verbatim>\<open>page_lookup\<close> tests \<^verbatim>\<open>*pte && PTE_P\<close>, a logical and: any entry that is not zero counts as present. The result
  is the page with its entry.
\<close>

definition page_lookup :: "nat \<Rightarrow> 32 word \<Rightarrow> 'a machine_scheme \<Rightarrow> (nat \<times> nat \<times> nat) option option" where
  "page_lookup pgdir va m = do {
     (pte, m) \<leftarrow> pgdir_walk pgdir va False m;
     case pte of
       None \<Rightarrow> Some None
     | Some (t, i) \<Rightarrow>
         if pmem m t i \<noteq> 0 \<and> PTE_P \<noteq> 0
         then do {
           p \<leftarrow> pa2page m (PTE_ADDR (pmem m t i));
           Some (Some (p, t, i))
         }
         else Some None
   }"

definition page_remove :: "nat \<Rightarrow> 32 word \<Rightarrow> 'a machine_scheme \<Rightarrow> 'a machine_scheme option" where
  "page_remove pgdir va m = do {
     r \<leftarrow> page_lookup pgdir va m;
     case r of
       None \<Rightarrow> Some m
     | Some (p, t, i) \<Rightarrow> do {
         m \<leftarrow> page_decref p m;
         Some (put_word t i 0 m)
       }
   }"

abbreviation (input) E_NO_MEM :: int where "E_NO_MEM \<equiv> 4"
abbreviation (input) E_FAULT :: int where "E_FAULT \<equiv> 6"

definition page_insert :: "nat \<Rightarrow> nat \<Rightarrow> 32 word \<Rightarrow> 32 word \<Rightarrow> 'a machine_scheme \<Rightarrow> (int \<times> 'a machine_scheme) option" where
  "page_insert pgdir pp va perm m = do {
     (pte, m) \<leftarrow> pgdir_walk pgdir va True m;
     case pte of
       None \<Rightarrow> Some (- E_NO_MEM, m)
     | Some (t, i) \<Rightarrow> do {
         let m = upd_page pp (\<lambda>i. i\<lparr>pp_ref := pp_ref i + 1\<rparr>) m;
         m \<leftarrow> page_remove pgdir va m;
         Some (0, put_word t i (page2pa pp OR perm OR PTE_P) m)
       }
   }"

text \<open>\<^verbatim>\<open>boot_map_region\<close> without large pages; the entry found by \<^verbatim>\<open>pgdir_walk\<close> must exist.\<close>

fun boot_map_pages :: "nat \<Rightarrow> nat \<Rightarrow> 32 word \<Rightarrow> 32 word \<Rightarrow> 32 word \<Rightarrow> 'a machine_scheme \<Rightarrow> 'a machine_scheme option" where
  "boot_map_pages pgdir 0 va pa perm m = Some m"
| "boot_map_pages pgdir (Suc n) va pa perm m = do {
     (pte, m) \<leftarrow> pgdir_walk pgdir va True m;
     m \<leftarrow> page_remove pgdir va m;
     (t, i) \<leftarrow> pte;
     boot_map_pages pgdir n (va + PGSIZE) (pa + PGSIZE) perm (put_word t i (pa OR perm OR PTE_P) m)
   }"

definition boot_map_region :: "nat \<Rightarrow> 32 word \<Rightarrow> nat \<Rightarrow> 32 word \<Rightarrow> 32 word \<Rightarrow> 'a machine_scheme \<Rightarrow> 'a machine_scheme option" where
  "boot_map_region pgdir va sz pa perm m = boot_map_pages pgdir ((sz + 4095) div 4096) va pa perm m"

text \<open>\<^verbatim>\<open>mmio_map_region\<close> with the static variable \<open>base\<close> passed in and out.\<close>

abbreviation (input) MMIOLIM :: "32 word" where "MMIOLIM \<equiv> 0xEFC00000"
abbreviation (input) MMIOBASE :: "32 word" where "MMIOBASE \<equiv> 0xEF800000"

definition mmio_map_region :: "nat \<Rightarrow> 32 word \<Rightarrow> 32 word \<Rightarrow> 32 word \<Rightarrow> 'a machine_scheme \<Rightarrow> (32 word \<times> 32 word \<times> 'a machine_scheme) option" where
  "mmio_map_region kern_pgdir base pa sz m = do {
     let pa = ROUNDDOWN pa PGSIZE;
     let sz = ROUNDUP sz PGSIZE;
     guard (base + sz < MMIOLIM);
     m \<leftarrow> boot_map_region kern_pgdir base (unat sz) pa (PTE_W OR PTE_P OR 0x10 OR 0x8) m;
     Some (base, base + sz, m)
   }"

section \<open>Checking user memory\<close>

text \<open>
  The loop of \<^verbatim>\<open>user_mem_check\<close>: the address of the first bad page, if any. It is only entered with an upper bound of
  at most \<^verbatim>\<open>UTOP\<close>, which keeps the loop variable from wrapping around.
\<close>

function user_mem_pages :: "nat \<Rightarrow> 32 word \<Rightarrow> 32 word \<Rightarrow> 32 word \<Rightarrow> 'a machine_scheme \<Rightarrow> 32 word option option" where
  "user_mem_pages pgdir va_act va_hi perm m =
     (if va_act < va_hi \<and> va_hi \<le> UTOP
      then (case pgdir_walk pgdir va_act False m of
              None \<Rightarrow> None
            | Some (pte, _) \<Rightarrow>
                if (case pte of None \<Rightarrow> False | Some (t, i) \<Rightarrow> pmem m t i AND (perm OR PTE_P) = (perm OR PTE_P))
                then user_mem_pages pgdir (va_act + PGSIZE) va_hi perm m
                else Some (Some va_act))
      else Some None)"
  by pat_completeness auto
termination
proof (relation "measure (\<lambda>(pgdir, va_act, va_hi, perm, m). 2 ^ 32 - unat va_act)", goal_cases)
  case (2 pgdir va_act va_hi perm m)
  then have "unat va_act < 0xEEC00000" by (simp add: word_less_nat_alt word_le_nat_alt)
  then show ?case by (simp add: unat_word_ariths)
qed simp

declare user_mem_pages.simps [simp del]

text \<open>The result is the return value and \<^verbatim>\<open>user_mem_check_addr\<close> when it is set.\<close>

definition user_mem_check :: "nat \<Rightarrow> 32 word \<Rightarrow> 32 word \<Rightarrow> 32 word \<Rightarrow> 'a machine_scheme \<Rightarrow> (int \<times> 32 word option) option" where
  "user_mem_check pgdir va len perm m =
     (let va_lo = va; va_hi = ROUNDUP (va + len) PGSIZE in
      if va_hi > UTOP then Some (- E_FAULT, Some va_lo)
      else (case user_mem_pages pgdir (ROUNDDOWN va_lo PGSIZE) va_hi perm m of
              None \<Rightarrow> None
            | Some None \<Rightarrow> Some (0, None)
            | Some (Some va_act) \<Rightarrow> Some (- E_FAULT, Some (if va_act > va_lo then va_act else va_lo))))"

end
