(* ===== verification/Kern_Env.thy ===== *)
theory Kern_Env
  imports Kern_Pmap
begin

unbundle bit_operations_syntax

text \<open>
  Environments (\<^verbatim>\<open>src/TP Sched/kern/env.c\<close>, \<^verbatim>\<open>inc/env.h\<close>, \<^verbatim>\<open>inc/trap.h\<close>). An environment is named by its index in \<^verbatim>\<open>envs\<close>; the
  null pointer is \<^term>\<open>None\<close>. The per-processor variable \<^verbatim>\<open>curenv\<close> is the field \<open>cpu_env\<close> at the number of the processor.
  Loading a binary (\<^verbatim>\<open>load_icode\<close>, which writes through user addresses) and the segment registers are not modelled;
  kernel messages and the \<^verbatim>\<open>CR3\<close> register are left out. The state of the scheduler (its statistics and the static
  \<^verbatim>\<open>aging_ticks\<close>) and the ranges of user memory printed on the console are fields of the same record.
\<close>

section \<open>Data\<close>

datatype env_state = ENV_FREE | ENV_DYING | ENV_RUNNABLE | ENV_RUNNING | ENV_NOT_RUNNABLE
datatype env_kind = ENV_TYPE_USER

record push_regs =
  reg_edi :: "32 word"
  reg_esi :: "32 word"
  reg_ebp :: "32 word"
  reg_oesp :: "32 word"
  reg_ebx :: "32 word"
  reg_edx :: "32 word"
  reg_ecx :: "32 word"
  reg_eax :: "32 word"

record trapframe =
  tf_regs :: push_regs
  tf_es :: "16 word"
  tf_ds :: "16 word"
  tf_trapno :: "32 word"
  tf_err :: "32 word"
  tf_eip :: "32 word"
  tf_cs :: "16 word"
  tf_eflags :: "32 word"
  tf_esp :: "32 word"
  tf_ss :: "16 word"

record environment =
  env_tf :: trapframe
  env_link :: "nat option"
  env_id :: "32 word"
  env_parent_id :: "32 word"
  env_type :: env_kind
  env_status :: env_state
  env_runs :: "32 word"
  env_cpunum :: nat
  priority :: int
  env_pgdir :: "nat option"
  env_pgfault_upcall :: "32 word"
  env_ipc_recving :: bool
  env_ipc_dstva :: "32 word"
  env_ipc_value :: "32 word"
  env_ipc_from :: "32 word"
  env_ipc_perm :: "32 word"

record kernel = machine +
  envs :: "environment list"
  env_free_list :: "nat option"
  cpu_env :: "nat \<Rightarrow> nat option"
  cpu_halted :: "nat \<Rightarrow> bool"
  kern_pgdir :: nat
  n_sched_calls :: "64 word"
  n_context_switches :: "64 word"
  last_env_run :: "32 word"
  runs_per_env :: "64 word list"
  aging_ticks :: int
  cons_out :: "(32 word \<times> 32 word) list"

abbreviation (input) NENV :: nat where "NENV \<equiv> 1024"
abbreviation (input) ENVGENSHIFT :: nat where "ENVGENSHIFT \<equiv> 12"
abbreviation (input) MAX_PRIORITY :: int where "MAX_PRIORITY \<equiv> 8"
abbreviation (input) E_BAD_ENV :: int where "E_BAD_ENV \<equiv> 2"
abbreviation (input) E_INVAL :: int where "E_INVAL \<equiv> 3"
abbreviation (input) E_NO_FREE_ENV :: int where "E_NO_FREE_ENV \<equiv> 5"

definition ENVX :: "32 word \<Rightarrow> nat" where "ENVX envid = unat (envid AND 0x3FF)"

definition upd_env :: "nat \<Rightarrow> (environment \<Rightarrow> environment) \<Rightarrow> kernel \<Rightarrow> kernel" where
  "upd_env i f k = k\<lparr>envs := (envs k)[i := f (envs k ! i)]\<rparr>"

section \<open>Looking up environments\<close>

text \<open>With \<open>envid\<close> 0 the result is the current environment, whatever it is (the null pointer when there is none).\<close>

definition envid2env :: "nat \<Rightarrow> 32 word \<Rightarrow> bool \<Rightarrow> kernel \<Rightarrow> (int \<times> nat option) option" where
  "envid2env cpu envid checkperm k =
     (if envid = 0 then Some (0, cpu_env k cpu)
      else
        let e = ENVX envid in
        if env_status (envs k ! e) = ENV_FREE \<or> env_id (envs k ! e) \<noteq> envid then Some (- E_BAD_ENV, None)
        else if checkperm \<and> Some e \<noteq> cpu_env k cpu
        then (case cpu_env k cpu of
                None \<Rightarrow> None
              | Some c \<Rightarrow>
                  if env_parent_id (envs k ! e) \<noteq> env_id (envs k ! c) then Some (- E_BAD_ENV, None)
                  else Some (0, Some e))
        else Some (0, Some e))"

section \<open>Allocation\<close>

definition env_init :: "kernel \<Rightarrow> kernel" where
  "env_init k =
     k\<lparr>envs := map (\<lambda>i. (envs k ! i)\<lparr>env_id := 0, env_status := ENV_FREE,
                         env_link := (if i = NENV - 1 then None else Some (Suc i))\<rparr>) [0..<NENV],
       env_free_list := Some 0\<rparr>"

abbreviation (input) UVPT :: "32 word" where "UVPT \<equiv> 0xEF400000"

definition env_setup_vm :: "nat \<Rightarrow> kernel \<Rightarrow> int \<times> kernel" where
  "env_setup_vm e k =
     (case page_alloc True k of
        (None, k) \<Rightarrow> (- E_NO_MEM, k)
      | (Some p, k) \<Rightarrow>
          let k = upd_env e (\<lambda>x. x\<lparr>env_pgdir := Some p\<rparr>) k;
              k = k\<lparr>pmem := (pmem k)(p := pmem k (kern_pgdir k))\<rparr>;
              k = upd_page p (\<lambda>i. i\<lparr>pp_ref := pp_ref i + 1\<rparr>) k;
              k = put_word p (PDX UVPT) (page2pa p OR PTE_P OR PTE_U) k
          in (0, k))"

definition zero_tf :: trapframe where
  "zero_tf = \<lparr>tf_regs = \<lparr>reg_edi = 0, reg_esi = 0, reg_ebp = 0, reg_oesp = 0, reg_ebx = 0, reg_edx = 0, reg_ecx = 0, reg_eax = 0\<rparr>,
     tf_es = 0, tf_ds = 0, tf_trapno = 0, tf_err = 0, tf_eip = 0, tf_cs = 0, tf_eflags = 0, tf_esp = 0, tf_ss = 0\<rparr>"

text \<open>User data and text selectors with the requested privilege level 3; interrupts are enabled in user mode.\<close>

definition user_tf :: trapframe where
  "user_tf = zero_tf\<lparr>tf_ds := 0x20 OR 3, tf_es := 0x20 OR 3, tf_ss := 0x20 OR 3, tf_esp := UTOP - 2 * PGSIZE,
     tf_cs := 0x18 OR 3, tf_eflags := 0x200\<rparr>"

definition next_generation :: "32 word \<Rightarrow> 32 word" where
  "next_generation old =
     (let generation = (old + push_bit ENVGENSHIFT 1) AND NOT (of_nat (NENV - 1)) in
      if sint generation \<le> 0 then push_bit ENVGENSHIFT 1 else generation)"

definition env_pop :: "kernel \<Rightarrow> kernel" where
  "env_pop k = (case env_free_list k of None \<Rightarrow> k | Some e \<Rightarrow> k\<lparr>env_free_list := env_link (envs k ! e)\<rparr>)"

definition env_alloc :: "32 word \<Rightarrow> kernel \<Rightarrow> (int \<times> nat option \<times> kernel)" where
  "env_alloc parent_id k =
     (case env_free_list k of
        None \<Rightarrow> (- E_NO_FREE_ENV, None, k)
      | Some e \<Rightarrow>
          let (r, k) = env_setup_vm e k in
          if r < 0 then (r, None, k)
          else
            let k = upd_env e (\<lambda>x. x\<lparr>env_id := next_generation (env_id x) OR of_nat e,
                      env_parent_id := parent_id, env_type := ENV_TYPE_USER, env_status := ENV_RUNNABLE, env_runs := 0,
                      env_tf := user_tf, env_pgfault_upcall := 0, env_ipc_recving := False\<rparr>) k
            in (0, Some e, env_pop k))"

text \<open>\<^verbatim>\<open>region_alloc\<close>: a page for each page address from \<open>va\<close> on, \<open>n\<close> pages.\<close>

fun region_pages :: "nat \<Rightarrow> nat \<Rightarrow> 32 word \<Rightarrow> kernel \<Rightarrow> kernel option" where
  "region_pages pgdir 0 va k = Some k"
| "region_pages pgdir (Suc n) va k =
     (case page_alloc False k of
        (None, k) \<Rightarrow> None
      | (Some p, k) \<Rightarrow> do {
          (r, k) \<leftarrow> page_insert pgdir p va (PTE_U OR PTE_W) k;
          guard (r = 0);
          region_pages pgdir n (va + PGSIZE) k
        })"

definition region_alloc :: "nat \<Rightarrow> 32 word \<Rightarrow> 32 word \<Rightarrow> kernel \<Rightarrow> kernel option" where
  "region_alloc e va len k = do {
     let va_lo = ROUNDDOWN va PGSIZE;
     let va_hi = ROUNDUP (va + len) PGSIZE;
     guard (va_hi \<le> UTOP);
     pgdir \<leftarrow> env_pgdir (envs k ! e);
     region_pages pgdir (if va_lo < va_hi then unat (va_hi - va_lo) div 4096 else 0) va_lo k
   }"

section \<open>Freeing\<close>

definition PGADDR :: "nat \<Rightarrow> nat \<Rightarrow> 32 word" where
  "PGADDR d t = push_bit 22 (of_nat d) OR push_bit 12 (of_nat t)"

fun free_ptes :: "nat \<Rightarrow> nat \<Rightarrow> nat \<Rightarrow> nat list \<Rightarrow> kernel \<Rightarrow> kernel option" where
  "free_ptes pgdir pdeno pt [] k = Some k"
| "free_ptes pgdir pdeno pt (pteno # rest) k =
     (if pmem k pt pteno AND PTE_P \<noteq> 0
      then do {
        k \<leftarrow> page_remove pgdir (PGADDR pdeno pteno) k;
        free_ptes pgdir pdeno pt rest k
      }
      else free_ptes pgdir pdeno pt rest k)"

fun free_pdes :: "nat \<Rightarrow> nat list \<Rightarrow> kernel \<Rightarrow> kernel option" where
  "free_pdes pgdir [] k = Some k"
| "free_pdes pgdir (pdeno # rest) k =
     (if pmem k pgdir pdeno AND PTE_P = 0 then free_pdes pgdir rest k
      else do {
        pt \<leftarrow> pa2page k (PTE_ADDR (pmem k pgdir pdeno));
        k \<leftarrow> free_ptes pgdir pdeno pt [0..<1024] k;
        k \<leftarrow> page_decref pt (put_word pgdir pdeno 0 k);
        free_pdes pgdir rest k
      })"

definition env_push :: "nat \<Rightarrow> kernel \<Rightarrow> kernel" where
  "env_push e k = (upd_env e (\<lambda>x. x\<lparr>env_status := ENV_FREE, env_link := env_free_list k\<rparr>) k)\<lparr>env_free_list := Some e\<rparr>"

definition env_free :: "nat \<Rightarrow> kernel \<Rightarrow> kernel option" where
  "env_free e k = do {
     pgdir \<leftarrow> env_pgdir (envs k ! e);
     k \<leftarrow> free_pdes pgdir [0..<PDX UTOP] k;
     let k = upd_env e (\<lambda>x. x\<lparr>env_pgdir := None\<rparr>) k;
     k \<leftarrow> page_decref pgdir k;
     Some (env_push e k)
   }"

section \<open>Running\<close>

definition env_run :: "nat \<Rightarrow> nat \<Rightarrow> kernel \<Rightarrow> kernel" where
  "env_run cpu e k =
     (let k = (case cpu_env k cpu of
                 None \<Rightarrow> k
               | Some c \<Rightarrow> if c \<noteq> e \<and> env_status (envs k ! c) = ENV_RUNNING
                          then upd_env c (\<lambda>x. x\<lparr>env_status := ENV_RUNNABLE\<rparr>) k else k);
          k = k\<lparr>cpu_env := (cpu_env k)(cpu := Some e)\<rparr>
      in upd_env e (\<lambda>x. x\<lparr>env_status := ENV_RUNNING, env_runs := env_runs x + 1, env_cpunum := cpu\<rparr>) k)"

end
