(* ===== verification/Kern_Sched.thy ===== *)
theory Kern_Sched
  imports Kern_Env
begin

text \<open>
  The scheduler (\<^verbatim>\<open>src/TP Sched/kern/sched.c\<close>) in both configurations of the build, round robin and priorities, and
  \<^verbatim>\<open>env_destroy\<close>, which calls it. The functions that do not return in C end in an outcome: an environment runs, the
  processor halts until the next interrupt, or the kernel monitor is entered because nothing can run any more.
\<close>

datatype policy = SCHED_ROUND_ROBIN | SCHED_PRIORITIES
datatype outcome = Run nat | Halted | Monitor

abbreviation (input) QUANTUM_LIMIT :: "32 word" where "QUANTUM_LIMIT \<equiv> 5"
abbreviation (input) AGING_INTERVAL :: int where "AGING_INTERVAL \<equiv> 50"

section \<open>Statistics\<close>

definition count_run :: "nat \<Rightarrow> kernel \<Rightarrow> kernel" where
  "count_run e k =
     (let i = env_id (envs k ! e);
          k = (if i \<noteq> last_env_run k
               then k\<lparr>n_context_switches := n_context_switches k + 1, last_env_run := i\<rparr> else k)
      in k\<lparr>runs_per_env := (runs_per_env k)[ENVX i := runs_per_env k ! ENVX i + 1]\<rparr>)"

text \<open>\<^verbatim>\<open>sched_stats_dump\<close>: the total and the environments listed with their runs.\<close>

definition sched_stats_dump :: "kernel \<Rightarrow> 64 word \<times> (nat \<times> 32 word \<times> int \<times> 64 word) list" where
  "sched_stats_dump k =
     (sum_list (runs_per_env k),
      map (\<lambda>i. (i, env_id (envs k ! i), priority (envs k ! i), runs_per_env k ! i))
        (filter (\<lambda>i. runs_per_env k ! i > 0) [0..<NENV]))"

section \<open>Choosing an environment\<close>

definition start_index :: "nat \<Rightarrow> kernel \<Rightarrow> nat" where
  "start_index cpu k = (case cpu_env k cpu of None \<Rightarrow> 0 | Some c \<Rightarrow> ENVX (env_id (envs k ! c)) + 1)"

definition circular :: "nat \<Rightarrow> nat list" where
  "circular start = map (\<lambda>i. (start + i) mod NENV) [0..<NENV]"

definition runnable :: "kernel \<Rightarrow> nat \<Rightarrow> bool" where
  "runnable k e \<longleftrightarrow> env_status (envs k ! e) = ENV_RUNNABLE"

definition max_prio :: "nat \<Rightarrow> kernel \<Rightarrow> int" where
  "max_prio start k = fold (\<lambda>e mx. if runnable k e \<and> priority (envs k ! e) > mx then priority (envs k ! e) else mx)
     (circular start) (- 1)"

definition age_env :: "environment \<Rightarrow> environment" where
  "age_env x = (if env_status x \<noteq> ENV_FREE \<and> priority x < MAX_PRIORITY then x\<lparr>priority := priority x + 1\<rparr> else x)"

definition aging :: "kernel \<Rightarrow> kernel" where
  "aging k =
     (let k = k\<lparr>aging_ticks := aging_ticks k + 1\<rparr> in
      if aging_ticks k \<ge> AGING_INTERVAL then k\<lparr>envs := map age_env (envs k), aging_ticks := 0\<rparr> else k)"

definition demote :: "int \<Rightarrow> nat \<Rightarrow> kernel \<Rightarrow> kernel" where
  "demote mx e k =
     (if env_runs (envs k ! e) \<ge> QUANTUM_LIMIT \<and> mx > 1 then upd_env e (\<lambda>x. x\<lparr>priority := mx - 1\<rparr>) k else k)"

definition sched_halt :: "nat \<Rightarrow> kernel \<Rightarrow> outcome \<times> kernel" where
  "sched_halt cpu k =
     (if list_ex (\<lambda>x. env_status x = ENV_RUNNABLE \<or> env_status x = ENV_RUNNING \<or> env_status x = ENV_DYING) (envs k)
      then (Halted, k\<lparr>cpu_env := (cpu_env k)(cpu := None), cpu_halted := (cpu_halted k)(cpu := True)\<rparr>)
      else (Monitor, k))"

text \<open>The choice of each configuration: the environment to run, if any, and the state in which it is run.\<close>

definition choose_rr :: "nat \<Rightarrow> kernel \<Rightarrow> nat option \<times> kernel" where
  "choose_rr start k = (find (runnable k) (circular start), k)"

definition choose_prio :: "nat \<Rightarrow> kernel \<Rightarrow> nat option \<times> kernel" where
  "choose_prio start k =
     (let mx = max_prio start k; k = aging k in
      case find (\<lambda>e. runnable k e \<and> priority (envs k ! e) = mx) (circular start) of
        None \<Rightarrow> (None, k)
      | Some e \<Rightarrow> (Some e, demote mx e k))"

definition choose_env :: "policy \<Rightarrow> nat \<Rightarrow> kernel \<Rightarrow> nat option \<times> kernel" where
  "choose_env p = (case p of SCHED_ROUND_ROBIN \<Rightarrow> choose_rr | SCHED_PRIORITIES \<Rightarrow> choose_prio)"

definition run_counted :: "nat \<Rightarrow> nat \<Rightarrow> kernel \<Rightarrow> outcome \<times> kernel" where
  "run_counted cpu e k = (Run e, env_run cpu e (count_run e k))"

definition sched_yield :: "policy \<Rightarrow> nat \<Rightarrow> kernel \<Rightarrow> outcome \<times> kernel" where
  "sched_yield p cpu k =
     (let k = k\<lparr>n_sched_calls := n_sched_calls k + 1\<rparr> in
      case choose_env p (start_index cpu k) k of
        (Some e, k) \<Rightarrow> run_counted cpu e k
      | (None, k) \<Rightarrow>
          (case cpu_env k cpu of
             Some c \<Rightarrow> if env_status (envs k ! c) = ENV_RUNNING then run_counted cpu c k else sched_halt cpu k
           | None \<Rightarrow> sched_halt cpu k))"

section \<open>Destroying an environment\<close>

text \<open>The outcome is present when the current environment was destroyed and the call does not return.\<close>

definition env_destroy :: "policy \<Rightarrow> nat \<Rightarrow> nat \<Rightarrow> kernel \<Rightarrow> (outcome option \<times> kernel) option" where
  "env_destroy p cpu e k =
     (if env_status (envs k ! e) = ENV_RUNNING \<and> cpu_env k cpu \<noteq> Some e
      then Some (None, upd_env e (\<lambda>x. x\<lparr>env_status := ENV_DYING\<rparr>) k)
      else do {
        k \<leftarrow> env_free e k;
        if cpu_env k cpu = Some e
        then let (r, k) = sched_yield p cpu (k\<lparr>cpu_env := (cpu_env k)(cpu := None)\<rparr>) in Some (Some r, k)
        else Some (None, k)
      })"

end
