(* ===== verification/Kern_Syscall.thy ===== *)
theory Kern_Syscall
  imports Kern_Sched
begin

unbundle bit_operations_syntax

text \<open>
  The system calls (\<^verbatim>\<open>src/TP Sched/kern/syscall.c\<close>) with \<^verbatim>\<open>user_mem_assert\<close>. A call returns a value to the caller or ends
  in an outcome of the scheduler; \<^term>\<open>None\<close> is a panic or a read through a pointer that was never set. A string
  printed on the console is recorded as its range of addresses. The keyboard character is a parameter.
\<close>

datatype sysret = Ret int | Gone outcome

type_synonym sys = "(sysret \<times> kernel) option"

abbreviation (input) PTE_SYSCALL :: "32 word" where "PTE_SYSCALL \<equiv> 0xE07"
abbreviation (input) E_IPC_NOT_RECV :: int where "E_IPC_NOT_RECV \<equiv> 7"

section \<open>Memory\<close>

definition check_perm :: "32 word \<Rightarrow> 32 word option \<Rightarrow> int" where
  "check_perm perm pte =
     (if perm AND NOT PTE_SYSCALL \<noteq> 0 then - E_INVAL
      else if perm AND PTE_P = 0 \<or> perm AND PTE_U = 0 then - E_INVAL
      else (case pte of
              None \<Rightarrow> 0
            | Some w \<Rightarrow>
                if w \<noteq> 0 \<and> w AND PTE_P = 0 then - E_INVAL
                else if perm AND PTE_W \<noteq> 0 \<and> w AND PTE_W = 0 then - E_INVAL
                else 0))"

text \<open>When \<^verbatim>\<open>page_insert\<close> fails the page that was allocated is not given back.\<close>

definition env_page_alloc :: "nat \<Rightarrow> 32 word \<Rightarrow> 32 word \<Rightarrow> kernel \<Rightarrow> (int \<times> kernel) option" where
  "env_page_alloc e va perm k =
     (let err = check_perm perm None in
      if err < 0 then Some (err, k)
      else (case page_alloc True k of
              (None, k) \<Rightarrow> Some (- E_NO_MEM, k)
            | (Some p, k) \<Rightarrow> do {
                pgdir \<leftarrow> env_pgdir (envs k ! e);
                page_insert pgdir p va perm k
              }))"

definition env_page_map :: "nat \<Rightarrow> 32 word \<Rightarrow> nat \<Rightarrow> 32 word \<Rightarrow> 32 word \<Rightarrow> kernel \<Rightarrow> (int \<times> kernel) option" where
  "env_page_map src srcva dst dstva perm k = do {
     srcdir \<leftarrow> env_pgdir (envs k ! src);
     r \<leftarrow> page_lookup srcdir srcva k;
     case r of
       None \<Rightarrow> Some (- E_INVAL, k)
     | Some (p, t, i) \<Rightarrow>
         if (perm AND PTE_W) AND NOT (PTE_W AND pmem k t i) \<noteq> 0 then Some (- E_INVAL, k)
         else do {
           dstdir \<leftarrow> env_pgdir (envs k ! dst);
           page_insert dstdir p dstva perm k
         }
   }"

definition user_mem_assert :: "policy \<Rightarrow> nat \<Rightarrow> nat \<Rightarrow> 32 word \<Rightarrow> 32 word \<Rightarrow> 32 word \<Rightarrow> kernel \<Rightarrow> (outcome option \<times> kernel) option" where
  "user_mem_assert p cpu e va len perm k = do {
     pgdir \<leftarrow> env_pgdir (envs k ! e);
     (r, _) \<leftarrow> user_mem_check pgdir va len (perm OR PTE_U) k;
     if r < 0 then env_destroy p cpu e k else Some (None, k)
   }"

definition bad_va :: "32 word \<Rightarrow> bool" where
  "bad_va va \<longleftrightarrow> va \<ge> UTOP \<or> va mod PGSIZE \<noteq> 0"

section \<open>Environments\<close>

text \<open>The lookup with permission check that most calls begin with: the error value, or the environment found.\<close>

definition with_env :: "nat \<Rightarrow> 32 word \<Rightarrow> bool \<Rightarrow> kernel \<Rightarrow> (nat \<Rightarrow> sys) \<Rightarrow> sys" where
  "with_env cpu envid checkperm k f = do {
     (r, e) \<leftarrow> envid2env cpu envid checkperm k;
     if r \<noteq> 0 then Some (Ret r, k)
     else do {
       e \<leftarrow> e;
       f e
     }
   }"

definition sys_cputs :: "policy \<Rightarrow> nat \<Rightarrow> 32 word \<Rightarrow> 32 word \<Rightarrow> kernel \<Rightarrow> sys" where
  "sys_cputs p cpu s len k = do {
     c \<leftarrow> cpu_env k cpu;
     (r, k) \<leftarrow> user_mem_assert p cpu c s len (PTE_P OR PTE_W OR PTE_U) k;
     case r of
       Some out \<Rightarrow> Some (Gone out, k)
     | None \<Rightarrow> Some (Ret 0, k\<lparr>cons_out := cons_out k @ [(s, len)]\<rparr>)
   }"

definition sys_cgetc :: "int \<Rightarrow> kernel \<Rightarrow> sys" where
  "sys_cgetc c k = Some (Ret c, k)"

definition sys_getenvid :: "nat \<Rightarrow> kernel \<Rightarrow> sys" where
  "sys_getenvid cpu k = do {
     c \<leftarrow> cpu_env k cpu;
     Some (Ret (sint (env_id (envs k ! c))), k)
   }"

definition sys_getpriority :: "nat \<Rightarrow> 32 word \<Rightarrow> kernel \<Rightarrow> sys" where
  "sys_getpriority cpu envid k = with_env cpu envid True k (\<lambda>e. Some (Ret (priority (envs k ! e)), k))"

definition sys_env_destroy :: "policy \<Rightarrow> nat \<Rightarrow> 32 word \<Rightarrow> kernel \<Rightarrow> sys" where
  "sys_env_destroy p cpu envid k = with_env cpu envid True k (\<lambda>e. do {
     (r, k) \<leftarrow> env_destroy p cpu e k;
     Some (case r of None \<Rightarrow> Ret 0 | Some out \<Rightarrow> Gone out, k)
   })"

definition sys_yield :: "policy \<Rightarrow> nat \<Rightarrow> kernel \<Rightarrow> sys" where
  "sys_yield p cpu k = (let (r, k) = sched_yield p cpu k in Some (Gone r, k))"

definition sys_exofork :: "nat \<Rightarrow> kernel \<Rightarrow> sys" where
  "sys_exofork cpu k = do {
     c \<leftarrow> cpu_env k cpu;
     let (r, e, k) = env_alloc (env_id (envs k ! c)) k;
     if r \<noteq> 0 then Some (Ret r, k)
     else do {
       e \<leftarrow> e;
       let tf = env_tf (envs k ! c);
       let k = upd_env e (\<lambda>x. x\<lparr>env_status := ENV_NOT_RUNNABLE,
                 env_tf := tf\<lparr>tf_regs := (tf_regs tf)\<lparr>reg_eax := 0\<rparr>\<rparr>,
                 priority := priority (envs k ! c)\<rparr>) k;
       Some (Ret (sint (env_id (envs k ! e))), k)
     }
   }"

text \<open>The statuses a program may ask for, by their numbers in \<^verbatim>\<open>inc/env.h\<close>.\<close>

definition settable_status :: "32 word \<Rightarrow> env_state option" where
  "settable_status s = (if s = 2 then Some ENV_RUNNABLE else if s = 4 then Some ENV_NOT_RUNNABLE else None)"

definition sys_env_set_status :: "nat \<Rightarrow> 32 word \<Rightarrow> 32 word \<Rightarrow> kernel \<Rightarrow> sys" where
  "sys_env_set_status cpu envid status k =
     (case settable_status status of
        None \<Rightarrow> Some (Ret (- E_INVAL), k)
      | Some s \<Rightarrow> with_env cpu envid True k (\<lambda>e. Some (Ret 0, upd_env e (\<lambda>x. x\<lparr>env_status := s\<rparr>) k)))"

definition sys_env_set_pgfault_upcall :: "policy \<Rightarrow> nat \<Rightarrow> 32 word \<Rightarrow> 32 word \<Rightarrow> kernel \<Rightarrow> sys" where
  "sys_env_set_pgfault_upcall p cpu envid func k = with_env cpu envid True k (\<lambda>e. do {
     (r, k) \<leftarrow> user_mem_assert p cpu e func PGSIZE (PTE_P OR PTE_U) k;
     case r of
       Some out \<Rightarrow> Some (Gone out, k)
     | None \<Rightarrow> Some (Ret 0, upd_env e (\<lambda>x. x\<lparr>env_pgfault_upcall := func\<rparr>) k)
   })"

definition sys_setpriority :: "nat \<Rightarrow> 32 word \<Rightarrow> int \<Rightarrow> kernel \<Rightarrow> sys" where
  "sys_setpriority cpu envid prio k = with_env cpu envid True k (\<lambda>e. do {
     c \<leftarrow> cpu_env k cpu;
     if prio < 0 \<or> prio > MAX_PRIORITY then Some (Ret (- E_INVAL), k)
     else if envid = env_id (envs k ! c) \<and> prio \<ge> priority (envs k ! e) then Some (Ret (- E_INVAL), k)
     else if prio > priority (envs k ! e) then Some (Ret (- E_INVAL), k)
     else Some (Ret 0, upd_env e (\<lambda>x. x\<lparr>priority := prio\<rparr>) k)
   })"

section \<open>Mapping calls\<close>

definition sys_page_alloc :: "nat \<Rightarrow> 32 word \<Rightarrow> 32 word \<Rightarrow> 32 word \<Rightarrow> kernel \<Rightarrow> sys" where
  "sys_page_alloc cpu envid va perm k =
     (if bad_va va then Some (Ret (- E_INVAL), k)
      else with_env cpu envid True k (\<lambda>e. do {
        (r, k) \<leftarrow> env_page_alloc e va (perm OR PTE_U OR PTE_P) k;
        Some (Ret r, k)
      }))"

definition sys_page_map :: "nat \<Rightarrow> 32 word \<Rightarrow> 32 word \<Rightarrow> 32 word \<Rightarrow> 32 word \<Rightarrow> 32 word \<Rightarrow> kernel \<Rightarrow> sys" where
  "sys_page_map cpu srcenvid srcva dstenvid dstva perm k =
     (if bad_va srcva then Some (Ret (- E_INVAL), k)
      else if bad_va dstva then Some (Ret (- E_INVAL), k)
      else with_env cpu srcenvid True k (\<lambda>src. with_env cpu dstenvid True k (\<lambda>dst. do {
        (r, k) \<leftarrow> env_page_map src srcva dst dstva (PTE_P OR PTE_U OR perm) k;
        Some (Ret r, k)
      })))"

definition sys_page_unmap :: "nat \<Rightarrow> 32 word \<Rightarrow> 32 word \<Rightarrow> kernel \<Rightarrow> sys" where
  "sys_page_unmap cpu envid va k =
     (if bad_va va then Some (Ret (- E_INVAL), k)
      else with_env cpu envid True k (\<lambda>e. do {
        pgdir \<leftarrow> env_pgdir (envs k ! e);
        k \<leftarrow> page_remove pgdir va k;
        Some (Ret 0, k)
      }))"

section \<open>Messages\<close>

definition ipc_deliver :: "nat \<Rightarrow> nat \<Rightarrow> 32 word \<Rightarrow> kernel \<Rightarrow> kernel" where
  "ipc_deliver c d value k = upd_env d (\<lambda>x. x\<lparr>env_ipc_from := env_id (envs k ! c), env_ipc_recving := False,
     env_ipc_value := value, env_tf := (env_tf x)\<lparr>tf_regs := (tf_regs (env_tf x))\<lparr>reg_eax := 0\<rparr>\<rparr>,
     env_status := ENV_RUNNABLE\<rparr>) k"

text \<open>
  \<^verbatim>\<open>page_lookup\<close> sets \<^verbatim>\<open>srcpte\<close> only when it finds a page; the result is not tested and \<^verbatim>\<open>*srcpte\<close> is read through an
  uninitialised pointer when there is none.
\<close>

definition sys_ipc_try_send :: "nat \<Rightarrow> 32 word \<Rightarrow> 32 word \<Rightarrow> 32 word \<Rightarrow> 32 word \<Rightarrow> kernel \<Rightarrow> sys" where
  "sys_ipc_try_send cpu envid value srcva perm k = with_env cpu envid False k (\<lambda>d. do {
     c \<leftarrow> cpu_env k cpu;
     if \<not> env_ipc_recving (envs k ! d) then Some (Ret (- E_IPC_NOT_RECV), k)
     else if srcva \<ge> UTOP then Some (Ret 0, ipc_deliver c d value (upd_env d (\<lambda>x. x\<lparr>env_ipc_perm := 0\<rparr>) k))
     else if srcva mod PGSIZE \<noteq> 0 then Some (Ret (- E_INVAL), k)
     else do {
       srcdir \<leftarrow> env_pgdir (envs k ! c);
       r \<leftarrow> page_lookup srcdir srcva k;
       (_, t, i) \<leftarrow> r;
       if pmem k t i \<noteq> 0 \<and> pmem k t i AND PTE_P = 0 then Some (Ret (- E_INVAL), k)
       else if perm AND PTE_W \<noteq> 0 \<and> pmem k t i AND PTE_W = 0 then Some (Ret (- E_INVAL), k)
       else
         let perm = perm OR PTE_U OR PTE_P; dstva = env_ipc_dstva (envs k ! d) in
         if dstva \<noteq> 0
         then do {
           (r, k) \<leftarrow> env_page_alloc d dstva perm k;
           if r < 0 then Some (Ret r, k)
           else do {
             (r, k) \<leftarrow> env_page_map c srcva d dstva perm k;
             if r < 0 then Some (Ret r, k)
             else Some (Ret 0, ipc_deliver c d value (upd_env d (\<lambda>x. x\<lparr>env_ipc_perm := perm\<rparr>) k))
           }
         }
         else Some (Ret 0, ipc_deliver c d value k)
     }
   })"

text \<open>The receiving flag is raised before the address is checked.\<close>

definition sys_ipc_recv :: "policy \<Rightarrow> nat \<Rightarrow> 32 word \<Rightarrow> kernel \<Rightarrow> sys" where
  "sys_ipc_recv p cpu dstva k = do {
     c \<leftarrow> cpu_env k cpu;
     let k = upd_env c (\<lambda>x. x\<lparr>env_ipc_recving := True\<rparr>) k;
     if bad_va dstva then Some (Ret (- E_INVAL), k)
     else sys_yield p cpu (upd_env c (\<lambda>x. x\<lparr>env_ipc_dstva := dstva, env_status := ENV_NOT_RUNNABLE\<rparr>) k)
   }"

section \<open>Dispatch\<close>

definition syscall :: "policy \<Rightarrow> nat \<Rightarrow> int \<Rightarrow> 32 word \<Rightarrow> 32 word \<Rightarrow> 32 word \<Rightarrow> 32 word \<Rightarrow> 32 word \<Rightarrow> 32 word \<Rightarrow> kernel \<Rightarrow> sys" where
  "syscall p cpu getc no a1 a2 a3 a4 a5 k =
     (if no = 0 then sys_cputs p cpu a1 a2 k
      else if no = 1 then sys_cgetc getc k
      else if no = 2 then sys_getenvid cpu k
      else if no = 3 then sys_getpriority cpu a1 k
      else if no = 4 then sys_env_destroy p cpu a1 k
      else if no = 5 then sys_page_alloc cpu a1 a2 a3 k
      else if no = 6 then sys_page_map cpu a1 a2 a3 a4 a5 k
      else if no = 7 then sys_page_unmap cpu a1 a2 k
      else if no = 8 then sys_exofork cpu k
      else if no = 9 then sys_env_set_status cpu a1 a2 k
      else if no = 10 then sys_env_set_pgfault_upcall p cpu a1 a2 k
      else if no = 11 then sys_yield p cpu k
      else if no = 12 then sys_ipc_try_send cpu a1 a2 a3 a4 k
      else if no = 13 then sys_ipc_recv p cpu a1 k
      else if no = 14 then sys_setpriority cpu a1 (sint a2) k
      else Some (Ret (- E_INVAL), k))"

end
