(* ===== verification/Kern_Pmap_Inv.thy ===== *)
theory Kern_Pmap_Inv
  imports Kern_Pmap
begin

unbundle bit_operations_syntax

text \<open>
  The invariant of physical memory: the free list is well formed, page directories and page tables are not shared,
  and the reference count of a page is the number of places that refer to it. Every operation of the page-table
  interface keeps it, and none of them panics under it.
\<close>

section \<open>Addresses\<close>

lemma PGNUM_div: "PGNUM w = unat w div 4096"
  by (simp add: PGNUM_def drop_bit_eq_div unat_div_distrib)

lemma PDX_div: "PDX w = unat w div 2 ^ 22"
proof -
  have "unat w < 2 ^ LENGTH(32)" by (rule unsigned_less)
  then have "unat w div 2 ^ 22 < 1024" by (simp add: less_mult_imp_div_less)
  moreover have "drop_bit 22 w AND 0x3FF = take_bit 10 (drop_bit 22 w)" by (simp add: take_bit_eq_mask mask_eq_exp_minus_1)
  ultimately show ?thesis
    by (simp add: PDX_def drop_bit_eq_div take_bit_eq_mod unat_div_distrib unat_mod_distrib)
qed

lemma PTX_div: "PTX w = unat w div 4096 mod 1024"
proof -
  have "drop_bit 12 w AND 0x3FF = take_bit 10 (drop_bit 12 w)" by (simp add: take_bit_eq_mask mask_eq_exp_minus_1)
  then show ?thesis by (simp add: PTX_def drop_bit_eq_div take_bit_eq_mod unat_div_distrib unat_mod_distrib)
qed

lemma PTX_less [simp]: "PTX w < 1024"
  by (simp add: PTX_div)

lemma PDX_user: "va < UTOP \<Longrightarrow> PDX va < 955"
  by (simp add: PDX_div word_less_nat_alt less_mult_imp_div_less)

lemma PDX_UTOP: "PDX UTOP = 955"
  by (simp add: PDX_div)

lemma same_page: "PDX va = PDX va' \<and> PTX va = PTX va' \<longleftrightarrow> PGNUM va = PGNUM va'"
proof -
  have "unat va div 2 ^ 22 = unat va div 4096 div 1024" "unat va' div 2 ^ 22 = unat va' div 4096 div 1024"
    by (simp_all flip: div_mult2_eq)
  then show ?thesis unfolding PDX_div PTX_div PGNUM_div by (metis mod_div_mult_eq)
qed

lemma PGNUM_PTE_ADDR [simp]: "PGNUM (PTE_ADDR w) = PGNUM w"
proof -
  have "drop_bit 12 (w AND NOT 0xFFF) = drop_bit 12 w AND drop_bit 12 (NOT 0xFFF)" by (rule drop_bit_and)
  also have "drop_bit 12 (NOT 0xFFF) = (0xFFFFF :: 32 word)" by (simp add: drop_bit_eq_div)
  also have "drop_bit 12 w AND 0xFFFFF = take_bit 20 (drop_bit 12 w)" by (simp add: take_bit_eq_mask mask_eq_exp_minus_1)
  also have "\<dots> = drop_bit 12 w" by (simp add: take_bit_drop_bit take_bit_word_eq_self)
  finally show ?thesis by (simp add: PGNUM_def PTE_ADDR_def)
qed

lemma PGNUM_entry:
  assumes "p < 2 ^ 20" and "drop_bit 12 flags = 0"
  shows "PGNUM (page2pa p OR flags) = p"
proof -
  have "drop_bit 12 (page2pa p OR flags) = drop_bit 12 (page2pa p)" using assms(2) by (simp add: drop_bit_or)
  moreover have "unat (page2pa p) = p * 4096"
    using assms(1) by (simp add: page2pa_def push_bit_eq_mult unat_word_ariths unat_of_nat)
  ultimately show ?thesis by (simp add: PGNUM_def drop_bit_eq_div unat_div_distrib)
qed

lemma entry_present: "(w OR PTE_P) \<noteq> 0"
proof
  assume "w OR PTE_P = 0"
  then have "bit (w OR PTE_P) 0 = bit (0 :: 32 word) 0" by simp
  then show False by (simp add: bit_or_iff bit_1_iff)
qed

lemma perm_flags: "drop_bit 12 perm = 0 \<Longrightarrow> drop_bit 12 (perm OR PTE_P) = 0"
  by (simp only: drop_bit_or) (simp add: drop_bit_eq_div)

section \<open>Accessors\<close>

lemma upd_page_fields [simp]:
  "pmem (upd_page p f m) = pmem m" "page_free_list (upd_page p f m) = page_free_list m"
  "npages (upd_page p f m) = npages m"
  "q < npages m \<Longrightarrow> pages (upd_page p f m) ! q = (if q = p then f (pages m ! p) else pages m ! q)"
  by (simp_all add: upd_page_def npages_def nth_list_update)

lemma put_word_fields [simp]:
  "pages (put_word t i w m) = pages m" "page_free_list (put_word t i w m) = page_free_list m"
  "npages (put_word t i w m) = npages m"
  "pmem (put_word t i w m) q j = (if q = t \<and> j = i then w else pmem m q j)"
  by (simp_all add: put_word_def npages_def)

lemma zero_page_fields [simp]:
  "pages (zero_page t m) = pages m" "page_free_list (zero_page t m) = page_free_list m"
  "npages (zero_page t m) = npages m" "pmem (zero_page t m) q j = (if q = t then 0 else pmem m q j)"
  by (simp_all add: zero_page_def npages_def)

lemma page_pop_fields [simp]:
  "pmem (page_pop m) = pmem m" "npages (page_pop m) = npages m"
  by (simp_all add: page_pop_def npages_def upd_page_def split: option.split)

lemma page_pop_page:
  "page_free_list m = Some p \<Longrightarrow> q < npages m \<Longrightarrow>
     pages (page_pop m) ! q = (if q = p then (pages m ! p)\<lparr>pp_link := None\<rparr> else pages m ! q)"
  by (simp add: page_pop_def upd_page_def npages_def nth_list_update)

lemma page_push_fields [simp]:
  "pmem (page_push p m) = pmem m" "npages (page_push p m) = npages m"
  "q < npages m \<Longrightarrow> pages (page_push p m) ! q = (if q = p then (pages m ! p)\<lparr>pp_link := page_free_list m\<rparr> else pages m ! q)"
  by (simp_all add: page_push_def npages_def upd_page_def nth_list_update)

text \<open>The list of free pages is an instance of the free-list interface.\<close>

definition page_next :: "'a machine_scheme \<Rightarrow> nat \<Rightarrow> nat option" where
  "page_next m i = (if i < npages m then pp_link (pages m ! i) else None)"

interpretation pl: free_list page_free_list page_next page_pop page_push npages
proof (unfold_locales, goal_cases)
  case (1 s x)
  then show ?case by (simp add: page_pop_def page_next_def)
next
  case (2 s x y)
  then show ?case by (simp add: page_next_def page_pop_page)
next
  case (4 x s)
  then show ?case by (simp add: page_push_def)
next
  case (5 x s y)
  then show ?case by (simp add: page_next_def)
qed simp_all

section \<open>References\<close>

text \<open>
  \<open>D\<close> is the set of page directories of environments. Only the entries below \<^verbatim>\<open>UTOP\<close> (955 of each directory) belong to
  an environment; the others are shared with the kernel's directory and are not counted.
\<close>

datatype site = Dir nat | Pde nat nat | Pte nat nat

definition is_table :: "'a machine_scheme \<Rightarrow> nat set \<Rightarrow> nat \<Rightarrow> bool" where
  "is_table m D t \<longleftrightarrow> (\<exists>d \<in> D. \<exists>i < 955. pmem m d i \<noteq> 0 \<and> PGNUM (pmem m d i) = t)"

fun refers :: "'a machine_scheme \<Rightarrow> nat set \<Rightarrow> site \<Rightarrow> nat \<Rightarrow> bool" where
  "refers m D (Dir d) p \<longleftrightarrow> d \<in> D \<and> p = d"
| "refers m D (Pde d i) p \<longleftrightarrow> d \<in> D \<and> i < 955 \<and> pmem m d i \<noteq> 0 \<and> PGNUM (pmem m d i) = p"
| "refers m D (Pte t j) p \<longleftrightarrow> is_table m D t \<and> j < 1024 \<and> pmem m t j \<noteq> 0 \<and> PGNUM (pmem m t j) = p"

definition sites :: "'a machine_scheme \<Rightarrow> nat set \<Rightarrow> nat \<Rightarrow> site set" where
  "sites m D p = {s. refers m D s p}"

lemma is_table_finite: "finite D \<Longrightarrow> finite {t. is_table m D t}"
proof -
  assume "finite D"
  moreover have "{t. is_table m D t} \<subseteq> (\<lambda>(d, i). PGNUM (pmem m d i)) ` (D \<times> {..<955})"
    by (auto simp: is_table_def)
  ultimately show ?thesis by (meson finite_SigmaI finite_imageI finite_lessThan finite_subset)
qed

lemma sites_finite:
  assumes "finite D"
  shows "finite (sites m D p)"
proof -
  have "sites m D p \<subseteq> Dir ` D \<union> (\<lambda>(d, i). Pde d i) ` (D \<times> {..<955}) \<union>
      (\<lambda>(t, j). Pte t j) ` ({t. is_table m D t} \<times> {..<1024})"
  proof
    fix s
    assume "s \<in> sites m D p"
    then show "s \<in> Dir ` D \<union> (\<lambda>(d, i). Pde d i) ` (D \<times> {..<955}) \<union> (\<lambda>(t, j). Pte t j) ` ({t. is_table m D t} \<times> {..<1024})"
      by (cases s) (auto simp: sites_def)
  qed
  then show ?thesis using assms is_table_finite [OF assms, of m]
    by (meson finite_SigmaI finite_UnI finite_imageI finite_lessThan finite_subset)
qed

text \<open>
  \<open>K\<close> is the set of pages of the kernel itself, \<open>xs\<close> the free list, and \<open>ex\<close> counts references that are held for a moment
  by an operation without being stored in memory.
\<close>

definition tables_apart :: "'a machine_scheme \<Rightarrow> nat set \<Rightarrow> bool" where
  "tables_apart m D \<longleftrightarrow>
     (\<forall>d \<in> D. \<forall>d' \<in> D. \<forall>i < 955. \<forall>i' < 955.
        pmem m d i \<noteq> 0 \<and> pmem m d' i' \<noteq> 0 \<and> PGNUM (pmem m d i) = PGNUM (pmem m d' i') \<longrightarrow> d = d' \<and> i = i')"

text \<open>Every entry in use below \<^verbatim>\<open>UTOP\<close> has its present bit.\<close>

definition all_present :: "'a machine_scheme \<Rightarrow> nat set \<Rightarrow> bool" where
  "all_present m D \<longleftrightarrow>
     (\<forall>d \<in> D. \<forall>i < 955. pmem m d i \<noteq> 0 \<longrightarrow> pmem m d i AND PTE_P \<noteq> 0) \<and>
     (\<forall>t j. is_table m D t \<and> j < 1024 \<and> pmem m t j \<noteq> 0 \<longrightarrow> pmem m t j AND PTE_P \<noteq> 0)"

definition mem_inv :: "'a machine_scheme \<Rightarrow> nat set \<Rightarrow> nat set \<Rightarrow> nat list \<Rightarrow> (nat \<Rightarrow> nat) \<Rightarrow> bool" where
  "mem_inv m D K xs ex \<longleftrightarrow>
     npages m \<le> 2 ^ 20 \<and> finite D \<and> pl.free_listed m xs \<and> set xs \<inter> K = {} \<and>
     (\<forall>p < npages m. p \<notin> set xs \<longrightarrow> pp_link (pages m ! p) = None) \<and>
     (\<forall>d \<in> D. d < npages m \<and> d \<notin> K) \<and>
     (\<forall>t. is_table m D t \<longrightarrow> t < npages m \<and> t \<notin> K \<and> t \<notin> D) \<and> tables_apart m D \<and>
     (\<forall>t j p. refers m D (Pte t j) p \<longrightarrow> p < npages m \<and> p \<notin> K \<and> p \<notin> D \<and> \<not> is_table m D p) \<and>
     (\<forall>p < npages m. p \<notin> K \<longrightarrow> unat (pp_ref (pages m ! p)) = card (sites m D p) + ex p) \<and>
     (\<forall>p \<in> set xs. pp_ref (pages m ! p) = 0) \<and> all_present m D"

lemma mem_invD:
  assumes "mem_inv m D K xs ex"
  shows "npages m \<le> 2 ^ 20" "finite D" "pl.free_listed m xs" "set xs \<inter> K = {}"
    "p < npages m \<Longrightarrow> p \<notin> set xs \<Longrightarrow> pp_link (pages m ! p) = None"
    "d \<in> D \<Longrightarrow> d < npages m \<and> d \<notin> K"
    "is_table m D t \<Longrightarrow> t < npages m \<and> t \<notin> K \<and> t \<notin> D"
    "\<lbrakk>d \<in> D; d' \<in> D; i < 955; i' < 955; pmem m d i \<noteq> 0; pmem m d' i' \<noteq> 0; PGNUM (pmem m d i) = PGNUM (pmem m d' i')\<rbrakk>
       \<Longrightarrow> d = d' \<and> i = i'"
    "refers m D (Pte t j) p \<Longrightarrow> p < npages m \<and> p \<notin> K \<and> p \<notin> D \<and> \<not> is_table m D p"
    "p < npages m \<Longrightarrow> p \<notin> K \<Longrightarrow> unat (pp_ref (pages m ! p)) = card (sites m D p) + ex p"
    "p \<in> set xs \<Longrightarrow> pp_ref (pages m ! p) = 0" "all_present m D"
  using assms unfolding mem_inv_def tables_apart_def by blast+

lemma free_bound: "pl.free_listed m xs \<Longrightarrow> p \<in> set xs \<Longrightarrow> p < npages m"
  by (simp add: pl.free_listed_def listed_def)

text \<open>Nothing refers to a page without references, and it is neither a directory nor a table.\<close>

lemma unreferenced:
  assumes "mem_inv m D K xs ex" "p < npages m" "p \<notin> K" "pp_ref (pages m ! p) = 0"
  shows "sites m D p = {}" "ex p = 0" "p \<notin> D" "\<not> is_table m D p"
proof -
  have "card (sites m D p) + ex p = 0" using mem_invD(10) [OF assms(1,2,3)] assms(4) by simp
  then show s: "sites m D p = {}" and "ex p = 0" using sites_finite [OF mem_invD(2) [OF assms(1)], of m p] by simp_all
  have "refers m D (Dir p) p" if "p \<in> D" using that by simp
  then show "p \<notin> D" using s unfolding sites_def by blast
  show "\<not> is_table m D p"
  proof
    assume "is_table m D p"
    then obtain d i where "refers m D (Pde d i) p" by (auto simp: is_table_def)
    then show False using s unfolding sites_def by blast
  qed
qed

lemma free_page:
  assumes "mem_inv m D K xs ex" "p \<in> set xs"
  shows "sites m D p = {}" "ex p = 0" "p \<notin> D" "\<not> is_table m D p" "p < npages m" "p \<notin> K"
proof -
  have p: "p < npages m" "p \<notin> K" "pp_ref (pages m ! p) = 0"
    using mem_invD(3,4,11) [OF assms(1)] assms(2) free_bound by fast+
  then show "p < npages m" "p \<notin> K" by simp_all
  show "sites m D p = {}" "ex p = 0" "p \<notin> D" "\<not> is_table m D p" using unreferenced [OF assms(1) p] by simp_all
qed

section \<open>Steps that keep the invariant\<close>

lemma same_memory:
  assumes "\<And>d i. d \<in> D \<Longrightarrow> pmem m' d i = pmem m d i" and "\<And>t j. is_table m D t \<Longrightarrow> pmem m' t j = pmem m t j"
  shows "is_table m' D = is_table m D" "refers m' D = refers m D" "sites m' D = sites m D"
    "tables_apart m' D = tables_apart m D" "all_present m' D = all_present m D"
proof -
  show t: "is_table m' D = is_table m D" using assms(1) by (intro ext) (simp add: is_table_def)
  show r: "refers m' D = refers m D"
  proof (intro ext)
    fix s p
    show "refers m' D s p = refers m D s p" using assms t by (cases s) auto
  qed
  then show "sites m' D = sites m D" by (intro ext) (simp add: sites_def)
  show "tables_apart m' D = tables_apart m D" unfolding tables_apart_def using assms(1) by simp
  show "all_present m' D = all_present m D" unfolding all_present_def t using assms by auto
qed

lemma mem_invI:
  assumes "mem_inv m D K xs ex" and n: "npages m' = npages m"
    and mem: "\<And>d i. d \<in> D \<Longrightarrow> pmem m' d i = pmem m d i" "\<And>t j. is_table m D t \<Longrightarrow> pmem m' t j = pmem m t j"
    and "pl.free_listed m' ys" "set ys \<inter> K = {}"
    and "\<And>p. p < npages m \<Longrightarrow> p \<notin> set ys \<Longrightarrow> pp_link (pages m' ! p) = None"
    and "\<And>p. p < npages m \<Longrightarrow> p \<notin> K \<Longrightarrow> unat (pp_ref (pages m' ! p)) = card (sites m D p) + ex' p"
    and "\<And>p. p \<in> set ys \<Longrightarrow> pp_ref (pages m' ! p) = 0"
  shows "mem_inv m' D K ys ex'"
proof -
  have e: "is_table m' D = is_table m D" "refers m' D = refers m D" "sites m' D = sites m D"
    "tables_apart m' D = tables_apart m D" "all_present m' D = all_present m D"
    using mem by (intro same_memory; blast)+
  show ?thesis using assms(1) assms(5-) unfolding mem_inv_def n e by blast
qed

lemma free_listed_meta:
  "npages m' = npages m \<Longrightarrow> page_free_list m' = page_free_list m \<Longrightarrow>
   (\<And>p. p < npages m \<Longrightarrow> pp_link (pages m' ! p) = pp_link (pages m ! p)) \<Longrightarrow> pl.free_listed m' xs = pl.free_listed m xs"
  unfolding pl.free_listed_def listed_def
  by (intro conj_cong chain_cong refl) (auto simp: page_next_def intro!: chain_cong)

lemma inc_ref_inv:
  assumes inv: "mem_inv m D K xs ex" and p: "p < npages m" "p \<notin> set xs" "unat (pp_ref (pages m ! p)) < 65535"
  shows "mem_inv (upd_page p (\<lambda>i. i\<lparr>pp_ref := pp_ref i + 1\<rparr>) m) D K xs (ex(p := ex p + 1))"
proof (rule mem_invI [OF inv])
  let ?m = "upd_page p (\<lambda>i. i\<lparr>pp_ref := pp_ref i + 1\<rparr>) m"
  show "pl.free_listed ?m xs" using mem_invD(3) [OF inv] by (subst free_listed_meta [of _ m]) simp_all
  fix q
  assume q: "q < npages m" "q \<notin> K"
  have "unat (pp_ref (pages m ! p) + 1) = unat (pp_ref (pages m ! p)) + 1"
    using p(3) by (simp add: unat_word_ariths)
  then show "unat (pp_ref (pages ?m ! q)) = card (sites m D q) + (ex(p := ex p + 1)) q"
    using mem_invD(10) [OF inv q] q by (cases "q = p") simp_all
next
  show "set xs \<inter> K = {}" using mem_invD(4) [OF inv] .
next
  fix q
  assume "q < npages m" "q \<notin> set xs"
  then show "pp_link (pages (upd_page p (\<lambda>i. i\<lparr>pp_ref := pp_ref i + 1\<rparr>) m) ! q) = None"
    using mem_invD(5) [OF inv] by (cases "q = p") simp_all
next
  fix q
  assume q: "q \<in> set xs"
  then have "q < npages m" "q \<noteq> p" using free_bound [OF mem_invD(3) [OF inv]] p(2) by auto
  then show "pp_ref (pages (upd_page p (\<lambda>i. i\<lparr>pp_ref := pp_ref i + 1\<rparr>) m) ! q) = 0"
    using mem_invD(11) [OF inv q] by simp
qed simp_all

lemma page_alloc_inv:
  assumes inv: "mem_inv m D K xs ex"
  shows "case page_alloc z m of
      (None, m') \<Rightarrow> m' = m \<and> xs = []
    | (Some p, m') \<Rightarrow> \<exists>ys. xs = p # ys \<and> mem_inv m' D K ys ex \<and> npages m' = npages m \<and> p \<notin> set ys \<and>
        (\<forall>q < npages m. pp_ref (pages m' ! q) = pp_ref (pages m ! q)) \<and>
        (\<forall>q j. pmem m' q j = (if q = p \<and> z then 0 else pmem m q j))"
proof (cases "page_free_list m")
  case None
  then have "xs = []" using mem_invD(3) [OF inv] by (simp add: pl.free_listed_def listed_None)
  then show ?thesis using None by (simp add: page_alloc_def)
next
  case (Some p)
  then obtain ys where xs: "xs = p # ys" "p < npages m" using pl.free_listed_cons mem_invD(3) [OF inv] by blast
  have dist: "p \<notin> set ys" using mem_invD(3) [OF inv] xs by (simp add: pl.free_listed_def listed_def)
  note P = page_pop_page [OF Some]
  have pop: "mem_inv (page_pop m) D K ys ex"
  proof (rule mem_invI [OF inv])
    show "pl.free_listed (page_pop m) ys" using mem_invD(3) [OF inv] xs pl.free_listed_pop by blast
  next
    show "set ys \<inter> K = {}" using mem_invD(4) [OF inv] xs by auto
  next
    fix q
    assume "q < npages m" "q \<notin> set ys"
    then show "pp_link (pages (page_pop m) ! q) = None" using mem_invD(5) [OF inv] xs by (cases "q = p") (simp_all add: P)
  next
    fix q
    assume "q < npages m" "q \<notin> K"
    then show "unat (pp_ref (pages (page_pop m) ! q)) = card (sites m D q) + ex q"
      using mem_invD(10) [OF inv] by (cases "q = p") (simp_all add: P)
  next
    fix q
    assume "q \<in> set ys"
    then show "pp_ref (pages (page_pop m) ! q) = 0"
      using mem_invD(11) [OF inv, of q] xs free_bound [OF mem_invD(3) [OF inv], of q] by (auto simp: P)
  qed simp_all
  have np: "p \<notin> D" "\<not> is_table m D p" using free_page [OF inv] xs by simp_all
  have "mem_inv (zero_page p (page_pop m)) D K ys ex"
  proof -
    let ?z = "zero_page p (page_pop m)"
    have f: "pl.free_listed ?z ys" using mem_invD(3) [OF pop] by (subst free_listed_meta [of _ "page_pop m"]) simp_all
    have "\<not> is_table (page_pop m) D p" using np(2) by (simp add: is_table_def)
    then show ?thesis
      by (intro mem_invI [OF pop _ _ _ f]) (use np(1) mem_invD(4,5,10,11) [OF pop] in auto)
  qed
  then show ?thesis using Some xs pop dist by (auto simp: page_alloc_def P)
qed

lemma page_decref_inv:
  assumes inv: "mem_inv m D K xs ex" and p: "p < npages m" "p \<notin> K" "ex p > 0"
  shows "\<exists>m' ys. page_decref p m = Some m' \<and> mem_inv m' D K ys (ex(p := ex p - 1)) \<and> pmem m' = pmem m \<and>
    npages m' = npages m \<and> (ys = xs \<or> ys = p # xs \<and> sites m D p = {} \<and> ex p = 1) \<and>
    (\<forall>q < npages m. q \<noteq> p \<longrightarrow> pages m' ! q = pages m ! q)"
proof -
  let ?m = "upd_page p (\<lambda>i. i\<lparr>pp_ref := pp_ref i - 1\<rparr>) m"
  have r: "unat (pp_ref (pages m ! p)) = card (sites m D p) + ex p" using mem_invD(10) [OF inv p(1,2)] .
  then have "pp_ref (pages m ! p) \<noteq> 0" using p(3) by auto
  then have notfree: "p \<notin> set xs" using mem_invD(11) [OF inv] by blast
  have dec: "unat (pp_ref (pages m ! p) - 1) = unat (pp_ref (pages m ! p)) - 1"
    using \<open>pp_ref (pages m ! p) \<noteq> 0\<close> by (simp add: unat_minus_one)
  have fl: "pl.free_listed ?m xs" using mem_invD(3) [OF inv] by (subst free_listed_meta [of _ m]) simp_all
  have refs: "unat (pp_ref (pages ?m ! q)) = card (sites m D q) + (ex(p := ex p - 1)) q" if "q < npages m" "q \<notin> K" for q
    using mem_invD(10) [OF inv that] that p r dec by auto
  have link: "pp_link (pages m ! p) = None" using mem_invD(5) [OF inv p(1) notfree] .
  show ?thesis
  proof (cases "pp_ref (pages ?m ! p) = 0")
    case False
    have "mem_inv ?m D K xs (ex(p := ex p - 1))"
      by (rule mem_invI [OF inv])
        (use mem_invD(4,5,11) [OF inv] fl refs notfree free_bound [OF mem_invD(3) [OF inv]] in auto)
    then show ?thesis using False p by (intro exI [of _ ?m] exI [of _ xs]) (simp add: page_decref_def Let_def)
  next
    case True
    have d: "page_decref p m = Some (page_push p ?m)" using True link p by (simp add: page_decref_def page_free_def Let_def)
    have "unat (pp_ref (pages m ! p)) - 1 = 0" using True dec p by simp
    then have "card (sites m D p) + ex p = 1" using r p(3) by simp
    then have "card (sites m D p) = 0" "ex p = 1" using p(3) by simp_all
    then have "sites m D p = {}" "ex p = 1" using sites_finite [OF mem_invD(2) [OF inv], of m p] by simp_all
    moreover have "mem_inv (page_push p ?m) D K (p # xs) (ex(p := ex p - 1))"
    proof (rule mem_invI [OF inv])
      show "pl.free_listed (page_push p ?m) (p # xs)" using fl p notfree by (intro pl.free_listed_push) simp_all
    next
      fix q
      assume q: "q < npages m" "q \<notin> K"
      then show "unat (pp_ref (pages (page_push p ?m) ! q)) = card (sites m D q) + (ex(p := ex p - 1)) q"
        using refs [OF q] by (cases "q = p") simp_all
    next
      fix q
      assume q: "q \<in> set (p # xs)"
      then have "q < npages m" using p(1) free_bound [OF mem_invD(3) [OF inv]] by auto
      then show "pp_ref (pages (page_push p ?m) ! q) = 0" using mem_invD(11) [OF inv] q True by (cases "q = p") auto
    qed (use mem_invD(4,5) [OF inv] p in auto)
    ultimately show ?thesis using d by (intro exI [of _ "page_push p ?m"] exI [of _ "p # xs"]) simp
  qed
qed

section \<open>Page-table entries\<close>

lemma put_pte_sites:
  assumes "is_table m D t" "t \<notin> D" "j < 1024"
  shows "is_table (put_word t j w m) D = is_table m D"
    "tables_apart (put_word t j w m) D = tables_apart m D"
    "sites (put_word t j w m) D p =
       (if w \<noteq> 0 \<and> PGNUM w = p then insert (Pte t j) (sites m D p) else sites m D p - {Pte t j})"
proof -
  have d: "pmem (put_word t j w m) d i = pmem m d i" if "d \<in> D" for d i using that assms(2) by auto
  show t: "is_table (put_word t j w m) D = is_table m D" using d by (intro ext) (simp add: is_table_def)
  show "tables_apart (put_word t j w m) D = tables_apart m D" unfolding tables_apart_def using d by simp
  have "refers (put_word t j w m) D s p = (if s = Pte t j then w \<noteq> 0 \<and> PGNUM w = p else refers m D s p)" for s
    using assms t d by (cases s) auto
  then show "sites (put_word t j w m) D p =
       (if w \<noteq> 0 \<and> PGNUM w = p then insert (Pte t j) (sites m D p) else sites m D p - {Pte t j})"
    by (auto simp: sites_def)
qed

lemma put_pte_refers:
  "is_table m D t \<Longrightarrow> t \<notin> D \<Longrightarrow> j < 1024 \<Longrightarrow> refers (put_word t j w m) D (Pte t' j') p \<longleftrightarrow>
     (if t' = t \<and> j' = j then w \<noteq> 0 \<and> PGNUM w = p else refers m D (Pte t' j') p)"
  using put_pte_sites(1) [of m D t j w] by auto

text \<open>Replacing an entry moves one reference between memory and the operation that holds it.\<close>

lemma put_pte_inv:
  assumes inv: "mem_inv m D K xs ex" and t: "is_table m D t" "j < 1024"
    and w: "w \<noteq> 0 \<Longrightarrow> PGNUM w < npages m \<and> PGNUM w \<notin> K \<and> PGNUM w \<notin> D \<and> \<not> is_table m D (PGNUM w)"
    and pres: "w \<noteq> 0 \<Longrightarrow> w AND PTE_P \<noteq> 0"
    and cnt: "\<And>p. p < npages m \<Longrightarrow> p \<notin> K \<Longrightarrow>
      card (sites (put_word t j w m) D p) + ex' p = card (sites m D p) + ex p"
  shows "mem_inv (put_word t j w m) D K xs ex'"
proof -
  have td: "t \<notin> D" using mem_invD(7) [OF inv t(1)] by simp
  note e = put_pte_sites [OF t(1) td t(2)] put_pte_refers [OF t(1) td t(2)]
  have "pl.free_listed (put_word t j w m) xs" using mem_invD(3) [OF inv] by (subst free_listed_meta [of _ m]) simp_all
  moreover have "q < npages m \<and> q \<notin> K \<and> q \<notin> D \<and> \<not> is_table m D q"
    if "refers (put_word t j w m) D (Pte t' j') q" for t' j' q
    using that w mem_invD(9) [OF inv, of t' j' q] unfolding e(4) by (cases "t' = t \<and> j' = j") auto
  moreover have "unat (pp_ref (pages m ! q)) = card (sites (put_word t j w m) D q) + ex' q" if "q < npages m" "q \<notin> K" for q
    using mem_invD(10) [OF inv that] cnt [OF that] by simp
  moreover have "all_present (put_word t j w m) D"
    using mem_invD(12) [OF inv] td pres unfolding all_present_def e(1) by auto
  ultimately show ?thesis
    using inv unfolding mem_inv_def put_word_fields e(1,2) by blast
qed

lemma clear_pte_inv:
  assumes inv: "mem_inv m D K xs ex" and ref: "refers m D (Pte t j) p"
  shows "mem_inv (put_word t j 0 m) D K xs (ex(p := ex p + 1))"
proof (rule put_pte_inv [OF inv])
  show t: "is_table m D t" and j: "j < 1024" using ref by simp_all
  have td: "t \<notin> D" using mem_invD(7) [OF inv t] by simp
  fix q
  have fin: "finite (sites m D q)" for q using sites_finite mem_invD(2) [OF inv] by blast
  have "Pte t j \<in> sites m D q \<longleftrightarrow> q = p" using ref by (auto simp: sites_def)
  then show "card (sites (put_word t j 0 m) D q) + (ex(p := ex p + 1)) q = card (sites m D q) + ex q"
    unfolding put_pte_sites(3) [OF t td j] using fin [of q] card_Suc_Diff1 [OF fin, of "Pte t j" q]
    by (cases "q = p") (simp_all add: card_Diff_singleton)
qed simp_all

lemma set_pte_inv:
  assumes inv: "mem_inv m D K xs ex" and t: "is_table m D t" "j < 1024" "pmem m t j = 0"
    and w: "w \<noteq> 0" "PGNUM w = p" "p < npages m" "p \<notin> K" "p \<notin> D" "\<not> is_table m D p" "ex p > 0" "w AND PTE_P \<noteq> 0"
  shows "mem_inv (put_word t j w m) D K xs (ex(p := ex p - 1))"
proof (rule put_pte_inv [OF inv t(1,2)])
  show "PGNUM w < npages m \<and> PGNUM w \<notin> K \<and> PGNUM w \<notin> D \<and> \<not> is_table m D (PGNUM w)" using w by simp
  show "w AND PTE_P \<noteq> 0" by (rule w(8))
  have td: "t \<notin> D" using mem_invD(7) [OF inv t(1)] by simp
  fix q
  have fin: "finite (sites m D q)" using sites_finite mem_invD(2) [OF inv] by blast
  have "Pte t j \<notin> sites m D q" using t by (simp add: sites_def)
  then show "card (sites (put_word t j w m) D q) + (ex(p := ex p - 1)) q = card (sites m D q) + ex q"
    unfolding put_pte_sites(3) [OF t(1) td t(2)] using fin w by (cases "q = p") auto
qed

text \<open>A new page table.\<close>

lemma new_table_inv:
  assumes inv: "mem_inv m D K xs ex" and d: "d \<in> D" "i < 955" "pmem m d i = 0"
    and w: "w \<noteq> 0" "PGNUM w = t" "w AND PTE_P \<noteq> 0"
    and t: "t < npages m" "t \<notin> K" "t \<notin> D" "\<not> is_table m D t" "sites m D t = {}" "ex t = 1" "\<And>j. pmem m t j = 0"
  shows "mem_inv (put_word d i w m) D K xs (ex(t := 0))" "is_table (put_word d i w m) D t"
proof -
  let ?m = "put_word d i w m"
  have tab: "is_table ?m D = (\<lambda>q. q = t \<or> is_table m D q)"
    using d w by (intro ext) (auto simp: is_table_def)
  then show "is_table ?m D t" by simp
  have ne: "d \<noteq> t" "\<not> is_table m D d" using d t mem_invD(7) [OF inv] by blast+
  have ref: "refers ?m D s q = (if s = Pde d i then q = t else refers m D s q)" for s q
  proof (cases s)
    case (Pte t' j)
    then show ?thesis using t(4,7) ne d unfolding tab Pte by (auto simp: tab)
  qed (use d w in auto)
  then have sites: "sites ?m D q = (if q = t then {Pde d i} else sites m D q)" for q
    using d t(5) by (auto simp: sites_def)
  have apart: "tables_apart ?m D"
  proof -
    have no: "PGNUM (pmem m d' i') \<noteq> t" if "d' \<in> D" "i' < 955" "pmem m d' i' \<noteq> 0" for d' i'
      using t(4) that by (auto simp: is_table_def)
    show ?thesis
      unfolding tables_apart_def using mem_invD(8) [OF inv] no w by (auto split: if_splits) blast+
  qed
  have "pl.free_listed ?m xs" using mem_invD(3) [OF inv] by (subst free_listed_meta [of _ m]) simp_all
  moreover have "q < npages m \<and> q \<notin> K \<and> q \<notin> D \<and> \<not> is_table ?m D q" if r: "refers ?m D (Pte t' j') q" for t' j' q
  proof -
    have "refers m D (Pte t' j') q" using r unfolding ref by simp
    moreover from this have "q \<noteq> t" using t(5) unfolding sites_def by blast
    ultimately show ?thesis using mem_invD(9) [OF inv] unfolding tab by blast
  qed
  moreover have "unat (pp_ref (pages m ! q)) = card (sites ?m D q) + (ex(t := 0)) q" if "q < npages m" "q \<notin> K" for q
    using mem_invD(10) [OF inv that] t(5,6) unfolding sites by auto
  moreover have "q < npages m \<and> q \<notin> K \<and> q \<notin> D" if "is_table ?m D q" for q
    using that t mem_invD(7) [OF inv, of q] unfolding tab by blast
  moreover have "all_present ?m D"
    using mem_invD(12) [OF inv] t(7) w d ne unfolding all_present_def tab by auto
  ultimately show "mem_inv ?m D K xs (ex(t := 0))"
    using inv apart unfolding mem_inv_def put_word_fields by blast
qed

section \<open>Walking\<close>

lemma pgdir_walk_False:
  assumes inv: "mem_inv m D K xs ex" and "d \<in> D" "va < UTOP"
  shows "pgdir_walk d va False m =
     Some (if pmem m d (PDX va) = 0 then None else Some (PGNUM (pmem m d (PDX va)), PTX va), m)"
    and "pmem m d (PDX va) \<noteq> 0 \<Longrightarrow> is_table m D (PGNUM (pmem m d (PDX va)))"
proof -
  show t: "is_table m D (PGNUM (pmem m d (PDX va)))" if "pmem m d (PDX va) \<noteq> 0"
    using that assms(2) PDX_user [OF assms(3)] by (auto simp: is_table_def)
  then show "pgdir_walk d va False m =
     Some (if pmem m d (PDX va) = 0 then None else Some (PGNUM (pmem m d (PDX va)), PTX va), m)"
    using mem_invD(7) [OF inv] by (auto simp: pgdir_walk_def Let_def pa2page_def)
qed

lemma table_entry: "t < 2 ^ 20 \<Longrightarrow> PGNUM (page2pa t OR PTE_P OR PTE_W OR PTE_U) = t"
proof -
  assume "t < 2 ^ 20"
  moreover have "drop_bit 12 (PTE_P OR PTE_W OR PTE_U) = 0" by (simp add: drop_bit_eq_div)
  ultimately have "PGNUM (page2pa t OR (PTE_P OR PTE_W OR PTE_U)) = t" by (rule PGNUM_entry)
  then show ?thesis by (simp add: or.assoc)
qed

lemma table_entry_nz: "page2pa t OR PTE_P OR PTE_W OR PTE_U \<noteq> 0"
proof
  assume "page2pa t OR PTE_P OR PTE_W OR PTE_U = 0"
  then have "bit (page2pa t OR PTE_P OR PTE_W OR PTE_U) 0 = bit (0 :: 32 word) 0" by simp
  then show False by (simp add: bit_or_iff bit_1_iff)
qed

lemma present_bit: "(w OR PTE_P) AND PTE_P \<noteq> 0" "(w OR PTE_P OR x) AND PTE_P \<noteq> 0"
proof -
  have "bit ((w OR PTE_P) AND PTE_P) 0" "bit ((w OR PTE_P OR x) AND PTE_P) 0" by (simp_all add: bit_and_iff bit_or_iff bit_1_iff)
  then show "(w OR PTE_P) AND PTE_P \<noteq> 0" "(w OR PTE_P OR x) AND PTE_P \<noteq> 0" by (metis bit_0_eq bot_apply bot_bool_def)+
qed

text \<open>\<open>walked\<close>: what a walk that creates tables does to the state.\<close>

definition walked :: "'a machine_scheme \<Rightarrow> nat set \<Rightarrow> nat \<Rightarrow> nat \<Rightarrow> 'a machine_scheme \<Rightarrow> nat \<Rightarrow> bool" where
  "walked m D d i m' t \<longleftrightarrow> pmem m' d i \<noteq> 0 \<and> PGNUM (pmem m' d i) = t \<and> is_table m' D t \<and>
     (pmem m d i \<noteq> 0 \<and> m' = m \<or>
      pmem m d i = 0 \<and> (\<forall>j. pmem m' t j = 0) \<and> (\<forall>q j. q \<noteq> t \<and> (q, j) \<noteq> (d, i) \<longrightarrow> pmem m' q j = pmem m q j)) \<and>
     (\<forall>q < npages m. q \<noteq> t \<longrightarrow> pp_ref (pages m' ! q) = pp_ref (pages m ! q)) \<and> npages m' = npages m"

lemma pgdir_walk_create:
  assumes inv: "mem_inv m D K xs ex" and d: "d \<in> D" "va < UTOP"
  shows "\<exists>r m' ys. pgdir_walk d va True m = Some (r, m') \<and> mem_inv m' D K ys ex \<and> set ys \<subseteq> set xs \<and>
    (case r of None \<Rightarrow> m' = m \<and> xs = [] \<and> pmem m d (PDX va) = 0
     | Some (t, j) \<Rightarrow> j = PTX va \<and> walked m D d (PDX va) m' t \<and>
         (pmem m d (PDX va) = 0 \<longrightarrow> t \<in> set xs \<and> pmem m' d (PDX va) = page2pa t OR PTE_P OR PTE_W OR PTE_U)) \<and>
    length xs \<le> length ys + (if pmem m d (PDX va) = 0 then 1 else 0)"
proof -
  let ?i = "PDX va"
  have i: "?i < 955" by (rule PDX_user [OF d(2)])
  show ?thesis
  proof (cases "pmem m d ?i = 0")
    case False
    then have t: "is_table m D (PGNUM (pmem m d ?i))" using pgdir_walk_False [OF inv d] by blast
    have "pgdir_walk d va True m = Some (Some (PGNUM (pmem m d ?i), PTX va), m)"
      using False mem_invD(7) [OF inv t] by (simp add: pgdir_walk_def Let_def pa2page_def)
    then show ?thesis using inv False t by (auto simp: walked_def)
  next
    case True
    obtain r m1 where al: "page_alloc True m = (r, m1)" by fastforce
    show ?thesis
    proof (cases r)
      case None
      then have "m1 = m" "xs = []" using page_alloc_inv [OF inv, of True] al by simp_all
      then show ?thesis using inv True None al by (auto simp: pgdir_walk_def Let_def)
    next
      case (Some t)
      then obtain ys where ys: "xs = t # ys" "mem_inv m1 D K ys ex" "npages m1 = npages m" "t \<notin> set ys"
        "\<forall>q < npages m. pp_ref (pages m1 ! q) = pp_ref (pages m ! q)"
        "\<forall>q j. pmem m1 q j = (if q = t then 0 else pmem m q j)"
        using page_alloc_inv [OF inv, of True] al by auto
      have free: "sites m D t = {}" "ex t = 0" "t \<notin> D" "\<not> is_table m D t" "t < npages m" "t \<notin> K"
        using free_page [OF inv, of t] ys(1) by simp_all
      have ref0: "pp_ref (pages m1 ! t) = 0" using ys(5) free(5) mem_invD(11) [OF inv, of t] ys(1) by simp
      note un = unreferenced [OF ys(2) _ free(6) ref0]
      let ?m2 = "upd_page t (\<lambda>i. i\<lparr>pp_ref := pp_ref i + 1\<rparr>) m1"
      let ?w = "page2pa t OR PTE_P OR PTE_W OR PTE_U"
      let ?m3 = "put_word d ?i ?w ?m2"
      have inv2: "mem_inv ?m2 D K ys (ex(t := ex t + 1))"
        using inc_ref_inv [OF ys(2)] free(5) ys(3,4) ref0 by simp
      have same: "is_table ?m2 D = is_table m1 D" "sites ?m2 D = sites m1 D" by (intro same_memory; simp)+
      have "t < 2 ^ 20" using free(5) mem_invD(1) [OF inv] by simp
      then have w: "?w \<noteq> 0" "PGNUM ?w = t" "?w AND PTE_P \<noteq> 0"
        using table_entry table_entry_nz present_bit(2) [of "page2pa t" "PTE_W OR PTE_U"] by (simp_all only: or.assoc) blast+
      have dt: "d \<noteq> t" using d(1) free(3) by blast
      have z: "pmem ?m2 d ?i = 0" using ys(6) True dt by simp
      have "mem_inv ?m3 D K ys ((ex(t := ex t + 1))(t := 0))" "is_table ?m3 D t"
        using new_table_inv [OF inv2 d(1) i z w] un free ys(3,6) same by simp_all
      moreover have "(ex(t := ex t + 1))(t := 0) = ex" using free(2) by auto
      moreover have "pgdir_walk d va True m = Some (Some (t, PTX va), ?m3)"
        using True Some al w free(5) ys(3) by (simp add: pgdir_walk_def Let_def pa2page_def)
      ultimately show ?thesis
        using ys free w True dt by (intro exI [of _ "Some (t, PTX va)"] exI [of _ ?m3] exI [of _ ys]) (auto simp: walked_def)
    qed
  qed
qed

section \<open>Address spaces\<close>

text \<open>The entry that maps an address in the address space of a directory; 0 when there is no table.\<close>

definition entry :: "'a machine_scheme \<Rightarrow> nat \<Rightarrow> 32 word \<Rightarrow> 32 word" where
  "entry m d va = (if pmem m d (PDX va) = 0 then 0 else pmem m (PGNUM (pmem m d (PDX va))) (PTX va))"

lemma page_lookup_entry:
  assumes inv: "mem_inv m D K xs ex" and d: "d \<in> D" "va < UTOP"
  shows "page_lookup d va m = Some (if entry m d va = 0 then None
      else Some (PGNUM (entry m d va), PGNUM (pmem m d (PDX va)), PTX va))"
proof (cases "pmem m d (PDX va) = 0")
  case True
  then show ?thesis using pgdir_walk_False(1) [OF assms] by (simp add: page_lookup_def entry_def)
next
  case False
  then have t: "is_table m D (PGNUM (pmem m d (PDX va)))" using pgdir_walk_False(2) [OF assms] by blast
  have "PGNUM (entry m d va) < npages m" if "entry m d va \<noteq> 0"
    using mem_invD(9) [OF inv, of _ "PTX va" "PGNUM (entry m d va)"] t that False by (auto simp: entry_def)
  then show ?thesis
    using False pgdir_walk_False(1) [OF assms] by (auto simp: page_lookup_def entry_def pa2page_def)
qed

lemma entry_refers:
  assumes inv: "mem_inv m D K xs ex" and d: "d \<in> D" "va < UTOP" and e: "entry m d va \<noteq> 0"
  shows "refers m D (Pte (PGNUM (pmem m d (PDX va))) (PTX va)) (PGNUM (entry m d va))"
    and "pmem m d (PDX va) \<noteq> 0"
  using pgdir_walk_False(2) [OF inv d] e by (auto simp: entry_def split: if_splits)

lemma page_decref_put:
  "page_decref p (put_word t i w m) = map_option (put_word t i w) (page_decref p m)"
  by (simp add: page_decref_def page_free_def Let_def put_word_def upd_page_def page_push_def)

text \<open>Changing the entry of one address changes no other address of any address space.\<close>

lemma entry_put_other:
  assumes inv: "mem_inv m D K xs ex" and d: "d \<in> D" "va < UTOP" "d' \<in> D" "va' < UTOP" "pmem m d (PDX va) \<noteq> 0"
    and ne: "d' \<noteq> d \<or> PGNUM va' \<noteq> PGNUM va"
  shows "entry (put_word (PGNUM (pmem m d (PDX va))) (PTX va) w m) d' va' = entry m d' va'"
proof -
  let ?t = "PGNUM (pmem m d (PDX va))"
  have "?t \<notin> D" using pgdir_walk_False(2) [OF inv d(1,2) d(5)] mem_invD(7) [OF inv] by blast
  then have dir: "pmem (put_word ?t (PTX va) w m) d' (PDX va') = pmem m d' (PDX va')" using d(3) by auto
  have "\<not> (PGNUM (pmem m d' (PDX va')) = ?t \<and> PTX va' = PTX va)" if "pmem m d' (PDX va') \<noteq> 0"
    using mem_invD(8) [OF inv d(3,1) PDX_user [OF d(4)] PDX_user [OF d(2)] that d(5)] ne same_page [of va' va] by auto
  then show ?thesis unfolding entry_def dir by auto
qed

lemma page_decref_refs:
  "page_decref p m = Some m' \<Longrightarrow> q < npages m \<Longrightarrow>
   pp_ref (pages m' ! q) = (if q = p then pp_ref (pages m ! p) - 1 else pp_ref (pages m ! q))"
  by (auto simp: page_decref_def page_free_def Let_def split: if_splits)

lemma page_remove_spec:
  assumes inv: "mem_inv m D K xs ex" and d: "d \<in> D" "va < UTOP"
  shows "\<exists>m' ys. page_remove d va m = Some m' \<and> mem_inv m' D K ys ex \<and> npages m' = npages m \<and>
    pmem m' = (if entry m d va = 0 then pmem m else pmem (put_word (PGNUM (pmem m d (PDX va))) (PTX va) 0 m)) \<and>
    (\<forall>q < npages m. unat (pp_ref (pages m' ! q)) \<le> unat (pp_ref (pages m ! q))) \<and> length xs \<le> length ys"
proof (cases "entry m d va = 0")
  case True
  then have "page_remove d va m = Some m" using page_lookup_entry [OF assms] by (simp add: page_remove_def)
  then show ?thesis using inv True by auto
next
  case False
  let ?p = "PGNUM (entry m d va)" and ?t = "PGNUM (pmem m d (PDX va))"
  note ref = entry_refers [OF inv d False]
  have p: "?p < npages m" "?p \<notin> K" using mem_invD(9) [OF inv ref(1)] by simp_all
  have inv1: "mem_inv (put_word ?t (PTX va) 0 m) D K xs (ex(?p := ex ?p + 1))" by (rule clear_pte_inv [OF inv ref(1)])
  obtain m2 ys where dec: "page_decref ?p (put_word ?t (PTX va) 0 m) = Some m2"
    "mem_inv m2 D K ys ((ex(?p := ex ?p + 1))(?p := (ex(?p := ex ?p + 1)) ?p - 1))"
    "pmem m2 = pmem (put_word ?t (PTX va) 0 m)" "npages m2 = npages m" "length xs \<le> length ys"
    using page_decref_inv [OF inv1, of ?p] p by auto
  have "(ex(?p := ex ?p + 1))(?p := (ex(?p := ex ?p + 1)) ?p - 1) = ex" by auto
  moreover have "page_remove d va m = Some m2"
    using page_lookup_entry [OF assms] False dec(1) by (auto simp: page_remove_def page_decref_put)
  moreover have "unat (pp_ref (pages m2 ! q)) \<le> unat (pp_ref (pages m ! q))" if "q < npages m" for q
  proof -
    have "pp_ref (pages m ! ?p) \<noteq> 0"
      using unreferenced(1) [OF inv p] ref(1) unfolding sites_def by blast
    then show ?thesis using page_decref_refs [OF dec(1), of q] that by (auto simp: unat_minus_one)
  qed
  ultimately show ?thesis using dec False by auto
qed

lemma entry_after_clear: "entry (put_word (PGNUM (pmem m d (PDX va))) (PTX va) 0 m) d va = 0 \<or> PGNUM (pmem m d (PDX va)) = d"
  by (auto simp: entry_def)

lemma walked_tables:
  assumes "walked m D d i m' t" "d \<in> D" "i < 955" "t \<notin> D"
  shows "is_table m' D q \<longleftrightarrow> q = t \<or> is_table m D q"
proof (cases "pmem m d i = 0")
  case False
  then show ?thesis using assms(1) by (auto simp: walked_def)
next
  case True
  have same: "pmem m' d' i' = pmem m d' i'" if "d' \<in> D" "(d', i') \<noteq> (d, i)" for d' i'
  proof -
    have "d' \<noteq> t" using that assms(4) by blast
    then show ?thesis using assms(1) True that(2) unfolding walked_def by blast
  qed
  have new: "pmem m' d i \<noteq> 0" "PGNUM (pmem m' d i) = t" using assms(1) by (simp_all add: walked_def)
  show ?thesis
  proof
    assume "is_table m' D q"
    then obtain d' i' where o: "d' \<in> D" "i' < 955" "pmem m' d' i' \<noteq> 0" "PGNUM (pmem m' d' i') = q"
      unfolding is_table_def by blast
    show "q = t \<or> is_table m D q"
    proof (cases "(d', i') = (d, i)")
      case False
      then have "pmem m d' i' \<noteq> 0" "PGNUM (pmem m d' i') = q" using o(3,4) same [OF o(1) False] by simp_all
      then show ?thesis using o(1,2) unfolding is_table_def by blast
    qed (use o(4) new(2) in simp)
  next
    assume "q = t \<or> is_table m D q"
    then show "is_table m' D q"
    proof
      assume "is_table m D q"
      then obtain d' i' where o: "d' \<in> D" "i' < 955" "pmem m d' i' \<noteq> 0" "PGNUM (pmem m d' i') = q"
        unfolding is_table_def by blast
      then have "(d', i') \<noteq> (d, i)" using True by auto
      then have "pmem m' d' i' \<noteq> 0" "PGNUM (pmem m' d' i') = q" using o(3,4) same [OF o(1)] by simp_all
      then show ?thesis using o(1,2) unfolding is_table_def by blast
    qed (use assms(2,3) new in \<open>auto simp: is_table_def\<close>)
  qed
qed

lemma walked_entry:
  assumes w: "walked m D d (PDX va) m' t" and d: "d \<in> D" "d' \<in> D" "va' < UTOP"
    and t: "t \<notin> D" "pmem m d (PDX va) = 0 \<Longrightarrow> \<not> is_table m D t" "\<And>q. is_table m D q \<Longrightarrow> q \<notin> D"
  shows "entry m' d' va' = entry m d' va'"
proof (cases "pmem m d (PDX va) = 0")
  case False
  then show ?thesis using w by (simp add: walked_def)
next
  case True
  have same: "pmem m' q j = pmem m q j" if "q \<noteq> t" "(q, j) \<noteq> (d, PDX va)" for q j
    using w True that by (auto simp: walked_def)
  have zero: "pmem m' t j = 0" for j using w True by (auto simp: walked_def)
  show ?thesis
  proof (cases "d' = d \<and> PDX va' = PDX va")
    case True
    then have "pmem m d' (PDX va') = 0" "PGNUM (pmem m' d' (PDX va')) = t"
      using \<open>pmem m d (PDX va) = 0\<close> w by (simp_all add: walked_def)
    then show ?thesis by (simp add: entry_def zero)
  next
    case False
    then have dir: "pmem m' d' (PDX va') = pmem m d' (PDX va')" using same [of d' "PDX va'"] d(2) t(1) by auto
    have "pmem m' q (PTX va') = pmem m q (PTX va')" if "is_table m D q" for q
    proof -
      have "q \<noteq> t" using that t(2) True by blast
      moreover have "(q, PTX va') \<noteq> (d, PDX va)" using t(3) that d(1) by blast
      ultimately show ?thesis using same by blast
    qed
    moreover have "is_table m D (PGNUM (pmem m d' (PDX va')))" if "pmem m d' (PDX va') \<noteq> 0"
      using that d PDX_user [OF d(3)] by (auto simp: is_table_def)
    ultimately show ?thesis unfolding entry_def dir by auto
  qed
qed

lemma page_insert_full:
  assumes inv: "mem_inv m D K xs ex" and d: "d \<in> D" "va < UTOP"
    and pp: "pp < npages m" "pp \<notin> K" "pp \<notin> D" "\<not> is_table m D pp" "pp \<notin> set xs" "unat (pp_ref (pages m ! pp)) < 65535"
    and perm: "drop_bit 12 perm = 0"
  shows "\<exists>r m' ys. page_insert d pp va perm m = Some (r, m') \<and> mem_inv m' D K ys ex \<and>
    (r = - E_NO_MEM \<and> xs = [] \<and> m' = m \<or>
     r = 0 \<and> entry m' d va = page2pa pp OR perm OR PTE_P \<and>
       (\<forall>d' \<in> D. \<forall>va' < UTOP. d' \<noteq> d \<or> PGNUM va' \<noteq> PGNUM va \<longrightarrow> entry m' d' va' = entry m d' va')) \<and>
    (\<forall>q. q \<notin> D \<and> \<not> is_table m D q \<and> q \<notin> set xs \<longrightarrow> pmem m' q = pmem m q) \<and> npages m' = npages m \<and>
    (\<forall>q < npages m. \<not> is_table m' D q \<longrightarrow> unat (pp_ref (pages m' ! q)) \<le> unat (pp_ref (pages m ! q)) + (if q = pp then 1 else 0)) \<and>
    (r = 0 \<or> pmem m d (PDX va) = 0) \<and> length xs \<le> length ys + (if pmem m d (PDX va) = 0 then 1 else 0) \<and>
    (\<forall>d' \<in> D. \<forall>i. (d', i) \<noteq> (d, PDX va) \<or> pmem m d (PDX va) \<noteq> 0 \<longrightarrow> pmem m' d' i = pmem m d' i) \<and>
    (r = 0 \<and> pmem m d (PDX va) = 0 \<longrightarrow> (\<exists>t. pmem m' d (PDX va) = page2pa t OR PTE_P OR PTE_W OR PTE_U \<and> pmem m' d (PDX va) \<noteq> 0))"
proof -
  obtain r m1 ys where w: "pgdir_walk d va True m = Some (r, m1)" "mem_inv m1 D K ys ex" "set ys \<subseteq> set xs"
    "length xs \<le> length ys + (if pmem m d (PDX va) = 0 then 1 else 0)"
    and cs: "case r of None \<Rightarrow> m1 = m \<and> xs = [] \<and> pmem m d (PDX va) = 0
     | Some (t, j) \<Rightarrow> j = PTX va \<and> walked m D d (PDX va) m1 t \<and>
         (pmem m d (PDX va) = 0 \<longrightarrow> t \<in> set xs \<and> pmem m1 d (PDX va) = page2pa t OR PTE_P OR PTE_W OR PTE_U)"
    using pgdir_walk_create [OF inv d] by blast
  show ?thesis
  proof (cases r)
    case None
    then show ?thesis using w cs by (auto simp: page_insert_def)
  next
    case (Some tj)
    then obtain t where r: "r = Some (t, PTX va)" and wk: "walked m D d (PDX va) m1 t"
      and tx: "pmem m d (PDX va) = 0 \<Longrightarrow> t \<in> set xs"
      and tw: "pmem m d (PDX va) = 0 \<Longrightarrow> pmem m1 d (PDX va) = page2pa t OR PTE_P OR PTE_W OR PTE_U" using cs by (cases tj) auto
    have t: "is_table m1 D t" "pmem m1 d (PDX va) \<noteq> 0" "PGNUM (pmem m1 d (PDX va)) = t" "npages m1 = npages m"
      using wk by (auto simp: walked_def)
    have tD: "t \<notin> D" using mem_invD(7) [OF w(2) t(1)] by simp
    have pt: "pp \<noteq> t" "\<not> is_table m1 D pp"
    proof -
      show "pp \<noteq> t"
      proof (cases "pmem m d (PDX va) = 0")
        case False
        then show ?thesis using wk t(1) pp(4) by (auto simp: walked_def)
      qed (use tx pp(5) in blast)
      then show "\<not> is_table m1 D pp" using walked_tables [OF wk d(1) PDX_user [OF d(2)] tD] pp(4) by blast
    qed
    have ref: "pp_ref (pages m1 ! pp) = pp_ref (pages m ! pp)" using wk pp(1) pt by (simp add: walked_def)
    let ?m2 = "upd_page pp (\<lambda>i. i\<lparr>pp_ref := pp_ref i + 1\<rparr>) m1" and ?ex = "ex(pp := ex pp + 1)"
    have inv2: "mem_inv ?m2 D K ys ?ex" using inc_ref_inv [OF w(2), of pp] pp w(3) t(4) ref by auto
    have same2: "is_table ?m2 D = is_table m1 D" by (rule same_memory(1)) simp_all
    obtain m3 zs where rm: "page_remove d va ?m2 = Some m3" "mem_inv m3 D K zs ?ex" "npages m3 = npages m" "length ys \<le> length zs"
      and mem3: "pmem m3 = (if entry ?m2 d va = 0 then pmem ?m2 else pmem (put_word t (PTX va) 0 ?m2))"
      and ref3: "\<forall>q < npages m. unat (pp_ref (pages m3 ! q)) \<le> unat (pp_ref (pages ?m2 ! q))"
      using page_remove_spec [OF inv2 d] t(3,4) by auto
    have tab3: "is_table m3 D = is_table m1 D" using mem3 tD by (intro ext) (auto simp: is_table_def)
    have dir3: "pmem m3 d' i = pmem m1 d' i" if "d' \<in> D" for d' i using mem3 tD that by auto
    have z3: "pmem m3 t (PTX va) = 0" using mem3 t by (auto simp: entry_def)
    let ?w = "page2pa pp OR perm OR PTE_P"
    have p20: "pp < 2 ^ 20" using pp(1) mem_invD(1) [OF inv] by simp
    have wv: "?w \<noteq> 0" "PGNUM ?w = pp" "?w AND PTE_P \<noteq> 0"
      using entry_present [of "page2pa pp OR perm"] PGNUM_entry [OF p20 perm_flags [OF perm]]
        present_bit(1) [of "page2pa pp OR perm"] by (simp_all add: or.assoc)
    let ?m4 = "put_word t (PTX va) ?w m3"
    have "mem_inv ?m4 D K zs (?ex(pp := ?ex pp - 1))"
      using set_pte_inv [OF rm(2), of t "PTX va" ?w pp] t(1) tab3 z3 wv pp rm(3) pt by simp
    moreover have "?ex(pp := ?ex pp - 1) = ex" by auto
    moreover have "page_insert d pp va perm m = Some (0, ?m4)" using w(1) r rm(1) by (simp add: page_insert_def)
    moreover have "entry ?m4 d va = ?w" using dir3 [OF d(1)] t tD d(1) by (auto simp: entry_def)
    moreover have "entry ?m4 d' va' = entry m d' va'" if "d' \<in> D" "va' < UTOP" "d' \<noteq> d \<or> PGNUM va' \<noteq> PGNUM va" for d' va'
    proof -
      have nz: "pmem m3 d (PDX va) \<noteq> 0" "PGNUM (pmem m3 d (PDX va)) = t" using dir3 [OF d(1)] t by simp_all
      have "entry ?m4 d' va' = entry m3 d' va'"
        using entry_put_other [OF rm(2) d that(1,2) nz(1) that(3)] nz(2) by simp
      also have "\<dots> = entry ?m2 d' va'"
      proof -
        have "entry (put_word t (PTX va) 0 ?m2) d' va' = entry ?m2 d' va'"
          using entry_put_other [OF inv2 d that(1,2) _ that(3), of 0] t by simp
        then show ?thesis using mem3 by (auto simp: entry_def)
      qed
      also have "\<dots> = entry m1 d' va'" by (simp add: entry_def)
      also have "\<dots> = entry m d' va'"
        by (rule walked_entry [OF wk d(1) that(1,2) tD])
          (use tx free_page(4) [OF inv] mem_invD(7) [OF inv] in blast)+
      finally show ?thesis .
    qed
    moreover have "pmem ?m4 q = pmem m q" if "q \<notin> D" "\<not> is_table m D q" "q \<notin> set xs" for q
    proof -
      have "q \<noteq> t"
      proof (cases "pmem m d (PDX va) = 0")
        case False
        then show ?thesis using wk t(1) that(2) by (auto simp: walked_def)
      qed (use tx that(3) in blast)
      moreover have "q \<noteq> d" using that(1) d(1) by blast
      moreover have "pmem m1 q = pmem m q"
        using wk calculation by (intro ext) (auto simp: walked_def)
      ultimately show ?thesis using mem3 by (intro ext) auto
    qed
    moreover have "unat (pp_ref (pages ?m4 ! q)) \<le> unat (pp_ref (pages m ! q)) + (if q = pp then 1 else 0)" if "q < npages m" "\<not> is_table ?m4 D q" for q
    proof -
      have "pmem ?m4 d (PDX va) = pmem m1 d (PDX va)" using dir3 [OF d(1)] tD d(1) by auto
      then have "is_table ?m4 D t" unfolding is_table_def using t(2,3) d(1) PDX_user [OF d(2)] by metis
      then have "pp_ref (pages m1 ! q) = pp_ref (pages m ! q)" using wk that by (auto simp: walked_def)
      moreover have "unat (x + 1) \<le> unat x + 1" for x :: "16 word" by (simp add: unat_word_ariths mod_le_divisor)
      ultimately have "unat (pp_ref (pages ?m2 ! q)) \<le> unat (pp_ref (pages m ! q)) + (if q = pp then 1 else 0)" using that(1) t(4) by auto
      then show ?thesis using ref3 that(1) by (auto intro: le_trans)
    qed
    moreover have "npages ?m4 = npages m" using rm(3) by simp
    moreover have "pmem ?m4 d' i = pmem m d' i" if "d' \<in> D" "(d', i) \<noteq> (d, PDX va) \<or> pmem m d (PDX va) \<noteq> 0" for d' i
    proof -
      have "d' \<noteq> t" using that(1) tD by blast
      then have "pmem ?m4 d' i = pmem m1 d' i" using dir3 [OF that(1)] by simp
      then show ?thesis using wk that(2) \<open>d' \<noteq> t\<close> by (auto simp: walked_def)
    qed
    moreover have "pmem ?m4 d (PDX va) = pmem m1 d (PDX va)" using dir3 [OF d(1)] tD d(1) by auto
    then have "\<exists>t. pmem ?m4 d (PDX va) = page2pa t OR PTE_P OR PTE_W OR PTE_U \<and> pmem ?m4 d (PDX va) \<noteq> 0"
      if "pmem m d (PDX va) = 0" using tw [OF that] t(2) by auto
    moreover have "length xs \<le> length zs + (if pmem m d (PDX va) = 0 then 1 else 0)" using w(4) rm(4) by auto
    ultimately show ?thesis by (intro exI [of _ 0] exI [of _ ?m4] exI [of _ zs]) simp
  qed
qed

lemma page_insert_spec:
  assumes inv: "mem_inv m D K xs ex" and d: "d \<in> D" "va < UTOP"
    and pp: "pp < npages m" "pp \<notin> K" "pp \<notin> D" "\<not> is_table m D pp" "pp \<notin> set xs" "unat (pp_ref (pages m ! pp)) < 65535"
    and perm: "drop_bit 12 perm = 0"
  shows "\<exists>r m' ys. page_insert d pp va perm m = Some (r, m') \<and> mem_inv m' D K ys ex \<and>
    (r = - E_NO_MEM \<and> xs = [] \<and> m' = m \<or>
     r = 0 \<and> entry m' d va = page2pa pp OR perm OR PTE_P \<and>
       (\<forall>d' \<in> D. \<forall>va' < UTOP. d' \<noteq> d \<or> PGNUM va' \<noteq> PGNUM va \<longrightarrow> entry m' d' va' = entry m d' va')) \<and>
    (\<forall>q. q \<notin> D \<and> \<not> is_table m D q \<and> q \<notin> set xs \<longrightarrow> pmem m' q = pmem m q) \<and> npages m' = npages m \<and>
    (\<forall>q < npages m. \<not> is_table m' D q \<longrightarrow> unat (pp_ref (pages m' ! q)) \<le> unat (pp_ref (pages m ! q)) + 1)"
proof -
  obtain r m' ys where full: "page_insert d pp va perm m = Some (r, m')" "mem_inv m' D K ys ex"
    "r = - E_NO_MEM \<and> xs = [] \<and> m' = m \<or> r = 0 \<and> entry m' d va = page2pa pp OR perm OR PTE_P \<and>
       (\<forall>d' \<in> D. \<forall>va' < UTOP. d' \<noteq> d \<or> PGNUM va' \<noteq> PGNUM va \<longrightarrow> entry m' d' va' = entry m d' va')"
    "\<forall>q. q \<notin> D \<and> \<not> is_table m D q \<and> q \<notin> set xs \<longrightarrow> pmem m' q = pmem m q" "npages m' = npages m"
    "\<forall>q < npages m. \<not> is_table m' D q \<longrightarrow> unat (pp_ref (pages m' ! q)) \<le> unat (pp_ref (pages m ! q)) + (if q = pp then 1 else 0)"
    using page_insert_full [OF assms] by (elim exE conjE) (rule that)
  moreover have "\<forall>q < npages m. \<not> is_table m' D q \<longrightarrow> unat (pp_ref (pages m' ! q)) \<le> unat (pp_ref (pages m ! q)) + 1"
    using full(6) by (auto split: if_splits)
  ultimately show ?thesis by blast
qed

end
