(* ===== verification/Kern_Sched_Props.thy ===== *)
theory Kern_Sched_Props
  imports Kern_Syscall Kern_Pmap_Inv
begin

unbundle bit_operations_syntax

text \<open>
  Facts about environments and the scheduler: identifiers, the circular search, what running an environment
  changes, and progress of the round-robin scheduler.
\<close>

section \<open>Identifiers\<close>

lemma ENVX_mod: "ENVX w = unat w mod 1024"
proof -
  have "w AND 0x3FF = take_bit 10 w" by (simp add: take_bit_eq_mask mask_eq_exp_minus_1)
  then show ?thesis by (simp add: ENVX_def take_bit_eq_mod unat_mod_distrib)
qed

lemma ENVX_less [simp]: "ENVX w < 1024"
  by (simp add: ENVX_mod)

lemma clear_low: "(w :: 32 word) AND - 1024 = push_bit 10 (drop_bit 10 w)"
proof -
  have "(- 1024 :: 32 word) = NOT (mask 10)" by (simp add: mask_eq_exp_minus_1)
  have "bit (w AND - 1024) n = bit (push_bit 10 (drop_bit 10 w)) n" if "n < 32" for n
    using that unfolding \<open>- 1024 = NOT (mask 10)\<close> bit_and_iff bit_not_iff bit_mask_iff bit_push_bit_iff bit_drop_bit_eq
    by auto
  then show ?thesis by (intro bit_eqI) simp
qed

lemma unat_clear_low: "unat ((w :: 32 word) AND - 1024) = unat w div 1024 * 1024"
proof -
  have "unat w < 2 ^ LENGTH(32)" by (rule unsigned_less)
  then have "unat w div 1024 * 1024 < 2 ^ 32" using div_times_less_eq_dividend [of "unat w" 1024] by simp
  then show ?thesis
    unfolding clear_low by (simp add: push_bit_eq_mult drop_bit_eq_div unat_word_ariths unat_div_distrib mult.commute)
qed

lemma unat_id:
  assumes "e < 1024"
  shows "unat (((w :: 32 word) AND - 1024) OR of_nat e) = unat w div 1024 * 1024 + e"
proof -
  have ue: "unat (of_nat e :: 32 word) = e" using assms by (simp add: unat_of_nat)
  then have e: "take_bit 10 (of_nat e :: 32 word) = of_nat e"
    using assms by (simp add: take_bit_eq_mod word_unat_eq_iff unat_mod_distrib)
  have "push_bit 10 (drop_bit 10 w) OR take_bit 10 (of_nat e) = push_bit 10 (drop_bit 10 w) + take_bit 10 (of_nat e)"
    by (rule disjunctive_add [symmetric]) (auto simp: bit_push_bit_iff bit_take_bit_iff)
  then have "(w AND - 1024) OR of_nat e = (w AND - 1024) + of_nat e" unfolding e clear_low .
  moreover have "unat w < 2 ^ LENGTH(32)" by (rule unsigned_less)
  moreover have "unat w div 1024 < 4194304" using calculation(2) by (simp add: less_mult_imp_div_less)
  then have "unat w div 1024 * 1024 + e < 2 ^ 32" using assms by simp
  ultimately show ?thesis using ue by (simp add: unat_word_ariths unat_clear_low)
qed

lemma sint_pos: "0 < sint (w :: 32 word) \<longleftrightarrow> 0 < unat w \<and> unat w < 2 ^ 31"
proof (cases "unat w < 2147483648")
  case True
  then have "sint w = int (unat w)" by (rule sint_small)
  moreover have "0 < int n \<longleftrightarrow> 0 < n" for n by simp
  ultimately show ?thesis using True by (simp only:) simp
next
  case False
  then have "int 2147483648 \<le> int (unat w)" by (simp only: of_nat_le_iff not_less)
  then have lo: "2147483648 \<le> uint w" by simp
  have "uint w < 2 ^ LENGTH(32)" by (rule unsigned_less)
  then have "uint w div 2147483648 = 1" using lo by (simp add: div_eq_dividend_iff)
  then have "bit (uint w) 31" by (simp add: bit_iff_odd)
  then have "sint w < 0" by (simp add: sint_uint signed_take_bit_negative_iff)
  then show ?thesis using False by simp
qed

lemma next_id:
  assumes e: "e < 1024" and old: "unat old < 2 ^ 31"
  shows "0 < sint (next_generation old OR of_nat e)" "ENVX (next_generation old OR of_nat e) = e"
    "next_generation old OR of_nat e \<noteq> old"
proof -
  let ?g = "(old + 4096) AND - 1024" and ?id = "next_generation old OR of_nat e"
  have u: "unat (old + 4096) = unat old + 4096" using old by (simp add: unat_word_ariths)
  have g: "unat ?g = (unat old + 4096) div 1024 * 1024" by (simp only: unat_clear_low u)
  have gen: "next_generation old = (if 0 < sint ?g then ?g else 4096)"
    by (simp add: next_generation_def Let_def push_bit_eq_mult not_le)
  have id: "unat ?id = (if 0 < sint ?g then (unat old + 4096) div 1024 * 1024 + e else 4096 + e)"
    using unat_id [OF e, of "old + 4096"] unat_id [OF e, of 4096] unfolding gen u by simp
  have pos: "0 < sint ?g \<longleftrightarrow> (unat old + 4096) div 1024 * 1024 < 2 ^ 31" unfolding sint_pos g by auto
  have "(unat old + 4096) div 1024 < 2097152" if "(unat old + 4096) div 1024 * 1024 < 2 ^ 31" using that by simp
  then have "(unat old + 4096) div 1024 * 1024 + e < 2 ^ 31" if "0 < sint ?g" using that e unfolding pos by fastforce
  moreover have "0 < (unat old + 4096) div 1024" by simp
  ultimately have "0 < unat ?id \<and> unat ?id < 2 ^ 31" using e unfolding id by (cases "0 < sint ?g") simp_all
  then show "0 < sint ?id" unfolding sint_pos .
  show "ENVX ?id = e" unfolding ENVX_mod id using e mod_mult_self3 [of 4 1024 e] by auto
  have "unat ?id \<noteq> unat old"
  proof (cases "0 < sint ?g")
    case True
    then show ?thesis unfolding id by simp
  next
    case False
    then have "2 ^ 31 \<le> unat old + 4096" unfolding pos
      by (meson div_times_less_eq_dividend le_trans not_less)
    then show ?thesis unfolding id using False e by simp
  qed
  then show "?id \<noteq> old" by auto
qed

section \<open>The circular search\<close>

definition ring_pos :: "nat \<Rightarrow> nat \<Rightarrow> nat" where
  "ring_pos s e = (e + 1024 - s mod 1024) mod 1024"

lemma ring_pos_less [simp]: "ring_pos s e < 1024"
  by (simp add: ring_pos_def)

lemma ring_pos_nth:
  assumes "e < 1024"
  shows "(s + ring_pos s e) mod 1024 = e"
proof -
  have "s + (e + 1024 - s mod 1024) = e + (s div 1024 + 1) * 1024"
  proof -
    define q r where qr: "q = s div 1024" "r = s mod 1024"
    have "s = q * 1024 + r" "r < 1024" by (simp_all add: qr)
    then show ?thesis unfolding qr [symmetric] by simp
  qed
  then have "(s + (e + 1024 - s mod 1024)) mod 1024 = e" using assms by (simp only: mod_mult_self1) simp
  then show ?thesis unfolding ring_pos_def mod_add_right_eq .
qed

lemma ring_inj:
  assumes "i < 1024" "j < 1024" "(s + i) mod 1024 = (s + j) mod (1024 :: nat)"
  shows "i = j"
proof -
  have "a = b" if "a \<le> b" "b < 1024" "(s + a) mod 1024 = (s + b) mod (1024 :: nat)" for a b
  proof -
    have "1024 dvd (s + b) - (s + a)" using that mod_eq_dvd_iff_nat [of "s + a" "s + b" 1024] by simp
    then have "1024 dvd b - a" by simp
    moreover have "b - a < 1024" using that(2) by simp
    ultimately have "b - a = 0" using nat_dvd_not_less [of "b - a" 1024] by blast
    then show ?thesis using that(1) by simp
  qed
  from this [of i j] this [of j i] show ?thesis using assms by (cases "i \<le> j") simp_all
qed

lemma ring_pos_unique: "i < 1024 \<Longrightarrow> (s + i) mod 1024 = e \<Longrightarrow> ring_pos s e = i"
  by (rule ring_inj [of _ _ s]) (auto simp: ring_pos_nth)

text \<open>Advancing the start past an element that comes earlier brings a later one nearer.\<close>

lemma ring_pos_advance:
  assumes "f < 1024" "e < 1024" "ring_pos s f < ring_pos s e"
  shows "ring_pos (f + 1) e < ring_pos s e"
proof -
  let ?i = "ring_pos s f" and ?j = "ring_pos s e"
  have "f + 1 + (?j - ?i - 1) = f + (?j - ?i)" using assms(3) by arith
  then have "(f + 1 + (?j - ?i - 1)) mod 1024 = (f + (?j - ?i)) mod 1024" by (simp only:)
  also have "\<dots> = ((s + ?i) mod 1024 + (?j - ?i)) mod 1024" by (simp add: ring_pos_nth [OF assms(1)])
  also have "\<dots> = (s + ?i + (?j - ?i)) mod 1024" by (simp add: mod_simps)
  also have "\<dots> = e" using assms(2,3) ring_pos_nth [of e s] by simp
  finally have key: "(f + 1 + (?j - ?i - 1)) mod 1024 = e" .
  have "?j - ?i - 1 < 1024" using ring_pos_less [of s e] by arith
  then have "ring_pos (f + 1) e = ?j - ?i - 1" using key by (rule ring_pos_unique)
  then show ?thesis using assms(3) by simp
qed

lemma find_circular:
  assumes "find P (circular s) = Some f"
  shows "f < 1024" "P f" "\<And>e. e < 1024 \<Longrightarrow> P e \<Longrightarrow> ring_pos s f \<le> ring_pos s e"
proof -
  obtain i where i: "i < 1024" "P ((s + i) mod 1024)" "f = (s + i) mod 1024" "\<And>j. j < i \<Longrightarrow> \<not> P ((s + j) mod 1024)"
    using assms unfolding find_Some_iff circular_def by auto
  then show "f < 1024" "P f" by simp_all
  have fi: "ring_pos s f = i" using i by (intro ring_pos_unique) simp_all
  show "ring_pos s f \<le> ring_pos s e" if "e < 1024" "P e" for e
    using i(4) [of "ring_pos s e"] that ring_pos_nth [OF that(1), of s] unfolding fi by fastforce
qed

lemma find_circular_None: "find P (circular s) = None \<longleftrightarrow> (\<forall>e < 1024. \<not> P e)"
proof -
  have "set (circular s) = {..<1024}"
  proof (intro set_eqI iffI)
    fix e
    assume "e \<in> {..<1024 :: nat}"
    then have "e = (s + ring_pos s e) mod 1024" "ring_pos s e < 1024" using ring_pos_nth by simp_all
    then show "e \<in> set (circular s)" unfolding circular_def by auto
  qed (auto simp: circular_def)
  then show ?thesis by (auto simp: find_None_iff)
qed

lemma ring_pos_inj: "e < 1024 \<Longrightarrow> f < 1024 \<Longrightarrow> ring_pos s e = ring_pos s f \<Longrightarrow> e = f"
  using ring_pos_nth by metis

section \<open>Running an environment\<close>

text \<open>Every environment in use carries its own index in its identifier.\<close>

definition ids_ok :: "kernel \<Rightarrow> bool" where
  "ids_ok k \<longleftrightarrow> length (envs k) = NENV \<and>
     (\<forall>e < NENV. env_status (envs k ! e) \<noteq> ENV_FREE \<longrightarrow> ENVX (env_id (envs k ! e)) = e)"

lemma upd_env_fields [simp]:
  "cpu_env (upd_env e f k) = cpu_env k" "length (envs (upd_env e f k)) = length (envs k)"
  "i < length (envs k) \<Longrightarrow> envs (upd_env e f k) ! i = (if i = e then f (envs k ! e) else envs k ! i)"
  "env_free_list (upd_env e f k) = env_free_list k" "aging_ticks (upd_env e f k) = aging_ticks k"
  "pages (upd_env e f k) = pages k" "pmem (upd_env e f k) = pmem k" "page_free_list (upd_env e f k) = page_free_list k"
  "kern_pgdir (upd_env e f k) = kern_pgdir k"
  by (simp_all add: upd_env_def nth_list_update)

lemma count_run_fields [simp]:
  "envs (count_run e k) = envs k" "cpu_env (count_run e k) = cpu_env k" "aging_ticks (count_run e k) = aging_ticks k"
  by (simp_all add: count_run_def Let_def)

lemma env_run_cpu [simp]: "cpu_env (env_run cpu e k) cpu = Some e"
  by (simp add: env_run_def Let_def)

lemma env_run_nth:
  assumes "length (envs k) = NENV" "i < NENV"
  shows "envs (env_run cpu e k) ! i =
    (if i = e then (envs k ! e)\<lparr>env_status := ENV_RUNNING, env_runs := env_runs (envs k ! e) + 1, env_cpunum := cpu\<rparr>
     else if cpu_env k cpu = Some i \<and> env_status (envs k ! i) = ENV_RUNNING then (envs k ! i)\<lparr>env_status := ENV_RUNNABLE\<rparr>
     else envs k ! i)"
  using assms by (auto simp: env_run_def Let_def split: option.split)

lemma env_run_length [simp]: "length (envs (env_run cpu e k)) = length (envs k)"
  by (simp add: env_run_def Let_def split: option.split)

section \<open>Round robin makes progress\<close>

definition rr_yield :: "nat \<Rightarrow> kernel \<Rightarrow> kernel" where
  "rr_yield cpu k = snd (sched_yield SCHED_ROUND_ROBIN cpu k)"

lemma rr_picks:
  assumes "e < NENV" "runnable k e"
  shows "\<exists>f. find (runnable k) (circular s) = Some f"
  using assms find_circular_None [of "runnable k" s] by (cases "find (runnable k) (circular s)") auto

lemma rr_yield_run:
  assumes "find (runnable k) (circular (start_index cpu k)) = Some f"
  shows "rr_yield cpu k = env_run cpu f (count_run f (k\<lparr>n_sched_calls := n_sched_calls k + 1\<rparr>))"
proof -
  have "start_index cpu (k\<lparr>n_sched_calls := n_sched_calls k + 1\<rparr>) = start_index cpu k"
    by (simp add: start_index_def split: option.split)
  moreover have "runnable (k\<lparr>n_sched_calls := n_sched_calls k + 1\<rparr>) = runnable k" by (intro ext) (simp add: runnable_def)
  ultimately show ?thesis
    using assms by (simp add: rr_yield_def sched_yield_def choose_env_def choose_rr_def run_counted_def)
qed

lemma rr_progress:
  "ids_ok k \<Longrightarrow> e < NENV \<Longrightarrow> runnable k e \<Longrightarrow> ring_pos (start_index cpu k) e \<le> n \<Longrightarrow>
   \<exists>m. 0 < m \<and> m \<le> n + 1 \<and> cpu_env ((rr_yield cpu ^^ m) k) cpu = Some e \<and>
     env_status (envs ((rr_yield cpu ^^ m) k) ! e) = ENV_RUNNING"
proof (induction n arbitrary: k rule: less_induct)
  case (less n)
  let ?s = "start_index cpu k"
  obtain f where f: "find (runnable k) (circular ?s) = Some f" using rr_picks less.prems by blast
  note fc = find_circular [OF f]
  have y: "rr_yield cpu k = env_run cpu f (count_run f (k\<lparr>n_sched_calls := n_sched_calls k + 1\<rparr>))" by (rule rr_yield_run [OF f])
  have len: "length (envs k) = NENV" using less.prems by (simp add: ids_ok_def)
  show ?case
  proof (cases "f = e")
    case True
    then show ?thesis using y len less.prems(2) by (intro exI [of _ 1]) (simp add: env_run_nth)
  next
    case False
    let ?k = "rr_yield cpu k"
    have lt: "ring_pos ?s f < ring_pos ?s e" using fc(3) [OF less.prems(2,3)] ring_pos_inj [OF fc(1) less.prems(2)] False
      by (metis le_neq_implies_less)
    have "ENVX (env_id (envs k ! f)) = f" using less.prems(1) fc(1,2) by (simp add: ids_ok_def runnable_def)
    then have "start_index cpu ?k = f + 1" using len fc(1) by (simp add: y start_index_def env_run_nth)
    then have pos: "ring_pos (start_index cpu ?k) e < ring_pos ?s e" using ring_pos_advance [OF fc(1) less.prems(2) lt] by simp
    have ids: "ids_ok ?k"
      using less.prems(1) fc(1,2) unfolding ids_ok_def by (auto simp: y env_run_nth runnable_def)
    have run: "runnable ?k e" using less.prems(2,3) len False by (auto simp: y env_run_nth runnable_def)
    have "ring_pos (start_index cpu ?k) e < n" using pos less.prems(4) by simp
    from less.IH [OF this ids less.prems(2) run order_refl] obtain m where
      m: "0 < m" "m \<le> ring_pos (start_index cpu ?k) e + 1" "cpu_env ((rr_yield cpu ^^ m) ?k) cpu = Some e"
      "env_status (envs ((rr_yield cpu ^^ m) ?k) ! e) = ENV_RUNNING" by blast
    have "(rr_yield cpu ^^ Suc m) k = (rr_yield cpu ^^ m) ?k" by (simp only: funpow_Suc_right comp_apply)
    then show ?thesis using m pos less.prems(4) by (intro exI [of _ "Suc m"]) simp
  qed
qed

section \<open>Priorities\<close>

lemma set_circular: "set (circular s) = {..<1024}"
proof (intro set_eqI iffI)
  fix e
  assume "e \<in> {..<1024 :: nat}"
  then have "e = (s + ring_pos s e) mod 1024" "ring_pos s e < 1024" using ring_pos_nth by simp_all
  then show "e \<in> set (circular s)" unfolding circular_def by auto
qed (auto simp: circular_def)

definition larger :: "('a \<Rightarrow> bool) \<Rightarrow> ('a \<Rightarrow> int) \<Rightarrow> 'a \<Rightarrow> int \<Rightarrow> int" where
  "larger P f e mx = (if P e \<and> f e > mx then f e else mx)"

lemma larger_ge: "v \<le> larger P f e v" "P e \<Longrightarrow> f e \<le> larger P f e v"
  by (simp_all add: larger_def)

lemma fold_larger_start: "v \<le> fold (larger P f) xs v"
proof (induction xs arbitrary: v)
  case (Cons x xs)
  show ?case using order_trans [OF larger_ge(1) Cons.IH] by simp
qed simp

lemma fold_larger_upper: "e \<in> set xs \<Longrightarrow> P e \<Longrightarrow> f e \<le> fold (larger P f) xs v"
proof (induction xs arbitrary: v)
  case (Cons x xs)
  show ?case
  proof (cases "e = x")
    case True
    then show ?thesis using order_trans [OF larger_ge(2) fold_larger_start] Cons.prems(2) by simp
  next
    case False
    then show ?thesis using Cons by simp
  qed
qed simp

lemma fold_larger_attained: "fold (larger P f) xs v = v \<or> (\<exists>e \<in> set xs. P e \<and> f e = fold (larger P f) xs v)"
proof (induction xs arbitrary: v)
  case (Cons x xs)
  show ?case using Cons.IH [of "larger P f x v"] by (auto simp: larger_def)
qed simp

lemma max_prio_larger: "max_prio s k = fold (larger (runnable k) (\<lambda>e. priority (envs k ! e))) (circular s) (- 1)"
  unfolding max_prio_def larger_def ..

lemma max_prio_upper: "e < NENV \<Longrightarrow> runnable k e \<Longrightarrow> priority (envs k ! e) \<le> max_prio s k"
  unfolding max_prio_larger by (rule fold_larger_upper) (simp_all add: set_circular)

lemma max_prio_attained:
  assumes "e < NENV" "runnable k e" "0 \<le> priority (envs k ! e)"
  shows "\<exists>f < NENV. runnable k f \<and> priority (envs k ! f) = max_prio s k"
proof -
  have "max_prio s k \<noteq> - 1" using max_prio_upper [OF assms(1,2), of s] assms(3) by auto
  then show ?thesis
    using fold_larger_attained [of "runnable k" "\<lambda>e. priority (envs k ! e)" "circular s" "- 1"]
    unfolding max_prio_larger by (auto simp: set_circular)
qed

lemma aging_quiet: "aging_ticks k + 1 < AGING_INTERVAL \<Longrightarrow> aging k = k\<lparr>aging_ticks := aging_ticks k + 1\<rparr>"
  by (simp add: aging_def)

lemma sched_calls_same:
  "start_index cpu (k\<lparr>n_sched_calls := n\<rparr>) = start_index cpu k" "runnable (k\<lparr>n_sched_calls := n\<rparr>) = runnable k"
  "max_prio s (k\<lparr>n_sched_calls := n\<rparr>) = max_prio s k"
proof -
  show "start_index cpu (k\<lparr>n_sched_calls := n\<rparr>) = start_index cpu k" by (simp add: start_index_def split: option.split)
  show r: "runnable (k\<lparr>n_sched_calls := n\<rparr>) = runnable k" by (intro ext) (simp add: runnable_def)
  show "max_prio s (k\<lparr>n_sched_calls := n\<rparr>) = max_prio s k" unfolding max_prio_larger r by simp
qed

lemma demote_fields:
  "cpu_env (demote mx e k) = cpu_env k" "length (envs (demote mx e k)) = length (envs k)"
  "i < length (envs k) \<Longrightarrow> envs (demote mx e k) ! i =
     (if i = e \<and> env_runs (envs k ! e) \<ge> QUANTUM_LIMIT \<and> mx > 1 then (envs k ! e)\<lparr>priority := mx - 1\<rparr> else envs k ! i)"
  by (auto simp: demote_def)

lemma prio_picks:
  assumes len: "length (envs k) = NENV" and quiet: "aging_ticks k + 1 < AGING_INTERVAL"
    and e: "e < NENV" "runnable k e" "0 \<le> priority (envs k ! e)"
  shows "\<exists>f k'. sched_yield SCHED_PRIORITIES cpu k = (Run f, k') \<and> f < NENV \<and> runnable k f \<and>
     priority (envs k ! e) \<le> priority (envs k ! f) \<and>
     (priority (envs k ! e) = priority (envs k ! f) \<longrightarrow> ring_pos (start_index cpu k) f \<le> ring_pos (start_index cpu k) e) \<and>
     cpu_env k' cpu = Some f \<and> env_status (envs k' ! f) = ENV_RUNNING \<and>
     priority (envs k' ! f) = (if env_runs (envs k ! f) \<ge> QUANTUM_LIMIT \<and> priority (envs k ! f) > 1
       then priority (envs k ! f) - 1 else priority (envs k ! f))"
proof -
  let ?s = "start_index cpu k" and ?mx = "max_prio (start_index cpu k) k"
  let ?k1 = "k\<lparr>n_sched_calls := n_sched_calls k + 1\<rparr>"
  let ?k2 = "?k1\<lparr>aging_ticks := aging_ticks k + 1\<rparr>"
  have q: "aging ?k1 = ?k2" using aging_quiet [of ?k1] quiet by simp
  have r: "runnable ?k2 = runnable k" by (intro ext) (simp add: runnable_def)
  let ?P = "\<lambda>x. runnable k x \<and> priority (envs k ! x) = ?mx"
  obtain x where "x < NENV" "?P x" using max_prio_attained [OF e] by blast
  then obtain f where f: "find ?P (circular ?s) = Some f"
    using find_circular_None [of ?P ?s] by (cases "find ?P (circular ?s)") auto
  note fc = find_circular [OF f]
  have fp: "runnable k f" "priority (envs k ! f) = ?mx" using fc(2) by simp_all
  let ?k3 = "env_run cpu f (count_run f (demote ?mx f ?k2))"
  have "sched_yield SCHED_PRIORITIES cpu k = (Run f, ?k3)"
    using f by (simp add: sched_yield_def choose_env_def choose_prio_def sched_calls_same q r Let_def run_counted_def)
  moreover have "envs ?k3 ! f = (envs (demote ?mx f ?k2) ! f)\<lparr>env_status := ENV_RUNNING,
      env_runs := env_runs (envs (demote ?mx f ?k2) ! f) + 1, env_cpunum := cpu\<rparr>"
    using fc(1) len by (simp add: env_run_nth demote_fields)
  moreover have "ring_pos ?s f \<le> ring_pos ?s e" if "priority (envs k ! e) = priority (envs k ! f)"
    using fc(3) [of e] e fp that by simp
  ultimately show ?thesis
    using fc(1) fp max_prio_upper [OF e(1,2), of ?s] len
    by (intro exI [of _ f] exI [of _ ?k3]) (simp add: demote_fields)
qed

end
