(* ===== verification/Kern_Vm.thy ===== *)
theory Kern_Vm
  imports Kern_Sched_Props
begin

unbundle bit_operations_syntax

text \<open>
  Address spaces that come and go: what \<^verbatim>\<open>env_setup_vm\<close> and \<^verbatim>\<open>env_free\<close> do to the invariant of memory. The set of page
  directories grows by a directory without user entries and shrinks by one whose tables have all been released.
\<close>

section \<open>What memory operations leave alone\<close>

text \<open>The operations on pages do not touch the fields of the kernel outside the machine.\<close>

lemma more_basic [simp]:
  "machine.more (upd_page p f m) = machine.more m" "machine.more (put_word t i w m) = machine.more m"
  "machine.more (zero_page p m) = machine.more m" "machine.more (page_push p m) = machine.more m"
  "machine.more (page_pop m) = machine.more m"
  by (simp_all add: upd_page_def put_word_def zero_page_def page_push_def page_pop_def split: option.split)

lemma more_page_alloc: "page_alloc z m = (r, m') \<Longrightarrow> machine.more m' = machine.more m"
  by (auto simp: page_alloc_def split: option.splits)

lemma more_page_decref: "page_decref p m = Some m' \<Longrightarrow> machine.more m' = machine.more m"
  by (auto simp: page_decref_def page_free_def Let_def split: if_splits)

lemma more_pgdir_walk: "pgdir_walk d va c m = Some (r, m') \<Longrightarrow> machine.more m' = machine.more m"
  by (auto simp: pgdir_walk_def Let_def split: if_splits option.splits prod.splits intro: more_page_alloc)

lemma more_page_remove: "page_remove d va m = Some m' \<Longrightarrow> machine.more m' = machine.more m"
  by (auto simp: page_remove_def bind_eq_Some_conv split: option.splits) (rule more_page_decref)

lemma more_page_insert: "page_insert d p va perm m = Some (r, m') \<Longrightarrow> machine.more m' = machine.more m"
proof -
  assume a: "page_insert d p va perm m = Some (r, m')"
  then obtain pte m1 where w: "pgdir_walk d va True m = Some (pte, m1)"
    by (auto simp: page_insert_def bind_eq_Some_conv)
  show ?thesis
  proof (cases pte)
    case None
    then show ?thesis using a w more_pgdir_walk [OF w] by (simp add: page_insert_def)
  next
    case (Some ti)
    then obtain m2 where "page_remove d va (upd_page p (\<lambda>i. i\<lparr>pp_ref := pp_ref i + 1\<rparr>) m1) = Some m2"
      "m' = put_word (fst ti) (snd ti) (page2pa p OR perm OR PTE_P) m2"
      using a w by (auto simp: page_insert_def bind_eq_Some_conv Let_def split: prod.splits)
    then show ?thesis using more_page_remove [of d va _ m2] more_pgdir_walk [OF w] by simp
  qed
qed

lemma more_kernel:
  fixes k k' :: kernel
  assumes "machine.more k' = machine.more k"
  shows "envs k' = envs k" "env_free_list k' = env_free_list k" "cpu_env k' = cpu_env k" "kern_pgdir k' = kern_pgdir k"
    "cpu_halted k' = cpu_halted k" "aging_ticks k' = aging_ticks k" "cons_out k' = cons_out k"
  using assms by (cases k; cases k'; simp)+

text \<open>The invariant depends on the machine alone.\<close>

lemma same_machine:
  fixes m :: "'a machine_scheme" and n :: "'b machine_scheme"
  assumes "pages m = pages n" "page_free_list m = page_free_list n" "pmem m = pmem n"
  shows "mem_inv m D K xs ex = mem_inv n D K xs ex" "entry m = entry n" "npages m = npages n"
proof -
  show n: "npages m = npages n" using assms by (simp add: npages_def)
  have t: "is_table m = is_table n" using assms by (intro ext) (simp add: is_table_def)
  have r: "refers m = refers n"
  proof (intro ext)
    fix D s p
    show "refers m D s p = refers n D s p" using assms t by (cases s) auto
  qed
  have "page_next m = page_next n" using assms n by (intro ext) (simp add: page_next_def)
  then have "pl.free_listed m = pl.free_listed n" using assms n by (intro ext) (simp add: pl.free_listed_def)
  moreover have "tables_apart m = tables_apart n" using assms by (intro ext) (simp add: tables_apart_def)
  moreover have "all_present m = all_present n" using assms t by (intro ext) (simp add: all_present_def)
  moreover have "sites m = sites n" using r by (intro ext) (simp add: sites_def)
  ultimately show "mem_inv m D K xs ex = mem_inv n D K xs ex" unfolding mem_inv_def n t r assms by (simp only:)
  show "entry m = entry n" using assms by (intro ext) (simp add: entry_def)
qed

section \<open>A new directory\<close>

lemma new_dir_inv:
  assumes inv: "mem_inv m D K xs ex" and p: "p < npages m" "p \<notin> K" "p \<notin> set xs" "pp_ref (pages m ! p) = 0"
    and n: "npages m' = npages m" "page_free_list m' = page_free_list m"
    and pg: "\<And>q. q < npages m \<Longrightarrow> pages m' ! q = (if q = p then (pages m ! p)\<lparr>pp_ref := 1\<rparr> else pages m ! q)"
    and mem: "\<And>q i. q \<noteq> p \<Longrightarrow> pmem m' q i = pmem m q i" "\<And>i. i < 955 \<Longrightarrow> pmem m' p i = 0"
  shows "mem_inv m' (insert p D) K xs ex"
proof -
  note un = unreferenced [OF inv p(1,2,4)]
  have dirs: "pmem m' d i = (if d = p then 0 else pmem m d i)" if "i < 955" for d i using mem that by simp
  have tab: "is_table m' (insert p D) = is_table m D"
    using un(3) unfolding is_table_def by (intro ext) (simp add: dirs cong: conj_cong, metis)
  have tw: "pmem m' t j = pmem m t j" if "is_table m D t" for t j
    using that un(4) mem(1) by (cases "t = p") auto
  have ref: "refers m' (insert p D) s q \<longleftrightarrow> s = Dir p \<and> q = p \<or> refers m D s q" for s q
  proof (cases s)
    case (Pde d i)
    show ?thesis
    proof (cases "d = p")
      case True
      then show ?thesis using un(3) mem(2) unfolding Pde by auto
    next
      case False
      then show ?thesis using mem(1) unfolding Pde by auto
    qed
  next
    case (Pte t j)
    then show ?thesis unfolding Pte refers.simps tab using tw by auto
  qed auto
  have no: "\<not> refers m D s p" for s using un(1) by (auto simp: sites_def)
  have sites: "sites m' (insert p D) q = (if q = p then {Dir p} else sites m D q)" for q
    using no by (auto simp: sites_def ref)
  have "pl.free_listed m' xs"
    using mem_invD(3) [OF inv] pg n by (subst free_listed_meta [of _ m]) auto
  moreover have "unat (pp_ref (pages m' ! q)) = card (sites m' (insert p D) q) + ex q" if "q < npages m" "q \<notin> K" for q
    using mem_invD(10) [OF inv that] pg [OF that(1)] un(2) unfolding sites by auto
  moreover have "pp_link (pages m' ! q) = None" if "q < npages m" "q \<notin> set xs" for q
    using mem_invD(5) [OF inv that] pg [OF that(1)] by auto
  moreover have "pp_ref (pages m' ! q) = 0" if "q \<in> set xs" for q
    using mem_invD(11) [OF inv that] pg [of q] free_bound [OF mem_invD(3) [OF inv] that] that p(3) by auto
  moreover have "tables_apart m' (insert p D)"
    using mem_invD(8) [OF inv] unfolding tables_apart_def by (auto simp: dirs)
  moreover have "q < npages m \<and> q \<notin> K \<and> q \<notin> insert p D \<and> \<not> is_table m D q" if "refers m' (insert p D) (Pte t j) q" for t j q
    using that mem_invD(9) [OF inv, of t j q] no [of "Pte t j"] unfolding ref by (cases "q = p") (simp_all del: refers.simps)
  moreover have "t < npages m \<and> t \<notin> K \<and> t \<notin> insert p D" if "is_table m D t" for t
    using mem_invD(7) [OF inv that] that un(4) by auto
  moreover have "all_present m' (insert p D)"
    using mem_invD(12) [OF inv] tw unfolding all_present_def tab by (auto simp: dirs)
  ultimately show ?thesis
    using inv p(1,2) unfolding mem_inv_def n tab by (simp only: insert_iff finite_insert) blast
qed

section \<open>Releasing\<close>

lemma drop_dir_inv:
  assumes inv: "mem_inv m D K xs ex" and d: "d \<in> D" "\<And>i. i < 955 \<Longrightarrow> pmem m d i = 0"
  shows "mem_inv m (D - {d}) K xs (ex(d := ex d + 1))"
proof -
  have tab: "is_table m (D - {d}) = is_table m D" using d(2) by (intro ext) (auto simp: is_table_def)
  have ref: "refers m (D - {d}) s q \<longleftrightarrow> s \<noteq> Dir d \<and> refers m D s q" for s q
    using d(2) tab by (cases s) auto
  have sites: "sites m (D - {d}) q = sites m D q - {Dir d}" for q by (auto simp: sites_def ref)
  have "card (sites m (D - {d}) q) + (ex(d := ex d + 1)) q = card (sites m D q) + ex q" for q
  proof -
    have fin: "finite (sites m D q)" using sites_finite mem_invD(2) [OF inv] by blast
    have "Dir d \<in> sites m D q \<longleftrightarrow> q = d" using d(1) by (auto simp: sites_def)
    then show ?thesis unfolding sites using card_Suc_Diff1 [OF fin, of "Dir d"] by (cases "q = d") auto
  qed
  then have "unat (pp_ref (pages m ! q)) = card (sites m (D - {d}) q) + (ex(d := ex d + 1)) q" if "q < npages m" "q \<notin> K" for q
    using mem_invD(10) [OF inv that] by presburger
  moreover have "tables_apart m (D - {d})" using mem_invD(8) [OF inv] unfolding tables_apart_def by auto
  moreover have "all_present m (D - {d})" using mem_invD(12) [OF inv] unfolding all_present_def tab by auto
  ultimately show ?thesis using inv unfolding mem_inv_def tab ref by auto
qed

text \<open>A page table without entries is taken out of its directory.\<close>

lemma drop_table_inv:
  assumes inv: "mem_inv m D K xs ex" and d: "d \<in> D" "i < 955" "pmem m d i \<noteq> 0" and t: "PGNUM (pmem m d i) = t"
    and z: "\<And>j. j < 1024 \<Longrightarrow> pmem m t j = 0"
  shows "mem_inv (put_word d i 0 m) D K xs (ex(t := ex t + 1))"
proof -
  let ?m = "put_word d i 0 m"
  have tt: "is_table m D t" using d t by (auto simp: is_table_def)
  have nd: "\<not> is_table m D d" using mem_invD(7) [OF inv, of d] d(1) by blast
  have uniq: "d' = d \<and> i' = i" if "d' \<in> D" "i' < 955" "pmem m d' i' \<noteq> 0" "PGNUM (pmem m d' i') = t" for d' i'
    using mem_invD(8) [OF inv that(1) d(1) that(2) d(2) that(3) d(3)] that(4) t by simp
  have tab: "is_table ?m D q \<longleftrightarrow> is_table m D q \<and> q \<noteq> t" for q
  proof
    assume "is_table ?m D q"
    then obtain d' i' where "d' \<in> D" "i' < 955" "(d', i') \<noteq> (d, i)" "pmem m d' i' \<noteq> 0" "PGNUM (pmem m d' i') = q"
      by (auto simp: is_table_def split: if_splits)
    then show "is_table m D q \<and> q \<noteq> t" using uniq by (auto simp: is_table_def)
  next
    assume "is_table m D q \<and> q \<noteq> t"
    then obtain d' i' where "d' \<in> D" "i' < 955" "pmem m d' i' \<noteq> 0" "PGNUM (pmem m d' i') = q" "q \<noteq> t"
      by (auto simp: is_table_def)
    then show "is_table ?m D q" using t unfolding is_table_def by (intro bexI [of _ d'] exI [of _ i']) auto
  qed
  have tw: "pmem ?m q j = pmem m q j" if "is_table m D q" for q j using that nd by auto
  have ref: "refers ?m D s q \<longleftrightarrow> s \<noteq> Pde d i \<and> refers m D s q" for s q
  proof (cases s)
    case (Pte t' j)
    have "t' \<noteq> d" if "is_table m D t'" using that nd by blast
    then show ?thesis unfolding Pte refers.simps tab using z by auto
  qed auto
  have sites: "sites ?m D q = sites m D q - {Pde d i}" for q by (auto simp: sites_def ref)
  have "card (sites ?m D q) + (ex(t := ex t + 1)) q = card (sites m D q) + ex q" for q
  proof -
    have fin: "finite (sites m D q)" using sites_finite mem_invD(2) [OF inv] by blast
    have "Pde d i \<in> sites m D q \<longleftrightarrow> q = t" using d t by (auto simp: sites_def)
    then show ?thesis unfolding sites using card_Suc_Diff1 [OF fin, of "Pde d i"] by (cases "q = t") auto
  qed
  then have "unat (pp_ref (pages m ! q)) = card (sites ?m D q) + (ex(t := ex t + 1)) q" if "q < npages m" "q \<notin> K" for q
    using mem_invD(10) [OF inv that] by presburger
  moreover have "tables_apart ?m D" using mem_invD(8) [OF inv] unfolding tables_apart_def by auto
  moreover have "all_present ?m D" using mem_invD(12) [OF inv] tw unfolding all_present_def tab by auto
  moreover have "pl.free_listed ?m xs" using mem_invD(3) [OF inv] by (subst free_listed_meta [of _ m]) simp_all
  ultimately show ?thesis using inv unfolding mem_inv_def tab ref put_word_fields by auto
qed

lemma unat_PGADDR:
  assumes "d < 1024" "t < 1024"
  shows "unat (PGADDR d t) = d * 2 ^ 22 + t * 4096"
proof -
  have ud: "unat (of_nat d :: 32 word) = d" "unat (of_nat t :: 32 word) = t" using assms by (simp_all add: unat_of_nat)
  have "PGADDR d t = push_bit 22 (of_nat d) + push_bit 12 (of_nat t)"
    unfolding PGADDR_def
  proof (rule disjunctive_add [symmetric])
    fix n
    have "\<not> bit (of_nat t :: 32 word) (n - 12)" if "22 \<le> n"
    proof -
      have "10 \<le> n - 12" using that by simp
      then have "(2 :: nat) ^ 10 \<le> 2 ^ (n - 12)" by (intro power_increasing) simp_all
      then have "t < 2 ^ (n - 12)" using assms(2) by simp
      then have "\<not> bit t (n - 12)" by (simp add: bit_iff_odd)
      then show ?thesis by (simp add: bit_of_nat_iff bit_unsigned_iff)
    qed
    then show "\<not> bit (push_bit 22 (of_nat d :: 32 word)) n \<or> \<not> bit (push_bit 12 (of_nat t :: 32 word)) n"
      by (auto simp: bit_push_bit_iff)
  qed
  moreover have "d * 4194304 + t * 4096 < 2 ^ 32" using assms by simp
  ultimately show ?thesis using ud assms by (simp add: push_bit_eq_mult unat_word_ariths mult.commute)
qed

lemma PGADDR_index:
  assumes "d < 955" "t < 1024"
  shows "PDX (PGADDR d t) = d" "PTX (PGADDR d t) = t" "PGADDR d t < UTOP"
proof -
  have u: "unat (PGADDR d t) = d * 2 ^ 22 + t * 4096" using unat_PGADDR assms by simp
  show "PDX (PGADDR d t) = d" unfolding PDX_div u using assms by simp
  have "(d * 2 ^ 22 + t * 4096) div 4096 = d * 1024 + t" by (simp add: div_mult2_eq)
  then show "PTX (PGADDR d t) = t" unfolding PTX_div u using assms by simp
  have "d * 2 ^ 22 + t * 4096 < 0xEEC00000" using assms by simp
  then show "PGADDR d t < UTOP" using u by (simp add: word_less_nat_alt)
qed

lemma page_remove_slot:
  assumes inv: "mem_inv m D K xs ex" and d: "d \<in> D" "i < 955" "j < 1024" "pmem m d i \<noteq> 0"
  shows "\<exists>m' ys. page_remove d (PGADDR i j) m = Some m' \<and> mem_inv m' D K ys ex \<and> npages m' = npages m \<and>
    pmem m' = (pmem m)(PGNUM (pmem m d i) := (pmem m (PGNUM (pmem m d i)))(j := 0))"
proof -
  note ix = PGADDR_index [OF d(2,3)]
  obtain m' ys where r: "page_remove d (PGADDR i j) m = Some m'" "mem_inv m' D K ys ex" "npages m' = npages m"
    and mem: "pmem m' = (if entry m d (PGADDR i j) = 0 then pmem m
      else pmem (put_word (PGNUM (pmem m d (PDX (PGADDR i j)))) (PTX (PGADDR i j)) 0 m))"
    using page_remove_spec [OF inv d(1) ix(3)] by blast
  have e: "entry m d (PGADDR i j) = pmem m (PGNUM (pmem m d i)) j" using d(4) by (simp add: entry_def ix)
  have "pmem m' = (pmem m)(PGNUM (pmem m d i) := (pmem m (PGNUM (pmem m d i)))(j := 0))"
    unfolding mem e ix by (auto simp: put_word_def fun_upd_idem)
  then show ?thesis using r by blast
qed

lemma free_ptes_spec:
  assumes "mem_inv k D K xs ex" and "d \<in> D" "i < 955" "pmem k d i \<noteq> 0" and "PGNUM (pmem k d i) = pt"
    and "set js \<subseteq> {..<1024}"
  shows "\<exists>k' ys. free_ptes d i pt js k = Some k' \<and> mem_inv k' D K ys ex \<and> npages k' = npages k \<and>
    machine.more k' = machine.more k \<and> (\<forall>j \<in> set js. pmem k' pt j = 0) \<and>
    (\<forall>q j. q \<noteq> pt \<or> j \<notin> set js \<longrightarrow> pmem k' q j = pmem k q j)"
  using assms
proof (induction js arbitrary: k xs)
  case (Cons j js)
  note inv = Cons.prems(1) and d = Cons.prems(2,3,4) and pt = Cons.prems(5)
  have j: "j < 1024" "set js \<subseteq> {..<1024}" using Cons.prems(6) by auto
  have tab: "is_table k D pt" using d pt by (auto simp: is_table_def)
  have ptd: "pt \<noteq> d" using mem_invD(7) [OF inv tab] d(1) by blast
  have pres: "pmem k pt j AND PTE_P \<noteq> 0 \<longleftrightarrow> pmem k pt j \<noteq> 0"
    using mem_invD(12) [OF inv] tab j(1) unfolding all_present_def by auto
  obtain k0 ys where r: "page_remove d (PGADDR i j) k = Some k0" "mem_inv k0 D K ys ex" "npages k0 = npages k"
    "pmem k0 = (pmem k)(pt := (pmem k pt)(j := 0))" using page_remove_slot [OF inv d(1,2) j(1) d(3)] unfolding pt by blast
  obtain k1 zs where k1: "free_ptes d i pt (j # js) k = free_ptes d i pt js k1" "mem_inv k1 D K zs ex" "npages k1 = npages k"
    "machine.more k1 = machine.more k" "pmem k1 = (pmem k)(pt := (pmem k pt)(j := 0))"
  proof (cases "pmem k pt j = 0")
    case True
    then show ?thesis using that [of k xs] inv pres by (simp add: fun_upd_idem)
  next
    case False
    then show ?thesis using that [of k0 ys] r pres more_page_remove [OF r(1)] by simp
  qed
  have dir: "pmem k1 d i = pmem k d i" unfolding k1(5) using ptd by simp
  obtain k2 ws where k2: "free_ptes d i pt js k1 = Some k2" "mem_inv k2 D K ws ex" "npages k2 = npages k1"
    "machine.more k2 = machine.more k1" "\<forall>j \<in> set js. pmem k2 pt j = 0"
    "\<forall>q j. q \<noteq> pt \<or> j \<notin> set js \<longrightarrow> pmem k2 q j = pmem k1 q j"
    using Cons.IH [OF k1(2) d(1,2) _ _ j(2)] d(3) pt unfolding dir by blast
  have "pmem k2 pt j = 0" using k2(5,6) k1(5) by (cases "j \<in> set js") simp_all
  then have "\<forall>x \<in> set (j # js). pmem k2 pt x = 0" using k2(5) by simp
  moreover have "\<forall>q x. q \<noteq> pt \<or> x \<notin> set (j # js) \<longrightarrow> pmem k2 q x = pmem k q x" using k2(6) k1(5) by simp
  ultimately show ?case using k1 k2 by metis
qed auto

text \<open>One round of the loop over the directory: the table and all that it maps are given back.\<close>

lemma free_pde_step:
  assumes inv: "mem_inv k D K xs ex" and d: "d \<in> D" "i < 955" "pmem k d i \<noteq> 0" and pt: "PGNUM (pmem k d i) = pt"
  shows "\<exists>k' ys. free_pdes d (i # is) k = free_pdes d is k' \<and> mem_inv k' D K ys ex \<and> npages k' = npages k \<and>
    machine.more k' = machine.more k \<and> pmem k' d i = 0 \<and> (\<forall>q j. q \<noteq> pt \<and> (q, j) \<noteq> (d, i) \<longrightarrow> pmem k' q j = pmem k q j)"
proof -
  have tab: "is_table k D pt" using d pt by (auto simp: is_table_def)
  note ptk = mem_invD(7) [OF inv tab]
  have ptd: "pt \<noteq> d" using ptk d(1) by blast
  obtain k1 ys where k1: "free_ptes d i pt [0..<1024] k = Some k1" "mem_inv k1 D K ys ex" "npages k1 = npages k"
    "machine.more k1 = machine.more k" "\<forall>j \<in> set [0..<1024]. pmem k1 pt j = 0"
    "\<forall>q j. q \<noteq> pt \<or> j \<notin> set [0..<1024] \<longrightarrow> pmem k1 q j = pmem k q j"
    using free_ptes_spec [OF inv d pt, of "[0..<1024]"] by (metis atLeast0LessThan order_refl set_upt)
  have e: "pmem k1 d i = pmem k d i" using k1(6) ptd by metis
  have z: "pmem k1 pt j = 0" if "j < 1024" for j using k1(5) that by simp
  have inv2: "mem_inv (put_word d i 0 k1) D K ys (ex(pt := ex pt + 1))"
    using drop_table_inv [OF k1(2) d(1,2) _ _ z] d(3) pt unfolding e by blast
  obtain k2 zs where k2: "page_decref pt (put_word d i 0 k1) = Some k2"
    "mem_inv k2 D K zs ((ex(pt := ex pt + 1))(pt := (ex(pt := ex pt + 1)) pt - 1))" "pmem k2 = pmem (put_word d i 0 k1)"
    "npages k2 = npages k1" using page_decref_inv [OF inv2, of pt] ptk k1(3) by auto
  have ex: "(ex(pt := ex pt + 1))(pt := (ex(pt := ex pt + 1)) pt - 1) = ex" by auto
  have "pmem k d i AND PTE_P \<noteq> 0" using mem_invD(12) [OF inv] d unfolding all_present_def by blast
  moreover have "pa2page k (PTE_ADDR (pmem k d i)) = Some pt" using ptk pt by (simp add: pa2page_def)
  ultimately have "free_pdes d (i # is) k = free_pdes d is k2" using k1(1) k2(1) by (simp del: upt_rec_numeral)
  moreover have "machine.more k2 = machine.more k" using more_page_decref [OF k2(1)] k1(4) by simp
  moreover have "pmem k2 d i = 0" using k2(3) by simp
  moreover have "pmem k2 q j = pmem k q j" if "q \<noteq> pt" "(q, j) \<noteq> (d, i)" for q j
    using k2(3) k1(6) that by auto
  ultimately show ?thesis using k2(2,4) k1(3) unfolding ex by metis
qed

lemma free_pdes_spec:
  assumes "mem_inv k D K xs ex" and "d \<in> D" and "set is \<subseteq> {..<955}"
  shows "\<exists>k' ys. free_pdes d is k = Some k' \<and> mem_inv k' D K ys ex \<and> npages k' = npages k \<and>
    machine.more k' = machine.more k \<and> (\<forall>i. pmem k' d i = (if i \<in> set is then 0 else pmem k d i)) \<and>
    (\<forall>q. q \<noteq> d \<and> (\<forall>i \<in> set is. pmem k d i \<noteq> 0 \<longrightarrow> PGNUM (pmem k d i) \<noteq> q) \<longrightarrow> pmem k' q = pmem k q)"
  using assms
proof (induction "is" arbitrary: k xs)
  case (Cons i "is")
  note inv = Cons.prems(1) and d = Cons.prems(2)
  have i: "i < 955" "set is \<subseteq> {..<955}" using Cons.prems(3) by auto
  let ?pt = "PGNUM (pmem k d i)"
  obtain k1 ys where k1: "free_pdes d (i # is) k = free_pdes d is k1" "mem_inv k1 D K ys ex" "npages k1 = npages k"
    "machine.more k1 = machine.more k" "pmem k1 d i = 0"
    "\<forall>q j. (pmem k d i \<noteq> 0 \<longrightarrow> q \<noteq> ?pt) \<and> (q, j) \<noteq> (d, i) \<longrightarrow> pmem k1 q j = pmem k q j"
  proof (cases "pmem k d i = 0")
    case True
    then show ?thesis using that [of k xs] inv by simp
  next
    case False
    obtain k1 ys where "free_pdes d (i # is) k = free_pdes d is k1" "mem_inv k1 D K ys ex" "npages k1 = npages k"
      "machine.more k1 = machine.more k" "pmem k1 d i = 0"
      "\<forall>q j. q \<noteq> ?pt \<and> (q, j) \<noteq> (d, i) \<longrightarrow> pmem k1 q j = pmem k q j"
      using free_pde_step [OF inv d i(1) False refl] by blast
    then show ?thesis using False by (intro that [of k1 ys]) metis+
  qed
  have ptd: "?pt \<noteq> d" if "pmem k d i \<noteq> 0"
  proof -
    have "is_table k D ?pt" using that d i(1) by (auto simp: is_table_def)
    then show ?thesis using mem_invD(7) [OF inv] d by metis
  qed
  have dir: "pmem k1 d x = (if x = i then 0 else pmem k d x)" for x using k1(5) k1(6) [rule_format, of d x] ptd by (cases "x = i") (simp, metis prod.inject)
  obtain k2 zs where k2: "free_pdes d is k1 = Some k2" "mem_inv k2 D K zs ex" "npages k2 = npages k1"
    "machine.more k2 = machine.more k1" "\<forall>x. pmem k2 d x = (if x \<in> set is then 0 else pmem k1 d x)"
    "\<forall>q. q \<noteq> d \<and> (\<forall>i \<in> set is. pmem k1 d i \<noteq> 0 \<longrightarrow> PGNUM (pmem k1 d i) \<noteq> q) \<longrightarrow> pmem k2 q = pmem k1 q"
    using Cons.IH [OF k1(2) d i(2)] by blast
  have "pmem k2 d x = (if x \<in> set (i # is) then 0 else pmem k d x)" for x using k2(5) dir by auto
  moreover have "pmem k2 q = pmem k q" if q: "q \<noteq> d" "\<forall>x \<in> set (i # is). pmem k d x \<noteq> 0 \<longrightarrow> PGNUM (pmem k d x) \<noteq> q" for q
  proof -
    have "\<forall>x \<in> set is. pmem k1 d x \<noteq> 0 \<longrightarrow> PGNUM (pmem k1 d x) \<noteq> q" using q(2) dir by auto
    then have "pmem k2 q = pmem k1 q" using k2(6) q(1) by blast
    moreover have "pmem k1 q = pmem k q" using k1(6) q by (intro ext) auto
    ultimately show ?thesis by simp
  qed
  ultimately show ?case using k1 k2 by metis
qed auto

section \<open>Creating and freeing an address space\<close>

lemma env_setup_vm_mem:
  assumes inv: "mem_inv k D K xs ex" and kp: "\<And>i. i < 955 \<Longrightarrow> pmem k (kern_pgdir k) i = 0" "kern_pgdir k \<in> K"
    and e: "e < length (envs k)"
  shows "case xs of
      [] \<Rightarrow> env_setup_vm e k = (- E_NO_MEM, k)
    | p # ys \<Rightarrow> \<exists>k'. env_setup_vm e k = (0, k') \<and> mem_inv k' (insert p D) K ys ex \<and> npages k' = npages k \<and>
        envs k' = (envs k)[e := (envs k ! e)\<lparr>env_pgdir := Some p\<rparr>] \<and> env_free_list k' = env_free_list k \<and>
        cpu_env k' = cpu_env k \<and> kern_pgdir k' = kern_pgdir k \<and> (\<forall>q. q \<noteq> p \<longrightarrow> pmem k' q = pmem k q) \<and>
        (\<forall>i < 955. pmem k' p i = 0)"
proof (cases xs)
  case Nil
  then have "page_free_list k = None" using mem_invD(3) [OF inv] by (cases "page_free_list k") (auto simp: pl.free_listed_def listed_def)
  then show ?thesis using Nil by (simp add: env_setup_vm_def page_alloc_def)
next
  case (Cons p ys)
  have free: "p < npages k" "p \<notin> K" "p \<notin> D" using free_page [OF inv, of p] Cons by simp_all
  obtain k1 where al: "page_alloc True k = (Some p, k1)" "mem_inv k1 D K ys ex" "npages k1 = npages k" "p \<notin> set ys"
    "\<forall>q < npages k. pp_ref (pages k1 ! q) = pp_ref (pages k ! q)" "\<forall>q j. pmem k1 q j = (if q = p then 0 else pmem k q j)"
    using page_alloc_inv [OF inv, of True] Cons by (auto split: prod.splits option.splits)
  have m1: "machine.more k1 = machine.more k" using more_page_alloc [OF al(1)] .
  note f = more_kernel [OF m1]
  have pk: "p \<noteq> kern_pgdir k" using free(2) kp(2) by blast
  let ?inc = "\<lambda>i. i\<lparr>pp_ref := pp_ref i + 1\<rparr>"
  let ?w = "page2pa p OR PTE_P OR PTE_U"
  let ?k2 = "upd_env e (\<lambda>x. x\<lparr>env_pgdir := Some p\<rparr>) k1"
  let ?k3 = "?k2\<lparr>pmem := (pmem ?k2)(p := pmem ?k2 (kern_pgdir ?k2))\<rparr>"
  let ?k' = "put_word p (PDX UVPT) ?w (upd_page p ?inc ?k3)"
  have r: "env_setup_vm e k = (0, ?k')" using al(1) by (simp add: env_setup_vm_def Let_def)
  have ref0: "pp_ref (pages k1 ! p) = 0" using al(5) free(1) mem_invD(11) [OF inv, of p] Cons by simp
  have uv: "PDX UVPT = 957" by (simp add: PDX_div)
  have "mem_inv ?k' (insert p D) K ys ex"
  proof (rule new_dir_inv [OF al(2)])
    show "p < npages k1" using free(1) al(3) by simp
    show "npages ?k' = npages k1" by (simp add: npages_def upd_page_def put_word_def)
    show "page_free_list ?k' = page_free_list k1" by (simp add: put_word_def upd_page_def)
    show "pages ?k' ! q = (if q = p then (pages k1 ! p)\<lparr>pp_ref := 1\<rparr> else pages k1 ! q)" if "q < npages k1" for q
      using that ref0 by (simp add: npages_def nth_list_update put_word_def upd_page_def)
    show "pmem ?k' q i = pmem k1 q i" if "q \<noteq> p" for q i using that by simp
    show "pmem ?k' p i = 0" if "i < 955" for i using that kp(1) [OF that] al(6) pk f(4) uv by simp
  qed (use free al ref0 in auto)
  moreover have "npages ?k' = npages k" using al(3) by (simp add: npages_def upd_page_def put_word_def)
  moreover have "envs ?k' = (envs k)[e := (envs k ! e)\<lparr>env_pgdir := Some p\<rparr>]"
    using f(1) by (simp add: put_word_def upd_page_def upd_env_def)
  moreover have "env_free_list ?k' = env_free_list k" "cpu_env ?k' = cpu_env k" "kern_pgdir ?k' = kern_pgdir k"
    using f by (simp_all add: put_word_def upd_page_def)
  moreover have "pmem ?k' q = pmem k q" if "q \<noteq> p" for q using that al(6) by (intro ext) simp
  moreover have "pmem ?k' p i = 0" if "i < 955" for i using that kp(1) [OF that] al(6) pk f(4) uv by simp
  ultimately show ?thesis unfolding Cons using r by simp
qed

lemma env_free_mem:
  assumes inv: "mem_inv k D K xs ex" and e: "e < length (envs k)" "env_pgdir (envs k ! e) = Some d" "d \<in> D"
  shows "\<exists>k' ys. env_free e k = Some k' \<and> mem_inv k' (D - {d}) K ys ex \<and> npages k' = npages k \<and>
    envs k' = (envs k)[e := (envs k ! e)\<lparr>env_pgdir := None, env_status := ENV_FREE, env_link := env_free_list k\<rparr>] \<and>
    env_free_list k' = Some e \<and> cpu_env k' = cpu_env k \<and> kern_pgdir k' = kern_pgdir k \<and>
    (\<forall>q. q \<noteq> d \<and> (\<forall>i < 955. pmem k d i \<noteq> 0 \<longrightarrow> PGNUM (pmem k d i) \<noteq> q) \<longrightarrow> pmem k' q = pmem k q)"
proof -
  obtain k1 ys where k1: "free_pdes d [0..<955] k = Some k1" "mem_inv k1 D K ys ex" "npages k1 = npages k"
    "machine.more k1 = machine.more k" "\<forall>i. pmem k1 d i = (if i \<in> set [0..<955] then 0 else pmem k d i)"
    "\<forall>q. q \<noteq> d \<and> (\<forall>i \<in> set [0..<955]. pmem k d i \<noteq> 0 \<longrightarrow> PGNUM (pmem k d i) \<noteq> q) \<longrightarrow> pmem k1 q = pmem k q"
    using free_pdes_spec [OF inv e(3), of "[0..<955]"] by (metis atLeast0LessThan order_refl set_upt)
  note f = more_kernel [OF k1(4)]
  have z: "pmem k1 d i = 0" if "i < 955" for i using k1(5) that by simp
  have inv1: "mem_inv k1 (D - {d}) K ys (ex(d := ex d + 1))" by (rule drop_dir_inv [OF k1(2) e(3) z])
  let ?k2 = "upd_env e (\<lambda>x. x\<lparr>env_pgdir := None\<rparr>) k1"
  have inv2: "mem_inv ?k2 (D - {d}) K ys (ex(d := ex d + 1))"
    using same_machine(1) [of ?k2 k1 "D - {d}" K ys "ex(d := ex d + 1)"] inv1 by simp
  have dk: "d < npages ?k2" "d \<notin> K" using mem_invD(6) [OF inv e(3)] k1(3) by (simp_all add: npages_def)
  obtain k3 zs where k3: "page_decref d ?k2 = Some k3"
    "mem_inv k3 (D - {d}) K zs ((ex(d := ex d + 1))(d := (ex(d := ex d + 1)) d - 1))" "pmem k3 = pmem ?k2" "npages k3 = npages ?k2"
    using page_decref_inv [OF inv2 dk] by auto
  have ex: "(ex(d := ex d + 1))(d := (ex(d := ex d + 1)) d - 1) = ex" by auto
  note f3 = more_kernel [OF more_page_decref [OF k3(1)]]
  have "env_free e k = Some (env_push e k3)"
    using e(2) k1(1) k3(1) PDX_UTOP by (simp add: env_free_def del: upt_rec_numeral)
  moreover have "mem_inv (env_push e k3) (D - {d}) K zs ex"
    using same_machine(1) [of "env_push e k3" k3 "D - {d}" K zs ex] k3(2) unfolding ex by (simp add: env_push_def)
  moreover have "npages (env_push e k3) = npages k" using k3(4) k1(3) by (simp add: env_push_def npages_def)
  moreover have "envs (env_push e k3) = (envs k)[e := (envs k ! e)\<lparr>env_pgdir := None, env_status := ENV_FREE, env_link := env_free_list k\<rparr>]"
    using f f3 e(1) by (simp add: env_push_def upd_env_def)
  moreover have "env_free_list (env_push e k3) = Some e" "cpu_env (env_push e k3) = cpu_env k" "kern_pgdir (env_push e k3) = kern_pgdir k"
    using f f3 by (simp_all add: env_push_def)
  moreover have "pmem (env_push e k3) q = pmem k q" if "q \<noteq> d" "\<forall>i < 955. pmem k d i \<noteq> 0 \<longrightarrow> PGNUM (pmem k d i) \<noteq> q" for q
    using k1(6) k3(3) that by (simp add: env_push_def)
  ultimately show ?thesis by metis
qed

end
