(* ===== verification/Kern_Inv.thy ===== *)
theory Kern_Inv
  imports Kern_Vm
begin

unbundle bit_operations_syntax

text \<open>
  The invariant of the whole kernel on one processor, and that the operations on environments and the scheduler
  keep it: the table of environments and its free list agree, every environment in use has its own page directory,
  the memory is consistent for exactly those directories, and the current environment is in use.
\<close>

section \<open>The table of environments\<close>

definition env_next :: "kernel \<Rightarrow> nat \<Rightarrow> nat option" where
  "env_next k i = (if i < length (envs k) then env_link (envs k ! i) else None)"

interpretation el: free_list env_free_list env_next env_pop env_push "\<lambda>k. length (envs k)"
proof (unfold_locales, goal_cases)
  case (1 s x)
  then show ?case by (simp add: env_pop_def env_next_def)
next
  case (2 s x y)
  then show ?case by (simp add: env_pop_def env_next_def)
next
  case (3 s)
  show ?case by (simp add: env_pop_def split: option.split)
next
  case (4 x s)
  show ?case by (simp add: env_push_def)
next
  case (5 x s y)
  then show ?case by (simp add: env_push_def env_next_def)
next
  case (6 x s)
  show ?case by (simp add: env_push_def)
qed

lemma free_envs_cong:
  "env_next k' = env_next k \<Longrightarrow> env_free_list k' = env_free_list k \<Longrightarrow> length (envs k') = length (envs k) \<Longrightarrow>
   el.free_listed k' fs = el.free_listed k fs"
  by (simp add: el.free_listed_def)

definition used :: "kernel \<Rightarrow> nat \<Rightarrow> bool" where
  "used k e \<longleftrightarrow> e < NENV \<and> env_status (envs k ! e) \<noteq> ENV_FREE"

definition dirs :: "kernel \<Rightarrow> nat set" where
  "dirs k = {d. \<exists>e. used k e \<and> env_pgdir (envs k ! e) = Some d}"

definition envs_inv :: "kernel \<Rightarrow> nat list \<Rightarrow> bool" where
  "envs_inv k fs \<longleftrightarrow>
     length (envs k) = NENV \<and> el.free_listed k fs \<and> (\<forall>e < NENV. env_status (envs k ! e) = ENV_FREE \<longleftrightarrow> e \<in> set fs) \<and>
     (\<forall>e < NENV. unat (env_id (envs k ! e)) < 2 ^ 31 \<and> env_ipc_dstva (envs k ! e) < UTOP) \<and>
     (\<forall>e. used k e \<longrightarrow> ENVX (env_id (envs k ! e)) = e \<and> env_pgdir (envs k ! e) \<noteq> None) \<and>
     (\<forall>e f. used k e \<and> used k f \<and> env_pgdir (envs k ! e) = env_pgdir (envs k ! f) \<longrightarrow> e = f)"

definition kern_inv :: "nat \<Rightarrow> nat set \<Rightarrow> kernel \<Rightarrow> bool" where
  "kern_inv cpu K k \<longleftrightarrow>
     (\<exists>fs xs. envs_inv k fs \<and> mem_inv k (dirs k) K xs (\<lambda>_. 0)) \<and> kern_pgdir k \<in> K \<and>
     (\<forall>i < 955. pmem k (kern_pgdir k) i = 0) \<and> (\<forall>c e. cpu_env k c = Some e \<longrightarrow> c = cpu \<and> used k e)"

lemma kern_invE:
  assumes "kern_inv cpu K k"
  obtains fs xs where "envs_inv k fs" "mem_inv k (dirs k) K xs (\<lambda>_. 0)"
  using assms unfolding kern_inv_def by blast

lemma kern_invD:
  assumes "kern_inv cpu K k"
  shows "kern_pgdir k \<in> K" "i < 955 \<Longrightarrow> pmem k (kern_pgdir k) i = 0" "cpu_env k c = Some e \<Longrightarrow> c = cpu"
    "cpu_env k c = Some e \<Longrightarrow> used k e" "length (envs k) = NENV"
    "e < NENV \<Longrightarrow> unat (env_id (envs k ! e)) < 2 ^ 31" "e < NENV \<Longrightarrow> env_ipc_dstva (envs k ! e) < UTOP"
    "used k e \<Longrightarrow> ENVX (env_id (envs k ! e)) = e"
    "used k e \<Longrightarrow> \<exists>d. env_pgdir (envs k ! e) = Some d \<and> d \<in> dirs k"
    "used k e \<Longrightarrow> used k f \<Longrightarrow> env_pgdir (envs k ! e) = env_pgdir (envs k ! f) \<Longrightarrow> e = f"
proof -
  obtain fs xs where "envs_inv k fs" using assms by (rule kern_invE)
  then show "length (envs k) = NENV" "e < NENV \<Longrightarrow> unat (env_id (envs k ! e)) < 2 ^ 31"
    "e < NENV \<Longrightarrow> env_ipc_dstva (envs k ! e) < UTOP" "used k e \<Longrightarrow> ENVX (env_id (envs k ! e)) = e"
    "used k e \<Longrightarrow> \<exists>d. env_pgdir (envs k ! e) = Some d \<and> d \<in> dirs k"
    "used k e \<Longrightarrow> used k f \<Longrightarrow> env_pgdir (envs k ! e) = env_pgdir (envs k ! f) \<Longrightarrow> e = f"
    unfolding envs_inv_def dirs_def by blast+
qed (use assms in \<open>unfold kern_inv_def, blast+\<close>)

text \<open>Updates that leave alone what the invariant speaks of.\<close>

lemma envs_inv_same:
  assumes inv: "envs_inv k fs" and len: "length (envs k') = NENV" and fl: "env_free_list k' = env_free_list k"
    and same: "\<And>e. e < NENV \<Longrightarrow> env_id (envs k' ! e) = env_id (envs k ! e)"
      "\<And>e. e < NENV \<Longrightarrow> env_pgdir (envs k' ! e) = env_pgdir (envs k ! e)"
      "\<And>e. e < NENV \<Longrightarrow> env_link (envs k' ! e) = env_link (envs k ! e)"
      "\<And>e. e < NENV \<Longrightarrow> env_status (envs k' ! e) = ENV_FREE \<longleftrightarrow> env_status (envs k ! e) = ENV_FREE"
    and ipc: "\<And>e. e < NENV \<Longrightarrow> env_ipc_dstva (envs k' ! e) < UTOP"
  shows "envs_inv k' fs" "used k' = used k" "dirs k' = dirs k"
proof -
  show u: "used k' = used k" using same(4) by (intro ext) (auto simp: used_def)
  have "env_next k' = env_next k" using same(3) len inv by (intro ext) (auto simp: env_next_def envs_inv_def)
  then have "el.free_listed k' fs" using inv len fl by (auto simp: envs_inv_def el.free_listed_def)
  then show "envs_inv k' fs" using inv len same ipc unfolding envs_inv_def u by (auto simp: used_def)
  show "dirs k' = dirs k" unfolding dirs_def u using same(2) by (auto simp: used_def)
qed

lemma kern_inv_same:
  assumes inv: "kern_inv cpu K k" and len: "length (envs k') = NENV" and fl: "env_free_list k' = env_free_list k"
    and same: "\<And>e. e < NENV \<Longrightarrow> env_id (envs k' ! e) = env_id (envs k ! e)"
      "\<And>e. e < NENV \<Longrightarrow> env_pgdir (envs k' ! e) = env_pgdir (envs k ! e)"
      "\<And>e. e < NENV \<Longrightarrow> env_link (envs k' ! e) = env_link (envs k ! e)"
      "\<And>e. e < NENV \<Longrightarrow> env_status (envs k' ! e) = ENV_FREE \<longleftrightarrow> env_status (envs k ! e) = ENV_FREE"
      "\<And>e. e < NENV \<Longrightarrow> env_ipc_dstva (envs k' ! e) < UTOP"
    and mach: "pages k' = pages k" "page_free_list k' = page_free_list k" "pmem k' = pmem k" "kern_pgdir k' = kern_pgdir k"
    and cpu: "\<And>c e. cpu_env k' c = Some e \<Longrightarrow> c = cpu \<and> used k e"
  shows "kern_inv cpu K k'"
proof -
  obtain fs xs where fx: "envs_inv k fs" "mem_inv k (dirs k) K xs (\<lambda>_. 0)" using inv by (rule kern_invE)
  have e: "envs_inv k' fs" "used k' = used k" "dirs k' = dirs k"
    by (rule envs_inv_same [OF fx(1) len fl]; use same in blast)+
  have "mem_inv k' (dirs k') K xs (\<lambda>_. 0)" unfolding e(3) using fx(2) same_machine(1) [of k' k] mach by simp
  then show ?thesis using e(1) inv cpu unfolding kern_inv_def e(2) mach by blast
qed

lemma kern_inv_upd:
  assumes "kern_inv cpu K k" "used k e"
    and "\<And>x. env_id (f x) = env_id x" "\<And>x. env_pgdir (f x) = env_pgdir x" "\<And>x. env_link (f x) = env_link x"
    and "env_status (f (envs k ! e)) \<noteq> ENV_FREE" "env_ipc_dstva (f (envs k ! e)) < UTOP"
  shows "kern_inv cpu K (upd_env e f k)"
  by (rule kern_inv_same [OF assms(1)]) (use assms kern_invD [OF assms(1)] in \<open>auto simp: used_def\<close>)

lemma used_upd:
  "length (envs k) = NENV \<Longrightarrow> used k e \<Longrightarrow> env_status (f (envs k ! e)) \<noteq> ENV_FREE \<Longrightarrow> used (upd_env e f k) = used k"
  by (intro ext) (auto simp: used_def split: if_splits)

text \<open>Memory operations.\<close>

lemma kern_inv_mem:
  assumes inv: "kern_inv cpu K k" and mem: "mem_inv k' (dirs k) K xs (\<lambda>_. 0)" "machine.more k' = machine.more k"
    and kp: "\<And>q. q \<in> K \<Longrightarrow> pmem k' q = pmem k q"
  shows "kern_inv cpu K k'"
proof -
  obtain fs where fs: "envs_inv k fs" using inv by (rule kern_invE)
  note f = more_kernel [OF mem(2)]
  have u: "used k' = used k" by (intro ext) (simp add: used_def f)
  have d: "dirs k' = dirs k" by (simp add: dirs_def u f)
  have "env_next k' = env_next k" by (intro ext) (simp add: env_next_def f)
  then have "envs_inv k' fs" using fs unfolding envs_inv_def u f el.free_listed_def by auto
  then show ?thesis using mem(1) inv kp unfolding kern_inv_def u d f by metis
qed

section \<open>Allocating and freeing environments\<close>

text \<open>A free slot that becomes an environment with a directory of its own.\<close>

lemma envs_inv_take:
  assumes inv: "envs_inv k (e # gs)" and envs: "envs k' = (envs k)[e := x]" and fl: "el.free_listed k' gs"
    and x: "env_status x \<noteq> ENV_FREE" "unat (env_id x) < 2 ^ 31" "ENVX (env_id x) = e" "env_pgdir x = Some p"
      "env_ipc_dstva x < UTOP" and p: "p \<notin> dirs k"
  shows "envs_inv k' gs" "used k' f \<longleftrightarrow> f = e \<or> used k f" "dirs k' = insert p (dirs k)"
proof -
  have e: "e < NENV" "e \<notin> set gs" "length (envs k) = NENV" "env_status (envs k ! e) = ENV_FREE"
    using inv by (auto simp: envs_inv_def el.free_listed_def listed_def)
  have nth: "envs k' ! f = (if f = e then x else envs k ! f)" if "f < NENV" for f using e(3) that envs by simp
  show u: "used k' f \<longleftrightarrow> f = e \<or> used k f" for f using e(1) nth x(1) by (auto simp: used_def split: if_splits)
  have ne: "f \<noteq> e" if "used k f" for f using that e(4) by (auto simp: used_def)
  have pg: "env_pgdir (envs k' ! f) = (if f = e then Some p else env_pgdir (envs k ! f))" if "used k' f" for f
    using that nth x(4) by (auto simp: used_def)
  have nd: "env_pgdir (envs k ! f) \<noteq> Some p" if "used k f" for f using that p by (auto simp: dirs_def)
  show "dirs k' = insert p (dirs k)"
  proof (intro set_eqI)
    fix q
    have "q \<in> dirs k' \<longleftrightarrow> (\<exists>f. (f = e \<or> used k f) \<and> (if f = e then Some p else env_pgdir (envs k ! f)) = Some q)"
      unfolding dirs_def mem_Collect_eq using u pg by metis
    also have "\<dots> \<longleftrightarrow> q = p \<or> q \<in> dirs k" using ne unfolding dirs_def by force
    finally show "q \<in> dirs k' \<longleftrightarrow> q \<in> insert p (dirs k)" by simp
  qed
  have "f = g" if "used k' f" "used k' g" "env_pgdir (envs k' ! f) = env_pgdir (envs k' ! g)" for f g
  proof -
    have "(if f = e then Some p else env_pgdir (envs k ! f)) = (if g = e then Some p else env_pgdir (envs k ! g))"
      using that pg by metis
    then show ?thesis using that(1,2) u nd inv unfolding envs_inv_def by (metis (full_types))
  qed
  moreover have "ENVX (env_id (envs k' ! f)) = f \<and> env_pgdir (envs k' ! f) \<noteq> None" if "used k' f" for f
    using that u [of f] nth [of f] x(3,4) inv unfolding envs_inv_def by (auto simp: used_def)
  moreover have "env_status (envs k' ! f) = ENV_FREE \<longleftrightarrow> f \<in> set gs" if "f < NENV" for f
    using nth [OF that] x(1) e(2) inv that unfolding envs_inv_def by auto
  moreover have "unat (env_id (envs k' ! f)) < 2 ^ 31 \<and> env_ipc_dstva (envs k' ! f) < UTOP" if "f < NENV" for f
    using nth [OF that] x inv that unfolding envs_inv_def by auto
  ultimately show "envs_inv k' gs" using fl e(3) envs unfolding envs_inv_def by simp
qed

lemma envs_inv_give:
  assumes inv: "envs_inv k fs" and e: "used k e" "env_pgdir (envs k ! e) = Some d"
    and envs: "envs k' = (envs k)[e := (envs k ! e)\<lparr>env_pgdir := None, env_status := ENV_FREE, env_link := env_free_list k\<rparr>]"
    and fl: "env_free_list k' = Some e"
  shows "envs_inv k' (e # fs)" "used k' f \<longleftrightarrow> f \<noteq> e \<and> used k f" "dirs k' = dirs k - {d}"
proof -
  have len: "length (envs k) = NENV" "e < NENV" "e \<notin> set fs" using inv e by (auto simp: envs_inv_def used_def)
  have nth: "envs k' ! f = (if f = e then (envs k ! e)\<lparr>env_pgdir := None, env_status := ENV_FREE, env_link := env_free_list k\<rparr>
    else envs k ! f)" if "f < NENV" for f using that len envs by simp
  show u: "used k' f \<longleftrightarrow> f \<noteq> e \<and> used k f" for f using nth len(2) by (auto simp: used_def split: if_splits)
  have inj: "f = e" if "used k f" "env_pgdir (envs k ! f) = Some d" for f
    using inv that e unfolding envs_inv_def by metis
  have same: "env_pgdir (envs k' ! f) = env_pgdir (envs k ! f)" if "used k' f" for f using that nth u by (auto simp: used_def)
  have "d' \<in> dirs k' \<longleftrightarrow> d' \<in> dirs k - {d}" for d'
  proof
    assume "d' \<in> dirs k'"
    then obtain f where f: "used k' f" "env_pgdir (envs k' ! f) = Some d'" by (auto simp: dirs_def)
    then have "used k f" "f \<noteq> e" "env_pgdir (envs k ! f) = Some d'" using u same by metis+
    then show "d' \<in> dirs k - {d}" using inj by (auto simp: dirs_def)
  next
    assume "d' \<in> dirs k - {d}"
    then obtain f where f: "used k f" "env_pgdir (envs k ! f) = Some d'" "d' \<noteq> d" by (auto simp: dirs_def)
    then have "f \<noteq> e" using e(2) by auto
    then have "used k' f" using u f(1) by blast
    then show "d' \<in> dirs k'" using f(2) same by (auto simp: dirs_def)
  qed
  then show "dirs k' = dirs k - {d}" by blast
  have "el.free_listed (env_push e k) (e # fs)" using inv len by (intro el.free_listed_push) (auto simp: envs_inv_def)
  moreover have "env_next k' = env_next (env_push e k)" "length (envs k') = length (envs (env_push e k))"
    using nth len envs by (auto intro!: ext simp: env_next_def env_push_def)
  ultimately have "el.free_listed k' (e # fs)" using fl by (simp add: el.free_listed_def env_push_def)
  moreover have "env_status (envs k' ! f) = ENV_FREE \<longleftrightarrow> f \<in> set (e # fs)" if "f < NENV" for f
    using nth [OF that] inv that unfolding envs_inv_def by auto
  moreover have "unat (env_id (envs k' ! f)) < 2 ^ 31 \<and> env_ipc_dstva (envs k' ! f) < UTOP" if "f < NENV" for f
    using nth [OF that] inv that unfolding envs_inv_def by auto
  moreover have "ENVX (env_id (envs k' ! f)) = f \<and> env_pgdir (envs k' ! f) \<noteq> None" if "used k' f" for f
    using that u [of f] same [OF that] nth [of f] inv unfolding envs_inv_def by (auto simp: used_def)
  moreover have "f = g" if "used k' f" "used k' g" "env_pgdir (envs k' ! f) = env_pgdir (envs k' ! g)" for f g
    using that same u inv unfolding envs_inv_def by metis
  ultimately show "envs_inv k' (e # fs)" using len envs unfolding envs_inv_def by simp
qed

lemma env_alloc_inv:
  assumes inv: "kern_inv cpu K k"
  shows "\<exists>r eo k'. env_alloc parent k = (r, eo, k') \<and> kern_inv cpu K k' \<and> cpu_env k' = cpu_env k \<and>
    (\<forall>f. used k f \<longrightarrow> used k' f \<and> envs k' ! f = envs k ! f) \<and>
    (if r = 0 then \<exists>e. eo = Some e \<and> used k' e \<and> \<not> used k e \<and> env_status (envs k' ! e) = ENV_RUNNABLE
     else r < 0 \<and> eo = None \<and> k' = k)"
proof -
  obtain fs xs where fx: "envs_inv k fs" "mem_inv k (dirs k) K xs (\<lambda>_. 0)" using inv by (rule kern_invE)
  show ?thesis
  proof (cases "env_free_list k")
    case None
    then show ?thesis using inv by (simp add: env_alloc_def)
  next
    case (Some e)
    have "el.free_listed k fs" "length (envs k) = NENV" using fx(1) by (simp_all add: envs_inv_def)
    then obtain gs where fs: "fs = e # gs" "e < NENV" using el.free_listed_cons [of k fs e] Some by auto
    have len: "length (envs k) = NENV" by (rule kern_invD(5) [OF inv])
    note vm = env_setup_vm_mem [OF fx(2) kern_invD(2,1) [OF inv], of e]
    show ?thesis
    proof (cases xs)
      case Nil
      then have "env_setup_vm e k = (- E_NO_MEM, k)" using vm fs(2) len by simp
      then show ?thesis using Some inv by (simp add: env_alloc_def)
    next
      case (Cons p ys)
      obtain k1 where k1: "env_setup_vm e k = (0, k1)" "mem_inv k1 (insert p (dirs k)) K ys (\<lambda>_. 0)"
        "envs k1 = (envs k)[e := (envs k ! e)\<lparr>env_pgdir := Some p\<rparr>]" "env_free_list k1 = env_free_list k"
        "cpu_env k1 = cpu_env k" "kern_pgdir k1 = kern_pgdir k" "\<forall>q. q \<noteq> p \<longrightarrow> pmem k1 q = pmem k q"
        using vm fs(2) len unfolding Cons by auto
      have pfree: "p \<notin> dirs k" "p \<notin> K" using free_page [OF fx(2), of p] Cons by simp_all
      define x where "x = (envs k ! e)\<lparr>env_pgdir := Some p, env_id := next_generation (env_id (envs k ! e)) OR of_nat e,
        env_parent_id := parent, env_type := ENV_TYPE_USER, env_status := ENV_RUNNABLE, env_runs := 0, env_tf := user_tf,
        env_pgfault_upcall := 0, env_ipc_recving := False\<rparr>"
      define k2 where "k2 = k1\<lparr>envs := (envs k)[e := x]\<rparr>"
      have al: "env_alloc parent k = (0, Some e, env_pop k2)"
        using Some k1(1,3) len fs(2) by (simp add: env_alloc_def Let_def upd_env_def k2_def x_def)
      have "env_next k2 = env_next k" using len fs(2) by (intro ext) (simp add: env_next_def k2_def nth_list_update x_def)
      moreover have "length (envs k2) = length (envs k)" "env_free_list k2 = env_free_list k" using k1(4) by (simp_all add: k2_def)
      ultimately have "el.free_listed k2 (e # gs)"
        using free_envs_cong [of k2 k "e # gs"] fx(1) fs(1) unfolding envs_inv_def by blast
      then have fl: "el.free_listed (env_pop k2) gs" by (rule el.free_listed_pop)
      have pop: "envs (env_pop k2) = (envs k)[e := x]" "cpu_env (env_pop k2) = cpu_env k" "kern_pgdir (env_pop k2) = kern_pgdir k"
        "pages (env_pop k2) = pages k1" "pmem (env_pop k2) = pmem k1" "page_free_list (env_pop k2) = page_free_list k1"
        using k1(5,6) by (simp_all add: env_pop_def k2_def split: option.split)
      note nid = next_id [OF fs(2) kern_invD(6) [OF inv fs(2)]]
      have "unat (next_generation (env_id (envs k ! e)) OR of_nat e) < 2 ^ 31" using nid(1) by (simp add: sint_pos)
      then have tk: "envs_inv (env_pop k2) gs" "\<And>f. used (env_pop k2) f \<longleftrightarrow> f = e \<or> used k f"
        "dirs (env_pop k2) = insert p (dirs k)"
        using envs_inv_take [OF fx(1) [unfolded fs(1)] pop(1) fl _ _ _ _ _ pfree(1)] nid(2) kern_invD(7) [OF inv fs(2)]
        by (simp_all add: x_def)
      have "mem_inv (env_pop k2) (dirs (env_pop k2)) K ys (\<lambda>_. 0)"
        using k1(2) same_machine(1) [of "env_pop k2" k1] pop unfolding tk(3) by simp
      moreover have "pmem (env_pop k2) (kern_pgdir k) = pmem k (kern_pgdir k)"
        using k1(7) kern_invD(1) [OF inv] pfree(2) pop(5) by metis
      ultimately have "kern_inv cpu K (env_pop k2)"
        using tk inv unfolding kern_inv_def pop(2,3) by metis
      moreover have "env_status (envs (env_pop k2) ! e) = ENV_RUNNABLE" using pop(1) len fs(2) by (simp add: x_def)
      moreover have "\<not> used k e" using fx(1) fs unfolding envs_inv_def by (auto simp: used_def)
      moreover have "envs (env_pop k2) ! f = envs k ! f" if "used k f" for f using pop(1) calculation(3) that by (metis nth_list_update_neq)
      ultimately show ?thesis using al tk(2) pop(2) by auto
    qed
  qed
qed

lemma env_free_inv:
  assumes inv: "kern_inv cpu K k" and e: "used k e"
  shows "\<exists>k'. env_free e k = Some k' \<and> kern_inv cpu K (k'\<lparr>cpu_env := (cpu_env k')(cpu := None)\<rparr>) \<and> cpu_env k' = cpu_env k \<and>
    (cpu_env k cpu \<noteq> Some e \<longrightarrow> kern_inv cpu K k')"
proof -
  obtain fs xs where fx: "envs_inv k fs" "mem_inv k (dirs k) K xs (\<lambda>_. 0)" using inv by (rule kern_invE)
  obtain d where d: "env_pgdir (envs k ! e) = Some d" "d \<in> dirs k" using kern_invD(9) [OF inv e] by blast
  have el: "e < length (envs k)" using e kern_invD(5) [OF inv] by (simp add: used_def)
  obtain k' ys where k': "env_free e k = Some k'" "mem_inv k' (dirs k - {d}) K ys (\<lambda>_. 0)"
    "envs k' = (envs k)[e := (envs k ! e)\<lparr>env_pgdir := None, env_status := ENV_FREE, env_link := env_free_list k\<rparr>]"
    "env_free_list k' = Some e" "cpu_env k' = cpu_env k" "kern_pgdir k' = kern_pgdir k"
    "\<forall>q. q \<noteq> d \<and> (\<forall>i < 955. pmem k d i \<noteq> 0 \<longrightarrow> PGNUM (pmem k d i) \<noteq> q) \<longrightarrow> pmem k' q = pmem k q"
    using env_free_mem [OF fx(2) el d] by blast
  note g = envs_inv_give [OF fx(1) e d(1) k'(3,4)]
  have "pmem k' (kern_pgdir k) = pmem k (kern_pgdir k)"
  proof -
    have "q \<noteq> kern_pgdir k" if "d = q \<or> is_table k (dirs k) q" for q
      using that kern_invD(1) [OF inv] mem_invD(6) [OF fx(2) d(2)] mem_invD(7) [OF fx(2), of q] by auto
    then show ?thesis using k'(7) d(2) by (metis (no_types, lifting) is_table_def)
  qed
  then have base: "kern_inv cpu K k''" if "envs k'' = envs k'" "env_free_list k'' = env_free_list k'" "pages k'' = pages k'"
    "page_free_list k'' = page_free_list k'" "pmem k'' = pmem k'" "kern_pgdir k'' = kern_pgdir k'"
    "\<And>c f. cpu_env k'' c = Some f \<Longrightarrow> cpu_env k c = Some f \<and> f \<noteq> e" for k'' :: kernel
  proof -
    have u: "used k'' = used k'" "dirs k'' = dirs k'" using that(1) by (auto simp: used_def dirs_def)
    have "env_next k'' = env_next k'" using that(1) by (intro ext) (simp add: env_next_def)
    then have "envs_inv k'' (e # fs)"
      using g(1) free_envs_cong [of k'' k' "e # fs"] that(1,2) unfolding envs_inv_def u by presburger
    moreover have "mem_inv k'' (dirs k'') K ys (\<lambda>_. 0)" using k'(2) g(3) u(2) same_machine(1) [of k'' k'] that by simp
    moreover have "pmem k'' (kern_pgdir k'') = pmem k (kern_pgdir k)" using \<open>pmem k' (kern_pgdir k) = _\<close> that(5,6) k'(6) by simp
    ultimately show ?thesis
      using inv that(6,7) k'(6) g(2) unfolding kern_inv_def u(1) by metis
  qed
  have only: "c = cpu" if "cpu_env k c = Some f" for c f using kern_invD(3) [OF inv that] .
  have "kern_inv cpu K (k'\<lparr>cpu_env := (cpu_env k')(cpu := None)\<rparr>)"
  proof (rule base)
    show "cpu_env k c = Some f \<and> f \<noteq> e" if "cpu_env (k'\<lparr>cpu_env := (cpu_env k')(cpu := None)\<rparr>) c = Some f" for c f
      using that only k'(5) by (auto split: if_splits)
  qed simp_all
  moreover have "kern_inv cpu K k'" if "cpu_env k cpu \<noteq> Some e" by (rule base) (use that only k'(5) in auto)
  ultimately show ?thesis using k'(1,5) by blast
qed

section \<open>The scheduler\<close>

lemma env_run_fields:
  "pages (env_run cpu e k) = pages k" "page_free_list (env_run cpu e k) = page_free_list k" "pmem (env_run cpu e k) = pmem k"
  "kern_pgdir (env_run cpu e k) = kern_pgdir k" "env_free_list (env_run cpu e k) = env_free_list k"
  "cpu_env (env_run cpu e k) = (cpu_env k)(cpu := Some e)"
  by (simp_all add: env_run_def Let_def split: option.split)

lemma env_run_inv:
  assumes inv: "kern_inv cpu K k" and e: "used k e"
  shows "kern_inv cpu K (env_run cpu e k)"
proof -
  have len: "length (envs k) = NENV" by (rule kern_invD(5) [OF inv])
  note nth = env_run_nth [OF len]
  have cur: "used k c" if "cpu_env k cpu = Some c" for c using kern_invD(4) [OF inv that] .
  show ?thesis
  proof (rule kern_inv_same [OF inv])
    fix f
    assume f: "f < NENV"
    show "env_status (envs (env_run cpu e k) ! f) = ENV_FREE \<longleftrightarrow> env_status (envs k ! f) = ENV_FREE"
      using e by (simp add: nth [OF f] used_def)
    show "env_ipc_dstva (envs (env_run cpu e k) ! f) < UTOP" using kern_invD(7) [OF inv f] kern_invD(7) [OF inv] e
      by (simp add: nth [OF f] used_def)
  qed (use len nth kern_invD(3,4) [OF inv] e in \<open>simp_all add: env_run_fields split: if_splits\<close>)
qed

lemma kern_inv_fields:
  assumes "kern_inv cpu K k" "envs k' = envs k" "env_free_list k' = env_free_list k" "cpu_env k' = cpu_env k"
    "kern_pgdir k' = kern_pgdir k" "pages k' = pages k" "page_free_list k' = page_free_list k" "pmem k' = pmem k"
  shows "kern_inv cpu K k'"
  by (rule kern_inv_same [OF assms(1)]) (use assms kern_invD [OF assms(1)] in auto)

lemma count_run_inv: "kern_inv cpu K k \<Longrightarrow> kern_inv cpu K (count_run e k)"
  by (erule kern_inv_fields) (simp_all add: count_run_def Let_def)

lemma used_count [simp]: "used (count_run e k) = used k"
  by (intro ext) (simp add: used_def)

lemma run_counted_inv:
  assumes "kern_inv cpu K k" "used k e"
  shows "kern_inv cpu K (snd (run_counted cpu e k))" "fst (run_counted cpu e k) = Run e"
  using env_run_inv [OF count_run_inv [OF assms(1)], of e e] assms(2) by (simp_all add: run_counted_def)

lemma aging_inv:
  assumes inv: "kern_inv cpu K k"
  shows "kern_inv cpu K (aging k)" "used (aging k) = used k" "cpu_env (aging k) = cpu_env k"
proof -
  have len: "length (envs k) = NENV" by (rule kern_invD(5) [OF inv])
  have age: "env_id (age_env x) = env_id x" "env_pgdir (age_env x) = env_pgdir x" "env_link (age_env x) = env_link x"
    "env_status (age_env x) = env_status x" "env_ipc_dstva (age_env x) = env_ipc_dstva x" for x
    by (simp_all add: age_env_def)
  show "kern_inv cpu K (aging k)"
    by (rule kern_inv_same [OF inv]) (use len age kern_invD(3,4,7) [OF inv] in \<open>auto simp: aging_def Let_def split: if_splits\<close>)
  show "used (aging k) = used k" using len by (intro ext) (auto simp: used_def aging_def Let_def age)
  show "cpu_env (aging k) = cpu_env k" by (simp add: aging_def Let_def)
qed

lemma demote_inv:
  assumes inv: "kern_inv cpu K k" and e: "used k e"
  shows "kern_inv cpu K (demote mx e k)" "used (demote mx e k) = used k"
proof -
  have e': "e < NENV" using e by (simp add: used_def)
  show "kern_inv cpu K (demote mx e k)"
    using inv kern_inv_upd [OF inv e, of "\<lambda>x. x\<lparr>priority := mx - 1\<rparr>"] e kern_invD(7) [OF inv e'] by (simp add: demote_def used_def)
  show "used (demote mx e k) = used k"
    using used_upd [OF kern_invD(5) [OF inv] e, of "\<lambda>x. x\<lparr>priority := mx - 1\<rparr>"] e by (simp add: demote_def used_def)
qed

lemma choose_env_inv:
  assumes inv: "kern_inv cpu K k" and ch: "choose_env p s k = (r, k')"
  shows "kern_inv cpu K k'" "cpu_env k' = cpu_env k" "r = Some e \<Longrightarrow> used k' e" "used k' = used k"
proof -
  have run: "used k1 f" if "find (\<lambda>e. runnable k1 e \<and> Q e) (circular s) = Some f" for f k1 Q
    using find_circular [OF that] by (simp add: runnable_def used_def)
  have "kern_inv cpu K k' \<and> cpu_env k' = cpu_env k \<and> (r = Some e \<longrightarrow> used k' e) \<and> used k' = used k"
  proof (cases p)
    case SCHED_ROUND_ROBIN
    then show ?thesis using ch inv run [of k "\<lambda>_. True" e] by (auto simp: choose_env_def choose_rr_def)
  next
    case SCHED_PRIORITIES
    note a = aging_inv [OF inv]
    let ?mx = "max_prio s k"
    show ?thesis
    proof (cases "find (\<lambda>e. runnable (aging k) e \<and> priority (envs (aging k) ! e) = ?mx) (circular s)")
      case None
      then show ?thesis using ch a SCHED_PRIORITIES by (simp add: choose_env_def choose_prio_def Let_def)
    next
      case (Some f)
      note d = demote_inv [OF a(1) run [OF Some], of ?mx]
      show ?thesis
        using ch a d run [OF Some] Some SCHED_PRIORITIES by (auto simp: choose_env_def choose_prio_def Let_def demote_fields)
    qed
  qed
  then show "kern_inv cpu K k'" "cpu_env k' = cpu_env k" "r = Some e \<Longrightarrow> used k' e" "used k' = used k" by blast+
qed

lemma sched_halt_inv: "kern_inv cpu K k \<Longrightarrow> kern_inv cpu K (snd (sched_halt cpu k))"
proof -
  assume inv: "kern_inv cpu K k"
  have "kern_inv cpu K (k\<lparr>cpu_env := (cpu_env k)(cpu := None), cpu_halted := (cpu_halted k)(cpu := True)\<rparr>)"
    by (rule kern_inv_same [OF inv]) (use kern_invD [OF inv] in \<open>auto split: if_splits\<close>)
  then show ?thesis using inv by (simp add: sched_halt_def)
qed

lemma sched_yield_inv:
  assumes inv: "kern_inv cpu K k"
  shows "kern_inv cpu K (snd (sched_yield p cpu k))"
proof -
  let ?k = "k\<lparr>n_sched_calls := n_sched_calls k + 1\<rparr>"
  have i1: "kern_inv cpu K ?k" by (rule kern_inv_fields [OF inv]) simp_all
  obtain r k1 where ch: "choose_env p (start_index cpu ?k) ?k = (r, k1)" by fastforce
  note c = choose_env_inv [OF i1 ch]
  show ?thesis
  proof (cases r)
    case (Some e)
    then show ?thesis using ch run_counted_inv(1) [OF c(1) c(3)] by (simp add: sched_yield_def Let_def)
  next
    case None
    show ?thesis
    proof (cases "cpu_env k1 cpu")
      case None
      then show ?thesis using ch \<open>r = None\<close> sched_halt_inv [OF c(1)] by (simp add: sched_yield_def Let_def)
    next
      case (Some e)
      then show ?thesis
        using ch \<open>r = None\<close> sched_halt_inv [OF c(1)] run_counted_inv(1) [OF c(1) kern_invD(4) [OF c(1) Some]]
        by (simp add: sched_yield_def Let_def)
    qed
  qed
qed

lemma env_destroy_inv:
  assumes inv: "kern_inv cpu K k" and e: "used k e"
  shows "\<exists>r k'. env_destroy p cpu e k = Some (r, k') \<and> kern_inv cpu K k'"
proof (cases "env_status (envs k ! e) = ENV_RUNNING \<and> cpu_env k cpu \<noteq> Some e")
  case True
  have "kern_inv cpu K (upd_env e (\<lambda>x. x\<lparr>env_status := ENV_DYING\<rparr>) k)"
    by (rule kern_inv_upd [OF inv e]) (use kern_invD(7) [OF inv] e in \<open>simp_all add: used_def\<close>)
  then show ?thesis using True by (simp add: env_destroy_def)
next
  case False
  obtain k1 where k1: "env_free e k = Some k1" "kern_inv cpu K (k1\<lparr>cpu_env := (cpu_env k1)(cpu := None)\<rparr>)" "cpu_env k1 = cpu_env k"
    "cpu_env k cpu \<noteq> Some e \<longrightarrow> kern_inv cpu K k1" using env_free_inv [OF inv e] by blast
  then show ?thesis using False sched_yield_inv [OF k1(2), of p]
    by (cases "cpu_env k cpu = Some e") (auto simp: env_destroy_def split: prod.splits)
qed

end
