(* ===== verification/Kern_Usermem.thy ===== *)
theory Kern_Usermem
  imports Kern_Vm
begin

unbundle bit_operations_syntax

text \<open>
  What \<^verbatim>\<open>user_mem_check\<close> (\<^verbatim>\<open>src/TP Sched/kern/pmap.c\<close>) accepts: exactly the ranges below \<^verbatim>\<open>UTOP\<close> all of whose addresses are
  mapped with the permissions asked for.
\<close>

section \<open>Checking user memory\<close>

lemma unat_rounddown: "unat (ROUNDDOWN a 4096) = unat a div 4096 * 4096"
proof -
  have m: "unat (a mod 4096) = unat a mod 4096" by (simp add: unat_mod_distrib)
  then have "a mod 4096 \<le> a" by (simp add: word_le_nat_alt)
  then have "unat (a - a mod 4096) = unat a - unat a mod 4096" using m by (simp add: unat_sub)
  then show ?thesis by (simp add: ROUNDDOWN_def minus_mod_eq_div_mult)
qed

lemma unat_roundup:
  assumes "unat a + 4095 < 2 ^ 32"
  shows "unat (ROUNDUP a 4096) = (unat a + 4095) div 4096 * 4096"
proof -
  have "a + 4096 - 1 = a + 4095" by simp
  moreover have "unat (a + 4095) = unat a + 4095" using assms by (simp add: unat_word_ariths)
  ultimately show ?thesis unfolding ROUNDUP_def unat_rounddown by (simp only:)
qed

definition allows :: "32 word \<Rightarrow> 32 word \<Rightarrow> bool" where
  "allows perm w \<longleftrightarrow> w AND (perm OR PTE_P) = perm OR PTE_P"

lemma allows_zero: "\<not> allows perm 0"
  using entry_present [of perm] by (simp add: allows_def)

lemma entry_same_page: "PGNUM va = PGNUM va' \<Longrightarrow> entry m d va = entry m d va'"
  using same_page [of va va'] by (simp add: entry_def)

lemma PGNUM_page2pa: "n < 2 ^ 20 \<Longrightarrow> PGNUM (page2pa n) = n"
  using PGNUM_entry [of n 0] by simp

lemma user_mem_pages_spec:
  assumes inv: "mem_inv m D K xs ex" "d \<in> D"
  shows "hi \<le> UTOP \<Longrightarrow> unat a mod 4096 = 0 \<Longrightarrow> unat hi mod 4096 = 0 \<Longrightarrow>
    \<exists>r. user_mem_pages d a hi perm m = Some r \<and>
      (r = None \<longleftrightarrow> (\<forall>n. unat a div 4096 \<le> n \<and> n < unat hi div 4096 \<longrightarrow> allows perm (entry m d (page2pa n))))"
proof (induction "unat hi - unat a" arbitrary: a rule: less_induct)
  case less
  show ?case
  proof (cases "a < hi")
    case False
    then have "\<not> unat a div 4096 < unat hi div 4096" by (simp add: word_less_nat_alt div_le_mono not_less)
    then show ?thesis using False by (auto simp: user_mem_pages.simps [of d a hi])
  next
    case True
    have va: "a < UTOP" using True less.prems(1) by simp
    then have "unat a < 0xEEC00000" by (simp add: word_less_nat_alt)
    then have step: "unat (a + 4096) = unat a + 4096" by (simp add: unat_word_ariths)
    have ok: "(case (if pmem m d (PDX a) = 0 then None else Some (PGNUM (pmem m d (PDX a)), PTX a)) of
        None \<Rightarrow> False | Some (t, i) \<Rightarrow> pmem m t i AND (perm OR PTE_P) = (perm OR PTE_P)) \<longleftrightarrow> allows perm (entry m d a)"
      using allows_zero [of perm] by (simp add: entry_def allows_def)
    have unf: "user_mem_pages d a hi perm m =
        (if allows perm (entry m d a) then user_mem_pages d (a + 4096) hi perm m else Some (Some a))"
      using True less.prems(1) ok by (simp add: user_mem_pages.simps [of d a hi] pgdir_walk_False(1) [OF inv va])
    define n0 where "n0 = unat a div 4096"
    have n0: "n0 < 2 ^ 20" "n0 < unat hi div 4096"
    proof -
      have "unat a < 2 ^ LENGTH(32)" by (rule unsigned_less)
      then show "n0 < 2 ^ 20" by (simp add: n0_def less_mult_imp_div_less)
      have "unat a = n0 * 4096" "unat hi = unat hi div 4096 * 4096"
        using less.prems(2,3) div_mult_mod_eq [of "unat a" 4096] div_mult_mod_eq [of "unat hi" 4096] by (simp_all add: n0_def)
      moreover have "unat a < unat hi" using True by (simp add: word_less_nat_alt)
      ultimately show "n0 < unat hi div 4096" by (metis mult_less_cancel2)
    qed
    have "PGNUM a = n0" by (simp add: PGNUM_div n0_def)
    then have ea: "entry m d a = entry m d (page2pa n0)" using n0(1) by (intro entry_same_page) (simp add: PGNUM_page2pa)
    have next0: "unat (a + 4096) div 4096 = Suc n0" unfolding step n0_def by simp
    show ?thesis
    proof (cases "allows perm (entry m d a)")
      case False
      then show ?thesis using unf ea n0(2) unfolding n0_def [symmetric] by auto
    next
      case ok: True
      have "unat hi - unat (a + 4096) < unat hi - unat a" using True step by (simp add: word_less_nat_alt)
      moreover have "unat (a + 4096) mod 4096 = 0" using less.prems(2) step by simp
      ultimately obtain r where r: "user_mem_pages d (a + 4096) hi perm m = Some r"
        "r = None \<longleftrightarrow> (\<forall>n. Suc n0 \<le> n \<and> n < unat hi div 4096 \<longrightarrow> allows perm (entry m d (page2pa n)))"
        using less.hyps [of "a + 4096"] less.prems(1,3) next0 by auto
      have "(\<forall>n. n0 \<le> n \<and> n < unat hi div 4096 \<longrightarrow> allows perm (entry m d (page2pa n))) \<longleftrightarrow>
          (\<forall>n. Suc n0 \<le> n \<and> n < unat hi div 4096 \<longrightarrow> allows perm (entry m d (page2pa n)))"
        using ok ea by (metis Suc_leD le_neq_implies_less Suc_leI)
      then show ?thesis using unf ok r unfolding n0_def [symmetric] by auto
    qed
  qed
qed

text \<open>The addresses of a range, by pages.\<close>

lemma range_pages:
  assumes "0 < len" "va + len \<le> 0xEEC00000"
  shows "(\<forall>n. va div 4096 \<le> n \<and> n < (va + len + 4095) div 4096 \<longrightarrow> P n) \<longleftrightarrow>
    (\<forall>a. va \<le> a \<and> a < va + len \<longrightarrow> P (a div (4096 :: nat)))"
proof
  assume L: "\<forall>n. va div 4096 \<le> n \<and> n < (va + len + 4095) div 4096 \<longrightarrow> P n"
  show "\<forall>a. va \<le> a \<and> a < va + len \<longrightarrow> P (a div 4096)"
  proof (intro allI impI)
    fix a
    assume a: "va \<le> a \<and> a < va + len"
    have "a div 4096 < (va + len + 4095) div 4096"
    proof -
      have "(a + 4096) div 4096 \<le> (va + len + 4095) div 4096" using a by (intro div_le_mono) simp
      then show ?thesis by simp
    qed
    then show "P (a div 4096)" using L a by (simp add: div_le_mono)
  qed
next
  assume R: "\<forall>a. va \<le> a \<and> a < va + len \<longrightarrow> P (a div 4096)"
  show "\<forall>n. va div 4096 \<le> n \<and> n < (va + len + 4095) div 4096 \<longrightarrow> P n"
  proof (intro allI impI)
    fix n
    assume n: "va div 4096 \<le> n \<and> n < (va + len + 4095) div 4096"
    then have "Suc n * 4096 \<le> va + len + 4095" by (metis Suc_leI less_eq_div_iff_mult_less_eq zero_less_numeral)
    then have hi: "n * 4096 < va + len" by simp
    show "P n"
    proof (cases "n = va div 4096")
      case True
      then show ?thesis using R assms(1) by auto
    next
      case False
      then have "Suc (va div 4096) \<le> n" using n by simp
      then have "Suc (va div 4096) * 4096 \<le> n * 4096" by (intro mult_le_mono1)
      moreover have "va < Suc (va div 4096) * 4096" using dividend_less_div_times [of 4096 va] by simp
      ultimately have "va \<le> n * 4096" by simp
      then show ?thesis using R hi by (metis nonzero_mult_div_cancel_right zero_neq_numeral)
    qed
  qed
qed

lemma user_mem_check_spec:
  assumes inv: "mem_inv m D K xs ex" "d \<in> D" and len: "0 < len" and nowrap: "unat va + unat len + 4095 < 2 ^ 32"
  shows "\<exists>r addr. user_mem_check d va len perm m = Some (r, addr) \<and> (r = 0 \<or> r = - E_FAULT) \<and>
    (r = 0 \<longleftrightarrow> unat va + unat len \<le> unat UTOP \<and>
      (\<forall>a. unat va \<le> unat a \<and> unat a < unat va + unat len \<longrightarrow> allows perm (entry m d a)))"
proof -
  let ?hi = "ROUNDUP (va + len) 4096" and ?lo = "ROUNDDOWN va 4096"
  have sum: "unat (va + len) = unat va + unat len" using nowrap by (simp add: unat_word_ariths)
  have uhi: "unat ?hi = (unat va + unat len + 4095) div 4096 * 4096" using unat_roundup [of "va + len"] nowrap sum by simp
  have top: "?hi > UTOP \<longleftrightarrow> unat va + unat len > 0xEEC00000"
    unfolding word_less_nat_alt uhi by simp (use div_le_mono in \<open>auto\<close>)
  show ?thesis
  proof (cases "?hi > UTOP")
    case True
    then show ?thesis using top by (simp add: user_mem_check_def)
  next
    case False
    then have fits: "unat va + unat len \<le> 0xEEC00000" using top by simp
    have lo: "unat ?lo mod 4096 = 0" "unat ?lo div 4096 = unat va div 4096" by (simp_all add: unat_rounddown)
    have hi: "unat ?hi mod 4096 = 0" "unat ?hi div 4096 = (unat va + unat len + 4095) div 4096" by (simp_all add: uhi)
    obtain r where r: "user_mem_pages d ?lo ?hi perm m = Some r"
      "r = None \<longleftrightarrow> (\<forall>n. unat va div 4096 \<le> n \<and> n < (unat va + unat len + 4095) div 4096 \<longrightarrow>
         allows perm (entry m d (page2pa n)))"
      using user_mem_pages_spec [OF inv, of ?hi ?lo perm] False lo hi by (auto simp: not_less)
    have len0: "0 < unat len" using len by (simp add: word_less_nat_alt)
    have word: "(\<forall>a. unat va \<le> a \<and> a < unat va + unat len \<longrightarrow> allows perm (entry m d (page2pa (a div 4096)))) \<longleftrightarrow>
      (\<forall>a. unat va \<le> unat a \<and> unat a < unat va + unat len \<longrightarrow> allows perm (entry m d a))" (is "?L \<longleftrightarrow> ?R")
    proof -
      have e: "entry m d a = entry m d (page2pa (unat a div 4096))" for a
      proof -
        have "unat a < 2 ^ LENGTH(32)" by (rule unsigned_less)
        then have "unat a div 4096 < 2 ^ 20" by (simp add: less_mult_imp_div_less)
        then have "PGNUM (page2pa (unat a div 4096)) = unat a div 4096" by (rule PGNUM_page2pa)
        then show ?thesis by (intro entry_same_page) (simp only: PGNUM_div [of a])
      qed
      have u: "unat (of_nat a :: 32 word) = a" if "a < unat va + unat len" for a
        using that fits by (simp add: unat_of_nat)
      show ?thesis
      proof
        assume ?L
        then show ?R using e by metis
      next
        assume R: ?R
        show ?L
        proof (intro allI impI)
          fix a
          assume "unat va \<le> a \<and> a < unat va + unat len"
          then show "allows perm (entry m d (page2pa (a div 4096)))" using R u [of a] e [of "of_nat a"] by metis
        qed
      qed
    qed
    have "r = None \<longleftrightarrow> (\<forall>a. unat va \<le> unat a \<and> unat a < unat va + unat len \<longrightarrow> allows perm (entry m d a))"
      unfolding r(2) range_pages [OF len0 fits] word ..
    then show ?thesis using r(1) False fits by (auto simp: user_mem_check_def Let_def split: option.split)
  qed
qed

end
