(* ===== verification/Kern_Sys_Inv.thy ===== *)
theory Kern_Sys_Inv
  imports Kern_Inv Kern_Usermem
begin

unbundle bit_operations_syntax

text \<open>
  Every system call keeps the invariant of the kernel and never panics, provided the arguments that the code does
  not check are harmless: permissions without address bits, reference counts that have room, and a page at the
  source address of a message.
\<close>

section \<open>Memory operations on the kernel\<close>

definition kept :: "nat \<Rightarrow> nat set \<Rightarrow> ('a \<times> kernel) option \<Rightarrow> bool" where
  "kept cpu K s \<longleftrightarrow> (\<exists>r k'. s = Some (r, k') \<and> kern_inv cpu K k')"

lemma keptI [intro]: "s = Some (r, k') \<Longrightarrow> kern_inv cpu K k' \<Longrightarrow> kept cpu K s"
  by (auto simp: kept_def)

lemma kernel_pages_apart:
  assumes "mem_inv k D K xs ex" "q \<in> K"
  shows "q \<notin> D" "\<not> is_table k D q" "q \<notin> set xs"
  using mem_invD(4,6,7) [OF assms(1)] assms(2) by blast+

lemma page_insert_kept:
  assumes inv: "kern_inv cpu K k" "mem_inv k (dirs k) K xs (\<lambda>_. 0)" and d: "d \<in> dirs k" "va < UTOP"
    and pp: "pp < npages k" "pp \<notin> K" "pp \<notin> dirs k" "\<not> is_table k (dirs k) pp" "pp \<notin> set xs" "unat (pp_ref (pages k ! pp)) < 65535"
    and perm: "drop_bit 12 perm = 0"
  shows "\<exists>r k'. page_insert d pp va perm k = Some (r, k') \<and> kern_inv cpu K k' \<and> (r = 0 \<or> r = - E_NO_MEM) \<and>
    machine.more k' = machine.more k \<and> npages k' = npages k \<and>
    (\<forall>q < npages k. \<not> is_table k' (dirs k) q \<longrightarrow> unat (pp_ref (pages k' ! q)) \<le> unat (pp_ref (pages k ! q)) + 1) \<and>
    (\<forall>d' \<in> dirs k. \<forall>va' < UTOP. entry k d' va' \<noteq> 0 \<longrightarrow> entry k' d' va' \<noteq> 0)"
proof -
  obtain r k' ys where s: "page_insert d pp va perm k = Some (r, k')" "mem_inv k' (dirs k) K ys (\<lambda>_. 0)" "npages k' = npages k"
    "r = - E_NO_MEM \<and> xs = [] \<and> k' = k \<or> r = 0 \<and> entry k' d va = page2pa pp OR perm OR PTE_P \<and>
       (\<forall>d' \<in> dirs k. \<forall>va' < UTOP. d' \<noteq> d \<or> PGNUM va' \<noteq> PGNUM va \<longrightarrow> entry k' d' va' = entry k d' va')"
    "\<forall>q. q \<notin> dirs k \<and> \<not> is_table k (dirs k) q \<and> q \<notin> set xs \<longrightarrow> pmem k' q = pmem k q"
    "\<forall>q < npages k. \<not> is_table k' (dirs k) q \<longrightarrow> unat (pp_ref (pages k' ! q)) \<le> unat (pp_ref (pages k ! q)) + 1"
    using page_insert_spec [OF inv(2) d pp perm] by blast
  have more: "machine.more k' = machine.more k" by (rule more_page_insert [OF s(1)])
  have "kern_inv cpu K k'"
    by (rule kern_inv_mem [OF inv(1) s(2) more]) (use s(5) kernel_pages_apart [OF inv(2)] in blast)
  moreover have "entry k' d' va' \<noteq> 0" if "d' \<in> dirs k" "va' < UTOP" "entry k d' va' \<noteq> 0" for d' va'
  proof (cases "d' = d \<and> PGNUM va' = PGNUM va")
    case True
    then have e: "entry k' d' va' = entry k' d va" using entry_same_page by blast
    then show ?thesis using s(4) that(3) entry_present [of "page2pa pp OR perm"] by (auto simp: or.assoc)
  next
    case False
    then show ?thesis using s(4) that by (metis)
  qed
  ultimately show ?thesis using s more by blast
qed

lemma page_remove_kept:
  assumes inv: "kern_inv cpu K k" and d: "d \<in> dirs k" "va < UTOP"
  shows "\<exists>k'. page_remove d va k = Some k' \<and> kern_inv cpu K k'"
proof -
  obtain fs xs where fx: "envs_inv k fs" "mem_inv k (dirs k) K xs (\<lambda>_. 0)" using inv by (rule kern_invE)
  obtain k' ys where s: "page_remove d va k = Some k'" "mem_inv k' (dirs k) K ys (\<lambda>_. 0)"
    "pmem k' = (if entry k d va = 0 then pmem k else pmem (put_word (PGNUM (pmem k d (PDX va))) (PTX va) 0 k))"
    using page_remove_spec [OF fx(2) d] by blast
  have "pmem k' q = pmem k q" if q: "q \<in> K" for q
  proof (cases "entry k d va = 0")
    case False
    then have "is_table k (dirs k) (PGNUM (pmem k d (PDX va)))"
      using entry_refers(1) [OF fx(2) d] by simp
    then have "q \<noteq> PGNUM (pmem k d (PDX va))" using kernel_pages_apart(2) [OF fx(2) q] by blast
    then show ?thesis using s(3) False by (intro ext) simp
  qed (use s(3) in simp)
  then show ?thesis using s(1) kern_inv_mem [OF inv s(2) more_page_remove [OF s(1)]] by blast
qed

lemma syscall_perm:
  assumes "perm AND NOT PTE_SYSCALL = (0 :: 32 word)"
  shows "drop_bit 12 perm = 0"
proof -
  have "w = (w AND a) OR (w AND NOT a)" for w a :: "32 word" by (intro bit_eqI) (auto simp: bit_and_iff bit_or_iff bit_not_iff)
  from this [of perm PTE_SYSCALL] have "perm = perm AND PTE_SYSCALL" using assms by simp
  then have "drop_bit 12 perm = drop_bit 12 perm AND drop_bit 12 PTE_SYSCALL" by (metis drop_bit_and)
  then show ?thesis by (simp add: drop_bit_eq_div)
qed

lemma dirs_more: "machine.more k' = machine.more k \<Longrightarrow> dirs k' = dirs k" "machine.more k' = machine.more k \<Longrightarrow> used k' = used k"
  using more_kernel(1) [of k' k] by (auto simp: dirs_def used_def)

lemma page_alloc_kept:
  assumes inv: "kern_inv cpu K k" "mem_inv k (dirs k) K xs (\<lambda>_. 0)" and al: "page_alloc z k = (Some p, k')"
  shows "kern_inv cpu K k'" "\<exists>ys. xs = p # ys \<and> mem_inv k' (dirs k) K ys (\<lambda>_. 0) \<and> p \<notin> set ys"
    "p < npages k" "p \<notin> K" "p \<notin> dirs k" "\<not> is_table k' (dirs k) p" "pp_ref (pages k' ! p) = 0"
    "npages k' = npages k" "\<And>q. q < npages k \<Longrightarrow> pp_ref (pages k' ! q) = pp_ref (pages k ! q)"
    "\<And>d va. d \<in> dirs k \<Longrightarrow> va < UTOP \<Longrightarrow> entry k' d va = entry k d va"
proof -
  obtain ys where ys: "xs = p # ys" "mem_inv k' (dirs k) K ys (\<lambda>_. 0)" "npages k' = npages k" "p \<notin> set ys"
    "\<forall>q < npages k. pp_ref (pages k' ! q) = pp_ref (pages k ! q)" "\<forall>q j. pmem k' q j = (if q = p \<and> z then 0 else pmem k q j)"
    using page_alloc_inv [OF inv(2), of z] al by auto
  have free: "sites k (dirs k) p = {}" "p \<notin> dirs k" "\<not> is_table k (dirs k) p" "p < npages k" "p \<notin> K"
    using free_page [OF inv(2), of p] ys(1) by simp_all
  have same: "is_table k' (dirs k) = is_table k (dirs k)"
    using ys(6) free(2,3) by (intro same_memory(1)) auto
  show "kern_inv cpu K k'"
    by (rule kern_inv_mem [OF inv(1) ys(2) more_page_alloc [OF al]]) (use ys(6) free(5) in \<open>auto intro!: ext\<close>)
  show "\<exists>ys. xs = p # ys \<and> mem_inv k' (dirs k) K ys (\<lambda>_. 0) \<and> p \<notin> set ys" using ys by blast
  show "p < npages k" "p \<notin> K" "p \<notin> dirs k" "npages k' = npages k" using free ys(3) by blast+
  show "\<not> is_table k' (dirs k) p" using free(3) same by simp
  show "pp_ref (pages k' ! p) = 0" using ys(5) free(4) mem_invD(11) [OF inv(2), of p] ys(1) by simp
  show "pp_ref (pages k' ! q) = pp_ref (pages k ! q)" if "q < npages k" for q using that ys(5) by blast
  show "entry k' d va = entry k d va" if "d \<in> dirs k" "va < UTOP" for d va
  proof -
    have dir: "pmem k' d (PDX va) = pmem k d (PDX va)" using ys(6) free(2) that(1) by auto
    have "PGNUM (pmem k d (PDX va)) \<noteq> p" if "pmem k d (PDX va) \<noteq> 0"
      using pgdir_walk_False(2) [OF inv(2) \<open>d \<in> dirs k\<close> \<open>va < UTOP\<close> that] free(3) by blast
    then show ?thesis using ys(6) unfolding entry_def dir by auto
  qed
qed

lemma env_page_alloc_kept:
  assumes inv: "kern_inv cpu K k" and e: "used k e" "va < UTOP"
  shows "\<exists>r k'. env_page_alloc e va perm k = Some (r, k') \<and> kern_inv cpu K k' \<and> machine.more k' = machine.more k \<and>
    npages k' = npages k \<and>
    (\<forall>q < npages k. \<not> is_table k' (dirs k) q \<longrightarrow> unat (pp_ref (pages k' ! q)) \<le> unat (pp_ref (pages k ! q)) + 1) \<and>
    (\<forall>d' \<in> dirs k. \<forall>va' < UTOP. entry k d' va' \<noteq> 0 \<longrightarrow> entry k' d' va' \<noteq> 0) \<and>
    (0 \<le> r \<longrightarrow> drop_bit 12 perm = 0)"
proof (cases "check_perm perm None < 0")
  case True
  then show ?thesis using inv by (auto simp: env_page_alloc_def Let_def)
next
  case False
  then have perm: "drop_bit 12 perm = 0" using syscall_perm by (auto simp: check_perm_def split: if_splits)
  obtain fs xs where fx: "envs_inv k fs" "mem_inv k (dirs k) K xs (\<lambda>_. 0)" using inv by (rule kern_invE)
  obtain d where d: "env_pgdir (envs k ! e) = Some d" "d \<in> dirs k" using kern_invD(9) [OF inv e(1)] by blast
  obtain r k1 where al: "page_alloc True k = (r, k1)" by fastforce
  show ?thesis
  proof (cases r)
    case None
    then have "k1 = k" using page_alloc_inv [OF fx(2), of True] al by simp
    then show ?thesis using False al None inv perm by (auto simp: env_page_alloc_def Let_def)
  next
    case (Some p)
    note a = page_alloc_kept [OF inv fx(2) al [unfolded Some]]
    note more = more_page_alloc [OF al]
    have dk: "dirs k1 = dirs k" "envs k1 = envs k" using dirs_more(1) [OF more] more_kernel(1) [OF more] by simp_all
    obtain ys where ys: "mem_inv k1 (dirs k) K ys (\<lambda>_. 0)" "p \<notin> set ys" using a(2) by blast
    obtain r' k2 where ins: "page_insert d p va perm k1 = Some (r', k2)" "kern_inv cpu K k2" "machine.more k2 = machine.more k1"
      "npages k2 = npages k1"
      "\<forall>q < npages k1. \<not> is_table k2 (dirs k1) q \<longrightarrow> unat (pp_ref (pages k2 ! q)) \<le> unat (pp_ref (pages k1 ! q)) + 1"
      "\<forall>d' \<in> dirs k1. \<forall>va' < UTOP. entry k1 d' va' \<noteq> 0 \<longrightarrow> entry k2 d' va' \<noteq> 0"
      using page_insert_kept [OF a(1), of ys d va p perm] ys d(2) e(2) a perm unfolding dk(1) by auto
    have "env_page_alloc e va perm k = Some (r', k2)"
      using False al Some d(1) dk(2) ins(1) by (simp add: env_page_alloc_def Let_def)
    then show ?thesis using ins more a(8,9,10) perm unfolding dk(1) by auto
  qed
qed

text \<open>Mapping a page of one environment in another, with permissions that carry no address bits.\<close>

lemma env_page_map_kept:
  assumes inv: "kern_inv cpu K k" and s: "used k src" "srcva < UTOP" and d: "used k dst" "dstva < UTOP"
    and perm: "drop_bit 12 perm = 0"
    and room: "\<And>p. p < npages k \<Longrightarrow> \<not> is_table k (dirs k) p \<Longrightarrow> unat (pp_ref (pages k ! p)) < 65535"
  shows "\<exists>r k'. env_page_map src srcva dst dstva perm k = Some (r, k') \<and> kern_inv cpu K k' \<and> machine.more k' = machine.more k"
proof -
  obtain fs xs where fx: "envs_inv k fs" "mem_inv k (dirs k) K xs (\<lambda>_. 0)" using inv by (rule kern_invE)
  obtain a b where ab: "env_pgdir (envs k ! src) = Some a" "a \<in> dirs k" "env_pgdir (envs k ! dst) = Some b" "b \<in> dirs k"
    using kern_invD(9) [OF inv] s(1) d(1) by blast
  have look: "page_lookup a srcva k = Some (if entry k a srcva = 0 then None
      else Some (PGNUM (entry k a srcva), PGNUM (pmem k a (PDX srcva)), PTX srcva))"
    by (rule page_lookup_entry [OF fx(2) ab(2) s(2)])
  show ?thesis
  proof (cases "entry k a srcva = 0")
    case True
    then show ?thesis using look ab(1) inv by (simp add: env_page_map_def)
  next
    case False
    let ?p = "PGNUM (entry k a srcva)"
    note ref = entry_refers(1) [OF fx(2) ab(2) s(2) False]
    have p: "?p < npages k" "?p \<notin> K" "?p \<notin> dirs k" "\<not> is_table k (dirs k) ?p" using mem_invD(9) [OF fx(2) ref] by simp_all
    have "?p \<notin> set xs" using free_page(1) [OF fx(2), of ?p] ref unfolding sites_def by blast
    then obtain r k' where "page_insert b ?p dstva perm k = Some (r, k')" "kern_inv cpu K k'" "machine.more k' = machine.more k"
      using page_insert_kept [OF inv fx(2) ab(4) d(2) p(1,2,3,4) _ _ perm] room p by blast
    then show ?thesis using look False ab(1,3) inv by (simp add: env_page_map_def)
  qed
qed

section \<open>System calls\<close>

lemma kern_inv_tweak:
  assumes "kern_inv cpu K k" and "\<And>x. env_id (f x) = env_id x" "\<And>x. env_pgdir (f x) = env_pgdir x"
    "\<And>x. env_link (f x) = env_link x" "\<And>x. env_status (f x) = env_status x" "\<And>x. env_ipc_dstva (f x) = env_ipc_dstva x"
  shows "kern_inv cpu K (upd_env e f k)"
proof -
  have len: "length (envs k) = NENV" by (rule kern_invD(5) [OF assms(1)])
  show ?thesis by (rule kern_inv_same [OF assms(1)]) (use assms(2-) len kern_invD(3,4,7) [OF assms(1)] in auto)
qed

lemma user_mem_check_total:
  assumes inv: "mem_inv k D K xs ex" "d \<in> D"
  shows "\<exists>r. user_mem_check d va len perm k = Some r"
proof (cases "ROUNDUP (va + len) 4096 > UTOP")
  case False
  have "unat (ROUNDDOWN w 4096) mod 4096 = 0" for w by (simp add: unat_rounddown)
  then obtain r where "user_mem_pages d (ROUNDDOWN va 4096) (ROUNDUP (va + len) 4096) perm k = Some r"
    using user_mem_pages_spec [OF inv, of "ROUNDUP (va + len) 4096" "ROUNDDOWN va 4096" perm] False
    by (auto simp: ROUNDUP_def not_less)
  then show ?thesis using False by (auto simp: user_mem_check_def Let_def split: option.split)
qed (simp add: user_mem_check_def)

lemma user_mem_assert_kept:
  assumes inv: "kern_inv cpu K k" and e: "used k e"
  shows "kept cpu K (user_mem_assert p cpu e va len perm k)"
proof -
  obtain fs xs where fx: "envs_inv k fs" "mem_inv k (dirs k) K xs (\<lambda>_. 0)" using inv by (rule kern_invE)
  obtain d where d: "env_pgdir (envs k ! e) = Some d" "d \<in> dirs k" using kern_invD(9) [OF inv e] by blast
  obtain r a where "user_mem_check d va len (perm OR PTE_U) k = Some (r, a)" using user_mem_check_total [OF fx(2) d(2)] by fastforce
  then show ?thesis using d(1) inv env_destroy_inv [OF inv e, of p] by (auto simp: user_mem_assert_def kept_def)
qed

lemma with_env_kept:
  assumes inv: "kern_inv cpu K k" and cur: "cpu_env k cpu = Some c" and f: "\<And>e. used k e \<Longrightarrow> kept cpu K (f e)"
  shows "kept cpu K (with_env cpu envid chk k f)"
proof -
  have "used k c" by (rule kern_invD(4) [OF inv cur])
  then show ?thesis using inv cur f ENVX_less
    by (auto simp: with_env_def envid2env_def Let_def used_def kept_def)
qed

lemma sys_cputs_kept:
  assumes inv: "kern_inv cpu K k" and cur: "cpu_env k cpu = Some c"
  shows "kept cpu K (sys_cputs p cpu s len k)"
proof -
  obtain r k' where u: "user_mem_assert p cpu c s len (PTE_P OR PTE_W OR PTE_U) k = Some (r, k')" "kern_inv cpu K k'"
    using user_mem_assert_kept [OF inv kern_invD(4) [OF inv cur]] unfolding kept_def by blast
  have "kern_inv cpu K (k'\<lparr>cons_out := cons_out k' @ [(s, len)]\<rparr>)" by (rule kern_inv_fields [OF u(2)]) simp_all
  then show ?thesis using cur u by (cases r) (auto simp: sys_cputs_def)
qed

lemma sys_exofork_kept:
  assumes inv: "kern_inv cpu K k" and cur: "cpu_env k cpu = Some c"
  shows "kept cpu K (sys_exofork cpu k)"
proof -
  obtain r eo k1 where al: "env_alloc (env_id (envs k ! c)) k = (r, eo, k1)" "kern_inv cpu K k1"
    "if r = 0 then \<exists>e. eo = Some e \<and> used k1 e else r < 0" using env_alloc_inv [OF inv] by (metis (full_types))
  show ?thesis
  proof (cases "r = 0")
    case True
    then obtain e where e: "eo = Some e" "used k1 e" using al(3) by auto
    define g where "g = (\<lambda>x :: environment. x\<lparr>env_status := ENV_NOT_RUNNABLE, env_tf := (env_tf (envs k1 ! c))\<lparr>tf_regs :=
      (tf_regs (env_tf (envs k1 ! c)))\<lparr>reg_eax := 0\<rparr>\<rparr>, priority := priority (envs k1 ! c)\<rparr>)"
    have "kern_inv cpu K (upd_env e g k1)"
      by (rule kern_inv_upd [OF al(2) e(2)]) (use kern_invD(7) [OF al(2)] e(2) in \<open>simp_all add: g_def used_def\<close>)
    then show ?thesis using cur al(1) True e(1) by (auto simp: sys_exofork_def Let_def g_def)
  next
    case False
    then show ?thesis using cur al by (auto simp: sys_exofork_def)
  qed
qed

lemma sys_env_set_status_kept:
  assumes inv: "kern_inv cpu K k" and cur: "cpu_env k cpu = Some c"
  shows "kept cpu K (sys_env_set_status cpu envid st k)"
proof (cases "settable_status st")
  case None
  then show ?thesis using inv by (auto simp: sys_env_set_status_def)
next
  case (Some t)
  then have t: "t \<noteq> ENV_FREE" by (auto simp: settable_status_def split: if_splits)
  have "kept cpu K (Some (Ret 0, upd_env e (\<lambda>x. x\<lparr>env_status := t\<rparr>) k))" if e: "used k e" for e
  proof (intro keptI [OF refl] kern_inv_upd [OF inv e])
    show "env_ipc_dstva ((envs k ! e)\<lparr>env_status := t\<rparr>) < UTOP" using kern_invD(7) [OF inv] e by (simp add: used_def)
  qed (use t in simp_all)
  then show ?thesis using with_env_kept [OF inv cur] Some by (simp add: sys_env_set_status_def)
qed

lemma sys_env_set_pgfault_upcall_kept:
  assumes inv: "kern_inv cpu K k" and cur: "cpu_env k cpu = Some c"
  shows "kept cpu K (sys_env_set_pgfault_upcall p cpu envid func k)"
  unfolding sys_env_set_pgfault_upcall_def
proof (rule with_env_kept [OF inv cur], goal_cases)
  case (1 e)
  obtain r k' where u: "user_mem_assert p cpu e func PGSIZE (PTE_P OR PTE_U) k = Some (r, k')" "kern_inv cpu K k'"
    using user_mem_assert_kept [OF inv 1] unfolding kept_def by blast
  have "kern_inv cpu K (upd_env e (\<lambda>x. x\<lparr>env_pgfault_upcall := func\<rparr>) k')" by (rule kern_inv_tweak [OF u(2)]) simp_all
  then show ?case using u by (cases r) auto
qed

lemma sys_setpriority_kept:
  assumes inv: "kern_inv cpu K k" and cur: "cpu_env k cpu = Some c"
  shows "kept cpu K (sys_setpriority cpu envid prio k)"
  unfolding sys_setpriority_def
proof (rule with_env_kept [OF inv cur], goal_cases)
  case (1 e)
  have "kern_inv cpu K (upd_env e (\<lambda>x. x\<lparr>priority := prio\<rparr>) k)" by (rule kern_inv_tweak [OF inv]) simp_all
  then show ?case using cur inv by auto
qed

lemma not_bad_va: "\<not> bad_va va \<Longrightarrow> va < UTOP"
  by (simp add: bad_va_def not_le)

lemma sys_page_alloc_kept:
  assumes inv: "kern_inv cpu K k" and cur: "cpu_env k cpu = Some c"
  shows "kept cpu K (sys_page_alloc cpu envid va perm k)"
proof (cases "bad_va va")
  case False
  have "kept cpu K (do { (r, k) \<leftarrow> env_page_alloc e va (perm OR PTE_U OR PTE_P) k; Some (Ret r, k) })" if "used k e" for e
    using env_page_alloc_kept [OF inv that not_bad_va [OF False], of "perm OR PTE_U OR PTE_P"] by (auto simp: kept_def)
  then show ?thesis using with_env_kept [OF inv cur] False by (simp add: sys_page_alloc_def)
qed (use inv in \<open>auto simp: sys_page_alloc_def\<close>)

lemma sys_page_unmap_kept:
  assumes inv: "kern_inv cpu K k" and cur: "cpu_env k cpu = Some c"
  shows "kept cpu K (sys_page_unmap cpu envid va k)"
proof (cases "bad_va va")
  case False
  have "kept cpu K (do { pgdir \<leftarrow> env_pgdir (envs k ! e); k \<leftarrow> page_remove pgdir va k; Some (Ret 0, k) })" if e: "used k e" for e
  proof -
    obtain d where d: "env_pgdir (envs k ! e) = Some d" "d \<in> dirs k" using kern_invD(9) [OF inv e] by blast
    then show ?thesis using page_remove_kept [OF inv d(2) not_bad_va [OF False]] by (auto simp: kept_def)
  qed
  then show ?thesis using with_env_kept [OF inv cur] False by (simp add: sys_page_unmap_def)
qed (use inv in \<open>auto simp: sys_page_unmap_def\<close>)

lemma user_perm:
  assumes "drop_bit 12 perm = (0 :: 32 word)"
  shows "drop_bit 12 (PTE_P OR PTE_U OR perm) = 0"
  using assms unfolding drop_bit_or by (simp add: drop_bit_eq_div)

lemma sys_page_map_kept:
  assumes inv: "kern_inv cpu K k" and cur: "cpu_env k cpu = Some c" and perm: "drop_bit 12 perm = 0"
    and room: "\<And>p. p < npages k \<Longrightarrow> unat (pp_ref (pages k ! p)) < 65535"
  shows "kept cpu K (sys_page_map cpu srcid srcva dstid dstva perm k)"
proof (cases "bad_va srcva \<or> bad_va dstva")
  case False
  have "kept cpu K (do { (r, k) \<leftarrow> env_page_map s srcva d dstva (PTE_P OR PTE_U OR perm) k; Some (Ret r, k) })"
    if "used k s" "used k d" for s d
    using env_page_map_kept [OF inv that(1) _ that(2) _ user_perm [OF perm] room] not_bad_va False by (fastforce simp: kept_def)
  then have "kept cpu K (with_env cpu dstid True k (\<lambda>dst. do {
        (r, k) \<leftarrow> env_page_map s srcva dst dstva (PTE_P OR PTE_U OR perm) k; Some (Ret r, k) }))" if "used k s" for s
    by (intro with_env_kept [OF inv cur]) (use that in blast)
  then show ?thesis using with_env_kept [OF inv cur] False by (simp add: sys_page_map_def)
qed (use inv in \<open>auto simp: sys_page_map_def\<close>)

lemma ipc_deliver_kept:
  assumes inv: "kern_inv cpu K k" and d: "used k d"
  shows "kern_inv cpu K (ipc_deliver c d value k)"
  unfolding ipc_deliver_def
  by (rule kern_inv_upd [OF inv d]) (use kern_invD(7) [OF inv] d in \<open>simp_all add: used_def\<close>)

lemma ipc_page_kept:
  assumes inv: "kern_inv cpu K k" and c: "used k c" "srcva < UTOP" and d: "used k d"
    and room: "\<And>p. p < npages k \<Longrightarrow> unat (pp_ref (pages k ! p)) < 65534"
    and eq: "dstva = env_ipc_dstva (envs k ! d)"
  shows "kept cpu K (do {
     (r, k) \<leftarrow> env_page_alloc d (env_ipc_dstva (envs k ! d)) perm k;
     if r < 0 then Some (Ret r, k)
     else do {
       (r, k) \<leftarrow> env_page_map c srcva d dstva perm k;
       if r < 0 then Some (Ret r, k)
       else Some (Ret 0, ipc_deliver c d value (upd_env d (\<lambda>x. x\<lparr>env_ipc_perm := perm\<rparr>) k))
     }
   })"
proof -
  let ?va = "env_ipc_dstva (envs k ! d)"
  have va: "?va < UTOP" using kern_invD(7) [OF inv] d by (simp add: used_def)
  obtain r k1 where a: "env_page_alloc d ?va perm k = Some (r, k1)" "kern_inv cpu K k1" "machine.more k1 = machine.more k"
    "npages k1 = npages k"
    "\<forall>q < npages k. \<not> is_table k1 (dirs k) q \<longrightarrow> unat (pp_ref (pages k1 ! q)) \<le> unat (pp_ref (pages k ! q)) + 1"
    "0 \<le> r \<longrightarrow> drop_bit 12 perm = 0"
    using env_page_alloc_kept [OF inv d va, of perm] by blast
  show ?thesis
  proof (cases "r < 0")
    case True
    then show ?thesis using a(1,2) by (auto simp: kept_def)
  next
    case False
    have u: "used k1 c" "used k1 d" using dirs_more(2) [OF a(3)] c(1) d by simp_all
    have "unat (pp_ref (pages k1 ! p)) < 65535" if p: "p < npages k1" "\<not> is_table k1 (dirs k1) p" for p
    proof -
      have "unat (pp_ref (pages k1 ! p)) \<le> unat (pp_ref (pages k ! p)) + 1" using a(4,5) p dirs_more(1) [OF a(3)] by simp
      then show ?thesis using room [of p] p(1) a(4) by simp
    qed
    then obtain r' k2 where m: "env_page_map c srcva d ?va perm k1 = Some (r', k2)" "kern_inv cpu K k2" "machine.more k2 = machine.more k1"
      using env_page_map_kept [OF a(2) u(1) c(2) u(2) va _] a(6) False by (metis not_less)
    let ?k3 = "upd_env d (\<lambda>x. x\<lparr>env_ipc_perm := perm\<rparr>) k2"
    have "used k2 d" using dirs_more(2) [OF m(3)] u(2) by simp
    then have "used ?k3 d" using used_upd [OF kern_invD(5) [OF m(2)], of d] by (simp add: used_def)
    moreover have "kern_inv cpu K ?k3" by (rule kern_inv_tweak [OF m(2)]) simp_all
    ultimately have "kern_inv cpu K (ipc_deliver c d value ?k3)" using ipc_deliver_kept by blast
    then show ?thesis using a(1) m(1,2) False eq by (auto simp: kept_def)
  qed
qed

lemma sys_ipc_try_send_kept:
  assumes inv: "kern_inv cpu K k" and cur: "cpu_env k cpu = Some c"
    and src: "\<And>d. srcva < UTOP \<Longrightarrow> env_pgdir (envs k ! c) = Some d \<Longrightarrow> entry k d srcva \<noteq> 0"
    and room: "\<And>p. p < npages k \<Longrightarrow> unat (pp_ref (pages k ! p)) < 65534"
  shows "kept cpu K (sys_ipc_try_send cpu envid value srcva perm k)"
  unfolding sys_ipc_try_send_def
proof (rule with_env_kept [OF inv cur], goal_cases)
  case (1 d)
  note c = kern_invD(4) [OF inv cur]
  obtain fs xs where fx: "envs_inv k fs" "mem_inv k (dirs k) K xs (\<lambda>_. 0)" using inv by (rule kern_invE)
  obtain a where a: "env_pgdir (envs k ! c) = Some a" "a \<in> dirs k" using kern_invD(9) [OF inv c] by blast
  have zero: "kern_inv cpu K (ipc_deliver c d value (upd_env d (\<lambda>x. x\<lparr>env_ipc_perm := 0\<rparr>) k))"
  proof (rule ipc_deliver_kept)
    show "kern_inv cpu K (upd_env d (\<lambda>x. x\<lparr>env_ipc_perm := 0\<rparr>) k)" by (rule kern_inv_tweak [OF inv]) simp_all
    show "used (upd_env d (\<lambda>x. x\<lparr>env_ipc_perm := 0\<rparr>) k) d" using used_upd [OF kern_invD(5) [OF inv] 1] 1 by (simp add: used_def)
  qed
  show ?case
  proof (cases "srcva < UTOP")
    case True
    then have look: "page_lookup a srcva k = Some (Some (PGNUM (entry k a srcva), PGNUM (pmem k a (PDX srcva)), PTX srcva))"
      using page_lookup_entry [OF fx(2) a(2) True] src [OF True a(1)] by simp
    note page = ipc_page_kept [OF inv c True 1 room refl, of "perm OR 5" "value"]
    show ?thesis using True cur a(1) look page ipc_deliver_kept [OF inv 1, of c "value"] inv
      by (simp add: Let_def keptI [OF refl])
  next
    case False
    then show ?thesis using cur zero inv by (auto simp: not_less)
  qed
qed

lemma sys_ipc_recv_kept:
  assumes inv: "kern_inv cpu K k" and cur: "cpu_env k cpu = Some c"
  shows "kept cpu K (sys_ipc_recv p cpu dstva k)"
proof -
  note c = kern_invD(4) [OF inv cur]
  let ?k = "upd_env c (\<lambda>x. x\<lparr>env_ipc_recving := True\<rparr>) k"
  let ?k2 = "upd_env c (\<lambda>x. x\<lparr>env_ipc_dstva := dstva, env_status := ENV_NOT_RUNNABLE\<rparr>) ?k"
  have i1: "kern_inv cpu K ?k" by (rule kern_inv_tweak [OF inv]) simp_all
  have "used ?k c" using used_upd [OF kern_invD(5) [OF inv] c] c by (simp add: used_def)
  then have i2: "kern_inv cpu K ?k2" if "\<not> bad_va dstva"
    by (rule kern_inv_upd [OF i1]) (use not_bad_va [OF that] in simp_all)
  show ?thesis
  proof (cases "bad_va dstva")
    case True
    then show ?thesis using cur i1 by (auto simp: sys_ipc_recv_def Let_def)
  next
    case False
    then show ?thesis using cur sched_yield_inv [OF i2 [OF False], of p]
      by (auto simp: sys_ipc_recv_def Let_def sys_yield_def kept_def split: prod.splits)
  qed
qed

lemma syscall_kept:
  assumes inv: "kern_inv cpu K k" and cur: "cpu_env k cpu = Some c"
    and room: "\<And>p. p < npages k \<Longrightarrow> unat (pp_ref (pages k ! p)) < 65534"
    and map: "no = 6 \<Longrightarrow> drop_bit 12 a5 = 0"
    and send: "\<And>d. no = 12 \<Longrightarrow> a3 < UTOP \<Longrightarrow> env_pgdir (envs k ! c) = Some d \<Longrightarrow> entry k d a3 \<noteq> 0"
  shows "kept cpu K (syscall p cpu getc no a1 a2 a3 a4 a5 k)"
proof -
  have simple: "kept cpu K (sys_cgetc getc k)" "kept cpu K (sys_getenvid cpu k)" "kept cpu K (Some (Ret (- E_INVAL), k))"
    using inv cur by (auto simp: sys_cgetc_def sys_getenvid_def)
  have prio: "kept cpu K (sys_getpriority cpu a1 k)"
    unfolding sys_getpriority_def by (rule with_env_kept [OF inv cur]) (use inv in auto)
  have destroy: "kept cpu K (sys_env_destroy p cpu a1 k)"
    unfolding sys_env_destroy_def
  proof (rule with_env_kept [OF inv cur], goal_cases)
    case (1 e)
    then show ?case using env_destroy_inv [OF inv 1, of p] by (auto simp: kept_def)
  qed
  have yld: "kept cpu K (sys_yield p cpu k)"
    using sched_yield_inv [OF inv, of p] by (auto simp: sys_yield_def kept_def split: prod.splits)
  have map6: "kept cpu K (sys_page_map cpu a1 a2 a3 a4 a5 k)" if "no = 6"
    by (rule sys_page_map_kept [OF inv cur map [OF that]]) (use room in fastforce)
  have send12: "kept cpu K (sys_ipc_try_send cpu a1 a2 a3 a4 k)" if "no = 12"
    by (rule sys_ipc_try_send_kept [OF inv cur send [OF that]]) (use room in blast)+
  show ?thesis
    unfolding syscall_def
    using simple prio destroy yld map6 send12 sys_cputs_kept [OF inv cur] sys_exofork_kept [OF inv cur]
      sys_env_set_status_kept [OF inv cur] sys_env_set_pgfault_upcall_kept [OF inv cur] sys_setpriority_kept [OF inv cur]
      sys_page_alloc_kept [OF inv cur] sys_page_unmap_kept [OF inv cur] sys_ipc_recv_kept [OF inv cur]
    by simp
qed

end
