(* ===== verification/Kern_Theorems.thy ===== *)
theory Kern_Theorems
  imports Kern_Sys_Inv
begin

unbundle bit_operations_syntax

text \<open>
  The properties of the kernel: page tables and reference counts, the check of user addresses, environment
  identifiers, and the two schedulers.
\<close>

section \<open>A machine with one address space\<close>

text \<open>
  Five pages: 0 belongs to the kernel, 1 is the directory of an environment, 2 and 3 are free, and 4 has been
  allocated but is not mapped yet.
\<close>

definition small_machine :: machine where
  "small_machine = \<lparr>pages = [\<lparr>pp_link = None, pp_ref = 0\<rparr>, \<lparr>pp_link = None, pp_ref = 1\<rparr>, \<lparr>pp_link = Some 3, pp_ref = 0\<rparr>,
       \<lparr>pp_link = None, pp_ref = 0\<rparr>, \<lparr>pp_link = None, pp_ref = 0\<rparr>],
     page_free_list = Some 2, pmem = (\<lambda>_ _. 0)\<rparr>"

lemma blank_tables: "(\<And>d i. d \<in> D \<Longrightarrow> pmem m d i = 0) \<Longrightarrow> \<not> is_table m D t"
  by (simp add: is_table_def)

lemma blank_sites:
  assumes "\<And>d i. d \<in> D \<Longrightarrow> pmem m d i = 0"
  shows "sites m D p = (if p \<in> D then {Dir p} else {})"
proof -
  have "refers m D s p \<longleftrightarrow> p \<in> D \<and> s = Dir p" for s using assms blank_tables [of D m] by (cases s) auto
  then show ?thesis by (auto simp: sites_def)
qed

lemma small_machine_inv: "mem_inv small_machine {1} {0} [2, 3] (\<lambda>_. 0)"
proof -
  have z: "pmem small_machine d i = 0" for d i by (simp add: small_machine_def)
  have n: "npages small_machine = 5" by (simp add: small_machine_def npages_def)
  have five: "p < 5 \<longleftrightarrow> p = 0 \<or> p = 1 \<or> p = 2 \<or> p = 3 \<or> p = (4 :: nat)" for p by auto
  have t: "\<not> is_table small_machine {1} t" for t by (rule blank_tables) (rule z)
  have "pl.free_listed small_machine [2, 3]"
    unfolding pl.free_listed_def listed_def n by (simp add: page_next_def n) (simp add: small_machine_def)
  moreover have "unat (pp_ref (pages small_machine ! p)) = card (sites small_machine {1} p)" if "p < 5" "p \<noteq> 0" for p
    using that blank_sites [of "{1}" small_machine p] z unfolding five by (auto simp: small_machine_def)
  moreover have "pp_link (pages small_machine ! p) = None" if "p < 5" "p \<noteq> 2" "p \<noteq> 3" for p
    using that unfolding five by (auto simp: small_machine_def)
  ultimately show ?thesis
    unfolding mem_inv_def n using t z by (auto simp: tables_apart_def all_present_def small_machine_def)
qed

section \<open>Mapping and unmapping pages\<close>



lemma page_remove_unmaps_spec:
  assumes inv: "mem_inv m D K xs ex" and d: "d \<in> D" "va < UTOP"
  shows "\<exists>m' ys. page_remove d va m = Some m' \<and> mem_inv m' D K ys ex \<and> entry m' d va = 0 \<and>
    (entry m d va \<noteq> 0 \<and> pp_ref (pages m ! PGNUM (entry m d va)) = 1 \<longrightarrow> page_free_list m' = Some (PGNUM (entry m d va))) \<and>
    (\<forall>d' \<in> D. \<forall>va' < UTOP. d' \<noteq> d \<or> PGNUM va' \<noteq> PGNUM va \<longrightarrow> entry m' d' va' = entry m d' va')"
proof -
  obtain m' ys where r: "page_remove d va m = Some m'" "mem_inv m' D K ys ex"
    and mem: "pmem m' = (if entry m d va = 0 then pmem m else pmem (put_word (PGNUM (pmem m d (PDX va))) (PTX va) 0 m))"
    using page_remove_spec [OF assms] by blast
  have cong: "entry m' d' va' = entry n d' va'" if "pmem m' = pmem n" for n :: "'a machine_scheme" and d' va'
    using that by (simp add: entry_def)
  show ?thesis
  proof (cases "entry m d va = 0")
    case True
    then show ?thesis using r cong [of m] mem by auto
  next
    case False
    let ?n = "put_word (PGNUM (pmem m d (PDX va))) (PTX va) 0 m"
    have e: "entry m' = entry ?n" using cong [of ?n] mem False by (intro ext) simp
    note ref = entry_refers [OF inv d False]
    have "PGNUM (pmem m d (PDX va)) \<noteq> d" using ref(1) mem_invD(7) [OF inv] d(1) by auto
    then have "entry ?n d va = 0" using entry_after_clear by blast
    moreover have "entry ?n d' va' = entry m d' va'" if "d' \<in> D" "va' < UTOP" "d' \<noteq> d \<or> PGNUM va' \<noteq> PGNUM va" for d' va'
      using entry_put_other [OF inv d that(1,2) ref(2) that(3)] .
    moreover have "page_free_list m' = Some (PGNUM (entry m d va))" if "pp_ref (pages m ! PGNUM (entry m d va)) = 1"
    proof -
      have "PGNUM (entry m d va) < npages m" using mem_invD(9) [OF inv ref(1)] by simp
      then show ?thesis using r(1) that False page_lookup_entry [OF inv d]
        by (auto simp: page_remove_def page_decref_def page_free_def Let_def page_push_def split: if_splits)
    qed
    ultimately show ?thesis using r e by (intro exI [of _ m'] exI [of _ ys]) simp
  qed
qed

text \<open>
  \<^verbatim>\<open>page_remove\<close> on a consistent memory never panics, leaves it consistent (every count stays exact),
  unmaps the address, puts the page at the head of the free list when this was its last reference, and changes no
  other address of any address space.
\<close>

theorem page_remove_unmaps:
  assumes "mem_inv m D K xs ex" and "d \<in> D" "va < UTOP"
  shows "\<exists>m' ys. page_remove d va m = Some m' \<and> mem_inv m' D K ys ex \<and> entry m' d va = 0 \<and>
    (entry m d va \<noteq> 0 \<and> pp_ref (pages m ! PGNUM (entry m d va)) = 1 \<longrightarrow> page_free_list m' = Some (PGNUM (entry m d va))) \<and>
    (\<forall>d' \<in> D. \<forall>va' < UTOP. d' \<noteq> d \<or> PGNUM va' \<noteq> PGNUM va \<longrightarrow> entry m' d' va' = entry m d' va')"
  by (rule page_remove_unmaps_spec [OF assms])

theorem page_remove_unmaps_witness:
  "\<exists>m' ys. page_remove 1 0x400000 small_machine = Some m' \<and> mem_inv m' {1} {0} ys (\<lambda>_. 0) \<and> entry m' 1 0x400000 = 0 \<and>
    (entry small_machine 1 0x400000 \<noteq> 0 \<and> pp_ref (pages small_machine ! PGNUM (entry small_machine 1 0x400000)) = 1 \<longrightarrow>
      page_free_list m' = Some (PGNUM (entry small_machine 1 0x400000))) \<and>
    (\<forall>d' \<in> {1}. \<forall>va' < UTOP. d' \<noteq> 1 \<or> PGNUM va' \<noteq> PGNUM 0x400000 \<longrightarrow> entry m' d' va' = entry small_machine d' va')"
  by (rule page_remove_unmaps [OF small_machine_inv]) simp_all

section \<open>The reference count has sixteen bits\<close>

lemma page_insert_in_table:
  assumes "pmem m d (PDX va) \<noteq> 0" "PGNUM (pmem m d (PDX va)) < npages m" "entry m d va = 0"
  shows "page_insert d pp va perm m = Some (0, put_word (PGNUM (pmem m d (PDX va))) (PTX va) (page2pa pp OR perm OR PTE_P)
     (upd_page pp (\<lambda>i. i\<lparr>pp_ref := pp_ref i + 1\<rparr>) m))"
  using assms by (simp add: page_insert_def page_remove_def page_lookup_def pgdir_walk_def Let_def pa2page_def entry_def)

lemma page_remove_last:
  assumes "pmem m d (PDX va) \<noteq> 0" "PGNUM (pmem m d (PDX va)) < npages m" "entry m d va \<noteq> 0" "PGNUM (entry m d va) = p"
    and "p < npages m" "pp_ref (pages m ! p) = 1" "pp_link (pages m ! p) = None"
  shows "\<exists>m'. page_remove d va m = Some m' \<and> page_free_list m' = Some p \<and>
    pmem m' = pmem (put_word (PGNUM (pmem m d (PDX va))) (PTX va) 0 m)"
  using assms by (simp add: page_remove_def page_lookup_def pgdir_walk_def Let_def pa2page_def entry_def page_decref_def
      page_free_def page_push_def) (simp add: put_word_def upd_page_def)

lemma page_ref_overflow_spec:
  assumes inv: "mem_inv m D K xs ex" and d: "d \<in> D" "va1 < UTOP" "va2 < UTOP" "PGNUM va1 \<noteq> PGNUM va2"
    and tab: "pmem m d (PDX va1) \<noteq> 0" "pmem m d (PDX va2) \<noteq> 0" and z: "entry m d va1 = 0" "entry m d va2 = 0"
    and pp: "pp < npages m" "pp \<notin> set xs" "pp_ref (pages m ! pp) = 65535" and perm: "drop_bit 12 perm = 0"
  shows "\<exists>m1 m2 m3. page_insert d pp va1 perm m = Some (0, m1) \<and> page_insert d pp va2 perm m1 = Some (0, m2) \<and>
    page_remove d va2 m2 = Some m3 \<and> page_free_list m3 = Some pp \<and> entry m3 d va1 = page2pa pp OR perm OR PTE_P"
proof -
  let ?inc = "upd_page pp (\<lambda>i. i\<lparr>pp_ref := pp_ref i + 1\<rparr>)" and ?w = "page2pa pp OR perm OR PTE_P"
  let ?t1 = "PGNUM (pmem m d (PDX va1))" and ?t2 = "PGNUM (pmem m d (PDX va2))"
  have p20: "pp < 2 ^ 20" using pp(1) mem_invD(1) [OF inv] by simp
  have w: "?w \<noteq> 0" "PGNUM ?w = pp"
    using entry_present [of "page2pa pp OR perm"] PGNUM_entry [OF p20 perm_flags [OF perm]] by (simp_all add: or.assoc)
  have t1: "?t1 < npages m" "?t1 \<noteq> d" using mem_invD(7) [OF inv pgdir_walk_False(2) [OF inv d(1,2) tab(1)]] d(1) by auto
  have t2: "?t2 < npages m" "?t2 \<noteq> d" using mem_invD(7) [OF inv pgdir_walk_False(2) [OF inv d(1,3) tab(2)]] d(1) by auto
  have apart: "(?t1, PTX va1) \<noteq> (?t2, PTX va2)"
    using mem_invD(8) [OF inv d(1,1) PDX_user [OF d(2)] PDX_user [OF d(3)] tab] d(4) same_page [of va1 va2] by blast
  let ?m1 = "put_word ?t1 (PTX va1) ?w (?inc m)" and ?m2 = "put_word ?t2 (PTX va2) ?w (?inc (put_word ?t1 (PTX va1) ?w (?inc m)))"
  have i1: "page_insert d pp va1 perm m = Some (0, ?m1)" by (rule page_insert_in_table [OF tab(1) t1(1) z(1)])
  have "entry ?m1 d va2 = 0" using z(2) t1 apart by (auto simp: entry_def)
  then have i2: "page_insert d pp va2 perm ?m1 = Some (0, ?m2)"
    using page_insert_in_table [of ?m1 d va2 pp perm] tab(2) t1 t2 by simp
  have dirs: "pmem ?m2 d i = pmem m d i" for i using t1 t2 by simp
  have e2: "entry ?m2 d va2 = ?w" using tab(2) t2 unfolding entry_def dirs by simp
  have "pp_ref (pages ?m2 ! pp) = 1" "pp_link (pages ?m2 ! pp) = None"
    using pp mem_invD(5) [OF inv pp(1,2)] by simp_all
  then obtain m3 where m3: "page_remove d va2 ?m2 = Some m3" "page_free_list m3 = Some pp"
    "pmem m3 = pmem (put_word ?t2 (PTX va2) 0 ?m2)"
    using page_remove_last [of ?m2 d va2 pp] e2 w t2 tab(2) pp(1) unfolding dirs by auto
  have "entry m3 d va1 = ?w" using m3(3) tab(1) t1 t2 apart by (auto simp: entry_def)
  then show ?thesis using i1 i2 m3(1,2) by blast
qed

text \<open>
  The reference count of a page is a \<^verbatim>\<open>uint16_t\<close> and nothing guards it. On a consistent memory, mapping a page
  that already has 65535 references at two more addresses succeeds both times and wraps the count around to 1;
  unmapping one of them then puts the page on the free list while it is still mapped (with the permissions asked
  for) at the other address, so the next allocation hands out a page that a program can still write.
\<close>

theorem page_ref_overflow:
  assumes "mem_inv m D K xs ex" and "d \<in> D" "va1 < UTOP" "va2 < UTOP" "PGNUM va1 \<noteq> PGNUM va2"
    and "pmem m d (PDX va1) \<noteq> 0" "pmem m d (PDX va2) \<noteq> 0" and "entry m d va1 = 0" "entry m d va2 = 0"
    and "pp < npages m" "pp \<notin> set xs" "pp_ref (pages m ! pp) = 65535" and "drop_bit 12 perm = 0"
  shows "\<exists>m1 m2 m3. page_insert d pp va1 perm m = Some (0, m1) \<and> page_insert d pp va2 perm m1 = Some (0, m2) \<and>
    page_remove d va2 m2 = Some m3 \<and> page_free_list m3 = Some pp \<and> entry m3 d va1 = page2pa pp OR perm OR PTE_P"
  by (rule page_ref_overflow_spec [OF assms])

text \<open>
  A program (directory in page 2) whose 64 page tables, pages 3 to 66, map page 68 at every address but the last one;
  the table in page 67 is empty. The page has exactly 65535 references.
\<close>

definition full_machine :: machine where
  "full_machine = \<lparr>pages = map (\<lambda>p. \<lparr>pp_link = None, pp_ref = (if p = 68 then 65535 else 1)\<rparr>) [0..<69],
     page_free_list = None,
     pmem = (\<lambda>p i. if p = 2 then (if i < 65 then page2pa (i + 3) OR 7 else 0)
                   else if 3 \<le> p \<and> p < 67 \<and> (p, i) \<noteq> (66, 1023) then page2pa 68 OR 7 else 0)\<rparr>"

lemma user_entry:
  assumes "p < 2 ^ 20"
  shows "PGNUM (page2pa p OR 7) = p" "page2pa p OR 7 \<noteq> 0"
proof -
  show "PGNUM (page2pa p OR 7) = p" using PGNUM_entry [OF assms, of 7] by (simp add: drop_bit_eq_div)
  have "(page2pa p OR 6) OR 1 \<noteq> 0" by (rule entry_present)
  then show "page2pa p OR 7 \<noteq> 0" by (simp add: or.assoc)
qed

lemma full_npages [simp]: "npages full_machine = 69"
  by (simp add: npages_def full_machine_def)

lemma full_page: "p < 69 \<Longrightarrow> pages full_machine ! p = \<lparr>pp_link = None, pp_ref = (if p = 68 then 65535 else 1)\<rparr>"
  unfolding full_machine_def by (simp del: upt_rec_numeral add: nth_map)

lemma full_pmem:
  "pmem full_machine 2 i = (if i < 65 then page2pa (i + 3) OR 7 else 0)"
  "t \<noteq> 2 \<Longrightarrow> pmem full_machine t j = (if 3 \<le> t \<and> t < 67 \<and> (t, j) \<noteq> (66, 1023) then page2pa 68 OR 7 else 0)"
  by (simp_all only: full_machine_def machine.select_convs if_False if_True refl)

lemma full_dir: "pmem full_machine 2 i \<noteq> 0 \<longleftrightarrow> i < 65" "i < 65 \<Longrightarrow> PGNUM (pmem full_machine 2 i) = i + 3"
proof -
  have u: "PGNUM (page2pa (i + 3) OR 7) = i + 3" "page2pa (i + 3) OR 7 \<noteq> 0" if "i < 65" using that by (intro user_entry; simp)+
  show "pmem full_machine 2 i \<noteq> 0 \<longleftrightarrow> i < 65" unfolding full_pmem(1) using u(2) by presburger
  show "PGNUM (pmem full_machine 2 i) = i + 3" if "i < 65" unfolding full_pmem(1) using u(1) [OF that] that by presburger
qed

lemma full_tables: "is_table full_machine {2} t \<longleftrightarrow> 3 \<le> t \<and> t < 68"
proof -
  have "is_table full_machine {2} t \<longleftrightarrow> (\<exists>i < 955. i < 65 \<and> PGNUM (pmem full_machine 2 i) = t)"
    unfolding is_table_def by (simp add: full_dir(1))
  also have "\<dots> \<longleftrightarrow> (\<exists>i < 65. i + 3 = t)"
  proof -
    have "(i < 955 \<and> i < 65 \<and> PGNUM (pmem full_machine 2 i) = t) \<longleftrightarrow> (i < 65 \<and> i + 3 = t)" for i using full_dir(2) [of i] by auto
    then show ?thesis by (simp only:)
  qed
  also have "\<dots> \<longleftrightarrow> 3 \<le> t \<and> t < 68"
  proof
    assume "3 \<le> t \<and> t < 68"
    then show "\<exists>i < 65. i + 3 = t" by (intro exI [of _ "t - 3"]) auto
  qed auto
  finally show ?thesis .
qed

lemma full_table_entry:
  assumes "3 \<le> t"
  shows "pmem full_machine t j \<noteq> 0 \<longleftrightarrow> t < 67 \<and> (t, j) \<noteq> (66, 1023)"
    and "pmem full_machine t j \<noteq> 0 \<Longrightarrow> PGNUM (pmem full_machine t j) = 68"
proof -
  have e: "pmem full_machine t j = (if 3 \<le> t \<and> t < 67 \<and> (t, j) \<noteq> (66, 1023) then page2pa 68 OR 7 else 0)"
    using assms by (intro full_pmem(2)) simp
  have u: "PGNUM (page2pa 68 OR 7) = 68" "page2pa 68 OR 7 \<noteq> 0" by (intro user_entry; simp)+
  show "pmem full_machine t j \<noteq> 0 \<longleftrightarrow> t < 67 \<and> (t, j) \<noteq> (66, 1023)" unfolding e using u(2) assms by presburger
  show "PGNUM (pmem full_machine t j) = 68" if "pmem full_machine t j \<noteq> 0" using that u(1) unfolding e by presburger
qed

lemma full_sites:
  "sites full_machine {2} p =
     (if p = 2 then {Dir 2} else if 3 \<le> p \<and> p < 68 then {Pde 2 (p - 3)}
      else if p = 68 then (\<lambda>(t, j). Pte t j) ` ({3..<67} \<times> {..<1024} - {(66, 1023)}) else {})" (is "_ = ?S p")
proof (intro set_eqI)
  fix s
  have "refers full_machine {2} s p \<longleftrightarrow> s \<in> ?S p"
  proof (cases s)
    case (Pde d i)
    have "refers full_machine {2} s p \<longleftrightarrow> d = 2 \<and> i < 65 \<and> p = i + 3"
      unfolding Pde refers.simps using full_dir [of i] by auto
    then show ?thesis unfolding Pde by auto
  next
    case (Pte t j)
    have "refers full_machine {2} s p \<longleftrightarrow> 3 \<le> t \<and> t < 67 \<and> j < 1024 \<and> (t, j) \<noteq> (66, 1023) \<and> p = 68"
      unfolding Pte refers.simps full_tables using full_table_entry [of t j] by auto
    moreover have "Pte t j \<in> (\<lambda>(t, j). Pte t j) ` X \<longleftrightarrow> (t, j) \<in> X" for X by force
    ultimately show ?thesis unfolding Pte by auto
  qed auto
  then show "s \<in> sites full_machine {2} p \<longleftrightarrow> s \<in> ?S p" by (simp add: sites_def)
qed

lemma full_count: "card ((\<lambda>(t, j). Pte t j) ` ({3..<67} \<times> {..<1024} - {(66, 1023)})) = 65535"
proof -
  have "inj_on (\<lambda>(t, j). Pte t j) X" for X by (auto simp: inj_on_def)
  then show ?thesis by (simp add: card_image card_Diff_singleton)
qed

lemma full_machine_inv: "mem_inv full_machine {2} {0, 1} [] (\<lambda>_. 0)"
proof -
  have "pl.free_listed full_machine []" by (simp add: pl.free_listed_def listed_def full_machine_def)
  moreover have "unat (pp_ref (pages full_machine ! p)) = card (sites full_machine {2} p)" if "p < 69" "p \<notin> {0, 1}" for p
  proof (cases "p = 68")
    case True
    then show ?thesis using full_count by (simp add: full_page full_sites)
  next
    case False
    then have "p = 2 \<or> 3 \<le> p \<and> p < 68" using that by auto
    then show ?thesis using False that by (auto simp: full_page full_sites)
  qed
  moreover have "p = 68" if "refers full_machine {2} (Pte t j) p" for t j p
    using that full_table_entry(2) [of t j] unfolding refers.simps full_tables by auto
  moreover have "tables_apart full_machine {2}" unfolding tables_apart_def using full_dir by fastforce
  moreover have "all_present full_machine {2}"
  proof -
    have p: "(page2pa n OR 7) AND PTE_P \<noteq> 0" for n
      using present_bit(2) [of "page2pa n" 6] by (simp add: or.assoc)
    have "pmem full_machine t j AND PTE_P \<noteq> 0" if "3 \<le> t" "pmem full_machine t j \<noteq> 0" for t j
    proof -
      have "pmem full_machine t j = page2pa 68 OR 7" using that full_pmem(2) [of t j] by (auto split: if_splits)
      then show ?thesis using p by simp
    qed
    then show ?thesis unfolding all_present_def full_tables using p by (auto simp: full_pmem(1))
  qed
  ultimately show ?thesis unfolding mem_inv_def full_tables by (auto simp: full_page)
qed

theorem page_ref_overflow_witness:
  "\<exists>m1 m2 m3. page_insert 2 68 0x0FFFF000 7 full_machine = Some (0, m1) \<and> page_insert 2 68 0x10000000 7 m1 = Some (0, m2) \<and>
    page_remove 2 0x10000000 m2 = Some m3 \<and> page_free_list m3 = Some 68 \<and> entry m3 2 0x0FFFF000 = page2pa 68 OR 7 OR PTE_P"
proof (rule page_ref_overflow [OF full_machine_inv])
  have va: "PDX 0x0FFFF000 = 63" "PTX 0x0FFFF000 = 1023" "PDX 0x10000000 = 64" "PTX 0x10000000 = 0"
    by (simp_all add: PDX_div PTX_div)
  show "pmem full_machine 2 (PDX 0x0FFFF000) \<noteq> 0" "pmem full_machine 2 (PDX 0x10000000) \<noteq> 0"
    using full_dir(1) by (simp_all add: va)
  show "entry full_machine 2 0x0FFFF000 = 0" "entry full_machine 2 0x10000000 = 0"
    using full_dir(2) [of 63] full_dir(2) [of 64] by (simp_all add: entry_def va) (simp_all add: full_machine_def)
qed (simp_all add: full_page PGNUM_div drop_bit_eq_div)

section \<open>User memory\<close>



text \<open>
  A kernel on the small machine: environment 0 runs on processor 0, environment 1 is runnable, processor 1 is idle.
\<close>

definition small_env :: "nat \<Rightarrow> environment" where
  "small_env i = \<lparr>env_tf = zero_tf, env_link = (if i < 2 \<or> i = 1023 then None else Some (Suc i)),
     env_id = (if i < 2 then 0x1000 OR of_nat i else 0), env_parent_id = 0, env_type = ENV_TYPE_USER,
     env_status = (if i = 0 then ENV_RUNNING else if i = 1 then ENV_RUNNABLE else ENV_FREE), env_runs = 7, env_cpunum = 0,
     priority = 5, env_pgdir = (if i = 0 then Some 1 else if i = 1 then Some 5 else None), env_pgfault_upcall = (if i = 0 then 0x800020 else 0), env_ipc_recving = False,
     env_ipc_dstva = 0, env_ipc_value = 0, env_ipc_from = 0, env_ipc_perm = 0\<rparr>"

definition small_kernel :: kernel where
  "small_kernel = \<lparr>pages = pages small_machine @ [\<lparr>pp_link = None, pp_ref = 1\<rparr>], page_free_list = Some 2, pmem = (\<lambda>_ _. 0),
     envs = map small_env [0..<1024], env_free_list = Some 2, cpu_env = (\<lambda>c. if c = 0 then Some 0 else None),
     cpu_halted = (\<lambda>_. False), kern_pgdir = 0, n_sched_calls = 0, n_context_switches = 0, last_env_run = 0,
     runs_per_env = replicate 1024 0, aging_ticks = 0, cons_out = []\<rparr>"

lemma small_envs [simp]: "length (envs small_kernel) = 1024" "e < 1024 \<Longrightarrow> envs small_kernel ! e = small_env e"
  unfolding small_kernel_def by (simp_all del: upt_rec_numeral)

lemma small_fields [simp]:
  "cpu_env small_kernel = (\<lambda>c. if c = 0 then Some 0 else None)" "env_free_list small_kernel = Some 2"
  "page_free_list small_kernel = Some 2" "aging_ticks small_kernel = 0"
  unfolding small_kernel_def by (simp_all only: kernel.select_convs machine.select_convs)

lemma wrapped_check:
  assumes "UTOP \<le> s"
  shows "user_mem_check d s (- s) perm m = Some (0, None)"
proof -
  have "ROUNDUP 0 4096 = 0" by (simp add: ROUNDUP_def ROUNDDOWN_def)
  then show ?thesis by (simp add: user_mem_check_def Let_def user_mem_pages.simps [of d _ 0])
qed

lemma sys_cputs_wraps:
  assumes "UTOP \<le> s" "cpu_env k cpu = Some c" "env_pgdir (envs k ! c) = Some d"
  shows "sys_cputs p cpu s (- s) k = Some (Ret 0, k\<lparr>cons_out := cons_out k @ [(s, - s)]\<rparr>)"
  using assms by (simp add: sys_cputs_def user_mem_assert_def wrapped_check)

text \<open>
  The check wraps around: for every address \<open>s\<close> at or above \<^verbatim>\<open>UTOP\<close> (kernel memory included), a program that asks for
  the string at \<open>s\<close> of length \<open>2^32 - s\<close> passes \<^verbatim>\<open>user_mem_assert\<close>, because \<^verbatim>\<open>va + len\<close> is 0, and \<^verbatim>\<open>sys_cputs\<close> prints the range on the
  console instead of destroying the program.
\<close>

theorem sys_cputs_prints_kernel_memory:
  assumes "UTOP \<le> s" "cpu_env k cpu = Some c" "env_pgdir (envs k ! c) = Some d"
  shows "sys_cputs p cpu s (- s) k = Some (Ret 0, k\<lparr>cons_out := cons_out k @ [(s, - s)]\<rparr>)"
  by (rule sys_cputs_wraps [OF assms])

theorem sys_cputs_prints_kernel_memory_witness:
  "sys_cputs SCHED_ROUND_ROBIN 0 0xF0100000 (- 0xF0100000) small_kernel =
     Some (Ret 0, small_kernel\<lparr>cons_out := cons_out small_kernel @ [(0xF0100000, - 0xF0100000)]\<rparr>)"
  by (rule sys_cputs_prints_kernel_memory [where c = 0 and d = 1]) (simp_all add: small_env_def)

section \<open>Identifiers\<close>

lemma env_setup_vm_spec:
  assumes "page_free_list k = Some q" "length (envs k) = NENV" "e < NENV"
  shows "fst (env_setup_vm e k) = 0" "envs (snd (env_setup_vm e k)) = (envs k)[e := (envs k ! e)\<lparr>env_pgdir := Some q\<rparr>]"
    "env_free_list (snd (env_setup_vm e k)) = env_free_list k" "cpu_env (snd (env_setup_vm e k)) = cpu_env k"
  using assms by (simp_all add: env_setup_vm_def page_alloc_def page_pop_def zero_page_def Let_def upd_page_def put_word_def
      upd_env_def)

lemma env_alloc_spec:
  assumes free: "env_free_list k = Some e" "e < NENV" "page_free_list k \<noteq> None"
    and len: "length (envs k) = NENV" and old: "unat (env_id (envs k ! e)) < 2 ^ 31"
  shows "\<exists>k' i. env_alloc parent k = (0, Some e, k') \<and> env_id (envs k' ! e) = i \<and> 0 < sint i \<and> ENVX i = e \<and>
    i \<noteq> env_id (envs k ! e) \<and> env_status (envs k' ! e) = ENV_RUNNABLE \<and> env_parent_id (envs k' ! e) = parent \<and>
    (\<forall>j \<noteq> 0. ENVX j = e \<longrightarrow> envid2env cpu j False k' = Some (if j = i then (0, Some e) else (- E_BAD_ENV, None))) \<and>
    (\<forall>f < NENV. f \<noteq> e \<longrightarrow> envs k' ! f = envs k ! f) \<and> env_free_list k' = env_link (envs k ! e)"
proof -
  obtain q where q: "page_free_list k = Some q" using free(3) by blast
  obtain k1 where k1: "env_setup_vm e k = (0, k1)" "envs k1 = (envs k)[e := (envs k ! e)\<lparr>env_pgdir := Some q\<rparr>]"
    "env_free_list k1 = Some e" "cpu_env k1 = cpu_env k"
    using env_setup_vm_spec [OF q len free(2)] free(1) by (cases "env_setup_vm e k") auto
  let ?i = "next_generation (env_id (envs k ! e)) OR of_nat e"
  let ?k2 = "upd_env e (\<lambda>x. x\<lparr>env_id := next_generation (env_id x) OR of_nat e, env_parent_id := parent,
    env_type := ENV_TYPE_USER, env_status := ENV_RUNNABLE, env_runs := 0, env_tf := user_tf, env_pgfault_upcall := 0,
    env_ipc_recving := False\<rparr>) k1"
  have "env_alloc parent k = (0, Some e, env_pop ?k2)" using free(1) k1(1) by (simp add: env_alloc_def Let_def)
  moreover have "env_free_list (env_pop ?k2) = env_link (envs k ! e)" using k1(2,3) len free(2) by (simp add: env_pop_def)
  moreover have "envs (env_pop ?k2) = (envs k)[e := envs ?k2 ! e]" using k1(2,3) len free(2) by (simp add: env_pop_def upd_env_def)
  moreover have "env_id (envs ?k2 ! e) = ?i" "env_status (envs ?k2 ! e) = ENV_RUNNABLE" "env_parent_id (envs ?k2 ! e) = parent"
    using k1(2) len free(2) by simp_all
  ultimately show ?thesis using next_id [OF free(2) old] len free(2)
    by (intro exI [of _ "env_pop ?k2"] exI [of _ ?i]) (auto simp: envid2env_def)
qed

text \<open>
  \<^verbatim>\<open>env_alloc\<close> with a free environment and a free page succeeds, takes the environment off the free list, touches no
  other environment, and gives it an identifier that is positive as a signed integer, carries the index of the
  environment in its low bits and differs from the previous one; from then on \<^verbatim>\<open>envid2env\<close> accepts this identifier and
  rejects every other one of the same slot with \<^verbatim>\<open>-E_BAD_ENV\<close>, so that a stale identifier never reaches the new occupant.
\<close>

theorem env_alloc_fresh_id:
  assumes "env_free_list k = Some e" "e < NENV" "page_free_list k \<noteq> None"
    and "length (envs k) = NENV" and "unat (env_id (envs k ! e)) < 2 ^ 31"
  shows "\<exists>k' i. env_alloc parent k = (0, Some e, k') \<and> env_id (envs k' ! e) = i \<and> 0 < sint i \<and> ENVX i = e \<and>
    i \<noteq> env_id (envs k ! e) \<and> env_status (envs k' ! e) = ENV_RUNNABLE \<and> env_parent_id (envs k' ! e) = parent \<and>
    (\<forall>j \<noteq> 0. ENVX j = e \<longrightarrow> envid2env cpu j False k' = Some (if j = i then (0, Some e) else (- E_BAD_ENV, None))) \<and>
    (\<forall>f < NENV. f \<noteq> e \<longrightarrow> envs k' ! f = envs k ! f) \<and> env_free_list k' = env_link (envs k ! e)"
  by (rule env_alloc_spec [OF assms])

theorem env_alloc_fresh_id_witness:
  "\<exists>k' i. env_alloc 0 small_kernel = (0, Some 2, k') \<and> env_id (envs k' ! 2) = i \<and> 0 < sint i \<and> ENVX i = 2 \<and>
    i \<noteq> env_id (envs small_kernel ! 2) \<and> env_status (envs k' ! 2) = ENV_RUNNABLE \<and> env_parent_id (envs k' ! 2) = 0 \<and>
    (\<forall>j \<noteq> 0. ENVX j = 2 \<longrightarrow> envid2env 0 j False k' = Some (if j = i then (0, Some 2) else (- E_BAD_ENV, None))) \<and>
    (\<forall>f < NENV. f \<noteq> 2 \<longrightarrow> envs k' ! f = envs small_kernel ! f) \<and> env_free_list k' = env_link (envs small_kernel ! 2)"
  by (rule env_alloc_fresh_id) (simp_all add: small_env_def)

section \<open>Scheduling\<close>

text \<open>
  C17. Under round robin every runnable environment gets the processor: whatever the state, after at most as many
  calls of \<^verbatim>\<open>sched_yield\<close> as its distance in the circular order from the current environment, plus one (so at most 1024),
  it is the current environment of the processor and running.
\<close>

theorem round_robin_progress:
  assumes "ids_ok k" "e < NENV" "runnable k e"
  shows "\<exists>m. 0 < m \<and> m \<le> ring_pos (start_index cpu k) e + 1 \<and> m \<le> NENV \<and>
     cpu_env (((\<lambda>k. snd (sched_yield SCHED_ROUND_ROBIN cpu k)) ^^ m) k) cpu = Some e \<and>
     env_status (envs (((\<lambda>k. snd (sched_yield SCHED_ROUND_ROBIN cpu k)) ^^ m) k) ! e) = ENV_RUNNING"
proof -
  have y: "(\<lambda>k. snd (sched_yield SCHED_ROUND_ROBIN cpu k)) = rr_yield cpu" by (intro ext) (simp add: rr_yield_def)
  have "ring_pos (start_index cpu k) e + 1 \<le> 1024" using ring_pos_less [of "start_index cpu k" e] by arith
  then show ?thesis unfolding y using rr_progress [OF assms order_refl] by (meson le_trans)
qed

lemma small_ids: "ids_ok small_kernel"
proof -
  have "ENVX (0x1000 OR of_nat i) = i" if "i < 2" for i
    using that by (auto simp: less_2_cases_iff ENVX_def)
  then show ?thesis by (auto simp: ids_ok_def small_env_def)
qed

theorem round_robin_progress_witness:
  "\<exists>m. 0 < m \<and> m \<le> ring_pos (start_index 0 small_kernel) 1 + 1 \<and> m \<le> NENV \<and>
     cpu_env (((\<lambda>k. snd (sched_yield SCHED_ROUND_ROBIN 0 k)) ^^ m) small_kernel) 0 = Some 1 \<and>
     env_status (envs (((\<lambda>k. snd (sched_yield SCHED_ROUND_ROBIN 0 k)) ^^ m) small_kernel) ! 1) = ENV_RUNNING"
proof (rule round_robin_progress [OF small_ids])
  have "env_status (envs small_kernel ! 1) = ENV_RUNNABLE" by (subst small_envs(2)) (simp_all add: small_env_def)
  then show "runnable small_kernel 1" by (simp add: runnable_def)
qed simp

text \<open>
  C18. Between two aging rounds the priority scheduler runs, whenever some environment is runnable, a runnable one of
  the largest priority, and the first of those in the circular order; the one it runs loses one level of priority
  exactly when it has run at least \<^verbatim>\<open>QUANTUM_LIMIT\<close> times and its level is above 1, so no level drops below 1.
\<close>

theorem priority_choice:
  assumes "length (envs k) = NENV" and "aging_ticks k + 1 < AGING_INTERVAL"
    and "e < NENV" "runnable k e" "0 \<le> priority (envs k ! e)"
  shows "\<exists>f k'. sched_yield SCHED_PRIORITIES cpu k = (Run f, k') \<and> f < NENV \<and> runnable k f \<and>
     priority (envs k ! e) \<le> priority (envs k ! f) \<and>
     (priority (envs k ! e) = priority (envs k ! f) \<longrightarrow> ring_pos (start_index cpu k) f \<le> ring_pos (start_index cpu k) e) \<and>
     cpu_env k' cpu = Some f \<and> env_status (envs k' ! f) = ENV_RUNNING \<and>
     priority (envs k' ! f) = (if env_runs (envs k ! f) \<ge> QUANTUM_LIMIT \<and> priority (envs k ! f) > 1
       then priority (envs k ! f) - 1 else priority (envs k ! f))"
  by (rule prio_picks [OF assms])

theorem priority_choice_witness:
  "\<exists>f k'. sched_yield SCHED_PRIORITIES 0 small_kernel = (Run f, k') \<and> f < NENV \<and> runnable small_kernel f \<and>
     priority (envs small_kernel ! 1) \<le> priority (envs small_kernel ! f) \<and>
     (priority (envs small_kernel ! 1) = priority (envs small_kernel ! f) \<longrightarrow>
       ring_pos (start_index 0 small_kernel) f \<le> ring_pos (start_index 0 small_kernel) 1) \<and>
     cpu_env k' 0 = Some f \<and> env_status (envs k' ! f) = ENV_RUNNING \<and>
     priority (envs k' ! f) = (if env_runs (envs small_kernel ! f) \<ge> QUANTUM_LIMIT \<and> priority (envs small_kernel ! f) > 1
       then priority (envs small_kernel ! f) - 1 else priority (envs small_kernel ! f))"
proof (rule priority_choice)
  have "envs small_kernel ! 1 = small_env 1" by (rule small_envs) simp
  then show "runnable small_kernel 1" "0 \<le> priority (envs small_kernel ! 1)" by (simp_all add: runnable_def small_env_def)
qed simp_all

lemma max_prio_eq:
  assumes "e < NENV" "runnable k e" "0 \<le> q" and "\<And>f. f < NENV \<Longrightarrow> runnable k f \<Longrightarrow> priority (envs k ! f) = q"
  shows "max_prio s k = q"
  using max_prio_attained [OF assms(1,2), of s] assms by auto

lemma aging_due:
  assumes "aging_ticks k = 49"
  shows "aging k = k\<lparr>envs := map age_env (envs k), aging_ticks := 0\<rparr>"
  using assms by (simp add: aging_def)

lemma age_env_fields:
  "env_status (age_env x) = env_status x"
  "env_status x = ENV_RUNNABLE \<Longrightarrow> priority x < 8 \<Longrightarrow> priority (age_env x) = priority x + 1"
  by (simp_all add: age_env_def)

lemma aging_round:
  assumes len: "length (envs k) = NENV" and tick: "aging_ticks k = 49" and e: "e < NENV" "runnable k e"
    and q: "0 \<le> q" "q < MAX_PRIORITY" "\<And>f. f < NENV \<Longrightarrow> runnable k f \<Longrightarrow> priority (envs k ! f) = q"
    and idle: "cpu_env k cpu = None"
  shows "\<exists>k'. sched_yield SCHED_PRIORITIES cpu k = (Halted, k') \<and> runnable k' e \<and> cpu_halted k' cpu"
proof -
  let ?k1 = "k\<lparr>n_sched_calls := n_sched_calls k + 1\<rparr>"
  let ?k2 = "?k1\<lparr>envs := map age_env (envs k), aging_ticks := 0\<rparr>"
  have a: "aging ?k1 = ?k2" using aging_due [of ?k1] tick by simp
  have mx: "max_prio s ?k1 = q" for s using max_prio_eq [OF e q(1,3)] by (simp add: sched_calls_same)
  have nth: "envs ?k2 ! f = age_env (envs k ! f)" if "f < NENV" for f using that len by simp
  have run: "runnable ?k2 f \<longleftrightarrow> runnable k f" if "f < NENV" for f unfolding runnable_def nth [OF that] by (simp add: age_env_fields)
  have up: "priority (envs ?k2 ! f) = q + 1" if "f < NENV" "runnable ?k2 f" for f
    using that run [OF that(1)] q nth [OF that(1)] age_env_fields(2) by (simp add: runnable_def)
  have "\<not> (runnable ?k2 f \<and> priority (envs ?k2 ! f) = q)" if "f < NENV" for f
  proof
    assume "runnable ?k2 f \<and> priority (envs ?k2 ! f) = q"
    then have "q = q + 1" using up [OF that] by metis
    then show False by simp
  qed
  then have none: "find (\<lambda>x. runnable ?k2 x \<and> priority (envs ?k2 ! x) = q) (circular s) = None" for s
    unfolding find_circular_None by blast
  have "envs ?k2 ! e \<in> set (envs ?k2)" using e(1) len by (intro nth_mem) simp
  moreover have "runnable ?k2 e" using run e by simp
  ultimately have "sched_halt cpu ?k2 = (Halted, ?k2\<lparr>cpu_env := (cpu_env k)(cpu := None), cpu_halted := (cpu_halted k)(cpu := True)\<rparr>)"
    unfolding sched_halt_def list_ex_iff runnable_def by auto
  moreover have "sched_yield SCHED_PRIORITIES cpu k = sched_halt cpu ?k2"
    unfolding sched_yield_def Let_def choose_env_def choose_prio_def policy.case a mx none
    using idle by simp
  ultimately show ?thesis using \<open>runnable ?k2 e\<close> by (simp add: runnable_def)
qed

text \<open>
  Every fiftieth call of the priority scheduler raises the levels after it has computed the largest one, and then
  looks for an environment at the old largest level. When all runnable environments share a level below
  \<^verbatim>\<open>MAX_PRIORITY\<close> none is left there: an idle processor halts although there are runnable environments, which stay
  runnable until the next interrupt.
\<close>

theorem aging_round_halts_idle_cpu:
  assumes "length (envs k) = NENV" and "aging_ticks k = 49" and "e < NENV" "runnable k e"
    and "0 \<le> q" "q < MAX_PRIORITY" "\<And>f. f < NENV \<Longrightarrow> runnable k f \<Longrightarrow> priority (envs k ! f) = q" and "cpu_env k cpu = None"
  shows "\<exists>k'. sched_yield SCHED_PRIORITIES cpu k = (Halted, k') \<and> runnable k' e \<and> cpu_halted k' cpu"
  by (rule aging_round [OF assms(1-6) _ assms(8)]) (rule assms(7))

theorem aging_round_halts_idle_cpu_witness:
  "\<exists>k'. sched_yield SCHED_PRIORITIES 1 (small_kernel\<lparr>aging_ticks := 49\<rparr>) = (Halted, k') \<and> runnable k' 1 \<and> cpu_halted k' 1"
proof (rule aging_round_halts_idle_cpu [where q = 5])
  have "envs small_kernel ! 1 = small_env 1" by (rule small_envs) simp
  then show "runnable (small_kernel\<lparr>aging_ticks := 49\<rparr>) 1" by (simp add: runnable_def small_env_def)
  show "priority (envs (small_kernel\<lparr>aging_ticks := 49\<rparr>) ! f) = 5" if "f < 1024" for f
    using that by (simp add: small_env_def)
qed simp_all

section \<open>Mapping with arbitrary permission bits\<close>

lemma PGNUM_or:
  assumes "p < 2 ^ 20" "q < 2 ^ 20"
  shows "PGNUM (page2pa p OR (7 OR page2pa q)) = p OR q"
proof -
  have d: "drop_bit 12 (page2pa x) = (of_nat x :: 32 word)" if "x < 2 ^ 20" for x
  proof -
    have "unat (drop_bit 12 (page2pa x)) = x" using PGNUM_page2pa [OF that] by (simp add: PGNUM_def)
    moreover have "unat (of_nat x :: 32 word) = x" using that by (simp add: unat_of_nat)
    ultimately show ?thesis by (metis word_unat_eq_iff)
  qed
  have "drop_bit 12 (7 :: 32 word) = 0" by (simp add: drop_bit_eq_div)
  then have "drop_bit 12 (page2pa p OR (7 OR page2pa q)) = (of_nat p OR of_nat q :: 32 word)"
    using d assms by (simp add: drop_bit_or)
  then show ?thesis using assms by (simp add: PGNUM_def unsigned_or_eq unat_of_nat)
qed

lemma write_bit_kept:
  assumes "w AND PTE_W \<noteq> (0 :: 32 word)"
  shows "((PTE_P OR PTE_U OR x) AND PTE_W) AND NOT (PTE_W AND w) = 0"
proof (intro bit_eqI)
  fix n
  have two: "bit (2 :: 32 word) n \<longleftrightarrow> n = 1" for n by (simp add: bit_numeral_rec nat_eq_iff bit_1_iff split: nat.split) (cases n; auto simp: bit_Suc)
  obtain m where "bit (w AND PTE_W) m" using assms by (metis bit_eqI bit_0_eq bot_apply bot_bool_def)
  then have "bit w 1" using two by (auto simp: bit_and_iff)
  then show "bit (((PTE_P OR PTE_U OR x) AND PTE_W) AND NOT (PTE_W AND w)) n \<longleftrightarrow> bit (0 :: 32 word) n"
    unfolding bit_and_iff bit_not_iff two by auto
qed

lemma page_lookup_table:
  assumes "pmem m d (PDX va) \<noteq> 0" "PGNUM (pmem m d (PDX va)) < npages m" "entry m d va \<noteq> 0" "PGNUM (entry m d va) < npages m"
  shows "page_lookup d va m = Some (Some (PGNUM (entry m d va), PGNUM (pmem m d (PDX va)), PTX va))"
  using assms by (simp add: page_lookup_def pgdir_walk_def Let_def pa2page_def entry_def)

lemma sys_page_map_any:
  assumes inv: "mem_inv k D K xs ex" and cur: "cpu_env k cpu = Some c" "env_pgdir (envs k ! c) = Some d" "d \<in> D"
    and va: "\<not> bad_va srcva" "\<not> bad_va dstva"
    and src: "entry k d srcva AND PTE_W \<noteq> 0" and dst: "pmem k d (PDX dstva) \<noteq> 0" "entry k d dstva = 0"
    and q: "q < 2 ^ 20"
  shows "\<exists>k'. sys_page_map cpu 0 srcva 0 dstva (page2pa q OR PTE_W) k = Some (Ret 0, k') \<and>
    PGNUM (entry k' d dstva) = PGNUM (entry k d srcva) OR q"
proof -
  let ?p = "PGNUM (entry k d srcva)" and ?t = "PGNUM (pmem k d (PDX dstva))"
  have lt: "srcva < UTOP" "dstva < UTOP" using va by (simp_all add: bad_va_def not_le)
  have nz: "entry k d srcva \<noteq> 0" using src by auto
  have look: "page_lookup d srcva k = Some (Some (?p, PGNUM (pmem k d (PDX srcva)), PTX srcva))"
    using page_lookup_entry [OF inv cur(3) lt(1)] nz by simp
  have ew: "pmem k (PGNUM (pmem k d (PDX srcva))) (PTX srcva) = entry k d srcva"
    using nz by (simp add: entry_def split: if_splits)
  have p: "?p < npages k" "?p < 2 ^ 20"
    using mem_invD(9) [OF inv entry_refers(1) [OF inv cur(3) lt(1) nz]] mem_invD(1) [OF inv] by auto
  have t: "?t < npages k" "?t \<noteq> d" using mem_invD(7) [OF inv pgdir_walk_False(2) [OF inv cur(3) lt(2) dst(1)]] cur(3) by auto
  let ?w = "page2pa ?p OR (PTE_P OR PTE_U OR (page2pa q OR PTE_W)) OR PTE_P"
  let ?k = "put_word ?t (PTX dstva) ?w (upd_page ?p (\<lambda>i. i\<lparr>pp_ref := pp_ref i + 1\<rparr>) k)"
  have "page_insert d ?p dstva (PTE_P OR PTE_U OR (page2pa q OR PTE_W)) k = Some (0, ?k)"
    by (rule page_insert_in_table [OF dst(1) t(1) dst(2)])
  then have "sys_page_map cpu 0 srcva 0 dstva (page2pa q OR PTE_W) k = Some (Ret 0, ?k)"
    using va cur look write_bit_kept [OF src, of "page2pa q OR PTE_W"]
    by (simp add: sys_page_map_def with_env_def envid2env_def env_page_map_def ew)
  moreover have "entry ?k d dstva = page2pa ?p OR (7 OR page2pa q)"
  proof -
    have seven: "(7 :: 32 word) = PTE_P OR PTE_U OR PTE_W" by simp
    have "?w = page2pa ?p OR (7 OR page2pa q)" unfolding seven by (intro bit_eqI) (simp only: bit_or_iff, blast)
    then show ?thesis using dst(1) t(2) by (simp add: entry_def)
  qed
  ultimately show ?thesis using PGNUM_or [OF p(2) q] by auto
qed

text \<open>
  \<^verbatim>\<open>sys_page_map\<close> does not check the permissions (its comment asks for the same restrictions as \<^verbatim>\<open>sys_page_alloc\<close>): they
  are or-ed into the new entry whole, address bits included. A program that owns a writable page at \<open>srcva\<close> gets, for
  any page number \<open>q\<close>, a writable mapping whose page number is that of its own page or-ed bitwise with \<open>q\<close>: any physical
  page, of the kernel or of another program, whose number has the bits of its own page.
\<close>

theorem sys_page_map_any_page:
  assumes "mem_inv k D K xs ex" and "cpu_env k cpu = Some c" "env_pgdir (envs k ! c) = Some d" "d \<in> D"
    and "\<not> bad_va srcva" "\<not> bad_va dstva"
    and "entry k d srcva AND PTE_W \<noteq> 0" and "pmem k d (PDX dstva) \<noteq> 0" "entry k d dstva = 0"
    and "q < 2 ^ 20"
  shows "\<exists>k'. sys_page_map cpu 0 srcva 0 dstva (page2pa q OR PTE_W) k = Some (Ret 0, k') \<and>
    PGNUM (entry k' d dstva) = PGNUM (entry k d srcva) OR q"
  by (rule sys_page_map_any [OF assms])

definition full_kernel :: kernel where
  "full_kernel = small_kernel\<lparr>pages := pages full_machine, page_free_list := page_free_list full_machine,
     pmem := pmem full_machine, envs := (envs small_kernel)[0 := (small_env 0)\<lparr>env_pgdir := Some 2\<rparr>]\<rparr>"

lemma full_kernel_machine: "mem_inv full_kernel = mem_inv full_machine" "entry full_kernel = entry full_machine"
  using same_machine [of full_kernel full_machine] by (auto simp: full_kernel_def intro!: ext)

theorem sys_page_map_any_page_witness:
  "\<exists>k'. sys_page_map 0 0 0 0 0x10000000 (page2pa 0x100 OR PTE_W) full_kernel = Some (Ret 0, k') \<and>
    PGNUM (entry k' 2 0x10000000) = PGNUM (entry full_kernel 2 0) OR 0x100"
proof (rule sys_page_map_any_page [where c = 0 and D = "{2}"])
  show "mem_inv full_kernel {2} {0, 1} [] (\<lambda>_. 0)" unfolding full_kernel_machine by (rule full_machine_inv)
  have va: "PDX 0 = 0" "PTX 0 = 0" "PDX 0x10000000 = 64" "PTX 0x10000000 = 0" by (simp_all add: PDX_div PTX_div)
  have e0: "entry full_machine 2 0 = page2pa 68 OR 7"
    using full_dir(1) [of 0] full_dir(2) [of 0] full_pmem(2) [of 3 0] by (simp add: entry_def va)
  show "entry full_kernel 2 0 AND PTE_W \<noteq> 0" unfolding full_kernel_machine e0 by (simp add: page2pa_def push_bit_eq_mult)
  show "pmem full_kernel 2 (PDX 0x10000000) \<noteq> 0" using full_dir(1) [of 64] by (simp add: full_kernel_def va)
  show "entry full_kernel 2 0x10000000 = 0"
    unfolding full_kernel_machine using full_dir(2) [of 64] full_pmem(2) [of 67 0] by (simp add: entry_def va)
qed (simp_all add: full_kernel_def bad_va_def)

end
