(* ===== verification/Kern_Trap.thy ===== *)
theory Kern_Trap
  imports Kern_Syscall
begin

unbundle bit_operations_syntax

text \<open>
  Traps (\<^verbatim>\<open>src/TP Sched/kern/trap.c\<close>): the entry from user mode or from a halted processor, the dispatch to page faults,
  system calls and the timer, and the page-fault handler, which writes a frame on the exception stack of the program
  through its page tables. \<^term>\<open>None\<close> is a panic. The kernel monitor that a breakpoint opens is taken to return; the big
  kernel lock and the acknowledgement of the interrupt are left out. The faulting address in \<^verbatim>\<open>CR2\<close> is a parameter.
\<close>

section \<open>User memory by bytes\<close>

text \<open>
  The byte at an address in the address space of a page directory, for a page mapped present and (for writing)
  writable; anything else faults, and a fault in the kernel is a panic.
\<close>

definition user_entry_of :: "nat \<Rightarrow> 32 word \<Rightarrow> 'a machine_scheme \<Rightarrow> 32 word option" where
  "user_entry_of pgdir va m = do {
     (pte, _) \<leftarrow> pgdir_walk pgdir va False m;
     (t, i) \<leftarrow> pte;
     (if pmem m t i AND PTE_P \<noteq> 0 then Some (pmem m t i) else None)
   }"

definition word_index :: "32 word \<Rightarrow> nat" where
  "word_index va = unat (va AND 0xFFF) div 4"

definition byte_shift :: "32 word \<Rightarrow> nat" where
  "byte_shift va = 8 * (unat (va AND 0xFFF) mod 4)"

definition load_byte :: "nat \<Rightarrow> 32 word \<Rightarrow> 'a machine_scheme \<Rightarrow> 8 word option" where
  "load_byte pgdir va m = do {
     pte \<leftarrow> user_entry_of pgdir va m;
     p \<leftarrow> pa2page m (PTE_ADDR pte);
     Some (ucast (drop_bit (byte_shift va) (pmem m p (word_index va))))
   }"

definition set_byte :: "nat \<Rightarrow> 8 word \<Rightarrow> 32 word \<Rightarrow> 32 word" where
  "set_byte s b w = (w AND NOT (push_bit s 0xFF)) OR push_bit s (ucast b)"

definition store_byte :: "nat \<Rightarrow> 32 word \<Rightarrow> 8 word \<Rightarrow> 'a machine_scheme \<Rightarrow> 'a machine_scheme option" where
  "store_byte pgdir va b m = do {
     pte \<leftarrow> user_entry_of pgdir va m;
     guard (pte AND PTE_W \<noteq> 0);
     p \<leftarrow> pa2page m (PTE_ADDR pte);
     Some (put_word p (word_index va) (set_byte (byte_shift va) b (pmem m p (word_index va))) m)
   }"

fun store_bytes :: "nat \<Rightarrow> 32 word \<Rightarrow> 8 word list \<Rightarrow> 'a machine_scheme \<Rightarrow> 'a machine_scheme option" where
  "store_bytes pgdir va [] m = Some m"
| "store_bytes pgdir va (b # bs) m = do {
     m \<leftarrow> store_byte pgdir va b m;
     store_bytes pgdir (va + 1) bs m
   }"

fun load_bytes :: "nat \<Rightarrow> 32 word \<Rightarrow> nat \<Rightarrow> 'a machine_scheme \<Rightarrow> 8 word list option" where
  "load_bytes pgdir va 0 m = Some []"
| "load_bytes pgdir va (Suc n) m = do {
     b \<leftarrow> load_byte pgdir va m;
     bs \<leftarrow> load_bytes pgdir (va + 1) n m;
     Some (b # bs)
   }"

definition word_bytes :: "32 word \<Rightarrow> 8 word list" where
  "word_bytes w = map (\<lambda>i. ucast (drop_bit (8 * i) w)) [0..<4]"

section \<open>Page faults\<close>

abbreviation (input) UXSTACKTOP :: "32 word" where "UXSTACKTOP \<equiv> UTOP"
abbreviation (input) GD_KT :: "16 word" where "GD_KT \<equiv> 8"

text \<open>The thirteen words of \<^verbatim>\<open>struct UTrapframe\<close>.\<close>

definition regs_words :: "push_regs \<Rightarrow> 32 word list" where
  "regs_words r = [reg_edi r, reg_esi r, reg_ebp r, reg_oesp r, reg_ebx r, reg_edx r, reg_ecx r, reg_eax r]"

definition utf_words :: "32 word \<Rightarrow> trapframe \<Rightarrow> 32 word list" where
  "utf_words fault_va tf = [fault_va, tf_err tf] @ regs_words (tf_regs tf) @ [tf_eip tf, tf_eflags tf, tf_esp tf]"

text \<open>
  The new stack pointer and the bytes written there: outside the exception stack the frame goes to its top; for a fault
  on the exception stack a zero word is left above the frame. The bounds are only checked after the frame is written.
\<close>

definition push_frame :: "nat \<Rightarrow> 32 word \<Rightarrow> trapframe \<Rightarrow> kernel \<Rightarrow> (32 word \<times> kernel) option" where
  "push_frame pgdir fault_va tf k = do {
     let exstk = UXSTACKTOP - PGSIZE;
     let exstk_top = UXSTACKTOP - 1;
     (tmp, k) \<leftarrow> (if tf_esp tf < exstk \<or> tf_esp tf > exstk_top then Some (exstk_top - 52, k)
       else do {
         k \<leftarrow> store_bytes pgdir (tf_esp tf - 4) (word_bytes 0) k;
         Some (tf_esp tf - 4 - 52, k)
       });
     k \<leftarrow> store_bytes pgdir tmp (concat (map word_bytes (utf_words fault_va tf))) k;
     guard (\<not> (tmp < exstk \<or> tmp > exstk_top));
     Some (tmp, k)
   }"

definition page_fault_handler :: "policy \<Rightarrow> nat \<Rightarrow> 32 word \<Rightarrow> trapframe \<Rightarrow> kernel \<Rightarrow> (outcome option \<times> kernel) option" where
  "page_fault_handler p cpu fault_va tf k = do {
     guard (tf_cs tf AND 3 \<noteq> 0);
     c \<leftarrow> cpu_env k cpu;
     if env_pgfault_upcall (envs k ! c) \<noteq> 0
     then do {
       (r, k) \<leftarrow> user_mem_assert p cpu c (UXSTACKTOP - PGSIZE) PGSIZE (PTE_U OR PTE_W) k;
       case r of
         Some out \<Rightarrow> Some (Some out, k)
       | None \<Rightarrow> do {
           pgdir \<leftarrow> env_pgdir (envs k ! c);
           (tmp, k) \<leftarrow> push_frame pgdir fault_va tf k;
           let k = upd_env c (\<lambda>x. x\<lparr>env_tf := (env_tf x)\<lparr>tf_esp := tmp, tf_eip := env_pgfault_upcall x\<rparr>\<rparr>) k;
           Some (Some (Run c), env_run cpu c k)
         }
     }
     else env_destroy p cpu c k
   }"

section \<open>Dispatch\<close>

abbreviation (input) T_BRKPT :: "32 word" where "T_BRKPT \<equiv> 3"
abbreviation (input) T_PGFLT :: "32 word" where "T_PGFLT \<equiv> 14"
abbreviation (input) T_SYSCALL :: "32 word" where "T_SYSCALL \<equiv> 48"
abbreviation (input) IRQ_OFFSET :: "32 word" where "IRQ_OFFSET \<equiv> 32"
abbreviation (input) IRQ_TIMER :: "32 word" where "IRQ_TIMER \<equiv> 0"
abbreviation (input) IRQ_SPURIOUS :: "32 word" where "IRQ_SPURIOUS \<equiv> 7"

text \<open>
  \<open>frame\<close> names the environment whose saved frame \<^verbatim>\<open>tf\<close> points to; without one the frame is on the kernel stack.
\<close>

definition trap_dispatch :: "policy \<Rightarrow> nat \<Rightarrow> int \<Rightarrow> 32 word \<Rightarrow> nat option \<Rightarrow> trapframe \<Rightarrow> kernel \<Rightarrow> (outcome option \<times> kernel) option" where
  "trap_dispatch p cpu getc cr2 frame tf k =
     (if tf_trapno tf = T_BRKPT then Some (None, k)
      else if tf_trapno tf = T_PGFLT then page_fault_handler p cpu cr2 tf k
      else if tf_trapno tf = T_SYSCALL then do {
        let r = tf_regs tf;
        (s, k) \<leftarrow> syscall p cpu getc (reg_eax r) (reg_edx r) (reg_ecx r) (reg_ebx r) (reg_edi r) (reg_esi r) k;
        Some (case s of
            Gone out \<Rightarrow> (Some out, k)
          | Ret v \<Rightarrow> (None, case frame of
              None \<Rightarrow> k
            | Some c \<Rightarrow> upd_env c (\<lambda>x. x\<lparr>env_tf := (env_tf x)\<lparr>tf_regs := (tf_regs (env_tf x))\<lparr>reg_eax := word_of_int v\<rparr>\<rparr>\<rparr>) k))
      }
      else if tf_trapno tf = IRQ_OFFSET + IRQ_SPURIOUS then Some (None, k)
      else if tf_trapno tf - IRQ_OFFSET = IRQ_TIMER then (let (out, k) = sched_yield p cpu k in Some (Some out, k))
      else if tf_cs tf = GD_KT then None
      else do {
        c \<leftarrow> cpu_env k cpu;
        env_destroy p cpu c k
      })"

definition after_trap :: "policy \<Rightarrow> nat \<Rightarrow> kernel \<Rightarrow> outcome \<times> kernel" where
  "after_trap p cpu k = (case cpu_env k cpu of
     Some c \<Rightarrow> if env_status (envs k ! c) = ENV_RUNNING then (Run c, env_run cpu c k) else sched_yield p cpu k
   | None \<Rightarrow> sched_yield p cpu k)"

definition trap :: "policy \<Rightarrow> nat \<Rightarrow> int \<Rightarrow> 32 word \<Rightarrow> trapframe \<Rightarrow> kernel \<Rightarrow> (outcome \<times> kernel) option" where
  "trap p cpu getc cr2 tf k = do {
     let k = k\<lparr>cpu_halted := (cpu_halted k)(cpu := False)\<rparr>;
     if tf_cs tf AND 3 = 3
     then do {
       c \<leftarrow> cpu_env k cpu;
       if env_status (envs k ! c) = ENV_DYING
       then do {
         k \<leftarrow> env_free c k;
         Some (sched_yield p cpu (k\<lparr>cpu_env := (cpu_env k)(cpu := None)\<rparr>))
       }
       else do {
         let k = upd_env c (\<lambda>x. x\<lparr>env_tf := tf\<rparr>) k;
         (r, k) \<leftarrow> trap_dispatch p cpu getc cr2 (Some c) tf k;
         Some (case r of Some out \<Rightarrow> (out, k) | None \<Rightarrow> after_trap p cpu k)
       }
     }
     else do {
       (r, k) \<leftarrow> trap_dispatch p cpu getc cr2 None tf k;
       Some (case r of Some out \<Rightarrow> (out, k) | None \<Rightarrow> after_trap p cpu k)
     }
   }"

end
