(* ===== verification/Kern_Trap_Props.thy ===== *)
theory Kern_Trap_Props
  imports Kern_Trap Kern_Sys_Inv
begin

unbundle bit_operations_syntax

text \<open>
  Facts about traps: bytes written through the page tables are read back, the frame that the page-fault handler
  pushes, and that traps keep the invariant of the kernel.
\<close>

section \<open>Bytes of a word\<close>

lemma bit_ff: "bit (push_bit s 0xFF :: 32 word) n \<longleftrightarrow> n < 32 \<and> s \<le> n \<and> n < s + 8"
proof -
  have ff: "(0xFF :: 32 word) = mask 8" by (simp add: mask_eq_exp_minus_1)
  show ?thesis unfolding ff bit_push_bit_iff bit_mask_iff by auto
qed

lemma bit_set_byte:
  assumes "n < 32"
  shows "bit (set_byte s b w) n \<longleftrightarrow> (if s \<le> n \<and> n < s + 8 then bit b (n - s) else bit w n)"
proof -
  have "\<not> bit b (n - s)" if "\<not> n < s + 8" "s \<le> n" using that bit_imp_le_length [of b "n - s"] by auto
  then show ?thesis
    using assms unfolding set_byte_def bit_or_iff bit_and_iff bit_not_iff bit_ff
    by (auto simp: bit_push_bit_iff bit_ucast_iff)
qed

definition byte_of :: "32 word \<Rightarrow> nat \<Rightarrow> 8 word" where
  "byte_of w i = ucast (drop_bit (8 * i) w)"

lemma byte_of_set:
  assumes "i < 4" "j < 4"
  shows "byte_of (set_byte (8 * i) b w) j = (if i = j then b else byte_of w j)"
proof (intro bit_eqI)
  fix n
  assume "possible_bit TYPE(8 word) n"
  then have n: "n < 8" by simp
  have lt: "8 * j + n < 32" using assms n by linarith
  have range: "8 * i \<le> 8 * j + n \<and> 8 * j + n < 8 * i + 8 \<longleftrightarrow> i = j" using n by auto
  show "bit (byte_of (set_byte (8 * i) b w) j) n = bit (if i = j then b else byte_of w j) n"
    using n unfolding byte_of_def by (auto simp: bit_ucast_iff bit_drop_bit_eq bit_set_byte [OF lt] range)
qed

section \<open>Bytes of a page\<close>

definition page_byte :: "'a machine_scheme \<Rightarrow> nat \<Rightarrow> nat \<Rightarrow> 8 word" where
  "page_byte m p off = byte_of (pmem m p (off div 4)) (off mod 4)"

definition put_byte :: "nat \<Rightarrow> nat \<Rightarrow> 8 word \<Rightarrow> 'a machine_scheme \<Rightarrow> 'a machine_scheme" where
  "put_byte p off b m = put_word p (off div 4) (set_byte (8 * (off mod 4)) b (pmem m p (off div 4))) m"

lemma page_byte_put: "page_byte (put_byte p off b m) p x = (if x = off then b else page_byte m p x)"
proof (cases "x div 4 = off div 4")
  case True
  then have "x = off \<longleftrightarrow> x mod 4 = off mod 4" by (metis div_mult_mod_eq)
  then show ?thesis using True by (simp add: page_byte_def put_byte_def byte_of_set)
next
  case False
  then show ?thesis by (auto simp: page_byte_def put_byte_def)
qed

definition PGOFF :: "32 word \<Rightarrow> nat" where "PGOFF va = unat va mod 4096"

lemma low_bits: "unat (va AND 0xFFF :: 32 word) = PGOFF va"
proof -
  have "va AND 0xFFF = take_bit 12 va" by (simp add: take_bit_eq_mask mask_eq_exp_minus_1)
  then show ?thesis by (simp add: PGOFF_def take_bit_eq_mod unat_mod_distrib)
qed

lemma user_entry_of_eq:
  assumes "mem_inv m D K xs ex" "d \<in> D" "va < UTOP"
  shows "user_entry_of d va m = (if entry m d va AND PTE_P \<noteq> 0 then Some (entry m d va) else None)"
  using pgdir_walk_False(1) [OF assms] by (simp add: user_entry_of_def entry_def)

lemma data_write_inv:
  assumes inv: "mem_inv m D K xs ex" and p: "p \<notin> D" "\<not> is_table m D p"
  shows "mem_inv (put_word p i w m) D K xs ex" "d \<in> D \<Longrightarrow> va < UTOP \<Longrightarrow> entry (put_word p i w m) d va = entry m d va"
    "is_table (put_word p i w m) D = is_table m D"
proof -
  have f: "pl.free_listed (put_word p i w m) xs" using mem_invD(3) [OF inv] by (subst free_listed_meta [of _ m]) simp_all
  show "mem_inv (put_word p i w m) D K xs ex"
    by (rule mem_invI [OF inv _ _ _ f]) (use p mem_invD(4,5,10,11) [OF inv] in auto)
  show "is_table (put_word p i w m) D = is_table m D" using p by (intro same_memory(1)) auto
  show "entry (put_word p i w m) d va = entry m d va" if "d \<in> D" "va < UTOP"
  proof -
    have dir: "pmem (put_word p i w m) d (PDX va) = pmem m d (PDX va)" using p(1) that(1) by auto
    have "PGNUM (pmem m d (PDX va)) \<noteq> p" if "pmem m d (PDX va) \<noteq> 0"
      using pgdir_walk_False(2) [OF inv \<open>d \<in> D\<close> \<open>va < UTOP\<close> that] p(2) by blast
    then show ?thesis unfolding entry_def dir by auto
  qed
qed

text \<open>\<open>mapped m D d va p\<close>: the address is mapped, present and writable, to the data page \<open>p\<close>.\<close>

definition mapped :: "'a machine_scheme \<Rightarrow> nat set \<Rightarrow> nat \<Rightarrow> 32 word \<Rightarrow> nat \<Rightarrow> bool" where
  "mapped m D d va p \<longleftrightarrow> d \<in> D \<and> va < UTOP \<and> entry m d va AND PTE_P \<noteq> 0 \<and> entry m d va AND PTE_W \<noteq> 0 \<and>
     PGNUM (entry m d va) = p"

lemma mapped_page:
  assumes inv: "mem_inv m D K xs ex" and m: "mapped m D d va p"
  shows "p < npages m" "p \<notin> K" "p \<notin> D" "\<not> is_table m D p" "p \<notin> set xs"
proof -
  have d: "d \<in> D" "va < UTOP" "entry m d va \<noteq> 0" "PGNUM (entry m d va) = p" using m by (auto simp: mapped_def)
  note ref = entry_refers(1) [OF inv d(1-3)]
  show "p < npages m" "p \<notin> K" "p \<notin> D" "\<not> is_table m D p" using mem_invD(9) [OF inv ref] d(4) by simp_all
  show "p \<notin> set xs" using free_page(1) [OF inv, of p] ref d(4) unfolding sites_def by blast
qed

lemma load_byte_mapped:
  assumes inv: "mem_inv m D K xs ex" and m: "mapped m D d va p"
  shows "load_byte d va m = Some (page_byte m p (PGOFF va))"
  using user_entry_of_eq [OF inv] m mapped_page(1) [OF assms]
  by (simp add: load_byte_def mapped_def pa2page_def page_byte_def byte_of_def byte_shift_def word_index_def low_bits)

lemma store_byte_mapped:
  assumes inv: "mem_inv m D K xs ex" and m: "mapped m D d va p"
  shows "store_byte d va b m = Some (put_byte p (PGOFF va) b m)"
  using user_entry_of_eq [OF inv] m mapped_page(1) [OF assms]
  by (simp add: store_byte_def mapped_def pa2page_def put_byte_def byte_shift_def word_index_def low_bits)

text \<open>Writing bytes within one page.\<close>

lemma put_byte_fields [simp]:
  "npages (put_byte p off b m) = npages m" "pages (put_byte p off b m) = pages m" "machine.more (put_byte p off b m) = machine.more m"
  "q \<noteq> p \<Longrightarrow> pmem (put_byte p off b m) q = pmem m q"
  by (simp_all add: put_byte_def put_word_def npages_def)

lemma same_page_entry: "PGNUM va' = PGNUM va \<Longrightarrow> mapped m D d va p \<Longrightarrow> va' < UTOP \<Longrightarrow> mapped m D d va' p"
  using entry_same_page [of va' va m d] by (simp add: mapped_def)

lemma next_in_page:
  assumes "PGOFF va + 1 < 4096"
  shows "PGNUM (va + 1) = PGNUM va" "PGOFF (va + 1) = PGOFF va + 1"
proof -
  have "unat va < 2 ^ LENGTH(32)" by (rule unsigned_less)
  have "unat va + 1 < 2 ^ 32"
  proof (rule ccontr)
    assume "\<not> unat va + 1 < 2 ^ 32"
    then have "unat va = 4294967295" using \<open>unat va < 2 ^ LENGTH(32)\<close> by simp
    then show False using assms by (simp add: PGOFF_def)
  qed
  then have u: "unat (va + 1) = unat va + 1" by (simp add: unat_word_ariths)
  have m: "(unat va + 1) mod 4096 = unat va mod 4096 + 1" using assms unfolding PGOFF_def by (simp add: mod_Suc)
  then show "PGOFF (va + 1) = PGOFF va + 1" by (simp add: PGOFF_def u)
  have q: "(q * 4096 + r) div 4096 = q" if "r < 4096" for q r :: nat using that by simp
  have "unat va mod 4096 + 1 < 4096" using assms by (simp add: PGOFF_def)
  from q [OF this, of "unat va div 4096"] have "(unat va + 1) div 4096 = unat va div 4096"
    by (simp only: add.assoc [symmetric] div_mult_mod_eq)
  then show "PGNUM (va + 1) = PGNUM va" by (simp add: PGNUM_div u)
qed

lemma below_UTOP_page: "PGNUM va' = PGNUM va \<Longrightarrow> va < UTOP \<Longrightarrow> va' < UTOP"
proof -
  assume "PGNUM va' = PGNUM va" "va < UTOP"
  then have "unat va' div 4096 = unat va div 4096" "unat va < 977920 * 4096" by (simp_all add: PGNUM_div word_less_nat_alt)
  then have "unat va' div 4096 < 977920" by (simp add: less_mult_imp_div_less)
  then have "unat va' < 977920 * 4096" by (metis div_less_iff_less_mult zero_less_numeral)
  then show ?thesis by (simp add: word_less_nat_alt)
qed

lemma put_byte_inv:
  assumes inv: "mem_inv m D K xs ex" and m: "mapped m D d va p"
  shows "mem_inv (put_byte p off b m) D K xs ex" "mapped (put_byte p off b m) D d va p"
    "d' \<in> D \<Longrightarrow> va' < UTOP \<Longrightarrow> entry (put_byte p off b m) d' va' = entry m d' va'"
proof -
  note w = data_write_inv [OF inv mapped_page(3,4) [OF inv m], where i = "off div 4" and w = "set_byte (8 * (off mod 4)) b (pmem m p (off div 4))"]
  show "mem_inv (put_byte p off b m) D K xs ex" using w(1) by (simp add: put_byte_def)
  show "entry (put_byte p off b m) d' va' = entry m d' va'" if "d' \<in> D" "va' < UTOP" using w(2) [OF that] by (simp add: put_byte_def)
  show "mapped (put_byte p off b m) D d va p" using m w(2) [of d va] by (simp add: mapped_def put_byte_def)
qed

lemma store_bytes_mapped:
  assumes "mem_inv m D K xs ex" "mapped m D d va p" "PGOFF va + length bs \<le> 4096"
  shows "\<exists>m'. store_bytes d va bs m = Some m' \<and> mem_inv m' D K xs ex \<and> machine.more m' = machine.more m \<and>
    mapped m' D d va p \<and> (\<forall>q. q \<noteq> p \<longrightarrow> pmem m' q = pmem m q) \<and> pages m' = pages m \<and>
    (\<forall>x. page_byte m' p x = (if PGOFF va \<le> x \<and> x < PGOFF va + length bs then bs ! (x - PGOFF va) else page_byte m p x))"
  using assms
proof (induction bs arbitrary: va m)
  case (Cons b bs)
  let ?m = "put_byte p (PGOFF va) b m"
  note inv = Cons.prems(1,2)
  have st: "store_byte d va b m = Some ?m" by (rule store_byte_mapped [OF inv])
  note i1 = put_byte_inv [OF inv, where off = "PGOFF va" and b = b]
  show ?case
  proof (cases "bs = []")
    case True
    then show ?thesis using st i1 by (auto simp: page_byte_put)
  next
    case False
    then have lt: "PGOFF va + 1 < 4096" using Cons.prems(3) by (cases bs) auto
    note nx = next_in_page [OF lt]
    have va: "va < UTOP" using inv(2) by (simp add: mapped_def)
    have m1: "mapped ?m D d (va + 1) p" by (rule same_page_entry [OF nx(1) i1(2) below_UTOP_page [OF nx(1) va]])
    obtain m' where m': "store_bytes d (va + 1) bs ?m = Some m'" "mem_inv m' D K xs ex" "machine.more m' = machine.more ?m"
      "mapped m' D d (va + 1) p" "\<forall>q. q \<noteq> p \<longrightarrow> pmem m' q = pmem ?m q" "pages m' = pages ?m"
      "\<forall>x. page_byte m' p x = (if PGOFF (va + 1) \<le> x \<and> x < PGOFF (va + 1) + length bs then bs ! (x - PGOFF (va + 1)) else page_byte ?m p x)"
      using Cons.IH [OF i1(1) m1] Cons.prems(3) nx(2) by auto
    have "page_byte m' p x = (if PGOFF va \<le> x \<and> x < PGOFF va + length (b # bs) then (b # bs) ! (x - PGOFF va) else page_byte m p x)" for x
    proof (cases "x = PGOFF va")
      case True
      then show ?thesis using m'(7) nx(2) by (simp add: page_byte_put)
    next
      case False
      have nth: "(b # bs) ! (x - PGOFF va) = bs ! (x - (PGOFF va + 1))" if "PGOFF va + 1 \<le> x"
      proof -
        have "x - PGOFF va = Suc (x - (PGOFF va + 1))" using that by arith
        then show ?thesis by (simp only: nth_Cons_Suc)
      qed
      have eq: "PGOFF va \<le> x \<and> x < PGOFF va + length (b # bs) \<longleftrightarrow> PGOFF va + 1 \<le> x \<and> x < PGOFF va + 1 + length bs"
        using False by auto
      show ?thesis unfolding eq m'(7) [rule_format, of x] nx(2) page_byte_put using False nth by simp
    qed
    moreover have "mapped m' D d va p" by (rule same_page_entry [OF nx(1) [symmetric] m'(4) va])
    ultimately show ?thesis using st m' by (intro exI [of _ m']) simp
  qed
qed auto

lemma load_bytes_mapped:
  assumes "mem_inv m D K xs ex" "mapped m D d va p" "PGOFF va + n \<le> 4096"
  shows "load_bytes d va n m = Some (map (\<lambda>i. page_byte m p (PGOFF va + i)) [0..<n])"
  using assms
proof (induction n arbitrary: va)
  case (Suc n)
  have b: "load_byte d va m = Some (page_byte m p (PGOFF va))" by (rule load_byte_mapped [OF Suc.prems(1,2)])
  show ?case
  proof (cases "n = 0")
    case True
    then show ?thesis using b by simp
  next
    case False
    then have lt: "PGOFF va + 1 < 4096" using Suc.prems(3) by simp
    note nx = next_in_page [OF lt]
    have va: "va < UTOP" using Suc.prems(2) by (simp add: mapped_def)
    have m1: "mapped m D d (va + 1) p" by (rule same_page_entry [OF nx(1) Suc.prems(2) below_UTOP_page [OF nx(1) va]])
    have "load_bytes d (va + 1) n m = Some (map (\<lambda>i. page_byte m p (PGOFF va + Suc i)) [0..<n])"
      using Suc.IH [OF Suc.prems(1) m1] Suc.prems(3) nx(2) by simp
    moreover have "map (\<lambda>i. page_byte m p (PGOFF va + i)) [0..<Suc n] =
        page_byte m p (PGOFF va) # map (\<lambda>i. page_byte m p (PGOFF va + Suc i)) [0..<n]"
      by (simp only: upt_conv_Cons [OF zero_less_Suc] list.map add_0_right map_Suc_upt [symmetric] map_map comp_def)
    ultimately show ?thesis using b by simp
  qed
qed simp

section \<open>The frame of a page fault\<close>

abbreviation (input) exstk :: "32 word" where "exstk \<equiv> 0xEEBFF000"

definition on_exstk :: "32 word \<Rightarrow> bool" where
  "on_exstk esp \<longleftrightarrow> exstk \<le> esp \<and> esp < UTOP"

lemma exstk_page:
  assumes "on_exstk w"
  shows "PGNUM w = PGNUM exstk" "unat w = 4005556224 + PGOFF w" "PGOFF w < 4096"
proof -
  have u: "4005556224 \<le> unat w" "unat w < 4005560320" using assms by (simp_all add: on_exstk_def word_le_nat_alt word_less_nat_alt)
  then have d: "unat w div 4096 = 977919" by (intro div_nat_eqI) simp_all
  then show "PGNUM w = PGNUM exstk" by (simp add: PGNUM_div)
  have "unat w = unat w div 4096 * 4096 + unat w mod 4096" by simp
  then show "unat w = 4005556224 + PGOFF w" unfolding d PGOFF_def by simp
  show "PGOFF w < 4096" by (simp add: PGOFF_def)
qed

lemma exstk_sub:
  assumes "on_exstk w" "n \<le> PGOFF w"
  shows "on_exstk (w - of_nat n)" "PGOFF (w - of_nat n) = PGOFF w - n"
proof -
  note x = exstk_page [OF assms(1)]
  have n: "unat (of_nat n :: 32 word) = n" using assms(2) x(3) by (simp add: unat_of_nat)
  have "(of_nat n :: 32 word) \<le> w" using assms(2) x(2) n by (simp add: word_le_nat_alt)
  then have u: "unat (w - of_nat n) = 4005556224 + (PGOFF w - n)" using assms(2) x(2) n by (simp add: unat_sub)
  then show o: "on_exstk (w - of_nat n)" using x(3) by (simp add: on_exstk_def word_le_nat_alt word_less_nat_alt)
  show "PGOFF (w - of_nat n) = PGOFF w - n" using exstk_page(2) [OF o] u by simp
qed

lemma mapped_exstk: "mapped m D d exstk p \<Longrightarrow> on_exstk w \<Longrightarrow> mapped m D d w p"
  using same_page_entry [of w exstk m D d p] exstk_page(1) [of w] by (simp add: on_exstk_def)

lemma frame_length: "length (concat (map word_bytes (utf_words va tf))) = 52"
  by (simp add: utf_words_def regs_words_def word_bytes_def)

lemma store_load:
  assumes "mem_inv m D K xs ex" "mapped m D d va p" "PGOFF va + length bs \<le> 4096"
  shows "\<exists>m'. store_bytes d va bs m = Some m' \<and> mem_inv m' D K xs ex \<and> machine.more m' = machine.more m \<and>
    mapped m' D d va p \<and> (\<forall>q. q \<noteq> p \<longrightarrow> pmem m' q = pmem m q) \<and> pages m' = pages m \<and>
    load_bytes d va (length bs) m' = Some bs"
proof -
  obtain m' where m': "store_bytes d va bs m = Some m'" "mem_inv m' D K xs ex" "machine.more m' = machine.more m"
    "mapped m' D d va p" "\<forall>q. q \<noteq> p \<longrightarrow> pmem m' q = pmem m q" "pages m' = pages m"
    "\<forall>x. page_byte m' p x = (if PGOFF va \<le> x \<and> x < PGOFF va + length bs then bs ! (x - PGOFF va) else page_byte m p x)"
    using store_bytes_mapped [OF assms] by blast
  have "map (\<lambda>i. page_byte m' p (PGOFF va + i)) [0..<length bs] = bs"
    using m'(7) by (intro nth_equalityI) simp_all
  then show ?thesis using m' load_bytes_mapped [OF m'(2,4) assms(3)] by auto
qed

text \<open>Where the frame goes: below a spare word on the exception stack, or at its top.\<close>

definition frame_addr :: "32 word \<Rightarrow> 32 word" where
  "frame_addr esp = (if on_exstk esp then esp - 56 else UTOP - 53)"

lemma push_frame_spec:
  assumes inv: "mem_inv k D K xs ex" and m: "mapped k D d exstk p"
    and room: "on_exstk (tf_esp tf) \<Longrightarrow> 56 \<le> PGOFF (tf_esp tf)"
  shows "\<exists>k'. push_frame d va tf k = Some (frame_addr (tf_esp tf), k') \<and> mem_inv k' D K xs ex \<and>
    machine.more k' = machine.more k \<and> (\<forall>q. q \<noteq> p \<longrightarrow> pmem k' q = pmem k q) \<and>
    load_bytes d (frame_addr (tf_esp tf)) 52 k' = Some (concat (map word_bytes (utf_words va tf)))"
proof -
  let ?bs = "concat (map word_bytes (utf_words va tf))" and ?tmp = "frame_addr (tf_esp tf)"
  have out: "tf_esp tf < exstk \<or> tf_esp tf > UTOP - 1 \<longleftrightarrow> \<not> on_exstk (tf_esp tf)"
  proof -
    have "tf_esp tf > UTOP - 1 \<longleftrightarrow> \<not> tf_esp tf < UTOP" by (simp add: word_less_nat_alt) arith
    then show ?thesis by (auto simp: on_exstk_def not_less)
  qed
  have tmp: "on_exstk ?tmp" "PGOFF ?tmp + 52 \<le> 4096"
  proof -
    have top: "on_exstk (UTOP - 53)" "PGOFF (UTOP - 53) = 4043" by (simp_all add: on_exstk_def PGOFF_def)
    show "on_exstk ?tmp" using top exstk_sub(1) [of "tf_esp tf" 56] room by (auto simp: frame_addr_def)
    show "PGOFF ?tmp + 52 \<le> 4096"
      using top exstk_sub(2) [of "tf_esp tf" 56] room exstk_page(3) [of "tf_esp tf"] by (auto simp: frame_addr_def)
  qed
  obtain k1 where k1: "mem_inv k1 D K xs ex" "machine.more k1 = machine.more k" "mapped k1 D d exstk p" "\<forall>q. q \<noteq> p \<longrightarrow> pmem k1 q = pmem k q"
    and step: "(if tf_esp tf < exstk \<or> tf_esp tf > UTOP - 1 then Some (UTOP - 1 - 52, k)
       else do {
         k \<leftarrow> store_bytes d (tf_esp tf - 4) (word_bytes 0) k;
         Some (tf_esp tf - 4 - 52, k)
       }) = Some (?tmp, k1)"
  proof (cases "on_exstk (tf_esp tf)")
    case False
    then show ?thesis using that [of k] inv m out by (simp add: frame_addr_def)
  next
    case True
    have w: "on_exstk (tf_esp tf - 4)" "PGOFF (tf_esp tf - 4) + length (word_bytes 0) \<le> 4096"
      using exstk_sub [OF True, of 4] room [OF True] exstk_page(3) [OF True] by (simp_all add: word_bytes_def)
    obtain k1 where "store_bytes d (tf_esp tf - 4) (word_bytes 0) k = Some k1" "mem_inv k1 D K xs ex"
      "machine.more k1 = machine.more k" "mapped k1 D d (tf_esp tf - 4) p" "\<forall>q. q \<noteq> p \<longrightarrow> pmem k1 q = pmem k q"
      using store_load [OF inv mapped_exstk [OF m w(1)] w(2)] by blast
    moreover have "mapped k1 D d exstk p"
      using same_page_entry [OF exstk_page(1) [OF w(1), symmetric] calculation(4)] by simp
    ultimately show ?thesis using that [of k1] True out by (simp add: frame_addr_def)
  qed
  obtain k2 where k2: "store_bytes d ?tmp ?bs k1 = Some k2" "mem_inv k2 D K xs ex" "machine.more k2 = machine.more k1"
    "\<forall>q. q \<noteq> p \<longrightarrow> pmem k2 q = pmem k1 q" "load_bytes d ?tmp 52 k2 = Some ?bs"
    using store_load [OF k1(1) mapped_exstk [OF k1(3) tmp(1)], of ?bs] tmp(2) unfolding frame_length by blast
  have "\<not> (?tmp < exstk \<or> ?tmp > UTOP - 1)" using tmp(1) by (auto simp: on_exstk_def word_less_nat_alt word_le_nat_alt)
  then have "push_frame d va tf k = Some (?tmp, k2)"
    unfolding push_frame_def Let_def using step k2(1) by simp
  then show ?thesis using k1 k2 by auto
qed

lemma allows_bits:
  assumes "allows (PTE_U OR PTE_W) w"
  shows "w AND PTE_P \<noteq> 0" "w AND PTE_W \<noteq> 0"
proof -
  have w: "w AND 7 = 7" using assms by (simp add: allows_def)
  have "w AND PTE_P = (w AND 7) AND PTE_P" "w AND PTE_W = (w AND 7) AND PTE_W" by (simp_all add: and.assoc)
  then show "w AND PTE_P \<noteq> 0" "w AND PTE_W \<noteq> 0" by (simp_all add: w)
qed

lemma exstk_check:
  assumes inv: "mem_inv k D K xs ex" "d \<in> D"
  shows "\<exists>r addr. user_mem_check d exstk PGSIZE (PTE_U OR PTE_W OR PTE_U) k = Some (r, addr) \<and>
    (r < 0 \<longleftrightarrow> \<not> allows (PTE_U OR PTE_W) (entry k d exstk))"
proof -
  obtain r addr where r: "user_mem_check d exstk PGSIZE (PTE_U OR PTE_W OR PTE_U) k = Some (r, addr)" "r = 0 \<or> r = - E_FAULT"
    "r = 0 \<longleftrightarrow> unat exstk + unat PGSIZE \<le> unat UTOP \<and>
      (\<forall>a. unat exstk \<le> unat a \<and> unat a < unat exstk + unat PGSIZE \<longrightarrow> allows (PTE_U OR PTE_W OR PTE_U) (entry k d a))"
    using user_mem_check_spec [OF inv, of PGSIZE exstk "PTE_U OR PTE_W OR PTE_U"] by auto
  have same: "entry k d a = entry k d exstk" if "unat exstk \<le> unat a" "unat a < unat exstk + unat PGSIZE" for a
    using that by (intro entry_same_page exstk_page(1)) (simp add: on_exstk_def word_le_nat_alt word_less_nat_alt)
  have perm: "PTE_U OR PTE_W OR PTE_U = PTE_U OR PTE_W" by simp
  have "(\<forall>a. unat exstk \<le> unat a \<and> unat a < unat exstk + unat PGSIZE \<longrightarrow> allows (PTE_U OR PTE_W OR PTE_U) (entry k d a)) \<longleftrightarrow>
      allows (PTE_U OR PTE_W) (entry k d exstk)" (is "?L \<longleftrightarrow> ?R")
  proof
    assume ?L
    moreover have "unat exstk \<le> unat exstk \<and> unat exstk < unat exstk + unat PGSIZE" by simp
    ultimately show ?R unfolding perm by blast
  next
    assume ?R
    then show ?L unfolding perm using same by metis
  qed
  moreover have "unat exstk + unat PGSIZE \<le> unat UTOP" by simp
  ultimately have "r = 0 \<longleftrightarrow> allows (PTE_U OR PTE_W) (entry k d exstk)" using r(3) by blast
  then show ?thesis using r(1,2) by auto
qed

lemma page_fault_frame:
  assumes inv: "kern_inv cpu K k" and cur: "cpu_env k cpu = Some c" and up: "env_pgfault_upcall (envs k ! c) \<noteq> 0"
    and d: "env_pgdir (envs k ! c) = Some d" and st: "allows (PTE_U OR PTE_W) (entry k d exstk)"
    and cs: "tf_cs tf AND 3 \<noteq> 0" and room: "on_exstk (tf_esp tf) \<Longrightarrow> 56 \<le> PGOFF (tf_esp tf)"
  shows "\<exists>k'. page_fault_handler p cpu va tf k = Some (Some (Run c), k') \<and> kern_inv cpu K k' \<and>
    tf_eip (env_tf (envs k' ! c)) = env_pgfault_upcall (envs k ! c) \<and> tf_esp (env_tf (envs k' ! c)) = frame_addr (tf_esp tf) \<and>
    load_bytes d (frame_addr (tf_esp tf)) 52 k' = Some (concat (map word_bytes (utf_words va tf)))"
proof -
  obtain fs xs where fx: "envs_inv k fs" "mem_inv k (dirs k) K xs (\<lambda>_. 0)" using inv by (rule kern_invE)
  note c = kern_invD(4) [OF inv cur]
  have cn: "c < NENV" using c by (simp add: used_def)
  have dd: "d \<in> dirs k" using kern_invD(9) [OF inv c] d by simp
  obtain r a where chk: "user_mem_check d exstk PGSIZE (PTE_U OR PTE_W OR PTE_U) k = Some (r, a)" "\<not> r < 0"
    using exstk_check [OF fx(2) dd] st by blast
  have m: "mapped k (dirs k) d exstk (PGNUM (entry k d exstk))" using dd allows_bits [OF st] by (simp add: mapped_def)
  obtain k1 where k1: "push_frame d va tf k = Some (frame_addr (tf_esp tf), k1)" "mem_inv k1 (dirs k) K xs (\<lambda>_. 0)"
    "machine.more k1 = machine.more k" "\<forall>q. q \<noteq> PGNUM (entry k d exstk) \<longrightarrow> pmem k1 q = pmem k q"
    "load_bytes d (frame_addr (tf_esp tf)) 52 k1 = Some (concat (map word_bytes (utf_words va tf)))"
    using push_frame_spec [OF fx(2) m room] by blast
  have i1: "kern_inv cpu K k1"
    by (rule kern_inv_mem [OF inv k1(2,3)]) (use k1(4) mapped_page(2) [OF fx(2) m] in metis)
  note f = more_kernel [OF k1(3)]
  let ?g = "\<lambda>x. x\<lparr>env_tf := (env_tf x)\<lparr>tf_esp := frame_addr (tf_esp tf), tf_eip := env_pgfault_upcall x\<rparr>\<rparr>"
  let ?k2 = "upd_env c ?g k1" and ?k3 = "env_run cpu c (upd_env c ?g k1)"
  have i2: "kern_inv cpu K ?k2" by (rule kern_inv_tweak [OF i1]) simp_all
  have len: "length (envs k1) = NENV" by (rule kern_invD(5) [OF i1])
  have "used ?k2 c" using c f(1) len by (simp add: used_def)
  then have i3: "kern_inv cpu K ?k3" by (rule env_run_inv [OF i2])
  have "page_fault_handler p cpu va tf k = Some (Some (Run c), ?k3)"
    using cs cur up d chk k1(1) by (simp add: page_fault_handler_def user_mem_assert_def)
  moreover have "envs ?k3 ! c = (?g (envs k ! c))\<lparr>env_status := ENV_RUNNING, env_runs := env_runs (envs k ! c) + 1, env_cpunum := cpu\<rparr>"
    using env_run_nth [of ?k2 c cpu c] len cn f(1) by simp
  moreover have "load_bytes d w n ?k3 = load_bytes d w n k1" for w n
  proof (induction n arbitrary: w)
    case (Suc n)
    have "pages ?k3 = pages k1" "pmem ?k3 = pmem k1" by (simp_all add: env_run_fields)
    then have "load_byte d w ?k3 = load_byte d w k1"
      by (simp add: load_byte_def user_entry_of_def pgdir_walk_def Let_def pa2page_def npages_def split: option.split)
    then show ?case using Suc by simp
  qed simp
  ultimately show ?thesis using i3 k1(5) by (intro exI [of _ ?k3]) simp
qed

text \<open>A fault too near the bottom of the exception stack brings the kernel down.\<close>

lemma push_frame_overflow:
  assumes "on_exstk (tf_esp tf)" "PGOFF (tf_esp tf) < 56"
  shows "push_frame d va tf k = None"
proof -
  note x = exstk_page [OF assms(1)]
  have u: "unat (tf_esp tf - 56) = 4005556168 + PGOFF (tf_esp tf)"
    using x(2) by (subst unat_sub) (simp_all add: word_le_nat_alt)
  have "tf_esp tf - 56 < exstk" using u assms(2) by (simp add: word_less_nat_alt)
  moreover have "\<not> (tf_esp tf < exstk \<or> tf_esp tf > UTOP - 1)"
    using assms(1) by (auto simp: on_exstk_def word_less_nat_alt word_le_nat_alt)
  ultimately show ?thesis
    unfolding push_frame_def Let_def
    by (simp add: bind_eq_None_conv)
qed

lemma page_fault_overflow:
  assumes inv: "kern_inv cpu K k" and cur: "cpu_env k cpu = Some c" and up: "env_pgfault_upcall (envs k ! c) \<noteq> 0"
    and d: "env_pgdir (envs k ! c) = Some d" and st: "allows (PTE_U OR PTE_W) (entry k d exstk)"
    and esp: "on_exstk (tf_esp tf)" "PGOFF (tf_esp tf) < 56"
  shows "page_fault_handler p cpu va tf k = None"
proof -
  obtain fs xs where fx: "envs_inv k fs" "mem_inv k (dirs k) K xs (\<lambda>_. 0)" using inv by (rule kern_invE)
  have dd: "d \<in> dirs k" using kern_invD(9) [OF inv kern_invD(4) [OF inv cur]] d by simp
  obtain r a where "user_mem_check d exstk PGSIZE (PTE_U OR PTE_W OR PTE_U) k = Some (r, a)" "\<not> r < 0"
    using exstk_check [OF fx(2) dd] st by blast
  then show ?thesis
    using cur up d push_frame_overflow [OF esp] by (simp add: page_fault_handler_def user_mem_assert_def)
qed

section \<open>Traps keep the invariant\<close>

lemma env_destroy_current:
  assumes "kern_inv cpu K k" "cpu_env k cpu = Some c"
  shows "\<exists>out k'. env_destroy p cpu c k = Some (Some out, k') \<and> kern_inv cpu K k'"
proof -
  obtain r k' where d: "env_destroy p cpu c k = Some (r, k')" "kern_inv cpu K k'"
    using env_destroy_inv [OF assms(1) kern_invD(4) [OF assms]] by blast
  obtain k1 where "env_free c k = Some k1" "cpu_env k1 = cpu_env k" using env_free_inv [OF assms(1) kern_invD(4) [OF assms]] by blast
  then show ?thesis using d assms(2) by (cases r) (auto simp: env_destroy_def Let_def split: prod.splits)
qed

lemma page_fault_kept:
  assumes inv: "kern_inv cpu K k" and cur: "cpu_env k cpu = Some c" and cs: "tf_cs tf AND 3 \<noteq> 0"
    and room: "on_exstk (tf_esp tf) \<Longrightarrow> 56 \<le> PGOFF (tf_esp tf)"
  shows "\<exists>out k'. page_fault_handler p cpu va tf k = Some (Some out, k') \<and> kern_inv cpu K k'"
proof -
  obtain d where d: "env_pgdir (envs k ! c) = Some d" "d \<in> dirs k" using kern_invD(9) [OF inv kern_invD(4) [OF inv cur]] by blast
  obtain fs xs where fx: "envs_inv k fs" "mem_inv k (dirs k) K xs (\<lambda>_. 0)" using inv by (rule kern_invE)
  obtain out k' where gone: "env_destroy p cpu c k = Some (Some out, k')" "kern_inv cpu K k'"
    using env_destroy_current [OF inv cur] by blast
  consider (none) "env_pgfault_upcall (envs k ! c) = 0"
    | (frame) "env_pgfault_upcall (envs k ! c) \<noteq> 0" "allows (PTE_U OR PTE_W) (entry k d exstk)"
    | (bad) "env_pgfault_upcall (envs k ! c) \<noteq> 0" "\<not> allows (PTE_U OR PTE_W) (entry k d exstk)" by blast
  then show ?thesis
  proof cases
    case none
    then show ?thesis using cs cur gone by (simp add: page_fault_handler_def)
  next
    case frame
    then show ?thesis using page_fault_frame [OF inv cur frame(1) d(1) frame(2) cs room] by blast
  next
    case bad
    obtain r a where "user_mem_check d exstk PGSIZE (PTE_U OR PTE_W OR PTE_U) k = Some (r, a)" "r < 0"
      using exstk_check [OF fx(2) d(2)] bad(2) by blast
    then show ?thesis using bad(1) cs cur gone d(1) by (simp add: page_fault_handler_def user_mem_assert_def)
  qed
qed

text \<open>What a trap from user mode may not do for the kernel to survive it.\<close>

definition benign :: "nat \<Rightarrow> trapframe \<Rightarrow> kernel \<Rightarrow> bool" where
  "benign c tf k \<longleftrightarrow>
     (tf_trapno tf = T_PGFLT \<and> on_exstk (tf_esp tf) \<longrightarrow> 56 \<le> PGOFF (tf_esp tf)) \<and>
     (tf_trapno tf = T_SYSCALL \<longrightarrow>
       (\<forall>p < npages k. unat (pp_ref (pages k ! p)) < 65534) \<and>
       (reg_eax (tf_regs tf) = 6 \<longrightarrow> drop_bit 12 (reg_esi (tf_regs tf)) = 0) \<and>
       (reg_eax (tf_regs tf) = 12 \<and> reg_ebx (tf_regs tf) < UTOP \<longrightarrow>
         (\<forall>d. env_pgdir (envs k ! c) = Some d \<longrightarrow> entry k d (reg_ebx (tf_regs tf)) \<noteq> 0)))"

lemma trap_dispatch_kept:
  assumes inv: "kern_inv cpu K k" and cur: "cpu_env k cpu = Some c" and cs: "tf_cs tf AND 3 = 3" and ok: "benign c tf k"
  shows "kept cpu K (trap_dispatch p cpu getc cr2 (Some c) tf k)"
proof -
  let ?r = "tf_regs tf"
  have cs0: "tf_cs tf AND 3 \<noteq> 0" "tf_cs tf \<noteq> 8" using cs by auto
  have fault: "kept cpu K (page_fault_handler p cpu cr2 tf k)" if "tf_trapno tf = T_PGFLT"
    using page_fault_kept [OF inv cur cs0(1), of p cr2] ok that unfolding benign_def kept_def by blast
  have yld: "kept cpu K (let (out, k) = sched_yield p cpu k in Some (Some out, k))"
    using sched_yield_inv [OF inv, of p] by (auto simp: kept_def split: prod.splits)
  have gone: "kept cpu K (env_destroy p cpu c k)"
    using env_destroy_current [OF inv cur, of p] unfolding kept_def by blast
  show ?thesis
  proof (cases "tf_trapno tf = T_SYSCALL")
    case True
    have ok': "\<forall>p < npages k. unat (pp_ref (pages k ! p)) < 65534" "reg_eax ?r = 6 \<longrightarrow> drop_bit 12 (reg_esi ?r) = 0"
      "reg_eax ?r = 12 \<and> reg_ebx ?r < UTOP \<longrightarrow> (\<forall>d. env_pgdir (envs k ! c) = Some d \<longrightarrow> entry k d (reg_ebx ?r) \<noteq> 0)"
      using ok True unfolding benign_def by blast+
    obtain s k' where s: "syscall p cpu getc (reg_eax ?r) (reg_edx ?r) (reg_ecx ?r) (reg_ebx ?r) (reg_edi ?r) (reg_esi ?r) k = Some (s, k')"
      "kern_inv cpu K k'"
      using syscall_kept [OF inv cur, of "reg_eax ?r" "reg_esi ?r" "reg_ebx ?r"] ok' unfolding kept_def by blast
    have "kern_inv cpu K (upd_env c (\<lambda>x. x\<lparr>env_tf := (env_tf x)\<lparr>tf_regs := (tf_regs (env_tf x))\<lparr>reg_eax := word_of_int v\<rparr>\<rparr>\<rparr>) k')" for v
      by (rule kern_inv_tweak [OF s(2)]) simp_all
    then show ?thesis using True s by (auto simp: trap_dispatch_def Let_def kept_def split: sysret.split)
  next
    case False
    then show ?thesis unfolding trap_dispatch_def using fault yld gone inv cur cs0 by (auto simp: keptI)
  qed
qed

lemma after_trap_kept:
  assumes "kern_inv cpu K k"
  shows "kern_inv cpu K (snd (after_trap p cpu k))"
  using sched_yield_inv [OF assms, of p] env_run_inv [OF assms] kern_invD(4) [OF assms]
  by (auto simp: after_trap_def split: option.split)

lemma trap_kept:
  assumes inv: "kern_inv cpu K k" and cur: "cpu_env k cpu = Some c" and cs: "tf_cs tf AND 3 = 3" and ok: "benign c tf k"
  shows "\<exists>out k'. trap p cpu getc cr2 tf k = Some (out, k') \<and> kern_inv cpu K k'"
proof -
  let ?k = "k\<lparr>cpu_halted := (cpu_halted k)(cpu := False)\<rparr>"
  have i1: "kern_inv cpu K ?k" by (rule kern_inv_fields [OF inv]) simp_all
  have c1: "cpu_env ?k cpu = Some c" using cur by simp
  show ?thesis
  proof (cases "env_status (envs k ! c) = ENV_DYING")
    case True
    obtain k1 where "env_free c ?k = Some k1" "kern_inv cpu K (k1\<lparr>cpu_env := (cpu_env k1)(cpu := None)\<rparr>)"
      using env_free_inv [OF i1 kern_invD(4) [OF i1 c1]] by blast
    then show ?thesis using True cur cs sched_yield_inv [of cpu K "k1\<lparr>cpu_env := (cpu_env k1)(cpu := None)\<rparr>" p]
      by (cases "sched_yield p cpu (k1\<lparr>cpu_env := (cpu_env k1)(cpu := None)\<rparr>)") (auto simp: trap_def Let_def)
  next
    case False
    let ?k2 = "upd_env c (\<lambda>x. x\<lparr>env_tf := tf\<rparr>) ?k"
    have i2: "kern_inv cpu K ?k2" by (rule kern_inv_tweak [OF i1]) simp_all
    have len: "c < length (envs k)" using kern_invD(4) [OF inv cur] kern_invD(5) [OF inv] by (simp add: used_def)
    have "entry ?k2 = entry k" by (rule same_machine(2)) simp_all
    then have "benign c tf ?k2" using ok len unfolding benign_def by (simp add: npages_def)
    then obtain r k' where d: "trap_dispatch p cpu getc cr2 (Some c) tf ?k2 = Some (r, k')" "kern_inv cpu K k'"
      using trap_dispatch_kept [OF i2 _ cs, of c p getc cr2] cur unfolding kept_def by auto
    then show ?thesis using False cur cs after_trap_kept [OF d(2), of p]
      by (cases r; cases "after_trap p cpu k'") (auto simp: trap_def Let_def)
  qed
qed

end
