(* ===== verification/Kern_Run.thy ===== *)
theory Kern_Run
  imports Kern_Trap_Props
begin

unbundle bit_operations_syntax

text \<open>
  Runs of a kernel with one processor: between two traps the current program stores bytes through its page tables, a
  trap from user mode enters the kernel, and an idle processor waits for the timer. The kernel invariant holds along
  every run whose traps are benign, so that none of them panics.
\<close>

inductive kern_step :: "policy \<Rightarrow> nat \<Rightarrow> kernel \<Rightarrow> kernel \<Rightarrow> bool" for p cpu where
  user_store: "\<lbrakk>cpu_env k cpu = Some c; env_pgdir (envs k ! c) = Some d; va < UTOP; entry k d va AND PTE_U \<noteq> 0;
     store_byte d va b k = Some k'\<rbrakk> \<Longrightarrow> kern_step p cpu k k'"
| user_trap: "\<lbrakk>cpu_env k cpu = Some c; tf_cs tf AND 3 = 3; benign c tf k; trap p cpu getc cr2 tf k = Some (out, k')\<rbrakk>
     \<Longrightarrow> kern_step p cpu k k'"
| idle_tick: "\<lbrakk>cpu_env k cpu = None; tf_cs tf = GD_KT; tf_trapno tf = IRQ_OFFSET + IRQ_TIMER;
     trap p cpu getc cr2 tf k = Some (out, k')\<rbrakk> \<Longrightarrow> kern_step p cpu k k'"

inductive_cases kern_stepE: "kern_step p cpu k k'"

text \<open>A store of a program changes one data page of its own, never one of the kernel, a directory, a table or a free page.\<close>

lemma store_byte_data:
  assumes inv: "kern_inv cpu K k" and cur: "cpu_env k cpu = Some c" "env_pgdir (envs k ! c) = Some d" and va: "va < UTOP"
    and st: "store_byte d va b k = Some k'"
  shows "\<exists>q. mapped k (dirs k) d va q \<and> k' = put_byte q (PGOFF va) b k \<and> kern_inv cpu K k' \<and>
    q \<notin> K \<and> q \<notin> dirs k \<and> \<not> is_table k (dirs k) q"
proof -
  obtain fs xs where fx: "envs_inv k fs" "mem_inv k (dirs k) K xs (\<lambda>_. 0)" using inv by (rule kern_invE)
  have d: "d \<in> dirs k" using kern_invD(9) [OF inv kern_invD(4) [OF inv cur(1)]] cur(2) by simp
  let ?q = "PGNUM (entry k d va)"
  have "mapped k (dirs k) d va ?q"
    using st d va user_entry_of_eq [OF fx(2) d va] by (simp add: store_byte_def mapped_def split: if_splits bind_splits)
  moreover note store_byte_mapped [OF fx(2) this, of b] mapped_page [OF fx(2) this]
  moreover have "kern_inv cpu K (put_byte ?q (PGOFF va) b k)"
  proof (rule kern_inv_mem [OF inv])
    show "mem_inv (put_byte ?q (PGOFF va) b k) (dirs k) K xs (\<lambda>_. 0)"
      unfolding put_byte_def using calculation by (intro data_write_inv(1) [OF fx(2)]) simp_all
    show "machine.more (put_byte ?q (PGOFF va) b k) = machine.more k" by (simp add: put_byte_def put_word_def)
    show "pmem (put_byte ?q (PGOFF va) b k) q = pmem k q" if "q \<in> K" for q
      using that calculation by (auto simp: put_byte_def put_word_def)
  qed
  ultimately show ?thesis using st by auto
qed

lemma idle_tick_kept:
  assumes "kern_inv cpu K k" "tf_cs tf = GD_KT" "tf_trapno tf = IRQ_OFFSET + IRQ_TIMER"
  shows "\<exists>out k'. trap p cpu getc cr2 tf k = Some (out, k') \<and> kern_inv cpu K k'"
proof -
  let ?k = "k\<lparr>cpu_halted := (cpu_halted k)(cpu := False)\<rparr>"
  have "kern_inv cpu K ?k" by (rule kern_inv_fields [OF assms(1)]) simp_all
  note y = sched_yield_inv [OF this, of p]
  obtain out k' where "sched_yield p cpu ?k = (out, k')" by fastforce
  then show ?thesis using y assms(2,3) by (simp add: trap_def trap_dispatch_def Let_def)
qed

lemma kern_step_inv: "kern_step p cpu k k' \<Longrightarrow> kern_inv cpu K k \<Longrightarrow> kern_inv cpu K k'"
proof (erule kern_stepE, goal_cases)
  case (1 c d va b)
  then show ?case using store_byte_data by blast
next
  case (2 c tf getc cr2 out)
  then show ?case using trap_kept [OF 2(1,2,3,4), of p getc cr2] by auto
next
  case (3 tf getc cr2 out)
  then show ?case using idle_tick_kept [of cpu K k tf p getc cr2] by auto
qed

lemma kern_steps_inv: "(kern_step p cpu)\<^sup>*\<^sup>* k k' \<Longrightarrow> kern_inv cpu K k \<Longrightarrow> kern_inv cpu K k'"
  by (induction rule: rtranclp_induct) (blast intro: kern_step_inv)+

end
