(* ===== verification/Kern_Run_Theorems.thy ===== *)
theory Kern_Run_Theorems
  imports Kern_Theorems Kern_Run
begin

unbundle bit_operations_syntax

text \<open>
  The properties of the kernel as a whole: the invariant that ties the environments to the memory, traps, and runs.
\<close>

section \<open>A kernel with two environments\<close>

lemma small_kernel_machine:
  "npages small_kernel = 6" "pmem small_kernel = (\<lambda>_ _. 0)" "kern_pgdir small_kernel = 0"
  "pages small_kernel = pages small_machine @ [\<lparr>pp_link = None, pp_ref = 1\<rparr>]"
  by (simp_all add: npages_def small_kernel_def small_machine_def del: upt_rec_numeral)

lemma small_kernel_mem: "mem_inv small_kernel {1, 5} {0} [2, 3] (\<lambda>_. 0)"
proof -
  note k = small_kernel_machine
  have z: "pmem small_kernel d i = 0" for d i by (simp add: k)
  have six: "p < 6 \<longleftrightarrow> p = 0 \<or> p = 1 \<or> p = 2 \<or> p = 3 \<or> p = 4 \<or> p = (5 :: nat)" for p by auto
  have t: "\<not> is_table small_kernel {1, 5} t" for t by (rule blank_tables) (rule z)
  have pg: "pages small_kernel = [\<lparr>pp_link = None, pp_ref = 0\<rparr>, \<lparr>pp_link = None, pp_ref = 1\<rparr>, \<lparr>pp_link = Some 3, pp_ref = 0\<rparr>,
       \<lparr>pp_link = None, pp_ref = 0\<rparr>, \<lparr>pp_link = None, pp_ref = 0\<rparr>, \<lparr>pp_link = None, pp_ref = 1\<rparr>]"
    unfolding k(4) by (simp add: small_machine_def)
  have "pl.free_listed small_kernel [2, 3]"
    unfolding pl.free_listed_def listed_def k(1) by (simp add: page_next_def k(1) pg)
  moreover have "unat (pp_ref (pages small_kernel ! p)) = card (sites small_kernel {1, 5} p)" if "p < 6" "p \<noteq> 0" for p
    using that blank_sites [of "{1, 5}" small_kernel p] z unfolding six pg by auto
  moreover have "pp_link (pages small_kernel ! p) = None" if "p < 6" "p \<noteq> 2" "p \<noteq> 3" for p
    using that unfolding six pg by auto
  ultimately show ?thesis
    unfolding mem_inv_def k(1) using t z by (auto simp: tables_apart_def all_present_def pg)
qed

lemma small_used: "used small_kernel e \<longleftrightarrow> e < 2"
  by (cases "e < NENV") (auto simp: used_def small_env_def)

lemma small_dirs: "dirs small_kernel = {1, 5}"
proof -
  have "env_pgdir (envs small_kernel ! 0) = Some 1" "env_pgdir (envs small_kernel ! 1) = Some 5"
    by (subst small_envs(2); simp add: small_env_def)+
  then show ?thesis unfolding dirs_def small_used less_2_cases_iff One_nat_def by (auto simp del: small_envs)
qed

lemma small_free_envs: "el.free_listed small_kernel [2..<1024]"
proof -
  have "chain (env_next small_kernel) (Some 2) [2..<1024]"
    by (rule chain_upt) (simp_all add: env_next_def small_env_def)
  then show ?thesis unfolding el.free_listed_def listed_def by (simp del: upt_rec_numeral)
qed

lemma small_kernel_inv: "kern_inv 0 {0} small_kernel"
proof -
  have free: "env_status (envs small_kernel ! e) = ENV_FREE \<longleftrightarrow> e \<in> set [2..<1024]" if "e < NENV" for e
    using that small_used [of e] unfolding used_def set_upt atLeastLessThan_iff by linarith
  have two: "ENVX (env_id (envs small_kernel ! e)) = e" "env_pgdir (envs small_kernel ! e) \<noteq> None" if "e < 2" for e
    using that by (auto simp: less_2_cases_iff ENVX_def small_env_def)
  have ids: "unat (env_id (envs small_kernel ! e)) < 2 ^ 31" "env_ipc_dstva (envs small_kernel ! e) < UTOP" if "e < NENV" for e
  proof -
    have "unat (env_id (small_env e)) < 2 ^ 31"
      by (cases "e < 2") (auto simp: less_2_cases_iff small_env_def)
    then show "unat (env_id (envs small_kernel ! e)) < 2 ^ 31" using that by simp
    show "env_ipc_dstva (envs small_kernel ! e) < UTOP" using that by (simp add: small_env_def)
  qed
  have inj: "e = f" if "e < 2" "f < 2" "env_pgdir (envs small_kernel ! e) = env_pgdir (envs small_kernel ! f)" for e f
    using that by (auto simp: less_2_cases_iff small_env_def)
  have "envs_inv small_kernel [2..<1024]"
    unfolding envs_inv_def small_used
  proof (intro conjI allI impI)
    show "length (envs small_kernel) = NENV" by (rule small_envs(1))
    show "el.free_listed small_kernel [2..<1024]" by (rule small_free_envs)
  qed (erule free ids two | use inj in blast)+
  moreover have "cpu_env small_kernel c = Some e \<longrightarrow> c = 0 \<and> used small_kernel e" for c e
    unfolding small_used by simp
  ultimately show ?thesis
    unfolding kern_inv_def small_dirs small_kernel_machine using small_kernel_mem by blast
qed

text \<open>The same kernel after page 4 has been mapped as the exception stack of environment 0.\<close>

definition stack_kernel :: kernel where
  "stack_kernel = snd (the (page_insert 1 4 exstk 7 small_kernel))"

lemma stack_kernel_inv:
  "kern_inv 0 {0} stack_kernel" "machine.more stack_kernel = machine.more small_kernel"
  "entry stack_kernel 1 exstk = page2pa 4 OR 7 OR PTE_P"
proof -
  have t: "\<not> is_table small_kernel {1, 5} 4" by (rule blank_tables) (simp add: small_kernel_machine)
  have pp: "4 < npages small_kernel" "(4 :: nat) \<notin> {0}" "4 \<notin> dirs small_kernel" "\<not> is_table small_kernel (dirs small_kernel) 4"
    "4 \<notin> set [2, 3 :: nat]" "unat (pp_ref (pages small_kernel ! 4)) < 65535" "drop_bit 12 (7 :: 32 word) = 0"
    using t by (simp_all add: small_kernel_machine small_dirs small_machine_def drop_bit_eq_div nth_append)
  have mem: "mem_inv small_kernel (dirs small_kernel) {0} [2, 3] (\<lambda>_. 0)" unfolding small_dirs by (rule small_kernel_mem)
  have d: "1 \<in> dirs small_kernel" "exstk < UTOP" by (simp_all add: small_dirs)
  obtain r k' where k: "page_insert 1 4 exstk 7 small_kernel = Some (r, k')" "kern_inv 0 {0} k'" "machine.more k' = machine.more small_kernel"
    using page_insert_kept [OF small_kernel_inv mem d pp] by blast
  moreover have "entry k' 1 exstk = page2pa 4 OR 7 OR PTE_P"
    using page_insert_spec [OF mem d pp] k(1) by auto
  ultimately show "kern_inv 0 {0} stack_kernel" "machine.more stack_kernel = machine.more small_kernel"
    "entry stack_kernel 1 exstk = page2pa 4 OR 7 OR PTE_P" by (simp_all add: stack_kernel_def)
qed

lemma stack_kernel_env:
  "cpu_env stack_kernel 0 = Some 0" "envs stack_kernel ! 0 = small_env 0"
  "allows (PTE_U OR PTE_W) (entry stack_kernel 1 exstk)"
proof -
  note f = more_kernel [OF stack_kernel_inv(2)]
  show "cpu_env stack_kernel 0 = Some 0" "envs stack_kernel ! 0 = small_env 0" by (simp_all add: f)
  show "allows (PTE_U OR PTE_W) (entry stack_kernel 1 exstk)"
    unfolding stack_kernel_inv(3) by (simp add: allows_def page2pa_def push_bit_eq_mult)
qed

section \<open>Traps and runs\<close>







text \<open>
  A program whose stack pointer is within the first 56 bytes of its exception stack when it faults brings the
  kernel down: the frame does not fit, and where the comment of \<^verbatim>\<open>page_fault_handler\<close> asks for the program to be
  destroyed the code writes the frame below the stack and panics.
\<close>

theorem exception_stack_overflow_panics:
  assumes "kern_inv cpu K k" and "cpu_env k cpu = Some c" and "env_pgfault_upcall (envs k ! c) \<noteq> 0"
    and "env_pgdir (envs k ! c) = Some d" and "allows (PTE_U OR PTE_W) (entry k d exstk)"
    and "on_exstk (tf_esp tf)" "PGOFF (tf_esp tf) < 56"
  shows "page_fault_handler p cpu va tf k = None"
  by (rule page_fault_overflow [OF assms])

theorem exception_stack_overflow_panics_witness:
  "page_fault_handler SCHED_ROUND_ROBIN 0 0xDEADBEEF (user_tf\<lparr>tf_esp := exstk + 16\<rparr>) stack_kernel = None"
  by (rule exception_stack_overflow_panics [OF stack_kernel_inv(1) stack_kernel_env(1) _ _ stack_kernel_env(3)])
    (simp_all add: stack_kernel_env(2) small_env_def on_exstk_def PGOFF_def)

end
