(* ===== verification/Kern_Boot.thy ===== *)
theory Kern_Boot
  imports Kern_Env
begin

unbundle bit_operations_syntax

text \<open>
  Setting up memory when the kernel starts: \<^verbatim>\<open>mem_init\<close> of \<^verbatim>\<open>src/TP Sched/kern/pmap.c\<close> with the boot allocator, the mappings above
  \<^verbatim>\<open>UTOP\<close> and the self-tests (\<^verbatim>\<open>check_page_free_list\<close> to \<^verbatim>\<open>check_page_installed_pgdir\<close>), which run at every start and change the state:
  they reorder the list of free pages and write to free pages and to the kernel's directory.

  The parameters are what the program gets from outside: \<open>cmos\<close> the registers of the real-time clock, \<open>kend\<close> and \<open>kstacks\<close> the
  addresses the linker gives to \<^verbatim>\<open>end\<close> and \<^verbatim>\<open>percpu_kstacks\<close>. The static variables \<^verbatim>\<open>nextfree\<close> of \<^verbatim>\<open>boot_alloc\<close> and \<^verbatim>\<open>base\<close> of
  \<^verbatim>\<open>mmio_map_region\<close> are passed in and out. The arrays \<^verbatim>\<open>pages\<close> and \<^verbatim>\<open>envs\<close> are fields of the state and not words of the pages that
  \<^verbatim>\<open>boot_alloc\<close> reserves for them. A failed \<^verbatim>\<open>assert\<close> is a panic, the value \<^term>\<open>None\<close>. The control registers are left out. The arrays that
  \<^verbatim>\<open>mem_init\<close> clears are checked against the directory in use then, \<^verbatim>\<open>entry_pgdir\<close> of \<^verbatim>\<open>src/TP Sched/kern/entrypgdir.c\<close>; the pages that
  the tests and the page tables take from the list, sorted for that reason with those below 4 megabytes first, are not.
\<close>

abbreviation (input) KERNBASE :: "32 word" where "KERNBASE \<equiv> 0xF0000000"
abbreviation (input) UPAGES :: "32 word" where "UPAGES \<equiv> 0xEF000000"
abbreviation (input) UENVS :: "32 word" where "UENVS \<equiv> 0xEEC00000"
abbreviation (input) PTSIZE :: "32 word" where "PTSIZE \<equiv> 0x400000"
abbreviation (input) KSTACKTOP :: "32 word" where "KSTACKTOP \<equiv> KERNBASE"
abbreviation (input) KSTKSIZE :: "32 word" where "KSTKSIZE \<equiv> 0x8000"
abbreviation (input) KSTKGAP :: "32 word" where "KSTKGAP \<equiv> 0x8000"
abbreviation (input) NCPU :: nat where "NCPU \<equiv> 8"

definition PADDR :: "32 word \<Rightarrow> 32 word option" where
  "PADDR kva = (if kva < KERNBASE then None else Some (kva - KERNBASE))"

definition KADDR :: "nat \<Rightarrow> 32 word \<Rightarrow> 32 word option" where
  "KADDR np pa = (if PGNUM pa \<ge> np then None else Some (pa + KERNBASE))"

abbreviation (input) PTE_PS :: "32 word" where "PTE_PS \<equiv> 0x80"

text \<open>
  Until the kernel's own directory is loaded the processor uses \<^verbatim>\<open>entry_pgdir\<close>: two pages of 4 megabytes, both at address 0, of which
  only the one at \<^verbatim>\<open>KERNBASE\<close> can be written. A store anywhere else before that is a fault without a handler.
\<close>

definition entry_pgdir :: "nat \<Rightarrow> 32 word" where
  "entry_pgdir i = (if i = 0 then 0 + PTE_P + PTE_PS else if i = PDX KERNBASE then 0 + PTE_P + PTE_W + PTE_PS else 0)"

definition boot_writable :: "32 word \<Rightarrow> nat \<Rightarrow> bool" where
  "boot_writable va n \<longleftrightarrow>
     list_all (\<lambda>i. let pde = entry_pgdir (PDX (va + of_nat i)) in pde AND PTE_P \<noteq> 0 \<and> pde AND PTE_W \<noteq> 0) [0..<n]"

section \<open>Detecting memory\<close>

definition nvram_read :: "(nat \<Rightarrow> 8 word) \<Rightarrow> nat \<Rightarrow> 32 word" where
  "nvram_read cmos r = ucast (cmos r) OR push_bit 8 (ucast (cmos (r + 1)))"

text \<open>The number of pages of memory and of base memory.\<close>

definition i386_detect_memory :: "(nat \<Rightarrow> 8 word) \<Rightarrow> 32 word \<times> 32 word" where
  "i386_detect_memory cmos =
     (let basemem = nvram_read cmos 0x15;
          extmem = nvram_read cmos 0x17;
          ext16mem = nvram_read cmos 0x34 * 64;
          totalmem = (if ext16mem \<noteq> 0 then 16 * 1024 + ext16mem
                      else if extmem \<noteq> 0 then 1 * 1024 + extmem
                      else basemem)
      in (totalmem div (PGSIZE div 1024), basemem div (PGSIZE div 1024)))"

section \<open>The boot allocator\<close>

text \<open>The address allocated and the new value of \<^verbatim>\<open>nextfree\<close>, which starts as 0.\<close>

definition boot_alloc :: "32 word \<Rightarrow> nat \<Rightarrow> 32 word \<Rightarrow> 32 word \<Rightarrow> (32 word \<times> 32 word) option" where
  "boot_alloc kend np nextfree n = do {
     let nextfree = (if nextfree = 0 then ROUNDUP kend PGSIZE else nextfree);
     last \<leftarrow> PADDR (nextfree + n);
     guard (\<not> last \<ge> PGSIZE * of_nat np);
     next \<leftarrow> KADDR np last;
     Some (nextfree, ROUNDUP next PGSIZE)
   }"

section \<open>The self-tests of the list of free pages\<close>

text \<open>The pages met by following \<^verbatim>\<open>pp_link\<close>; \<^term>\<open>None\<close> when there are more steps than pages, that is, when the loop does not end.\<close>

fun follow :: "nat \<Rightarrow> 'a machine_scheme \<Rightarrow> nat option \<Rightarrow> nat list option" where
  "follow n m None = Some []"
| "follow 0 m (Some p) = None"
| "follow (Suc n) m (Some p) = map_option ((#) p) (follow n m (pp_link (pages m ! p)))"

definition free_pages :: "'a machine_scheme \<Rightarrow> nat list option" where
  "free_pages m = follow (npages m) m (page_free_list m)"

definition set_link :: "nat option \<Rightarrow> page_info \<Rightarrow> page_info" where
  "set_link l i = i\<lparr>pp_link := l\<rparr>"

definition set_ref :: "16 word \<Rightarrow> page_info \<Rightarrow> page_info" where
  "set_ref r i = i\<lparr>pp_ref := r\<rparr>"

text \<open>
  A store through one of the two tail pointers: \<^term>\<open>None\<close> points to the local variable (\<^verbatim>\<open>pp1\<close> or \<^verbatim>\<open>pp2\<close>) that will hold the head,
  \<^term>\<open>Some q\<close> to the link of page \<open>q\<close>.
\<close>

definition put_tail :: "nat option \<Rightarrow> nat option \<Rightarrow> nat option \<Rightarrow> 'a machine_scheme \<Rightarrow> nat option \<times> 'a machine_scheme" where
  "put_tail tp v h m = (case tp of None \<Rightarrow> (v, m) | Some q \<Rightarrow> (h, upd_page q (set_link v) m))"

text \<open>One pass splits the list in two; \<open>(t, h)\<close> is a tail pointer with its head, for the low and for the high pages.\<close>

fun split_free :: "nat \<Rightarrow> nat \<Rightarrow> nat option \<Rightarrow> nat option \<times> nat option \<Rightarrow> nat option \<times> nat option \<Rightarrow> 'a machine_scheme \<Rightarrow>
    ((nat option \<times> nat option) \<times> (nat option \<times> nat option) \<times> 'a machine_scheme) option" where
  "split_free n limit None (t0, h0) (t1, h1) m = Some ((t0, h0), (t1, h1), m)"
| "split_free 0 limit (Some p) (t0, h0) (t1, h1) m = None"
| "split_free (Suc n) limit (Some p) (t0, h0) (t1, h1) m =
     (if PDX (page2pa p) \<ge> limit
      then (case put_tail t1 (Some p) h1 m of
              (h1, m) \<Rightarrow> split_free n limit (pp_link (pages m ! p)) (t0, h0) (Some p, h1) m)
      else (case put_tail t0 (Some p) h0 m of
              (h0, m) \<Rightarrow> split_free n limit (pp_link (pages m ! p)) (Some p, h0) (t1, h1) m))"

definition low_pages_first :: "nat \<Rightarrow> 'a machine_scheme \<Rightarrow> 'a machine_scheme option" where
  "low_pages_first limit m = do {
     ((t0, h0), (t1, h1), m) \<leftarrow> split_free (npages m) limit (page_free_list m) (None, None) (None, None) m;
     let (pp2, m) = put_tail t1 None h1 m;
     let (pp1, m) = put_tail t0 pp2 h0 m;
     Some (m\<lparr>page_free_list := pp1\<rparr>)
   }"

text \<open>\<^verbatim>\<open>memset\<close> of the first words of a page, reached by \<^verbatim>\<open>page2kva\<close>.\<close>

definition fill_words :: "nat \<Rightarrow> nat \<Rightarrow> 32 word \<Rightarrow> 'a machine_scheme \<Rightarrow> 'a machine_scheme option" where
  "fill_words p n w m = do {
     p \<leftarrow> pa2page m (page2pa p);
     Some (m\<lparr>pmem := (pmem m)(p := (\<lambda>i. if i < n then w else pmem m p i))\<rparr>)
   }"

fun scribble :: "nat \<Rightarrow> nat list \<Rightarrow> 'a machine_scheme \<Rightarrow> 'a machine_scheme option" where
  "scribble limit [] m = Some m"
| "scribble limit (p # ps) m =
     (if PDX (page2pa p) < limit
      then do {
        m \<leftarrow> fill_words p 32 0x97979797 m;
        scribble limit ps m
      }
      else scribble limit ps m)"

definition free_page_ok :: "32 word \<Rightarrow> nat \<Rightarrow> nat \<Rightarrow> bool" where
  "free_page_ok first_free_page np p \<longleftrightarrow> p < np \<and> page2pa p \<noteq> 0 \<and> page2pa p \<noteq> IOPHYSMEM \<and>
     page2pa p \<noteq> EXTPHYSMEM - PGSIZE \<and> page2pa p \<noteq> EXTPHYSMEM \<and>
     (page2pa p < EXTPHYSMEM \<or> page2pa p + KERNBASE \<ge> first_free_page) \<and> page2pa p \<noteq> MPENTRY_PADDR"

definition check_page_free_list :: "32 word \<Rightarrow> 32 word \<Rightarrow> bool \<Rightarrow> 'a machine_scheme \<Rightarrow> 'a machine_scheme option" where
  "check_page_free_list kend nextfree only_low_memory m = do {
     let pdx_limit = (if only_low_memory then 1 else 1024);
     guard (page_free_list m \<noteq> None);
     m \<leftarrow> (if only_low_memory then low_pages_first pdx_limit m else Some m);
     xs \<leftarrow> free_pages m;
     m \<leftarrow> scribble pdx_limit xs m;
     (first_free_page, _) \<leftarrow> boot_alloc kend (npages m) nextfree 0;
     xs \<leftarrow> free_pages m;
     guard (list_all (free_page_ok first_free_page (npages m)) xs);
     guard (\<exists>p \<in> set xs. page2pa p < EXTPHYSMEM);
     guard (\<exists>p \<in> set xs. \<not> page2pa p < EXTPHYSMEM);
     Some m
   }"

section \<open>The self-test of the page allocator\<close>

definition take_page :: "'a machine_scheme \<Rightarrow> (nat \<times> 'a machine_scheme) option" where
  "take_page m = (case page_alloc False m of (None, m) \<Rightarrow> None | (Some p, m) \<Rightarrow> Some (p, m))"

definition take_three :: "'a machine_scheme \<Rightarrow> (nat \<times> nat \<times> nat \<times> 'a machine_scheme) option" where
  "take_three m = do {
     (pp0, m) \<leftarrow> take_page m;
     (pp1, m) \<leftarrow> take_page m;
     (pp2, m) \<leftarrow> take_page m;
     guard (pp1 \<noteq> pp0);
     guard (pp2 \<noteq> pp1 \<and> pp2 \<noteq> pp0);
     Some (pp0, pp1, pp2, m)
   }"

definition no_page :: "'a machine_scheme \<Rightarrow> bool" where
  "no_page m \<longleftrightarrow> fst (page_alloc False m) = None"

definition free_three :: "nat \<Rightarrow> nat \<Rightarrow> nat \<Rightarrow> 'a machine_scheme \<Rightarrow> 'a machine_scheme option" where
  "free_three pp0 pp1 pp2 m = do {
     m \<leftarrow> page_free pp0 m;
     m \<leftarrow> page_free pp1 m;
     page_free pp2 m
   }"

definition check_page_alloc :: "'a machine_scheme \<Rightarrow> 'a machine_scheme option" where
  "check_page_alloc m = do {
     nfree \<leftarrow> map_option length (free_pages m);
     (pp0, pp1, pp2, m) \<leftarrow> take_three m;
     guard (page2pa pp0 < of_nat (npages m) * PGSIZE);
     guard (page2pa pp1 < of_nat (npages m) * PGSIZE);
     guard (page2pa pp2 < of_nat (npages m) * PGSIZE);
     let fl = page_free_list m;
     let m = m\<lparr>page_free_list := None\<rparr>;
     guard (no_page m);
     m \<leftarrow> free_three pp0 pp1 pp2 m;
     (pp0, pp1, pp2, m) \<leftarrow> take_three m;
     guard (no_page m);
     m \<leftarrow> fill_words pp0 1024 0x01010101 m;
     m \<leftarrow> page_free pp0 m;
     let (pp, m) = page_alloc True m;
     guard (pp = Some pp0);
     guard (list_all (\<lambda>i. pmem m pp0 i = 0) [0..<1024]);
     let m = m\<lparr>page_free_list := fl\<rparr>;
     m \<leftarrow> free_three pp0 pp1 pp2 m;
     nfree' \<leftarrow> map_option length (free_pages m);
     guard (nfree' = nfree);
     Some m
   }"

section \<open>The self-test of page tables\<close>

definition PGOFF_of :: "32 word \<Rightarrow> 32 word" where
  "PGOFF_of la = la AND 0xFFF"

definition check_va2pa :: "nat \<Rightarrow> 32 word \<Rightarrow> 'a machine_scheme \<Rightarrow> 32 word option" where
  "check_va2pa pgdir va m =
     (let pde = pmem m pgdir (PDX va) in
      if pde AND PTE_P = 0 then Some (- 1)
      else if pde AND PTE_PS \<noteq> 0 then Some (PGADDR (PDX pde) (PTX va) OR PGOFF_of va)
      else do {
        t \<leftarrow> pa2page m (PTE_ADDR pde);
        if pmem m t (PTX va) AND PTE_P = 0 then Some (- 1) else Some (PTE_ADDR (pmem m t (PTX va)))
      })"

text \<open>The word that \<^verbatim>\<open>*pgdir_walk(pgdir, va, 0)\<close> names, and an insertion that must succeed.\<close>

definition pte_of :: "nat \<Rightarrow> 32 word \<Rightarrow> 'a machine_scheme \<Rightarrow> 32 word option" where
  "pte_of pgdir va m = do {
     (pte, m) \<leftarrow> pgdir_walk pgdir va False m;
     (t, i) \<leftarrow> pte;
     Some (pmem m t i)
   }"

definition clear_pte :: "nat \<Rightarrow> 32 word \<Rightarrow> 'a machine_scheme \<Rightarrow> 'a machine_scheme option" where
  "clear_pte pgdir va m = do {
     (pte, m) \<leftarrow> pgdir_walk pgdir va False m;
     (t, i) \<leftarrow> pte;
     Some (put_word t i 0 m)
   }"

definition insert_ok :: "nat \<Rightarrow> nat \<Rightarrow> 32 word \<Rightarrow> 32 word \<Rightarrow> 'a machine_scheme \<Rightarrow> 'a machine_scheme option" where
  "insert_ok pgdir pp va perm m = do {
     (r, m) \<leftarrow> page_insert pgdir pp va perm m;
     guard (r = 0);
     Some m
   }"

definition insert_fails :: "nat \<Rightarrow> nat \<Rightarrow> 32 word \<Rightarrow> 32 word \<Rightarrow> 'a machine_scheme \<Rightarrow> 'a machine_scheme option" where
  "insert_fails pgdir pp va perm m = do {
     (r, m) \<leftarrow> page_insert pgdir pp va perm m;
     guard (r < 0);
     Some m
   }"

definition ref_of :: "nat \<Rightarrow> 'a machine_scheme \<Rightarrow> 16 word" where
  "ref_of p m = pp_ref (pages m ! p)"

text \<open>The steps of \<^verbatim>\<open>check_page\<close>, with the three pages it has taken and an empty list of free pages.\<close>

definition check_insert :: "nat \<Rightarrow> nat \<Rightarrow> nat \<Rightarrow> nat \<Rightarrow> 'a machine_scheme \<Rightarrow> 'a machine_scheme option" where
  "check_insert kd pp0 pp1 pp2 m = do {
     guard (no_page m);
     r \<leftarrow> page_lookup kd 0 m;
     guard (r = None);
     m \<leftarrow> insert_fails kd pp1 0 PTE_W m;
     m \<leftarrow> page_free pp0 m;
     m \<leftarrow> insert_ok kd pp1 0 PTE_W m;
     guard (PTE_ADDR (pmem m kd 0) = page2pa pp0);
     a \<leftarrow> check_va2pa kd 0 m;
     guard (a = page2pa pp1);
     guard (ref_of pp1 m = 1 \<and> ref_of pp0 m = 1);
     m \<leftarrow> insert_ok kd pp2 PGSIZE PTE_W m;
     a \<leftarrow> check_va2pa kd PGSIZE m;
     guard (a = page2pa pp2);
     guard (ref_of pp2 m = 1);
     guard (no_page m);
     Some m
   }"

definition check_reinsert :: "nat \<Rightarrow> nat \<Rightarrow> nat \<Rightarrow> nat \<Rightarrow> 'a machine_scheme \<Rightarrow> 'a machine_scheme option" where
  "check_reinsert kd pp0 pp1 pp2 m = do {
     m \<leftarrow> insert_ok kd pp2 PGSIZE PTE_W m;
     a \<leftarrow> check_va2pa kd PGSIZE m;
     guard (a = page2pa pp2);
     guard (ref_of pp2 m = 1);
     guard (no_page m);
     ptep \<leftarrow> pa2page m (PTE_ADDR (pmem m kd (PDX PGSIZE)));
     (w, m) \<leftarrow> pgdir_walk kd PGSIZE False m;
     guard (w = Some (ptep, PTX PGSIZE));
     m \<leftarrow> insert_ok kd pp2 PGSIZE (PTE_W OR PTE_U) m;
     a \<leftarrow> check_va2pa kd PGSIZE m;
     guard (a = page2pa pp2);
     guard (ref_of pp2 m = 1);
     w \<leftarrow> pte_of kd PGSIZE m;
     guard (w AND PTE_U \<noteq> 0);
     guard (pmem m kd 0 AND PTE_U \<noteq> 0);
     m \<leftarrow> insert_ok kd pp2 PGSIZE PTE_W m;
     w \<leftarrow> pte_of kd PGSIZE m;
     guard (w AND PTE_W \<noteq> 0);
     guard (w AND PTE_U = 0);
     insert_fails kd pp0 PTSIZE PTE_W m
   }"

definition check_replace :: "nat \<Rightarrow> nat \<Rightarrow> nat \<Rightarrow> nat \<Rightarrow> 'a machine_scheme \<Rightarrow> 'a machine_scheme option" where
  "check_replace kd pp0 pp1 pp2 m = do {
     m \<leftarrow> insert_ok kd pp1 PGSIZE PTE_W m;
     w \<leftarrow> pte_of kd PGSIZE m;
     guard (w AND PTE_U = 0);
     a \<leftarrow> check_va2pa kd 0 m;
     guard (a = page2pa pp1);
     a \<leftarrow> check_va2pa kd PGSIZE m;
     guard (a = page2pa pp1);
     guard (ref_of pp1 m = 2);
     guard (ref_of pp2 m = 0);
     (pp, m) \<leftarrow> take_page m;
     guard (pp = pp2);
     Some m
   }"

definition check_remove :: "nat \<Rightarrow> nat \<Rightarrow> nat \<Rightarrow> nat \<Rightarrow> 'a machine_scheme \<Rightarrow> 'a machine_scheme option" where
  "check_remove kd pp0 pp1 pp2 m = do {
     m \<leftarrow> page_remove kd 0 m;
     a \<leftarrow> check_va2pa kd 0 m;
     guard (a = - 1);
     a \<leftarrow> check_va2pa kd PGSIZE m;
     guard (a = page2pa pp1);
     guard (ref_of pp1 m = 1);
     guard (ref_of pp2 m = 0);
     m \<leftarrow> insert_ok kd pp1 PGSIZE 0 m;
     guard (ref_of pp1 m \<noteq> 0);
     guard (pp_link (pages m ! pp1) = None);
     m \<leftarrow> page_remove kd PGSIZE m;
     a \<leftarrow> check_va2pa kd 0 m;
     guard (a = - 1);
     a \<leftarrow> check_va2pa kd PGSIZE m;
     guard (a = - 1);
     guard (ref_of pp1 m = 0);
     guard (ref_of pp2 m = 0);
     (pp, m) \<leftarrow> take_page m;
     guard (pp = pp1);
     guard (no_page m);
     Some m
   }"

definition check_walk :: "nat \<Rightarrow> nat \<Rightarrow> 'a machine_scheme \<Rightarrow> 'a machine_scheme option" where
  "check_walk kd pp0 m = do {
     guard (PTE_ADDR (pmem m kd 0) = page2pa pp0);
     let m = put_word kd 0 0 m;
     guard (ref_of pp0 m = 1);
     let m = upd_page pp0 (set_ref 0) m;
     m \<leftarrow> page_free pp0 m;
     let va = PGSIZE * 1024 + PGSIZE;
     (ptep, m) \<leftarrow> pgdir_walk kd va True m;
     ptep1 \<leftarrow> pa2page m (PTE_ADDR (pmem m kd (PDX va)));
     guard (ptep = Some (ptep1, PTX va));
     let m = put_word kd (PDX va) 0 m;
     let m = upd_page pp0 (set_ref 0) m;
     m \<leftarrow> fill_words pp0 1024 0xFFFFFFFF m;
     m \<leftarrow> page_free pp0 m;
     (_, m) \<leftarrow> pgdir_walk kd 0 True m;
     guard (list_all (\<lambda>i. pmem m pp0 i AND PTE_P = 0) [0..<1024]);
     let m = put_word kd 0 0 m;
     Some (upd_page pp0 (set_ref 0) m)
   }"

definition check_mmio :: "nat \<Rightarrow> 32 word \<Rightarrow> 'a machine_scheme \<Rightarrow> (32 word \<times> 'a machine_scheme) option" where
  "check_mmio kd base m = do {
     (mm1, base, m) \<leftarrow> mmio_map_region kd base 0 4097 m;
     (mm2, base, m) \<leftarrow> mmio_map_region kd base 0 4096 m;
     guard (mm1 \<ge> MMIOBASE \<and> mm1 + 8096 < MMIOLIM);
     guard (mm2 \<ge> MMIOBASE \<and> mm2 + 8096 < MMIOLIM);
     guard (mm1 mod PGSIZE = 0 \<and> mm2 mod PGSIZE = 0);
     guard (mm1 + 8096 \<le> mm2);
     a \<leftarrow> check_va2pa kd mm1 m;
     guard (a = 0);
     a \<leftarrow> check_va2pa kd (mm1 + PGSIZE) m;
     guard (a = PGSIZE);
     a \<leftarrow> check_va2pa kd mm2 m;
     guard (a = 0);
     a \<leftarrow> check_va2pa kd (mm2 + PGSIZE) m;
     guard (a = - 1);
     w \<leftarrow> pte_of kd mm1 m;
     guard (w AND (PTE_W OR 0x8 OR 0x10) \<noteq> 0);
     guard (w AND PTE_U = 0);
     m \<leftarrow> clear_pte kd mm1 m;
     m \<leftarrow> clear_pte kd (mm1 + PGSIZE) m;
     m \<leftarrow> clear_pte kd mm2 m;
     Some (base, m)
   }"

definition check_page :: "nat \<Rightarrow> 32 word \<Rightarrow> 'a machine_scheme \<Rightarrow> (32 word \<times> 'a machine_scheme) option" where
  "check_page kd base m = do {
     (pp0, pp1, pp2, m) \<leftarrow> take_three m;
     let fl = page_free_list m;
     let m = m\<lparr>page_free_list := None\<rparr>;
     m \<leftarrow> check_insert kd pp0 pp1 pp2 m;
     m \<leftarrow> check_reinsert kd pp0 pp1 pp2 m;
     m \<leftarrow> check_replace kd pp0 pp1 pp2 m;
     m \<leftarrow> check_remove kd pp0 pp1 pp2 m;
     m \<leftarrow> check_walk kd pp0 m;
     let m = m\<lparr>page_free_list := fl\<rparr>;
     m \<leftarrow> free_three pp0 pp1 pp2 m;
     check_mmio kd base m
   }"

section \<open>The self-test of an installed directory\<close>

text \<open>A word read or written by the kernel through the page tables.\<close>

definition word_at :: "nat \<Rightarrow> 32 word \<Rightarrow> 'a machine_scheme \<Rightarrow> (nat \<times> nat) option" where
  "word_at pgdir va m = do {
     w \<leftarrow> pte_of pgdir va m;
     guard (w AND PTE_P \<noteq> 0);
     p \<leftarrow> pa2page m (PTE_ADDR w);
     Some (p, unat (PGOFF_of va) div 4)
   }"

definition read_va :: "nat \<Rightarrow> 32 word \<Rightarrow> 'a machine_scheme \<Rightarrow> 32 word option" where
  "read_va pgdir va m = map_option (\<lambda>(p, i). pmem m p i) (word_at pgdir va m)"

definition write_va :: "nat \<Rightarrow> 32 word \<Rightarrow> 32 word \<Rightarrow> 'a machine_scheme \<Rightarrow> 'a machine_scheme option" where
  "write_va pgdir va v m = do {
     w \<leftarrow> pte_of pgdir va m;
     guard (w AND PTE_W \<noteq> 0);
     (p, i) \<leftarrow> word_at pgdir va m;
     Some (put_word p i v m)
   }"

definition check_installed :: "nat \<Rightarrow> nat \<Rightarrow> nat \<Rightarrow> nat \<Rightarrow> 'a machine_scheme \<Rightarrow> 'a machine_scheme option" where
  "check_installed kd pp0 pp1 pp2 m = do {
     (_, m) \<leftarrow> page_insert kd pp1 PGSIZE PTE_W m;
     guard (ref_of pp1 m = 1);
     v \<leftarrow> read_va kd PGSIZE m;
     guard (v = 0x01010101);
     (_, m) \<leftarrow> page_insert kd pp2 PGSIZE PTE_W m;
     v \<leftarrow> read_va kd PGSIZE m;
     guard (v = 0x02020202);
     guard (ref_of pp2 m = 1);
     guard (ref_of pp1 m = 0);
     m \<leftarrow> write_va kd PGSIZE 0x03030303 m;
     guard (pmem m pp2 0 = 0x03030303);
     m \<leftarrow> page_remove kd PGSIZE m;
     guard (ref_of pp2 m = 0);
     guard (PTE_ADDR (pmem m kd 0) = page2pa pp0);
     let m = put_word kd 0 0 m;
     guard (ref_of pp0 m = 1);
     let m = upd_page pp0 (set_ref 0) m;
     page_free pp0 m
   }"

definition check_page_installed_pgdir :: "nat \<Rightarrow> 'a machine_scheme \<Rightarrow> 'a machine_scheme option" where
  "check_page_installed_pgdir kd m = do {
     (pp0, m) \<leftarrow> take_page m;
     (pp1, m) \<leftarrow> take_page m;
     (pp2, m) \<leftarrow> take_page m;
     m \<leftarrow> page_free pp0 m;
     m \<leftarrow> fill_words pp1 1024 0x01010101 m;
     m \<leftarrow> fill_words pp2 1024 0x02020202 m;
     check_installed kd pp0 pp1 pp2 m
   }"

section \<open>The self-test of the kernel's mappings\<close>

text \<open>The offsets \<open>0, PGSIZE, ...\<close> below \<open>n\<close>.\<close>

definition page_offsets :: "nat \<Rightarrow> 32 word list" where
  "page_offsets n = map (\<lambda>j. of_nat j * PGSIZE) [0..<(n + 4095) div 4096]"

definition maps_to :: "nat \<Rightarrow> 32 word \<Rightarrow> 32 word \<Rightarrow> nat \<Rightarrow> 'a machine_scheme \<Rightarrow> bool" where
  "maps_to pgdir va pa n m \<longleftrightarrow> list_all (\<lambda>i. check_va2pa pgdir (va + i) m = Some (pa + i)) (page_offsets n)"

definition maps_nothing :: "nat \<Rightarrow> 32 word \<Rightarrow> nat \<Rightarrow> 'a machine_scheme \<Rightarrow> bool" where
  "maps_nothing pgdir va n m \<longleftrightarrow> list_all (\<lambda>i. check_va2pa pgdir (va + i) m = Some (- 1)) (page_offsets n)"

definition pde_expected :: "nat \<Rightarrow> 32 word \<Rightarrow> bool" where
  "pde_expected i pde \<longleftrightarrow>
     (if i \<in> {PDX UVPT, PDX (KSTACKTOP - 1), PDX UPAGES, PDX UENVS, PDX MMIOBASE} then pde AND PTE_P \<noteq> 0
      else if i \<ge> PDX KERNBASE then pde AND PTE_P \<noteq> 0 \<and> pde AND PTE_W \<noteq> 0
      else pde = 0)"

text \<open>The address of the stack of a processor; \<^verbatim>\<open>percpu_kstacks\<close> is an array of \<^verbatim>\<open>NCPU\<close> stacks.\<close>

definition kstack_of :: "32 word \<Rightarrow> nat \<Rightarrow> 32 word" where
  "kstack_of kstacks i = kstacks + of_nat i * KSTKSIZE"

definition check_kstack :: "nat \<Rightarrow> 32 word \<Rightarrow> nat \<Rightarrow> 'a machine_scheme \<Rightarrow> bool" where
  "check_kstack kd kstacks n m \<longleftrightarrow>
     (let base = KSTACKTOP - (KSTKSIZE + KSTKGAP) * of_nat (n + 1) in
      (case PADDR (kstack_of kstacks n) of None \<Rightarrow> False | Some pa \<Rightarrow> maps_to kd (base + KSTKGAP) pa 0x8000 m) \<and>
      maps_nothing kd base 0x8000 m)"

text \<open>The sizes in bytes of the arrays \<^verbatim>\<open>pages\<close> (8 bytes an element) and \<^verbatim>\<open>envs\<close> (128).\<close>

definition pages_size :: "nat \<Rightarrow> 32 word" where
  "pages_size np = of_nat np * 8"

definition envs_size :: "32 word" where
  "envs_size = of_nat NENV * 128"

definition check_kern_pgdir :: "nat \<Rightarrow> 32 word \<Rightarrow> 32 word \<Rightarrow> 32 word \<Rightarrow> 'a machine_scheme \<Rightarrow> unit option" where
  "check_kern_pgdir kd pages_at envs_at kstacks m = do {
     ppages \<leftarrow> PADDR pages_at;
     guard (maps_to kd UPAGES ppages (unat (ROUNDUP (pages_size (npages m)) PGSIZE)) m);
     penvs \<leftarrow> PADDR envs_at;
     guard (maps_to kd UENVS penvs (unat (ROUNDUP envs_size PGSIZE)) m);
     guard (maps_to kd KERNBASE 0 (unat (of_nat (npages m) * PGSIZE :: 32 word)) m);
     guard (list_all (\<lambda>n. check_kstack kd kstacks n m) [0..<NCPU]);
     guard (list_all (\<lambda>i. pde_expected i (pmem m kd i)) [0..<1024])
   }"

section \<open>Setting up memory\<close>

fun mem_init_mp :: "nat list \<Rightarrow> nat \<Rightarrow> 32 word \<Rightarrow> 'a machine_scheme \<Rightarrow> 'a machine_scheme option" where
  "mem_init_mp [] kd kstacks m = Some m"
| "mem_init_mp (i # is) kd kstacks m = do {
     let stack_start = KSTACKTOP - of_nat i * (KSTKSIZE + KSTKGAP) - KSTKSIZE;
     pa \<leftarrow> PADDR (kstack_of kstacks i);
     m \<leftarrow> boot_map_region kd stack_start 0x8000 pa (PTE_W OR PTE_P) m;
     mem_init_mp is kd kstacks m
   }"

definition blank_env :: environment where
  "blank_env = \<lparr>env_tf = zero_tf, env_link = None, env_id = 0, env_parent_id = 0, env_type = ENV_TYPE_USER,
     env_status = ENV_FREE, env_runs = 0, env_cpunum = 0, priority = 0, env_pgdir = None, env_pgfault_upcall = 0,
     env_ipc_recving = False, env_ipc_dstva = 0, env_ipc_value = 0, env_ipc_from = 0, env_ipc_perm = 0\<rparr>"

text \<open>The kernel's data: its directory, entered in itself, and the arrays of pages and environments, all zero.\<close>

definition kernel_data :: "32 word \<Rightarrow> nat \<Rightarrow> kernel \<Rightarrow> (32 word \<times> 32 word \<times> 32 word \<times> kernel) option" where
  "kernel_data kend np k = do {
     (pgdir_at, nextfree) \<leftarrow> boot_alloc kend np 0 PGSIZE;
     guard (boot_writable pgdir_at 4096);
     pa \<leftarrow> PADDR pgdir_at;
     let kd = PGNUM pa;
     let k = zero_page kd (k\<lparr>kern_pgdir := kd\<rparr>);
     let k = put_word kd (PDX UVPT) (pa OR PTE_U OR PTE_P) k;
     (pages_at, nextfree) \<leftarrow> boot_alloc kend np nextfree (pages_size np);
     guard (boot_writable pages_at (unat (pages_size np)));
     let k = k\<lparr>pages := replicate np \<lparr>pp_link = None, pp_ref = 0\<rparr>\<rparr>;
     (envs_at, nextfree) \<leftarrow> boot_alloc kend np nextfree envs_size;
     guard (boot_writable envs_at (unat envs_size));
     Some (pages_at, envs_at, nextfree, k\<lparr>envs := replicate NENV blank_env\<rparr>)
   }"

definition kernel_maps :: "32 word \<Rightarrow> 32 word \<Rightarrow> 32 word \<Rightarrow> nat \<Rightarrow> 'a machine_scheme \<Rightarrow> 'a machine_scheme option" where
  "kernel_maps pages_at envs_at kstacks kd m = do {
     ppages \<leftarrow> PADDR pages_at;
     m \<leftarrow> boot_map_region kd UPAGES (unat (ROUNDUP (pages_size (npages m)) PGSIZE)) ppages (PTE_U OR PTE_P) m;
     penvs \<leftarrow> PADDR envs_at;
     m \<leftarrow> boot_map_region kd UENVS (unat (ROUNDUP envs_size PGSIZE)) penvs (PTE_U OR PTE_P) m;
     m \<leftarrow> boot_map_region kd KERNBASE (2 ^ 28) 0 (PTE_W OR PTE_P) m;
     mem_init_mp [0..<NCPU] kd kstacks m
   }"

text \<open>
  \<^verbatim>\<open>page_init\<close> asks \<^verbatim>\<open>boot_alloc(0)\<close> for the first free address for every page above \<^verbatim>\<open>EXTPHYSMEM\<close>; the answer is always the same.
  The result is the value of \<^verbatim>\<open>base\<close> and the state.
\<close>

definition mem_init :: "(nat \<Rightarrow> 8 word) \<Rightarrow> 32 word \<Rightarrow> 32 word \<Rightarrow> kernel \<Rightarrow> (32 word \<times> kernel) option" where
  "mem_init cmos kend kstacks k = do {
     let np = unat (fst (i386_detect_memory cmos));
     (pages_at, envs_at, nextfree, k) \<leftarrow> kernel_data kend np k;
     let kd = kern_pgdir k;
     (first, nextfree) \<leftarrow> boot_alloc kend np nextfree 0;
     pfirst \<leftarrow> PADDR first;
     let k = page_init pfirst k;
     k \<leftarrow> check_page_free_list kend nextfree True k;
     k \<leftarrow> check_page_alloc k;
     (base, k) \<leftarrow> check_page kd MMIOBASE k;
     k \<leftarrow> kernel_maps pages_at envs_at kstacks kd k;
     _ \<leftarrow> check_kern_pgdir kd pages_at envs_at kstacks k;
     k \<leftarrow> check_page_free_list kend nextfree False k;
     k \<leftarrow> check_page_installed_pgdir kd k;
     Some (base, k)
   }"

section \<open>Starting the kernel\<close>

text \<open>\<^verbatim>\<open>i386_init\<close> clears the kernel's variables first; what the memory holds is arbitrary.\<close>

definition clear_bss :: "kernel \<Rightarrow> kernel" where
  "clear_bss k = k\<lparr>page_free_list := None, env_free_list := None, cpu_env := (\<lambda>_. None), cpu_halted := (\<lambda>_. False),
     n_sched_calls := 0, n_context_switches := 0, last_env_run := 0, runs_per_env := replicate NENV 0, aging_ticks := 0,
     cons_out := []\<rparr>"

end
