(* ===== verification/Kern_Desc.thy ===== *)
theory Kern_Desc
  imports Kern_Boot Kern_Trap
begin

unbundle bit_operations_syntax

text \<open>
  The tables of the processor: segment descriptors, gates and task states of \<^verbatim>\<open>src/TP Sched/inc/mmu.h\<close>, the global table of
  \<^verbatim>\<open>kern/env.c\<close> with \<^verbatim>\<open>env_init_percpu\<close>, \<^verbatim>\<open>trap_init\<close> and \<^verbatim>\<open>trap_init_percpu\<close> of \<^verbatim>\<open>kern/trap.c\<close>; then the way into the kernel and
  back: the entry points of \<^verbatim>\<open>kern/trapentry.S\<close>, \<^verbatim>\<open>context_switch\<close> of \<^verbatim>\<open>kern/switch.S\<close> and the last lines of \<^verbatim>\<open>sched_halt\<close>.

  The instructions that these use (\<^verbatim>\<open>lgdt\<close>, \<^verbatim>\<open>lidt\<close>, \<^verbatim>\<open>ltr\<close>, loading a segment register, \<^verbatim>\<open>push\<close>, \<^verbatim>\<open>iret\<close>) and the delivery of an
  interrupt follow the manual of the processor, for flat segments: a fault of an instruction of the kernel is \<^term>\<open>None\<close>. The
  addresses that the linker chooses are a parameter.
\<close>

section \<open>Descriptors\<close>

record segdesc =
  sd_lim_15_0 :: "16 word"
  sd_base_15_0 :: "16 word"
  sd_base_23_16 :: "8 word"
  sd_type :: "4 word"
  sd_s :: "1 word"
  sd_dpl :: "2 word"
  sd_p :: "1 word"
  sd_lim_19_16 :: "4 word"
  sd_avl :: "1 word"
  sd_rsv1 :: "1 word"
  sd_db :: "1 word"
  sd_g :: "1 word"
  sd_base_31_24 :: "8 word"

abbreviation (input) STA_X :: "4 word" where "STA_X \<equiv> 8"
abbreviation (input) STA_W :: "4 word" where "STA_W \<equiv> 2"
abbreviation (input) STA_R :: "4 word" where "STA_R \<equiv> 2"
abbreviation (input) STS_T32A :: "4 word" where "STS_T32A \<equiv> 9"
abbreviation (input) STS_T32B :: "4 word" where "STS_T32B \<equiv> 0xB"
abbreviation (input) STS_IG32 :: "4 word" where "STS_IG32 \<equiv> 0xE"
abbreviation (input) STS_TG32 :: "4 word" where "STS_TG32 \<equiv> 0xF"

definition SEG_NULL :: segdesc where
  "SEG_NULL = \<lparr>sd_lim_15_0 = 0, sd_base_15_0 = 0, sd_base_23_16 = 0, sd_type = 0, sd_s = 0, sd_dpl = 0, sd_p = 0,
     sd_lim_19_16 = 0, sd_avl = 0, sd_rsv1 = 0, sd_db = 0, sd_g = 0, sd_base_31_24 = 0\<rparr>"

definition SEG :: "4 word \<Rightarrow> 32 word \<Rightarrow> 32 word \<Rightarrow> 2 word \<Rightarrow> segdesc" where
  "SEG type base lim dpl = \<lparr>sd_lim_15_0 = ucast (drop_bit 12 lim AND 0xFFFF), sd_base_15_0 = ucast (base AND 0xFFFF),
     sd_base_23_16 = ucast (drop_bit 16 base AND 0xFF), sd_type = type, sd_s = 1, sd_dpl = dpl, sd_p = 1,
     sd_lim_19_16 = ucast (drop_bit 28 lim), sd_avl = 0, sd_rsv1 = 0, sd_db = 1, sd_g = 1, sd_base_31_24 = ucast (drop_bit 24 base)\<rparr>"

definition SEG16 :: "4 word \<Rightarrow> 32 word \<Rightarrow> 32 word \<Rightarrow> 2 word \<Rightarrow> segdesc" where
  "SEG16 type base lim dpl = \<lparr>sd_lim_15_0 = ucast (lim AND 0xFFFF), sd_base_15_0 = ucast (base AND 0xFFFF),
     sd_base_23_16 = ucast (drop_bit 16 base AND 0xFF), sd_type = type, sd_s = 1, sd_dpl = dpl, sd_p = 1,
     sd_lim_19_16 = ucast (drop_bit 16 lim), sd_avl = 0, sd_rsv1 = 0, sd_db = 1, sd_g = 0, sd_base_31_24 = ucast (drop_bit 24 base)\<rparr>"

text \<open>The base and the last offset of a segment, as the processor puts them together.\<close>

definition seg_base :: "segdesc \<Rightarrow> 32 word" where
  "seg_base d = ucast (sd_base_15_0 d) OR push_bit 16 (ucast (sd_base_23_16 d)) OR push_bit 24 (ucast (sd_base_31_24 d))"

definition seg_limit :: "segdesc \<Rightarrow> 32 word" where
  "seg_limit d = (let l = ucast (sd_lim_15_0 d) OR push_bit 16 (ucast (sd_lim_19_16 d))
                  in if sd_g d = 1 then push_bit 12 l OR 0xFFF else l)"

record gatedesc =
  gd_off_15_0 :: "16 word"
  gd_sel :: "16 word"
  gd_args :: "5 word"
  gd_rsv1 :: "3 word"
  gd_type :: "4 word"
  gd_s :: "1 word"
  gd_dpl :: "2 word"
  gd_p :: "1 word"
  gd_off_31_16 :: "16 word"

definition zero_gate :: gatedesc where
  "zero_gate = \<lparr>gd_off_15_0 = 0, gd_sel = 0, gd_args = 0, gd_rsv1 = 0, gd_type = 0, gd_s = 0, gd_dpl = 0, gd_p = 0, gd_off_31_16 = 0\<rparr>"

text \<open>\<^verbatim>\<open>SETGATE\<close> stores every field, so that the result does not depend on the old gate.\<close>

definition SETGATE :: "bool \<Rightarrow> 16 word \<Rightarrow> 32 word \<Rightarrow> 2 word \<Rightarrow> gatedesc" where
  "SETGATE istrap sel off dpl = \<lparr>gd_off_15_0 = ucast (off AND 0xFFFF), gd_sel = sel, gd_args = 0, gd_rsv1 = 0,
     gd_type = (if istrap then STS_TG32 else STS_IG32), gd_s = 0, gd_dpl = dpl, gd_p = 1, gd_off_31_16 = ucast (drop_bit 16 off)\<rparr>"

definition gate_offset :: "gatedesc \<Rightarrow> 32 word" where
  "gate_offset g = ucast (gd_off_15_0 g) OR push_bit 16 (ucast (gd_off_31_16 g))"

record pseudodesc =
  pd_lim :: "16 word"
  pd_base :: "32 word"

text \<open>The task state of a processor, without the padding.\<close>

record taskstate =
  ts_link :: "32 word"
  ts_esp0 :: "32 word"
  ts_ss0 :: "16 word"
  ts_esp1 :: "32 word"
  ts_ss1 :: "16 word"
  ts_esp2 :: "32 word"
  ts_ss2 :: "16 word"
  ts_cr3 :: "32 word"
  ts_eip :: "32 word"
  ts_eflags :: "32 word"
  ts_eax :: "32 word"
  ts_ecx :: "32 word"
  ts_edx :: "32 word"
  ts_ebx :: "32 word"
  ts_esp :: "32 word"
  ts_ebp :: "32 word"
  ts_esi :: "32 word"
  ts_edi :: "32 word"
  ts_es :: "16 word"
  ts_cs :: "16 word"
  ts_ss :: "16 word"
  ts_ds :: "16 word"
  ts_fs :: "16 word"
  ts_gs :: "16 word"
  ts_ldt :: "16 word"
  ts_t :: "16 word"
  ts_iomb :: "16 word"

definition zero_ts :: taskstate where
  "zero_ts = \<lparr>ts_link = 0, ts_esp0 = 0, ts_ss0 = 0, ts_esp1 = 0, ts_ss1 = 0, ts_esp2 = 0, ts_ss2 = 0, ts_cr3 = 0, ts_eip = 0,
     ts_eflags = 0, ts_eax = 0, ts_ecx = 0, ts_edx = 0, ts_ebx = 0, ts_esp = 0, ts_ebp = 0, ts_esi = 0, ts_edi = 0, ts_es = 0, ts_cs = 0,
     ts_ss = 0, ts_ds = 0, ts_fs = 0, ts_gs = 0, ts_ldt = 0, ts_t = 0, ts_iomb = 0\<rparr>"

section \<open>The tables and the processor\<close>

text \<open>
  The tables in the kernel's memory: \<^verbatim>\<open>gdt\<close>, \<^verbatim>\<open>idt\<close> and the member \<^verbatim>\<open>cpu_ts\<close> of each element of \<^verbatim>\<open>cpus\<close>; and where the linker has
  put them and the entry points \<^verbatim>\<open>trap0\<close>, \<^verbatim>\<open>trap1\<close>, \<open>\<dots>\<close> of \<^verbatim>\<open>trapentry.S\<close>.
\<close>

record tables =
  gdt :: "segdesc list"
  idt :: "gatedesc list"
  cpu_ts :: "nat \<Rightarrow> taskstate"

record linked =
  at_gdt :: "32 word"
  at_idt :: "32 word"
  at_ts :: "nat \<Rightarrow> 32 word"
  at_trap :: "nat \<Rightarrow> 32 word"

abbreviation (input) GD_KD :: "16 word" where "GD_KD \<equiv> 0x10"
abbreviation (input) GD_UT :: "16 word" where "GD_UT \<equiv> 0x18"
abbreviation (input) GD_UD :: "16 word" where "GD_UD \<equiv> 0x20"
abbreviation (input) GD_TSS0 :: "16 word" where "GD_TSS0 \<equiv> 0x28"

definition boot_gdt :: "segdesc list" where
  "boot_gdt =
     [SEG_NULL,
      SEG (STA_X OR STA_R) 0 0xFFFFFFFF 0,
      SEG STA_W 0 0xFFFFFFFF 0,
      SEG (STA_X OR STA_R) 0 0xFFFFFFFF 3,
      SEG STA_W 0 0xFFFFFFFF 3] @ replicate NCPU SEG_NULL"

definition gdt_pd :: "linked \<Rightarrow> pseudodesc" where
  "gdt_pd L = \<lparr>pd_lim = of_nat ((NCPU + 5) * 8 - 1), pd_base = at_gdt L\<rparr>"

definition idt_pd :: "linked \<Rightarrow> pseudodesc" where
  "idt_pd L = \<lparr>pd_lim = of_nat (256 * 8 - 1), pd_base = at_idt L\<rparr>"

definition boot_tables :: tables where
  "boot_tables = \<lparr>gdt = boot_gdt, idt = replicate 256 zero_gate, cpu_ts = (\<lambda>_. zero_ts)\<rparr>"

text \<open>The registers of a processor; \<open>reg_oesp\<close> of \<open>p_regs\<close> is no register and always 0.\<close>

record processor =
  p_regs :: push_regs
  p_es :: "16 word"
  p_ds :: "16 word"
  p_fs :: "16 word"
  p_gs :: "16 word"
  p_cs :: "16 word"
  p_ss :: "16 word"
  p_eip :: "32 word"
  p_esp :: "32 word"
  p_eflags :: "32 word"
  p_ldtr :: "16 word"
  p_tr :: "16 word"
  p_gdtr :: pseudodesc
  p_idtr :: pseudodesc

definition cpl :: "processor \<Rightarrow> 2 word" where
  "cpl p = ucast (p_cs p)"

definition sel_index :: "16 word \<Rightarrow> nat" where
  "sel_index sel = unat (drop_bit 3 sel)"

text \<open>The descriptor that a selector names; the local table is never used.\<close>

definition seg_at :: "linked \<Rightarrow> tables \<Rightarrow> pseudodesc \<Rightarrow> 16 word \<Rightarrow> segdesc option" where
  "seg_at L t r sel =
     (if sel AND 4 = 0 \<and> pd_base r = at_gdt L \<and> 8 * sel_index sel + 7 \<le> unat (pd_lim r) \<and> sel_index sel < length (gdt t)
      then Some (gdt t ! sel_index sel) else None)"

text \<open>
  What a data segment register may be loaded with: a null selector, or a segment of a privilege that the processor has. The stack
  segment is stricter.
\<close>

definition data_seg :: "linked \<Rightarrow> tables \<Rightarrow> processor \<Rightarrow> 16 word \<Rightarrow> 16 word option" where
  "data_seg L t p sel =
     (if sel AND 0xFFFC = 0 then Some sel
      else do {
        d \<leftarrow> seg_at L t (p_gdtr p) sel;
        guard (sd_s d = 1 \<and> (sd_type d AND STA_X = 0 \<or> sd_type d AND STA_R \<noteq> 0) \<and> cpl p \<le> sd_dpl d \<and> ucast sel \<le> sd_dpl d \<and> sd_p d = 1);
        Some sel
      })"

definition stack_seg :: "linked \<Rightarrow> tables \<Rightarrow> pseudodesc \<Rightarrow> 2 word \<Rightarrow> 16 word \<Rightarrow> 16 word option" where
  "stack_seg L t r c sel = do {
     guard (sel AND 0xFFFC \<noteq> 0);
     d \<leftarrow> seg_at L t r sel;
     guard (sd_s d = 1 \<and> sd_type d AND STA_X = 0 \<and> sd_type d AND STA_W \<noteq> 0 \<and> sd_dpl d = c \<and> ucast sel = c \<and> sd_p d = 1);
     Some sel
   }"

definition code_seg :: "linked \<Rightarrow> tables \<Rightarrow> pseudodesc \<Rightarrow> 16 word \<Rightarrow> segdesc option" where
  "code_seg L t r sel = do {
     guard (sel AND 0xFFFC \<noteq> 0);
     d \<leftarrow> seg_at L t r sel;
     guard (sd_s d = 1 \<and> sd_type d AND STA_X \<noteq> 0 \<and> sd_type d AND 4 = 0 \<and> sd_p d = 1);
     Some d
   }"

definition env_init_percpu :: "linked \<Rightarrow> tables \<Rightarrow> processor \<Rightarrow> processor option" where
  "env_init_percpu L t p = do {
     let p = p\<lparr>p_gdtr := gdt_pd L\<rparr>;
     gs \<leftarrow> data_seg L t p (GD_UD OR 3);
     let p = p\<lparr>p_gs := gs\<rparr>;
     fs \<leftarrow> data_seg L t p (GD_UD OR 3);
     let p = p\<lparr>p_fs := fs\<rparr>;
     es \<leftarrow> data_seg L t p GD_KD;
     let p = p\<lparr>p_es := es\<rparr>;
     ds \<leftarrow> data_seg L t p GD_KD;
     let p = p\<lparr>p_ds := ds\<rparr>;
     ss \<leftarrow> stack_seg L t (p_gdtr p) (cpl p) GD_KD;
     let p = p\<lparr>p_ss := ss\<rparr>;
     d \<leftarrow> code_seg L t (p_gdtr p) GD_KT;
     guard (sd_dpl d = cpl p);
     let p = p\<lparr>p_cs := GD_KT\<rparr>;
     Some (p\<lparr>p_ldtr := 0\<rparr>)
   }"

text \<open>\<^verbatim>\<open>ltr\<close> takes a task state that no other processor uses and marks it busy.\<close>

definition ltr :: "linked \<Rightarrow> 16 word \<Rightarrow> tables \<Rightarrow> processor \<Rightarrow> (tables \<times> processor) option" where
  "ltr L sel t p = do {
     guard (sel AND 0xFFFC \<noteq> 0);
     d \<leftarrow> seg_at L t (p_gdtr p) sel;
     guard (sd_s d = 0 \<and> sd_type d = STS_T32A \<and> sd_p d = 1);
     Some (t\<lparr>gdt := (gdt t)[sel_index sel := d\<lparr>sd_type := STS_T32B\<rparr>]\<rparr>, p\<lparr>p_tr := sel\<rparr>)
   }"

text \<open>
  \<open>i\<close> is the number of the processor, \<^verbatim>\<open>cpunum()\<close> and the member \<^verbatim>\<open>cpu_id\<close> of \<^verbatim>\<open>*thiscpu\<close>; for a number that is not below
  \<^verbatim>\<open>NCPU\<close> the stores are outside of the arrays. A task state has 104 bytes.
\<close>

definition tss_desc :: "linked \<Rightarrow> nat \<Rightarrow> segdesc" where
  "tss_desc L i = (SEG16 STS_T32A (at_ts L i) (104 - 1) 0)\<lparr>sd_s := 0\<rparr>"

definition trap_init_percpu :: "linked \<Rightarrow> nat \<Rightarrow> tables \<Rightarrow> processor \<Rightarrow> (tables \<times> processor) option" where
  "trap_init_percpu L i t p = do {
     guard (i < NCPU);
     let ts = (cpu_ts t i)\<lparr>ts_esp0 := KSTACKTOP - of_nat i * (KSTKGAP + KSTKSIZE), ts_ss0 := GD_KD, ts_iomb := 104\<rparr>;
     let t = t\<lparr>cpu_ts := (cpu_ts t)(i := ts), gdt := (gdt t)[sel_index GD_TSS0 + i := tss_desc L i]\<rparr>;
     (t, p) \<leftarrow> ltr L (GD_TSS0 + push_bit 3 (of_nat i)) t p;
     Some (t, p\<lparr>p_idtr := idt_pd L\<rparr>)
   }"

definition set_gate :: "linked \<Rightarrow> nat \<Rightarrow> nat \<Rightarrow> 2 word \<Rightarrow> gatedesc list \<Rightarrow> gatedesc list" where
  "set_gate L v n dpl gs = gs[v := SETGATE False GD_KT (at_trap L n) dpl]"

definition trap_gates :: "linked \<Rightarrow> gatedesc list \<Rightarrow> gatedesc list" where
  "trap_gates L g =
     (let g = set_gate L 0 0 0 g;
          g = set_gate L 1 1 0 g;
          g = set_gate L 2 2 0 g;
          g = set_gate L 3 3 3 g;
          g = set_gate L 4 4 0 g;
          g = set_gate L 5 5 0 g;
          g = set_gate L 6 6 0 g;
          g = set_gate L 7 7 0 g;
          g = set_gate L 8 8 0 g;
          g = set_gate L 10 10 0 g;
          g = set_gate L 11 11 0 g;
          g = set_gate L 12 12 0 g;
          g = set_gate L 13 13 0 g;
          g = set_gate L 14 14 0 g;
          g = set_gate L 16 16 0 g;
          g = set_gate L 17 17 0 g;
          g = set_gate L 18 18 0 g;
          g = set_gate L 19 19 0 g;
          g = set_gate L 48 48 3 g;
          g = set_gate L (32 + 0) 32 0 g
      in g)"

definition trap_init :: "linked \<Rightarrow> nat \<Rightarrow> tables \<Rightarrow> processor \<Rightarrow> (tables \<times> processor) option" where
  "trap_init L i t p = trap_init_percpu L i (t\<lparr>idt := trap_gates L (idt t)\<rparr>) p"

section \<open>The way in\<close>

text \<open>An instruction \<^verbatim>\<open>int\<close>, an interrupt from a device, or an exception with its error code, if it has one.\<close>

datatype event = Soft nat | Irq nat | Exc nat "32 word"

definition gate_at :: "linked \<Rightarrow> tables \<Rightarrow> processor \<Rightarrow> nat \<Rightarrow> gatedesc option" where
  "gate_at L t p v =
     (if pd_base (p_idtr p) = at_idt L \<and> 8 * v + 7 \<le> unat (pd_lim (p_idtr p)) \<and> v < length (idt t) \<and>
         gd_type (idt t ! v) \<in> {STS_IG32, STS_TG32} then Some (idt t ! v) else None)"

definition has_error :: "nat \<Rightarrow> bool" where
  "has_error v \<longleftrightarrow> v \<in> {8, 10, 11, 12, 13, 14, 17}"

text \<open>
  The vector and the error code that an event is delivered with: without a usable gate it becomes a general protection fault,
  or a fault for a segment that is not present.
\<close>

definition accepted :: "linked \<Rightarrow> tables \<Rightarrow> processor \<Rightarrow> event \<Rightarrow> nat \<times> 32 word option" where
  "accepted L t p ev =
     (case ev of
        Soft v \<Rightarrow> (case gate_at L t p v of
            None \<Rightarrow> (13, Some (of_nat (8 * v + 2)))
          | Some g \<Rightarrow> if gd_dpl g < cpl p then (13, Some (of_nat (8 * v + 2)))
                      else if gd_p g = 0 then (11, Some (of_nat (8 * v + 2))) else (v, None))
      | Irq v \<Rightarrow> (case gate_at L t p v of
            None \<Rightarrow> (13, Some (of_nat (8 * v + 3)))
          | Some g \<Rightarrow> if gd_p g = 0 then (11, Some (of_nat (8 * v + 3))) else (v, None))
      | Exc v e \<Rightarrow> (case gate_at L t p v of
            None \<Rightarrow> (13, Some (of_nat (8 * v + 3)))
          | Some g \<Rightarrow> if gd_p g = 0 then (11, Some (of_nat (8 * v + 3))) else (v, if has_error v then Some e else None)))"

text \<open>The task state that the task register leads to.\<close>

definition current_ts :: "linked \<Rightarrow> tables \<Rightarrow> processor \<Rightarrow> taskstate option" where
  "current_ts L t p = do {
     d \<leftarrow> seg_at L t (p_gdtr p) (p_tr p);
     i \<leftarrow> List.find (\<lambda>i. at_ts L i = seg_base d) [0..<NCPU];
     guard (104 - 1 \<le> seg_limit d);
     Some (cpu_ts t i)
   }"

text \<open>Pushing words through the page tables of the directory \<open>d\<close>.\<close>

fun pushes :: "nat \<Rightarrow> 32 word list \<Rightarrow> 32 word \<Rightarrow> 'a machine_scheme \<Rightarrow> (32 word \<times> 'a machine_scheme) option" where
  "pushes d [] esp m = Some (esp, m)"
| "pushes d (w # ws) esp m = do {
     m \<leftarrow> write_va d (esp - 4) w m;
     pushes d ws (esp - 4) m
   }"

text \<open>
  An interrupt gate clears the interrupt flag, and every gate the trap, nested task, resume and virtual mode flags. From a lower
  privilege the processor changes to the stack of its task state and saves the old one.
\<close>

definition deliver :: "linked \<Rightarrow> nat \<Rightarrow> tables \<Rightarrow> event \<Rightarrow> processor \<Rightarrow> 'a machine_scheme \<Rightarrow> (processor \<times> 'a machine_scheme) option" where
  "deliver L d t ev p m = do {
     let (v, err) = accepted L t p ev;
     g \<leftarrow> gate_at L t p v;
     guard (gd_p g = 1);
     cs \<leftarrow> code_seg L t (p_gdtr p) (gd_sel g);
     guard (sd_dpl cs \<le> cpl p);
     (outer, esp, ss) \<leftarrow> (if sd_dpl cs < cpl p
        then do {
          ts \<leftarrow> current_ts L t p;
          ss \<leftarrow> stack_seg L t (p_gdtr p) (sd_dpl cs) (ts_ss0 ts);
          Some ([ucast (p_ss p), p_esp p], ts_esp0 ts, ss)
        }
        else Some ([], p_esp p, p_ss p));
     (esp, m) \<leftarrow> pushes d (outer @ [p_eflags p, ucast (p_cs p), p_eip p] @ (case err of None \<Rightarrow> [] | Some e \<Rightarrow> [e])) esp m;
     Some (p\<lparr>p_cs := (gd_sel g AND 0xFFFC) OR ucast (sd_dpl cs), p_ss := ss, p_esp := esp, p_eip := gate_offset g,
       p_eflags := p_eflags p AND NOT (if gd_type g = STS_IG32 then 0x34300 else 0x34100)\<rparr>, m)
   }"

text \<open>
  The entry points: \<^verbatim>\<open>TRAPHANDLER\<close> for the vectors with an error code, \<^verbatim>\<open>TRAPHANDLER_NOEC\<close>, which pushes 0 for it, for the others.
  \<^verbatim>\<open>_alltraps\<close> pushes the rest of the frame and its address, the argument of \<^verbatim>\<open>trap\<close>. It leaves the data segments of the program.
\<close>

definition trap_labels :: "nat list" where
  "trap_labels = [0..<20] @ [32, 48]"

definition traphandler :: "nat \<Rightarrow> bool" where
  "traphandler n \<longleftrightarrow> n = 8 \<or> n = 10 \<or> n = 11 \<or> n = 12 \<or> n = 13 \<or> n = 14 \<or> n = 17"

definition alltraps :: "nat \<Rightarrow> nat \<Rightarrow> processor \<Rightarrow> 'a machine_scheme \<Rightarrow> (processor \<times> 'a machine_scheme) option" where
  "alltraps d n p m = do {
     (esp, m) \<leftarrow> pushes d (if traphandler n then [of_nat n] else [0, of_nat n]) (p_esp p) m;
     (esp, m) \<leftarrow> pushes d [ucast (p_ds p), ucast (p_es p)] esp m;
     let r = p_regs p;
     (esp, m) \<leftarrow> pushes d [reg_eax r, reg_ecx r, reg_edx r, reg_ebx r, esp, reg_ebp r, reg_esi r, reg_edi r] esp m;
     (esp, m) \<leftarrow> pushes d [esp] esp m;
     Some (p\<lparr>p_esp := esp\<rparr>, m)
   }"

definition trap_entry :: "linked \<Rightarrow> nat \<Rightarrow> tables \<Rightarrow> event \<Rightarrow> processor \<Rightarrow> 'a machine_scheme \<Rightarrow> (processor \<times> 'a machine_scheme) option" where
  "trap_entry L d t ev p m = do {
     (p, m) \<leftarrow> deliver L d t ev p m;
     n \<leftarrow> List.find (\<lambda>n. at_trap L n = p_eip p) trap_labels;
     alltraps d n p m
   }"

text \<open>The frame at an address, as \<^verbatim>\<open>struct Trapframe\<close> reads it.\<close>

fun read_words :: "nat \<Rightarrow> 32 word \<Rightarrow> nat \<Rightarrow> 'a machine_scheme \<Rightarrow> 32 word list option" where
  "read_words d a 0 m = Some []"
| "read_words d a (Suc n) m = do {
     w \<leftarrow> read_va d a m;
     ws \<leftarrow> read_words d (a + 4) n m;
     Some (w # ws)
   }"

definition frame_of :: "32 word list \<Rightarrow> trapframe" where
  "frame_of ws =
     \<lparr>tf_regs = \<lparr>reg_edi = ws ! 0, reg_esi = ws ! 1, reg_ebp = ws ! 2, reg_oesp = ws ! 3, reg_ebx = ws ! 4, reg_edx = ws ! 5,
        reg_ecx = ws ! 6, reg_eax = ws ! 7\<rparr>,
      tf_es = ucast (ws ! 8), tf_ds = ucast (ws ! 9), tf_trapno = ws ! 10, tf_err = ws ! 11, tf_eip = ws ! 12, tf_cs = ucast (ws ! 13),
      tf_eflags = ws ! 14, tf_esp = ws ! 15, tf_ss = ucast (ws ! 16)\<rparr>"

definition read_frame :: "nat \<Rightarrow> 32 word \<Rightarrow> 'a machine_scheme \<Rightarrow> trapframe option" where
  "read_frame d a m = map_option frame_of (read_words d a 17 m)"

section \<open>The way back\<close>

text \<open>
  \<^verbatim>\<open>iret\<close> to a program: the code segment has the privilege that the selector asks for, the stack segment the same, and data
  segments that the program may not use are emptied.
\<close>

definition iret_data :: "linked \<Rightarrow> tables \<Rightarrow> pseudodesc \<Rightarrow> 2 word \<Rightarrow> 16 word \<Rightarrow> 16 word" where
  "iret_data L t r c sel =
     (if sel AND 0xFFFC = 0 then sel else case seg_at L t r sel of None \<Rightarrow> sel | Some d \<Rightarrow> if sd_dpl d < c then 0 else sel)"

definition context_switch :: "linked \<Rightarrow> tables \<Rightarrow> trapframe \<Rightarrow> processor \<Rightarrow> processor option" where
  "context_switch L t tf p = do {
     let p = p\<lparr>p_regs := (tf_regs tf)\<lparr>reg_oesp := 0\<rparr>\<rparr>;
     es \<leftarrow> data_seg L t p (tf_es tf);
     ds \<leftarrow> data_seg L t p (tf_ds tf);
     d \<leftarrow> code_seg L t (p_gdtr p) (tf_cs tf);
     let c = ucast (tf_cs tf);
     guard (cpl p < c \<and> sd_dpl d = c);
     ss \<leftarrow> stack_seg L t (p_gdtr p) c (tf_ss tf);
     let f = iret_data L t (p_gdtr p) c;
     Some (p\<lparr>p_es := f es, p_ds := f ds, p_fs := f (p_fs p), p_gs := f (p_gs p), p_cs := tf_cs tf, p_ss := ss, p_eip := tf_eip tf,
       p_esp := tf_esp tf, p_eflags := tf_eflags tf\<rparr>)
   }"

text \<open>The end of \<^verbatim>\<open>sched_halt\<close>: the processor waits on its empty stack, below two words that stand for a stack it did not change.\<close>

definition halt_stack :: "nat \<Rightarrow> 32 word \<Rightarrow> processor \<Rightarrow> 'a machine_scheme \<Rightarrow> (processor \<times> 'a machine_scheme) option" where
  "halt_stack d esp0 p m = do {
     (esp, m) \<leftarrow> pushes d [0, 0] esp0 m;
     Some (p\<lparr>p_regs := (p_regs p)\<lparr>reg_ebp := 0, reg_eax := esp0\<rparr>, p_esp := esp, p_eflags := p_eflags p OR 0x200\<rparr>, m)
   }"

end
