(* ===== verification/Kern_Load.thy ===== *)
theory Kern_Load
  imports Kern_Boot Kern_Trap
begin

unbundle bit_operations_syntax

text \<open>
  From memory to the first program: the loader of programs, \<^verbatim>\<open>load_icode\<close> and \<^verbatim>\<open>env_create\<close> of \<^verbatim>\<open>src/TP Sched/kern/env.c\<close>, with
  the headers of \<^verbatim>\<open>inc/elf.h\<close>, and the parts of \<^verbatim>\<open>i386_init\<close> of \<^verbatim>\<open>kern/init.c\<close> that create the programs of the build
  and change memory.

  The images of the programs are linked into the kernel; an image is a function from offsets to bytes, and loading does not change
  it. The loader writes through the page tables of the new environment, so that a store outside its pages faults, which is a panic
  (\<^term>\<open>None\<close>). Of \<^verbatim>\<open>i386_init\<close> the steps that only program devices (the interrupt controllers, the descriptor tables) and the start
  of other processors are left out; the page for the local interrupt controller is mapped.
\<close>

section \<open>Images of programs\<close>

type_synonym image = "nat \<Rightarrow> 8 word"

definition half_at :: "image \<Rightarrow> nat \<Rightarrow> 16 word" where
  "half_at b a = ucast (b a) OR push_bit 8 (ucast (b (a + 1)))"

definition long_at :: "image \<Rightarrow> nat \<Rightarrow> 32 word" where
  "long_at b a = ucast (half_at b a) OR push_bit 16 (ucast (half_at b (a + 2)))"

record elf =
  e_magic :: "32 word"
  e_elf :: "8 word list"
  e_type :: "16 word"
  e_machine :: "16 word"
  e_version :: "32 word"
  e_entry :: "32 word"
  e_phoff :: "32 word"
  e_shoff :: "32 word"
  e_flags :: "32 word"
  e_ehsize :: "16 word"
  e_phentsize :: "16 word"
  e_phnum :: "16 word"
  e_shentsize :: "16 word"
  e_shnum :: "16 word"
  e_shstrndx :: "16 word"

record proghdr =
  p_type :: "32 word"
  p_offset :: "32 word"
  p_va :: "32 word"
  p_pa :: "32 word"
  p_filesz :: "32 word"
  p_memsz :: "32 word"
  p_flags :: "32 word"
  p_align :: "32 word"

abbreviation (input) ELF_MAGIC :: "32 word" where "ELF_MAGIC \<equiv> 0x464C457F"
abbreviation (input) ELF_PROG_LOAD :: "32 word" where "ELF_PROG_LOAD \<equiv> 1"
abbreviation (input) USTACKTOP :: "32 word" where "USTACKTOP \<equiv> UTOP - 2 * PGSIZE"

definition elf_at :: "image \<Rightarrow> elf" where
  "elf_at b = \<lparr>e_magic = long_at b 0, e_elf = map b [4..<16], e_type = half_at b 16, e_machine = half_at b 18,
     e_version = long_at b 20, e_entry = long_at b 24, e_phoff = long_at b 28, e_shoff = long_at b 32, e_flags = long_at b 36,
     e_ehsize = half_at b 40, e_phentsize = half_at b 42, e_phnum = half_at b 44, e_shentsize = half_at b 46,
     e_shnum = half_at b 48, e_shstrndx = half_at b 50\<rparr>"

definition proghdr_at :: "image \<Rightarrow> nat \<Rightarrow> proghdr" where
  "proghdr_at b a = \<lparr>p_type = long_at b a, p_offset = long_at b (a + 4), p_va = long_at b (a + 8), p_pa = long_at b (a + 12),
     p_filesz = long_at b (a + 16), p_memsz = long_at b (a + 20), p_flags = long_at b (a + 24), p_align = long_at b (a + 28)\<rparr>"

definition proghdrs :: "image \<Rightarrow> proghdr list" where
  "proghdrs b = map (\<lambda>i. proghdr_at b (unat (e_phoff (elf_at b)) + 32 * i)) [0..<unat (e_phnum (elf_at b))]"

section \<open>Loading a program\<close>

fun load_segments :: "nat \<Rightarrow> nat \<Rightarrow> image \<Rightarrow> proghdr list \<Rightarrow> kernel \<Rightarrow> kernel option" where
  "load_segments e pgdir b [] k = Some k"
| "load_segments e pgdir b (ph # phs) k =
     (if p_type ph \<noteq> ELF_PROG_LOAD then load_segments e pgdir b phs k
      else do {
        k \<leftarrow> region_alloc e (p_va ph) (p_memsz ph) k;
        k \<leftarrow> store_bytes pgdir (p_va ph) (replicate (unat (p_memsz ph)) 0) k;
        k \<leftarrow> store_bytes pgdir (p_va ph) (map (\<lambda>i. b (unat (p_offset ph) + i)) [0..<unat (p_filesz ph)]) k;
        load_segments e pgdir b phs k
      })"

definition load_icode :: "nat \<Rightarrow> image \<Rightarrow> kernel \<Rightarrow> kernel option" where
  "load_icode e b k = do {
     let elf = elf_at b;
     guard (e_magic elf = ELF_MAGIC);
     pgdir \<leftarrow> env_pgdir (envs k ! e);
     k \<leftarrow> load_segments e pgdir b (proghdrs b) k;
     k \<leftarrow> region_alloc e (USTACKTOP - PGSIZE) PGSIZE k;
     Some (upd_env e (\<lambda>x. x\<lparr>env_tf := (env_tf x)\<lparr>tf_eip := e_entry elf\<rparr>\<rparr>) k)
   }"

text \<open>The result is \<^verbatim>\<open>env_last_created\<close> and the state.\<close>

definition env_create :: "image \<Rightarrow> env_kind \<Rightarrow> kernel \<Rightarrow> (nat \<times> kernel) option" where
  "env_create b type k = do {
     let (err, env, k) = env_alloc 0 k;
     guard (\<not> err < 0);
     e \<leftarrow> env;
     k \<leftarrow> load_icode e b k;
     Some (e, upd_env e (\<lambda>x. x\<lparr>env_type := type, priority := MAX_PRIORITY\<rparr>) k)
   }"

section \<open>Starting the kernel\<close>

text \<open>The programs of the two builds; \<open>images\<close> gives the linked image of a program.\<close>

fun env_create_all :: "(string \<Rightarrow> image) \<Rightarrow> string list \<Rightarrow> kernel \<Rightarrow> kernel option" where
  "env_create_all images [] k = Some k"
| "env_create_all images (s # ss) k = do {
     (_, k) \<leftarrow> env_create (images s) ENV_TYPE_USER k;
     env_create_all images ss k
   }"

definition create_programs :: "policy \<Rightarrow> (string \<Rightarrow> image) \<Rightarrow> kernel \<Rightarrow> kernel option" where
  "create_programs p images k =
     (case p of
        SCHED_PRIORITIES \<Rightarrow> do {
          (e, k) \<leftarrow> env_create (images ''user_yield'') ENV_TYPE_USER k;
          let k = upd_env e (\<lambda>x. x\<lparr>priority := 2\<rparr>) k;
          env_create_all images [''user_spin'', ''user_prioself'', ''user_priofork''] k
        }
      | SCHED_ROUND_ROBIN \<Rightarrow> env_create_all images [''user_hello'', ''user_hello'', ''user_hello'', ''user_hello''] k)"

text \<open>The part of \<^verbatim>\<open>lapic_init\<close> that changes memory, with the static variable \<open>base\<close> of \<^verbatim>\<open>mmio_map_region\<close>.\<close>

definition lapic_map :: "32 word \<Rightarrow> 32 word \<Rightarrow> kernel \<Rightarrow> (32 word \<times> kernel) option" where
  "lapic_map lapicaddr base k =
     (if lapicaddr = 0 then Some (base, k)
      else do {
        (lapic, base, k) \<leftarrow> mmio_map_region (kern_pgdir k) base lapicaddr 4096 k;
        Some (base, k)
      })"

text \<open>The part of \<^verbatim>\<open>boot_aps\<close> that changes memory: the code for other processors is copied to \<^verbatim>\<open>MPENTRY_PADDR\<close>.\<close>

fun put_phys :: "nat \<Rightarrow> 8 word list \<Rightarrow> 'a machine_scheme \<Rightarrow> 'a machine_scheme" where
  "put_phys pa [] m = m"
| "put_phys pa (b # bs) m =
     put_phys (pa + 1) bs
       (put_word (pa div 4096) (pa mod 4096 div 4) (set_byte (8 * (pa mod 4)) b (pmem m (pa div 4096) (pa mod 4096 div 4))) m)"

definition copy_mpentry :: "8 word list \<Rightarrow> kernel \<Rightarrow> kernel option" where
  "copy_mpentry code k = do {
     _ \<leftarrow> KADDR (npages k) MPENTRY_PADDR;
     Some (put_phys (unat (MPENTRY_PADDR :: 32 word)) code k)
   }"

end
