(* ===== verification/Kern_Boot_Props.thy ===== *)
theory Kern_Boot_Props
  imports Kern_Boot Kern_Inv Kern_Usermem
begin

unbundle bit_operations_syntax

text \<open>
  What the boot code does to the list of free pages: \<^verbatim>\<open>page_init\<close> builds it, \<^verbatim>\<open>check_page_free_list\<close> moves the low pages to its
  front, and the self-test of the allocator gives back what it takes.
\<close>

section \<open>The invariant while the kernel starts\<close>

text \<open>No environment exists yet: every page that is not free is the kernel's.\<close>

definition boot_inv :: "'a machine_scheme \<Rightarrow> nat list \<Rightarrow> bool" where
  "boot_inv m xs \<longleftrightarrow> mem_inv m {} (- set xs) xs (\<lambda>_. 0)"

lemma no_dirs: "\<not> is_table m {} t" "\<not> refers m {} s p" "sites m {} p = {}"
proof -
  show t: "\<not> is_table m {} t" for t by (simp add: is_table_def)
  show r: "\<not> refers m {} s p" for s p using t by (cases s) simp_all
  show "sites m {} p = {}" using r by (simp add: sites_def)
qed

lemma boot_inv_iff:
  "boot_inv m xs \<longleftrightarrow> npages m \<le> 2 ^ 20 \<and> pl.free_listed m xs \<and>
     (\<forall>p < npages m. p \<notin> set xs \<longrightarrow> pp_link (pages m ! p) = None) \<and> (\<forall>p \<in> set xs. pp_ref (pages m ! p) = 0)"
  by (auto simp: boot_inv_def mem_inv_def no_dirs tables_apart_def all_present_def simp del: refers.simps)

lemma boot_invD:
  assumes "boot_inv m xs"
  shows "npages m \<le> 2 ^ 20" "pl.free_listed m xs" "distinct xs" "p \<in> set xs \<Longrightarrow> p < npages m"
    "p < npages m \<Longrightarrow> p \<notin> set xs \<Longrightarrow> pp_link (pages m ! p) = None" "p \<in> set xs \<Longrightarrow> pp_ref (pages m ! p) = 0"
    "chain (page_next m) (page_free_list m) xs" "length xs \<le> npages m"
proof -
  show *: "npages m \<le> 2 ^ 20" "pl.free_listed m xs"
    "p < npages m \<Longrightarrow> p \<notin> set xs \<Longrightarrow> pp_link (pages m ! p) = None" "p \<in> set xs \<Longrightarrow> pp_ref (pages m ! p) = 0"
    using assms by (simp_all add: boot_inv_iff)
  then show d: "distinct xs" "p \<in> set xs \<Longrightarrow> p < npages m" "chain (page_next m) (page_free_list m) xs" for p
    by (simp_all add: pl.free_listed_def listed_def)
  have "card (set xs) \<le> card {..<npages m}" using d(2) by (intro card_mono) auto
  then show "length xs \<le> npages m" using d(1) by (simp add: distinct_card)
qed

text \<open>The invariant does not depend on what the pages hold.\<close>

lemma boot_inv_mem:
  "pages m' = pages m \<Longrightarrow> page_free_list m' = page_free_list m \<Longrightarrow> boot_inv m' xs = boot_inv m xs"
  unfolding boot_inv_iff using free_listed_meta [of m' m xs] by (auto simp: npages_def)

section \<open>Building the list\<close>

definition page_init_step :: "32 word \<Rightarrow> nat \<Rightarrow> 'a machine_scheme \<Rightarrow> 'a machine_scheme" where
  "page_init_step nf i m =
     (let m = upd_page i (\<lambda>pi. pi\<lparr>pp_link := None\<rparr>) m in
      if page_init_free nf i then page_push i (upd_page i (\<lambda>pi. pi\<lparr>pp_ref := 0\<rparr>) m) else m)"

lemma page_init_fold: "page_init nf m = fold (page_init_step nf) [0..<npages m] m"
  unfolding page_init_def by (rule arg_cong [of _ _ "\<lambda>f. fold f _ m"]) (intro ext, simp add: page_init_step_def)

lemma page_init_list:
  assumes m: "npages m \<le> 2 ^ 20" "page_free_list m = None" "\<forall>p < npages m. pp_link (pages m ! p) = None \<and> pp_ref (pages m ! p) = 0"
  shows "n \<le> npages m \<Longrightarrow>
    (let m' = fold (page_init_step nf) [0..<n] m in
     boot_inv m' (rev (filter (page_init_free nf) [0..<n])) \<and> npages m' = npages m \<and> pmem m' = pmem m \<and>
     machine.more m' = machine.more m \<and> (\<forall>p < npages m. pp_ref (pages m' ! p) = 0))"
proof (induction n)
  case 0
  then show ?case using m by (simp add: boot_inv_iff pl.free_listed_def listed_empty)
next
  case (Suc n)
  define m1 where "m1 = fold (page_init_step nf) [0..<n] m"
  let ?xs = "rev (filter (page_init_free nf) [0..<n])"
  have ih: "boot_inv m1 ?xs" "npages m1 = npages m" "pmem m1 = pmem m" "machine.more m1 = machine.more m"
    "\<forall>p < npages m. pp_ref (pages m1 ! p) = 0"
    using Suc by (simp_all add: m1_def Let_def)
  have n: "n < npages m1" "n \<notin> set ?xs" using Suc.prems ih(2) by simp_all
  let ?m2 = "upd_page n (\<lambda>pi. pi\<lparr>pp_link := None\<rparr>) m1" and ?m3 = "upd_page n (\<lambda>pi. pi\<lparr>pp_ref := 0\<rparr>) (upd_page n (\<lambda>pi. pi\<lparr>pp_link := None\<rparr>) m1)"
  have link: "pp_link (pages m1 ! n) = None" using boot_invD(5) [OF ih(1) n] .
  have b2: "boot_inv ?m2 ?xs"
    using ih(1) boot_invD(4) [OF ih(1)] n link free_listed_meta [of ?m2 m1 ?xs] by (auto simp: boot_inv_iff)
  have b3: "boot_inv ?m3 ?xs"
    using b2 boot_invD(4) [OF ih(1)] n free_listed_meta [of ?m3 ?m2 ?xs] by (auto simp: boot_inv_iff)
  have f: "fold (page_init_step nf) [0..<Suc n] m = page_init_step nf n m1" by (simp add: m1_def)
  show ?case
  proof (cases "page_init_free nf n")
    case True
    have "pl.free_listed (page_push n ?m3) (n # ?xs)" using b3 n by (intro pl.free_listed_push) (simp_all add: boot_inv_iff)
    then have "boot_inv (page_push n ?m3) (n # ?xs)" using b3 n by (auto simp: boot_inv_iff)
    then show ?thesis unfolding f using True ih n by (auto simp: page_init_step_def Let_def nth_list_update)
  next
    case False
    then show ?thesis unfolding f using b2 ih n by (auto simp: page_init_step_def Let_def)
  qed
qed

lemma page_init_inv:
  assumes "npages m \<le> 2 ^ 20" "page_free_list m = None" "\<forall>p < npages m. pp_link (pages m ! p) = None \<and> pp_ref (pages m ! p) = 0"
  shows "boot_inv (page_init nf m) (rev (filter (page_init_free nf) [0..<npages m]))"
    "npages (page_init nf m) = npages m" "pmem (page_init nf m) = pmem m" "machine.more (page_init nf m) = machine.more m"
  using page_init_list [OF assms order_refl, of nf] by (simp_all add: page_init_fold Let_def)

section \<open>Following the list\<close>

lemma follow_chain:
  "chain (page_next m) h xs \<Longrightarrow> (\<forall>p \<in> set xs. p < npages m) \<Longrightarrow> length xs \<le> n \<Longrightarrow> follow n m h = Some xs"
proof (induction xs arbitrary: h n)
  case (Cons x xs)
  then obtain n' where n: "n = Suc n'" by (cases n) auto
  have "follow n' m (page_next m x) = Some xs" using Cons n by simp
  then show ?case using Cons.prems n by (simp add: page_next_def)
qed simp

lemma free_pages_boot: "boot_inv m xs \<Longrightarrow> free_pages m = Some xs"
  unfolding free_pages_def by (rule follow_chain) (use boot_invD in auto)

section \<open>Low pages first\<close>

text \<open>\<open>segment l t h ls\<close>: the pages \<open>ls\<close> are linked from the head \<open>h\<close> on, and \<open>t\<close> points to the last link, whatever it holds.\<close>

fun linked :: "(nat \<Rightarrow> nat option) \<Rightarrow> nat list \<Rightarrow> bool" where
  "linked l (x # y # ys) \<longleftrightarrow> l x = Some y \<and> linked l (y # ys)"
| "linked l _ \<longleftrightarrow> True"

definition segment :: "(nat \<Rightarrow> nat option) \<Rightarrow> nat option \<Rightarrow> nat option \<Rightarrow> nat list \<Rightarrow> bool" where
  "segment l t h ls \<longleftrightarrow> (if ls = [] then t = None else t = Some (last ls) \<and> h = Some (hd ls) \<and> linked l ls)"

lemma linked_cong: "(\<And>x. x \<in> set (butlast ls) \<Longrightarrow> l x = l' x) \<Longrightarrow> linked l ls = linked l' ls"
  by (induction l ls rule: linked.induct) auto

lemma linked_snoc: "linked l (ls @ [p]) \<longleftrightarrow> linked l ls \<and> (ls = [] \<or> l (last ls) = Some p)"
  by (induction l ls rule: linked.induct) auto

lemma chain_linked: "ls \<noteq> [] \<Longrightarrow> linked l ls \<Longrightarrow> chain l (l (last ls)) zs \<Longrightarrow> chain l (Some (hd ls)) (ls @ zs)"
  by (induction l ls rule: linked.induct) auto

lemma last_butlast: "distinct ls \<Longrightarrow> x \<in> set (butlast ls) \<Longrightarrow> x \<noteq> last ls"
  by (cases ls rule: rev_cases) auto

lemma segment_other: "segment l t h ls \<Longrightarrow> (\<And>x. x \<in> set ls \<Longrightarrow> l x = l' x) \<Longrightarrow> segment l' t h ls"
  using linked_cong [of ls l l'] in_set_butlastD [of _ ls] unfolding segment_def by (metis (full_types))

text \<open>A store through the tail pointer sets the link of the last page.\<close>

lemma put_tail_link:
  assumes "segment (page_next m) t h ls" "distinct ls" "\<forall>p \<in> set ls. p < npages m" "put_tail t v h m = (h', m')"
  shows "npages m' = npages m" "pmem m' = pmem m" "page_free_list m' = page_free_list m" "machine.more m' = machine.more m"
    "ls = [] \<Longrightarrow> h' = v \<and> m' = m" "ls \<noteq> [] \<Longrightarrow> h' = h" "ls \<noteq> [] \<Longrightarrow> page_next m' (last ls) = v"
    "p \<noteq> last ls \<or> ls = [] \<Longrightarrow> page_next m' p = page_next m p" "p < npages m \<Longrightarrow> pp_ref (pages m' ! p) = pp_ref (pages m ! p)"
    "linked (page_next m') ls"
proof -
  have m': "(h', m') = (if ls = [] then (v, m) else (h, upd_page (last ls) (set_link v) m))"
    using assms(1,4) by (simp add: put_tail_def segment_def split: if_splits)
  show *: "npages m' = npages m" "pmem m' = pmem m" "page_free_list m' = page_free_list m" "machine.more m' = machine.more m"
    "ls = [] \<Longrightarrow> h' = v \<and> m' = m" "ls \<noteq> [] \<Longrightarrow> h' = h"
    using m' by (simp_all split: if_splits)
  have l: "ls \<noteq> [] \<Longrightarrow> last ls < npages m" using assms(3) by simp
  show "ls \<noteq> [] \<Longrightarrow> page_next m' (last ls) = v" "p < npages m \<Longrightarrow> pp_ref (pages m' ! p) = pp_ref (pages m ! p)"
    using m' l by (auto simp: page_next_def set_link_def nth_list_update split: if_splits)
  show n: "p \<noteq> last ls \<or> ls = [] \<Longrightarrow> page_next m' p = page_next m p" for p
    using m' l by (auto simp: page_next_def set_link_def split: if_splits)
  have "linked (page_next m) ls" using assms(1) by (cases "ls = []") (simp_all add: segment_def)
  then show "linked (page_next m') ls" using n last_butlast [OF assms(2)] linked_cong [of ls] by metis
qed

lemma segment_extend:
  assumes "segment (page_next m) t h ls" "distinct (ls @ [p])" "\<forall>q \<in> set ls. q < npages m" "put_tail t (Some p) h m = (h', m')"
  shows "segment (page_next m') (Some p) h' (ls @ [p])"
proof -
  have d: "distinct ls" using assms(2) by simp
  note P = put_tail_link [OF assms(1) d assms(3,4)]
  have "h' = Some (hd (ls @ [p]))" using P(5,6) assms(1) by (cases "ls = []") (auto simp: segment_def)
  moreover have "linked (page_next m') (ls @ [p])" using P(7,10) by (auto simp: linked_snoc)
  ultimately show ?thesis by (simp add: segment_def)
qed

definition low :: "nat \<Rightarrow> nat \<Rightarrow> bool" where
  "low limit p \<longleftrightarrow> PDX (page2pa p) < limit"

text \<open>The state during the pass: \<open>ls\<close> and \<open>hs\<close> are the low and high pages seen, \<open>rs\<close> the pages still to see.\<close>

definition splitting :: "'a machine_scheme \<Rightarrow> 'a machine_scheme \<Rightarrow> nat list \<Rightarrow> nat list \<Rightarrow> nat list \<Rightarrow> bool" where
  "splitting m0 m ls hs rs \<longleftrightarrow> distinct (ls @ hs @ rs) \<and> (\<forall>p \<in> set (ls @ hs @ rs). p < npages m) \<and> npages m = npages m0 \<and>
     pmem m = pmem m0 \<and> page_free_list m = page_free_list m0 \<and> machine.more m = machine.more m0 \<and>
     (\<forall>p < npages m. pp_ref (pages m ! p) = pp_ref (pages m0 ! p)) \<and>
     (\<forall>p. p \<notin> set ls \<union> set hs \<longrightarrow> page_next m p = page_next m0 p)"

lemma split_free_spec:
  "splitting m0 m ls hs rs \<Longrightarrow> chain (page_next m) pp rs \<Longrightarrow> segment (page_next m) t0 h0 ls \<Longrightarrow> segment (page_next m) t1 h1 hs \<Longrightarrow>
   length rs \<le> n \<Longrightarrow>
   \<exists>t0' h0' t1' h1' m'. split_free n limit pp (t0, h0) (t1, h1) m = Some ((t0', h0'), (t1', h1'), m') \<and>
     splitting m0 m' (ls @ filter (low limit) rs) (hs @ filter (\<lambda>p. \<not> low limit p) rs) [] \<and>
     segment (page_next m') t0' h0' (ls @ filter (low limit) rs) \<and>
     segment (page_next m') t1' h1' (hs @ filter (\<lambda>p. \<not> low limit p) rs)"
proof (induction rs arbitrary: m ls hs t0 h0 t1 h1 pp n)
  case Nil
  then show ?case by simp
next
  case (Cons p rs)
  obtain n' where n: "n = Suc n'" using Cons.prems(5) by (cases n) auto
  have pp: "pp = Some p" "chain (page_next m) (page_next m p) rs" using Cons.prems(2) by simp_all
  have sp: "distinct (ls @ hs @ p # rs)" "\<forall>q \<in> set (ls @ hs @ p # rs). q < npages m" using Cons.prems(1) by (auto simp: splitting_def)
  show ?case
  proof (cases "low limit p")
    case True
    obtain h0' m1 where pt: "put_tail t0 (Some p) h0 m = (h0', m1)" by fastforce
    have d: "distinct ls" "\<forall>q \<in> set ls. q < npages m" "distinct (ls @ [p])" using sp by auto
    note P = put_tail_link [OF Cons.prems(3) d(1,2) pt]
    have other: "page_next m1 q = page_next m q" if "q \<notin> set ls" for q using P(8) that by (metis last_in_set)
    have "splitting m0 m1 (ls @ [p]) hs rs" using Cons.prems(1) P(1-4,9) other by (auto simp: splitting_def)
    moreover have "chain (page_next m1) (page_next m1 p) rs"
      using pp(2) other sp(1) by (subst chain_cong [of _ _ "page_next m"]) auto
    moreover have "segment (page_next m1) (Some p) h0' (ls @ [p])" by (rule segment_extend [OF Cons.prems(3) d(3,2) pt])
    moreover have "segment (page_next m1) t1 h1 hs" using sp(1) by (intro segment_other [OF Cons.prems(4)] other [symmetric]) auto
    moreover have "page_next m1 p = pp_link (pages m1 ! p)" using sp(2) P(1) by (simp add: page_next_def)
    ultimately show ?thesis
      using Cons.IH [of m1 "ls @ [p]" hs "page_next m1 p" "Some p" h0' t1 h1 n'] Cons.prems(5) n pp(1) pt True
      by (simp add: low_def not_le)
  next
    case False
    obtain h1' m1 where pt: "put_tail t1 (Some p) h1 m = (h1', m1)" by fastforce
    have d: "distinct hs" "\<forall>q \<in> set hs. q < npages m" "distinct (hs @ [p])" using sp by auto
    note P = put_tail_link [OF Cons.prems(4) d(1,2) pt]
    have other: "page_next m1 q = page_next m q" if "q \<notin> set hs" for q using P(8) that by (metis last_in_set)
    have "splitting m0 m1 ls (hs @ [p]) rs" using Cons.prems(1) P(1-4,9) other by (auto simp: splitting_def)
    moreover have "chain (page_next m1) (page_next m1 p) rs"
      using pp(2) other sp(1) by (subst chain_cong [of _ _ "page_next m"]) auto
    moreover have "segment (page_next m1) (Some p) h1' (hs @ [p])" by (rule segment_extend [OF Cons.prems(4) d(3,2) pt])
    moreover have "segment (page_next m1) t0 h0 ls" using sp(1) by (intro segment_other [OF Cons.prems(3)] other [symmetric]) auto
    moreover have "page_next m1 p = pp_link (pages m1 ! p)" using sp(2) P(1) by (simp add: page_next_def)
    ultimately show ?thesis
      using Cons.IH [of m1 ls "hs @ [p]" "page_next m1 p" t0 h0 "Some p" h1' n'] Cons.prems(5) n pp(1) pt False
      by (simp add: low_def not_le)
  qed
qed

lemma low_pages_first_inv:
  assumes inv: "boot_inv m xs"
  shows "\<exists>m'. low_pages_first limit m = Some m' \<and> boot_inv m' (filter (low limit) xs @ filter (\<lambda>p. \<not> low limit p) xs) \<and>
    npages m' = npages m \<and> pmem m' = pmem m \<and> machine.more m' = machine.more m"
proof -
  let ?ls = "filter (low limit) xs" and ?hs = "filter (\<lambda>p. \<not> low limit p) xs"
  have "splitting m m [] [] xs" using boot_invD(3,4) [OF inv] by (simp add: splitting_def)
  then obtain t0 h0 t1 h1 m1 where sp: "split_free (npages m) limit (page_free_list m) (None, None) (None, None) m = Some ((t0, h0), (t1, h1), m1)"
    "splitting m m1 ?ls ?hs []" "segment (page_next m1) t0 h0 ?ls" "segment (page_next m1) t1 h1 ?hs"
    using split_free_spec [of m m "[]" "[]" xs "page_free_list m" None None None None "npages m" limit] boot_invD(7,8) [OF inv]
    by (auto simp: segment_def)
  have d: "distinct ?ls" "distinct ?hs" "\<forall>p \<in> set ?ls. p < npages m1" "\<forall>p \<in> set ?hs. p < npages m1" "set ?ls \<inter> set ?hs = {}"
    using sp(2) by (auto simp: splitting_def)
  obtain pp2 m2 where p2: "put_tail t1 None h1 m1 = (pp2, m2)" by fastforce
  note P = put_tail_link [OF sp(4) d(2,4) p2]
  have o2: "page_next m2 p = page_next m1 p" if "p \<notin> set ?hs" for p using P(8) that by (metis last_in_set)
  have hs: "chain (page_next m2) pp2 ?hs"
  proof (cases "?hs = []")
    case True
    then show ?thesis using P(5) by simp
  next
    case False
    then have "chain (page_next m2) (Some (hd ?hs)) (?hs @ [])" using P(7,10) by (intro chain_linked) simp_all
    then show ?thesis using P(6) False sp(4) by (simp add: segment_def)
  qed
  have s2: "segment (page_next m2) t0 h0 ?ls" using d(5) by (intro segment_other [OF sp(3)] o2 [symmetric]) blast
  obtain pp1 m3 where p3: "put_tail t0 pp2 h0 m2 = (pp1, m3)" by fastforce
  have d2: "\<forall>p \<in> set ?ls. p < npages m2" using d(3) P(1) by simp
  note Q = put_tail_link [OF s2 d(1) d2 p3]
  have o3: "page_next m3 p = page_next m2 p" if "p \<notin> set ?ls" for p using Q(8) that by (metis last_in_set)
  have hs3: "chain (page_next m3) pp2 ?hs" using hs o3 d(5) by (subst chain_cong [of _ _ "page_next m2"]) auto
  have all: "chain (page_next m3) pp1 (?ls @ ?hs)"
  proof (cases "?ls = []")
    case True
    then show ?thesis using Q(5) hs3 by simp
  next
    case False
    then have "chain (page_next m3) (Some (hd ?ls)) (?ls @ ?hs)" using Q(7,10) hs3 by (intro chain_linked) simp_all
    then show ?thesis using Q(6) False s2 by (simp add: segment_def)
  qed
  let ?m = "m3\<lparr>page_free_list := pp1\<rparr>"
  have fields: "npages ?m = npages m" "pmem ?m = pmem m" "machine.more ?m = machine.more m"
    using Q(1,2,4) P(1,2,4) sp(2) by (simp_all add: splitting_def npages_def)
  have n3: "page_next ?m = page_next m3" by (intro ext) (simp add: page_next_def npages_def)
  have link: "pp_link (pages ?m ! p) = None" if "p < npages m" "p \<notin> set xs" for p
  proof -
    have "page_next m3 p = page_next m p" using o3 [of p] o2 [of p] sp(2) that(2) by (simp add: splitting_def)
    then show ?thesis using boot_invD(5) [OF inv that] that(1) fields(1) by (simp add: page_next_def npages_def)
  qed
  have ref: "pp_ref (pages ?m ! p) = 0" if "p \<in> set xs" for p
    using boot_invD(4,6) [OF inv that] Q(9) P(9) sp(2) Q(1) P(1) by (simp add: splitting_def)
  have "boot_inv ?m (?ls @ ?hs)"
    unfolding boot_inv_iff pl.free_listed_def listed_def n3 fields(1)
    using all boot_invD(1,3,4) [OF inv] d link ref by auto
  moreover have "low_pages_first limit m = Some ?m" using sp(1) p2 p3 by (simp add: low_pages_first_def)
  ultimately show ?thesis using fields by blast
qed

section \<open>Writing to free pages\<close>

lemma pa2page_page: "p < npages m \<Longrightarrow> npages m \<le> 2 ^ 20 \<Longrightarrow> pa2page m (page2pa p) = Some p"
  using PGNUM_entry [of p 0] by (simp add: pa2page_def)

lemma fill_words_eq:
  "p < npages m \<Longrightarrow> npages m \<le> 2 ^ 20 \<Longrightarrow>
   fill_words p n w m = Some (m\<lparr>pmem := (pmem m)(p := (\<lambda>i. if i < n then w else pmem m p i))\<rparr>)"
  by (simp add: fill_words_def pa2page_page)

lemma scribble_spec:
  "npages m \<le> 2 ^ 20 \<Longrightarrow> \<forall>p \<in> set ps. p < npages m \<Longrightarrow>
   \<exists>M. scribble limit ps m = Some (m\<lparr>pmem := M\<rparr>) \<and> (\<forall>p. p \<notin> set ps \<longrightarrow> M p = pmem m p)"
proof (induction ps arbitrary: m)
  case Nil
  then show ?case by (intro exI [of _ "pmem m"]) simp
next
  case (Cons q ps)
  let ?M = "(pmem m)(q := (\<lambda>i. if i < 32 then 0x97979797 else pmem m q i))"
  let ?m = "if PDX (page2pa q) < limit then m\<lparr>pmem := ?M\<rparr> else m"
  have n: "npages ?m = npages m" by (simp add: npages_def)
  obtain M where M: "scribble limit ps ?m = Some (?m\<lparr>pmem := M\<rparr>)" "\<forall>p. p \<notin> set ps \<longrightarrow> M p = pmem ?m p"
    using Cons.IH [of ?m] Cons.prems n by auto
  have "scribble limit (q # ps) m = Some (m\<lparr>pmem := M\<rparr>)"
    using M(1) Cons.prems fill_words_eq [of q m 32 "0x97979797"] by (simp split: if_splits)
  then show ?case using M(2) by (intro exI [of _ M]) (simp split: if_splits)
qed

section \<open>The boot allocator\<close>

text \<open>The kernel address of a physical address, and sizes rounded up to pages.\<close>

definition kva :: "nat \<Rightarrow> 32 word" where
  "kva a = KERNBASE + of_nat a"

definition page_up :: "nat \<Rightarrow> nat" where
  "page_up a = (a + 4095) div 4096 * 4096"

lemma page_up_bounds: "a \<le> page_up a" "page_up a < a + 4096" "4096 dvd page_up a"
  by (simp_all add: page_up_def)

lemma page_up_dvd: "4096 dvd a \<Longrightarrow> page_up (a + n) = a + page_up n"
proof (elim dvdE)
  fix k
  assume "a = 4096 * k"
  moreover have "(n + 4095 + 4096 * k) div 4096 = k + (n + 4095) div 4096" by simp
  ultimately show ?thesis by (simp add: page_up_def ac_simps)
qed

lemma page_up_pages: "page_up (4096 * f) = 4096 * f"
  by (simp add: page_up_def)

lemma unat_kva: "a < 2 ^ 28 \<Longrightarrow> unat (kva a) = 0xF0000000 + a"
  by (simp add: kva_def unat_word_ariths unat_of_nat)

lemma kva_of: "KERNBASE \<le> w \<Longrightarrow> w = kva (unat (w - KERNBASE))"
  by (simp add: kva_def)

lemma PADDR_kva: "a < 2 ^ 28 \<Longrightarrow> PADDR (kva a) = Some (of_nat a)"
  using unat_kva [of a] by (auto simp: PADDR_def word_less_nat_alt) (simp add: kva_def)

lemma ROUNDUP_kva: "page_up a < 2 ^ 28 \<Longrightarrow> ROUNDUP (kva a) PGSIZE = kva (page_up a)"
proof -
  assume a: "page_up a < 2 ^ 28"
  then have b: "a < 2 ^ 28" "a + 4095 < 2 ^ 28 + 4095" using page_up_bounds(1) [of a] by simp_all
  obtain j where "page_up a = 4096 * j" using page_up_bounds(3) [of a] by (auto elim: dvdE)
  then have p28: "page_up a \<le> 2 ^ 28 - 4096" using a by simp
  then have "unat (kva a) + 4095 < 2 ^ 32" using unat_kva [OF b(1)] page_up_bounds(1) [of a] by simp
  then have "unat (ROUNDUP (kva a) PGSIZE) = (0xF0000000 + a + 4095) div 4096 * 4096" using unat_roundup unat_kva [OF b(1)] by simp
  also have "\<dots> = page_up (0xF0000000 + a)" by (simp only: page_up_def)
  also have "\<dots> = 0xF0000000 + page_up a" by (rule page_up_dvd) simp
  finally show ?thesis using unat_kva [OF a] by (simp add: word_unat_eq_iff)
qed

lemma unat_pages: "np \<le> 2 ^ 16 \<Longrightarrow> unat (PGSIZE * of_nat np :: 32 word) = 4096 * np"
  by (simp add: unat_word_ariths unat_of_nat)

lemma boot_alloc_kva:
  assumes np: "np \<le> 2 ^ 16" and fits: "page_up (a + n) < 4096 * np" and nf: "nf = kva a \<or> nf = 0 \<and> ROUNDUP kend PGSIZE = kva a"
  shows "boot_alloc kend np nf (of_nat n) = Some (kva a, kva (page_up (a + n)))"
proof -
  have b: "page_up (a + n) < 2 ^ 28" "a + n < 4096 * np" using fits np page_up_bounds(1) [of "a + n"] by simp_all
  then have c: "a + n < 2 ^ 28" "a < 2 ^ 28" using page_up_bounds(1) [of "a + n"] by simp_all
  have nz: "kva a \<noteq> 0" using unat_kva [OF c(2)] by (metis add_is_0 unat_0 zero_neq_numeral)
  have sum: "kva a + of_nat n = kva (a + n)" by (simp add: kva_def add.assoc)
  have u: "unat (of_nat (a + n) :: 32 word) = a + n" using c(1) by (simp add: unat_of_nat del: of_nat_add)
  then have lt: "(of_nat (a + n) :: 32 word) < PGSIZE * of_nat np" using b(2) unat_pages [OF np] by (simp add: word_less_nat_alt)
  have "PGNUM (of_nat (a + n)) < np" using b(2) u by (simp add: PGNUM_div less_mult_imp_div_less mult.commute)
  then have "KADDR np (of_nat (a + n)) = Some (kva (a + n))" by (simp add: KADDR_def kva_def add.commute)
  moreover have "(if nf = 0 then ROUNDUP kend PGSIZE else nf) = kva a" using nf nz by auto
  ultimately show ?thesis using PADDR_kva [OF c(1)] lt ROUNDUP_kva [OF b(1)]
    by (simp add: boot_alloc_def sum not_le del: of_nat_add)
qed

section \<open>The self-test of the list\<close>

lemma unat_page2pa: "p < 2 ^ 20 \<Longrightarrow> unat (page2pa p) = 4096 * p"
  by (simp add: page2pa_def push_bit_eq_mult unat_word_ariths unat_of_nat)

text \<open>The pages that may be free: \<open>f\<close> is the first page after the kernel's data.\<close>

definition may_be_free :: "nat \<Rightarrow> nat \<Rightarrow> bool" where
  "may_be_free f p \<longleftrightarrow> p \<noteq> 0 \<and> p \<noteq> 7 \<and> \<not> (160 \<le> p \<and> p < 256) \<and> (256 \<le> p \<longrightarrow> f \<le> p)"

lemma PGNUM_pages: "f < 2 ^ 20 \<Longrightarrow> PGNUM (of_nat (4096 * f)) = f"
  by (simp add: PGNUM_div unat_of_nat del: of_nat_mult)

lemma page_init_free_iff: "f < 2 ^ 20 \<Longrightarrow> page_init_free (of_nat (4096 * f)) p \<longleftrightarrow> may_be_free f p"
proof -
  assume "f < 2 ^ 20"
  note n = PGNUM_pages [OF this]
  have "PGNUM MPENTRY_PADDR = 7" "PGNUM IOPHYSMEM = 160" "PGNUM EXTPHYSMEM = 256" by (simp_all add: PGNUM_div)
  then show ?thesis unfolding page_init_free_def n may_be_free_def by auto
qed

lemma free_page_ok_iff:
  assumes "p < np" "np \<le> 2 ^ 16" "256 < f" "f < np" "may_be_free f p"
  shows "free_page_ok (kva (4096 * f)) np p" "page2pa p < EXTPHYSMEM \<longleftrightarrow> p < 256"
proof -
  have u: "unat (page2pa p) = 4096 * p" using assms by (intro unat_page2pa) simp
  show ext: "page2pa p < EXTPHYSMEM \<longleftrightarrow> p < 256" using u by (simp add: word_less_nat_alt)
  have ne: "page2pa p \<noteq> w" if "unat w \<noteq> 4096 * p" for w using u that by auto
  have ff: "unat (kva (4096 * f)) = 0xF0000000 + 4096 * f" using assms by (intro unat_kva) simp
  have pp: "unat (page2pa p + KERNBASE) = 0xF0000000 + 4096 * p" using u assms by (simp add: unat_word_ariths)
  have "256 \<le> p \<Longrightarrow> kva (4096 * f) \<le> page2pa p + KERNBASE"
    using assms(5) unfolding word_le_nat_alt ff pp may_be_free_def by simp
  moreover have "p \<noteq> 256" using assms by (auto simp: may_be_free_def)
  ultimately show "free_page_ok (kva (4096 * f)) np p"
    using assms unfolding free_page_ok_def ext may_be_free_def by (auto intro!: ne simp: not_less)
qed

lemma check_page_free_list_spec:
  assumes inv: "boot_inv m xs" and np: "npages m \<le> 2 ^ 16" and f: "256 < f" "f < npages m"
    and ok: "\<forall>p \<in> set xs. may_be_free f p" and ex: "\<exists>p \<in> set xs. p < 256" "\<exists>p \<in> set xs. 256 \<le> p"
  shows "\<exists>m' ys. check_page_free_list kend (kva (4096 * f)) b m = Some m' \<and> boot_inv m' ys \<and> set ys = set xs \<and>
    length ys = length xs \<and> npages m' = npages m \<and> machine.more m' = machine.more m \<and> (\<forall>p. p \<notin> set xs \<longrightarrow> pmem m' p = pmem m p)"
proof -
  let ?lim = "if b then 1 else 1024 :: nat"
  obtain m1 ys where m1: "(if b then low_pages_first ?lim m else Some m) = Some m1" "boot_inv m1 ys" "set ys = set xs"
    "npages m1 = npages m" "pmem m1 = pmem m" "machine.more m1 = machine.more m"
  proof (cases b)
    case True
    obtain m' where "low_pages_first ?lim m = Some m'" "boot_inv m' (filter (low ?lim) xs @ filter (\<lambda>p. \<not> low ?lim p) xs)"
      "npages m' = npages m" "pmem m' = pmem m" "machine.more m' = machine.more m"
      using low_pages_first_inv [OF inv, of ?lim] by blast
    then show ?thesis using that [of m' "filter (low ?lim) xs @ filter (\<lambda>p. \<not> low ?lim p) xs"] True by (auto simp del: One_nat_def)
  qed (use inv that in auto)
  have len: "length ys = length xs" using m1(3) boot_invD(3) [OF inv] boot_invD(3) [OF m1(2)] by (metis distinct_card)
  obtain M where M: "scribble ?lim ys m1 = Some (m1\<lparr>pmem := M\<rparr>)" "\<forall>p. p \<notin> set ys \<longrightarrow> M p = pmem m1 p"
    using scribble_spec [of m1 ys ?lim] boot_invD(1,4) [OF m1(2)] by auto
  let ?m = "m1\<lparr>pmem := M\<rparr>"
  have n: "npages ?m = npages m" using m1(4) by (simp add: npages_def)
  have inv2: "boot_inv ?m ys" using m1(2) boot_inv_mem [of ?m m1] by simp
  have al: "boot_alloc kend (npages m) (kva (4096 * f)) 0 = Some (kva (4096 * f), kva (4096 * f))"
    using boot_alloc_kva [OF np, of "4096 * f" 0 "kva (4096 * f)" kend] f by (simp add: page_up_pages)
  have fl: "page_free_list m \<noteq> None"
  proof
    assume "page_free_list m = None"
    then have "xs = []" using boot_invD(7) [OF inv] by (cases xs) auto
    then show False using ex by simp
  qed
  have good: "free_page_ok (kva (4096 * f)) (npages m) p" "page2pa p < EXTPHYSMEM \<longleftrightarrow> p < 256" if "p \<in> set ys" for p
    using free_page_ok_iff [OF _ np f] boot_invD(4) [OF inv] ok that m1(3) by auto
  have "list_all (free_page_ok (kva (4096 * f)) (npages m)) ys" using good(1) by (simp add: list_all_iff)
  moreover have "\<exists>p \<in> set ys. page2pa p < EXTPHYSMEM" "\<exists>p \<in> set ys. \<not> page2pa p < EXTPHYSMEM"
    using ex good(2) m1(3) by (metis not_less)+
  ultimately have "check_page_free_list kend (kva (4096 * f)) b m = Some ?m"
    using fl m1(1) M(1) al free_pages_boot [OF m1(2)] free_pages_boot [OF inv2] n
    by (simp add: check_page_free_list_def Let_def del: One_nat_def cong: if_cong)
  then show ?thesis using inv2 m1 len n M(2) by (intro exI [of _ ?m] exI [of _ ys]) simp
qed

end
