(* ===== verification/Kern_Boot_Check.thy ===== *)
theory Kern_Boot_Check
  imports Kern_Boot_Props
begin

unbundle bit_operations_syntax

text \<open>
  The self-tests of the allocator and of the page tables succeed and leave the state as it was, but for the order of the free
  pages and the contents of pages that are free. The tests work on three pages; a \<open>scene\<close> is the state with the descriptors of
  these pages, the list and the memory made explicit, and each step of a test takes a scene to a scene.
\<close>

section \<open>Scenes\<close>

definition scene :: "'a machine_scheme \<Rightarrow> nat \<Rightarrow> nat \<Rightarrow> nat \<Rightarrow> page_info \<Rightarrow> page_info \<Rightarrow> page_info \<Rightarrow> nat option \<Rightarrow>
    (nat \<Rightarrow> nat \<Rightarrow> 32 word) \<Rightarrow> 'a machine_scheme" where
  "scene m a b c A B C F M = m\<lparr>pages := (pages m)[a := A, b := B, c := C], page_free_list := F, pmem := M\<rparr>"

definition three :: "'a machine_scheme \<Rightarrow> nat \<Rightarrow> nat \<Rightarrow> nat \<Rightarrow> bool" where
  "three m a b c \<longleftrightarrow> a < npages m \<and> b < npages m \<and> c < npages m \<and> a \<noteq> b \<and> a \<noteq> c \<and> b \<noteq> c \<and> npages m \<le> 2 ^ 20"

abbreviation (input) pinfo :: "nat option \<Rightarrow> 16 word \<Rightarrow> page_info" where
  "pinfo l r \<equiv> \<lparr>pp_link = l, pp_ref = r\<rparr>"

lemma scene_fields [simp]:
  "page_free_list (scene m a b c A B C F M) = F" "pmem (scene m a b c A B C F M) = M"
  "npages (scene m a b c A B C F M) = npages m" "machine.more (scene m a b c A B C F M) = machine.more m"
  "(scene m a b c A B C F M)\<lparr>page_free_list := F'\<rparr> = scene m a b c A B C F' M"
  "(scene m a b c A B C F M)\<lparr>pmem := M'\<rparr> = scene m a b c A B C F M'"
  "put_word t i w (scene m a b c A B C F M) = scene m a b c A B C F (M(t := (M t)(i := w)))"
  "zero_page p (scene m a b c A B C F M) = scene m a b c A B C F (M(p := (\<lambda>_. 0)))"
  by (simp_all add: scene_def npages_def put_word_def zero_page_def)

lemma scene_pages [simp]:
  assumes "three m a b c"
  shows "pages (scene m a b c A B C F M) ! a = A" "pages (scene m a b c A B C F M) ! b = B" "pages (scene m a b c A B C F M) ! c = C"
    "upd_page a f (scene m a b c A B C F M) = scene m a b c (f A) B C F M"
    "upd_page b f (scene m a b c A B C F M) = scene m a b c A (f B) C F M"
    "upd_page c f (scene m a b c A B C F M) = scene m a b c A B (f C) F M"
proof -
  have d: "a < length (pages m)" "b < length (pages m)" "c < length (pages m)" "a \<noteq> b" "a \<noteq> c" "b \<noteq> c"
    using assms by (auto simp: three_def npages_def)
  then show n: "pages (scene m a b c A B C F M) ! a = A" "pages (scene m a b c A B C F M) ! b = B" "pages (scene m a b c A B C F M) ! c = C"
    by (simp_all add: scene_def)
  have "(pages m)[a := A, b := B, c := C, a := X] = (pages m)[a := X, b := B, c := C]"
    "(pages m)[a := A, b := B, c := C, b := X] = (pages m)[a := A, b := X, c := C]" for X
    using d by (auto simp: list_eq_iff_nth_eq nth_list_update)
  then show "upd_page a f (scene m a b c A B C F M) = scene m a b c (f A) B C F M"
    "upd_page b f (scene m a b c A B C F M) = scene m a b c A (f B) C F M"
    "upd_page c f (scene m a b c A B C F M) = scene m a b c A B (f C) F M"
    using n by (simp_all add: upd_page_def) (simp_all add: scene_def)
qed

text \<open>An entry is the address of a page and flags below it.\<close>

lemma flag_bits:
  assumes "drop_bit 12 f = (0 :: 32 word)"
  shows "bit f n \<Longrightarrow> n < 12" "page2pa p AND f = 0" "f AND NOT 0xFFF = 0"
proof -
  show lo: "n < 12" if "bit f n" for n
  proof (rule ccontr)
    assume "\<not> n < 12"
    then have "bit (drop_bit 12 f) (n - 12) = bit f n" by (simp add: bit_drop_bit_eq)
    then show False using assms that by simp
  qed
  have "\<not> bit (page2pa p) n" if "n < 12" for n using that by (simp add: page2pa_def bit_push_bit_iff)
  then have none: "\<not> (bit (page2pa p) n \<and> bit f n)" for n using lo by blast
  show "page2pa p AND f = 0" by (rule bit_word_eqI) (simp add: bit_and_iff none)
  have "(0xFFF :: 32 word) = mask 12" by (simp add: mask_eq_exp_minus_1)
  moreover have "f AND NOT (mask 12) = 0"
    by (rule bit_word_eqI) (use lo in \<open>auto simp: bit_and_iff bit_not_iff bit_mask_iff\<close>)
  ultimately show "f AND NOT 0xFFF = 0" by simp
qed

lemma flag_entry:
  assumes "p < 1048576" "drop_bit 12 f = (0 :: 32 word)"
  shows "PGNUM (page2pa p OR f) = p" "PTE_ADDR (page2pa p OR f) = page2pa p"
proof -
  show "PGNUM (page2pa p OR f) = p" using assms by (intro PGNUM_entry) simp_all
  have "PTE_ADDR (page2pa p) = page2pa p"
  proof -
    have "(0xFFF :: 32 word) = mask 12" by (simp add: mask_eq_exp_minus_1)
    moreover have "page2pa p AND NOT (mask 12) = page2pa p"
      by (rule bit_word_eqI) (auto simp: page2pa_def bit_and_iff bit_not_iff bit_mask_iff bit_push_bit_iff)
    ultimately show ?thesis by (simp add: PTE_ADDR_def)
  qed
  then show "PTE_ADDR (page2pa p OR f) = page2pa p"
    using flag_bits(3) [OF assms(2)] by (simp add: PTE_ADDR_def bit.conj_disj_distrib2)
qed

lemma PGNUM_page: "p < 1048576 \<Longrightarrow> PGNUM (page2pa p) = p"
  using flag_entry(1) [of p 0] by simp

lemma flag_and: "drop_bit 12 g = (0 :: 32 word) \<Longrightarrow> (page2pa p OR f) AND g = f AND g"
  using flag_bits(2) [of g p] by (simp add: bit.conj_disj_distrib2)

lemma flag_nz: "f \<noteq> 0 \<Longrightarrow> page2pa p OR f \<noteq> 0"
  by (metis or_eq_0_iff)

lemma bind_weak: "x = y \<Longrightarrow> Option.bind x f = Option.bind y f"
  by simp

lemma PDX_low: "PDX 0 = 0" "PDX PGSIZE = 0" "PDX PTSIZE = 1" "PTX 0 = 0" "PTX PGSIZE = 1" "PDX 0x401000 = 1" "PTX 0x401000 = 1"
  by (simp_all add: PDX_div PTX_div)

section \<open>Steps of the tests\<close>

lemma three_bounds:
  assumes "three m a b c"
  shows "a < npages m" "b < npages m" "c < npages m" "a < 1048576" "b < 1048576" "c < 1048576"
    "a \<noteq> b" "a \<noteq> c" "b \<noteq> c" "b \<noteq> a" "c \<noteq> a" "c \<noteq> b"
  using assms by (auto simp: three_def)

lemma walk_scene:
  assumes "three m a b c" "M kd (PDX va) = page2pa a OR 7"
  shows "pgdir_walk kd va cr (scene m a b c A B C F M) = Some (Some (a, PTX va), scene m a b c A B C F M)"
  using three_bounds [OF assms(1)] assms(2) by (simp add: pgdir_walk_def pa2page_def flag_nz flag_entry PGNUM_page Let_def)

lemma new_table_scene:
  assumes t: "three m a b c" and "kd \<noteq> a" "M kd (PDX va) = 0"
  shows "pgdir_walk kd va True (scene m a b c (pinfo l r) B C (Some a) M) =
    Some (Some (a, PTX va), scene m a b c (pinfo None (r + 1)) B C l (M(a := (\<lambda>_. 0), kd := (M kd)(PDX va := page2pa a OR 7))))"
  using three_bounds [OF t] t assms(2,3)
  by (simp add: pgdir_walk_def pa2page_def flag_nz flag_entry PGNUM_page Let_def page_alloc_def page_pop_def)

lemma no_table_scene:
  assumes "M kd (PDX va) = 0"
  shows "pgdir_walk kd va True (scene m a b c A B C None M) = Some (None, scene m a b c A B C None M)"
    "pgdir_walk kd va False (scene m a b c A B C F M) = Some (None, scene m a b c A B C F M)"
  using assms by (simp_all add: pgdir_walk_def Let_def page_alloc_def)

lemma remove_nothing_scene:
  assumes "three m a b c" "M kd (PDX va) = page2pa a OR 7" "M a (PTX va) = 0"
  shows "page_remove kd va (scene m a b c A B C F M) = Some (scene m a b c A B C F M)"
  using assms by (simp add: page_remove_def page_lookup_def walk_scene)

lemma insert_scene:
  assumes t: "three m a b c" and "M kd (PDX va) = page2pa a OR 7" "M a (PTX va) = 0"
  shows "page_insert kd b va perm (scene m a b c A (pinfo l r) C F M) =
      Some (0, scene m a b c A (pinfo l (r + 1)) C F (M(a := (M a)(PTX va := page2pa b OR perm OR 1))))"
    "page_insert kd c va perm (scene m a b c A B (pinfo l r) F M) =
      Some (0, scene m a b c A B (pinfo l (r + 1)) F (M(a := (M a)(PTX va := page2pa c OR perm OR 1))))"
  using assms by (simp_all add: page_insert_def walk_scene remove_nothing_scene)

text \<open>
  \<open>table_mem M kd a x y\<close> is the memory \<open>M\<close> with page \<open>a\<close> as the first table of the directory \<open>kd\<close>; the entries of the addresses
  0 and \<^verbatim>\<open>PGSIZE\<close> in it are \<open>x\<close> and \<open>y\<close>, and the others 0.
\<close>

definition table_mem :: "(nat \<Rightarrow> nat \<Rightarrow> 32 word) \<Rightarrow> nat \<Rightarrow> nat \<Rightarrow> 32 word \<Rightarrow> 32 word \<Rightarrow> nat \<Rightarrow> nat \<Rightarrow> 32 word" where
  "table_mem M kd a x y = M(a := (\<lambda>_. 0)(0 := x, Suc 0 := y), kd := (M kd)(0 := page2pa a OR 7))"

lemma table_mem_simps [simp]:
  assumes "kd \<noteq> a"
  shows "table_mem M kd a x y kd 0 = page2pa a OR 7" "table_mem M kd a x y kd (Suc n) = M kd (Suc n)"
    "table_mem M kd a 0 0 a n = 0" "table_mem M kd a x y a 0 = x" "table_mem M kd a x y a (Suc 0) = y"
    "(table_mem M kd a x y)(a := (table_mem M kd a x y a)(0 := z)) = table_mem M kd a z y"
    "(table_mem M kd a x y)(a := (table_mem M kd a x y a)(Suc 0 := z)) = table_mem M kd a x z"
    "M(a := (\<lambda>_. 0), kd := (M kd)(0 := page2pa a OR 7)) = table_mem M kd a 0 0"
    "M(a := (\<lambda>_. 0)(0 := x), kd := (M kd)(0 := page2pa a OR 7)) = table_mem M kd a x 0"
    "M(a := (\<lambda>_. 0)(Suc 0 := y), kd := (M kd)(0 := page2pa a OR 7)) = table_mem M kd a 0 y"
    "(table_mem M kd a x y)(kd := (table_mem M kd a x y kd)(0 := 0)) = M(a := (\<lambda>_. 0)(0 := x, Suc 0 := y), kd := (M kd)(0 := 0))"
  using assms by (auto simp: table_mem_def fun_eq_iff)

lemma va2pa_scene:
  assumes "three m a b c" "M kd (PDX va) = page2pa a OR 7"
  shows "check_va2pa kd va (scene m a b c A B C F M) = Some (if M a (PTX va) AND 1 = 0 then - 1 else PTE_ADDR (M a (PTX va)))"
    "pte_of kd va (scene m a b c A B C F M) = Some (M a (PTX va))"
  using three_bounds [OF assms(1)] assms
  by (simp_all add: check_va2pa_def pa2page_def flag_entry flag_and PGNUM_page Let_def pte_of_def walk_scene)

lemma lookup_scene:
  assumes "three m a b c" "M kd (PDX va) = page2pa a OR 7" "M a (PTX va) \<noteq> 0" "PGNUM (M a (PTX va)) = p" "p \<in> {a, b, c}"
  shows "page_lookup kd va (scene m a b c A B C F M) = Some (Some (p, a, PTX va))"
  using assms three_bounds [OF assms(1)] by (auto simp: page_lookup_def walk_scene flag_nz flag_entry PGNUM_page pa2page_def)

text \<open>Giving up one reference of several, or the last one.\<close>

lemma decref_scene:
  assumes "three m a b c"
  shows "r \<noteq> 1 \<Longrightarrow> page_decref b (scene m a b c A (pinfo l r) C F M) = Some (scene m a b c A (pinfo l (r - 1)) C F M)"
    "r \<noteq> 1 \<Longrightarrow> page_decref c (scene m a b c A B (pinfo l r) F M) = Some (scene m a b c A B (pinfo l (r - 1)) F M)"
    "page_decref b (scene m a b c A (pinfo None 1) C F M) = Some (scene m a b c A (pinfo F 0) C (Some b) M)"
    "page_decref c (scene m a b c A B (pinfo None 1) F M) = Some (scene m a b c A B (pinfo F 0) (Some c) M)"
  using assms by (simp_all add: page_decref_def page_free_def page_push_def Let_def)

text \<open>Inserting a page over another page, or over itself.\<close>

lemma reinsert_scene:
  assumes t: "three m a b c" and "M kd (PDX va) = page2pa a OR 7" "M a (PTX va) \<noteq> 0"
  shows "PGNUM (M a (PTX va)) = b \<Longrightarrow> page_insert kd b va perm (scene m a b c A (pinfo l 1) C F M) =
      Some (0, scene m a b c A (pinfo l 1) C F (M(a := (M a)(PTX va := page2pa b OR perm OR 1))))"
    "PGNUM (M a (PTX va)) = c \<Longrightarrow> page_insert kd c va perm (scene m a b c A B (pinfo l 1) F M) =
      Some (0, scene m a b c A B (pinfo l 1) F (M(a := (M a)(PTX va := page2pa c OR perm OR 1))))"
    "PGNUM (M a (PTX va)) = c \<Longrightarrow> page_insert kd b va perm (scene m a b c A (pinfo l 1) (pinfo None 1) F M) =
      Some (0, scene m a b c A (pinfo l 2) (pinfo F 0) (Some c) (M(a := (M a)(PTX va := page2pa b OR perm OR 1))))"
    "PGNUM (M a (PTX va)) = b \<Longrightarrow> page_insert kd c va perm (scene m a b c A (pinfo None 1) (pinfo l 0) F M) =
      Some (0, scene m a b c A (pinfo F 0) (pinfo l 1) (Some b) (M(a := (M a)(PTX va := page2pa c OR perm OR 1))))"
  using assms by (simp_all add: page_insert_def walk_scene page_remove_def lookup_scene decref_scene)

lemma insert_new_table:
  assumes t: "three m a b c" and "kd \<noteq> a" "M kd (PDX va) = 0"
  shows "page_insert kd b va perm (scene m a b c (pinfo l r) (pinfo l' r') C (Some a) M) =
      Some (0, scene m a b c (pinfo None (r + 1)) (pinfo l' (r' + 1)) C l
        (M(a := (\<lambda>_. 0)(PTX va := page2pa b OR perm OR 1), kd := (M kd)(PDX va := page2pa a OR 7))))"
proof -
  let ?M = "M(a := (\<lambda>_. 0), kd := (M kd)(PDX va := page2pa a OR 7))"
  have "?M kd (PDX va) = page2pa a OR 7" "?M a (PTX va) = 0" using assms(2) by simp_all
  note rm = remove_nothing_scene [where M = ?M, OF t this]
  have "?M(a := (?M a)(PTX va := w)) = M(a := (\<lambda>_. 0)(PTX va := w), kd := (M kd)(PDX va := page2pa a OR 7))" for w
    using assms(2) by (auto simp: fun_eq_iff)
  then show ?thesis using t by (simp add: page_insert_def new_table_scene [where M = M, OF assms] rm)
qed

lemma insert_no_memory:
  "M kd (PDX va) = 0 \<Longrightarrow> page_insert kd p va perm (scene m a b c A B C None M) = Some (- 4, scene m a b c A B C None M)"
  by (simp add: page_insert_def no_table_scene)

lemma remove_scene:
  assumes t: "three m a b c" and "M kd (PDX va) = page2pa a OR 7" "M a (PTX va) \<noteq> 0"
  shows "PGNUM (M a (PTX va)) = b \<Longrightarrow> page_remove kd va (scene m a b c A (pinfo l 2) C F M) = Some (scene m a b c A (pinfo l 1) C F (M(a := (M a)(PTX va := 0))))"
    "PGNUM (M a (PTX va)) = c \<Longrightarrow> page_remove kd va (scene m a b c A B (pinfo None 1) F M) = Some (scene m a b c A B (pinfo F 0) (Some c) (M(a := (M a)(PTX va := 0))))"
    "PGNUM (M a (PTX va)) = b \<Longrightarrow> page_remove kd va (scene m a b c A (pinfo None 1) C F M) = Some (scene m a b c A (pinfo F 0) C (Some b) (M(a := (M a)(PTX va := 0))))"
  using assms by (simp_all add: page_remove_def lookup_scene decref_scene)

lemma free_scene:
  assumes "three m a b c"
  shows "page_free a (scene m a b c (pinfo None 0) B C F M) = Some (scene m a b c (pinfo F 0) B C (Some a) M)"
    "page_free b (scene m a b c A (pinfo None 0) C F M) = Some (scene m a b c A (pinfo F 0) C (Some b) M)"
    "page_free c (scene m a b c A B (pinfo None 0) F M) = Some (scene m a b c A B (pinfo F 0) (Some c) M)"
  using assms by (simp_all add: page_free_def page_push_def)

lemma take_scene:
  assumes "three m a b c"
  shows "take_page (scene m a b c (pinfo l r) B C (Some a) M) = Some (a, scene m a b c (pinfo None r) B C l M)"
    "take_page (scene m a b c A (pinfo l r) C (Some b) M) = Some (b, scene m a b c A (pinfo None r) C l M)"
    "take_page (scene m a b c A B (pinfo l r) (Some c) M) = Some (c, scene m a b c A B (pinfo None r) l M)"
  using assms by (simp_all add: take_page_def page_alloc_def page_pop_def)

lemma fill_scene:
  "p < npages m \<Longrightarrow> npages m \<le> 2 ^ 20 \<Longrightarrow>
   fill_words p n w (scene m a b c A B C F M) = Some (scene m a b c A B C F (M(p := (\<lambda>i. if i < n then w else M p i))))"
  by (simp add: fill_words_eq cong: if_cong)

lemma no_page_scene: "no_page (scene m a b c A B C None M)"
  by (simp add: no_page_def page_alloc_def)

section \<open>The tests\<close>

lemmas test_simps = PDX_low no_table_scene new_table_scene walk_scene va2pa_scene insert_scene reinsert_scene remove_scene
  insert_new_table insert_no_memory free_scene take_scene no_page_scene flag_entry flag_and flag_nz PGNUM_page

lemma check_insert_scene:
  assumes t: "three m a b c" and kd: "kd \<noteq> a" and z: "M kd 0 = 0"
  shows "check_insert kd a b c (scene m a b c (pinfo None 0) (pinfo None 0) (pinfo None 0) None M) =
     Some (scene m a b c (pinfo None 1) (pinfo None 1) (pinfo None 1) None (table_mem M kd a (page2pa b OR 3) (page2pa c OR 3)))"
  using t three_bounds [OF t] kd z
  by (simp add: check_insert_def page_lookup_def insert_fails_def insert_ok_def test_simps ref_of_def cong: bind_weak let_weak_cong)

lemma check_reinsert_scene:
  assumes t: "three m a b c" and kd: "kd \<noteq> a" and z: "M kd 1 = 0"
  shows "check_reinsert kd a b c (scene m a b c A B (pinfo None 1) None (table_mem M kd a x (page2pa c OR 3))) =
     Some (scene m a b c A B (pinfo None 1) None (table_mem M kd a x (page2pa c OR 3)))"
  using t three_bounds [OF t] kd z
  by (simp add: check_reinsert_def insert_fails_def insert_ok_def test_simps ref_of_def pa2page_def cong: bind_weak let_weak_cong)

lemma check_replace_scene:
  assumes t: "three m a b c" and kd: "kd \<noteq> a"
  shows "check_replace kd a b c (scene m a b c A (pinfo None 1) (pinfo None 1) None (table_mem M kd a (page2pa b OR 3) (page2pa c OR 3))) =
     Some (scene m a b c A (pinfo None 2) (pinfo None 0) None (table_mem M kd a (page2pa b OR 3) (page2pa b OR 3)))"
  using t three_bounds [OF t] kd
  by (simp add: check_replace_def insert_fails_def insert_ok_def test_simps ref_of_def cong: bind_weak let_weak_cong)

lemma check_remove_scene:
  assumes t: "three m a b c" and kd: "kd \<noteq> a"
  shows "check_remove kd a b c (scene m a b c A (pinfo None 2) (pinfo None 0) None (table_mem M kd a (page2pa b OR 3) (page2pa b OR 3))) =
     Some (scene m a b c A (pinfo None 0) (pinfo None 0) None (table_mem M kd a 0 0))"
  using t three_bounds [OF t] kd
  by (simp add: check_remove_def insert_fails_def insert_ok_def test_simps ref_of_def cong: bind_weak let_weak_cong)

lemma check_walk_scene:
  assumes t: "three m a b c" and kd: "kd \<noteq> a" and z: "M kd 0 = 0" "M kd 1 = 0"
  shows "check_walk kd a (scene m a b c (pinfo None 1) B C None (table_mem M kd a 0 0)) =
     Some (scene m a b c (pinfo None 0) B C None (M(a := (\<lambda>_. 0))))"
proof -
  have "npages m \<le> 2 ^ 20" using t by (simp add: three_def)
  then show ?thesis using t three_bounds [OF t] kd z
    by (simp add: check_walk_def test_simps ref_of_def set_ref_def fill_scene pa2page_def list_all_iff fun_upd_idem
        del: upt_rec_numeral cong: bind_weak let_weak_cong)
qed

section \<open>From the list of free pages to a scene and back\<close>

lemma boot_scene:
  assumes inv: "boot_inv m (a # b # c # ys)"
  obtains l where "three m a b c" "chain (page_next m) l ys"
    "m = scene m a b c (pinfo (Some b) 0) (pinfo (Some c) 0) (pinfo l 0) (Some a) (pmem m)"
proof -
  have d: "a < npages m" "b < npages m" "c < npages m" "distinct (a # b # c # ys)" using boot_invD(3,4) [OF inv] by auto
  then have t: "three m a b c" using boot_invD(1) [OF inv] by (auto simp: three_def)
  have ch: "page_free_list m = Some a" "page_next m a = Some b" "page_next m b = Some c" "chain (page_next m) (page_next m c) ys"
    using boot_invD(7) [OF inv] by auto
  have p: "pages m ! a = pinfo (Some b) 0" "pages m ! b = pinfo (Some c) 0" "pages m ! c = pinfo (page_next m c) 0"
    using boot_invD(6) [OF inv] ch d by (auto simp: page_next_def intro!: page_info.equality)
  have "m = scene m a b c (pages m ! a) (pages m ! b) (pages m ! c) (page_free_list m) (pmem m)" by (simp add: scene_def)
  then show ?thesis unfolding p ch(1) by (rule that [OF t ch(4)])
qed

definition link_in :: "nat \<Rightarrow> nat \<Rightarrow> nat \<Rightarrow> nat option \<Rightarrow> nat option \<Rightarrow> nat option \<Rightarrow> nat \<Rightarrow> nat option" where
  "link_in a b c la lb lc p = (if p = a then la else if p = b then lb else if p = c then lc else None)"

lemma scene_boot_inv:
  assumes inv: "boot_inv m (a # b # c # ys)" and l: "chain (page_next m) l ys"
    and xyz: "set [x, y, z] = {a, b, c}" "distinct [x, y, z]"
    and links: "link_in a b c la lb lc x = Some y" "link_in a b c la lb lc y = Some z" "link_in a b c la lb lc z = l"
  shows "boot_inv (scene m a b c (pinfo la 0) (pinfo lb 0) (pinfo lc 0) (Some x) M) (x # y # z # ys)"
proof -
  let ?m = "scene m a b c (pinfo la 0) (pinfo lb 0) (pinfo lc 0) (Some x) M"
  obtain k where t: "three m a b c" using boot_scene [OF inv] by blast
  note b = three_bounds [OF t]
  have pg: "pages ?m ! p = (if p = a then pinfo la 0 else if p = b then pinfo lb 0 else if p = c then pinfo lc 0 else pages m ! p)"
    if "p < npages m" for p using that b by (auto simp: scene_def npages_def nth_list_update)
  have d: "distinct (a # b # c # ys)" "\<forall>p \<in> set (a # b # c # ys). p < npages m" using boot_invD(3,4) [OF inv] by auto
  have nx: "page_next ?m p = (if p \<in> {a, b, c} then link_in a b c la lb lc p else page_next m p)" for p
    using pg b by (auto simp: page_next_def link_in_def)
  have "chain (page_next ?m) l ys" using l d(1) nx by (subst chain_cong [of _ _ "page_next m"]) auto
  moreover have "x \<in> {a, b, c}" "y \<in> {a, b, c}" "z \<in> {a, b, c}" using xyz(1) by auto
  ultimately have ch: "chain (page_next ?m) (Some x) (x # y # z # ys)" using links nx by simp
  have s: "set (x # y # z # ys) = set (a # b # c # ys)" using xyz(1) by auto
  have "distinct (x # y # z # ys)" using xyz d(1) by auto
  then have "pl.free_listed ?m (x # y # z # ys)" using ch d(2) s by (simp add: pl.free_listed_def listed_def)
  moreover have "pp_link (pages ?m ! p) = None" if "p < npages m" "p \<notin> set (a # b # c # ys)" for p
    using pg [OF that(1)] that(2) boot_invD(5) [OF inv that] by simp
  moreover have "pp_ref (pages ?m ! p) = 0" if "p \<in> set (a # b # c # ys)" for p
    using pg [of p] d(2) that boot_invD(6) [OF inv that] by auto
  ultimately show ?thesis unfolding boot_inv_iff s using boot_invD(1) [OF inv] by simp
qed

section \<open>The allocator\<close>

lemma check_page_alloc_inv:
  assumes inv: "boot_inv m (a # b # c # ys)" and np: "npages m \<le> 2 ^ 16"
  shows "\<exists>M. check_page_alloc m = Some (m\<lparr>pmem := M\<rparr>) \<and> boot_inv (m\<lparr>pmem := M\<rparr>) (a # b # c # ys) \<and> (\<forall>q. q \<noteq> c \<longrightarrow> M q = pmem m q)"
proof -
  obtain l where t: "three m a b c" and m: "m = scene m a b c (pinfo (Some b) 0) (pinfo (Some c) 0) (pinfo l 0) (Some a) (pmem m)"
    using boot_scene [OF inv] by blast
  let ?M = "(pmem m)(c := (\<lambda>_. 0))"
  have inv': "boot_inv (m\<lparr>pmem := ?M\<rparr>) (a # b # c # ys)" using inv boot_inv_mem [of "m\<lparr>pmem := ?M\<rparr>" m] by simp
  have n20: "npages m \<le> 2 ^ 20" using boot_invD(1) [OF inv] .
  have lt: "page2pa p < of_nat (npages m) * PGSIZE" if "p < npages m" for p
  proof -
    have "p < 2 ^ 20" using that np by simp
    then show ?thesis
      using unat_page2pa [of p] unat_pages [OF np] that unfolding word_less_nat_alt mult.commute [of "of_nat (npages m)"] by simp
  qed
  let ?s = "scene m a b c (pinfo (Some b) 0) (pinfo (Some c) 0) (pinfo l 0) (Some a) (pmem m)"
  have fp: "free_pages ?s = Some (a # b # c # ys)" "free_pages (m\<lparr>pmem := ?M\<rparr>) = Some (a # b # c # ys)"
    unfolding m [symmetric] using free_pages_boot inv inv' by blast+
  have "m\<lparr>pmem := ?M\<rparr> = scene m a b c (pinfo (Some b) 0) (pinfo (Some c) 0) (pinfo l 0) (Some a) ?M"
    by (subst m) simp
  moreover have "check_page_alloc ?s =
      Some (scene m a b c (pinfo (Some b) 0) (pinfo (Some c) 0) (pinfo l 0) (Some a) ?M)"
    using t three_bounds [OF t] fp n20 lt calculation
    by (simp add: check_page_alloc_def take_three_def free_three_def test_simps fill_scene page_alloc_def page_pop_def list_all_iff
        del: upt_rec_numeral cong: bind_weak let_weak_cong)
  ultimately show ?thesis using inv' m by (intro exI [of _ ?M]) simp
qed

section \<open>Page tables\<close>

lemma take_three_scene:
  assumes t: "three m a b c"
  shows "take_three (scene m a b c (pinfo (Some b) 0) (pinfo (Some c) 0) (pinfo l 0) (Some a) M) =
    Some (a, b, c, scene m a b c (pinfo None 0) (pinfo None 0) (pinfo None 0) l M)"
  using t three_bounds [OF t] by (simp add: take_three_def test_simps cong: bind_weak let_weak_cong)

lemma check_page_until_mmio:
  assumes inv: "boot_inv m (a # b # c # ys)" and kd: "kd \<notin> set (a # b # c # ys)" and z: "pmem m kd 0 = 0" "pmem m kd 1 = 0"
  shows "\<exists>m'. check_page kd base m = check_mmio kd base m' \<and> boot_inv m' (c # b # a # ys) \<and> npages m' = npages m \<and>
    machine.more m' = machine.more m \<and> (\<forall>q. q \<noteq> a \<longrightarrow> pmem m' q = pmem m q)"
proof -
  obtain l where t: "three m a b c" and l: "chain (page_next m) l ys"
    and m: "m = scene m a b c (pinfo (Some b) 0) (pinfo (Some c) 0) (pinfo l 0) (Some a) (pmem m)"
    using boot_scene [OF inv] by blast
  let ?s = "scene m a b c (pinfo (Some b) 0) (pinfo (Some c) 0) (pinfo l 0) (Some a) (pmem m)"
  let ?m = "scene m a b c (pinfo l 0) (pinfo (Some a) 0) (pinfo (Some b) 0) (Some c) ((pmem m)(a := (\<lambda>_. 0)))"
  have ka: "kd \<noteq> a" using kd by simp
  have "check_page kd base ?s = check_mmio kd base ?m"
    using t z by (simp add: check_page_def take_three_scene check_insert_scene [OF t ka] check_reinsert_scene [OF t ka]
        check_replace_scene [OF t ka] check_remove_scene [OF t ka] check_walk_scene [OF t ka] free_three_def free_scene
        cong: bind_weak let_weak_cong)
  then have "check_page kd base m = check_mmio kd base ?m" unfolding m [symmetric] .
  moreover have "boot_inv ?m (c # b # a # ys)"
    using three_bounds [OF t] by (intro scene_boot_inv [OF inv l]) (auto simp: link_in_def)
  ultimately show ?thesis by (intro exI [of _ ?m]) simp
qed

lemma word_at_scene:
  assumes t: "three m a b c" and "M kd (PDX va) = page2pa a OR 7" "M a (PTX va) AND 1 \<noteq> 0" "PGNUM (M a (PTX va)) = p" "p \<in> {a, b, c}"
  shows "word_at kd va (scene m a b c A B C F M) = Some (p, unat (PGOFF_of va) div 4)"
  using assms three_bounds [OF t] by (auto simp: word_at_def va2pa_scene pa2page_def)

lemma table_mem_other:
  "q \<noteq> a \<Longrightarrow> q \<noteq> kd \<Longrightarrow> table_mem M kd a x y q = M q"
  "q \<noteq> a \<Longrightarrow> q \<noteq> kd \<Longrightarrow> (table_mem M kd a x y)(q := R) = table_mem (M(q := R)) kd a x y"
  by (auto simp: table_mem_def fun_eq_iff)

lemma check_installed_scene:
  assumes t: "three m a b c" and kd: "kd \<noteq> a" "kd \<noteq> b" "kd \<noteq> c" and M: "M kd 0 = 0" "M b 0 = 0x01010101" "M c 0 = 0x02020202"
  shows "check_installed kd a b c (scene m a b c (pinfo l 0) (pinfo None 0) (pinfo None 0) (Some a) M) =
    Some (scene m a b c (pinfo (Some c) 0) (pinfo l 0) (pinfo (Some b) 0) (Some a) (M(c := (M c)(0 := 0x03030303), a := (\<lambda>_. 0))))"
proof -
  have off: "unat (PGOFF_of PGSIZE) div 4 = 0" by (simp add: PGOFF_of_def)
  show ?thesis using t three_bounds [OF t] kd M off
    by (simp add: check_installed_def test_simps ref_of_def read_va_def write_va_def word_at_scene set_ref_def table_mem_other fun_upd_idem
        cong: bind_weak let_weak_cong)
qed

lemma check_installed_inv:
  assumes inv: "boot_inv m (a # b # c # ys)" and kd: "kd \<notin> set (a # b # c # ys)" and z: "pmem m kd 0 = 0"
  shows "\<exists>m'. check_page_installed_pgdir kd m = Some m' \<and> boot_inv m' (a # c # b # ys) \<and> npages m' = npages m \<and>
    machine.more m' = machine.more m \<and> (\<forall>q. q \<notin> {a, b, c} \<longrightarrow> pmem m' q = pmem m q)"
proof -
  obtain l where t: "three m a b c" and l: "chain (page_next m) l ys"
    and m: "m = scene m a b c (pinfo (Some b) 0) (pinfo (Some c) 0) (pinfo l 0) (Some a) (pmem m)"
    using boot_scene [OF inv] by blast
  let ?s = "scene m a b c (pinfo (Some b) 0) (pinfo (Some c) 0) (pinfo l 0) (Some a) (pmem m)"
  define N where "N = (pmem m)(b := (\<lambda>i. if i < 1024 then 0x01010101 else pmem m b i))"
  define M where "M = N(c := (\<lambda>i. if i < 1024 then 0x02020202 else N c i))"
  let ?m = "scene m a b c (pinfo (Some c) 0) (pinfo l 0) (pinfo (Some b) 0) (Some a) (M(c := (M c)(0 := 0x03030303), a := (\<lambda>_. 0)))"
  have n20: "npages m \<le> 2 ^ 20" using boot_invD(1) [OF inv] .
  have k: "kd \<noteq> a" "kd \<noteq> b" "kd \<noteq> c" using kd by simp_all
  have v: "M kd 0 = 0" "M b 0 = 0x01010101" "M c 0 = 0x02020202" using k z three_bounds [OF t] by (simp_all add: M_def N_def)
  have "check_page_installed_pgdir kd ?s = check_installed kd a b c (scene m a b c (pinfo l 0) (pinfo None 0) (pinfo None 0) (Some a) M)"
    using t three_bounds [OF t] n20
    by (simp add: check_page_installed_pgdir_def test_simps fill_scene N_def [symmetric] M_def [symmetric] cong: bind_weak let_weak_cong)
  then have "check_page_installed_pgdir kd m = Some ?m" unfolding m [symmetric] check_installed_scene [where M = M, OF t k v] .
  moreover have "boot_inv ?m (a # c # b # ys)"
    using three_bounds [OF t] by (intro scene_boot_inv [OF inv l]) (auto simp: link_in_def)
  ultimately show ?thesis by (intro exI [of _ ?m]) (simp add: M_def N_def)
qed

end
