(* ===== verification/Kern_Boot_Map.thy ===== *)
theory Kern_Boot_Map
  imports Kern_Boot_Check
begin

unbundle bit_operations_syntax

text \<open>
  The mappings of the kernel: what \<^verbatim>\<open>boot_map_region\<close> does to the kernel's directory while no environment exists. Addresses are
  written as page numbers, \<^term>\<open>page2pa v\<close> being the first address of page \<open>v\<close> of the address space. The directory entry 957
  (\<^verbatim>\<open>UVPT\<close>) names the directory itself and is left alone.
\<close>

section \<open>Addresses by page numbers\<close>

lemma page_number:
  assumes "v < 2 ^ 20"
  shows "PDX (page2pa v) = v div 1024" "PTX (page2pa v) = v mod 1024" "PGNUM (page2pa v) = v"
  using unat_page2pa [OF assms] assms by (simp_all add: PDX_div PTX_div PGNUM_div div_mult2_eq [of "4096 * v" 4096 1024, simplified])

lemma same_number:
  assumes "u div 1024 = v div (1024 :: nat)" "u mod 1024 = v mod 1024"
  shows "u = v"
proof -
  have "u div 1024 * 1024 + u mod 1024 = v div 1024 * 1024 + v mod 1024" using assms by simp
  then show ?thesis by (simp only: div_mult_mod_eq)
qed

lemma page2pa_Suc: "page2pa v + PGSIZE = page2pa (Suc v)"
  by (simp add: page2pa_def push_bit_eq_mult algebra_simps)

lemma entry_number: "entry m d va = entry m d (page2pa (PGNUM va))"
proof -
  have "unat va < 2 ^ LENGTH(32)" by (rule unsigned_less)
  then have "PGNUM va < 2 ^ 20" by (simp add: PGNUM_div less_mult_imp_div_less)
  then show ?thesis by (intro entry_same_page) (simp add: page_number)
qed

section \<open>The kernel's directory\<close>

text \<open>The pages that can become page tables: not those of the firmware, of the start of other processors, of devices and of the image.\<close>

definition table_page :: "nat \<Rightarrow> nat \<Rightarrow> bool" where
  "table_page kd t \<longleftrightarrow> t \<noteq> 0 \<and> t \<noteq> 7 \<and> (t < 160 \<or> kd < t)"

definition kmap :: "'a machine_scheme \<Rightarrow> nat \<Rightarrow> nat list \<Rightarrow> bool" where
  "kmap m kd xs \<longleftrightarrow> boot_inv m xs \<and> kd < npages m \<and> kd \<notin> set xs \<and> (\<forall>x \<in> set xs. table_page kd x) \<and>
     (\<forall>i. i \<noteq> 957 \<and> i < 1024 \<and> pmem m kd i \<noteq> 0 \<longrightarrow> (\<exists>t < npages m. t \<notin> set xs \<and> t \<noteq> kd \<and> table_page kd t \<and> pmem m kd i = page2pa t OR 7)) \<and>
     (\<forall>i j. i \<noteq> 957 \<and> j \<noteq> 957 \<and> i < 1024 \<and> j < 1024 \<and> pmem m kd i \<noteq> 0 \<and> pmem m kd j \<noteq> 0 \<and>
        PGNUM (pmem m kd i) = PGNUM (pmem m kd j) \<longrightarrow> i = j)"

lemma kmapD:
  assumes "kmap m kd xs"
  shows "boot_inv m xs" "kd < npages m" "kd \<notin> set xs" "npages m \<le> 2 ^ 20"
    "\<lbrakk>i \<noteq> 957; i < 1024; pmem m kd i \<noteq> 0\<rbrakk> \<Longrightarrow> \<exists>t < npages m. t \<notin> set xs \<and> t \<noteq> kd \<and> table_page kd t \<and> pmem m kd i = page2pa t OR 7 \<and> PGNUM (pmem m kd i) = t"
    "\<lbrakk>i \<noteq> 957; j \<noteq> 957; i < 1024; j < 1024; pmem m kd i \<noteq> 0; pmem m kd j \<noteq> 0; PGNUM (pmem m kd i) = PGNUM (pmem m kd j)\<rbrakk> \<Longrightarrow> i = j"
    "x \<in> set xs \<Longrightarrow> table_page kd x"
proof -
  show inv: "boot_inv m xs" "kd < npages m" "kd \<notin> set xs" using assms by (simp_all add: kmap_def)
  show n: "npages m \<le> 2 ^ 20" using boot_invD(1) [OF inv(1)] .
  show "\<lbrakk>i \<noteq> 957; j \<noteq> 957; i < 1024; j < 1024; pmem m kd i \<noteq> 0; pmem m kd j \<noteq> 0; PGNUM (pmem m kd i) = PGNUM (pmem m kd j)\<rbrakk> \<Longrightarrow> i = j"
    using assms unfolding kmap_def by blast
  show "x \<in> set xs \<Longrightarrow> table_page kd x" using assms unfolding kmap_def by blast
  assume "i \<noteq> 957" "i < 1024" "pmem m kd i \<noteq> 0"
  then obtain t where "t < npages m" "t \<notin> set xs" "t \<noteq> kd" "table_page kd t" "pmem m kd i = page2pa t OR 7"
    using assms unfolding kmap_def by blast
  then show "\<exists>t < npages m. t \<notin> set xs \<and> t \<noteq> kd \<and> table_page kd t \<and> pmem m kd i = page2pa t OR 7 \<and> PGNUM (pmem m kd i) = t"
    using n by (intro exI [of _ t]) (simp add: flag_entry)
qed

text \<open>A write to a table that is not the directory.\<close>

lemma kmap_put:
  assumes km: "kmap m kd xs" and t: "t \<noteq> kd" "pmem m kd (v div 1024) = page2pa t OR 7" and v: "v < 2 ^ 20" "v div 1024 \<noteq> 957" "t < 2 ^ 20"
  shows "kmap (put_word t (v mod 1024) w m) kd xs"
    "u < 2 ^ 20 \<Longrightarrow> u div 1024 \<noteq> 957 \<Longrightarrow> entry (put_word t (v mod 1024) w m) kd (page2pa u) = (if u = v then w else entry m kd (page2pa u))"
proof -
  have d: "pmem (put_word t j w m) kd = pmem m kd" for j using t(1) by (simp add: put_word_def)
  have n: "npages (put_word t j w m) = npages m" for j by simp
  have b: "boot_inv (put_word t j w m) xs" for j using kmapD(1) [OF km] boot_inv_mem [of "put_word t j w m" m] by (simp add: put_word_def)
  show "kmap (put_word t (v mod 1024) w m) kd xs" using km b unfolding kmap_def d n by (elim conjE) (intro conjI)
  have pt: "PGNUM (pmem m kd (v div 1024)) = t" using t(2) v(3) by (simp add: flag_entry)
  assume u: "u < 2 ^ 20" "u div 1024 \<noteq> 957"
  show "entry (put_word t (v mod 1024) w m) kd (page2pa u) = (if u = v then w else entry m kd (page2pa u))"
  proof (cases "u div 1024 = v div 1024")
    case True
    then have "u = v \<longleftrightarrow> u mod 1024 = v mod 1024" using same_number [of u v] by blast
    then show ?thesis using True t pt u v by (simp add: entry_def page_number d flag_nz)
  next
    case False
    have "PGNUM (pmem m kd (u div 1024)) \<noteq> t" if "pmem m kd (u div 1024) \<noteq> 0"
      using kmapD(6) [OF km, of "u div 1024" "v div 1024"] that False u v t pt by (auto simp: flag_nz less_mult_imp_div_less)
    then show ?thesis using False u v by (auto simp: entry_def page_number d)
  qed
qed

text \<open>A walk that may create a table.\<close>

lemma kmap_walk:
  assumes km: "kmap m kd xs" and v: "v < 2 ^ 20" "v div 1024 \<noteq> 957" and ne: "pmem m kd (v div 1024) \<noteq> 0 \<or> xs \<noteq> []"
  shows "\<exists>t m' ys. pgdir_walk kd (page2pa v) True m = Some (Some (t, v mod 1024), m') \<and> kmap m' kd ys \<and> t \<noteq> kd \<and> t < 2 ^ 20 \<and>
    pmem m' kd (v div 1024) = page2pa t OR 7 \<and> (if pmem m kd (v div 1024) = 0 then xs = t # ys else ys = xs \<and> m' = m) \<and>
    (\<forall>i. i \<noteq> v div 1024 \<longrightarrow> pmem m' kd i = pmem m kd i) \<and> npages m' = npages m \<and> machine.more m' = machine.more m \<and>
    (\<forall>u < 2 ^ 20. u div 1024 \<noteq> 957 \<longrightarrow> entry m' kd (page2pa u) = entry m kd (page2pa u))"
proof (cases "pmem m kd (v div 1024) = 0")
  case False
  have i: "v div 1024 < 1024" using v(1) by (simp add: less_mult_imp_div_less)
  obtain t where t: "t < npages m" "t \<notin> set xs" "t \<noteq> kd" "pmem m kd (v div 1024) = page2pa t OR 7" "PGNUM (pmem m kd (v div 1024)) = t"
    using kmapD(5) [OF km v(2) i False] by blast
  then have "pgdir_walk kd (page2pa v) True m = Some (Some (t, v mod 1024), m)"
    using False v by (simp add: pgdir_walk_def page_number Let_def pa2page_def)
  then show ?thesis using t False km kmapD(4) [OF km] by (intro exI [of _ t] exI [of _ m] exI [of _ xs]) simp
next
  case True
  then obtain t ys where xs: "xs = t # ys" using ne by (cases xs) auto
  have i: "v div 1024 < 1024" using v(1) by (simp add: less_mult_imp_div_less)
  note inv = kmapD(1) [OF km]
  have fl: "page_free_list m = Some t" "t < npages m" "t \<notin> set ys" "t \<noteq> kd"
    using boot_invD(3,4,7) [OF inv] kmapD(3) [OF km] xs by auto
  let ?m1 = "upd_page t (\<lambda>i. i\<lparr>pp_ref := pp_ref i + 1\<rparr>) (zero_page t (page_pop m))"
  let ?m = "put_word kd (v div 1024) (page2pa t OR 7) ?m1"
  have w: "pgdir_walk kd (page2pa v) True m = Some (Some (t, v mod 1024), ?m)"
    using True v fl kmapD(4) [OF km] by (simp add: pgdir_walk_def page_number Let_def pa2page_def page_alloc_def flag_nz flag_entry PGNUM_page)
  have mem: "pmem ?m kd j = (if j = v div 1024 then page2pa t OR 7 else pmem m kd j)" "pmem ?m t j = 0"
    "q \<noteq> t \<Longrightarrow> q \<noteq> kd \<Longrightarrow> pmem ?m q j = pmem m q j" for q j using fl by auto
  have n: "npages ?m = npages m" by simp
  have bi: "boot_inv ?m ys"
  proof -
    have "pl.free_listed (page_pop m) ys" using boot_invD(2) [OF inv] xs pl.free_listed_pop by blast
    moreover have "pages ?m ! p = (if p = t then (pages m ! t)\<lparr>pp_link := None, pp_ref := pp_ref (pages m ! t) + 1\<rparr> else pages m ! p)"
      if "p < npages m" for p using that fl page_pop_page [OF fl(1)] by simp
    ultimately show ?thesis
      using free_listed_meta [of ?m "page_pop m" ys] boot_invD(1,4,5,6) [OF inv] xs fl page_pop_page [OF fl(1)] by (auto simp: boot_inv_iff)
  qed
  have old: "\<exists>s < npages m. s \<notin> set xs \<and> s \<noteq> kd \<and> table_page kd s \<and> pmem m kd j = page2pa s OR 7 \<and> PGNUM (pmem m kd j) = s"
    if "j \<noteq> 957" "j < 1024" "pmem m kd j \<noteq> 0" for j using kmapD(5) [OF km that] .
  have pt: "PGNUM (page2pa t OR 7) = t" using fl(2) kmapD(4) [OF km] by (simp add: flag_entry)
  have "kmap ?m kd ys"
    unfolding kmap_def n
  proof (intro conjI allI impI)
    fix j
    assume j: "j \<noteq> 957 \<and> j < 1024 \<and> pmem ?m kd j \<noteq> 0"
    show "\<exists>s < npages m. s \<notin> set ys \<and> s \<noteq> kd \<and> table_page kd s \<and> pmem ?m kd j = page2pa s OR 7"
      using j fl old [of j] xs kmapD(7) [OF km, of t] unfolding mem(1) by (cases "j = v div 1024") auto
  next
    fix j j'
    assume jj: "j \<noteq> 957 \<and> j' \<noteq> 957 \<and> j < 1024 \<and> j' < 1024 \<and> pmem ?m kd j \<noteq> 0 \<and> pmem ?m kd j' \<noteq> 0 \<and> PGNUM (pmem ?m kd j) = PGNUM (pmem ?m kd j')"
    have "PGNUM (pmem m kd s) \<noteq> t" if "s \<noteq> 957" "s < 1024" "pmem m kd s \<noteq> 0" for s using old [OF that] xs by auto
    then show "j = j'" using jj kmapD(6) [OF km, of j j'] pt unfolding mem(1) by (auto split: if_splits)
  qed (use bi kmapD(2,3,7) [OF km] xs in auto)
  moreover have "entry ?m kd (page2pa u) = entry m kd (page2pa u)" if u: "u < 2 ^ 20" "u div 1024 \<noteq> 957" for u
  proof (cases "u div 1024 = v div 1024")
    case same: True
    then show ?thesis using True u v pt mem(2) by (simp add: entry_def page_number mem(1) flag_nz)
  next
    case False
    have "u div 1024 < 1024" using u(1) by (simp add: less_mult_imp_div_less)
    then have "PGNUM (pmem m kd (u div 1024)) \<noteq> t" "PGNUM (pmem m kd (u div 1024)) \<noteq> kd" if "pmem m kd (u div 1024) \<noteq> 0"
      using old [OF u(2) _ that] xs by auto
    then show ?thesis using False u fl(4) mem(3) by (simp add: entry_def page_number mem(1))
  qed
  ultimately show ?thesis using w fl xs True mem(1) kmapD(4) [OF km] by (intro exI [of _ t] exI [of _ ?m] exI [of _ ys]) simp
qed

section \<open>Mapping a region\<close>

text \<open>The tables that a region of \<open>n\<close> pages from page \<open>v\<close> on still needs.\<close>

definition missing :: "'a machine_scheme \<Rightarrow> nat \<Rightarrow> nat \<Rightarrow> nat \<Rightarrow> nat set" where
  "missing m kd v n = {i. pmem m kd i = 0 \<and> i \<in> (\<lambda>u. u div 1024) ` {v..<v + n}}"

lemma missing_finite: "finite (missing m kd v n)"
proof (rule finite_subset)
  show "missing m kd v n \<subseteq> (\<lambda>u. u div 1024) ` {v..<v + n}" by (auto simp: missing_def)
qed simp

lemma missing_bound: "card (missing m kd v n) \<le> (v + n - 1) div 1024 + 1 - v div 1024"
proof -
  have "missing m kd v n \<subseteq> {v div 1024..(v + n - 1) div 1024}"
    by (auto simp: missing_def intro!: div_le_mono)
  then have "card (missing m kd v n) \<le> card {v div 1024..(v + n - 1) div 1024}" by (intro card_mono) simp_all
  then show ?thesis by simp
qed

lemma missing_step:
  assumes "pmem m' kd (v div 1024) \<noteq> 0" "\<forall>i. i \<noteq> v div 1024 \<longrightarrow> pmem m' kd i = pmem m kd i"
  shows "card (missing m' kd (Suc v) n) + (if pmem m kd (v div 1024) = 0 then 1 else 0) \<le> card (missing m kd v (Suc n))"
proof -
  have sub: "missing m' kd (Suc v) n \<subseteq> missing m kd v (Suc n) - {v div 1024}"
  proof
    fix i
    assume i: "i \<in> missing m' kd (Suc v) n"
    then have "i \<noteq> v div 1024" using assms(1) by (auto simp: missing_def)
    moreover have "{Suc v..<Suc v + n} \<subseteq> {v..<v + Suc n}" by auto
    ultimately show "i \<in> missing m kd v (Suc n) - {v div 1024}" using i assms(2) unfolding missing_def by auto
  qed
  have "v div 1024 \<in> missing m kd v (Suc n) \<longleftrightarrow> pmem m kd (v div 1024) = 0" by (auto simp: missing_def)
  then show ?thesis
    using card_mono [OF _ sub] missing_finite [of m kd v "Suc n"] by (auto simp: card_Diff_singleton_if split: if_splits)
      (metis One_nat_def Suc_diff_1 Suc_le_mono card_gt_0_iff empty_iff)
qed

definition mapped_region :: "'a machine_scheme \<Rightarrow> nat \<Rightarrow> nat \<Rightarrow> nat \<Rightarrow> nat \<Rightarrow> 32 word \<Rightarrow> 'a machine_scheme \<Rightarrow> bool" where
  "mapped_region m kd v n q perm m' \<longleftrightarrow>
     (\<forall>u < 2 ^ 20. u div 1024 \<noteq> 957 \<longrightarrow> entry m' kd (page2pa u) =
        (if v \<le> u \<and> u < v + n then page2pa (q + (u - v)) OR perm OR PTE_P else entry m kd (page2pa u))) \<and>
     (\<forall>i. if i \<in> missing m kd v n then pmem m' kd i \<noteq> 0 else pmem m' kd i = pmem m kd i) \<and>
     npages m' = npages m \<and> machine.more m' = machine.more m"

lemma boot_map_pages_spec:
  assumes "kmap m kd xs" "v + n \<le> 2 ^ 20" "\<forall>u. v \<le> u \<and> u < v + n \<longrightarrow> u div 1024 \<noteq> 957 \<and> entry m kd (page2pa u) = 0"
    "card (missing m kd v n) \<le> length xs"
  shows "\<exists>m' ys. boot_map_pages kd n (page2pa v) (page2pa q) perm m = Some m' \<and> kmap m' kd ys \<and> set ys \<subseteq> set xs \<and>
    length xs \<le> length ys + card (missing m kd v n) \<and> mapped_region m kd v n q perm m'"
  using assms
proof (induction n arbitrary: v q m xs)
  case 0
  have "mapped_region m kd v 0 q perm m" by (auto simp: mapped_region_def missing_def)
  then show ?case using 0 by (intro exI [of _ m] exI [of _ xs]) simp
next
  case (Suc n)
  have v: "v < 2 ^ 20" "v div 1024 \<noteq> 957" "entry m kd (page2pa v) = 0" using Suc.prems(2,3) by auto
  have ne: "pmem m kd (v div 1024) \<noteq> 0 \<or> xs \<noteq> []"
  proof (rule ccontr)
    assume "\<not> ?thesis"
    then have "v div 1024 \<in> missing m kd v (Suc n)" "card (missing m kd v (Suc n)) = 0" using Suc.prems(4) by (auto simp: missing_def)
    then show False using missing_finite [of m kd v "Suc n"] by simp
  qed
  obtain t m1 ys where w: "pgdir_walk kd (page2pa v) True m = Some (Some (t, v mod 1024), m1)" "kmap m1 kd ys" "t \<noteq> kd" "t < 2 ^ 20"
    "pmem m1 kd (v div 1024) = page2pa t OR 7" "if pmem m kd (v div 1024) = 0 then xs = t # ys else ys = xs \<and> m1 = m"
    "\<forall>i. i \<noteq> v div 1024 \<longrightarrow> pmem m1 kd i = pmem m kd i" "npages m1 = npages m" "machine.more m1 = machine.more m"
    "\<forall>u < 2 ^ 20. u div 1024 \<noteq> 957 \<longrightarrow> entry m1 kd (page2pa u) = entry m kd (page2pa u)"
    using kmap_walk [OF Suc.prems(1) v(1,2) ne] by blast
  have tn: "t < npages m1"
    using kmapD(5) [OF w(2), of "v div 1024"] w(4,5) v by (auto simp: flag_nz flag_entry less_mult_imp_div_less)
  have "entry m1 kd (page2pa v) = 0" using w(10) v by simp
  then have e1: "pmem m1 t (v mod 1024) = 0" using v(1) w(4,5) by (simp add: entry_def page_number flag_nz flag_entry)
  have rm: "page_remove kd (page2pa v) m1 = Some m1"
    using v w(4,5) e1 tn by (simp add: page_remove_def page_lookup_def pgdir_walk_def page_number Let_def pa2page_def flag_nz flag_entry PGNUM_page)
  let ?w = "page2pa q OR perm OR PTE_P"
  let ?m2 = "put_word t (v mod 1024) ?w m1"
  note P = kmap_put [where w = ?w, OF w(2,3,5) v(1,2) w(4)]
  have d2: "pmem ?m2 kd = pmem m1 kd" using w(3) by (simp add: put_word_def)
  have ent: "entry ?m2 kd (page2pa u) = (if u = v then ?w else entry m kd (page2pa u))" if "u < 2 ^ 20" "u div 1024 \<noteq> 957" for u
    using P(2) [OF that] w(10) that by simp
  have ms: "card (missing ?m2 kd (Suc v) n) + (if pmem m kd (v div 1024) = 0 then 1 else 0) \<le> card (missing m kd v (Suc n))"
    using w(5,7) by (intro missing_step) (simp_all add: d2 flag_nz)
  have "card (missing ?m2 kd (Suc v) n) \<le> length ys" using ms Suc.prems(4) w(6) by (auto split: if_splits)
  moreover have "\<forall>u. Suc v \<le> u \<and> u < Suc v + n \<longrightarrow> u div 1024 \<noteq> 957 \<and> entry ?m2 kd (page2pa u) = 0"
    using Suc.prems(2,3) ent by simp
  ultimately obtain m' zs where r: "boot_map_pages kd n (page2pa (Suc v)) (page2pa (Suc q)) perm ?m2 = Some m'" "kmap m' kd zs"
    "set zs \<subseteq> set ys" "length ys \<le> length zs + card (missing ?m2 kd (Suc v) n)" "mapped_region ?m2 kd (Suc v) n (Suc q) perm m'"
    using Suc.IH [OF P(1), of "Suc v" "Suc q"] Suc.prems(2) by auto
  have "boot_map_pages kd (Suc n) (page2pa v) (page2pa q) perm m = Some m'"
    using w(1) rm r(1) by (simp add: page2pa_Suc)
  moreover have "mapped_region m kd v (Suc n) q perm m'"
    unfolding mapped_region_def
  proof (intro conjI allI impI)
    fix u :: nat
    assume u: "u < 2 ^ 20" "u div 1024 \<noteq> 957"
    have e: "entry m' kd (page2pa u) = (if Suc v \<le> u \<and> u < Suc v + n then page2pa (Suc q + (u - Suc v)) OR perm OR PTE_P else entry ?m2 kd (page2pa u))"
      using r(5) u unfolding mapped_region_def by blast
    have "Suc q + (u - Suc v) = q + (u - v)" if "Suc v \<le> u" using that by simp
    then show "entry m' kd (page2pa u) = (if v \<le> u \<and> u < v + Suc n then page2pa (q + (u - v)) OR perm OR PTE_P else entry m kd (page2pa u))"
      unfolding e ent [OF u] by (cases "Suc v \<le> u") (simp_all only: if_cancel, auto)
  next
    fix i
    have "if i \<in> missing ?m2 kd (Suc v) n then pmem m' kd i \<noteq> 0 else pmem m' kd i = pmem m1 kd i"
      using r(5) unfolding mapped_region_def d2 by blast
    moreover have "i \<in> missing m kd v (Suc n) \<longleftrightarrow> i \<in> missing ?m2 kd (Suc v) n \<or> i = v div 1024 \<and> pmem m kd i = 0"
    proof -
      have r: "{v..<v + Suc n} = insert v {Suc v..<Suc v + n}" by auto
      have z: "pmem m1 kd i = 0 \<longleftrightarrow> i \<noteq> v div 1024 \<and> pmem m kd i = 0" for i
        using w(5,7) by (cases "i = v div 1024") (auto simp: flag_nz)
      show ?thesis unfolding missing_def d2 z r by blast
    qed
    moreover have "pmem m1 kd (v div 1024) \<noteq> 0" using w(5) by (simp add: flag_nz)
    ultimately show "if i \<in> missing m kd v (Suc n) then pmem m' kd i \<noteq> 0 else pmem m' kd i = pmem m kd i"
      using w(6,7) by (cases "i = v div 1024") (auto split: if_splits simp: missing_def d2)
  qed (use r(5) w(8,9) in \<open>auto simp: mapped_region_def\<close>)
  moreover have "set zs \<subseteq> set xs" using r(3) w(6) by (auto split: if_splits)
  moreover have "length xs \<le> length zs + card (missing m kd v (Suc n))" using r(4) w(6) ms by (auto split: if_splits)
  ultimately show ?case using r(2) by blast
qed

text \<open>The number of tables a region spans bounds what it takes from the list.\<close>

lemma boot_map_region_spec:
  assumes km: "kmap m kd xs" and v: "v + n \<le> 2 ^ 20" and z: "\<forall>u \<in> {v..<v + n}. u div 1024 \<noteq> 957 \<and> entry m kd (page2pa u) = 0"
    and k: "(v + n - 1) div 1024 + 1 - v div 1024 \<le> k" "k \<le> length xs"
  shows "\<exists>m' ys. boot_map_region kd (page2pa v) (4096 * n) (page2pa q) perm m = Some m' \<and> kmap m' kd ys \<and> set ys \<subseteq> set xs \<and>
    length xs \<le> length ys + k \<and> mapped_region m kd v n q perm m'"
proof -
  have c: "card (missing m kd v n) \<le> k" using missing_bound [of m kd v n] k(1) by linarith
  have n: "(4096 * n + 4095) div 4096 = n" by simp
  obtain m' ys where "boot_map_pages kd n (page2pa v) (page2pa q) perm m = Some m'" "kmap m' kd ys" "set ys \<subseteq> set xs"
    "length xs \<le> length ys + card (missing m kd v n)" "mapped_region m kd v n q perm m'"
    using boot_map_pages_spec [OF km v, where q = q and perm = perm] z c k(2) by (auto simp: Ball_def)
  then show ?thesis using c unfolding boot_map_region_def n by (intro exI [of _ m'] exI [of _ ys]) simp
qed

section \<open>Reading the mappings\<close>

lemma va2pa_entry:
  assumes km: "kmap m kd xs" and v: "v < 2 ^ 20" "v div 1024 \<noteq> 957"
  shows "check_va2pa kd (page2pa v) m =
      Some (if entry m kd (page2pa v) AND 1 = 0 then - 1 else PTE_ADDR (entry m kd (page2pa v)))" (is ?va)
    "pmem m kd (v div 1024) \<noteq> 0 \<Longrightarrow> pte_of kd (page2pa v) m = Some (entry m kd (page2pa v))"
proof -
  have i: "v div 1024 < 1024" using v(1) by (simp add: less_mult_imp_div_less)
  have "?va \<and> (pmem m kd (v div 1024) \<noteq> 0 \<longrightarrow> pte_of kd (page2pa v) m = Some (entry m kd (page2pa v)))"
  proof (cases "pmem m kd (v div 1024) = 0")
    case True
    then show ?thesis using v by (simp add: check_va2pa_def entry_def page_number)
  next
    case False
    obtain t where t: "t < npages m" "pmem m kd (v div 1024) = page2pa t OR 7" "PGNUM (pmem m kd (v div 1024)) = t"
      using kmapD(5) [OF km v(2) i False] by blast
    then show ?thesis using v kmapD(4) [OF km] False
      by (simp add: check_va2pa_def pte_of_def pgdir_walk_def entry_def page_number pa2page_def flag_and flag_nz flag_entry PGNUM_page Let_def)
  qed
  then show ?va "pmem m kd (v div 1024) \<noteq> 0 \<Longrightarrow> pte_of kd (page2pa v) m = Some (entry m kd (page2pa v))" by simp_all
qed

lemma clear_pte_entry:
  assumes km: "kmap m kd xs" and v: "v < 2 ^ 20" "v div 1024 \<noteq> 957" "pmem m kd (v div 1024) \<noteq> 0"
  shows "\<exists>m'. clear_pte kd (page2pa v) m = Some m' \<and> kmap m' kd xs \<and> pmem m' kd = pmem m kd \<and> npages m' = npages m \<and>
    machine.more m' = machine.more m \<and>
    (\<forall>u < 2 ^ 20. u div 1024 \<noteq> 957 \<longrightarrow> entry m' kd (page2pa u) = (if u = v then 0 else entry m kd (page2pa u)))"
proof -
  have i: "v div 1024 < 1024" using v(1) by (simp add: less_mult_imp_div_less)
  obtain t where t: "t < npages m" "t \<noteq> kd" "pmem m kd (v div 1024) = page2pa t OR 7" "PGNUM (pmem m kd (v div 1024)) = t"
    using kmapD(5) [OF km v(2) i v(3)] by blast
  have t20: "t < 2 ^ 20" using t(1) kmapD(4) [OF km] by simp
  let ?m = "put_word t (v mod 1024) 0 m"
  note P = kmap_put [where w = 0, OF km t(2,3) v(1,2) t20]
  have "clear_pte kd (page2pa v) m = Some ?m"
    using t v by (simp add: clear_pte_def pgdir_walk_def page_number pa2page_def Let_def)
  moreover have "pmem ?m kd = pmem m kd" using t(2) by (simp add: put_word_def)
  ultimately show ?thesis using P by (intro exI [of _ ?m]) simp
qed

section \<open>Memory-mapped I/O\<close>

lemma mmio_map_region_spec:
  assumes km: "kmap m kd xs" and xs: "xs \<noteq> []" and n: "0 < n" "v + n < 0xEFC00" "0xEF800 \<le> v"
    and sz: "ROUNDUP sz PGSIZE = of_nat (4096 * n)" and z: "\<forall>u \<in> {v..<v + n}. entry m kd (page2pa u) = 0"
    and pa: "ROUNDDOWN pa PGSIZE = page2pa q"
  shows "\<exists>m' ys. mmio_map_region kd (page2pa v) pa sz m = Some (page2pa v, page2pa (v + n), m') \<and> kmap m' kd ys \<and> set ys \<subseteq> set xs \<and>
    length xs \<le> length ys + 1 \<and> mapped_region m kd v n q 0x1B m'"
proof -
  have un: "unat (of_nat (4096 * n) :: 32 word) = 4096 * n" using n by (simp add: unat_of_nat del: of_nat_mult)
  have sum: "page2pa v + of_nat (4096 * n) = page2pa (v + n)" by (simp add: page2pa_def push_bit_eq_mult algebra_simps)
  have d: "u div 1024 = 958" if "u \<in> {v..<v + n}" for u
  proof -
    have "u - 958 * 1024 < 1024" "u = 958 * 1024 + (u - 958 * 1024)" using that n by auto
    then show ?thesis by (metis div_less div_mult_self3 add.right_neutral zero_neq_numeral)
  qed
  then have "\<forall>u \<in> {v..<v + n}. u div 1024 \<noteq> 957 \<and> entry m kd (page2pa u) = 0" using z by simp
  moreover have "(v + n - 1) div 1024 + 1 - v div 1024 \<le> 1" using d [of v] d [of "v + n - 1"] n by simp
  moreover have "1 \<le> length xs" using xs by (cases xs) auto
  ultimately obtain m' ys where r: "boot_map_region kd (page2pa v) (4096 * n) (page2pa q) 0x1B m = Some m'" "kmap m' kd ys" "set ys \<subseteq> set xs"
    "length xs \<le> length ys + 1" "mapped_region m kd v n q 0x1B m'"
    using boot_map_region_spec [OF km, where v = v and n = n and k = 1 and q = q and perm = "0x1B"] n by auto
  have "page2pa (v + n) < MMIOLIM" using unat_page2pa [of "v + n"] n by (simp add: word_less_nat_alt)
  then have "mmio_map_region kd (page2pa v) pa sz m = Some (page2pa v, page2pa (v + n), m')"
    using r(1) un sum sz pa by (simp add: mmio_map_region_def del: of_nat_mult)
  then show ?thesis using r by blast
qed

text \<open>Two regions of device memory are mapped and unmapped again; only the table of the region stays.\<close>

lemma check_mmio_spec:
  assumes km: "kmap m kd xs" and xs: "2 \<le> length xs" and z: "\<forall>u \<in> {0xEF800..0xEF803}. entry m kd (page2pa u) = 0"
  shows "\<exists>m' ys. check_mmio kd MMIOBASE m = Some (MMIOBASE + 0x3000, m') \<and> kmap m' kd ys \<and> set ys \<subseteq> set xs \<and>
    length xs \<le> length ys + 2 \<and> npages m' = npages m \<and> machine.more m' = machine.more m \<and> pmem m' kd 958 \<noteq> 0 \<and>
    (\<forall>i. i \<noteq> 958 \<longrightarrow> pmem m' kd i = pmem m kd i) \<and>
    (\<forall>u < 2 ^ 20. u div 1024 \<noteq> 957 \<longrightarrow> entry m' kd (page2pa u) = entry m kd (page2pa u))"
proof -
  have up: "ROUNDUP 4097 PGSIZE = of_nat (4096 * 2)" "ROUNDUP 4096 PGSIZE = of_nat (4096 * 1)" by (simp_all add: ROUNDUP_def ROUNDDOWN_def)
  have pa0: "ROUNDDOWN 0 PGSIZE = page2pa 0" by (simp add: ROUNDDOWN_def page2pa_def)
  have ne: "xs \<noteq> []" using xs by auto
  have z1: "\<forall>u \<in> {0xEF800..<0xEF800 + 2}. entry m kd (page2pa u) = 0" using z by auto
  obtain m1 ys where m1: "mmio_map_region kd (page2pa 0xEF800) 0 4097 m = Some (page2pa 0xEF800, page2pa 0xEF802, m1)" "kmap m1 kd ys"
    "set ys \<subseteq> set xs" "length xs \<le> length ys + 1" "mapped_region m kd 0xEF800 2 0 0x1B m1"
    using mmio_map_region_spec [OF km ne _ _ _ up(1) z1 pa0] by auto
  have e1: "entry m1 kd (page2pa u) = (if 0xEF800 \<le> u \<and> u < 0xEF802 then page2pa (u - 0xEF800) OR 0x1B else entry m kd (page2pa u))"
    if "u < 2 ^ 20" "u div 1024 \<noteq> 957" for u using m1(5) that by (simp add: mapped_region_def)
  have z2: "\<forall>u \<in> {0xEF802..<0xEF802 + 1}. entry m1 kd (page2pa u) = 0" using z e1 by auto
  have "ys \<noteq> []" using xs m1(4) by auto
  then obtain m2 zs where m2: "mmio_map_region kd (page2pa 0xEF802) 0 4096 m1 = Some (page2pa 0xEF802, page2pa 0xEF803, m2)" "kmap m2 kd zs"
    "set zs \<subseteq> set ys" "length ys \<le> length zs + 1" "mapped_region m1 kd 0xEF802 1 0 0x1B m2"
    using mmio_map_region_spec [OF m1(2) _ _ _ _ up(2) z2 pa0] by auto
  have e2: "entry m2 kd (page2pa u) = (if u = 0xEF800 \<or> u = 0xEF801 \<or> u = 0xEF802 then page2pa (if u = 0xEF801 then 1 else 0) OR 0x1B else entry m kd (page2pa u))"
    if "u < 2 ^ 20" "u div 1024 \<noteq> 957" for u
  proof -
    have "entry m2 kd (page2pa u) = (if u = 0xEF802 then page2pa 0 OR 0x1B else entry m1 kd (page2pa u))"
      using m2(5) that by (auto simp: mapped_region_def)
    moreover have "0xEF800 \<le> u \<and> u < 0xEF802 \<longleftrightarrow> u = 0xEF800 \<or> u = 0xEF801" by auto
    ultimately show ?thesis using e1 [OF that] by auto
  qed
  have p1: "pmem m1 kd 958 \<noteq> 0"
  proof -
    have "(0xEF800 :: nat) div 1024 = 958" by simp
    then have "958 \<in> missing m kd 0xEF800 2 \<longleftrightarrow> pmem m kd 958 = 0" unfolding missing_def by (auto intro!: image_eqI [of _ _ "0xEF800"])
    then show ?thesis using m1(5) unfolding mapped_region_def by metis
  qed
  have other: "i \<notin> missing m kd 0xEF800 2" "i \<notin> missing m1 kd 0xEF802 1" if "i \<noteq> 958" for i
    using that by (auto simp: missing_def)
  have p2: "pmem m2 kd 958 \<noteq> 0" "\<forall>i. i \<noteq> 958 \<longrightarrow> pmem m2 kd i = pmem m kd i"
    using m1(5) m2(5) other p1 unfolding mapped_region_def by (metis (full_types))+
  have b: "0xEF800 < (2 :: nat) ^ 20" "(0xEF800 :: nat) div 1024 = 958" "0xEF801 < (2 :: nat) ^ 20" "(0xEF801 :: nat) div 1024 = 958"
    "0xEF802 < (2 :: nat) ^ 20" "(0xEF802 :: nat) div 1024 = 958" "0xEF803 < (2 :: nat) ^ 20" "(0xEF803 :: nat) div 1024 = 958" by simp_all
  note va = va2pa_entry [OF m2(2)]
  have "page2pa 0 = 0" "page2pa 1 = 0x1000" by (simp_all add: page2pa_def push_bit_eq_mult)
  then have en: "entry m2 kd (page2pa 0xEF800) = 0x1B" "entry m2 kd (page2pa 0xEF801) = 0x101B" "entry m2 kd (page2pa 0xEF802) = 0x1B"
    "entry m2 kd (page2pa 0xEF803) = 0"
    using e2 [OF b(1)] e2 [OF b(3)] e2 [OF b(5)] e2 [OF b(7)] b z by simp_all
  have reads: "check_va2pa kd (page2pa 0xEF800) m2 = Some 0" "check_va2pa kd (page2pa 0xEF801) m2 = Some PGSIZE"
    "check_va2pa kd (page2pa 0xEF802) m2 = Some 0" "check_va2pa kd (page2pa 0xEF803) m2 = Some (- 1)"
    "pte_of kd (page2pa 0xEF800) m2 = Some 0x1B"
    using va(1) [OF b(1)] va(1) [OF b(3)] va(1) [OF b(5)] va(1) [OF b(7)] va(2) [OF b(1)] b en p2(1)
    by (simp_all add: PTE_ADDR_def)
  obtain m3 where m3: "clear_pte kd (page2pa 0xEF800) m2 = Some m3" "kmap m3 kd zs" "pmem m3 kd = pmem m2 kd" "npages m3 = npages m2"
    "machine.more m3 = machine.more m2"
    "\<forall>u < 2 ^ 20. u div 1024 \<noteq> 957 \<longrightarrow> entry m3 kd (page2pa u) = (if u = 0xEF800 then 0 else entry m2 kd (page2pa u))"
    using clear_pte_entry [OF m2(2) b(1)] b(2) p2(1) by auto
  obtain m4 where m4: "clear_pte kd (page2pa 0xEF801) m3 = Some m4" "kmap m4 kd zs" "pmem m4 kd = pmem m2 kd" "npages m4 = npages m2"
    "machine.more m4 = machine.more m2"
    "\<forall>u < 2 ^ 20. u div 1024 \<noteq> 957 \<longrightarrow> entry m4 kd (page2pa u) = (if u = 0xEF801 then 0 else entry m3 kd (page2pa u))"
    using clear_pte_entry [OF m3(2) b(3)] b(4) p2(1) m3 by auto
  obtain m5 where m5: "clear_pte kd (page2pa 0xEF802) m4 = Some m5" "kmap m5 kd zs" "pmem m5 kd = pmem m2 kd" "npages m5 = npages m2"
    "machine.more m5 = machine.more m2"
    "\<forall>u < 2 ^ 20. u div 1024 \<noteq> 957 \<longrightarrow> entry m5 kd (page2pa u) = (if u = 0xEF802 then 0 else entry m4 kd (page2pa u))"
    using clear_pte_entry [OF m4(2) b(5)] b(6) p2(1) m4 by auto
  have pg: "MMIOBASE = page2pa 0xEF800" "page2pa 0xEF800 + PGSIZE = page2pa 0xEF801" "page2pa 0xEF802 + PGSIZE = page2pa 0xEF803"
    by (simp_all add: page2pa_def push_bit_eq_mult)
  have nums: "page2pa 0xEF800 = 0xEF800000" "page2pa 0xEF802 = 0xEF802000" "page2pa 0xEF803 = 0xEF803000"
    by (simp_all add: page2pa_def push_bit_eq_mult)
  have "check_mmio kd (page2pa 0xEF800) m = Some (page2pa 0xEF803, m5)"
    using m1(1) m2(1) reads m3(1) m4(1) m5(1) by (simp add: check_mmio_def pg(2,3)) (simp add: nums)
  then have run: "check_mmio kd MMIOBASE m = Some (MMIOBASE + 0x3000, m5)" by (simp add: nums)
  have ent: "entry m5 kd (page2pa u) = entry m kd (page2pa u)" if "u < 2 ^ 20" "u div 1024 \<noteq> 957" for u
    using m5(6) m4(6) m3(6) e2 [OF that] that z by auto
  have "npages m5 = npages m" "machine.more m5 = machine.more m"
    using m5(4,5) m1(5) m2(5) by (simp_all add: mapped_region_def)
  then show ?thesis using run m5(2,3) p2 ent m1(3,4) m2(3,4) by (intro exI [of _ m5] exI [of _ zs]) auto
qed

end
