(* ===== verification/Kern_Boot_Init.thy ===== *)
theory Kern_Boot_Init
  imports Kern_Boot_Map
begin

unbundle bit_operations_syntax

text \<open>
  \<^verbatim>\<open>mem_init\<close> as a whole: on every machine with enough memory no assertion of the self-tests fails, the kernel's directory maps
  what the layout of \<^verbatim>\<open>inc/memlayout.h\<close> says, and the state satisfies the invariant of the kernel once the table of environments is
  set up.
\<close>

section \<open>The stacks of the processors\<close>

definition stack_page :: "nat \<Rightarrow> nat" where
  "stack_page i = 0xF0000 - 16 * i - 8"

lemma stack_bounds:
  assumes "i < 8"
  shows "stack_page i + 8 \<le> 0xF0000" "0xEFF80 \<le> stack_page i" "KSTACKTOP - of_nat i * (KSTKSIZE + KSTKGAP) - KSTKSIZE = page2pa (stack_page i)"
proof -
  have "i \<in> {0, 1, 2, 3, 4, 5, 6, 7}" using assms by auto
  then show "stack_page i + 8 \<le> 0xF0000" "0xEFF80 \<le> stack_page i" "KSTACKTOP - of_nat i * (KSTKSIZE + KSTKGAP) - KSTKSIZE = page2pa (stack_page i)"
    by (auto simp: stack_page_def page2pa_def push_bit_eq_mult)
qed

lemma high_number:
  fixes u :: nat
  shows "0xEFC00 \<le> u \<Longrightarrow> u < 0xF0000 \<Longrightarrow> u div 1024 = 959"
proof -
  assume "0xEFC00 \<le> u" "u < 0xF0000"
  then have "959 * 1024 \<le> u" "u < Suc 959 * 1024" by simp_all
  then show ?thesis by (metis div_nat_eqI mult.commute)
qed

lemma page2pa_of_nat: "of_nat (4096 * p) = page2pa p"
  by (simp add: page2pa_def push_bit_eq_mult mult.commute)

lemma mem_init_mp_spec:
  assumes "kmap m kd xs" "distinct is" "\<forall>i \<in> set is. i < 8" "length is \<le> length xs" "fk + 64 \<le> 2 ^ 16"
    "\<forall>i \<in> set is. \<forall>u \<in> {stack_page i..<stack_page i + 8}. entry m kd (page2pa u) = 0"
  shows "\<exists>m' ys. mem_init_mp is kd (kva (4096 * fk)) m = Some m' \<and> kmap m' kd ys \<and> set ys \<subseteq> set xs \<and> length xs \<le> length ys + length is \<and>
    npages m' = npages m \<and> machine.more m' = machine.more m \<and> (\<forall>i. i \<noteq> 959 \<longrightarrow> pmem m' kd i = pmem m kd i) \<and>
    (pmem m kd 959 \<noteq> 0 \<or> is \<noteq> [] \<longrightarrow> pmem m' kd 959 \<noteq> 0) \<and>
    (\<forall>i \<in> set is. \<forall>j < 8. entry m' kd (page2pa (stack_page i + j)) = page2pa (fk + 8 * i + j) OR 3) \<and>
    (\<forall>u < 2 ^ 20. u div 1024 \<noteq> 957 \<and> (\<forall>i \<in> set is. u \<notin> {stack_page i..<stack_page i + 8}) \<longrightarrow>
       entry m' kd (page2pa u) = entry m kd (page2pa u))"
  using assms
proof (induction "is" arbitrary: m xs)
  case Nil
  then show ?case by (intro exI [of _ m] exI [of _ xs]) simp
next
  case (Cons i "is")
  have i: "i < 8" using Cons.prems(3) by simp
  note B = stack_bounds [OF i]
  have n: "u div 1024 = 959" if "u \<in> {stack_page i..<stack_page i + 8}" for u using that B high_number [of u] by auto
  have "(stack_page i + 8 - 1) div 1024 + 1 - stack_page i div 1024 \<le> 1"
    using n [of "stack_page i"] n [of "stack_page i + 8 - 1"] by simp
  moreover have "\<forall>u \<in> {stack_page i..<stack_page i + 8}. u div 1024 \<noteq> 957 \<and> entry m kd (page2pa u) = 0" using n Cons.prems(6) by simp
  ultimately obtain m1 ys where r: "boot_map_region kd (page2pa (stack_page i)) (4096 * 8) (page2pa (fk + 8 * i)) 3 m = Some m1"
    "kmap m1 kd ys" "set ys \<subseteq> set xs" "length xs \<le> length ys + 1" "mapped_region m kd (stack_page i) 8 (fk + 8 * i) 3 m1"
    using boot_map_region_spec [OF Cons.prems(1), where v = "stack_page i" and n = 8 and k = 1 and q = "fk + 8 * i" and perm = 3] B Cons.prems(4)
    by auto
  have e1: "entry m1 kd (page2pa u) = (if u \<in> {stack_page i..<stack_page i + 8} then page2pa (fk + 8 * i + (u - stack_page i)) OR 3 else entry m kd (page2pa u))"
    if "u < 2 ^ 20" "u div 1024 \<noteq> 957" for u using r(5) that by (simp add: mapped_region_def)
  have pd: "pmem m1 kd 959 \<noteq> 0" "\<forall>j. j \<noteq> 959 \<longrightarrow> pmem m1 kd j = pmem m kd j"
  proof -
    have "959 \<in> missing m kd (stack_page i) 8 \<longleftrightarrow> pmem m kd 959 = 0"
      using n [of "stack_page i"] unfolding missing_def by (auto intro!: image_eqI [of _ _ "stack_page i"])
    then show "pmem m1 kd 959 \<noteq> 0" using r(5) unfolding mapped_region_def by metis
    have "j \<notin> missing m kd (stack_page i) 8" if "j \<noteq> 959" for j using that n by (auto simp: missing_def)
    then show "\<forall>j. j \<noteq> 959 \<longrightarrow> pmem m1 kd j = pmem m kd j" using r(5) unfolding mapped_region_def by metis
  qed
  have apart: "{stack_page i'..<stack_page i' + 8} \<inter> {stack_page i..<stack_page i + 8} = {}" if "i' \<in> set is" for i'
  proof -
    have "i' \<noteq> i" "i' < 8" using that Cons.prems(2,3) by auto
    then show ?thesis using i by (auto simp: stack_page_def)
  qed
  have n': "u div 1024 = 959 \<and> u < 2 ^ 20" if "i' \<in> set is" "u \<in> {stack_page i'..<stack_page i' + 8}" for i' u
    using that stack_bounds [of i'] high_number [of u] Cons.prems(3) by auto
  have "\<forall>i' \<in> set is. \<forall>u \<in> {stack_page i'..<stack_page i' + 8}. entry m1 kd (page2pa u) = 0"
  proof (intro ballI)
    fix i' u
    assume h: "i' \<in> set is" "u \<in> {stack_page i'..<stack_page i' + 8}"
    then have "u \<notin> {stack_page i..<stack_page i + 8}" using apart by blast
    then have "entry m1 kd (page2pa u) = entry m kd (page2pa u)" using e1 [of u] n' [OF h] by (simp only: if_False)
    then show "entry m1 kd (page2pa u) = 0" using Cons.prems(6) h by simp
  qed
  moreover have "length is \<le> length ys" using Cons.prems(4) r(4) by simp
  ultimately obtain m' zs where m': "mem_init_mp is kd (kva (4096 * fk)) m1 = Some m'" "kmap m' kd zs" "set zs \<subseteq> set ys"
    "length ys \<le> length zs + length is" "npages m' = npages m1" "machine.more m' = machine.more m1"
    "\<forall>i. i \<noteq> 959 \<longrightarrow> pmem m' kd i = pmem m1 kd i" "pmem m1 kd 959 \<noteq> 0 \<or> is \<noteq> [] \<longrightarrow> pmem m' kd 959 \<noteq> 0"
    "\<forall>i \<in> set is. \<forall>j < 8. entry m' kd (page2pa (stack_page i + j)) = page2pa (fk + 8 * i + j) OR 3"
    "\<forall>u < 2 ^ 20. u div 1024 \<noteq> 957 \<and> (\<forall>i \<in> set is. u \<notin> {stack_page i..<stack_page i + 8}) \<longrightarrow>
       entry m' kd (page2pa u) = entry m1 kd (page2pa u)"
    using Cons.IH [OF r(2)] Cons.prems(2,3,5) by auto
  have pa: "PADDR (kstack_of (kva (4096 * fk)) i) = Some (page2pa (fk + 8 * i))"
  proof -
    have "kstack_of (kva (4096 * fk)) i = kva (4096 * (fk + 8 * i))" by (simp add: kstack_of_def kva_def algebra_simps)
    moreover have "4096 * (fk + 8 * i) < 2 ^ 28" using Cons.prems(5) i by simp
    ultimately show ?thesis using PADDR_kva page2pa_of_nat by metis
  qed
  have "mem_init_mp (i # is) kd (kva (4096 * fk)) m = Some m'"
    using B(3) pa r(1) m'(1) by simp
  moreover have "entry m' kd (page2pa (stack_page i + j)) = page2pa (fk + 8 * i + j) OR 3" if "j < 8" for j
  proof -
    let ?u = "stack_page i + j"
    have u: "?u \<in> {stack_page i..<stack_page i + 8}" using that by simp
    then have "\<forall>i' \<in> set is. ?u \<notin> {stack_page i'..<stack_page i' + 8}" using apart by blast
    then show ?thesis using m'(10) e1 [of ?u] n [OF u] u B by simp
  qed
  moreover have "entry m' kd (page2pa u) = entry m kd (page2pa u)"
    if "u < 2 ^ 20" "u div 1024 \<noteq> 957" "\<forall>i' \<in> set (i # is). u \<notin> {stack_page i'..<stack_page i' + 8}" for u
  proof -
    have "u \<notin> {stack_page i..<stack_page i + 8}" "\<forall>i' \<in> set is. u \<notin> {stack_page i'..<stack_page i' + 8}" using that(3) by simp_all
    then have "entry m' kd (page2pa u) = entry m1 kd (page2pa u)" "entry m1 kd (page2pa u) = entry m kd (page2pa u)"
      using m'(10) that(1,2) e1 [OF that(1,2)] by (blast, simp only: if_False)
    then show ?thesis by simp
  qed
  moreover have "npages m' = npages m" "machine.more m' = machine.more m" using m'(5,6) r(5) by (simp_all add: mapped_region_def)
  moreover have "pmem m' kd 959 \<noteq> 0" using m'(8) pd(1) by blast
  moreover have "\<forall>i. i \<noteq> 959 \<longrightarrow> pmem m' kd i = pmem m kd i" using m'(7) pd(2) by simp
  moreover have "length xs \<le> length zs + length (i # is)" "set zs \<subseteq> set xs" using m'(3,4) r(3,4) by auto
  ultimately show ?case using m'(2,9) by (intro exI [of _ m'] exI [of _ zs]) simp
qed

section \<open>The mappings above UTOP\<close>

text \<open>
  \<open>fp\<close>, \<open>fe\<close> and \<open>fk\<close> are the numbers of the first pages of the arrays \<^verbatim>\<open>pages\<close>, \<^verbatim>\<open>envs\<close> and \<^verbatim>\<open>percpu_kstacks\<close>; \<open>np\<close> is the number of
  pages of memory.
\<close>

definition upages :: "nat \<Rightarrow> nat" where
  "upages np = (8 * np + 4095) div 4096"

definition kernel_mapped :: "'a machine_scheme \<Rightarrow> nat \<Rightarrow> nat \<Rightarrow> nat \<Rightarrow> nat \<Rightarrow> nat \<Rightarrow> bool" where
  "kernel_mapped m kd np fp fe fk \<longleftrightarrow>
     (\<forall>j < upages np. entry m kd (page2pa (0xEF000 + j)) = page2pa (fp + j) OR PTE_U OR PTE_P) \<and>
     (\<forall>j < 32. entry m kd (page2pa (0xEEC00 + j)) = page2pa (fe + j) OR PTE_U OR PTE_P) \<and>
     (\<forall>j < 0x10000. entry m kd (page2pa (0xF0000 + j)) = page2pa j OR PTE_W OR PTE_P) \<and>
     (\<forall>i < 8. \<forall>j < 8. entry m kd (page2pa (stack_page i + j)) = page2pa (fk + 8 * i + j) OR PTE_W OR PTE_P) \<and>
     (\<forall>u < 0xF0000. u div 1024 \<noteq> 957 \<and> u \<notin> {0xEF000..<0xEF000 + upages np} \<and> u \<notin> {0xEEC00..<0xEEC20} \<and>
        (\<forall>i < 8. u \<notin> {stack_page i..<stack_page i + 8}) \<longrightarrow> entry m kd (page2pa u) = 0) \<and>
     (\<forall>i < 1024. i \<noteq> 957 \<longrightarrow> (pmem m kd i \<noteq> 0 \<longleftrightarrow> i \<in> {955, 956, 958, 959} \<or> 960 \<le> i))"

lemma roundup_pages:
  assumes "np \<le> 2 ^ 16"
  shows "unat (ROUNDUP (pages_size np) PGSIZE) = 4096 * upages np" "upages np \<le> 128"
proof -
  have "unat (pages_size np) = 8 * np" using assms by (simp add: pages_size_def unat_word_ariths unat_of_nat)
  then show "unat (ROUNDUP (pages_size np) PGSIZE) = 4096 * upages np"
    using unat_roundup [of "pages_size np"] assms by (simp add: upages_def)
  have "(8 * np + 4095) div 4096 \<le> (8 * 2 ^ 16 + 4095) div 4096" using assms by (intro div_le_mono) simp
  then show "upages np \<le> 128" by (simp add: upages_def)
qed

lemma roundup_envs: "unat (ROUNDUP envs_size PGSIZE) = 4096 * 32"
  by (simp add: envs_size_def ROUNDUP_def ROUNDDOWN_def)

lemma in_table: "i * 1024 \<le> u \<Longrightarrow> u < (i + 1) * 1024 \<Longrightarrow> u div 1024 = (i :: nat)"
  by (metis Suc_eq_plus1 div_nat_eqI mult.commute)

text \<open>What mapping a region changes in the directory.\<close>

lemma mapped_region_pde:
  assumes "mapped_region m kd v n q perm m'"
  shows "i \<notin> (\<lambda>u. u div 1024) ` {v..<v + n} \<Longrightarrow> pmem m' kd i = pmem m kd i"
    "i \<in> (\<lambda>u. u div 1024) ` {v..<v + n} \<Longrightarrow> pmem m' kd i \<noteq> 0"
    "pmem m kd i \<noteq> 0 \<Longrightarrow> pmem m' kd i \<noteq> 0"
  using assms unfolding mapped_region_def missing_def by (metis (mono_tags, lifting) mem_Collect_eq)+

lemma mapped_region_entry:
  assumes "mapped_region m kd v n q perm m'" "u < 2 ^ 20" "u div 1024 \<noteq> 957"
  shows "u \<notin> {v..<v + n} \<Longrightarrow> entry m' kd (page2pa u) = entry m kd (page2pa u)"
    "u \<in> {v..<v + n} \<Longrightarrow> entry m' kd (page2pa u) = page2pa (q + (u - v)) OR perm OR PTE_P"
  using assms unfolding mapped_region_def by auto

lemma kernel_maps_spec:
  assumes km: "kmap m kd xs" and np: "npages m \<le> 2 ^ 16" and xs: "75 \<le> length xs"
    and f: "fp < 2 ^ 16" "fe < 2 ^ 16" "fk + 64 \<le> 2 ^ 16"
    and z: "\<forall>u < 2 ^ 20. u div 1024 \<noteq> 957 \<longrightarrow> entry m kd (page2pa u) = 0"
    and d: "\<forall>i < 1024. i \<noteq> 957 \<longrightarrow> (pmem m kd i \<noteq> 0 \<longleftrightarrow> i = 958)"
  shows "\<exists>m' ys. kernel_maps (kva (4096 * fp)) (kva (4096 * fe)) (kva (4096 * fk)) kd m = Some m' \<and> kmap m' kd ys \<and> set ys \<subseteq> set xs \<and>
    length xs \<le> length ys + 75 \<and> npages m' = npages m \<and> machine.more m' = machine.more m \<and> pmem m' kd 957 = pmem m kd 957 \<and>
    kernel_mapped m' kd (npages m) fp fe fk"
proof -
  let ?n = "upages (npages m)"
  note U = roundup_pages [OF np]
  have t1: "u div 1024 = 956" if "u \<in> {0xEF000..<0xEF000 + ?n}" for u using that U(2) by (intro in_table) auto
  have t2: "u div 1024 = 955" if "u \<in> {0xEEC00..<0xEEC00 + 32}" for u :: nat using that by (intro in_table) auto
  have t3: "960 \<le> u div 1024" if "u \<in> {0xF0000..<0xF0000 + 0x10000}" for u :: nat
    using that div_le_mono [of "0xF0000" u 1024] by simp
  have pa: "PADDR (kva (4096 * p)) = Some (page2pa p)" if "p < 2 ^ 16" for p
    using that PADDR_kva [of "4096 * p"] page2pa_of_nat [of p] by simp
  have c1: "(0xEF000 + ?n - 1) div 1024 + 1 - 0xEF000 div 1024 \<le> 1"
  proof (cases "?n = 0")
    case False
    then show ?thesis using t1 [of "0xEF000 + ?n - 1"] U(2) by simp
  qed simp
  obtain m1 x1 where r1: "boot_map_region kd (page2pa 0xEF000) (4096 * ?n) (page2pa fp) 5 m = Some m1" "kmap m1 kd x1" "set x1 \<subseteq> set xs"
    "length xs \<le> length x1 + 1" "mapped_region m kd 0xEF000 ?n fp 5 m1"
    using boot_map_region_spec [OF km, where v = "0xEF000" and n = ?n and k = 1 and q = fp and perm = 5] U(2) t1 z c1 xs by fastforce
  have e1: "entry m1 kd (page2pa u) = entry m kd (page2pa u)" if "u < 2 ^ 20" "u div 1024 \<noteq> 957" "u div 1024 \<noteq> 956" for u
    using mapped_region_entry(1) [OF r1(5) that(1,2)] t1 that(3) by blast
  have "\<forall>u \<in> {0xEEC00..<0xEEC00 + 32}. u div 1024 \<noteq> 957 \<and> entry m1 kd (page2pa u) = 0" using t2 e1 z by auto
  moreover have "(0xEEC00 + 32 - 1) div 1024 + 1 - 0xEEC00 div 1024 \<le> (1 :: nat)" by simp
  ultimately obtain m2 x2 where r2: "boot_map_region kd (page2pa 0xEEC00) (4096 * 32) (page2pa fe) 5 m1 = Some m2" "kmap m2 kd x2" "set x2 \<subseteq> set x1"
    "length x1 \<le> length x2 + 1" "mapped_region m1 kd 0xEEC00 32 fe 5 m2"
    using boot_map_region_spec [OF r1(2), where v = "0xEEC00" and n = 32 and k = 1 and q = fe and perm = 5] xs r1(4) by fastforce
  have e2: "entry m2 kd (page2pa u) = entry m1 kd (page2pa u)" if "u < 2 ^ 20" "u div 1024 \<noteq> 957" "u div 1024 \<noteq> 955" for u
    using mapped_region_entry(1) [OF r2(5) that(1,2)] t2 that(3) by blast
  have "\<forall>u \<in> {0xF0000..<0xF0000 + 0x10000}. u div 1024 \<noteq> 957 \<and> entry m2 kd (page2pa u) = 0"
  proof
    fix u :: nat
    assume u: "u \<in> {0xF0000..<0xF0000 + 0x10000}"
    then have b: "u < 2 ^ 20" "u div 1024 \<noteq> 957" "u div 1024 \<noteq> 955" "u div 1024 \<noteq> 956" using t3 [OF u] by simp_all
    then show "u div 1024 \<noteq> 957 \<and> entry m2 kd (page2pa u) = 0" using e2 [OF b(1,2,3)] e1 [OF b(1,2,4)] z by simp
  qed
  moreover have "(0xF0000 + 0x10000 - 1) div 1024 + 1 - 0xF0000 div 1024 \<le> (64 :: nat)" by simp
  ultimately obtain m3 x3 where r3: "boot_map_region kd (page2pa 0xF0000) (4096 * 0x10000) (page2pa 0) 3 m2 = Some m3" "kmap m3 kd x3" "set x3 \<subseteq> set x2"
    "length x2 \<le> length x3 + 64" "mapped_region m2 kd 0xF0000 0x10000 0 3 m3"
    using boot_map_region_spec [OF r2(2), where v = "0xF0000" and n = "0x10000" and k = 64 and q = 0 and perm = 3] xs r1(4) r2(4) by fastforce
  have e3: "entry m3 kd (page2pa u) = entry m2 kd (page2pa u)" if "u < 0xF0000" "u div 1024 \<noteq> 957" for u
    using mapped_region_entry(1) [OF r3(5)] that by simp
  have st: "u div 1024 = 959 \<and> u < 0xF0000" if "i < 8" "u \<in> {stack_page i..<stack_page i + 8}" for i u
    using that stack_bounds [OF that(1)] high_number [of u] by auto
  have "\<forall>i \<in> set [0..<8]. \<forall>u \<in> {stack_page i..<stack_page i + 8}. entry m3 kd (page2pa u) = 0"
  proof (intro ballI)
    fix i u
    assume h: "i \<in> set [0..<8]" "u \<in> {stack_page i..<stack_page i + 8}"
    then have b: "u div 1024 = 959" "u < 0xF0000" using st [of i u] by auto
    then show "entry m3 kd (page2pa u) = 0" using e3 [of u] e2 [of u] e1 [of u] z by simp
  qed
  moreover have "length [0..<8] \<le> length x3" using xs r1(4) r2(4) r3(4) by simp
  ultimately obtain m4 x4 where r4: "mem_init_mp [0..<8] kd (kva (4096 * fk)) m3 = Some m4" "kmap m4 kd x4" "set x4 \<subseteq> set x3"
    "length x3 \<le> length x4 + length [0..<8]" "npages m4 = npages m3" "machine.more m4 = machine.more m3"
    "\<forall>i. i \<noteq> 959 \<longrightarrow> pmem m4 kd i = pmem m3 kd i" "pmem m3 kd 959 \<noteq> 0 \<or> [0..<8] \<noteq> [] \<longrightarrow> pmem m4 kd 959 \<noteq> 0"
    "\<forall>i \<in> set [0..<8]. \<forall>j < 8. entry m4 kd (page2pa (stack_page i + j)) = page2pa (fk + 8 * i + j) OR 3"
    "\<forall>u < 2 ^ 20. u div 1024 \<noteq> 957 \<and> (\<forall>i \<in> set [0..<8]. u \<notin> {stack_page i..<stack_page i + 8}) \<longrightarrow>
       entry m4 kd (page2pa u) = entry m3 kd (page2pa u)"
    using mem_init_mp_spec [OF r3(2), of "[0..<8]" fk] f(3) by (auto simp del: upt_rec_numeral)
  have e4: "entry m4 kd (page2pa u) = entry m3 kd (page2pa u)" if "u < 2 ^ 20" "u div 1024 \<noteq> 957" "\<forall>i < 8. u \<notin> {stack_page i..<stack_page i + 8}" for u
    using r4(10) that by auto
  have apart: "\<forall>i < 8. u \<notin> {stack_page i..<stack_page i + 8}" if "u div 1024 \<noteq> 959 \<or> 0xF0000 \<le> u" for u using st that by fastforce
  have n0: "0 < ?n" using kmapD(2) [OF km] by (simp add: upages_def)
  have i1: "(\<lambda>u. u div 1024) ` {0xEF000..<0xEF000 + ?n} = {956}"
  proof -
    have "956 \<in> (\<lambda>u. u div 1024) ` {0xEF000..<0xEF000 + ?n}" using n0 by (intro image_eqI [of _ _ "0xEF000"]) simp_all
    then show ?thesis using t1 by auto
  qed
  have i2: "(\<lambda>u. u div 1024) ` {0xEEC00..<0xEEC00 + 32} = {955 :: nat}"
  proof -
    have "(955 :: nat) \<in> (\<lambda>u. u div 1024) ` {0xEEC00..<0xEEC00 + 32}" by (intro image_eqI [of _ _ "0xEEC00"]) simp_all
    then show ?thesis using t2 by auto
  qed
  have i3: "(\<lambda>u. u div 1024) ` {0xF0000..<0xF0000 + 0x10000} = {960..<1024 :: nat}"
  proof
    show "(\<lambda>u. u div 1024) ` {0xF0000..<0xF0000 + 0x10000} \<subseteq> {960..<1024 :: nat}" using t3 by (auto simp: less_mult_imp_div_less)
    have "i \<in> (\<lambda>u. u div 1024) ` {0xF0000..<0xF0000 + 0x10000}" if "i \<in> {960..<1024}" for i :: nat
      using that by (intro image_eqI [of _ _ "i * 1024"]) auto
    then show "{960..<1024 :: nat} \<subseteq> (\<lambda>u. u div 1024) ` {0xF0000..<0xF0000 + 0x10000}" by blast
  qed
  note pd1 = mapped_region_pde [OF r1(5), unfolded i1] and pd2 = mapped_region_pde [OF r2(5), unfolded i2]
    and pd3 = mapped_region_pde [OF r3(5), unfolded i3]
  have "kernel_mapped m4 kd (npages m) fp fe fk"
    unfolding kernel_mapped_def
  proof (intro conjI allI impI)
    fix j
    assume j: "j < ?n"
    then have u: "0xEF000 + j < 0xF0000" "(0xEF000 + j) div 1024 = 956" using U(2) t1 [of "0xEF000 + j"] by simp_all
    then show "entry m4 kd (page2pa (0xEF000 + j)) = page2pa (fp + j) OR PTE_U OR PTE_P"
      using e4 [OF _ _ apart, of "0xEF000 + j"] e3 [of "0xEF000 + j"] e2 [of "0xEF000 + j"] mapped_region_entry(2) [OF r1(5), of "0xEF000 + j"] j by simp
  next
    fix j :: nat
    assume j: "j < 32"
    then have u: "0xEEC00 + j < 0xF0000" "(0xEEC00 + j) div 1024 = 955" using t2 [of "0xEEC00 + j"] by simp_all
    then show "entry m4 kd (page2pa (0xEEC00 + j)) = page2pa (fe + j) OR PTE_U OR PTE_P"
      using e4 [OF _ _ apart, of "0xEEC00 + j"] e3 [of "0xEEC00 + j"] mapped_region_entry(2) [OF r2(5), of "0xEEC00 + j"] j by simp
  next
    fix j :: nat
    assume j: "j < 0x10000"
    then have u: "0xF0000 + j < 2 ^ 20" "960 \<le> (0xF0000 + j) div 1024" using t3 [of "0xF0000 + j"] by simp_all
    then show "entry m4 kd (page2pa (0xF0000 + j)) = page2pa j OR PTE_W OR PTE_P"
      using e4 [OF _ _ apart, of "0xF0000 + j"] mapped_region_entry(2) [OF r3(5), of "0xF0000 + j"] j by simp
  next
    fix i j :: nat
    assume "i < 8" "j < 8"
    then show "entry m4 kd (page2pa (stack_page i + j)) = page2pa (fk + 8 * i + j) OR PTE_W OR PTE_P" using r4(9) by (simp del: upt_rec_numeral)
  next
    fix u :: nat
    assume u: "u < 0xF0000" and h: "u div 1024 \<noteq> 957 \<and> u \<notin> {0xEF000..<0xEF000 + ?n} \<and> u \<notin> {0xEEC00..<0xEEC20} \<and> (\<forall>i < 8. u \<notin> {stack_page i..<stack_page i + 8})"
    then have "entry m4 kd (page2pa u) = entry m2 kd (page2pa u)" using e4 [of u] e3 [of u] by simp
    also have "\<dots> = entry m1 kd (page2pa u)" using mapped_region_entry(1) [OF r2(5), of u] u h by simp
    also have "\<dots> = entry m kd (page2pa u)" using mapped_region_entry(1) [OF r1(5), of u] u h by simp
    finally show "entry m4 kd (page2pa u) = 0" using z u h by simp
  next
    fix i :: nat
    assume i: "i < 1024" "i \<noteq> 957"
    show "(pmem m4 kd i \<noteq> 0) = (i \<in> {955, 956, 958, 959} \<or> 960 \<le> i)"
    proof (cases "i = 959")
      case True
      then show ?thesis using r4(8) by simp
    next
      case False
      then have "pmem m4 kd i = pmem m3 kd i" using r4(7) by simp
      moreover have "pmem m kd i \<noteq> 0 \<longleftrightarrow> i = 958" using d i by blast
      ultimately show ?thesis
        using pd1(1,2) [of i] pd2(1) [of i] pd2(2,3) pd3(1,2) [of i] i False by (cases "960 \<le> i"; cases "i = 956"; cases "i = 955") auto
    qed
  qed
  moreover have "kernel_maps (kva (4096 * fp)) (kva (4096 * fe)) (kva (4096 * fk)) kd m = Some m4"
  proof -
    have a: "UPAGES = page2pa 0xEF000" "UENVS = page2pa 0xEEC00" "KERNBASE = page2pa 0xF0000" "(2 :: nat) ^ 28 = 4096 * 0x10000" "(0 :: 32 word) = page2pa 0"
      by (simp_all add: page2pa_def push_bit_eq_mult)
    have b: "PTE_U OR PTE_P = 5" "PTE_W OR PTE_P = 3" by simp_all
    show ?thesis
      unfolding kernel_maps_def pa [OF f(1)] pa [OF f(2)] roundup_envs U(1) b a(1,2,3,4) Let_def
      using r1(1) r2(1) r3(1) r4(1) by (simp add: a(5) [symmetric] del: upt_rec_numeral)
  qed
  moreover have "npages m4 = npages m" "machine.more m4 = machine.more m"
    using r4(5,6) r3(5) r2(5) r1(5) by (simp_all add: mapped_region_def)
  moreover have "set x4 \<subseteq> set xs" "length xs \<le> length x4 + 75" using r1(3,4) r2(3,4) r3(3,4) r4(3,4) by auto
  moreover have "pmem m4 kd 957 = pmem m kd 957" using r4(7) pd1(1) [of 957] pd2(1) [of 957] pd3(1) [of 957] by simp
  ultimately show ?thesis using r4(2) by blast
qed

section \<open>The self-test of the mappings\<close>

lemma va2pa_mapped:
  assumes km: "kmap m kd xs" and v: "v < 2 ^ 20" "v div 1024 \<noteq> 957"
  shows "entry m kd (page2pa v) = page2pa p OR f \<Longrightarrow> p < 2 ^ 20 \<Longrightarrow> drop_bit 12 f = 0 \<Longrightarrow> f AND 1 = 1 \<Longrightarrow> check_va2pa kd (page2pa v) m = Some (page2pa p)"
    "entry m kd (page2pa v) = 0 \<Longrightarrow> check_va2pa kd (page2pa v) m = Some (- 1)"
  using va2pa_entry(1) [OF assms] by (simp_all add: flag_and flag_entry)

lemma page2pa_add: "page2pa v + of_nat j * PGSIZE = page2pa (v + j)"
  by (simp add: page2pa_def push_bit_eq_mult algebra_simps)

lemma maps_to_pages:
  assumes km: "kmap m kd xs" and f: "drop_bit 12 f = 0" "f AND 1 = 1" and b: "v + n \<le> 2 ^ 20" "q + n \<le> 2 ^ 20"
    and e: "\<And>j. j < n \<Longrightarrow> (v + j) div 1024 \<noteq> 957 \<and> entry m kd (page2pa (v + j)) = page2pa (q + j) OR f"
  shows "maps_to kd (page2pa v) (page2pa q) (4096 * n) m"
proof -
  have "check_va2pa kd (page2pa (v + j)) m = Some (page2pa (q + j))" if "j < n" for j
    using va2pa_mapped(1) [OF km, of "v + j" "q + j" f] e [OF that] f b that by simp
  then show ?thesis by (simp add: maps_to_def page_offsets_def list_all_iff page2pa_add)
qed

lemma maps_nothing_pages:
  assumes km: "kmap m kd xs" and b: "v + n \<le> 2 ^ 20"
    and e: "\<And>j. j < n \<Longrightarrow> (v + j) div 1024 \<noteq> 957 \<and> entry m kd (page2pa (v + j)) = 0"
  shows "maps_nothing kd (page2pa v) (4096 * n) m"
proof -
  have "check_va2pa kd (page2pa (v + j)) m = Some (- 1)" if "j < n" for j
    using va2pa_mapped(2) [OF km, of "v + j"] e [OF that] b that by simp
  then show ?thesis by (simp add: maps_nothing_def page_offsets_def list_all_iff page2pa_add)
qed

lemma check_kern_pgdir_ok:
  assumes km: "kmap m kd xs" and mp: "kernel_mapped m kd (npages m) fp fe fk" and np: "npages m \<le> 2 ^ 16"
    and f: "fp < 2 ^ 16" "fe < 2 ^ 16" "fk + 64 \<le> 2 ^ 16" and uv: "pmem m kd 957 AND 1 \<noteq> 0"
  shows "check_kern_pgdir kd (kva (4096 * fp)) (kva (4096 * fe)) (kva (4096 * fk)) m = Some ()"
proof -
  let ?n = "upages (npages m)"
  note U = roundup_pages [OF np]
  note M = mp [unfolded kernel_mapped_def]
  have pa: "PADDR (kva (4096 * p)) = Some (page2pa p)" if "p < 2 ^ 16" for p
    using that PADDR_kva [of "4096 * p"] page2pa_of_nat [of p] by simp
  have t1: "(0xEF000 + j) div 1024 = 956" if "j < ?n" for j using that U(2) by (intro in_table) auto
  have t2: "(0xEEC00 + j) div 1024 = 955" if "j < 32" for j :: nat using that by (intro in_table) auto
  have t3: "960 \<le> (0xF0000 + j) div 1024" for j :: nat using div_le_mono [of "0xF0000" "0xF0000 + j" 1024] by simp
  have fl: "drop_bit 12 (5 :: 32 word) = 0" "(5 :: 32 word) AND 1 = 1" "drop_bit 12 (3 :: 32 word) = 0" "(3 :: 32 word) AND 1 = 1" by simp_all
  have p1: "maps_to kd (page2pa 0xEF000) (page2pa fp) (4096 * ?n) m"
    using M t1 U(2) f(1) by (intro maps_to_pages [OF km fl(1,2)]) simp_all
  have p2: "maps_to kd (page2pa 0xEEC00) (page2pa fe) (4096 * 32) m"
    using M t2 f(2) by (intro maps_to_pages [OF km fl(1,2)]) simp_all
  have p3: "maps_to kd (page2pa 0xF0000) (page2pa 0) (4096 * npages m) m"
  proof (rule maps_to_pages [OF km fl(3,4)])
    fix j
    assume "j < npages m"
    then show "(0xF0000 + j) div 1024 \<noteq> 957 \<and> entry m kd (page2pa (0xF0000 + j)) = page2pa (0 + j) OR 3" using M t3 [of j] np by simp
  qed (use np in simp_all)
  have p4: "check_kstack kd (kva (4096 * fk)) i m" if i: "i < 8" for i
  proof -
    note B = stack_bounds [OF i]
    have base: "KSTACKTOP - (KSTKSIZE + KSTKGAP) * of_nat (i + 1) = page2pa (stack_page i - 8)" "page2pa (stack_page i - 8) + KSTKGAP = page2pa (stack_page i)"
    proof -
      have "i \<in> {0, 1, 2, 3, 4, 5, 6, 7}" using i by auto
      then show "KSTACKTOP - (KSTKSIZE + KSTKGAP) * of_nat (i + 1) = page2pa (stack_page i - 8)" "page2pa (stack_page i - 8) + KSTKGAP = page2pa (stack_page i)"
        by (auto simp: stack_page_def page2pa_def push_bit_eq_mult)
    qed
    have st: "(stack_page i + j) div 1024 = 959" "(stack_page i - 8 + j) div 1024 = 959" if "j < 8" for j
      using B(1,2) that by (auto intro!: high_number)
    have pk: "PADDR (kstack_of (kva (4096 * fk)) i) = Some (page2pa (fk + 8 * i))"
      using pa [of "fk + 8 * i"] f(3) i by (simp add: kstack_of_def kva_def algebra_simps)
    have "maps_to kd (page2pa (stack_page i)) (page2pa (fk + 8 * i)) (4096 * 8) m"
      using M st(1) B f(3) i by (intro maps_to_pages [OF km fl(3,4)]) simp_all
    moreover have "maps_nothing kd (page2pa (stack_page i - 8)) (4096 * 8) m"
    proof (rule maps_nothing_pages [OF km])
      fix j :: nat
      assume j: "j < 8"
      have "\<forall>i' < 8. stack_page i - 8 + j \<notin> {stack_page i'..<stack_page i' + 8}"
      proof (intro allI impI)
        fix i' :: nat
        assume "i' < 8"
        then show "stack_page i - 8 + j \<notin> {stack_page i'..<stack_page i' + 8}" using i j by (cases "i' \<le> i") (auto simp: stack_page_def)
      qed
      moreover have "stack_page i - 8 + j < 0xF0000" "stack_page i - 8 + j \<notin> {0xEF000..<0xEF000 + ?n}" "stack_page i - 8 + j \<notin> {0xEEC00..<0xEEC20}"
        using B j U(2) by auto
      moreover have "(stack_page i - 8 + j) div 1024 \<noteq> 957" using st(2) [OF j] by simp
      ultimately show "(stack_page i - 8 + j) div 1024 \<noteq> 957 \<and> entry m kd (page2pa (stack_page i - 8 + j)) = 0" using M by blast
    qed (use B in simp)
    ultimately show ?thesis unfolding check_kstack_def base Let_def pk by simp
  qed
  have p5: "pde_expected i (pmem m kd i)" if i: "i < 1024" for i
  proof -
    have c: "PDX UVPT = 957" "PDX (KSTACKTOP - 1) = 959" "PDX UPAGES = 956" "PDX UENVS = 955" "PDX MMIOBASE = 958" "PDX KERNBASE = 960"
      by (simp_all add: PDX_div)
    have nz: "pmem m kd i AND 1 \<noteq> 0 \<and> pmem m kd i AND 2 \<noteq> 0" if h: "i \<noteq> 957" "pmem m kd i \<noteq> 0"
    proof -
      obtain t where "pmem m kd i = page2pa t OR 7" using kmapD(5) [OF km h(1) i h(2)] by blast
      then show ?thesis by (simp add: flag_and)
    qed
    have "i \<noteq> 957 \<Longrightarrow> pmem m kd i \<noteq> 0 \<longleftrightarrow> i \<in> {955, 956, 958, 959} \<or> 960 \<le> i" using M i by blast
    then show ?thesis using nz uv unfolding pde_expected_def c by (cases "i = 957") auto
  qed
  show ?thesis
    unfolding check_kern_pgdir_def pa [OF f(1)] pa [OF f(2)] roundup_envs U(1) mult.commute [of _ PGSIZE] unat_pages [OF np]
    using p1 p2 p3 p4 p5 by (simp add: list_all_iff page2pa_def push_bit_eq_mult del: upt_rec_numeral)
qed

section \<open>The kernel's data\<close>

text \<open>The pages that the kernel's data take: \<open>e\<close> is the first page after the kernel's image.\<close>

abbreviation (input) first_free :: "nat \<Rightarrow> nat \<Rightarrow> nat" where
  "first_free np e \<equiv> e + 1 + upages np + 32"

text \<open>The directory of \<^verbatim>\<open>entry.S\<close> lets the kernel write the first 4 megabytes.\<close>

lemma boot_writable_kva:
  assumes "a + n \<le> 0x400000"
  shows "boot_writable (kva a) n"
proof -
  have k: "PDX KERNBASE = 960" by (simp add: PDX_div)
  have "PDX (kva a + of_nat i) = 960" if i: "i < n" for i
  proof -
    have "kva a + of_nat i = 0xF0000000 + of_nat (a + i)" by (simp add: kva_def algebra_simps)
    moreover have "unat (0xF0000000 + of_nat (a + i) :: 32 word) = 0xF0000000 + (a + i)"
      using assms i by (simp add: unat_word_ariths unat_of_nat)
    ultimately have "unat (kva a + of_nat i) = 0xF0000000 + (a + i)" by metis
    then show ?thesis using assms i by (simp add: PDX_div)
  qed
  then show ?thesis by (simp add: boot_writable_def entry_pgdir_def k list_all_iff del: upt_rec_numeral)
qed

lemma kernel_data_spec:
  assumes np: "np \<le> 2 ^ 16" and kend: "ROUNDUP kend PGSIZE = kva (4096 * e)" and fits: "first_free np e < np" "first_free np e \<le> 1024"
  shows "kernel_data kend np k = Some (kva (4096 * (e + 1)), kva (4096 * (e + 1 + upages np)), kva (4096 * first_free np e),
    k\<lparr>kern_pgdir := e, pmem := (pmem k)(e := (\<lambda>_. 0)(957 := page2pa e OR PTE_U OR PTE_P)),
      pages := replicate np \<lparr>pp_link = None, pp_ref = 0\<rparr>, envs := replicate NENV blank_env\<rparr>)"
proof -
  have e1: "page_up (4096 * e + 4096) = 4096 * (e + 1)" using page_up_pages [of "e + 1"] by (simp add: algebra_simps)
  have e2: "page_up (4096 * (e + 1) + 8 * np) = 4096 * (e + 1 + upages np)"
    using page_up_dvd [of "4096 * (e + 1)" "8 * np"] by (simp add: page_up_def upages_def)
  have e3: "page_up (4096 * (e + 1 + upages np) + 131072) = 4096 * first_free np e"
    using page_up_pages [of "first_free np e"] by (simp add: algebra_simps)
  have a1: "boot_alloc kend np 0 PGSIZE = Some (kva (4096 * e), kva (4096 * (e + 1)))"
    using boot_alloc_kva [OF np, of "4096 * e" 4096 0 kend] kend fits unfolding e1 by simp
  have a2: "boot_alloc kend np (kva (4096 * (e + 1))) (pages_size np) = Some (kva (4096 * (e + 1)), kva (4096 * (e + 1 + upages np)))"
    using boot_alloc_kva [OF np, of "4096 * (e + 1)" "8 * np" "kva (4096 * (e + 1))" kend] fits unfolding e2 by (simp add: pages_size_def mult.commute)
  have a3: "boot_alloc kend np (kva (4096 * (e + 1 + upages np))) envs_size = Some (kva (4096 * (e + 1 + upages np)), kva (4096 * first_free np e))"
    using boot_alloc_kva [OF np, of "4096 * (e + 1 + upages np)" 131072 "kva (4096 * (e + 1 + upages np))" kend] fits unfolding e3 by (simp add: envs_size_def)
  have pa: "PADDR (kva (4096 * e)) = Some (page2pa e)" "PGNUM (page2pa e) = e"
    using PADDR_kva [of "4096 * e"] page2pa_of_nat [of e] PGNUM_page [of e] fits np by simp_all
  have uv: "PDX UVPT = 957" by (simp add: PDX_div)
  have s: "unat (pages_size np) = 8 * np" "unat envs_size = 131072" using np by (simp_all add: pages_size_def envs_size_def unat_word_ariths unat_of_nat)
  have u: "8 * np \<le> 4096 * upages np" by (simp add: upages_def)
  have "boot_writable (kva (4096 * e)) 4096" using fits(2) by (intro boot_writable_kva) simp
  moreover have "boot_writable (kva (4096 * (e + 1))) (8 * np)" using fits(2) u by (intro boot_writable_kva) simp
  moreover have "boot_writable (kva (4096 * (e + 1 + upages np))) 131072" using fits(2) by (intro boot_writable_kva) simp
  ultimately show ?thesis unfolding kernel_data_def a1 using a2 a3 pa by (simp add: uv zero_page_def put_word_def s)
qed

section \<open>Writes to free pages\<close>

lemma kmap_frame:
  assumes km: "kmap m kd xs" and inv: "boot_inv m' ys" and s: "set ys = set xs" and n: "npages m' = npages m"
    and mem: "\<forall>p. p \<notin> set xs \<longrightarrow> pmem m' p = pmem m p"
  shows "kmap m' kd ys" "u < 2 ^ 20 \<Longrightarrow> u div 1024 \<noteq> 957 \<Longrightarrow> entry m' kd (page2pa u) = entry m kd (page2pa u)" "pmem m' kd = pmem m kd"
proof -
  show d: "pmem m' kd = pmem m kd" using mem kmapD(3) [OF km] by blast
  show "kmap m' kd ys" using km inv unfolding kmap_def d n s by (elim conjE) (intro conjI)
  assume u: "u < 2 ^ 20" "u div 1024 \<noteq> 957"
  then have i: "u div 1024 < 1024" by (simp add: less_mult_imp_div_less)
  show "entry m' kd (page2pa u) = entry m kd (page2pa u)"
  proof (cases "pmem m kd (u div 1024) = 0")
    case False
    then have "PGNUM (pmem m kd (u div 1024)) \<notin> set xs" using kmapD(5) [OF km u(2) i] by auto
    then show ?thesis using u mem d by (simp add: entry_def page_number)
  qed (use u d in \<open>simp add: entry_def page_number\<close>)
qed

lemma kernel_mapped_frame:
  assumes "kernel_mapped m kd np fp fe fk" and p: "pmem m' kd = pmem m kd" and n: "upages np \<le> 128"
    and e: "\<And>u. u < 2 ^ 20 \<Longrightarrow> u div 1024 \<noteq> 957 \<Longrightarrow> entry m' kd (page2pa u) = entry m kd (page2pa u)"
  shows "kernel_mapped m' kd np fp fe fk"
proof -
  have "(0xEF000 + j) div 1024 = 956" if "j < upages np" for j using that n by (intro in_table) auto
  moreover have "(0xEEC00 + j) div 1024 = 955" if "j < 32" for j :: nat using that by (intro in_table) auto
  moreover have "960 \<le> (0xF0000 + j) div 1024" for j :: nat using div_le_mono [of "0xF0000" "0xF0000 + j" 1024] by simp
  moreover have "(stack_page i + j) div 1024 = 959 \<and> stack_page i + j < 2 ^ 20" if "i < 8" "j < 8" for i j
    using stack_bounds [OF that(1)] that(2) by (auto intro!: high_number)
  ultimately have "j < upages np \<Longrightarrow> entry m' kd (page2pa (0xEF000 + j)) = entry m kd (page2pa (0xEF000 + j))"
    "j < 32 \<Longrightarrow> entry m' kd (page2pa (0xEEC00 + j)) = entry m kd (page2pa (0xEEC00 + j))"
    "j < 0x10000 \<Longrightarrow> entry m' kd (page2pa (0xF0000 + j)) = entry m kd (page2pa (0xF0000 + j))"
    "i < 8 \<Longrightarrow> j < 8 \<Longrightarrow> entry m' kd (page2pa (stack_page i + j)) = entry m kd (page2pa (stack_page i + j))" for i j
    using n by (auto intro!: e)
  moreover have "u < 0xF0000 \<Longrightarrow> u div 1024 \<noteq> 957 \<Longrightarrow> entry m' kd (page2pa u) = entry m kd (page2pa u)" for u by (intro e) simp_all
  ultimately show ?thesis using assms(1) unfolding kernel_mapped_def p by simp
qed

text \<open>A list that has lost few pages still has some of a large set.\<close>

lemma some_left:
  assumes "distinct xs" "distinct ys" "set ys \<subseteq> set xs" "length xs \<le> length ys + k" "B \<subseteq> set xs" "k < card B"
  shows "\<exists>p \<in> set ys. p \<in> B"
proof (rule ccontr)
  assume "\<not> ?thesis"
  then have "set ys \<subseteq> set xs - B" using assms(3) by blast
  then have "card (set ys) \<le> card (set xs - B)" by (intro card_mono) simp_all
  also have "\<dots> = card (set xs) - card B" using assms(5) by (intro card_Diff_subset) (auto intro: finite_subset)
  finally have "card (set ys) \<le> card (set xs) - card B" .
  moreover have "card B \<le> card (set xs)" using assms(5) by (intro card_mono) simp_all
  ultimately show False using assms(1,2,4,6) by (simp add: distinct_card)
qed

section \<open>From the array of pages to the mappings\<close>

definition usable :: "nat \<Rightarrow> nat \<Rightarrow> nat set" where
  "usable np f = {p. p < np \<and> may_be_free f p}"

lemma usable_parts:
  assumes "256 < f" "f + 80 < np"
  shows "finite (usable np f)" "{8..<160} \<subseteq> usable np f" "{f..<np} \<subseteq> usable np f" "152 < card (usable np f)" "np + 152 \<le> f + card (usable np f)"
proof -
  show fin: "finite (usable np f)" by (simp add: usable_def)
  show sub: "{8..<160} \<subseteq> usable np f" "{f..<np} \<subseteq> usable np f" using assms by (auto simp: usable_def may_be_free_def)
  have "card ({8..<160} \<union> {f..<np}) \<le> card (usable np f)" using sub fin by (intro card_mono) auto
  then show "np + 152 \<le> f + card (usable np f)" using assms by (subst (asm) card_Un_disjoint) auto
  then show "152 < card (usable np f)" using assms by simp
qed

definition page_tests :: "32 word \<Rightarrow> nat \<Rightarrow> nat \<Rightarrow> 'a machine_scheme \<Rightarrow> (32 word \<times> 'a machine_scheme) option" where
  "page_tests kend e f m = do {
     m \<leftarrow> check_page_free_list kend (kva (4096 * f)) True (page_init (page2pa f) m);
     m \<leftarrow> check_page_alloc m;
     check_page e MMIOBASE m
   }"

lemma page_tests_ok:
  assumes np: "npages m \<le> 2 ^ 16" and f: "256 \<le> e" "e < f" "f + 80 < npages m"
    and m: "page_free_list m = None" "\<forall>p < npages m. pp_link (pages m ! p) = None \<and> pp_ref (pages m ! p) = 0"
    and kd: "\<forall>i. i \<noteq> 957 \<longrightarrow> pmem m e i = 0"
  shows "\<exists>m' ys. page_tests kend e f m = Some (MMIOBASE + 0x3000, m') \<and> kmap m' e ys \<and> set ys \<subseteq> usable (npages m) f \<and>
    card (usable (npages m) f) \<le> length ys + 2 \<and> npages m' = npages m \<and> machine.more m' = machine.more m \<and> pmem m' e 957 = pmem m e 957 \<and>
    (\<forall>i < 1024. i \<noteq> 957 \<longrightarrow> (pmem m' e i \<noteq> 0 \<longleftrightarrow> i = 958)) \<and>
    (\<forall>u < 2 ^ 20. u div 1024 \<noteq> 957 \<longrightarrow> entry m' e (page2pa u) = 0)"
proof -
  let ?P = "usable (npages m) f"
  have f': "256 < f" "f < npages m" using f by simp_all
  note Pp = usable_parts [OF f'(1) f(3)]
  have f20: "f < 2 ^ 20" using f(3) np by simp
  have n20: "npages m \<le> 2 ^ 20" using np by simp
  define xs where "xs = rev (filter (page_init_free (page2pa f)) [0..<npages m])"
  define m0 where "m0 = page_init (page2pa f) m"
  note I = page_init_inv [OF n20 m, of "page2pa f", folded xs_def m0_def]
  have sx: "set xs = ?P" using page_init_free_iff [OF f20] unfolding xs_def usable_def page2pa_of_nat by auto
  have eP: "e \<notin> ?P" using f by (auto simp: usable_def may_be_free_def)
  have ex: "\<exists>p \<in> set xs. p < 256" "\<exists>p \<in> set xs. 256 \<le> p"
  proof -
    have "8 \<in> set xs" "f \<in> set xs" unfolding sx using Pp(2,3) f' by auto
    then show "\<exists>p \<in> set xs. p < 256" "\<exists>p \<in> set xs. 256 \<le> p"
      using f'(1) by (intro bexI [of _ "8 :: nat"], simp_all) (intro bexI [of _ f], simp_all)
  qed
  obtain m1 ys where m1: "check_page_free_list kend (kva (4096 * f)) True m0 = Some m1" "boot_inv m1 ys" "set ys = set xs"
    "length ys = length xs" "npages m1 = npages m0" "machine.more m1 = machine.more m0" "\<forall>p. p \<notin> set xs \<longrightarrow> pmem m1 p = pmem m0 p"
    using check_page_free_list_spec [OF I(1), of f kend True] I(2) np f' ex sx by (auto simp: usable_def)
  have len: "length ys = card ?P" using m1(3) sx boot_invD(3) [OF m1(2)] by (metis distinct_card)
  then have "Suc (Suc (Suc 0)) \<le> length ys" using Pp(4) by simp
  then obtain a b c zs where ys: "ys = a # b # c # zs" by (auto simp: Suc_le_length_iff)
  obtain M where M: "check_page_alloc m1 = Some (m1\<lparr>pmem := M\<rparr>)" "boot_inv (m1\<lparr>pmem := M\<rparr>) (a # b # c # zs)" "\<forall>q. q \<noteq> c \<longrightarrow> M q = pmem m1 q"
    using check_page_alloc_inv [OF m1(2) [unfolded ys]] m1(5) I(2) np by auto
  let ?m2 = "m1\<lparr>pmem := M\<rparr>"
  have ne: "e \<notin> set (a # b # c # zs)" using eP sx m1(3) ys by simp
  have e2: "M e = pmem m e" using M(3) m1(7) I(3) eP sx ne by simp
  obtain m3 where m3: "check_page e MMIOBASE ?m2 = check_mmio e MMIOBASE m3" "boot_inv m3 (c # b # a # zs)" "npages m3 = npages ?m2"
    "machine.more m3 = machine.more ?m2" "\<forall>q. q \<noteq> a \<longrightarrow> pmem m3 q = pmem ?m2 q"
    using check_page_until_mmio [OF M(2) ne, of MMIOBASE] e2 kd by auto
  have e3: "pmem m3 e = pmem m e" using m3(5) e2 ne by simp
  have n3: "npages m3 = npages m" using m3(3) m1(5) I(2) by (simp add: npages_def)
  have "table_page e p" if "p \<in> ?P" for p using that f(2) by (auto simp: usable_def may_be_free_def table_page_def)
  moreover have "set (c # b # a # zs) = ?P" using m1(3) sx ys by auto
  ultimately have tp: "\<forall>p \<in> set (c # b # a # zs). table_page e p" by blast
  have km: "kmap m3 e (c # b # a # zs)"
    unfolding kmap_def using m3(2) n3 f ne e3 kd tp by auto
  have z3: "entry m3 e (page2pa u) = 0" if "u < 2 ^ 20" "u div 1024 \<noteq> 957" for u
    using that kd e3 by (simp add: entry_def page_number)
  have "\<forall>u \<in> {0xEF800..0xEF803}. entry m3 e (page2pa u) = 0"
  proof
    fix u :: nat
    assume "u \<in> {0xEF800..0xEF803}"
    then have "u < 2 ^ 20" "u div 1024 = 958" by (auto intro!: in_table)
    then show "entry m3 e (page2pa u) = 0" using z3 by simp
  qed
  then obtain m4 ws where m4: "check_mmio e MMIOBASE m3 = Some (MMIOBASE + 0x3000, m4)" "kmap m4 e ws" "set ws \<subseteq> set (c # b # a # zs)"
    "length (c # b # a # zs) \<le> length ws + 2" "npages m4 = npages m3" "machine.more m4 = machine.more m3" "pmem m4 e 958 \<noteq> 0"
    "\<forall>i. i \<noteq> 958 \<longrightarrow> pmem m4 e i = pmem m3 e i" "\<forall>u < 2 ^ 20. u div 1024 \<noteq> 957 \<longrightarrow> entry m4 e (page2pa u) = entry m3 e (page2pa u)"
    using check_mmio_spec [OF km] by auto
  have "page_tests kend e f m = Some (MMIOBASE + 0x3000, m4)"
    using m1(1) M(1) m3(1) m4(1) by (simp add: page_tests_def m0_def)
  moreover have "set ws \<subseteq> ?P" "card ?P \<le> length ws + 2" using m4(3,4) m1(3) sx ys len by auto
  moreover have "machine.more m4 = machine.more m" using m4(6) m3(4) m1(6) I(4) by simp
  moreover have "pmem m4 e 957 = pmem m e 957" "\<forall>i < 1024. i \<noteq> 957 \<longrightarrow> (pmem m4 e i \<noteq> 0 \<longleftrightarrow> i = 958)" using m4(7,8) e3 kd by auto
  ultimately show ?thesis using m4(2,5,9) n3 z3 by (intro exI [of _ m4] exI [of _ ws]) simp
qed

section \<open>The whole of mem\_init\<close>

lemma last_tests_ok:
  assumes km: "kmap m kd xs" and np: "npages m \<le> 2 ^ 16" and f: "256 < f" "f + 80 < npages m"
    and xs: "set xs \<subseteq> usable (npages m) f" "card (usable (npages m) f) \<le> length xs + 77" and z: "pmem m kd 0 = 0"
  shows "\<exists>m' m'' ys. check_page_free_list kend (kva (4096 * f)) False m = Some m' \<and> check_page_installed_pgdir kd m' = Some m'' \<and>
    kmap m'' kd ys \<and> length ys = length xs \<and> set ys = set xs \<and> npages m'' = npages m \<and> machine.more m'' = machine.more m \<and> pmem m'' kd = pmem m kd \<and>
    (\<forall>u < 2 ^ 20. u div 1024 \<noteq> 957 \<longrightarrow> entry m'' kd (page2pa u) = entry m kd (page2pa u))"
proof -
  let ?P = "usable (npages m) f"
  note Pp = usable_parts [OF f]
  note inv = kmapD(1) [OF km]
  obtain ps where ps: "set ps = ?P" "distinct ps" using finite_distinct_list [OF Pp(1)] by blast
  have lp: "length ps \<le> length xs + 77" using xs(2) ps distinct_card [of ps] by simp
  have "\<exists>p \<in> set xs. p \<in> {8..<160}" "\<exists>p \<in> set xs. p \<in> {f..<npages m}"
    using some_left [OF ps(2) boot_invD(3) [OF inv] _ lp, of "{8..<160}"] some_left [OF ps(2) boot_invD(3) [OF inv] _ lp, of "{f..<npages m}"]
      ps(1) xs(1) Pp f by auto
  then obtain p p' where "p \<in> set xs" "p < 160" "p' \<in> set xs" "f \<le> p'" by auto
  then have "p \<in> set xs" "p < 256" "p' \<in> set xs" "256 \<le> p'" using f(1) by simp_all
  then have "\<exists>p \<in> set xs. p < 256" "\<exists>p \<in> set xs. 256 \<le> p" by blast+
  then obtain m1 ys where m1: "check_page_free_list kend (kva (4096 * f)) False m = Some m1" "boot_inv m1 ys" "set ys = set xs" "length ys = length xs"
    "npages m1 = npages m" "machine.more m1 = machine.more m" "\<forall>p. p \<notin> set xs \<longrightarrow> pmem m1 p = pmem m p"
    using check_page_free_list_spec [OF inv np f(1), of kend False] f(2) xs(1) by (auto simp: usable_def)
  note K1 = kmap_frame [OF km m1(2,3,5,7)]
  have "Suc (Suc (Suc 0)) \<le> length ys" using Pp(4) xs(2) m1(4) by simp
  then obtain a b c zs where ys: "ys = a # b # c # zs" by (auto simp: Suc_le_length_iff)
  have kn: "kd \<notin> set (a # b # c # zs)" using kmapD(3) [OF km] m1(3) ys by simp
  obtain m2 where m2: "check_page_installed_pgdir kd m1 = Some m2" "boot_inv m2 (a # c # b # zs)" "npages m2 = npages m1"
    "machine.more m2 = machine.more m1" "\<forall>q. q \<notin> {a, b, c} \<longrightarrow> pmem m2 q = pmem m1 q"
    using check_installed_inv [OF m1(2) [unfolded ys] kn] z K1(3) by auto
  have "set (a # c # b # zs) = set ys" "\<forall>p. p \<notin> set ys \<longrightarrow> pmem m2 p = pmem m1 p" using ys m2(5) by auto
  note K2 = kmap_frame [OF K1(1) m2(2) this(1) m2(3) this(2)]
  have "set (a # c # b # zs) = set xs" using m1(3) ys by auto
  then show ?thesis using m1(1,4-6) m2(1,3,4) K1 K2 ys by (intro exI [of _ m1] exI [of _ m2] exI [of _ "a # c # b # zs"]) simp
qed

lemma mem_init_spec:
  assumes np: "np = unat (fst (i386_detect_memory cmos))" "np \<le> 2 ^ 16" and kend: "ROUNDUP kend PGSIZE = kva (4096 * e)" "256 \<le> e"
    and fits: "first_free np e + 80 < np" "first_free np e \<le> 1024" and fk: "fk + 64 \<le> 2 ^ 16" and fl: "page_free_list k = None"
  shows "\<exists>k' ys. mem_init cmos kend (kva (4096 * fk)) k = Some (MMIOBASE + 0x3000, k') \<and> kmap k' e ys \<and> np \<le> length ys + first_free np e \<and> set ys \<subseteq> usable np (first_free np e) \<and> npages k' = np \<and>
    kernel_mapped k' e np (e + 1) (e + 1 + upages np) fk \<and> pmem k' e 957 = page2pa e OR PTE_U OR PTE_P \<and>
    machine.more k' = machine.more (k\<lparr>kern_pgdir := e, envs := replicate NENV blank_env\<rparr>)"
proof -
  let ?f = "first_free np e"
  let ?k = "k\<lparr>kern_pgdir := e, pmem := (pmem k)(e := (\<lambda>_. 0)(957 := page2pa e OR PTE_U OR PTE_P)),
      pages := replicate np \<lparr>pp_link = None, pp_ref = 0\<rparr>, envs := replicate NENV blank_env\<rparr>"
  have kd: "kernel_data kend np k = Some (kva (4096 * (e + 1)), kva (4096 * (e + 1 + upages np)), kva (4096 * ?f), ?k)"
    using kernel_data_spec [OF np(2) kend(1)] fits by simp
  have n: "npages ?k = np" by (simp add: npages_def)
  have al: "boot_alloc kend np (kva (4096 * ?f)) 0 = Some (kva (4096 * ?f), kva (4096 * ?f))"
    using boot_alloc_kva [OF np(2), of "4096 * ?f" 0 "kva (4096 * ?f)" kend] fits page_up_pages [of ?f] by simp
  have pf: "PADDR (kva (4096 * ?f)) = Some (page2pa ?f)" using PADDR_kva [of "4096 * ?f"] page2pa_of_nat [of ?f] fits np(2) by simp
  obtain m1 xs where m1: "page_tests kend e ?f ?k = Some (MMIOBASE + 0x3000, m1)" "kmap m1 e xs" "set xs \<subseteq> usable np ?f"
    "card (usable np ?f) \<le> length xs + 2" "npages m1 = np" "machine.more m1 = machine.more ?k" "pmem m1 e 957 = pmem ?k e 957"
    "\<forall>i < 1024. i \<noteq> 957 \<longrightarrow> (pmem m1 e i \<noteq> 0 \<longleftrightarrow> i = 958)" "\<forall>u < 2 ^ 20. u div 1024 \<noteq> 957 \<longrightarrow> entry m1 e (page2pa u) = 0"
    using page_tests_ok [of ?k e ?f kend] np(2) kend(2) fits fl unfolding n by (auto simp: npages_def)
  obtain k1 k2 where pt: "check_page_free_list kend (kva (4096 * ?f)) True (page_init (page2pa ?f) ?k) = Some k1" "check_page_alloc k1 = Some k2"
    "check_page e MMIOBASE k2 = Some (MMIOBASE + 0x3000, m1)"
    using m1(1) by (auto simp: page_tests_def bind_eq_Some_conv)
  have len: "75 \<le> length xs" using m1(4) usable_parts(4) [of ?f np] fits kend(2) by simp
  have fs: "e + 1 < 2 ^ 16" "e + 1 + upages np < 2 ^ 16" using fits np(2) by simp_all
  obtain m2 ys where m2: "kernel_maps (kva (4096 * (e + 1))) (kva (4096 * (e + 1 + upages np))) (kva (4096 * fk)) e m1 = Some m2" "kmap m2 e ys"
    "set ys \<subseteq> set xs" "length xs \<le> length ys + 75" "npages m2 = npages m1" "machine.more m2 = machine.more m1" "pmem m2 e 957 = pmem m1 e 957"
    "kernel_mapped m2 e np (e + 1) (e + 1 + upages np) fk"
    using kernel_maps_spec [OF m1(2) _ len fs fk m1(9,8)] np(2) m1(5) by auto
  have p957: "pmem m2 e 957 = page2pa e OR 5" using m2(7) m1(7) by simp
  have ck: "check_kern_pgdir e (kva (4096 * (e + 1))) (kva (4096 * (e + 1 + upages np))) (kva (4096 * fk)) m2 = Some ()"
    using check_kern_pgdir_ok [OF m2(2) _ _ fs fk] m2(5,8) m1(5) np(2) p957 by (simp add: flag_and)
  have z: "pmem m2 e 0 = 0" using m2(8) unfolding kernel_mapped_def by fastforce
  obtain m3 m4 zs where m4: "check_page_free_list kend (kva (4096 * ?f)) False m2 = Some m3" "check_page_installed_pgdir e m3 = Some m4" "kmap m4 e zs"
    "npages m4 = npages m2" "machine.more m4 = machine.more m2" "pmem m4 e = pmem m2 e"
    "\<forall>u < 2 ^ 20. u div 1024 \<noteq> 957 \<longrightarrow> entry m4 e (page2pa u) = entry m2 e (page2pa u)"
    "length zs = length ys" "set zs = set ys"
    using last_tests_ok [OF m2(2), of ?f kend] m2(4,5) m1(4,5) order_trans [OF m2(3) m1(3)] z np(2) fits kend(2) by auto
  have "kernel_mapped m4 e np (e + 1) (e + 1 + upages np) fk"
    by (rule kernel_mapped_frame [OF m2(8) m4(6) roundup_pages(2) [OF np(2)]]) (use m4(7) in simp)
  moreover have "mem_init cmos kend (kva (4096 * fk)) k = Some (MMIOBASE + 0x3000, m4)"
    unfolding mem_init_def np(1) [symmetric] using kd al pf pt m2(1) ck m4(1,2) by simp
  moreover have "machine.more m4 = machine.more (k\<lparr>kern_pgdir := e, envs := replicate NENV blank_env\<rparr>)"
    using m4(5) m2(6) m1(6) by (cases k) simp
  moreover have "set zs \<subseteq> usable np ?f" using m4(9) m2(3) m1(3) by blast
  moreover have "np \<le> length zs + ?f" using m4(8) m2(4) m1(4) usable_parts(5) [of ?f np] fits kend(2) by simp
  ultimately show ?thesis using m4(3,4,6) m2(5) m1(5) p957 by (intro exI [of _ m4] exI [of _ zs]) simp
qed

section \<open>The table of environments\<close>

text \<open>After \<^verbatim>\<open>env_init\<close> all environments are free, in the order of the table.\<close>

definition blank_table :: "environment list" where
  "blank_table = map (\<lambda>i. blank_env\<lparr>env_link := (if i = NENV - 1 then None else Some (Suc i))\<rparr>) [0..<NENV]"

lemma blank_table_nth:
  "i < NENV \<Longrightarrow> blank_table ! i = blank_env\<lparr>env_link := (if i = NENV - 1 then None else Some (Suc i))\<rparr>" "length blank_table = NENV"
  by (simp_all add: blank_table_def del: upt_rec_numeral)

lemma env_init_table: "envs k = replicate NENV blank_env \<Longrightarrow> env_init k = k\<lparr>envs := blank_table, env_free_list := Some 0\<rparr>"
  by (simp add: env_init_def blank_table_def blank_env_def del: upt_rec_numeral cong: map_cong)

lemma blank_table_inv:
  assumes tab: "envs k = blank_table" "env_free_list k = Some 0" and inv: "boot_inv k xs" and kd: "kern_pgdir k \<notin> set xs"
    "\<forall>i < 955. pmem k (kern_pgdir k) i = 0" and cpu: "cpu_env k = (\<lambda>_. None)"
  shows "kern_inv cpu (- set xs) k" "dirs k = {}"
proof -
  note e = blank_table_nth [folded tab(1)]
  have free: "env_status (envs k ! i) = ENV_FREE" if "i < NENV" for i using e(1) [OF that] by (simp add: blank_env_def)
  have "chain (env_next k) (Some 0) [0..<NENV]" by (rule chain_upt) (use e in \<open>auto simp: env_next_def\<close>)
  then have "el.free_listed k [0..<NENV]" using e(2) tab(2) by (simp add: el.free_listed_def listed_def del: upt_rec_numeral)
  then have "envs_inv k [0..<NENV]"
    unfolding envs_inv_def used_def using e free by (auto simp: blank_env_def simp del: upt_rec_numeral)
  moreover show d: "dirs k = {}" using free by (auto simp: dirs_def used_def)
  ultimately show "kern_inv cpu (- set xs) k" using inv kd cpu unfolding kern_inv_def boot_inv_def by auto
qed

section \<open>Machines with enough memory\<close>

text \<open>
  The first page after the image of the kernel, and what the start needs: an image above the first megabyte, between 1 and 256
  megabytes of memory with room for the kernel's data and its page tables after the image, data that end within the 4 megabytes
  of the directory of \<^verbatim>\<open>entry.S\<close>, and the stacks of the processors on
  page boundaries in the window at \<^verbatim>\<open>KERNBASE\<close>.
\<close>

definition kernel_end :: "32 word \<Rightarrow> nat" where
  "kernel_end kend = (unat (kend - KERNBASE) + 4095) div 4096"

definition enough_memory :: "(nat \<Rightarrow> 8 word) \<Rightarrow> 32 word \<Rightarrow> 32 word \<Rightarrow> bool" where
  "enough_memory cmos kend kstacks \<longleftrightarrow>
     (let np = unat (fst (i386_detect_memory cmos)) in
      KERNBASE + EXTPHYSMEM \<le> kend \<and> np \<le> 0x10000 \<and> first_free np (kernel_end kend) + 80 < np \<and>
      first_free np (kernel_end kend) \<le> 1024 \<and>
      KERNBASE \<le> kstacks \<and> unat kstacks mod 4096 = 0 \<and> unat (kstacks - KERNBASE) div 4096 + 64 \<le> 0x10000)"

lemma kernel_end_page:
  assumes "KERNBASE + EXTPHYSMEM \<le> kend" "kernel_end kend < 2 ^ 16"
  shows "ROUNDUP kend PGSIZE = kva (4096 * kernel_end kend)" "256 \<le> kernel_end kend"
proof -
  have "KERNBASE \<le> kend" using assms(1) by (simp add: word_le_nat_alt)
  then have k: "kend = kva (unat (kend - KERNBASE))" by (rule kva_of)
  have p: "page_up (unat (kend - KERNBASE)) = 4096 * kernel_end kend" by (simp add: page_up_def kernel_end_def)
  then show "ROUNDUP kend PGSIZE = kva (4096 * kernel_end kend)"
    using ROUNDUP_kva [of "unat (kend - KERNBASE)"] assms(2) k by simp
  have "0x100000 \<le> unat (kend - KERNBASE)" using assms(1) unat_sub [OF \<open>KERNBASE \<le> kend\<close>] by (simp add: word_le_nat_alt)
  then show "256 \<le> kernel_end kend" by (simp add: kernel_end_def)
qed

lemma kstacks_page:
  assumes "KERNBASE \<le> kstacks" "unat kstacks mod 4096 = 0"
  shows "kstacks = kva (4096 * (unat (kstacks - KERNBASE) div 4096))"
proof -
  have "unat (kstacks - KERNBASE) mod 4096 = 0"
    using assms(2) unat_sub [OF assms(1)] assms(1) by (auto simp: word_le_nat_alt elim!: dvdE simp: mod_eq_0_iff_dvd)
  then have "4096 * (unat (kstacks - KERNBASE) div 4096) = unat (kstacks - KERNBASE)" by (simp add: mod_eq_0_iff_dvd)
  then show ?thesis using kva_of [OF assms(1)] by simp
qed

lemma mem_init_enough:
  assumes "enough_memory cmos kend kstacks" "page_free_list k = None"
  shows "\<exists>k' ys. mem_init cmos kend kstacks k = Some (MMIOBASE + 0x3000, k') \<and> kmap k' (kernel_end kend) ys \<and>
    npages k' \<le> length ys + first_free (npages k') (kernel_end kend) \<and>
    set ys \<subseteq> usable (npages k') (first_free (npages k') (kernel_end kend)) \<and> npages k' = unat (fst (i386_detect_memory cmos)) \<and>
    kernel_mapped k' (kernel_end kend) (npages k') (kernel_end kend + 1) (kernel_end kend + 1 + upages (npages k'))
      (unat (kstacks - KERNBASE) div 4096) \<and>
    pmem k' (kernel_end kend) 957 = page2pa (kernel_end kend) OR PTE_U OR PTE_P \<and>
    machine.more k' = machine.more (k\<lparr>kern_pgdir := kernel_end kend, envs := replicate NENV blank_env\<rparr>)"
proof -
  let ?np = "unat (fst (i386_detect_memory cmos))" and ?fk = "unat (kstacks - KERNBASE) div 4096"
  have e: "KERNBASE + EXTPHYSMEM \<le> kend" "?np \<le> 2 ^ 16" "first_free ?np (kernel_end kend) + 80 < ?np"
    "first_free ?np (kernel_end kend) \<le> 1024" "KERNBASE \<le> kstacks" "unat kstacks mod 4096 = 0" "?fk + 64 \<le> 2 ^ 16"
    using assms(1) by (auto simp: enough_memory_def Let_def)
  show ?thesis
    using mem_init_spec [OF refl e(2) kernel_end_page [OF e(1)] e(3,4) e(7) assms(2)] e(2,3) kstacks_page [OF e(5,6)] by auto
qed

end
