(* ===== verification/Lib_User.thy ===== *)
theory Lib_User
  imports Kern_Trap
begin

unbundle bit_operations_syntax

text \<open>
  The C library of the programs: the stubs of \<^verbatim>\<open>src/TP Sched/lib/syscall.c\<close> and, on top of them, \<^verbatim>\<open>lib/fork.c\<close>, \<^verbatim>\<open>lib/pgfault.c\<close>,
  \<^verbatim>\<open>lib/ipc.c\<close>, \<^verbatim>\<open>lib/exit.c\<close> and \<^verbatim>\<open>lib/libmain.c\<close>.

  A stub enters the kernel through \<^verbatim>\<open>trap\<close> with its arguments in the registers of the frame, and comes back with what the
  kernel left in the register \<^verbatim>\<open>eax\<close> of the saved frame. Library code runs without being interrupted between two of its
  system calls. \<^term>\<open>None\<close> is a panic of the kernel.
\<close>

section \<open>Code of a program\<close>

text \<open>A value; a panic of the program; a page fault of its own; or the processor has been given away (or is idle).\<close>

datatype 'a user = Val 'a | User_Panic | User_Fault | Away outcome

text \<open>
  The processor, the frame that the hardware builds on a trap (apart from the argument registers), what \<^verbatim>\<open>sys_cgetc\<close> would
  read, and the variable \<^verbatim>\<open>thisenv\<close>.
\<close>

record uctx =
  u_policy :: policy
  u_cpu :: nat
  u_getc :: int
  u_frame :: trapframe
  thisenv :: nat

type_synonym 'a code = "kernel \<Rightarrow> ('a user \<times> kernel) option"

definition ret :: "'a \<Rightarrow> 'a code" where
  "ret x k = Some (Val x, k)"

definition upanic :: "'a code" where
  "upanic k = Some (User_Panic, k)"

definition andthen :: "'a code \<Rightarrow> ('a \<Rightarrow> 'b code) \<Rightarrow> 'b code" where
  "andthen m f k = (case m k of
     None \<Rightarrow> None
   | Some (Val x, k) \<Rightarrow> f x k
   | Some (User_Panic, k) \<Rightarrow> Some (User_Panic, k)
   | Some (User_Fault, k) \<Rightarrow> Some (User_Fault, k)
   | Some (Away out, k) \<Rightarrow> Some (Away out, k))"

text \<open>\<^verbatim>\<open>if ((r = call) < 0) panic(...)\<close>, and the rest with the value.\<close>

definition demand :: "int code \<Rightarrow> (int \<Rightarrow> 'a code) \<Rightarrow> 'a code" where
  "demand m f = andthen m (\<lambda>r. if r < 0 then upanic else f r)"

section \<open>System calls\<close>

definition syscall_frame :: "trapframe \<Rightarrow> 32 word \<Rightarrow> 32 word \<Rightarrow> 32 word \<Rightarrow> 32 word \<Rightarrow> 32 word \<Rightarrow> 32 word \<Rightarrow> trapframe" where
  "syscall_frame tf num a1 a2 a3 a4 a5 = tf\<lparr>tf_trapno := T_SYSCALL,
     tf_regs := (tf_regs tf)\<lparr>reg_eax := num, reg_edx := a1, reg_ecx := a2, reg_ebx := a3, reg_edi := a4, reg_esi := a5\<rparr>\<rparr>"

definition trap_call :: "uctx \<Rightarrow> trapframe \<Rightarrow> bool \<Rightarrow> int code" where
  "trap_call u tf check k = do {
     c \<leftarrow> cpu_env k (u_cpu u);
     (out, k) \<leftarrow> trap (u_policy u) (u_cpu u) (u_getc u) 0 tf k;
     if out = Run c
     then let r = sint (reg_eax (tf_regs (env_tf (envs k ! c)))) in
          Some (if check \<and> r > 0 then User_Panic else Val r, k)
     else Some (Away out, k)
   }"

definition user_syscall :: "uctx \<Rightarrow> 32 word \<Rightarrow> bool \<Rightarrow> 32 word \<Rightarrow> 32 word \<Rightarrow> 32 word \<Rightarrow> 32 word \<Rightarrow> 32 word \<Rightarrow> int code" where
  "user_syscall u num check a1 a2 a3 a4 a5 = trap_call u (syscall_frame (u_frame u) num a1 a2 a3 a4 a5) check"

definition lib_cputs :: "uctx \<Rightarrow> 32 word \<Rightarrow> 32 word \<Rightarrow> int code" where
  "lib_cputs u s len = user_syscall u 0 False s len 0 0 0"

definition lib_cgetc :: "uctx \<Rightarrow> int code" where
  "lib_cgetc u = user_syscall u 1 False 0 0 0 0 0"

definition lib_getenvid :: "uctx \<Rightarrow> int code" where
  "lib_getenvid u = user_syscall u 2 False 0 0 0 0 0"

definition lib_getpriority :: "uctx \<Rightarrow> 32 word \<Rightarrow> int code" where
  "lib_getpriority u envid = user_syscall u 3 False envid 0 0 0 0"

definition lib_env_destroy :: "uctx \<Rightarrow> 32 word \<Rightarrow> int code" where
  "lib_env_destroy u envid = user_syscall u 4 True envid 0 0 0 0"

definition lib_page_alloc :: "uctx \<Rightarrow> 32 word \<Rightarrow> 32 word \<Rightarrow> 32 word \<Rightarrow> int code" where
  "lib_page_alloc u envid va perm = user_syscall u 5 True envid va perm 0 0"

definition lib_page_map :: "uctx \<Rightarrow> 32 word \<Rightarrow> 32 word \<Rightarrow> 32 word \<Rightarrow> 32 word \<Rightarrow> 32 word \<Rightarrow> int code" where
  "lib_page_map u srcenv srcva dstenv dstva perm = user_syscall u 6 True srcenv srcva dstenv dstva perm"

definition lib_page_unmap :: "uctx \<Rightarrow> 32 word \<Rightarrow> 32 word \<Rightarrow> int code" where
  "lib_page_unmap u envid va = user_syscall u 7 True envid va 0 0 0"

text \<open>\<^verbatim>\<open>sys_exofork\<close> is inlined and sets no register but \<^verbatim>\<open>eax\<close>.\<close>

definition exofork_frame :: "trapframe \<Rightarrow> trapframe" where
  "exofork_frame tf = tf\<lparr>tf_trapno := T_SYSCALL, tf_regs := (tf_regs tf)\<lparr>reg_eax := 8\<rparr>\<rparr>"

definition lib_exofork :: "uctx \<Rightarrow> int code" where
  "lib_exofork u = trap_call u (exofork_frame (u_frame u)) False"

definition lib_env_set_status :: "uctx \<Rightarrow> 32 word \<Rightarrow> 32 word \<Rightarrow> int code" where
  "lib_env_set_status u envid status = user_syscall u 9 True envid status 0 0 0"

definition lib_env_set_pgfault_upcall :: "uctx \<Rightarrow> 32 word \<Rightarrow> 32 word \<Rightarrow> int code" where
  "lib_env_set_pgfault_upcall u envid upcall = user_syscall u 10 True envid upcall 0 0 0"

definition lib_yield :: "uctx \<Rightarrow> int code" where
  "lib_yield u = user_syscall u 11 False 0 0 0 0 0"

definition lib_ipc_try_send :: "uctx \<Rightarrow> 32 word \<Rightarrow> 32 word \<Rightarrow> 32 word \<Rightarrow> 32 word \<Rightarrow> int code" where
  "lib_ipc_try_send u envid val srcva perm = user_syscall u 12 False envid val srcva perm 0"

definition lib_ipc_recv :: "uctx \<Rightarrow> 32 word \<Rightarrow> int code" where
  "lib_ipc_recv u dstva = user_syscall u 13 True dstva 0 0 0 0"

definition lib_setpriority :: "uctx \<Rightarrow> 32 word \<Rightarrow> 32 word \<Rightarrow> int code" where
  "lib_setpriority u envid prio = user_syscall u 14 True envid prio 0 0 0"

definition lib_exit :: "uctx \<Rightarrow> int code" where
  "lib_exit u = lib_env_destroy u 0"

text \<open>\<^verbatim>\<open>libmain\<close> up to the call of \<^verbatim>\<open>umain\<close>, which is the argument.\<close>

definition libmain :: "(uctx \<Rightarrow> unit code) \<Rightarrow> uctx \<Rightarrow> int code" where
  "libmain umain u = andthen (lib_getenvid u) (\<lambda>i.
     let u = (if i \<ge> 0 then u\<lparr>thisenv := ENVX (word_of_int i)\<rparr> else u) in
     andthen (umain u) (\<lambda>_. lib_exit u))"

section \<open>The memory that a program sees\<close>

abbreviation (input) PTE_PWT :: "32 word" where "PTE_PWT \<equiv> 0x008"
abbreviation (input) PTE_PCD :: "32 word" where "PTE_PCD \<equiv> 0x010"
abbreviation (input) PTE_COW :: "32 word" where "PTE_COW \<equiv> 0x800"
abbreviation (input) UTEMP :: "32 word" where "UTEMP \<equiv> 0x400000"
abbreviation (input) PFTEMP :: "32 word" where "PFTEMP \<equiv> 0x7FF000"

definition own_dir :: "uctx \<Rightarrow> kernel \<Rightarrow> nat option" where
  "own_dir u k = do { c \<leftarrow> cpu_env k (u_cpu u); env_pgdir (envs k ! c) }"

text \<open>The page directory and tables through the recursive entry of the directory, read-only; a missing table faults.\<close>

definition uvpd :: "uctx \<Rightarrow> nat \<Rightarrow> 32 word code" where
  "uvpd u i k = do { d \<leftarrow> own_dir u k; Some (Val (pmem k d i), k) }"

definition uvpt :: "uctx \<Rightarrow> nat \<Rightarrow> 32 word code" where
  "uvpt u pn k = do {
     d \<leftarrow> own_dir u k;
     let pde = pmem k d (pn div 1024);
     Some (if pde AND PTE_P \<noteq> 0 \<and> pde AND PTE_U \<noteq> 0 then Val (pmem k (PGNUM pde) (pn mod 1024)) else User_Fault, k)
   }"

definition user_may :: "nat \<Rightarrow> 32 word \<Rightarrow> 32 word \<Rightarrow> kernel \<Rightarrow> bool" where
  "user_may d va bits k = (case user_entry_of d va k of None \<Rightarrow> False | Some pte \<Rightarrow> pte AND PTE_U \<noteq> 0 \<and> pte AND bits = bits)"

text \<open>\<^verbatim>\<open>memmove\<close> of a whole page; both addresses are those of pages.\<close>

definition copy_page :: "uctx \<Rightarrow> 32 word \<Rightarrow> 32 word \<Rightarrow> unit code" where
  "copy_page u dst src k = do {
     d \<leftarrow> own_dir u k;
     if user_may d src 0 k \<and> user_may d dst PTE_W k
     then do {
       bs \<leftarrow> load_bytes d src 4096 k;
       k \<leftarrow> store_bytes d dst bs k;
       Some (Val (), k)
     }
     else Some (User_Fault, k)
   }"

section \<open>Page faults\<close>

text \<open>\<open>handler\<close> is the variable \<^verbatim>\<open>_pgfault_handler\<close>; the value is its new contents. \<open>entry_point\<close> is the address of \<^verbatim>\<open>_pgfault_upcall\<close>.\<close>

definition set_pgfault_handler :: "uctx \<Rightarrow> 32 word \<Rightarrow> 32 word \<Rightarrow> 32 word \<Rightarrow> 32 word code" where
  "set_pgfault_handler u entry_point handler new =
     (if handler = 0
      then andthen (lib_page_alloc u 0 (UXSTACKTOP - PGSIZE) (PTE_U OR PTE_P OR PTE_W)) (\<lambda>r.
             if r < 0 then ret handler
             else andthen (lib_env_set_pgfault_upcall u 0 entry_point) (\<lambda>r.
               if r < 0 then ret handler else ret new))
      else ret new)"

text \<open>\<^verbatim>\<open>!x\<close> is 0 or 1, so it has no bit in common with \<^verbatim>\<open>FEC_WR\<close>.\<close>

definition not_bit :: "32 word \<Rightarrow> 32 word" where
  "not_bit w = (if w = 0 then 1 else 0)"

definition pgfault :: "uctx \<Rightarrow> 32 word \<Rightarrow> 32 word \<Rightarrow> unit code" where
  "pgfault u fault_va err =
     andthen (uvpt u (PGNUM fault_va)) (\<lambda>fault_pte.
       if (err AND 2) AND not_bit (fault_pte AND PTE_COW) \<noteq> 0 then upanic
       else
         let perm = PTE_P OR PTE_U OR PTE_W; addr = ROUNDDOWN fault_va PGSIZE in
         demand (lib_page_alloc u 0 PFTEMP perm) (\<lambda>_.
         andthen (copy_page u PFTEMP addr) (\<lambda>_.
         demand (lib_page_map u 0 PFTEMP 0 addr perm) (\<lambda>_.
         demand (lib_page_unmap u 0 PFTEMP) (\<lambda>_. ret ())))))"

section \<open>Fork\<close>

definition duppage :: "uctx \<Rightarrow> 32 word \<Rightarrow> nat \<Rightarrow> int code" where
  "duppage u envid pn =
     andthen (uvpt u pn) (\<lambda>pte.
       if pte AND PTE_P = 0 \<or> pte AND PTE_U = 0 then upanic
       else
         let addr = page2pa pn;
             perm = (if pte AND (PTE_PCD OR PTE_PWT) \<noteq> 0 then PTE_U OR PTE_P OR PTE_PCD OR PTE_PWT else PTE_U OR PTE_P) in
         if pte AND PTE_W \<noteq> 0 \<or> pte AND PTE_COW \<noteq> 0
         then demand (lib_page_map u 0 addr envid addr (perm OR PTE_COW)) (\<lambda>_.
              demand (lib_page_map u 0 addr 0 addr (perm OR PTE_COW)) (\<lambda>_. ret 0))
         else demand (lib_page_map u 0 addr envid addr perm) (\<lambda>_. ret 0))"

text \<open>The pages from \<^verbatim>\<open>pnum\<close> on, in order.\<close>

fun fork_pages :: "uctx \<Rightarrow> 32 word \<Rightarrow> nat list \<Rightarrow> unit code" where
  "fork_pages u envid [] = ret ()"
| "fork_pages u envid (pnum # ps) =
     (if pnum = PGNUM UXSTACKTOP - 1 then fork_pages u envid ps
      else andthen (uvpd u (pnum div 1024)) (\<lambda>pde.
        if pde AND PTE_P = 0 \<or> pde AND PTE_U = 0 then fork_pages u envid ps
        else andthen (uvpt u pnum) (\<lambda>pte.
          if pte AND PTE_P = 0 \<or> pte AND PTE_U = 0 then fork_pages u envid ps
          else andthen (duppage u envid pnum) (\<lambda>_. fork_pages u envid ps))))"

text \<open>
  \<^verbatim>\<open>fork\<close> in the parent. The value is the identifier returned and the new \<^verbatim>\<open>_pgfault_handler\<close>. \<open>handler_pgfault\<close> is the address of
  \<^verbatim>\<open>pgfault\<close>. The branch for the child is taken when the call returns 0.
\<close>

definition fork :: "uctx \<Rightarrow> 32 word \<Rightarrow> 32 word \<Rightarrow> 32 word \<Rightarrow> (int \<times> 32 word \<times> nat) code" where
  "fork u entry_point handler handler_pgfault =
     andthen (set_pgfault_handler u entry_point handler handler_pgfault) (\<lambda>h.
     demand (lib_exofork u) (\<lambda>envid.
       if envid = 0
       then andthen (lib_getenvid u) (\<lambda>i. ret (0, h, ENVX (word_of_int i)))
       else
         let child = word_of_int envid in
         andthen (fork_pages u child [0..<PGNUM UTOP]) (\<lambda>_.
         demand (lib_page_alloc u child (UXSTACKTOP - PGSIZE) (PTE_U OR PTE_P OR PTE_W)) (\<lambda>_.
         demand (\<lambda>k. lib_env_set_pgfault_upcall u child (env_pgfault_upcall (envs k ! thisenv u)) k) (\<lambda>_.
         demand (lib_env_set_status u child 2) (\<lambda>_. ret (envid, h, thisenv u)))))))"

definition dup_or_share :: "uctx \<Rightarrow> 32 word \<Rightarrow> nat \<Rightarrow> 32 word \<Rightarrow> unit code" where
  "dup_or_share u envid pnum perm =
     andthen (uvpt u pnum) (\<lambda>pte.
       if pte AND PTE_P = 0 then ret ()
       else
         let addr = page2pa pnum;
             perm = (perm AND (pte AND PTE_W)) AND 0xE07;
             perm = (if pte AND (PTE_PCD OR PTE_PWT) \<noteq> 0 then perm OR PTE_PCD OR PTE_PWT else perm) in
         if pte AND PTE_W = 0 \<or> pte AND (PTE_PCD OR PTE_PWT) \<noteq> 0
         then demand (lib_page_map u 0 addr envid addr perm) (\<lambda>_. ret ())
         else demand (lib_page_alloc u envid addr perm) (\<lambda>_.
              demand (lib_page_map u envid addr 0 UTEMP perm) (\<lambda>_.
              andthen (copy_page u UTEMP addr) (\<lambda>_.
              demand (lib_page_unmap u 0 UTEMP) (\<lambda>_. ret ())))))"

fun fork_v0_pages :: "uctx \<Rightarrow> 32 word \<Rightarrow> nat list \<Rightarrow> unit code" where
  "fork_v0_pages u envid [] = ret ()"
| "fork_v0_pages u envid (pnum # ps) =
     andthen (uvpd u (pnum div 1024)) (\<lambda>pde.
       if pde AND PTE_P = 0 \<or> pde AND PTE_U = 0 then fork_v0_pages u envid ps
       else andthen (dup_or_share u envid pnum (PTE_P OR PTE_U OR PTE_W)) (\<lambda>_. fork_v0_pages u envid ps))"

definition fork_v0 :: "uctx \<Rightarrow> (int \<times> nat) code" where
  "fork_v0 u =
     demand (lib_exofork u) (\<lambda>envid.
       if envid = 0
       then andthen (lib_getenvid u) (\<lambda>i. ret (0, ENVX (word_of_int i)))
       else
         let child = word_of_int envid in
         andthen (fork_v0_pages u child [0..<PGNUM UTOP]) (\<lambda>_.
         demand (lib_env_set_status u child 2) (\<lambda>_. ret (envid, thisenv u))))"

definition sfork :: "int code" where
  "sfork = upanic"

section \<open>Messages\<close>

text \<open>
  What \<^verbatim>\<open>ipc_recv\<close> stores and returns when the system call comes back with \<open>err\<close>: the sender, the permissions and the value.
  The pointers to the stores are assumed to be given.
\<close>

definition ipc_received :: "uctx \<Rightarrow> int \<Rightarrow> (32 word \<times> 32 word \<times> int) code" where
  "ipc_received u err k =
     (let e = envs k ! thisenv u in
      Some (Val (if err = 0 then env_ipc_from e else 0, if err = 0 then env_ipc_perm e else 0,
                 if err = 0 then sint (env_ipc_value e) else err), k))"

definition ipc_recv :: "uctx \<Rightarrow> 32 word \<Rightarrow> (32 word \<times> 32 word \<times> int) code" where
  "ipc_recv u pg = andthen (lib_ipc_recv u pg) (ipc_received u)"

text \<open>
  \<^verbatim>\<open>ipc_send\<close> yields between two attempts. \<open>others\<close> is what the system does each time until the sender runs again; the value
  is whether the message has been sent when it is used up.
\<close>

fun ipc_send_loop :: "uctx \<Rightarrow> (kernel \<Rightarrow> kernel) list \<Rightarrow> 32 word \<Rightarrow> 32 word \<Rightarrow> 32 word \<Rightarrow> 32 word \<Rightarrow> bool code" where
  "ipc_send_loop u [] to_env val pg perm =
     andthen (lib_ipc_try_send u to_env val pg perm) (\<lambda>r.
       if r = - 7 then ret False else if r < 0 then upanic else ret True)"
| "ipc_send_loop u (f # others) to_env val pg perm =
     andthen (lib_ipc_try_send u to_env val pg perm) (\<lambda>r.
       if r = - 7
       then (\<lambda>k. case lib_yield u k of None \<Rightarrow> None | Some (_, k) \<Rightarrow> ipc_send_loop u others to_env val pg perm (f k))
       else if r < 0 then upanic
       else ret True)"

definition ipc_send :: "uctx \<Rightarrow> (kernel \<Rightarrow> kernel) list \<Rightarrow> 32 word \<Rightarrow> 32 word \<Rightarrow> 32 word \<Rightarrow> 32 word \<Rightarrow> bool code" where
  "ipc_send u others to_env val pg perm = ipc_send_loop u others to_env val (if pg = 0 then UTOP else pg) perm"

definition ipc_find_env :: "env_kind \<Rightarrow> kernel \<Rightarrow> 32 word" where
  "ipc_find_env ty k = (case find (\<lambda>e. env_type e = ty) (envs k) of None \<Rightarrow> 0 | Some e \<Rightarrow> env_id e)"

end
