(* ===== verification/Lib_User_Props.thy ===== *)
theory Lib_User_Props
  imports Lib_User Kern_Trap_Props
begin

unbundle bit_operations_syntax

text \<open>
  What the library calls of a program do to a consistent kernel: the path of a system call in and out of the kernel, and
  the calls that map pages.
\<close>

section \<open>Entering and leaving the kernel\<close>

text \<open>
  What a trap does not change: everything but the memory, the statistics and the saved frame of the environment that runs.
\<close>

definition env_core :: "environment \<Rightarrow> environment" where
  "env_core x = x\<lparr>env_tf := zero_tf, env_runs := 0, env_cpunum := 0\<rparr>"

definition saved_frames :: "kernel \<Rightarrow> trapframe option list" where
  "saved_frames k = map (\<lambda>i. if Some i \<in> range (cpu_env k) then None else Some (env_tf (envs k ! i))) [0..<length (envs k)]"

definition core :: "kernel \<Rightarrow> environment list \<times> trapframe option list \<times> nat option \<times> (nat \<Rightarrow> nat option) \<times> nat" where
  "core k = (map env_core (envs k), saved_frames k, env_free_list k, cpu_env k, kern_pgdir k)"

lemma env_core_eq:
  assumes "env_core x = env_core y"
  shows "env_id x = env_id y" "env_pgdir x = env_pgdir y" "env_link x = env_link y" "env_status x = env_status y"
    "env_ipc_dstva x = env_ipc_dstva y" "env_parent_id x = env_parent_id y" "env_pgfault_upcall x = env_pgfault_upcall y"
  using assms by (simp_all add: env_core_def) (cases x; cases y; simp)+

lemma core_eq:
  assumes "core k' = core k"
  shows "length (envs k') = length (envs k)" "env_free_list k' = env_free_list k" "cpu_env k' = cpu_env k" "kern_pgdir k' = kern_pgdir k"
    "e < length (envs k) \<Longrightarrow> env_core (envs k' ! e) = env_core (envs k ! e)"
    "e < length (envs k) \<Longrightarrow> Some e \<notin> range (cpu_env k) \<Longrightarrow> env_tf (envs k' ! e) = env_tf (envs k ! e)"
proof -
  have m: "map env_core (envs k') = map env_core (envs k)" using assms by (simp add: core_def)
  show len: "length (envs k') = length (envs k)" using arg_cong [OF m, of length] by simp
  then show "e < length (envs k) \<Longrightarrow> env_core (envs k' ! e) = env_core (envs k ! e)"
    using arg_cong [OF m, of "\<lambda>xs. xs ! e"] by simp
  have "saved_frames k' = saved_frames k" "cpu_env k' = cpu_env k" using assms by (simp_all add: core_def)
  then show "env_tf (envs k' ! e) = env_tf (envs k ! e)" if "e < length (envs k)" "Some e \<notin> range (cpu_env k)"
    using arg_cong [of "saved_frames k'" "saved_frames k" "\<lambda>xs. xs ! e"] len that by (simp add: saved_frames_def)
qed (use assms in \<open>simp_all add: core_def\<close>)

lemma core_used:
  assumes "core k' = core k" "length (envs k) = NENV"
  shows "used k' = used k" "dirs k' = dirs k"
proof -
  show u: "used k' = used k" using env_core_eq(4) [OF core_eq(5) [OF assms(1)]] assms(2) by (intro ext) (auto simp: used_def)
  have "env_pgdir (envs k' ! e) = env_pgdir (envs k ! e)" if "used k e" for e
    using env_core_eq(2) [OF core_eq(5) [OF assms(1)]] that assms(2) by (simp add: used_def)
  then have "used k e \<and> env_pgdir (envs k' ! e) = Some d \<longleftrightarrow> used k e \<and> env_pgdir (envs k ! e) = Some d" for e d by auto
  then show "dirs k' = dirs k" by (simp only: dirs_def u)
qed

lemma core_upd:
  assumes "\<And>x. env_core (f x) = env_core x" "cpu_env k cpu = Some e"
  shows "core (upd_env e f k) = core k"
proof -
  have "map env_core (envs (upd_env e f k)) = map env_core (envs k)"
    using assms(1) by (intro nth_equalityI) auto
  moreover have "Some e \<in> range (cpu_env k)" using assms(2) by (metis rangeI)
  then have "saved_frames (upd_env e f k) = saved_frames k" by (auto simp: saved_frames_def)
  ultimately show ?thesis by (simp add: core_def)
qed

lemma core_inv:
  assumes inv: "kern_inv cpu K k" and core: "core k' = core k"
    and mem: "mem_inv k' (dirs k) K xs (\<lambda>_. 0)" "\<And>q. q \<in> K \<Longrightarrow> pmem k' q = pmem k q"
  shows "kern_inv cpu K k'"
proof -
  have len: "length (envs k) = NENV" by (rule kern_invD(5) [OF inv])
  obtain fs where fs: "envs_inv k fs" using inv by (rule kern_invE)
  note c = core_eq [OF core] and cu = core_used [OF core len]
  have e: "env_core (envs k' ! i) = env_core (envs k ! i)" if "i < NENV" for i using c(5) that len by simp
  have "envs_inv k' fs"
    by (rule envs_inv_same [OF fs]) (use c len env_core_eq [OF e] kern_invD(7) [OF inv] in auto)
  then show ?thesis using inv mem c cu unfolding kern_inv_def by auto
qed

section \<open>A program that runs\<close>

definition runs :: "uctx \<Rightarrow> nat set \<Rightarrow> nat \<Rightarrow> nat \<Rightarrow> kernel \<Rightarrow> bool" where
  "runs u K c d k \<longleftrightarrow> kern_inv (u_cpu u) K k \<and> cpu_env k (u_cpu u) = Some c \<and> env_status (envs k ! c) = ENV_RUNNING \<and>
     env_pgdir (envs k ! c) = Some d \<and> tf_cs (u_frame u) AND 3 = 3"

lemma runsD:
  assumes "runs u K c d k"
  shows "kern_inv (u_cpu u) K k" "cpu_env k (u_cpu u) = Some c" "env_status (envs k ! c) = ENV_RUNNING" "env_pgdir (envs k ! c) = Some d"
    "tf_cs (u_frame u) AND 3 = 3" "used k c" "d \<in> dirs k" "c < length (envs k)" "length (envs k) = NENV" "own_dir u k = Some d"
proof -
  show "kern_inv (u_cpu u) K k" "cpu_env k (u_cpu u) = Some c" "env_status (envs k ! c) = ENV_RUNNING" "env_pgdir (envs k ! c) = Some d"
    "tf_cs (u_frame u) AND 3 = 3" using assms by (simp_all add: runs_def)
  then show "used k c" "length (envs k) = NENV" "own_dir u k = Some d" using kern_invD(4,5) by (auto simp: own_dir_def)
  then show "c < length (envs k)" by (simp add: used_def)
  show "d \<in> dirs k" using kern_invD(9) [OF _ \<open>used k c\<close>] \<open>kern_inv (u_cpu u) K k\<close> \<open>env_pgdir (envs k ! c) = Some d\<close> by auto
qed

text \<open>The kernel after the trap has saved the frame, and after it has stored the result and resumed the program.\<close>

definition entered :: "uctx \<Rightarrow> nat \<Rightarrow> trapframe \<Rightarrow> kernel \<Rightarrow> kernel" where
  "entered u c tf k = upd_env c (\<lambda>x. x\<lparr>env_tf := tf\<rparr>) (k\<lparr>cpu_halted := (cpu_halted k)(u_cpu u := False)\<rparr>)"

definition resumed :: "uctx \<Rightarrow> nat \<Rightarrow> int \<Rightarrow> kernel \<Rightarrow> kernel" where
  "resumed u c v k = env_run (u_cpu u) c
     (upd_env c (\<lambda>x. x\<lparr>env_tf := (env_tf x)\<lparr>tf_regs := (tf_regs (env_tf x))\<lparr>reg_eax := word_of_int v\<rparr>\<rparr>\<rparr>) k)"

lemma entered_same:
  assumes "cpu_env k (u_cpu u) = Some c"
  shows "core (entered u c tf k) = core k" "pages (entered u c tf k) = pages k" "page_free_list (entered u c tf k) = page_free_list k"
  "pmem (entered u c tf k) = pmem k"
proof -
  have "core (entered u c tf k) = core (k\<lparr>cpu_halted := (cpu_halted k)(u_cpu u := False)\<rparr>)"
    unfolding entered_def by (rule core_upd) (use assms in \<open>simp_all add: env_core_def\<close>)
  moreover have "core (k\<lparr>cpu_halted := h\<rparr>) = core k" for h by (simp add: core_def saved_frames_def cong: if_cong)
  ultimately show "core (entered u c tf k) = core k" by simp
qed (simp_all add: entered_def)

lemma resumed_same:
  assumes "cpu_env k (u_cpu u) = Some c" "c < length (envs k)" "env_status (envs k ! c) = ENV_RUNNING"
  shows "core (resumed u c v k) = core k" "pages (resumed u c v k) = pages k" "page_free_list (resumed u c v k) = page_free_list k"
    "pmem (resumed u c v k) = pmem k" "reg_eax (tf_regs (env_tf (envs (resumed u c v k) ! c))) = word_of_int v"
    "f < length (envs k) \<Longrightarrow> f \<noteq> c \<Longrightarrow> envs (resumed u c v k) ! f = envs k ! f"
proof -
  let ?k = "upd_env c (\<lambda>x. x\<lparr>env_tf := (env_tf x)\<lparr>tf_regs := (tf_regs (env_tf x))\<lparr>reg_eax := word_of_int v\<rparr>\<rparr>\<rparr>) k"
  have current: "Some c \<in> range (cpu_env k)" using assms(1) by (metis rangeI)
  have run: "resumed u c v k = upd_env c (\<lambda>x. x\<lparr>env_status := ENV_RUNNING, env_runs := env_runs x + 1, env_cpunum := u_cpu u\<rparr>)
      (?k\<lparr>cpu_env := (cpu_env k)(u_cpu u := Some c)\<rparr>)"
    using assms(1) by (simp add: resumed_def env_run_def Let_def)
  have "map env_core (envs (resumed u c v k)) = map env_core (envs k)"
    unfolding run using assms(2,3) by (intro nth_equalityI) (auto simp: env_core_def)
  moreover have "(cpu_env k)(u_cpu u := Some c) = cpu_env k" using assms(1) by auto
  moreover have "saved_frames (resumed u c v k) = saved_frames k"
    using current calculation(2) unfolding saved_frames_def run by (intro map_cong) auto
  ultimately show "core (resumed u c v k) = core k" unfolding core_def by (simp add: run)
  show "pages (resumed u c v k) = pages k" "page_free_list (resumed u c v k) = page_free_list k" "pmem (resumed u c v k) = pmem k"
    by (simp_all add: run)
  show "reg_eax (tf_regs (env_tf (envs (resumed u c v k) ! c))) = word_of_int v" using assms(2) by (simp add: run)
  show "f < length (envs k) \<Longrightarrow> f \<noteq> c \<Longrightarrow> envs (resumed u c v k) ! f = envs k ! f" by (simp add: run)
qed

lemma trap_call_ret:
  assumes r: "runs u K c d k" and tf: "tf_trapno tf = T_SYSCALL" "tf_cs tf = tf_cs (u_frame u)"
    and sys: "syscall (u_policy u) (u_cpu u) (u_getc u) (reg_eax (tf_regs tf)) (reg_edx (tf_regs tf)) (reg_ecx (tf_regs tf))
      (reg_ebx (tf_regs tf)) (reg_edi (tf_regs tf)) (reg_esi (tf_regs tf)) (entered u c tf k) = Some (Ret v, k2)"
    and k2: "cpu_env k2 (u_cpu u) = Some c" "c < length (envs k2)" "env_status (envs k2 ! c) = ENV_RUNNING"
  shows "trap_call u tf check k =
    Some (if check \<and> sint (word_of_int v :: 32 word) > 0 then User_Panic else Val (sint (word_of_int v :: 32 word)), resumed u c v k2)"
proof -
  note R = runsD [OF r]
  have cs: "tf_cs tf AND 3 = 3" using R(5) tf(2) by simp
  have "trap_dispatch (u_policy u) (u_cpu u) (u_getc u) 0 (Some c) tf (entered u c tf k) = Some (None,
      upd_env c (\<lambda>x. x\<lparr>env_tf := (env_tf x)\<lparr>tf_regs := (tf_regs (env_tf x))\<lparr>reg_eax := word_of_int v\<rparr>\<rparr>\<rparr>) k2)"
    using sys tf(1) by (simp add: trap_dispatch_def Let_def)
  then have "trap (u_policy u) (u_cpu u) (u_getc u) 0 tf k = Some (Run c, resumed u c v k2)"
    using R(2,3) cs k2 by (simp add: trap_def Let_def entered_def after_trap_def resumed_def)
  then show ?thesis using R(2) resumed_same(5) [OF k2, of v] by (simp add: trap_call_def Let_def)
qed

lemma user_syscall_ret:
  assumes r: "runs u K c d k"
    and sys: "syscall (u_policy u) (u_cpu u) (u_getc u) num a1 a2 a3 a4 a5
      (entered u c (syscall_frame (u_frame u) num a1 a2 a3 a4 a5) k) = Some (Ret v, k2)"
    and k2: "cpu_env k2 (u_cpu u) = Some c" "c < length (envs k2)" "env_status (envs k2 ! c) = ENV_RUNNING"
  shows "user_syscall u num check a1 a2 a3 a4 a5 k =
    Some (if check \<and> sint (word_of_int v :: 32 word) > 0 then User_Panic else Val (sint (word_of_int v :: 32 word)), resumed u c v k2)"
  unfolding user_syscall_def
  by (rule trap_call_ret [OF r _ _ _ k2]) (use sys in \<open>simp_all add: syscall_frame_def\<close>)

section \<open>Mapping pages\<close>

text \<open>An environment that the program may name in a system call, with its directory.\<close>

definition reaches :: "uctx \<Rightarrow> 32 word \<Rightarrow> nat \<Rightarrow> nat \<Rightarrow> kernel \<Rightarrow> bool" where
  "reaches u i e d k \<longleftrightarrow> envid2env (u_cpu u) i True k = Some (0, Some e) \<and> used k e \<and> env_pgdir (envs k ! e) = Some d"

lemma reaches_self: "runs u K c d k \<Longrightarrow> reaches u 0 c d k"
  using runsD [of u K c d k] by (simp add: reaches_def envid2env_def)

lemma reaches_core:
  assumes "core k' = core k" "reaches u i e d k" and r: "runs u K c0 d0 k"
  shows "reaches u i e d k'"
proof -
  note R = runsD [OF r]
  note c = core_eq [OF assms(1)]
  have same: "env_core (envs k' ! j) = env_core (envs k ! j)" if "j < NENV" for j using c(5) that R(9) by simp
  have x: "env_core (envs k' ! ENVX i) = env_core (envs k ! ENVX i)" by (rule same) (rule ENVX_less)
  have ue: "used k e" "env_pgdir (envs k ! e) = Some d" using assms(2) by (simp_all add: reaches_def)
  have cur: "env_id (envs k' ! c0) = env_id (envs k ! c0)" using env_core_eq(1) [OF same] R(8,9) by simp
  have "envid2env (u_cpu u) i True k' = envid2env (u_cpu u) i True k"
    using cur c(3) R(2) env_core_eq [OF x] by (simp add: envid2env_def Let_def)
  moreover have "env_pgdir (envs k' ! e) = Some d" using env_core_eq(2) [OF same, of e] ue by (simp add: used_def)
  ultimately show ?thesis using assms(2) core_used(1) [OF assms(1) R(9)] by (simp add: reaches_def)
qed

text \<open>The effect of \<^verbatim>\<open>page_insert\<close> on a memory: one entry, perhaps one new table, and nothing of what is mapped.\<close>

definition inserted :: "nat set \<Rightarrow> nat list \<Rightarrow> nat list \<Rightarrow> 'a machine_scheme \<Rightarrow> 'b machine_scheme \<Rightarrow> nat \<Rightarrow> 32 word \<Rightarrow> 32 word \<Rightarrow> bool" where
  "inserted D xs ys m m' d va w \<longleftrightarrow> entry m' d va = w \<and>
     (\<forall>d' \<in> D. \<forall>va' < UTOP. d' \<noteq> d \<or> PGNUM va' \<noteq> PGNUM va \<longrightarrow> entry m' d' va' = entry m d' va') \<and>
     (\<forall>q. q \<notin> D \<and> \<not> is_table m D q \<and> q \<notin> set xs \<longrightarrow> pmem m' q = pmem m q) \<and> npages m' = npages m \<and>
     (\<forall>q < npages m. \<not> is_table m' D q \<longrightarrow> unat (pp_ref (pages m' ! q)) \<le> unat (pp_ref (pages m ! q)) + (if q = PGNUM w then 1 else 0)) \<and>
     length xs \<le> length ys + (if pmem m d (PDX va) = 0 then 1 else 0) \<and>
     (\<forall>d' \<in> D. \<forall>i. (d', i) \<noteq> (d, PDX va) \<or> pmem m d (PDX va) \<noteq> 0 \<longrightarrow> pmem m' d' i = pmem m d' i) \<and>
     (pmem m d (PDX va) = 0 \<longrightarrow> (\<exists>t. pmem m' d (PDX va) = page2pa t OR PTE_P OR PTE_W OR PTE_U \<and> pmem m' d (PDX va) \<noteq> 0))"

lemma inserted_same:
  fixes m :: "'a machine_scheme" and m' :: "'b machine_scheme" and n :: "'c machine_scheme" and n' :: "'d machine_scheme"
  assumes "pages m = pages n" "pmem m = pmem n" "pages m' = pages n'" "pmem m' = pmem n'"
  shows "inserted D xs ys m m' d va w = inserted D xs ys n n' d va w"
proof -
  have e: "entry m = entry n" "entry m' = entry n'" using assms by (auto simp: entry_def fun_eq_iff)
  have t: "is_table m = is_table n" "is_table m' = is_table n'" using assms by (auto simp: is_table_def fun_eq_iff)
  show ?thesis by (simp only: inserted_def e t npages_def assms)
qed

lemma page_insert_inserted:
  assumes "mem_inv m D K xs ex" and "d \<in> D" "va < UTOP"
    and "pp < npages m" "pp \<notin> K" "pp \<notin> D" "\<not> is_table m D pp" "pp \<notin> set xs" "unat (pp_ref (pages m ! pp)) < 65535"
    and "drop_bit 12 perm = 0" and room: "xs \<noteq> [] \<or> pmem m d (PDX va) \<noteq> 0"
  shows "\<exists>m' ys. page_insert d pp va perm m = Some (0, m') \<and> mem_inv m' D K ys ex \<and> inserted D xs ys m m' d va (page2pa pp OR perm OR PTE_P)"
proof -
  obtain r m' ys where full: "page_insert d pp va perm m = Some (r, m')" "mem_inv m' D K ys ex"
    "r = - E_NO_MEM \<and> xs = [] \<and> m' = m \<or> r = 0 \<and> entry m' d va = page2pa pp OR perm OR PTE_P \<and>
       (\<forall>d' \<in> D. \<forall>va' < UTOP. d' \<noteq> d \<or> PGNUM va' \<noteq> PGNUM va \<longrightarrow> entry m' d' va' = entry m d' va')"
    "\<forall>q. q \<notin> D \<and> \<not> is_table m D q \<and> q \<notin> set xs \<longrightarrow> pmem m' q = pmem m q" "npages m' = npages m"
    "\<forall>q < npages m. \<not> is_table m' D q \<longrightarrow> unat (pp_ref (pages m' ! q)) \<le> unat (pp_ref (pages m ! q)) + (if q = pp then 1 else 0)"
    "r = 0 \<or> pmem m d (PDX va) = 0" "length xs \<le> length ys + (if pmem m d (PDX va) = 0 then 1 else 0)"
    "\<forall>d' \<in> D. \<forall>i. (d', i) \<noteq> (d, PDX va) \<or> pmem m d (PDX va) \<noteq> 0 \<longrightarrow> pmem m' d' i = pmem m d' i"
    "r = 0 \<and> pmem m d (PDX va) = 0 \<longrightarrow> (\<exists>t. pmem m' d (PDX va) = page2pa t OR PTE_P OR PTE_W OR PTE_U \<and> pmem m' d (PDX va) \<noteq> 0)"
    using page_insert_full [OF assms(1-10)] by (elim exE conjE) (rule that)
  have r: "r = 0" using full(3,7) room by blast
  have "pp < 2 ^ 20" using assms(4) mem_invD(1) [OF assms(1)] by simp
  then have pg: "PGNUM (page2pa pp OR perm OR PTE_P) = pp" using PGNUM_entry [OF _ perm_flags [OF assms(10)]] by simp
  have "inserted D xs ys m m' d va (page2pa pp OR perm OR PTE_P)"
    unfolding inserted_def pg using full(3-) r by (intro conjI) simp_all
  then show ?thesis using full(1,2) r by blast
qed

lemma mapped_frame:
  assumes "mem_inv m D K xs ex" "d \<in> D" "va < UTOP" "entry m d va \<noteq> 0"
  shows "PGNUM (entry m d va) < npages m" "PGNUM (entry m d va) \<notin> K" "PGNUM (entry m d va) \<notin> D"
    "\<not> is_table m D (PGNUM (entry m d va))" "PGNUM (entry m d va) \<notin> set xs"
proof -
  note ref = mem_invD(9) [OF assms(1) entry_refers(1) [OF assms]]
  show "PGNUM (entry m d va) < npages m" "PGNUM (entry m d va) \<notin> K" "PGNUM (entry m d va) \<notin> D"
    "\<not> is_table m D (PGNUM (entry m d va))" using ref by simp_all
  show "PGNUM (entry m d va) \<notin> set xs"
    using free_page(1) [OF assms(1)] entry_refers(1) [OF assms] unfolding sites_def by blast
qed

lemma inserted_kernel_pages:
  assumes "inserted D xs ys m m' d va w" "mem_inv m D K xs ex" "q \<in> K"
  shows "pmem m' q = pmem m q"
proof -
  have "q \<notin> D" "\<not> is_table m D q" "q \<notin> set xs" using mem_invD(4,6,7) [OF assms(2)] assms(3) by blast+
  then show ?thesis using assms(1) by (simp add: inserted_def)
qed

lemma and_write: "x AND PTE_W = (if bit x 1 then PTE_W else 0)" for x :: "32 word"
  by (intro bit_eqI) (auto simp: bit_and_iff bit_2_iff)

lemma or_shuffle: "a OR (x OR y OR b) OR x = a OR b OR y OR x" "a OR (b OR y OR x) OR x = a OR b OR y OR x" for a b x y :: "32 word"
  by (intro bit_eqI; auto simp: bit_or_iff)+

lemma sys_page_map_ok:
  assumes inv: "kern_inv cpu K k" and mem: "mem_inv k (dirs k) K xs (\<lambda>_. 0)"
    and src: "envid2env cpu sid True k = Some (0, Some s)" "env_pgdir (envs k ! s) = Some sd" "used k s"
    and dst: "envid2env cpu tid True k = Some (0, Some t)" "env_pgdir (envs k ! t) = Some td" "used k t"
    and va: "\<not> bad_va srcva" "\<not> bad_va dstva" and w: "entry k sd srcva = w" "w \<noteq> 0"
    and perm: "drop_bit 12 perm = 0" "perm AND PTE_W \<noteq> 0 \<longrightarrow> w AND PTE_W \<noteq> 0"
    and room: "unat (pp_ref (pages k ! PGNUM w)) < 65535" "xs \<noteq> [] \<or> pmem k td (PDX dstva) \<noteq> 0"
  shows "\<exists>k' ys. sys_page_map cpu sid srcva tid dstva perm k = Some (Ret 0, k') \<and> machine.more k' = machine.more k \<and>
    mem_inv k' (dirs k) K ys (\<lambda>_. 0) \<and> inserted (dirs k) xs ys k k' td dstva (page2pa (PGNUM w) OR perm OR PTE_U OR PTE_P)"
proof -
  have dd: "sd \<in> dirs k" "td \<in> dirs k" using kern_invD(9) [OF inv src(3)] kern_invD(9) [OF inv dst(3)] src(2) dst(2) by auto
  note ut = not_bad_va [OF va(1)] not_bad_va [OF va(2)]
  have e0: "entry k sd srcva \<noteq> 0" using w by simp
  note fr = mapped_frame [OF mem dd(1) ut(1) e0, unfolded w(1)]
  obtain k' ys where ins: "page_insert td (PGNUM w) dstva (PTE_P OR PTE_U OR perm) k = Some (0, k')" "mem_inv k' (dirs k) K ys (\<lambda>_. 0)"
    "inserted (dirs k) xs ys k k' td dstva (page2pa (PGNUM w) OR (PTE_P OR PTE_U OR perm) OR PTE_P)"
    using page_insert_inserted [OF mem dd(2) ut(2) fr room(1) user_perm [OF perm(1)] room(2)] by blast
  have wr: "((PTE_P OR PTE_U OR perm) AND PTE_W) AND NOT (PTE_W AND w) = 0" 
  proof -
    have "\<not> bit (5 :: 32 word) 1" by (simp add: bit_iff_odd)
    then have "bit (PTE_P OR PTE_U OR perm) 1 = bit perm 1" by (simp add: bit_or_iff)
    moreover have "PTE_W AND w = w AND PTE_W" by (rule and.commute)
    ultimately show ?thesis using perm(2) by (simp only: and_write) auto
  qed
  have pt: "pmem k (PGNUM (pmem k sd (PDX srcva))) (PTX srcva) = w" using w by (auto simp: entry_def split: if_splits)
  have "env_page_map s srcva t dstva (PTE_P OR PTE_U OR perm) k = Some (0, k')"
    using ins(1) src(2) dst(2) page_lookup_entry [OF mem dd(1) ut(1)] w pt wr by (simp add: env_page_map_def)
  then have "sys_page_map cpu sid srcva tid dstva perm k = Some (Ret 0, k')"
    using src(1) dst(1) va by (simp add: sys_page_map_def with_env_def)
  moreover have "page2pa (PGNUM w) OR (PTE_P OR PTE_U OR perm) OR PTE_P = page2pa (PGNUM w) OR perm OR PTE_U OR PTE_P"
    by (rule or_shuffle(1))
  ultimately show ?thesis using ins more_page_insert [OF ins(1)] by auto
qed

text \<open>A call that leaves the environments alone, seen from the program.\<close>

lemma user_syscall_core:
  assumes r: "runs u K c d k"
    and sys: "syscall (u_policy u) (u_cpu u) (u_getc u) num a1 a2 a3 a4 a5
      (entered u c (syscall_frame (u_frame u) num a1 a2 a3 a4 a5) k) = Some (Ret v, k2)"
    and core: "core k2 = core (entered u c (syscall_frame (u_frame u) num a1 a2 a3 a4 a5) k)"
    and v: "v \<le> 0" "- (2 ^ 31) \<le> v"
  shows "\<exists>k'. user_syscall u num check a1 a2 a3 a4 a5 k = Some (Val v, k') \<and> core k' = core k \<and> pages k' = pages k2 \<and>
    page_free_list k' = page_free_list k2 \<and> pmem k' = pmem k2"
proof -
  note R = runsD [OF r]
  have c2: "core k2 = core k" using core entered_same(1) [OF R(2)] by simp
  note ce = core_eq [OF c2]
  have k2: "cpu_env k2 (u_cpu u) = Some c" "c < length (envs k2)" "env_status (envs k2 ! c) = ENV_RUNNING"
    using R(2,3,8) ce env_core_eq(4) [OF ce(5) [OF R(8)]] by simp_all
  have "sint (word_of_int v :: 32 word) = v" using v by (simp add: sint_sbintrunc' signed_take_bit_int_eq_self)
  then show ?thesis using user_syscall_ret [OF r sys k2] resumed_same [OF k2] c2 v(1) by auto
qed

lemma more_core: "machine.more k' = machine.more k \<Longrightarrow> core k' = core k"
  using more_kernel [of k' k] by (simp add: core_def saved_frames_def)

lemma entered_ok:
  assumes r: "runs u K c d k" and mem: "mem_inv k (dirs k) K xs (\<lambda>_. 0)"
  shows "kern_inv (u_cpu u) K (entered u c tf k)" "mem_inv (entered u c tf k) (dirs k) K xs (\<lambda>_. 0)" "dirs (entered u c tf k) = dirs k"
    "entry (entered u c tf k) = entry k" "npages (entered u c tf k) = npages k"
    "reaches u i s sd k \<Longrightarrow> reaches u i s sd (entered u c tf k)"
proof -
  note R = runsD [OF r]
  note e = entered_same [OF R(2), of tf]
  note same = same_machine [OF e(2-4)]
  show m: "mem_inv (entered u c tf k) (dirs k) K xs (\<lambda>_. 0)" using mem same(1) by blast
  show "kern_inv (u_cpu u) K (entered u c tf k)" by (rule core_inv [OF R(1) e(1) m]) (simp add: e(4))
  show "dirs (entered u c tf k) = dirs k" by (rule core_used(2) [OF e(1) R(9)])
  show "entry (entered u c tf k) = entry k" "npages (entered u c tf k) = npages k" by (fact same)+
  show "reaches u i s sd k \<Longrightarrow> reaches u i s sd (entered u c tf k)" by (rule reaches_core [OF e(1) _ r])
qed

lemma returned_ok:
  assumes r: "runs u K c d k" and core: "core k' = core k" and mem: "mem_inv k' (dirs k) K xs (\<lambda>_. 0)" "\<And>q. q \<in> K \<Longrightarrow> pmem k' q = pmem k q"
  shows "runs u K c d k'"
proof -
  note R = runsD [OF r]
  have "kern_inv (u_cpu u) K k'" by (rule core_inv [OF R(1) core mem])
  moreover have "env_core (envs k' ! c) = env_core (envs k ! c)" by (rule core_eq(5) [OF core R(8)])
  ultimately show ?thesis using R(2-5) core_eq(3) [OF core] env_core_eq [of "envs k' ! c" "envs k ! c"] by (simp add: runs_def)
qed

lemma lib_page_map_ok:
  assumes r: "runs u K c d k" and mem: "mem_inv k (dirs k) K xs (\<lambda>_. 0)"
    and src: "reaches u sid s sd k" and dst: "reaches u tid t td k"
    and va: "\<not> bad_va srcva" "\<not> bad_va dstva" and w: "entry k sd srcva = w" "w \<noteq> 0"
    and perm: "drop_bit 12 perm = 0" "perm AND PTE_W \<noteq> 0 \<longrightarrow> w AND PTE_W \<noteq> 0"
    and room: "unat (pp_ref (pages k ! PGNUM w)) < 65535" "xs \<noteq> [] \<or> pmem k td (PDX dstva) \<noteq> 0"
  shows "\<exists>k' ys. lib_page_map u sid srcva tid dstva perm k = Some (Val 0, k') \<and> runs u K c d k' \<and> core k' = core k \<and>
    mem_inv k' (dirs k) K ys (\<lambda>_. 0) \<and> inserted (dirs k) xs ys k k' td dstva (page2pa (PGNUM w) OR perm OR PTE_U OR PTE_P)"
proof -
  let ?tf = "syscall_frame (u_frame u) 6 sid srcva tid dstva perm"
  note e = entered_same [OF runsD(2) [OF r], of ?tf] and eo = entered_ok [OF r mem, where tf = ?tf]
  obtain k2 ys where k2: "sys_page_map (u_cpu u) sid srcva tid dstva perm (entered u c ?tf k) = Some (Ret 0, k2)"
    "machine.more k2 = machine.more (entered u c ?tf k)" "mem_inv k2 (dirs k) K ys (\<lambda>_. 0)"
    "inserted (dirs k) xs ys (entered u c ?tf k) k2 td dstva (page2pa (PGNUM w) OR perm OR PTE_U OR PTE_P)"
    using sys_page_map_ok [OF eo(1), of xs sid s sd tid t td srcva dstva w perm] eo(6) [OF src] eo(6) [OF dst] eo(2) va w perm room
    unfolding eo(3,4) e reaches_def by blast
  obtain k' where k': "lib_page_map u sid srcva tid dstva perm k = Some (Val 0, k')" "core k' = core k"
    "pages k' = pages k2" "page_free_list k' = page_free_list k2" "pmem k' = pmem k2"
    using user_syscall_core [OF r _ more_core [OF k2(2)], where v = 0] k2(1) by (auto simp: lib_page_map_def syscall_def)
  have mem': "mem_inv k' (dirs k) K ys (\<lambda>_. 0)" using k2(3) same_machine(1) [OF k'(3-5)] by blast
  have ins: "inserted (dirs k) xs ys k k' td dstva (page2pa (PGNUM w) OR perm OR PTE_U OR PTE_P)"
    using k2(4) unfolding inserted_same [OF e(2,4) k'(3,5) [symmetric]] .
  have "runs u K c d k'" by (rule returned_ok [OF r k'(2) mem']) (rule inserted_kernel_pages [OF ins mem])
  then show ?thesis using k'(1,2) mem' ins by blast
qed

lemma user_bits: "(x OR PTE_U OR PTE_P) AND PTE_P \<noteq> 0" "(x OR PTE_U OR PTE_P) AND PTE_U \<noteq> 0" for x :: "32 word"
proof -
  have a: "(x OR a OR b) AND b = b" "(x OR a OR b) AND a = a" for a b :: "32 word"
    by (intro bit_eqI; auto simp: bit_or_iff bit_and_iff)+
  show "(x OR PTE_U OR PTE_P) AND PTE_P \<noteq> 0" "(x OR PTE_U OR PTE_P) AND PTE_U \<noteq> 0" by (simp_all only: a) simp_all
qed

text \<open>Taking a free page first changes nothing else.\<close>

lemma inserted_after_alloc:
  assumes "mem_inv k D K (p # xs) ex" and m1: "\<forall>q j. pmem m1 q j = (if q = p then 0 else pmem k q j)" "npages m1 = npages k"
    "\<And>q. q < npages k \<Longrightarrow> pp_ref (pages m1 ! q) = pp_ref (pages k ! q)" "\<And>d va. d \<in> D \<Longrightarrow> va < UTOP \<Longrightarrow> entry m1 d va = entry k d va"
    and td: "td \<in> D" and ins: "inserted D xs ys m1 k' td va w"
  shows "inserted D (p # xs) (p # ys) k k' td va w"
proof -
  have p: "p \<notin> D" "\<not> is_table k D p" using free_page [OF assms(1), of p] by simp_all
  have dir: "pmem m1 d' i = pmem k d' i" if "d' \<in> D" for d' i using m1(1) p(1) that by auto
  have tab: "is_table m1 D = is_table k D" using dir by (intro ext) (simp add: is_table_def)
  show ?thesis
    unfolding inserted_def
  proof (intro conjI)
    show "entry k' td va = w" using ins by (simp add: inserted_def)
    show "\<forall>d' \<in> D. \<forall>va' < UTOP. d' \<noteq> td \<or> PGNUM va' \<noteq> PGNUM va \<longrightarrow> entry k' d' va' = entry k d' va'"
      using ins m1(4) by (simp add: inserted_def)
    show "\<forall>q. q \<notin> D \<and> \<not> is_table k D q \<and> q \<notin> set (p # xs) \<longrightarrow> pmem k' q = pmem k q"
      using ins m1(1) tab by (auto simp: inserted_def)
    show "npages k' = npages k" using ins m1(2) by (simp add: inserted_def)
    show "\<forall>q < npages k. \<not> is_table k' D q \<longrightarrow> unat (pp_ref (pages k' ! q)) \<le> unat (pp_ref (pages k ! q)) + (if q = PGNUM w then 1 else 0)"
      using ins m1(2,3) by (simp add: inserted_def)
    show "length (p # xs) \<le> length (p # ys) + (if pmem k td (PDX va) = 0 then 1 else 0)" using ins dir [OF td] by (simp add: inserted_def)
    show "\<forall>d' \<in> D. \<forall>i. (d', i) \<noteq> (td, PDX va) \<or> pmem k td (PDX va) \<noteq> 0 \<longrightarrow> pmem k' d' i = pmem k d' i"
      using ins dir td by (simp add: inserted_def)
    show "pmem k td (PDX va) = 0 \<longrightarrow> (\<exists>t. pmem k' td (PDX va) = page2pa t OR PTE_P OR PTE_W OR PTE_U \<and> pmem k' td (PDX va) \<noteq> 0)"
      using ins dir [OF td] by (simp add: inserted_def)
  qed
qed

lemma sys_page_alloc_ok:
  assumes inv: "kern_inv cpu K k" and mem: "mem_inv k (dirs k) K (p # xs) (\<lambda>_. 0)"
    and dst: "envid2env cpu tid True k = Some (0, Some t)" "env_pgdir (envs k ! t) = Some td" "used k t"
    and va: "\<not> bad_va va" and perm: "(perm OR PTE_U OR PTE_P) AND NOT PTE_SYSCALL = 0"
    and room: "xs \<noteq> [] \<or> pmem k td (PDX va) \<noteq> 0"
  shows "\<exists>k' ys. sys_page_alloc cpu tid va perm k = Some (Ret 0, k') \<and> machine.more k' = machine.more k \<and>
    mem_inv k' (dirs k) K ys (\<lambda>_. 0) \<and> inserted (dirs k) (p # xs) (p # ys) k k' td va (page2pa p OR perm OR PTE_U OR PTE_P) \<and>
    pmem k' p = (\<lambda>_. 0)"
proof -
  have td: "td \<in> dirs k" using kern_invD(9) [OF inv dst(3)] dst(2) by auto
  note ut = not_bad_va [OF va]
  obtain m1 where al: "page_alloc True k = (Some p, m1)" and m1: "mem_inv m1 (dirs k) K xs (\<lambda>_. 0)"
    "\<forall>q j. pmem m1 q j = (if q = p then 0 else pmem k q j)" "p \<notin> set xs"
    using page_alloc_inv [OF mem, of True] by (auto split: prod.splits option.splits)
  note ak = page_alloc_kept [OF inv mem al]
  have dir: "pmem m1 d' i = pmem k d' i" if "d' \<in> dirs k" for d' i using m1(2) ak(5) that by auto
  let ?perm = "perm OR PTE_U OR PTE_P"
  have "xs \<noteq> [] \<or> pmem m1 td (PDX va) \<noteq> 0" using room dir [OF td] by simp
  then obtain k' ys where ins: "page_insert td p va ?perm m1 = Some (0, k')" "mem_inv k' (dirs k) K ys (\<lambda>_. 0)"
    "inserted (dirs k) xs ys m1 k' td va (page2pa p OR ?perm OR PTE_P)"
    using page_insert_inserted [OF m1(1) td ut _ ak(4,5,6) m1(3) _ syscall_perm [OF perm]] ak(3,7,8) by auto
  have chk: "check_perm ?perm None = 0" using perm user_bits [of perm] by (simp add: check_perm_def)
  have e1: "envs m1 = envs k" using more_kernel(1) [OF more_page_alloc [OF al]] .
  have "sys_page_alloc cpu tid va perm k = Some (Ret 0, k')"
    using dst(1,2) va al ins(1) chk e1 by (simp add: sys_page_alloc_def with_env_def env_page_alloc_def Let_def)
  moreover have "page2pa p OR ?perm OR PTE_P = page2pa p OR perm OR PTE_U OR PTE_P" by (rule or_shuffle(2))
  moreover have "inserted (dirs k) (p # xs) (p # ys) k k' td va (page2pa p OR ?perm OR PTE_P)"
    by (rule inserted_after_alloc [OF mem m1(2) ak(8-10) td ins(3)])
  moreover have "pmem k' p = (\<lambda>_. 0)" using ins(3) ak(5,6) m1(2,3) unfolding inserted_def by auto
  moreover have "machine.more k' = machine.more k" using more_page_insert [OF ins(1)] more_page_alloc [OF al] by simp
  ultimately show ?thesis using ins(2) by auto
qed

lemma lib_page_alloc_ok:
  assumes r: "runs u K c d k" and mem: "mem_inv k (dirs k) K (p # xs) (\<lambda>_. 0)" and dst: "reaches u tid t td k"
    and va: "\<not> bad_va va" and perm: "(perm OR PTE_U OR PTE_P) AND NOT PTE_SYSCALL = 0"
    and room: "xs \<noteq> [] \<or> pmem k td (PDX va) \<noteq> 0"
  shows "\<exists>k' ys. lib_page_alloc u tid va perm k = Some (Val 0, k') \<and> runs u K c d k' \<and> core k' = core k \<and>
    mem_inv k' (dirs k) K ys (\<lambda>_. 0) \<and> inserted (dirs k) (p # xs) (p # ys) k k' td va (page2pa p OR perm OR PTE_U OR PTE_P) \<and>
    pmem k' p = (\<lambda>_. 0)"
proof -
  let ?tf = "syscall_frame (u_frame u) 5 tid va perm 0 0"
  note e = entered_same [OF runsD(2) [OF r], of ?tf] and eo = entered_ok [OF r mem, where tf = ?tf]
  obtain k2 ys where k2: "sys_page_alloc (u_cpu u) tid va perm (entered u c ?tf k) = Some (Ret 0, k2)"
    "machine.more k2 = machine.more (entered u c ?tf k)" "mem_inv k2 (dirs k) K ys (\<lambda>_. 0)"
    "inserted (dirs k) (p # xs) (p # ys) (entered u c ?tf k) k2 td va (page2pa p OR perm OR PTE_U OR PTE_P)" "pmem k2 p = (\<lambda>_. 0)"
    using sys_page_alloc_ok [OF eo(1), of p xs tid t td va perm] eo(6) [OF dst] eo(2) va perm room
    unfolding eo(3,4) e reaches_def by blast
  obtain k' where k': "lib_page_alloc u tid va perm k = Some (Val 0, k')" "core k' = core k"
    "pages k' = pages k2" "page_free_list k' = page_free_list k2" "pmem k' = pmem k2"
    using user_syscall_core [OF r _ more_core [OF k2(2)], where v = 0] k2(1) by (auto simp: lib_page_alloc_def syscall_def)
  have mem': "mem_inv k' (dirs k) K ys (\<lambda>_. 0)" using k2(3) same_machine(1) [OF k'(3-5)] by blast
  have ins: "inserted (dirs k) (p # xs) (p # ys) k k' td va (page2pa p OR perm OR PTE_U OR PTE_P)"
    using k2(4) unfolding inserted_same [OF e(2,4) k'(3,5) [symmetric]] .
  have "runs u K c d k'" by (rule returned_ok [OF r k'(2) mem']) (rule inserted_kernel_pages [OF ins mem])
  then show ?thesis using k'(1,2,5) mem' ins k2(5) by auto
qed

definition removed :: "nat set \<Rightarrow> nat list \<Rightarrow> nat list \<Rightarrow> 'a machine_scheme \<Rightarrow> 'b machine_scheme \<Rightarrow> nat \<Rightarrow> 32 word \<Rightarrow> bool" where
  "removed D xs ys m m' d va \<longleftrightarrow> entry m' d va = 0 \<and>
     (\<forall>d' \<in> D. \<forall>va' < UTOP. d' \<noteq> d \<or> PGNUM va' \<noteq> PGNUM va \<longrightarrow> entry m' d' va' = entry m d' va') \<and>
     (\<forall>q. \<not> is_table m D q \<longrightarrow> pmem m' q = pmem m q) \<and> npages m' = npages m \<and>
     (\<forall>q < npages m. unat (pp_ref (pages m' ! q)) \<le> unat (pp_ref (pages m ! q))) \<and> length xs \<le> length ys"

lemma removed_same:
  fixes m :: "'a machine_scheme" and m' :: "'b machine_scheme" and n :: "'c machine_scheme" and n' :: "'d machine_scheme"
  assumes "pages m = pages n" "pmem m = pmem n" "pages m' = pages n'" "pmem m' = pmem n'"
  shows "removed D xs ys m m' d va = removed D xs ys n n' d va"
proof -
  have e: "entry m = entry n" "entry m' = entry n'" using assms by (auto simp: entry_def fun_eq_iff)
  have t: "is_table m = is_table n" using assms by (auto simp: is_table_def fun_eq_iff)
  show ?thesis by (simp only: removed_def e t npages_def assms)
qed

lemma page_remove_removed:
  assumes inv: "mem_inv m D K xs ex" and d: "d \<in> D" "va < UTOP"
  shows "\<exists>m' ys. page_remove d va m = Some m' \<and> mem_inv m' D K ys ex \<and> removed D xs ys m m' d va"
proof -
  obtain m' ys where r: "page_remove d va m = Some m'" "mem_inv m' D K ys ex" "npages m' = npages m"
    and mem: "pmem m' = (if entry m d va = 0 then pmem m else pmem (put_word (PGNUM (pmem m d (PDX va))) (PTX va) 0 m))"
    and refs: "\<forall>q < npages m. unat (pp_ref (pages m' ! q)) \<le> unat (pp_ref (pages m ! q))" "length xs \<le> length ys"
    using page_remove_spec [OF assms] by blast
  have "removed D xs ys m m' d va"
  proof (cases "entry m d va = 0")
    case True
    then have "entry m' = entry m" using mem by (auto simp: entry_def fun_eq_iff)
    then show ?thesis using True mem r(3) refs by (simp add: removed_def)
  next
    case False
    let ?t = "PGNUM (pmem m d (PDX va))"
    let ?n = "put_word ?t (PTX va) 0 m"
    have e: "entry m' = entry ?n" using mem False by (intro ext) (simp add: entry_def)
    note ref = entry_refers [OF inv d False]
    have t: "is_table m D ?t" using ref(2) pgdir_walk_False(2) [OF inv d] by blast
    then have "?t \<noteq> d" using mem_invD(7) [OF inv] d(1) by auto
    then have "entry ?n d va = 0" using entry_after_clear by blast
    moreover have "entry ?n d' va' = entry m d' va'" if "d' \<in> D" "va' < UTOP" "d' \<noteq> d \<or> PGNUM va' \<noteq> PGNUM va" for d' va'
      using entry_put_other [OF inv d that(1,2) ref(2) that(3)] .
    moreover have "pmem m' q = pmem m q" if "\<not> is_table m D q" for q using mem False t that by (auto simp: put_word_def)
    ultimately show ?thesis using e r(3) refs by (simp add: removed_def)
  qed
  then show ?thesis using r by blast
qed

lemma lib_page_unmap_ok:
  assumes r: "runs u K c d k" and mem: "mem_inv k (dirs k) K xs (\<lambda>_. 0)" and dst: "reaches u tid t td k" and va: "\<not> bad_va va"
  shows "\<exists>k' ys. lib_page_unmap u tid va k = Some (Val 0, k') \<and> runs u K c d k' \<and> core k' = core k \<and>
    mem_inv k' (dirs k) K ys (\<lambda>_. 0) \<and> removed (dirs k) xs ys k k' td va"
proof -
  let ?tf = "syscall_frame (u_frame u) 7 tid va 0 0 0"
  note e = entered_same [OF runsD(2) [OF r], of ?tf] and eo = entered_ok [OF r mem, where tf = ?tf]
  have td: "td \<in> dirs k" using dst kern_invD(9) [OF runsD(1) [OF r]] by (fastforce simp: reaches_def)
  obtain k2 ys where k2: "page_remove td va (entered u c ?tf k) = Some k2" "mem_inv k2 (dirs k) K ys (\<lambda>_. 0)"
    "removed (dirs k) xs ys (entered u c ?tf k) k2 td va"
    using page_remove_removed [OF eo(2) td not_bad_va [OF va]] by blast
  have "sys_page_unmap (u_cpu u) tid va (entered u c ?tf k) = Some (Ret 0, k2)"
    using eo(6) [OF dst] va k2(1) by (simp add: sys_page_unmap_def with_env_def reaches_def)
  then obtain k' where k': "lib_page_unmap u tid va k = Some (Val 0, k')" "core k' = core k"
    "pages k' = pages k2" "page_free_list k' = page_free_list k2" "pmem k' = pmem k2"
    using user_syscall_core [OF r _ more_core [OF more_page_remove [OF k2(1)]], where v = 0] by (auto simp: lib_page_unmap_def syscall_def)
  have mem': "mem_inv k' (dirs k) K ys (\<lambda>_. 0)" using k2(2) same_machine(1) [OF k'(3-5)] by blast
  have rem: "removed (dirs k) xs ys k k' td va" using k2(3) unfolding removed_same [OF e(2,4) k'(3,5) [symmetric]] .
  have "pmem k' q = pmem k q" if "q \<in> K" for q using rem mem_invD(7) [OF mem] that by (auto simp: removed_def)
  then have "runs u K c d k'" by (rule returned_ok [OF r k'(2) mem'])
  then show ?thesis using k'(1,2) mem' rem by blast
qed

end
