(* ===== verification/Lib_Fork_Props.thy ===== *)
theory Lib_Fork_Props
  imports Lib_User_Props
begin

unbundle bit_operations_syntax

text \<open>
  The page-fault handler of the library gives the program a private copy of a page, and \<^verbatim>\<open>fork\<close> shares all pages of the
  program with its child, copy on write.
\<close>

section \<open>Reading and copying pages\<close>

lemma load_bytes_entry:
  assumes inv: "mem_inv m D K xs ex" "d \<in> D"
    and "va < UTOP" "entry m d va AND PTE_P \<noteq> 0" "PGNUM (entry m d va) = p" "PGOFF va + n \<le> 4096"
  shows "load_bytes d va n m = Some (map (\<lambda>i. page_byte m p (PGOFF va + i)) [0..<n])"
  using assms(3-)
proof (induction n arbitrary: va)
  case (Suc n)
  have nz: "entry m d va \<noteq> 0" using Suc.prems(2) by auto
  have b: "load_byte d va m = Some (page_byte m p (PGOFF va))"
    using user_entry_of_eq [OF inv Suc.prems(1)] Suc.prems(2,3) mapped_frame(1) [OF inv Suc.prems(1) nz]
    by (simp add: load_byte_def pa2page_def page_byte_def byte_of_def byte_shift_def word_index_def low_bits)
  show ?case
  proof (cases "n = 0")
    case True
    then show ?thesis using b by simp
  next
    case False
    then have lt: "PGOFF va + 1 < 4096" using Suc.prems(4) by simp
    note nx = next_in_page [OF lt]
    have e: "entry m d (va + 1) = entry m d va" by (rule entry_same_page [OF nx(1)])
    have "load_bytes d (va + 1) n m = Some (map (\<lambda>i. page_byte m p (PGOFF va + Suc i)) [0..<n])"
      using Suc.IH [of "va + 1"] below_UTOP_page [OF nx(1) Suc.prems(1)] Suc.prems e nx(2) by simp
    moreover have "map (\<lambda>i. page_byte m p (PGOFF va + i)) [0..<Suc n] =
        page_byte m p (PGOFF va) # map (\<lambda>i. page_byte m p (PGOFF va + Suc i)) [0..<n]"
      by (simp only: upt_conv_Cons [OF zero_less_Suc] list.map add_0_right map_Suc_upt [symmetric] map_map comp_def)
    ultimately show ?thesis using b by simp
  qed
qed simp

lemma data_change_entry:
  assumes inv: "mem_inv m D K xs ex" and p: "p \<notin> D" "\<not> is_table m D p" and same: "\<And>q. q \<noteq> p \<Longrightarrow> pmem m' q = pmem m q"
    and d: "d \<in> D" "va < UTOP"
  shows "entry m' d va = entry m d va"
proof -
  have dir: "pmem m' d = pmem m d" using same [of d] p(1) d(1) by auto
  have "PGNUM (pmem m d (PDX va)) \<noteq> p" if "pmem m d (PDX va) \<noteq> 0" using pgdir_walk_False(2) [OF inv d that] p(2) by blast
  then show ?thesis using same by (simp add: entry_def dir)
qed

lemma present_entry:
  assumes "mem_inv m D K xs ex" "d \<in> D" "va < UTOP" "entry m d va \<noteq> 0"
  shows "entry m d va AND PTE_P \<noteq> 0" "pmem m d (PDX va) AND PTE_P \<noteq> 0" "pmem m d (PDX va) \<noteq> 0"
proof -
  note ref = entry_refers [OF assms]
  have pres: "all_present m D" by (rule mem_invD(12) [OF assms(1)])
  show "pmem m d (PDX va) \<noteq> 0" by (fact ref(2))
  then show "pmem m d (PDX va) AND PTE_P \<noteq> 0" using pres assms(2) PDX_user [OF assms(3)] by (simp add: all_present_def)
  have "is_table m D (PGNUM (pmem m d (PDX va)))" using pgdir_walk_False(2) [OF assms(1-3) ref(2)] .
  then show "entry m d va AND PTE_P \<noteq> 0" using pres assms(4) ref(2) by (simp add: all_present_def entry_def)
qed

lemma page_addr:
  assumes "unat va mod 4096 = 0"
  shows "PGOFF va = 0"
  using assms by (simp add: PGOFF_def)

lemma copy_page_ok:
  assumes r: "runs u K c d k" and mem: "mem_inv k (dirs k) K xs (\<lambda>_. 0)"
    and src: "src < UTOP" "entry k d src = w" "w \<noteq> 0" "w AND PTE_U \<noteq> 0" "unat src mod 4096 = 0"
    and dst: "dst < UTOP" "entry k d dst = w'" "w' AND PTE_P \<noteq> 0" "w' AND PTE_U \<noteq> 0" "w' AND PTE_W \<noteq> 0" "unat dst mod 4096 = 0"
  shows "\<exists>k'. copy_page u dst src k = Some (Val (), k') \<and> runs u K c d k' \<and> core k' = core k \<and> mem_inv k' (dirs k) K xs (\<lambda>_. 0) \<and>
    pages k' = pages k \<and> (\<forall>q. q \<noteq> PGNUM w' \<longrightarrow> pmem k' q = pmem k q) \<and>
    (\<forall>x < 4096. page_byte k' (PGNUM w') x = page_byte k (PGNUM w) x)"
proof -
  note R = runsD [OF r]
  have e: "entry k d src \<noteq> 0" using src(2,3) by simp
  note pr = present_entry [OF mem R(7) src(1) e]
  have m: "mapped k (dirs k) d dst (PGNUM w')" using R(7) dst by (simp add: mapped_def)
  note mp = mapped_page [OF mem m]
  have ld: "load_bytes d src 4096 k = Some (map (page_byte k (PGNUM w)) [0..<4096])"
    using load_bytes_entry [OF mem R(7) src(1) pr(1), of "PGNUM w" 4096] page_addr [OF src(5)] src(2) by simp
  let ?bs = "map (page_byte k (PGNUM w)) [0..<4096]"
  have len: "PGOFF dst + length ?bs \<le> 4096" using page_addr [OF dst(6)] by simp
  obtain k' where k': "store_bytes d dst ?bs k = Some k'" "mem_inv k' (dirs k) K xs (\<lambda>_. 0)" "machine.more k' = machine.more k"
    "\<forall>q. q \<noteq> PGNUM w' \<longrightarrow> pmem k' q = pmem k q" "pages k' = pages k"
    "\<forall>x. page_byte k' (PGNUM w') x = (if PGOFF dst \<le> x \<and> x < PGOFF dst + length ?bs then ?bs ! (x - PGOFF dst) else page_byte k (PGNUM w') x)"
    using store_bytes_mapped [OF mem m len] by blast
  have bytes: "page_byte k' (PGNUM w') x = page_byte k (PGNUM w) x" if "x < 4096" for x
    using k'(6) page_addr [OF dst(6)] that by (simp del: upt_rec_numeral)
  have w: "w' AND PTE_W = PTE_W" using dst(5) by (simp add: and_write split: if_splits)
  have may: "user_may d src 0 k" "user_may d dst PTE_W k"
    using user_entry_of_eq [OF mem R(7)] src(1,2,4) dst(1-4) w pr(1) by (simp_all add: user_may_def)
  have "copy_page u dst src k = Some (Val (), k')"
    using R(10) may ld k'(1) by (simp add: copy_page_def del: upt_rec_numeral)
  moreover have "core k' = core k" by (rule more_core [OF k'(3)])
  moreover have "pmem k' q = pmem k q" if "q \<in> K" for q using k'(4) mp(2) that by metis
  then have "runs u K c d k'" using returned_ok [OF r calculation(2) k'(2)] by blast
  ultimately show ?thesis using k' bytes by blast
qed

section \<open>The page-fault handler\<close>

lemma page_index: "PGNUM va div 1024 = PDX va" "PGNUM va mod 1024 = PTX va"
  by (simp_all add: PGNUM_div PDX_div PTX_div flip: div_mult2_eq)

lemma uvpt_entry:
  assumes "runs u K c d k" "pmem k d (PDX va) AND PTE_P \<noteq> 0" "pmem k d (PDX va) AND PTE_U \<noteq> 0"
  shows "uvpt u (PGNUM va) k = Some (Val (entry k d va), k)"
  using assms runsD(10) [OF assms(1)] by (auto simp: uvpt_def page_index entry_def)

text \<open>The test for a copy-on-write page never fails.\<close>

lemma cow_test: "(err AND 2) AND not_bit x = 0"
proof -
  have "(err AND 2) AND 1 = err AND (2 AND 1)" by (rule and.assoc)
  then show ?thesis by (simp add: not_bit_def)
qed

lemma new_entry:
  assumes "p < 2 ^ 20"
  shows "PGNUM (page2pa p OR 7 OR PTE_U OR PTE_P) = p" "(page2pa p OR 7 OR PTE_U OR PTE_P) AND PTE_P \<noteq> 0"
    "(page2pa p OR 7 OR PTE_U OR PTE_P) AND PTE_U \<noteq> 0" "(page2pa p OR 7 OR PTE_U OR PTE_P) AND PTE_W \<noteq> 0"
    "page2pa p OR 7 OR PTE_U OR PTE_P \<noteq> 0"
proof -
  show "PGNUM (page2pa p OR 7 OR PTE_U OR PTE_P) = p" by (simp add: PGNUM_entry [OF assms] drop_bit_eq_div)
  show u: "(page2pa p OR 7 OR PTE_U OR PTE_P) AND PTE_P \<noteq> 0" "(page2pa p OR 7 OR PTE_U OR PTE_P) AND PTE_U \<noteq> 0"
    using user_bits [of "page2pa p OR 7"] by (simp_all only: or.assoc) simp_all
  then show "page2pa p OR 7 OR PTE_U OR PTE_P \<noteq> 0" by auto
  have "bit (7 :: 32 word) 1" by (simp add: bit_iff_odd)
  then have "bit (page2pa p OR 7 OR PTE_U OR PTE_P) 1" by (simp add: bit_or_iff)
  then show "(page2pa p OR 7 OR PTE_U OR PTE_P) AND PTE_W \<noteq> 0" by (simp only: and_write) simp
qed

lemma round_page:
  assumes "va < UTOP"
  shows "\<not> bad_va (ROUNDDOWN va PGSIZE)" "PGNUM (ROUNDDOWN va PGSIZE) = PGNUM va" "unat (ROUNDDOWN va PGSIZE) mod 4096 = 0"
    "ROUNDDOWN va PGSIZE < UTOP"
proof -
  show n: "PGNUM (ROUNDDOWN va PGSIZE) = PGNUM va" "unat (ROUNDDOWN va PGSIZE) mod 4096 = 0" by (simp_all add: PGNUM_div unat_rounddown)
  then show lt: "ROUNDDOWN va PGSIZE < UTOP" using below_UTOP_page assms by blast
  have "ROUNDDOWN va PGSIZE mod 4096 = 0" using n(2) by (simp add: unat_eq_zero [symmetric] unat_mod_distrib del: unat_eq_zero)
  then show "\<not> bad_va (ROUNDDOWN va PGSIZE)" using lt by (simp add: bad_va_def not_le)
qed

lemma andthen_Val: "m k = Some (Val x, k') \<Longrightarrow> andthen m f k = f x k'"
  by (simp add: andthen_def)

lemma demand_Val: "m k = Some (Val x, k') \<Longrightarrow> 0 \<le> x \<Longrightarrow> demand m f k = f x k'"
  by (simp add: demand_def andthen_def)

lemma pftemp: "\<not> bad_va PFTEMP" "unat PFTEMP mod 4096 = 0" "PFTEMP < UTOP"
  by (simp_all add: bad_va_def)

text \<open>The first half of the handler: a new page at \<^verbatim>\<open>PFTEMP\<close> with the bytes of the old one.\<close>

lemma pgfault_copy:
  assumes r: "runs u K c d k" and mem: "mem_inv k (dirs k) K (p # xs) (\<lambda>_. 0)"
    and va: "va < UTOP" "entry k d va = w" "w \<noteq> 0" "w AND PTE_U \<noteq> 0" "unat va mod 4096 = 0" "PGNUM va \<noteq> PGNUM PFTEMP"
    and room: "xs \<noteq> [] \<or> pmem k d (PDX PFTEMP) \<noteq> 0"
  shows "\<exists>k1 k2 ys. lib_page_alloc u 0 PFTEMP 7 k = Some (Val 0, k1) \<and> copy_page u PFTEMP va k1 = Some (Val (), k2) \<and>
    runs u K c d k2 \<and> core k2 = core k \<and> mem_inv k2 (dirs k) K ys (\<lambda>_. 0) \<and> entry k2 d PFTEMP = page2pa p OR 7 OR PTE_U OR PTE_P \<and>
    (\<forall>d' \<in> dirs k. \<forall>a < UTOP. d' \<noteq> d \<or> PGNUM a \<noteq> PGNUM PFTEMP \<longrightarrow> entry k2 d' a = entry k d' a) \<and>
    (\<forall>x < 4096. page_byte k2 p x = page_byte k (PGNUM w) x) \<and> pmem k2 (PGNUM w) = pmem k (PGNUM w) \<and>
    unat (pp_ref (pages k2 ! p)) < 65535"
proof -
  note R = runsD [OF r]
  have e: "entry k d va \<noteq> 0" using va(2,3) by simp
  note fr = mapped_frame [OF mem R(7) va(1) e, unfolded va(2)]
  have p: "p < npages k" "p \<notin> K" "p \<notin> dirs k" "pp_ref (pages k ! p) = 0"
    using free_page [OF mem, of p] mem_invD(11) [OF mem, of p] by simp_all
  have p20: "p < 2 ^ 20" using p(1) mem_invD(1) [OF mem] by simp
  note ne = new_entry [OF p20]
  obtain k1 ys where k1: "lib_page_alloc u 0 PFTEMP 7 k = Some (Val 0, k1)" "runs u K c d k1" "core k1 = core k"
    "mem_inv k1 (dirs k) K ys (\<lambda>_. 0)" "inserted (dirs k) (p # xs) (p # ys) k k1 d PFTEMP (page2pa p OR 7 OR PTE_U OR PTE_P)"
    using lib_page_alloc_ok [OF r mem reaches_self [OF r] pftemp(1) _ room, of 7] by auto
  have d1: "dirs k1 = dirs k" by (rule core_used(2) [OF k1(3) R(9)])
  have e1: "entry k1 d PFTEMP = page2pa p OR 7 OR PTE_U OR PTE_P"
    "\<And>d' a. d' \<in> dirs k \<Longrightarrow> a < UTOP \<Longrightarrow> d' \<noteq> d \<or> PGNUM a \<noteq> PGNUM PFTEMP \<Longrightarrow> entry k1 d' a = entry k d' a"
    "pmem k1 (PGNUM w) = pmem k (PGNUM w)" using k1(5) fr unfolding inserted_def by blast+
  have w1: "entry k1 d va = w" using e1(2) [OF R(7) va(1)] va(2,6) by simp
  have m1: "mem_inv k1 (dirs k1) K ys (\<lambda>_. 0)" using k1(4) d1 by simp
  have pw: "p \<noteq> PGNUM w" using fr(5) by auto
  obtain k2 where k2: "copy_page u PFTEMP va k1 = Some (Val (), k2)" "runs u K c d k2" "core k2 = core k1" "mem_inv k2 (dirs k1) K ys (\<lambda>_. 0)"
    "pages k2 = pages k1" "\<forall>q. q \<noteq> p \<longrightarrow> pmem k2 q = pmem k1 q" "\<forall>x < 4096. page_byte k2 p x = page_byte k1 (PGNUM w) x"
    using copy_page_ok [OF k1(2) m1 va(1) w1 va(3,4,5) pftemp(3) e1(1) ne(2-4) pftemp(2)] unfolding ne(1) by blast
  have f1: "\<not> is_table k1 (dirs k) p" "p \<notin> dirs k"
    using mapped_frame [OF k1(4) R(7) pftemp(3)] e1(1) ne by simp_all
  have e2: "entry k2 d' a = entry k1 d' a" if "d' \<in> dirs k" "a < UTOP" for d' a
    by (rule data_change_entry [OF k1(4) f1(2,1) _ that]) (use k2(6) in blast)
  have "\<forall>q < npages k. \<not> is_table k1 (dirs k) q \<longrightarrow> unat (pp_ref (pages k1 ! q)) \<le>
      unat (pp_ref (pages k ! q)) + (if q = PGNUM (page2pa p OR 7 OR PTE_U OR PTE_P) then 1 else 0)"
    using k1(5) unfolding inserted_def by blast
  from this [rule_format, OF p(1) f1(1)] have "unat (pp_ref (pages k1 ! p)) \<le> 1" using p(4) by (simp split: if_splits)
  moreover have "page_byte k1 (PGNUM w) x = page_byte k (PGNUM w) x" for x using e1(3) by (simp add: page_byte_def)
  ultimately show ?thesis using k1(1,3) k2 d1 e1 e2 R(7) pw by (intro exI [of _ k1] exI [of _ k2] exI [of _ ys]) auto
qed

text \<open>The second half: the new page moves to the address of the old one.\<close>

lemma pgfault_move:
  assumes r: "runs u K c d k" and mem: "mem_inv k (dirs k) K ys (\<lambda>_. 0)" and p: "p < 2 ^ 20"
    and t: "entry k d PFTEMP = page2pa p OR 7 OR PTE_U OR PTE_P" "unat (pp_ref (pages k ! p)) < 65535"
    and va: "va < UTOP" "\<not> bad_va va" "entry k d va = w" "w \<noteq> 0" "PGNUM va \<noteq> PGNUM PFTEMP"
  shows "\<exists>k1 k2 zs. lib_page_map u 0 PFTEMP 0 va 7 k = Some (Val 0, k1) \<and> lib_page_unmap u 0 PFTEMP k1 = Some (Val 0, k2) \<and>
    runs u K c d k2 \<and> core k2 = core k \<and> mem_inv k2 (dirs k) K zs (\<lambda>_. 0) \<and> entry k2 d va = page2pa p OR 7 OR PTE_U OR PTE_P \<and>
    entry k2 d PFTEMP = 0 \<and> pmem k2 p = pmem k p \<and> pmem k2 (PGNUM w) = pmem k (PGNUM w) \<and>
    (\<forall>d' \<in> dirs k. \<forall>a < UTOP. d' \<noteq> d \<or> PGNUM a \<noteq> PGNUM PFTEMP \<and> PGNUM a \<noteq> PGNUM va \<longrightarrow> entry k2 d' a = entry k d' a)"
proof -
  note R = runsD [OF r] and ne = new_entry [OF p]
  have e: "entry k d va \<noteq> 0" "entry k d PFTEMP \<noteq> 0" using va t ne(5) by simp_all
  note fw = mapped_frame [OF mem R(7) va(1) e(1), unfolded va(3)]
  note fp = mapped_frame [OF mem R(7) pftemp(3) e(2), unfolded t(1) ne(1)]
  have pde: "pmem k d (PDX va) \<noteq> 0" by (rule present_entry(3) [OF mem R(7) va(1) e(1)])
  obtain k1 zs where k1: "lib_page_map u 0 PFTEMP 0 va 7 k = Some (Val 0, k1)" "runs u K c d k1" "core k1 = core k"
    "mem_inv k1 (dirs k) K zs (\<lambda>_. 0)" "inserted (dirs k) ys zs k k1 d va (page2pa p OR 7 OR PTE_U OR PTE_P)"
    using lib_page_map_ok [OF r mem reaches_self [OF r] reaches_self [OF r] pftemp(1) va(2) t(1) ne(5), of 7] ne(1,4) t(2) pde
    by (auto simp: drop_bit_eq_div)
  have d1: "dirs k1 = dirs k" by (rule core_used(2) [OF k1(3) R(9)])
  have m1: "mem_inv k1 (dirs k1) K zs (\<lambda>_. 0)" using k1(4) d1 by simp
  obtain k2 ws where k2: "lib_page_unmap u 0 PFTEMP k1 = Some (Val 0, k2)" "runs u K c d k2" "core k2 = core k1"
    "mem_inv k2 (dirs k1) K ws (\<lambda>_. 0)" "removed (dirs k1) zs ws k1 k2 d PFTEMP"
    using lib_page_unmap_ok [OF k1(2) m1 reaches_self [OF k1(2)] pftemp(1)] by blast
  have tab: "is_table k1 (dirs k) = is_table k (dirs k)" using k1(5) pde by (intro ext) (simp add: is_table_def inserted_def)
  have mem1: "pmem k1 q = pmem k q" if "q = p \<or> q = PGNUM w" for q using k1(5) that fw fp unfolding inserted_def by blast
  have mem2: "pmem k2 q = pmem k1 q" if "q = p \<or> q = PGNUM w" for q using k2(5) that fw fp tab unfolding removed_def d1 by auto
  have ent1: "entry k1 d va = page2pa p OR 7 OR PTE_U OR PTE_P"
    "\<And>d' a. d' \<in> dirs k \<Longrightarrow> a < UTOP \<Longrightarrow> d' \<noteq> d \<or> PGNUM a \<noteq> PGNUM va \<Longrightarrow> entry k1 d' a = entry k d' a"
    using k1(5) unfolding inserted_def by blast+
  have ent2: "entry k2 d PFTEMP = 0"
    "\<And>d' a. d' \<in> dirs k \<Longrightarrow> a < UTOP \<Longrightarrow> d' \<noteq> d \<or> PGNUM a \<noteq> PGNUM PFTEMP \<Longrightarrow> entry k2 d' a = entry k1 d' a"
    using k2(5) unfolding removed_def d1 by blast+
  have "entry k2 d va = page2pa p OR 7 OR PTE_U OR PTE_P" using ent2(2) [OF R(7) va(1)] ent1(1) va(5) by simp
  then show ?thesis using k1(1,3) k2(1-4) d1 ent1(2) ent2 mem1 mem2 R(7) by (intro exI [of _ k1] exI [of _ k2] exI [of _ ws]) auto
qed

lemma pgfault_ok:
  assumes r: "runs u K c d k" and mem: "mem_inv k (dirs k) K (p # xs) (\<lambda>_. 0)"
    and va: "va < UTOP" "entry k d va = w" "w \<noteq> 0" "w AND PTE_U \<noteq> 0" "pmem k d (PDX va) AND PTE_U \<noteq> 0" "PGNUM va \<noteq> PGNUM PFTEMP"
    and room: "xs \<noteq> [] \<or> pmem k d (PDX PFTEMP) \<noteq> 0"
  shows "\<exists>k' zs. pgfault u va err k = Some (Val (), k') \<and> runs u K c d k' \<and> core k' = core k \<and> mem_inv k' (dirs k) K zs (\<lambda>_. 0) \<and>
    entry k' d va = page2pa p OR 7 OR PTE_U OR PTE_P \<and> entry k' d PFTEMP = 0 \<and>
    (\<forall>x < 4096. page_byte k' p x = page_byte k (PGNUM w) x) \<and> pmem k' (PGNUM w) = pmem k (PGNUM w) \<and>
    (\<forall>d' \<in> dirs k. \<forall>a < UTOP. d' \<noteq> d \<or> PGNUM a \<noteq> PGNUM PFTEMP \<and> PGNUM a \<noteq> PGNUM va \<longrightarrow> entry k' d' a = entry k d' a)"
proof -
  note R = runsD [OF r]
  let ?a = "ROUNDDOWN va PGSIZE"
  note rp = round_page [OF va(1)]
  have same: "entry m d' ?a = entry m d' va" for m :: kernel and d' by (rule entry_same_page [OF rp(2)])
  have e: "entry k d va \<noteq> 0" using va(2,3) by simp
  have p: "p < 2 ^ 20" using free_page(5) [OF mem, of p] mem_invD(1) [OF mem] by simp
  have wa: "entry k d ?a = w" using same va(2) by simp
  have na: "PGNUM ?a \<noteq> PGNUM PFTEMP" using rp(2) va(6) by simp
  have pte: "uvpt u (PGNUM va) k = Some (Val w, k)"
    using uvpt_entry [OF r present_entry(2) [OF mem R(7) va(1) e] va(5)] va(2) by simp
  obtain k1 k2 ys where h1: "lib_page_alloc u 0 PFTEMP 7 k = Some (Val 0, k1)" "copy_page u PFTEMP ?a k1 = Some (Val (), k2)"
    "runs u K c d k2" "core k2 = core k" "mem_inv k2 (dirs k) K ys (\<lambda>_. 0)" "entry k2 d PFTEMP = page2pa p OR 7 OR PTE_U OR PTE_P"
    "\<forall>d' \<in> dirs k. \<forall>a < UTOP. d' \<noteq> d \<or> PGNUM a \<noteq> PGNUM PFTEMP \<longrightarrow> entry k2 d' a = entry k d' a"
    "\<forall>x < 4096. page_byte k2 p x = page_byte k (PGNUM w) x" "pmem k2 (PGNUM w) = pmem k (PGNUM w)" "unat (pp_ref (pages k2 ! p)) < 65535"
    using pgfault_copy [OF r mem rp(4) wa va(3,4) rp(3) na room] by blast
  have d2: "dirs k2 = dirs k" by (rule core_used(2) [OF h1(4) R(9)])
  have m2: "mem_inv k2 (dirs k2) K ys (\<lambda>_. 0)" using h1(5) d2 by simp
  have w2: "entry k2 d ?a = w" using h1(7) R(7) rp(4) na wa by simp
  obtain k3 k4 zs where h2: "lib_page_map u 0 PFTEMP 0 ?a 7 k2 = Some (Val 0, k3)" "lib_page_unmap u 0 PFTEMP k3 = Some (Val 0, k4)"
    "runs u K c d k4" "core k4 = core k2" "mem_inv k4 (dirs k) K zs (\<lambda>_. 0)" "entry k4 d ?a = page2pa p OR 7 OR PTE_U OR PTE_P"
    "entry k4 d PFTEMP = 0" "pmem k4 p = pmem k2 p" "pmem k4 (PGNUM w) = pmem k2 (PGNUM w)"
    "\<forall>d' \<in> dirs k. \<forall>a < UTOP. d' \<noteq> d \<or> PGNUM a \<noteq> PGNUM PFTEMP \<and> PGNUM a \<noteq> PGNUM ?a \<longrightarrow> entry k4 d' a = entry k2 d' a"
    using pgfault_move [OF h1(3) m2 p h1(6,10) rp(4,1) w2 va(3) na] unfolding d2 by blast
  have "pgfault u va err k = Some (Val (), k4)"
    using cow_test [of err] pte h1(1,2) h2(1,2) by (simp add: pgfault_def Let_def demand_def andthen_def ret_def)
  moreover have "page_byte k4 p x = page_byte k2 p x" for x using h2(8) by (simp add: page_byte_def)
  ultimately show ?thesis using h1 h2 same rp(2) by (intro exI [of _ k4] exI [of _ zs]) auto
qed

end
