(* ===== verification/Lib_Child_Props.thy ===== *)
theory Lib_Child_Props
  imports Lib_Fork_Props
begin

unbundle bit_operations_syntax

text \<open>What \<^verbatim>\<open>sys_exofork\<close> and the calls on the new child do, as \<^verbatim>\<open>fork\<close> uses them.\<close>

section \<open>A new environment\<close>

lemma env_setup_vm_refs:
  assumes "env_setup_vm e k = (0, k')" "mem_inv k D K (p # xs) ex" "q < npages k" "q \<noteq> p"
  shows "pp_ref (pages k' ! q) = pp_ref (pages k ! q)"
proof -
  obtain m1 where al: "page_alloc True k = (Some p, m1)" "\<forall>q < npages k. pp_ref (pages m1 ! q) = pp_ref (pages k ! q)" "npages m1 = npages k"
    using page_alloc_inv [OF assms(2), of True] by (auto split: prod.splits option.splits)
  show ?thesis using assms(1,3,4) al by (auto simp: env_setup_vm_def Let_def upd_page_def put_word_def upd_env_def npages_def)
qed

text \<open>The environment record that \<^verbatim>\<open>env_alloc\<close> sets up, with a directory.\<close>

definition fresh_env :: "32 word \<Rightarrow> nat \<Rightarrow> nat \<Rightarrow> environment \<Rightarrow> environment" where
  "fresh_env parent e p x = x\<lparr>env_pgdir := Some p, env_id := next_generation (env_id x) OR of_nat e, env_parent_id := parent,
     env_type := ENV_TYPE_USER, env_status := ENV_RUNNABLE, env_runs := 0, env_tf := user_tf, env_pgfault_upcall := 0, env_ipc_recving := False\<rparr>"

lemma free_env_bound:
  assumes "kern_inv cpu K k" "env_free_list k = Some e"
  shows "e < NENV" "\<not> used k e"
proof -
  obtain fs where fs: "envs_inv k fs" using assms(1) by (rule kern_invE)
  then have "el.free_listed k fs" "length (envs k) = NENV" by (simp_all add: envs_inv_def)
  then obtain gs where g: "fs = e # gs" "e < NENV" using el.free_listed_cons [of k fs e] assms(2) by auto
  then show "e < NENV" by simp
  show "\<not> used k e" using fs g unfolding envs_inv_def by (auto simp: used_def)
qed

lemma env_alloc_ok:
  assumes inv: "kern_inv cpu K k" and mem: "mem_inv k (dirs k) K (p # xs) (\<lambda>_. 0)" and e: "env_free_list k = Some e"
  shows "\<exists>k'. env_alloc parent k = (0, Some e, k') \<and> kern_inv cpu K k' \<and> cpu_env k' = cpu_env k \<and>
    envs k' = (envs k)[e := fresh_env parent e p (envs k ! e)] \<and> dirs k' = insert p (dirs k) \<and>
    mem_inv k' (insert p (dirs k)) K xs (\<lambda>_. 0) \<and> (\<forall>q. q \<noteq> p \<longrightarrow> pmem k' q = pmem k q) \<and> (\<forall>i < 955. pmem k' p i = 0) \<and>
    npages k' = npages k \<and> (\<forall>q < npages k. q \<noteq> p \<longrightarrow> pp_ref (pages k' ! q) = pp_ref (pages k ! q))"
proof -
  have len: "length (envs k) = NENV" by (rule kern_invD(5) [OF inv])
  note eb = free_env_bound [OF inv e]
  obtain k1 where k1: "env_setup_vm e k = (0, k1)" "mem_inv k1 (insert p (dirs k)) K xs (\<lambda>_. 0)" "npages k1 = npages k"
    "envs k1 = (envs k)[e := (envs k ! e)\<lparr>env_pgdir := Some p\<rparr>]" "env_free_list k1 = env_free_list k"
    "cpu_env k1 = cpu_env k" "\<forall>q. q \<noteq> p \<longrightarrow> pmem k1 q = pmem k q" "\<forall>i < 955. pmem k1 p i = 0"
    using env_setup_vm_mem [OF mem kern_invD(2,1) [OF inv], of e] eb(1) len by auto
  define k2 where "k2 = k1\<lparr>envs := (envs k)[e := fresh_env parent e p (envs k ! e)]\<rparr>"
  have al: "env_alloc parent k = (0, Some e, env_pop k2)"
    using e k1(1,4) len eb(1) by (simp add: env_alloc_def Let_def upd_env_def k2_def fresh_env_def)
  have pop: "envs (env_pop k2) = (envs k)[e := fresh_env parent e p (envs k ! e)]" "cpu_env (env_pop k2) = cpu_env k"
    "pages (env_pop k2) = pages k1" "pmem (env_pop k2) = pmem k1" "page_free_list (env_pop k2) = page_free_list k1"
    using k1(6) by (simp_all add: env_pop_def k2_def split: option.split)
  have inv': "kern_inv cpu K (env_pop k2)" using env_alloc_inv [OF inv, of parent] al by auto
  have mem': "mem_inv (env_pop k2) (insert p (dirs k)) K xs (\<lambda>_. 0)" using k1(2) same_machine(1) [OF pop(3,5,4)] by blast
  have us: "used (env_pop k2) f \<longleftrightarrow> f = e \<or> used k f" for f
    using pop(1) len eb(1) by (auto simp: used_def nth_list_update fresh_env_def)
  have dir: "env_pgdir (envs (env_pop k2) ! f) = (if f = e then Some p else env_pgdir (envs k ! f))" for f
    using pop(1) len eb(1) by (simp add: nth_list_update fresh_env_def)
  have "x \<in> dirs (env_pop k2) \<longleftrightarrow> x = p \<or> x \<in> dirs k" for x
  proof -
    have "(\<exists>f. (f = e \<or> used k f) \<and> (if f = e then Some p else env_pgdir (envs k ! f)) = Some x) \<longleftrightarrow>
        x = p \<or> (\<exists>f. used k f \<and> f \<noteq> e \<and> env_pgdir (envs k ! f) = Some x)" by (auto split: if_splits)
    moreover have "used k f \<and> f \<noteq> e \<and> P \<longleftrightarrow> used k f \<and> P" for f P using eb(2) by auto
    ultimately show ?thesis by (simp add: dirs_def us dir)
  qed
  then have "dirs (env_pop k2) = insert p (dirs k)" by blast
  moreover have "npages (env_pop k2) = npages k" using pop(3) k1(3) by (simp add: npages_def)
  ultimately show ?thesis using al inv' pop mem' k1(7,8) env_setup_vm_refs [OF k1(1) mem] by (intro exI [of _ "env_pop k2"]) simp
qed

section \<open>The system call\<close>

text \<open>The new child: its own directory, without pages, and a frame that returns 0 from the call.\<close>

definition child_of :: "uctx \<Rightarrow> nat \<Rightarrow> nat \<Rightarrow> nat \<Rightarrow> kernel \<Rightarrow> kernel \<Rightarrow> bool" where
  "child_of u c e p k k' \<longleftrightarrow> reaches u (env_id (envs k' ! e)) e p k' \<and> 0 < sint (env_id (envs k' ! e)) \<and>
     env_status (envs k' ! e) = ENV_NOT_RUNNABLE \<and>
     env_tf (envs k' ! e) = (exofork_frame (u_frame u))\<lparr>tf_regs := (tf_regs (u_frame u))\<lparr>reg_eax := 0\<rparr>\<rparr> \<and>
     dirs k' = insert p (dirs k) \<and> (\<forall>q. q \<noteq> p \<longrightarrow> pmem k' q = pmem k q) \<and> (\<forall>i < 955. pmem k' p i = 0) \<and>
     npages k' = npages k \<and> (\<forall>q < npages k. q \<noteq> p \<longrightarrow> pp_ref (pages k' ! q) = pp_ref (pages k ! q)) \<and>
     env_pgfault_upcall (envs k' ! c) = env_pgfault_upcall (envs k ! c)"

lemma sys_exofork_ok:
  assumes inv: "kern_inv cpu K k" and mem: "mem_inv k (dirs k) K (p # xs) (\<lambda>_. 0)" and e: "env_free_list k = Some e"
    and cur: "cpu_env k cpu = Some c" "env_status (envs k ! c) = ENV_RUNNING"
  shows "\<exists>k'. sys_exofork cpu k = Some (Ret (sint (env_id (envs k' ! e))), k') \<and> kern_inv cpu K k' \<and> cpu_env k' = cpu_env k \<and>
    envs k' = (envs k)[e := (fresh_env (env_id (envs k ! c)) e p (envs k ! e))\<lparr>env_status := ENV_NOT_RUNNABLE,
      env_tf := (env_tf (envs k ! c))\<lparr>tf_regs := (tf_regs (env_tf (envs k ! c)))\<lparr>reg_eax := 0\<rparr>\<rparr>, priority := priority (envs k ! c)\<rparr>] \<and>
    dirs k' = insert p (dirs k) \<and> mem_inv k' (insert p (dirs k)) K xs (\<lambda>_. 0) \<and> (\<forall>q. q \<noteq> p \<longrightarrow> pmem k' q = pmem k q) \<and>
    (\<forall>i < 955. pmem k' p i = 0) \<and> npages k' = npages k \<and> (\<forall>q < npages k. q \<noteq> p \<longrightarrow> pp_ref (pages k' ! q) = pp_ref (pages k ! q))"
proof -
  have len: "length (envs k) = NENV" by (rule kern_invD(5) [OF inv])
  note eb = free_env_bound [OF inv e]
  have uc: "used k c" by (rule kern_invD(4) [OF inv cur(1)])
  then have ce: "c \<noteq> e" using eb(2) by auto
  obtain k1 where k1: "env_alloc (env_id (envs k ! c)) k = (0, Some e, k1)" "kern_inv cpu K k1" "cpu_env k1 = cpu_env k"
    "envs k1 = (envs k)[e := fresh_env (env_id (envs k ! c)) e p (envs k ! e)]" "dirs k1 = insert p (dirs k)"
    "mem_inv k1 (insert p (dirs k)) K xs (\<lambda>_. 0)" "\<forall>q. q \<noteq> p \<longrightarrow> pmem k1 q = pmem k q" "\<forall>i < 955. pmem k1 p i = 0"
    "npages k1 = npages k" "\<forall>q < npages k. q \<noteq> p \<longrightarrow> pp_ref (pages k1 ! q) = pp_ref (pages k ! q)"
    using env_alloc_ok [OF inv mem e, of "env_id (envs k ! c)"] by blast
  let ?g = "\<lambda>x :: environment. x\<lparr>env_status := ENV_NOT_RUNNABLE,
      env_tf := (env_tf (envs k ! c))\<lparr>tf_regs := (tf_regs (env_tf (envs k ! c)))\<lparr>reg_eax := 0\<rparr>\<rparr>, priority := priority (envs k ! c)\<rparr>"
  have c1: "envs k1 ! c = envs k ! c" using k1(4) ce by simp
  have e1: "used k1 e" "e < length (envs k1)" "envs k1 ! e = fresh_env (env_id (envs k ! c)) e p (envs k ! e)"
    using k1(4) len eb(1) by (simp_all add: used_def fresh_env_def)
  let ?k2 = "upd_env e ?g k1"
  have sys: "sys_exofork cpu k = Some (Ret (sint (env_id (envs ?k2 ! e))), ?k2)"
    using cur(1) k1(1) c1 e1(2) by (simp add: sys_exofork_def Let_def)
  have inv2: "kern_inv cpu K ?k2" by (rule kern_inv_upd [OF k1(2) e1(1)]) (use kern_invD(7) [OF k1(2)] e1(1) in \<open>simp_all add: used_def\<close>)
  have "used ?k2 = used k1" by (rule used_upd) (use kern_invD(5) [OF k1(2)] e1(1) in simp_all)
  moreover have "env_pgdir (envs ?k2 ! f) = env_pgdir (envs k1 ! f)" if "used k1 f" for f
    using that kern_invD(5) [OF k1(2)] by (simp add: used_def)
  ultimately have d2: "dirs ?k2 = dirs k1" unfolding dirs_def by (metis (no_types, lifting))
  have "mem_inv ?k2 (insert p (dirs k)) K xs (\<lambda>_. 0)" using k1(6) same_machine(1) [of ?k2 k1] by simp
  moreover have "envs ?k2 = (envs k)[e := ?g (fresh_env (env_id (envs k ! c)) e p (envs k ! e))]"
    using k1(4) len eb(1) by (simp add: upd_env_def)
  ultimately show ?thesis
    using sys inv2 k1 d2 by (intro exI [of _ ?k2]) (simp add: npages_def)
qed

lemma lib_exofork_ok:
  assumes r: "runs u K c d k" and mem: "mem_inv k (dirs k) K (p # xs) (\<lambda>_. 0)" and e: "env_free_list k = Some e"
  shows "\<exists>k'. lib_exofork u k = Some (Val (sint (env_id (envs k' ! e))), k') \<and> runs u K c d k' \<and>
    mem_inv k' (dirs k') K xs (\<lambda>_. 0) \<and> child_of u c e p k k'"
proof -
  note R = runsD [OF r]
  let ?tf = "exofork_frame (u_frame u)"
  let ?k1 = "entered u c ?tf k"
  note en = entered_same [OF R(2), of ?tf] and eo = entered_ok [OF r mem, where tf = ?tf]
  have fe: "env_free_list ?k1 = Some e" "cpu_env ?k1 (u_cpu u) = Some c" using core_eq [OF en(1)] e R(2) by simp_all
  note eb = free_env_bound [OF R(1) e]
  have ce: "c \<noteq> e" using eb(2) R(6) by auto
  have c1: "envs ?k1 ! c = (envs k ! c)\<lparr>env_tf := ?tf\<rparr>" "envs ?k1 ! e = envs k ! e" "length (envs ?k1) = NENV"
    using R(8,9) eb(1) ce by (simp_all add: entered_def)
  let ?x = "(fresh_env (env_id (envs k ! c)) e p (envs k ! e))\<lparr>env_status := ENV_NOT_RUNNABLE,
      env_tf := ?tf\<lparr>tf_regs := (tf_regs ?tf)\<lparr>reg_eax := 0\<rparr>\<rparr>, priority := priority (envs k ! c)\<rparr>"
  obtain k2 where k2: "sys_exofork (u_cpu u) ?k1 = Some (Ret (sint (env_id (envs k2 ! e))), k2)" "kern_inv (u_cpu u) K k2"
    "cpu_env k2 = cpu_env ?k1" "envs k2 = (envs ?k1)[e := ?x]" "dirs k2 = insert p (dirs k)" "mem_inv k2 (insert p (dirs k)) K xs (\<lambda>_. 0)"
    "\<forall>q. q \<noteq> p \<longrightarrow> pmem k2 q = pmem k q" "\<forall>i < 955. pmem k2 p i = 0" "npages k2 = npages k"
    "\<forall>q < npages k. q \<noteq> p \<longrightarrow> pp_ref (pages k2 ! q) = pp_ref (pages k ! q)"
    using sys_exofork_ok [OF eo(1) _ fe, of p xs] eo(2) R(3) c1 unfolding eo(3,5) en by auto
  have len2: "length (envs k2) = NENV" using k2(4) c1(3) by simp
  have e2: "envs k2 ! e = ?x" "envs k2 ! c = (envs k ! c)\<lparr>env_tf := ?tf\<rparr>" using k2(4) c1 eb(1) ce by simp_all
  have run2: "cpu_env k2 (u_cpu u) = Some c" "c < length (envs k2)" "env_status (envs k2 ! c) = ENV_RUNNING"
    using k2(3) fe(2) R(3,8,9) len2 e2(2) by simp_all
  let ?id = "sint (env_id (envs k2 ! e))"
  let ?k' = "resumed u c ?id k2"
  note rs = resumed_same [OF run2, where v = ?id]
  have e': "envs ?k' ! e = ?x" using rs(6) [of e] eb(1) len2 ce e2(1) by simp
  have call: "lib_exofork u k = Some (Val (sint (env_id (envs ?k' ! e))), ?k')"
    unfolding lib_exofork_def using trap_call_ret [OF r _ _ _ run2, of ?tf ?id False] k2(1) e' e2(1)
    by (simp add: exofork_frame_def syscall_def)
  have cu: "used ?k' = used k2" "dirs ?k' = dirs k2" using core_used [OF rs(1) len2] by simp_all
  have mem': "mem_inv ?k' (dirs k2) K xs (\<lambda>_. 0)" using k2(5,6) same_machine(1) [OF rs(2-4)] by simp
  have inv': "kern_inv (u_cpu u) K ?k'" by (rule core_inv [OF k2(2) rs(1) mem']) (simp add: rs(4))
  have cc: "env_core (envs ?k' ! c) = env_core (envs k2 ! c)" by (rule core_eq(5) [OF rs(1) run2(2)])
  note cf = env_core_eq [OF cc]
  have cpu': "cpu_env ?k' (u_cpu u) = Some c" using core_eq(3) [OF rs(1)] run2(1) by simp
  have "runs u K c d ?k'" using inv' cpu' cf e2(2) run2(3) R(4,5) by (simp add: runs_def)
  moreover have "child_of u c e p k ?k'"
  proof -
    note nid = next_id [OF eb(1) kern_invD(6) [OF R(1) eb(1)]]
    have id: "env_id ?x = next_generation (env_id (envs k ! e)) OR of_nat e" "env_parent_id ?x = env_id (envs k ! c)" "env_pgdir ?x = Some p"
      by (simp_all add: fresh_env_def)
    have "env_id ?x \<noteq> 0" using nid(1) id(1) by auto
    then have "reaches u (env_id (envs ?k' ! e)) e p ?k'"
      using cpu' cf(1) e2(2) e' id nid(2) ce cu(1) len2 eb(1) e2(1) by (simp add: reaches_def envid2env_def Let_def used_def)
    then show ?thesis using e' nid(1) id(1) cu(2) k2(5,7-10) rs(2,4) cf(7) e2(2)
      by (simp add: child_of_def npages_def exofork_frame_def)
  qed
  ultimately show ?thesis using call mem' cu(2) by auto
qed

end
