(* ===== verification/Kern_Load_Props.thy ===== *)
theory Kern_Load_Props
  imports Kern_Load Kern_Boot_Init Lib_Child_Props
begin

unbundle bit_operations_syntax

text \<open>
  Loading a program: after \<^verbatim>\<open>env_create\<close> the new environment has a directory of its own whose pages hold the segments of the image
  followed by zeros, a page for its stack and nothing else, and no other environment sees a change.
\<close>

section \<open>Address spaces by bytes\<close>

text \<open>The byte that a directory shows at an address, and directories whose pages are mapped once and nowhere else.\<close>

definition umem :: "'a machine_scheme \<Rightarrow> nat \<Rightarrow> 32 word \<Rightarrow> 8 word option" where
  "umem m d va = (if entry m d va = 0 then None else Some (page_byte m (PGNUM (entry m d va)) (PGOFF va)))"

definition unshared :: "'a machine_scheme \<Rightarrow> nat set \<Rightarrow> nat \<Rightarrow> bool" where
  "unshared m D d \<longleftrightarrow> (\<forall>va < UTOP. entry m d va \<noteq> 0 \<longrightarrow> (\<forall>d' \<in> D. \<forall>va' < UTOP. entry m d' va' \<noteq> 0 \<and>
     PGNUM (entry m d' va') = PGNUM (entry m d va) \<longrightarrow> d' = d \<and> PGNUM va' = PGNUM va))"

lemma unsharedD:
  assumes "unshared m D d" "va < UTOP" "entry m d va \<noteq> 0" "d' \<in> D" "va' < UTOP" "entry m d' va' \<noteq> 0"
    "PGNUM (entry m d' va') = PGNUM (entry m d va)"
  shows "d' = d" "PGNUM va' = PGNUM va"
  using assms unfolding unshared_def by blast+

text \<open>The frame of a store: nothing changes but data pages.\<close>

definition maps_kept :: "nat set \<Rightarrow> nat set \<Rightarrow> 'a machine_scheme \<Rightarrow> 'a machine_scheme \<Rightarrow> bool" where
  "maps_kept D K m m' \<longleftrightarrow> machine.more m' = machine.more m \<and> npages m' = npages m \<and>
     (\<forall>d \<in> D. \<forall>va < UTOP. entry m' d va = entry m d va) \<and> (\<forall>q \<in> K \<union> D. pmem m' q = pmem m q)"

lemma maps_keptD:
  assumes "maps_kept D K m m'"
  shows "machine.more m' = machine.more m" "npages m' = npages m" "d \<in> D \<Longrightarrow> va < UTOP \<Longrightarrow> entry m' d va = entry m d va"
    "q \<in> K \<or> q \<in> D \<Longrightarrow> pmem m' q = pmem m q"
  using assms by (auto simp: maps_kept_def)

lemma maps_kept_refl: "maps_kept D K m m"
  by (simp add: maps_kept_def)

lemma maps_kept_trans: "maps_kept D K m m1 \<Longrightarrow> maps_kept D K m1 m2 \<Longrightarrow> maps_kept D K m m2"
  by (simp add: maps_kept_def)

lemma same_address: "PGNUM va' = PGNUM va \<Longrightarrow> PGOFF va' = PGOFF va \<Longrightarrow> va' = va"
proof -
  assume "PGNUM va' = PGNUM va" "PGOFF va' = PGOFF va"
  then have "unat va' = unat va" unfolding PGNUM_div PGOFF_def by (metis div_mult_mod_eq)
  then show ?thesis by (rule unsigned_word_eqI)
qed

lemma load_byte_umem:
  assumes "mem_inv m D K xs ex" "d \<in> D" "va < UTOP"
  shows "load_byte d va m = umem m d va"
proof (cases "entry m d va = 0")
  case True
  then show ?thesis using user_entry_of_eq [OF assms] by (simp add: umem_def load_byte_def)
next
  case False
  note f = mapped_frame(1) [OF assms False] present_entry(1) [OF assms False]
  then show ?thesis
    using user_entry_of_eq [OF assms] False
    by (simp add: umem_def load_byte_def pa2page_def page_byte_def byte_of_def byte_shift_def word_index_def low_bits)
qed

lemma store_byte_umem:
  assumes inv: "mem_inv m D K xs ex" and pr: "unshared m D d" and va: "d \<in> D" "va < UTOP" "entry m d va AND PTE_W \<noteq> 0"
  shows "\<exists>m'. store_byte d va b m = Some m' \<and> mem_inv m' D K xs ex \<and> maps_kept D K m m' \<and>
    (\<forall>d' \<in> D. \<forall>va' < UTOP. umem m' d' va' = (if d' = d \<and> va' = va then Some b else umem m d' va'))"
proof -
  have nz: "entry m d va \<noteq> 0" using va(3) by auto
  let ?p = "PGNUM (entry m d va)"
  let ?m = "put_byte ?p (PGOFF va) b m"
  have mp: "mapped m D d va ?p" using va present_entry(1) [OF inv va(1,2) nz] by (simp add: mapped_def)
  note i = put_byte_inv [OF inv mp, where off = "PGOFF va" and b = b]
  have "umem ?m d' va' = (if d' = d \<and> va' = va then Some b else umem m d' va')" if "d' \<in> D" "va' < UTOP" for d' va'
  proof (cases "entry m d' va' \<noteq> 0 \<and> PGNUM (entry m d' va') = ?p")
    case True
    then have "d' = d" "PGNUM va' = PGNUM va" using unsharedD [OF pr va(2) nz that] by blast+
    then have "va' = va \<longleftrightarrow> PGOFF va' = PGOFF va" using same_address by blast
    then show ?thesis using True i(3) [OF that] \<open>d' = d\<close> by (simp add: umem_def page_byte_put)
  next
    case False
    then have "\<not> (d' = d \<and> va' = va)" using nz by auto
    then show ?thesis using False i(3) [OF that] by (auto simp: umem_def page_byte_def)
  qed
  moreover have "pmem ?m q = pmem m q" if "q \<in> K \<or> q \<in> D" for q using mapped_page(2,3) [OF inv mp] that by (intro put_byte_fields(4)) auto
  then have "maps_kept D K m ?m" using i(3) by (auto simp: maps_kept_def)
  ultimately show ?thesis using store_byte_mapped [OF inv mp, of b] i(1) by (intro exI [of _ ?m]) simp
qed

lemma unshared_kept:
  assumes "unshared m D d" "maps_kept D K m m'" "d \<in> D"
  shows "unshared m' D d"
  using assms(1) maps_keptD(3) [OF assms(2)] assms(3) unfolding unshared_def by (metis (no_types, lifting))

text \<open>Writing a range of bytes that is mapped writable.\<close>

lemma store_bytes_umem:
  assumes "mem_inv m D K xs ex" "unshared m D d" "d \<in> D" "unat va + length bs \<le> unat (UTOP :: 32 word)"
    "\<forall>i < length bs. entry m d (va + of_nat i) AND PTE_W \<noteq> 0"
  shows "\<exists>m'. store_bytes d va bs m = Some m' \<and> mem_inv m' D K xs ex \<and> unshared m' D d \<and> maps_kept D K m m' \<and>
    (\<forall>d' \<in> D. \<forall>va' < UTOP. umem m' d' va' = (if d' = d \<and> unat va \<le> unat va' \<and> unat va' < unat va + length bs
       then Some (bs ! (unat va' - unat va)) else umem m d' va'))"
  using assms
proof (induction bs arbitrary: va m)
  case (Cons b bs)
  have va: "va < UTOP" "unat (va + 1) = unat va + 1" using Cons.prems(4) by (simp_all add: word_less_nat_alt unat_word_ariths)
  have w: "entry m d va AND PTE_W \<noteq> 0" using Cons.prems(5) [rule_format, of 0] by simp
  obtain m1 where m1: "store_byte d va b m = Some m1" "mem_inv m1 D K xs ex" "maps_kept D K m m1"
    "\<forall>d' \<in> D. \<forall>va' < UTOP. umem m1 d' va' = (if d' = d \<and> va' = va then Some b else umem m d' va')"
    using store_byte_umem [OF Cons.prems(1,2,3) va(1) w] by blast
  have p1: "unshared m1 D d" by (rule unshared_kept [OF Cons.prems(2) m1(3) Cons.prems(3)])
  have "entry m1 d (va + 1 + of_nat i) AND PTE_W \<noteq> 0" if i: "i < length bs" for i
  proof -
    have "va + 1 + of_nat i = va + of_nat (Suc i)" by simp
    moreover have "unat (va + of_nat (Suc i)) = unat va + Suc i" using i Cons.prems(4) by (simp add: unat_word_ariths unat_of_nat del: of_nat_Suc)
    then have "va + of_nat (Suc i) < UTOP" using i Cons.prems(4) by (simp add: word_less_nat_alt del: of_nat_Suc)
    ultimately show ?thesis using maps_keptD(3) [OF m1(3) Cons.prems(3)] Cons.prems(5) i by (metis Suc_less_eq length_Cons)
  qed
  then obtain m' where m': "store_bytes d (va + 1) bs m1 = Some m'" "mem_inv m' D K xs ex" "unshared m' D d" "maps_kept D K m1 m'"
    "\<forall>d' \<in> D. \<forall>va' < UTOP. umem m' d' va' = (if d' = d \<and> unat va + 1 \<le> unat va' \<and> unat va' < unat va + 1 + length bs
       then Some (bs ! (unat va' - (unat va + 1))) else umem m1 d' va')"
    using Cons.IH [OF m1(2) p1 Cons.prems(3), of "va + 1"] Cons.prems(4) unfolding va(2) by auto
  have "umem m' d' va' = (if d' = d \<and> unat va \<le> unat va' \<and> unat va' < unat va + length (b # bs)
       then Some ((b # bs) ! (unat va' - unat va)) else umem m d' va')" if dv: "d' \<in> D" "va' < UTOP" for d' va'
  proof (cases "va' = va")
    case True
    then show ?thesis using m'(5) m1(4) dv by simp
  next
    case False
    then have "unat va' \<noteq> unat va" by (auto dest: unsigned_word_eqI)
    then have r: "unat va \<le> unat va' \<and> unat va' < unat va + length (b # bs) \<longleftrightarrow> unat va + 1 \<le> unat va' \<and> unat va' < unat va + 1 + length bs"
      by auto
    have n: "(b # bs) ! (unat va' - unat va) = bs ! (unat va' - (unat va + 1))" if "unat va + 1 \<le> unat va'"
    proof -
      have "unat va' - unat va = Suc (unat va' - (unat va + 1))" using that by arith
      then show ?thesis by (simp only: nth_Cons_Suc)
    qed
    show ?thesis unfolding r using m'(5) m1(4) dv False n by simp
  qed
  then show ?case using m1(1) m'(1-3) maps_kept_trans [OF m1(3) m'(4)] by (intro exI [of _ m']) simp
qed (auto simp: maps_kept_refl)

section \<open>A region of pages\<close>

text \<open>
  The effect of mapping the pages \<open>v, ..., v + n - 1\<close> afresh in the directory \<open>d\<close>: they are mapped for the user and writable, and every
  other page of every address space keeps its mapping and its contents.
\<close>

definition region_mapped :: "nat set \<Rightarrow> nat set \<Rightarrow> nat \<Rightarrow> nat \<Rightarrow> nat \<Rightarrow> 'a machine_scheme \<Rightarrow> 'a machine_scheme \<Rightarrow> bool" where
  "region_mapped D K d v n m m' \<longleftrightarrow> machine.more m' = machine.more m \<and> npages m' = npages m \<and> (\<forall>q \<in> K. pmem m' q = pmem m q) \<and>
     (\<forall>u. v \<le> u \<and> u < v + n \<longrightarrow> (\<exists>p. p < npages m \<and> entry m' d (page2pa u) = page2pa p OR PTE_U OR PTE_W OR PTE_P)) \<and>
     (\<forall>d' \<in> D. \<forall>va < UTOP. d' \<noteq> d \<or> \<not> (v \<le> PGNUM va \<and> PGNUM va < v + n) \<longrightarrow>
        entry m' d' va = entry m d' va \<and> umem m' d' va = umem m d' va) \<and>
     (\<forall>i. if i \<in> missing m d v n then pmem m' d i \<noteq> 0 else pmem m' d i = pmem m d i)"

lemma umem_kept:
  assumes "entry m' d va = entry m d va" "entry m d va \<noteq> 0 \<Longrightarrow> pmem m' (PGNUM (entry m d va)) = pmem m (PGNUM (entry m d va))"
  shows "umem m' d va = umem m d va"
  using assms by (auto simp: umem_def page_byte_def)

lemma user_page_number:
  assumes "v < 977920"
  shows "page2pa v < UTOP" "PDX (page2pa v) = v div 1024" "PGNUM (page2pa v) = v"
proof -
  have v: "v < 2 ^ 20" using assms by simp
  show "page2pa v < UTOP" using unat_page2pa [OF v] assms by (simp add: word_less_nat_alt)
  show "PDX (page2pa v) = v div 1024" "PGNUM (page2pa v) = v" by (rule page_number [OF v])+
qed

text \<open>Inserting a page that was free keeps the directory unshared.\<close>

lemma unshared_inserted:
  assumes inv: "mem_inv m D K xs ex" and sh: "unshared m D d" and d: "d \<in> D" and va: "va < UTOP" and ins: "inserted D xs ys m m' d va w"
    and p: "PGNUM w = p" "sites m D p = {}"
  shows "unshared m' D d"
proof -
  have ent: "entry m' d' va' = entry m d' va'" if "d' \<in> D" "va' < UTOP" "d' \<noteq> d \<or> PGNUM va' \<noteq> PGNUM va" for d' va'
    using ins that unfolding inserted_def by blast
  have new: "entry m' d va' = w" if "PGNUM va' = PGNUM va" for va'
    using ins entry_same_page [OF that, of m' d] unfolding inserted_def by simp
  have old: "PGNUM (entry m d' va') \<noteq> p" if "d' \<in> D" "va' < UTOP" "entry m d' va' \<noteq> 0" for d' va'
    using entry_refers(1) [OF inv that] p(2) unfolding sites_def by blast
  show ?thesis
    unfolding unshared_def
  proof (intro allI impI ballI)
    fix a d' b
    assume a: "a < UTOP" "entry m' d a \<noteq> 0" "d' \<in> D" "b < UTOP" "entry m' d' b \<noteq> 0 \<and> PGNUM (entry m' d' b) = PGNUM (entry m' d a)"
    show "d' = d \<and> PGNUM b = PGNUM a"
    proof (cases "PGNUM a = PGNUM va"; cases "d' = d \<and> PGNUM b = PGNUM va")
      assume "PGNUM a = PGNUM va" "d' = d \<and> PGNUM b = PGNUM va"
      then show ?thesis by simp
    next
      assume "PGNUM a = PGNUM va" "\<not> (d' = d \<and> PGNUM b = PGNUM va)"
      then show ?thesis using a new ent [OF a(3,4)] old [OF a(3,4)] p(1) by auto
    next
      assume "PGNUM a \<noteq> PGNUM va" "d' = d \<and> PGNUM b = PGNUM va"
      then show ?thesis using a new ent [OF d a(1)] old [OF d a(1)] p(1) by auto
    next
      assume "PGNUM a \<noteq> PGNUM va" "\<not> (d' = d \<and> PGNUM b = PGNUM va)"
      then show ?thesis using a ent [OF d a(1)] ent [OF a(3,4)] unsharedD [OF sh a(1) _ a(3,4)] by auto
    qed
  qed
qed

lemma region_page_ok:
  assumes inv: "mem_inv k D K xs ex" and sh: "unshared k D d" and d: "d \<in> D" and v: "v < 977920"
    and room: "1 + (if pmem k d (v div 1024) = 0 then 1 else 0) \<le> length xs"
  shows "\<exists>p k1 k2 ys. page_alloc False k = (Some p, k1) \<and> page_insert d p (page2pa v) (PTE_U OR PTE_W) k1 = Some (0, k2) \<and>
    mem_inv k2 D K ys ex \<and> unshared k2 D d \<and> region_mapped D K d v 1 k k2 \<and>
    length xs \<le> length ys + 1 + (if pmem k d (v div 1024) = 0 then 1 else 0)"
proof -
  note up = user_page_number [OF v]
  obtain p zs k1 where al: "page_alloc False k = (Some p, k1)" "xs = p # zs" "mem_inv k1 D K zs ex" "npages k1 = npages k" "p \<notin> set zs"
    "\<forall>q < npages k. pp_ref (pages k1 ! q) = pp_ref (pages k ! q)" "pmem k1 = pmem k"
  proof -
    have "xs \<noteq> []" using room by auto
    then show thesis using page_alloc_inv [OF inv, of False] that by (auto split: prod.splits option.splits simp: fun_eq_iff)
  qed
  have fp: "sites k D p = {}" "p \<notin> D" "\<not> is_table k D p" "p < npages k" "p \<notin> K" using free_page [OF inv, of p] al(2) by simp_all
  have same: "entry k1 = entry k" "is_table k1 = is_table k" using al(7) by (auto simp: entry_def is_table_def fun_eq_iff)
  have ss: "sites k1 D p = {}" using fp(1) same_memory(3) [of D k1 k] al(7) by simp
  let ?w = "page2pa p OR PTE_U OR PTE_W OR PTE_P"
  have r0: "pp_ref (pages k1 ! p) = 0" using al(2,6) fp(4) mem_invD(11) [OF inv, of p] by simp
  have rm: "zs \<noteq> [] \<or> pmem k1 d (PDX (page2pa v)) \<noteq> 0" using room al(2,7) up(2) by (auto split: if_splits)
  obtain k2 ys where k2: "page_insert d p (page2pa v) (PTE_U OR PTE_W) k1 = Some (0, k2)" "mem_inv k2 D K ys ex"
    "inserted D zs ys k1 k2 d (page2pa v) (page2pa p OR (PTE_U OR PTE_W) OR PTE_P)"
    using page_insert_inserted [OF al(3) d up(1) _ fp(5,2) _ al(5) _ _ rm, of "PTE_U OR PTE_W"] fp(3,4) al(4) r0 same(2) by auto
  have w: "page2pa p OR (PTE_U OR PTE_W) OR PTE_P = ?w" by (simp add: or.assoc)
  note ins = k2(3) [unfolded w]
  have "p < 2 ^ 20" using fp(4) mem_invD(1) [OF inv] by simp
  then have pw: "PGNUM ?w = p" using PGNUM_entry [of p "PTE_U OR PTE_W OR PTE_P"] by (simp add: or.assoc)
  have "unshared k2 D d"
  proof (rule unshared_inserted [OF al(3) _ d up(1) ins pw])
    show "unshared k1 D d" using sh same(1) by (simp add: unshared_def)
    show "sites k1 D p = {}" by (fact ss)
  qed
  moreover have "region_mapped D K d v 1 k k2"
    unfolding region_mapped_def
  proof (intro conjI allI impI ballI)
    show "machine.more k2 = machine.more k" using more_page_insert [OF k2(1)] more_page_alloc [OF al(1)] by simp
    show "npages k2 = npages k" using ins al(4) by (simp add: inserted_def)
    show "pmem k2 q = pmem k q" if "q \<in> K" for q using inserted_kernel_pages [OF ins al(3) that] al(7) by simp
    show "\<exists>p < npages k. entry k2 d (page2pa u) = page2pa p OR PTE_U OR PTE_W OR PTE_P" if "v \<le> u \<and> u < v + 1" for u
    proof -
      have "u = v" using that by simp
      then show ?thesis using ins fp(4) unfolding inserted_def by blast
    qed
    show "if i \<in> missing k d v 1 then pmem k2 d i \<noteq> 0 else pmem k2 d i = pmem k d i" for i
      using ins d up(2) al(7) unfolding inserted_def missing_def by auto
    fix d' va
    assume a: "d' \<in> D" "va < UTOP" "d' \<noteq> d \<or> \<not> (v \<le> PGNUM va \<and> PGNUM va < v + 1)"
    then have "d' \<noteq> d \<or> PGNUM va \<noteq> PGNUM (page2pa v)" using up(3) by auto
    then show e: "entry k2 d' va = entry k d' va" using ins a(1,2) same(1) unfolding inserted_def by simp
    show "umem k2 d' va = umem k d' va"
    proof (rule umem_kept [OF e])
      assume nz: "entry k d' va \<noteq> 0"
      note f = mapped_frame [OF al(3) a(1,2)]
      show "pmem k2 (PGNUM (entry k d' va)) = pmem k (PGNUM (entry k d' va))"
        using f nz ins al(7) unfolding same(1) inserted_def by simp
    qed
  qed
  moreover have "length zs \<le> length ys + (if pmem k1 d (PDX (page2pa v)) = 0 then 1 else 0)" using ins unfolding inserted_def by blast
  then have "length xs \<le> length ys + 1 + (if pmem k d (v div 1024) = 0 then 1 else 0)" using al(2,7) up(2) by simp
  ultimately show ?thesis using al(1) k2(1,2) by blast
qed

lemma region_mapped_trans:
  assumes a: "region_mapped D K d v 1 m m1" and b: "region_mapped D K d (Suc v) n m1 m2" and d: "d \<in> D" and v: "v < 977920"
  shows "region_mapped D K d v (Suc n) m m2"
  unfolding region_mapped_def
proof (intro conjI allI impI ballI)
  show "machine.more m2 = machine.more m" "npages m2 = npages m" using a b by (simp_all add: region_mapped_def)
  show "pmem m2 q = pmem m q" if "q \<in> K" for q using a b that by (simp add: region_mapped_def)
  show "\<exists>p < npages m. entry m2 d (page2pa u) = page2pa p OR PTE_U OR PTE_W OR PTE_P" if u: "v \<le> u \<and> u < v + Suc n" for u
  proof (cases "u = v")
    case True
    have "\<not> (Suc v \<le> PGNUM (page2pa v) \<and> PGNUM (page2pa v) < Suc v + n)" using user_page_number [OF v] by simp
    then have "entry m2 d (page2pa v) = entry m1 d (page2pa v)" using b d user_page_number(1) [OF v] unfolding region_mapped_def by blast
    then show ?thesis using a True by (auto simp: region_mapped_def)
  next
    case False
    then show ?thesis using a b u by (auto simp: region_mapped_def)
  qed
  show "if i \<in> missing m d v (Suc n) then pmem m2 d i \<noteq> 0 else pmem m2 d i = pmem m d i" for i
  proof -
    have 1: "if i \<in> missing m d v 1 then pmem m1 d i \<noteq> 0 else pmem m1 d i = pmem m d i" using a by (simp add: region_mapped_def)
    have 2: "if i \<in> missing m1 d (Suc v) n then pmem m2 d i \<noteq> 0 else pmem m2 d i = pmem m1 d i" using b by (simp add: region_mapped_def)
    have iv: "{v..<v + Suc n} = insert v {Suc v..<Suc v + n}" by auto
    have "i \<in> missing m d v (Suc n) \<longleftrightarrow> i \<in> missing m d v 1 \<or> i \<in> missing m1 d (Suc v) n"
      using 1 unfolding missing_def iv by (auto split: if_splits)
    then show ?thesis using 1 2 by (auto simp: missing_def split: if_splits)
  qed
  fix d' va
  assume x: "d' \<in> D" "va < UTOP" "d' \<noteq> d \<or> \<not> (v \<le> PGNUM va \<and> PGNUM va < v + Suc n)"
  then have "d' \<noteq> d \<or> \<not> (v \<le> PGNUM va \<and> PGNUM va < v + 1)" "d' \<noteq> d \<or> \<not> (Suc v \<le> PGNUM va \<and> PGNUM va < Suc v + n)" by auto
  then show "entry m2 d' va = entry m d' va" "umem m2 d' va = umem m d' va" using a b x(1,2) unfolding region_mapped_def by metis+
qed

lemma region_pages_ok:
  assumes "mem_inv k D K xs ex" "unshared k D d" "d \<in> D" "v + n \<le> 977920" "n + card (missing k d v n) \<le> length xs"
  shows "\<exists>k' ys. region_pages d n (page2pa v) k = Some k' \<and> mem_inv k' D K ys ex \<and> unshared k' D d \<and> region_mapped D K d v n k k' \<and>
    length xs \<le> length ys + n + card (missing k d v n)"
  using assms
proof (induction n arbitrary: v k xs)
  case 0
  have "region_mapped D K d v 0 k k" by (auto simp: region_mapped_def missing_def)
  then show ?case using 0 by (intro exI [of _ k] exI [of _ xs]) simp
next
  case (Suc n)
  have v: "v < 977920" using Suc.prems(4) by simp
  have ms: "card (missing k1 d (Suc v) n) + (if pmem k d (v div 1024) = 0 then 1 else 0) \<le> card (missing k d v (Suc n))"
    if "region_mapped D K d v 1 k k1" for k1
  proof (rule missing_step)
    have 1: "if i \<in> missing k d v 1 then pmem k1 d i \<noteq> 0 else pmem k1 d i = pmem k d i" for i using that by (simp add: region_mapped_def)
    show "pmem k1 d (v div 1024) \<noteq> 0" using 1 [of "v div 1024"] by (auto simp: missing_def split: if_splits)
    show "\<forall>i. i \<noteq> v div 1024 \<longrightarrow> pmem k1 d i = pmem k d i" using 1 by (auto simp: missing_def split: if_splits)
  qed
  have "(if pmem k d (v div 1024) = 0 then 1 else 0) \<le> card (missing k d v (Suc n))"
  proof (cases "pmem k d (v div 1024) = 0")
    case True
    then have "v div 1024 \<in> missing k d v (Suc n)" by (auto simp: missing_def)
    then have "card (missing k d v (Suc n)) \<noteq> 0" using missing_finite [of k d v "Suc n"] by auto
    then show ?thesis by simp
  qed simp
  then obtain p k1 k2 ys where k2: "page_alloc False k = (Some p, k1)" "page_insert d p (page2pa v) (PTE_U OR PTE_W) k1 = Some (0, k2)"
    "mem_inv k2 D K ys ex" "unshared k2 D d" "region_mapped D K d v 1 k k2"
    "length xs \<le> length ys + 1 + (if pmem k d (v div 1024) = 0 then 1 else 0)"
    using region_page_ok [OF Suc.prems(1-3) v] Suc.prems(5) by auto
  note ms = ms [OF k2(5)]
  obtain k' zs where k': "region_pages d n (page2pa (Suc v)) k2 = Some k'" "mem_inv k' D K zs ex" "unshared k' D d"
    "region_mapped D K d (Suc v) n k2 k'" "length ys \<le> length zs + n + card (missing k2 d (Suc v) n)"
    using Suc.IH [OF k2(3,4) Suc.prems(3), of "Suc v"] Suc.prems(4,5) ms k2(6) by (auto split: if_splits)
  have "region_pages d (Suc n) (page2pa v) k = Some k'" using k2(1,2) k'(1) by (simp add: page2pa_Suc)
  moreover have "length xs \<le> length zs + Suc n + card (missing k d v (Suc n))" using ms k2(6) k'(5) by (simp split: if_splits)
  ultimately show ?case using k'(2,3) region_mapped_trans [OF k2(5) k'(4) Suc.prems(3) v] by blast
qed

text \<open>The pages that a range of bytes touches, and the page tables that they may need.\<close>

definition first_page :: "32 word \<Rightarrow> nat" where
  "first_page va = unat va div 4096"

definition range_pages :: "32 word \<Rightarrow> 32 word \<Rightarrow> nat" where
  "range_pages va len = (unat va + unat len + 4095) div 4096 - unat va div 4096"

definition range_cost :: "32 word \<Rightarrow> 32 word \<Rightarrow> nat" where
  "range_cost va len = range_pages va len +
     ((first_page va + range_pages va len - 1) div 1024 + 1 - first_page va div 1024)"

lemma range_bounds:
  assumes "unat va + unat len \<le> 4005560320"
  shows "first_page va + range_pages va len = (unat va + unat len + 4095) div 4096" "first_page va + range_pages va len \<le> 977920"
proof -
  have "unat va div 4096 \<le> (unat va + unat len + 4095) div 4096" by (rule div_le_mono) simp
  then show e: "first_page va + range_pages va len = (unat va + unat len + 4095) div 4096" by (simp add: first_page_def range_pages_def)
  have "(unat va + unat len + 4095) div 4096 \<le> (4005560320 + 4095) div 4096" using assms by (intro div_le_mono) simp
  then show "first_page va + range_pages va len \<le> 977920" by (simp add: e)
qed

lemma in_range:
  assumes "unat va \<le> unat a" "unat a < unat va + unat len"
  shows "first_page va \<le> PGNUM a" "PGNUM a < first_page va + range_pages va len"
proof -
  show "first_page va \<le> PGNUM a" unfolding first_page_def PGNUM_div using assms(1) by (rule div_le_mono)
  have "unat a div 4096 + 1 = (unat a + 4096) div 4096" by simp
  also have "\<dots> \<le> (unat va + unat len + 4095) div 4096" using assms(2) by (intro div_le_mono) simp
  finally show "PGNUM a < first_page va + range_pages va len" by (simp add: first_page_def range_pages_def PGNUM_div)
qed

lemma region_alloc_ok:
  assumes inv: "mem_inv k D K xs ex" and sh: "unshared k D d" and d: "d \<in> D" "env_pgdir (envs k ! e) = Some d"
    and r: "unat va + unat len \<le> 4005560320" and room: "range_cost va len \<le> length xs"
  shows "\<exists>k' ys. region_alloc e va len k = Some k' \<and> mem_inv k' D K ys ex \<and> unshared k' D d \<and>
    region_mapped D K d (first_page va) (range_pages va len) k k' \<and> length xs \<le> length ys + range_cost va len"
proof -
  note rb = range_bounds [OF r]
  let ?lo = "ROUNDDOWN va PGSIZE" and ?hi = "ROUNDUP (va + len) PGSIZE"
  have s: "unat (va + len) = unat va + unat len" using r by (simp add: unat_word_ariths)
  have lo: "unat ?lo = first_page va * 4096" by (simp add: unat_rounddown first_page_def)
  have hi: "unat ?hi = (first_page va + range_pages va len) * 4096" using unat_roundup [of "va + len"] s r rb by simp
  have "va_lo = page2pa (first_page va)" if "va_lo = ?lo" for va_lo
  proof (rule unsigned_word_eqI)
    have "first_page va < 2 ^ 20" using rb by simp
    then show "unat va_lo = unat (page2pa (first_page va))" using lo that by (simp add: unat_page2pa)
  qed
  then have lo': "?lo = page2pa (first_page va)" by blast
  have n: "(if ?lo < ?hi then unat (?hi - ?lo) div 4096 else 0) = range_pages va len"
  proof (cases "?lo < ?hi")
    case True
    then have "unat (?hi - ?lo) = unat ?hi - unat ?lo" by (intro unat_sub) simp
    then have "unat (?hi - ?lo) = range_pages va len * 4096" unfolding lo hi by (simp add: algebra_simps)
    then show ?thesis using True by simp
  next
    case False
    then have "unat ?hi \<le> unat ?lo" by (simp add: word_less_nat_alt)
    then show ?thesis using False unfolding lo hi by simp
  qed
  have le: "?hi \<le> UTOP" unfolding word_le_nat_alt hi using rb(2) by simp
  have cm: "card (missing k d (first_page va) (range_pages va len)) \<le> (first_page va + range_pages va len - 1) div 1024 + 1 - first_page va div 1024"
    by (rule missing_bound)
  have "range_pages va len + card (missing k d (first_page va) (range_pages va len)) \<le> length xs" using room cm by (simp add: range_cost_def)
  from region_pages_ok [OF inv sh d(1) rb(2) this] obtain k' ys where
    "region_pages d (range_pages va len) (page2pa (first_page va)) k = Some k'" "mem_inv k' D K ys ex" "unshared k' D d"
    "region_mapped D K d (first_page va) (range_pages va len) k k'"
    "length xs \<le> length ys + range_pages va len + card (missing k d (first_page va) (range_pages va len))" by blast
  moreover have "region_alloc e va len k = region_pages d (range_pages va len) (page2pa (first_page va)) k"
    unfolding region_alloc_def Let_def n using le d(2) by (simp add: lo')
  ultimately show ?thesis using cm by (intro exI [of _ k'] exI [of _ ys]) (simp add: range_cost_def)
qed

section \<open>Segments\<close>

text \<open>
  What the loader can rely on: segments below \<^verbatim>\<open>UTOP\<close> that are not longer in the file than in memory, no two of them on the same
  page. The contents of a segment are the bytes of the file followed by zeros.
\<close>

definition loadable :: "proghdr list \<Rightarrow> proghdr list" where
  "loadable phs = filter (\<lambda>ph. p_type ph = ELF_PROG_LOAD) phs"

definition seg_ok :: "proghdr \<Rightarrow> bool" where
  "seg_ok ph \<longleftrightarrow> unat (p_va ph) + unat (p_memsz ph) \<le> 4005560320 \<and> p_filesz ph \<le> p_memsz ph"

definition seg_pages :: "proghdr list \<Rightarrow> nat list" where
  "seg_pages phs = concat (map (\<lambda>ph. [first_page (p_va ph)..<first_page (p_va ph) + range_pages (p_va ph) (p_memsz ph)]) (loadable phs))"

definition seg_cost :: "proghdr list \<Rightarrow> nat" where
  "seg_cost phs = sum_list (map (\<lambda>ph. range_cost (p_va ph) (p_memsz ph)) (loadable phs))"

definition seg_byte :: "image \<Rightarrow> proghdr \<Rightarrow> nat \<Rightarrow> 8 word" where
  "seg_byte b ph i = (if i < unat (p_filesz ph) then b (unat (p_offset ph) + i) else 0)"

definition seg_loaded :: "image \<Rightarrow> nat \<Rightarrow> 'a machine_scheme \<Rightarrow> proghdr \<Rightarrow> bool" where
  "seg_loaded b d m ph \<longleftrightarrow> (\<forall>a. unat (p_va ph) \<le> unat a \<and> unat a < unat (p_va ph) + unat (p_memsz ph) \<longrightarrow>
     umem m d a = Some (seg_byte b ph (unat a - unat (p_va ph))))"

definition loaded :: "nat set \<Rightarrow> nat set \<Rightarrow> nat \<Rightarrow> image \<Rightarrow> proghdr list \<Rightarrow> 'a machine_scheme \<Rightarrow> 'a machine_scheme \<Rightarrow> bool" where
  "loaded D K d b phs m m' \<longleftrightarrow> machine.more m' = machine.more m \<and> npages m' = npages m \<and> (\<forall>q \<in> K. pmem m' q = pmem m q) \<and>
     (\<forall>ph \<in> set (loadable phs). seg_loaded b d m' ph) \<and>
     (\<forall>a < UTOP. PGNUM a \<in> set (seg_pages phs) \<longrightarrow> entry m' d a AND 7 = 7) \<and>
     (\<forall>d' \<in> D. \<forall>a < UTOP. d' \<noteq> d \<or> PGNUM a \<notin> set (seg_pages phs) \<longrightarrow> entry m' d' a = entry m d' a \<and> umem m' d' a = umem m d' a)"

lemma entry_7: "(page2pa p OR PTE_U OR PTE_W OR PTE_P) AND 7 = 7"
  by (simp add: flag_and or.assoc)

lemma region_entry:
  assumes "region_mapped D K d v n m m'" "v \<le> PGNUM a" "PGNUM a < v + n" "v + n \<le> 977920"
  shows "entry m' d a AND 7 = 7"
proof -
  have "PGNUM (page2pa (PGNUM a)) = PGNUM a" using assms by (intro user_page_number) simp
  then have "entry m' d a = entry m' d (page2pa (PGNUM a))" by (intro entry_same_page) simp
  moreover obtain p where "entry m' d (page2pa (PGNUM a)) = page2pa p OR PTE_U OR PTE_W OR PTE_P"
    using assms(1-3) unfolding region_mapped_def by blast
  ultimately show ?thesis using entry_7 by simp
qed

lemma and_7:
  assumes "(w :: 32 word) AND 7 = 7"
  shows "w AND PTE_W \<noteq> 0" "w AND PTE_U \<noteq> 0" "w \<noteq> 0"
proof -
  have "w AND 2 = (w AND 7) AND 2" "w AND 4 = (w AND 7) AND 4" by (simp_all add: and.assoc)
  then have "w AND 2 = 2" "w AND 4 = 4" unfolding assms by simp_all
  then show "w AND PTE_W \<noteq> 0" "w AND PTE_U \<noteq> 0" by simp_all
  show "w \<noteq> 0" using assms by auto
qed

lemma load_segment_ok:
  assumes inv: "mem_inv k D K xs ex" and sh: "unshared k D d" and d: "d \<in> D" "env_pgdir (envs k ! e) = Some d"
    and ph: "seg_ok ph" "p_type ph = ELF_PROG_LOAD" and room: "range_cost (p_va ph) (p_memsz ph) \<le> length xs"
  shows "\<exists>k1 k2 k3 ys. region_alloc e (p_va ph) (p_memsz ph) k = Some k1 \<and>
    store_bytes d (p_va ph) (replicate (unat (p_memsz ph)) 0) k1 = Some k2 \<and>
    store_bytes d (p_va ph) (map (\<lambda>i. b (unat (p_offset ph) + i)) [0..<unat (p_filesz ph)]) k2 = Some k3 \<and>
    mem_inv k3 D K ys ex \<and> unshared k3 D d \<and> loaded D K d b [ph] k k3 \<and> length xs \<le> length ys + range_cost (p_va ph) (p_memsz ph)"
proof -
  let ?va = "p_va ph" and ?n = "unat (p_memsz ph)" and ?f = "unat (p_filesz ph)"
  let ?v = "first_page ?va" and ?c = "range_pages ?va (p_memsz ph)"
  have s: "unat ?va + ?n \<le> 4005560320" "?f \<le> ?n" using ph(1) by (simp_all add: seg_ok_def word_le_nat_alt)
  note rb = range_bounds [OF s(1)]
  obtain k1 ys where k1: "region_alloc e ?va (p_memsz ph) k = Some k1" "mem_inv k1 D K ys ex" "unshared k1 D d"
    "region_mapped D K d ?v ?c k k1" "length xs \<le> length ys + range_cost ?va (p_memsz ph)"
    using region_alloc_ok [OF inv sh d s(1) room] by blast
  have w: "entry k1 d (?va + of_nat i) AND PTE_W \<noteq> 0" if "i < ?n" for i
  proof -
    have "unat (?va + of_nat i) = unat ?va + i" using that s(1) by (simp add: unat_word_ariths unat_of_nat)
    then have "entry k1 d (?va + of_nat i) AND 7 = 7" using that by (intro region_entry [OF k1(4) _ _ rb(2)] in_range) simp_all
    then show ?thesis by (rule and_7)
  qed
  have lt: "unat (?va + of_nat i) = unat ?va + i" "?va + of_nat i < UTOP" if "i < ?n" for i
    using that s(1) by (simp_all add: unat_word_ariths unat_of_nat word_less_nat_alt)
  obtain k2 where k2: "store_bytes d ?va (replicate ?n 0) k1 = Some k2" "mem_inv k2 D K ys ex" "unshared k2 D d" "maps_kept D K k1 k2"
    "\<forall>d' \<in> D. \<forall>a < UTOP. umem k2 d' a = (if d' = d \<and> unat ?va \<le> unat a \<and> unat a < unat ?va + ?n
       then Some (replicate ?n 0 ! (unat a - unat ?va)) else umem k1 d' a)"
    using store_bytes_umem [OF k1(2,3) d(1), of ?va "replicate ?n 0"] s(1) w by auto
  have w2: "entry k2 d (?va + of_nat i) AND PTE_W \<noteq> 0" if "i < ?n" for i
    using w [OF that] maps_keptD(3) [OF k2(4) d(1) lt(2) [OF that]] by simp
  let ?bs = "map (\<lambda>i. b (unat (p_offset ph) + i)) [0..<?f]"
  obtain k3 where k3: "store_bytes d ?va ?bs k2 = Some k3" "mem_inv k3 D K ys ex" "unshared k3 D d" "maps_kept D K k2 k3"
    "\<forall>d' \<in> D. \<forall>a < UTOP. umem k3 d' a = (if d' = d \<and> unat ?va \<le> unat a \<and> unat a < unat ?va + ?f
       then Some (?bs ! (unat a - unat ?va)) else umem k2 d' a)"
    using store_bytes_umem [OF k2(2,3) d(1), of ?va ?bs] s w2 by auto
  note mk = maps_kept_trans [OF k2(4) k3(4)]
  have "loaded D K d b [ph] k k3"
    unfolding loaded_def
  proof (intro conjI allI impI ballI)
    show "machine.more k3 = machine.more k" "npages k3 = npages k" using maps_keptD(1,2) [OF mk] k1(4) by (simp_all add: region_mapped_def)
    show "pmem k3 q = pmem k q" if "q \<in> K" for q using maps_keptD(4) [OF mk] k1(4) that by (simp add: region_mapped_def)
    show "seg_loaded b d k3 x" if "x \<in> set (loadable [ph])" for x
    proof -
      have "umem k3 d a = Some (seg_byte b ph (unat a - unat ?va))" if "unat ?va \<le> unat a" "unat a < unat ?va + ?n" for a
      proof -
        have "a < UTOP" using that s(1) by (simp add: word_less_nat_alt)
        then show ?thesis using k3(5) k2(5) d(1) that by (auto simp: seg_byte_def)
      qed
      then show ?thesis using that ph(2) by (auto simp: loadable_def seg_loaded_def)
    qed
    show "entry k3 d a AND 7 = 7" if "a < UTOP" "PGNUM a \<in> set (seg_pages [ph])" for a
      using region_entry [OF k1(4) _ _ rb(2), of a] that(2) ph(2) maps_keptD(3) [OF mk d(1) that(1)] by (simp add: seg_pages_def loadable_def)
    fix d' a
    assume a: "d' \<in> D" "a < UTOP" "d' \<noteq> d \<or> PGNUM a \<notin> set (seg_pages [ph])"
    then have out: "d' \<noteq> d \<or> \<not> (?v \<le> PGNUM a \<and> PGNUM a < ?v + ?c)" using ph(2) by (auto simp: seg_pages_def loadable_def)
    then have e: "entry k1 d' a = entry k d' a" "umem k1 d' a = umem k d' a" using k1(4) a(1,2) unfolding region_mapped_def by blast+
    then show "entry k3 d' a = entry k d' a" using maps_keptD(3) [OF mk a(1,2)] by simp
    have "\<not> (d' = d \<and> unat ?va \<le> unat a \<and> unat a < unat ?va + ?n)" using out in_range [of ?va a "p_memsz ph"] by blast
    then show "umem k3 d' a = umem k d' a" using k3(5) k2(5) a(1,2) e(2) s(2) by auto
  qed
  then show ?thesis using k1(1,5) k2(1) k3(1,2,3) by blast
qed

lemma seg_pages_Cons: "p_type ph = ELF_PROG_LOAD \<Longrightarrow> seg_pages (ph # phs) = seg_pages [ph] @ seg_pages phs"
  by (simp add: seg_pages_def loadable_def)

lemma seg_loaded_other:
  assumes "seg_loaded b d m ph" "seg_ok ph" "p_type ph = ELF_PROG_LOAD" "set (seg_pages [ph]) \<inter> A = {}"
    and same: "\<And>a. a < UTOP \<Longrightarrow> PGNUM a \<notin> A \<Longrightarrow> umem m' d a = umem m d a"
  shows "seg_loaded b d m' ph"
  unfolding seg_loaded_def
proof (intro allI impI)
  fix a :: "32 word"
  assume a: "unat (p_va ph) \<le> unat a \<and> unat a < unat (p_va ph) + unat (p_memsz ph)"
  then have "a < UTOP" using assms(2) by (simp add: seg_ok_def word_less_nat_alt)
  moreover have "PGNUM a \<in> set (seg_pages [ph])"
    using in_range [of "p_va ph" a "p_memsz ph"] a assms(3) by (simp add: seg_pages_def loadable_def)
  ultimately show "umem m' d a = Some (seg_byte b ph (unat a - unat (p_va ph)))"
    using assms(1,4) same [of a] a by (auto simp: seg_loaded_def)
qed

lemma loadedD:
  assumes "loaded D K d b phs m m'"
  shows "machine.more m' = machine.more m" "npages m' = npages m" "q \<in> K \<Longrightarrow> pmem m' q = pmem m q"
    "ph \<in> set (loadable phs) \<Longrightarrow> seg_loaded b d m' ph" "a < UTOP \<Longrightarrow> PGNUM a \<in> set (seg_pages phs) \<Longrightarrow> entry m' d a AND 7 = 7"
    "d' \<in> D \<Longrightarrow> a < UTOP \<Longrightarrow> d' \<noteq> d \<or> PGNUM a \<notin> set (seg_pages phs) \<Longrightarrow> entry m' d' a = entry m d' a"
    "d' \<in> D \<Longrightarrow> a < UTOP \<Longrightarrow> d' \<noteq> d \<or> PGNUM a \<notin> set (seg_pages phs) \<Longrightarrow> umem m' d' a = umem m d' a"
  using assms unfolding loaded_def by blast+

lemma loaded_Cons:
  assumes a: "loaded D K d b [ph] m m1" and c: "loaded D K d b phs m1 m2" and d: "d \<in> D" and ph: "seg_ok ph" "p_type ph = ELF_PROG_LOAD"
    and dist: "set (seg_pages [ph]) \<inter> set (seg_pages phs) = {}"
  shows "loaded D K d b (ph # phs) m m2"
  unfolding loaded_def
proof (intro conjI allI impI ballI)
  note A = loadedD [OF a] and C = loadedD [OF c] and pg = seg_pages_Cons [OF ph(2), of phs]
  show "machine.more m2 = machine.more m" "npages m2 = npages m" using A(1,2) C(1,2) by simp_all
  show "pmem m2 q = pmem m q" if "q \<in> K" for q using A(3) C(3) that by simp
  show "seg_loaded b d m2 x" if "x \<in> set (loadable (ph # phs))" for x
  proof (cases "x \<in> set (loadable phs)")
    case True
    then show ?thesis by (rule C(4))
  next
    case False
    then have x: "x = ph" using that by (auto simp: loadable_def split: if_splits)
    have "seg_loaded b d m1 ph" using ph(2) by (intro A(4)) (simp add: loadable_def)
    then show ?thesis unfolding x by (rule seg_loaded_other [OF _ ph dist]) (use C(7) [OF d] in blast)
  qed
  show "entry m2 d x AND 7 = 7" if "x < UTOP" "PGNUM x \<in> set (seg_pages (ph # phs))" for x
  proof (cases "PGNUM x \<in> set (seg_pages phs)")
    case True
    then show ?thesis by (rule C(5) [OF that(1)])
  next
    case False
    then have "PGNUM x \<in> set (seg_pages [ph])" using that(2) pg by simp
    then show ?thesis using A(5) [OF that(1)] C(6) [OF d that(1)] False by simp
  qed
  fix d' x
  assume x: "d' \<in> D" "x < UTOP" "d' \<noteq> d \<or> PGNUM x \<notin> set (seg_pages (ph # phs))"
  then have "d' \<noteq> d \<or> PGNUM x \<notin> set (seg_pages phs)" "d' \<noteq> d \<or> PGNUM x \<notin> set (seg_pages [ph])" using pg by auto
  then show "entry m2 d' x = entry m d' x" "umem m2 d' x = umem m d' x" using A(6,7) [OF x(1,2)] C(6,7) [OF x(1,2)] by simp_all
qed

lemma load_segments_ok:
  assumes "mem_inv k D K xs ex" "unshared k D d" "d \<in> D" "env_pgdir (envs k ! e) = Some d"
    "\<forall>ph \<in> set (loadable phs). seg_ok ph" "distinct (seg_pages phs)" "seg_cost phs \<le> length xs"
  shows "\<exists>k' ys. load_segments e d b phs k = Some k' \<and> mem_inv k' D K ys ex \<and> unshared k' D d \<and> loaded D K d b phs k k' \<and>
    length xs \<le> length ys + seg_cost phs"
  using assms
proof (induction phs arbitrary: k xs)
  case Nil
  have "loaded D K d b [] k k" by (simp add: loaded_def loadable_def seg_pages_def)
  then show ?case using Nil by (intro exI [of _ k] exI [of _ xs]) simp
next
  case (Cons ph phs)
  show ?case
  proof (cases "p_type ph = ELF_PROG_LOAD")
    case False
    then have "loadable (ph # phs) = loadable phs" by (simp add: loadable_def)
    then have e: "seg_pages (ph # phs) = seg_pages phs" "seg_cost (ph # phs) = seg_cost phs"
      "loaded D K d b (ph # phs) k k' = loaded D K d b phs k k'" for k' by (simp_all add: seg_pages_def seg_cost_def loaded_def)
    then show ?thesis using Cons.IH [OF Cons.prems(1-4)] Cons.prems(5-) False \<open>loadable (ph # phs) = loadable phs\<close> by simp
  next
    case True
    note pg = seg_pages_Cons [OF True, of phs]
    have c: "seg_cost (ph # phs) = range_cost (p_va ph) (p_memsz ph) + seg_cost phs" "loadable (ph # phs) = ph # loadable phs"
      using True by (simp_all add: seg_cost_def loadable_def)
    have ok: "seg_ok ph" using Cons.prems(5) c(2) by simp
    obtain k1 k2 k3 ys where k3: "region_alloc e (p_va ph) (p_memsz ph) k = Some k1"
      "store_bytes d (p_va ph) (replicate (unat (p_memsz ph)) 0) k1 = Some k2"
      "store_bytes d (p_va ph) (map (\<lambda>i. b (unat (p_offset ph) + i)) [0..<unat (p_filesz ph)]) k2 = Some k3"
      "mem_inv k3 D K ys ex" "unshared k3 D d" "loaded D K d b [ph] k k3" "length xs \<le> length ys + range_cost (p_va ph) (p_memsz ph)"
      using load_segment_ok [OF Cons.prems(1-4) ok True, of b] Cons.prems(7) c(1) by auto
    have "machine.more k3 = machine.more k" by (rule loadedD(1) [OF k3(6)])
    then have "envs k3 = envs k" by (rule more_kernel(1))
    then obtain k' zs where k': "load_segments e d b phs k3 = Some k'" "mem_inv k' D K zs ex" "unshared k' D d" "loaded D K d b phs k3 k'"
      "length ys \<le> length zs + seg_cost phs"
      using Cons.IH [OF k3(4,5) Cons.prems(3)] Cons.prems(4-) c pg k3(7) by auto
    have "loaded D K d b (ph # phs) k k'"
      by (rule loaded_Cons [OF k3(6) k'(4) Cons.prems(3) ok True]) (use Cons.prems(6) pg in auto)
    then show ?thesis using k3(1-3,7) k'(1-3,5) True c(1) by (intro exI [of _ k'] exI [of _ zs]) simp
  qed
qed

section \<open>Whole programs\<close>

text \<open>
  A well-formed image: no segment shares a page with another or with the page of the stack. Creating its environment takes the pages
  of the segments and of the stack, their tables and a directory.
\<close>

abbreviation (input) stack_pageno :: nat where "stack_pageno \<equiv> 977917"

definition image_ok :: "image \<Rightarrow> bool" where
  "image_ok b \<longleftrightarrow> e_magic (elf_at b) = ELF_MAGIC \<and> list_all seg_ok (loadable (proghdrs b)) \<and>
     distinct (stack_pageno # seg_pages (proghdrs b))"

definition image_cost :: "image \<Rightarrow> nat" where
  "image_cost b = seg_cost (proghdrs b) + 3"

text \<open>The address space of a loaded program: its segments, a page for the stack, and nothing else.\<close>

definition space_loaded :: "image \<Rightarrow> nat \<Rightarrow> 'a machine_scheme \<Rightarrow> bool" where
  "space_loaded b d m \<longleftrightarrow> (\<forall>ph \<in> set (loadable (proghdrs b)). seg_loaded b d m ph) \<and>
     (\<forall>a < UTOP. if PGNUM a \<in> set (stack_pageno # seg_pages (proghdrs b)) then entry m d a AND 7 = 7 else entry m d a = 0)"

definition same_space :: "nat \<Rightarrow> 'a machine_scheme \<Rightarrow> 'a machine_scheme \<Rightarrow> bool" where
  "same_space d m m' \<longleftrightarrow> (\<forall>a < UTOP. entry m' d a = entry m d a \<and> umem m' d a = umem m d a)"

lemma same_space_trans: "same_space d m m1 \<Longrightarrow> same_space d m1 m2 \<Longrightarrow> same_space d m m2"
  by (simp add: same_space_def)

lemma same_space_fields:
  assumes "pmem m' = pmem m"
  shows "same_space d m m'" "space_loaded b d m' = space_loaded b d m"
proof -
  have e: "entry m' = entry m" "umem m' = umem m" using assms by (auto simp: entry_def umem_def page_byte_def fun_eq_iff)
  then show "same_space d m m'" "space_loaded b d m' = space_loaded b d m" by (simp_all add: same_space_def space_loaded_def seg_loaded_def)
qed

lemma space_loaded_same:
  assumes "space_loaded b d m" "same_space d m m'" "list_all seg_ok (loadable (proghdrs b))"
  shows "space_loaded b d m'"
proof -
  have same: "entry m' d a = entry m d a" "umem m' d a = umem m d a" if "a < UTOP" for a using assms(2) that by (simp_all add: same_space_def)
  have "seg_loaded b d m' ph" if "ph \<in> set (loadable (proghdrs b))" for ph
  proof (rule seg_loaded_other [where A = "{}"])
    show "seg_loaded b d m ph" using assms(1) that by (simp add: space_loaded_def)
    show "seg_ok ph" "p_type ph = ELF_PROG_LOAD" using assms(3) that by (auto simp: list_all_iff loadable_def)
  qed (use same in auto)
  then show ?thesis using assms(1) same unfolding space_loaded_def by simp
qed

lemma stack_range: "first_page (USTACKTOP - PGSIZE) = stack_pageno" "range_pages (USTACKTOP - PGSIZE) PGSIZE = 1"
  "range_cost (USTACKTOP - PGSIZE) PGSIZE = 2"
  by (simp_all add: first_page_def range_pages_def range_cost_def)

lemma load_icode_ok:
  assumes inv: "mem_inv k D K xs ex" and d: "d \<in> D" "env_pgdir (envs k ! e) = Some d" and b: "image_ok b"
    and room: "seg_cost (proghdrs b) + 2 \<le> length xs" and empty: "\<And>a. a < UTOP \<Longrightarrow> entry k d a = 0"
  shows "\<exists>m ys. load_icode e b k = Some (upd_env e (\<lambda>x. x\<lparr>env_tf := (env_tf x)\<lparr>tf_eip := e_entry (elf_at b)\<rparr>\<rparr>) m) \<and> mem_inv m D K ys ex \<and>
    machine.more m = machine.more k \<and> npages m = npages k \<and> (\<forall>q \<in> K. pmem m q = pmem k q) \<and> space_loaded b d m \<and>
    (\<forall>d' \<in> D. d' \<noteq> d \<longrightarrow> same_space d' k m) \<and> length xs \<le> length ys + seg_cost (proghdrs b) + 2"
proof -
  have sh: "unshared k D d" using empty by (simp add: unshared_def)
  have ok: "\<forall>ph \<in> set (loadable (proghdrs b)). seg_ok ph" "distinct (seg_pages (proghdrs b))" "stack_pageno \<notin> set (seg_pages (proghdrs b))"
    using b by (simp_all add: image_ok_def list_all_iff)
  obtain k1 ys where k1: "load_segments e d b (proghdrs b) k = Some k1" "mem_inv k1 D K ys ex" "unshared k1 D d"
    "loaded D K d b (proghdrs b) k k1" "length xs \<le> length ys + seg_cost (proghdrs b)"
    using load_segments_ok [OF inv sh d ok(1,2), of b] room by auto
  note L = loadedD [OF k1(4)]
  have e1: "env_pgdir (envs k1 ! e) = Some d" using d(2) more_kernel(1) [OF L(1)] by simp
  obtain m zs where m: "region_alloc e (USTACKTOP - PGSIZE) PGSIZE k1 = Some m" "mem_inv m D K zs ex"
    "region_mapped D K d stack_pageno 1 k1 m" "length ys \<le> length zs + 2"
    using region_alloc_ok [OF k1(2,3) d(1) e1, of "USTACKTOP - PGSIZE" PGSIZE] room k1(5) unfolding stack_range by auto
  have out: "entry m d' a = entry k1 d' a" "umem m d' a = umem k1 d' a" if "d' \<in> D" "a < UTOP" "d' \<noteq> d \<or> PGNUM a \<noteq> stack_pageno" for d' a
  proof -
    have "d' \<noteq> d \<or> \<not> (stack_pageno \<le> PGNUM a \<and> PGNUM a < stack_pageno + 1)" using that(3) by auto
    then show "entry m d' a = entry k1 d' a" "umem m d' a = umem k1 d' a" using m(3) that(1,2) unfolding region_mapped_def by blast+
  qed
  have "space_loaded b d m"
    unfolding space_loaded_def
  proof (intro conjI ballI allI impI)
    show "seg_loaded b d m ph" if "ph \<in> set (loadable (proghdrs b))" for ph
    proof (rule seg_loaded_other [where A = "{stack_pageno}"])
      show "seg_loaded b d k1 ph" by (rule L(4) [OF that])
      show "seg_ok ph" "p_type ph = ELF_PROG_LOAD" using ok(1) that by (auto simp: loadable_def)
      have "set (seg_pages [ph]) \<subseteq> set (seg_pages (proghdrs b))" using that by (auto simp: seg_pages_def loadable_def)
      then show "set (seg_pages [ph]) \<inter> {stack_pageno} = {}" using ok(3) by auto
    qed (use out(2) [OF d(1)] in blast)
    show "if PGNUM a \<in> set (stack_pageno # seg_pages (proghdrs b)) then entry m d a AND 7 = 7 else entry m d a = 0" if "a < UTOP" for a
    proof (cases "PGNUM a = stack_pageno")
      case True
      then show ?thesis using region_entry [OF m(3), of a] by simp
    next
      case False
      then show ?thesis using out(1) [OF d(1) that] L(5) [OF that] L(6) [OF d(1) that] empty [OF that] by simp
    qed
  qed
  moreover have "same_space d' k m" if "d' \<in> D" "d' \<noteq> d" for d'
    unfolding same_space_def using out [OF that(1)] L(6,7) [OF that(1)] that(2) by simp
  moreover have "machine.more m = machine.more k" "npages m = npages k" "\<forall>q \<in> K. pmem m q = pmem k q"
    using m(3) L(1-3) by (simp_all add: region_mapped_def)
  moreover have "load_icode e b k = Some (upd_env e (\<lambda>x. x\<lparr>env_tf := (env_tf x)\<lparr>tf_eip := e_entry (elf_at b)\<rparr>\<rparr>) m)"
    using b d(2) k1(1) m(1) by (simp add: load_icode_def image_ok_def)
  ultimately show ?thesis using m(2,4) k1(5) by (intro exI [of _ m] exI [of _ zs]) simp
qed

lemma env_alloc_links:
  assumes "env_alloc parent k = (0, Some e, k')" "e < length (envs k)"
  shows "env_free_list k' = env_link (envs k ! e)" "kern_pgdir k' = kern_pgdir k" "aging_ticks k' = aging_ticks k"
proof -
  obtain r m where al: "page_alloc True k = (r, m)" by fastforce
  note mk = more_kernel [OF more_page_alloc [OF al]]
  obtain e' where fl: "env_free_list k = Some e'" using assms(1) by (auto simp: env_alloc_def split: option.splits)
  show "env_free_list k' = env_link (envs k ! e)" "kern_pgdir k' = kern_pgdir k" "aging_ticks k' = aging_ticks k"
    using assms al mk fl
    by (auto simp: env_alloc_def env_setup_vm_def Let_def env_pop_def upd_env_def upd_page_def put_word_def nth_list_update split: option.splits if_splits prod.splits)
qed

text \<open>Giving a free page to a new directory changes no other address space.\<close>

lemma alloc_same_space:
  assumes inv: "mem_inv k D K (p # xs) ex" and d: "d \<in> D" and same: "\<And>q. q \<noteq> p \<Longrightarrow> pmem k' q = pmem k q"
  shows "same_space d k k'"
  unfolding same_space_def
proof (intro allI impI)
  fix a :: "32 word"
  assume a: "a < UTOP"
  have fp: "sites k D p = {}" "p \<notin> D" "\<not> is_table k D p" using free_page [OF inv, of p] by simp_all
  have e: "entry k' d a = entry k d a" by (rule data_change_entry [OF inv fp(2,3) same d a])
  moreover have "PGNUM (entry k d a) \<noteq> p" if "entry k d a \<noteq> 0" using entry_refers(1) [OF inv d a that] fp(1) unfolding sites_def by blast
  ultimately show "entry k' d a = entry k d a \<and> umem k' d a = umem k d a" using same by (auto intro: umem_kept)
qed

definition created_env :: "image \<Rightarrow> env_kind \<Rightarrow> nat \<Rightarrow> nat \<Rightarrow> environment \<Rightarrow> environment" where
  "created_env b type e d x = (fresh_env 0 e d x)\<lparr>env_tf := user_tf\<lparr>tf_eip := e_entry (elf_at b)\<rparr>, env_type := type, priority := MAX_PRIORITY\<rparr>"

lemma env_create_ok:
  assumes inv: "kern_inv cpu K k" and mem: "mem_inv k (dirs k) K xs (\<lambda>_. 0)" and e: "env_free_list k = Some e"
    and b: "image_ok b" and room: "image_cost b \<le> length xs"
  shows "\<exists>k' d ys. env_create b type k = Some (e, k') \<and> kern_inv cpu K k' \<and> mem_inv k' (dirs k') K ys (\<lambda>_. 0) \<and> d \<in> dirs k' - dirs k \<and>
    envs k' = (envs k)[e := created_env b type e d (envs k ! e)] \<and> space_loaded b d k' \<and> (\<forall>d' \<in> dirs k. same_space d' k k') \<and>
    dirs k \<subseteq> dirs k' \<and> env_free_list k' = env_link (envs k ! e) \<and> cpu_env k' = cpu_env k \<and> kern_pgdir k' = kern_pgdir k \<and>
    aging_ticks k' = aging_ticks k \<and> npages k' = npages k \<and> (\<forall>q \<in> K. pmem k' q = pmem k q) \<and> length xs \<le> length ys + image_cost b"
proof -
  have len: "length (envs k) = NENV" by (rule kern_invD(5) [OF inv])
  note eb = free_env_bound [OF inv e]
  obtain p zs where xs: "xs = p # zs" using room by (cases xs) (auto simp: image_cost_def)
  note mem = mem [unfolded xs]
  obtain k1 where k1: "env_alloc 0 k = (0, Some e, k1)" "kern_inv cpu K k1" "cpu_env k1 = cpu_env k"
    "envs k1 = (envs k)[e := fresh_env 0 e p (envs k ! e)]" "dirs k1 = insert p (dirs k)"
    "mem_inv k1 (insert p (dirs k)) K zs (\<lambda>_. 0)" "\<forall>q. q \<noteq> p \<longrightarrow> pmem k1 q = pmem k q" "\<forall>i < 955. pmem k1 p i = 0" "npages k1 = npages k"
    using env_alloc_ok [OF inv mem e, of 0] by blast
  note al = env_alloc_links [OF k1(1)] 
  have fp: "p \<notin> dirs k" "p \<notin> K" using free_page [OF mem, of p] by simp_all
  have pd: "env_pgdir (envs k1 ! e) = Some p" "used k1 e" using k1(4) eb(1) len by (simp_all add: fresh_env_def used_def)
  have "entry k1 p a = 0" if "a < UTOP" for a using k1(8) PDX_user [OF that] by (simp add: entry_def)
  then obtain m ys where m: "load_icode e b k1 = Some (upd_env e (\<lambda>x. x\<lparr>env_tf := (env_tf x)\<lparr>tf_eip := e_entry (elf_at b)\<rparr>\<rparr>) m)"
    "mem_inv m (insert p (dirs k)) K ys (\<lambda>_. 0)" "machine.more m = machine.more k1" "npages m = npages k1" "\<forall>q \<in> K. pmem m q = pmem k1 q"
    "space_loaded b p m" "\<forall>d' \<in> insert p (dirs k). d' \<noteq> p \<longrightarrow> same_space d' k1 m" "length zs \<le> length ys + seg_cost (proghdrs b) + 2"
    using load_icode_ok [OF k1(6) _ pd(1) b] room xs by (auto simp: image_cost_def)
  note mk = more_kernel [OF m(3)]
  let ?f = "\<lambda>x. x\<lparr>env_tf := (env_tf x)\<lparr>tf_eip := e_entry (elf_at b)\<rparr>\<rparr>" and ?g = "\<lambda>x :: environment. x\<lparr>env_type := type, priority := MAX_PRIORITY\<rparr>"
  let ?k = "upd_env e ?g (upd_env e ?f m)"
  have im: "kern_inv cpu K m" using k1(2,5) m(2,3,5) by (intro kern_inv_mem [of cpu K k1 m ys]) simp_all
  have um: "used m e" using pd(2) by (simp add: used_def mk(1))
  note st = kern_invD(7) [OF im, of e]
  have i1: "kern_inv cpu K (upd_env e ?f m)" by (rule kern_inv_upd [OF im um]) (use um st eb(1) in \<open>auto simp: used_def\<close>)
  have u1: "used (upd_env e ?f m) e" using used_upd [OF kern_invD(5) [OF im] um, of ?f] um by (simp add: used_def)
  have i2: "kern_inv cpu K ?k"
    by (rule kern_inv_upd [OF i1 u1]) (use u1 kern_invD(7) [OF i1, of e] eb(1) in \<open>auto simp: used_def\<close>)
  have cr: "env_create b type k = Some (e, ?k)" using k1(1) m(1) by (simp add: env_create_def)
  have env: "envs ?k = (envs k)[e := created_env b type e p (envs k ! e)]"
    using mk(1) k1(4) eb(1) len by (simp add: upd_env_def created_env_def fresh_env_def)
  have "used ?k f = used k1 f" "used k1 f \<Longrightarrow> env_pgdir (envs ?k ! f) = env_pgdir (envs k1 ! f)" for f
    using k1(4) eb(1) len unfolding used_def env by (auto simp: nth_list_update created_env_def fresh_env_def)
  then have "dirs ?k = dirs k1" unfolding dirs_def by (intro Collect_cong) (metis (no_types, lifting))
  then have dk: "dirs ?k = insert p (dirs k)" by (simp only: k1(5))
  have pm: "pmem ?k = pmem m" "pages ?k = pages m" "page_free_list ?k = page_free_list m" by (simp_all add: upd_env_def)
  have "mem_inv ?k (dirs ?k) K ys (\<lambda>_. 0)" unfolding dk using m(2) same_machine(1) [OF pm(2,3,1)] by blast
  moreover have "space_loaded b p ?k" using m(6) same_space_fields(2) [OF pm(1)] by blast
  moreover have "same_space d' k ?k" if d': "d' \<in> dirs k" for d'
  proof -
    have "same_space d' k k1" using k1(7) by (intro alloc_same_space [OF mem d']) blast
    moreover have "same_space d' k1 m" using m(7) d' fp(1) by (metis insertI2)
    ultimately show ?thesis using same_space_fields(1) [OF pm(1)] same_space_trans by blast
  qed
  moreover have "env_free_list ?k = env_link (envs k ! e)" "cpu_env ?k = cpu_env k" "kern_pgdir ?k = kern_pgdir k" "aging_ticks ?k = aging_ticks k"
    using al eb(1) len mk k1(3) by (simp_all add: upd_env_def)
  moreover have "npages ?k = npages k" using m(4) k1(9) by (simp add: npages_def upd_env_def)
  moreover have "\<forall>q \<in> K. pmem ?k q = pmem k q" using m(5) k1(7) fp(2) pm(1) by metis
  moreover have "length xs \<le> length ys + image_cost b" using m(8) xs by (simp add: image_cost_def)
  moreover have "p \<in> dirs ?k - dirs k" "dirs k \<subseteq> dirs ?k" using dk fp(1) by auto
  ultimately show ?thesis using cr i2 env by blast
qed

end
