(* ===== verification/Kern_Start.thy ===== *)
theory Kern_Start
  imports Kern_Load_Props Kern_Run
begin

unbundle bit_operations_syntax

text \<open>
  The end of \<^verbatim>\<open>i386_init\<close>: with well-formed images of the programs of the build and memory for them, the programs are created, and the
  scheduler runs one of them, loaded as its image says, in a state that satisfies the invariant of the kernel.
\<close>

section \<open>Creating the programs\<close>

text \<open>Environment \<open>e\<close> is ready to run an image with a priority, and the first environments run a list of such programs.\<close>

definition ready :: "kernel \<Rightarrow> nat \<Rightarrow> image \<times> int \<Rightarrow> bool" where
  "ready k e bp \<longleftrightarrow> env_status (envs k ! e) = ENV_RUNNABLE \<and> env_tf (envs k ! e) = user_tf\<lparr>tf_eip := e_entry (elf_at (fst bp))\<rparr> \<and>
     env_type (envs k ! e) = ENV_TYPE_USER \<and> priority (envs k ! e) = snd bp \<and>
     (\<exists>d \<in> dirs k. env_pgdir (envs k ! e) = Some d \<and> space_loaded (fst bp) d k)"

definition programs :: "nat \<Rightarrow> nat set \<Rightarrow> nat list \<Rightarrow> (image \<times> int) list \<Rightarrow> kernel \<Rightarrow> bool" where
  "programs cpu K xs ps k \<longleftrightarrow> kern_inv cpu K k \<and> mem_inv k (dirs k) K xs (\<lambda>_. 0) \<and> cpu_env k = (\<lambda>_. None) \<and> aging_ticks k = 0 \<and>
     env_free_list k = Some (length ps) \<and> (\<forall>e < length ps. image_ok (fst (ps ! e)) \<and> ready k e (ps ! e)) \<and>
     (\<forall>e. length ps \<le> e \<and> e < NENV \<longrightarrow> env_status (envs k ! e) = ENV_FREE \<and> env_link (envs k ! e) = (if e = NENV - 1 then None else Some (Suc e)))"

lemma programsD:
  assumes "programs cpu K xs ps k"
  shows "kern_inv cpu K k" "mem_inv k (dirs k) K xs (\<lambda>_. 0)" "cpu_env k = (\<lambda>_. None)" "aging_ticks k = 0" "env_free_list k = Some (length ps)"
    "e < length ps \<Longrightarrow> image_ok (fst (ps ! e))" "e < length ps \<Longrightarrow> ready k e (ps ! e)"
    "length ps \<le> e \<Longrightarrow> e < NENV \<Longrightarrow> env_status (envs k ! e) = ENV_FREE"
    "length ps \<le> e \<Longrightarrow> e < NENV \<Longrightarrow> env_link (envs k ! e) = (if e = NENV - 1 then None else Some (Suc e))"
    "length (envs k) = NENV"
  using assms kern_invD(5) [of cpu K k] unfolding programs_def by blast+

lemma env_create_program:
  assumes ps: "programs cpu K xs ps k" and b: "image_ok b" "image_cost b \<le> length xs" and n: "length ps < NENV - 1"
  shows "\<exists>k' ys. env_create b ENV_TYPE_USER k = Some (length ps, k') \<and> programs cpu K ys (ps @ [(b, MAX_PRIORITY)]) k' \<and>
    length xs \<le> length ys + image_cost b"
proof -
  note P = programsD [OF ps]
  let ?e = "length ps"
  obtain k' d ys where k': "env_create b ENV_TYPE_USER k = Some (?e, k')" "kern_inv cpu K k'" "mem_inv k' (dirs k') K ys (\<lambda>_. 0)" "d \<in> dirs k' - dirs k"
    "envs k' = (envs k)[?e := created_env b ENV_TYPE_USER ?e d (envs k ! ?e)]" "space_loaded b d k'" "\<forall>d' \<in> dirs k. same_space d' k k'"
    "dirs k \<subseteq> dirs k'" "env_free_list k' = env_link (envs k ! ?e)" "cpu_env k' = cpu_env k" "aging_ticks k' = aging_ticks k"
    "length xs \<le> length ys + image_cost b"
    using env_create_ok [OF P(1,2,5) b, of ENV_TYPE_USER] by blast
  have new: "envs k' ! ?e = created_env b ENV_TYPE_USER ?e d (envs k ! ?e)" using k'(5) n P(10) by simp
  have old: "envs k' ! e = envs k ! e" if "e \<noteq> ?e" for e using k'(5) that by simp
  have "image_ok (fst ((ps @ [(b, MAX_PRIORITY)]) ! e)) \<and> ready k' e ((ps @ [(b, MAX_PRIORITY)]) ! e)" if "e < Suc ?e" for e
  proof (cases "e = ?e")
    case True
    then show ?thesis using b(1) new k'(4,6) by (auto simp: ready_def created_env_def fresh_env_def nth_append)
  next
    case False
    then have e: "e < ?e" using that by simp
    obtain d0 where d0: "d0 \<in> dirs k" "env_pgdir (envs k ! e) = Some d0" "space_loaded (fst (ps ! e)) d0 k"
      using P(7) [OF e] by (auto simp: ready_def)
    have "space_loaded (fst (ps ! e)) d0 k'"
      by (rule space_loaded_same [OF d0(3)]) (use k'(7) d0(1) P(6) [OF e] in \<open>simp_all add: image_ok_def\<close>)
    then show ?thesis using P(6,7) [OF e] e d0(1,2) k'(8) old [OF False] by (auto simp: ready_def nth_append)
  qed
  moreover have "env_free_list k' = Some (Suc ?e)" using k'(9) P(9) [of ?e] n by simp
  moreover have "env_status (envs k' ! e) = ENV_FREE" "env_link (envs k' ! e) = (if e = NENV - 1 then None else Some (Suc e))"
    if "Suc ?e \<le> e" "e < NENV" for e using that P(8,9) [of e] old [of e] by simp_all
  ultimately have "programs cpu K ys (ps @ [(b, MAX_PRIORITY)]) k'"
    unfolding programs_def using k'(2,3,10,11) P(3,4) by simp
  then show ?thesis using k'(1,12) by blast
qed

text \<open>Changing the priority of the last program.\<close>

lemma set_priority_program:
  assumes ps: "programs cpu K xs (ps @ [(b, q)]) k" and n: "length ps < NENV"
  shows "programs cpu K xs (ps @ [(b, r)]) (upd_env (length ps) (\<lambda>x. x\<lparr>priority := r\<rparr>) k)"
proof -
  note P = programsD [OF ps]
  let ?e = "length ps" and ?k = "upd_env (length ps) (\<lambda>x. x\<lparr>priority := r\<rparr>) k"
  have u: "used k ?e" using P(7) [of ?e] n by (simp add: used_def ready_def)
  have inv: "kern_inv cpu K ?k" by (rule kern_inv_upd [OF P(1) u]) (use u kern_invD(7) [OF P(1), of ?e] n in \<open>auto simp: used_def\<close>)
  have us: "used ?k = used k" by (rule used_upd [OF P(10) u]) (use u in \<open>auto simp: used_def\<close>)
  have env: "envs ?k ! e = (if e = ?e then (envs k ! e)\<lparr>priority := r\<rparr> else envs k ! e)" for e
    using n P(10) by (simp add: upd_env_def nth_list_update)
  have "env_pgdir (envs ?k ! e) = env_pgdir (envs k ! e)" for e unfolding env by simp
  then have d: "dirs ?k = dirs k" unfolding dirs_def us by simp
  have mem: "mem_inv ?k (dirs k) K xs (\<lambda>_. 0)" using P(2) same_machine(1) [of ?k k] by (simp add: upd_env_def)
  have sl: "space_loaded c d0 ?k = space_loaded c d0 k" for c d0 by (rule same_space_fields) (simp add: upd_env_def)
  have "image_ok (fst ((ps @ [(b, r)]) ! e)) \<and> ready ?k e ((ps @ [(b, r)]) ! e)" if "e < Suc ?e" for e
    using P(6,7) [of e] that unfolding ready_def env d sl by (cases "e = ?e") (simp_all add: nth_append)
  moreover have "env_status (envs ?k ! e) = ENV_FREE" "env_link (envs ?k ! e) = (if e = NENV - 1 then None else Some (Suc e))"
    if "Suc ?e \<le> e" "e < NENV" for e using that P(8,9) [of e] unfolding env by simp_all
  moreover have "cpu_env ?k = (\<lambda>_. None)" "aging_ticks ?k = 0" "env_free_list ?k = Some (Suc ?e)" using P(3-5) by (simp_all add: upd_env_def)
  ultimately show ?thesis using inv mem unfolding programs_def d by simp
qed

lemma env_create_all_program:
  assumes "programs cpu K xs ps k" "\<forall>s \<in> set ss. image_ok (images s)" "sum_list (map (\<lambda>s. image_cost (images s)) ss) \<le> length xs"
    "length ps + length ss < NENV"
  shows "\<exists>k' ys. env_create_all images ss k = Some k' \<and> programs cpu K ys (ps @ map (\<lambda>s. (images s, MAX_PRIORITY)) ss) k'"
  using assms
proof (induction ss arbitrary: k xs ps)
  case (Cons s ss)
  have n: "length ps < NENV - 1" using Cons.prems(4) by simp
  obtain k1 ys where k1: "env_create (images s) ENV_TYPE_USER k = Some (length ps, k1)" "programs cpu K ys (ps @ [(images s, MAX_PRIORITY)]) k1"
    "length xs \<le> length ys + image_cost (images s)"
    using env_create_program [OF Cons.prems(1) _ _ n, of "images s"] Cons.prems(2,3) by auto
  then show ?case using Cons.IH [OF k1(2)] Cons.prems(2-) by auto
qed auto

text \<open>The programs of a build with their priorities, in the order of their creation, and what they need.\<close>

definition initial_programs :: "policy \<Rightarrow> (string \<Rightarrow> image) \<Rightarrow> (image \<times> int) list" where
  "initial_programs p images =
     (case p of
        SCHED_PRIORITIES \<Rightarrow> [(images ''user_yield'', 2), (images ''user_spin'', 8), (images ''user_prioself'', 8), (images ''user_priofork'', 8)]
      | SCHED_ROUND_ROBIN \<Rightarrow> replicate 4 (images ''user_hello'', 8))"

definition programs_cost :: "policy \<Rightarrow> (string \<Rightarrow> image) \<Rightarrow> nat" where
  "programs_cost p images = sum_list (map (\<lambda>(b, _). image_cost b) (initial_programs p images))"

lemma create_programs_ok:
  assumes ps: "programs cpu K xs [] k" and ok: "\<forall>(b, _) \<in> set (initial_programs p images). image_ok b"
    and room: "programs_cost p images \<le> length xs"
  shows "\<exists>k' ys. create_programs p images k = Some k' \<and> programs cpu K ys (initial_programs p images) k'"
proof (cases p)
  case SCHED_ROUND_ROBIN
  then show ?thesis
    using env_create_all_program [OF ps, of "[''user_hello'', ''user_hello'', ''user_hello'', ''user_hello'']" images] ok room
    by (auto simp: create_programs_def initial_programs_def programs_cost_def numeral_eq_Suc)
next
  case SCHED_PRIORITIES
  let ?y = "images ''user_yield''"
  obtain k1 ys where k1: "env_create ?y ENV_TYPE_USER k = Some (0, k1)" "programs cpu K ys [(?y, MAX_PRIORITY)] k1" "length xs \<le> length ys + image_cost ?y"
    using env_create_program [OF ps, of ?y] ok room SCHED_PRIORITIES by (auto simp: initial_programs_def programs_cost_def)
  have "programs cpu K ys [(?y, 2)] (upd_env 0 (\<lambda>x. x\<lparr>priority := 2\<rparr>) k1)" using set_priority_program [of cpu K ys "[]"] k1(2) by simp
  from env_create_all_program [OF this, of "[''user_spin'', ''user_prioself'', ''user_priofork'']" images]
  show ?thesis using k1(1,3) ok room SCHED_PRIORITIES by (auto simp: create_programs_def initial_programs_def programs_cost_def)
qed

section \<open>The first program runs\<close>

text \<open>What the scheduler leaves alone: memory, and the frame and the directory of every environment.\<close>

definition saved :: "kernel \<Rightarrow> (nat \<Rightarrow> nat \<Rightarrow> 32 word) \<times> (trapframe \<times> nat option) list" where
  "saved k = (pmem k, map (\<lambda>x. (env_tf x, env_pgdir x)) (envs k))"

lemma saved_upd: "(\<And>x. env_tf (f x) = env_tf x) \<Longrightarrow> (\<And>x. env_pgdir (f x) = env_pgdir x) \<Longrightarrow> saved (upd_env e f k) = saved k"
  by (cases "e < length (envs k)") (auto simp: saved_def upd_env_def intro!: nth_equalityI simp: nth_list_update)

lemma saved_env_run: "saved (env_run cpu e k) = saved k"
proof -
  have f: "saved (k\<lparr>cpu_env := c\<rparr>) = saved k" for c k by (simp add: saved_def)
  show ?thesis by (simp add: env_run_def Let_def saved_upd f split: option.split)
qed

lemma saved_count: "saved (count_run e k) = saved k"
  by (simp add: saved_def count_run_def Let_def)

lemma saved_choose: "saved (snd (choose_env p s k)) = saved k"
proof -
  have a: "saved (aging k) = saved k" by (auto simp: aging_def saved_def Let_def age_env_def)
  have d: "saved (demote mx e k) = saved k" for mx e k by (simp add: demote_def saved_upd)
  show ?thesis using a d by (auto simp: choose_env_def choose_rr_def choose_prio_def Let_def split: policy.split option.split)
qed

lemma saved_yield: "saved (snd (sched_yield p cpu k)) = saved k"
proof -
  let ?k = "k\<lparr>n_sched_calls := n_sched_calls k + 1\<rparr>"
  obtain r k1 where ch: "choose_env p (start_index cpu ?k) ?k = (r, k1)" by fastforce
  have "saved k1 = saved k" using saved_choose [of p "start_index cpu ?k" ?k] ch by (simp add: saved_def)
  moreover have "saved (snd (sched_halt cpu k1)) = saved k1" by (simp add: sched_halt_def saved_def)
  ultimately show ?thesis
    using ch by (auto simp: sched_yield_def Let_def run_counted_def saved_env_run saved_count split: option.split)
qed

lemma first_runs:
  assumes ps: "programs cpu K xs (initial_programs p images) k"
  defines "e \<equiv> (case p of SCHED_ROUND_ROBIN \<Rightarrow> 0 | SCHED_PRIORITIES \<Rightarrow> 1)"
  shows "\<exists>k'. sched_yield p cpu k = (Run e, k') \<and> kern_inv cpu K k' \<and> cpu_env k' cpu = Some e \<and> env_status (envs k' ! e) = ENV_RUNNING"
proof -
  note P = programsD [OF ps]
  have inv: "kern_inv cpu K (snd (sched_yield p cpu k))" by (rule sched_yield_inv [OF P(1)])
  have s0: "start_index cpu k = 0" using P(3) by (simp add: start_index_def)
  have run: "runnable k i" if "i < length (initial_programs p images)" for i using P(7) [OF that] by (simp add: runnable_def ready_def)
  show ?thesis
  proof (cases p)
    case SCHED_ROUND_ROBIN
    have "runnable k 0" using run [of 0] SCHED_ROUND_ROBIN by (simp add: initial_programs_def)
    moreover have "circular 0 = 0 # map (\<lambda>i. i mod NENV) [1..<NENV]" unfolding circular_def by (subst upt_conv_Cons) simp_all
    ultimately have f: "find (runnable k) (circular 0) = Some 0" by simp
    let ?k = "env_run cpu 0 (count_run 0 (k\<lparr>n_sched_calls := n_sched_calls k + 1\<rparr>))"
    have "sched_yield p cpu k = (Run 0, ?k)"
      using f SCHED_ROUND_ROBIN s0 by (simp add: sched_yield_def choose_env_def choose_rr_def run_counted_def sched_calls_same)
    moreover have "cpu_env ?k cpu = Some 0" "env_status (envs ?k ! 0) = ENV_RUNNING" using P(10) by (simp_all add: env_run_nth)
    ultimately show ?thesis using inv SCHED_ROUND_ROBIN by (simp add: e_def)
  next
    case SCHED_PRIORITIES
    have L: "length (initial_programs p images) = 4" using SCHED_PRIORITIES by (simp add: initial_programs_def)
    have pr: "priority (envs k ! i) = snd (initial_programs p images ! i)" if "i < 4" for i using P(7) [of i] that L by (simp add: ready_def)
    have p1: "priority (envs k ! 0) = 2" "priority (envs k ! 1) = 8" "priority (envs k ! 2) = 8" "priority (envs k ! 3) = 8"
      using pr [of 0] pr [of 1] pr [of 2] pr [of 3] SCHED_PRIORITIES by (simp_all add: initial_programs_def)
    have r1: "runnable k 1" using run [of 1] L by simp
    obtain f k' where f: "sched_yield p cpu k = (Run f, k')" "f < NENV" "runnable k f" "priority (envs k ! 1) \<le> priority (envs k ! f)"
      "priority (envs k ! 1) = priority (envs k ! f) \<longrightarrow> ring_pos 0 f \<le> ring_pos 0 1" "cpu_env k' cpu = Some f" "env_status (envs k' ! f) = ENV_RUNNING"
      using prio_picks [OF P(10), of 1 cpu] P(4) p1(2) r1 SCHED_PRIORITIES s0 by auto
    have "f < 4" using f(2,3) P(8) [of f] L by (cases "f < 4") (auto simp: runnable_def)
    then have "f \<in> {0, 1, 2, 3}" by auto
    then have "f = 1 \<or> f = 2 \<or> f = 3" using f(4) p1 by auto
    then have "priority (envs k ! f) = 8" "ring_pos 0 f = f" using p1 by (auto simp: ring_pos_def)
    then have "f \<le> 1" using f(5) p1(2) by (simp add: ring_pos_def)
    then have "f = 1" using \<open>f = 1 \<or> f = 2 \<or> f = 3\<close> by auto
    then show ?thesis using f inv SCHED_PRIORITIES by (simp add: e_def)
  qed
qed

section \<open>Memory and the other processors\<close>

lemma put_phys_page:
  assumes "4096 * q \<le> pa" "pa + length bs \<le> 4096 * Suc q"
  shows "\<exists>w. put_phys pa bs m = m\<lparr>pmem := (pmem m)(q := w)\<rparr>"
  using assms
proof (induction bs arbitrary: pa m)
  case Nil
  have "m = m\<lparr>pmem := (pmem m)(q := pmem m q)\<rparr>" by simp
  then show ?case by (intro exI [of _ "pmem m q"]) simp
next
  case (Cons b bs)
  have q: "pa div 4096 = q" using Cons.prems by (intro div_nat_eqI) simp_all
  let ?m = "put_word q (pa mod 4096 div 4) (set_byte (8 * (pa mod 4)) b (pmem m q (pa mod 4096 div 4))) m"
  have "4096 * q \<le> pa + 1" "pa + 1 + length bs \<le> 4096 * Suc q" using Cons.prems by simp_all
  from Cons.IH [OF this, of ?m] obtain w where w: "put_phys (pa + 1) bs ?m = ?m\<lparr>pmem := (pmem ?m)(q := w)\<rparr>" by blast
  have "put_phys pa (b # bs) m = m\<lparr>pmem := (pmem m)(q := w)\<rparr>" unfolding put_phys.simps q w by (simp add: put_word_def)
  then show ?case by blast
qed

lemma copy_mpentry_ok:
  assumes "length code \<le> 4096" "7 < npages k"
  shows "\<exists>w. copy_mpentry code k = Some (k\<lparr>pmem := (pmem k)(7 := w)\<rparr>)"
proof -
  have "KADDR (npages k) MPENTRY_PADDR = Some (MPENTRY_PADDR + KERNBASE)" using assms(2) by (simp add: KADDR_def PGNUM_div)
  then show ?thesis using put_phys_page [of 7 "unat (MPENTRY_PADDR :: 32 word)" code k] assms(1) by (auto simp: copy_mpentry_def)
qed

lemma kernel_mapped_mmio:
  assumes km: "kernel_mapped m kd np fp fe fk" and "upages np \<le> 128"
  shows "entry m kd (page2pa 0xEF803) = 0" "pmem m kd 958 \<noteq> 0" "\<forall>i < 955. pmem m kd i = 0"
proof -
  have st: "\<forall>i < 8. 0xEF803 \<notin> {stack_page i..<stack_page i + 8}"
  proof (intro allI impI)
    fix i :: nat
    assume "i < 8"
    then show "0xEF803 \<notin> {stack_page i..<stack_page i + 8}" using stack_bounds(2) [of i] by simp
  qed
  have z: "\<forall>u < 0xF0000. u div 1024 \<noteq> 957 \<and> u \<notin> {0xEF000..<0xEF000 + upages np} \<and> u \<notin> {0xEEC00..<0xEEC20} \<and>
      (\<forall>i < 8. u \<notin> {stack_page i..<stack_page i + 8}) \<longrightarrow> entry m kd (page2pa u) = 0"
    "\<forall>i < 1024. i \<noteq> 957 \<longrightarrow> (pmem m kd i \<noteq> 0 \<longleftrightarrow> i \<in> {955, 956, 958, 959} \<or> 960 \<le> i)"
    using km unfolding kernel_mapped_def by blast+
  show "entry m kd (page2pa 0xEF803) = 0" using z(1) [THEN spec, of "0xEF803"] st assms(2) by simp
  show "pmem m kd 958 \<noteq> 0" using z(2) by simp
  show "\<forall>i < 955. pmem m kd i = 0"
  proof (intro allI impI)
    fix i :: nat
    assume "i < 955"
    then show "pmem m kd i = 0" using z(2) [THEN spec, of i] by simp
  qed
qed

lemma kmap_same: "pages m' = pages m \<Longrightarrow> page_free_list m' = page_free_list m \<Longrightarrow> pmem m' = pmem m \<Longrightarrow> kmap m' kd xs = kmap m kd xs"
  using boot_inv_mem [of m' m xs] by (simp add: kmap_def npages_def)

text \<open>A page of registers is mapped at the next free page \<open>v\<close> of the window for devices.\<close>

lemma lapic_map_ok:
  assumes km: "kmap k kd ys" "ys \<noteq> []" and kd: "kern_pgdir k = kd" and v: "0xEF800 \<le> v" "v + 1 < 0xEFC00"
    and z: "entry k kd (page2pa v) = 0" "pmem k kd 958 \<noteq> 0"
  shows "\<exists>k' zs. lapic_map la (page2pa v) k = Some (page2pa (v + (if la = 0 then 0 else 1)), k') \<and> kmap k' kd zs \<and> set zs \<subseteq> set ys \<and> length ys \<le> length zs + 1 \<and>
    npages k' = npages k \<and> machine.more k' = machine.more k \<and> pmem k' kd = pmem k kd \<and>
    (\<forall>u < 2 ^ 20. u div 1024 \<noteq> 957 \<and> u \<noteq> v \<longrightarrow> entry k' kd (page2pa u) = entry k kd (page2pa u))"
proof (cases "la = 0")
  case True
  then show ?thesis using km by (intro exI [of _ k] exI [of _ ys]) (simp add: lapic_map_def)
next
  case False
  have up: "ROUNDUP 4096 PGSIZE = of_nat (4096 * 1)" by (simp add: ROUNDUP_def ROUNDDOWN_def)
  have "unat la < 2 ^ LENGTH(32)" by (rule unsigned_less)
  then have "unat la div 4096 < 2 ^ 20" by (simp add: less_mult_imp_div_less)
  then have "unat (ROUNDDOWN la PGSIZE) = unat (page2pa (unat la div 4096))" by (simp add: unat_rounddown unat_page2pa)
  then have la: "ROUNDDOWN la PGSIZE = page2pa (unat la div 4096)" by (rule unsigned_word_eqI)
  have one: "{v..<v + 1} = {v}" by auto
  then have "\<forall>u \<in> {v..<v + 1}. entry k kd (page2pa u) = 0" using z(1) by simp
  from mmio_map_region_spec [OF km _ v(2,1) up this la] obtain k' zs where k':
    "mmio_map_region kd (page2pa v) la 4096 k = Some (page2pa v, page2pa (v + 1), k')" "kmap k' kd zs"
    "set zs \<subseteq> set ys" "length ys \<le> length zs + 1" "mapped_region k kd v 1 (unat la div 4096) 0x1B k'" by auto
  have "v div 1024 = 958" using v by (intro div_nat_eqI) simp_all
  then have "missing k kd v 1 = {}" using z(2) unfolding missing_def one by simp
  then have "pmem k' kd = pmem k kd" "npages k' = npages k" "machine.more k' = machine.more k"
    "\<forall>u < 2 ^ 20. u div 1024 \<noteq> 957 \<and> u \<noteq> v \<longrightarrow> entry k' kd (page2pa u) = entry k kd (page2pa u)"
    using k'(5) one by (auto simp: mapped_region_def fun_eq_iff)
  then show ?thesis using k' False kd by (intro exI [of _ k'] exI [of _ zs]) (simp add: lapic_map_def)
qed

text \<open>The pages that are free after the start of memory and not needed by it.\<close>

definition spare_pages :: "(nat \<Rightarrow> 8 word) \<Rightarrow> 32 word \<Rightarrow> nat" where
  "spare_pages cmos kend =
     (let np = unat (fst (i386_detect_memory cmos)) in np - first_free np (kernel_end kend))"

text \<open>Environment \<open>e\<close> holds a program as loaded.\<close>

definition holds_program :: "kernel \<Rightarrow> nat \<Rightarrow> image \<Rightarrow> bool" where
  "holds_program k e b \<longleftrightarrow> env_tf (envs k ! e) = user_tf\<lparr>tf_eip := e_entry (elf_at b)\<rparr> \<and>
     (\<exists>d. env_pgdir (envs k ! e) = Some d \<and> space_loaded b d k)"

definition first_env :: "policy \<Rightarrow> nat" where
  "first_env p = (case p of SCHED_ROUND_ROBIN \<Rightarrow> 0 | SCHED_PRIORITIES \<Rightarrow> 1)"

lemma ready_holds:
  assumes "ready k e bp" "saved k' = saved k" "e < length (envs k)"
  shows "holds_program k' e (fst bp)"
proof -
  have m: "pmem k' = pmem k" "map (\<lambda>x. (env_tf x, env_pgdir x)) (envs k') = map (\<lambda>x. (env_tf x, env_pgdir x)) (envs k)"
    using assms(2) by (simp_all add: saved_def)
  have "length (envs k') = length (envs k)" using m(2) by (rule map_eq_imp_length_eq)
  then have "env_tf (envs k' ! e) = env_tf (envs k ! e)" "env_pgdir (envs k' ! e) = env_pgdir (envs k ! e)"
    using arg_cong [OF m(2), of "\<lambda>xs. xs ! e"] assms(3) by simp_all
  then show ?thesis using assms(1) same_space_fields(2) [OF m(1)] by (auto simp: holds_program_def ready_def)
qed

lemma initial_programs_length: "length (initial_programs p images) = 4"
  by (simp add: initial_programs_def split: policy.split)

end
