(* ===== verification/Kern_Desc_Props.thy ===== *)
theory Kern_Desc_Props
  imports Kern_Desc Kern_Start
begin

unbundle bit_operations_syntax

text \<open>
  What the tables of the processor say once \<^verbatim>\<open>trap_init\<close> and \<^verbatim>\<open>trap_init_percpu\<close> have run, and what follows for the way into the
  kernel and back: which vector an event arrives with, where the frame is, and that \<^verbatim>\<open>context_switch\<close> restores what was saved.
\<close>

section \<open>Descriptors hold what they were given\<close>

lemma byte_masks: "(0xFFFF :: 32 word) = mask 16" "(0xFF :: 32 word) = mask 8" "(0xFFF :: 32 word) = mask 12"
  by (simp_all add: mask_eq_exp_minus_1)

lemma two_parts: "ucast (ucast (x AND 0xFFFF) :: 16 word) OR push_bit 16 (ucast (ucast (drop_bit 16 x) :: 16 word)) = (x :: 32 word)"
proof (rule bit_word_eqI)
  fix n
  assume n: "n < LENGTH(32)"
  show "bit (ucast (ucast (x AND 0xFFFF) :: 16 word) OR push_bit 16 (ucast (ucast (drop_bit 16 x) :: 16 word)) :: 32 word) n = bit x n"
    using n unfolding byte_masks by (cases "n < 16") (auto simp: bit_or_iff bit_ucast_iff bit_and_iff bit_mask_iff bit_push_bit_iff bit_drop_bit_eq)
qed

lemma three_parts: "ucast (ucast (x AND 0xFFFF) :: 16 word) OR push_bit 16 (ucast (ucast (drop_bit 16 x AND 0xFF) :: 8 word)) OR
    push_bit 24 (ucast (ucast (drop_bit 24 x) :: 8 word)) = (x :: 32 word)" (is "?w = x")
proof (rule bit_word_eqI)
  fix n
  assume n: "n < LENGTH(32)"
  consider "n < 16" | "16 \<le> n" "n < 24" | "24 \<le> n" by linarith
  then show "bit ?w n = bit x n"
    using n unfolding byte_masks
    by cases (auto simp: bit_or_iff bit_ucast_iff bit_and_iff bit_mask_iff bit_push_bit_iff bit_drop_bit_eq)
qed

lemma gate_offset_SETGATE [simp]: "gate_offset (SETGATE istrap sel off dpl) = off"
  by (simp add: gate_offset_def SETGATE_def two_parts)

lemma seg_base_SEG [simp]: "seg_base (SEG type base lim dpl) = base" "seg_base (SEG16 type base lim dpl) = base"
  by (simp_all add: seg_base_def SEG_def SEG16_def three_parts)

lemma flat_limit: "seg_limit (SEG type base 0xFFFFFFFF dpl) = 0xFFFFFFFF"
  by (simp add: seg_limit_def SEG_def push_bit_eq_mult)

lemma tss_desc_parts: "seg_base (tss_desc L i) = at_ts L i" "seg_limit (tss_desc L i) = 103" "sd_s (tss_desc L i) = 0" "sd_p (tss_desc L i) = 1"
  "sd_type (tss_desc L i) = STS_T32A"
proof -
  show "seg_base (tss_desc L i) = at_ts L i" using seg_base_SEG(2) [of _ "at_ts L i"] by (simp add: tss_desc_def seg_base_def)
  show "seg_limit (tss_desc L i) = 103" by (simp add: tss_desc_def seg_limit_def SEG16_def)
qed (simp_all add: tss_desc_def SEG16_def)

section \<open>The tables after the start\<close>

definition vectors :: "nat set" where
  "vectors = {0, 1, 2, 3, 4, 5, 6, 7, 8, 10, 11, 12, 13, 14, 16, 17, 18, 19, 32, 48}"

definition gate_spec :: "linked \<Rightarrow> nat \<Rightarrow> gatedesc" where
  "gate_spec L v = (if v \<in> vectors then SETGATE False GD_KT (at_trap L v) (if v = 3 \<or> v = 48 then 3 else 0) else zero_gate)"

text \<open>The tables when the processors \<open>I\<close> have loaded theirs, and the registers of such a processor.\<close>

definition tables_ok :: "linked \<Rightarrow> nat set \<Rightarrow> tables \<Rightarrow> bool" where
  "tables_ok L I t \<longleftrightarrow> length (gdt t) = 13 \<and> take 5 (gdt t) = take 5 boot_gdt \<and> length (idt t) = 256 \<and> (\<forall>v < 256. idt t ! v = gate_spec L v) \<and>
     (\<forall>i \<in> I. i < 8 \<and> gdt t ! (5 + i) = (tss_desc L i)\<lparr>sd_type := STS_T32B\<rparr> \<and>
        ts_esp0 (cpu_ts t i) = KSTACKTOP - of_nat i * (KSTKGAP + KSTKSIZE) \<and> ts_ss0 (cpu_ts t i) = GD_KD)"

definition cpu_ready :: "linked \<Rightarrow> nat \<Rightarrow> processor \<Rightarrow> bool" where
  "cpu_ready L i p \<longleftrightarrow> p_gdtr p = gdt_pd L \<and> p_idtr p = idt_pd L \<and> p_tr p = GD_TSS0 + push_bit 3 (of_nat i)"

lemma tss_selector:
  assumes "i < 8"
  shows "sel_index (GD_TSS0 + push_bit 3 (of_nat i)) = 5 + i" "(GD_TSS0 + push_bit 3 (of_nat i)) AND 4 = (0 :: 16 word)"
    "(GD_TSS0 + push_bit 3 (of_nat i)) AND 0xFFFC \<noteq> (0 :: 16 word)"
proof -
  have "i \<in> {0, 1, 2, 3, 4, 5, 6, 7}" using assms by auto
  then show "sel_index (GD_TSS0 + push_bit 3 (of_nat i)) = 5 + i" "(GD_TSS0 + push_bit 3 (of_nat i)) AND 4 = (0 :: 16 word)"
    "(GD_TSS0 + push_bit 3 (of_nat i)) AND 0xFFFC \<noteq> (0 :: 16 word)"
    by (auto simp: sel_index_def push_bit_eq_mult drop_bit_eq_div)
qed

lemma trap_init_percpu_ok:
  assumes t: "tables_ok L I t" and i: "i < 8" and p: "p_gdtr p = gdt_pd L"
  shows "\<exists>t'. trap_init_percpu L i t p = Some (t', p\<lparr>p_tr := GD_TSS0 + push_bit 3 (of_nat i), p_idtr := idt_pd L\<rparr>) \<and> tables_ok L (insert i I) t' \<and>
    (\<forall>j. j \<noteq> i \<longrightarrow> cpu_ts t' j = cpu_ts t j)"
proof -
  have len: "length (gdt t) = 13" using t by (simp add: tables_ok_def)
  have x: "sel_index GD_TSS0 = 5" by (simp add: sel_index_def)
  show ?thesis
    unfolding trap_init_percpu_def ltr_def seg_at_def Let_def x
    using tss_selector [OF i] i p len tss_desc_parts(3-5) [of L i] t
    by (auto simp: gdt_pd_def tables_ok_def nth_list_update)
qed

lemma set_gate_nth: "v < length gs \<Longrightarrow> set_gate L n n' dpl gs ! v = (if v = n then SETGATE False GD_KT (at_trap L n') dpl else gs ! v)"
  "length (set_gate L n n' dpl gs) = length gs"
  by (auto simp: set_gate_def nth_list_update)

lemma trap_gates_nth: "length (trap_gates L gs) = length gs"
  "gs = replicate 256 zero_gate \<Longrightarrow> v < 256 \<Longrightarrow> trap_gates L gs ! v = gate_spec L v"
  unfolding trap_gates_def Let_def by (simp_all add: set_gate_nth gate_spec_def vectors_def)

lemma trap_init_ok:
  assumes i: "i < 8" and p: "p_gdtr p = gdt_pd L"
  shows "\<exists>t'. trap_init L i boot_tables p = Some (t', p\<lparr>p_tr := GD_TSS0 + push_bit 3 (of_nat i), p_idtr := idt_pd L\<rparr>) \<and> tables_ok L {i} t'"
proof -
  have "tables_ok L {} (boot_tables\<lparr>idt := trap_gates L (idt boot_tables)\<rparr>)"
    using trap_gates_nth by (simp add: tables_ok_def boot_tables_def boot_gdt_def)
  then show ?thesis using trap_init_percpu_ok [OF _ i p] unfolding trap_init_def by fastforce
qed

lemma env_init_percpu_ok:
  assumes t: "length (gdt t) = 13" "take 5 (gdt t) = take 5 boot_gdt" and p: "cpl p = 0"
  shows "env_init_percpu L t p = Some (p\<lparr>p_gdtr := gdt_pd L, p_gs := GD_UD OR 3, p_fs := GD_UD OR 3, p_es := GD_KD, p_ds := GD_KD,
    p_ss := GD_KD, p_cs := GD_KT, p_ldtr := 0\<rparr>)"
proof -
  have "gdt t ! i = boot_gdt ! i" if "i < 5" for i using t(2) that by (metis nth_take)
  then have "gdt t ! 1 = boot_gdt ! 1" "gdt t ! 2 = boot_gdt ! 2" "gdt t ! 4 = boot_gdt ! 4" by simp_all
  then show ?thesis
    using t(1) p by (simp add: env_init_percpu_def data_seg_def stack_seg_def code_seg_def seg_at_def gdt_pd_def sel_index_def boot_gdt_def SEG_def cpl_def)
qed

section \<open>Which vector an event arrives with\<close>

lemma gate_at_ready:
  assumes t: "tables_ok L I t" and p: "p_idtr p = idt_pd L"
  shows "gate_at L t p v = (if v \<in> vectors then Some (gate_spec L v) else None)"
proof -
  have "v < 256 \<longleftrightarrow> 8 * v + 7 \<le> (2047 :: nat)" by auto
  moreover have "gd_type (gate_spec L v) \<in> {STS_IG32, STS_TG32} \<longleftrightarrow> v \<in> vectors" by (simp add: gate_spec_def SETGATE_def zero_gate_def)
  moreover have "v \<in> vectors \<Longrightarrow> v < 256" by (auto simp: vectors_def)
  ultimately show ?thesis using t p by (auto simp: gate_at_def tables_ok_def idt_pd_def)
qed

lemma accepted_ready:
  assumes t: "tables_ok L I t" and p: "p_idtr p = idt_pd L"
  shows "accepted L t p (Irq v) = (if v \<in> vectors then (v, None) else (13, Some (of_nat (8 * v + 3))))"
    "accepted L t p (Exc v e) = (if v \<in> vectors then (v, if has_error v then Some e else None) else (13, Some (of_nat (8 * v + 3))))"
    "cpl p = 3 \<Longrightarrow> accepted L t p (Soft v) = (if v = 3 \<or> v = 48 then (v, None) else (13, Some (of_nat (8 * v + 2))))"
proof -
  have g: "gd_p (gate_spec L v) = 1" "gd_dpl (gate_spec L v) = (if v = 3 \<or> v = 48 then 3 else 0)" if "v \<in> vectors"
    using that by (simp_all add: gate_spec_def SETGATE_def)
  note a = gate_at_ready [OF t p]
  show "accepted L t p (Irq v) = (if v \<in> vectors then (v, None) else (13, Some (of_nat (8 * v + 3))))"
    "accepted L t p (Exc v e) = (if v \<in> vectors then (v, if has_error v then Some e else None) else (13, Some (of_nat (8 * v + 3))))"
    using g by (simp_all add: accepted_def a)
  show "accepted L t p (Soft v) = (if v = 3 \<or> v = 48 then (v, None) else (13, Some (of_nat (8 * v + 2))))" if "cpl p = 3"
    using g that by (cases "v \<in> vectors") (auto simp: accepted_def a vectors_def)
qed

text \<open>The entry point of the vector pushes an error code exactly when the processor has not.\<close>

lemma accepted_entry:
  assumes t: "tables_ok L I t" and p: "p_idtr p = idt_pd L" and u: "cpl p = 3 \<or> (\<nexists>v. ev = Soft v)" and irq: "\<forall>w. ev = Irq w \<longrightarrow> \<not> has_error w" and acc: "accepted L t p ev = (v, err)"
  shows "v \<in> vectors" "traphandler v \<longleftrightarrow> err \<noteq> None"
proof -
  have h: "traphandler w \<longleftrightarrow> has_error w" "13 \<in> vectors" "has_error 13" "\<not> has_error 3" "\<not> has_error 48" "3 \<in> vectors" "48 \<in> vectors" for w
    by (auto simp: traphandler_def has_error_def vectors_def)
  note A = accepted_ready [OF t p]
  have "v \<in> vectors \<and> (traphandler v \<longleftrightarrow> err \<noteq> None)"
  proof (cases ev)
    case (Soft w)
    then have "cpl p = 3" using u by simp
    then show ?thesis using acc A(3) Soft h by (auto split: if_splits)
  next
    case (Irq w)
    then have "\<not> has_error w" using irq by blast
    then show ?thesis using acc A(1) Irq h by (auto split: if_splits)
  next
    case (Exc w e)
    then show ?thesis using acc A(2) h by (auto split: if_splits)
  qed
  then show "v \<in> vectors" "traphandler v \<longleftrightarrow> err \<noteq> None" by blast+
qed

section \<open>Pushing words\<close>

text \<open>The page \<open>u\<close> of addresses leads to the page \<open>q\<close>, through a table that is not \<open>q\<close>, and the kernel may write there.\<close>

definition stack_mapped :: "nat \<Rightarrow> nat \<Rightarrow> nat \<Rightarrow> 'a machine_scheme \<Rightarrow> bool" where
  "stack_mapped d u q m \<longleftrightarrow> u < 2 ^ 20 \<and> q < npages m \<and> d \<noteq> q \<and> pmem m d (u div 1024) \<noteq> 0 \<and>
     (let s = PGNUM (pmem m d (u div 1024)) in s < npages m \<and> s \<noteq> q \<and>
        PGNUM (pmem m s (u mod 1024)) = q \<and> pmem m s (u mod 1024) AND PTE_P \<noteq> 0 \<and> pmem m s (u mod 1024) AND PTE_W \<noteq> 0)"

lemma page_word:
  assumes "u < 2 ^ 20" "j < 1024"
  shows "PDX (page2pa u + 4 * of_nat j) = u div 1024" "PTX (page2pa u + 4 * of_nat j) = u mod 1024" "unat (PGOFF_of (page2pa u + 4 * of_nat j)) div 4 = j"
proof -
  have n: "unat (page2pa u + 4 * of_nat j) = 4096 * u + 4 * j" using assms unat_page2pa [OF assms(1)] by (simp add: unat_word_ariths unat_of_nat)
  have q: "(4096 * u + 4 * j) div 4096 = u" using assms(2) by (simp add: div_nat_eqI)
  have "PGNUM (page2pa u + 4 * of_nat j) = u" using n q by (simp add: PGNUM_div)
  then show "PDX (page2pa u + 4 * of_nat j) = u div 1024" "PTX (page2pa u + 4 * of_nat j) = u mod 1024"
    using n q assms(1) by (simp_all add: PDX_div PTX_div div_mult2_eq [of _ 4096 1024, simplified])
  have "unat (PGOFF_of (page2pa u + 4 * of_nat j)) = (4096 * u + 4 * j) mod 4096"
    using low_bits [of "page2pa u + 4 * of_nat j"] by (simp add: PGOFF_of_def PGOFF_def n)
  then show "unat (PGOFF_of (page2pa u + 4 * of_nat j)) div 4 = j" using assms(2) by simp
qed

lemma stack_word:
  assumes s: "stack_mapped d u q m" and j: "j < 1024"
  shows "write_va d (page2pa u + 4 * of_nat j) w m = Some (put_word q j w m)" "read_va d (page2pa u + 4 * of_nat j) m = Some (pmem m q j)"
    "stack_mapped d u q (put_word q j w m)"
proof -
  have u: "u < 2 ^ 20" using s by (simp add: stack_mapped_def)
  have "pte_of d (page2pa u + 4 * of_nat j) m = Some (pmem m (PGNUM (pmem m d (u div 1024))) (u mod 1024))"
    using s page_word [OF u j] by (simp add: pte_of_def pgdir_walk_def stack_mapped_def Let_def pa2page_def)
  moreover from this have "word_at d (page2pa u + 4 * of_nat j) m = Some (q, j)"
    using s page_word [OF u j] by (simp add: word_at_def stack_mapped_def Let_def pa2page_def)
  ultimately show "write_va d (page2pa u + 4 * of_nat j) w m = Some (put_word q j w m)" "read_va d (page2pa u + 4 * of_nat j) m = Some (pmem m q j)"
    using s by (simp_all add: write_va_def read_va_def stack_mapped_def Let_def)
  show "stack_mapped d u q (put_word q j w m)" using s by (simp add: stack_mapped_def put_word_def Let_def npages_def)
qed

text \<open>The words pushed lie below the old stack pointer, the last one lowest.\<close>

definition pushed :: "nat \<Rightarrow> nat \<Rightarrow> 32 word list \<Rightarrow> 'a machine_scheme \<Rightarrow> 'a machine_scheme" where
  "pushed q n ws m = m\<lparr>pmem := (pmem m)(q := \<lambda>j. if n - length ws \<le> j \<and> j < n then ws ! (n - 1 - j) else pmem m q j)\<rparr>"

lemma pushed_Nil [simp]: "pushed q n [] m = m"
proof -
  have "(\<lambda>j. if n \<le> j \<and> j < n then x j else pmem m q j) = pmem m q" for x :: "nat \<Rightarrow> 32 word" by (auto simp: fun_eq_iff)
  then show ?thesis by (simp add: pushed_def)
qed

lemma pushed_Cons:
  assumes "length (w # ws) \<le> n"
  shows "pushed q (n - 1) ws (put_word q (n - 1) w m) = pushed q n (w # ws) m"
proof -
  have "(\<lambda>j. if n - 1 - length ws \<le> j \<and> j < n - 1 then ws ! (n - 1 - 1 - j) else pmem (put_word q (n - 1) w m) q j) =
      (\<lambda>j. if n - length (w # ws) \<le> j \<and> j < n then (w # ws) ! (n - 1 - j) else pmem m q j)"
    using assms by (auto simp: put_word_def fun_eq_iff nth_Cons')
  then show ?thesis unfolding pushed_def by (simp add: put_word_def)
qed

lemma pushed_append:
  assumes "length (ws @ vs) \<le> n"
  shows "pushed q (n - length ws) vs (pushed q n ws m) = pushed q n (ws @ vs) m"
  using assms
proof (induction ws arbitrary: n m)
  case (Cons w ws)
  then show ?case using Cons.IH [of "n - 1" "put_word q (n - 1) w m"] pushed_Cons [of w ws n q m] pushed_Cons [of w "ws @ vs" n q m] by simp
qed simp

lemma pushes_ok:
  assumes "stack_mapped d u q m" "n \<le> 1024" "length ws \<le> n"
  shows "pushes d ws (page2pa u + 4 * of_nat n) m = Some (page2pa u + 4 * of_nat (n - length ws), pushed q n ws m) \<and>
    stack_mapped d u q (pushed q n ws m)"
  using assms
proof (induction ws arbitrary: n m)
  case (Cons w ws)
  then have n: "0 < n" "n - 1 < 1024" "length ws \<le> n - 1" "n - 1 \<le> 1024" by auto
  have e: "page2pa u + 4 * of_nat n - 4 = page2pa u + 4 * of_nat (n - 1)" using n(1) by (cases n) (simp_all add: algebra_simps)
  note W = stack_word [OF Cons.prems(1) n(2)]
  have "n - 1 - length ws = n - length (w # ws)" by simp
  then show ?case using Cons.IH [OF W(3) n(4,3), of w] W(1) [of w] pushed_Cons [OF Cons.prems(3), of q m] unfolding pushes.simps e by simp
qed simp

lemmas pushes_run = pushes_ok [THEN conjunct1]
lemmas pushes_mapped = pushes_ok [THEN conjunct2]

lemma pushed_nth: "n - length ws \<le> j \<Longrightarrow> j < n \<Longrightarrow> pmem (pushed q n ws m) q j = ws ! (n - 1 - j)" "p \<noteq> q \<Longrightarrow> pmem (pushed q n ws m) p = pmem m p"
  by (simp_all add: pushed_def)

lemma read_words_ok:
  assumes "stack_mapped d u q m" "n + c \<le> 1024"
  shows "read_words d (page2pa u + 4 * of_nat n) c m = Some (map (pmem m q) [n..<n + c])"
  using assms(2)
proof (induction c arbitrary: n)
  case (Suc c)
  have e: "page2pa u + 4 * of_nat n + 4 = page2pa u + 4 * of_nat (n + 1)" by (simp add: algebra_simps)
  have r: "read_words d (page2pa u + 4 * of_nat (n + 1)) c m = Some (map (pmem m q) [n + 1..<n + 1 + c])" using Suc.IH [of "n + 1"] Suc.prems by simp
  show ?case unfolding read_words.simps e r using Suc.prems stack_word(2) [OF assms(1), of n] by (simp add: upt_conv_Cons del: upt_Suc)
qed simp

text \<open>A frame of seventeen words at the top of the page, and below it its address.\<close>

lemma frame_pushed:
  assumes s: "stack_mapped d u q m" and l: "length ws = 17"
  shows "read_frame d (page2pa u + 4 * of_nat 1007) (pushed q 1024 (ws @ [a]) m) = Some (frame_of (rev ws))"
    "read_va d (page2pa u + 4 * of_nat 1006) (pushed q 1024 (ws @ [a]) m) = Some a"
proof -
  let ?m = "pushed q 1024 (ws @ [a]) m"
  have S: "stack_mapped d u q ?m" using pushes_mapped [OF s] l by simp
  have "map (pmem ?m q) [1007..<1007 + 17] = rev ws"
    by (rule nth_equalityI) (use l in \<open>auto simp: pushed_nth nth_append rev_nth simp del: upt_rec_numeral\<close>)
  then show "read_frame d (page2pa u + 4 * of_nat 1007) ?m = Some (frame_of (rev ws))"
    unfolding read_frame_def using read_words_ok [OF S, of 1007 17] by simp
  show "read_va d (page2pa u + 4 * of_nat 1006) ?m = Some a" using stack_word(2) [OF S, of 1006] l by (simp add: pushed_nth nth_append)
qed

section \<open>The way in and back\<close>

lemma find_inj: "inj_on f (set xs) \<Longrightarrow> i \<in> set xs \<Longrightarrow> List.find (\<lambda>j. f j = f i) xs = Some i"
  by (induction xs) (auto simp: inj_on_def)

text \<open>The linker gives different addresses to the task states and to the entry points.\<close>

definition linked_ok :: "linked \<Rightarrow> bool" where
  "linked_ok L \<longleftrightarrow> distinct (map (at_ts L) [0..<NCPU]) \<and> distinct (map (at_trap L) trap_labels)"

lemma find_label: "linked_ok L \<Longrightarrow> v \<in> vectors \<Longrightarrow> List.find (\<lambda>n. at_trap L n = at_trap L v) trap_labels = Some v"
  by (rule find_inj) (auto simp: linked_ok_def distinct_map trap_labels_def vectors_def simp del: upt_rec_numeral)

text \<open>What a program can have in a data segment register: a null selector or one of the two segments of user mode.\<close>

definition user_selectors :: "16 word set" where
  "user_selectors = {0, 1, 2, 3, 0x18, 0x19, 0x1A, 0x1B, 0x20, 0x21, 0x22, 0x23}"

definition user_mode :: "processor \<Rightarrow> bool" where
  "user_mode p \<longleftrightarrow> p_cs p = GD_UT OR 3 \<and> p_ss p = GD_UD OR 3 \<and> p_ds p \<in> user_selectors \<and> p_es p \<in> user_selectors \<and> reg_oesp (p_regs p) = 0"

lemma segments:
  assumes "tables_ok L I t"
  shows "code_seg L t (gdt_pd L) GD_KT = Some (SEG (STA_X OR STA_R) 0 0xFFFFFFFF 0)" "stack_seg L t (gdt_pd L) 0 GD_KD = Some GD_KD"
    "code_seg L t (gdt_pd L) (GD_UT OR 3) = Some (SEG (STA_X OR STA_R) 0 0xFFFFFFFF 3)" "stack_seg L t (gdt_pd L) 3 (GD_UD OR 3) = Some (GD_UD OR 3)"
    "s \<in> user_selectors \<Longrightarrow> p_gdtr p = gdt_pd L \<Longrightarrow> data_seg L t p s = Some s" "s \<in> user_selectors \<Longrightarrow> iret_data L t (gdt_pd L) 3 s = s"
proof -
  have g: "length (gdt t) = 13" using assms by (simp add: tables_ok_def)
  have "gdt t ! i = boot_gdt ! i" if "i < 5" for i using assms that unfolding tables_ok_def by (metis nth_take)
  then have b: "gdt t ! 1 = boot_gdt ! 1" "gdt t ! 2 = boot_gdt ! 2" "gdt t ! 3 = boot_gdt ! 3" "gdt t ! 4 = boot_gdt ! 4" by simp_all
  note d = code_seg_def stack_seg_def data_seg_def iret_data_def seg_at_def gdt_pd_def sel_index_def boot_gdt_def SEG_def
  show "code_seg L t (gdt_pd L) GD_KT = Some (SEG (STA_X OR STA_R) 0 0xFFFFFFFF 0)" "stack_seg L t (gdt_pd L) 0 GD_KD = Some GD_KD"
    "code_seg L t (gdt_pd L) (GD_UT OR 3) = Some (SEG (STA_X OR STA_R) 0 0xFFFFFFFF 3)" "stack_seg L t (gdt_pd L) 3 (GD_UD OR 3) = Some (GD_UD OR 3)"
    using g b by (simp_all add: d)
  have three: "c \<le> (3 :: 2 word)" "\<not> (3 :: 2 word) < c" for c
  proof -
    have "unat c < 2 ^ LENGTH(2)" by (rule unsigned_less)
    then show "c \<le> (3 :: 2 word)" "\<not> (3 :: 2 word) < c" by (simp_all add: word_le_nat_alt word_less_nat_alt)
  qed
  assume s: "s \<in> user_selectors"
  show "p_gdtr p = gdt_pd L \<Longrightarrow> data_seg L t p s = Some s" using s g b three by (auto simp: d user_selectors_def)
  show "iret_data L t (gdt_pd L) 3 s = s" using s g b by (auto simp: d user_selectors_def)
qed

definition saved_frame :: "processor \<Rightarrow> nat \<Rightarrow> 32 word option \<Rightarrow> 32 word \<Rightarrow> trapframe" where
  "saved_frame p v err oesp = \<lparr>tf_regs = (p_regs p)\<lparr>reg_oesp := oesp\<rparr>, tf_es = p_es p, tf_ds = p_ds p, tf_trapno = of_nat v,
     tf_err = (case err of None \<Rightarrow> 0 | Some e \<Rightarrow> e), tf_eip = p_eip p, tf_cs = p_cs p, tf_eflags = p_eflags p, tf_esp = p_esp p, tf_ss = p_ss p\<rparr>"

lemma saved_frame_fields [simp]:
  "tf_trapno (saved_frame p v err a) = of_nat v" "tf_err (saved_frame p v err a) = (case err of None \<Rightarrow> 0 | Some e \<Rightarrow> e)"
  "tf_regs (saved_frame p v err a) = (p_regs p)\<lparr>reg_oesp := a\<rparr>" "tf_eip (saved_frame p v err a) = p_eip p" "tf_esp (saved_frame p v err a) = p_esp p"
  "tf_eflags (saved_frame p v err a) = p_eflags p" "tf_cs (saved_frame p v err a) = p_cs p" "tf_ss (saved_frame p v err a) = p_ss p"
  "tf_ds (saved_frame p v err a) = p_ds p" "tf_es (saved_frame p v err a) = p_es p"
  by (simp_all add: saved_frame_def)

lemma stack_top:
  assumes "i < 8"
  shows "KSTACKTOP - of_nat i * (KSTKGAP + KSTKSIZE) = page2pa (stack_page i + 7) + 4 * of_nat 1024"
proof -
  have "i \<in> {0, 1, 2, 3, 4, 5, 6, 7}" using assms by auto
  then show ?thesis by (auto simp: stack_page_def page2pa_def push_bit_eq_mult)
qed

lemma current_ts_ready:
  assumes t: "tables_ok L I t" and i: "i \<in> I" and p: "cpu_ready L i p" and l: "linked_ok L"
  shows "current_ts L t p = Some (cpu_ts t i)"
proof -
  have i8: "i < 8" and g: "gdt t ! (5 + i) = (tss_desc L i)\<lparr>sd_type := STS_T32B\<rparr>" "length (gdt t) = 13" using t i by (auto simp: tables_ok_def)
  have "seg_at L t (p_gdtr p) (p_tr p) = Some ((tss_desc L i)\<lparr>sd_type := STS_T32B\<rparr>)"
    using p tss_selector [OF i8] i8 g by (simp add: cpu_ready_def seg_at_def gdt_pd_def)
  moreover have "seg_base ((tss_desc L i)\<lparr>sd_type := STS_T32B\<rparr>) = at_ts L i" "seg_limit ((tss_desc L i)\<lparr>sd_type := STS_T32B\<rparr>) = 103"
    using tss_desc_parts(1,2) [of L i] by (simp_all add: seg_base_def seg_limit_def)
  moreover have "List.find (\<lambda>j. at_ts L j = at_ts L i) [0..<NCPU] = Some i"
    by (rule find_inj) (use l i8 in \<open>auto simp: linked_ok_def distinct_map simp del: upt_rec_numeral\<close>)
  ultimately show ?thesis by (simp add: current_ts_def del: upt_rec_numeral)
qed

text \<open>The words on the stack when \<^verbatim>\<open>trap\<close> is called, from a program and from a processor that was halted.\<close>

definition frame_words :: "processor \<Rightarrow> nat \<Rightarrow> 32 word option \<Rightarrow> 32 word \<Rightarrow> 32 word list" where
  "frame_words p v err oesp =
     [ucast (p_ss p), p_esp p, p_eflags p, ucast (p_cs p), p_eip p, (case err of None \<Rightarrow> 0 | Some e \<Rightarrow> e), of_nat v, ucast (p_ds p), ucast (p_es p),
      reg_eax (p_regs p), reg_ecx (p_regs p), reg_edx (p_regs p), reg_ebx (p_regs p), oesp, reg_ebp (p_regs p), reg_esi (p_regs p), reg_edi (p_regs p)]"

lemma selector_word: "ucast (ucast (s :: 16 word) :: 32 word) = s"
  by (rule bit_word_eqI) (simp add: bit_ucast_iff)

lemma frame_of_words: "frame_of (rev (frame_words p v err oesp)) = saved_frame p v err oesp"
  by (simp add: frame_of_def frame_words_def saved_frame_def selector_word)

lemma alltraps_ok:
  assumes s: "stack_mapped d u q m" and l: "length ws = (if traphandler v then 6 else 5)" and e: "p_esp p = page2pa u + 4 * of_nat (1024 - length ws)"
    and f: "f = ws @ (if traphandler v then [of_nat v] else [0, of_nat v]) @ [ucast (p_ds p), ucast (p_es p), reg_eax (p_regs p), reg_ecx (p_regs p),
       reg_edx (p_regs p), reg_ebx (p_regs p), page2pa u + 4 * of_nat 1015, reg_ebp (p_regs p), reg_esi (p_regs p), reg_edi (p_regs p),
       page2pa u + 4 * of_nat 1007]"
  shows "alltraps d v p (pushed q 1024 ws m) = Some (p\<lparr>p_esp := page2pa u + 4 * of_nat 1006\<rparr>, pushed q 1024 f m)"
proof -
  have p: "pushes d vs (page2pa u + 4 * of_nat a) (pushed q 1024 xs m) = Some (page2pa u + 4 * of_nat b, pushed q 1024 (xs @ vs) m)"
    if "a + length xs = 1024" "b + length vs = a" for xs vs a b
  proof -
    have n: "1024 - length xs = a" "a - length vs = b" "length xs \<le> 1024" "length vs \<le> a" "a \<le> 1024" "length (xs @ vs) \<le> 1024" using that by simp_all
    show ?thesis using pushes_run [OF pushes_mapped [OF s order_refl n(3)] n(5,4)] pushed_append [OF n(6), of q m] unfolding n(1,2) by simp
  qed
  define r x where "r = p_regs p" and "x = (if traphandler v then [of_nat v] else [0, of_nat v :: 32 word])"
  have e': "p_esp p = page2pa u + 4 * of_nat (1017 + length x)" using e l by (simp add: x_def)
  have lx: "1017 + length x + length ws = 1024" "length (ws @ x) = 7" using l by (simp_all add: x_def)
  have s1: "pushes d x (p_esp p) (pushed q 1024 ws m) = Some (page2pa u + 4 * of_nat 1017, pushed q 1024 (ws @ x) m)"
    unfolding e' by (rule p [OF lx(1)]) simp
  have s2: "pushes d [ucast (p_ds p), ucast (p_es p)] (page2pa u + 4 * of_nat 1017) (pushed q 1024 (ws @ x) m) =
      Some (page2pa u + 4 * of_nat 1015, pushed q 1024 ((ws @ x) @ [ucast (p_ds p), ucast (p_es p)]) m)"
    by (rule p) (use lx in simp_all)
  have s3: "pushes d [reg_eax r, reg_ecx r, reg_edx r, reg_ebx r, page2pa u + 4 * of_nat 1015, reg_ebp r, reg_esi r, reg_edi r]
      (page2pa u + 4 * of_nat 1015) (pushed q 1024 ((ws @ x) @ [ucast (p_ds p), ucast (p_es p)]) m) = Some (page2pa u + 4 * of_nat 1007,
        pushed q 1024 (((ws @ x) @ [ucast (p_ds p), ucast (p_es p)]) @
          [reg_eax r, reg_ecx r, reg_edx r, reg_ebx r, page2pa u + 4 * of_nat 1015, reg_ebp r, reg_esi r, reg_edi r]) m)"
    by (rule p) (use lx in simp_all)
  have s4: "pushes d [page2pa u + 4 * of_nat 1007] (page2pa u + 4 * of_nat 1007) (pushed q 1024 (((ws @ x) @ [ucast (p_ds p), ucast (p_es p)]) @
          [reg_eax r, reg_ecx r, reg_edx r, reg_ebx r, page2pa u + 4 * of_nat 1015, reg_ebp r, reg_esi r, reg_edi r]) m) =
      Some (page2pa u + 4 * of_nat 1006, pushed q 1024 ((((ws @ x) @ [ucast (p_ds p), ucast (p_es p)]) @
          [reg_eax r, reg_ecx r, reg_edx r, reg_ebx r, page2pa u + 4 * of_nat 1015, reg_ebp r, reg_esi r, reg_edi r]) @ [page2pa u + 4 * of_nat 1007]) m)"
    by (rule p) (use lx in simp_all)
  show ?thesis
    unfolding alltraps_def f r_def [symmetric] x_def [symmetric]
    by (simp only: s1 s2 s3 s4 bind.bind_lunit prod.case Let_def) (simp only: append_assoc append.simps)
qed

lemma deliver_user:
  assumes t: "tables_ok L I t" "i \<in> I" and l: "linked_ok L" and p: "cpu_ready L i p" "user_mode p" and s: "stack_mapped d (stack_page i + 7) q m"
    and acc: "accepted L t p ev = (v, err)" "v \<in> vectors"
  defines "ws \<equiv> [ucast (p_ss p), p_esp p, p_eflags p, ucast (p_cs p), p_eip p] @ (case err of None \<Rightarrow> [] | Some e \<Rightarrow> [e])"
  shows "deliver L d t ev p m = Some (p\<lparr>p_cs := GD_KT, p_ss := GD_KD, p_esp := page2pa (stack_page i + 7) + 4 * of_nat (1024 - length ws),
    p_eip := at_trap L v, p_eflags := p_eflags p AND NOT 0x34300\<rparr>, pushed q 1024 ws m)"
proof -
  have r: "p_gdtr p = gdt_pd L" "p_idtr p = idt_pd L" using p(1) by (simp_all add: cpu_ready_def)
  have g: "gate_at L t p v = Some (gate_spec L v)" "gd_p (gate_spec L v) = 1" "gd_sel (gate_spec L v) = GD_KT" "gate_offset (gate_spec L v) = at_trap L v"
    "gd_type (gate_spec L v) = STS_IG32"
    using gate_at_ready [OF t(1) r(2)] acc(2) gate_offset_SETGATE by (simp_all add: gate_spec_def) (simp_all add: SETGATE_def)
  have c: "cpl p = 3" using p(2) by (simp add: cpl_def user_mode_def)
  have i: "i < 8" "ts_esp0 (cpu_ts t i) = page2pa (stack_page i + 7) + 4 * of_nat 1024" "ts_ss0 (cpu_ts t i) = GD_KD"
    using t stack_top [of i] by (auto simp: tables_ok_def)
  have w: "pushes d ws (page2pa (stack_page i + 7) + 4 * of_nat 1024) m = Some (page2pa (stack_page i + 7) + 4 * of_nat (1024 - length ws), pushed q 1024 ws m)"
    by (rule pushes_run [OF s]) (simp_all add: ws_def split: option.split)
  have k: "sd_dpl (SEG (STA_X OR STA_R) 0 0xFFFFFFFF 0) = 0" by (simp add: SEG_def)
  show ?thesis
    unfolding deliver_def acc(1) Let_def prod.case g(1) r(1) c
    using segments(1,2) [OF t(1)] current_ts_ready [OF t p(1) l] g i w unfolding ws_def by (simp add: SEG_def del: pushes.simps)
qed

lemma trap_entry_user:
  assumes t: "tables_ok L I t" "i \<in> I" and l: "linked_ok L" and p: "cpu_ready L i p" "user_mode p" and s: "stack_mapped d (stack_page i + 7) q m"
    and acc: "accepted L t p ev = (v, err)" and irq: "\<forall>w. ev = Irq w \<longrightarrow> \<not> has_error w"
  defines "u \<equiv> page2pa (stack_page i + 7)"
  shows "trap_entry L d t ev p m = Some (p\<lparr>p_cs := GD_KT, p_ss := GD_KD, p_esp := u + 4 * of_nat 1006, p_eip := at_trap L v,
      p_eflags := p_eflags p AND NOT 0x34300\<rparr>, pushed q 1024 (frame_words p v err (u + 4 * of_nat 1015) @ [u + 4 * of_nat 1007]) m)"
proof -
  have r: "p_idtr p = idt_pd L" "cpl p = 3" using p by (simp_all add: cpu_ready_def cpl_def user_mode_def)
  have v: "v \<in> vectors" "traphandler v \<longleftrightarrow> err \<noteq> None" by (rule accepted_entry [OF t(1) r(1) disjI1 [OF r(2)] irq acc])+
  define ws where "ws = [ucast (p_ss p), p_esp p, p_eflags p, ucast (p_cs p), p_eip p] @ (case err of None \<Rightarrow> [] | Some e \<Rightarrow> [e])"
  have lw: "length ws = (if traphandler v then 6 else 5)" using v(2) by (auto simp: ws_def split: option.split)
  note D = deliver_user [OF t l p s acc v(1), folded ws_def u_def]
  let ?p = "p\<lparr>p_cs := GD_KT, p_ss := GD_KD, p_esp := u + 4 * of_nat (1024 - length ws), p_eip := at_trap L v, p_eflags := p_eflags p AND NOT 0x34300\<rparr>"
  have A: "alltraps d v ?p (pushed q 1024 ws m) = Some (?p\<lparr>p_esp := u + 4 * of_nat 1006\<rparr>,
      pushed q 1024 (frame_words p v err (u + 4 * of_nat 1015) @ [u + 4 * of_nat 1007]) m)"
    unfolding u_def by (rule alltraps_ok [OF s lw]) (use v(2) in \<open>auto simp: u_def ws_def frame_words_def split: option.split\<close>)
  show ?thesis unfolding trap_entry_def D using find_label [OF l v(1)] A by simp
qed

lemma context_switch_ok:
  assumes t: "tables_ok L I t" and p: "user_mode p" and k: "cpl k = 0" "p_gdtr k = gdt_pd L"
  shows "context_switch L t (saved_frame p v err a) k = Some (k\<lparr>p_regs := p_regs p, p_es := p_es p, p_ds := p_ds p,
    p_fs := iret_data L t (gdt_pd L) 3 (p_fs k), p_gs := iret_data L t (gdt_pd L) 3 (p_gs k), p_cs := p_cs p, p_ss := p_ss p, p_eip := p_eip p,
    p_esp := p_esp p, p_eflags := p_eflags p\<rparr>)"
proof -
  have n: "(p_regs p)\<lparr>reg_oesp := 0\<rparr> = p_regs p" using p by (cases "p_regs p") (simp add: user_mode_def)
  have c: "(27 :: 2 word) = 3" by simp
  show ?thesis
    using p k segments(3-6) [OF t] by (simp add: n c context_switch_def saved_frame_def user_mode_def cpl_def SEG_def Let_def)
qed

text \<open>A processor that halts in the kernel, and the interrupt that wakes it.\<close>

lemma trap_entry_halted:
  assumes t: "tables_ok L I t" "i \<in> I" and l: "linked_ok L" and p: "cpu_ready L i p" "p_cs p = GD_KT" and s: "stack_mapped d (stack_page i + 7) q m"
    and w: "32 \<le> w" and acc: "accepted L t p (Irq w) = (v, err)"
    and h: "halt_stack d (ts_esp0 (cpu_ts t i)) p m = Some (p1, m1)"
  defines "u \<equiv> page2pa (stack_page i + 7)"
  shows "trap_entry L d t (Irq w) (p1\<lparr>p_eip := e\<rparr>) m1 = Some (p1\<lparr>p_esp := u + 4 * of_nat 1006, p_eip := at_trap L v,
      p_eflags := p_eflags p1 AND NOT 0x34300\<rparr>, pushed q 1024 (frame_words (p1\<lparr>p_eip := e, p_ss := 0, p_esp := 0\<rparr>) v err (u + 4 * of_nat 1015) @
        [u + 4 * of_nat 1007]) m)"
proof -
  have r: "p_gdtr p = gdt_pd L" "p_idtr p = idt_pd L" "cpl p = 0" using p by (simp_all add: cpu_ready_def cpl_def)
  have nw: "\<not> has_error w" using w by (auto simp: has_error_def)
  have v: "v \<in> vectors" "traphandler v \<longleftrightarrow> err \<noteq> None" using accepted_entry [OF t(1) r(2) _ _ acc] nw by blast+
  have i: "ts_esp0 (cpu_ts t i) = u + 4 * of_nat 1024" using t stack_top [of i] by (auto simp: tables_ok_def u_def)
  have h1: "m1 = pushed q 1024 [0, 0] m" "p1 = p\<lparr>p_regs := (p_regs p)\<lparr>reg_ebp := 0, reg_eax := ts_esp0 (cpu_ts t i)\<rparr>, p_esp := u + 4 * of_nat 1022, p_eflags := p_eflags p OR 0x200\<rparr>"
    using h pushes_run [OF s, of 1024 "[0, 0]", folded u_def] unfolding halt_stack_def i by (simp_all del: pushes.simps)
  let ?p = "p1\<lparr>p_eip := e\<rparr>"
  have s1: "stack_mapped d (stack_page i + 7) q m1" unfolding h1 by (rule pushes_mapped [OF s]) simp_all
  have g: "gate_at L t ?p v = Some (gate_spec L v)" "gd_p (gate_spec L v) = 1" "gd_sel (gate_spec L v) = GD_KT" "gate_offset (gate_spec L v) = at_trap L v"
    "gd_type (gate_spec L v) = STS_IG32"
    using gate_at_ready [OF t(1), of ?p] v(1) r(2) h1(2) gate_offset_SETGATE by (simp_all add: gate_spec_def) (simp_all add: SETGATE_def)
  have acc': "accepted L t ?p (Irq w) = (v, err)" using acc accepted_ready(1) [OF t(1)] r(2) h1(2) by simp
  define vs where "vs = [p_eflags ?p, ucast (p_cs ?p), p_eip ?p] @ (case err of None \<Rightarrow> [] | Some x \<Rightarrow> [x])"
  define ws where "ws = [0, 0] @ vs"
  have lv: "length vs \<le> 4" by (simp add: vs_def split: option.split)
  have "pushes d vs (u + 4 * of_nat 1022) m1 = Some (u + 4 * of_nat (1022 - length vs), pushed q 1022 vs m1)"
    using pushes_run [OF s1, of 1022 vs] lv by (simp add: u_def)
  then have ps: "pushes d vs (u + 4 * of_nat 1022) m1 = Some (u + 4 * of_nat (1024 - length ws), pushed q 1024 ws m)"
    using pushed_append [of "[0, 0]" vs 1024 q m] lv by (simp add: h1(1) ws_def)
  have D: "deliver L d t (Irq w) ?p m1 = Some (p1\<lparr>p_esp := u + 4 * of_nat (1024 - length ws), p_eip := at_trap L v, p_eflags := p_eflags p1 AND NOT 0x34300\<rparr>, pushed q 1024 ws m)"
    unfolding deliver_def acc' Let_def prod.case g(1)
    using segments(1) [OF t(1)] g ps r p(2) h1(2) unfolding vs_def by (simp add: SEG_def cpl_def del: pushes.simps)
  let ?q = "p1\<lparr>p_esp := u + 4 * of_nat (1024 - length ws), p_eip := at_trap L v, p_eflags := p_eflags p1 AND NOT 0x34300\<rparr>"
  have lw: "length ws = (if traphandler v then 6 else 5)" using v(2) by (auto simp: ws_def vs_def split: option.split)
  have A: "alltraps d v ?q (pushed q 1024 ws m) = Some (?q\<lparr>p_esp := u + 4 * of_nat 1006\<rparr>,
      pushed q 1024 (frame_words (p1\<lparr>p_eip := e, p_ss := 0, p_esp := 0\<rparr>) v err (u + 4 * of_nat 1015) @ [u + 4 * of_nat 1007]) m)"
    unfolding u_def by (rule alltraps_ok [OF s lw]) (use v(2) in \<open>auto simp: u_def ws_def vs_def frame_words_def split: option.split\<close>)
  show ?thesis unfolding trap_entry_def D using find_label [OF l v(1)] A by simp
qed

section \<open>The stacks after the start of memory\<close>

text \<open>
  The stacks of the processors lie in the image of the kernel, above the first megabyte. In every directory that shares the
  kernel's table for them, the stack of a processor is mapped where its task state says.
\<close>

lemma boot_stack_mapped:
  assumes km: "kmap k kd ys" and K: "kernel_mapped k kd np fp fe fk" and i: "i < 8" and fk: "256 \<le> fk" "fk + 64 \<le> kd"
    and d: "d = kd \<or> d < fk \<or> kd < d" "pmem k d 959 = pmem k kd 959"
  shows "stack_mapped d (stack_page i + 7) (fk + 8 * i + 7) k"
proof -
  let ?u = "stack_page i + 7" and ?q = "fk + 8 * i + 7"
  have u: "?u < 0xF0000" "0xEFF80 \<le> ?u" using stack_bounds [OF i] by simp_all
  then have u9: "?u div 1024 = 959" by (intro div_nat_eqI) simp_all
  have "(\<forall>i < 8. \<forall>j < 8. entry k kd (page2pa (stack_page i + j)) = page2pa (fk + 8 * i + j) OR PTE_W OR PTE_P)"
    and nz: "\<forall>i < 1024. i \<noteq> 957 \<longrightarrow> (pmem k kd i \<noteq> 0 \<longleftrightarrow> i \<in> {955, 956, 958, 959} \<or> 960 \<le> i)" using K unfolding kernel_mapped_def by blast+
  then have e: "entry k kd (page2pa ?u) = page2pa ?q OR PTE_W OR PTE_P" using i by simp
  have z: "pmem k kd 959 \<noteq> 0" using nz by simp
  obtain s where s: "s < npages k" "table_page kd s" "PGNUM (pmem k kd 959) = s" using kmapD(5) [OF km _ _ z] by auto
  have q: "?q < kd" "?q < 2 ^ 20" using fk i kmapD(2,4) [OF km] by simp_all
  have "s \<noteq> ?q" using s(2) fk q(1) by (auto simp: table_page_def)
  moreover have "pmem k s (?u mod 1024) = page2pa ?q OR PTE_W OR PTE_P" using e z s(3) u u9 by (simp add: entry_def page_number)
  moreover have "d \<noteq> ?q" using d(1) q fk i by auto
  ultimately show ?thesis
    using u u9 q s(1,3) z kmapD(2) [OF km] unfolding stack_mapped_def Let_def u9 d(2) by (simp add: flag_and flag_entry or.assoc)
qed

section \<open>The tables at the start\<close>

lemma boot_tables_ready:
  assumes "cpl p00 = 0" "i < 8" "env_init_percpu L boot_tables p00 = Some p0" "trap_init L i boot_tables p0 = Some (t, p1)"
  shows "tables_ok L {i} t" "cpu_ready L i p1" "cpl p1 = 0"
proof -
  have e: "p_gdtr p0 = gdt_pd L" "cpl p0 = 0"
    using env_init_percpu_ok [of boot_tables p00 L] assms(1,3) by (auto simp: boot_tables_def boot_gdt_def cpl_def)
  then show "tables_ok L {i} t" "cpu_ready L i p1" "cpl p1 = 0" using trap_init_ok [OF assms(2) e(1)] assms(4) by (auto simp: cpu_ready_def cpl_def)
qed

lemma boot_tables_exist:
  assumes "cpl p00 = 0" "i < 8"
  obtains p0 t p1 where "env_init_percpu L boot_tables p00 = Some p0" "trap_init L i boot_tables p0 = Some (t, p1)"
proof -
  obtain p0 where "env_init_percpu L boot_tables p00 = Some p0" "p_gdtr p0 = gdt_pd L"
    using env_init_percpu_ok [of boot_tables p00 L] assms(1) by (auto simp: boot_tables_def boot_gdt_def)
  then show thesis using that trap_init_ok [OF assms(2), of p0 L] by blast
qed

end
