(* ===== verification/Kern_Console.thy ===== *)
theory Kern_Console
  imports Prelude
begin

unbundle bit_operations_syntax

text \<open>
  The console (\<^verbatim>\<open>src/TP Sched/kern/console.c\<close>): keyboard, serial line and display. What the devices hold is part of the state:
  the bytes waiting in the keyboard controller (each with the flag that marks data of the mouse), the bytes received on the
  serial line, the bytes sent to the serial line and the printer, and the text of the display. Waiting for a device to be
  ready is left out. \<^term>\<open>None\<close> is a write outside the display.
\<close>

record console =
  kbd_port :: "(bool \<times> 8 word) list"
  com_port :: "8 word list"
  serial_exists :: bool
  serial_out :: "8 word list"
  lpt_out :: "8 word list"
  rebooted :: bool
  shift :: "32 word"
  cbuf :: "8 word list"
  rpos :: nat
  wpos :: nat
  crt_buf :: "16 word list"
  crt_pos :: "16 word"

section \<open>Output\<close>

abbreviation (input) CRT_ROWS :: nat where "CRT_ROWS \<equiv> 25"
abbreviation (input) CRT_COLS :: nat where "CRT_COLS \<equiv> 80"
abbreviation (input) CRT_SIZE :: nat where "CRT_SIZE \<equiv> 2000"

definition serial_putc :: "32 word \<Rightarrow> console \<Rightarrow> console" where
  "serial_putc c s = s\<lparr>serial_out := serial_out s @ [ucast c]\<rparr>"

definition lpt_putc :: "32 word \<Rightarrow> console \<Rightarrow> console" where
  "lpt_putc c s = s\<lparr>lpt_out := lpt_out s @ [ucast c]\<rparr>"

definition crt_write :: "16 word \<Rightarrow> 32 word \<Rightarrow> console \<Rightarrow> console option" where
  "crt_write pos c s = do {
     guard (unat pos < length (crt_buf s));
     Some (s\<lparr>crt_buf := (crt_buf s)[unat pos := ucast c]\<rparr>)
   }"

text \<open>\<^verbatim>\<open>c\<close> with the attribute black on white when it has none.\<close>

definition with_attribute :: "32 word \<Rightarrow> 32 word" where
  "with_attribute c = (if c AND NOT 0xFF = 0 then c OR 0x0700 else c)"

definition crt_scroll :: "console \<Rightarrow> console" where
  "crt_scroll s =
     (if unat (crt_pos s) \<ge> CRT_SIZE
      then s\<lparr>crt_buf := drop CRT_COLS (take CRT_SIZE (crt_buf s)) @ replicate CRT_COLS (0x0700 OR 32) @ drop CRT_SIZE (crt_buf s),
             crt_pos := crt_pos s - of_nat CRT_COLS\<rparr>
      else s)"

text \<open>Everything but the tabulator.\<close>

definition cga_plain :: "32 word \<Rightarrow> console \<Rightarrow> console option" where
  "cga_plain c s = do {
     let c = with_attribute c;
     let ch = c AND 0xFF;
     s \<leftarrow> (if ch = 8 then
         (if crt_pos s > 0
          then let s = s\<lparr>crt_pos := crt_pos s - 1\<rparr> in crt_write (crt_pos s) ((c AND NOT 0xFF) OR 32) s
          else Some s)
       else if ch = 10 then
         (let s = s\<lparr>crt_pos := crt_pos s + of_nat CRT_COLS\<rparr> in Some (s\<lparr>crt_pos := crt_pos s - crt_pos s mod of_nat CRT_COLS\<rparr>))
       else if ch = 13 then Some (s\<lparr>crt_pos := crt_pos s - crt_pos s mod of_nat CRT_COLS\<rparr>)
       else do { s \<leftarrow> crt_write (crt_pos s) c s; Some (s\<lparr>crt_pos := crt_pos s + 1\<rparr>) });
     Some (crt_scroll s)
   }"

definition cons_putc_blank :: "console \<Rightarrow> console option" where
  "cons_putc_blank s = cga_plain 32 (lpt_putc 32 (serial_putc 32 s))"

definition cga_putc :: "32 word \<Rightarrow> console \<Rightarrow> console option" where
  "cga_putc c s =
     (if with_attribute c AND 0xFF = 9
      then do {
        s \<leftarrow> cons_putc_blank s;
        s \<leftarrow> cons_putc_blank s;
        s \<leftarrow> cons_putc_blank s;
        s \<leftarrow> cons_putc_blank s;
        s \<leftarrow> cons_putc_blank s;
        Some (crt_scroll s)
      }
      else cga_plain c s)"

definition cons_putc :: "32 word \<Rightarrow> console \<Rightarrow> console option" where
  "cons_putc c s = cga_putc c (lpt_putc c (serial_putc c s))"

definition cputchar :: "32 word \<Rightarrow> console \<Rightarrow> console option" where
  "cputchar c s = cons_putc c s"

section \<open>The keyboard\<close>

abbreviation (input) SHIFT :: "32 word" where "SHIFT \<equiv> 1"
abbreviation (input) CTL :: "32 word" where "CTL \<equiv> 2"
abbreviation (input) ALT :: "32 word" where "ALT \<equiv> 4"
abbreviation (input) CAPSLOCK :: "32 word" where "CAPSLOCK \<equiv> 8"
abbreviation (input) NUMLOCK :: "32 word" where "NUMLOCK \<equiv> 16"
abbreviation (input) SCROLLLOCK :: "32 word" where "SCROLLLOCK \<equiv> 32"
abbreviation (input) E0ESC :: "32 word" where "E0ESC \<equiv> 64"
abbreviation (input) KEY_HOME :: nat where "KEY_HOME \<equiv> 0xE0"
abbreviation (input) KEY_END :: nat where "KEY_END \<equiv> 0xE1"
abbreviation (input) KEY_UP :: nat where "KEY_UP \<equiv> 0xE2"
abbreviation (input) KEY_DN :: nat where "KEY_DN \<equiv> 0xE3"
abbreviation (input) KEY_LF :: nat where "KEY_LF \<equiv> 0xE4"
abbreviation (input) KEY_RT :: nat where "KEY_RT \<equiv> 0xE5"
abbreviation (input) KEY_PGUP :: nat where "KEY_PGUP \<equiv> 0xE6"
abbreviation (input) KEY_PGDN :: nat where "KEY_PGDN \<equiv> 0xE7"
abbreviation (input) KEY_INS :: nat where "KEY_INS \<equiv> 0xE8"
abbreviation (input) KEY_DEL :: nat where "KEY_DEL \<equiv> 0xE9"

definition shiftcode :: "8 word \<Rightarrow> 32 word" where
  "shiftcode d =
     (if d = 0x1D then CTL else if d = 0x2A then SHIFT else if d = 0x36 then SHIFT
      else if d = 0x38 then ALT else if d = 0x9D then CTL else if d = 0xB8 then ALT else 0)"

definition togglecode :: "8 word \<Rightarrow> 32 word" where
  "togglecode d = (if d = 0x3A then CAPSLOCK else if d = 0x45 then NUMLOCK else if d = 0x46 then SCROLLLOCK else 0)"

text \<open>A table of 256 entries: the first ones in order, then those with an index of their own; the rest is 0.\<close>

definition keymap :: "nat list \<Rightarrow> (nat \<times> nat) list \<Rightarrow> 8 word \<Rightarrow> nat" where
  "keymap first indexed d =
     (case map_of indexed (unat d) of
        Some c \<Rightarrow> c
      | None \<Rightarrow> if unat d < length first then first ! unat d else 0)"

definition normalmap :: "8 word \<Rightarrow> nat" where
  "normalmap = keymap
       [0, 27, 49, 50, 51, 52, 53, 54, 55, 56, 57, 48, 45, 61, 8, 9, 113, 119, 101, 114, 116, 121, 117, 105,
        111, 112, 91, 93, 10, 0, 97, 115, 100, 102, 103, 104, 106, 107, 108, 59, 39, 96, 0, 92, 122, 120, 99,
        118, 98, 110, 109, 44, 46, 47, 0, 42, 0, 32, 0, 0, 0, 0, 0, 0, 0, 0, 0, 0, 0, 0, 0, 55, 56, 57, 45,
        52, 53, 54, 43, 49, 50, 51, 48, 46, 0, 0, 0, 0]
       [(199, KEY_HOME), (156, 10), (181, 47), (200, KEY_UP), (201, KEY_PGUP), (203, KEY_LF), (205, KEY_RT), (207, KEY_END),
        (208, KEY_DN), (209, KEY_PGDN), (210, KEY_INS), (211, KEY_DEL)]"

definition shiftmap :: "8 word \<Rightarrow> nat" where
  "shiftmap = keymap
       [0, 27, 33, 64, 35, 36, 37, 94, 38, 42, 40, 41, 95, 43, 8, 9, 81, 87, 69, 82, 84, 89, 85, 73, 79, 80,
        123, 125, 10, 0, 65, 83, 68, 70, 71, 72, 74, 75, 76, 58, 34, 126, 0, 124, 90, 88, 67, 86, 66, 78, 77,
        60, 62, 63, 0, 42, 0, 32, 0, 0, 0, 0, 0, 0, 0, 0, 0, 0, 0, 0, 0, 55, 56, 57, 45, 52, 53, 54, 43, 49,
        50, 51, 48, 46, 0, 0, 0, 0]
       [(199, KEY_HOME), (156, 10), (181, 47), (200, KEY_UP), (201, KEY_PGUP), (203, KEY_LF), (205, KEY_RT), (207, KEY_END),
        (208, KEY_DN), (209, KEY_PGDN), (210, KEY_INS), (211, KEY_DEL)]"

definition ctlmap :: "8 word \<Rightarrow> nat" where
  "ctlmap = keymap
       [0, 0, 0, 0, 0, 0, 0, 0, 0, 0, 0, 0, 0, 0, 0, 0, 17, 23, 5, 18, 20, 25, 21, 9, 15, 16, 0, 0, 13, 0, 1,
        19, 4, 6, 7, 8, 10, 11, 12, 0, 0, 0, 0, 28, 26, 24, 3, 22, 2, 14, 13, 0, 0, 239, 0, 0]
       [(151, KEY_HOME), (181, 239), (200, KEY_UP), (201, KEY_PGUP), (203, KEY_LF), (205, KEY_RT), (207, KEY_END),
        (208, KEY_DN), (209, KEY_PGDN), (210, KEY_INS), (211, KEY_DEL)]"

text \<open>\<^verbatim>\<open>charcode\<close>, indexed by the shift and control bits.\<close>

definition charcode :: "32 word \<Rightarrow> 8 word \<Rightarrow> nat" where
  "charcode i = (if i = 0 then normalmap else if i = SHIFT then shiftmap else ctlmap)"

definition caps :: "nat \<Rightarrow> nat" where
  "caps c = (if 97 \<le> c \<and> c \<le> 122 then c - 32 else if 65 \<le> c \<and> c \<le> 90 then c + 32 else c)"

text \<open>The state of the shift keys after a key has been pressed, and its character.\<close>

definition key_press :: "8 word \<Rightarrow> console \<Rightarrow> int \<times> console" where
  "key_press d s =
     (let sh = (shift s OR shiftcode d) XOR togglecode d;
          c = charcode (sh AND (CTL OR SHIFT)) d;
          c = (if sh AND CAPSLOCK \<noteq> 0 then caps c else c);
          s = s\<lparr>shift := sh\<rparr>
      in (int c, if NOT sh AND (CTL OR ALT) = 0 \<and> c = KEY_DEL then s\<lparr>rebooted := True\<rparr> else s))"

definition kbd_proc_data :: "console \<Rightarrow> int \<times> console" where
  "kbd_proc_data s =
     (case kbd_port s of
        [] \<Rightarrow> (- 1, s)
      | (mouse, d) # rest \<Rightarrow>
          if mouse then (- 1, s)
          else
            let s = s\<lparr>kbd_port := rest\<rparr> in
            if d = 0xE0 then (0, s\<lparr>shift := shift s OR E0ESC\<rparr>)
            else if d AND 0x80 \<noteq> 0
            then let d = (if shift s AND E0ESC \<noteq> 0 then d else d AND 0x7F) in
              (0, s\<lparr>shift := shift s AND NOT (shiftcode d OR E0ESC)\<rparr>)
            else if shift s AND E0ESC \<noteq> 0 then key_press (d OR 0x80) (s\<lparr>shift := shift s AND NOT E0ESC\<rparr>)
            else key_press d s)"

definition serial_proc_data :: "console \<Rightarrow> int \<times> console" where
  "serial_proc_data s = (case com_port s of [] \<Rightarrow> (- 1, s) | b # rest \<Rightarrow> (uint b, s\<lparr>com_port := rest\<rparr>))"

section \<open>The input buffer\<close>

abbreviation (input) CONSBUFSIZE :: nat where "CONSBUFSIZE \<equiv> 512"

definition cons_put :: "int \<Rightarrow> console \<Rightarrow> console" where
  "cons_put c s =
     (let s = s\<lparr>cbuf := (cbuf s)[wpos s := word_of_int c], wpos := wpos s + 1\<rparr> in
      if wpos s = CONSBUFSIZE then s\<lparr>wpos := 0\<rparr> else s)"

partial_function (option) cons_intr :: "(console \<Rightarrow> int \<times> console) \<Rightarrow> console \<Rightarrow> console option" where
  "cons_intr proc s =
     (let (c, s) = proc s in
      if c \<noteq> - 1 then if c = 0 then cons_intr proc s else cons_intr proc (cons_put c s) else Some s)"

definition serial_intr :: "console \<Rightarrow> console option" where
  "serial_intr s = (if serial_exists s then cons_intr serial_proc_data s else Some s)"

definition kbd_intr :: "console \<Rightarrow> console option" where
  "kbd_intr s = cons_intr kbd_proc_data s"

definition cons_pop :: "console \<Rightarrow> int \<times> console" where
  "cons_pop s =
     (if rpos s \<noteq> wpos s
      then let c = cbuf s ! rpos s; s = s\<lparr>rpos := rpos s + 1\<rparr>; s = (if rpos s = CONSBUFSIZE then s\<lparr>rpos := 0\<rparr> else s) in (uint c, s)
      else (0, s))"

definition cons_getc :: "console \<Rightarrow> (int \<times> console) option" where
  "cons_getc s = do {
     s \<leftarrow> serial_intr s;
     s \<leftarrow> kbd_intr s;
     Some (cons_pop s)
   }"

text \<open>
  \<^verbatim>\<open>getchar\<close> polls until there is a character: \<open>input\<close> is what the devices receive between two polls, and \<^term>\<open>None\<close> that
  nothing has been typed so far.
\<close>

fun getchar :: "(console \<Rightarrow> console) list \<Rightarrow> console \<Rightarrow> (int \<times> console \<times> (console \<Rightarrow> console) list) option" where
  "getchar input s = do {
     (c, s) \<leftarrow> cons_getc s;
     if c = 0 then (case input of [] \<Rightarrow> None | f # input \<Rightarrow> getchar input (f s)) else Some (c, s, input)
   }"

declare getchar.simps [simp del]

definition iscons :: "int \<Rightarrow> int" where
  "iscons fdnum = 1"

end
