(* ===== verification/Kern_Irq.thy ===== *)
theory Kern_Irq
  imports Kern_Console Kern_Load
begin

unbundle bit_operations_syntax

text \<open>
  The devices that the kernel programs at the start: the legacy interrupt controllers (\<^verbatim>\<open>src/TP Sched/kern/picirq.c\<close>), the local
  interrupt controller of a processor (\<^verbatim>\<open>kern/lapic.c\<close>), the clock chip (\<^verbatim>\<open>kern/kclock.c\<close>) and the initialisation of the console
  (\<^verbatim>\<open>kern/console.c\<close>). An operation gives the writes that it makes, in order, as pairs of a port or register and a value; what a
  device answers is an argument. The messages are left out.
\<close>

type_synonym port_writes = "(nat \<times> 8 word) list"

section \<open>The clock chip\<close>

abbreviation (input) IO_RTC :: nat where "IO_RTC \<equiv> 0x70"

text \<open>The answer comes from the register that was selected; \<open>cmos\<close> is what the chip holds.\<close>

definition mc146818_read :: "(nat \<Rightarrow> 8 word) \<Rightarrow> 32 word \<Rightarrow> 32 word \<times> port_writes" where
  "mc146818_read cmos reg = (ucast (cmos (unat (ucast reg :: 8 word))), [(IO_RTC, ucast reg)])"

definition mc146818_write :: "32 word \<Rightarrow> 32 word \<Rightarrow> port_writes" where
  "mc146818_write reg datum = [(IO_RTC, ucast reg), (IO_RTC + 1, ucast datum)]"

section \<open>The legacy interrupt controllers\<close>

abbreviation (input) IO_PIC1 :: nat where "IO_PIC1 \<equiv> 0x20"
abbreviation (input) IO_PIC2 :: nat where "IO_PIC2 \<equiv> 0xA0"
abbreviation (input) IRQ_SLAVE :: nat where "IRQ_SLAVE \<equiv> 2"
abbreviation (input) IRQ_KBD :: nat where "IRQ_KBD \<equiv> 1"

record pic =
  irq_mask_8259A :: "16 word"
  didinit :: bool

definition pic_start :: pic where
  "pic_start = \<lparr>irq_mask_8259A = 0xFFFF AND NOT (push_bit IRQ_SLAVE 1), didinit = False\<rparr>"

definition irq_setmask_8259A :: "16 word \<Rightarrow> pic \<Rightarrow> pic \<times> port_writes" where
  "irq_setmask_8259A new s =
     (let s = s\<lparr>irq_mask_8259A := new\<rparr> in
      if \<not> didinit s then (s, [])
      else (s, [(IO_PIC1 + 1, ucast new), (IO_PIC2 + 1, ucast (drop_bit 8 new))]))"

definition pic_init :: "pic \<Rightarrow> pic \<times> port_writes" where
  "pic_init s =
     (let s = s\<lparr>didinit := True\<rparr>;
          ws = [(IO_PIC1 + 1, 0xFF), (IO_PIC2 + 1, 0xFF),
            (IO_PIC1, 0x11), (IO_PIC1 + 1, 32), (IO_PIC1 + 1, push_bit IRQ_SLAVE 1), (IO_PIC1 + 1, 0x3),
            (IO_PIC2, 0x11), (IO_PIC2 + 1, 32 + 8), (IO_PIC2 + 1, of_nat IRQ_SLAVE), (IO_PIC2 + 1, 0x01),
            (IO_PIC1, 0x68), (IO_PIC1, 0x0A), (IO_PIC2, 0x68), (IO_PIC2, 0x0A)]
      in if irq_mask_8259A s \<noteq> 0xFFFF
         then (case irq_setmask_8259A (irq_mask_8259A s) s of (s, vs) \<Rightarrow> (s, ws @ vs))
         else (s, ws))"

text \<open>
  One of the two chips, as its manual describes it: a write to the first port with bit 4 set starts the initialisation, which
  clears the mask and takes the next words at the second port; otherwise a write to the second port is the mask. \<open>special\<close> is the
  special mask mode, which a word with bit 3 set at the first port switches when bit 6 is set.
\<close>

record chip =
  icw :: nat
  wants_icw4 :: bool
  vector_base :: "8 word"
  imr :: "8 word"
  auto_eoi :: bool
  special :: bool

definition chip_write :: "nat \<Rightarrow> 8 word \<Rightarrow> chip \<Rightarrow> chip" where
  "chip_write a v c =
     (if a = 0
      then if bit v 4 then c\<lparr>icw := 2, wants_icw4 := bit v 0, imr := 0, auto_eoi := False, special := False\<rparr>
           else if bit v 3 \<and> bit v 6 then c\<lparr>special := bit v 5\<rparr>
           else c
      else if icw c = 2 then c\<lparr>icw := 3, vector_base := v AND 0xF8\<rparr>
      else if icw c = 3 then c\<lparr>icw := (if wants_icw4 c then 4 else 0)\<rparr>
      else if icw c = 4 then c\<lparr>icw := 0, auto_eoi := bit v 1\<rparr>
      else c\<lparr>imr := v\<rparr>)"

fun chips_write :: "port_writes \<Rightarrow> chip \<times> chip \<Rightarrow> chip \<times> chip" where
  "chips_write [] (c1, c2) = (c1, c2)"
| "chips_write ((p, v) # ws) (c1, c2) =
     chips_write ws (if p = IO_PIC1 \<or> p = IO_PIC1 + 1 then (chip_write (p - IO_PIC1) v c1, c2)
       else if p = IO_PIC2 \<or> p = IO_PIC2 + 1 then (c1, chip_write (p - IO_PIC2) v c2)
       else (c1, c2))"

text \<open>The interrupt lines that reach the processor, and the vector of a line.\<close>

definition line_open :: "chip \<times> chip \<Rightarrow> nat \<Rightarrow> bool" where
  "line_open cs i = (case cs of (c1, c2) \<Rightarrow> if i < 8 then \<not> bit (imr c1) i else \<not> bit (imr c2) (i - 8) \<and> \<not> bit (imr c1) IRQ_SLAVE)"

definition line_vector :: "chip \<times> chip \<Rightarrow> nat \<Rightarrow> nat" where
  "line_vector cs i = (case cs of (c1, c2) \<Rightarrow> if i < 8 then unat (vector_base c1) + i else unat (vector_base c2) + (i - 8))"

section \<open>The console at the start\<close>

abbreviation (input) COM1 :: nat where "COM1 \<equiv> 0x3F8"

text \<open>\<open>lsr\<close> is the status that the serial line answers; the last read discards a byte that was received.\<close>

definition serial_init :: "8 word \<Rightarrow> console \<Rightarrow> console \<times> port_writes" where
  "serial_init lsr s = (s\<lparr>serial_exists := (lsr \<noteq> 0xFF), com_port := tl (com_port s)\<rparr>,
     [(COM1 + 2, 0), (COM1 + 3, 0x80), (COM1 + 0, of_nat (115200 div 9600)), (COM1 + 1, 0), (COM1 + 3, 0x03 AND NOT 0x80), (COM1 + 4, 0), (COM1 + 1, 0x01)])"

text \<open>
  \<open>colour\<close> tells whether a word stored in the colour display stays there, \<open>text\<close> what the colour and the monochrome display show,
  and \<open>cursor\<close> the registers 14 and 15 of the display controller. The result has the port of the controller.
\<close>

definition cga_init :: "bool \<Rightarrow> (bool \<Rightarrow> 16 word list) \<Rightarrow> 8 word \<times> 8 word \<Rightarrow> console \<Rightarrow> console \<times> nat \<times> port_writes" where
  "cga_init colour text cursor s =
     (let addr_6845 = (if \<not> colour then 0x3B4 else 0x3D4);
          pos = push_bit 8 (ucast (fst cursor)) OR ucast (snd cursor)
      in (s\<lparr>crt_buf := text colour, crt_pos := pos\<rparr>, addr_6845, [(addr_6845, 14), (addr_6845, 15)]))"

definition kbd_init :: "console \<Rightarrow> pic \<Rightarrow> (console \<times> pic \<times> port_writes) option" where
  "kbd_init s i = do {
     s \<leftarrow> kbd_intr s;
     let (i, ws) = irq_setmask_8259A (irq_mask_8259A i AND NOT (push_bit IRQ_KBD 1)) i;
     Some (s, i, ws)
   }"

definition cons_init :: "bool \<Rightarrow> (bool \<Rightarrow> 16 word list) \<Rightarrow> 8 word \<times> 8 word \<Rightarrow> 8 word \<Rightarrow> console \<Rightarrow> pic \<Rightarrow> (console \<times> pic \<times> port_writes) option" where
  "cons_init colour text cursor lsr s i = do {
     let (s, _, ws1) = cga_init colour text cursor s;
     (s, i, ws2) \<leftarrow> kbd_init s i;
     let (s, ws3) = serial_init lsr s;
     Some (s, i, ws1 @ ws2 @ ws3)
   }"

section \<open>The local interrupt controller\<close>

type_synonym lapic_writes = "(nat \<times> 32 word) list"

abbreviation (input) LAPIC_TPR :: nat where "LAPIC_TPR \<equiv> 0x80 div 4"
abbreviation (input) LAPIC_EOI :: nat where "LAPIC_EOI \<equiv> 0xB0 div 4"
abbreviation (input) LAPIC_SVR :: nat where "LAPIC_SVR \<equiv> 0xF0 div 4"
abbreviation (input) LAPIC_ESR :: nat where "LAPIC_ESR \<equiv> 0x280 div 4"
abbreviation (input) LAPIC_ICRLO :: nat where "LAPIC_ICRLO \<equiv> 0x300 div 4"
abbreviation (input) LAPIC_ICRHI :: nat where "LAPIC_ICRHI \<equiv> 0x310 div 4"
abbreviation (input) LAPIC_TIMER :: nat where "LAPIC_TIMER \<equiv> 0x320 div 4"
abbreviation (input) LAPIC_PCINT :: nat where "LAPIC_PCINT \<equiv> 0x340 div 4"
abbreviation (input) LAPIC_LINT0 :: nat where "LAPIC_LINT0 \<equiv> 0x350 div 4"
abbreviation (input) LAPIC_LINT1 :: nat where "LAPIC_LINT1 \<equiv> 0x360 div 4"
abbreviation (input) LAPIC_ERROR :: nat where "LAPIC_ERROR \<equiv> 0x370 div 4"
abbreviation (input) LAPIC_TICR :: nat where "LAPIC_TICR \<equiv> 0x380 div 4"
abbreviation (input) LAPIC_TDCR :: nat where "LAPIC_TDCR \<equiv> 0x3E0 div 4"
abbreviation (input) LAPIC_MASKED :: "32 word" where "LAPIC_MASKED \<equiv> 0x10000"
abbreviation (input) LAPIC_INIT :: "32 word" where "LAPIC_INIT \<equiv> 0x500"
abbreviation (input) LAPIC_STARTUP :: "32 word" where "LAPIC_STARTUP \<equiv> 0x600"
abbreviation (input) LAPIC_DELIVS :: "32 word" where "LAPIC_DELIVS \<equiv> 0x1000"
abbreviation (input) LAPIC_ASSERT :: "32 word" where "LAPIC_ASSERT \<equiv> 0x4000"
abbreviation (input) LAPIC_LEVEL :: "32 word" where "LAPIC_LEVEL \<equiv> 0x8000"
abbreviation (input) LAPIC_BCAST :: "32 word" where "LAPIC_BCAST \<equiv> 0x80000"
abbreviation (input) LAPIC_OTHERS :: "32 word" where "LAPIC_OTHERS \<equiv> 0xC0000"

text \<open>
  The loop that waits until an interrupt command has been delivered; \<open>answers\<close> are the values that the register gives, one for
  each read. \<^term>\<open>None\<close> is that it has not been delivered so far.
\<close>

fun wait_delivered :: "32 word list \<Rightarrow> 32 word list option" where
  "wait_delivered [] = None"
| "wait_delivered (w # answers) = (if w AND LAPIC_DELIVS \<noteq> 0 then wait_delivered answers else Some answers)"

definition lapic_init :: "bool \<Rightarrow> 32 word \<Rightarrow> 32 word list \<Rightarrow> 32 word \<Rightarrow> 32 word \<Rightarrow> kernel \<Rightarrow> (lapic_writes \<times> 32 word \<times> kernel) option" where
  "lapic_init is_bootcpu ver answers lapicaddr base k = do {
     (base, k) \<leftarrow> lapic_map lapicaddr base k;
     if lapicaddr = 0 then Some ([], base, k)
     else do {
       let ws = [(LAPIC_SVR, 0x100 OR (32 + 7)), (LAPIC_TDCR, 0xB), (LAPIC_TIMER, 0x20000 OR (32 + 0)), (LAPIC_TICR, 10000000)] @
         (if \<not> is_bootcpu then [(LAPIC_LINT0, LAPIC_MASKED)] else []) @
         [(LAPIC_LINT1, LAPIC_MASKED)] @
         (if drop_bit 16 ver AND 0xFF \<ge> 4 then [(LAPIC_PCINT, LAPIC_MASKED)] else []) @
         [(LAPIC_ERROR, 32 + 19), (LAPIC_ESR, 0), (LAPIC_ESR, 0), (LAPIC_EOI, 0), (LAPIC_ICRHI, 0),
          (LAPIC_ICRLO, LAPIC_BCAST OR LAPIC_INIT OR LAPIC_LEVEL)];
       _ \<leftarrow> wait_delivered answers;
       Some (ws @ [(LAPIC_TPR, 0)], base, k)
     }
   }"

text \<open>\<open>lapic\<close> is the register with the number of the processor, once the registers are mapped.\<close>

definition cpunum :: "32 word option \<Rightarrow> nat" where
  "cpunum lapic = (case lapic of None \<Rightarrow> 0 | Some w \<Rightarrow> unat (drop_bit 24 w))"

definition lapic_eoi :: "32 word option \<Rightarrow> lapic_writes" where
  "lapic_eoi lapic = (case lapic of None \<Rightarrow> [] | Some w \<Rightarrow> [(LAPIC_EOI, 0)])"

text \<open>Starting a processor: the warm reset vector is in the first page of memory, which the interrupt commands follow.\<close>

definition lapic_startap :: "8 word \<Rightarrow> 32 word \<Rightarrow> kernel \<Rightarrow> (port_writes \<times> lapic_writes \<times> kernel) option" where
  "lapic_startap apicid addr k = do {
     _ \<leftarrow> KADDR (npages k) (push_bit 4 0x40 OR 0x67);
     let vec = (ucast (drop_bit 4 addr) :: 16 word);
     let k = put_phys (unat (push_bit 4 0x40 OR 0x67 :: 32 word)) [0, 0, ucast vec, ucast (drop_bit 8 vec)] k;
     let start = [(LAPIC_ICRHI, push_bit 24 (ucast apicid)), (LAPIC_ICRLO, LAPIC_STARTUP OR drop_bit 12 addr)];
     Some ([(IO_RTC, 0xF), (IO_RTC + 1, 0x0A)],
       [(LAPIC_ICRHI, push_bit 24 (ucast apicid)), (LAPIC_ICRLO, LAPIC_INIT OR LAPIC_LEVEL OR LAPIC_ASSERT),
        (LAPIC_ICRLO, LAPIC_INIT OR LAPIC_LEVEL)] @ start @ start, k)
   }"

definition lapic_ipi :: "32 word \<Rightarrow> 32 word list \<Rightarrow> lapic_writes option" where
  "lapic_ipi vector answers = do {
     _ \<leftarrow> wait_delivered answers;
     Some [(LAPIC_ICRLO, LAPIC_OTHERS OR 0 OR vector)]
   }"

section \<open>What the controllers hold\<close>

text \<open>
  Once initialised, the two chips deliver their lines from vector 32 on and their masks are the variable \<^verbatim>\<open>irq_mask_8259A\<close>,
  whatever it is; each later change of the variable reaches them.
\<close>

definition chips_ok :: "pic \<Rightarrow> chip \<times> chip \<Rightarrow> bool" where
  "chips_ok s cs \<longleftrightarrow> (case cs of (c1, c2) \<Rightarrow> icw c1 \<notin> {2, 3, 4} \<and> icw c2 \<notin> {2, 3, 4} \<and> vector_base c1 = 32 \<and> vector_base c2 = 40 \<and>
     imr c1 = ucast (irq_mask_8259A s) \<and> imr c2 = ucast (drop_bit 8 (irq_mask_8259A s)))"

lemma irq_setmask_chips:
  assumes "didinit s" "chips_ok s cs" "irq_setmask_8259A new s = (s', ws)"
  shows "chips_ok s' (chips_write ws cs)" "irq_mask_8259A s' = new" "didinit s'"
  using assms by (cases cs; auto simp: irq_setmask_8259A_def chips_ok_def chip_write_def Let_def)+

lemma pic_init_chips:
  assumes "irq_mask_8259A s \<noteq> 0xFFFF" "pic_init s = (s', ws)"
  shows "chips_ok s' (chips_write ws cs)" "irq_mask_8259A s' = irq_mask_8259A s" "didinit s'"
    "auto_eoi (fst (chips_write ws cs))" "\<not> auto_eoi (snd (chips_write ws cs))" "special (fst (chips_write ws cs))"
  using assms by (cases cs; auto simp: pic_init_def irq_setmask_8259A_def chips_ok_def chip_write_def Let_def bit_simps)+

end
