(* ===== verification/Kern_Mp.thy ===== *)
theory Kern_Mp
  imports Prelude
begin

unbundle bit_operations_syntax

text \<open>
  The table of processors that the firmware leaves in memory: \<^verbatim>\<open>src/TP Sched/kern/mpconfig.c\<close>. Physical memory is a function
  from addresses to bytes; \<open>npages\<close> bounds the addresses that \<^verbatim>\<open>KADDR\<close> accepts. \<^term>\<open>None\<close> is a panic of \<^verbatim>\<open>KADDR\<close> or a store
  outside \<^verbatim>\<open>cpus\<close>. The messages are left out.
\<close>

type_synonym phys = "nat \<Rightarrow> 8 word"

abbreviation (input) NCPU :: nat where "NCPU \<equiv> 8"

datatype cpu_status = CPU_UNUSED | CPU_STARTED | CPU_HALTED

record cpu_info =
  cpu_id :: "8 word"
  cpu_state :: cpu_status

record mp_state =
  cpus :: "cpu_info list"
  bootcpu :: nat
  ismp :: bool
  ncpu :: nat
  lapicaddr :: nat
  imcr :: "8 word"

definition get16 :: "phys \<Rightarrow> nat \<Rightarrow> nat" where
  "get16 m a = unat (m a) + 256 * unat (m (a + 1))"

definition get32 :: "phys \<Rightarrow> nat \<Rightarrow> nat" where
  "get32 m a = get16 m a + 65536 * get16 m (a + 2)"

definition kaddr :: "nat \<Rightarrow> nat \<Rightarrow> nat option" where
  "kaddr npages pa = (if pa div 4096 \<ge> npages then None else Some pa)"

definition mem_eq :: "phys \<Rightarrow> nat \<Rightarrow> string \<Rightarrow> bool" where
  "mem_eq m a s \<longleftrightarrow> map m [a..<a + length s] = map of_char s"

definition mp_sum :: "phys \<Rightarrow> nat \<Rightarrow> nat \<Rightarrow> 8 word" where
  "mp_sum m a len = foldl (+) 0 (map m [a..<a + len])"

section \<open>Finding the table\<close>

function mp_scan :: "phys \<Rightarrow> nat \<Rightarrow> nat \<Rightarrow> nat option" where
  "mp_scan m mp mp_end =
     (if mp < mp_end
      then if mem_eq m mp ''_MP_'' \<and> mp_sum m mp 16 = 0 then Some mp else mp_scan m (mp + 16) mp_end
      else None)"
  by pat_completeness auto
termination by (relation "measure (\<lambda>(m, mp, mp_end). mp_end - mp)") auto

declare mp_scan.simps [simp del]

definition mpsearch1 :: "phys \<Rightarrow> nat \<Rightarrow> nat \<Rightarrow> nat \<Rightarrow> nat option option" where
  "mpsearch1 m npages a len = do {
     mp \<leftarrow> kaddr npages a;
     mp_end \<leftarrow> kaddr npages ((a + len) mod 2 ^ 32);
     Some (mp_scan m mp mp_end)
   }"

definition mpsearch :: "phys \<Rightarrow> nat \<Rightarrow> nat option option" where
  "mpsearch m npages = do {
     bda \<leftarrow> kaddr npages 0x400;
     let p = get16 m (bda + 0x0E);
     r \<leftarrow> (if p \<noteq> 0 then mpsearch1 m npages (16 * p) 1024
          else mpsearch1 m npages ((1024 * get16 m (bda + 0x13) + (2 ^ 32 - 1024)) mod 2 ^ 32) 1024);
     case r of Some mp \<Rightarrow> Some (Some mp) | None \<Rightarrow> mpsearch1 m npages 0xF0000 0x10000
   }"

text \<open>The addresses of the table and of the structure that points to it.\<close>

definition mpconfig :: "phys \<Rightarrow> nat \<Rightarrow> (nat \<times> nat) option option" where
  "mpconfig m npages = do {
     r \<leftarrow> mpsearch m npages;
     case r of
       None \<Rightarrow> Some None
     | Some mp \<Rightarrow>
         if get32 m (mp + 4) = 0 \<or> m (mp + 11) \<noteq> 0 then Some None
         else do {
           conf \<leftarrow> kaddr npages (get32 m (mp + 4));
           let len = get16 m (conf + 4);
           if \<not> mem_eq m conf ''PCMP'' then Some None
           else if mp_sum m conf len \<noteq> 0 then Some None
           else if m (conf + 6) \<noteq> 1 \<and> m (conf + 6) \<noteq> 4 then Some None
           else if mp_sum m (conf + len) (get16 m (conf + 40)) + m (conf + 42) \<noteq> 0 then Some None
           else Some (Some (conf, mp))
         }
   }"

section \<open>Reading the table\<close>

definition mp_proc :: "8 word \<Rightarrow> mp_state \<Rightarrow> mp_state" where
  "mp_proc flags s =
     (let s1 = (if flags AND 2 \<noteq> 0 then s\<lparr>bootcpu := ncpu s\<rparr> else s) in
      if ncpu s1 < NCPU
      then s1\<lparr>cpus := (cpus s1)[ncpu s1 := (cpus s1 ! ncpu s1)\<lparr>cpu_id := of_nat (ncpu s1)\<rparr>], ncpu := Suc (ncpu s1)\<rparr>
      else s1)"

text \<open>The loop over the entries, with the number of entries that are left.\<close>

fun mp_entries :: "phys \<Rightarrow> nat \<Rightarrow> nat \<Rightarrow> mp_state \<Rightarrow> mp_state" where
  "mp_entries m 0 p s = s"
| "mp_entries m (Suc n) p s =
     (if m p = 0 then mp_entries m n (p + 20) (mp_proc (m (p + 3)) s)
      else if m p = 1 \<or> m p = 2 \<or> m p = 3 \<or> m p = 4 then mp_entries m n (p + 8) s
      else s\<lparr>ismp := False\<rparr>)"

definition mp_init :: "phys \<Rightarrow> nat \<Rightarrow> mp_state \<Rightarrow> mp_state option" where
  "mp_init m npages s = do {
     let s = s\<lparr>bootcpu := 0\<rparr>;
     r \<leftarrow> mpconfig m npages;
     case r of
       None \<Rightarrow> Some s
     | Some (conf, mp) \<Rightarrow> do {
         let s = mp_entries m (get16 m (conf + 34)) (conf + 44) (s\<lparr>ismp := True, lapicaddr := get32 m (conf + 36)\<rparr>);
         guard (bootcpu s < length (cpus s));
         let s = s\<lparr>cpus := (cpus s)[bootcpu s := (cpus s ! bootcpu s)\<lparr>cpu_state := CPU_STARTED\<rparr>]\<rparr>;
         if \<not> ismp s then Some (s\<lparr>ncpu := 1, lapicaddr := 0\<rparr>)
         else if m (mp + 12) \<noteq> 0 then Some (s\<lparr>imcr := imcr s OR 1\<rparr>)
         else Some s
       }
   }"

text \<open>The state at start-up: the global variables are zero.\<close>

definition mp_zero :: mp_state where
  "mp_zero = \<lparr>cpus = replicate NCPU \<lparr>cpu_id = 0, cpu_state = CPU_UNUSED\<rparr>, bootcpu = 0, ismp = False, ncpu = 0, lapicaddr = 0, imcr = 0\<rparr>"

section \<open>The processors that are found\<close>

text \<open>The flags of the processor entries of a table, up to the first unknown entry; \<open>None\<close> when there is one.\<close>

fun table_procs :: "phys \<Rightarrow> nat \<Rightarrow> nat \<Rightarrow> 8 word list option" where
  "table_procs m 0 p = Some []"
| "table_procs m (Suc n) p =
     (if m p = 0 then map_option (\<lambda>xs. m (p + 3) # xs) (table_procs m n (p + 20))
      else if m p \<le> 4 then table_procs m n (p + 8)
      else None)"

definition cpus_ok :: "mp_state \<Rightarrow> bool" where
  "cpus_ok s \<longleftrightarrow> length (cpus s) = NCPU \<and> ncpu s \<le> NCPU \<and> (\<forall>i < ncpu s. cpu_id (cpus s ! i) = of_nat i)"

lemma known_entry: "(b :: 8 word) \<noteq> 0 \<Longrightarrow> b \<le> 4 \<longleftrightarrow> b = 1 \<or> b = 2 \<or> b = 3 \<or> b = 4"
proof -
  assume "b \<noteq> 0"
  then have "unat b \<noteq> 0" by (simp add: unat_eq_zero)
  then have "unat b \<le> 4 \<longleftrightarrow> unat b = 1 \<or> unat b = 2 \<or> unat b = 3 \<or> unat b = 4" by linarith
  moreover have "unat b = unat c \<longleftrightarrow> b = c" for c by (simp add: word_unat_eq_iff)
  from this [of 1] this [of 2] this [of 3] this [of 4]
  have "unat b = 1 \<longleftrightarrow> b = 1" "unat b = 2 \<longleftrightarrow> b = 2" "unat b = 3 \<longleftrightarrow> b = 3" "unat b = 4 \<longleftrightarrow> b = 4" by simp_all
  ultimately show ?thesis by (simp add: word_le_nat_alt)
qed

lemma mp_proc_ok:
  assumes "cpus_ok s"
  shows "cpus_ok (mp_proc f s)" "ncpu (mp_proc f s) = min NCPU (Suc (ncpu s))"
    "bootcpu (mp_proc f s) = (if f AND 2 \<noteq> 0 then ncpu s else bootcpu s)" "ismp (mp_proc f s) = ismp s"
  using assms by (auto simp: cpus_ok_def mp_proc_def Let_def nth_list_update less_Suc_eq)

text \<open>The last boot processor among the first entries decides, counted by the entries before it.\<close>

fun boot_index :: "nat \<Rightarrow> nat \<Rightarrow> 8 word list \<Rightarrow> nat" where
  "boot_index b n [] = b"
| "boot_index b n (f # fs) = boot_index (if f AND 2 \<noteq> 0 then n else b) (min NCPU (Suc n)) fs"

lemma mp_entries_ok:
  assumes "cpus_ok s" "table_procs m n p = Some fs"
  shows "cpus_ok (mp_entries m n p s) \<and> ncpu (mp_entries m n p s) = min NCPU (ncpu s + length fs) \<and>
    bootcpu (mp_entries m n p s) = boot_index (bootcpu s) (ncpu s) fs \<and> ismp (mp_entries m n p s) = ismp s"
  using assms
proof (induction m n p s arbitrary: fs rule: mp_entries.induct)
  case (1 m p s)
  then show ?case by (simp add: cpus_ok_def)
next
  case (2 m n p s)
  show ?case
  proof (cases "m p = 0")
    case True
    then obtain gs where gs: "table_procs m n (p + 20) = Some gs" "fs = m (p + 3) # gs" using 2(4) by auto
    show ?thesis using 2(1) [OF True mp_proc_ok(1) [OF 2(3)] gs(1)] mp_proc_ok(2-4) [OF 2(3)] True gs(2) by (auto simp: min_def)
  next
    case False
    then have "m p \<le> 4" "table_procs m n (p + 8) = Some fs" using 2(4) by (simp_all split: if_splits)
    then show ?thesis using 2(2) [OF False] 2(3) False known_entry [OF False] by simp
  qed
qed

lemma boot_index_bound: "n + length fs \<le> NCPU \<Longrightarrow> b < NCPU \<Longrightarrow> boot_index b n fs < NCPU"
  by (induction fs arbitrary: b n) auto

lemma mp_zero_ok: "cpus_ok mp_zero"
  by (simp add: cpus_ok_def mp_zero_def)

text \<open>A boot processor that comes after the eighth is stored outside the array.\<close>

lemma boot_index_late: "n = NCPU \<Longrightarrow> f AND 2 \<noteq> 0 \<Longrightarrow> \<forall>g \<in> set fs. g AND 2 = 0 \<Longrightarrow> boot_index b n (f # fs) = NCPU"
proof -
  have "boot_index b n fs = b" if "\<forall>g \<in> set fs. g AND 2 = 0" for b n fs using that by (induction fs arbitrary: n) auto
  then show "n = NCPU \<Longrightarrow> f AND 2 \<noteq> 0 \<Longrightarrow> \<forall>g \<in> set fs. g AND 2 = 0 \<Longrightarrow> boot_index b n (f # fs) = NCPU" by simp
qed

end
