(* ===== verification/Kern_Smp.thy ===== *)
theory Kern_Smp
  imports Kern_Desc_Props Kern_Irq Kern_Mp
begin

unbundle bit_operations_syntax

text \<open>
  Starting the other processors: \<^verbatim>\<open>boot_aps\<close> and \<^verbatim>\<open>mp_main\<close> of \<^verbatim>\<open>src/TP Sched/kern/init.c\<close> with \<^verbatim>\<open>kern/mpentry.S\<close>, as steps of the boot
  processor and the others that run interleaved. The processors share the variable \<^verbatim>\<open>mpentry_kstack\<close>, through which the boot
  processor hands over a stack, the member \<^verbatim>\<open>cpu_status\<close> of \<^verbatim>\<open>cpus\<close>, on which it waits, the tables of descriptors, and the memory of
  the kernel. Each access to a shared variable is one step. The boot processor holds the kernel lock all the time, so that
  a processor that has started waits in \<^verbatim>\<open>lock_kernel\<close>: its last step here is the one that sets its status.
\<close>

text \<open>Where the boot processor is: at the head of the loop, after the store to \<^verbatim>\<open>mpentry_kstack\<close>, in the waiting loop, done, or stopped
by a panic.\<close>

datatype boot_pc = Looking nat | Handing nat | Waiting nat | Booted | Panic

text \<open>
  Where another processor is: not started, in \<^verbatim>\<open>mpentry.S\<close> before it loads its stack, at the start of \<^verbatim>\<open>mp_main\<close>, after
  \<^verbatim>\<open>lapic_init\<close>, after \<^verbatim>\<open>trap_init_percpu\<close>, after the store to its status, or stopped by a panic or a fault.
\<close>

datatype ap_pc = Reset | Entering | Main | Lapic_Ready | Tables_Ready | Up | Crashed

record smp =
  mpentry_kstack :: "32 word"
  status_of :: "nat \<Rightarrow> cpu_status"
  boot_at :: boot_pc
  ap_at :: "nat \<Rightarrow> ap_pc"
  stack_of :: "nat \<Rightarrow> 32 word option"
  regs_of :: "nat \<Rightarrow> processor"
  desc :: tables
  mmio_base :: "32 word"
  kern :: kernel

text \<open>
  The registers of a processor when \<^verbatim>\<open>mpentry.S\<close> calls \<^verbatim>\<open>mp_main\<close>: the segments of the small table at its end, which has the same
  selectors for the code and data of the kernel, and the stack that it found.
\<close>

definition mp_entry :: "32 word \<Rightarrow> processor \<Rightarrow> processor" where
  "mp_entry esp p = p\<lparr>p_regs := (p_regs p)\<lparr>reg_ebp := 0\<rparr>, p_cs := GD_KT, p_ds := GD_KD, p_es := GD_KD, p_ss := GD_KD, p_fs := 0, p_gs := 0, p_esp := esp\<rparr>"

definition percpu_init :: "linked \<Rightarrow> nat \<Rightarrow> tables \<Rightarrow> processor \<Rightarrow> (tables \<times> processor) option" where
  "percpu_init L c t p = do {
     p \<leftarrow> env_init_percpu L t p;
     trap_init_percpu L c t p
   }"

text \<open>
  What does not change while the processors start: where the linker has put the tables and \<^verbatim>\<open>percpu_kstacks\<close>, \<^verbatim>\<open>lapicaddr\<close>, the members
  \<^verbatim>\<open>cpu_id\<close> of \<^verbatim>\<open>cpus\<close>, \<^verbatim>\<open>ncpu\<close>, the number of the boot processor, and what the interrupt controller of each processor answers.
\<close>

record smp_setup =
  links :: linked
  kstacks_at :: "32 word"
  lapic_addr :: "32 word"
  ids :: "nat \<Rightarrow> 8 word"
  cpu_count :: nat
  boot_cpu :: nat
  lapic_ver :: "nat \<Rightarrow> 32 word"
  lapic_answers :: "nat \<Rightarrow> 32 word list"

inductive smp_step :: "smp_setup \<Rightarrow> smp \<Rightarrow> smp \<Rightarrow> bool" for S where
  skip: "boot_at s = Looking c \<Longrightarrow> c < cpu_count S \<Longrightarrow> c = boot_cpu S \<Longrightarrow> smp_step S s (s\<lparr>boot_at := Looking (Suc c)\<rparr>)"
| hand: "boot_at s = Looking c \<Longrightarrow> c < cpu_count S \<Longrightarrow> c \<noteq> boot_cpu S \<Longrightarrow>
    smp_step S s (s\<lparr>mpentry_kstack := kstack_of (kstacks_at S) c + KSTKSIZE, boot_at := Handing c\<rparr>)"
| start: "boot_at s = Handing c \<Longrightarrow> lapic_startap (ids S c) MPENTRY_PADDR (kern s) = Some (ports, writes, k) \<Longrightarrow>
    smp_step S s (s\<lparr>kern := k, boot_at := Waiting c, ap_at := (ap_at s)(c := Entering)\<rparr>)"
| start_panic: "boot_at s = Handing c \<Longrightarrow> lapic_startap (ids S c) MPENTRY_PADDR (kern s) = None \<Longrightarrow> smp_step S s (s\<lparr>boot_at := Panic\<rparr>)"
| seen: "boot_at s = Waiting c \<Longrightarrow> status_of s c = CPU_STARTED \<Longrightarrow> smp_step S s (s\<lparr>boot_at := Looking (Suc c)\<rparr>)"
| finish: "boot_at s = Looking c \<Longrightarrow> \<not> c < cpu_count S \<Longrightarrow> smp_step S s (s\<lparr>boot_at := Booted\<rparr>)"
| enter: "ap_at s c = Entering \<Longrightarrow>
    smp_step S s (s\<lparr>stack_of := (stack_of s)(c := Some (mpentry_kstack s)), regs_of := (regs_of s)(c := mp_entry (mpentry_kstack s) (regs_of s c)),
      ap_at := (ap_at s)(c := Main)\<rparr>)"
| lapic: "ap_at s c = Main \<Longrightarrow> lapic_init False (lapic_ver S c) (lapic_answers S c) (lapic_addr S) (mmio_base s) (kern s) = Some (ws, base, k) \<Longrightarrow>
    smp_step S s (s\<lparr>mmio_base := base, kern := k, ap_at := (ap_at s)(c := Lapic_Ready)\<rparr>)"
| lapic_crash: "ap_at s c = Main \<Longrightarrow> lapic_init False (lapic_ver S c) (lapic_answers S c) (lapic_addr S) (mmio_base s) (kern s) = None \<Longrightarrow>
    smp_step S s (s\<lparr>ap_at := (ap_at s)(c := Crashed)\<rparr>)"
| tables: "ap_at s c = Lapic_Ready \<Longrightarrow> percpu_init (links S) c (desc s) (regs_of s c) = Some (t, p) \<Longrightarrow>
    smp_step S s (s\<lparr>desc := t, regs_of := (regs_of s)(c := p), ap_at := (ap_at s)(c := Tables_Ready)\<rparr>)"
| tables_crash: "ap_at s c = Lapic_Ready \<Longrightarrow> percpu_init (links S) c (desc s) (regs_of s c) = None \<Longrightarrow>
    smp_step S s (s\<lparr>ap_at := (ap_at s)(c := Crashed)\<rparr>)"
| up: "ap_at s c = Tables_Ready \<Longrightarrow>
    smp_step S s (s\<lparr>status_of := (status_of s)(c := CPU_STARTED), ap_at := (ap_at s)(c := Up)\<rparr>)"

inductive_cases smp_stepE: "smp_step S s s'"

inductive smp_run :: "smp_setup \<Rightarrow> smp \<Rightarrow> smp \<Rightarrow> bool" for S s0 where
  start: "smp_run S s0 s0"
| step: "smp_run S s0 s \<Longrightarrow> smp_step S s s' \<Longrightarrow> smp_run S s0 s'"

section \<open>The memory that the processors share\<close>

text \<open>
  The pages from \<open>v\<close> on of the window for devices are free, there is memory for their tables, the addresses of programs are not
  mapped, and the rest of the kernel is as in \<open>k0\<close>.
\<close>

definition device_window :: "nat \<Rightarrow> nat \<Rightarrow> kernel \<Rightarrow> nat \<Rightarrow> kernel \<Rightarrow> bool" where
  "device_window kd C k0 v k \<longleftrightarrow> kern_pgdir k = kd \<and> 7 < kd \<and> 0xEF800 \<le> v \<and> (\<exists>ys. kmap k kd ys \<and> C < length ys + v) \<and>
     pmem k kd 958 \<noteq> 0 \<and> (\<forall>u \<in> {v..<0xEFC00}. entry k kd (page2pa u) = 0) \<and> (\<forall>i < 955. pmem k kd i = 0) \<and> machine.more k = machine.more k0"

lemma window_number: "(u :: nat) \<in> {0xEF800..<0xEFC00} \<Longrightarrow> u < 2 ^ 20 \<and> u div 1024 = 958"
  by (auto intro!: div_nat_eqI)

lemma window_lapic:
  assumes w: "device_window kd C k0 v k" and v: "v \<le> C" "v + 1 < 0xEFC00" and a: "wait_delivered answers \<noteq> None"
  shows "\<exists>ws n k'. lapic_init is_boot ver answers la (page2pa v) k = Some (ws, page2pa (v + n), k') \<and> n \<le> 1 \<and> device_window kd C k0 (v + n) k'"
proof -
  obtain ys where ys: "kmap k kd ys" "C < length ys + v" using w by (auto simp: device_window_def)
  have K: "kern_pgdir k = kd" "7 < kd" "0xEF800 \<le> v" "pmem k kd 958 \<noteq> 0" "\<forall>u \<in> {v..<0xEFC00}. entry k kd (page2pa u) = 0"
    "\<forall>i < 955. pmem k kd i = 0" "machine.more k = machine.more k0"
    using w by (auto simp: device_window_def)
  have y: "ys \<noteq> []" using ys(2) v(1) by auto
  have e: "entry k kd (page2pa v) = 0" using K(5) v(2) by simp
  obtain k' zs where k': "lapic_map la (page2pa v) k = Some (page2pa (v + (if la = 0 then 0 else 1)), k')" "kmap k' kd zs" "length ys \<le> length zs + 1"
    "machine.more k' = machine.more k" "pmem k' kd = pmem k kd"
    "\<forall>u < 2 ^ 20. u div 1024 \<noteq> 957 \<and> u \<noteq> v \<longrightarrow> entry k' kd (page2pa u) = entry k kd (page2pa u)"
    using lapic_map_ok [OF ys(1) y K(1,3) v(2) e K(4), of la] by (elim exE conjE) (rule that)
  show ?thesis
  proof (cases "la = 0")
    case True
    then have "lapic_init is_boot ver answers la (page2pa v) k = Some ([], page2pa (v + 0), k)" by (simp add: lapic_init_def lapic_map_def)
    then show ?thesis using w by (intro exI [of _ "[]"] exI [of _ 0] exI [of _ k]) simp
  next
    case False
    have "entry k' kd (page2pa u) = 0" if u: "u \<in> {v + 1..<0xEFC00}" for u
    proof -
      have "u \<in> {0xEF800..<0xEFC00}" "u \<in> {v..<0xEFC00}" "u \<noteq> v" using u K(3) by auto
      then show ?thesis using k'(6) K(5) window_number [of u] by auto
    qed
    moreover have "kern_pgdir k' = kd" using more_kernel(4) [OF k'(4)] K(1) by simp
    moreover have "C < length zs + (v + 1)" using ys(2) k'(3) by simp
    ultimately have "device_window kd C k0 (v + 1) k'" using K(2-4,6,7) k'(2,4,5) unfolding device_window_def by auto
    moreover have "\<exists>ws. lapic_init is_boot ver answers la (page2pa v) k = Some (ws, page2pa (v + 1), k')"
      using k'(1) a False by (auto simp: lapic_init_def Let_def)
    ultimately show ?thesis by blast
  qed
qed

text \<open>Storing to a page that holds no table of the kernel.\<close>

lemma window_page:
  assumes w: "device_window kd C k0 v k" and q: "q \<noteq> kd" "\<not> table_page kd q"
  shows "device_window kd C k0 v (k\<lparr>pmem := (pmem k)(q := x)\<rparr>)"
proof -
  obtain ys where ys: "kmap k kd ys" "C < length ys + v" using w by (auto simp: device_window_def)
  have K: "kern_pgdir k = kd" "7 < kd" "0xEF800 \<le> v" "pmem k kd 958 \<noteq> 0" "\<forall>u \<in> {v..<0xEFC00}. entry k kd (page2pa u) = 0"
    "\<forall>i < 955. pmem k kd i = 0" "machine.more k = machine.more k0"
    using w by (auto simp: device_window_def)
  let ?k = "k\<lparr>pmem := (pmem k)(q := x)\<rparr>"
  have n: "npages ?k = npages k" by (simp add: npages_def)
  have d: "pmem ?k kd = pmem k kd" using q(1) by simp
  have b: "boot_inv ?k ys" using kmapD(1) [OF ys(1)] boot_inv_mem [of ?k k ys] by simp
  have "kmap ?k kd ys" using ys(1) b unfolding kmap_def d n by (elim conjE) (intro conjI)
  moreover have "entry ?k kd (page2pa u) = entry k kd (page2pa u)" if u: "u \<in> {v..<0xEFC00}" for u
  proof -
    have "u \<in> {0xEF800..<0xEFC00}" using u K(3) by auto
    then have u': "u < 2 ^ 20" "u div 1024 = 958" using window_number by blast+
    obtain t where "table_page kd t" "PGNUM (pmem k kd 958) = t" using kmapD(5) [OF ys(1) _ _ K(4)] by auto
    then have "PGNUM (pmem k kd 958) \<noteq> q" using q(2) by auto
    then show ?thesis using q(1) u' by (simp add: entry_def page_number)
  qed
  ultimately show ?thesis using K d ys(2) unfolding device_window_def by auto
qed

lemma window_startap:
  assumes w: "device_window kd C k0 v k"
  shows "\<exists>ports ws k'. lapic_startap i MPENTRY_PADDR k = Some (ports, ws, k') \<and> device_window kd C k0 v k'"
proof -
  obtain ys where ys: "kmap k kd ys" using w by (auto simp: device_window_def)
  have ka: "KADDR (npages k) (push_bit 4 0x40 OR 0x67) = Some (0xF0000467)"
    using kmapD(2) [OF ys] by (simp add: KADDR_def PGNUM_div push_bit_eq_mult)
  have u: "unat (push_bit 4 0x40 OR 0x67 :: 32 word) = 0x467" by (simp add: push_bit_eq_mult)
  define bs :: "8 word list" where "bs = [0, 0, ucast (ucast (drop_bit 4 MPENTRY_PADDR :: 32 word) :: 16 word), ucast (drop_bit 8 (ucast (drop_bit 4 MPENTRY_PADDR :: 32 word) :: 16 word))]"
  obtain x where px: "put_phys 0x467 bs k = k\<lparr>pmem := (pmem k)(0 := x)\<rparr>"
    using put_phys_page [of 0 "0x467" bs k] by (auto simp: bs_def)
  have "\<exists>ports ws. lapic_startap i MPENTRY_PADDR k = Some (ports, ws, k\<lparr>pmem := (pmem k)(0 := x)\<rparr>)"
    unfolding lapic_startap_def Let_def u bs_def [symmetric] ka px by simp
  moreover have "device_window kd C k0 v (k\<lparr>pmem := (pmem k)(0 := x)\<rparr>)"
    by (rule window_page [OF w]) (use w in \<open>auto simp: device_window_def table_page_def\<close>)
  ultimately show ?thesis by blast
qed

section \<open>One processor after the other\<close>

definition own_stack :: "smp_setup \<Rightarrow> nat \<Rightarrow> 32 word" where
  "own_stack S c = kstack_of (kstacks_at S) c + KSTKSIZE"

text \<open>The processors before \<open>c\<close> are up, those after it not started; only the one that the boot processor waits for is in between.\<close>

definition started_before :: "smp_setup \<Rightarrow> nat \<Rightarrow> nat \<Rightarrow> ap_pc" where
  "started_before S c j = (if j < c \<and> j \<noteq> boot_cpu S then Up else Reset)"

definition order_ok :: "smp_setup \<Rightarrow> smp \<Rightarrow> bool" where
  "order_ok S s \<longleftrightarrow>
     (case boot_at s of
        Looking c \<Rightarrow> c \<le> cpu_count S \<and> ap_at s = started_before S c
      | Handing c \<Rightarrow> c < cpu_count S \<and> c \<noteq> boot_cpu S \<and> mpentry_kstack s = own_stack S c \<and> ap_at s = started_before S c
      | Waiting c \<Rightarrow> c < cpu_count S \<and> c \<noteq> boot_cpu S \<and> mpentry_kstack s = own_stack S c \<and>
          (\<exists>a. a \<notin> {Reset, Crashed} \<and> ap_at s = (started_before S c)(c := a))
      | Booted \<Rightarrow> ap_at s = started_before S (cpu_count S)
      | Panic \<Rightarrow> False)"

text \<open>How many processors may have mapped the registers of their controllers.\<close>

definition lapics :: "smp_setup \<Rightarrow> smp \<Rightarrow> nat" where
  "lapics S s = (case boot_at s of Looking c \<Rightarrow> c | Handing c \<Rightarrow> c | Waiting c \<Rightarrow> if ap_at s c \<in> {Entering, Main} then c else c + 1 | _ \<Rightarrow> cpu_count S)"

definition ap_ok :: "smp_setup \<Rightarrow> smp \<Rightarrow> nat \<Rightarrow> bool" where
  "ap_ok S s j \<longleftrightarrow> (status_of s j = CPU_STARTED \<longleftrightarrow> j = boot_cpu S \<or> ap_at s j = Up) \<and>
     (ap_at s j \<notin> {Reset, Entering} \<longrightarrow> stack_of s j = Some (own_stack S j) \<and> cpl (regs_of s j) = 0 \<and> p_esp (regs_of s j) = own_stack S j) \<and>
     (ap_at s j \<in> {Tables_Ready, Up} \<longrightarrow> cpu_ready (links S) j (regs_of s j))"

definition with_tables :: "smp_setup \<Rightarrow> smp \<Rightarrow> nat set" where
  "with_tables S s = insert (boot_cpu S) {j. ap_at s j \<in> {Tables_Ready, Up}}"

definition window_ok :: "smp_setup \<Rightarrow> nat \<Rightarrow> nat \<Rightarrow> nat \<Rightarrow> kernel \<Rightarrow> nat \<Rightarrow> smp \<Rightarrow> bool" where
  "window_ok S kd v0 R k0 m s \<longleftrightarrow> (\<exists>v \<le> v0 + m. mmio_base s = page2pa v \<and> device_window kd (v0 + cpu_count S + R) k0 v (kern s))"

definition smp_inv :: "smp_setup \<Rightarrow> nat \<Rightarrow> nat \<Rightarrow> nat \<Rightarrow> kernel \<Rightarrow> smp \<Rightarrow> bool" where
  "smp_inv S kd v0 R k0 s \<longleftrightarrow> order_ok S s \<and> (\<forall>j. ap_ok S s j) \<and> tables_ok (links S) (with_tables S s) (desc s) \<and>
     window_ok S kd v0 R k0 (lapics S s) s"

text \<open>What the loop of \<^verbatim>\<open>boot_aps\<close> starts with.\<close>

definition smp_ready :: "smp_setup \<Rightarrow> nat \<Rightarrow> nat \<Rightarrow> nat \<Rightarrow> kernel \<Rightarrow> smp \<Rightarrow> bool" where
  "smp_ready S kd v0 R k0 s \<longleftrightarrow> cpu_count S \<le> NCPU \<and> v0 + NCPU < 0xEFC00 \<and> (\<forall>c. wait_delivered (lapic_answers S c) \<noteq> None) \<and>
     boot_at s = Looking 0 \<and> ap_at s = (\<lambda>_. Reset) \<and> (\<forall>j. status_of s j = CPU_STARTED \<longleftrightarrow> j = boot_cpu S) \<and>
     tables_ok (links S) {boot_cpu S} (desc s) \<and> mmio_base s = page2pa v0 \<and> device_window kd (v0 + cpu_count S + R) k0 v0 (kern s)"

lemma smp_inv_start: "smp_ready S kd v0 R k0 s \<Longrightarrow> smp_inv S kd v0 R k0 s"
  by (auto simp: smp_ready_def smp_inv_def order_ok_def started_before_def ap_ok_def with_tables_def lapics_def window_ok_def)

lemma mp_entry_parts [simp]: "cpl (mp_entry e p) = 0" "p_esp (mp_entry e p) = e"
  by (simp_all add: mp_entry_def cpl_def)

lemma percpu_init_ok:
  assumes t: "tables_ok L I t" and c: "c < 8" and p: "cpl p = 0"
  shows "\<exists>t' p'. percpu_init L c t p = Some (t', p') \<and> tables_ok L (insert c I) t' \<and> cpu_ready L c p' \<and> cpl p' = 0 \<and> p_esp p' = p_esp p"
proof -
  have g: "length (gdt t) = 13" "take 5 (gdt t) = take 5 boot_gdt" using t by (simp_all add: tables_ok_def)
  obtain p1 where p1: "env_init_percpu L t p = Some p1" "p_gdtr p1 = gdt_pd L" "cpl p1 = 0" "p_esp p1 = p_esp p"
    using env_init_percpu_ok [OF g p, of L] by (simp add: cpl_def)
  then show ?thesis using trap_init_percpu_ok [OF t c p1(2)] by (fastforce simp: percpu_init_def cpu_ready_def cpl_def)
qed

text \<open>The processor that the boot processor waits for is the only one that moves.\<close>

lemma moving_ap:
  assumes "order_ok S s" "ap_at s c \<notin> {Reset, Up}"
  shows "boot_at s = Waiting c" "c < cpu_count S" "c \<noteq> boot_cpu S" "mpentry_kstack s = own_stack S c" "ap_at s = (started_before S c)(c := ap_at s c)" "ap_at s c \<noteq> Crashed"
proof -
  have "boot_at s = Waiting c \<and> c < cpu_count S \<and> c \<noteq> boot_cpu S \<and> mpentry_kstack s = own_stack S c \<and> ap_at s = (started_before S c)(c := ap_at s c) \<and> ap_at s c \<noteq> Crashed"
    using assms by (auto simp: order_ok_def started_before_def split: boot_pc.splits if_splits)
  then show "boot_at s = Waiting c" "c < cpu_count S" "c \<noteq> boot_cpu S" "mpentry_kstack s = own_stack S c" "ap_at s = (started_before S c)(c := ap_at s c)" "ap_at s c \<noteq> Crashed" by blast+
qed

lemma smp_inv_intro:
  assumes "order_ok S s" "\<forall>j. ap_ok S s j" "tables_ok (links S) I (desc s)" "with_tables S s = I" "window_ok S kd v0 R k0 m s" "m \<le> lapics S s"
  shows "smp_inv S kd v0 R k0 s"
proof -
  obtain v where v: "v \<le> v0 + m" "mmio_base s = page2pa v" "device_window kd (v0 + cpu_count S + R) k0 v (kern s)" using assms(5) by (auto simp: window_ok_def)
  then have "v \<le> v0 + lapics S s" using assms(6) by simp
  then have "window_ok S kd v0 R k0 (lapics S s) s" using v by (auto simp: window_ok_def)
  then show ?thesis using assms by (simp add: smp_inv_def)
qed

lemma boot_step_inv:
  assumes inv: "smp_inv S kd v0 R k0 s" and s': "s' = s\<lparr>boot_at := b\<rparr>" "order_ok S s'" "lapics S s \<le> lapics S s'"
  shows "smp_inv S kd v0 R k0 s'"
proof (rule smp_inv_intro [OF s'(2) _ _ refl])
  show "\<forall>j. ap_ok S s' j" "tables_ok (links S) (with_tables S s') (desc s')" using inv by (simp_all add: s'(1) smp_inv_def ap_ok_def with_tables_def)
  show "window_ok S kd v0 R k0 (lapics S s) s'" using inv by (simp add: s'(1) smp_inv_def window_ok_def)
qed (rule s'(3))

text \<open>A step of the processor \<open>c\<close>, which leaves the others alone.\<close>

lemma ap_step_inv:
  assumes inv: "smp_inv S kd v0 R k0 s" and x: "ap_at s c \<notin> {Reset, Up}" and y: "y \<notin> {Reset, Crashed}"
    and s': "boot_at s' = boot_at s" "mpentry_kstack s' = mpentry_kstack s" "ap_at s' = (ap_at s)(c := y)"
      "\<forall>j. j \<noteq> c \<longrightarrow> status_of s' j = status_of s j \<and> stack_of s' j = stack_of s j \<and> regs_of s' j = regs_of s j"
    and own: "ap_ok S s' c" and t: "tables_ok (links S) I (desc s')" "with_tables S s' = I" and w: "window_ok S kd v0 R k0 m s'" "m \<le> lapics S s'"
  shows "smp_inv S kd v0 R k0 s'"
proof (rule smp_inv_intro [OF _ _ t w])
  have o: "order_ok S s" "\<forall>j. ap_ok S s j" using inv by (simp_all add: smp_inv_def)
  note M = moving_ap [OF o(1) x]
  have "ap_at s' = (started_before S c)(c := y)" unfolding s'(3) by (subst M(5)) simp
  then show "order_ok S s'" using M(1-4) y s'(1,2) by (auto simp: order_ok_def intro!: exI [of _ y])
  show "\<forall>j. ap_ok S s' j"
  proof
    fix j
    show "ap_ok S s' j" using own o(2) s'(3,4) by (cases "j = c") (auto simp: ap_ok_def)
  qed
qed

lemma lapic_runs:
  assumes inv: "smp_inv S kd v0 R k0 s" and n: "cpu_count S \<le> 8" "v0 + 8 < 0xEFC00" and a: "\<forall>c. wait_delivered (lapic_answers S c) \<noteq> None" and c: "ap_at s c = Main"
  shows "\<exists>ws v' k. lapic_init False (lapic_ver S c) (lapic_answers S c) (lapic_addr S) (mmio_base s) (kern s) = Some (ws, page2pa v', k) \<and>
    v' \<le> v0 + (c + 1) \<and> device_window kd (v0 + cpu_count S + R) k0 v' k"
proof -
  have o: "order_ok S s" using inv by (simp add: smp_inv_def)
  note M = moving_ap [OF o, of c]
  obtain v where v: "v \<le> v0 + c" "mmio_base s = page2pa v" "device_window kd (v0 + cpu_count S + R) k0 v (kern s)"
    using inv M(1) c by (auto simp: smp_inv_def window_ok_def lapics_def)
  have "c < cpu_count S" using M(2) c by simp
  then have "v \<le> v0 + cpu_count S + R" "v + 1 < 0xEFC00" using v(1) n by simp_all
  then obtain ws k' m where "lapic_init False (lapic_ver S c) (lapic_answers S c) (lapic_addr S) (page2pa v) (kern s) = Some (ws, page2pa (v + m), k')" "m \<le> 1"
    "device_window kd (v0 + cpu_count S + R) k0 (v + m) k'"
    using window_lapic [OF v(3), of "lapic_answers S c" False "lapic_ver S c" "lapic_addr S"] a by blast
  then show ?thesis using v(1,2) by (intro exI [of _ ws] exI [of _ "v + m"] exI [of _ k']) simp
qed

lemma tables_run:
  assumes inv: "smp_inv S kd v0 R k0 s" and n: "cpu_count S \<le> 8" and c: "ap_at s c = Lapic_Ready"
  shows "\<exists>t p. percpu_init (links S) c (desc s) (regs_of s c) = Some (t, p) \<and> tables_ok (links S) (insert c (with_tables S s)) t \<and>
    cpu_ready (links S) c p \<and> cpl p = 0 \<and> p_esp p = p_esp (regs_of s c)"
proof (rule percpu_init_ok)
  show "tables_ok (links S) (with_tables S s) (desc s)" using inv by (simp add: smp_inv_def)
  show "c < 8" using moving_ap(2) [of S s c] inv c n by (simp add: smp_inv_def)
  show "cpl (regs_of s c) = 0" using inv c by (simp add: smp_inv_def ap_ok_def)
qed

lemma smp_step_inv:
  assumes inv: "smp_inv S kd v0 R k0 s" and n: "cpu_count S \<le> 8" "v0 + 8 < 0xEFC00" and a: "\<forall>c. wait_delivered (lapic_answers S c) \<noteq> None"
    and st: "smp_step S s s'"
  shows "smp_inv S kd v0 R k0 s'"
  using st
proof cases
  case (skip c)
  have "started_before S (Suc c) = started_before S c" using skip by (auto simp: started_before_def fun_eq_iff less_Suc_eq)
  then show ?thesis using inv skip by (intro boot_step_inv [OF inv skip(1)]) (auto simp: smp_inv_def order_ok_def lapics_def)
next
  case (hand c)
  show ?thesis
  proof (rule smp_inv_intro)
    show "order_ok S s'" using inv hand by (simp add: smp_inv_def order_ok_def own_stack_def)
    show "\<forall>j. ap_ok S s' j" using inv hand by (simp add: smp_inv_def ap_ok_def)
    show "tables_ok (links S) (with_tables S s) (desc s')" "window_ok S kd v0 R k0 (lapics S s) s'" using inv hand by (simp_all add: smp_inv_def window_ok_def)
    show "with_tables S s' = with_tables S s" "lapics S s \<le> lapics S s'" using hand by (simp_all add: with_tables_def lapics_def)
  qed
next
  case (start c ports writes k)
  have "window_ok S kd v0 R k0 c s" using inv start(2) by (simp add: smp_inv_def lapics_def)
  then obtain v where v: "v \<le> v0 + c" "mmio_base s = page2pa v" "device_window kd (v0 + cpu_count S + R) k0 v (kern s)" by (auto simp: window_ok_def)
  obtain ports' ws' k' where "lapic_startap (ids S c) MPENTRY_PADDR (kern s) = Some (ports', ws', k')" "device_window kd (v0 + cpu_count S + R) k0 v k'"
    using window_startap [OF v(3), of "ids S c"] by blast
  then have "device_window kd (v0 + cpu_count S + R) k0 v k" using start(3) by simp
  then have w: "window_ok S kd v0 R k0 c s'" using v start(1) by (auto simp: window_ok_def)
  have o: "c < cpu_count S" "c \<noteq> boot_cpu S" "mpentry_kstack s = own_stack S c" "ap_at s = started_before S c" "\<forall>j. ap_ok S s j"
    "tables_ok (links S) (with_tables S s) (desc s)" using inv start(2) by (auto simp: smp_inv_def order_ok_def)
  then have r: "ap_at s c = Reset" by (simp add: started_before_def)
  show ?thesis
  proof (rule smp_inv_intro [OF _ _ _ _ w])
    show "order_ok S s'" using o start by (auto simp: order_ok_def intro!: exI [of _ Entering])
    show "\<forall>j. ap_ok S s' j" using o(2,5) r start by (auto simp: ap_ok_def)
    show "tables_ok (links S) (with_tables S s) (desc s')" using o(6) start by simp
    show "with_tables S s' = with_tables S s" using r start by (auto simp: with_tables_def)
    show "c \<le> lapics S s'" using start by (simp add: lapics_def)
  qed
next
  case (start_panic c)
  obtain v where "device_window kd (v0 + cpu_count S + R) k0 v (kern s)" using inv by (auto simp: smp_inv_def window_ok_def)
  then show ?thesis using window_startap [of kd _ k0 v "kern s" "ids S c"] start_panic(3) by auto
next
  case (seen c)
  have up: "ap_at s c = Up" using seen inv by (auto simp: smp_inv_def ap_ok_def order_ok_def)
  then have "order_ok S s'" using inv seen by (auto simp: smp_inv_def order_ok_def started_before_def fun_eq_iff less_Suc_eq)
  then show ?thesis using up seen by (intro boot_step_inv [OF inv seen(1)]) (auto simp: lapics_def)
next
  case (finish c)
  then show ?thesis using inv by (intro boot_step_inv [OF inv finish(1)]) (auto simp: smp_inv_def order_ok_def lapics_def)
next
  case (enter c)
  have x: "ap_at s c \<notin> {Reset, Up}" using enter(2) by simp
  have o: "order_ok S s" "\<forall>j. ap_ok S s j" using inv by (simp_all add: smp_inv_def)
  note M = moving_ap [OF o(1) x]
  show ?thesis
  proof (rule ap_step_inv [OF inv x, of Main])
    show "ap_ok S s' c" using o(2) enter M(3,4) by (auto simp: ap_ok_def)
    show "tables_ok (links S) (with_tables S s) (desc s')" using inv enter by (simp add: smp_inv_def)
    show "with_tables S s' = with_tables S s" using enter by (auto simp: with_tables_def)
    show "window_ok S kd v0 R k0 (lapics S s) s'" using inv enter by (simp add: smp_inv_def window_ok_def)
    show "lapics S s \<le> lapics S s'" using enter M(1) by (simp add: lapics_def)
  qed (use enter in auto)
next
  case (lapic c ws base k)
  have x: "ap_at s c \<notin> {Reset, Up}" using lapic(2) by simp
  have o: "order_ok S s" "\<forall>j. ap_ok S s j" using inv by (simp_all add: smp_inv_def)
  note M = moving_ap [OF o(1) x]
  obtain v' where v': "v' \<le> v0 + (c + 1)" "base = page2pa v'" "device_window kd (v0 + cpu_count S + R) k0 v' k" using lapic_runs [OF inv n a lapic(2)] lapic(3) by auto
  show ?thesis
  proof (rule ap_step_inv [OF inv x, of Lapic_Ready])
    show "ap_ok S s' c" using o(2) lapic by (auto simp: ap_ok_def)
    show "tables_ok (links S) (with_tables S s) (desc s')" using inv lapic by (simp add: smp_inv_def)
    show "with_tables S s' = with_tables S s" using lapic by (auto simp: with_tables_def)
    show "window_ok S kd v0 R k0 (c + 1) s'" using v' lapic by (auto simp: window_ok_def)
    show "c + 1 \<le> lapics S s'" using lapic M(1) by (simp add: lapics_def)
  qed (use lapic in auto)
next
  case (lapic_crash c)
  then show ?thesis using lapic_runs [OF inv n a lapic_crash(2)] by auto
next
  case (tables c t p)
  have x: "ap_at s c \<notin> {Reset, Up}" using tables(2) by simp
  have o: "order_ok S s" "\<forall>j. ap_ok S s j" using inv by (simp_all add: smp_inv_def)
  note M = moving_ap [OF o(1) x]
  have p: "tables_ok (links S) (insert c (with_tables S s)) t" "cpu_ready (links S) c p" "cpl p = 0" "p_esp p = p_esp (regs_of s c)"
    using tables_run [OF inv n(1) tables(2)] tables(3) by auto
  show ?thesis
  proof (rule ap_step_inv [OF inv x, of Tables_Ready])
    show "ap_ok S s' c" using o(2) tables p(2-4) by (auto simp: ap_ok_def)
    show "tables_ok (links S) (insert c (with_tables S s)) (desc s')" using p(1) tables by simp
    show "with_tables S s' = insert c (with_tables S s)" using tables by (auto simp: with_tables_def)
    show "window_ok S kd v0 R k0 (lapics S s) s'" using inv tables by (simp add: smp_inv_def window_ok_def)
    show "lapics S s \<le> lapics S s'" using tables M(1) by (simp add: lapics_def)
  qed (use tables in auto)
next
  case (tables_crash c)
  then show ?thesis using tables_run [OF inv n(1) tables_crash(2)] by auto
next
  case (up c)
  have x: "ap_at s c \<notin> {Reset, Up}" using up(2) by simp
  have o: "order_ok S s" "\<forall>j. ap_ok S s j" using inv by (simp_all add: smp_inv_def)
  note M = moving_ap [OF o(1) x]
  show ?thesis
  proof (rule ap_step_inv [OF inv x, of Up])
    show "ap_ok S s' c" using o(2) up by (auto simp: ap_ok_def)
    show "tables_ok (links S) (with_tables S s) (desc s')" using inv up by (simp add: smp_inv_def)
    show "with_tables S s' = with_tables S s" using up by (auto simp: with_tables_def)
    show "window_ok S kd v0 R k0 (lapics S s) s'" using inv up by (simp add: smp_inv_def window_ok_def)
    show "lapics S s \<le> lapics S s'" using up M(1) by (simp add: lapics_def)
  qed (use up in auto)
qed

lemma smp_run_inv:
  assumes r: "smp_ready S kd v0 R k0 s0" and "smp_run S s0 s"
  shows "smp_inv S kd v0 R k0 s"
  using assms(2)
proof (induction rule: smp_run.induct)
  case start
  show ?case by (rule smp_inv_start [OF r])
next
  case (step s s')
  then show ?case using smp_step_inv r by (auto simp: smp_ready_def)
qed

section \<open>The start ends\<close>

fun ap_rank :: "ap_pc \<Rightarrow> nat" where
  "ap_rank Reset = 5"
| "ap_rank Entering = 4"
| "ap_rank Main = 3"
| "ap_rank Lapic_Ready = 2"
| "ap_rank Tables_Ready = 1"
| "ap_rank Up = 0"
| "ap_rank Crashed = 0"

fun boot_rank :: "nat \<Rightarrow> boot_pc \<Rightarrow> nat" where
  "boot_rank n (Looking c) = 3 * (n - c) + 1"
| "boot_rank n (Handing c) = 3 * (n - c)"
| "boot_rank n (Waiting c) = 3 * (n - c) - 1"
| "boot_rank n Booted = 0"
| "boot_rank n Panic = 0"

definition smp_rank :: "smp_setup \<Rightarrow> smp \<Rightarrow> nat" where
  "smp_rank S s = boot_rank (cpu_count S) (boot_at s) + (\<Sum>j < cpu_count S. ap_rank (ap_at s j))"

lemma sum_upd_less:
  assumes "c < (n :: nat)" "f y < f (g c)"
  shows "(\<Sum>j < n. f ((g(c := y)) j)) < (\<Sum>j < n. (f (g j) :: nat))"
proof (rule sum_strict_mono_ex1)
  show "\<forall>j \<in> {..<n}. f ((g(c := y)) j) \<le> f (g j)" using assms(2) by simp
  show "\<exists>j \<in> {..<n}. f ((g(c := y)) j) < f (g j)" using assms by (intro bexI [of _ c]) simp_all
qed simp

lemma smp_step_rank:
  assumes inv: "smp_inv S kd v0 R k0 s" and st: "smp_step S s s'"
  shows "smp_rank S s' < smp_rank S s"
proof -
  have o: "order_ok S s" using inv by (simp add: smp_inv_def)
  have ap: "smp_rank S s' < smp_rank S s" if "ap_at s c \<notin> {Reset, Up}" "boot_at s' = boot_at s" "ap_at s' = (ap_at s)(c := y)" "ap_rank y < ap_rank (ap_at s c)" for c y
    using sum_upd_less [of c "cpu_count S" ap_rank y "ap_at s"] moving_ap(2) [OF o that(1)] that by (simp add: smp_rank_def)
  show ?thesis
    using st
  proof cases
    case (skip c)
    then show ?thesis by (simp add: smp_rank_def)
  next
    case (hand c)
    then show ?thesis by (simp add: smp_rank_def)
  next
    case (start c ports writes k)
    then have "c < cpu_count S" "ap_at s c = Reset" using o by (auto simp: order_ok_def started_before_def)
    then show ?thesis using start sum_upd_less [of c "cpu_count S" ap_rank Entering "ap_at s"] by (simp add: smp_rank_def)
  next
    case (start_panic c)
    then show ?thesis using o by (auto simp: smp_rank_def order_ok_def)
  next
    case (seen c)
    then show ?thesis using o by (auto simp: smp_rank_def order_ok_def)
  next
    case (finish c)
    then show ?thesis by (simp add: smp_rank_def)
  next
    case (enter c)
    then show ?thesis by (intro ap [of c Main]) auto
  next
    case (lapic c ws base k)
    then show ?thesis by (intro ap [of c Lapic_Ready]) auto
  next
    case (lapic_crash c)
    then show ?thesis by (intro ap [of c Crashed]) auto
  next
    case (tables c t p)
    then show ?thesis by (intro ap [of c Tables_Ready]) auto
  next
    case (tables_crash c)
    then show ?thesis by (intro ap [of c Crashed]) auto
  next
    case (up c)
    then show ?thesis by (intro ap [of c Up]) auto
  qed
qed

lemma smp_steps_bound:
  assumes r: "smp_ready S kd v0 R k0 s0" and "(smp_step S ^^ m) s0 s"
  shows "smp_inv S kd v0 R k0 s \<and> smp_rank S s + m \<le> 8 * cpu_count S + 1"
  using assms(2)
proof (induction m arbitrary: s)
  case 0
  then have "s = s0" by simp
  moreover have "smp_rank S s0 = 8 * cpu_count S + 1" using r by (simp add: smp_ready_def smp_rank_def)
  ultimately show ?case using smp_inv_start [OF r] by simp
next
  case (Suc m)
  then obtain s1 where s1: "(smp_step S ^^ m) s0 s1" "smp_step S s1 s" by auto
  then have "smp_inv S kd v0 R k0 s1" "smp_rank S s1 + m \<le> 8 * cpu_count S + 1" using Suc.IH by blast+
  then show ?case using smp_step_rank [OF _ s1(2)] smp_step_inv [OF _ _ _ _ s1(2)] r by (fastforce simp: smp_ready_def)
qed

text \<open>As long as the boot processor is in \<^verbatim>\<open>boot_aps\<close>, some processor can move.\<close>

lemma smp_progress:
  assumes inv: "smp_inv S kd v0 R k0 s" and b: "boot_at s \<noteq> Booted"
  shows "\<exists>s'. smp_step S s s'"
proof (cases "boot_at s")
  case (Looking c)
  then show ?thesis using smp_step.skip [of s c S] smp_step.hand [of s c S] smp_step.finish [of s c S] by blast
next
  case (Handing c)
  then show ?thesis using smp_step.start [of s c S] smp_step.start_panic [of s c S] by (metis option.exhaust prod_cases3)
next
  case (Waiting c)
  have o: "order_ok S s" "ap_ok S s c" using inv by (simp_all add: smp_inv_def)
  have "ap_at s c \<notin> {Reset, Crashed}" using o(1) Waiting by (auto simp: order_ok_def)
  then consider "ap_at s c = Entering" | "ap_at s c = Main" | "ap_at s c = Lapic_Ready" | "ap_at s c = Tables_Ready" | "ap_at s c = Up"
    by (cases "ap_at s c") auto
  then show ?thesis
  proof cases
    case 1
    then show ?thesis using smp_step.enter by blast
  next
    case 2
    then show ?thesis using smp_step.lapic [OF 2] smp_step.lapic_crash [OF 2] by (metis option.exhaust prod_cases3)
  next
    case 3
    then show ?thesis using smp_step.tables [OF 3] smp_step.tables_crash [OF 3] by (metis option.exhaust surj_pair)
  next
    case 4
    then show ?thesis using smp_step.up by blast
  next
    case 5
    then have "status_of s c = CPU_STARTED" using o(2) by (simp add: ap_ok_def)
    then show ?thesis using smp_step.seen [OF Waiting] by blast
  qed
next
  case Panic
  then show ?thesis using inv by (simp add: smp_inv_def order_ok_def)
qed (use b in simp)

lemma smp_completes:
  assumes r: "smp_ready S kd v0 R k0 s0" and "smp_run S s0 s"
  shows "\<exists>s'. smp_run S s0 s' \<and> boot_at s' = Booted"
  using assms(2)
proof (induction "smp_rank S s" arbitrary: s rule: less_induct)
  case less
  have inv: "smp_inv S kd v0 R k0 s" by (rule smp_run_inv [OF r less.prems])
  show ?case
  proof (cases "boot_at s = Booted")
    case True
    then show ?thesis using less.prems by blast
  next
    case False
    then obtain s1 where "smp_step S s s1" using smp_progress [OF inv] by blast
    then show ?thesis using less.hyps [OF smp_step_rank [OF inv]] smp_run.step [OF less.prems] by blast
  qed
qed

lemma smp_all_up:
  assumes inv: "smp_inv S kd v0 R k0 s" and b: "boot_at s = Booted" and c: "c < cpu_count S"
  shows "status_of s c = CPU_STARTED" "c \<noteq> boot_cpu S \<Longrightarrow> stack_of s c = Some (own_stack S c) \<and> cpu_ready (links S) c (regs_of s c)" "c \<in> with_tables S s"
proof -
  have "ap_at s = started_before S (cpu_count S)" "ap_ok S s c" using inv b by (simp_all add: smp_inv_def order_ok_def)
  then show "status_of s c = CPU_STARTED" "c \<noteq> boot_cpu S \<Longrightarrow> stack_of s c = Some (own_stack S c) \<and> cpu_ready (links S) c (regs_of s c)" "c \<in> with_tables S s"
    using c by (auto simp: ap_ok_def started_before_def with_tables_def)
qed

lemma smp_safe:
  assumes inv: "smp_inv S kd v0 R k0 s"
  shows "ap_at s c \<noteq> Crashed \<and> boot_at s \<noteq> Panic \<and>
    (ap_at s c \<notin> {Reset, Entering} \<longrightarrow> stack_of s c = Some (own_stack S c)) \<and>
    (\<forall>c'. ap_at s c \<notin> {Reset, Up} \<and> ap_at s c' \<notin> {Reset, Up} \<longrightarrow> c = c')"
proof -
  have o: "order_ok S s" "ap_ok S s c" using inv by (simp_all add: smp_inv_def)
  have "ap_at s c \<noteq> Crashed" using moving_ap(6) [OF o(1), of c] by auto
  moreover have "boot_at s \<noteq> Panic" using o(1) by (auto simp: order_ok_def)
  moreover have "c = c'" if "ap_at s c \<notin> {Reset, Up} \<and> ap_at s c' \<notin> {Reset, Up}" for c'
    using moving_ap(1) [OF o(1), of c] moving_ap(1) [OF o(1), of c'] that by simp
  ultimately show ?thesis using o(2) by (auto simp: ap_ok_def)
qed

lemma smp_stuck:
  assumes inv: "smp_inv S kd v0 R k0 s" and s: "\<nexists>s'. smp_step S s s'"
  shows "boot_at s = Booted" "c < cpu_count S \<Longrightarrow> status_of s c = CPU_STARTED \<and> gdt (desc s) ! (5 + c) = (tss_desc (links S) c)\<lparr>sd_type := STS_T32B\<rparr> \<and>
    ts_esp0 (cpu_ts (desc s) c) = KSTACKTOP - of_nat c * (KSTKGAP + KSTKSIZE) \<and>
    (c \<noteq> boot_cpu S \<longrightarrow> stack_of s c = Some (own_stack S c) \<and> cpu_ready (links S) c (regs_of s c))"
proof -
  show b: "boot_at s = Booted" using smp_progress inv s by blast
  have t: "tables_ok (links S) (with_tables S s) (desc s)" using inv by (simp add: smp_inv_def)
  assume "c < cpu_count S"
  note smp_all_up [OF inv b this]
  then show "status_of s c = CPU_STARTED \<and> gdt (desc s) ! (5 + c) = (tss_desc (links S) c)\<lparr>sd_type := STS_T32B\<rparr> \<and>
    ts_esp0 (cpu_ts (desc s) c) = KSTACKTOP - of_nat c * (KSTKGAP + KSTKSIZE) \<and>
    (c \<noteq> boot_cpu S \<longrightarrow> stack_of s c = Some (own_stack S c) \<and> cpu_ready (links S) c (regs_of s c))"
    using t unfolding tables_ok_def by blast
qed

end
