(* ===== verification/Kern_Console_Props.thy ===== *)
theory Kern_Console_Props
  imports Kern_Console
begin

unbundle bit_operations_syntax

text \<open>
  Facts about the console: the display is never written out of bounds, the input buffer is a queue of 511 characters, and
  the interrupt routines return.
\<close>

section \<open>The display\<close>

definition crt_ok :: "console \<Rightarrow> bool" where
  "crt_ok s \<longleftrightarrow> length (crt_buf s) = CRT_SIZE \<and> unat (crt_pos s) < CRT_SIZE"

lemma unat_crt_add: "unat p < 2000 \<Longrightarrow> k \<le> 2000 \<Longrightarrow> unat (p + of_nat k :: 16 word) = unat p + k"
  by (simp add: unat_word_ariths unat_of_nat)

lemma crt_scroll_ok:
  assumes "length (crt_buf s) = CRT_SIZE" "unat (crt_pos s) < CRT_SIZE + CRT_COLS"
  shows "crt_ok (crt_scroll s)"
proof (cases "unat (crt_pos s) \<ge> CRT_SIZE")
  case True
  have "(80 :: 16 word) \<le> crt_pos s" using True by (simp add: word_le_nat_alt)
  then have "unat (crt_pos s - 80) = unat (crt_pos s) - 80" by (simp add: unat_sub)
  then show ?thesis using assms True by (simp add: crt_scroll_def crt_ok_def)
qed (use assms in \<open>simp add: crt_scroll_def crt_ok_def\<close>)

lemma unat_line_start: "unat (p - p mod 80 :: 16 word) = unat p - unat p mod 80"
proof -
  have "p mod 80 \<le> p" by (simp add: word_le_nat_alt unat_mod_distrib)
  then show ?thesis by (simp add: unat_sub unat_mod_distrib)
qed

lemma cga_plain_ok:
  assumes "crt_ok s"
  shows "\<exists>s'. cga_plain c s = Some s' \<and> crt_ok s'"
proof -
  let ?c = "with_attribute c"
  have len: "length (crt_buf s) = 2000" "unat (crt_pos s) < 2000" using assms by (simp_all add: crt_ok_def)
  consider (erase) "?c AND 0xFF = 8" | (newline) "?c AND 0xFF = 10" | (return) "?c AND 0xFF = 13"
    | (char) "?c AND 0xFF \<noteq> 8" "?c AND 0xFF \<noteq> 10" "?c AND 0xFF \<noteq> 13" by blast
  then show ?thesis
  proof cases
    case erase
    show ?thesis
    proof (cases "crt_pos s > 0")
      case True
      then have "unat (crt_pos s - 1) = unat (crt_pos s) - 1" by (simp add: unat_minus_one word_neq_0_conv)
      then have "unat (crt_pos s - 1) < 2000" using len by simp
      then show ?thesis using erase True len by (simp add: cga_plain_def Let_def crt_write_def crt_scroll_ok)
    next
      case False
      then show ?thesis using erase len by (simp add: cga_plain_def Let_def crt_scroll_ok)
    qed
  next
    case newline
    have "unat (crt_pos s + 80) = unat (crt_pos s) + 80" using unat_crt_add [of "crt_pos s" 80] len by simp
    then have "unat (crt_pos s + 80 - (crt_pos s + 80) mod 80) < 2080" using len unat_line_start [of "crt_pos s + 80"] by simp
    then show ?thesis using newline len by (simp add: cga_plain_def Let_def crt_scroll_ok)
  next
    case return
    have "unat (crt_pos s - crt_pos s mod 80) < 2080" using len unat_line_start [of "crt_pos s"] by simp
    then show ?thesis using return len by (simp add: cga_plain_def Let_def crt_scroll_ok)
  next
    case char
    have "unat (crt_pos s + 1) = unat (crt_pos s) + 1" using unat_crt_add [of "crt_pos s" 1] len by simp
    then show ?thesis using char len by (simp add: cga_plain_def Let_def crt_write_def crt_scroll_ok)
  qed
qed

lemma crt_ok_ports [simp]: "crt_ok (serial_putc c s) = crt_ok s" "crt_ok (lpt_putc c s) = crt_ok s"
  by (simp_all add: crt_ok_def serial_putc_def lpt_putc_def)

lemma cons_putc_ok:
  assumes "crt_ok s"
  shows "\<exists>s'. cons_putc c s = Some s' \<and> crt_ok s'"
proof -
  have blank: "\<exists>s'. cons_putc_blank s = Some s' \<and> crt_ok s'" if "crt_ok s" for s
    using cga_plain_ok [of "lpt_putc 32 (serial_putc 32 s)"] that by (simp add: cons_putc_blank_def)
  have same: "crt_scroll s = s" if "crt_ok s" for s using that by (simp add: crt_ok_def crt_scroll_def)
  have tab: "\<exists>s'. cga_putc c s = Some s' \<and> crt_ok s'" if ok: "crt_ok s" and "with_attribute c AND 0xFF = 9" for s
  proof -
    obtain s1 where s1: "cons_putc_blank s = Some s1" "crt_ok s1" using blank [OF ok] by blast
    obtain s2 where s2: "cons_putc_blank s1 = Some s2" "crt_ok s2" using blank [OF s1(2)] by blast
    obtain s3 where s3: "cons_putc_blank s2 = Some s3" "crt_ok s3" using blank [OF s2(2)] by blast
    obtain s4 where s4: "cons_putc_blank s3 = Some s4" "crt_ok s4" using blank [OF s3(2)] by blast
    obtain s5 where s5: "cons_putc_blank s4 = Some s5" "crt_ok s5" using blank [OF s4(2)] by blast
    show ?thesis using that(2) s1(1) s2(1) s3(1) s4(1) s5 same [OF s5(2)] by (simp add: cga_putc_def)
  qed
  show ?thesis
  proof (cases "with_attribute c AND 0xFF = 9")
    case True
    then show ?thesis using tab [of "lpt_putc c (serial_putc c s)"] assms by (simp add: cons_putc_def)
  next
    case False
    then show ?thesis using cga_plain_ok [of "lpt_putc c (serial_putc c s)" c] assms by (simp add: cons_putc_def cga_putc_def)
  qed
qed

section \<open>The input buffer\<close>

definition ring_ok :: "console \<Rightarrow> bool" where
  "ring_ok s \<longleftrightarrow> length (cbuf s) = CONSBUFSIZE \<and> rpos s < CONSBUFSIZE \<and> wpos s < CONSBUFSIZE"

definition fill :: "console \<Rightarrow> nat" where
  "fill s = (wpos s + CONSBUFSIZE - rpos s) mod CONSBUFSIZE"

definition pending :: "console \<Rightarrow> 8 word list" where
  "pending s = map (\<lambda>i. cbuf s ! ((rpos s + i) mod CONSBUFSIZE)) [0..<fill s]"

lemma length_pending [simp]: "length (pending s) = fill s"
  by (simp add: pending_def)

lemma wrap_index: "(if Suc i = 512 then 0 else Suc i) = Suc i mod 512" if "i < 512" for i :: nat
  using that by (simp add: mod_Suc)

lemma cons_put_fields:
  assumes "ring_ok s"
  shows "cbuf (cons_put c s) = (cbuf s)[wpos s := word_of_int c]" "wpos (cons_put c s) = Suc (wpos s) mod 512"
    "rpos (cons_put c s) = rpos s" "ring_ok (cons_put c s)"
    "kbd_port (cons_put c s) = kbd_port s" "com_port (cons_put c s) = com_port s" "serial_exists (cons_put c s) = serial_exists s"
  using assms wrap_index [of "wpos s"] by (auto simp: cons_put_def Let_def ring_ok_def)

lemma fill_write:
  assumes "ring_ok s"
  shows "(rpos s + fill s) mod 512 = wpos s"
proof -
  have "(rpos s + (wpos s + 512 - rpos s) mod 512) mod 512 = (rpos s + (wpos s + 512 - rpos s)) mod 512" by (rule mod_add_right_eq)
  also have "rpos s + (wpos s + 512 - rpos s) = wpos s + 512" using assms by (simp add: ring_ok_def)
  finally show ?thesis using assms by (simp add: fill_def ring_ok_def)
qed

lemma cons_put_fill:
  assumes "ring_ok s"
  shows "fill (cons_put c s) = Suc (fill s) mod 512"
proof -
  have r: "rpos s < 512" "wpos s < 512" using assms by (simp_all add: ring_ok_def)
  have "fill (cons_put c s) = (Suc (wpos s) mod 512 + 512 - rpos s) mod 512" by (simp add: fill_def cons_put_fields [OF assms])
  also have "\<dots> = (Suc (wpos s) mod 512 + (512 - rpos s)) mod 512" using r by simp
  also have "\<dots> = (Suc (wpos s) + (512 - rpos s)) mod 512" by (rule mod_add_left_eq)
  also have "\<dots> = Suc (wpos s + 512 - rpos s) mod 512" using r by simp
  also have "\<dots> = Suc (fill s) mod 512" by (simp add: fill_def mod_Suc_eq)
  finally show ?thesis .
qed

lemma ring_distinct:
  assumes "i < k" "k < (512 :: nat)"
  shows "(r + i) mod 512 \<noteq> (r + k) mod 512"
proof
  assume "(r + i) mod 512 = (r + k) mod 512"
  then have "512 dvd (r + k) - (r + i)" using assms mod_eq_dvd_iff_nat [of "r + i" "r + k" 512] by simp
  then have "512 dvd k - i" by simp
  then show False using assms by (auto dest: dvd_imp_le)
qed

lemma cons_put_queue:
  assumes ok: "ring_ok s" and room: "fill s < 511"
  shows "pending (cons_put c s) = pending s @ [word_of_int c]"
proof -
  have f: "fill (cons_put c s) = Suc (fill s)" using cons_put_fill [OF ok] room by simp
  have "(cbuf s)[wpos s := word_of_int c] ! ((rpos s + i) mod 512) = cbuf s ! ((rpos s + i) mod 512)" if "i < fill s" for i
    using ring_distinct [of i "fill s" "rpos s"] that room fill_write [OF ok] by simp
  moreover have "(cbuf s)[wpos s := word_of_int c] ! ((rpos s + fill s) mod 512) = word_of_int c"
    using fill_write [OF ok] ok by (simp add: ring_ok_def)
  ultimately show ?thesis unfolding pending_def f by (simp add: cons_put_fields [OF ok])
qed

lemma cons_put_overflow:
  assumes "ring_ok s" "fill s = 511"
  shows "pending (cons_put c s) = []"
  using cons_put_fill [OF assms(1), of c] assms(2) by (simp add: pending_def)

lemma cons_pop_queue:
  assumes ok: "ring_ok s" and p: "pending s = x # xs"
  shows "\<exists>s'. cons_pop s = (uint x, s') \<and> pending s' = xs \<and> ring_ok s' \<and> kbd_port s' = kbd_port s \<and> com_port s' = com_port s"
proof -
  let ?s = "s\<lparr>rpos := Suc (rpos s) mod 512\<rparr>"
  have r: "rpos s < 512" "wpos s < 512" using ok by (simp_all add: ring_ok_def)
  have pos: "0 < fill s" using p length_pending [of s] by simp
  then have ne: "rpos s \<noteq> wpos s" by (auto simp: fill_def)
  have x: "cbuf s ! rpos s = x" using p pos r by (simp add: pending_def upt_conv_Cons)
  have "cons_pop s = (uint x, ?s)" using ne x wrap_index [OF r(1)] by (auto simp: cons_pop_def Let_def)
  moreover have "fill ?s = fill s - 1"
  proof (cases "Suc (rpos s) = 512")
    case True
    then show ?thesis using r ne by (simp add: fill_def)
  next
    case False
    then show ?thesis using r ne by (cases "rpos s < wpos s") (auto simp: fill_def mod_if)
  qed
  moreover have "pending ?s = xs"
  proof -
    have "(Suc (rpos s) mod 512 + i) mod 512 = (rpos s + Suc i) mod 512" for i by (simp add: mod_add_left_eq)
    then have "pending ?s = map (\<lambda>i. cbuf s ! ((rpos s + Suc i) mod 512)) [0..<fill s - 1]"
      unfolding pending_def calculation(2) by simp
    moreover have "[0..<fill s] = 0 # map Suc [0..<fill s - 1]" using pos by (simp add: upt_conv_Cons map_Suc_upt)
    ultimately show ?thesis using p by (simp add: pending_def comp_def)
  qed
  ultimately show ?thesis using ok by (auto simp: ring_ok_def)
qed

text \<open>The results of taking \<open>n\<close> elements out of a queue.\<close>

fun draw :: "('s \<Rightarrow> 'c \<times> 's) \<Rightarrow> nat \<Rightarrow> 's \<Rightarrow> 'c list" where
  "draw get 0 s = []"
| "draw get (Suc n) s = (let (c, s) = get s in c # draw get n s)"

text \<open>
  The interface of a bounded queue: the elements that it holds, as a list; \<open>put\<close> appends while there is room, and \<open>get\<close> takes the
  oldest one. Elements enter and leave as codes.
\<close>

locale bounded_queue =
  fixes ok :: "'s \<Rightarrow> bool" and holds :: "'s \<Rightarrow> 'a list" and capacity :: nat and code :: "'a \<Rightarrow> 'c"
    and put :: "'c \<Rightarrow> 's \<Rightarrow> 's" and get :: "'s \<Rightarrow> 'c \<times> 's"
  assumes put_ok: "ok s \<Longrightarrow> ok (put x s)"
    and put_holds: "ok s \<Longrightarrow> length (holds s) < capacity \<Longrightarrow> holds (put (code a) s) = holds s @ [a]"
    and get_first: "ok s \<Longrightarrow> holds s = a # as \<Longrightarrow> \<exists>s'. get s = (code a, s') \<and> ok s' \<and> holds s' = as"
begin

lemma put_all: "ok s \<Longrightarrow> length (holds s) + length as \<le> capacity \<Longrightarrow>
    ok (fold (\<lambda>a. put (code a)) as s) \<and> holds (fold (\<lambda>a. put (code a)) as s) = holds s @ as"
  by (induction as arbitrary: s) (simp_all add: put_ok put_holds)

lemma get_all: "ok s \<Longrightarrow> draw get (length (holds s)) s = map code (holds s)"
proof (induction "holds s" arbitrary: s)
  case (Cons a as)
  then obtain s' where "get s = (code a, s')" "ok s'" "holds s' = as" using get_first [of s a as] by auto
  then show ?case using Cons.hyps(1) [of s'] Cons.hyps(2) [symmetric] by simp
qed simp

lemma put_get:
  assumes "ok s" "length (holds s) + length as \<le> capacity"
  shows "draw get (length (holds s) + length as) (fold (\<lambda>a. put (code a)) as s) = map code (holds s @ as)"
  using put_all [OF assms] get_all [of "fold (\<lambda>a. put (code a)) as s"] by simp

end

interpretation ring: bounded_queue ring_ok pending 511 uint cons_put cons_pop
proof
  show "ring_ok s \<Longrightarrow> ring_ok (cons_put x s)" for x s by (rule cons_put_fields(4))
  show "ring_ok s \<Longrightarrow> length (pending s) < 511 \<Longrightarrow> pending (cons_put (uint a) s) = pending s @ [a]" for a s
    using cons_put_queue [of s "uint a"] by simp
  show "ring_ok s \<Longrightarrow> pending s = a # as \<Longrightarrow> \<exists>s'. cons_pop s = (uint a, s') \<and> ring_ok s' \<and> pending s' = as" for a as s
    using cons_pop_queue [of s a as] by blast
qed

section \<open>The interrupt routines return\<close>

lemma serial_intr_queue:
  assumes "ring_ok s" "fill s + length (filter (\<lambda>b. b \<noteq> 0) (com_port s)) < 512"
  shows "\<exists>s'. cons_intr serial_proc_data s = Some s' \<and> ring_ok s' \<and> pending s' = pending s @ filter (\<lambda>b. b \<noteq> 0) (com_port s) \<and>
    com_port s' = [] \<and> kbd_port s' = kbd_port s"
  using assms
proof (induction "com_port s" arbitrary: s)
  case Nil
  then show ?case by (simp add: cons_intr.simps serial_proc_data_def)
next
  case (Cons b bs)
  let ?s = "s\<lparr>com_port := bs\<rparr>"
  have proc: "serial_proc_data s = (uint b, ?s)" using Cons.hyps(2) [symmetric] by (simp add: serial_proc_data_def)
  have nn: "uint b \<noteq> - 1" using uint_nonnegative [of b] by linarith
  have ok: "ring_ok ?s" "pending ?s = pending s" "fill ?s = fill s" using Cons.prems by (simp_all add: ring_ok_def pending_def fill_def)
  show ?case
  proof (cases "b = 0")
    case True
    have "cons_intr serial_proc_data s = cons_intr serial_proc_data ?s"
      using True nn by (simp add: cons_intr.simps [of _ s] proc)
    then show ?thesis using Cons.hyps(1) [of ?s] ok Cons.prems(2) Cons.hyps(2) [symmetric] True by simp
  next
    case False
    then have nz: "uint b \<noteq> 0" by (simp add: uint_0_iff)
    let ?p = "cons_put (uint b) ?s"
    note put = cons_put_fields [OF ok(1), of "uint b"]
    have room: "fill ?s < 511" using Cons.prems(2) Cons.hyps(2) [symmetric] False ok(3) by simp
    have q: "pending ?p = pending s @ [b]" using cons_put_queue [OF ok(1) room, of "uint b"] ok(2) by simp
    have "fill ?p = Suc (fill s)" using cons_put_fill [OF ok(1)] room ok(3) by simp
    moreover have "cons_intr serial_proc_data s = cons_intr serial_proc_data ?p"
      using nz nn by (simp add: cons_intr.simps [of _ s] proc)
    ultimately show ?thesis using Cons.hyps(1) [of ?p] put q Cons.prems(2) Cons.hyps(2) [symmetric] False by simp
  qed
qed

text \<open>Keyboard data is read up to the first byte of the mouse, which stays and blocks what comes after it.\<close>

lemma key_press_fields: "kbd_port (snd (key_press d s)) = kbd_port s" "ring_ok (snd (key_press d s)) = ring_ok s" "0 \<le> fst (key_press d s)"
  by (simp_all add: key_press_def Let_def ring_ok_def)

lemma kbd_proc_cases:
  assumes "kbd_port s = (False, d) # rest"
  shows "kbd_port (snd (kbd_proc_data s)) = rest" "ring_ok (snd (kbd_proc_data s)) = ring_ok s" "0 \<le> fst (kbd_proc_data s)"
  using assms key_press_fields(1) [of _ "s\<lparr>kbd_port := rest\<rparr>"] key_press_fields(1) [of _ "s\<lparr>kbd_port := rest, shift := shift s AND NOT E0ESC\<rparr>"]
    key_press_fields(2) [of _ "s\<lparr>kbd_port := rest\<rparr>"] key_press_fields(2) [of _ "s\<lparr>kbd_port := rest, shift := shift s AND NOT E0ESC\<rparr>"]
    key_press_fields(3)
  by (simp_all add: kbd_proc_data_def Let_def) (simp_all add: ring_ok_def)

lemma kbd_intr_returns:
  assumes "ring_ok s"
  shows "\<exists>s'. kbd_intr s = Some s' \<and> ring_ok s' \<and> kbd_port s' = dropWhile (\<lambda>(mouse, _). \<not> mouse) (kbd_port s)"
  unfolding kbd_intr_def using assms
proof (induction "kbd_port s" arbitrary: s)
  case Nil
  then show ?case by (simp add: cons_intr.simps kbd_proc_data_def)
next
  case (Cons x rest)
  obtain mouse d where x: "x = (mouse, d)" by fastforce
  have port: "kbd_port s = (mouse, d) # rest" using Cons.hyps(2) x by simp
  show ?case
  proof (cases mouse)
    case True
    then show ?thesis using port Cons.prems by (simp add: cons_intr.simps kbd_proc_data_def)
  next
    case False
    obtain c t where t: "kbd_proc_data s = (c, t)" by fastforce
    have k: "kbd_port t = rest" "ring_ok t" "0 \<le> c" using kbd_proc_cases [of s d rest] port False t Cons.prems by simp_all
    note put = cons_put_fields [OF k(2), of c]
    have "cons_intr kbd_proc_data s = cons_intr kbd_proc_data (if c = 0 then t else cons_put c t)"
      using k(3) by (simp add: cons_intr.simps [of _ s] t)
    moreover have "\<exists>s'. cons_intr kbd_proc_data (if c = 0 then t else cons_put c t) = Some s' \<and> ring_ok s' \<and>
        kbd_port s' = dropWhile (\<lambda>(mouse, _). \<not> mouse) rest"
      using Cons.hyps(1) [of t] Cons.hyps(1) [of "cons_put c t"] k put by simp
    ultimately show ?thesis using port False by simp
  qed
qed

end
