(* ===== verification/Kern_Init.thy ===== *)
theory Kern_Init
  imports Kern_Smp Kern_Console_Props
begin

unbundle bit_operations_syntax

text \<open>
  The whole start of the kernel, \<^verbatim>\<open>i386_init\<close> of \<^verbatim>\<open>src/TP Sched/kern/init.c\<close>: the console, memory, environments, descriptors, the table of
  processors, the interrupt controllers, then the other processors, which run interleaved (\<^verbatim>\<open>Kern_Smp\<close>), and at last the programs and the
  scheduler. The boot processor takes the kernel lock before it starts the others and keeps it, so that they do not leave
  \<^verbatim>\<open>mp_main\<close> before the scheduler of the boot processor has chosen a program. The messages are left out.
\<close>

text \<open>
  The machine: the registers of the clock chip, the tables that the firmware left in memory, what the devices answer at the start, and
  the number of the boot processor at its interrupt controller; and what the linker decides.
\<close>

record platform =
  clock_regs :: "nat \<Rightarrow> 8 word"
  firmware_tables :: phys
  colour_display :: bool
  screen :: "bool \<Rightarrow> 16 word list"
  cursor_regs :: "8 word \<times> 8 word"
  line_status :: "8 word"
  lapic_id :: "32 word"
  lapic_version :: "nat \<Rightarrow> 32 word"
  lapic_waits :: "nat \<Rightarrow> 32 word list"

record build =
  symbols :: linked
  end_at :: "32 word"
  percpu_kstacks :: "32 word"
  mpentry_code :: "8 word list"
  program_images :: "string \<Rightarrow> image"

text \<open>
  Up to the loop of \<^verbatim>\<open>boot_aps\<close>. Before \<^verbatim>\<open>lapic_init\<close> has mapped the controller, \<^verbatim>\<open>cpunum\<close> is 0, so that \<^verbatim>\<open>trap_init\<close> uses the first stack and
  task state. \<open>ps\<close> are the registers of the processors.
\<close>

definition i386_init_boot :: "platform \<Rightarrow> build \<Rightarrow> console \<Rightarrow> (nat \<Rightarrow> processor) \<Rightarrow> kernel \<Rightarrow> (console \<times> pic \<times> smp_setup \<times> smp) option" where
  "i386_init_boot H B con ps k = do {
     let k = clear_bss k;
     (con, pic, _) \<leftarrow> cons_init (colour_display H) (screen H) (cursor_regs H) (line_status H) con pic_start;
     (base, k) \<leftarrow> mem_init (clock_regs H) (end_at B) (percpu_kstacks B) k;
     let k = env_init k;
     p \<leftarrow> env_init_percpu (symbols B) boot_tables (ps 0);
     (t, p) \<leftarrow> trap_init (symbols B) (cpunum None) boot_tables p;
     mp \<leftarrow> mp_init (firmware_tables H) (npages k) mp_zero;
     let la = of_nat (lapicaddr mp);
     let self = cpunum (if la = 0 then None else Some (lapic_id H));
     (_, base, k) \<leftarrow> lapic_init (self = bootcpu mp) (lapic_version H self) (lapic_waits H self) la base k;
     let (pic, _) = pic_init pic;
     k \<leftarrow> copy_mpentry (mpentry_code B) k;
     Some (con, pic,
       \<lparr>links = symbols B, kstacks_at = percpu_kstacks B, lapic_addr = la, ids = (\<lambda>c. cpu_id (cpus mp ! c)), cpu_count = ncpu mp,
        boot_cpu = self, lapic_ver = lapic_version H, lapic_answers = lapic_waits H\<rparr>,
       \<lparr>mpentry_kstack = 0, status_of = (\<lambda>c. if c < NCPU then cpu_state (cpus mp ! c) else CPU_UNUSED), boot_at = Looking 0, ap_at = (\<lambda>_. Reset),
        stack_of = (\<lambda>_. None), regs_of = ps(0 := p), desc = t, mmio_base = base, kern = k\<rparr>)
   }"

text \<open>After the loop.\<close>

definition i386_init_run :: "policy \<Rightarrow> build \<Rightarrow> nat \<Rightarrow> kernel \<Rightarrow> (outcome \<times> kernel) option" where
  "i386_init_run p B cpu k = do {
     k \<leftarrow> create_programs p (program_images B) k;
     Some (sched_yield p cpu k)
   }"

section \<open>The parts\<close>

lemma boot_window:
  assumes km: "kmap k kd ys" "kernel_mapped k kd np fp fe fk" and kd: "kern_pgdir k = kd" "7 < kd" and np: "upages np \<le> 128" and C: "C < length ys + 0xEF803"
  shows "device_window kd C k 0xEF803 k"
proof -
  have e: "\<And>u. u < 0xF0000 \<Longrightarrow> u div 1024 \<noteq> 957 \<Longrightarrow> u \<notin> {0xEF000..<0xEF000 + upages np} \<Longrightarrow> u \<notin> {0xEEC00..<0xEEC20} \<Longrightarrow>
      \<forall>i < 8. u \<notin> {stack_page i..<stack_page i + 8} \<Longrightarrow> entry k kd (page2pa u) = 0" using km(2) unfolding kernel_mapped_def by blast+
  have "entry k kd (page2pa u) = 0" if u: "u \<in> {0xEF803..<0xEFC00}" for u
  proof (rule e)
    have "u \<in> {0xEF800..<0xEFC00}" using u by auto
    then show "u div 1024 \<noteq> 957" using window_number by simp
    show "\<forall>i < 8. u \<notin> {stack_page i..<stack_page i + 8}" using u stack_bounds(2) by fastforce
  qed (use u np in auto)
  then show ?thesis using km(1) kd C kernel_mapped_mmio(2,3) [OF km(2) np] unfolding device_window_def by auto
qed

lemma window_env_init:
  assumes w: "device_window kd C k v k" and e: "envs k = replicate NENV blank_env"
  shows "device_window kd C (env_init k) v (env_init k)"
proof -
  have t: "env_init k = k\<lparr>envs := blank_table, env_free_list := Some 0\<rparr>" by (rule env_init_table [OF e])
  have "entry (env_init k) = entry k" unfolding t by (intro ext) (simp add: entry_def)
  then show ?thesis using w kmap_same [of "env_init k" k] unfolding device_window_def t by simp
qed

lemma window_copy:
  assumes w: "device_window kd C k0 v k" and c: "length code \<le> 4096"
  shows "\<exists>k'. copy_mpentry code k = Some k' \<and> device_window kd C k0 v k'"
proof -
  obtain ys where "kmap k kd ys" "7 < kd" using w by (auto simp: device_window_def)
  then have "7 < npages k" "7 < kd" using kmapD(2) [of k kd ys] by simp_all
  then show ?thesis using copy_mpentry_ok [OF c, of k] window_page [OF w, of 7] by (auto simp: table_page_def)
qed

lemma window_programs:
  assumes w: "device_window kd C k0 v k"
    and k0: "envs k0 = blank_table" "env_free_list k0 = Some 0" "cpu_env k0 = (\<lambda>_. None)" "aging_ticks k0 = 0"
  shows "\<exists>xs. programs cpu (- set xs) xs [] k \<and> C < length xs + v"
proof -
  obtain ys where ys: "kmap k kd ys" "C < length ys + v" using w by (auto simp: device_window_def)
  have K: "kern_pgdir k = kd" "\<forall>i < 955. pmem k kd i = 0" "machine.more k = machine.more k0" using w by (auto simp: device_window_def)
  have f: "envs k = blank_table" "env_free_list k = Some 0" "cpu_env k = (\<lambda>_. None)" "aging_ticks k = 0" using more_kernel [OF K(3)] k0 by simp_all
  have b: "boot_inv k ys" "kern_pgdir k \<notin> set ys" using kmapD(1,3) [OF ys(1)] K(1) by simp_all
  have "kern_inv cpu (- set ys) k" "dirs k = {}" using blank_table_inv [OF f(1,2) b _ f(3)] K(1,2) by blast+
  then have "programs cpu (- set ys) ys [] k"
    unfolding programs_def using f b(1) blank_table_nth by (simp add: boot_inv_def blank_env_def)
  then show ?thesis using ys(2) by blast
qed

lemma window_mono: "device_window kd C k0 v k \<Longrightarrow> C' \<le> C \<Longrightarrow> device_window kd C' k0 v k"
  by (auto simp: device_window_def)

text \<open>The table of processors: one processor is marked as started, the boot processor.\<close>

lemma mp_entries_unused:
  assumes "cpus_ok s" "\<forall>c < 8. cpu_state (cpus s ! c) = CPU_UNUSED"
  shows "cpus_ok (mp_entries m n p s) \<and> (\<forall>c < 8. cpu_state (cpus (mp_entries m n p s) ! c) = CPU_UNUSED)"
  using assms
proof (induction m n p s rule: mp_entries.induct)
  case (2 m n p s)
  have "\<forall>c < 8. cpu_state (cpus (mp_proc f s) ! c) = CPU_UNUSED" for f
    using 2(3,4) by (auto simp: mp_proc_def Let_def cpus_ok_def nth_list_update)
  then show ?case using 2 mp_proc_ok(1) [OF 2(3)] by (auto simp: cpus_ok_def)
qed simp

lemma mp_init_cpus:
  assumes mp: "mp_init m np mp_zero = Some s" and n: "0 < ncpu s"
  shows "ncpu s \<le> 8" "c < 8 \<Longrightarrow> cpu_state (cpus s ! c) = CPU_STARTED \<longleftrightarrow> c = bootcpu s"
proof -
  let ?z = "mp_zero\<lparr>bootcpu := 0\<rparr>"
  obtain r where r: "mpconfig m np = Some r" using mp by (auto simp: mp_init_def Let_def bind_eq_Some_conv)
  show "ncpu s \<le> 8" "c < 8 \<Longrightarrow> cpu_state (cpus s ! c) = CPU_STARTED \<longleftrightarrow> c = bootcpu s"
  proof (atomize (full), cases r)
    case None
    then show "ncpu s \<le> 8 \<and> (c < 8 \<longrightarrow> (cpu_state (cpus s ! c) = CPU_STARTED \<longleftrightarrow> c = bootcpu s))" using mp n r by (auto simp: mp_init_def mp_zero_def)
  next
    case (Some x)
    obtain conf a where x: "x = (conf, a)" by fastforce
    let ?s = "mp_entries m (get16 m (conf + 34)) (conf + 44) (?z\<lparr>ismp := True, lapicaddr := get32 m (conf + 36)\<rparr>)"
    have z: "cpus_ok (?z\<lparr>ismp := True, lapicaddr := get32 m (conf + 36)\<rparr>)" "\<forall>c < 8. cpu_state (cpus (?z\<lparr>ismp := True, lapicaddr := get32 m (conf + 36)\<rparr>) ! c) = CPU_UNUSED"
      by (auto simp: cpus_ok_def mp_zero_def)
    note U = mp_entries_unused [OF z]
    show "ncpu s \<le> 8 \<and> (c < 8 \<longrightarrow> (cpu_state (cpus s ! c) = CPU_STARTED \<longleftrightarrow> c = bootcpu s))"
      using mp U [of m "get16 m (conf + 34)" "conf + 44"] unfolding mp_init_def r Some x
      by (auto simp: Let_def cpus_ok_def nth_list_update split: if_splits bind_splits)
  qed
qed

section \<open>Everything together\<close>

text \<open>
  What the start relies on: enough memory for the kernel and the programs, well-formed images, a boot processor in kernel mode with number 0 that
  the firmware lists, and controllers that deliver interrupt commands.
\<close>

definition can_start :: "policy \<Rightarrow> platform \<Rightarrow> build \<Rightarrow> mp_state \<Rightarrow> console \<Rightarrow> (nat \<Rightarrow> processor) \<Rightarrow> bool" where
  "can_start p H B mp con ps \<longleftrightarrow> enough_memory (clock_regs H) (end_at B) (percpu_kstacks B) \<and> length (mpentry_code B) \<le> 4096 \<and>
     (\<forall>(b, _) \<in> set (initial_programs p (program_images B)). image_ok b) \<and>
     programs_cost p (program_images B) + NCPU + 1 < spare_pages (clock_regs H) (end_at B) \<and>
     mp_init (firmware_tables H) (unat (fst (i386_detect_memory (clock_regs H)))) mp_zero = Some mp \<and> 0 < ncpu mp \<and> bootcpu mp = 0 \<and>
     cpunum (Some (lapic_id H)) = 0 \<and> (\<forall>c. wait_delivered (lapic_waits H c) \<noteq> None) \<and> ring_ok con \<and> cpl (ps 0) = 0"

lemma cons_init_ok: "ring_ok con \<Longrightarrow> \<exists>con' i' ws. cons_init colour txt cur lsr con i = Some (con', i', ws)"
proof -
  assume "ring_ok con"
  then have "ring_ok (fst (cga_init colour txt cur con))" by (simp add: cga_init_def ring_ok_def)
  then obtain c where "kbd_intr (fst (cga_init colour txt cur con)) = Some c" using kbd_intr_returns by blast
  then show ?thesis by (auto simp: cons_init_def kbd_init_def split: prod.splits)
qed

lemma boot_memory:
  assumes enough: "enough_memory cmos kend kstacks" and C: "C < spare_pages cmos kend + 0xEF803"
  shows "\<exists>k1. mem_init cmos kend kstacks (clear_bss k) = Some (page2pa 0xEF803, k1) \<and> npages (env_init k1) = unat (fst (i386_detect_memory cmos)) \<and>
    device_window (kernel_end kend) C (env_init k1) 0xEF803 (env_init k1) \<and> envs (env_init k1) = blank_table \<and> env_free_list (env_init k1) = Some 0 \<and>
    cpu_env (env_init k1) = (\<lambda>_. None) \<and> aging_ticks (env_init k1) = 0"
proof -
  let ?e = "kernel_end kend" and ?np = "unat (fst (i386_detect_memory cmos))"
  have fl: "page_free_list (clear_bss k) = None" by (simp add: clear_bss_def)
  have b: "page2pa 0xEF803 = MMIOBASE + 0x3000" by (simp add: page2pa_def push_bit_eq_mult)
  obtain k1 ys where k1: "mem_init cmos kend kstacks (clear_bss k) = Some (MMIOBASE + 0x3000, k1)" "kmap k1 ?e ys"
    "npages k1 \<le> length ys + first_free (npages k1) ?e" "npages k1 = ?np"
    "kernel_mapped k1 ?e (npages k1) (?e + 1) (?e + 1 + upages (npages k1)) (unat (kstacks - KERNBASE) div 4096)"
    "machine.more k1 = machine.more (clear_bss k\<lparr>kern_pgdir := ?e, envs := replicate NENV blank_env\<rparr>)"
    using mem_init_enough [OF enough fl] by blast
  have K: "kern_pgdir k1 = ?e" "envs k1 = replicate NENV blank_env" "cpu_env k1 = (\<lambda>_. None)" "aging_ticks k1 = 0"
    using more_kernel [OF k1(6)] by (simp_all add: clear_bss_def)
  have en: "first_free ?np ?e + 80 < ?np" "?np \<le> 0x10000" using enough by (simp_all add: enough_memory_def Let_def)
  have up: "upages (npages k1) \<le> 128" using roundup_pages(2) [of "npages k1"] k1(4) en(2) by simp
  have "256 \<le> ?e" using kernel_end_page(2) [of kend] enough en by (simp add: enough_memory_def Let_def)
  moreover have "C < length ys + 0xEF803" using C k1(3,4) by (simp add: spare_pages_def Let_def)
  ultimately have w: "device_window ?e C k1 0xEF803 k1" using boot_window [OF k1(2,5) K(1) _ up] by simp
  have t: "env_init k1 = k1\<lparr>envs := blank_table, env_free_list := Some 0\<rparr>" by (rule env_init_table [OF K(2)])
  have "npages (env_init k1) = ?np" "envs (env_init k1) = blank_table" "env_free_list (env_init k1) = Some 0" "cpu_env (env_init k1) = (\<lambda>_. None)" "aging_ticks (env_init k1) = 0"
    unfolding t using k1(4) K(3,4) by (simp_all add: npages_def)
  then show ?thesis using k1(1) window_env_init [OF w K(2)] unfolding b by blast
qed

lemma start_ready:
  assumes st: "can_start p H B mp con ps"
  shows "\<exists>con' pic' S s0 kd v0 k0. i386_init_boot H B con ps k = Some (con', pic', S, s0) \<and> smp_ready S kd v0 (programs_cost p (program_images B)) k0 s0 \<and>
    cpu_count S = ncpu mp \<and> boot_cpu S = 0 \<and> envs k0 = blank_table \<and> env_free_list k0 = Some 0 \<and> cpu_env k0 = (\<lambda>_. None) \<and> aging_ticks k0 = 0"
proof -
  let ?R = "programs_cost p (program_images B)" and ?la = "of_nat (lapicaddr mp) :: 32 word"
  let ?C = "0xEF804 + NCPU + ?R"
  note st' = st [unfolded can_start_def]
  have m: "ncpu mp \<le> 8" "\<And>c. c < 8 \<Longrightarrow> cpu_state (cpus mp ! c) = CPU_STARTED \<longleftrightarrow> c = 0" using mp_init_cpus [of "firmware_tables H" _ mp] st' by auto
  have self: "cpunum (Some (lapic_id H)) = 0" "cpunum None = 0" "bootcpu mp = 0" using st' by (simp_all add: cpunum_def)
  have C: "?C < spare_pages (clock_regs H) (end_at B) + 0xEF803" using st' by simp
  obtain con' i1 ws1 where con: "cons_init (colour_display H) (screen H) (cursor_regs H) (line_status H) con pic_start = Some (con', i1, ws1)" using cons_init_ok st' by blast
  obtain k1 where k1: "mem_init (clock_regs H) (end_at B) (percpu_kstacks B) (clear_bss k) = Some (page2pa 0xEF803, k1)"
    "npages (env_init k1) = unat (fst (i386_detect_memory (clock_regs H)))"
    "device_window (kernel_end (end_at B)) ?C (env_init k1) 0xEF803 (env_init k1)" "envs (env_init k1) = blank_table" "env_free_list (env_init k1) = Some 0"
    "cpu_env (env_init k1) = (\<lambda>_. None)" "aging_ticks (env_init k1) = 0"
    using boot_memory [OF _ C] st' by blast
  obtain p0 t p1 where t: "env_init_percpu (symbols B) boot_tables (ps 0) = Some p0" "trap_init (symbols B) 0 boot_tables p0 = Some (t, p1)" "tables_ok (symbols B) {0} t"
    using boot_tables_exist [of "ps 0" 0 "symbols B"] boot_tables_ready(1) [of "ps 0" 0 "symbols B"] st' by (metis zero_less_numeral)
  have a: "wait_delivered (lapic_waits H 0) \<noteq> None" using st' by blast
  obtain ws n k2 where k2: "lapic_init True (lapic_version H 0) (lapic_waits H 0) ?la (page2pa 0xEF803) (env_init k1) = Some (ws, page2pa (0xEF803 + n), k2)"
    "n \<le> 1" "device_window (kernel_end (end_at B)) ?C (env_init k1) (0xEF803 + n) k2"
    using window_lapic [OF k1(3) _ _ a, of True "lapic_version H 0" ?la] by auto
  obtain k3 where k3: "copy_mpentry (mpentry_code B) k2 = Some k3" "device_window (kernel_end (end_at B)) ?C (env_init k1) (0xEF803 + n) k3"
    using window_copy [OF k2(3)] st' by blast
  have w: "device_window (kernel_end (end_at B)) (0xEF803 + n + ncpu mp + ?R) (env_init k1) (0xEF803 + n) k3"
    by (rule window_mono [OF k3(2)]) (use m(1) k2(2) in simp)
  obtain i2 ws2 where i2: "pic_init i1 = (i2, ws2)" by fastforce
  have mi: "mp_init (firmware_tables H) (npages (env_init k1)) mp_zero = Some mp" using st' k1(2) by simp
  let ?S = "\<lparr>links = symbols B, kstacks_at = percpu_kstacks B, lapic_addr = ?la, ids = (\<lambda>c. cpu_id (cpus mp ! c)), cpu_count = ncpu mp,
        boot_cpu = 0, lapic_ver = lapic_version H, lapic_answers = lapic_waits H\<rparr>"
  let ?s = "\<lparr>mpentry_kstack = 0, status_of = (\<lambda>c. if c < 8 then cpu_state (cpus mp ! c) else CPU_UNUSED), boot_at = Looking 0, ap_at = (\<lambda>_. Reset),
        stack_of = (\<lambda>_. None), regs_of = ps(0 := p1), desc = t, mmio_base = page2pa (0xEF803 + n), kern = k3\<rparr>"
  have "i386_init_boot H B con ps k = Some (con', i2, ?S, ?s)"
    unfolding i386_init_boot_def Let_def using con k1(1) t(1,2) mi k2(1) i2 k3(1) self by (cases "?la = 0") simp_all
  moreover have "smp_ready ?S (kernel_end (end_at B)) (0xEF803 + n) ?R (env_init k1) ?s" using m t(3) w st' k2(2) by (auto simp: smp_ready_def)
  ultimately show ?thesis using k1(4-7) by (intro exI [of _ con'] exI [of _ i2] exI [of _ ?S] exI [of _ ?s]) auto
qed

lemma programs_run:
  assumes "programs cpu K xs [] k" "\<forall>(b, _) \<in> set (initial_programs p (program_images B)). image_ok b" "programs_cost p (program_images B) \<le> length xs"
  shows "\<exists>k'. i386_init_run p B cpu k = Some (Run (first_env p), k') \<and> kern_inv cpu K k' \<and> cpu_env k' cpu = Some (first_env p) \<and>
    env_status (envs k' ! first_env p) = ENV_RUNNING \<and> (\<forall>e < 4. holds_program k' e (fst (initial_programs p (program_images B) ! e)))"
proof -
  let ?ip = "initial_programs p (program_images B)"
  obtain k4 ys where k4: "create_programs p (program_images B) k = Some k4" "programs cpu K ys ?ip k4" using create_programs_ok [OF assms] by blast
  obtain k' where k': "sched_yield p cpu k4 = (Run (first_env p), k')" "kern_inv cpu K k'" "cpu_env k' cpu = Some (first_env p)"
    "env_status (envs k' ! first_env p) = ENV_RUNNING"
    using first_runs [OF k4(2)] unfolding first_env_def by blast
  have sv: "saved k' = saved k4" using saved_yield [of p cpu k4] k'(1) by simp
  have "holds_program k' e (fst (?ip ! e))" if "e < 4" for e
  proof (rule ready_holds [OF _ sv])
    show "ready k4 e (?ip ! e)" using programsD(7) [OF k4(2)] that by (simp add: initial_programs_length)
    show "e < length (envs k4)" unfolding programsD(10) [OF k4(2)] using that by simp
  qed
  then show ?thesis using k4(1) k' by (auto simp: i386_init_run_def)
qed

lemma booted_runs:
  assumes inv: "smp_inv S kd v0 R k0 s" and b: "boot_at s = Booted"
    and k0: "envs k0 = blank_table" "env_free_list k0 = Some 0" "cpu_env k0 = (\<lambda>_. None)" "aging_ticks k0 = 0"
  shows "\<exists>xs. programs cpu (- set xs) xs [] (kern s) \<and> R < length xs"
proof -
  obtain v where v: "v \<le> v0 + cpu_count S" "device_window kd (v0 + cpu_count S + R) k0 v (kern s)" using inv b by (auto simp: smp_inv_def window_ok_def lapics_def)
  obtain xs where "programs cpu (- set xs) xs [] (kern s)" "v0 + cpu_count S + R < length xs + v" using window_programs [OF v(2) k0] by blast
  then show ?thesis using v(1) by auto
qed

end
