(* ===== verification/Kern_Boot_Theorems.thy ===== *)
theory Kern_Boot_Theorems
  imports Kern_Start
begin

unbundle bit_operations_syntax

text \<open>
  The properties of the start of the kernel: the layout of memory that \<^verbatim>\<open>mem_init\<close> sets up, the protection of the kernel from the
  programs and the loading of a program.
\<close>

section \<open>The layout of memory\<close>






text \<open>A machine with 128 megabytes of memory and a kernel that ends two megabytes above \<^verbatim>\<open>KERNBASE\<close>.\<close>

definition sample_cmos :: "nat \<Rightarrow> 8 word" where
  "sample_cmos r = (if r = 0x35 then 7 else 0)"

lemma sample_memory: "unat (fst (i386_detect_memory sample_cmos)) = 32768" "kernel_end 0xF0200000 = 512" "upages 32768 = 64"
  "spare_pages sample_cmos 0xF0200000 = 32159"
proof -
  show a: "unat (fst (i386_detect_memory sample_cmos)) = 32768" "kernel_end 0xF0200000 = 512" "upages 32768 = 64"
    by (simp_all add: i386_detect_memory_def nvram_read_def sample_cmos_def kernel_end_def upages_def Let_def)
  show "spare_pages sample_cmos 0xF0200000 = 32159" unfolding spare_pages_def Let_def a by simp
qed

lemma sample_enough: "enough_memory sample_cmos 0xF0200000 0xF0180000"
  unfolding enough_memory_def Let_def sample_memory by simp


section \<open>Protection\<close>



lemma boot_then_env_init:
  assumes "enough_memory cmos kend kstacks"
  shows "\<exists>k1 ys. mem_init cmos kend kstacks (clear_bss k) = Some (MMIOBASE + 0x3000, k1) \<and> env_init k1 = k1\<lparr>envs := blank_table, env_free_list := Some 0\<rparr> \<and>
    kern_inv cpu (- set ys) (env_init k1) \<and> dirs (env_init k1) = {} \<and> mem_inv (env_init k1) {} (- set ys) ys (\<lambda>_. 0) \<and> ys \<noteq> [] \<and>
    spare_pages cmos kend \<le> length ys"
proof -
  have fl: "page_free_list (clear_bss k) = None" by (simp add: clear_bss_def)
  let ?kd = "kernel_end kend"
  obtain k1 ys where k1: "mem_init cmos kend kstacks (clear_bss k) = Some (MMIOBASE + 0x3000, k1)" "kmap k1 ?kd ys"
    "npages k1 \<le> length ys + first_free (npages k1) ?kd" "npages k1 = unat (fst (i386_detect_memory cmos))"
    "kernel_mapped k1 ?kd (npages k1) (?kd + 1) (?kd + 1 + upages (npages k1)) (unat (kstacks - KERNBASE) div 4096)"
    "machine.more k1 = machine.more (clear_bss k\<lparr>kern_pgdir := ?kd, envs := replicate NENV blank_env\<rparr>)"
    using mem_init_enough [OF assms(1) fl] by blast
  have K: "kern_pgdir k1 = ?kd" "envs k1 = replicate NENV blank_env" "cpu_env k1 = (\<lambda>_. None)" using more_kernel [OF k1(6)] by (simp_all add: clear_bss_def)
  note tab = env_init_table [OF K(2)]
  have up: "upages (npages k1) \<le> 128" using roundup_pages(2) assms(1) k1(4) by (simp add: enough_memory_def Let_def)
  have bi: "boot_inv (env_init k1) ys" using kmapD(1) [OF k1(2)] boot_inv_mem [of "env_init k1" k1] unfolding tab by simp
  note B = blank_table_inv [OF _ _ bi]
  have I: "kern_inv cpu (- set ys) (env_init k1)" "dirs (env_init k1) = {}"
    by (rule B; use kmapD(3) [OF k1(2)] kernel_mapped_mmio(3) [OF k1(5) up] K in \<open>simp add: tab\<close>)+
  moreover have "ys \<noteq> []" using k1(3,4) assms by (auto simp: enough_memory_def Let_def)
  moreover have "spare_pages cmos kend \<le> length ys" using k1(3,4) by (simp add: spare_pages_def Let_def)
  ultimately show ?thesis using k1(1) tab bi unfolding boot_inv_def by (intro exI [of _ k1] exI [of _ ys]) simp
qed


section \<open>Loading a program\<close>

text \<open>
  C24. \<^verbatim>\<open>env_create\<close> loads a program: with a free environment, enough free pages and a well-formed image, whose segments lie below
  \<^verbatim>\<open>UTOP\<close>, on pages of their own, and are not longer in the file than in memory, the call succeeds and keeps the kernel
  consistent. The new environment can run, with the highest priority and the entry point of the image. Through its page tables it
  sees in each segment the bytes of the file and zeros after them; its segments and one page of stack are mapped, and nothing else.
  The other environments and their memory are as before.
\<close>

theorem env_create_loads:
  assumes "kern_inv cpu K k" and "mem_inv k (dirs k) K xs (\<lambda>_. 0)" and "env_free_list k = Some e"
    and "image_ok b" and "image_cost b \<le> length xs"
  shows "\<exists>k' d. env_create b type k = Some (e, k') \<and> kern_inv cpu K k' \<and> env_pgdir (envs k' ! e) = Some d \<and>
    env_status (envs k' ! e) = ENV_RUNNABLE \<and> priority (envs k' ! e) = MAX_PRIORITY \<and> env_type (envs k' ! e) = type \<and>
    env_tf (envs k' ! e) = user_tf\<lparr>tf_eip := e_entry (elf_at b)\<rparr> \<and>
    (\<forall>ph \<in> set (loadable (proghdrs b)). \<forall>i < unat (p_memsz ph). load_byte d (p_va ph + of_nat i) k' =
       Some (if i < unat (p_filesz ph) then b (unat (p_offset ph) + i) else 0)) \<and>
    (\<forall>a < UTOP. load_byte d a k' \<noteq> None \<longleftrightarrow> PGNUM a \<in> set (seg_pages (proghdrs b)) \<or> PGNUM a = PGNUM (USTACKTOP - PGSIZE)) \<and>
    (\<forall>f d'. f \<noteq> e \<and> used k f \<and> env_pgdir (envs k ! f) = Some d' \<longrightarrow> envs k' ! f = envs k ! f \<and>
       (\<forall>a < UTOP. load_byte d' a k' = load_byte d' a k))"
proof -
  obtain k' d ys where k': "env_create b type k = Some (e, k')" "kern_inv cpu K k'" "mem_inv k' (dirs k') K ys (\<lambda>_. 0)" "d \<in> dirs k'"
    "envs k' = (envs k)[e := created_env b type e d (envs k ! e)]" "space_loaded b d k'" "\<forall>d' \<in> dirs k. same_space d' k k'" "dirs k \<subseteq> dirs k'"
    using env_create_ok [OF assms, of type] by (elim exE conjE DiffE) (rule that)
  have e: "envs k' ! e = created_env b type e d (envs k ! e)" using k'(5) free_env_bound(1) [OF assms(1,3)] kern_invD(5) [OF assms(1)] by simp
  have "load_byte d (p_va ph + of_nat i) k' = Some (if i < unat (p_filesz ph) then b (unat (p_offset ph) + i) else 0)"
    if ph: "ph \<in> set (loadable (proghdrs b))" and i: "i < unat (p_memsz ph)" for ph i
  proof -
    have "seg_ok ph" using assms(4) ph by (auto simp: image_ok_def list_all_iff)
    then have a: "unat (p_va ph + of_nat i) = unat (p_va ph) + i" "p_va ph + of_nat i < UTOP"
      using i by (simp_all add: seg_ok_def unat_word_ariths unat_of_nat word_less_nat_alt)
    have "seg_loaded b d k' ph" using k'(6) ph by (simp add: space_loaded_def)
    then have "umem k' d (p_va ph + of_nat i) = Some (seg_byte b ph i)" using a(1) i unfolding seg_loaded_def by simp
    then show ?thesis unfolding load_byte_umem [OF k'(3,4) a(2)] by (simp add: seg_byte_def)
  qed
  moreover have "load_byte d a k' \<noteq> None \<longleftrightarrow> PGNUM a \<in> set (seg_pages (proghdrs b)) \<or> PGNUM a = PGNUM (USTACKTOP - PGSIZE)" if "a < UTOP" for a
  proof -
    have "PGNUM (USTACKTOP - PGSIZE) = 977917" by (simp add: PGNUM_div)
    moreover have "if PGNUM a \<in> set (977917 # seg_pages (proghdrs b)) then entry k' d a AND 7 = 7 else entry k' d a = 0"
      using k'(6) that by (simp add: space_loaded_def)
    ultimately show ?thesis unfolding load_byte_umem [OF k'(3,4) that] umem_def using and_7(3) [of "entry k' d a"] by (auto split: if_splits)
  qed
  moreover have old: "envs k' ! f = envs k ! f \<and> (\<forall>a < UTOP. load_byte d' a k' = load_byte d' a k)"
    if "f \<noteq> e" "used k f" "env_pgdir (envs k ! f) = Some d'" for f d'
  proof -
    have d': "d' \<in> dirs k" using kern_invD(9) [OF assms(1) that(2)] that(3) by simp
    then have "load_byte d' a k' = load_byte d' a k" if "a < UTOP" for a
      using k'(7,8) that load_byte_umem [OF k'(3) _ that, of d'] load_byte_umem [OF assms(2) d' that] by (auto simp: same_space_def)
    then show ?thesis using k'(5) that(1) by simp
  qed
  moreover have "\<forall>f d'. f \<noteq> e \<and> used k f \<and> env_pgdir (envs k ! f) = Some d' \<longrightarrow> envs k' ! f = envs k ! f \<and>
       (\<forall>a < UTOP. load_byte d' a k' = load_byte d' a k)" using old by blast
  ultimately show ?thesis
    using k'(1,2) e by (intro exI [of _ k'] exI [of _ d] conjI) (simp_all add: created_env_def fresh_env_def)
qed

text \<open>A program of three bytes in a segment of two pages, the first of which it shares with nothing else.\<close>

definition sample_image :: image where
  "sample_image a = (if a < 87 then
    [127, 69, 76, 70, 0, 0, 0, 0, 0, 0, 0, 0, 0, 0, 0, 0, 2, 0, 3, 0, 1, 0, 0, 0, 32, 0, 128, 0, 52, 0, 0, 0, 0, 0,
     0, 0, 0, 0, 0, 0, 52, 0, 32, 0, 1, 0, 0, 0, 0, 0, 0, 0, 1, 0, 0, 0, 84, 0, 0, 0, 32, 0, 128, 0, 32, 0, 128, 0,
     3, 0, 0, 0, 0, 32, 0, 0, 5, 0, 0, 0, 0, 16, 0, 0, 184, 42, 0] ! a else 0)"

lemma sample_image_header:
  "e_magic (elf_at sample_image) = ELF_MAGIC" "e_entry (elf_at sample_image) = 0x800020"
  "proghdrs sample_image = [\<lparr>p_type = 1, p_offset = 84, p_va = 0x800020, p_pa = 0x800020, p_filesz = 3, p_memsz = 0x2000, p_flags = 5, p_align = 0x1000\<rparr>]"
  by (simp_all add: elf_at_def proghdrs_def proghdr_at_def long_at_def half_at_def sample_image_def)

lemma sample_image_ok: "image_ok sample_image" "image_cost sample_image = 7"
  unfolding image_ok_def image_cost_def seg_cost_def seg_pages_def loadable_def sample_image_header
  by (simp_all add: seg_ok_def first_page_def range_pages_def range_cost_def upt_rec)


theorem env_create_loads_witness:
  "\<forall>k. \<exists>base k1 k' d. mem_init sample_cmos 0xF0200000 0xF0180000 (clear_bss k) = Some (base, k1) \<and>
     env_create sample_image ENV_TYPE_USER (env_init k1) = Some (0, k') \<and> env_pgdir (envs k' ! 0) = Some d \<and>
     tf_eip (env_tf (envs k' ! 0)) = 0x800020 \<and> load_byte d 0x800021 k' = Some 0x2A \<and> load_byte d 0x801000 k' = Some 0 \<and>
     load_byte d 0x900000 k' = None"
proof
  fix k
  obtain k1 ys where k1: "mem_init sample_cmos 0xF0200000 0xF0180000 (clear_bss k) = Some (MMIOBASE + 0x3000, k1)" "env_init k1 = k1\<lparr>envs := blank_table, env_free_list := Some 0\<rparr>"
    "kern_inv 0 (- set ys) (env_init k1)" "dirs (env_init k1) = {}" "mem_inv (env_init k1) {} (- set ys) ys (\<lambda>_. 0)" "spare_pages sample_cmos 0xF0200000 \<le> length ys"
    using boot_then_env_init [OF sample_enough, of k 0] by blast
  have fl: "env_free_list (env_init k1) = Some 0" unfolding k1(2) by simp
  have len: "image_cost sample_image \<le> length ys" using k1(6) unfolding sample_memory sample_image_ok by simp
  let ?ph = "\<lparr>p_type = 1, p_offset = 84, p_va = 0x800020, p_pa = 0x800020, p_filesz = 3, p_memsz = 0x2000, p_flags = 5, p_align = 0x1000\<rparr> :: proghdr"
  have lo: "loadable (proghdrs sample_image) = [?ph]" "seg_pages (proghdrs sample_image) = [2048, 2049, 2050]"
    by (simp_all add: sample_image_header loadable_def seg_pages_def first_page_def range_pages_def upt_rec)
  have mi: "mem_inv (env_init k1) (dirs (env_init k1)) (- set ys) ys (\<lambda>_. 0)" using k1(4,5) by simp
  obtain k' d where k': "env_create sample_image ENV_TYPE_USER (env_init k1) = Some (0, k')" "env_pgdir (envs k' ! 0) = Some d"
    "env_tf (envs k' ! 0) = user_tf\<lparr>tf_eip := e_entry (elf_at sample_image)\<rparr>"
    "\<forall>ph \<in> set [?ph]. \<forall>i < unat (p_memsz ph). load_byte d (p_va ph + of_nat i) k' =
       Some (if i < unat (p_filesz ph) then sample_image (unat (p_offset ph) + i) else 0)"
    "\<forall>a < UTOP. load_byte d a k' \<noteq> None \<longleftrightarrow> PGNUM a \<in> set [2048, 2049, 2050] \<or> PGNUM a = PGNUM (USTACKTOP - PGSIZE)"
    using env_create_loads [OF k1(3) mi fl sample_image_ok(1) len, of ENV_TYPE_USER, unfolded lo] by (elim exE conjE) (rule that)
  have bt: "\<forall>i < 0x2000. load_byte d (0x800020 + of_nat i) k' = Some (if i < 3 then sample_image (84 + i) else 0)"
    using bspec [OF k'(4), of ?ph] by simp
  have "load_byte d 0x800021 k' = Some 0x2A" "load_byte d 0x801000 k' = Some 0"
    using bt [THEN spec, of 1] bt [THEN spec, of "0xFE0"] by (simp_all add: sample_image_def)
  moreover have "load_byte d 0x900000 k' = None" using k'(5) [THEN spec, of "0x900000"] by (simp add: PGNUM_div)
  ultimately show "\<exists>base k1 k' d. mem_init sample_cmos 0xF0200000 0xF0180000 (clear_bss k) = Some (base, k1) \<and>
     env_create sample_image ENV_TYPE_USER (env_init k1) = Some (0, k') \<and> env_pgdir (envs k' ! 0) = Some d \<and>
     tf_eip (env_tf (envs k' ! 0)) = 0x800020 \<and> load_byte d 0x800021 k' = Some 0x2A \<and> load_byte d 0x801000 k' = Some 0 \<and>
     load_byte d 0x900000 k' = None"
    using k1(1) k'(1-3) by (auto simp: sample_image_header)
qed

end
