(* ===== verification/Lib_String.thy ===== *)
theory Lib_String
  imports Prelude
begin

unbundle bit_operations_syntax

text \<open>
  The string routines of the kernel and of its programs (\<^verbatim>\<open>src/TP Sched/lib/string.c\<close>, in the configuration with
  assembly). The memory of a program is a function from 32-bit addresses to bytes; pointer arithmetic wraps around.
  The repeated string instructions of the processor are loops with their operand size and direction. A loop that looks
  for a terminator may find none: it is a partial function, and \<^term>\<open>None\<close> means that it never returns.
\<close>

type_synonym addr = "32 word"
type_synonym ram = "32 word \<Rightarrow> char"

lemma unat_succ:
  fixes s e :: "32 word"
  assumes "s < e"
  shows "unat (s + 1) = unat s + 1"
proof -
  have "unat e < 2 ^ 32" using unsigned_less [of e] by simp
  then have "unat s + 1 < 2 ^ 32" using assms by (simp add: word_less_nat_alt)
  then show ?thesis by (simp add: unat_word_ariths)
qed

section \<open>Strings\<close>

partial_function (option) strlen_loop :: "ram \<Rightarrow> addr \<Rightarrow> 32 word \<Rightarrow> 32 word option" where
  "strlen_loop m s n = (if m s \<noteq> NUL then strlen_loop m (s + 1) (n + 1) else Some n)"

definition strlen :: "ram \<Rightarrow> addr \<Rightarrow> 32 word option" where
  "strlen m s = strlen_loop m s 0"

function strnlen_loop :: "ram \<Rightarrow> addr \<Rightarrow> 32 word \<Rightarrow> 32 word \<Rightarrow> 32 word" where
  "strnlen_loop m s sz n = (if sz > 0 \<and> m s \<noteq> NUL then strnlen_loop m (s + 1) (sz - 1) (n + 1) else n)"
  by pat_completeness auto
termination
  by (relation "measure (\<lambda>(m, s, sz, n). unat sz)") (auto simp: unat_minus_one unat_gt_0 word_neq_0_conv)

declare strnlen_loop.simps [simp del]

definition strnlen :: "ram \<Rightarrow> addr \<Rightarrow> 32 word \<Rightarrow> 32 word" where
  "strnlen m s sz = strnlen_loop m s sz 0"

partial_function (option) strcpy_loop :: "addr \<Rightarrow> addr \<Rightarrow> ram \<Rightarrow> ram option" where
  "strcpy_loop dst src m =
     (if m src \<noteq> NUL then strcpy_loop (dst + 1) (src + 1) (m(dst := m src)) else Some (m(dst := m src)))"

definition strcpy :: "addr \<Rightarrow> addr \<Rightarrow> ram \<Rightarrow> (addr \<times> ram) option" where
  "strcpy dst src m = do {
     m \<leftarrow> strcpy_loop dst src m;
     Some (dst, m)
   }"

definition strcat :: "addr \<Rightarrow> addr \<Rightarrow> ram \<Rightarrow> (addr \<times> ram) option" where
  "strcat dst src m = do {
     len \<leftarrow> strlen m dst;
     (_, m) \<leftarrow> strcpy (dst + len) src m;
     Some (dst, m)
   }"

fun strncpy_loop :: "nat \<Rightarrow> addr \<Rightarrow> addr \<Rightarrow> ram \<Rightarrow> ram" where
  "strncpy_loop 0 dst src m = m"
| "strncpy_loop (Suc n) dst src m =
     (let m' = m(dst := m src) in strncpy_loop n (dst + 1) (if m' src \<noteq> NUL then src + 1 else src) m')"

definition strncpy :: "addr \<Rightarrow> addr \<Rightarrow> 32 word \<Rightarrow> ram \<Rightarrow> addr \<times> ram" where
  "strncpy dst src sz m = (dst, strncpy_loop (unat sz) dst src m)"

text \<open>The first argument is the remaining size after the decrement of the loop condition.\<close>

fun strlcpy_loop :: "nat \<Rightarrow> addr \<Rightarrow> addr \<Rightarrow> ram \<Rightarrow> addr \<times> ram" where
  "strlcpy_loop sz dst src m =
     (case sz of
        0 \<Rightarrow> (dst, m(dst := NUL))
      | Suc n \<Rightarrow> if m src \<noteq> NUL then strlcpy_loop n (dst + 1) (src + 1) (m(dst := m src)) else (dst, m(dst := NUL)))"

declare strlcpy_loop.simps [simp del]

definition strlcpy :: "addr \<Rightarrow> addr \<Rightarrow> 32 word \<Rightarrow> ram \<Rightarrow> 32 word \<times> ram" where
  "strlcpy dst src sz m =
     (if sz > 0 then let (d, m) = strlcpy_loop (unat sz - 1) dst src m in (d - dst, m) else (0, m))"

definition byte_diff :: "char \<Rightarrow> char \<Rightarrow> int" where
  "byte_diff a b = of_char a - of_char b"

partial_function (option) strcmp :: "ram \<Rightarrow> addr \<Rightarrow> addr \<Rightarrow> int option" where
  "strcmp m p q = (if m p \<noteq> NUL \<and> m p = m q then strcmp m (p + 1) (q + 1) else Some (byte_diff (m p) (m q)))"

fun strncmp_loop :: "ram \<Rightarrow> addr \<Rightarrow> addr \<Rightarrow> nat \<Rightarrow> int" where
  "strncmp_loop m p q 0 = 0"
| "strncmp_loop m p q (Suc n) =
     (if m p \<noteq> NUL \<and> m p = m q then strncmp_loop m (p + 1) (q + 1) n else byte_diff (m p) (m q))"

definition strncmp :: "ram \<Rightarrow> addr \<Rightarrow> addr \<Rightarrow> 32 word \<Rightarrow> int" where
  "strncmp m p q n = strncmp_loop m p q (unat n)"

text \<open>The null pointer that \<^verbatim>\<open>strchr\<close> returns is the address 0.\<close>

partial_function (option) strchr :: "ram \<Rightarrow> addr \<Rightarrow> char \<Rightarrow> addr option" where
  "strchr m s c = (if m s \<noteq> NUL then if m s = c then Some s else strchr m (s + 1) c else Some 0)"

partial_function (option) strfind :: "ram \<Rightarrow> addr \<Rightarrow> char \<Rightarrow> addr option" where
  "strfind m s c = (if m s \<noteq> NUL then if m s = c then Some s else strfind m (s + 1) c else Some s)"

section \<open>Blocks of memory\<close>

definition load_long :: "ram \<Rightarrow> addr \<Rightarrow> 32 word" where
  "load_long m p = bytes_u32 [m p, m (p + 1), m (p + 2), m (p + 3)]"

definition store_long :: "addr \<Rightarrow> 32 word \<Rightarrow> ram \<Rightarrow> ram" where
  "store_long p w m = (let b = u32_bytes w in m(p := b ! 0, p + 1 := b ! 1, p + 2 := b ! 2, p + 3 := b ! 3))"

fun rep_stosb :: "nat \<Rightarrow> addr \<Rightarrow> 32 word \<Rightarrow> ram \<Rightarrow> ram" where
  "rep_stosb 0 p a m = m"
| "rep_stosb (Suc n) p a m = rep_stosb n (p + 1) a (m(p := u32_bytes a ! 0))"

fun rep_stosl :: "nat \<Rightarrow> addr \<Rightarrow> 32 word \<Rightarrow> ram \<Rightarrow> ram" where
  "rep_stosl 0 p a m = m"
| "rep_stosl (Suc n) p a m = rep_stosl n (p + 4) a (store_long p a m)"

definition memset :: "addr \<Rightarrow> 32 word \<Rightarrow> 32 word \<Rightarrow> ram \<Rightarrow> addr \<times> ram" where
  "memset v c n m =
     (if n = 0 then (v, m)
      else if sint v mod 4 = 0 \<and> n mod 4 = 0
      then let c = c AND 0xFF; c = push_bit 24 c OR push_bit 16 c OR push_bit 8 c OR c in (v, rep_stosl (unat (n div 4)) v c m)
      else (v, rep_stosb (unat n) v c m))"

text \<open>\<^verbatim>\<open>rep movsb\<close> and \<^verbatim>\<open>rep movsl\<close>: upwards (\<^verbatim>\<open>cld\<close>) or downwards (\<^verbatim>\<open>std\<close>), by bytes or by words.\<close>

definition movs :: "bool \<Rightarrow> addr \<Rightarrow> addr \<Rightarrow> ram \<Rightarrow> ram" where
  "movs long d s m = (if long then store_long d (load_long m s) m else m(d := m s))"

definition stride :: "bool \<Rightarrow> 32 word" where
  "stride long = (if long then 4 else 1)"

fun rep_movs :: "bool \<Rightarrow> bool \<Rightarrow> nat \<Rightarrow> addr \<Rightarrow> addr \<Rightarrow> ram \<Rightarrow> ram" where
  "rep_movs down long 0 d s m = m"
| "rep_movs down long (Suc n) d s m =
     (let m = movs long d s m; k = (if down then - stride long else stride long) in rep_movs down long n (d + k) (s + k) m)"

definition memmove :: "addr \<Rightarrow> addr \<Rightarrow> 32 word \<Rightarrow> ram \<Rightarrow> addr \<times> ram" where
  "memmove dst src n m =
     (let s = src; d = dst in
      if s < d \<and> s + n > d
      then let s = s + n; d = d + n in
        if sint s mod 4 = 0 \<and> sint d mod 4 = 0 \<and> n mod 4 = 0
        then (dst, rep_movs True True (unat (n div 4)) (d - 4) (s - 4) m)
        else (dst, rep_movs True False (unat n) (d - 1) (s - 1) m)
      else if sint s mod 4 = 0 \<and> sint d mod 4 = 0 \<and> n mod 4 = 0
        then (dst, rep_movs False True (unat (n div 4)) d s m)
        else (dst, rep_movs False False (unat n) d s m))"

definition memcpy :: "addr \<Rightarrow> addr \<Rightarrow> 32 word \<Rightarrow> ram \<Rightarrow> addr \<times> ram" where
  "memcpy dst src n m = memmove dst src n m"

fun memcmp_loop :: "ram \<Rightarrow> addr \<Rightarrow> addr \<Rightarrow> nat \<Rightarrow> int" where
  "memcmp_loop m s1 s2 0 = 0"
| "memcmp_loop m s1 s2 (Suc n) =
     (if m s1 \<noteq> m s2 then byte_diff (m s1) (m s2) else memcmp_loop m (s1 + 1) (s2 + 1) n)"

definition memcmp :: "ram \<Rightarrow> addr \<Rightarrow> addr \<Rightarrow> 32 word \<Rightarrow> int" where
  "memcmp m v1 v2 n = memcmp_loop m v1 v2 (unat n)"

function memfind_loop :: "ram \<Rightarrow> addr \<Rightarrow> addr \<Rightarrow> char \<Rightarrow> addr" where
  "memfind_loop m s ends c = (if s < ends then if m s = c then s else memfind_loop m (s + 1) ends c else s)"
  by pat_completeness auto
termination
proof (relation "measure (\<lambda>(m, s, ends, c). unat ends - unat s)")
  show "((m, s + 1, ends, c), m, s, ends, c) \<in> measure (\<lambda>(m, s, ends, c). unat ends - unat s)" if "s < ends"
    for m :: ram and s ends :: addr and c
  proof -
    show ?thesis using that unat_succ [OF that] by (simp add: word_less_nat_alt)
  qed
qed simp

declare memfind_loop.simps [simp del]

definition memfind :: "ram \<Rightarrow> addr \<Rightarrow> 32 word \<Rightarrow> 32 word \<Rightarrow> addr" where
  "memfind m s c n = memfind_loop m s (s + n) (u32_bytes c ! 0)"

section \<open>Numbers\<close>

partial_function (option) skip_blanks :: "ram \<Rightarrow> addr \<Rightarrow> addr option" where
  "skip_blanks m s = (if m s = CHR '' '' \<or> m s = CHR 0x09 then skip_blanks m (s + 1) else Some s)"

definition digit_value :: "char \<Rightarrow> int option" where
  "digit_value c =
     (let v = of_char c :: int in
      if 48 \<le> v \<and> v \<le> 57 then Some (v - 48)
      else if 97 \<le> v \<and> v \<le> 122 then Some (v - 97 + 10)
      else if 65 \<le> v \<and> v \<le> 90 then Some (v - 65 + 10)
      else None)"

text \<open>A \<^verbatim>\<open>long\<close> has 32 bits; the accumulated value wraps around.\<close>

partial_function (option) strtol_digits :: "ram \<Rightarrow> addr \<Rightarrow> int \<Rightarrow> 32 word \<Rightarrow> (32 word \<times> addr) option" where
  "strtol_digits m s base val =
     (case digit_value (m s) of
        None \<Rightarrow> Some (val, s)
      | Some dig \<Rightarrow> if dig \<ge> base then Some (val, s)
          else strtol_digits m (s + 1) base (val * word_of_int base + word_of_int dig))"

definition strtol :: "ram \<Rightarrow> addr \<Rightarrow> int \<Rightarrow> (int \<times> addr) option" where
  "strtol m s base = do {
     s \<leftarrow> skip_blanks m s;
     let (neg, s) = (if m s = CHR ''+'' then (False, s + 1) else if m s = CHR ''-'' then (True, s + 1) else (False, s));
     let (s, base) = (if (base = 0 \<or> base = 16) \<and> m s = CHR ''0'' \<and> m (s + 1) = CHR ''x'' then (s + 2, 16)
       else if base = 0 \<and> m s = CHR ''0'' then (s + 1, 8)
       else if base = 0 then (s, 10) else (s, base));
     (val, s) \<leftarrow> strtol_digits m s base 0;
     Some (sint (if neg then - val else val), s)
   }"

end
