(* ===== verification/Kern_Debug.thy ===== *)
theory Kern_Debug
  imports Kern_Pmap Lib_String "HOL-Library.Signed_Division"
begin

unbundle bit_operations_syntax

text \<open>
  The debugging information of the kernel monitor: \<^verbatim>\<open>src/TP Sched/kern/kdebug.c\<close> and the symbol table of \<^verbatim>\<open>inc/stab.h\<close>.

  The memory that the kernel sees is a \<^typ>\<open>ram\<close>; the addresses that the linker gives to the tables of the kernel are
  parameters. A symbol table is read into a list, and looking at an entry outside it is the undefined result
  \<^term>\<open>None\<close>. Indices are \<^typ>\<open>int\<close>: a table of 12-byte entries fits in 32 bits of address space, so no index or sum of two
  indices leaves the range of a C \<^verbatim>\<open>int\<close>.
\<close>

section \<open>Symbol tables\<close>

record stab =
  n_strx :: "32 word"
  n_type :: "8 word"
  n_other :: "8 word"
  n_desc :: "16 word"
  n_value :: "32 word"

abbreviation (input) N_FUN :: int where "N_FUN \<equiv> 0x24"
abbreviation (input) N_SLINE :: int where "N_SLINE \<equiv> 0x44"
abbreviation (input) N_SO :: int where "N_SO \<equiv> 0x64"
abbreviation (input) N_SOL :: int where "N_SOL \<equiv> 0x84"
abbreviation (input) N_PSYM :: int where "N_PSYM \<equiv> 0xA0"

abbreviation (input) ULIM :: "32 word" where "ULIM \<equiv> 0xEF800000"
abbreviation (input) USTABDATA :: "32 word" where "USTABDATA \<equiv> 0x200000"

record stab_data =
  sd_stabs :: addr
  sd_stab_end :: addr
  sd_stabstr :: addr
  sd_stabstr_end :: addr

definition stab_at :: "stab list \<Rightarrow> int \<Rightarrow> stab option" where
  "stab_at stabs i = (if 0 \<le> i \<and> i < int (length stabs) then Some (stabs ! nat i) else None)"

definition has_type :: "int \<Rightarrow> stab \<Rightarrow> bool" where
  "has_type ty s \<longleftrightarrow> uint (n_type s) = ty"

section \<open>Searching a table\<close>

text \<open>The inner loops, which step back from \<open>m\<close> to an entry of the right type but not below \<open>l\<close>.\<close>

function scan_back :: "(stab \<Rightarrow> bool) \<Rightarrow> stab list \<Rightarrow> int \<Rightarrow> int \<Rightarrow> int option" where
  "scan_back stop stabs l m =
     (if m \<ge> l
      then (case stab_at stabs m of
              None \<Rightarrow> None
            | Some s \<Rightarrow> if stop s then Some m else scan_back stop stabs l (m - 1))
      else Some m)"
  by pat_completeness auto
termination by (relation "measure (\<lambda>(stop, stabs, l, m). nat (m + 1 - l))") auto

declare scan_back.simps [simp del]

text \<open>An entry for exactly \<open>addr\<close> under the probe: the loop goes on without moving its bounds, once.\<close>

definition exact_probe :: "stab list \<Rightarrow> int \<Rightarrow> int \<Rightarrow> int \<Rightarrow> 32 word \<Rightarrow> bool" where
  "exact_probe stabs ty l r addr =
     (case scan_back (has_type ty) stabs l ((l + r) sdiv 2) of
        None \<Rightarrow> False
      | Some m \<Rightarrow> m \<ge> l \<and> (case stab_at stabs m of None \<Rightarrow> False | Some s \<Rightarrow> n_value s = addr))"

lemma scan_back_le: "scan_back stop stabs l m = Some m' \<Longrightarrow> m' \<le> m"
proof (induction stop stabs l m rule: scan_back.induct)
  case (1 stop stabs l m)
  have "m' = m \<or> scan_back stop stabs l (m - 1) = Some m'"
    using "1.prems" by (auto simp: scan_back.simps [of stop stabs l m] split: if_splits option.splits)
  then show ?case
    using "1.IH" "1.prems" by (auto simp: scan_back.simps [of stop stabs l m] split: if_splits option.splits)
qed

lemma sdiv_two: "(l + r) sdiv 2 = (if l + r < 0 then - (- (l + r) div 2) else (l + r) div (2 :: int))"
  by (simp add: signed_divide_int_def sgn_if)

lemma sdiv_bounds: "l \<le> r \<Longrightarrow> l \<le> (l + r) sdiv 2 \<and> (l + r) sdiv 2 \<le> (r :: int)"
  unfolding sdiv_two by (auto split: if_splits)

text \<open>The outer loop: the bounds, whether an entry of the type was seen, the region found so far, and the address.\<close>

function binsearch_loop :: "stab list \<Rightarrow> int \<Rightarrow> int \<Rightarrow> int \<Rightarrow> bool \<Rightarrow> int \<Rightarrow> int \<Rightarrow> 32 word \<Rightarrow> (bool \<times> int \<times> int) option" where
  "binsearch_loop stabs ty l r any left right addr =
     (if l \<le> r
      then let true_m = (l + r) sdiv 2 in
           case scan_back (has_type ty) stabs l true_m of
             None \<Rightarrow> None
           | Some m \<Rightarrow>
               if m < l then binsearch_loop stabs ty (true_m + 1) r any left right addr
               else (case stab_at stabs m of
                       None \<Rightarrow> None
                     | Some s \<Rightarrow>
                         if n_value s < addr then binsearch_loop stabs ty (true_m + 1) r True m right addr
                         else if n_value s > addr then binsearch_loop stabs ty l (m - 1) True left (m - 1) addr
                         else binsearch_loop stabs ty m r True m right (addr + 1))
      else Some (any, left, right))"
  by pat_completeness auto

termination
proof (relation "measure (\<lambda>(stabs, ty, l, r, any, left, right, addr).
    2 * nat (r + 1 - l) + (if exact_probe stabs ty l r addr then 1 else 0))", goal_cases)
  case (2 stabs ty l r any left right addr x m)
  then show ?case using sdiv_bounds [of l r] by (auto simp: exact_probe_def)
next
  case (3 stabs ty l r any left right addr x m s)
  then show ?case using sdiv_bounds [of l r] by auto
next
  case (4 stabs ty l r any left right addr x m s)
  then show ?case using sdiv_bounds [of l r] scan_back_le [of "has_type ty" stabs l x m] by auto
next
  case (5 stabs ty l r any left right addr x m s)
  have eq: "n_value s = addr" using 5 by auto
  have now: "exact_probe stabs ty l r addr" using 5 eq by (simp add: exact_probe_def)
  have le: "l \<le> m" "m \<le> r" using 5 sdiv_bounds [of l r] scan_back_le [of "has_type ty" stabs l x m] by auto
  show ?case
  proof (cases "m = l")
    case True
    then have "\<not> exact_probe stabs ty m r (addr + 1)" using 5 eq by (simp add: exact_probe_def)
    then show ?thesis using now True by simp
  next
    case False
    define x y where "x = nat (r + 1 - m)" and "y = nat (r + 1 - l)"
    have "x < y" using False le by (simp add: x_def y_def)
    then show ?thesis using now by (simp add: x_def [symmetric] y_def [symmetric])
  qed
qed simp

declare binsearch_loop.simps [simp del]

text \<open>The whole search: the new values of \<^verbatim>\<open>*region_left\<close> and \<^verbatim>\<open>*region_right\<close>.\<close>

definition stab_binsearch :: "stab list \<Rightarrow> int \<Rightarrow> int \<Rightarrow> int \<Rightarrow> 32 word \<Rightarrow> (int \<times> int) option" where
  "stab_binsearch stabs region_left region_right ty addr =
     (case binsearch_loop stabs ty region_left region_right False region_left region_right addr of
        None \<Rightarrow> None
      | Some (any, left, right) \<Rightarrow>
          if \<not> any then Some (left, left - 1)
          else (case scan_back (has_type ty) stabs (left + 1) right of
                  None \<Rightarrow> None
                | Some l \<Rightarrow> Some (l, right)))"

section \<open>The position of an instruction\<close>

text \<open>A name is either the literal \<^verbatim>\<open><unknown>\<close> or a string of the string table.\<close>

datatype name_ref = Unknown | At addr

record eipdebuginfo =
  eip_file :: name_ref
  eip_line :: int
  eip_fn_name :: name_ref
  eip_fn_namelen :: int
  eip_fn_addr :: addr
  eip_fn_narg :: int

definition load_short :: "ram \<Rightarrow> addr \<Rightarrow> 16 word" where
  "load_short m p = word_of_nat (of_char (m p) + 256 * of_char (m (p + 1)))"

definition load_stab :: "ram \<Rightarrow> addr \<Rightarrow> stab" where
  "load_stab m p = \<lparr>n_strx = load_long m p, n_type = of_char (m (p + 4)), n_other = of_char (m (p + 5)),
     n_desc = load_short m (p + 6), n_value = load_long m (p + 8)\<rparr>"

definition load_stab_data :: "ram \<Rightarrow> addr \<Rightarrow> stab_data" where
  "load_stab_data m p = \<lparr>sd_stabs = load_long m p, sd_stab_end = load_long m (p + 4),
     sd_stabstr = load_long m (p + 8), sd_stabstr_end = load_long m (p + 12)\<rparr>"

text \<open>The difference of two pointers to entries, which is only defined between entries of one table.\<close>

definition stab_count :: "addr \<Rightarrow> addr \<Rightarrow> int option" where
  "stab_count b e = (if sint (e - b) mod 12 = 0 then Some (sint (e - b) div 12) else None)"

definition load_stabs :: "ram \<Rightarrow> addr \<Rightarrow> int \<Rightarrow> stab list" where
  "load_stabs m b n = map (\<lambda>i. load_stab m (b + 12 * of_nat i)) [0..<nat n]"

text \<open>
  The tables of an address: those of the kernel, or those that the program publishes at \<^verbatim>\<open>USTABDATA\<close> after the checks of
  \<^verbatim>\<open>user_mem_check\<close>. The inner \<^term>\<open>None\<close> is the return value -1.
\<close>

definition find_stab_data :: "ram \<Rightarrow> stab_data \<Rightarrow> nat \<Rightarrow> 'a machine_scheme \<Rightarrow> addr \<Rightarrow> stab_data option option" where
  "find_stab_data m kernel_data pgdir mach addr =
     (if addr \<ge> ULIM then Some (Some kernel_data)
      else do {
        (e1, _) \<leftarrow> user_mem_check pgdir USTABDATA 16 0 mach;
        if e1 \<noteq> 0 then Some None
        else do {
          let d = load_stab_data m USTABDATA;
          n \<leftarrow> stab_count (sd_stabs d) (sd_stab_end d);
          (e2, _) \<leftarrow> user_mem_check pgdir (sd_stabs d) (word_of_int n) 0 mach;
          if e2 \<noteq> 0 then Some None
          else do {
            (e3, _) \<leftarrow> user_mem_check pgdir (sd_stabstr d) (sd_stabstr_end d - sd_stabstr d) 0 mach;
            Some (if e3 \<noteq> 0 then None else Some d)
          }
        }
      })"

definition namelen :: "ram \<Rightarrow> name_ref \<Rightarrow> int option" where
  "namelen m name = (case name of
     Unknown \<Rightarrow> Some 9
   | At p \<Rightarrow> (case strfind m p (CHR '':'') of None \<Rightarrow> None | Some q \<Rightarrow> Some (sint (q - p))))"

text \<open>The entries that name the source file of a line.\<close>

definition names_file :: "stab \<Rightarrow> bool" where
  "names_file s \<longleftrightarrow> \<not> (\<not> has_type N_SOL s \<and> (\<not> has_type N_SO s \<or> n_value s = 0))"

text \<open>The parameters that follow the entry of a function.\<close>

function count_params :: "stab list \<Rightarrow> int \<Rightarrow> int \<Rightarrow> int \<Rightarrow> int option" where
  "count_params stabs lline rfun narg =
     (if lline < rfun
      then (case stab_at stabs lline of
              None \<Rightarrow> None
            | Some s \<Rightarrow> if has_type N_PSYM s then count_params stabs (lline + 1) rfun (narg + 1) else Some narg)
      else Some narg)"
  by pat_completeness auto
termination by (relation "measure (\<lambda>(stabs, lline, rfun, narg). nat (rfun - lline))") auto

declare count_params.simps [simp del]

definition debuginfo_eip :: "ram \<Rightarrow> stab_data \<Rightarrow> nat \<Rightarrow> 'a machine_scheme \<Rightarrow> addr \<Rightarrow> (int \<times> eipdebuginfo) option" where
  "debuginfo_eip m kernel_data pgdir mach addr = do {
     let info = \<lparr>eip_file = Unknown, eip_line = 0, eip_fn_name = Unknown, eip_fn_namelen = 9, eip_fn_addr = addr, eip_fn_narg = 0\<rparr>;
     found \<leftarrow> find_stab_data m kernel_data pgdir mach addr;
     case found of
       None \<Rightarrow> Some (- 1, info)
     | Some d \<Rightarrow>
         if sd_stabstr_end d \<le> sd_stabstr d \<or> m (sd_stabstr_end d - 1) \<noteq> NUL then Some (- 1, info)
         else do {
           let strsize = sd_stabstr_end d - sd_stabstr d;
           n \<leftarrow> stab_count (sd_stabs d) (sd_stab_end d);
           let stabs = load_stabs m (sd_stabs d) n;
           (lfile, rfile) \<leftarrow> stab_binsearch stabs 0 (n - 1) N_SO addr;
           if lfile = 0 then Some (- 1, info)
           else do {
             (lfun, rfun) \<leftarrow> stab_binsearch stabs lfile rfile N_FUN addr;
             (info1, addr1, lline1, rline1) \<leftarrow>
               (if lfun \<le> rfun
                then do {
                  s \<leftarrow> stab_at stabs lfun;
                  let name = (if n_strx s < strsize then At (sd_stabstr d + n_strx s) else eip_fn_name info);
                  Some (info\<lparr>eip_fn_name := name, eip_fn_addr := n_value s\<rparr>, addr - n_value s, lfun, rfun)
                }
                else Some (info\<lparr>eip_fn_addr := addr\<rparr>, addr, lfile, rfile));
             len \<leftarrow> namelen m (eip_fn_name info1);
             let info2 = info1\<lparr>eip_fn_namelen := len\<rparr>;
             (lline, rline) \<leftarrow> stab_binsearch stabs lline1 rline1 N_SLINE addr1;
             info3 \<leftarrow>
               (if lline \<le> rline
                then do { s \<leftarrow> stab_at stabs lline; Some (info2\<lparr>eip_line := uint (n_desc s)\<rparr>) }
                else Some info2);
             f \<leftarrow> scan_back names_file stabs lfile lline;
             info4 \<leftarrow>
               (if f \<ge> lfile
                then do { s \<leftarrow> stab_at stabs f;
                          Some (if n_strx s < strsize then info3\<lparr>eip_file := At (sd_stabstr d + n_strx s)\<rparr> else info3) }
                else Some info3);
             narg \<leftarrow> (if lfun < rfun then count_params stabs (lfun + 1) rfun (eip_fn_narg info4) else Some (eip_fn_narg info4));
             Some (0, info4\<lparr>eip_fn_narg := narg\<rparr>)
           }
         }
   }"

end
