(* ===== verification/Kern_Debug_Props.thy ===== *)
theory Kern_Debug_Props
  imports Kern_Debug
begin

text \<open>
  Facts about the search of symbol tables: it returns, and it finds the entry that contains an address and the entry after
  it, unless an entry starts just past the address.
\<close>

section \<open>Stepping back\<close>

definition match :: "stab list \<Rightarrow> int \<Rightarrow> int \<Rightarrow> bool" where
  "match stabs ty i \<longleftrightarrow> 0 \<le> i \<and> i < int (length stabs) \<and> has_type ty (stabs ! nat i)"

abbreviation (input) val_at :: "stab list \<Rightarrow> int \<Rightarrow> 32 word" where
  "val_at stabs i \<equiv> n_value (stabs ! nat i)"

lemma scan_back_spec:
  assumes "0 \<le> l" "m < int (length stabs)"
  shows "\<exists>m'. scan_back (has_type ty) stabs l m = Some m' \<and> m' \<le> m \<and> (\<forall>j. m' < j \<and> j \<le> m \<longrightarrow> \<not> match stabs ty j) \<and>
    (l \<le> m' \<longrightarrow> match stabs ty m') \<and> (l \<le> m \<longrightarrow> l - 1 \<le> m') \<and> (m < l \<longrightarrow> m' = m)"
  using assms
proof (induction "has_type ty" stabs l m rule: scan_back.induct)
  case (1 stabs l m)
  show ?case
  proof (cases "l \<le> m \<and> \<not> match stabs ty m")
    case True
    then have at: "stab_at stabs m = Some (stabs ! nat m)" "\<not> has_type ty (stabs ! nat m)"
      using "1.prems" by (auto simp: stab_at_def match_def)
    obtain m' where m': "scan_back (has_type ty) stabs l (m - 1) = Some m'" "m' \<le> m - 1"
      "\<forall>j. m' < j \<and> j \<le> m - 1 \<longrightarrow> \<not> match stabs ty j" "l \<le> m' \<longrightarrow> match stabs ty m'" "l \<le> m - 1 \<longrightarrow> l - 1 \<le> m'"
      "m - 1 < l \<longrightarrow> m' = m - 1"
      using "1.hyps" [of "stabs ! nat m"] True at "1.prems" by auto
    have "\<not> match stabs ty j" if "m' < j" "j \<le> m" for j using m'(3) True that by (cases "j = m") auto
    then show ?thesis using True at m' by (intro exI [of _ m']) (auto simp: scan_back.simps [of _ _ l m])
  next
    case False
    then show ?thesis using "1.prems" by (auto simp: scan_back.simps [of _ _ l m] stab_at_def match_def)
  qed
qed

section \<open>The search\<close>

text \<open>The tables that the search is for: the entries of the type in order of address, and none that starts just after \<open>a\<close>.\<close>

definition searchable :: "stab list \<Rightarrow> int \<Rightarrow> int \<Rightarrow> int \<Rightarrow> 32 word \<Rightarrow> bool" where
  "searchable stabs ty L R a \<longleftrightarrow> 0 \<le> L \<and> R < int (length stabs) \<and> a \<noteq> - 1 \<and>
     (\<forall>i \<in> {L..R}. \<forall>j \<in> {i..R}. match stabs ty i \<and> match stabs ty j \<longrightarrow> val_at stabs i \<le> val_at stabs j) \<and>
     (\<forall>i \<in> {L..R}. match stabs ty i \<longrightarrow> val_at stabs i \<noteq> a + 1)"

definition found :: "stab list \<Rightarrow> int \<Rightarrow> int \<Rightarrow> int \<Rightarrow> 32 word \<Rightarrow> int \<Rightarrow> int \<Rightarrow> bool \<Rightarrow> int \<Rightarrow> 32 word \<Rightarrow> bool" where
  "found stabs ty L R a l r any left addr \<longleftrightarrow> L \<le> l \<and> r \<le> R \<and> l \<le> r + 1 \<and> (addr = a \<or> addr = a + 1) \<and>
     (\<forall>j. match stabs ty j \<and> L \<le> j \<and> j < l \<longrightarrow> val_at stabs j \<le> a) \<and>
     (\<forall>j. match stabs ty j \<and> r < j \<and> j \<le> R \<longrightarrow> a < val_at stabs j) \<and>
     (r = R \<or> match stabs ty (r + 1)) \<and>
     (left = L \<or> L \<le> left \<and> left \<le> R \<and> match stabs ty left \<and> val_at stabs left \<le> a) \<and>
     (\<not> any \<longrightarrow> r = R \<and> (\<forall>j. L \<le> j \<and> j < l \<longrightarrow> \<not> match stabs ty j))"

lemma decide:
  assumes ok: "searchable stabs ty L R a" and addr: "addr = a \<or> addr = a + 1" and m: "match stabs ty m" "L \<le> m" "m \<le> R"
  shows "val_at stabs m < addr \<Longrightarrow> val_at stabs m \<le> a"
    and "val_at stabs m > addr \<Longrightarrow> a < val_at stabs m"
    and "val_at stabs m = addr \<Longrightarrow> addr = a"
proof -
  have "1 + a \<noteq> 0" using ok by (auto simp: searchable_def add_eq_0_iff)
  then have u: "unat (a + 1) = Suc (unat a)" using unatSuc [of a] by (simp add: add.commute)
  show "val_at stabs m < addr \<Longrightarrow> val_at stabs m \<le> a" using addr u by (auto simp: word_less_nat_alt word_le_nat_alt)
  show "val_at stabs m > addr \<Longrightarrow> a < val_at stabs m" using addr u by (auto simp: word_less_nat_alt word_le_nat_alt)
  show "val_at stabs m = addr \<Longrightarrow> addr = a" using ok addr m by (auto simp: searchable_def)
qed

lemma in_order:
  assumes "searchable stabs ty L R a" "match stabs ty i" "match stabs ty j" "L \<le> i" "i \<le> j" "j \<le> R"
  shows "val_at stabs i \<le> val_at stabs j"
  using assms by (auto simp: searchable_def)

lemma binsearch_loop_found:
  assumes ok: "searchable stabs ty L R a"
  shows "found stabs ty L R a l r any left addr \<Longrightarrow> \<exists>any' left' r'. binsearch_loop stabs ty l r any left r addr = Some (any', left', r') \<and>
    found stabs ty L R a (r' + 1) r' any' left' a"
proof (induction "2 * nat (r + 1 - l) + (if addr = a then 1 else 0)" arbitrary: l r any left addr rule: less_induct)
  case less
  note inv = less.prems [unfolded found_def]
  show ?case
  proof (cases "l \<le> r")
    case False
    then have "l = r + 1" using inv by simp
    then show ?thesis using inv False by (auto simp: binsearch_loop.simps [of _ _ l r] found_def)
  next
    case True
    define t where "t = (l + r) sdiv 2"
    have t: "l \<le> t" "t \<le> r" using sdiv_bounds [OF True] by (simp_all add: t_def)
    have lim: "0 \<le> l" "t < int (length stabs)" using inv t ok by (auto simp: searchable_def)
    obtain m where m: "scan_back (has_type ty) stabs l t = Some m" "m \<le> t" "\<And>j. m < j \<Longrightarrow> j \<le> t \<Longrightarrow> \<not> match stabs ty j"
      "l \<le> m \<Longrightarrow> match stabs ty m" "l - 1 \<le> m"
      using scan_back_spec [OF lim, of ty] t(1) by blast
    show ?thesis
    proof (cases "m < l")
      case below: True
      have "found stabs ty L R a (t + 1) r any left addr"
        using inv t m(3) below by (simp add: found_def) (meson not_less zle_add1_eq_le order.strict_trans2)
      then show ?thesis using less.hyps [of r "t + 1" addr any left] t True m(1) below
        by (simp add: binsearch_loop.simps [of _ _ l r] Let_def t_def [symmetric])
    next
      case False
      then have mm: "match stabs ty m" "l \<le> m" "m \<le> r" "L \<le> m" "m \<le> R" using m t inv by auto
      have at: "stab_at stabs m = Some (stabs ! nat m)" using mm(1) by (auto simp: stab_at_def match_def)
      note d = decide [OF ok _ mm(1,4,5), of addr]
      have upto: "val_at stabs j \<le> val_at stabs m" if "match stabs ty j" "L \<le> j" "j \<le> m" for j
        using in_order [OF ok that(1) mm(1) that(2,3) mm(5)] .
      have from_m: "val_at stabs m \<le> val_at stabs j" if "match stabs ty j" "m \<le> j" "j \<le> R" for j
        using in_order [OF ok mm(1) that(1) mm(4) that(2,3)] .
      consider (less) "val_at stabs m < addr" | (greater) "val_at stabs m > addr" | (exact) "val_at stabs m = addr" by fastforce
      then show ?thesis
      proof cases
        case less
        have le: "val_at stabs m \<le> a" using d(1) inv less by blast
        have "val_at stabs j \<le> a" if "match stabs ty j" "L \<le> j" "j < t + 1" for j
          using upto [of j] m(3) [of j] that le by (cases "j \<le> m") auto
        then have "found stabs ty L R a (t + 1) r True m addr" using inv t mm le by (auto simp: found_def)
        then show ?thesis using less.hyps [of r "t + 1" addr True m] t True m(1) False less at
          by (simp add: binsearch_loop.simps [of _ _ l r] Let_def t_def [symmetric])
      next
        case greater
        have gt: "a < val_at stabs m" using d(2) inv greater by blast
        have "a < val_at stabs j" if "match stabs ty j" "m - 1 < j" "j \<le> R" for j
          using from_m [of j] that gt by auto
        then have "found stabs ty L R a l (m - 1) True left addr" using inv mm by (auto simp: found_def)
        then show ?thesis using less.hyps [of "m - 1" l addr True left] t True m(1) False greater less_not_sym [OF greater] at mm
          by (simp add: binsearch_loop.simps [of _ _ l r] Let_def t_def [symmetric])
      next
        case exact
        have eq: "addr = a" using d(3) inv exact by blast
        have "val_at stabs j \<le> a" if "match stabs ty j" "L \<le> j" "j < m" for j using upto [of j] that exact eq by auto
        then have "found stabs ty L R a m r True m (addr + 1)" using inv mm exact eq by (auto simp: found_def)
        then show ?thesis using less.hyps [of r m "addr + 1" True m] t True m(1) False exact eq at mm
          by (simp add: binsearch_loop.simps [of _ _ l r] Let_def t_def [symmetric])
      qed
    qed
  qed
qed

text \<open>
  The result: the last entry of the type that does not start after \<open>a\<close>, and the index before the next entry of the type.
\<close>

lemma stab_binsearch_finds:
  assumes ok: "searchable stabs ty L R a" and k: "match stabs ty k" "L \<le> k" "k \<le> R" "val_at stabs k \<le> a"
    and last: "\<And>j. match stabs ty j \<Longrightarrow> k < j \<Longrightarrow> j \<le> R \<Longrightarrow> a < val_at stabs j"
  shows "\<exists>right. stab_binsearch stabs L R ty a = Some (k, right) \<and> k \<le> right \<and> right \<le> R \<and>
    (\<forall>j. k < j \<and> j \<le> right \<longrightarrow> \<not> match stabs ty j) \<and> (right = R \<or> match stabs ty (right + 1))"
proof -
  have "found stabs ty L R a L R False L a" using k by (auto simp: found_def)
  then obtain any left r where loop: "binsearch_loop stabs ty L R False L R a = Some (any, left, r)"
    and inv: "found stabs ty L R a (r + 1) r any left a" using binsearch_loop_found [OF ok] by blast
  have kr: "k \<le> r" using inv k by (force simp: found_def not_le)
  then have any using inv k by (auto simp: found_def)
  have lk: "left \<le> k" using inv k(2) last [of left] by (force simp: found_def not_le)
  have lim: "0 \<le> left + 1" "r < int (length stabs)" using inv ok by (auto simp: found_def searchable_def)
  obtain l where l: "scan_back (has_type ty) stabs (left + 1) r = Some l" "l \<le> r" "\<And>j. l < j \<Longrightarrow> j \<le> r \<Longrightarrow> \<not> match stabs ty j"
    "left + 1 \<le> l \<Longrightarrow> match stabs ty l" "left + 1 \<le> r \<Longrightarrow> left \<le> l" "r < left + 1 \<Longrightarrow> l = r"
    using scan_back_spec [OF lim, of ty] by auto
  have "\<not> match stabs ty j" if "k < j" "j \<le> r" for j
    using last [of j] inv that k(2) by (force simp: found_def)
  moreover have "k \<le> l" using l(3) [of k] k(1) kr by force
  moreover have "l \<le> k"
  proof (cases "left + 1 \<le> l")
    case True
    then show ?thesis using l(2,4) calculation(1) [of l] by force
  qed (use lk l in auto)
  ultimately have "l = k" "\<forall>j. k < j \<and> j \<le> r \<longrightarrow> \<not> match stabs ty j" by auto
  then show ?thesis using loop l(1) \<open>any\<close> kr inv by (auto simp: stab_binsearch_def found_def)
qed

section \<open>Where the search goes wrong\<close>

definition line_stab :: "int \<Rightarrow> 32 word \<Rightarrow> stab" where
  "line_stab ty v = \<lparr>n_strx = 0, n_type = word_of_int ty, n_other = 0, n_desc = 0, n_value = v\<rparr>"

text \<open>
  After an exact match the search goes on for the next address, so an entry that starts there is taken for the one that
  contains the address: the line of a one-byte instruction is reported as the next line.
\<close>

lemma binsearch_skips_entry:
  "stab_binsearch [line_stab N_SLINE 10, line_stab N_SLINE 16, line_stab N_SLINE 17] 0 2 N_SLINE 16 = Some (2, 2)"
  by code_simp

text \<open>
  An address before the first entry gives index -1, which is not the failure that \<^verbatim>\<open>debuginfo_eip\<close> tests for; the next search
  then reads the table at that index.
\<close>

lemma binsearch_before_table:
  "stab_binsearch [line_stab N_SO 16, line_stab N_FUN 17] 0 1 N_SO 15 = Some (- 1, - 1)"
  "stab_binsearch [line_stab N_SO 16, line_stab N_FUN 17] (- 1) (- 1) N_FUN 15 = None"
  by code_simp+

end
