(* ===== verification/Kern_Lock.thy ===== *)
theory Kern_Lock
  imports Lib_String
begin

unbundle bit_operations_syntax

text \<open>
  The big kernel lock: \<^verbatim>\<open>src/TP Sched/kern/spinlock.c\<close> and \<^verbatim>\<open>spinlock.h\<close>, in the debugging configuration that \<^verbatim>\<open>spinlock.h\<close>
  selects. The processors run interleaved, one access to the lock at a time; \<^verbatim>\<open>xchg\<close> is one such access. A processor is
  named by its index in \<^verbatim>\<open>cpus\<close>.
\<close>

section \<open>The lock\<close>

record spinlock =
  locked :: "32 word"
  lk_name :: string
  lk_cpu :: "nat option"
  pcs :: "32 word list"

definition xchg_locked :: "32 word \<Rightarrow> spinlock \<Rightarrow> 32 word \<times> spinlock" where
  "xchg_locked newval lk = (locked lk, lk\<lparr>locked := newval\<rparr>)"

definition holding :: "spinlock \<Rightarrow> nat \<Rightarrow> bool" where
  "holding lk c \<longleftrightarrow> locked lk \<noteq> 0 \<and> lk_cpu lk = Some c"

definition spin_initlock :: "string \<Rightarrow> spinlock \<Rightarrow> spinlock" where
  "spin_initlock nm lk = lk\<lparr>locked := 0, lk_name := nm, lk_cpu := None\<rparr>"

text \<open>The chain of return addresses from a frame pointer, padded with zeros to ten.\<close>

fun caller_pcs :: "ram \<Rightarrow> nat \<Rightarrow> addr \<Rightarrow> 32 word list" where
  "caller_pcs m 0 ebp = []"
| "caller_pcs m (Suc n) ebp =
     (if ebp = 0 \<or> ebp < 0xEF800000 then replicate (Suc n) 0
      else load_long m (ebp + 4) # caller_pcs m n (load_long m ebp))"

definition get_caller_pcs :: "ram \<Rightarrow> addr \<Rightarrow> 32 word list" where
  "get_caller_pcs m ebp = caller_pcs m 10 ebp"

lemma length_caller_pcs [simp]: "length (caller_pcs m n ebp) = n"
  by (induction m n ebp rule: caller_pcs.induct) simp_all

section \<open>The processors\<close>

text \<open>Where a processor is: outside, in the loop of \<^verbatim>\<open>spin_lock\<close>, past its exchange, past the record of the owner, holding the
lock, in \<^verbatim>\<open>spin_unlock\<close> after the record is cleared, or stopped by a panic.\<close>

datatype lock_pc = Outside | Spinning | Recording | Tracing | Holding | Releasing | Panicked

type_synonym lock_state = "spinlock \<times> (nat \<Rightarrow> lock_pc)"

text \<open>
  The steps of \<^verbatim>\<open>spin_lock\<close> and \<^verbatim>\<open>spin_unlock\<close>. A processor may call either of them at any time when it is in neither, whether
  it holds the lock or not: the debugging checks decide. \<open>frames\<close> gives the memory and the frame pointer of the caller.
\<close>

inductive lock_step :: "(nat \<Rightarrow> ram \<times> addr) \<Rightarrow> lock_state \<Rightarrow> lock_state \<Rightarrow> bool" for frames where
  lock_call: "pc c = Outside \<or> pc c = Holding \<Longrightarrow>
    lock_step frames (lk, pc) (lk, pc(c := if holding lk c then Panicked else Spinning))"
| spin: "pc c = Spinning \<Longrightarrow> xchg_locked 1 lk = (old, lk') \<Longrightarrow>
    lock_step frames (lk, pc) (lk', pc(c := if old \<noteq> 0 then Spinning else Recording))"
| own: "pc c = Recording \<Longrightarrow> lock_step frames (lk, pc) (lk\<lparr>lk_cpu := Some c\<rparr>, pc(c := Tracing))"
| trace: "pc c = Tracing \<Longrightarrow> frames c = (m, ebp) \<Longrightarrow>
    lock_step frames (lk, pc) (lk\<lparr>pcs := get_caller_pcs m ebp\<rparr>, pc(c := Holding))"
| unlock_refused: "pc c = Outside \<or> pc c = Holding \<Longrightarrow> \<not> holding lk c \<Longrightarrow> lock_step frames (lk, pc) (lk, pc(c := Panicked))"
| unlock_clear: "pc c = Outside \<or> pc c = Holding \<Longrightarrow> holding lk c \<Longrightarrow>
    lock_step frames (lk, pc) (lk\<lparr>pcs := (pcs lk)[0 := 0], lk_cpu := None\<rparr>, pc(c := Releasing))"
| unlock: "pc c = Releasing \<Longrightarrow> xchg_locked 0 lk = (old, lk') \<Longrightarrow> lock_step frames (lk, pc) (lk', pc(c := Outside))"

inductive_cases lock_stepE: "lock_step frames (lk, pc) st"

inductive lock_run :: "(nat \<Rightarrow> ram \<times> addr) \<Rightarrow> lock_state \<Rightarrow> bool" for frames where
  start: "lock_run frames (spin_initlock nm lk, \<lambda>_. Outside)"
| step: "lock_run frames st \<Longrightarrow> lock_step frames st st' \<Longrightarrow> lock_run frames st'"

definition critical :: "lock_pc \<Rightarrow> bool" where
  "critical p \<longleftrightarrow> p = Recording \<or> p = Tracing \<or> p = Holding \<or> p = Releasing"

text \<open>
  The invariant: a processor past its exchange is alone there and is the owner on record, as far as it has been recorded;
  a lock that nobody is past belongs to a processor that panicked with it.
\<close>

definition owner_ok :: "spinlock \<Rightarrow> (nat \<Rightarrow> lock_pc) \<Rightarrow> bool" where
  "owner_ok lk pc \<longleftrightarrow>
     (\<forall>c. critical (pc c) \<longrightarrow> locked lk \<noteq> 0 \<and> (\<forall>c'. critical (pc c') \<longrightarrow> c' = c) \<and>
        lk_cpu lk = (if pc c = Tracing \<or> pc c = Holding then Some c else None)) \<and>
     (locked lk = 0 \<longrightarrow> lk_cpu lk = None) \<and>
     ((\<forall>c. \<not> critical (pc c)) \<and> locked lk \<noteq> 0 \<longrightarrow> (\<exists>c. pc c = Panicked \<and> lk_cpu lk = Some c))"

lemma critical_simps [simp]:
  "\<not> critical Outside" "\<not> critical Spinning" "critical Recording" "critical Tracing" "critical Holding" "critical Releasing" "\<not> critical Panicked"
  by (simp_all add: critical_def)

lemma owner_ok_critical:
  assumes "owner_ok lk pc" "critical (pc c)"
  shows "locked lk \<noteq> 0" "critical (pc c') \<longleftrightarrow> c' = c" "lk_cpu lk = (if pc c = Tracing \<or> pc c = Holding then Some c else None)"
  using assms by (auto simp: owner_ok_def)

lemma owner_ok_intro:
  assumes "critical (pc c)" "\<And>c'. critical (pc c') \<Longrightarrow> c' = c" "locked lk \<noteq> 0" "lk_cpu lk = (if pc c = Tracing \<or> pc c = Holding then Some c else None)"
  shows "owner_ok lk pc"
proof -
  have "critical (pc c') \<longleftrightarrow> c' = c" for c' using assms(1,2) by blast
  then show ?thesis using assms(3,4) by (simp add: owner_ok_def)
qed

lemma holding_critical:
  assumes "owner_ok lk pc" "holding lk c" "pc c \<noteq> Panicked"
  shows "pc c = Tracing \<or> pc c = Holding"
proof (cases "\<exists>c'. critical (pc c')")
  case True
  then obtain c' where c': "critical (pc c')" by blast
  then show ?thesis using owner_ok_critical(3) [OF assms(1) c'] assms(2) by (auto simp: holding_def split: if_splits)
next
  case False
  then show ?thesis using assms by (auto simp: owner_ok_def holding_def)
qed

lemma owner_ok_outside:
  assumes ok: "owner_ok lk pc" and "pc c = Outside \<or> pc c = Spinning" "\<not> critical p"
  shows "owner_ok lk (pc(c := p))"
proof -
  have same: "critical ((pc(c := p)) c') \<longleftrightarrow> critical (pc c')" for c' using assms(2,3) by auto
  show ?thesis
  proof (cases "\<exists>c'. critical (pc c')")
    case True
    then obtain c' where c': "critical (pc c')" by blast
    then have "c' \<noteq> c" using assms(2) by auto
    then show ?thesis using owner_ok_critical [OF ok c'] same c' by (intro owner_ok_intro [of _ c']) simp_all
  next
    case False
    then have "locked lk \<noteq> 0 \<Longrightarrow> \<exists>c'. pc c' = Panicked \<and> c' \<noteq> c \<and> lk_cpu lk = Some c'" using ok assms(2) by (fastforce simp: owner_ok_def)
    moreover have "locked lk = 0 \<Longrightarrow> lk_cpu lk = None" using ok by (simp add: owner_ok_def)
    ultimately show ?thesis using False same unfolding owner_ok_def by fastforce
  qed
qed

lemma lock_step_owner:
  assumes ok: "owner_ok lk pc" and "lock_step frames (lk, pc) (lk', pc')"
  shows "owner_ok lk' pc'"
  using assms(2)
proof (cases rule: lock_step.cases)
  case (lock_call c)
  show ?thesis
  proof (cases "pc c = Holding")
    case True
    note own = owner_ok_critical [OF ok, of c]
    have "holding lk c" using own True by (simp add: holding_def)
    then show ?thesis using own True lock_call by (auto simp: owner_ok_def)
  next
    case False
    then have out: "pc c = Outside" "\<not> holding lk c" using lock_call holding_critical [OF ok, of c] by auto
    show ?thesis using owner_ok_outside [OF ok, of c Spinning] lock_call out by simp
  qed
next
  case (spin c old)
  show ?thesis
  proof (cases "locked lk = 0")
    case True
    then have "\<not> critical (pc c')" "lk_cpu lk = None" for c' using ok by (auto simp: owner_ok_def)
    then show ?thesis using spin True by (auto simp: xchg_locked_def intro!: owner_ok_intro [of _ c] split: if_splits)
  next
    case False
    then have "owner_ok (lk\<lparr>locked := 1\<rparr>) pc" using ok by (simp add: owner_ok_def)
    then show ?thesis using spin False owner_ok_outside [of "lk\<lparr>locked := 1\<rparr>" pc c Spinning] by (auto simp: xchg_locked_def)
  qed
next
  case own_step: (own c)
  then have own: "locked lk \<noteq> 0" "\<And>c'. critical (pc c') \<longleftrightarrow> c' = c" "pc c = Tracing \<longrightarrow> lk_cpu lk = Some c"
    using owner_ok_critical [OF ok, of c] by simp_all
  have "owner_ok lk' (pc(c := Tracing))" using own_step own by (intro owner_ok_intro [of _ c]) (simp_all split: if_splits)
  then show ?thesis using own_step by simp
next
  case (trace c m ebp)
  then have own: "locked lk \<noteq> 0" "\<And>c'. critical (pc c') \<longleftrightarrow> c' = c" "pc c = Tracing \<longrightarrow> lk_cpu lk = Some c"
    using owner_ok_critical [OF ok, of c] by simp_all
  have "owner_ok lk' (pc(c := Holding))" using trace own by (intro owner_ok_intro [of _ c]) (simp_all split: if_splits)
  then show ?thesis using trace by simp
next
  case (unlock_refused c)
  then have "pc c = Outside" using owner_ok_critical [OF ok, of c] by (auto simp: holding_def)
  then show ?thesis using unlock_refused owner_ok_outside [OF ok, of c Panicked] by simp
next
  case (unlock_clear c)
  then have "pc c = Holding" using holding_critical [OF ok, of c] by auto
  then have own: "locked lk \<noteq> 0" "\<And>c'. critical (pc c') \<longleftrightarrow> c' = c" using owner_ok_critical(1,2) [OF ok, of c] by simp_all
  have "owner_ok lk' (pc(c := Releasing))" using unlock_clear own by (intro owner_ok_intro [of _ c]) (simp_all split: if_splits)
  then show ?thesis using unlock_clear by simp
next
  case (unlock c old)
  then show ?thesis using owner_ok_critical [OF ok, of c] by (auto simp: owner_ok_def xchg_locked_def)
qed

lemma lock_run_owner: "lock_run frames st \<Longrightarrow> owner_ok (fst st) (snd st)"
proof (induction rule: lock_run.induct)
  case (start nm lk)
  then show ?case by (simp add: owner_ok_def spin_initlock_def)
next
  case (step st st')
  then show ?case using lock_step_owner [of "fst st" "snd st" frames "fst st'" "snd st'"] by simp
qed

end
