(* ===== verification/Lib_Printf.thy ===== *)
theory Lib_Printf
  imports Lib_String
begin

unbundle bit_operations_syntax

text \<open>
  Formatted output (\<^verbatim>\<open>src/TP Sched/lib/printfmt.c\<close>, \<^verbatim>\<open>lib/printf.c\<close>). The characters handed to \<^verbatim>\<open>putch\<close>, as integers and in order, are
  the result; \<^term>\<open>None\<close> means that a loop does not return or that an argument is missing. The arguments are the 32-bit words
  on the stack (a \<^verbatim>\<open>long long\<close> is two of them, the low one first); a string argument is an address. The format is read
  from a memory of its own, so that string literals need no address; \<^verbatim>\<open>literal s\<close> is a memory that holds \<open>s\<close> at 0. The
  memory is that at the time of the call: a buffer that is being written must not overlap the strings that are read.
\<close>

definition literal :: "string \<Rightarrow> ram" where
  "literal s a = (if unat a < length s then s ! unat a else NUL)"

text \<open>A \<^verbatim>\<open>char\<close> is signed: its value as an \<^verbatim>\<open>int\<close>.\<close>

definition signed_char :: "char \<Rightarrow> int" where
  "signed_char c = (if of_char c < (128 :: int) then of_char c else of_char c - 256)"

abbreviation (input) MAXERROR :: int where "MAXERROR \<equiv> 9"

definition error_string :: "int \<Rightarrow> string option" where
  "error_string e =
     (if e = 1 then Some ''unspecified error''
      else if e = 2 then Some ''bad environment''
      else if e = 3 then Some ''invalid parameter''
      else if e = 4 then Some ''out of memory''
      else if e = 5 then Some ''out of environments''
      else if e = 6 then Some ''segmentation fault''
      else if e = 7 then Some ''env is not recving''
      else if e = 8 then Some ''unexpected end of file''
      else None)"

partial_function (option) printnum :: "64 word \<Rightarrow> 64 word \<Rightarrow> int \<Rightarrow> int \<Rightarrow> int list option" where
  "printnum num base width padc = do {
     out \<leftarrow> (if num \<ge> base then printnum (num div base) base (width - 1) padc
       else Some (replicate (nat (width - 1)) padc));
     guard (num mod base < 16);
     Some (out @ [of_char (''0123456789abcdef'' ! unat (num mod base))])
   }"

type_synonym va_list = "32 word list"

fun getuint :: "va_list \<Rightarrow> int \<Rightarrow> (64 word \<times> va_list) option" where
  "getuint ap lflag =
     (if lflag \<ge> 2 then case ap of lo # hi # ap \<Rightarrow> Some (push_bit 32 (ucast hi) OR ucast lo, ap) | _ \<Rightarrow> None
      else case ap of w # ap \<Rightarrow> Some (ucast w, ap) | _ \<Rightarrow> None)"

fun getint :: "va_list \<Rightarrow> int \<Rightarrow> (64 word \<times> va_list) option" where
  "getint ap lflag =
     (if lflag \<ge> 2 then case ap of lo # hi # ap \<Rightarrow> Some (push_bit 32 (ucast hi) OR ucast lo, ap) | _ \<Rightarrow> None
      else case ap of w # ap \<Rightarrow> Some (scast w, ap) | _ \<Rightarrow> None)"

section \<open>The flags of a conversion\<close>

record spec =
  padc :: char
  width :: int
  precision :: int
  lflag :: int
  altflag :: bool

definition new_spec :: spec where
  "new_spec = \<lparr>padc = CHR '' '', width = - 1, precision = - 1, lflag = 0, altflag = False\<rparr>"

definition is_digit :: "char \<Rightarrow> bool" where
  "is_digit c \<longleftrightarrow> 48 \<le> (of_char c :: int) \<and> (of_char c :: int) \<le> 57"

partial_function (option) read_width :: "ram \<Rightarrow> addr \<Rightarrow> char \<Rightarrow> int \<Rightarrow> (int \<times> addr) option" where
  "read_width mf f ch prec =
     (let prec = prec * 10 + of_char ch - 48 in if is_digit (mf f) then read_width mf (f + 1) (mf f) prec else Some (prec, f))"

definition process_precision :: "spec \<Rightarrow> spec" where
  "process_precision sp = (if width sp < 0 then sp\<lparr>width := precision sp, precision := - 1\<rparr> else sp)"

text \<open>From the character after \<^verbatim>\<open>%\<close> to the one that names the conversion, both read.\<close>

partial_function (option) read_spec :: "ram \<Rightarrow> addr \<Rightarrow> va_list \<Rightarrow> spec \<Rightarrow> (char \<times> addr \<times> va_list \<times> spec) option" where
  "read_spec mf f ap sp =
     (let ch = mf f; f = f + 1 in
      if ch = CHR ''-'' then read_spec mf f ap (sp\<lparr>padc := CHR ''-''\<rparr>)
      else if ch = CHR ''0'' then read_spec mf f ap (sp\<lparr>padc := CHR ''0''\<rparr>)
      else if is_digit ch then do {
        (prec, f) \<leftarrow> read_width mf f ch 0;
        read_spec mf f ap (process_precision (sp\<lparr>precision := prec\<rparr>))
      }
      else if ch = CHR ''*'' then (case ap of
          [] \<Rightarrow> None
        | w # ap \<Rightarrow> read_spec mf f ap (process_precision (sp\<lparr>precision := sint w\<rparr>)))
      else if ch = CHR ''.'' then read_spec mf f ap (if width sp < 0 then sp\<lparr>width := 0\<rparr> else sp)
      else if ch = CHR ''#'' then read_spec mf f ap (sp\<lparr>altflag := True\<rparr>)
      else if ch = CHR ''l'' then read_spec mf f ap (sp\<lparr>lflag := lflag sp + 1\<rparr>)
      else Some (ch, f, ap, sp))"

section \<open>Conversions\<close>

text \<open>The characters of a string up to its terminator or the precision, with the remaining width.\<close>

partial_function (option) string_chars :: "ram \<Rightarrow> addr \<Rightarrow> int \<Rightarrow> int \<Rightarrow> bool \<Rightarrow> (int list \<times> int) option" where
  "string_chars m p prec w alt =
     (let ch = signed_char (m p) in
      if m p \<noteq> NUL \<and> (prec < 0 \<or> prec - 1 \<ge> 0)
      then do {
        (out, w) \<leftarrow> string_chars m (p + 1) (if prec < 0 then prec else prec - 1) (w - 1) alt;
        Some ((if alt \<and> (ch < 32 \<or> ch > 126) then of_char (CHR ''?'') else ch) # out, w)
      }
      else Some ([], w))"

definition put_string :: "ram \<Rightarrow> addr \<Rightarrow> spec \<Rightarrow> int list option" where
  "put_string m p sp = do {
     let (pad, w) = (if width sp > 0 \<and> padc sp \<noteq> CHR ''-''
       then let w = width sp - sint (strnlen m p (word_of_int (precision sp))) in (replicate (nat w) (signed_char (padc sp)), min w 0)
       else ([], width sp));
     (out, w) \<leftarrow> string_chars m p (precision sp) w (altflag sp);
     Some (pad @ out @ replicate (nat w) 32)
   }"

definition number :: "64 word \<Rightarrow> 64 word \<Rightarrow> spec \<Rightarrow> int list option" where
  "number num base sp = printnum num base (width sp) (signed_char (padc sp))"

definition signed_number :: "64 word \<Rightarrow> spec \<Rightarrow> int list option" where
  "signed_number num sp =
     (if sint num < 0 then map_option ((#) (of_char (CHR ''-''))) (number (- num) 10 sp) else number num 10 sp)"

text \<open>Back to the character after the last \<^verbatim>\<open>%\<close>.\<close>

partial_function (option) back_to_percent :: "ram \<Rightarrow> addr \<Rightarrow> addr option" where
  "back_to_percent mf f = (if mf (f - 1) \<noteq> CHR ''%'' then back_to_percent mf (f - 1) else Some f)"

text \<open>
  \<^verbatim>\<open>%e\<close> formats its message with \<^verbatim>\<open>printfmt\<close>: \<^verbatim>\<open>"error %d"\<close> or the string itself; both without flags.
\<close>

definition put_error :: "32 word \<Rightarrow> int list option" where
  "put_error w =
     (let err = (if sint w < 0 then - sint w else sint w) in
      case (if err \<ge> MAXERROR then None else error_string err) of
        None \<Rightarrow> map_option ((@) (map of_char ''error '')) (signed_number (word_of_int err) new_spec)
      | Some s \<Rightarrow> put_string (literal s) 0 new_spec)"

definition convert ::
  "ram \<Rightarrow> ram \<Rightarrow> char \<Rightarrow> addr \<Rightarrow> va_list \<Rightarrow> spec \<Rightarrow> (int list \<times> addr \<times> va_list) option" where
  "convert mf m ch f ap sp =
     (if ch = CHR ''c'' then (case ap of [] \<Rightarrow> None | w # ap \<Rightarrow> Some ([sint w], f, ap))
      else if ch = CHR ''e'' then (case ap of [] \<Rightarrow> None | w # ap \<Rightarrow> map_option (\<lambda>out. (out, f, ap)) (put_error w))
      else if ch = CHR ''s'' then (case ap of [] \<Rightarrow> None
        | p # ap \<Rightarrow> map_option (\<lambda>out. (out, f, ap)) (if p = 0 then put_string (literal ''(null)'') 0 sp else put_string m p sp))
      else if ch = CHR ''d'' then do { (num, ap) \<leftarrow> getint ap (lflag sp); out \<leftarrow> signed_number num sp; Some (out, f, ap) }
      else if ch = CHR ''u'' then do { (num, ap) \<leftarrow> getuint ap (lflag sp); out \<leftarrow> number num 10 sp; Some (out, f, ap) }
      else if ch = CHR ''o'' then do { (num, ap) \<leftarrow> getuint ap (lflag sp); out \<leftarrow> number num 8 sp; Some (out, f, ap) }
      else if ch = CHR ''p'' then (case ap of [] \<Rightarrow> None
        | w # ap \<Rightarrow> map_option (\<lambda>out. (map of_char ''0x'' @ out, f, ap)) (number (ucast w) 16 sp))
      else if ch = CHR ''x'' then do { (num, ap) \<leftarrow> getuint ap (lflag sp); out \<leftarrow> number num 16 sp; Some (out, f, ap) }
      else if ch = CHR ''%'' then Some ([of_char ch], f, ap)
      else map_option (\<lambda>f. ([of_char (CHR ''%'')], f, ap)) (back_to_percent mf (f - 1)))"

partial_function (option) vprintfmt :: "ram \<Rightarrow> addr \<Rightarrow> ram \<Rightarrow> va_list \<Rightarrow> int list option" where
  "vprintfmt mf f m ap =
     (let ch = mf f; f = f + 1 in
      if ch \<noteq> CHR ''%''
      then if ch = NUL then Some [] else do { out \<leftarrow> vprintfmt mf f m ap; Some (of_char ch # out) }
      else do {
        (ch, f, ap, sp) \<leftarrow> read_spec mf f ap new_spec;
        (conv, f, ap) \<leftarrow> convert mf m ch f ap sp;
        out \<leftarrow> vprintfmt mf f m ap;
        Some (conv @ out)
      })"

section \<open>Printing to a buffer\<close>

record sprintbuf =
  sbuf :: addr
  ebuf :: addr
  scnt :: int
  sram :: ram

definition sprintputch :: "int \<Rightarrow> sprintbuf \<Rightarrow> sprintbuf" where
  "sprintputch ch b =
     (let b = b\<lparr>scnt := scnt b + 1\<rparr> in
      if sbuf b < ebuf b then b\<lparr>sram := (sram b)(sbuf b := char_of ch), sbuf := sbuf b + 1\<rparr> else b)"

text \<open>\<^verbatim>\<open>E_INVAL\<close> is 3.\<close>

definition vsnprintf :: "addr \<Rightarrow> int \<Rightarrow> ram \<Rightarrow> addr \<Rightarrow> va_list \<Rightarrow> ram \<Rightarrow> (int \<times> ram) option" where
  "vsnprintf buf n mf f ap m =
     (let b = \<lparr>sbuf = buf, ebuf = buf + word_of_int n - 1, scnt = 0, sram = m\<rparr> in
      if buf = 0 \<or> n < 1 then Some (- 3, m)
      else do {
        out \<leftarrow> vprintfmt mf f m ap;
        let b = fold sprintputch out b;
        Some (scnt b, (sram b)(sbuf b := NUL))
      })"

text \<open>
  The output of programs (\<^verbatim>\<open>lib/printf.c\<close>): characters are collected and printed when 255 are there. The buffer of 256 bytes
  is a list, and what each call of \<^verbatim>\<open>sys_cputs\<close> prints is recorded.
\<close>

record printbuf =
  pbuf :: string
  pcnt :: int
  printed :: "string list"

definition putch :: "int \<Rightarrow> printbuf \<Rightarrow> printbuf" where
  "putch ch b =
     (let b = b\<lparr>pbuf := pbuf b @ [char_of ch]\<rparr>;
          b = (if length (pbuf b) = 256 - 1 then b\<lparr>printed := printed b @ [pbuf b], pbuf := []\<rparr> else b)
      in b\<lparr>pcnt := pcnt b + 1\<rparr>)"

definition vcprintf :: "ram \<Rightarrow> addr \<Rightarrow> va_list \<Rightarrow> ram \<Rightarrow> (int \<times> string list) option" where
  "vcprintf mf f ap m = do {
     out \<leftarrow> vprintfmt mf f m ap;
     let b = fold putch out \<lparr>pbuf = [], pcnt = 0, printed = []\<rparr>;
     Some (pcnt b, printed b @ [pbuf b])
   }"

end
