(* ===== verification/Kern_Monitor.thy ===== *)
theory Kern_Monitor
  imports Kern_Console_Props Lib_Printf Kern_Env
begin

unbundle bit_operations_syntax

text \<open>
  The kernel monitor: \<^verbatim>\<open>src/TP Sched/kern/monitor.c\<close> with the line editor \<^verbatim>\<open>lib/readline.c\<close> and the output \<^verbatim>\<open>kern/printf.c\<close>, on the
  console. A format with only \<^verbatim>\<open>%s\<close> conversions is written as the concatenation of its strings. The addresses that the
  linker gives to the kernel are a parameter. \<^term>\<open>None\<close> is a call that never returns, or a store outside the display.
\<close>

type_synonym typing = "(console \<Rightarrow> console) list"

section \<open>Output\<close>

fun cputs :: "int list \<Rightarrow> console \<Rightarrow> console option" where
  "cputs [] s = Some s"
| "cputs (c # cs) s = do { s \<leftarrow> cputchar (word_of_int c) s; cputs cs s }"

abbreviation (input) codes :: "string \<Rightarrow> int list" where
  "codes s \<equiv> map of_char s"

definition kern_vcprintf :: "ram \<Rightarrow> addr \<Rightarrow> ram \<Rightarrow> va_list \<Rightarrow> console \<Rightarrow> (int \<times> console) option" where
  "kern_vcprintf mf f m ap s = do {
     out \<leftarrow> vprintfmt mf f m ap;
     s \<leftarrow> cputs out s;
     Some (int (length out), s)
   }"

definition kern_cprintf :: "string \<Rightarrow> va_list \<Rightarrow> console \<Rightarrow> console option" where
  "kern_cprintf fmt ap s = map_option snd (kern_vcprintf (literal fmt) 0 (\<lambda>_. NUL) ap s)"

section \<open>Reading a line\<close>

abbreviation (input) BUFLEN :: nat where "BUFLEN \<equiv> 1024"

partial_function (option) readline_loop :: "typing \<Rightarrow> 8 word list \<Rightarrow> console \<Rightarrow> (8 word list option \<times> console \<times> typing) option" where
  "readline_loop input buf s = do {
     (c, s, input) \<leftarrow> getchar input s;
     if c < 0 then do { s \<leftarrow> kern_cprintf ''read error: %e\<newline>'' [word_of_int c] s; Some (None, s, input) }
     else if (c = 8 \<or> c = 0x7F) \<and> length buf > 0 then do {
       s \<leftarrow> (if iscons 0 \<noteq> 0 then cputchar 8 s else Some s);
       readline_loop input (butlast buf) s
     }
     else if c \<ge> 32 \<and> length buf < BUFLEN - 1 then do {
       s \<leftarrow> (if iscons 0 \<noteq> 0 then cputchar (word_of_int c) s else Some s);
       readline_loop input (buf @ [word_of_int c]) s
     }
     else if c = 10 \<or> c = 13 then do {
       s \<leftarrow> (if iscons 0 \<noteq> 0 then cputchar 10 s else Some s);
       Some (Some buf, s, input)
     }
     else readline_loop input buf s
   }"

definition readline :: "string option \<Rightarrow> typing \<Rightarrow> console \<Rightarrow> (8 word list option \<times> console \<times> typing) option" where
  "readline prompt input s = do {
     s \<leftarrow> (case prompt of None \<Rightarrow> Some s | Some p \<Rightarrow> cputs (codes p) s);
     readline_loop input [] s
   }"

section \<open>Printing a trap frame\<close>

definition excnames :: "string list" where
  "excnames = [''Divide error'', ''Debug'', ''Non-Maskable Interrupt'', ''Breakpoint'', ''Overflow'', ''BOUND Range Exceeded'',
     ''Invalid Opcode'', ''Device Not Available'', ''Double Fault'', ''Coprocessor Segment Overrun'', ''Invalid TSS'',
     ''Segment Not Present'', ''Stack Fault'', ''General Protection'', ''Page Fault'', ''(unknown trap)'',
     ''x87 FPU Floating-Point Error'', ''Alignment Check'', ''Machine-Check'', ''SIMD Floating-Point Exception'']"

definition trapname :: "32 word \<Rightarrow> string" where
  "trapname trapno =
     (if unat trapno < length excnames then excnames ! unat trapno
      else if trapno = 48 then ''System call''
      else if 32 \<le> trapno \<and> trapno < 48 then ''Hardware Interrupt''
      else ''(unknown trap)'')"

definition print_regs :: "push_regs \<Rightarrow> console \<Rightarrow> console option" where
  "print_regs regs s = do {
     s \<leftarrow> kern_cprintf ''  edi  0x%08x\<newline>'' [reg_edi regs] s;
     s \<leftarrow> kern_cprintf ''  esi  0x%08x\<newline>'' [reg_esi regs] s;
     s \<leftarrow> kern_cprintf ''  ebp  0x%08x\<newline>'' [reg_ebp regs] s;
     s \<leftarrow> kern_cprintf ''  oesp 0x%08x\<newline>'' [reg_oesp regs] s;
     s \<leftarrow> kern_cprintf ''  ebx  0x%08x\<newline>'' [reg_ebx regs] s;
     s \<leftarrow> kern_cprintf ''  edx  0x%08x\<newline>'' [reg_edx regs] s;
     s \<leftarrow> kern_cprintf ''  ecx  0x%08x\<newline>'' [reg_ecx regs] s;
     kern_cprintf ''  eax  0x%08x\<newline>'' [reg_eax regs] s
   }"

text \<open>\<open>fresh\<close>: the frame is that of the trap being handled (\<^verbatim>\<open>last_tf\<close>), so that \<open>cr2\<close> is meaningful.\<close>

definition print_trapframe :: "addr \<Rightarrow> nat \<Rightarrow> bool \<Rightarrow> 32 word \<Rightarrow> trapframe \<Rightarrow> console \<Rightarrow> console option" where
  "print_trapframe at cpunum fresh cr2 tf s = do {
     s \<leftarrow> kern_cprintf ''TRAP frame at %p from CPU %d\<newline>'' [at, of_nat cpunum] s;
     s \<leftarrow> print_regs (tf_regs tf) s;
     s \<leftarrow> kern_cprintf ''  es   0x----%04x\<newline>'' [ucast (tf_es tf)] s;
     s \<leftarrow> kern_cprintf ''  ds   0x----%04x\<newline>'' [ucast (tf_ds tf)] s;
     s \<leftarrow> kern_cprintf ''  trap 0x%08x '' [tf_trapno tf] s;
     s \<leftarrow> cputs (codes (trapname (tf_trapno tf) @ ''\<newline>'')) s;
     s \<leftarrow> (if fresh \<and> tf_trapno tf = 14 then kern_cprintf ''  cr2  0x%08x\<newline>'' [cr2] s else Some s);
     s \<leftarrow> kern_cprintf ''  err  0x%08x'' [tf_err tf] s;
     s \<leftarrow> cputs (codes
            (if tf_trapno tf = 14
             then '' ['' @ (if tf_err tf AND 4 \<noteq> 0 then ''user'' else ''kernel'') @ '', '' @
                  (if tf_err tf AND 2 \<noteq> 0 then ''write'' else ''read'') @ '', '' @
                  (if tf_err tf AND 1 \<noteq> 0 then ''protection'' else ''not-present'') @ '']\<newline>''
             else ''\<newline>'')) s;
     s \<leftarrow> kern_cprintf ''  eip  0x%08x\<newline>'' [tf_eip tf] s;
     s \<leftarrow> kern_cprintf ''  cs   0x----%04x\<newline>'' [ucast (tf_cs tf)] s;
     s \<leftarrow> kern_cprintf ''  flag 0x%08x\<newline>'' [tf_eflags tf] s;
     if tf_cs tf AND 3 \<noteq> 0
     then do {
       s \<leftarrow> kern_cprintf ''  esp  0x%08x\<newline>'' [tf_esp tf] s;
       kern_cprintf ''  ss   0x----%04x\<newline>'' [ucast (tf_ss tf)] s
     }
     else Some s
   }"

section \<open>Commands\<close>

abbreviation (input) MAXARGS :: nat where "MAXARGS \<equiv> 16"

record kernel_symbols =
  sym_start :: "32 word"
  sym_entry :: "32 word"
  sym_etext :: "32 word"
  sym_edata :: "32 word"
  sym_end :: "32 word"

datatype command = Mon_Help | Mon_Kerninfo

definition commands :: "(string \<times> string \<times> command) list" where
  "commands = [(''help'', ''Display this list of commands'', Mon_Help),
     (''kerninfo'', ''Display information about the kernel'', Mon_Kerninfo)]"

definition mon_help :: "console \<Rightarrow> (int \<times> console) option" where
  "mon_help s = do {
     s \<leftarrow> cputs (concat (map (\<lambda>(name, desc, _). codes (name @ '' - '' @ desc @ ''\<newline>'')) commands)) s;
     Some (0, s)
   }"

text \<open>\<^verbatim>\<open>KERNBASE\<close> is \<^verbatim>\<open>0xF0000000\<close>; \<^verbatim>\<open>ROUNDUP (n, 1024) / 1024\<close> on 32-bit words.\<close>

definition mon_kerninfo :: "kernel_symbols \<Rightarrow> console \<Rightarrow> (int \<times> console) option" where
  "mon_kerninfo y s = do {
     s \<leftarrow> cputs (codes ''Special kernel symbols:\<newline>'') s;
     s \<leftarrow> kern_cprintf ''  _start                  %08x (phys)\<newline>'' [sym_start y] s;
     s \<leftarrow> kern_cprintf ''  entry  %08x (virt)  %08x (phys)\<newline>'' [sym_entry y, sym_entry y - 0xF0000000] s;
     s \<leftarrow> kern_cprintf ''  etext  %08x (virt)  %08x (phys)\<newline>'' [sym_etext y, sym_etext y - 0xF0000000] s;
     s \<leftarrow> kern_cprintf ''  edata  %08x (virt)  %08x (phys)\<newline>'' [sym_edata y, sym_edata y - 0xF0000000] s;
     s \<leftarrow> kern_cprintf ''  end    %08x (virt)  %08x (phys)\<newline>'' [sym_end y, sym_end y - 0xF0000000] s;
     let n = sym_end y - sym_entry y + 1023;
     s \<leftarrow> kern_cprintf ''Kernel executable memory footprint: %dKB\<newline>'' [(n - n mod 1024) div 1024] s;
     Some (0, s)
   }"

definition whitespace :: "char \<Rightarrow> bool" where
  "whitespace c \<longleftrightarrow> c \<in> {CHR 0x09, CHR 0x0D, CHR 0x0A, CHR '' ''}"

text \<open>The arguments of a line, or \<^term>\<open>None\<close> when there are too many.\<close>

function split_args :: "string \<Rightarrow> string list \<Rightarrow> string list option" where
  "split_args buf argv =
     (let buf = dropWhile whitespace buf in
      if buf = [] then Some argv
      else if length argv = MAXARGS - 1 then None
      else split_args (dropWhile (\<lambda>c. \<not> whitespace c) buf) (argv @ [takeWhile (\<lambda>c. \<not> whitespace c) buf]))"
  by pat_completeness auto
termination
proof (relation "measure (\<lambda>(buf, argv). length buf)", goal_cases)
  case (2 buf argv x)
  then have "\<not> whitespace (hd x)" using hd_dropWhile [of whitespace buf] by simp
  then obtain c cs where x: "x = c # cs" "\<not> whitespace c" using 2(2) by (cases x) auto
  then have "length (dropWhile (\<lambda>c. \<not> whitespace c) x) \<le> length cs" by (simp add: length_dropWhile_le)
  moreover have "length x \<le> length buf" using 2(1) by (simp add: length_dropWhile_le)
  ultimately show ?case using x by simp
qed simp

declare split_args.simps [simp del]

definition runcmd :: "kernel_symbols \<Rightarrow> string \<Rightarrow> console \<Rightarrow> (int \<times> console) option" where
  "runcmd y buf s =
     (case split_args buf [] of
        None \<Rightarrow> do { s \<leftarrow> cputs (codes ''Too many arguments (max 16)\<newline>'') s; Some (0, s) }
      | Some [] \<Rightarrow> Some (0, s)
      | Some (name # _) \<Rightarrow>
          (case find (\<lambda>(n, _, _). name = n) commands of
             Some (_, _, Mon_Help) \<Rightarrow> mon_help s
           | Some (_, _, Mon_Kerninfo) \<Rightarrow> mon_kerninfo y s
           | None \<Rightarrow> do { s \<leftarrow> cputs (codes (''Unknown command '' @ [CHR 0x27] @ name @ [CHR 0x27] @ ''\<newline>'')) s; Some (0, s) }))"

text \<open>The loop of \<^verbatim>\<open>monitor\<close>. The buffer of \<^verbatim>\<open>readline\<close> is a string: bytes up to 1023, none of them zero.\<close>

partial_function (option) monitor_loop :: "kernel_symbols \<Rightarrow> typing \<Rightarrow> console \<Rightarrow> console option" where
  "monitor_loop y input s = do {
     (buf, s, input) \<leftarrow> readline (Some ''K> '') input s;
     case buf of
       None \<Rightarrow> monitor_loop y input s
     | Some b \<Rightarrow> do {
         (r, s) \<leftarrow> runcmd y (map (\<lambda>w. char_of (uint w)) b) s;
         if r < 0 then Some s else monitor_loop y input s
       }
   }"

text \<open>The frame, with where it is, the processor, and what \<^verbatim>\<open>print_trapframe\<close> needs to know of the registers.\<close>

type_synonym frame_at = "addr \<times> nat \<times> bool \<times> 32 word \<times> trapframe"

definition monitor :: "kernel_symbols \<Rightarrow> frame_at option \<Rightarrow> typing \<Rightarrow> console \<Rightarrow> console option" where
  "monitor y tf input s = do {
     s \<leftarrow> cputs (codes ''Welcome to the JOS kernel monitor!\<newline>'') s;
     s \<leftarrow> cputs (codes (''Type '' @ [CHR 0x27] @ ''help'' @ [CHR 0x27] @ '' for a list of commands.\<newline>'')) s;
     s \<leftarrow> (case tf of None \<Rightarrow> Some s | Some (p, cpu, fresh, cr2, f) \<Rightarrow> print_trapframe p cpu fresh cr2 f s);
     monitor_loop y input s
   }"

end
