(* ===== verification/Kern_Monitor_Props.thy ===== *)
theory Kern_Monitor_Props
  imports Kern_Monitor
begin

unbundle bit_operations_syntax

text \<open>Facts about the monitor: printing keeps the input, the line editor, the splitting of a line, and that it never returns.\<close>

section \<open>Printing leaves the input alone\<close>

definition input_side :: "console \<Rightarrow> (bool \<times> 8 word) list \<times> 8 word list \<times> bool \<times> 32 word \<times> 8 word list \<times> nat \<times> nat" where
  "input_side s = (kbd_port s, com_port s, serial_exists s, shift s, cbuf s, rpos s, wpos s)"

lemma input_side_eq:
  assumes "input_side s' = input_side s"
  shows "kbd_port s' = kbd_port s" "com_port s' = com_port s" "ring_ok s' = ring_ok s" "pending s' = pending s" "fill s' = fill s"
  using assms by (simp_all add: input_side_def ring_ok_def pending_def fill_def)

lemma input_side_ports [simp]: "input_side (serial_putc c s) = input_side s" "input_side (lpt_putc c s) = input_side s"
  "input_side (crt_scroll s) = input_side s"
  by (simp_all add: input_side_def serial_putc_def lpt_putc_def crt_scroll_def)

lemma cga_plain_input: "cga_plain c s = Some s' \<Longrightarrow> input_side s' = input_side s"
  by (auto simp: cga_plain_def Let_def crt_write_def input_side_def crt_scroll_def split: if_splits)

lemma blank_input: "cons_putc_blank s = Some s' \<Longrightarrow> input_side s' = input_side s"
  by (simp add: cons_putc_blank_def cga_plain_input)

lemma cga_putc_input: "cga_putc c s = Some s' \<Longrightarrow> input_side s' = input_side s"
  by (auto simp: cga_putc_def cga_plain_input dest!: blank_input elim!: bind_Some_elim split: if_splits)

lemma cputchar_ok:
  assumes "crt_ok s"
  shows "\<exists>s'. cputchar c s = Some s' \<and> crt_ok s' \<and> input_side s' = input_side s"
  using cons_putc_ok [OF assms, of c] cga_putc_input by (fastforce simp: cputchar_def cons_putc_def)

lemma cputs_ok: "crt_ok s \<Longrightarrow> \<exists>s'. cputs cs s = Some s' \<and> crt_ok s' \<and> input_side s' = input_side s"
proof (induction cs arbitrary: s)
  case (Cons c cs)
  then obtain t where "cputchar (word_of_int c) s = Some t" "crt_ok t" "input_side t = input_side s" using cputchar_ok by blast
  then show ?case using Cons.IH [of t] by simp
qed simp

section \<open>Reading a line\<close>

definition quiet :: "console \<Rightarrow> bool" where
  "quiet s \<longleftrightarrow> crt_ok s \<and> ring_ok s \<and> kbd_port s = [] \<and> com_port s = []"

lemma getchar_pending:
  assumes q: "quiet s" and p: "pending s = x # xs" and x: "x \<noteq> 0"
  shows "\<exists>s'. getchar input s = Some (uint x, s', input) \<and> quiet s' \<and> pending s' = xs"
proof -
  have ser: "serial_intr s = Some s" using q by (simp add: serial_intr_def cons_intr.simps [of _ s] serial_proc_data_def quiet_def)
  have kbd: "kbd_intr s = Some s" using q by (simp add: kbd_intr_def cons_intr.simps [of _ s] kbd_proc_data_def quiet_def)
  obtain s' where s': "cons_pop s = (uint x, s')" "pending s' = xs" "ring_ok s'" "kbd_port s' = kbd_port s" "com_port s' = com_port s"
    using cons_pop_queue [of s x xs] q p by (auto simp: quiet_def)
  moreover have "crt_ok s'" using s'(1) q by (auto simp: cons_pop_def Let_def quiet_def crt_ok_def split: if_splits)
  moreover have "uint x \<noteq> 0" using x by (simp add: uint_0_iff)
  ultimately show ?thesis using q ser kbd by (auto simp: getchar.simps [of input s] cons_getc_def quiet_def)
qed

definition edit :: "8 word list \<Rightarrow> 8 word \<Rightarrow> 8 word list" where
  "edit buf c =
     (if (c = 8 \<or> c = 0x7F) \<and> buf \<noteq> [] then butlast buf
      else if 32 \<le> c \<and> length buf < BUFLEN - 1 then buf @ [c]
      else buf)"

definition line_end :: "8 word \<Rightarrow> bool" where
  "line_end c \<longleftrightarrow> c = 10 \<or> c = 13"

lemma quiet_input: "quiet s \<Longrightarrow> crt_ok s' \<Longrightarrow> input_side s' = input_side s \<Longrightarrow> quiet s'"
  using input_side_eq [of s' s] by (simp add: quiet_def)

lemma edit_length: "length buf < BUFLEN \<Longrightarrow> length (foldl edit buf cs) < BUFLEN"
proof (induction cs arbitrary: buf)
  case (Cons c cs)
  have "length (edit buf c) < BUFLEN" using Cons.prems by (auto simp: edit_def)
  then show ?case using Cons.IH by simp
qed simp

lemma byte_cases: "(uint c = 8) = (c = (8 :: 8 word))" "(uint c = 0x7F) = (c = 0x7F)" "(uint c \<ge> 32) = (32 \<le> c)"
  "(uint c = 10) = (c = 10)" "(uint c = 13) = (c = 13)"
  by (simp_all add: word_uint_eq_iff word_le_def)

lemma readline_loop_step:
  assumes q: "quiet s" and p: "pending s = c # cs" and c: "c \<noteq> 0" "\<not> line_end c"
  shows "\<exists>s'. readline_loop input buf s = readline_loop input (edit buf c) s' \<and> quiet s' \<and> pending s' = cs"
proof -
  obtain t where t: "getchar input s = Some (uint c, t, input)" "quiet t" "pending t = cs" using getchar_pending [OF q p c(1)] by blast
  have nn: "\<not> uint c < 0" using uint_nonnegative [of c] by linarith
  have crt: "crt_ok t" using t(2) by (simp add: quiet_def)
  obtain t1 where t1: "cputchar 8 t = Some t1" "crt_ok t1" "input_side t1 = input_side t" using cputchar_ok [OF crt] by blast
  obtain t2 where t2: "cputchar (word_of_int (uint c)) t = Some t2" "crt_ok t2" "input_side t2 = input_side t" using cputchar_ok [OF crt] by blast
  have q1: "quiet t1" "pending t1 = cs" using quiet_input [OF t(2) t1(2,3)] input_side_eq(4) [OF t1(3)] t(3) by simp_all
  have q2: "quiet t2" "pending t2 = cs" using quiet_input [OF t(2) t2(2,3)] input_side_eq(4) [OF t2(3)] t(3) by simp_all
  show ?thesis
    using t q1 q2 t1(1) t2(1) nn c(2)
    by (auto simp: readline_loop.simps [of input buf s] edit_def line_end_def iscons_def byte_cases)
qed

lemma readline_loop_line:
  assumes "quiet s" "pending s = cs @ e # rest" "line_end e" "\<forall>c \<in> set cs. c \<noteq> 0 \<and> \<not> line_end c"
  shows "\<exists>s'. readline_loop input buf s = Some (Some (foldl edit buf cs), s', input) \<and> quiet s' \<and> pending s' = rest"
  using assms
proof (induction cs arbitrary: s buf)
  case Nil
  have e: "e \<noteq> 0" "\<not> (e = 8 \<or> e = 0x7F)" "\<not> 32 \<le> e" using Nil.prems(3) by (auto simp: line_end_def)
  obtain t where t: "getchar input s = Some (uint e, t, input)" "quiet t" "pending t = rest"
    using getchar_pending [of s e rest input] Nil.prems e(1) by auto
  have nn: "\<not> uint e < 0" using uint_nonnegative [of e] by linarith
  obtain t1 where t1: "cputchar 10 t = Some t1" "crt_ok t1" "input_side t1 = input_side t" using cputchar_ok [of t 10] t(2) by (auto simp: quiet_def)
  then have "quiet t1" "pending t1 = rest" using quiet_input [OF t(2) t1(2,3)] input_side_eq(4) [OF t1(3)] t(3) by simp_all
  then show ?case using t(1) t1(1) nn e Nil.prems(3)
    by (simp add: readline_loop.simps [of input buf s] iscons_def byte_cases line_end_def)
next
  case (Cons c cs)
  obtain s' where "readline_loop input buf s = readline_loop input (edit buf c) s'" "quiet s'" "pending s' = cs @ e # rest"
    using readline_loop_step [of s c "cs @ e # rest" input buf] Cons.prems by auto
  then show ?case using Cons.IH [of s' "edit buf c"] Cons.prems by simp
qed

section \<open>Splitting a line\<close>

fun pieces :: "string \<Rightarrow> string list" where
  "pieces [] = [[]]"
| "pieces (c # cs) = (if whitespace c then [] # pieces cs else (c # hd (pieces cs)) # tl (pieces cs))"

text \<open>The words of a line: its maximal pieces without white space.\<close>

definition words_of :: "string \<Rightarrow> string list" where
  "words_of s = filter (\<lambda>w. w \<noteq> []) (pieces s)"

lemma pieces_ne: "pieces s \<noteq> []"
  by (cases s) simp_all

lemma words_of_skip: "words_of (dropWhile whitespace s) = words_of s"
  by (induction s) (simp_all add: words_of_def)

lemma pieces_word:
  "pieces s = takeWhile (\<lambda>c. \<not> whitespace c) s # (case dropWhile (\<lambda>c. \<not> whitespace c) s of [] \<Rightarrow> [] | _ # r \<Rightarrow> pieces r)"
  by (induction s) simp_all

lemma words_of_word:
  assumes "s \<noteq> []" "\<not> whitespace (hd s)"
  shows "words_of s = takeWhile (\<lambda>c. \<not> whitespace c) s # words_of (dropWhile (\<lambda>c. \<not> whitespace c) s)"
proof -
  have tw: "takeWhile (\<lambda>c. \<not> whitespace c) s \<noteq> []" using assms by (cases s) simp_all
  show ?thesis
  proof (cases "dropWhile (\<lambda>c. \<not> whitespace c) s")
    case Nil
    have ps: "pieces s = [takeWhile (\<lambda>c. \<not> whitespace c) s]" using pieces_word [of s] unfolding Nil by simp
    show ?thesis unfolding words_of_def ps Nil using tw by simp
  next
    case (Cons c r)
    then have "whitespace c" using hd_dropWhile [of "\<lambda>c. \<not> whitespace c" s] by auto
    then show ?thesis using tw pieces_word [of s] Cons by (simp add: words_of_def)
  qed
qed

lemma split_args_words:
  "split_args buf argv = (if length argv + length (words_of buf) \<le> MAXARGS - 1 \<or> words_of buf = [] then Some (argv @ words_of buf) else None)"
  if "length argv \<le> MAXARGS - 1" for buf argv
  using that
proof (induction buf argv rule: split_args.induct)
  case (1 buf argv)
  define x where "x = dropWhile whitespace buf"
  show ?case
  proof (cases "x = []")
    case True
    have "words_of buf = words_of x" by (simp only: x_def words_of_skip)
    then have "words_of buf = []" by (simp only: True) (simp add: words_of_def)
    then show ?thesis using True by (simp add: split_args.simps [of buf argv] x_def [symmetric] Let_def)
  next
    case False
    then have hd: "\<not> whitespace (hd x)" using hd_dropWhile [of whitespace buf] by (simp add: x_def)
    have w: "words_of buf = takeWhile (\<lambda>c. \<not> whitespace c) x # words_of (dropWhile (\<lambda>c. \<not> whitespace c) x)"
      using words_of_word [OF False hd] words_of_skip [of buf] by (simp add: x_def)
    show ?thesis
    proof (cases "length argv = MAXARGS - 1")
      case True
      then show ?thesis using False w by (simp add: split_args.simps [of buf argv] x_def [symmetric] Let_def)
    next
      case len: False
      then have "length (argv @ [takeWhile (\<lambda>c. \<not> whitespace c) x]) \<le> MAXARGS - 1" using "1.prems" by simp
      from "1.IH" [OF x_def False len this] show ?thesis using False len w "1.prems"
        by (auto simp: split_args.simps [of buf argv] x_def [symmetric] Let_def)
    qed
  qed
qed

section \<open>The monitor does not return\<close>

lemma runcmd_zero: "runcmd y buf s = Some (r, s') \<Longrightarrow> r = 0"
  by (auto simp: runcmd_def mon_help_def mon_kerninfo_def Let_def elim!: bind_Some_elim split: option.splits list.splits command.splits)

lemma monitor_loop_none: "monitor_loop y input s = None"
proof -
  have False if "monitor_loop y input s = Some r" for r
    using that
  proof (rule monitor_loop.raw_induct [where P = "\<lambda>_ _ _ _. False", rotated])
    fix loop :: "kernel_symbols \<Rightarrow> typing \<Rightarrow> console \<Rightarrow> console option" and y input s r
    assume "\<And>y input s r. loop y input s = Some r \<Longrightarrow> False"
    then have "loop y input s = None" for y input s by (cases "loop y input s") auto
    moreover assume "(readline (Some ''K> '') input s \<bind> (\<lambda>(buf, s, input).
      case buf of None \<Rightarrow> loop y input s
      | Some b \<Rightarrow> runcmd y (map (\<lambda>w. char_of (uint w)) b) s \<bind> (\<lambda>(r, s). if r < 0 then Some s else loop y input s))) = Some r"
    ultimately show False by (auto elim!: bind_Some_elim dest!: runcmd_zero split: option.splits if_splits)
  qed
  then show ?thesis by (cases "monitor_loop y input s") auto
qed

end
