(* ===== verification/Kern_Dev_Theorems.thy ===== *)
theory Kern_Dev_Theorems
  imports Kern_Console_Props Kern_Debug_Props Kern_Lock Kern_Mp Kern_Monitor_Props
begin

unbundle bit_operations_syntax

text \<open>The properties of the devices, the lock, the table of processors, the symbol tables and the monitor of the kernel.\<close>

section \<open>Concrete states for the witnesses\<close>

definition idle_console :: console where
  "idle_console = \<lparr>kbd_port = [], com_port = [], serial_exists = True, serial_out = [], lpt_out = [], rebooted = False, shift = 0,
     cbuf = replicate 512 0, rpos = 0, wpos = 0, crt_buf = replicate 2000 0, crt_pos = 0\<rparr>"

lemma idle_console_ok: "ring_ok idle_console" "crt_ok idle_console" "pending idle_console = []" "fill idle_console = 0"
  by (simp_all add: idle_console_def ring_ok_def crt_ok_def pending_def fill_def)

text \<open>The console after \<open>bs\<close> has been typed on the serial line and the interrupt routine has read it.\<close>

definition typed :: "8 word list \<Rightarrow> console" where
  "typed bs = idle_console\<lparr>cbuf := bs @ replicate (512 - length bs) 0, wpos := length bs\<rparr>"

lemma typed_ok:
  assumes "length bs < 512"
  shows "quiet (typed bs)" "pending (typed bs) = bs"
proof -
  show "quiet (typed bs)" using assms by (simp add: quiet_def typed_def idle_console_def ring_ok_def crt_ok_def)
  have "fill (typed bs) = length bs" using assms by (simp add: fill_def typed_def idle_console_def)
  then show "pending (typed bs) = bs" using assms
    by (intro nth_equalityI) (simp_all add: pending_def, simp add: typed_def idle_console_def nth_append)
qed

text \<open>A table with two functions, and the states of a lock that one processor has taken while another waits.\<close>

definition small_table :: "stab list" where
  "small_table = [line_stab N_SO 16, line_stab N_FUN 16, line_stab N_SLINE 20, line_stab N_FUN 32]"

lemma small_table_match: "match small_table N_FUN i \<longleftrightarrow> i = 1 \<or> i = 3"
proof -
  have "match small_table N_FUN 1" "match small_table N_FUN 3" "\<not> match small_table N_FUN 0" "\<not> match small_table N_FUN 2"
    by (simp_all add: match_def small_table_def has_type_def line_stab_def)
  moreover have "match small_table N_FUN i \<Longrightarrow> i = 0 \<or> i = 1 \<or> i = 2 \<or> i = 3" by (auto simp: match_def small_table_def)
  ultimately show ?thesis by auto
qed

lemma small_table_values: "n_value (small_table ! nat 1) = 16" "n_value (small_table ! nat 3) = 32" "length small_table = 4"
  by (simp_all add: small_table_def line_stab_def)

lemma lock_taken: "\<exists>lk pc. lock_run (\<lambda>_. (\<lambda>_. CHR ''x'', 0)) (lk, pc) \<and> pc 0 = Recording \<and> pc 1 = Spinning"
proof -
  let ?f = "\<lambda>_ :: nat. (\<lambda>_ :: addr. CHR ''x'', 0 :: addr)"
  define lk where "lk = spin_initlock ''kernel_lock'' \<lparr>locked = 0, lk_name = [], lk_cpu = None, pcs = []\<rparr>"
  let ?a = "(\<lambda>_. Outside)(0 := Spinning)"
  let ?b = "?a(1 := Spinning)"
  have free: "\<not> holding lk c" "locked lk = 0" for c by (simp_all add: lk_def spin_initlock_def holding_def)
  have "lock_run ?f (lk, \<lambda>_. Outside)" unfolding lk_def by (rule lock_run.start)
  then have "lock_run ?f (lk, ?a)" by (rule lock_run.step) (use lock_call [of "\<lambda>_. Outside" 0 ?f lk] free in simp)
  then have "lock_run ?f (lk, ?b)" by (rule lock_run.step) (use lock_call [of ?a 1 ?f lk] free in simp)
  then have "lock_run ?f (lk\<lparr>locked := 1\<rparr>, ?b(0 := Recording))"
    by (rule lock_run.step) (use spin [of ?b 0 lk 0 "lk\<lparr>locked := 1\<rparr>" ?f] free in \<open>simp add: xchg_locked_def\<close>)
  then show ?thesis by (intro exI [of _ "lk\<lparr>locked := 1\<rparr>"] exI [of _ "?b(0 := Recording)"]) simp
qed

text \<open>The memory of a machine with two processors, of which the first runs.\<close>

definition firmware :: phys where
  "firmware = (\<lambda>_. 0)(1038 := 0x9F, 2544 := 95, 2545 := 77, 2546 := 80, 2547 := 95, 2549 := 12, 2552 := 1, 2553 := 4, 2554 := 148,
     3072 := 80, 3073 := 67, 3074 := 77, 3075 := 80, 3076 := 84, 3078 := 4, 3079 := 107, 3106 := 2, 3110 := 224, 3111 := 254,
     3118 := 20, 3119 := 3, 3137 := 1, 3138 := 20, 3139 := 1)"

lemma firmware_mp: "0 < np \<Longrightarrow> mpconfig firmware np = Some (Some (3072, 2544))"
proof -
  assume "0 < np"
  then have k: "kaddr np 1024 = Some 1024" "kaddr np 2544 = Some 2544" "kaddr np 3568 = Some 3568" "kaddr np 3072 = Some 3072" by (simp_all add: kaddr_def)
  have "mp_scan firmware 2544 3568 = Some 2544"
    by (simp add: mp_scan.simps [of _ 2544] mem_eq_def mp_sum_def firmware_def upt_rec_numeral)
  moreover have "get16 firmware 1038 = 0x9F" by (simp add: get16_def firmware_def)
  ultimately have m: "mpsearch firmware np = Some (Some 2544)" by (simp add: mpsearch_def mpsearch1_def k Let_def)
  have "get32 firmware 2548 = 3072" "firmware 2555 = 0" "get16 firmware 3076 = 84" "firmware 3078 = 4" "firmware 3114 = 0"
    "get16 firmware 3112 = 0"
    by (simp_all add: get32_def get16_def firmware_def)
  moreover have "mem_eq firmware 3072 ''PCMP''" "mp_sum firmware 3072 84 = 0" "mp_sum firmware 3156 0 = 0"
    by (simp_all add: mem_eq_def mp_sum_def firmware_def upt_rec_numeral)
  ultimately show ?thesis by (simp add: mpconfig_def m k Let_def)
qed

lemma firmware_procs: "table_procs firmware (get16 firmware 3106) 3116 = Some [3, 1]"
proof -
  have n: "get16 firmware 3106 = Suc (Suc 0)" by (simp add: get16_def firmware_def)
  show ?thesis unfolding n by (simp add: firmware_def)
qed

section \<open>The console\<close>

text \<open>
  C32. What is typed comes back in order: as long as no more than 511 characters wait in the ring buffer of the console, the
  characters that were waiting and those that the interrupt routine stores are taken out in the order of arrival, each
  with its code.
\<close>

theorem console_ring_fifo:
  assumes "ring_ok s" "fill s + length bs \<le> 511"
  shows "draw cons_pop (fill s + length bs) (fold (\<lambda>b. cons_put (uint b)) bs s) = map uint (pending s @ bs)"
  using ring.put_get [of s bs] assms by simp

theorem console_ring_fifo_witness:
  "draw cons_pop (fill idle_console + length [104, 105 :: 8 word]) (fold (\<lambda>b. cons_put (uint b)) [104, 105 :: 8 word] idle_console) =
     map uint (pending idle_console @ [104, 105])"
  by (rule console_ring_fifo) (simp_all add: idle_console_ok)

text \<open>
  \<^verbatim>\<open>cons_getc\<close> is the front of the queue: it first reads everything the serial line has received, skipping zero bytes, and
  returns the oldest character that is then waiting (or 0 when there is none), leaving the others in order; nothing is
  lost as long as fewer than 512 characters wait in all.
\<close>

theorem cons_getc_serial:
  assumes "ring_ok s" "serial_exists s" "kbd_port s = []" "fill s + length (filter (\<lambda>b. b \<noteq> 0) (com_port s)) < 512"
  shows "\<exists>s'. cons_getc s = Some (case pending s @ filter (\<lambda>b. b \<noteq> 0) (com_port s) of [] \<Rightarrow> 0 | b # _ \<Rightarrow> uint b, s') \<and>
    pending s' = tl (pending s @ filter (\<lambda>b. b \<noteq> 0) (com_port s)) \<and> com_port s' = [] \<and> ring_ok s'"
proof -
  obtain t where t: "serial_intr s = Some t" "ring_ok t" "pending t = pending s @ filter (\<lambda>b. b \<noteq> 0) (com_port s)"
    "com_port t = []" "kbd_port t = []"
    using serial_intr_queue [OF assms(1,4)] assms(2,3) by (auto simp: serial_intr_def)
  have kbd: "kbd_intr t = Some t" using t(5) by (simp add: kbd_intr_def cons_intr.simps [of _ t] kbd_proc_data_def)
  show ?thesis
  proof (cases "pending t")
    case Nil
    then have "fill t = 0" using length_pending [of t] by simp
    then have "rpos t = wpos t" using fill_write [OF t(2)] t(2) by (simp add: ring_ok_def)
    then have "cons_pop t = (0, t)" by (simp add: cons_pop_def)
    then show ?thesis using t kbd Nil by (simp add: cons_getc_def)
  next
    case (Cons b bs)
    obtain s' where "cons_pop t = (uint b, s')" "pending s' = bs" "ring_ok s'" "com_port s' = []"
      using cons_pop_queue [OF t(2) Cons] t(4) by auto
    then show ?thesis unfolding t(3) [symmetric] using t(1) kbd Cons by (simp add: cons_getc_def)
  qed
qed

theorem cons_getc_serial_witness:
  "\<exists>s'. cons_getc (idle_console\<lparr>com_port := [0, 104, 105]\<rparr>) = Some (104, s') \<and> pending s' = [105]"
proof -
  let ?s = "idle_console\<lparr>com_port := [0, 104, 105]\<rparr>"
  have p: "ring_ok ?s" "pending ?s = []" "fill ?s = 0" "serial_exists ?s" "kbd_port ?s = []" "com_port ?s = [0, 104, 105]"
    by (simp_all add: idle_console_def ring_ok_def pending_def fill_def)
  show ?thesis using cons_getc_serial [OF p(1,4,5)] p by auto
qed

text \<open>
  C33. The display is safe: whatever is printed, with newlines, tabulators, backspaces and attributes, no character is
  stored outside the 80 by 25 cells of the display, the printing ends, and the cursor stays on the display.
\<close>

theorem cputs_display_safe:
  assumes "crt_ok s"
  shows "\<exists>s'. cputs cs s = Some s' \<and> crt_ok s'"
  using cputs_ok [OF assms] by blast

theorem cputs_display_safe_witness:
  "\<exists>s'. cputs [10, 9, 8, 65] idle_console = Some s' \<and> crt_ok s'"
  by (rule cputs_display_safe) (rule idle_console_ok)

text \<open>
  The keyboard interrupt ends: the loop over the keyboard controller returns, with a buffer in bounds, having consumed
  every byte up to the first one that belongs to the mouse, which stays in the controller.
\<close>

theorem kbd_intr_terminates:
  assumes "ring_ok s"
  shows "\<exists>s'. kbd_intr s = Some s' \<and> ring_ok s' \<and> kbd_port s' = dropWhile (\<lambda>(mouse, _). \<not> mouse) (kbd_port s)"
  by (rule kbd_intr_returns [OF assms])

theorem kbd_intr_terminates_witness:
  "\<exists>s'. kbd_intr (idle_console\<lparr>kbd_port := [(False, 0x1E), (True, 0), (False, 0x1F)]\<rparr>) = Some s' \<and> ring_ok s' \<and> kbd_port s' = [(True, 0), (False, 0x1F)]"
proof -
  let ?s = "idle_console\<lparr>kbd_port := [(False, 0x1E), (True, 0), (False, 0x1F)]\<rparr>"
  have "ring_ok ?s" by (simp add: idle_console_def ring_ok_def)
  from kbd_intr_terminates [OF this] show ?thesis by simp
qed

section \<open>The monitor\<close>

text \<open>
  \<^verbatim>\<open>readline\<close> returns the edited line: the characters typed up to a newline or carriage return, applied one after the
  other, where backspace and delete remove the last character of a line that is not empty, other characters from the
  space on are appended while the line has fewer than 1023, and the rest is ignored. What was typed after the line stays.
\<close>

theorem readline_edits:
  assumes "quiet s" "pending s = cs @ e # rest" "line_end e" "\<forall>c \<in> set cs. c \<noteq> 0 \<and> \<not> line_end c"
  shows "\<exists>s'. readline prompt input s = Some (Some (foldl edit [] cs), s', input) \<and> length (foldl edit [] cs) < BUFLEN \<and>
    quiet s' \<and> pending s' = rest"
proof -
  have crt: "crt_ok s" using assms(1) by (simp add: quiet_def)
  obtain t where t: "(case prompt of None \<Rightarrow> Some s | Some p \<Rightarrow> cputs (codes p) s) = Some t" "crt_ok t" "input_side t = input_side s"
    using cputs_ok [OF crt] crt by (cases prompt) auto
  have q: "quiet t" "pending t = cs @ e # rest" using quiet_input [OF assms(1) t(2,3)] input_side_eq(4) [OF t(3)] assms(2) by simp_all
  show ?thesis using readline_loop_line [OF q assms(3,4), of input "[]"] edit_length [of "[]" cs] t(1) by (auto simp: readline_def)
qed

theorem readline_edits_witness:
  "\<exists>s'. readline (Some ''K> '') [] (typed [104, 106, 8, 105, 10, 120]) = Some (Some [104, 105], s', []) \<and> pending s' = [120]"
proof -
  have t: "quiet (typed [104, 106, 8, 105, 10, 120])" "pending (typed [104, 106, 8, 105, 10, 120]) = [104, 106, 8, 105] @ 10 # [120]"
    using typed_ok [of "[104, 106, 8, 105, 10, 120]"] by simp_all
  have "foldl edit [] [104, 106, 8, 105] = [104, 105]" by (simp add: edit_def)
  moreover have "line_end 10" "\<forall>c \<in> set [104, 106, 8, 105]. c \<noteq> 0 \<and> \<not> line_end c" by (simp_all add: line_end_def)
  ultimately show ?thesis using readline_edits [OF t, of "Some ''K> ''" "[]"] by auto
qed

section \<open>Symbol tables\<close>

text \<open>
  C34. The search of a symbol table finds the right entry: in a table whose entries of the wanted type are sorted by
  address, when no such entry starts exactly one byte after the address, \<^verbatim>\<open>stab_binsearch\<close> returns the last entry of the type
  that does not start after the address, and the position just before the next entry of the type.
\<close>

theorem stab_binsearch_correct:
  assumes "searchable stabs ty L R a" and "match stabs ty k" "L \<le> k" "k \<le> R" "n_value (stabs ! nat k) \<le> a"
    and "\<And>j. match stabs ty j \<Longrightarrow> k < j \<Longrightarrow> j \<le> R \<Longrightarrow> a < n_value (stabs ! nat j)"
  shows "\<exists>right. stab_binsearch stabs L R ty a = Some (k, right) \<and> k \<le> right \<and> right \<le> R \<and>
    (\<forall>j. k < j \<and> j \<le> right \<longrightarrow> \<not> match stabs ty j) \<and> (right = R \<or> match stabs ty (right + 1))"
  by (rule stab_binsearch_finds [OF assms])

theorem stab_binsearch_correct_witness:
  "\<exists>right. stab_binsearch small_table 0 3 N_FUN 24 = Some (1, right) \<and> 1 \<le> right \<and> right \<le> 3 \<and>
    (\<forall>j. 1 < j \<and> j \<le> right \<longrightarrow> \<not> match small_table N_FUN j) \<and> (right = 3 \<or> match small_table N_FUN (right + 1))"
  by (rule stab_binsearch_correct)
    (auto simp: searchable_def small_table_match small_table_values simp del: nat_numeral nat_1)

section \<open>The kernel lock\<close>

text \<open>
  C35. The big kernel lock excludes: in every state that the processors can reach by interleaving the steps of \<^verbatim>\<open>spin_lock\<close>
  and \<^verbatim>\<open>spin_unlock\<close>, at most one of them is between the exchange that takes the lock and the exchange that releases it; the
  lock is then taken, and a processor that holds it is the owner on record, so that \<^verbatim>\<open>holding\<close> answers yes to it and no to
  every other.
\<close>

theorem spin_lock_excludes:
  assumes "lock_run frames (lk, pc)" "critical (pc c)"
  shows "locked lk \<noteq> 0 \<and> (critical (pc c') \<longleftrightarrow> c' = c) \<and> (pc c = Holding \<longrightarrow> (holding lk c' \<longleftrightarrow> c' = c))"
proof -
  have ok: "owner_ok lk pc" using lock_run_owner [OF assms(1)] by simp
  note own = owner_ok_critical [OF ok assms(2)]
  show ?thesis using own(1,3) own(2) [of c'] by (auto simp: holding_def)
qed

theorem spin_lock_excludes_witness:
  "\<exists>lk pc. lock_run (\<lambda>_. (\<lambda>_. CHR ''x'', 0)) (lk, pc) \<and> locked lk \<noteq> 0 \<and> critical (pc 0) \<and> \<not> critical (pc 1)"
proof -
  obtain lk pc where run: "lock_run (\<lambda>_. (\<lambda>_. CHR ''x'', 0)) (lk, pc)" "pc 0 = Recording" "pc 1 = Spinning" using lock_taken by blast
  then show ?thesis using spin_lock_excludes [OF run(1), of 0 1] by (intro exI [of _ lk] exI [of _ pc]) simp
qed

section \<open>The table of processors\<close>

text \<open>
  \<^verbatim>\<open>mp_init\<close> finds the processors: when the firmware has left a valid table with at most eight processors, the kernel
  starts with exactly these, numbered from 0, and the one on which it runs is the last that the table flags as boot
  processor (number 0 without one) and is marked as started.
\<close>

theorem mp_init_processors:
  assumes "mpconfig m np = Some (Some (conf, mp))" "table_procs m (get16 m (conf + 34)) (conf + 44) = Some fs" "length fs \<le> NCPU"
  shows "\<exists>s. mp_init m np mp_zero = Some s \<and> ncpu s = length fs \<and> bootcpu s = boot_index 0 0 fs \<and> bootcpu s < NCPU \<and>
    (\<forall>i < ncpu s. cpu_id (cpus s ! i) = of_nat i) \<and> cpu_state (cpus s ! bootcpu s) = CPU_STARTED"
proof -
  let ?z = "mp_zero\<lparr>bootcpu := 0, ismp := True, lapicaddr := get32 m (conf + 36)\<rparr>"
  let ?s = "mp_entries m (get16 m (conf + 34)) (conf + 44) ?z"
  have z: "cpus_ok ?z" "ncpu ?z = 0" "bootcpu ?z = 0" "ismp ?z" using mp_zero_ok by (simp_all add: cpus_ok_def mp_zero_def)
  have s: "cpus_ok ?s" "ncpu ?s = length fs" "bootcpu ?s = boot_index 0 0 fs" "ismp ?s"
    using mp_entries_ok [OF z(1) assms(2)] z(2-4) assms(3) by simp_all
  have b: "boot_index 0 0 fs < 8" using boot_index_bound [of 0 fs 0] assms(3) by simp
  then show ?thesis using s assms(1) by (auto simp: mp_init_def Let_def cpus_ok_def nth_list_update)
qed

theorem mp_init_processors_witness:
  "\<exists>s. mp_init firmware 256 mp_zero = Some s \<and> ncpu s = 2 \<and> bootcpu s = 0 \<and> cpu_state (cpus s ! 0) = CPU_STARTED"
  using mp_init_processors [OF firmware_mp, of 256 "[3, 1]"] firmware_procs by auto

end
