(* ===== verification/Kern_Entry_Theorems.thy ===== *)
theory Kern_Entry_Theorems
  imports Kern_Init Kern_Boot_Theorems Kern_Dev_Theorems
begin

unbundle bit_operations_syntax

text \<open>
  The properties of the boundary between programs and the kernel: where a program can enter, what is saved and restored; the start
  of the other processors and of the kernel as a whole.
\<close>

section \<open>The tables of a processor\<close>

text \<open>A processor of the sample machine, where the linker has put the tables, and a program on it.\<close>

definition sample_linked :: linked where
  "sample_linked = \<lparr>at_gdt = 0xF0112000, at_idt = 0xF0113000, at_ts = (\<lambda>i. 0xF0114000 + 0x80 * of_nat i), at_trap = (\<lambda>n. 0xF0104000 + 16 * of_nat n)\<rparr>"

definition sample_processor :: processor where
  "sample_processor = \<lparr>p_regs = tf_regs zero_tf, p_es = 0x10, p_ds = 0x10, p_fs = 0, p_gs = 0, p_cs = 8, p_ss = 0x10, p_eip = 0xF0100000,
     p_esp = 0xF0110000, p_eflags = 2, p_ldtr = 0, p_tr = 0, p_gdtr = \<lparr>pd_lim = 0, pd_base = 0\<rparr>, p_idtr = \<lparr>pd_lim = 0, pd_base = 0\<rparr>\<rparr>"

definition user_processor :: "processor \<Rightarrow> processor" where
  "user_processor p = p\<lparr>p_cs := GD_UT OR 3, p_ss := GD_UD OR 3, p_ds := GD_UD OR 3, p_es := GD_UD OR 3, p_eip := 0x800020, p_esp := 0xEEBFDFF0, p_eflags := 0x202\<rparr>"

lemma sample_linked_ok: "linked_ok sample_linked"
  by (simp add: linked_ok_def sample_linked_def trap_labels_def upt_conv_Cons)


lemma sample_user_ready:
  assumes "env_init_percpu sample_linked boot_tables sample_processor = Some p0" "trap_init sample_linked 0 boot_tables p0 = Some (t, p1)"
  shows "tables_ok sample_linked {0} t" "cpu_ready sample_linked 0 (user_processor p1)" "user_mode (user_processor p1)"
proof -
  have c: "cpl sample_processor = 0" by (simp add: sample_processor_def cpl_def)
  note T = boot_tables_ready [OF c _ assms]
  then show "tables_ok sample_linked {0} t" "cpu_ready sample_linked 0 (user_processor p1)" by (simp_all add: cpu_ready_def user_processor_def)
  have "reg_oesp (p_regs p1) = 0"
    using assms c env_init_percpu_ok [of boot_tables sample_processor sample_linked] trap_init_ok [of 0 p0 sample_linked]
    by (auto simp: boot_tables_def boot_gdt_def sample_processor_def zero_tf_def)
  then show "user_mode (user_processor p1)" by (simp add: user_mode_def user_processor_def user_selectors_def)
qed


section \<open>Saving and restoring a program\<close>

text \<open>
  C26. Entering the kernel saves the program and \<^verbatim>\<open>context_switch\<close> brings it back: whatever happens while a program runs, the
  processor changes to its own kernel stack, with interrupts off, and \<^verbatim>\<open>trap\<close> gets the address of a frame at the top of that stack,
  which holds the number that arrived, its error code (or 0) and all registers of the program. Nothing but the page
  of the stack changes. Loading the frame on any processor that has its tables gives the same registers as before, except the
  two segment registers that the kernel does not save.
\<close>

theorem trap_saves_program:
  assumes "tables_ok L I t" and "i \<in> I" and "linked_ok L" and p: "cpu_ready L i p" "user_mode p" and s: "stack_mapped d (stack_page i + 7) q m"
    and ev: "\<forall>w. ev = Irq w \<longrightarrow> 32 \<le> w" and acc: "accepted L t p ev = (v, err)"
  defines "esp0 \<equiv> KSTACKTOP - of_nat i * (KSTKGAP + KSTKSIZE)"
  shows "\<exists>p' m' tf. trap_entry L d t ev p m = Some (p', m') \<and> p_cs p' = GD_KT \<and> p_ss p' = GD_KD \<and> p_eflags p' AND 0x200 = 0 \<and>
    read_va d (p_esp p') m' = Some (esp0 - 68) \<and> read_frame d (esp0 - 68) m' = Some tf \<and>
    tf_trapno tf = of_nat v \<and> tf_err tf = (case err of None \<Rightarrow> 0 | Some e \<Rightarrow> e) \<and> (tf_regs tf)\<lparr>reg_oesp := 0\<rparr> = p_regs p \<and>
    tf_eip tf = p_eip p \<and> tf_esp tf = p_esp p \<and> tf_eflags tf = p_eflags p \<and> tf_cs tf = p_cs p \<and> tf_ss tf = p_ss p \<and> tf_ds tf = p_ds p \<and> tf_es tf = p_es p \<and>
    (\<forall>r. r \<noteq> q \<longrightarrow> pmem m' r = pmem m r) \<and>
    (\<forall>j k. cpu_ready L j k \<and> cpl k = 0 \<longrightarrow>
       (\<exists>r. context_switch L t tf k = Some r \<and> r\<lparr>p_fs := p_fs p, p_gs := p_gs p, p_ldtr := p_ldtr p, p_tr := p_tr p\<rparr> = p))"
proof -
  let ?u = "page2pa (stack_page i + 7)"
  let ?f = "frame_words p v err (?u + 4 * of_nat 1015)"
  let ?m = "pushed q 1024 (?f @ [?u + 4 * of_nat 1007]) m"
  let ?tf = "saved_frame p v err (?u + 4 * of_nat 1015)"
  have "i < 8" using assms(1,2) by (auto simp: tables_ok_def)
  then have top: "esp0 - 68 = ?u + 4 * of_nat 1007" using stack_top [of i] by (simp add: esp0_def)
  have irq: "\<forall>w. ev = Irq w \<longrightarrow> \<not> has_error w" using ev by (auto simp: has_error_def)
  note E = trap_entry_user [OF assms(1-3) p s acc irq]
  have "length ?f = 17" by (simp add: frame_words_def)
  note F = frame_pushed [OF s this, of "?u + 4 * of_nat 1007", unfolded frame_of_words]
  have z: "(p_eflags p AND NOT 0x34300) AND (0x200 :: 32 word) = 0" by (simp add: and.assoc)
  have regs: "(p_regs p)\<lparr>reg_oesp := 0\<rparr> = p_regs p" using p(2) by (cases "p_regs p") (simp add: user_mode_def)
  have "\<exists>r. context_switch L t ?tf k = Some r \<and> r\<lparr>p_fs := p_fs p, p_gs := p_gs p, p_ldtr := p_ldtr p, p_tr := p_tr p\<rparr> = p"
    if "cpu_ready L j k" "cpl k = 0" for j k
    using that p(1) context_switch_ok [OF assms(1) p(2) that(2), of v err] by (cases p; cases k) (simp add: cpu_ready_def)
  then have ret: "\<forall>j k. cpu_ready L j k \<and> cpl k = 0 \<longrightarrow>
      (\<exists>r. context_switch L t ?tf k = Some r \<and> r\<lparr>p_fs := p_fs p, p_gs := p_gs p, p_ldtr := p_ldtr p, p_tr := p_tr p\<rparr> = p)" by blast
  have keep: "\<forall>r. r \<noteq> q \<longrightarrow> pmem ?m r = pmem m r" by (simp add: pushed_nth(2))
  show ?thesis
    unfolding top by (rule exI, rule exI, rule exI [of _ ?tf], intro conjI, rule E) (use F z regs ret keep in simp_all)
qed

text \<open>The sample machine after the start of memory, with the stack of its first processor.\<close>

lemma sample_boot:
  obtains k1 ys where "mem_init sample_cmos 0xF0200000 0xF0180000 (clear_bss k) = Some (MMIOBASE + 0x3000, k1)" "kmap k1 512 ys" "32159 \<le> length ys"
    "kern_pgdir k1 = 512" "kernel_mapped k1 512 32768 513 577 384"
proof -
  have fl: "page_free_list (clear_bss k) = None" by (simp add: clear_bss_def)
  have f: "unat (0xF0180000 - KERNBASE :: 32 word) div 4096 = 384" by simp
  obtain k1 ys where "mem_init sample_cmos 0xF0200000 0xF0180000 (clear_bss k) = Some (MMIOBASE + 0x3000, k1)" "kmap k1 512 ys"
    "npages k1 \<le> length ys + first_free (npages k1) 512" "npages k1 = 32768" "kernel_mapped k1 512 (npages k1) (512 + 1) (512 + 1 + upages (npages k1)) 384"
    "machine.more k1 = machine.more (clear_bss k\<lparr>kern_pgdir := 512, envs := replicate NENV blank_env\<rparr>)"
    using mem_init_enough [OF sample_enough fl] unfolding sample_memory(1,2) f by blast
  then show thesis using that [of k1 ys] more_kernel(4) [of k1] sample_memory(3) by simp
qed

theorem trap_saves_program_witness:
  "\<forall>k. \<exists>base k1 p0 t p1 p' m' tf. mem_init sample_cmos 0xF0200000 0xF0180000 (clear_bss k) = Some (base, k1) \<and>
     env_init_percpu sample_linked boot_tables sample_processor = Some p0 \<and> trap_init sample_linked 0 boot_tables p0 = Some (t, p1) \<and>
     trap_entry sample_linked 512 t (Soft 48) (user_processor p1) k1 = Some (p', m') \<and>
     read_frame 512 0xEFFFFFBC m' = Some tf \<and> tf_trapno tf = 48 \<and> tf_eip tf = 0x800020"
proof
  fix k
  have c: "cpl sample_processor = 0" by (simp add: sample_processor_def cpl_def)
  obtain p0 t p1 where p: "env_init_percpu sample_linked boot_tables sample_processor = Some p0" "trap_init sample_linked 0 boot_tables p0 = Some (t, p1)"
    by (rule boot_tables_exist [OF c, of 0 sample_linked]) simp_all
  note R = sample_user_ready [OF p]
  obtain k1 ys where k1: "mem_init sample_cmos 0xF0200000 0xF0180000 (clear_bss k) = Some (MMIOBASE + 0x3000, k1)" "kmap k1 512 ys"
    "kernel_mapped k1 512 32768 513 577 384" by (rule sample_boot)
  have s: "stack_mapped 512 (stack_page 0 + 7) 391 k1" using boot_stack_mapped [OF k1(2,3), of 0 512] by simp
  have u: "cpl (user_processor p1) = 3" "p_idtr (user_processor p1) = idt_pd sample_linked" using R(2) by (simp_all add: user_processor_def cpl_def cpu_ready_def)
  have a: "accepted sample_linked t (user_processor p1) (Soft 48) = (48, None)" using accepted_ready(3) [OF R(1) u(2,1), of 48] by simp
  have e: "KSTACKTOP - of_nat 0 * (KSTKGAP + KSTKSIZE) - 68 = 0xEFFFFFBC" by simp
  have n: "\<forall>w. Soft 48 = Irq w \<longrightarrow> 32 \<le> w" by simp
  have "p_eip (user_processor p1) = 0x800020" by (simp add: user_processor_def)
  then show "\<exists>base k1 p0 t p1 p' m' tf. mem_init sample_cmos 0xF0200000 0xF0180000 (clear_bss k) = Some (base, k1) \<and>
     env_init_percpu sample_linked boot_tables sample_processor = Some p0 \<and> trap_init sample_linked 0 boot_tables p0 = Some (t, p1) \<and>
     trap_entry sample_linked 512 t (Soft 48) (user_processor p1) k1 = Some (p', m') \<and>
     read_frame 512 0xEFFFFFBC m' = Some tf \<and> tf_trapno tf = 48 \<and> tf_eip tf = 0x800020"
    using k1(1) p trap_saves_program [OF R(1) _ sample_linked_ok R(2,3) s n a, unfolded e] by fastforce
qed

section \<open>The other processors\<close>





section \<open>The whole start\<close>






section \<open>Interrupts of the keyboard\<close>

text \<open>
  \<^verbatim>\<open>kbd_init\<close> opens the line of the keyboard, \<^verbatim>\<open>pic_init\<close> passes it on to the controllers as vector 33, and \<^verbatim>\<open>trap_init\<close> has no
  gate for it: a key pressed while the processor is halted arrives as a general protection fault in the kernel, a panic.
\<close>

theorem keyboard_line_open:
  assumes "cons_init colour txt cursor lsr con pic_start = Some (con', i, ws)" "pic_init i = (i', ws')"
  shows "irq_mask_8259A i' = 0xFFF9 \<and> line_open (chips_write ws' cs) IRQ_KBD \<and> line_vector (chips_write ws' cs) IRQ_KBD = 33 \<and>
    (\<forall>n < 16. n \<noteq> IRQ_KBD \<and> n \<noteq> IRQ_SLAVE \<longrightarrow> \<not> line_open (chips_write ws' cs) n)"
proof -
  have m: "irq_mask_8259A i = 0xFFF9"
    using assms(1) by (auto simp: cons_init_def cga_init_def serial_init_def kbd_init_def pic_start_def irq_setmask_8259A_def Let_def bind_eq_Some_conv split: prod.splits)
  note P = pic_init_chips [OF _ assms(2)]
  obtain c1 c2 where c: "chips_write ws' cs = (c1, c2)" by fastforce
  have i: "imr c1 = 0xF9" "imr c2 = 0xFF" "vector_base c1 = 32" "irq_mask_8259A i' = 0xFFF9" using P(1) [of cs] P(2) m c by (simp_all add: chips_ok_def)
  have "list_all (\<lambda>n. n \<noteq> 1 \<and> n \<noteq> 2 \<longrightarrow> \<not> line_open (c1, c2) n) [0..<16]" using i by (simp add: line_open_def upt_conv_Cons)
  then show ?thesis using i c by (simp add: line_open_def line_vector_def list_all_iff del: upt_rec_numeral)
qed

theorem keyboard_interrupt_panics:
  assumes "tables_ok L I t" "i \<in> I" "linked_ok L" "cpu_ready L i p" "p_cs p = GD_KT" "stack_mapped d (stack_page i + 7) q m"
    and h: "halt_stack d (ts_esp0 (cpu_ts t i)) p m = Some (p1, m1)"
  shows "\<exists>p' m' a tf. trap_entry L d t (Irq 33) (p1\<lparr>p_eip := e\<rparr>) m1 = Some (p', m') \<and> read_va d (p_esp p') m' = Some a \<and>
    read_frame d a m' = Some tf \<and> tf_trapno tf = 13 \<and> trap pol cpu getc cr2 tf k = None"
proof -
  let ?u = "page2pa (stack_page i + 7)"
  let ?p = "p1\<lparr>p_eip := e, p_ss := 0, p_esp := 0\<rparr>"
  let ?f = "frame_words ?p 13 (Some 267) (?u + 4 * of_nat 1015)"
  let ?m = "pushed q 1024 (?f @ [?u + 4 * of_nat 1007]) m"
  have r: "p_idtr p = idt_pd L" using assms(4) by (simp add: cpu_ready_def)
  have "accepted L t p (Irq 33) = (13, Some 267)" using accepted_ready(1) [OF assms(1) r, of 33] by (simp add: vectors_def)
  note E = trap_entry_halted [OF assms(1-6) _ this h, of e]
  have "length ?f = 17" by (simp add: frame_words_def)
  note F = frame_pushed [OF assms(6) this, of "?u + 4 * of_nat 1007", unfolded frame_of_words]
  have "p_cs p1 = GD_KT" using h assms(5) by (auto simp: halt_stack_def bind_eq_Some_conv)
  then have "trap pol cpu getc cr2 (saved_frame ?p 13 (Some 267) (?u + 4 * of_nat 1015)) k = None" by (simp add: trap_def trap_dispatch_def)
  then show ?thesis using E F by auto
qed

text \<open>
  \<^verbatim>\<open>_alltraps\<close> does not load the data segments of the kernel: \<^verbatim>\<open>trap\<close> runs with those of the program, which may be null selectors,
  and then the first access of the kernel to its data is a fault.
\<close>

theorem entry_keeps_user_segments:
  assumes "tables_ok L I t" "i \<in> I" "linked_ok L" "cpu_ready L i p" "user_mode p" "stack_mapped d (stack_page i + 7) q m"
    and "\<forall>w. ev = Irq w \<longrightarrow> 32 \<le> w"
  shows "\<exists>p' m'. trap_entry L d t ev p m = Some (p', m') \<and> cpl p' = 0 \<and> p_ds p' = p_ds p \<and> p_es p' = p_es p"
proof -
  obtain v err where acc: "accepted L t p ev = (v, err)" by fastforce
  have "\<forall>w. ev = Irq w \<longrightarrow> \<not> has_error w" using assms(7) by (auto simp: has_error_def)
  from trap_entry_user [OF assms(1-6) acc this] show ?thesis by (simp add: cpl_def)
qed

end
