(* ===== verification/Lib_Cow_Props.thy ===== *)
theory Lib_Cow_Props
  imports Lib_Child_Props
begin

unbundle bit_operations_syntax

text \<open>The loop of \<^verbatim>\<open>fork\<close>: every page of the program becomes a page of the child, copy on write when either could write it.\<close>

section \<open>Shared entries\<close>

definition cow_page :: "32 word \<Rightarrow> bool" where
  "cow_page w \<longleftrightarrow> w AND PTE_W \<noteq> 0 \<or> w AND PTE_COW \<noteq> 0"

definition share_perm :: "32 word \<Rightarrow> 32 word" where
  "share_perm w =
     (let perm = (if w AND (PTE_PCD OR PTE_PWT) \<noteq> 0 then PTE_U OR PTE_P OR PTE_PCD OR PTE_PWT else PTE_U OR PTE_P) in
      if cow_page w then perm OR PTE_COW else perm)"

definition shared_entry :: "32 word \<Rightarrow> 32 word" where
  "shared_entry w = page2pa (PGNUM w) OR share_perm w OR PTE_U OR PTE_P"

lemma share_perm_cases: "share_perm w \<in> {5, 0x1D, 0x805, 0x81D}"
  by (simp add: share_perm_def Let_def)

lemma share_perm_flags: "drop_bit 12 (share_perm w) = 0" "share_perm w AND PTE_W = 0" "drop_bit 12 (share_perm w OR PTE_U OR PTE_P) = 0"
  using share_perm_cases [of w] by (auto simp: drop_bit_eq_div)

lemma shared_entry_facts:
  assumes "PGNUM w < 2 ^ 20"
  shows "PGNUM (shared_entry w) = PGNUM w" "shared_entry w AND PTE_P \<noteq> 0" "shared_entry w AND PTE_U \<noteq> 0" "shared_entry w \<noteq> 0"
    "shared_entry w AND PTE_W = 0"
proof -
  show "PGNUM (shared_entry w) = PGNUM w" unfolding shared_entry_def by (rule PGNUM_entry [OF assms share_perm_flags(3)])
  show u: "shared_entry w AND PTE_P \<noteq> 0" "shared_entry w AND PTE_U \<noteq> 0"
    using user_bits [of "page2pa (PGNUM w) OR share_perm w"] unfolding shared_entry_def by (simp_all only: or.assoc) simp_all
  then show "shared_entry w \<noteq> 0" by auto
  have "\<not> bit (share_perm w) 1" using share_perm_flags(2) [of w] by (simp add: and_write split: if_splits)
  moreover have "\<not> bit (5 :: 32 word) 1" "\<not> bit (page2pa (PGNUM w)) 1" by (simp_all add: bit_iff_odd page2pa_def bit_push_bit_iff flip: bit_iff_odd)
  ultimately have "\<not> bit (shared_entry w) 1" by (simp add: shared_entry_def bit_or_iff)
  then show "shared_entry w AND PTE_W = 0" by (simp only: and_write if_False)
qed

text \<open>The pages that \<^verbatim>\<open>fork\<close> hands on: present, with user access, and not the exception stack.\<close>

definition visible :: "kernel \<Rightarrow> nat \<Rightarrow> 32 word \<Rightarrow> bool" where
  "visible k d a \<longleftrightarrow> entry k d a \<noteq> 0 \<and> entry k d a AND PTE_U \<noteq> 0 \<and> pmem k d (PDX a) AND PTE_U \<noteq> 0 \<and> PGNUM a \<noteq> PGNUM UXSTACKTOP - 1"

lemma insertedD:
  assumes "inserted D xs ys m m' d va w"
  shows "entry m' d va = w" "d' \<in> D \<Longrightarrow> a < UTOP \<Longrightarrow> d' \<noteq> d \<or> PGNUM a \<noteq> PGNUM va \<Longrightarrow> entry m' d' a = entry m d' a"
    "q \<notin> D \<Longrightarrow> \<not> is_table m D q \<Longrightarrow> q \<notin> set xs \<Longrightarrow> pmem m' q = pmem m q" "npages m' = npages m"
    "q < npages m \<Longrightarrow> \<not> is_table m' D q \<Longrightarrow> unat (pp_ref (pages m' ! q)) \<le> unat (pp_ref (pages m ! q)) + (if q = PGNUM w then 1 else 0)"
    "length xs \<le> length ys + (if pmem m d (PDX va) = 0 then 1 else 0)"
    "d' \<in> D \<Longrightarrow> (d', i) \<noteq> (d, PDX va) \<or> pmem m d (PDX va) \<noteq> 0 \<Longrightarrow> pmem m' d' i = pmem m d' i"
    "pmem m d (PDX va) = 0 \<Longrightarrow> pmem m' d (PDX va) \<noteq> 0"
  using assms unfolding inserted_def by blast+

lemma inserted_tables:
  assumes "inserted D xs ys m m' d va w" "pmem m d (PDX va) \<noteq> 0"
  shows "is_table m' D = is_table m D"
  using insertedD(7) [OF assms(1)] assms(2) by (intro ext) (simp add: is_table_def)

lemma page_address:
  assumes "pn < PGNUM UTOP"
  shows "PGNUM (page2pa pn) = pn" "page2pa pn < UTOP" "\<not> bad_va (page2pa pn)"
proof -
  have pn: "pn < 977920" using assms by (simp add: PGNUM_div)
  then show n: "PGNUM (page2pa pn) = pn" using PGNUM_page2pa [of pn] by simp
  have u: "unat (page2pa pn) = pn * 4096" using pn by (simp add: page2pa_def push_bit_eq_mult unat_word_ariths unat_of_nat)
  then show lt: "page2pa pn < UTOP" using pn by (simp add: word_less_nat_alt)
  have "unat (page2pa pn mod 4096) = 0" using u by (simp add: unat_mod_distrib)
  then have "page2pa pn mod 4096 = 0" using unat_eq_zero by blast
  then show "\<not> bad_va (page2pa pn)" using lt by (simp add: bad_va_def not_le)
qed

section \<open>The state of the loop\<close>

text \<open>The number of pages in a set that the program maps to a frame.\<close>

definition uses :: "kernel \<Rightarrow> nat \<Rightarrow> nat \<Rightarrow> nat set \<Rightarrow> nat" where
  "uses k d q S = card {n \<in> S. n < PGNUM UTOP \<and> entry k d (page2pa n) \<noteq> 0 \<and> PGNUM (entry k d (page2pa n)) = q}"

lemma uses_insert:
  assumes "n < PGNUM UTOP" "n \<notin> S" "entry k d (page2pa n) \<noteq> 0"
  shows "uses k d q (insert n S) = uses k d q S + (if q = PGNUM (entry k d (page2pa n)) then 1 else 0)"
proof -
  define U where "U S = {n \<in> S. n < PGNUM UTOP \<and> entry k d (page2pa n) \<noteq> 0 \<and> PGNUM (entry k d (page2pa n)) = q}" for S
  have "U (insert n S) = (if q = PGNUM (entry k d (page2pa n)) then insert n (U S) else U S)" using assms by (auto simp: U_def)
  moreover have "finite (U S)" "n \<notin> U S" using assms(2) by (auto simp: U_def)
  moreover have "uses k d q S = card (U S)" for S by (simp add: uses_def U_def)
  ultimately show ?thesis by simp
qed

lemma uses_le: "S \<subseteq> {..<PGNUM UTOP} \<Longrightarrow> uses k d q S \<le> uses k d q {..<PGNUM UTOP}"
  unfolding uses_def by (rule card_mono) auto

text \<open>
  The pages in \<open>S\<close> have been mapped in the child, whose directory is \<open>p\<close>, and those in \<open>T\<close> again in the parent; \<open>k0\<close> is the
  state before the loop. The free pages suffice for the tables that the child still lacks, and two more.
\<close>

definition missing :: "kernel \<Rightarrow> nat \<Rightarrow> nat \<Rightarrow> kernel \<Rightarrow> nat" where
  "missing k0 d p k = card {i. i < 955 \<and> pmem k0 d i \<noteq> 0 \<and> pmem k p i = 0}"

definition sharing :: "uctx \<Rightarrow> nat set \<Rightarrow> nat \<Rightarrow> nat \<Rightarrow> nat \<Rightarrow> kernel \<Rightarrow> nat set \<Rightarrow> nat set \<Rightarrow> kernel \<Rightarrow> nat list \<Rightarrow> bool" where
  "sharing u K c d p k0 S T k xs \<longleftrightarrow> runs u K c d k \<and> core k = core k0 \<and> mem_inv k (dirs k0) K xs (\<lambda>_. 0) \<and> npages k = npages k0 \<and>
     (\<forall>a < UTOP. entry k p a = (if PGNUM a \<in> S \<and> visible k0 d a then shared_entry (entry k0 d a) else 0)) \<and>
     (\<forall>a < UTOP. entry k d a = (if PGNUM a \<in> T \<and> visible k0 d a \<and> cow_page (entry k0 d a) then shared_entry (entry k0 d a) else entry k0 d a)) \<and>
     (\<forall>d' \<in> dirs k0 - {d, p}. \<forall>a < UTOP. entry k d' a = entry k0 d' a) \<and>
     (\<forall>a < UTOP. entry k0 d a \<noteq> 0 \<longrightarrow> pmem k (PGNUM (entry k0 d a)) = pmem k0 (PGNUM (entry k0 d a)) \<and>
        unat (pp_ref (pages k ! PGNUM (entry k0 d a))) \<le> unat (pp_ref (pages k0 ! PGNUM (entry k0 d a))) +
          uses k0 d (PGNUM (entry k0 d a)) S + uses k0 d (PGNUM (entry k0 d a)) T) \<and>
     pmem k d = pmem k0 d \<and> missing k0 d p k + 2 \<le> length xs"

lemma sharingD:
  assumes "sharing u K c d p k0 S T k xs"
  shows "runs u K c d k" "core k = core k0" "mem_inv k (dirs k0) K xs (\<lambda>_. 0)" "npages k = npages k0"
    "a < UTOP \<Longrightarrow> entry k p a = (if PGNUM a \<in> S \<and> visible k0 d a then shared_entry (entry k0 d a) else 0)"
    "a < UTOP \<Longrightarrow> entry k d a = (if PGNUM a \<in> T \<and> visible k0 d a \<and> cow_page (entry k0 d a) then shared_entry (entry k0 d a) else entry k0 d a)"
    "d' \<in> dirs k0 \<Longrightarrow> d' \<noteq> d \<Longrightarrow> d' \<noteq> p \<Longrightarrow> a < UTOP \<Longrightarrow> entry k d' a = entry k0 d' a"
    "a < UTOP \<Longrightarrow> entry k0 d a \<noteq> 0 \<Longrightarrow> pmem k (PGNUM (entry k0 d a)) = pmem k0 (PGNUM (entry k0 d a))"
    "a < UTOP \<Longrightarrow> entry k0 d a \<noteq> 0 \<Longrightarrow> unat (pp_ref (pages k ! PGNUM (entry k0 d a))) \<le> unat (pp_ref (pages k0 ! PGNUM (entry k0 d a))) +
          uses k0 d (PGNUM (entry k0 d a)) S + uses k0 d (PGNUM (entry k0 d a)) T"
    "pmem k d = pmem k0 d" "missing k0 d p k + 2 \<le> length xs"
  using assms unfolding sharing_def by blast+

text \<open>What stays fixed during the loop.\<close>

definition fork_start :: "uctx \<Rightarrow> nat set \<Rightarrow> nat \<Rightarrow> nat \<Rightarrow> nat \<Rightarrow> nat \<Rightarrow> 32 word \<Rightarrow> kernel \<Rightarrow> nat list \<Rightarrow> bool" where
  "fork_start u K c d e p i k0 xs0 \<longleftrightarrow> runs u K c d k0 \<and> mem_inv k0 (dirs k0) K xs0 (\<lambda>_. 0) \<and> reaches u i e p k0 \<and> p \<noteq> d \<and> p \<in> dirs k0 \<and>
     (\<forall>a < UTOP. entry k0 d a \<noteq> 0 \<longrightarrow>
        unat (pp_ref (pages k0 ! PGNUM (entry k0 d a))) + 2 * uses k0 d (PGNUM (entry k0 d a)) {..<PGNUM UTOP} < 65535)"

lemma fork_startD:
  assumes "fork_start u K c d e p i k0 xs0"
  shows "runs u K c d k0" "mem_inv k0 (dirs k0) K xs0 (\<lambda>_. 0)" "reaches u i e p k0" "p \<noteq> d" "p \<in> dirs k0" "d \<in> dirs k0"
    "a < UTOP \<Longrightarrow> entry k0 d a \<noteq> 0 \<Longrightarrow>
      unat (pp_ref (pages k0 ! PGNUM (entry k0 d a))) + 2 * uses k0 d (PGNUM (entry k0 d a)) {..<PGNUM UTOP} < 65535"
    "a < UTOP \<Longrightarrow> entry k0 d a \<noteq> 0 \<Longrightarrow> PGNUM (entry k0 d a) < 2 ^ 20"
proof -
  show st: "runs u K c d k0" "mem_inv k0 (dirs k0) K xs0 (\<lambda>_. 0)" "reaches u i e p k0" "p \<noteq> d" "p \<in> dirs k0"
    "a < UTOP \<Longrightarrow> entry k0 d a \<noteq> 0 \<Longrightarrow>
      unat (pp_ref (pages k0 ! PGNUM (entry k0 d a))) + 2 * uses k0 d (PGNUM (entry k0 d a)) {..<PGNUM UTOP} < 65535"
    using assms unfolding fork_start_def by blast+
  show d: "d \<in> dirs k0" by (rule runsD(7) [OF st(1)])
  show "PGNUM (entry k0 d a) < 2 ^ 20" if "a < UTOP" "entry k0 d a \<noteq> 0"
    using mapped_frame(1) [OF st(2) d that] mem_invD(1) [OF st(2)] by simp
qed

text \<open>A frame of the parent is still mapped by it, so it is a page of data.\<close>

lemma sharing_frame:
  assumes st: "fork_start u K c d e p i k0 xs0" and sh: "sharing u K c d p k0 S T k xs" and a: "a < UTOP" "entry k0 d a \<noteq> 0"
  shows "entry k d a \<noteq> 0" "PGNUM (entry k d a) = PGNUM (entry k0 d a)" "PGNUM (entry k0 d a) < npages k"
    "PGNUM (entry k0 d a) \<notin> dirs k0" "\<not> is_table k (dirs k0) (PGNUM (entry k0 d a))" "PGNUM (entry k0 d a) \<notin> set xs"
proof -
  note f = shared_entry_facts [OF fork_startD(8) [OF st a]]
  show e: "entry k d a \<noteq> 0" "PGNUM (entry k d a) = PGNUM (entry k0 d a)" using sharingD(6) [OF sh a(1)] a(2) f by (simp_all split: if_splits)
  show "PGNUM (entry k0 d a) < npages k" "PGNUM (entry k0 d a) \<notin> dirs k0" "\<not> is_table k (dirs k0) (PGNUM (entry k0 d a))"
    "PGNUM (entry k0 d a) \<notin> set xs"
    using mapped_frame [OF sharingD(3) [OF sh] fork_startD(6) [OF st] a(1) e(1)] e(2) by simp_all
qed

lemma sharing_ref:
  assumes st: "fork_start u K c d e p i k0 xs0" and sh: "sharing u K c d p k0 S T k xs" and a: "a < UTOP" "entry k0 d a \<noteq> 0"
    and sub: "S \<subseteq> {..<PGNUM UTOP}" "T \<subseteq> {..<PGNUM UTOP}"
  shows "unat (pp_ref (pages k ! PGNUM (entry k0 d a))) < 65535"
  using sharingD(9) [OF sh a] fork_startD(7) [OF st a] uses_le [OF sub(1), of k0 d "PGNUM (entry k0 d a)"]
    uses_le [OF sub(2), of k0 d "PGNUM (entry k0 d a)"] by linarith

section \<open>One page\<close>

lemma same_page_visible:
  assumes "PGNUM b = PGNUM a"
  shows "visible k d b = visible k d a" "entry k d b = entry k d a"
proof -
  show e: "entry k d b = entry k d a" by (rule entry_same_page [OF assms])
  have "PDX b = PDX a" using page_index(1) [of a] page_index(1) [of b] assms by simp
  then show "visible k d b = visible k d a" using e assms by (simp add: visible_def)
qed

lemma missing_inserted:
  assumes ins: "inserted D xs ys k k' t a w" and p: "p \<in> D" "t = p \<and> PDX a < 955 \<and> pmem k0 d (PDX a) \<noteq> 0 \<or> t \<noteq> p"
    and some: "t \<noteq> p \<longrightarrow> pmem k t (PDX a) \<noteq> 0" and room: "missing k0 d p k + 2 \<le> length xs"
  shows "missing k0 d p k' + 2 \<le> length ys"
proof -
  define M where "M k = {i. i < 955 \<and> pmem k0 d i \<noteq> 0 \<and> pmem k p i = 0}" for k :: kernel
  have fin: "finite (M k)" for k by (simp add: M_def)
  have len: "length xs \<le> length ys + (if pmem k t (PDX a) = 0 then 1 else 0)" by (rule insertedD(6) [OF ins])
  show ?thesis
  proof (cases "t = p \<and> pmem k p (PDX a) = 0")
    case True
    then have "PDX a \<in> M k" using p(2) by (simp add: M_def)
    moreover have "M k' = M k - {PDX a}"
      using insertedD(7) [OF ins p(1)] insertedD(8) [OF ins] True unfolding M_def by (auto, metis)
    ultimately have "card (M k') + 1 = card (M k)" using card_Suc_Diff1 [OF fin [of k], of "PDX a"] by simp
    then show ?thesis using room len True by (simp add: missing_def M_def [symmetric])
  next
    case False
    then have "pmem k' p i = pmem k p i" for i using insertedD(7) [OF ins p(1), of i] some by auto
    then have "missing k0 d p k' = missing k0 d p k" by (simp add: missing_def)
    then show ?thesis using room len False some by (auto split: if_splits)
  qed
qed

lemma sharing_step:
  assumes st: "fork_start u K c d e p i k0 xs0" and sh: "sharing u K c d p k0 S T k xs"
    and n: "n < PGNUM UTOP" "visible k0 d (page2pa n)"
    and k': "runs u K c d k'" "core k' = core k" "mem_inv k' (dirs k0) K ys (\<lambda>_. 0)"
    and ins: "inserted (dirs k0) xs ys k k' t (page2pa n) (shared_entry (entry k0 d (page2pa n)))"
    and t: "t = p \<and> S' = insert n S \<and> T' = T \<and> n \<notin> S \<or>
      t = d \<and> cow_page (entry k0 d (page2pa n)) \<and> S' = S \<and> T' = insert n T \<and> n \<notin> T"
  shows "sharing u K c d p k0 S' T' k' ys"
proof -
  let ?a = "page2pa n" and ?w = "entry k0 d (page2pa n)"
  note S = fork_startD [OF st] and pa = page_address [OF n(1)] and new = insertedD(1) [OF ins]
  have w: "?w \<noteq> 0" using n(2) by (simp add: visible_def)
  have p20: "PGNUM ?w < 2 ^ 20" by (rule S(8) [OF pa(2) w])
  have tD: "t \<in> dirs k0" using t S(5,6) by blast
  have other: "entry k' d' b = entry k d' b" if "d' \<in> dirs k0" "b < UTOP" "d' \<noteq> t \<or> PGNUM b \<noteq> n" for d' b
    using insertedD(2) [OF ins that(1,2)] that(3) pa(1) by simp
  have here: "entry k' t b = shared_entry (entry k0 d b) \<and> visible k0 d b \<and> entry k0 d b = ?w" if "PGNUM b = n" for b
    using same_page_visible [of b ?a] that pa(1) new n(2) by simp
  have child: "entry k' p b = (if PGNUM b \<in> S' \<and> visible k0 d b then shared_entry (entry k0 d b) else 0)" if "b < UTOP" for b
    using t other [OF S(5) that] here [of b] sharingD(5) [OF sh that] S(4) by (cases "PGNUM b = n") auto
  have parent: "entry k' d b = (if PGNUM b \<in> T' \<and> visible k0 d b \<and> cow_page (entry k0 d b) then shared_entry (entry k0 d b) else entry k0 d b)"
    if "b < UTOP" for b
    using t other [OF S(6) that] here [of b] sharingD(6) [OF sh that] S(4) by (cases "PGNUM b = n") auto
  have pde: "pmem k0 d (PDX ?a) \<noteq> 0" by (rule present_entry(3) [OF S(2,6) pa(2) w])
  have dir: "pmem k' d = pmem k0 d"
    using insertedD(7) [OF ins S(6)] sharingD(10) [OF sh] t S(4) pde by (intro ext) (metis prod.inject)
  have refs: "pmem k' (PGNUM (entry k0 d b)) = pmem k0 (PGNUM (entry k0 d b)) \<and>
      unat (pp_ref (pages k' ! PGNUM (entry k0 d b))) \<le> unat (pp_ref (pages k0 ! PGNUM (entry k0 d b))) +
        uses k0 d (PGNUM (entry k0 d b)) S' + uses k0 d (PGNUM (entry k0 d b)) T'" if b: "b < UTOP" "entry k0 d b \<noteq> 0" for b
  proof -
    let ?q = "PGNUM (entry k0 d b)"
    note f = sharing_frame [OF st sh b] and fb = shared_entry_facts [OF S(8) [OF b]]
    have "entry k' d b \<noteq> 0" "PGNUM (entry k' d b) = ?q" using parent [OF b(1)] b(2) fb by (simp_all split: if_splits)
    then have nt: "\<not> is_table k' (dirs k0) ?q" using mapped_frame(4) [OF k'(3) S(6) b(1)] by simp
    have "unat (pp_ref (pages k' ! ?q)) \<le> unat (pp_ref (pages k ! ?q)) + (if ?q = PGNUM ?w then 1 else 0)"
      using insertedD(5) [OF ins f(3) nt] shared_entry_facts(1) [OF p20] by simp
    moreover have "uses k0 d ?q S' + uses k0 d ?q T' = uses k0 d ?q S + uses k0 d ?q T + (if ?q = PGNUM ?w then 1 else 0)"
      using t uses_insert [OF n(1) _ w] by auto
    ultimately show ?thesis using insertedD(3) [OF ins f(4-6)] sharingD(8,9) [OF sh b] by simp
  qed
  have "missing k0 d p k' + 2 \<le> length ys"
    using missing_inserted [OF ins S(5) _ _ sharingD(11) [OF sh]] t S(4) pde sharingD(10) [OF sh] PDX_user [OF pa(2)] by auto
  moreover have "\<forall>d' \<in> dirs k0 - {d, p}. \<forall>a < UTOP. entry k' d' a = entry k0 d' a" using other sharingD(7) [OF sh] t by auto
  ultimately show ?thesis
    unfolding sharing_def using k' sharingD(2,4) [OF sh] insertedD(4) [OF ins] child parent refs dir by simp
qed

lemma share_page:
  assumes st: "fork_start u K c d e p i k0 xs0" and sh: "sharing u K c d p k0 S T k xs" and sub: "S \<subseteq> {..<PGNUM UTOP}" "T \<subseteq> {..<PGNUM UTOP}"
    and n: "n < PGNUM UTOP" "visible k0 d (page2pa n)" "n \<notin> T"
    and t: "j = i \<and> S' = insert n S \<and> T' = T \<and> n \<notin> S \<or> j = 0 \<and> cow_page (entry k0 d (page2pa n)) \<and> S' = S \<and> T' = insert n T"
  shows "\<exists>k' ys. lib_page_map u 0 (page2pa n) j (page2pa n) (share_perm (entry k0 d (page2pa n))) k = Some (Val 0, k') \<and>
    sharing u K c d p k0 S' T' k' ys"
proof -
  let ?a = "page2pa n" and ?w = "entry k0 d (page2pa n)"
  note F = fork_startD [OF st] and pa = page_address [OF n(1)] and H = sharingD [OF sh]
  have w: "?w \<noteq> 0" using n(2) by (simp add: visible_def)
  have kw: "entry k d ?a = ?w" using H(6) [OF pa(2)] n(3) pa(1) by simp
  have dk: "dirs k = dirs k0" by (rule core_used(2) [OF H(2) runsD(9) [OF F(1)]])
  have mem: "mem_inv k (dirs k) K xs (\<lambda>_. 0)" using H(3) dk by simp
  have pde: "pmem k d (PDX ?a) \<noteq> 0" using present_entry(3) [OF F(2,6) pa(2) w] H(10) by simp
  have ne: "xs \<noteq> []" using H(11) by auto
  note perm = share_perm_flags [of ?w] and ref = sharing_ref [OF st sh pa(2) w sub]
  have "reaches u 0 c d k" by (rule reaches_self [OF H(1)])
  moreover have "reaches u i e p k" by (rule reaches_core [OF H(2) F(3,1)])
  ultimately obtain e' t' where dst: "reaches u j e' t' k" "t' = p \<and> S' = insert n S \<and> T' = T \<and> n \<notin> S \<or>
      t' = d \<and> cow_page ?w \<and> S' = S \<and> T' = insert n T \<and> n \<notin> T" using t n(3) by blast
  obtain k' ys where "lib_page_map u 0 ?a j ?a (share_perm ?w) k = Some (Val 0, k')" "runs u K c d k'" "core k' = core k"
    "mem_inv k' (dirs k0) K ys (\<lambda>_. 0)" "inserted (dirs k0) xs ys k k' t' ?a (shared_entry ?w)"
    using lib_page_map_ok [OF H(1) mem reaches_self [OF H(1)] dst(1) pa(3,3) kw w perm(1), unfolded dk] perm(2) ref ne
    unfolding shared_entry_def by blast
  then show ?thesis using sharing_step [OF st sh n(1,2) _ _ _ _ dst(2)] by blast
qed

lemma duppage_ok:
  assumes st: "fork_start u K c d e p i k0 xs0" and sh: "sharing u K c d p k0 S S k xs" and S: "S \<subseteq> {..<PGNUM UTOP}"
    and n: "n < PGNUM UTOP" "visible k0 d (page2pa n)" "n \<notin> S"
  shows "\<exists>k' ys. duppage u i n k = Some (Val 0, k') \<and> sharing u K c d p k0 (insert n S) (insert n S) k' ys"
proof -
  let ?a = "page2pa n" and ?w = "entry k0 d (page2pa n)"
  note F = fork_startD [OF st] and pa = page_address [OF n(1)] and H = sharingD [OF sh]
  have w: "?w \<noteq> 0" "?w AND PTE_U \<noteq> 0" "pmem k0 d (PDX ?a) AND PTE_U \<noteq> 0" using n(2) by (simp_all add: visible_def)
  have "entry k d ?a = ?w" using H(6) [OF pa(2)] n(3) pa(1) by simp
  then have pte: "uvpt u n k = Some (Val ?w, k)"
    using uvpt_entry [OF H(1), of ?a] present_entry(2) [OF F(2,6) pa(2) w(1)] w(3) H(10) pa(1) by simp
  have pr: "?w AND PTE_P \<noteq> 0" by (rule present_entry(1) [OF F(2,6) pa(2) w(1)])
  have S': "insert n S \<subseteq> {..<PGNUM UTOP}" using S n(1) by simp
  obtain k1 ys where k1: "lib_page_map u 0 ?a i ?a (share_perm ?w) k = Some (Val 0, k1)" "sharing u K c d p k0 (insert n S) S k1 ys"
    using share_page [OF st sh S S n, of i "insert n S" S] n(3) by blast
  show ?thesis
  proof (cases "cow_page ?w")
    case True
    obtain k2 zs where k2: "lib_page_map u 0 ?a 0 ?a (share_perm ?w) k1 = Some (Val 0, k2)"
      "sharing u K c d p k0 (insert n S) (insert n S) k2 zs"
      using share_page [OF st k1(2) S' S n, of 0 "insert n S" "insert n S"] True by blast
    have "share_perm ?w = (if ?w AND (PTE_PCD OR PTE_PWT) \<noteq> 0 then PTE_U OR PTE_P OR PTE_PCD OR PTE_PWT else PTE_U OR PTE_P) OR PTE_COW"
      using True by (simp add: share_perm_def)
    then have "duppage u i n k = Some (Val 0, k2)"
      using pte pr w(2) True k1(1) k2(1) unfolding duppage_def cow_page_def Let_def by (simp add: demand_def andthen_def ret_def del: or_numerals)
    then show ?thesis using k2(2) by blast
  next
    case False
    have "sharing u K c d p k0 (insert n S) (insert n S) k1 ys"
    proof -
      have "(PGNUM a \<in> insert n S \<and> visible k0 d a \<and> cow_page (entry k0 d a)) = (PGNUM a \<in> S \<and> visible k0 d a \<and> cow_page (entry k0 d a))" for a
        using False same_page_visible(2) [of a ?a k0 d] pa(1) by auto
      moreover have "uses k0 d q S \<le> uses k0 d q (insert n S)" for q unfolding uses_def by (rule card_mono) auto
      ultimately show ?thesis using k1(2) unfolding sharing_def by (simp only:) (meson add_left_mono order_trans)
    qed
    moreover have "share_perm ?w = (if ?w AND (PTE_PCD OR PTE_PWT) \<noteq> 0 then PTE_U OR PTE_P OR PTE_PCD OR PTE_PWT else PTE_U OR PTE_P)"
      using False by (simp add: share_perm_def)
    then have "duppage u i n k = Some (Val 0, k1)"
      using pte pr w(2) False k1(1) unfolding duppage_def cow_page_def Let_def by (simp add: demand_def andthen_def ret_def del: or_numerals)
    ultimately show ?thesis by blast
  qed
qed

section \<open>All pages\<close>

lemma fork_pages_ok:
  assumes st: "fork_start u K c d e p i k0 xs0"
  shows "sharing u K c d p k0 S S k xs \<Longrightarrow> S \<subseteq> {..<PGNUM UTOP} \<Longrightarrow> set ns \<subseteq> {..<PGNUM UTOP} \<Longrightarrow> distinct ns \<Longrightarrow> set ns \<inter> S = {} \<Longrightarrow>
    \<exists>k' ys S'. fork_pages u i ns k = Some (Val (), k') \<and> sharing u K c d p k0 S' S' k' ys \<and>
      S \<subseteq> S' \<and> S' \<subseteq> S \<union> set ns \<and> (\<forall>n \<in> set ns. visible k0 d (page2pa n) \<longrightarrow> n \<in> S')"
proof (induction ns arbitrary: S k xs)
  case Nil
  then show ?case by (auto simp: ret_def)
next
  case (Cons n ns)
  let ?a = "page2pa n"
  note F = fork_startD [OF st] and H = sharingD [OF Cons.prems(1)]
  have n: "n < PGNUM UTOP" "n \<notin> S" "set ns \<subseteq> {..<PGNUM UTOP}" "distinct ns" "n \<notin> set ns" "set ns \<inter> S = {}" using Cons.prems by auto
  note pa = page_address [OF n(1)]
  have pde: "uvpd u (n div 1024) k = Some (Val (pmem k0 d (PDX ?a)), k)"
    using runsD(10) [OF H(1)] H(10) page_index(1) [of ?a] pa(1) by (simp add: uvpd_def)
  have ent: "entry k d ?a = entry k0 d ?a" using H(6) [OF pa(2)] n(2) pa(1) by simp
  show ?case
  proof (cases "visible k0 d ?a")
    case True
    then have w: "entry k0 d ?a \<noteq> 0" "entry k0 d ?a AND PTE_U \<noteq> 0" "pmem k0 d (PDX ?a) AND PTE_U \<noteq> 0" "n \<noteq> PGNUM UXSTACKTOP - 1"
      using pa(1) by (simp_all add: visible_def)
    note pr = present_entry(1,2) [OF F(2,6) pa(2) w(1)]
    have pte: "uvpt u n k = Some (Val (entry k0 d ?a), k)" using uvpt_entry [OF H(1), of ?a] pr(2) w(3) H(10) pa(1) ent by simp
    obtain k1 ys where k1: "duppage u i n k = Some (Val 0, k1)" "sharing u K c d p k0 (insert n S) (insert n S) k1 ys"
      using duppage_ok [OF st Cons.prems(1,2) n(1) True n(2)] by blast
    have "fork_pages u i (n # ns) k = fork_pages u i ns k1"
      using pde pte pr w k1(1) by (simp add: andthen_def)
    then show ?thesis using Cons.IH [OF k1(2)] Cons.prems(2) n by auto
  next
    case False
    have "fork_pages u i (n # ns) k = fork_pages u i ns k"
    proof (cases "pmem k0 d (PDX ?a) AND PTE_P = 0 \<or> pmem k0 d (PDX ?a) AND PTE_U = 0 \<or> n = PGNUM UXSTACKTOP - 1")
      case True
      then show ?thesis using pde by (auto simp: andthen_def)
    next
      case have_table: False
      then have pte: "uvpt u n k = Some (Val (entry k0 d ?a), k)" using uvpt_entry [OF H(1), of ?a] H(10) pa(1) ent by simp
      moreover have "entry k0 d ?a AND PTE_U = 0 \<or> entry k0 d ?a = 0" using False have_table pa(1) by (auto simp: visible_def)
      ultimately show ?thesis using pde by (auto simp: andthen_def)
    qed
    moreover obtain k' ys S' where "fork_pages u i ns k = Some (Val (), k')" "sharing u K c d p k0 S' S' k' ys" "S \<subseteq> S'" "S' \<subseteq> S \<union> set ns"
      "\<forall>n \<in> set ns. visible k0 d (page2pa n) \<longrightarrow> n \<in> S'" using Cons.IH [OF Cons.prems(1,2) n(3,4,6)] by blast
    ultimately show ?thesis using False by (intro exI [of _ k'] exI [of _ ys] exI [of _ S']) auto
  qed
qed

end
