(* ===== verification/Lib_Fork_Whole.thy ===== *)
theory Lib_Fork_Whole
  imports Lib_Cow_Props
begin

unbundle bit_operations_syntax

text \<open>The whole of \<^verbatim>\<open>fork\<close> in the parent: the child, its pages, its exception stack and its upcall, and that it can be scheduled.\<close>

section \<open>References and uses\<close>

lemma uses_le_ref:
  assumes inv: "mem_inv k D K xs (\<lambda>_. 0)" and d: "d \<in> D" and q: "q < npages k" "q \<notin> K"
  shows "uses k d q S \<le> unat (pp_ref (pages k ! q))"
proof -
  define U where "U = {n \<in> S. n < PGNUM UTOP \<and> entry k d (page2pa n) \<noteq> 0 \<and> PGNUM (entry k d (page2pa n)) = q}"
  let ?site = "\<lambda>n. Pte (PGNUM (pmem k d (PDX (page2pa n)))) (PTX (page2pa n))"
  have u: "page2pa n < UTOP" "entry k d (page2pa n) \<noteq> 0" "PGNUM (entry k d (page2pa n)) = q" "PGNUM (page2pa n) = n" if "n \<in> U" for n
    using that page_address [of n] by (simp_all add: U_def)
  have "inj_on ?site U"
  proof (rule inj_onI)
    fix m n
    assume mn: "m \<in> U" "n \<in> U" "?site m = ?site n"
    have "pmem k d (PDX (page2pa m)) \<noteq> 0" "pmem k d (PDX (page2pa n)) \<noteq> 0" using entry_refers(2) [OF inv d] u mn by blast+
    then have "PDX (page2pa m) = PDX (page2pa n)"
      using mem_invD(8) [OF inv d d PDX_user PDX_user] u mn by blast
    then show "m = n" using mn(3) page_index [of "page2pa m"] page_index [of "page2pa n"] u(4) [OF mn(1)] u(4) [OF mn(2)]
      by (metis div_mult_mod_eq site.inject(3))
  qed
  moreover have "?site ` U \<subseteq> sites k D q" using entry_refers(1) [OF inv d] u unfolding sites_def by blast
  ultimately have "card U \<le> card (sites k D q)" using card_inj_on_le sites_finite [OF mem_invD(2) [OF inv]] by blast
  then show ?thesis using mem_invD(10) [OF inv q] by (simp add: uses_def U_def)
qed

section \<open>Calls that change another environment\<close>

lemma user_syscall_upd:
  assumes r: "runs u K c d k" and mem: "mem_inv k (dirs k) K xs (\<lambda>_. 0)" and e: "e \<noteq> c" "used k e"
    and sys: "syscall (u_policy u) (u_cpu u) (u_getc u) num a1 a2 a3 a4 a5 (entered u c (syscall_frame (u_frame u) num a1 a2 a3 a4 a5) k) =
      Some (Ret 0, upd_env e g (entered u c (syscall_frame (u_frame u) num a1 a2 a3 a4 a5) k))"
    and g: "\<And>x. env_id (g x) = env_id x" "\<And>x. env_pgdir (g x) = env_pgdir x" "\<And>x. env_link (g x) = env_link x"
      "\<And>x. env_parent_id (g x) = env_parent_id x" "\<And>x. env_ipc_dstva (g x) = env_ipc_dstva x" "env_status (g (envs k ! e)) \<noteq> ENV_FREE"
  shows "\<exists>k'. user_syscall u num check a1 a2 a3 a4 a5 k = Some (Val 0, k') \<and> runs u K c d k' \<and> mem_inv k' (dirs k') K xs (\<lambda>_. 0) \<and>
    dirs k' = dirs k \<and> pages k' = pages k \<and> pmem k' = pmem k \<and> envs k' ! e = g (envs k ! e) \<and>
    env_core (envs k' ! c) = env_core (envs k ! c) \<and> (\<forall>i p. reaches u i e p k \<longrightarrow> reaches u i e p k')"
proof -
  let ?tf = "syscall_frame (u_frame u) num a1 a2 a3 a4 a5"
  let ?k1 = "entered u c ?tf k"
  let ?k2 = "upd_env e g ?k1"
  note R = runsD [OF r]
  note en = entered_same [OF R(2), of ?tf] and eo = entered_ok [OF r mem, where tf = ?tf]
  have el: "e < NENV" using e(2) by (simp add: used_def)
  have u1: "used ?k1 e" using core_used(1) [OF en(1) R(9)] e(2) by simp
  have e1: "envs ?k1 ! e = envs k ! e" "length (envs ?k1) = NENV" using e(1) el R(9) by (simp_all add: entered_def)
  have st: "env_status (g (envs ?k1 ! e)) \<noteq> ENV_FREE" using g(6) e1(1) by simp
  have inv2: "kern_inv (u_cpu u) K ?k2"
    by (rule kern_inv_upd [OF eo(1) u1]) (use g st kern_invD(7) [OF eo(1) el] in simp_all)
  have us2: "used ?k2 = used ?k1" by (rule used_upd) (fact e1(2) u1 st)+
  have "env_pgdir (envs ?k2 ! f) = env_pgdir (envs ?k1 ! f)" if "used ?k1 f" for f using that e1(2) g(2) by (simp add: used_def)
  then have d2: "dirs ?k2 = dirs ?k1" unfolding dirs_def us2 by (metis (no_types, lifting))
  have c2: "envs ?k2 ! c = envs ?k1 ! c" using e(1) e1(2) R(8,9) by simp
  have run2: "cpu_env ?k2 (u_cpu u) = Some c" "c < length (envs ?k2)" "env_status (envs ?k2 ! c) = ENV_RUNNING"
    using R(2,3,8,9) e(1) by (simp_all add: entered_def)
  note rs = resumed_same [OF run2, where v = 0]
  let ?k' = "resumed u c 0 ?k2"
  have call: "user_syscall u num check a1 a2 a3 a4 a5 k = Some (Val 0, ?k')" using user_syscall_ret [OF r sys run2, of check] by simp
  have len2: "length (envs ?k2) = NENV" using e1(2) by simp
  have d': "dirs ?k' = dirs k" "used ?k' = used k"
    using core_used [OF rs(1) len2] d2 us2 eo(3) core_used(1) [OF en(1) R(9)] by simp_all
  have mem2: "mem_inv ?k' (dirs k) K xs (\<lambda>_. 0)" using eo(2) same_machine(1) [of ?k' ?k1] rs(2-4) by simp
  have inv': "kern_inv (u_cpu u) K ?k'" by (rule core_inv [OF inv2 rs(1)]) (use mem2 d2 eo(3) rs(4) in simp_all)
  have e': "envs ?k' ! e = g (envs k ! e)" using rs(6) [of e] e(1) el len2 e1 by simp
  have cc: "env_core (envs ?k' ! c) = env_core (envs k ! c)"
    using core_eq(5) [OF rs(1) run2(2)] c2 core_eq(5) [OF en(1) R(8)] by simp
  have cpu': "cpu_env ?k' (u_cpu u) = Some c" using core_eq(3) [OF rs(1)] run2(1) by simp
  have "runs u K c d ?k'" using inv' cpu' env_core_eq [OF cc] R(3-5) by (simp add: runs_def)
  moreover have "reaches u i e p ?k'" if "reaches u i e p k" for i p
  proof -
    have re: "used k e" "env_pgdir (envs k ! e) = Some p" "envid2env (u_cpu u) i True k = Some (0, Some e)" using that by (simp_all add: reaches_def)
    have "ENVX i = e \<or> i = 0" using re(3) by (auto simp: envid2env_def Let_def split: if_splits option.splits)
    then have "envid2env (u_cpu u) i True ?k' = envid2env (u_cpu u) i True k"
      using cpu' R(2) e' g env_core_eq(1) [OF cc] e(1) re(3) by (auto simp: envid2env_def Let_def split: if_splits)
    then show ?thesis using re d'(2) e' g(2) by (simp add: reaches_def)
  qed
  ultimately show ?thesis using call mem2 d'(1) e' cc rs(2,4) en(2,4) by (intro exI [of _ ?k']) simp
qed

lemma lib_env_set_status_ok:
  assumes "runs u K c d k" "mem_inv k (dirs k) K xs (\<lambda>_. 0)" "e \<noteq> c" "reaches u i e p k"
  shows "\<exists>k'. lib_env_set_status u i 2 k = Some (Val 0, k') \<and> runs u K c d k' \<and> mem_inv k' (dirs k') K xs (\<lambda>_. 0) \<and>
    dirs k' = dirs k \<and> pages k' = pages k \<and> pmem k' = pmem k \<and> envs k' ! e = (envs k ! e)\<lparr>env_status := ENV_RUNNABLE\<rparr> \<and>
    env_core (envs k' ! c) = env_core (envs k ! c) \<and> reaches u i e p k'"
proof -
  have "used k e" using assms(4) by (simp add: reaches_def)
  from user_syscall_upd [OF assms(1-3) this, of 9 i 2 0 0 0 "\<lambda>x. x\<lparr>env_status := ENV_RUNNABLE\<rparr>" True] show ?thesis
    using entered_ok(6) [OF assms(1,2,4)] assms(4)
    by (auto simp: lib_env_set_status_def syscall_def sys_env_set_status_def settable_status_def with_env_def reaches_def)
qed

lemma lib_env_set_pgfault_upcall_ok:
  assumes r: "runs u K c d k" and mem: "mem_inv k (dirs k) K xs (\<lambda>_. 0)" and e: "e \<noteq> c" "reaches u i e p k"
    and f: "unat f + 4096 \<le> unat UTOP" "\<And>a. unat f \<le> unat a \<Longrightarrow> unat a < unat f + 4096 \<Longrightarrow> allows 5 (entry k p a)"
  shows "\<exists>k'. lib_env_set_pgfault_upcall u i f k = Some (Val 0, k') \<and> runs u K c d k' \<and> mem_inv k' (dirs k') K xs (\<lambda>_. 0) \<and>
    dirs k' = dirs k \<and> pages k' = pages k \<and> pmem k' = pmem k \<and> envs k' ! e = (envs k ! e)\<lparr>env_pgfault_upcall := f\<rparr> \<and>
    env_core (envs k' ! c) = env_core (envs k ! c) \<and> reaches u i e p k'"
proof -
  let ?k1 = "entered u c (syscall_frame (u_frame u) 10 i f 0 0 0) k"
  note eo = entered_ok [OF r mem, where tf = "syscall_frame (u_frame u) 10 i f 0 0 0"]
  have re: "reaches u i e p ?k1" by (rule eo(6) [OF e(2)])
  have pd: "p \<in> dirs k" using e(2) by (auto simp: reaches_def dirs_def)
  obtain a where "user_mem_check p f PGSIZE 5 ?k1 = Some (0, a)"
    using user_mem_check_spec [OF eo(2) pd, of PGSIZE f 5] f unfolding eo(4) by auto
  then have um: "user_mem_assert (u_policy u) (u_cpu u) e f PGSIZE 5 ?k1 = Some (None, ?k1)" using re by (simp add: user_mem_assert_def reaches_def)
  have "used k e" using e(2) by (simp add: reaches_def)
  from user_syscall_upd [OF r mem e(1) this, of 10 i f 0 0 0 "\<lambda>x. x\<lparr>env_pgfault_upcall := f\<rparr>" True] show ?thesis
    using re um e(2) by (auto simp: lib_env_set_pgfault_upcall_def syscall_def sys_env_set_pgfault_upcall_def with_env_def reaches_def used_def)
qed

section \<open>The child before the loop\<close>

text \<open>
  What \<^verbatim>\<open>fork\<close> needs: a free environment, pages for its directory, its tables and its exception stack (\<open>p\<close> is the first free page),
  a whole page mapped from the upcall on, and references to spare on every page.
\<close>

definition fork_ready :: "uctx \<Rightarrow> nat set \<Rightarrow> nat \<Rightarrow> nat \<Rightarrow> nat \<Rightarrow> nat \<Rightarrow> kernel \<Rightarrow> nat list \<Rightarrow> bool" where
  "fork_ready u K c d e p k xs \<longleftrightarrow> runs u K c d k \<and> thisenv u = c \<and> mem_inv k (dirs k) K (p # xs) (\<lambda>_. 0) \<and> env_free_list k = Some e \<and>
     card {i. i < 955 \<and> pmem k d i \<noteq> 0} + 2 \<le> length xs \<and>
     (\<forall>a < UTOP. entry k d a \<noteq> 0 \<longrightarrow> unat (pp_ref (pages k ! PGNUM (entry k d a))) < 21845) \<and>
     (let f = env_pgfault_upcall (envs k ! c) in unat f + 4096 \<le> unat UTOP \<and>
        (\<forall>a. unat f \<le> unat a \<and> unat a < unat f + 4096 \<longrightarrow> visible k d a))"

lemma child_view:
  assumes r: "runs u K c d k" and mem: "mem_inv k (dirs k) K (p # xs) (\<lambda>_. 0)" and ch: "child_of u c e p k k1"
  shows "p \<noteq> d" "pmem k1 d = pmem k d" "a < UTOP \<Longrightarrow> entry k1 d a = entry k d a" "a < UTOP \<Longrightarrow> visible k1 d a = visible k d a"
    "a < UTOP \<Longrightarrow> entry k1 p a = 0" "a < UTOP \<Longrightarrow> entry k d a \<noteq> 0 \<Longrightarrow> PGNUM (entry k d a) \<noteq> p"
    "d' \<in> dirs k \<Longrightarrow> a < UTOP \<Longrightarrow> entry k1 d' a = entry k d' a"
proof -
  note R = runsD [OF r]
  have p: "p \<notin> dirs k" "\<not> is_table k (dirs k) p" using free_page [OF mem, of p] by simp_all
  have same: "pmem k1 q = pmem k q" if "q \<noteq> p" for q using ch that by (simp add: child_of_def)
  show pd: "p \<noteq> d" using p(1) R(7) by auto
  then show dir: "pmem k1 d = pmem k d" using same by simp
  show ent: "d' \<in> dirs k \<Longrightarrow> a < UTOP \<Longrightarrow> entry k1 d' a = entry k d' a" for d' by (rule data_change_entry [OF mem p same])
  then show e: "a < UTOP \<Longrightarrow> entry k1 d a = entry k d a" using R(7) by simp
  show "a < UTOP \<Longrightarrow> visible k1 d a = visible k d a" using e dir by (simp add: visible_def)
  show "a < UTOP \<Longrightarrow> entry k1 p a = 0" using ch PDX_user [of a] by (simp add: child_of_def entry_def)
  show "a < UTOP \<Longrightarrow> entry k d a \<noteq> 0 \<Longrightarrow> PGNUM (entry k d a) \<noteq> p" using mapped_frame(5) [OF mem R(7), of a] by auto
qed

lemma fork_begin:
  assumes ready: "fork_ready u K c d e p k xs" and k1: "runs u K c d k1" "mem_inv k1 (dirs k1) K xs (\<lambda>_. 0)" "child_of u c e p k k1"
  shows "fork_start u K c d e p (env_id (envs k1 ! e)) k1 xs" "sharing u K c d p k1 {} {} k1 xs"
proof -
  have F: "runs u K c d k" "mem_inv k (dirs k) K (p # xs) (\<lambda>_. 0)" "card {i. i < 955 \<and> pmem k d i \<noteq> 0} + 2 \<le> length xs"
    "\<And>a. a < UTOP \<Longrightarrow> entry k d a \<noteq> 0 \<Longrightarrow> unat (pp_ref (pages k ! PGNUM (entry k d a))) < 21845"
    using ready by (simp_all add: fork_ready_def)
  note R = runsD [OF F(1)] and R1 = runsD [OF k1(1)] and V = child_view [OF F(1,2) k1(3)]
  have C: "reaches u (env_id (envs k1 ! e)) e p k1" "p \<in> dirs k1" "npages k1 = npages k"
    "\<And>q. q < npages k \<Longrightarrow> q \<noteq> p \<Longrightarrow> pp_ref (pages k1 ! q) = pp_ref (pages k ! q)"
    using k1(3) by (simp_all add: child_of_def)
  have refs: "unat (pp_ref (pages k1 ! PGNUM (entry k1 d a))) + 2 * uses k1 d (PGNUM (entry k1 d a)) {..<PGNUM UTOP} < 65535"
    if a: "a < UTOP" "entry k1 d a \<noteq> 0" for a
  proof -
    have ka: "entry k d a \<noteq> 0" using V(3) [OF a(1)] a(2) by simp
    note fr = mapped_frame [OF F(2) R(7) a(1) ka] and fr1 = mapped_frame [OF k1(2) R1(7) a]
    have "unat (pp_ref (pages k1 ! PGNUM (entry k1 d a))) < 21845"
      using F(4) [OF a(1) ka] C(4) [OF fr(1) V(6) [OF a(1) ka]] V(3) [OF a(1)] by simp
    then show ?thesis using uses_le_ref [OF k1(2) R1(7) fr1(1,2), of "{..<PGNUM UTOP}"] by linarith
  qed
  then show "fork_start u K c d e p (env_id (envs k1 ! e)) k1 xs" using k1(1,2) C V(1) by (simp add: fork_start_def)
  have "missing k1 d p k1 \<le> card {i. i < 955 \<and> pmem k d i \<noteq> 0}"
    unfolding missing_def V(2) by (rule card_mono) auto
  then show "sharing u K c d p k1 {} {} k1 xs"
    unfolding sharing_def using k1(1,2) V(5) F(3) by simp
qed

section \<open>The whole call\<close>

lemma absorb: "(x OR y) AND y = y" for x y :: "32 word"
  by (rule bit_eqI) (auto simp: bit_or_iff bit_and_iff)

lemma shared_entry_allows: "allows 5 (shared_entry w)"
proof -
  have "shared_entry w = (page2pa (PGNUM w) OR share_perm w) OR 5" by (simp only: shared_entry_def or.assoc) simp
  then show ?thesis using absorb [of _ 5] by (simp add: allows_def)
qed

abbreviation (input) XSTACK :: "32 word" where
  "XSTACK \<equiv> UXSTACKTOP - PGSIZE"

lemma xstack: "\<not> bad_va XSTACK" "XSTACK < UTOP" "PGNUM XSTACK = PGNUM UXSTACKTOP - 1"
  by (simp_all add: bad_va_def PGNUM_div)

text \<open>The pages of a program and of its child after \<^verbatim>\<open>fork\<close>.\<close>

definition forked :: "nat \<Rightarrow> nat \<Rightarrow> kernel \<Rightarrow> kernel \<Rightarrow> bool" where
  "forked d p k k' \<longleftrightarrow>
     (\<forall>a < UTOP. PGNUM a \<noteq> PGNUM XSTACK \<longrightarrow> entry k' p a = (if visible k d a then shared_entry (entry k d a) else 0)) \<and>
     (\<forall>a < UTOP. entry k' d a = (if visible k d a \<and> cow_page (entry k d a) then shared_entry (entry k d a) else entry k d a)) \<and>
     (\<forall>a < UTOP. entry k d a \<noteq> 0 \<longrightarrow> pmem k' (PGNUM (entry k d a)) = pmem k (PGNUM (entry k d a))) \<and>
     (\<forall>d' \<in> dirs k - {d}. \<forall>a < UTOP. entry k' d' a = entry k d' a) \<and>
     (\<exists>q. entry k' p XSTACK = page2pa q OR 7 OR PTE_U OR PTE_P \<and> pmem k' q = (\<lambda>_. 0) \<and> (\<forall>a < UTOP. PGNUM (entry k' d a) = q \<longrightarrow> entry k' d a = 0))"

lemma user_page:
  assumes "a < UTOP"
  shows "PGNUM a < PGNUM UTOP" "PGNUM (page2pa (PGNUM a)) = PGNUM a"
proof -
  have a: "unat a < 0xEEC00000" using assms by (simp add: word_less_nat_alt)
  then show "PGNUM a < PGNUM UTOP" by (simp add: PGNUM_div less_mult_imp_div_less)
  then show "PGNUM (page2pa (PGNUM a)) = PGNUM a" by (rule page_address(1))
qed

lemma fork_maps:
  assumes ready: "fork_ready u K c d e p k xs" and k1: "runs u K c d k1" "mem_inv k1 (dirs k1) K xs (\<lambda>_. 0)" "child_of u c e p k k1"
  shows "\<exists>k2 k3 zs. fork_pages u (env_id (envs k1 ! e)) [0..<PGNUM UTOP] k1 = Some (Val (), k2) \<and>
    lib_page_alloc u (env_id (envs k1 ! e)) XSTACK 7 k2 = Some (Val 0, k3) \<and>
    runs u K c d k3 \<and> core k3 = core k1 \<and> mem_inv k3 (dirs k3) K zs (\<lambda>_. 0) \<and> forked d p k k3"
proof -
  let ?i = "env_id (envs k1 ! e)"
  have F: "runs u K c d k" "mem_inv k (dirs k) K (p # xs) (\<lambda>_. 0)" using ready by (simp_all add: fork_ready_def)
  note V = child_view [OF F k1(3)] and st = fork_begin(1) [OF assms] and sh = fork_begin(2) [OF assms]
  note S = fork_startD [OF st] and R1 = runsD [OF k1(1)]
  have set: "set [0..<PGNUM UTOP] \<subseteq> {..<PGNUM UTOP}" by auto
  obtain k2 ys T where k2: "fork_pages u ?i [0..<PGNUM UTOP] k1 = Some (Val (), k2)" "sharing u K c d p k1 T T k2 ys"
    "\<forall>n \<in> set [0..<PGNUM UTOP]. visible k1 d (page2pa n) \<longrightarrow> n \<in> T"
    using fork_pages_ok [OF st sh _ set] by auto
  note H = sharingD [OF k2(2)]
  have all: "PGNUM a \<in> T" if "a < UTOP" "visible k d a" for a
    using k2(3) user_page [OF that(1)] same_page_visible(1) [of "page2pa (PGNUM a)" a k1 d] V(4) [OF that(1)] that(2) by simp
  have child2: "entry k2 p a = (if visible k d a then shared_entry (entry k d a) else 0)" if "a < UTOP" for a
    using H(5) [OF that] V(3,4) [OF that] all [OF that] by auto
  have parent2: "entry k2 d a = (if visible k d a \<and> cow_page (entry k d a) then shared_entry (entry k d a) else entry k d a)" if "a < UTOP" for a
    using H(6) [OF that] V(3,4) [OF that] all [OF that] by auto
  have d2: "dirs k2 = dirs k1" by (rule core_used(2) [OF H(2) R1(9)])
  obtain q ys' where ys: "ys = q # ys'" "ys' \<noteq> []" using H(11) by (cases ys; cases "tl ys") auto
  have m2: "mem_inv k2 (dirs k2) K (q # ys') (\<lambda>_. 0)" using H(3) d2 ys(1) by simp
  have re2: "reaches u ?i e p k2" by (rule reaches_core [OF H(2) S(3,1)])
  obtain k3 zs where k3: "lib_page_alloc u ?i XSTACK 7 k2 = Some (Val 0, k3)" "runs u K c d k3" "core k3 = core k2"
    "mem_inv k3 (dirs k2) K zs (\<lambda>_. 0)" "inserted (dirs k2) (q # ys') (q # zs) k2 k3 p XSTACK (page2pa q OR 7 OR PTE_U OR PTE_P)"
    "pmem k3 q = (\<lambda>_. 0)"
    using lib_page_alloc_ok [OF H(1) m2 re2 xstack(1), of 7] ys(2) by auto
  note I = insertedD [OF k3(5), unfolded d2]
  have parent3: "entry k3 d a = entry k2 d a" if "a < UTOP" for a using I(2) [OF S(6) that] V(1) by simp
  have "forked d p k k3"
    unfolding forked_def
  proof (intro conjI allI impI ballI)
    show "entry k3 p a = (if visible k d a then shared_entry (entry k d a) else 0)" if "a < UTOP" "PGNUM a \<noteq> PGNUM XSTACK" for a
      using I(2) [OF S(5) that(1)] that(2) child2 [OF that(1)] by simp
    show "entry k3 d a = (if visible k d a \<and> cow_page (entry k d a) then shared_entry (entry k d a) else entry k d a)" if "a < UTOP" for a
      using parent3 [OF that] parent2 [OF that] by simp
    show "pmem k3 (PGNUM (entry k d a)) = pmem k (PGNUM (entry k d a))" if a: "a < UTOP" "entry k d a \<noteq> 0" for a
    proof -
      have a1: "entry k1 d a \<noteq> 0" "entry k1 d a = entry k d a" using V(3) [OF a(1)] a(2) by simp_all
      note fr = sharing_frame [OF st k2(2) a(1) a1(1)]
      have "pmem k1 (PGNUM (entry k d a)) = pmem k (PGNUM (entry k d a))" using k1(3) V(6) [OF a] by (simp add: child_of_def)
      then show ?thesis using I(3) fr(4-6) H(8) [OF a(1) a1(1)] a1(2) ys(1) by simp
    qed
    show "entry k3 d' a = entry k d' a" if d': "d' \<in> dirs k - {d}" and a: "a < UTOP" for d' a
    proof -
      have "p \<notin> dirs k" using free_page [OF F(2), of p] by simp
      then have dp: "d' \<noteq> p" "d' \<in> dirs k1" using d' k1(3) by (auto simp: child_of_def)
      then show ?thesis using I(2) [OF dp(2) a] H(7) [OF dp(2) _ dp(1) a] V(7) [OF _ a] d' by simp
    qed
    show "\<exists>q. entry k3 p XSTACK = page2pa q OR 7 OR PTE_U OR PTE_P \<and> pmem k3 q = (\<lambda>_. 0) \<and> (\<forall>a < UTOP. PGNUM (entry k3 d a) = q \<longrightarrow> entry k3 d a = 0)"
    proof (intro exI [of _ q] conjI allI impI)
      show "entry k3 p XSTACK = page2pa q OR 7 OR PTE_U OR PTE_P" "pmem k3 q = (\<lambda>_. 0)" by (fact I(1) k3(6))+
      show "entry k3 d a = 0" if "a < UTOP" "PGNUM (entry k3 d a) = q" for a
        using mapped_frame(5) [OF m2 _ that(1), of d] parent3 [OF that(1)] that(2) S(6) d2 by auto
    qed
  qed
  moreover have "dirs k3 = dirs k2" by (rule core_used(2) [OF k3(3)]) (rule runsD(9) [OF H(1)])
  ultimately show ?thesis using k2(1) k3(1-4) H(2) by (intro exI [of _ k2] exI [of _ k3] exI [of _ zs]) simp
qed

lemma fork_ok:
  assumes ready: "fork_ready u K c d e p k xs" and h: "handler \<noteq> 0"
  shows "\<exists>k'. fork u entry_point handler new k = Some (Val (sint (env_id (envs k' ! e)), new, c), k') \<and> runs u K c d k' \<and> forked d p k k' \<and>
    0 < sint (env_id (envs k' ! e)) \<and> env_status (envs k' ! e) = ENV_RUNNABLE \<and> env_pgdir (envs k' ! e) = Some p \<and>
    env_pgfault_upcall (envs k' ! e) = env_pgfault_upcall (envs k ! c) \<and>
    env_tf (envs k' ! e) = (exofork_frame (u_frame u))\<lparr>tf_regs := (tf_regs (u_frame u))\<lparr>reg_eax := 0\<rparr>\<rparr>"
proof -
  let ?f = "env_pgfault_upcall (envs k ! c)"
  have F: "runs u K c d k" "thisenv u = c" "mem_inv k (dirs k) K (p # xs) (\<lambda>_. 0)" "env_free_list k = Some e" "unat ?f + 4096 \<le> unat UTOP"
    "\<And>a. unat ?f \<le> unat a \<Longrightarrow> unat a < unat ?f + 4096 \<Longrightarrow> visible k d a"
    using ready by (simp_all add: fork_ready_def Let_def)
  obtain k1 where k1: "lib_exofork u k = Some (Val (sint (env_id (envs k1 ! e))), k1)" "runs u K c d k1" "mem_inv k1 (dirs k1) K xs (\<lambda>_. 0)"
    "child_of u c e p k k1" using lib_exofork_ok [OF F(1,3,4)] by blast
  let ?i = "env_id (envs k1 ! e)"
  have C: "reaches u ?i e p k1" "0 < sint ?i" "env_status (envs k1 ! e) = ENV_NOT_RUNNABLE" "env_pgfault_upcall (envs k1 ! c) = ?f"
    "env_tf (envs k1 ! e) = (exofork_frame (u_frame u))\<lparr>tf_regs := (tf_regs (u_frame u))\<lparr>reg_eax := 0\<rparr>\<rparr>"
    using k1(4) by (simp_all add: child_of_def)
  note R1 = runsD [OF k1(2)]
  have ec: "e \<noteq> c" using C(3) R1(3) by auto
  have el: "e < length (envs k1)" using C(1) R1(9) by (simp add: reaches_def used_def)
  obtain k2 k3 zs where k3: "fork_pages u ?i [0..<PGNUM UTOP] k1 = Some (Val (), k2)" "lib_page_alloc u ?i XSTACK 7 k2 = Some (Val 0, k3)"
    "runs u K c d k3" "core k3 = core k1" "mem_inv k3 (dirs k3) K zs (\<lambda>_. 0)" "forked d p k k3"
    using fork_maps [OF ready k1(2-4)] by blast
  have re3: "reaches u ?i e p k3" by (rule reaches_core [OF k3(4) C(1) k1(2)])
  have up3: "env_pgfault_upcall (envs k3 ! c) = ?f" using env_core_eq(7) [OF core_eq(5) [OF k3(4) R1(8)]] C(4) by simp
  have "Some e \<notin> range (cpu_env k1)" using kern_invD(3) [OF R1(1)] R1(2) ec by (metis imageE option.inject)
  then have tf3: "env_tf (envs k3 ! e) = env_tf (envs k1 ! e)" by (rule core_eq(6) [OF k3(4) el])
  have id3: "env_id (envs k3 ! e) = ?i" by (rule env_core_eq(1) [OF core_eq(5) [OF k3(4) el]])
  have ok: "allows 5 (entry k3 p a)" if a: "unat ?f \<le> unat a" "unat a < unat ?f + 4096" for a
  proof -
    have "visible k d a" by (rule F(6) [OF a])
    moreover have "a < UTOP" using a(2) F(5) by (simp add: word_less_nat_alt)
    ultimately have "entry k3 p a = shared_entry (entry k d a)" using k3(6) xstack(3) by (auto simp: forked_def visible_def)
    then show ?thesis using shared_entry_allows by simp
  qed
  obtain k4 where k4: "lib_env_set_pgfault_upcall u ?i ?f k3 = Some (Val 0, k4)" "runs u K c d k4" "mem_inv k4 (dirs k4) K zs (\<lambda>_. 0)"
    "pages k4 = pages k3" "pmem k4 = pmem k3" "envs k4 ! e = (envs k3 ! e)\<lparr>env_pgfault_upcall := ?f\<rparr>" "reaches u ?i e p k4"
    using lib_env_set_pgfault_upcall_ok [OF k3(3,5) ec re3 F(5) ok] by blast
  obtain k5 where k5: "lib_env_set_status u ?i 2 k4 = Some (Val 0, k5)" "runs u K c d k5"
    "pages k5 = pages k4" "pmem k5 = pmem k4" "envs k5 ! e = (envs k4 ! e)\<lparr>env_status := ENV_RUNNABLE\<rparr>" "reaches u ?i e p k5"
    using lib_env_set_status_ok [OF k4(2,3) ec k4(7)] by blast
  have "entry k5 = entry k3" using k5(4) k4(5) by (auto simp: entry_def fun_eq_iff)
  moreover have "pmem k5 = pmem k3" using k5(4) k4(5) by simp
  ultimately have "forked d p k k5 = forked d p k k3" by (simp only: forked_def)
  then have "forked d p k k5" using k3(6) by simp
  moreover have "fork u entry_point handler new k = Some (Val (sint ?i, new, c), k5)"
    using h k1(1) C(2) k3(1,2) up3 F(2) k4(1) k5(1)
    by (simp add: fork_def set_pgfault_handler_def demand_def andthen_def ret_def Let_def)
  ultimately show ?thesis using k5(2,5,6) k4(6) id3 tf3 C(2,5) by (intro exI [of _ k5]) (simp add: reaches_def)
qed

section \<open>Messages\<close>

text \<open>A value sent to an environment that waits, without a page.\<close>

lemma ipc_send_ok:
  assumes r: "runs u K c d k" and mem: "mem_inv k (dirs k) K xs (\<lambda>_. 0)" and e: "e \<noteq> c" "used k e"
    and to: "envid2env (u_cpu u) i False k = Some (0, Some e)" "env_ipc_recving (envs k ! e)"
  shows "\<exists>k'. ipc_send u others i val 0 perm k = Some (Val True, k') \<and> runs u K c d k' \<and> dirs k' = dirs k \<and> pmem k' = pmem k \<and>
    envs k' ! e = (envs k ! e)\<lparr>env_ipc_perm := 0, env_ipc_from := env_id (envs k ! c), env_ipc_recving := False, env_ipc_value := val,
      env_tf := (env_tf (envs k ! e))\<lparr>tf_regs := (tf_regs (env_tf (envs k ! e)))\<lparr>reg_eax := 0\<rparr>\<rparr>, env_status := ENV_RUNNABLE\<rparr>"
proof -
  let ?tf = "syscall_frame (u_frame u) 12 i val UTOP perm 0"
  let ?k1 = "entered u c ?tf k"
  let ?g = "\<lambda>x :: environment. x\<lparr>env_ipc_perm := 0, env_ipc_from := env_id (envs k ! c), env_ipc_recving := False, env_ipc_value := val,
      env_tf := (env_tf x)\<lparr>tf_regs := (tf_regs (env_tf x))\<lparr>reg_eax := 0\<rparr>\<rparr>, env_status := ENV_RUNNABLE\<rparr>"
  note R = runsD [OF r]
  note en = entered_same [OF R(2), of ?tf]
  have el: "e < length (envs k)" using e(2) R(9) by (simp add: used_def)
  have e1: "envs ?k1 ! e = envs k ! e" using e(1) el by (simp add: entered_def)
  have x: "env_core (envs ?k1 ! ENVX i) = env_core (envs k ! ENVX i)" by (rule core_eq(5) [OF en(1)]) (simp add: R(9) ENVX_less)
  have "i \<noteq> 0" using to(1) R(2) e(1) by (auto simp: envid2env_def)
  then have "envid2env (u_cpu u) i False ?k1 = Some (0, Some e)"
    using to(1) env_core_eq(1,4) [OF x] by (auto simp: envid2env_def Let_def split: if_splits)
  moreover have "cpu_env ?k1 (u_cpu u) = Some c" using core_eq(3) [OF en(1)] R(2) by simp
  moreover have "env_id (envs (upd_env e (\<lambda>x. x\<lparr>env_ipc_perm := 0\<rparr>) ?k1) ! c) = env_id (envs k ! c)"
    using env_core_eq(1) [OF core_eq(5) [OF en(1) R(8)]] e(1) core_eq(1) [OF en(1)] R(8) by simp
  moreover have "upd_env e f (upd_env e h k) = upd_env e (\<lambda>x. f (h x)) k" if "e < length (envs k)" for f h and k :: kernel
    using that by (simp add: upd_env_def)
  ultimately have "sys_ipc_try_send (u_cpu u) i val UTOP perm ?k1 = Some (Ret 0, upd_env e ?g ?k1)"
    using to(2) e1 el core_eq(1) [OF en(1)] by (simp add: sys_ipc_try_send_def with_env_def ipc_deliver_def)
  then obtain k' where "lib_ipc_try_send u i val UTOP perm k = Some (Val 0, k')" "runs u K c d k'" "dirs k' = dirs k" "pmem k' = pmem k"
    "envs k' ! e = ?g (envs k ! e)"
    using user_syscall_upd [OF r mem e, of 12 i val UTOP perm 0 ?g False] by (auto simp: lib_ipc_try_send_def syscall_def)
  then show ?thesis by (cases others) (simp_all add: ipc_send_def andthen_def ret_def)
qed

end
