(* ===== verification/Lib_Fork_Theorems.thy ===== *)
theory Lib_Fork_Theorems
  imports Lib_Fork_Whole Kern_Run_Theorems
begin

unbundle bit_operations_syntax

text \<open>The properties of the library of the programs: page faults, fork and messages, on top of the kernel.\<close>

section \<open>A kernel for the witnesses\<close>

text \<open>Ten pages, of which six are free; environment 0 runs and has an upcall, environment 1 waits for a message.\<close>

definition roomy_pages :: "page_info list" where
  "roomy_pages = [\<lparr>pp_link = None, pp_ref = 0\<rparr>, \<lparr>pp_link = None, pp_ref = 1\<rparr>, \<lparr>pp_link = Some 3, pp_ref = 0\<rparr>,
     \<lparr>pp_link = Some 6, pp_ref = 0\<rparr>, \<lparr>pp_link = None, pp_ref = 0\<rparr>, \<lparr>pp_link = None, pp_ref = 1\<rparr>, \<lparr>pp_link = Some 7, pp_ref = 0\<rparr>,
     \<lparr>pp_link = Some 8, pp_ref = 0\<rparr>, \<lparr>pp_link = Some 9, pp_ref = 0\<rparr>, \<lparr>pp_link = None, pp_ref = 0\<rparr>]"

definition roomy_kernel :: kernel where
  "roomy_kernel = small_kernel\<lparr>pages := roomy_pages,
     envs := (envs small_kernel)[0 := (small_env 0)\<lparr>env_pgfault_upcall := 0x800000\<rparr>,
       1 := (small_env 1)\<lparr>env_ipc_recving := True, env_status := ENV_NOT_RUNNABLE\<rparr>]\<rparr>"

lemma roomy_machine: "pages roomy_kernel = roomy_pages" "npages roomy_kernel = 10" "pmem roomy_kernel = (\<lambda>_ _. 0)" "page_free_list roomy_kernel = Some 2"
  by (simp_all add: roomy_kernel_def npages_def roomy_pages_def small_kernel_machine)

lemma roomy_mem: "mem_inv roomy_kernel {1, 5} {0} [2, 3, 6, 7, 8, 9] (\<lambda>_. 0)"
proof -
  note k = roomy_machine
  have z: "pmem roomy_kernel d i = 0" for d i by (simp add: k)
  have ten: "p < 10 \<longleftrightarrow> p = 0 \<or> p = 1 \<or> p = 2 \<or> p = 3 \<or> p = 4 \<or> p = 5 \<or> p = 6 \<or> p = 7 \<or> p = 8 \<or> p = (9 :: nat)" for p by auto
  have t: "\<not> is_table roomy_kernel {1, 5} t" for t by (rule blank_tables) (rule z)
  have "pl.free_listed roomy_kernel [2, 3, 6, 7, 8, 9]"
    unfolding pl.free_listed_def listed_def k(2) by (simp add: page_next_def k roomy_pages_def)
  moreover have "unat (pp_ref (pages roomy_kernel ! p)) = card (sites roomy_kernel {1, 5} p)" if "p < 10" "p \<noteq> 0" for p
    using that blank_sites [of "{1, 5}" roomy_kernel p] z unfolding ten k(1) by (auto simp: roomy_pages_def)
  moreover have "pp_link (pages roomy_kernel ! p) = None" if "p < 10" "p \<notin> {2, 3, 6, 7, 8, 9}" for p
    using that unfolding ten k(1) by (auto simp: roomy_pages_def)
  ultimately show ?thesis
    unfolding mem_inv_def k(2) using t z by (auto simp: tables_apart_def all_present_def k(1) roomy_pages_def)
qed

lemma roomy_envs:
  "length (envs roomy_kernel) = 1024" "envs roomy_kernel ! 0 = (small_env 0)\<lparr>env_pgfault_upcall := 0x800000\<rparr>"
  "envs roomy_kernel ! 1 = (small_env 1)\<lparr>env_ipc_recving := True, env_status := ENV_NOT_RUNNABLE\<rparr>"
  "e < 1024 \<Longrightarrow> e \<noteq> 0 \<Longrightarrow> e \<noteq> 1 \<Longrightarrow> envs roomy_kernel ! e = small_env e"
  "cpu_env roomy_kernel = cpu_env small_kernel" "env_free_list roomy_kernel = Some 2" "kern_pgdir roomy_kernel = 0"
  by (simp_all add: roomy_kernel_def small_kernel_machine)

lemma roomy_inv: "kern_inv 0 {0} roomy_kernel" "dirs roomy_kernel = {1, 5}"
proof -
  obtain fs where fs: "envs_inv small_kernel fs" using small_kernel_inv by (rule kern_invE)
  have z: "env_id (envs roomy_kernel ! e) = env_id (small_env e) \<and> env_pgdir (envs roomy_kernel ! e) = env_pgdir (small_env e) \<and>
    env_link (envs roomy_kernel ! e) = env_link (small_env e) \<and>
    (env_status (envs roomy_kernel ! e) = ENV_FREE \<longleftrightarrow> env_status (small_env e) = ENV_FREE) \<and> env_ipc_dstva (envs roomy_kernel ! e) = 0"
    if "e < NENV" for e
  proof (cases "e = 0 \<or> e = 1")
    case True
    then show ?thesis using roomy_envs(2,3) by (auto simp only:) (simp_all add: small_env_def)
  next
    case False
    then have "envs roomy_kernel ! e = small_env e" using roomy_envs(4) that by blast
    moreover have "env_ipc_dstva (small_env e) = 0" by (simp add: small_env_def)
    ultimately show ?thesis by simp
  qed
  have e: "env_id (envs roomy_kernel ! e) = env_id (envs small_kernel ! e)" "env_pgdir (envs roomy_kernel ! e) = env_pgdir (envs small_kernel ! e)"
    "env_link (envs roomy_kernel ! e) = env_link (envs small_kernel ! e)"
    "env_status (envs roomy_kernel ! e) = ENV_FREE \<longleftrightarrow> env_status (envs small_kernel ! e) = ENV_FREE"
    "env_ipc_dstva (envs roomy_kernel ! e) < UTOP" if "e < NENV" for e
    using z [OF that] small_envs(2) [OF that] by simp_all
  note same = envs_inv_same [OF fs, of roomy_kernel, OF roomy_envs(1) _ e]
  have s: "envs_inv roomy_kernel fs" "used roomy_kernel = used small_kernel" "dirs roomy_kernel = dirs small_kernel"
    using same roomy_envs(6) by simp_all
  then show d: "dirs roomy_kernel = {1, 5}" using small_dirs by simp
  show "kern_inv 0 {0} roomy_kernel"
    unfolding kern_inv_def d roomy_envs(5,7) roomy_machine(3) s(2) using s(1) roomy_mem kern_invD(3,4) [OF small_kernel_inv] by blast
qed

definition some_program :: uctx where
  "some_program = \<lparr>u_policy = SCHED_ROUND_ROBIN, u_cpu = 0, u_getc = 0, u_frame = user_tf, thisenv = 0\<rparr>"

lemma roomy_runs: "runs some_program {0} 0 1 roomy_kernel"
  using roomy_inv(1) roomy_envs(2,5) by (simp add: runs_def some_program_def user_tf_def small_env_def)






section \<open>Page faults\<close>



section \<open>Fork\<close>



section \<open>Messages\<close>

text \<open>
  C31. A value sent is the value received: when \<open>e\<close> waits for a message, \<^verbatim>\<open>ipc_send\<close> without a page succeeds at the first attempt,
  \<open>e\<close> can run again with result 0 from its system call, and what its \<^verbatim>\<open>ipc_recv\<close> then returns is the identifier of the
  sender, no permissions and the value; \<open>e\<close> no longer accepts a message, so that this one is not overwritten.
\<close>

theorem ipc_round_trip:
  assumes "runs u K c d k" "e \<noteq> c" "used k e" "envid2env (u_cpu u) i False k = Some (0, Some e)" "env_ipc_recving (envs k ! e)" "thisenv v = e"
  shows "\<exists>k'. ipc_send u others i val 0 perm k = Some (Val True, k') \<and> kern_inv (u_cpu u) K k' \<and>
    env_status (envs k' ! e) = ENV_RUNNABLE \<and> reg_eax (tf_regs (env_tf (envs k' ! e))) = 0 \<and>
    ipc_received v 0 k' = Some (Val (env_id (envs k ! c), 0, sint val), k') \<and> \<not> env_ipc_recving (envs k' ! e)"
proof -
  obtain xs where mem: "mem_inv k (dirs k) K xs (\<lambda>_. 0)" using runsD(1) [OF assms(1)] by (rule kern_invE)
  obtain k' where "ipc_send u others i val 0 perm k = Some (Val True, k')" "runs u K c d k'"
    "envs k' ! e = (envs k ! e)\<lparr>env_ipc_perm := 0, env_ipc_from := env_id (envs k ! c), env_ipc_recving := False, env_ipc_value := val,
      env_tf := (env_tf (envs k ! e))\<lparr>tf_regs := (tf_regs (env_tf (envs k ! e)))\<lparr>reg_eax := 0\<rparr>\<rparr>, env_status := ENV_RUNNABLE\<rparr>"
    using ipc_send_ok [OF assms(1) mem assms(2-5)] by blast
  then show ?thesis using runsD(1) assms(6) by (intro exI [of _ k']) (simp add: ipc_received_def)
qed

theorem ipc_round_trip_witness:
  "\<exists>k'. ipc_send some_program [] 0x1001 42 0 0 roomy_kernel = Some (Val True, k') \<and>
    ipc_received (some_program\<lparr>thisenv := 1\<rparr>) 0 k' = Some (Val (0x1000, 0, 42), k')"
proof -
  have e: "env_id (envs roomy_kernel ! 1) = 0x1001" "env_status (envs roomy_kernel ! 1) \<noteq> ENV_FREE" "env_ipc_recving (envs roomy_kernel ! 1)"
    "env_id (envs roomy_kernel ! 0) = 0x1000"
    unfolding roomy_envs(2,3) by (simp_all add: small_env_def)
  have "ENVX 0x1001 = 1" by (simp add: ENVX_def)
  then have "envid2env (u_cpu some_program) 0x1001 False roomy_kernel = Some (0, Some 1)"
    using e by (simp add: envid2env_def Let_def)
  moreover have "used roomy_kernel 1" using e(2) by (simp add: used_def)
  ultimately show ?thesis
    using ipc_round_trip [OF roomy_runs, of 1 "0x1001" "some_program\<lparr>thisenv := 1\<rparr>" "[]" 42 0] e by auto
qed

end
