(* ===== verification/Lib_String_Props.thy ===== *)
theory Lib_String_Props
  imports Lib_String
begin

unbundle bit_operations_syntax

text \<open>
  What the string routines compute: strings in memory as lists of characters, and copying and filling as functions on
  the whole memory.
\<close>

section \<open>Strings in memory\<close>

fun at :: "ram \<Rightarrow> addr \<Rightarrow> string \<Rightarrow> bool" where
  "at m p [] \<longleftrightarrow> True"
| "at m p (c # cs) \<longleftrightarrow> m p = c \<and> at m (p + 1) cs"

definition cstr :: "ram \<Rightarrow> addr \<Rightarrow> string \<Rightarrow> bool" where
  "cstr m p s \<longleftrightarrow> at m p (s @ [NUL]) \<and> cstring s"

lemma cstr_simps [simp]:
  "cstr m p [] \<longleftrightarrow> m p = NUL" "cstr m p (c # s) \<longleftrightarrow> m p = c \<and> c \<noteq> NUL \<and> cstr m (p + 1) s"
  by (auto simp: cstr_def)

lemma strlen_loop_cstr: "cstr m p s \<Longrightarrow> strlen_loop m p n = Some (n + of_nat (length s))"
  by (induction s arbitrary: p n) (simp_all add: strlen_loop.simps)

lemma strlen_cstr: "cstr m p s \<Longrightarrow> strlen m p = Some (of_nat (length s))"
  by (simp add: strlen_def strlen_loop_cstr)

lemma cstr_unique: "cstr m p s \<Longrightarrow> cstr m p t \<Longrightarrow> s = t"
proof (induction s arbitrary: p t)
  case Nil
  then show ?case by (cases t) auto
next
  case (Cons c s)
  then show ?case by (cases t) auto
qed

lemma strnlen_loop_cstr: "cstr m p s \<Longrightarrow> strnlen_loop m p sz n = n + of_nat (min (unat sz) (length s))"
proof (induction s arbitrary: p n sz)
  case Nil
  then show ?case by (simp add: strnlen_loop.simps)
next
  case (Cons c s)
  show ?case
  proof (cases "sz = 0")
    case False
    then have "unat sz = Suc (unat (sz - 1))" by (simp add: unat_minus_one unat_gt_0)
    then show ?thesis using Cons False by (simp add: strnlen_loop.simps [of m p sz] word_neq_0_conv)
  qed (simp add: strnlen_loop.simps)
qed

lemma of_char_pos:
  assumes "c \<noteq> NUL"
  shows "(0 :: nat) < of_char c" "(0 :: int) < of_char c"
proof -
  have "(of_char c :: nat) \<noteq> of_char NUL" using assms by (simp only: of_char_eq_iff not_False_eq_True)
  then show n: "(0 :: nat) < of_char c" by simp
  have "(of_char c :: int) = int (of_char c)" by (simp add: of_char_def)
  then show "(0 :: int) < of_char c" using n by simp
qed

lemma byte_diff_sign: "byte_diff a b = 0 \<longleftrightarrow> a = b" "byte_diff a b < 0 \<longleftrightarrow> (of_char a :: nat) < of_char b"
proof -
  have "(of_char c :: int) = int (of_char c)" for c by (simp add: of_char_def)
  then show "byte_diff a b < 0 \<longleftrightarrow> (of_char a :: nat) < of_char b" by (simp add: byte_diff_def)
qed (simp add: byte_diff_def)

lemma strcmp_cstr:
  assumes "cstr m p s" "cstr m q t"
  shows "\<exists>r. strcmp m p q = Some r \<and> (r = 0 \<longleftrightarrow> s = t) \<and>
    (r < 0 \<longleftrightarrow> (s, t) \<in> lexord {(a, b). (of_char a :: nat) < of_char b})"
  using assms
proof (induction s arbitrary: p q t)
  case Nil
  then show ?case by (cases t) (auto simp: strcmp.simps byte_diff_sign of_char_pos)
next
  case (Cons c s)
  show ?case
  proof (cases t)
    case Nil
    then show ?thesis using Cons.prems by (auto simp: strcmp.simps byte_diff_sign)
  next
    case (Cons b u)
    then show ?thesis using Cons.prems Cons.IH [of "p + 1" "q + 1" u]
      by (cases "c = b") (auto simp: strcmp.simps [of m p q] byte_diff_sign)
  qed
qed

section \<open>Copying and filling\<close>

text \<open>The offset of an address from a base, and the memory with \<open>n\<close> bytes copied all at once.\<close>

definition offs :: "addr \<Rightarrow> addr \<Rightarrow> nat" where
  "offs d q = unat (q - d)"

definition copied :: "addr \<Rightarrow> addr \<Rightarrow> nat \<Rightarrow> ram \<Rightarrow> ram" where
  "copied d s n m q = (if offs d q < n then m (s + (q - d)) else m q)"

definition filled :: "addr \<Rightarrow> nat \<Rightarrow> char \<Rightarrow> ram \<Rightarrow> ram" where
  "filled p n b m q = (if offs p q < n then b else m q)"

lemma offs_less: "offs d q < 2 ^ 32"
  unfolding offs_def using unsigned_less [of "q - d"] by simp

lemma offs_base: "q = d + of_nat (offs d q)"
  by (simp add: offs_def)

lemma offs_of_nat [simp]: "i < 2 ^ 32 \<Longrightarrow> offs d (d + of_nat i) = i"
  by (simp add: offs_def unat_of_nat)

lemma offs_self [simp]: "offs d d = 0"
  by (simp add: offs_def)

lemma offs_shift:
  assumes "k < 2 ^ 32"
  shows "offs (d + of_nat k) q = (if k \<le> offs d q then offs d q - k else 2 ^ 32 + offs d q - k)"
proof -
  have k: "unat (of_nat k :: 32 word) = k" using assms by (simp add: unat_of_nat)
  have sub: "unat (x - of_nat k) = (if k \<le> unat x then unat x - k else 2 ^ 32 + unat x - k)" for x :: "32 word"
    unfolding unat_sub_if_size word_size k by simp arith
  have "q - (d + of_nat k) = (q - d) - of_nat k" by simp
  then show ?thesis unfolding offs_def by (simp only: sub)
qed

lemma copied_zero [simp]: "copied d s 0 m = m"
  by (simp add: copied_def fun_eq_iff)

lemma copied_one: "copied d s 1 m = m(d := m s)"
proof
  fix q
  show "copied d s 1 m q = (m(d := m s)) q"
    by (cases "q = d") (auto simp: copied_def offs_def unat_eq_zero)
qed

text \<open>Two copies one after the other are one, when neither overwrites what the other still has to read.\<close>

lemma copied_up:
  assumes "k + n \<le> 2 ^ 32" "k < 2 ^ 32"
    and apart: "\<And>i j. i < k \<Longrightarrow> k \<le> j \<Longrightarrow> j < k + n \<Longrightarrow> d + of_nat i \<noteq> s + of_nat j"
  shows "copied (d + of_nat k) (s + of_nat k) n (copied d s k m) = copied d s (k + n) m"
proof
  fix q
  let ?i = "offs d q"
  have sum: "s + of_nat k + (q - (d + of_nat k)) = s + (q - d)" by simp
  have same: "copied d s k m (s + (q - d)) = m (s + (q - d))" if "k \<le> ?i" "?i < k + n"
  proof -
    have "\<not> offs d (s + (q - d)) < k"
    proof
      assume lt: "offs d (s + (q - d)) < k"
      have "d + of_nat (offs d (s + (q - d))) = s + of_nat ?i" by (simp add: offs_def)
      then show False using apart [OF lt that] by simp
    qed
    then show ?thesis by (simp add: copied_def)
  qed
  have shift: "offs (d + of_nat k) q < n \<longleftrightarrow> k \<le> ?i \<and> ?i < k + n"
    using assms(1) offs_less [of d q] by (auto simp: offs_shift [OF assms(2)])
  show "copied (d + of_nat k) (s + of_nat k) n (copied d s k m) q = copied d s (k + n) m q"
    using same unfolding copied_def [of "d + of_nat k"] shift sum by (auto simp: copied_def)
qed

lemma copied_down:
  assumes "k + n \<le> 2 ^ 32" "n < 2 ^ 32"
    and apart: "\<And>i j. n \<le> i \<Longrightarrow> i < n + k \<Longrightarrow> j < n \<Longrightarrow> d + of_nat i \<noteq> s + of_nat j"
  shows "copied d s n (copied (d + of_nat n) (s + of_nat n) k m) = copied d s (n + k) m"
proof
  fix q
  let ?i = "offs d q" and ?m = "copied (d + of_nat n) (s + of_nat n) k m"
  have shift: "offs (d + of_nat n) x < k \<longleftrightarrow> n \<le> offs d x \<and> offs d x < n + k" for x
    using assms(1) offs_less [of d x] by (auto simp: offs_shift [OF assms(2)])
  have same: "?m (s + (q - d)) = m (s + (q - d))" if "?i < n"
  proof -
    have "\<not> offs (d + of_nat n) (s + (q - d)) < k"
    proof
      assume "offs (d + of_nat n) (s + (q - d)) < k"
      then have lt: "n \<le> offs d (s + (q - d))" "offs d (s + (q - d)) < n + k" unfolding shift by simp_all
      have "d + of_nat (offs d (s + (q - d))) = s + of_nat ?i" by (simp add: offs_def)
      then show False using apart [OF lt that] by simp
    qed
    then show ?thesis by (simp add: copied_def)
  qed
  have sum: "s + of_nat n + (q - (d + of_nat n)) = s + (q - d)" by simp
  show "copied d s n ?m q = copied d s (n + k) m q"
    using same unfolding copied_def [of d s n] copied_def [of d s "n + k"]
    unfolding copied_def [of "d + of_nat n" _ _ _ q] shift sum by auto
qed

lemma base256_parts:
  fixes a b c d :: nat
  assumes "a < 256" "b < 256" "c < 256" "d < 256"
  defines "n \<equiv> a + 256 * (b + 256 * (c + 256 * d))"
  shows "n mod 256 = a" "n div 256 mod 256 = b" "n div 65536 mod 256 = c" "n div 16777216 mod 256 = d"
proof -
  have d1: "n div 256 = b + 256 * (c + 256 * d)" using assms(1) by (simp add: n_def)
  have d2: "n div 65536 = c + 256 * d"
    using assms(2) div_mult2_eq [of n 256 256] unfolding d1 by simp
  have d3: "n div 16777216 = d"
    using assms(3) div_mult2_eq [of n 65536 256] unfolding d2 by simp
  show "n mod 256 = a" unfolding n_def using assms(1) by (simp only: mod_mult_self2 mod_less)
  show "n div 256 mod 256 = b" "n div 65536 mod 256 = c" "n div 16777216 mod 256 = d"
    unfolding d1 d2 d3 using assms(2-4) by (simp_all only: mod_mult_self2 mod_less)
qed

lemma u32_bytes_of:
  assumes "length bs = 4"
  shows "u32_bytes (bytes_u32 bs) = bs"
proof -
  obtain a b c d where bs: "bs = [a, b, c, d]"
    using assms by (auto simp: numeral_eq_Suc length_Suc_conv)
  let ?n = "of_char a + 256 * of_char b + 65536 * of_char c + 16777216 * of_char d :: nat"
  have lt: "(of_char x :: nat) < 256" for x by (rule nat_of_char_less_256)
  have "?n < 4294967296" using lt [of a] lt [of b] lt [of c] lt [of d] by linarith
  then have "unat (word_of_nat ?n :: 32 word) = ?n" unfolding unat_of_nat by simp
  moreover have "bytes_u32 bs = word_of_nat ?n" by (simp add: bytes_u32_def bs)
  ultimately have n: "unat (bytes_u32 bs) = ?n" by argo
  have nest: "?n = of_char a + 256 * (of_char b + 256 * (of_char c + 256 * of_char d))" by simp
  have digits: "?n mod 256 = of_char a" "?n div 256 mod 256 = of_char b" "?n div 65536 mod 256 = of_char c"
    "?n div 16777216 mod 256 = of_char d"
    unfolding nest by (rule base256_parts [OF lt lt lt lt])+
  have "char_of x = y" if "x mod 256 = of_char y" for x :: nat and y using that by (metis char_of_mod_256 char_of_char)
  then have "char_of ?n = a" "char_of (?n div 256) = b" "char_of (?n div 65536) = c" "char_of (?n div 16777216) = d"
    using digits by blast+
  then show ?thesis unfolding u32_bytes_def using n [unfolded bs] unfolding bs by (simp only:)
qed

lemma movs_copied: "movs long d s m = copied d s (unat (stride long)) m"
proof (cases long)
  case True
  have "u32_bytes (load_long m s) = [m s, m (s + 1), m (s + 2), m (s + 3)]" unfolding load_long_def by (rule u32_bytes_of) simp
  then have st: "movs long d s m = m(d := m s, d + 1 := m (s + 1), d + 2 := m (s + 2), d + 3 := m (s + 3))"
    using True by (simp add: movs_def store_long_def)
  show ?thesis
  proof
    fix q
    have four: "offs d q < 4 \<longleftrightarrow> q - d = 0 \<or> q - d = 1 \<or> q - d = 2 \<or> q - d = 3"
    proof -
      have "offs d q < 4 \<longleftrightarrow> unat (q - d) = 0 \<or> unat (q - d) = 1 \<or> unat (q - d) = 2 \<or> unat (q - d) = 3" unfolding offs_def by auto
      then show ?thesis by (simp add: word_unat_eq_iff)
    qed
    have "q - d = x \<longleftrightarrow> q = d + x" for x by (auto simp: algebra_simps)
    then show "movs long d s m q = copied d s (unat (stride long)) m q"
      unfolding st copied_def using four True by (auto simp: stride_def)
  qed
qed (simp add: movs_def stride_def copied_one [unfolded One_nat_def])

text \<open>Two ranges in order, or far enough apart, without wrapping around the end of the memory.\<close>

lemma unat_add_small:
  fixes x :: "32 word"
  shows "unat x + k < 2 ^ 32 \<Longrightarrow> unat (x + of_nat k) = unat x + k"
  by (simp add: unat_word_ariths unat_of_nat)

lemma no_clash:
  assumes "unat d + i < 2 ^ 32" "unat s + j < 2 ^ 32" "unat d + i \<noteq> unat s + j"
  shows "d + of_nat i \<noteq> s + (of_nat j :: 32 word)"
  using unat_add_small [OF assms(1)] unat_add_small [OF assms(2)] assms(3) by metis

lemma rep_movs_up:
  fixes d s :: addr
  defines "k \<equiv> \<lambda>long. unat (stride long)"
  assumes "unat d + n * k long < 2 ^ 32" "unat s + n * k long < 2 ^ 32" "unat d \<le> unat s \<or> unat s + n * k long \<le> unat d"
  shows "rep_movs False long n d s m = copied d s (n * k long) m"
  using assms(2-)
proof (induction n arbitrary: d s m)
  case (Suc n)
  let ?k = "k long"
  have kp: "0 < ?k" "?k \<le> 4" "of_nat ?k = stride long" by (simp_all add: k_def stride_def)
  have u: "unat (x + stride long) = unat x + ?k" if "unat x + Suc n * ?k < 2 ^ 32" for x
    using that unfolding k_def by (simp add: unat_word_ariths)
  have "rep_movs False long n (d + stride long) (s + stride long) (movs long d s m) =
      copied (d + stride long) (s + stride long) (n * ?k) (movs long d s m)"
    using Suc.prems u by (intro Suc.IH) auto
  also have "\<dots> = copied (d + of_nat ?k) (s + of_nat ?k) (n * ?k) (copied d s ?k m)"
    unfolding movs_copied by (simp add: k_def)
  also have "\<dots> = copied d s (?k + n * ?k) m"
  proof (rule copied_up)
    fix i j
    assume "i < ?k" "?k \<le> j" "j < ?k + n * ?k"
    then show "d + of_nat i \<noteq> s + of_nat j" using Suc.prems by (intro no_clash) auto
  qed (use Suc.prems kp in auto)
  finally show ?case by simp
qed simp

lemma rep_movs_down:
  fixes d s :: addr
  defines "k \<equiv> \<lambda>long. unat (stride long)"
  assumes "unat d + n * k long < 2 ^ 32" "unat s + n * k long < 2 ^ 32" "unat s \<le> unat d"
  shows "rep_movs True long n (d + of_nat (n * k long) - stride long) (s + of_nat (n * k long) - stride long) m =
    copied d s (n * k long) m"
  using assms(2-)
proof (induction n arbitrary: m)
  case (Suc n)
  let ?k = "k long" and ?d = "d + of_nat (n * k long)" and ?s = "s + of_nat (n * k long)"
  have kp: "?k \<le> 4" "of_nat ?k = stride long" by (simp_all add: k_def stride_def)
  have last: "x + of_nat (Suc n * ?k) - stride long = x + of_nat (n * ?k)" for x by (simp add: k_def)
  have "rep_movs True long (Suc n) ?d ?s m = rep_movs True long n (?d - stride long) (?s - stride long) (movs long ?d ?s m)"
    by simp
  also have "\<dots> = copied d s (n * ?k) (movs long ?d ?s m)" using Suc.prems by (intro Suc.IH) auto
  also have "\<dots> = copied d s (n * ?k) (copied ?d ?s ?k m)" unfolding movs_copied k_def ..
  also have "\<dots> = copied d s (n * ?k + ?k) m"
  proof (rule copied_down)
    fix i j
    assume "n * ?k \<le> i" "i < n * ?k + ?k" "j < n * ?k"
    then show "d + of_nat i \<noteq> s + of_nat j" using Suc.prems by (intro no_clash) auto
  qed (use Suc.prems kp in auto)
  finally show ?case unfolding last by (simp add: add.commute)
qed simp

lemma quarters:
  fixes n :: "32 word"
  assumes "n mod 4 = 0"
  shows "unat (n div 4) * 4 = unat n"
proof -
  have "unat n mod 4 = 0" using assms unat_mod_distrib [of n 4] by simp
  moreover have "unat (n div 4) = unat n div 4" using unat_div_distrib [of n 4] by simp
  ultimately show ?thesis using div_mult_mod_eq [of "unat n" 4] by linarith
qed

lemma memmove_copied:
  assumes src: "unat src + unat n < 2 ^ 32" and dst: "unat dst + unat n < 2 ^ 32"
  shows "memmove dst src n m = (dst, copied dst src (unat n) m)"
proof -
  have fin: "unat (src + n) = unat src + unat n" using src by (simp add: unat_word_ariths)
  have test: "src < dst \<and> src + n > dst \<longleftrightarrow> unat src < unat dst \<and> unat dst < unat src + unat n"
    by (simp add: word_less_nat_alt fin)
  have up: "rep_movs False long k dst src m = copied dst src (unat n) m"
    if "k * unat (stride long) = unat n" "unat dst \<le> unat src \<or> unat src + unat n \<le> unat dst" for long k
    by (subst rep_movs_up) (use that src dst in simp_all)
  have down: "rep_movs True long k (dst + n - stride long) (src + n - stride long) m = copied dst src (unat n) m"
    if k: "k * unat (stride long) = unat n" and le: "unat src \<le> unat dst" for long k
  proof -
    have n: "of_nat (k * unat (stride long)) = n" unfolding k by simp
    show ?thesis using rep_movs_down [of dst k long src m] src dst le unfolding n unfolding k by simp
  qed
  have q: "unat (n div 4) * unat (stride True) = unat n" if "n mod 4 = 0" using quarters [OF that] by (simp add: stride_def)
  have one: "unat n * unat (stride False) = unat n" by (simp add: stride_def)
  note cases = up [OF q] up [OF one] down [OF q, unfolded stride_def if_True] down [OF one, unfolded stride_def if_False]
  show ?thesis unfolding memmove_def Let_def test 
    by (simp only: cases split: if_split) (use cases in \<open>simp add: not_less\<close>)
qed

text \<open>Filling.\<close>

lemma filled_zero [simp]: "filled p 0 b m = m"
  by (simp add: filled_def fun_eq_iff)

lemma filled_one: "filled p 1 b m = m(p := b)"
proof
  fix q
  show "filled p 1 b m q = (m(p := b)) q" by (cases "q = p") (auto simp: filled_def offs_def unat_eq_zero)
qed

lemma filled_more:
  assumes "k + n \<le> 2 ^ 32" "k < 2 ^ 32"
  shows "filled (p + of_nat k) n b (filled p k b m) = filled p (k + n) b m"
proof
  fix q
  have "offs (p + of_nat k) q < n \<longleftrightarrow> k \<le> offs p q \<and> offs p q < k + n"
    using assms(1) offs_less [of p q] by (auto simp: offs_shift [OF assms(2)])
  then show "filled (p + of_nat k) n b (filled p k b m) q = filled p (k + n) b m q" by (auto simp: filled_def)
qed

lemma rep_stosb_filled: "n \<le> 2 ^ 32 \<Longrightarrow> rep_stosb n p a m = filled p n (u32_bytes a ! 0) m"
proof (induction n arbitrary: p m)
  case (Suc n)
  then show ?case using filled_more [of 1 n p] by (simp add: filled_one [unfolded One_nat_def])
qed simp

lemma store_long_filled:
  assumes "u32_bytes a = [b, b, b, b]"
  shows "store_long p a m = filled p 4 b m"
proof -
  have step: "filled (p + of_nat k) 1 b (filled p k b m) = filled p j b m" if "j = Suc k" "k < 4" for k j
    using filled_more [of k 1 p b m] that by simp
  have "filled p 4 b m = filled (p + of_nat 3) 1 b (filled (p + of_nat 2) 1 b (filled (p + of_nat 1) 1 b (filled p 1 b m)))"
    by (subst step [of 2 1], simp, simp, subst step [of 3 2], simp, simp, subst step [of 4 3], simp_all)
  then show ?thesis using assms by (simp add: store_long_def filled_one [unfolded One_nat_def])
qed

lemma rep_stosl_filled:
  assumes "u32_bytes a = [b, b, b, b]" "4 * n \<le> 2 ^ 32"
  shows "rep_stosl n p a m = filled p (4 * n) b m"
  using assms(2)
proof (induction n arbitrary: p m)
  case (Suc n)
  then show ?case using filled_more [of 4 "4 * n" p b m] by (simp add: store_long_filled [OF assms(1)])
qed simp

lemma memset_pattern:
  fixes c :: "32 word"
  defines "x \<equiv> c AND 0xFF"
  shows "u32_bytes (push_bit 24 x OR push_bit 16 x OR push_bit 8 x OR x) = replicate 4 (u32_bytes c ! 0)"
proof -
  have low: "\<not> bit x i" if "8 \<le> i" for i
  proof -
    have "x = take_bit 8 c" by (simp add: x_def take_bit_eq_mask mask_eq_exp_minus_1)
    then show ?thesis using that by (simp add: bit_take_bit_iff)
  qed
  have "push_bit 8 x OR x = push_bit 8 x + x"
    by (rule disjunctive_add [symmetric]) (use low in \<open>auto simp: bit_push_bit_iff\<close>)
  moreover have "push_bit 16 x OR (push_bit 8 x OR x) = push_bit 16 x + (push_bit 8 x OR x)"
    by (rule disjunctive_add [symmetric]) (use low in \<open>auto simp: bit_push_bit_iff bit_or_iff\<close>)
  moreover have "push_bit 24 x OR (push_bit 16 x OR (push_bit 8 x OR x)) = push_bit 24 x + (push_bit 16 x OR (push_bit 8 x OR x))"
    by (rule disjunctive_add [symmetric]) (use low in \<open>auto simp: bit_push_bit_iff bit_or_iff\<close>)
  ultimately have sum: "push_bit 24 x OR push_bit 16 x OR push_bit 8 x OR x = 16777216 * x + (65536 * x + (256 * x + x))"
    by (simp add: push_bit_eq_mult mult.commute)
  have x: "x = word_of_nat (of_char (char_of (unat c)))"
  proof -
    have "x = take_bit 8 c" by (simp add: x_def take_bit_eq_mask mask_eq_exp_minus_1)
    then have "unat x = unat c mod 256" by (simp add: take_bit_eq_mod unat_mod_distrib)
    then have "word_of_nat (of_char (char_of (unat c))) = (word_of_nat (unat x) :: 32 word)" by simp
    then show ?thesis by simp
  qed
  have "16777216 * x + (65536 * x + (256 * x + x)) = bytes_u32 (replicate 4 (char_of (unat c)))"
    unfolding bytes_u32_def using x by simp
  moreover have "u32_bytes c ! 0 = char_of (unat c)" by (simp add: u32_bytes_def)
  ultimately show ?thesis unfolding sum using u32_bytes_of [of "replicate 4 (char_of (unat c))"] by simp
qed

lemma memset_filled: "memset v c n m = (v, filled v (unat n) (u32_bytes c ! 0) m)"
proof -
  have lt: "unat n < 2 ^ 32" using unsigned_less [of n] by simp
  have four: "replicate 4 b = [b, b, b, b]" for b :: char by (simp add: numeral_eq_Suc)
  have long: "rep_stosl (unat (n div 4)) v (push_bit 24 (c AND 0xFF) OR push_bit 16 (c AND 0xFF) OR push_bit 8 (c AND 0xFF) OR c AND 0xFF) m =
      filled v (unat n) (u32_bytes c ! 0) m" if "n mod 4 = 0"
  proof -
    have q: "4 * unat (n div 4) = unat n" using quarters [OF that] by simp
    show ?thesis by (subst rep_stosl_filled [OF memset_pattern [unfolded four]]) (use q lt in simp_all)
  qed
  show ?thesis unfolding memset_def Let_def using long rep_stosb_filled [of "unat n" v c m] lt by auto
qed

section \<open>Copying strings\<close>

lemma at_nth: "at m p xs \<longleftrightarrow> (\<forall>i < length xs. m (p + of_nat i) = xs ! i)"
proof (induction xs arbitrary: p)
  case (Cons x xs)
  have "(\<forall>i < Suc (length xs). m (p + of_nat i) = (x # xs) ! i) \<longleftrightarrow>
      m p = x \<and> (\<forall>i < length xs. m (p + of_nat (Suc i)) = xs ! i)"
    unfolding All_less_Suc2 by simp
  then show ?case using Cons.IH [of "p + 1"] by (simp add: add.assoc)
qed simp

lemma at_copied:
  assumes "at m s xs" "length xs \<le> n" "n < 2 ^ 32"
  shows "at (copied d s n m) d xs"
  unfolding at_nth
proof (intro allI impI)
  fix i
  assume "i < length xs"
  then show "copied d s n m (d + of_nat i) = xs ! i" using assms by (simp add: copied_def at_nth)
qed

lemma strcpy_loop_copied:
  assumes "cstr m src s" "unat dst + length s < 2 ^ 32 - 1" "unat src + length s < 2 ^ 32 - 1"
    "unat dst \<le> unat src \<or> unat src + length s < unat dst"
  shows "strcpy_loop dst src m = Some (copied dst src (length s + 1) m)"
  using assms
proof (induction s arbitrary: dst src m)
  case Nil
  then show ?case by (simp add: strcpy_loop.simps copied_one [unfolded One_nat_def] fun_eq_iff)
next
  case (Cons c s)
  have u: "unat (x + 1) = unat x + 1" if "unat x + length (c # s) < 2 ^ 32 - 1" for x :: addr
    using that by (simp add: unat_word_ariths)
  have keep: "at (m(dst := m src)) (src + 1) (s @ [NUL])"
    unfolding at_nth
  proof (intro allI impI)
    fix i
    assume i: "i < length (s @ [NUL])"
    have "dst + of_nat 0 \<noteq> src + of_nat (Suc i)" using Cons.prems i by (intro no_clash) auto
    moreover have "at m (src + 1) (s @ [NUL])" using Cons.prems(1) unfolding cstr_simps(2) by (simp add: cstr_def)
    ultimately show "(m(dst := m src)) (src + 1 + of_nat i) = (s @ [NUL]) ! i"
      using i unfolding at_nth by (auto simp: add.assoc)
  qed
  have c: "c \<noteq> NUL" "m src = c" "cstring s" using Cons.prems(1) by (auto simp: cstr_def)
  have "strcpy_loop dst src m = strcpy_loop (dst + 1) (src + 1) (m(dst := m src))"
    using c by (simp add: strcpy_loop.simps [of dst src])
  also have "\<dots> = Some (copied (dst + 1) (src + 1) (length s + 1) (m(dst := m src)))"
  proof (rule Cons.IH)
    show "cstr (m(dst := m src)) (src + 1) s" unfolding cstr_def using keep c(3) by blast
  qed (use Cons.prems u in auto)
  also have "copied (dst + 1) (src + 1) (length s + 1) (m(dst := m src)) = copied dst src (1 + (length s + 1)) m"
    using copied_up [of 1 "length s + 1" dst src m] Cons.prems no_clash [of dst 0 src] unfolding copied_one by auto
  finally show ?case by simp
qed

lemma strcpy_correct:
  assumes "cstr m src s" "unat dst + length s < 2 ^ 32 - 1" "unat src + length s < 2 ^ 32 - 1"
    "unat dst \<le> unat src \<or> unat src + length s < unat dst"
  shows "\<exists>m'. strcpy dst src m = Some (dst, m') \<and> cstr m' dst s \<and> (\<forall>q. offs dst q > length s \<longrightarrow> m' q = m q)"
proof -
  have "cstr (copied dst src (length s + 1) m) dst s"
    using at_copied [of m src "s @ [NUL]" "length s + 1" dst] assms by (auto simp: cstr_def)
  then show ?thesis using strcpy_loop_copied [OF assms] by (auto simp: strcpy_def copied_def)
qed

end
