(* ===== verification/Lib_Printf_Props.thy ===== *)
theory Lib_Printf_Props
  imports Lib_Printf Lib_String_Props
begin

unbundle bit_operations_syntax

text \<open>
  What formatted output computes: numerals are the digits of the number and \<^verbatim>\<open>strtol\<close> reads them back; printing to a
  buffer stays within it and terminates it.
\<close>

section \<open>Numerals\<close>

function digits :: "nat \<Rightarrow> nat \<Rightarrow> nat list" where
  "digits b n = (if n < b \<or> b < 2 then [n] else digits b (n div b) @ [n mod b])"
  by pat_completeness auto
termination
  by (relation "measure snd") (auto intro: div_less_dividend)

declare digits.simps [simp del]

definition dchar :: "nat \<Rightarrow> char" where
  "dchar d = ''0123456789abcdef'' ! d"

lemma digits_less: "2 \<le> b \<Longrightarrow> d \<in> set (digits b n) \<Longrightarrow> d < b"
proof (induction b n rule: digits.induct)
  case (1 b n)
  then show ?case by (cases "n < b") (auto simp: digits.simps [of b n])
qed

lemma digits_ne: "digits b n \<noteq> []"
  by (simp add: digits.simps)

lemma digits_value: "2 \<le> b \<Longrightarrow> foldl (\<lambda>v d. v * b + d) 0 (digits b n) = n"
proof (induction b n rule: digits.induct)
  case (1 b n)
  then show ?case by (cases "n < b") (simp_all add: digits.simps [of b n])
qed

lemma digits_length: "2 \<le> b \<Longrightarrow> n < b ^ k \<Longrightarrow> 0 < k \<Longrightarrow> length (digits b n) \<le> k"
proof (induction k arbitrary: n)
  case (Suc k)
  show ?case
  proof (cases "n < b \<or> k = 0")
    case True
    then show ?thesis using Suc.prems by (auto simp: digits.simps [of b n])
  next
    case False
    then have "n div b < b ^ k" using Suc.prems by (simp add: less_mult_imp_div_less mult.commute)
    then show ?thesis using Suc False by (simp add: digits.simps [of b n])
  qed
qed simp

lemma printnum_digits:
  assumes "2 \<le> unat base" "unat base \<le> 16"
  shows "printnum num base w p =
    Some (replicate (nat (w - int (length (digits (unat base) (unat num))))) p @ map (of_char \<circ> dchar) (digits (unat base) (unat num)))"
proof (induction "unat num" arbitrary: num w rule: less_induct)
  case less
  let ?b = "unat base"
  have m: "unat (num mod base) = unat num mod ?b" "unat (num div base) = unat num div ?b"
    by (simp_all add: unat_mod_distrib unat_div_distrib)
  have "unat num mod ?b < 16" using assms mod_less_divisor [of ?b "unat num"] by linarith
  then have g: "num mod base < 16" by (simp add: word_less_nat_alt m)
  show ?case
  proof (cases "num \<ge> base")
    case False
    then have lt: "unat num < ?b" by (simp add: word_le_nat_alt)
    then show ?thesis using False g m by (simp add: printnum.simps [of num] digits.simps [of ?b "unat num"] dchar_def)
  next
    case True
    then have ge: "\<not> unat num < ?b" "\<not> ?b < 2" using assms by (simp_all add: word_le_nat_alt)
    have "unat (num div base) < unat num" unfolding m using ge assms(1) by (intro div_less_dividend) auto
    note IH = less.hyps [OF this, of "w - 1"]
    show ?thesis using True g ge
      by (simp add: printnum.simps [of num] IH m digits.simps [of ?b "unat num"] dchar_def diff_diff_eq add.commute)
  qed
qed

lemma digit_value_dchar:
  assumes "d < 16"
  shows "digit_value (dchar d) = Some (int d)" "dchar d \<noteq> NUL" "dchar d \<noteq> CHR '' ''" "dchar d \<noteq> CHR 0x09"
    "dchar d \<noteq> CHR ''+''" "dchar d \<noteq> CHR ''-''"
proof -
  have "d = 0 \<or> d = 1 \<or> d = 2 \<or> d = 3 \<or> d = 4 \<or> d = 5 \<or> d = 6 \<or> d = 7 \<or> d = 8 \<or> d = 9 \<or> d = 10 \<or> d = 11 \<or>
      d = 12 \<or> d = 13 \<or> d = 14 \<or> d = 15" using assms by arith
  then have "digit_value (dchar d) = Some (int d) \<and> dchar d \<noteq> NUL \<and> dchar d \<noteq> CHR '' '' \<and> dchar d \<noteq> CHR 0x09 \<and>
      dchar d \<noteq> CHR ''+'' \<and> dchar d \<noteq> CHR ''-''"
    by (elim disjE) (simp_all add: dchar_def digit_value_def Let_def)
  then show "digit_value (dchar d) = Some (int d)" "dchar d \<noteq> NUL" "dchar d \<noteq> CHR '' ''" "dchar d \<noteq> CHR 0x09"
    "dchar d \<noteq> CHR ''+''" "dchar d \<noteq> CHR ''-''" by simp_all
qed

lemma strtol_digits_value:
  assumes "at m s (map dchar ds)" "digit_value (m (s + of_nat (length ds))) = None" "\<forall>d \<in> set ds. d < b" "b \<le> 16"
  shows "strtol_digits m s (int b) (of_nat v) = Some (of_nat (foldl (\<lambda>v d. v * b + d) v ds), s + of_nat (length ds))"
  using assms
proof (induction ds arbitrary: s v)
  case Nil
  then show ?case by (simp add: strtol_digits.simps)
next
  case (Cons d ds)
  have d: "digit_value (m s) = Some (int d)" "d < b" using Cons.prems digit_value_dchar(1) [of d] by auto
  have "strtol_digits m s (int b) (of_nat v) = strtol_digits m (s + 1) (int b) (of_nat (v * b + d))"
    using d by (simp add: strtol_digits.simps [of m s])
  also have "\<dots> = Some (of_nat (foldl (\<lambda>v d. v * b + d) (v * b + d) ds), s + 1 + of_nat (length ds))"
    using Cons.prems by (intro Cons.IH) (auto simp: add.assoc)
  finally show ?case by (simp add: add.assoc)
qed

section \<open>Printing to a buffer\<close>

definition written :: "addr \<Rightarrow> string \<Rightarrow> ram \<Rightarrow> ram" where
  "written p xs m q = (if offs p q < length xs then xs ! offs p q else m q)"

lemma written_Nil [simp]: "written p [] m = m"
  by (simp add: written_def fun_eq_iff)

lemma written_Cons:
  assumes "length xs < 2 ^ 32"
  shows "written (p + 1) xs (m(p := x)) = written p (x # xs) m"
proof
  fix q
  have off: "offs (p + 1) q = (if 1 \<le> offs p q then offs p q - 1 else 2 ^ 32 + offs p q - 1)"
    using offs_shift [of 1 p q] by simp
  show "written (p + 1) xs (m(p := x)) q = written p (x # xs) m q"
  proof (cases "q = p")
    case True
    then show ?thesis using assms off by (simp add: written_def)
  next
    case False
    then have "1 \<le> offs p q" by (simp add: offs_def Suc_le_eq unat_gt_0)
    then show ?thesis using False off assms offs_less [of p q] by (auto simp: written_def nth_Cons')
  qed
qed

lemma at_written: "length xs < 2 ^ 32 \<Longrightarrow> at (written p xs m) p xs"
  by (simp add: at_nth written_def)

lemma sprintputch_fold:
  assumes "unat p \<le> unat e"
  shows "fold sprintputch out \<lparr>sbuf = p, ebuf = e, scnt = c, sram = m\<rparr> =
    (let k = min (length out) (unat e - unat p) in
     \<lparr>sbuf = p + of_nat k, ebuf = e, scnt = c + int (length out), sram = written p (map char_of (take k out)) m\<rparr>)"
  using assms
proof (induction out arbitrary: p c m)
  case (Cons ch out)
  show ?case
  proof (cases "p < e")
    case False
    then have "unat e - unat p = 0" by (simp add: word_less_nat_alt)
    then show ?thesis using False Cons.IH [OF Cons.prems] by (simp add: sprintputch_def Let_def)
  next
    case True
    note u = unat_succ [OF True]
    have lt: "unat p < unat e" using True by (simp add: word_less_nat_alt)
    have e: "unat e < 2 ^ 32" using unsigned_less [of e] by simp
    define m2 where "m2 = m(p := char_of ch)"
    define k where "k = min (length out) (unat e - unat (p + 1))"
    have k: "min (length (ch # out)) (unat e - unat p) = Suc k" using lt u by (simp add: k_def)
    have "fold sprintputch (ch # out) \<lparr>sbuf = p, ebuf = e, scnt = c, sram = m\<rparr> =
        fold sprintputch out \<lparr>sbuf = p + 1, ebuf = e, scnt = c + 1, sram = m2\<rparr>"
      using True by (simp add: sprintputch_def Let_def m2_def)
    also have "\<dots> = \<lparr>sbuf = p + 1 + of_nat k, ebuf = e, scnt = c + 1 + int (length out),
        sram = written (p + 1) (map char_of (take k out)) m2\<rparr>"
      using Cons.IH [of "p + 1" "c + 1" m2] lt u by (simp add: k_def Let_def)
    also have "written (p + 1) (map char_of (take k out)) m2 = written p (char_of ch # map char_of (take k out)) m"
      unfolding m2_def using e by (intro written_Cons) (auto simp: k_def)
    finally show ?thesis unfolding k Let_def by (simp add: algebra_simps)
  qed
qed simp

text \<open>The result is the length of the whole text; the buffer holds as much of it as fits, and a terminator.\<close>

lemma vsnprintf_fits:
  assumes out: "vprintfmt mf f m ap = Some out" and n: "1 \<le> n" "unat buf + nat n < 2 ^ 32" "buf \<noteq> 0"
  shows "\<exists>m'. vsnprintf buf n mf f ap m = Some (int (length out), m') \<and>
    at m' buf (map char_of (take (nat n - 1) out) @ [NUL]) \<and> (\<forall>q. nat n \<le> offs buf q \<longrightarrow> m' q = m q)"
proof -
  have e: "unat (buf + word_of_int n - 1) = unat buf + nat n - 1"
  proof -
    have "buf + word_of_int n - 1 = buf + of_nat (nat n - 1)" using n(1) by (simp add: of_nat_diff)
    moreover have "unat (buf + of_nat (nat n - 1)) = unat buf + (nat n - 1)" using n by (intro unat_add_small) simp
    ultimately show ?thesis using n(1) by (simp add: add_diff_eq)
  qed
  let ?k = "min (length out) (nat n - 1)"
  let ?m = "(written buf (map char_of (take ?k out)) m)(buf + of_nat ?k := NUL)"
  have fold: "fold sprintputch out \<lparr>sbuf = buf, ebuf = buf + word_of_int n - 1, scnt = 0, sram = m\<rparr> =
      \<lparr>sbuf = buf + of_nat ?k, ebuf = buf + word_of_int n - 1, scnt = int (length out), sram = written buf (map char_of (take ?k out)) m\<rparr>"
    using sprintputch_fold [of buf "buf + word_of_int n - 1" out 0 m] n(1) unfolding e by (simp add: Let_def)
  have k: "?k < 2 ^ 32" using n by auto
  have tk: "take (nat n - 1) out = take ?k out" by (simp add: min_def)
  have "at ?m buf (map char_of (take ?k out) @ [NUL])"
    unfolding at_nth
  proof (intro allI impI)
    fix i
    assume i: "i < length (map char_of (take ?k out) @ [NUL])"
    have ne: "buf + of_nat i \<noteq> buf + of_nat ?k" if "i < ?k"
      by (rule no_clash) (use that n in auto)
    show "?m (buf + of_nat i) = (map char_of (take ?k out) @ [NUL]) ! i"
    proof (cases "i < ?k")
      case True
      then have "offs buf (buf + of_nat i) = i" using k by (intro offs_of_nat) (rule less_trans)
      then show ?thesis using ne [OF True] True by (simp add: written_def nth_append)
    next
      case False
      then have "i = ?k" using i by (simp add: min_def split: if_splits)
      then show ?thesis by (simp add: nth_append)
    qed
  qed
  moreover have "?m q = m q" if "nat n \<le> offs buf q" for q
  proof -
    have "q \<noteq> buf + of_nat ?k" using that k n(1) by auto
    then show ?thesis using that n(1) by (auto simp: written_def)
  qed
  moreover have "vsnprintf buf n mf f ap m = Some (int (length out), ?m)"
    using n out fold by (simp add: vsnprintf_def Let_def)
  ultimately show ?thesis unfolding tk by blast
qed

section \<open>Printing and reading a number\<close>

text \<open>The text of \<^verbatim>\<open>%d\<close>.\<close>

definition decimal :: "32 word \<Rightarrow> string" where
  "decimal v = (if sint v < 0 then [CHR ''-''] else []) @ map dchar (digits 10 (nat \<bar>sint v\<bar>))"

lemma scast_number:
  fixes v :: "32 word"
  shows "sint (scast v :: 64 word) = sint v" "0 \<le> sint v \<Longrightarrow> unat (scast v :: 64 word) = nat (sint v)"
    "sint v < 0 \<Longrightarrow> unat (- scast v :: 64 word) = nat (- sint v)"
proof -
  have range: "- (2 ^ 31) \<le> sint v" "sint v < 2 ^ 31" using sint_greater_eq [of v] sint_less [of v] by simp_all
  have w: "(scast v :: 64 word) = word_of_int (sint v)" by (rule scast_eq)
  have u: "unat (word_of_int x :: 64 word) = nat x" if "0 \<le> x" "x < 2 ^ 63" for x
  proof -
    have "(word_of_int x :: 64 word) = of_nat (nat x)" using that by simp
    moreover have "nat x < 2 ^ 64" using that by simp
    ultimately show ?thesis by (simp add: unat_of_nat)
  qed
  show "sint (scast v :: 64 word) = sint v" 
    using range by (simp add: signed_scast_eq signed_take_bit_int_eq_self)
  show "0 \<le> sint v \<Longrightarrow> unat (scast v :: 64 word) = nat (sint v)" unfolding w using range by (intro u) simp_all
  show "unat (- scast v :: 64 word) = nat (- sint v)" if "sint v < 0"
  proof -
    have "(- scast v :: 64 word) = word_of_int (- sint v)" unfolding w by simp
    then show ?thesis using u [of "- sint v"] that range by simp
  qed
qed

lemma vprintfmt_d: "vprintfmt (literal ''%d'') 0 m [v] = Some (map of_char (decimal v))"
proof -
  have l: "literal ''%d'' 0 = CHR ''%''" "literal ''%d'' 1 = CHR ''d''" "literal ''%d'' 2 = NUL" by (simp_all add: literal_def)
  have spec: "read_spec (literal ''%d'') 1 [v] new_spec = Some (CHR ''d'', 2, [v], new_spec)"
    by (simp add: read_spec.simps l is_digit_def)
  have num: "number w 10 new_spec = Some (map (of_char \<circ> dchar) (digits 10 (unat w)))" for w
    using printnum_digits [of 10 w "- 1" "signed_char (CHR '' '')"] by (simp add: number_def new_spec_def)
  have "signed_number (scast v) new_spec = Some (map of_char (decimal v))"
    using scast_number [of v] by (auto simp: signed_number_def num decimal_def)
  then have "convert (literal ''%d'') m (CHR ''d'') 2 [v] new_spec = Some (map of_char (decimal v), 2, [])"
    by (simp add: convert_def new_spec_def)
  moreover have "vprintfmt (literal ''%d'') 2 m [] = Some []" by (simp add: vprintfmt.simps l)
  ultimately show ?thesis by (simp add: vprintfmt.simps [of _ 0] l spec)
qed

lemma strtol_decimal:
  assumes "at m p (decimal v @ [NUL])"
  shows "strtol m p 10 = Some (sint v, p + of_nat (length (decimal v)))"
proof -
  let ?n = "nat \<bar>sint v\<bar>"
  let ?ds = "digits 10 ?n"
  obtain d ds where ds: "?ds = d # ds" using digits_ne [of 10 ?n] by (cases ?ds) auto
  have small: "\<forall>d \<in> set ?ds. d < 10" using digits_less [of 10] by auto
  have dec: "strtol_digits m s 10 0 = Some (of_nat ?n, s + of_nat (length ?ds))" if "at m s (map dchar ?ds @ [NUL])" for s
  proof -
    have at: "at m s (map dchar ?ds)" "m (s + of_nat (length ?ds)) = NUL"
      using that unfolding at_nth by (auto simp: nth_append)
    have "digit_value NUL = None" by (simp add: digit_value_def)
    then show ?thesis using strtol_digits_value [OF at(1) _ small, of 0] at(2) digits_value [of 10 ?n] by simp
  qed
  show ?thesis
  proof (cases "sint v < 0")
    case True
    then have p: "m p = CHR ''-''" "at m (p + 1) (map dchar ?ds @ [NUL])" using assms by (simp_all add: decimal_def)
    have n: "- of_nat ?n = v" using True by (simp add: of_nat_nat)
    show ?thesis using p dec [OF p(2)] n True
      by (simp add: strtol_def skip_blanks.simps [of m p] Let_def decimal_def add.assoc)
  next
    case False
    then have p: "at m p (map dchar ?ds @ [NUL])" using assms by (simp add: decimal_def)
    have mp: "m p = dchar d" "d < 16" using p ds small by auto
    have n: "of_nat ?n = v" using False by (simp add: of_nat_nat)
    show ?thesis using dec [OF p] n False digit_value_dchar [OF mp(2)] mp(1)
      by (simp add: strtol_def skip_blanks.simps [of m p] Let_def decimal_def)
  qed
qed

lemma decimal_length: "length (decimal v) \<le> 11"
proof -
  have "\<bar>sint v\<bar> \<le> 2 ^ 31" using sint_greater_eq [of v] sint_less [of v] by simp
  then have "nat \<bar>sint v\<bar> < 10 ^ 10" by simp
  then have "length (digits 10 (nat \<bar>sint v\<bar>)) \<le> 10" by (intro digits_length) simp_all
  then show ?thesis by (cases "sint v < 0") (simp_all add: decimal_def)
qed

lemma print_read:
  assumes "12 \<le> n" "unat buf + nat n < 2 ^ 32" "buf \<noteq> 0"
  shows "\<exists>m'. vsnprintf buf n (literal ''%d'') 0 [v] m = Some (int (length (decimal v)), m') \<and>
    strtol m' buf 10 = Some (sint v, buf + of_nat (length (decimal v))) \<and> (\<forall>q. nat n \<le> offs buf q \<longrightarrow> m' q = m q)"
proof -
  obtain m' where m': "vsnprintf buf n (literal ''%d'') 0 [v] m = Some (int (length (decimal v)), m')"
    "at m' buf (map char_of (take (nat n - 1) (map of_char (decimal v) :: int list)) @ [NUL])" "\<forall>q. nat n \<le> offs buf q \<longrightarrow> m' q = m q"
    using vsnprintf_fits [OF vprintfmt_d [of m v], of n buf] assms by auto
  have "take (nat n - 1) (map of_char (decimal v) :: int list) = map of_char (decimal v)"
    using decimal_length [of v] assms(1) by simp
  then have "at m' buf (decimal v @ [NUL])" using m'(2) by (simp add: comp_def)
  then show ?thesis using m' strtol_decimal by blast
qed

end
