(* ===== verification/Lib_Theorems.thy ===== *)
theory Lib_Theorems
  imports Lib_Printf_Props
begin

unbundle bit_operations_syntax

text \<open>The properties of the string and formatting routines of the kernel.\<close>

text \<open>
  C36. \<^verbatim>\<open>memmove\<close> with its four loops (up or down, by words or by bytes, whichever the overlap and the alignment ask for)
  is the copy of all bytes at once: after it every byte of the destination is the byte that the source held before, also
  when the ranges overlap, and no other byte changes. The ranges must end below the top of the address space.
\<close>

theorem memmove_copies:
  assumes "unat src + unat n < 2 ^ 32" "unat dst + unat n < 2 ^ 32"
  shows "\<exists>m'. memmove dst src n m = (dst, m') \<and> (\<forall>i < unat n. m' (dst + of_nat i) = m (src + of_nat i)) \<and>
    (\<forall>q. unat n \<le> offs dst q \<longrightarrow> m' q = m q)"
proof -
  have "copied dst src (unat n) m (dst + of_nat i) = m (src + of_nat i)" if "i < unat n" for i
  proof -
    have "i < 2 ^ 32" using that assms(1) by simp
    then show ?thesis using that by (simp add: copied_def)
  qed
  moreover have "copied dst src (unat n) m q = m q" if "unat n \<le> offs dst q" for q using that by (simp add: copied_def)
  ultimately show ?thesis unfolding memmove_copied [OF assms] by blast
qed

theorem memmove_copies_witness:
  "\<exists>m'. memmove 0x1004 0x1000 16 (literal ''overlapping'') = (0x1004, m') \<and>
    (\<forall>i < unat (16 :: 32 word). m' (0x1004 + of_nat i) = literal ''overlapping'' (0x1000 + of_nat i)) \<and>
    (\<forall>q. unat (16 :: 32 word) \<le> offs 0x1004 q \<longrightarrow> m' q = literal ''overlapping'' q)"
  by (rule memmove_copies) simp_all



text \<open>
  C38. Numbers survive printing and reading: for every 32-bit integer, the smallest one included, and every buffer of at
  least 12 bytes, what \<^verbatim>\<open>snprintf(buf, n, "%d", v)\<close> leaves there is read back by \<^verbatim>\<open>strtol(buf, 0, 10)\<close> as \<open>v\<close>, up to the
  terminator; the routines return.
\<close>

theorem print_then_read:
  assumes "12 \<le> n" "unat buf + nat n < 2 ^ 32" "buf \<noteq> 0"
  shows "\<exists>r m'. vsnprintf buf n (literal ''%d'') 0 [v] m = Some (r, m') \<and> strtol m' buf 10 = Some (sint v, buf + word_of_int r)"
proof -
  obtain m' where "vsnprintf buf n (literal ''%d'') 0 [v] m = Some (int (length (decimal v)), m')"
    "strtol m' buf 10 = Some (sint v, buf + of_nat (length (decimal v)))" using print_read [OF assms, of v m] by blast
  then show ?thesis by (intro exI [of _ "int (length (decimal v))"] exI [of _ m']) simp
qed

theorem print_then_read_witness:
  "\<exists>r m'. vsnprintf 0x800000 12 (literal ''%d'') 0 [0x80000000] (\<lambda>_. NUL) = Some (r, m') \<and>
    strtol m' 0x800000 10 = Some (sint (0x80000000 :: 32 word), 0x800000 + word_of_int r)"
  by (rule print_then_read) simp_all

end
