(* ===== verification/Fork_Programs.thy ===== *)
theory Fork_Programs
  imports Prelude
begin

text \<open>
  Two programs built on \<^verbatim>\<open>fork\<close>: the prime sieve made of a chain of processes (\<^verbatim>\<open>src/TP Fork/primes.c\<close>) and \<^verbatim>\<open>xargs\<close>
  (\<^verbatim>\<open>src/TP Fork/xargs.c\<close>). Whether the host grants a pipe, a process or memory is a parameter. A pipe is the list of the
  numbers that its writer sends before it closes its end. Standard output is a terminal: each line appears when it is
  printed, before the process forks. A stage of the sieve that fails exits; whether the process that writes to it is then
  stopped by \<^verbatim>\<open>SIGPIPE\<close> or finishes is not modelled, and makes no difference to what is printed.
\<close>

record host =
  pipe_ok :: "nat \<Rightarrow> bool"
  fork_ok :: "nat \<Rightarrow> bool"

datatype exit_code = EXIT_SUCCESS | EXIT_FAILURE

section \<open>Numbers in arguments\<close>

text \<open>\<^verbatim>\<open>atoi\<close> of the C library: blanks, a sign, digits.\<close>

definition isspace :: "char \<Rightarrow> bool" where
  "isspace c \<longleftrightarrow> c = CHR '' '' \<or> 9 \<le> (of_char c :: nat) \<and> (of_char c :: nat) \<le> 13"

definition isdigit :: "char \<Rightarrow> bool" where
  "isdigit c \<longleftrightarrow> 48 \<le> (of_char c :: nat) \<and> (of_char c :: nat) \<le> 57"

definition atoi_digits :: "string \<Rightarrow> int" where
  "atoi_digits s = foldl (\<lambda>v c. v * 10 + (of_char c - 48)) 0 (takeWhile isdigit s)"

definition atoi :: "string \<Rightarrow> int" where
  "atoi s =
     (case dropWhile isspace s of
        [] \<Rightarrow> 0
      | c # cs \<Rightarrow> if c = CHR ''-'' then - atoi_digits cs else if c = CHR ''+'' then atoi_digits cs else atoi_digits (c # cs))"

section \<open>The sieve\<close>

text \<open>What the loop of a stage passes on to the next one.\<close>

fun filter_loop :: "int \<Rightarrow> int list \<Rightarrow> int list" where
  "filter_loop primo [] = []"
| "filter_loop primo (numero # xs) = (if numero mod primo \<noteq> 0 then numero # filter_loop primo xs else filter_loop primo xs)"

lemma length_filter_loop: "length (filter_loop p xs) \<le> length xs"
  by (induction xs) auto

text \<open>
  A stage with number \<open>k\<close>: the primes printed by it and the stages after it, in order, and whether they all succeeded.
\<close>

function filtrar_multiplos :: "host \<Rightarrow> nat \<Rightarrow> int list \<Rightarrow> int list \<times> exit_code" where
  "filtrar_multiplos os k [] = ([], EXIT_SUCCESS)"
| "filtrar_multiplos os k (primo # xs) =
     (if \<not> pipe_ok os k then ([primo], EXIT_FAILURE)
      else if \<not> fork_ok os k then ([primo], EXIT_FAILURE)
      else let (out, code) = filtrar_multiplos os (Suc k) (filter_loop primo xs) in (primo # out, code))"
  by pat_completeness auto
termination
  by (relation "measure (\<lambda>(os, k, xs). length xs)") (auto simp: less_Suc_eq_le length_filter_loop)

function generar_desde :: "int \<Rightarrow> int \<Rightarrow> int list" where
  "generar_desde i max_numero = (if i \<le> max_numero then i # generar_desde (i + 1) max_numero else [])"
  by pat_completeness auto
termination
  by (relation "measure (\<lambda>(i, n). nat (n + 1 - i))") auto

declare generar_desde.simps [simp del]

text \<open>The loop ends when its counter passes \<open>max_numero\<close>, which an \<^verbatim>\<open>int\<close> cannot do when that is the largest one.\<close>

definition generar_numeros :: "int \<Rightarrow> int list option" where
  "generar_numeros max_numero = (if max_numero < 2 ^ 31 - 1 then Some (generar_desde 2 max_numero) else None)"

definition criba_de_eratostenes :: "host \<Rightarrow> int \<Rightarrow> (int list \<times> exit_code) option" where
  "criba_de_eratostenes os numero =
     (if \<not> pipe_ok os 0 then Some ([], EXIT_FAILURE)
      else if \<not> fork_ok os 0 then Some ([], EXIT_FAILURE)
      else (case generar_numeros numero of
              None \<Rightarrow> None
            | Some xs \<Rightarrow> Some (fst (filtrar_multiplos os 1 xs), EXIT_SUCCESS)))"

text \<open>\<^verbatim>\<open>atoi\<close> of a number that does not fit is undefined as well.\<close>

definition primes_main :: "host \<Rightarrow> string list \<Rightarrow> (int list \<times> exit_code) option" where
  "primes_main os argv =
     (if length argv \<noteq> 2 then Some ([], EXIT_FAILURE)
      else let numero = atoi (argv ! 1) in
        if numero < - (2 ^ 31) \<or> numero \<ge> 2 ^ 31 then None
        else if numero < 2 then Some ([], EXIT_FAILURE) else criba_de_eratostenes os numero)"

section \<open>xargs\<close>

abbreviation (input) NARGS :: nat where "NARGS \<equiv> 4"

text \<open>
  The argument vectors handed to \<^verbatim>\<open>execvp\<close>, in order; a program that cannot be executed ends its own process only. \<^verbatim>\<open>fork\<close>
  may fail for the process with number \<open>k\<close>, which ends everything.
\<close>

definition ejecutar_comando :: "host \<Rightarrow> nat \<Rightarrow> string \<Rightarrow> string list \<Rightarrow> string list option" where
  "ejecutar_comando os k comando argumentos = (if \<not> fork_ok os k then None else Some (comando # argumentos))"

text \<open>A line as \<^verbatim>\<open>strdup\<close> copies it, without its newline and up to the first NUL.\<close>

definition linea_arg :: "string \<Rightarrow> string" where
  "linea_arg linea = cstr_of (if linea \<noteq> [] \<and> last linea = CHR 0x0A then butlast linea @ [NUL] else linea)"

fun procesar_lineas :: "host \<Rightarrow> nat \<Rightarrow> string \<Rightarrow> string list \<Rightarrow> string list \<Rightarrow> string list list \<times> exit_code" where
  "procesar_lineas os k comando buffer_args [] =
     (if length buffer_args > 0
      then case ejecutar_comando os k comando buffer_args of
          None \<Rightarrow> ([], EXIT_FAILURE)
        | Some argv \<Rightarrow> ([argv], EXIT_SUCCESS)
      else ([], EXIT_SUCCESS))"
| "procesar_lineas os k comando buffer_args (linea # lineas) =
     (let buffer_args = buffer_args @ [linea_arg linea] in
      if length buffer_args = NARGS
      then case ejecutar_comando os k comando buffer_args of
          None \<Rightarrow> ([], EXIT_FAILURE)
        | Some argv \<Rightarrow> let (execs, code) = procesar_lineas os (Suc k) comando [] lineas in (argv # execs, code)
      else procesar_lineas os k comando buffer_args lineas)"

definition procesar_entrada :: "host \<Rightarrow> string \<Rightarrow> string list \<Rightarrow> string list list \<times> exit_code" where
  "procesar_entrada os comando lineas = procesar_lineas os 0 comando [] lineas"

definition xargs_main :: "host \<Rightarrow> string list \<Rightarrow> string list \<Rightarrow> string list list \<times> exit_code" where
  "xargs_main os argv lineas =
     (if length argv \<noteq> 2 then ([], EXIT_FAILURE) else procesar_entrada os (argv ! 1) lineas)"

section \<open>What the sieve prints\<close>

definition is_prime :: "int \<Rightarrow> bool" where
  "is_prime p \<longleftrightarrow> 2 \<le> p \<and> (\<forall>d. 2 \<le> d \<and> d < p \<longrightarrow> \<not> d dvd p)"

text \<open>Numbers with no divisor from 2 up to, and without, \<open>m\<close>.\<close>

definition rough :: "int \<Rightarrow> int \<Rightarrow> bool" where
  "rough m x \<longleftrightarrow> (\<forall>d. 2 \<le> d \<and> d < m \<longrightarrow> \<not> d dvd x)"

lemma filter_loop_filter: "filter_loop p xs = filter (\<lambda>x. \<not> p dvd x) xs"
  by (induction xs) (auto simp: dvd_eq_mod_eq_0)

lemma generar_upto: "generar_desde i n = [i..n]"
proof (induction i n rule: generar_desde.induct)
  case (1 i n)
  then show ?case by (auto simp: generar_desde.simps [of i n] upto_rec1)
qed

lemma rough_prime: "2 \<le> m \<Longrightarrow> rough m m \<longleftrightarrow> is_prime m"
  by (auto simp: rough_def is_prime_def)

lemma rough_Suc: "2 \<le> m \<Longrightarrow> rough (m + 1) x \<longleftrightarrow> rough m x \<and> \<not> m dvd x"
  by (auto simp: rough_def) (metis order_le_less)

lemma rough_composite:
  assumes "2 \<le> m" "\<not> rough m m" "rough m x"
  shows "\<not> m dvd x"
proof -
  obtain d where "2 \<le> d" "d < m" "d dvd m" using assms(2) by (auto simp: rough_def)
  then show ?thesis using assms(3) dvd_trans unfolding rough_def by blast
qed

lemma sieve_step:
  assumes "\<And>k. pipe_ok os k" "\<And>k. fork_ok os k" "2 \<le> m"
  shows "filtrar_multiplos os k (filter (rough m) [m..n]) = (filter is_prime [m..n], EXIT_SUCCESS)"
  using assms(3)
proof (induction "nat (n + 1 - m)" arbitrary: m k)
  case 0
  then show ?case by simp
next
  case (Suc j)
  have le: "m \<le> n" using Suc.hyps(2) by simp
  have IH: "filtrar_multiplos os k (filter (rough (m + 1)) [m + 1..n]) = (filter is_prime [m + 1..n], EXIT_SUCCESS)" for k
    using Suc.hyps Suc.prems by (intro Suc.hyps(1)) simp_all
  have next_list: "filter (rough (m + 1)) [m + 1..n] = filter (\<lambda>x. \<not> m dvd x) (filter (rough m) [m + 1..n])"
    using rough_Suc [OF Suc.prems] by (auto intro: filter_cong)
  have loop: "filter_loop m (filter (rough m) [m + 1..n]) = filter (rough (m + 1)) [m + 1..n]"
    unfolding next_list filter_loop_filter ..
  show ?case
  proof (cases "rough m m")
    case True
    then have "is_prime m" using rough_prime [OF Suc.prems] by simp
    then show ?thesis using True le IH assms(1,2) by (simp add: upto_rec1 loop)
  next
    case False
    then have "filter (rough (m + 1)) [m + 1..n] = filter (rough m) [m + 1..n]"
      using rough_composite [OF Suc.prems False] rough_Suc [OF Suc.prems] by (intro filter_cong) auto
    then show ?thesis using False le IH rough_prime [OF Suc.prems] by (simp add: upto_rec1)
  qed
qed

lemma criba_primes:
  assumes "\<And>k. pipe_ok os k" "\<And>k. fork_ok os k" "n < 2 ^ 31 - 1"
  shows "criba_de_eratostenes os n = Some (filter is_prime [2..n], EXIT_SUCCESS)"
proof -
  have "filter (rough 2) [2..n] = [2..n]" by (intro filter_True) (auto simp: rough_def)
  then show ?thesis using sieve_step [OF assms(1,2), of 2 1 n] assms
    by (simp add: criba_de_eratostenes_def generar_numeros_def generar_upto)
qed

text \<open>Whatever fails, what has been printed is a beginning of the list of primes.\<close>

lemma stage_prefix: "\<exists>rest. fst (filtrar_multiplos \<lparr>pipe_ok = \<lambda>_. True, fork_ok = \<lambda>_. True\<rparr> k' xs) = fst (filtrar_multiplos os k xs) @ rest"
proof (induction os k xs arbitrary: k' rule: filtrar_multiplos.induct)
  case (2 os k primo xs)
  show ?case
  proof (cases "pipe_ok os k \<and> fork_ok os k")
    case True
    then show ?thesis using 2 [of "Suc k'"] by (auto split: prod.splits)
  qed (auto split: prod.splits)
qed simp

section \<open>What xargs executes\<close>

lemma procesar_ok:
  assumes "\<And>k. fork_ok os k" "length buf < NARGS"
  shows "snd (procesar_lineas os k c buf ls) = EXIT_SUCCESS \<and>
    concat (map tl (fst (procesar_lineas os k c buf ls))) = buf @ map linea_arg ls \<and>
    (\<forall>argv \<in> set (fst (procesar_lineas os k c buf ls)). hd argv = c \<and> 2 \<le> length argv \<and> length argv \<le> NARGS + 1) \<and>
    (\<forall>argv \<in> set (butlast (fst (procesar_lineas os k c buf ls))). length argv = NARGS + 1)"
  using assms(2)
proof (induction ls arbitrary: k buf)
  case Nil
  then show ?case using assms(1) by (auto simp: ejecutar_comando_def Suc_le_eq)
next
  case (Cons l ls)
  show ?case
  proof (cases "length (buf @ [linea_arg l]) = NARGS")
    case False
    then show ?thesis using Cons.IH [of "buf @ [linea_arg l]" k] Cons.prems by simp
  next
    case True
    obtain ex code where ex: "procesar_lineas os (Suc k) c [] ls = (ex, code)" by fastforce
    then show ?thesis using Cons.IH [of "[]" "Suc k"] True assms(1) by (auto simp: ejecutar_comando_def)
  qed
qed

end
