(* ===== verification/Fork_Unix.thy ===== *)
theory Fork_Unix
  imports Fork_Programs
begin

unbundle bit_operations_syntax

text \<open>
  Small Unix tools: \<^verbatim>\<open>cp\<close>, \<^verbatim>\<open>ls\<close> and \<^verbatim>\<open>ps\<close> (\<^verbatim>\<open>src/TP Fork/challenge_unix\<close>) and a tracer of system calls
  (\<^verbatim>\<open>src/TP Fork/challenge_strace\<close>). The files of the host are a map from paths; the calls of the host that can fail for
  reasons of their own have a parameter that says so. Messages on standard error are left out.
\<close>

section \<open>cp\<close>

datatype file_type = Regular | Directory | Symlink | Char_Device | Block_Device | Fifo | Socket

record host_file =
  ftype :: file_type
  fmode :: nat
  fdata :: string

type_synonym files = "string \<rightharpoonup> host_file"

record cp_host =
  can_open :: bool
  can_fstat :: bool
  can_create :: bool
  can_truncate :: bool
  can_map_src :: bool
  can_map_dst :: bool
  umask :: "nat \<Rightarrow> nat"

text \<open>The descriptor of an open file is its path; \<^term>\<open>None\<close> is the result -1.\<close>

definition open_and_validate_source :: "cp_host \<Rightarrow> string \<Rightarrow> files \<Rightarrow> (string \<times> host_file) option" where
  "open_and_validate_source h path fs =
     (case fs path of
        None \<Rightarrow> None
      | Some f \<Rightarrow>
          if \<not> can_open h then None
          else if \<not> can_fstat h then None
          else if ftype f \<noteq> Regular then None
          else Some (path, f))"

definition create_dest :: "cp_host \<Rightarrow> string \<Rightarrow> nat \<Rightarrow> files \<Rightarrow> (string \<times> files) option" where
  "create_dest h path mode fs =
     (if fs path \<noteq> None then None
      else if \<not> can_create h then None
      else Some (path, fs(path \<mapsto> \<lparr>ftype = Regular, fmode = umask h mode, fdata = []\<rparr>)))"

text \<open>\<^verbatim>\<open>ftruncate\<close> to a larger size fills with NUL bytes; \<^verbatim>\<open>memcpy\<close> through the shared mapping writes them over.\<close>

definition copy_data :: "cp_host \<Rightarrow> string \<Rightarrow> string \<Rightarrow> nat \<Rightarrow> files \<Rightarrow> bool \<times> files" where
  "copy_data h src_fd dst_fd len fs =
     (if \<not> can_truncate h then (False, fs)
      else
        let fs = (case fs dst_fd of None \<Rightarrow> fs | Some f \<Rightarrow> fs(dst_fd \<mapsto> f\<lparr>fdata := take len (fdata f) @ replicate (len - length (fdata f)) NUL\<rparr>)) in
        if \<not> can_map_src h then (False, fs)
        else if \<not> can_map_dst h then (False, fs)
        else (True, case (fs src_fd, fs dst_fd) of
            (Some s, Some d) \<Rightarrow> fs(dst_fd \<mapsto> d\<lparr>fdata := take len (fdata s) @ drop len (fdata d)\<rparr>)
          | _ \<Rightarrow> fs))"

definition copy_file :: "cp_host \<Rightarrow> string \<Rightarrow> string \<Rightarrow> files \<Rightarrow> bool \<times> files" where
  "copy_file h src_path dst_path fs =
     (case open_and_validate_source h src_path fs of
        None \<Rightarrow> (False, fs)
      | Some (src_fd, st) \<Rightarrow>
          (case create_dest h dst_path (fmode st) fs of
             None \<Rightarrow> (False, fs)
           | Some (dst_fd, fs) \<Rightarrow>
               let (ok, fs) = (if length (fdata st) > 0 then copy_data h src_fd dst_fd (length (fdata st)) fs else (True, fs))
               in (ok, if \<not> ok then fs(dst_path := None) else fs)))"

definition cp_main :: "cp_host \<Rightarrow> string list \<Rightarrow> files \<Rightarrow> exit_code \<times> files" where
  "cp_main h argv fs =
     (if length argv \<noteq> 3 then (EXIT_FAILURE, fs)
      else let (ok, fs) = copy_file h (argv ! 1) (argv ! 2) fs in (if ok then EXIT_SUCCESS else EXIT_FAILURE, fs))"

section \<open>ls\<close>

record file_info =
  ftype_char :: char
  perms :: nat
  uid :: nat
  fname :: string
  link_target :: string
  is_link :: bool

record stat =
  st_type :: file_type
  st_mode :: nat
  st_uid :: nat

definition get_file_type_symbol :: "file_type option \<Rightarrow> char" where
  "get_file_type_symbol mode =
     (case mode of
        Some Regular \<Rightarrow> CHR ''-'' | Some Directory \<Rightarrow> CHR ''d'' | Some Symlink \<Rightarrow> CHR ''l'' | Some Char_Device \<Rightarrow> CHR ''c''
      | Some Block_Device \<Rightarrow> CHR ''b'' | Some Fifo \<Rightarrow> CHR ''p'' | Some Socket \<Rightarrow> CHR ''s'' | None \<Rightarrow> CHR ''?'')"

text \<open>\<open>lstat\<close> and \<open>readlink\<close> are what the host answers for a path; the path is cut at 4095 characters, names and targets at 255.\<close>

definition read_file_info ::
  "(string \<Rightarrow> stat option) \<Rightarrow> (string \<Rightarrow> string option) \<Rightarrow> string \<Rightarrow> string \<Rightarrow> file_info option" where
  "read_file_info lstat readlink dirpath name =
     (let path = take 4095 (dirpath @ ''/'' @ name) in
      case lstat path of
        None \<Rightarrow> None
      | Some st \<Rightarrow> Some
          \<lparr>ftype_char = get_file_type_symbol (Some (st_type st)), perms = st_mode st mod 512, uid = st_uid st, fname = take 255 name,
           link_target = (if st_type st = Symlink then case readlink path of Some t \<Rightarrow> take 255 t | None \<Rightarrow> [] else []),
           is_link = (st_type st = Symlink)\<rparr>)"

fun numeral_in :: "nat \<Rightarrow> nat \<Rightarrow> string" where
  "numeral_in base n = (if n < base \<or> base < 2 then [char_of (48 + n)] else numeral_in base (n div base) @ [char_of (48 + n mod base)])"

declare numeral_in.simps [simp del]

definition padded :: "nat \<Rightarrow> char \<Rightarrow> string \<Rightarrow> string" where
  "padded w c s = replicate (w - length s) c @ s"

definition print_file_info :: "file_info \<Rightarrow> string" where
  "print_file_info info =
     [ftype_char info] @ '' '' @ padded 3 (CHR ''0'') (numeral_in 8 (perms info)) @ '' '' @ numeral_in 10 (uid info) @ '' '' @ fname info @
     (if is_link info \<and> link_target info \<noteq> [] then '' -> '' @ link_target info else []) @ [CHR 0x0A]"

definition list_dir ::
  "(string \<Rightarrow> stat option) \<Rightarrow> (string \<Rightarrow> string option) \<Rightarrow> (string \<Rightarrow> string list option) \<Rightarrow> string \<Rightarrow> string" where
  "list_dir lstat readlink readdir path =
     (case readdir path of
        None \<Rightarrow> []
      | Some names \<Rightarrow> concat (map (\<lambda>name. case read_file_info lstat readlink path name of
            None \<Rightarrow> [] | Some info \<Rightarrow> print_file_info info) names))"

fun list_args ::
  "(string \<Rightarrow> stat option) \<Rightarrow> (string \<Rightarrow> string option) \<Rightarrow> (string \<Rightarrow> string list option) \<Rightarrow> bool \<Rightarrow> string list \<Rightarrow> string" where
  "list_args lstat readlink readdir many [] = []"
| "list_args lstat readlink readdir many (a # as) =
     (if many then a @ '':'' @ [CHR 0x0A] else []) @ list_dir lstat readlink readdir a @
     (if many \<and> as \<noteq> [] then [CHR 0x0A] else []) @ list_args lstat readlink readdir many as"

definition ls_main ::
  "(string \<Rightarrow> stat option) \<Rightarrow> (string \<Rightarrow> string option) \<Rightarrow> (string \<Rightarrow> string list option) \<Rightarrow> string list \<Rightarrow> string" where
  "ls_main lstat readlink readdir argv =
     (if length argv = 1 then list_dir lstat readlink readdir ''.''
      else list_args lstat readlink readdir (length argv > 2) (drop 1 argv))"

section \<open>ps\<close>

record process_info =
  pid :: int
  comm :: string

definition is_numeric :: "string \<Rightarrow> bool" where
  "is_numeric str \<longleftrightarrow> list_all isdigit str"

text \<open>\<open>comm_of\<close> is the first line of the file, with its newline, as \<^verbatim>\<open>fgets\<close> reads it into 256 bytes.\<close>

definition read_process_info :: "(string \<Rightarrow> string option) \<Rightarrow> string \<Rightarrow> process_info option" where
  "read_process_info comm_of pid_str =
     (case comm_of (take 511 (''/proc/'' @ pid_str @ ''/comm'')) of
        None \<Rightarrow> None
      | Some [] \<Rightarrow> None
      | Some line \<Rightarrow>
          let line = cstr_of (take 255 line) in
          Some \<lparr>pid = atoi pid_str, comm = (if line \<noteq> [] \<and> last line = CHR 0x0A then butlast line else line)\<rparr>)"

definition print_process :: "process_info \<Rightarrow> string" where
  "print_process info =
     padded 6 (CHR '' '') ((if pid info < 0 then ''-'' else []) @ numeral_in 10 (nat \<bar>pid info\<bar>)) @ '' '' @ comm info @ [CHR 0x0A]"

definition list_processes :: "(string \<Rightarrow> string option) \<Rightarrow> string list option \<Rightarrow> int \<times> string" where
  "list_processes comm_of proc =
     (case proc of
        None \<Rightarrow> (- 1, [])
      | Some names \<Rightarrow> (0, padded 6 (CHR '' '') ''PID'' @ '' COMMAND'' @ [CHR 0x0A] @
          concat (map (\<lambda>name. if \<not> is_numeric name then [] else case read_process_info comm_of name of
            None \<Rightarrow> [] | Some info \<Rightarrow> print_process info) names)))"

section \<open>strace\<close>

definition syscall_names :: "string list" where
  "syscall_names =
     [''read'', ''write'', ''open'', ''close'', ''stat'', ''fstat'', ''lstat'', ''poll'', ''lseek'', ''mmap'',
      ''mprotect'', ''munmap'', ''brk'', ''rt_sigaction'', ''rt_sigprocmask'', ''rt_sigreturn'', ''ioctl'',
      ''pread64'', ''pwrite64'', ''readv'', ''writev'', ''access'', ''pipe'', ''select'', ''sched_yield'',
      ''mremap'', ''msync'', ''mincore'', ''madvise'', ''shmget'', ''shmat'', ''shmctl'', ''dup'', ''dup2'',
      ''pause'', ''nanosleep'', ''getitimer'', ''alarm'', ''setitimer'', ''getpid'', ''sendfile'', ''socket'',
      ''connect'', ''accept'', ''sendto'', ''recvfrom'', ''sendmsg'', ''recvmsg'', ''shutdown'', ''bind'',
      ''listen'', ''getsockname'', ''getpeername'', ''socketpair'', ''setsockopt'', ''getsockopt'', ''clone'',
      ''fork'', ''vfork'', ''execve'', ''exit'', ''wait4'', ''kill'', ''uname'', ''semget'', ''semop'', ''semctl'',
      ''shmdt'', ''msgget'', ''msgsnd'', ''msgrcv'', ''msgctl'', ''fcntl'', ''flock'', ''fsync'', ''fdatasync'',
      ''truncate'', ''ftruncate'', ''getdents'', ''getcwd'', ''chdir'', ''fchdir'', ''rename'', ''mkdir'', ''rmdir'',
      ''creat'', ''link'', ''unlink'', ''symlink'', ''readlink'', ''chmod'', ''fchmod'', ''chown'', ''fchown'',
      ''lchown'', ''umask'', ''gettimeofday'', ''getrlimit'', ''getrusage'', ''sysinfo'', ''times'', ''ptrace'',
      ''getuid'', ''syslog'', ''getgid'', ''setuid'', ''setgid'', ''geteuid'', ''getegid'', ''setpgid'', ''getppid'',
      ''getpgrp'', ''setsid'', ''setreuid'', ''setregid'', ''getgroups'', ''setgroups'', ''setresuid'',
      ''getresuid'', ''setresgid'', ''getresgid'', ''getpgid'', ''setfsuid'', ''setfsgid'', ''getsid'', ''capget'',
      ''capset'', ''rt_sigpending'', ''rt_sigtimedwait'', ''rt_sigqueueinfo'', ''rt_sigsuspend'', ''sigaltstack'',
      ''utime'', ''mknod'', ''uselib'', ''personality'', ''ustat'', ''statfs'', ''fstatfs'', ''sysfs'',
      ''getpriority'', ''setpriority'', ''sched_setparam'', ''sched_getparam'', ''sched_setscheduler'',
      ''sched_getscheduler'', ''sched_get_priority_max'', ''sched_get_priority_min'', ''sched_rr_get_interval'',
      ''mlock'', ''munlock'', ''mlockall'', ''munlockall'', ''vhangup'', ''modify_ldt'', ''pivot_root'', ''_sysctl'',
      ''prctl'', ''arch_prctl'', ''adjtimex'', ''setrlimit'', ''chroot'', ''sync'', ''acct'', ''settimeofday'',
      ''mount'', ''umount2'', ''swapon'', ''swapoff'', ''reboot'', ''sethostname'', ''setdomainname'', ''iopl'',
      ''ioperm'', ''create_module'', ''init_module'', ''delete_module'', ''get_kernel_syms'', ''query_module'',
      ''quotactl'', ''nfsservctl'', ''getpmsg'', ''putpmsg'', ''afs_syscall'', ''tuxcall'', ''security'', ''gettid'',
      ''readahead'', ''setxattr'', ''lsetxattr'', ''fsetxattr'', ''getxattr'', ''lgetxattr'', ''fgetxattr'',
      ''listxattr'', ''llistxattr'', ''flistxattr'', ''removexattr'', ''lremovexattr'', ''fremovexattr'', ''tkill'',
      ''time'', ''futex'', ''sched_setaffinity'', ''sched_getaffinity'', ''set_thread_area'', ''io_setup'',
      ''io_destroy'', ''io_getevents'', ''io_submit'', ''io_cancel'', ''get_thread_area'', ''lookup_dcookie'',
      ''epoll_create'', ''epoll_ctl_old'', ''epoll_wait_old'', ''remap_file_pages'', ''getdents64'',
      ''set_tid_address'', ''restart_syscall'', ''semtimedop'', ''fadvise64'', ''timer_create'', ''timer_settime'',
      ''timer_gettime'', ''timer_getoverrun'', ''timer_delete'', ''clock_settime'', ''clock_gettime'',
      ''clock_getres'', ''clock_nanosleep'', ''exit_group'', ''epoll_wait'', ''epoll_ctl'', ''tgkill'', ''utimes'',
      ''vserver'', ''mbind'', ''set_mempolicy'', ''get_mempolicy'', ''mq_open'', ''mq_unlink'', ''mq_timedsend'',
      ''mq_timedreceive'', ''mq_notify'', ''mq_getsetattr'', ''kexec_load'', ''waitid'', ''add_key'',
      ''request_key'', ''keyctl'', ''ioprio_set'', ''ioprio_get'', ''inotify_init'', ''inotify_add_watch'',
      ''inotify_rm_watch'', ''migrate_pages'', ''openat'', ''mkdirat'', ''mknodat'', ''fchownat'', ''futimesat'',
      ''newfstatat'', ''unlinkat'', ''renameat'', ''linkat'', ''symlinkat'', ''readlinkat'', ''fchmodat'',
      ''faccessat'', ''pselect6'', ''ppoll'', ''unshare'', ''set_robust_list'', ''get_robust_list'', ''splice'',
      ''tee'', ''sync_file_range'', ''vmsplice'', ''move_pages'', ''utimensat'', ''epoll_pwait'', ''signalfd'',
      ''timerfd_create'', ''eventfd'', ''fallocate'', ''timerfd_settime'', ''timerfd_gettime'', ''accept4'',
      ''signalfd4'', ''eventfd2'', ''epoll_create1'', ''dup3'', ''pipe2'', ''inotify_init1'', ''preadv'',
      ''pwritev'', ''rt_tgsigqueueinfo'', ''perf_event_open'', ''recvmmsg'', ''fanotify_init'', ''fanotify_mark'',
      ''prlimit64'', ''name_to_handle_at'', ''open_by_handle_at'', ''clock_adjtime'', ''syncfs'', ''sendmmsg'',
      ''setns'', ''getcpu'', ''process_vm_readv'', ''process_vm_writev'', ''kcmp'', ''finit_module'',
      ''sched_setattr'', ''sched_getattr'', ''renameat2'', ''seccomp'', ''getrandom'', ''memfd_create'',
      ''kexec_file_load'', ''bpf'', ''execveat'', ''userfaultfd'', ''membarrier'', ''mlock2'', ''copy_file_range'',
      ''preadv2'', ''pwritev2'', ''pkey_mprotect'', ''pkey_alloc'', ''pkey_free'', ''statx'', ''io_pgetevents'',
      ''rseq'', ''uretprobe'']"

definition get_syscall_name :: "int \<Rightarrow> string" where
  "get_syscall_name nr = (if nr < 0 \<or> nr \<ge> int (length syscall_names) then ''unknown'' else syscall_names ! nat nr)"

text \<open>
  What \<^verbatim>\<open>waitpid\<close> reports for the child, after its first stop: a stop with its registers (the number of the system call and
  the result), or its end. \<^verbatim>\<open>ptrace\<close> is taken to succeed.
\<close>

datatype wait_event = Stopped int int | Ended

fun trace_child :: "bool \<Rightarrow> wait_event list \<Rightarrow> (string \<times> int) list" where
  "trace_child in_syscall [] = []"
| "trace_child in_syscall (Ended # es) = []"
| "trace_child in_syscall (Stopped orig_rax rax # es) =
     (if \<not> in_syscall then trace_child True es
      else (get_syscall_name orig_rax, rax) # trace_child False es)"

section \<open>Facts\<close>

lemma copy_file_ok:
  assumes "copy_file h s d fs = (True, fs')"
  shows "\<exists>f. fs s = Some f \<and> ftype f = Regular \<and> fs d = None \<and>
    fs' = fs(d \<mapsto> \<lparr>ftype = Regular, fmode = umask h (fmode f), fdata = fdata f\<rparr>)"
proof -
  obtain f where f: "fs s = Some f" "ftype f = Regular"
    using assms by (auto simp: copy_file_def open_and_validate_source_def split: option.splits if_splits)
  have "fs d = None"
    using assms f by (auto simp: copy_file_def open_and_validate_source_def create_dest_def split: option.splits if_splits)
  moreover have "s \<noteq> d" using f calculation by auto
  ultimately show ?thesis using assms f
    by (auto simp: copy_file_def open_and_validate_source_def create_dest_def copy_data_def Let_def split: option.splits if_splits)
qed

lemma copy_file_fails:
  assumes "copy_file h s d fs = (False, fs')"
  shows "fs' = fs"
proof (rule ext)
  fix x
  show "fs' x = fs x" using assms
    by (auto simp: copy_file_def open_and_validate_source_def create_dest_def copy_data_def Let_def split: option.splits if_splits prod.splits)
qed

text \<open>Stops come in pairs: the entry of a system call and its return.\<close>

definition call_stops :: "(int \<times> int \<times> int) list \<Rightarrow> wait_event list" where
  "call_stops cs = concat (map (\<lambda>(nr, at_entry, ret). [Stopped nr at_entry, Stopped nr ret]) cs)"

lemma trace_calls: "trace_child False (call_stops cs @ es) = map (\<lambda>(nr, _, ret). (get_syscall_name nr, ret)) cs @ trace_child False es"
  by (induction cs) (auto simp: call_stops_def)

text \<open>A stop for a signal is counted like one for a system call: from then on entries are reported as returns.\<close>

lemma trace_shifted:
  "trace_child True (call_stops cs @ [Ended]) = map (\<lambda>(nr, at_entry, _). (get_syscall_name nr, at_entry)) cs"
  by (induction cs) (auto simp: call_stops_def)

end
