(* ===== verification/Fork_Theorems.thy ===== *)
theory Fork_Theorems
  imports Fork_Unix
begin

text \<open>The properties of the programs under \<^verbatim>\<open>src/TP Fork\<close>.\<close>



text \<open>
  \<^verbatim>\<open>xargs\<close> passes on every line of its input once and in order: when every process can be created, the arguments of the
  executions, put together, are the lines without their newlines; every execution runs the given command with one to four
  of them, and all but the last with exactly four.
\<close>

theorem xargs_batches:
  assumes "\<And>k. fork_ok os k" and "length argv = 2"
  shows "\<exists>execs. xargs_main os argv lineas = (execs, EXIT_SUCCESS) \<and> concat (map tl execs) = map linea_arg lineas \<and>
    (\<forall>e \<in> set execs. hd e = argv ! 1 \<and> 2 \<le> length e \<and> length e \<le> 5) \<and> (\<forall>e \<in> set (butlast execs). length e = 5)"
  using procesar_ok [OF assms(1), of "[]" 0 "argv ! 1" lineas] assms(2)
  by (cases "procesar_lineas os 0 (argv ! 1) [] lineas") (simp add: xargs_main_def procesar_entrada_def)

theorem xargs_batches_witness:
  "\<exists>execs. xargs_main \<lparr>pipe_ok = \<lambda>_. True, fork_ok = \<lambda>_. True\<rparr> [''xargs'', ''echo''] [''a'', ''b'', ''c'', ''d'', ''e''] = (execs, EXIT_SUCCESS) \<and>
    concat (map tl execs) = map linea_arg [''a'', ''b'', ''c'', ''d'', ''e''] \<and>
    (\<forall>e \<in> set execs. hd e = [''xargs'', ''echo''] ! 1 \<and> 2 \<le> length e \<and> length e \<le> 5) \<and> (\<forall>e \<in> set (butlast execs). length e = 5)"
  by (rule xargs_batches) simp_all

text \<open>
  C40. \<^verbatim>\<open>cp\<close> copies all or nothing: when it succeeds the source is a regular file, the destination did not exist and is now a
  regular file with the same contents and the mode of the source (as the mask of the process allows), and no other file
  has changed; when it fails at any step, no file has changed at all.
\<close>

theorem cp_all_or_nothing:
  "(case cp_main h argv fs of
      (EXIT_FAILURE, fs') \<Rightarrow> fs' = fs
    | (EXIT_SUCCESS, fs') \<Rightarrow> length argv = 3 \<and> (\<exists>f. fs (argv ! 1) = Some f \<and> ftype f = Regular \<and> fs (argv ! 2) = None \<and>
        fs' = fs(argv ! 2 \<mapsto> \<lparr>ftype = Regular, fmode = umask h (fmode f), fdata = fdata f\<rparr>)))"
proof -
  obtain ok fs' where c: "copy_file h (argv ! 1) (argv ! 2) fs = (ok, fs')" by fastforce
  show ?thesis
  proof (cases "length argv = 3")
    case True
    then show ?thesis using c copy_file_ok [of h "argv ! 1" "argv ! 2" fs fs'] copy_file_fails [of h "argv ! 1" "argv ! 2" fs fs']
      by (cases ok) (simp_all add: cp_main_def)
  qed (simp add: cp_main_def)
qed

end
