(* ===== verification/Spec2Isabelle.thy ===== *)
theory Spec2Isabelle
  imports Fs_Theorems Shell_Theorems Kern_Run_Theorems Kern_Entry_Theorems Lib_Fork_Theorems Kern_Dev_Theorems Lib_Theorems Fork_Theorems
begin

text \<open>
  \<^bold>\<open>The repository.\<close> Four independent C programs written for an operating-systems course: a FUSE file system
  (\<^verbatim>\<open>src/TP File System\<close>), a command shell (\<^verbatim>\<open>src/TP Shell\<close>), a teaching kernel (\<^verbatim>\<open>src/TP Sched\<close>), and a set of small
  Unix programs (\<^verbatim>\<open>src/TP Fork\<close>). This development models the logic of all four.

  \<^bold>\<open>Conventions.\<close> The model is a shallow embedding. A C structure is a record, a tagged union a datatype, a fixed-width
  integer a machine word, and a stateful function takes the state and returns it updated. \<^term>\<open>None\<close> is behaviour that
  C leaves undefined (an access outside an array, a null pointer) or a panic of the kernel, so that a theorem which says
  that a call gives \<^term>\<open>Some\<close> says that it is safe; error codes are ordinary results. Loops are total functions (by
  structural recursion, or with a termination proof), except those that wait for input or may never end (the interrupt
  loop of the console, the line editor, the monitor), which are partial functions into \<^typ>\<open>'a option\<close>, so that their theorems
  say that they return. Only the passes over the list of free pages in the self-tests carry a bound, the number of pages, and are
  \<^term>\<open>None\<close> beyond it, that is, on a circular list. What lies outside the sources, such as the answers
  of the host system to \<^verbatim>\<open>open\<close> or \<^verbatim>\<open>fork\<close>, the clock, or the address of a page fault, is a parameter. \<^verbatim>\<open>Prelude\<close> holds the byte
  memory, C strings and the shared lemmas.

  \<^bold>\<open>File system.\<close>
  \<^item> \<^verbatim>\<open>Fs_Types\<close>: superblock, inode, allocation maps and the whole \<^verbatim>\<open>filesystem_t\<close> (the headers under \<^verbatim>\<open>src/\<close>).
  \<^item> \<^verbatim>\<open>Intmap\<close> (\<^verbatim>\<open>intmap.c\<close>): both allocation maps, as instances of the interface \<open>slot_map\<close>.
  \<^item> \<^verbatim>\<open>Inode\<close> (\<^verbatim>\<open>inode.c\<close>): inodes and the allocation invariant \<open>meta_inv\<close>.
  \<^item> \<^verbatim>\<open>Directory\<close> (\<^verbatim>\<open>directory.c\<close>): the directory laid over the block array, shown to implement a table of names
    (interface \<open>name_table\<close>).
  \<^item> \<^verbatim>\<open>Filesystem\<close> (\<^verbatim>\<open>filesystem.c\<close>): path resolution, creation, deletion, reading, writing, links and attributes;
    \<^verbatim>\<open>Fisopfs\<close> (\<^verbatim>\<open>fisopfs.c\<close>): the FUSE callbacks, the image file, \<^verbatim>\<open>main\<close>.
  \<^item> \<^verbatim>\<open>Filesystem_Inv\<close>, \<^verbatim>\<open>Filesystem_Data\<close>, \<^verbatim>\<open>Filesystem_Ops\<close>: the invariant under every operation, the contents of files, and
    the functional behaviour; \<^verbatim>\<open>Fs_Theorems\<close> states the properties: the state reachable through the callbacks is
    consistent, what is written is read back and nothing else changes, paths resolve as in the tree of directories, creating
    and unlinking do what they promise; and where the code fails (sparse writes, long paths, \<^verbatim>\<open>rmdir\<close>, a directory
    larger than its block).

  \<^bold>\<open>Shell.\<close>
  \<^item> \<^verbatim>\<open>Shell_Parse\<close> (\<^verbatim>\<open>parsing.c\<close>, \<^verbatim>\<open>utils.c\<close>, \<^verbatim>\<open>createcmd.c\<close>, \<^verbatim>\<open>freecmd.c\<close>): the parser, which cuts the line in place;
    \<^verbatim>\<open>Shell_Spec\<close>: what it computes, on plain strings, and the proof that it does.
  \<^item> \<^verbatim>\<open>Shell_Exec\<close> (\<^verbatim>\<open>exec.c\<close>, \<^verbatim>\<open>builtin.c\<close>, \<^verbatim>\<open>runcmd.c\<close>, \<^verbatim>\<open>printstatus.c\<close>, \<^verbatim>\<open>readline.c\<close>, \<^verbatim>\<open>sh.c\<close>): the processes a line becomes, with
    their descriptors and environment, the built-in commands, \<^verbatim>\<open>$?\<close> and the read loop.
  \<^item> \<^verbatim>\<open>Shell_Theorems\<close>: the parser refines its specification, a pipeline is wired as written, every error path of a single
    command, the status, a session; and the lines that crash the shell.

  \<^bold>\<open>Kernel.\<close> One record \<open>kernel\<close> extends the record \<open>machine\<close> of physical pages with the environments (the processes of this
  kernel), the processors and the statistics of the scheduler. A page, its descriptor and its kernel address are all the page
  number; the contents of a page are 1024 words. The intrusive free lists of pages and of environments are two
  instances of the interface \<open>free_list\<close> of \<^verbatim>\<open>Kern_List\<close>.
  \<^item> \<^verbatim>\<open>Kern_Pmap\<close> (\<^verbatim>\<open>kern/pmap.c\<close>, \<^verbatim>\<open>inc/mmu.h\<close>): pages, reference counts, two-level page tables, the check of user addresses.
    \<^verbatim>\<open>Kern_Pmap_Inv\<close>: the invariant \<open>mem_inv\<close> (every count is the number of places that refer to the page; tables are
    not shared; free pages are unreferenced) and what each operation does to the mapping \<open>entry\<close>. \<^verbatim>\<open>Kern_Usermem\<close>: the
    loop of \<^verbatim>\<open>user_mem_check\<close>. \<^verbatim>\<open>Kern_Vm\<close>: whole address spaces, built by \<^verbatim>\<open>env_setup_vm\<close> and taken down by \<^verbatim>\<open>env_free\<close>.
  \<^item> \<^verbatim>\<open>Kern_Env\<close> (\<^verbatim>\<open>kern/env.c\<close>), \<^verbatim>\<open>Kern_Sched\<close> (\<^verbatim>\<open>kern/sched.c\<close>) with \<^verbatim>\<open>Kern_Sched_Props\<close>: environments and the two schedulers.
  \<^item> \<^verbatim>\<open>Kern_Syscall\<close> (\<^verbatim>\<open>kern/syscall.c\<close>): every system call; \<^verbatim>\<open>Kern_Trap\<close> (\<^verbatim>\<open>kern/trap.c\<close>): entry, dispatch and page faults, whose
    frame is written byte by byte through the page tables of the program.
  \<^item> \<^verbatim>\<open>Kern_Inv\<close>: the invariant \<open>kern_inv\<close> of the kernel with one processor, which ties environments, address spaces and
    memory together; \<^verbatim>\<open>Kern_Sys_Inv\<close>, \<^verbatim>\<open>Kern_Trap_Props\<close> and \<^verbatim>\<open>Kern_Run\<close> show that every system call, every trap and every run keeps
    it, under hypotheses that exclude exactly the defects found (a reference count at its limit, permissions with
    address bits, an unmapped page in a message, the end of the exception stack).
  \<^item> \<^verbatim>\<open>Kern_Theorems\<close> and \<^verbatim>\<open>Kern_Run_Theorems\<close> state the properties: mapping, unmapping and the counts, progress
    of round robin, the choice by priority, delivery of page faults, safety of runs; and the defects.

  \<^item> \<^verbatim>\<open>Kern_Boot\<close> (\<^verbatim>\<open>kern/pmap.c\<close>): \<^verbatim>\<open>mem_init\<close> with the boot allocator, the directory of the kernel and all the self-tests, which
    change the state while they run; its stores before the directory is loaded are checked against \<^verbatim>\<open>entry_pgdir\<close> of \<^verbatim>\<open>entrypgdir.c\<close>. \<^verbatim>\<open>Kern_Boot_Props\<close>: the list of free pages that \<^verbatim>\<open>page_init\<close> builds and \<^verbatim>\<open>check_page_free_list\<close> sorts;
    \<^verbatim>\<open>Kern_Boot_Check\<close>: the tests of the allocator and of page tables, executed symbolically on three pages; \<^verbatim>\<open>Kern_Boot_Map\<close>: the
    invariant \<open>kmap\<close> of the directory of the kernel under \<^verbatim>\<open>boot_map_region\<close> and \<^verbatim>\<open>mmio_map_region\<close>; \<^verbatim>\<open>Kern_Boot_Init\<close>: the whole of \<^verbatim>\<open>mem_init\<close>.
  \<^item> \<^verbatim>\<open>Kern_Load\<close> (\<^verbatim>\<open>kern/env.c\<close>, \<^verbatim>\<open>inc/elf.h\<close>, \<^verbatim>\<open>kern/init.c\<close>): the loader of programs and the parts of \<^verbatim>\<open>i386_init\<close> that change memory. \<^verbatim>\<open>Kern_Load_Props\<close>: address spaces by
    bytes, regions of pages, segments; \<^verbatim>\<open>Kern_Start\<close>: the creation of the programs and the first one to run. \<^verbatim>\<open>Kern_Boot_Theorems\<close>
    states the properties: on a machine with enough memory every self-test succeeds and the layout is the documented one, programs cannot
    touch the kernel, and a program is loaded as its image says.
  \<^item> \<^verbatim>\<open>Kern_Desc\<close> (\<^verbatim>\<open>inc/mmu.h\<close>, \<^verbatim>\<open>kern/env.c\<close>, \<^verbatim>\<open>kern/trap.c\<close>, \<^verbatim>\<open>trapentry.S\<close>, \<^verbatim>\<open>switch.S\<close>): descriptors and gates bit field by bit field, the tables of the
    processor, its registers, and the way into the kernel and back. \<^verbatim>\<open>Kern_Desc_Props\<close>: the tables that \<^verbatim>\<open>trap_init\<close> leaves, the frame on the kernel
    stack, the return. \<^verbatim>\<open>Kern_Irq\<close> (\<^verbatim>\<open>kern/picirq.c\<close>, \<^verbatim>\<open>lapic.c\<close>, \<^verbatim>\<open>kclock.c\<close>, the initialisation in \<^verbatim>\<open>console.c\<close>): the controllers, by the writes to
    their registers. \<^verbatim>\<open>Kern_Smp\<close> (\<^verbatim>\<open>boot_aps\<close>, \<^verbatim>\<open>mp_main\<close>, \<^verbatim>\<open>mpentry.S\<close>): the start of the other processors as an inductive step relation, with its
    invariant and a measure that every step decreases. \<^verbatim>\<open>Kern_Init\<close>: the whole of \<^verbatim>\<open>i386_init\<close>, which calls all of these.
    \<^verbatim>\<open>Kern_Entry_Theorems\<close> states the properties: a program enters only
    through the gates meant for it, a trap saves the program and the return restores it, every processor comes up whatever the order of the
    steps, and the kernel starts in a state from which every run is safe; and what happens when a key is pressed.
  \<^item> \<^verbatim>\<open>Kern_Console\<close> (\<^verbatim>\<open>kern/console.c\<close>) with \<^verbatim>\<open>Kern_Console_Props\<close>: keyboard, serial line and display; the ring buffer is an instance of the
    interface \<open>bounded_queue\<close>. \<^verbatim>\<open>Kern_Monitor\<close> (\<^verbatim>\<open>kern/monitor.c\<close>, \<^verbatim>\<open>lib/readline.c\<close>, \<^verbatim>\<open>kern/printf.c\<close>) with \<^verbatim>\<open>Kern_Monitor_Props\<close>: printing, the line
    editor, the commands. \<^verbatim>\<open>Kern_Debug\<close> (\<^verbatim>\<open>kern/kdebug.c\<close>) with \<^verbatim>\<open>Kern_Debug_Props\<close>: the search of symbol tables. \<^verbatim>\<open>Kern_Lock\<close>
    (\<^verbatim>\<open>kern/spinlock.c\<close>): the lock as a step relation of interleaved processors. \<^verbatim>\<open>Kern_Mp\<close> (\<^verbatim>\<open>kern/mpconfig.c\<close>): the table of
    processors. \<^verbatim>\<open>Kern_Dev_Theorems\<close> states their properties: characters come out in the order they went in, the display is
    not overrun, the interrupt routine returns, lines are edited as typed, the search finds the entry of an address, the
    lock excludes, the processors are found.

  \<^bold>\<open>Library of the kernel.\<close>
  \<^item> \<^verbatim>\<open>Lib_String\<close> (\<^verbatim>\<open>lib/string.c\<close>) and \<^verbatim>\<open>Lib_Printf\<close> (\<^verbatim>\<open>lib/printfmt.c\<close>, \<^verbatim>\<open>lib/printf.c\<close>) on a flat byte memory, with \<^verbatim>\<open>Lib_String_Props\<close>,
    \<^verbatim>\<open>Lib_Printf_Props\<close> and the properties in \<^verbatim>\<open>Lib_Theorems\<close>: copies with overlap, bounded printing, numbers survive printing
    and reading.
  \<^item> \<^verbatim>\<open>Lib_User\<close> (\<^verbatim>\<open>lib/syscall.c\<close>, \<^verbatim>\<open>fork.c\<close>, \<^verbatim>\<open>pgfault.c\<close>, \<^verbatim>\<open>ipc.c\<close>, \<^verbatim>\<open>exit.c\<close>, \<^verbatim>\<open>libmain.c\<close>): what a program calls. A stub enters the kernel
    model through \<^verbatim>\<open>trap\<close>, so that a theorem about \<^verbatim>\<open>fork\<close> is one about the library and the kernel together.
    \<^verbatim>\<open>Lib_User_Props\<close>: the way in and out of the kernel and the calls that map pages; \<^verbatim>\<open>Lib_Fork_Props\<close>: the page-fault handler;
    \<^verbatim>\<open>Lib_Child_Props\<close>: \<^verbatim>\<open>sys_exofork\<close>; \<^verbatim>\<open>Lib_Cow_Props\<close>: the loop that shares the pages, by an invariant over the pages done;
    \<^verbatim>\<open>Lib_Fork_Whole\<close>: the whole call, and messages. \<^verbatim>\<open>Lib_Fork_Theorems\<close> states the properties: a fault gives a private copy, \<^verbatim>\<open>fork\<close>
    shares every page copy on write, a value sent is the value received.

  \<^bold>\<open>Unix programs.\<close> \<^verbatim>\<open>Fork_Programs\<close> (\<^verbatim>\<open>primes.c\<close>, \<^verbatim>\<open>xargs.c\<close>) and \<^verbatim>\<open>Fork_Unix\<close> (\<^verbatim>\<open>cp.c\<close>, \<^verbatim>\<open>ls.c\<close>, \<^verbatim>\<open>ps.c\<close>, \<^verbatim>\<open>strace.c\<close>); \<^verbatim>\<open>Fork_Theorems\<close>: the sieve
  prints the primes, \<^verbatim>\<open>xargs\<close> passes on every line once, \<^verbatim>\<open>cp\<close> copies all or nothing.

  \<^bold>\<open>Bounds.\<close> Sizes are those of the source: 1024 blocks of 4096 bytes and 128 inodes, lines of 1024 bytes and 20 arguments, 1024
  environments, at most \<open>2 ^ 20\<close> pages, 16-bit reference counts. Recursions over blocks, entries, fields, pages or
  environments run over these ranges, so they end.

  \<^bold>\<open>Not modelled.\<close> The text that the shell, the scheduler and a panic print; the first instructions of the boot assembly (\<^verbatim>\<open>entry.S\<close>, and
  \<^verbatim>\<open>mpentry.S\<close> up to protected mode) and the control registers; the cursor and the waiting loops of the devices; the variant of the kernel
  with large pages; the translation cache; the test programs of \<^verbatim>\<open>src/TP Sched/user\<close> and the wrappers \<^verbatim>\<open>lib/console.c\<close> and \<^verbatim>\<open>lib/panic.c\<close> around
  system calls; test scripts. The page tables that the self-tests and \<^verbatim>\<open>mem_init\<close> reach
  through \<^verbatim>\<open>entry_pgdir\<close> are checked to be writable only for the arrays of \<^verbatim>\<open>boot_alloc\<close>. The lock is modelled
  for interleaved processors; the rest of the kernel runs under it, and its invariant is stated for one processor.
  The model of \<^verbatim>\<open>trap\<close> lets a breakpoint return, although the monitor that it calls does not (\<^verbatim>\<open>Kern_Monitor_Props\<close>).
\<close>

end
